(* ===== verification/Diadem_Prelude.thy ===== *)
theory Diadem_Prelude
  imports Main "HOL-Library.Word" "HOL-Library.List_Lexorder" "HOL-Library.Char_ord"
begin

text \<open>
  The vocabulary every component of the development shares: Go errors and fallible results,
  byte slices, chain addresses, the context a contract method is called with, and the generic
  lemmas on results, maps and finite sums that the component proofs rest on.

  Types of go-diadem that the chain only uses through their documented interface appear here
  once. A \<open>diadem.Address\<close> is a chain id and a local address; \<open>Compare\<close> is a total order
  whose value is 0 exactly on equal addresses. A \<open>diadem.BigUInt\<close> is a \<open>math/big\<close> integer,
  modelled as \<open>int\<close>, since \<open>Sub\<close> can take it below zero. A value written with
  \<open>ctx.Set\<close> is the value \<open>ctx.Get\<close> returns, so a contract's storage is a record of maps.
\<close>

section \<open>Lemma collections\<close>

named_theorems res_simps \<open>evaluation of fallible results\<close>
named_theorems store_simps \<open>reading back what an operation wrote\<close>

section \<open>Errors and fallible results\<close>

datatype go_error =
    ErrNotFound
  | Err string
  | Panic string

type_synonym 'a res = "go_error + 'a"

definition bind_res :: "'a res \<Rightarrow> ('a \<Rightarrow> 'b res) \<Rightarrow> 'b res" where
  "bind_res m k = (case m of Inl e \<Rightarrow> Inl e | Inr x \<Rightarrow> k x)"

lemma bind_res_Inl [simp, res_simps]: "bind_res (Inl e) k = Inl e"
  by (simp add: bind_res_def)

lemma bind_res_Inr [simp, res_simps]: "bind_res (Inr x) k = k x"
  by (simp add: bind_res_def)

lemma bind_res_eq_Inr_iff: "bind_res m k = Inr y \<longleftrightarrow> (\<exists>x. m = Inr x \<and> k x = Inr y)"
  by (cases m) auto

lemma bind_res_eq_Inl_iff:
  "bind_res m k = Inl e \<longleftrightarrow> m = Inl e \<or> (\<exists>x. m = Inr x \<and> k x = Inl e)"
  by (cases m) auto

lemma bind_res_cong [fundef_cong]:
  "m = m' \<Longrightarrow> (\<And>x. m' = Inr x \<Longrightarrow> k x = k' x) \<Longrightarrow> bind_res m k = bind_res m' k'"
  by (cases m') auto

lemma bind_res_assoc: "bind_res (bind_res m k) l = bind_res m (\<lambda>x. bind_res (k x) l)"
  by (cases m) auto

lemma bind_resE:
  assumes "bind_res m k = Inr y"
  obtains x where "m = Inr x" and "k x = Inr y"
  using assms by (auto simp: bind_res_eq_Inr_iff)

text \<open>
  Reading through a pointer field of a request: a nil pointer panics, and the panic is turned
  into the error of the transaction by \<open>RecoveryTxMiddleware\<close>.
\<close>

definition deref :: "'a option \<Rightarrow> 'a res" where
  "deref p = (case p of None \<Rightarrow> Inl (Panic ''nil pointer dereference'') | Some x \<Rightarrow> Inr x)"

lemma deref_simps [simp, res_simps]:
  "deref None = Inl (Panic ''nil pointer dereference'')"
  "deref (Some x) = Inr x"
  by (simp_all add: deref_def)

lemma deref_eq_Inr_iff [simp]: "deref p = Inr x \<longleftrightarrow> p = Some x"
  by (cases p) auto

text \<open>A call whose error the caller drops: the state stays what it was before the call.\<close>

definition ignore_err :: "'s \<Rightarrow> 's res \<Rightarrow> 's" where
  "ignore_err s r = (case r of Inl _ \<Rightarrow> s | Inr s' \<Rightarrow> s')"

lemma ignore_err_simps [simp, res_simps]:
  "ignore_err s (Inl e) = s"
  "ignore_err s (Inr s') = s'"
  by (simp_all add: ignore_err_def)

text \<open>
  A \<open>for\<close> loop over a slice whose body may return an error: the loop stops at the first one.
\<close>

fun fold_res :: "('a \<Rightarrow> 's \<Rightarrow> 's res) \<Rightarrow> 'a list \<Rightarrow> 's \<Rightarrow> 's res" where
  "fold_res f [] s = Inr s"
| "fold_res f (x # xs) s = bind_res (f x s) (fold_res f xs)"

lemma fold_res_append: "fold_res f (xs @ ys) s = bind_res (fold_res f xs s) (fold_res f ys)"
proof (induction xs arbitrary: s)
  case Nil
  then show ?case by simp
next
  case (Cons x xs)
  then show ?case by (cases "f x s") auto
qed

lemma fold_res_invariant:
  assumes "fold_res f xs s = Inr s'"
    and "P s"
    and step: "\<And>x s s'. x \<in> set xs \<Longrightarrow> P s \<Longrightarrow> f x s = Inr s' \<Longrightarrow> P s'"
  shows "P s'"
  using assms
proof (induction xs arbitrary: s)
  case Nil
  then show ?case by simp
next
  case (Cons x xs)
  from Cons.prems(1) obtain t where t: "f x s = Inr t" and rest: "fold_res f xs t = Inr s'"
    by (auto elim: bind_resE)
  have "P t"
    using Cons.prems(2) t by (auto intro: Cons.prems(3))
  with rest show ?case
    using Cons.prems(3) by (intro Cons.IH) auto
qed

lemma fold_res_total:
  assumes "\<And>x s. x \<in> set xs \<Longrightarrow> \<exists>s'. f x s = Inr s'"
  shows "\<exists>s'. fold_res f xs s = Inr s'"
  using assms
proof (induction xs arbitrary: s)
  case Nil
  then show ?case by simp
next
  case (Cons x xs)
  from Cons.prems obtain t where "f x s = Inr t" by fastforce
  moreover from Cons have "\<exists>s'. fold_res f xs t = Inr s'" by simp
  ultimately show ?case by simp
qed

text \<open>Changing the first element of a slice that has a property, through the pointer to it.\<close>

fun update_first :: "('a \<Rightarrow> bool) \<Rightarrow> ('a \<Rightarrow> 'a) \<Rightarrow> 'a list \<Rightarrow> 'a list" where
  "update_first P f [] = []"
| "update_first P f (x # xs) = (if P x then f x # xs else x # update_first P f xs)"

lemma map_update_first: "(\<And>x. P x \<Longrightarrow> g (f x) = g x) \<Longrightarrow> map g (update_first P f xs) = map g xs"
  by (induction xs) auto

section \<open>Bytes and addresses\<close>

type_synonym u64 = "64 word"
type_synonym u32 = "32 word"
type_synonym bytes = "8 word list"

text \<open>A Go byte slice: \<open>None\<close> is the nil slice.\<close>

type_synonym slice = "bytes option"

definition slice_len :: "slice \<Rightarrow> nat" where
  "slice_len d = (case d of None \<Rightarrow> 0 | Some b \<Rightarrow> length b)"

lemma slice_len_simps [simp]: "slice_len None = 0" "slice_len (Some b) = length b"
  by (simp_all add: slice_len_def)

text \<open>The conversion \<open>[]byte(s)\<close> of a string.\<close>

definition go_bytes :: "string \<Rightarrow> bytes" where
  "go_bytes s = map (\<lambda>c. of_nat (of_char c)) s"

lemma go_bytes_inj: "inj go_bytes"
proof -
  have "inj (\<lambda>c :: char. of_nat (of_char c) :: 8 word)"
  proof (rule injI)
    fix c d :: char
    assume "(of_nat (of_char c) :: 8 word) = of_nat (of_char d)"
    then have "unat (of_nat (of_char c) :: 8 word) = unat (of_nat (of_char d) :: 8 word)" by simp
    then show "c = d" by (simp add: unat_of_nat)
  qed
  then show ?thesis unfolding go_bytes_def by (rule inj_mapI)
qed

datatype address = Address (ChainID: string) (Local: bytes)

instantiation address :: linorder
begin
definition less_eq_address :: "address \<Rightarrow> address \<Rightarrow> bool" where
  "less_eq_address a b \<longleftrightarrow> ChainID a < ChainID b \<or> (ChainID a = ChainID b \<and> Local a \<le> Local b)"
definition less_address :: "address \<Rightarrow> address \<Rightarrow> bool" where
  "less_address a b \<longleftrightarrow> ChainID a < ChainID b \<or> (ChainID a = ChainID b \<and> Local a < Local b)"
instance
  by standard
    (auto simp: less_eq_address_def less_address_def address.expand)
end

section \<open>Big-endian integers\<close>

text \<open>
  What \<open>encoding/binary\<close> writes and reads for a \<open>uint64\<close> in big-endian order; reading fewer than
  eight bytes fails.
\<close>

fun be_bytes :: "nat \<Rightarrow> nat \<Rightarrow> bytes" where
  "be_bytes 0 n = []"
| "be_bytes (Suc k) n = be_bytes k (n div 256) @ [of_nat n]"

definition be_val :: "bytes \<Rightarrow> nat" where
  "be_val bs = foldl (\<lambda>acc b. acc * 256 + unat b) 0 bs"

definition be_encode64 :: "u64 \<Rightarrow> bytes" where
  "be_encode64 w = be_bytes 8 (unat w)"

definition be_decode64 :: "bytes \<Rightarrow> u64 option" where
  "be_decode64 bs = (if length bs < 8 then None else Some (of_nat (be_val (take 8 bs))))"

lemma length_be_bytes [simp]: "length (be_bytes k n) = k"
  by (induction k arbitrary: n) auto

lemma be_val_be_bytes: "be_val (be_bytes k n) = n mod 256 ^ k"
proof (induction k arbitrary: n)
  case 0
  then show ?case by (simp add: be_val_def)
next
  case (Suc k)
  have "be_val (be_bytes (Suc k) n) = be_val (be_bytes k (n div 256)) * 256 + n mod 256"
    by (simp add: be_val_def unat_of_nat)
  also have "\<dots> = n mod (256 * 256 ^ k)"
    by (simp add: Suc mod_mult2_eq)
  finally show ?case by simp
qed

lemma be_roundtrip [simp]: "be_decode64 (be_encode64 w) = Some w"
proof -
  have "unat w < 256 ^ 8"
    using unsigned_less [where 'a = nat, of w] by simp
  then show ?thesis
    by (simp add: be_decode64_def be_encode64_def be_val_be_bytes)
qed

lemma length_be_encode64 [simp]: "length (be_encode64 w) = 8"
  by (simp add: be_encode64_def)

section \<open>Signed integers\<close>

text \<open>The value of an \<open>int64\<close> operation whose exact result is \<open>x\<close>.\<close>

definition i64 :: "int \<Rightarrow> int" where
  "i64 x = signed_take_bit 63 x"

lemma i64_id: "- (2 ^ 63) \<le> x \<Longrightarrow> x < 2 ^ 63 \<Longrightarrow> i64 x = x"
  unfolding i64_def by (rule signed_take_bit_int_eq_self)

text \<open>Go's division by a positive number truncates towards zero; the remainder has the sign of the
  dividend.\<close>

definition go_quot :: "int \<Rightarrow> int \<Rightarrow> int" where
  "go_quot a b = (if 0 \<le> a then a div b else - ((- a) div b))"

definition go_mod :: "int \<Rightarrow> int \<Rightarrow> int" where
  "go_mod a b = a - b * go_quot a b"

lemma go_mod_nonneg: "0 \<le> a \<Longrightarrow> go_mod a b = a mod b"
  by (simp add: go_mod_def go_quot_def minus_mult_div_eq_mod)

section \<open>The context of a contract call\<close>

text \<open>
  What a method reads from \<open>contract.Context\<close> besides its own storage: the sender of the
  message, the address of the contract, the block, the time, the registry and the feature
  flags of the chain.
\<close>

record call_ctx =
  sender :: address
  contract_address :: address
  block_chain_id :: string
  block_height :: int
  now_unix :: int
  resolve :: "string \<Rightarrow> address res"
  feature_enabled :: "string \<Rightarrow> bool \<Rightarrow> bool"

text \<open>A context in which only the sender matters, for concrete runs.\<close>

definition plain_ctx :: "address \<Rightarrow> call_ctx" where
  "plain_ctx a =
     \<lparr>sender = a, contract_address = Address ''default'' [0], block_chain_id = ''default'',
      block_height = 1, now_unix = 0, resolve = (\<lambda>_. Inl ErrNotFound),
      feature_enabled = (\<lambda>_ d. d)\<rparr>"

lemma plain_ctx_simps [simp]:
  "sender (plain_ctx a) = a"
  "contract_address (plain_ctx a) = Address ''default'' [0]"
  "block_chain_id (plain_ctx a) = ''default''"
  "block_height (plain_ctx a) = 1"
  "now_unix (plain_ctx a) = 0"
  "resolve (plain_ctx a) n = Inl ErrNotFound"
  "feature_enabled (plain_ctx a) n d = d"
  by (simp_all add: plain_ctx_def)

definition ctx_get :: "('k \<rightharpoonup> 'v) \<Rightarrow> 'k \<Rightarrow> 'v res" where
  "ctx_get m k = (case m k of None \<Rightarrow> Inl ErrNotFound | Some v \<Rightarrow> Inr v)"

lemma ctx_get_simps [simp, store_simps]:
  "m k = Some v \<Longrightarrow> ctx_get m k = Inr v"
  "m k = None \<Longrightarrow> ctx_get m k = Inl ErrNotFound"
  by (simp_all add: ctx_get_def)

lemma ctx_get_eq_Inr_iff [simp]: "ctx_get m k = Inr v \<longleftrightarrow> m k = Some v"
  by (simp add: ctx_get_def split: option.split)

lemma ctx_get_eq_Inl_iff [simp]: "ctx_get m k = Inl e \<longleftrightarrow> m k = None \<and> e = ErrNotFound"
  by (auto simp: ctx_get_def split: option.split)

lemma ctx_get_update [store_simps]:
  "ctx_get (m(k \<mapsto> v)) k' = (if k' = k then Inr v else ctx_get m k')"
  by (simp add: ctx_get_def)

text \<open>
  The permissions a contract has granted, as (address, permission, role) triples:
  \<open>ctx.GrantPermissionTo\<close> adds one, \<open>ctx.HasPermission\<close> asks for the sender.
\<close>

type_synonym permissions = "(address \<times> string \<times> string) list"

definition GrantPermissionTo :: "permissions \<Rightarrow> address \<Rightarrow> string \<Rightarrow> string \<Rightarrow> permissions" where
  "GrantPermissionTo ps a perm role = List.insert (a, perm, role) ps"

definition HasPermission :: "permissions \<Rightarrow> address \<Rightarrow> string \<Rightarrow> string list \<Rightarrow> bool" where
  "HasPermission ps a perm roles \<longleftrightarrow> list_ex (\<lambda>r. (a, perm, r) \<in> set ps) roles"

definition RevokePermissionFrom :: "permissions \<Rightarrow> address \<Rightarrow> string \<Rightarrow> string \<Rightarrow> permissions" where
  "RevokePermissionFrom ps a perm role = filter (\<lambda>p. p \<noteq> (a, perm, role)) ps"

lemma HasPermission_Revoke:
  "HasPermission (RevokePermissionFrom ps a p r) a' p' [r'] \<longleftrightarrow>
     (a', p', r') \<noteq> (a, p, r) \<and> HasPermission ps a' p' [r']"
  by (auto simp: HasPermission_def RevokePermissionFrom_def)

lemma HasPermission_Grant:
  "HasPermission (GrantPermissionTo ps a p r) a' p' [r'] \<longleftrightarrow>
     (a', p', r') = (a, p, r) \<or> HasPermission ps a' p' [r']"
  by (auto simp: HasPermission_def GrantPermissionTo_def)

section \<open>Finite sums over maps\<close>

lemma sum_fun_upd:
  fixes f :: "'a \<Rightarrow> int"
  assumes "finite A" and "a \<in> A"
  shows "(\<Sum>x\<in>A. (f(a := v)) x) = (\<Sum>x\<in>A. f x) - f a + v"
proof -
  have "(\<Sum>x\<in>A. (f(a := v)) x) = v + (\<Sum>x\<in>A - {a}. f x)"
    using assms by (simp add: sum.remove)
  also have "\<dots> = (\<Sum>x\<in>A. f x) - f a + v"
    using assms by (simp add: sum.remove [of A a f])
  finally show ?thesis .
qed

lemma sum_support:
  fixes f :: "'a \<Rightarrow> int"
  assumes "finite B" and "A \<subseteq> B" and "\<And>x. x \<in> B - A \<Longrightarrow> f x = 0"
  shows "(\<Sum>x\<in>A. f x) = (\<Sum>x\<in>B. f x)"
  using assms by (intro sum.mono_neutral_left) auto

end
