(* ===== verification/Coin_Ledger.thy ===== *)
theory Coin_Ledger
  imports Diadem_Prelude
begin

text \<open>
  The data the two token contracts keep in their storage (\<open>Account\<close>, \<open>Allowance\<close> and
  \<open>Economy\<close>, one family of keys each), the abstract ledger a store stands for (balances,
  allowances, total supply), and the interface \<open>erc20\<close>: what a transfer, a delegated
  transfer and an approval promise of the abstract ledger. Conservation of the total balance,
  sign of balances and the effect of a transfer to oneself are proved once, inside the
  interface; \<open>Coin_Contract\<close> and \<open>Eth_Coin\<close> interpret it on their own operations.
\<close>

section \<open>Storage\<close>

record account =
  acct_owner :: address
  acct_balance :: int

record allowance =
  alw_owner :: address
  alw_spender :: address
  alw_amount :: "int option"

record coin_store =
  accounts :: "address \<rightharpoonup> account"
  allowances :: "address \<times> address \<rightharpoonup> allowance"
  economy :: "int option"

definition empty_coin_store :: coin_store where
  "empty_coin_store = \<lparr>accounts = Map.empty, allowances = Map.empty, economy = None\<rparr>"

record transfer_req =
  tr_to :: address
  tr_amount :: "int option"

record transfer_from_req =
  tf_from :: address
  tf_to :: address
  tf_amount :: "int option"

record approve_req =
  ap_spender :: address
  ap_amount :: "int option"

section \<open>The abstract ledger\<close>

definition bal_of :: "coin_store \<Rightarrow> address \<Rightarrow> int" where
  "bal_of st a = (case accounts st a of None \<Rightarrow> 0 | Some acct \<Rightarrow> acct_balance acct)"

definition allow_of :: "coin_store \<Rightarrow> address \<times> address \<Rightarrow> int" where
  "allow_of st os =
     (case allowances st os of
        None \<Rightarrow> 0
      | Some al \<Rightarrow> (case alw_amount al of None \<Rightarrow> 0 | Some v \<Rightarrow> v))"

definition supply_of :: "coin_store \<Rightarrow> int" where
  "supply_of st = (case economy st of None \<Rightarrow> 0 | Some s \<Rightarrow> s)"

definition total_balance :: "coin_store \<Rightarrow> int" where
  "total_balance st = (\<Sum>a\<in>dom (accounts st). bal_of st a)"

text \<open>
  Well-formed storage: finitely many accounts, every record is stored under the key its own
  fields name, and no allowance has a nil amount.
\<close>

definition wf_coin_store :: "coin_store \<Rightarrow> bool" where
  "wf_coin_store st \<longleftrightarrow>
     finite (dom (accounts st)) \<and>
     (\<forall>a acct. accounts st a = Some acct \<longrightarrow> acct_owner acct = a) \<and>
     (\<forall>o' s al. allowances st (o', s) = Some al \<longrightarrow>
        alw_owner al = o' \<and> alw_spender al = s \<and> alw_amount al \<noteq> None)"

lemma wf_coin_storeD:
  assumes "wf_coin_store st"
  shows "finite (dom (accounts st))"
    and "accounts st a = Some acct \<Longrightarrow> acct_owner acct = a"
    and "allowances st (x, y) = Some al \<Longrightarrow>
      alw_owner al = x \<and> alw_spender al = y \<and> alw_amount al \<noteq> None"
  using assms by (auto simp: wf_coin_store_def)

lemma wf_empty_coin_store [simp]: "wf_coin_store empty_coin_store"
  by (simp add: wf_coin_store_def empty_coin_store_def)

lemma ledger_empty [simp]:
  "bal_of empty_coin_store a = 0"
  "allow_of empty_coin_store p = 0"
  "supply_of empty_coin_store = 0"
  "total_balance empty_coin_store = 0"
  by (simp_all add: bal_of_def allow_of_def supply_of_def total_balance_def empty_coin_store_def)

text \<open>The record a load returns for an address, whether or not the key exists.\<close>

definition ledger_account :: "coin_store \<Rightarrow> address \<Rightarrow> account" where
  "ledger_account st a = \<lparr>acct_owner = a, acct_balance = bal_of st a\<rparr>"

definition ledger_allowance :: "coin_store \<Rightarrow> address \<Rightarrow> address \<Rightarrow> allowance" where
  "ledger_allowance st o' s =
     \<lparr>alw_owner = o', alw_spender = s, alw_amount = Some (allow_of st (o', s))\<rparr>"

lemma stored_account:
  "wf_coin_store st \<Longrightarrow> accounts st a = Some acct \<Longrightarrow> acct = ledger_account st a"
  by (cases acct) (auto simp: ledger_account_def bal_of_def dest: wf_coin_storeD(2))

lemma stored_allowance:
  "wf_coin_store st \<Longrightarrow> allowances st (o', s) = Some al \<Longrightarrow> al = ledger_allowance st o' s"
  by (cases al) (auto simp: ledger_allowance_def allow_of_def dest: wf_coin_storeD(3))

definition put_account :: "coin_store \<Rightarrow> account \<Rightarrow> coin_store" where
  "put_account st acct = st\<lparr>accounts := (accounts st)(acct_owner acct \<mapsto> acct)\<rparr>"

definition put_allowance :: "coin_store \<Rightarrow> allowance \<Rightarrow> coin_store" where
  "put_allowance st al =
     st\<lparr>allowances := (allowances st)((alw_owner al, alw_spender al) \<mapsto> al)\<rparr>"

definition put_economy :: "coin_store \<Rightarrow> int \<Rightarrow> coin_store" where
  "put_economy st s = st\<lparr>economy := Some s\<rparr>"

lemma ledger_put_account [store_simps]:
  "bal_of (put_account st acct) = (bal_of st)(acct_owner acct := acct_balance acct)"
  "allow_of (put_account st acct) = allow_of st"
  "supply_of (put_account st acct) = supply_of st"
  "allowances (put_account st acct) = allowances st"
  "economy (put_account st acct) = economy st"
  "wf_coin_store st \<Longrightarrow> wf_coin_store (put_account st acct)"
  by (auto simp: put_account_def bal_of_def allow_of_def supply_of_def wf_coin_store_def)

lemma ledger_put_allowance [store_simps]:
  "bal_of (put_allowance st al) = bal_of st"
  "allow_of (put_allowance st al) =
     (allow_of st)((alw_owner al, alw_spender al) :=
        (case alw_amount al of None \<Rightarrow> 0 | Some v \<Rightarrow> v))"
  "supply_of (put_allowance st al) = supply_of st"
  "accounts (put_allowance st al) = accounts st"
  "economy (put_allowance st al) = economy st"
  "wf_coin_store st \<Longrightarrow> alw_amount al \<noteq> None \<Longrightarrow> wf_coin_store (put_allowance st al)"
  by (auto simp: put_allowance_def bal_of_def allow_of_def supply_of_def wf_coin_store_def)

lemma ledger_put_economy [store_simps]:
  "bal_of (put_economy st s) = bal_of st"
  "allow_of (put_economy st s) = allow_of st"
  "supply_of (put_economy st s) = s"
  "accounts (put_economy st s) = accounts st"
  "allowances (put_economy st s) = allowances st"
  "wf_coin_store st \<Longrightarrow> wf_coin_store (put_economy st s)"
  by (auto simp: put_economy_def bal_of_def allow_of_def supply_of_def wf_coin_store_def)

section \<open>The total balance as a sum over any finite support\<close>

lemma bal_of_outside: "a \<notin> dom (accounts st) \<Longrightarrow> bal_of st a = 0"
  by (auto simp: bal_of_def dom_def)

lemma total_balance_support:
  "finite A \<Longrightarrow> dom (accounts st) \<subseteq> A \<Longrightarrow> total_balance st = (\<Sum>a\<in>A. bal_of st a)"
  unfolding total_balance_def
  by (rule sum_support) (auto intro: bal_of_outside)

text \<open>
  When the balances of a store are those of another with one account changed, the total moves
  by the change of that account.
\<close>

lemma total_balance_upd:
  assumes "wf_coin_store st" and "wf_coin_store st'"
    and "bal_of st' = (bal_of st)(a := v)"
  shows "total_balance st' = total_balance st - bal_of st a + v"
proof -
  define A where "A = insert a (dom (accounts st) \<union> dom (accounts st'))"
  have fin: "finite A"
    using assms(1,2) by (simp add: A_def wf_coin_store_def)
  have sub: "dom (accounts st) \<subseteq> A" "dom (accounts st') \<subseteq> A"
    by (auto simp: A_def)
  have "total_balance st' = (\<Sum>x\<in>A. ((bal_of st)(a := v)) x)"
    using total_balance_support [OF fin sub(2)] by (simp add: assms(3))
  also have "\<dots> = (\<Sum>x\<in>A. bal_of st x) - bal_of st a + v"
    using fin by (rule sum_fun_upd) (simp add: A_def)
  also have "(\<Sum>x\<in>A. bal_of st x) = total_balance st"
    using total_balance_support [OF fin sub(1)] by simp
  finally show ?thesis .
qed

text \<open>
  The balances after the code has moved \<open>amt\<close> from \<open>from\<close> to \<open>to\<close>: it reads both
  accounts first and writes them in this order, so the second write wins when they coincide.
\<close>

definition moved :: "(address \<Rightarrow> int) \<Rightarrow> address \<Rightarrow> address \<Rightarrow> int \<Rightarrow> address \<Rightarrow> int" where
  "moved b from to amt = b(from := b from - amt, to := b to + amt)"

lemma total_balance_moved:
  assumes "wf_coin_store st" and "wf_coin_store st'"
    and "bal_of st' = moved (bal_of st) from to amt"
  shows "total_balance st' = total_balance st + (if from = to then amt else 0)"
proof -
  define mid where
    "mid = put_account st \<lparr>acct_owner = from, acct_balance = bal_of st from - amt\<rparr>"
  have wf: "wf_coin_store mid"
    using assms(1) by (simp add: mid_def store_simps)
  have mid: "bal_of mid = (bal_of st)(from := bal_of st from - amt)"
    by (simp add: mid_def store_simps)
  have "bal_of st' = (bal_of mid)(to := bal_of st to + amt)"
    by (simp add: assms(3) mid moved_def)
  from total_balance_upd [OF wf assms(2) this] total_balance_upd [OF assms(1) wf mid]
  show ?thesis by (simp add: mid)
qed

section \<open>The interface of an ERC20 ledger\<close>

locale erc20 =
  fixes transfer :: "coin_store \<Rightarrow> address \<Rightarrow> address \<Rightarrow> int \<Rightarrow> coin_store res"
    and transferFrom :: "coin_store \<Rightarrow> address \<Rightarrow> address \<Rightarrow> address \<Rightarrow> int \<Rightarrow> coin_store res"
    and approve :: "coin_store \<Rightarrow> address \<Rightarrow> address \<Rightarrow> int \<Rightarrow> coin_store res"
  assumes transfer_low:
      "bal_of st from < amt \<Longrightarrow> \<exists>e. transfer st from to amt = Inl e"
    and transfer_ok:
      "wf_coin_store st \<Longrightarrow> amt \<le> bal_of st from \<Longrightarrow>
       \<exists>st'. transfer st from to amt = Inr st' \<and> wf_coin_store st' \<and>
         bal_of st' = moved (bal_of st) from to amt \<and>
         allow_of st' = allow_of st \<and> supply_of st' = supply_of st"
    and transferFrom_low:
      "bal_of st from < amt \<or> allow_of st (from, spender) < amt \<Longrightarrow>
       \<exists>e. transferFrom st spender from to amt = Inl e"
    and transferFrom_ok:
      "wf_coin_store st \<Longrightarrow> amt \<le> bal_of st from \<Longrightarrow> amt \<le> allow_of st (from, spender) \<Longrightarrow>
       \<exists>st'. transferFrom st spender from to amt = Inr st' \<and> wf_coin_store st' \<and>
         bal_of st' = moved (bal_of st) from to amt \<and>
         allow_of st' = (allow_of st)((from, spender) := allow_of st (from, spender) - amt) \<and>
         supply_of st' = supply_of st"
    and approve_ok:
      "wf_coin_store st \<Longrightarrow>
       \<exists>st'. approve st owner spender amt = Inr st' \<and> wf_coin_store st' \<and>
         bal_of st' = bal_of st \<and> allow_of st' = (allow_of st)((owner, spender) := amt) \<and>
         supply_of st' = supply_of st"
begin

text \<open>An accepted transfer was covered by the balance and moved exactly the amount.\<close>

lemma transferD:
  assumes "wf_coin_store st" and "transfer st from to amt = Inr st'"
  shows "amt \<le> bal_of st from" and "wf_coin_store st'"
    and "bal_of st' = moved (bal_of st) from to amt"
    and "allow_of st' = allow_of st" and "supply_of st' = supply_of st"
proof -
  show le: "amt \<le> bal_of st from"
    using transfer_low [of st "from" amt to] assms(2) by (cases "bal_of st from < amt") auto
  show "wf_coin_store st'" and "bal_of st' = moved (bal_of st) from to amt"
    and "allow_of st' = allow_of st" and "supply_of st' = supply_of st"
    using transfer_ok [OF assms(1) le, of to] assms(2) by auto
qed

lemma transferFromD:
  assumes "wf_coin_store st" and "transferFrom st spender from to amt = Inr st'"
  shows "amt \<le> bal_of st from" and "amt \<le> allow_of st (from, spender)" and "wf_coin_store st'"
    and "bal_of st' = moved (bal_of st) from to amt"
    and "allow_of st' = (allow_of st)((from, spender) := allow_of st (from, spender) - amt)"
    and "supply_of st' = supply_of st"
proof -
  show le: "amt \<le> bal_of st from"
    using transferFrom_low [of st "from" amt spender to] assms(2)
    by (cases "bal_of st from < amt") auto
  show le': "amt \<le> allow_of st (from, spender)"
    using transferFrom_low [of st "from" amt spender to] assms(2)
    by (cases "allow_of st (from, spender) < amt") auto
  show "wf_coin_store st'" and "bal_of st' = moved (bal_of st) from to amt"
    and "allow_of st' = (allow_of st)((from, spender) := allow_of st (from, spender) - amt)"
    and "supply_of st' = supply_of st"
    using transferFrom_ok [OF assms(1) le le', of to] assms(2) by auto
qed

lemma approveD:
  assumes "wf_coin_store st" and "approve st owner spender amt = Inr st'"
  shows "wf_coin_store st'" and "bal_of st' = bal_of st"
    and "allow_of st' = (allow_of st)((owner, spender) := amt)" and "supply_of st' = supply_of st"
  using approve_ok [OF assms(1), of owner spender amt] assms(2) by auto

text \<open>
  Between two different accounts the total is conserved; a transfer of an account to itself
  adds the amount to it.
\<close>

lemma transfer_total:
  assumes "wf_coin_store st" and "transfer st from to amt = Inr st'"
  shows "total_balance st' = total_balance st + (if from = to then amt else 0)"
  using total_balance_moved [OF assms(1) transferD(2,3) [OF assms]] .

lemma transferFrom_total:
  assumes "wf_coin_store st" and "transferFrom st spender from to amt = Inr st'"
  shows "total_balance st' = total_balance st + (if from = to then amt else 0)"
  using total_balance_moved [OF assms(1) transferFromD(3,4) [OF assms]] .

lemma approve_total:
  assumes "wf_coin_store st" and "approve st owner spender amt = Inr st'"
  shows "total_balance st' = total_balance st"
  using total_balance_upd [OF assms(1) approveD(1) [OF assms], of owner "bal_of st owner"]
  by (simp add: approveD(2) [OF assms])

text \<open>
  A spender that keeps drawing on one approval never takes more than was approved: over any
  sequence of accepted delegated transfers, what is left of the allowance and what was drawn
  add up to the approval, and what is left is not negative.
\<close>

lemma allowance_budget:
  assumes "wf_coin_store st"
    and "fold_res (\<lambda>(to, amt) s. transferFrom s spender own to amt) xs st = Inr st'"
    and "0 \<le> allow_of st (own, spender)"
  shows "wf_coin_store st' \<and> 0 \<le> allow_of st' (own, spender) \<and>
    allow_of st' (own, spender) = allow_of st (own, spender) - (\<Sum>x\<leftarrow>xs. snd x)"
  using assms
proof (induction xs arbitrary: st)
  case Nil
  then show ?case by simp
next
  case (Cons x xs)
  obtain to amt where x: "x = (to, amt)" by (cases x)
  from Cons.prems(2) x obtain mid
    where mid: "transferFrom st spender own to amt = Inr mid"
      and rest: "fold_res (\<lambda>(to, amt) s. transferFrom s spender own to amt) xs mid = Inr st'"
    by (auto elim: bind_resE)
  note step = transferFromD [OF Cons.prems(1) mid]
  have "0 \<le> allow_of mid (own, spender)"
    using step(2) by (simp add: step(5))
  from Cons.IH [OF step(3) rest this] show ?case
    by (simp add: x step(5))
qed

end

end
