(* ===== verification/Coin_Contract.thy ===== *)
theory Coin_Contract
  imports Coin_Ledger
begin

text \<open>
  The native token, \<open>builtin/plugins/coin/coin.go\<close>: one definition per method and per helper,
  in the order of the file, over the storage of \<open>Coin_Ledger\<close>. The lemmas say what each
  method does to the ledger on every branch; the reachable states of the contract, as an
  inductive relation over its state-changing methods, keep the total supply equal to the sum of
  the balances as long as no one transfers to himself.
\<close>

section \<open>Storage helpers\<close>

definition Coin_loadAccount :: "coin_store \<Rightarrow> address \<Rightarrow> account res" where
  "Coin_loadAccount st owner =
     (let acct = \<lparr>acct_owner = owner, acct_balance = 0\<rparr> in
      case ctx_get (accounts st) owner of
        Inr a \<Rightarrow> Inr a
      | Inl e \<Rightarrow> if e \<noteq> ErrNotFound then Inl e else Inr acct)"

definition Coin_saveAccount :: "coin_store \<Rightarrow> account \<Rightarrow> coin_store res" where
  "Coin_saveAccount st acct = Inr (put_account st acct)"

definition Coin_loadAllowance :: "coin_store \<Rightarrow> address \<Rightarrow> address \<Rightarrow> allowance res" where
  "Coin_loadAllowance st owner spender =
     (let allow = \<lparr>alw_owner = owner, alw_spender = spender, alw_amount = Some 0\<rparr> in
      case ctx_get (allowances st) (owner, spender) of
        Inr al \<Rightarrow> Inr al
      | Inl e \<Rightarrow> if e \<noteq> ErrNotFound then Inl e else Inr allow)"

definition Coin_saveAllowance :: "coin_store \<Rightarrow> allowance \<Rightarrow> coin_store res" where
  "Coin_saveAllowance st al = Inr (put_allowance st al)"

text \<open>\<open>burn\<close> and \<open>mint\<close> start from a zero economy when the key is missing.\<close>

definition Coin_loadEconomy :: "coin_store \<Rightarrow> int res" where
  "Coin_loadEconomy st =
     (case (case economy st of None \<Rightarrow> Inl ErrNotFound | Some s \<Rightarrow> Inr s) of
        Inr s \<Rightarrow> Inr s
      | Inl e \<Rightarrow> if e \<noteq> ErrNotFound then Inl e else Inr 0)"

section \<open>Genesis\<close>

record initial_account =
  init_owner :: address
  init_balance :: u64

definition Coin_div :: int where
  "Coin_div = 10 ^ 18"

text \<open>
  The genesis balance is a \<open>uint64\<close> converted with \<open>int64(...)\<close>, so it is read as a signed
  number before it is scaled to the 18 decimals of the token.
\<close>

definition Coin_init_balance :: "initial_account \<Rightarrow> int" where
  "Coin_init_balance ia = sint (init_balance ia) * Coin_div"

fun Coin_Init_loop :: "initial_account list \<Rightarrow> coin_store \<Rightarrow> int \<Rightarrow> (coin_store \<times> int) res" where
  "Coin_Init_loop [] st supply = Inr (st, supply)"
| "Coin_Init_loop (ia # ias) st supply =
     (let balance = Coin_init_balance ia;
          acct = \<lparr>acct_owner = init_owner ia, acct_balance = balance\<rparr>
      in Coin_Init_loop ias (put_account st acct) (supply + balance))"

definition Coin_Init :: "coin_store \<Rightarrow> initial_account list \<Rightarrow> coin_store res" where
  "Coin_Init st req =
     bind_res (Coin_Init_loop req st 0) (\<lambda>(st, supply). Inr (put_economy st supply))"

section \<open>Minting and burning\<close>

definition Coin_mint :: "coin_store \<Rightarrow> address \<Rightarrow> int \<Rightarrow> coin_store res" where
  "Coin_mint st to amount =
     bind_res (Coin_loadAccount st to) (\<lambda>account.
     bind_res (Coin_loadEconomy st) (\<lambda>supply.
     let account = account\<lparr>acct_balance := acct_balance account + amount\<rparr>;
         supply = supply + amount
     in bind_res (Coin_saveAccount st account) (\<lambda>st. Inr (put_economy st supply))))"

definition Coin_burn :: "coin_store \<Rightarrow> address \<Rightarrow> int \<Rightarrow> coin_store res" where
  "Coin_burn st from amount =
     bind_res (Coin_loadAccount st from) (\<lambda>account.
     bind_res (Coin_loadEconomy st) (\<lambda>supply.
     let bal = acct_balance account in
     if bal < amount \<or> supply < amount
     then Inl (Err ''cant burn coins more than available balance'')
     else
       bind_res (Coin_saveAccount st (account\<lparr>acct_balance := bal - amount\<rparr>)) (\<lambda>st.
         Inr (put_economy st (supply - amount)))))"

definition Coin_MintToGateway :: "call_ctx \<Rightarrow> coin_store \<Rightarrow> int option \<Rightarrow> coin_store res" where
  "Coin_MintToGateway ctx st req_amount =
     (case resolve ctx ''diademcoin-gateway'' of
        Inl e \<Rightarrow> Inl (Err ''failed to mint Diadem coin'')
      | Inr gatewayAddr \<Rightarrow>
          if sender ctx \<noteq> gatewayAddr then Inl (Err ''not authorized to mint Diadem coin'')
          else bind_res (deref req_amount) (Coin_mint st gatewayAddr))"

definition Coin_Burn ::
    "call_ctx \<Rightarrow> coin_store \<Rightarrow> address option \<Rightarrow> int option \<Rightarrow> coin_store res" where
  "Coin_Burn ctx st req_owner req_amount =
     (case (req_owner, req_amount) of
        (Some owner, Some amount) \<Rightarrow>
          (case resolve ctx ''diademcoin-gateway'' of
             Inl e \<Rightarrow> Inl (Err ''failed to burn Diadem coin'')
           | Inr gatewayAddr \<Rightarrow>
               if sender ctx \<noteq> gatewayAddr then Inl (Err ''not authorized to burn Diadem coin'')
               else Coin_burn st owner amount)
      | _ \<Rightarrow> Inl (Err ''owner or amount is nil''))"

section \<open>ERC20 methods\<close>

definition Coin_TotalSupply :: "coin_store \<Rightarrow> int res" where
  "Coin_TotalSupply st = (case economy st of None \<Rightarrow> Inl ErrNotFound | Some s \<Rightarrow> Inr s)"

definition Coin_BalanceOf :: "coin_store \<Rightarrow> address \<Rightarrow> int res" where
  "Coin_BalanceOf st owner = bind_res (Coin_loadAccount st owner) (\<lambda>acct. Inr (acct_balance acct))"

definition Coin_Transfer :: "call_ctx \<Rightarrow> coin_store \<Rightarrow> transfer_req \<Rightarrow> coin_store res" where
  "Coin_Transfer ctx st req =
     (let from = sender ctx; to = tr_to req in
      bind_res (Coin_loadAccount st from) (\<lambda>fromAccount.
      bind_res (Coin_loadAccount st to) (\<lambda>toAccount.
      bind_res (deref (tr_amount req)) (\<lambda>amount.
      let fromBalance = acct_balance fromAccount; toBalance = acct_balance toAccount in
      if fromBalance < amount then Inl (Err ''sender balance is too low'')
      else
        bind_res (Coin_saveAccount st (fromAccount\<lparr>acct_balance := fromBalance - amount\<rparr>)) (\<lambda>st.
        Coin_saveAccount st (toAccount\<lparr>acct_balance := toBalance + amount\<rparr>))))))"

definition Coin_Approve :: "call_ctx \<Rightarrow> coin_store \<Rightarrow> approve_req \<Rightarrow> coin_store res" where
  "Coin_Approve ctx st req =
     (let owner = sender ctx; spender = ap_spender req in
      bind_res (Coin_loadAllowance st owner spender) (\<lambda>allow.
      Coin_saveAllowance st (allow\<lparr>alw_amount := ap_amount req\<rparr>)))"

definition Coin_Allowance :: "coin_store \<Rightarrow> address \<Rightarrow> address \<Rightarrow> int option res" where
  "Coin_Allowance st owner spender =
     bind_res (Coin_loadAllowance st owner spender) (\<lambda>allow. Inr (alw_amount allow))"

definition Coin_TransferFrom :: "call_ctx \<Rightarrow> coin_store \<Rightarrow> transfer_from_req \<Rightarrow> coin_store res" where
  "Coin_TransferFrom ctx st req =
     (let spender = sender ctx; from = tf_from req; to = tf_to req in
      bind_res (Coin_loadAccount st from) (\<lambda>fromAccount.
      bind_res (Coin_loadAccount st to) (\<lambda>toAccount.
      bind_res (Coin_loadAllowance st from spender) (\<lambda>allow.
      bind_res (deref (alw_amount allow)) (\<lambda>allowAmount.
      bind_res (deref (tf_amount req)) (\<lambda>amount.
      let fromBalance = acct_balance fromAccount; toBalance = acct_balance toAccount in
      if allowAmount < amount then Inl (Err ''amount is over spender's limit'')
      else if fromBalance < amount then Inl (Err ''sender balance is too low'')
      else
        bind_res (Coin_saveAccount st (fromAccount\<lparr>acct_balance := fromBalance - amount\<rparr>)) (\<lambda>st.
        bind_res (Coin_saveAccount st (toAccount\<lparr>acct_balance := toBalance + amount\<rparr>)) (\<lambda>st.
        Coin_saveAllowance st (allow\<lparr>alw_amount := Some (allowAmount - amount)\<rparr>)))))))))"

section \<open>What the methods do to the ledger\<close>

lemma Coin_loadAccount_eq [store_simps]:
  "wf_coin_store st \<Longrightarrow> Coin_loadAccount st a = Inr (ledger_account st a)"
  by (cases "accounts st a")
    (auto simp: Coin_loadAccount_def ledger_account_def bal_of_def dest: stored_account)

lemma Coin_loadAccount_balance:
  "\<exists>acct. Coin_loadAccount st a = Inr acct \<and> acct_balance acct = bal_of st a"
  by (cases "accounts st a") (auto simp: Coin_loadAccount_def bal_of_def)

lemma Coin_loadAllowance_eq [store_simps]:
  "wf_coin_store st \<Longrightarrow> Coin_loadAllowance st x y = Inr (ledger_allowance st x y)"
  by (cases "allowances st (x, y)")
    (auto simp: Coin_loadAllowance_def ledger_allowance_def allow_of_def dest: stored_allowance)

lemma Coin_loadAllowance_amount:
  "\<exists>al. Coin_loadAllowance st x y = Inr al \<and>
     (case alw_amount al of None \<Rightarrow> 0 | Some v \<Rightarrow> v) = allow_of st (x, y)"
  by (cases "allowances st (x, y)") (auto simp: Coin_loadAllowance_def allow_of_def)

lemma Coin_loadEconomy_eq [store_simps]: "Coin_loadEconomy st = Inr (supply_of st)"
  by (cases "economy st") (simp_all add: Coin_loadEconomy_def supply_of_def)

lemmas coin_op_simps =
  Coin_saveAccount_def Coin_saveAllowance_def ledger_account_def ledger_allowance_def moved_def
  Let_def

text \<open>The contract provides the ERC20 interface, whatever the rest of the call context is.\<close>

interpretation coin: erc20
  "\<lambda>st from to amt. Coin_Transfer (ctx\<lparr>sender := from\<rparr>) st \<lparr>tr_to = to, tr_amount = Some amt\<rparr>"
  "\<lambda>st spender from to amt. Coin_TransferFrom (ctx\<lparr>sender := spender\<rparr>) st
     \<lparr>tf_from = from, tf_to = to, tf_amount = Some amt\<rparr>"
  "\<lambda>st owner spender amt. Coin_Approve (ctx\<lparr>sender := owner\<rparr>) st
     \<lparr>ap_spender = spender, ap_amount = Some amt\<rparr>"
  for ctx
proof (unfold_locales, goal_cases)
  case (1 st "from" amt to)
  then show ?case
    using Coin_loadAccount_balance [of st "from"] Coin_loadAccount_balance [of st to]
    by (auto simp: Coin_Transfer_def)
next
  case (2 st amt "from" to)
  then show ?case
    by (auto simp: Coin_Transfer_def coin_op_simps store_simps)
next
  case (3 st "from" amt spender to)
  then show ?case
    using Coin_loadAccount_balance [of st "from"] Coin_loadAccount_balance [of st to]
      Coin_loadAllowance_amount [of st "from" spender]
    by (auto simp: Coin_TransferFrom_def deref_def Let_def split: option.splits)
next
  case (4 st amt "from" spender to)
  then show ?case
    by (auto simp: Coin_TransferFrom_def coin_op_simps store_simps)
next
  case (5 st owner spender amt)
  then show ?case
    by (auto simp: Coin_Approve_def coin_op_simps store_simps)
qed

text \<open>The same facts for a call as the virtual machine makes it, with its own context and request.\<close>

lemma Coin_TransferD:
  assumes "wf_coin_store st" and "Coin_Transfer ctx st req = Inr st'"
  obtains amt where "tr_amount req = Some amt" and "amt \<le> bal_of st (sender ctx)"
    and "wf_coin_store st'" and "bal_of st' = moved (bal_of st) (sender ctx) (tr_to req) amt"
    and "allow_of st' = allow_of st" and "supply_of st' = supply_of st"
    and "total_balance st' = total_balance st + (if sender ctx = tr_to req then amt else 0)"
proof -
  have "tr_amount req \<noteq> None"
    using assms(2) by (auto simp: Coin_Transfer_def Let_def bind_res_eq_Inr_iff)
  then obtain amt where amt: "tr_amount req = Some amt" by blast
  have "Coin_Transfer (ctx\<lparr>sender := sender ctx\<rparr>) st \<lparr>tr_to = tr_to req, tr_amount = Some amt\<rparr> = Inr st'"
    using assms(2) amt by (cases req) simp
  from that [OF amt] coin.transferD [OF assms(1) this] coin.transfer_total [OF assms(1) this]
  show thesis by blast
qed

lemma Coin_TransferFromD:
  assumes "wf_coin_store st" and "Coin_TransferFrom ctx st req = Inr st'"
  obtains amt where "tf_amount req = Some amt" and "amt \<le> bal_of st (tf_from req)"
    and "amt \<le> allow_of st (tf_from req, sender ctx)"
    and "wf_coin_store st'" and "bal_of st' = moved (bal_of st) (tf_from req) (tf_to req) amt"
    and "allow_of st' = (allow_of st)((tf_from req, sender ctx) :=
           allow_of st (tf_from req, sender ctx) - amt)"
    and "supply_of st' = supply_of st"
    and "total_balance st' = total_balance st + (if tf_from req = tf_to req then amt else 0)"
proof -
  have "tf_amount req \<noteq> None"
    using assms(2) by (auto simp: Coin_TransferFrom_def Let_def bind_res_eq_Inr_iff)
  then obtain amt where amt: "tf_amount req = Some amt" by blast
  have "Coin_TransferFrom (ctx\<lparr>sender := sender ctx\<rparr>) st
      \<lparr>tf_from = tf_from req, tf_to = tf_to req, tf_amount = Some amt\<rparr> = Inr st'"
    using assms(2) amt by (cases req) simp
  from that [OF amt] coin.transferFromD [OF assms(1) this] coin.transferFrom_total [OF assms(1) this]
  show thesis by blast
qed

lemma Coin_ApproveD:
  assumes "wf_coin_store st" and "Coin_Approve ctx st req = Inr st'"
    and "ap_amount req = Some amt"
  shows "wf_coin_store st'" and "bal_of st' = bal_of st" and "supply_of st' = supply_of st"
    and "total_balance st' = total_balance st"
    and "allow_of st' = (allow_of st)((sender ctx, ap_spender req) := amt)"
proof -
  have "Coin_Approve (ctx\<lparr>sender := sender ctx\<rparr>) st
      \<lparr>ap_spender = ap_spender req, ap_amount = Some amt\<rparr> = Inr st'"
    using assms(2,3) by (cases req) simp
  from coin.approveD [OF assms(1) this] coin.approve_total [OF assms(1) this]
  show "wf_coin_store st'" and "bal_of st' = bal_of st" and "supply_of st' = supply_of st"
    and "total_balance st' = total_balance st"
    and "allow_of st' = (allow_of st)((sender ctx, ap_spender req) := amt)"
    by blast+
qed

lemma Coin_mint_eq:
  "wf_coin_store st \<Longrightarrow>
   Coin_mint st to amt =
     Inr (put_economy (put_account st \<lparr>acct_owner = to, acct_balance = bal_of st to + amt\<rparr>)
       (supply_of st + amt))"
  by (simp add: Coin_mint_def coin_op_simps store_simps)

lemma Coin_burn_eq:
  "wf_coin_store st \<Longrightarrow>
   Coin_burn st from amt =
     (if bal_of st from < amt \<or> supply_of st < amt
      then Inl (Err ''cant burn coins more than available balance'')
      else Inr (put_economy (put_account st \<lparr>acct_owner = from, acct_balance = bal_of st from - amt\<rparr>)
        (supply_of st - amt)))"
  by (simp add: Coin_burn_def coin_op_simps store_simps)

lemma put_account_total:
  "wf_coin_store st \<Longrightarrow>
   total_balance (put_account st acct) =
     total_balance st - bal_of st (acct_owner acct) + acct_balance acct"
  by (rule total_balance_upd) (auto simp: store_simps)

lemma put_economy_total [store_simps]: "total_balance (put_economy st s) = total_balance st"
  by (simp add: total_balance_def store_simps)

lemma Coin_mintD:
  assumes "wf_coin_store st" and "Coin_mint st to amt = Inr st'"
  shows "wf_coin_store st'" and "bal_of st' = (bal_of st)(to := bal_of st to + amt)"
    and "supply_of st' = supply_of st + amt" and "total_balance st' = total_balance st + amt"
  using assms by (auto simp: Coin_mint_eq store_simps put_account_total)

lemma Coin_burnD:
  assumes "wf_coin_store st" and "Coin_burn st from amt = Inr st'"
  shows "wf_coin_store st'" and "bal_of st' = (bal_of st)(from := bal_of st from - amt)"
    and "supply_of st' = supply_of st - amt" and "total_balance st' = total_balance st - amt"
    and "amt \<le> bal_of st from" and "amt \<le> supply_of st"
  using assms by (auto simp: Coin_burn_eq store_simps put_account_total split: if_splits)

lemma Coin_MintToGatewayD:
  assumes "Coin_MintToGateway ctx st a = Inr st'"
  obtains amt where "a = Some amt" and "resolve ctx ''diademcoin-gateway'' = Inr (sender ctx)"
    and "Coin_mint st (sender ctx) amt = Inr st'"
  using assms
  by (auto simp: Coin_MintToGateway_def bind_res_eq_Inr_iff split: sum.splits if_splits)

lemma Coin_BurnD:
  assumes "Coin_Burn ctx st owner a = Inr st'"
  obtains own amt where "owner = Some own" and "a = Some amt"
    and "resolve ctx ''diademcoin-gateway'' = Inr (sender ctx)" and "Coin_burn st own amt = Inr st'"
  using assms by (auto simp: Coin_Burn_def split: option.splits sum.splits if_splits)

section \<open>The contract as a state machine\<close>

text \<open>
  One rule per state-changing method. Amounts are not negative, as those of decoded requests
  are, and the transfers are between different accounts.
\<close>

inductive coin_step :: "coin_store \<Rightarrow> coin_store \<Rightarrow> bool" where
  step_transfer:
    "Coin_Transfer ctx st req = Inr st' \<Longrightarrow> tr_amount req = Some amt \<Longrightarrow> 0 \<le> amt \<Longrightarrow>
     sender ctx \<noteq> tr_to req \<Longrightarrow> coin_step st st'"
| step_transferFrom:
    "Coin_TransferFrom ctx st req = Inr st' \<Longrightarrow> tf_amount req = Some amt \<Longrightarrow> 0 \<le> amt \<Longrightarrow>
     tf_from req \<noteq> tf_to req \<Longrightarrow> coin_step st st'"
| step_approve:
    "Coin_Approve ctx st req = Inr st' \<Longrightarrow> ap_amount req = Some amt \<Longrightarrow> 0 \<le> amt \<Longrightarrow> coin_step st st'"
| step_mint:
    "Coin_MintToGateway ctx st (Some amt) = Inr st' \<Longrightarrow> 0 \<le> amt \<Longrightarrow> coin_step st st'"
| step_burn:
    "Coin_Burn ctx st owner (Some amt) = Inr st' \<Longrightarrow> 0 \<le> amt \<Longrightarrow> coin_step st st'"

inductive coin_reachable :: "coin_store \<Rightarrow> coin_store \<Rightarrow> bool" for st0 where
  reach_start: "coin_reachable st0 st0"
| reach_step: "coin_reachable st0 st \<Longrightarrow> coin_step st st' \<Longrightarrow> coin_reachable st0 st'"

text \<open>The books balance: the recorded supply is the sum of balances, and no balance is negative.\<close>

definition coin_ok :: "coin_store \<Rightarrow> bool" where
  "coin_ok st \<longleftrightarrow> wf_coin_store st \<and> supply_of st = total_balance st \<and> (\<forall>a. 0 \<le> bal_of st a)"

lemma coin_okD:
  assumes "coin_ok st"
  shows "wf_coin_store st" and "supply_of st = total_balance st" and "0 \<le> bal_of st a"
  using assms by (auto simp: coin_ok_def)

lemma moved_nonneg:
  assumes "\<And>a. 0 \<le> b a" and "0 \<le> amt" and "amt \<le> b from"
  shows "0 \<le> moved b from to amt a"
  using assms(1) [of a] assms(1) [of to] assms(2,3) by (auto simp: moved_def)

lemma coin_step_ok: "coin_step st st' \<Longrightarrow> coin_ok st \<Longrightarrow> coin_ok st'"
proof (induction rule: coin_step.induct)
  case (step_transfer ctx st req st' amt)
  note ok = coin_okD [OF step_transfer.prems]
  show ?case
    by (rule Coin_TransferD [OF ok(1) step_transfer.hyps(1)])
      (use step_transfer.hyps ok in \<open>auto simp: coin_ok_def intro: moved_nonneg\<close>)
next
  case (step_transferFrom ctx st req st' amt)
  note ok = coin_okD [OF step_transferFrom.prems]
  show ?case
    by (rule Coin_TransferFromD [OF ok(1) step_transferFrom.hyps(1)])
      (use step_transferFrom.hyps ok in \<open>auto simp: coin_ok_def intro: moved_nonneg\<close>)
next
  case (step_approve ctx st req st' amt)
  note ok = coin_okD [OF step_approve.prems]
  from Coin_ApproveD [OF ok(1) step_approve.hyps(1,2)] show ?case
    using ok by (auto simp: coin_ok_def)
next
  case (step_mint ctx st amt st')
  note ok = coin_okD [OF step_mint.prems]
  from step_mint.hyps(1) have "Coin_mint st (sender ctx) amt = Inr st'"
    by (rule Coin_MintToGatewayD) auto
  from Coin_mintD [OF ok(1) this] show ?case
    using ok step_mint.hyps(2) by (auto simp: coin_ok_def)
next
  case (step_burn ctx st owner amt st')
  note ok = coin_okD [OF step_burn.prems]
  from step_burn.hyps(1) obtain own where "Coin_burn st own amt = Inr st'"
    by (rule Coin_BurnD) auto
  from Coin_burnD [OF ok(1) this] show ?case
    using ok step_burn.hyps(2) by (auto simp: coin_ok_def)
qed

section \<open>Genesis\<close>

lemma Coin_Init_loop_spec:
  assumes "wf_coin_store st" and "distinct (map init_owner ias)"
    and "\<And>ia. ia \<in> set ias \<Longrightarrow> bal_of st (init_owner ia) = 0"
  shows "\<exists>st'. Coin_Init_loop ias st s = Inr (st', s + (\<Sum>ia\<leftarrow>ias. Coin_init_balance ia)) \<and>
    wf_coin_store st' \<and>
    total_balance st' = total_balance st + (\<Sum>ia\<leftarrow>ias. Coin_init_balance ia) \<and>
    (\<forall>a. bal_of st' a =
      (case find (\<lambda>ia. init_owner ia = a) ias of
         None \<Rightarrow> bal_of st a | Some ia \<Rightarrow> Coin_init_balance ia))"
  using assms
proof (induction ias arbitrary: st s)
  case Nil
  then show ?case by simp
next
  case (Cons ia ias)
  define mid where
    "mid = put_account st \<lparr>acct_owner = init_owner ia, acct_balance = Coin_init_balance ia\<rparr>"
  have wf: "wf_coin_store mid" and
    bal: "bal_of mid = (bal_of st)(init_owner ia := Coin_init_balance ia)"
    using Cons.prems(1) by (simp_all add: mid_def store_simps)
  have tot: "total_balance mid = total_balance st + Coin_init_balance ia"
    using total_balance_upd [OF Cons.prems(1) wf bal] Cons.prems(3) by simp
  have fresh: "\<And>x. x \<in> set ias \<Longrightarrow> bal_of mid (init_owner x) = 0"
    using Cons.prems(2,3) by (auto simp: bal) (metis image_eqI)
  have none: "find (\<lambda>x. init_owner x = init_owner ia) ias = None"
    using Cons.prems(2) by (auto simp: find_None_iff) (metis image_eqI)
  obtain st' where "Coin_Init_loop ias mid (s + Coin_init_balance ia) =
      Inr (st', s + Coin_init_balance ia + (\<Sum>x\<leftarrow>ias. Coin_init_balance x))"
    and "wf_coin_store st'"
    and "total_balance st' = total_balance mid + (\<Sum>x\<leftarrow>ias. Coin_init_balance x)"
    and "\<forall>a. bal_of st' a = (case find (\<lambda>x. init_owner x = a) ias of
         None \<Rightarrow> bal_of mid a | Some x \<Rightarrow> Coin_init_balance x)"
    using Cons.IH [OF wf, of "s + Coin_init_balance ia"] Cons.prems(2) fresh by auto
  then show ?case
    by (auto simp: mid_def [symmetric] Let_def tot bal none add.assoc split: option.split)
qed

section \<open>Properties\<close>

text \<open>Transfer moves exactly the requested amount. On well-formed storage the call fails
  exactly when the sender's balance is below the amount (or the amount is missing), and when it
  succeeds the balances are those before the call with the amount taken from the sender and
  added to the receiver, allowances and total supply untouched.\<close>

theorem coin_transfer_functional:
  assumes "wf_coin_store st"
  shows "Coin_Transfer ctx st req =
    (case tr_amount req of
       None \<Rightarrow> Inl (Panic ''nil pointer dereference'')
     | Some amt \<Rightarrow>
         if bal_of st (sender ctx) < amt then Inl (Err ''sender balance is too low'')
         else Inr (put_account
           (put_account st \<lparr>acct_owner = sender ctx, acct_balance = bal_of st (sender ctx) - amt\<rparr>)
           \<lparr>acct_owner = tr_to req, acct_balance = bal_of st (tr_to req) + amt\<rparr>))"
  using assms
  by (cases "tr_amount req") (simp_all add: Coin_Transfer_def coin_op_simps store_simps)

definition demo_alice :: address where "demo_alice = Address ''default'' [1]"
definition demo_bob :: address where "demo_bob = Address ''default'' [2]"

definition demo_coin_store :: coin_store where
  "demo_coin_store =
     put_economy (put_account empty_coin_store \<lparr>acct_owner = demo_alice, acct_balance = 10\<rparr>) 10"

lemma demo_coin_simps [simp]:
  "demo_alice \<noteq> demo_bob" "demo_bob \<noteq> demo_alice"
  "wf_coin_store demo_coin_store"
  "bal_of demo_coin_store a = (if a = demo_alice then 10 else 0)"
  "supply_of demo_coin_store = 10"
  "total_balance demo_coin_store = 10"
  "allow_of demo_coin_store p = 0"
  by (simp_all add: demo_alice_def demo_bob_def demo_coin_store_def store_simps put_account_total)

theorem coin_transfer_functional_witness:
  "wf_coin_store demo_coin_store \<and>
   Coin_Transfer (plain_ctx demo_alice) demo_coin_store \<lparr>tr_to = demo_bob, tr_amount = Some 4\<rparr> =
     Inr (put_account (put_account demo_coin_store \<lparr>acct_owner = demo_alice, acct_balance = 6\<rparr>)
       \<lparr>acct_owner = demo_bob, acct_balance = 4\<rparr>)"
  using coin_transfer_functional [of demo_coin_store "plain_ctx demo_alice"
      "\<lparr>tr_to = demo_bob, tr_amount = Some 4\<rparr>"]
  by simp

text \<open>A successful Transfer conserves the sum of all balances when sender and receiver
  differ, and creates exactly the transferred amount when they are the same account: the code
  loads the account twice and the second write overwrites the first.\<close>

theorem coin_transfer_total:
  assumes "wf_coin_store st" and "tr_amount req = Some amt"
    and "Coin_Transfer ctx st req = Inr st'"
  shows "total_balance st' = total_balance st + (if sender ctx = tr_to req then amt else 0)
    \<and> supply_of st' = supply_of st"
  by (rule Coin_TransferD [OF assms(1,3)]) (use assms(2) in simp)

theorem coin_transfer_total_witness:
  "\<exists>st'. Coin_Transfer (plain_ctx demo_alice) demo_coin_store
        \<lparr>tr_to = demo_alice, tr_amount = Some 10\<rparr> = Inr st' \<and>
     total_balance st' = 20 \<and> supply_of st' = 10"
proof -
  obtain st' where st': "Coin_Transfer (plain_ctx demo_alice) demo_coin_store
      \<lparr>tr_to = demo_alice, tr_amount = Some 10\<rparr> = Inr st'"
    by (simp add: Coin_Transfer_def coin_op_simps store_simps)
  from coin_transfer_total [OF _ _ this] have "total_balance st' = 20" and "supply_of st' = 10"
    by simp_all
  with st' show ?thesis by blast
qed

text \<open>C37: In every state reached from balanced books by accepted calls of Transfer, TransferFrom,
  Approve, MintToGateway and Burn (with non-negative amounts, no account transferring to itself)
  the recorded total supply is the sum of all balances and no balance is negative.\<close>

theorem coin_reachable_books_balance:
  assumes "coin_reachable st0 st" and "coin_ok st0"
  shows "coin_ok st"
  using assms by (induction rule: coin_reachable.induct) (auto dest: coin_step_ok)

theorem coin_reachable_books_balance_witness:
  "\<exists>st. coin_reachable demo_coin_store st \<and> st \<noteq> demo_coin_store \<and> coin_ok st"
proof -
  let ?req = "\<lparr>tr_to = demo_bob, tr_amount = Some 4\<rparr>"
  obtain st where st: "Coin_Transfer (plain_ctx demo_alice) demo_coin_store ?req = Inr st"
    and bob: "bal_of st demo_bob = 4"
    by (simp add: Coin_Transfer_def coin_op_simps store_simps)
  have "coin_step demo_coin_store st"
    by (rule coin_step.step_transfer [OF st, of 4]) simp_all
  then have reach: "coin_reachable demo_coin_store st"
    by (blast intro: coin_reachable.intros)
  have "coin_ok demo_coin_store" by (simp add: coin_ok_def)
  from coin_reachable_books_balance [OF reach this] reach bob show ?thesis
    by (intro exI [of _ st]) auto
qed

text \<open>Only the address the registry holds for the Diadem coin gateway can mint or burn: an
  accepted MintToGateway or Burn was sent by that address, and it changes the total supply and
  one balance by the amount (a burn never exceeds the balance it burns from).\<close>

theorem coin_mint_burn_authorised:
  assumes "wf_coin_store st"
  shows "(Coin_MintToGateway ctx st (Some amt) = Inr st' \<longrightarrow>
      resolve ctx ''diademcoin-gateway'' = Inr (sender ctx) \<and>
      supply_of st' = supply_of st + amt \<and>
      bal_of st' = (bal_of st)(sender ctx := bal_of st (sender ctx) + amt)) \<and>
    (Coin_Burn ctx st (Some own) (Some amt) = Inr st'' \<longrightarrow>
      resolve ctx ''diademcoin-gateway'' = Inr (sender ctx) \<and>
      supply_of st'' = supply_of st - amt \<and> amt \<le> bal_of st own \<and>
      bal_of st'' = (bal_of st)(own := bal_of st own - amt))"
  using Coin_mintD [OF assms] Coin_burnD [OF assms]
  by (auto elim!: Coin_MintToGatewayD Coin_BurnD)

theorem coin_mint_burn_authorised_witness:
  "\<exists>st' st''. Coin_MintToGateway ((plain_ctx demo_bob)\<lparr>resolve := \<lambda>_. Inr demo_bob\<rparr>)
        demo_coin_store (Some 5) = Inr st' \<and> supply_of st' = 15 \<and>
     Coin_Burn ((plain_ctx demo_bob)\<lparr>resolve := \<lambda>_. Inr demo_bob\<rparr>)
        demo_coin_store (Some demo_alice) (Some 3) = Inr st'' \<and> supply_of st'' = 7"
proof -
  let ?ctx = "(plain_ctx demo_bob)\<lparr>resolve := \<lambda>_. Inr demo_bob\<rparr>"
  obtain st' where m: "Coin_MintToGateway ?ctx demo_coin_store (Some 5) = Inr st'"
    by (simp add: Coin_MintToGateway_def Coin_mint_eq)
  obtain st'' where b: "Coin_Burn ?ctx demo_coin_store (Some demo_alice) (Some 3) = Inr st''"
    by (simp add: Coin_Burn_def Coin_burn_eq)
  from coin_mint_burn_authorised [of demo_coin_store ?ctx 5 st'] m
    coin_mint_burn_authorised [of demo_coin_store ?ctx 3 _ demo_alice st''] b
  show ?thesis by auto
qed

text \<open>Genesis: when the initial accounts have distinct owners, Init on empty storage records
  as total supply the sum of the accounts' balances, each account holds its own balance (the
  uint64 of the request read as int64, times 10^18), and the books balance.\<close>

theorem coin_init_supply:
  assumes "distinct (map init_owner ias)"
  shows "\<exists>st. Coin_Init empty_coin_store ias = Inr st \<and> wf_coin_store st \<and>
    supply_of st = total_balance st \<and>
    supply_of st = (\<Sum>ia\<leftarrow>ias. sint (init_balance ia) * 10 ^ 18) \<and>
    (\<forall>ia\<in>set ias. bal_of st (init_owner ia) = sint (init_balance ia) * 10 ^ 18)"
proof -
  obtain st where loop: "Coin_Init_loop ias empty_coin_store 0 =
      Inr (st, \<Sum>ia\<leftarrow>ias. Coin_init_balance ia)"
    and st: "wf_coin_store st" "total_balance st = (\<Sum>ia\<leftarrow>ias. Coin_init_balance ia)"
    and bal: "\<And>a. bal_of st a = (case find (\<lambda>ia. init_owner ia = a) ias of
       None \<Rightarrow> bal_of empty_coin_store a | Some ia \<Rightarrow> Coin_init_balance ia)"
    using Coin_Init_loop_spec [OF wf_empty_coin_store assms, of 0] by auto
  have "bal_of st (init_owner ia) = Coin_init_balance ia" if "ia \<in> set ias" for ia
  proof (cases "find (\<lambda>x. init_owner x = init_owner ia) ias")
    case None
    with that show ?thesis by (auto simp: find_None_iff)
  next
    case (Some x)
    then have "x \<in> set ias" and "init_owner x = init_owner ia"
      by (auto simp: find_Some_iff)
    with assms that have "x = ia" by (auto simp: distinct_map dest: inj_onD)
    with Some show ?thesis by (simp add: bal)
  qed
  with loop st show ?thesis
    by (auto simp: Coin_Init_def store_simps Coin_init_balance_def Coin_div_def)
qed

theorem coin_init_supply_witness:
  "distinct (map init_owner [\<lparr>init_owner = demo_alice, init_balance = 3\<rparr>]) \<and>
   (\<exists>st. Coin_Init empty_coin_store [\<lparr>init_owner = demo_alice, init_balance = 3\<rparr>] = Inr st \<and>
     supply_of st = 3 * 10 ^ 18)"
  using coin_init_supply [of "[\<lparr>init_owner = demo_alice, init_balance = 3\<rparr>]"] by auto

end
