(* ===== verification/Eth_Coin.thy ===== *)
theory Eth_Coin
  imports Coin_Ledger
begin

text \<open>
  ETH on the chain, \<open>builtin/plugins/ethcoin/eth_coin.go\<close>: the token whose balances the EVM
  reads and writes through \<open>plugin/account_balance_manager.go\<close>. The contract keeps the same
  storage as the native token; it has no genesis accounts and no burn, and it exports
  unchecked balance updates for the EVM.
\<close>

section \<open>Storage helpers\<close>

definition ETHCoin_loadAccount :: "coin_store \<Rightarrow> address \<Rightarrow> account res" where
  "ETHCoin_loadAccount st owner =
     (let acct = \<lparr>acct_owner = owner, acct_balance = 0\<rparr> in
      case ctx_get (accounts st) owner of
        Inr a \<Rightarrow> Inr a
      | Inl e \<Rightarrow> if e \<noteq> ErrNotFound then Inl e else Inr acct)"

definition ETHCoin_saveAccount :: "coin_store \<Rightarrow> account \<Rightarrow> coin_store res" where
  "ETHCoin_saveAccount st acct = Inr (put_account st acct)"

definition ETHCoin_loadAllowance :: "coin_store \<Rightarrow> address \<Rightarrow> address \<Rightarrow> allowance res" where
  "ETHCoin_loadAllowance st owner spender =
     (let allow = \<lparr>alw_owner = owner, alw_spender = spender, alw_amount = Some 0\<rparr> in
      case ctx_get (allowances st) (owner, spender) of
        Inr al \<Rightarrow> Inr al
      | Inl e \<Rightarrow> if e \<noteq> ErrNotFound then Inl e else Inr allow)"

definition ETHCoin_saveAllowance :: "coin_store \<Rightarrow> allowance \<Rightarrow> coin_store res" where
  "ETHCoin_saveAllowance st al = Inr (put_allowance st al)"

definition ETHCoin_loadEconomy :: "coin_store \<Rightarrow> int res" where
  "ETHCoin_loadEconomy st =
     (case (case economy st of None \<Rightarrow> Inl ErrNotFound | Some s \<Rightarrow> Inr s) of
        Inr s \<Rightarrow> Inr s
      | Inl e \<Rightarrow> if e \<noteq> ErrNotFound then Inl e else Inr 0)"

section \<open>Minting\<close>

definition ETHCoin_Mint :: "coin_store \<Rightarrow> address \<Rightarrow> int \<Rightarrow> coin_store res" where
  "ETHCoin_Mint st to amount =
     bind_res (ETHCoin_loadAccount st to) (\<lambda>account.
     bind_res (ETHCoin_loadEconomy st) (\<lambda>supply.
     let account = account\<lparr>acct_balance := acct_balance account + amount\<rparr>;
         supply = supply + amount
     in bind_res (ETHCoin_saveAccount st account) (\<lambda>st. Inr (put_economy st supply))))"

definition ETHCoin_MintToGateway :: "call_ctx \<Rightarrow> coin_store \<Rightarrow> int option \<Rightarrow> coin_store res" where
  "ETHCoin_MintToGateway ctx st req_amount =
     (case resolve ctx ''gateway'' of
        Inl e \<Rightarrow> Inl (Err ''failed to mint ETH'')
      | Inr gatewayAddr \<Rightarrow>
          if sender ctx \<noteq> gatewayAddr then Inl (Err ''not authorized to mint ETH'')
          else bind_res (deref req_amount) (ETHCoin_Mint st gatewayAddr))"

section \<open>Balances, as the EVM uses them\<close>

definition ETHCoin_BalanceOf :: "coin_store \<Rightarrow> address \<Rightarrow> int res" where
  "ETHCoin_BalanceOf st owner = bind_res (ETHCoin_loadAccount st owner) (\<lambda>acct. Inr (acct_balance acct))"

definition ETHCoin_AddBalance :: "coin_store \<Rightarrow> address \<Rightarrow> int \<Rightarrow> coin_store res" where
  "ETHCoin_AddBalance st addr amount =
     bind_res (ETHCoin_loadAccount st addr) (\<lambda>account.
     let balance = acct_balance account + amount
     in ETHCoin_saveAccount st (account\<lparr>acct_balance := balance\<rparr>))"

definition ETHCoin_SubBalance :: "coin_store \<Rightarrow> address \<Rightarrow> int \<Rightarrow> coin_store res" where
  "ETHCoin_SubBalance st addr amount =
     bind_res (ETHCoin_loadAccount st addr) (\<lambda>account.
     let balance = acct_balance account - amount
     in ETHCoin_saveAccount st (account\<lparr>acct_balance := balance\<rparr>))"

definition ETHCoin_SetBalance :: "coin_store \<Rightarrow> address \<Rightarrow> int \<Rightarrow> coin_store res" where
  "ETHCoin_SetBalance st addr amount =
     bind_res (ETHCoin_loadAccount st addr) (\<lambda>account.
     ETHCoin_saveAccount st (account\<lparr>acct_balance := amount\<rparr>))"

definition ETHCoin_transfer :: "coin_store \<Rightarrow> address \<Rightarrow> address \<Rightarrow> int \<Rightarrow> coin_store res" where
  "ETHCoin_transfer st from to amount =
     bind_res (ETHCoin_loadAccount st from) (\<lambda>fromAccount.
     bind_res (ETHCoin_loadAccount st to) (\<lambda>toAccount.
     let fromBalance = acct_balance fromAccount; toBalance = acct_balance toAccount in
     if fromBalance < amount then Inl (Err ''sender balance is too low'')
     else
       bind_res (ETHCoin_saveAccount st (fromAccount\<lparr>acct_balance := fromBalance - amount\<rparr>)) (\<lambda>st.
       ETHCoin_saveAccount st (toAccount\<lparr>acct_balance := toBalance + amount\<rparr>))))"

section \<open>ERC20 methods\<close>

definition ETHCoin_TotalSupply :: "coin_store \<Rightarrow> int res" where
  "ETHCoin_TotalSupply st = (case economy st of None \<Rightarrow> Inl ErrNotFound | Some s \<Rightarrow> Inr s)"

definition ETHCoin_Transfer :: "call_ctx \<Rightarrow> coin_store \<Rightarrow> transfer_req \<Rightarrow> coin_store res" where
  "ETHCoin_Transfer ctx st req =
     (let from = sender ctx; to = tr_to req in
      bind_res (deref (tr_amount req)) (\<lambda>amount. ETHCoin_transfer st from to amount))"

definition ETHCoin_Approve :: "call_ctx \<Rightarrow> coin_store \<Rightarrow> approve_req \<Rightarrow> coin_store res" where
  "ETHCoin_Approve ctx st req =
     (let owner = sender ctx; spender = ap_spender req in
      bind_res (ETHCoin_loadAllowance st owner spender) (\<lambda>allow.
      ETHCoin_saveAllowance st (allow\<lparr>alw_amount := ap_amount req\<rparr>)))"

definition ETHCoin_Allowance :: "coin_store \<Rightarrow> address \<Rightarrow> address \<Rightarrow> int option res" where
  "ETHCoin_Allowance st owner spender =
     bind_res (ETHCoin_loadAllowance st owner spender) (\<lambda>allow. Inr (alw_amount allow))"

definition ETHCoin_TransferFrom :: "call_ctx \<Rightarrow> coin_store \<Rightarrow> transfer_from_req \<Rightarrow> coin_store res" where
  "ETHCoin_TransferFrom ctx st req =
     (let spender = sender ctx; from = tf_from req; to = tf_to req in
      bind_res (ETHCoin_loadAccount st from) (\<lambda>fromAccount.
      bind_res (ETHCoin_loadAccount st to) (\<lambda>toAccount.
      bind_res (ETHCoin_loadAllowance st from spender) (\<lambda>allow.
      bind_res (deref (alw_amount allow)) (\<lambda>allowAmount.
      bind_res (deref (tf_amount req)) (\<lambda>amount.
      let fromBalance = acct_balance fromAccount; toBalance = acct_balance toAccount in
      if allowAmount < amount then Inl (Err ''amount is over spender's limit'')
      else if fromBalance < amount then Inl (Err ''sender balance is too low'')
      else
        bind_res (ETHCoin_saveAccount st (fromAccount\<lparr>acct_balance := fromBalance - amount\<rparr>)) (\<lambda>st.
        bind_res (ETHCoin_saveAccount st (toAccount\<lparr>acct_balance := toBalance + amount\<rparr>)) (\<lambda>st.
        ETHCoin_saveAllowance st (allow\<lparr>alw_amount := Some (allowAmount - amount)\<rparr>)))))))))"

section \<open>What the methods do to the ledger\<close>

lemma ETHCoin_loadAccount_eq [store_simps]:
  "wf_coin_store st \<Longrightarrow> ETHCoin_loadAccount st a = Inr (ledger_account st a)"
  by (cases "accounts st a")
    (auto simp: ETHCoin_loadAccount_def ledger_account_def bal_of_def dest: stored_account)

lemma ETHCoin_loadAccount_balance:
  "\<exists>acct. ETHCoin_loadAccount st a = Inr acct \<and> acct_balance acct = bal_of st a"
  by (cases "accounts st a") (auto simp: ETHCoin_loadAccount_def bal_of_def)

lemma ETHCoin_loadAllowance_eq [store_simps]:
  "wf_coin_store st \<Longrightarrow> ETHCoin_loadAllowance st x y = Inr (ledger_allowance st x y)"
  by (cases "allowances st (x, y)")
    (auto simp: ETHCoin_loadAllowance_def ledger_allowance_def allow_of_def dest: stored_allowance)

lemma ETHCoin_loadAllowance_amount:
  "\<exists>al. ETHCoin_loadAllowance st x y = Inr al \<and>
     (case alw_amount al of None \<Rightarrow> 0 | Some v \<Rightarrow> v) = allow_of st (x, y)"
  by (cases "allowances st (x, y)") (auto simp: ETHCoin_loadAllowance_def allow_of_def)

lemma ETHCoin_loadEconomy_eq [store_simps]: "ETHCoin_loadEconomy st = Inr (supply_of st)"
  by (cases "economy st") (simp_all add: ETHCoin_loadEconomy_def supply_of_def)

lemmas ethcoin_op_simps =
  ETHCoin_saveAccount_def ETHCoin_saveAllowance_def ledger_account_def ledger_allowance_def moved_def
  Let_def

text \<open>The contract provides the ERC20 interface, whatever the rest of the call context is.\<close>

interpretation ethcoin: erc20
  "\<lambda>st from to amt. ETHCoin_Transfer (ctx\<lparr>sender := from\<rparr>) st \<lparr>tr_to = to, tr_amount = Some amt\<rparr>"
  "\<lambda>st spender from to amt. ETHCoin_TransferFrom (ctx\<lparr>sender := spender\<rparr>) st
     \<lparr>tf_from = from, tf_to = to, tf_amount = Some amt\<rparr>"
  "\<lambda>st owner spender amt. ETHCoin_Approve (ctx\<lparr>sender := owner\<rparr>) st
     \<lparr>ap_spender = spender, ap_amount = Some amt\<rparr>"
  for ctx
proof (unfold_locales, goal_cases)
  case (1 st "from" amt to)
  then show ?case
    using ETHCoin_loadAccount_balance [of st "from"] ETHCoin_loadAccount_balance [of st to]
    by (auto simp: ETHCoin_Transfer_def ETHCoin_transfer_def)
next
  case (2 st amt "from" to)
  then show ?case
    by (auto simp: ETHCoin_Transfer_def ETHCoin_transfer_def ethcoin_op_simps store_simps)
next
  case (3 st "from" amt spender to)
  then show ?case
    using ETHCoin_loadAccount_balance [of st "from"] ETHCoin_loadAccount_balance [of st to]
      ETHCoin_loadAllowance_amount [of st "from" spender]
    by (auto simp: ETHCoin_TransferFrom_def deref_def Let_def split: option.splits)
next
  case (4 st amt "from" spender to)
  then show ?case
    by (auto simp: ETHCoin_TransferFrom_def ethcoin_op_simps store_simps)
next
  case (5 st owner spender amt)
  then show ?case
    by (auto simp: ETHCoin_Approve_def ethcoin_op_simps store_simps)
qed

lemma ETHCoin_balance_ops:
  assumes "wf_coin_store st"
  shows "ETHCoin_BalanceOf st a = Inr (bal_of st a)"
    and "ETHCoin_AddBalance st a v =
      Inr (put_account st \<lparr>acct_owner = a, acct_balance = bal_of st a + v\<rparr>)"
    and "ETHCoin_SubBalance st a v =
      Inr (put_account st \<lparr>acct_owner = a, acct_balance = bal_of st a - v\<rparr>)"
    and "ETHCoin_SetBalance st a v = Inr (put_account st \<lparr>acct_owner = a, acct_balance = v\<rparr>)"
  using assms
  by (simp_all add: ETHCoin_BalanceOf_def ETHCoin_AddBalance_def ETHCoin_SubBalance_def
      ETHCoin_SetBalance_def ethcoin_op_simps store_simps)

lemma ETHCoin_Mint_eq:
  "wf_coin_store st \<Longrightarrow>
   ETHCoin_Mint st to amt =
     Inr (put_economy (put_account st \<lparr>acct_owner = to, acct_balance = bal_of st to + amt\<rparr>)
       (supply_of st + amt))"
  by (simp add: ETHCoin_Mint_def ethcoin_op_simps store_simps)

section \<open>Properties\<close>

text \<open>A spender can never draw more than it was allowed: over any sequence of accepted
  TransferFrom calls of one spender on one owner's account, the amounts drawn add up to at most
  the allowance, and the allowance left is exactly the difference.\<close>

theorem ethcoin_allowance_budget:
  assumes "wf_coin_store st" and "0 \<le> allow_of st (own, sender ctx)"
    and "fold_res (\<lambda>(to, amt) s. ETHCoin_TransferFrom ctx s
           \<lparr>tf_from = own, tf_to = to, tf_amount = Some amt\<rparr>) xs st = Inr st'"
  shows "(\<Sum>x\<leftarrow>xs. snd x) \<le> allow_of st (own, sender ctx) \<and>
    allow_of st' (own, sender ctx) = allow_of st (own, sender ctx) - (\<Sum>x\<leftarrow>xs. snd x)"
  using ethcoin.allowance_budget [OF assms(1), where ctx = ctx and spender = "sender ctx"
      and own = own and xs = xs and st' = st'] assms(2,3)
  by simp

definition eth_owner :: address where "eth_owner = Address ''default'' [7]"
definition eth_spender :: address where "eth_spender = Address ''default'' [8]"

definition demo_eth_store :: coin_store where
  "demo_eth_store =
     put_allowance (put_account empty_coin_store \<lparr>acct_owner = eth_owner, acct_balance = 9\<rparr>)
       \<lparr>alw_owner = eth_owner, alw_spender = eth_spender, alw_amount = Some 5\<rparr>"

lemma demo_eth_simps [simp]:
  "eth_owner \<noteq> eth_spender" "eth_spender \<noteq> eth_owner"
  "wf_coin_store demo_eth_store"
  "bal_of demo_eth_store a = (if a = eth_owner then 9 else 0)"
  "allow_of demo_eth_store p = (if p = (eth_owner, eth_spender) then 5 else 0)"
  by (simp_all add: eth_owner_def eth_spender_def demo_eth_store_def store_simps)

theorem ethcoin_allowance_budget_witness:
  "\<exists>st'. fold_res (\<lambda>(to, amt) s. ETHCoin_TransferFrom (plain_ctx eth_spender) s
           \<lparr>tf_from = eth_owner, tf_to = to, tf_amount = Some amt\<rparr>)
         [(eth_spender, 2), (eth_spender, 3)] demo_eth_store = Inr st' \<and>
     allow_of st' (eth_owner, eth_spender) = 0"
proof -
  let ?f = "\<lambda>(to, amt) s. ETHCoin_TransferFrom (plain_ctx eth_spender) s
           \<lparr>tf_from = eth_owner, tf_to = to, tf_amount = Some amt\<rparr>"
  obtain st' where st': "fold_res ?f [(eth_spender, 2), (eth_spender, 3)] demo_eth_store = Inr st'"
    by (simp add: ETHCoin_TransferFrom_def ethcoin_op_simps store_simps)
  from ethcoin_allowance_budget [of demo_eth_store eth_owner "plain_ctx eth_spender"
      "[(eth_spender, 2), (eth_spender, 3)]" st'] st'
  show ?thesis by auto
qed

text \<open>The EVM's view of ETH balances: AddBalance followed by SubBalance of the same amount
  gives every account the balance it had, SetBalance makes BalanceOf return the value set, and
  none of the three touches another account, an allowance or the total supply.\<close>

theorem ethcoin_balance_manager:
  assumes "wf_coin_store st"
  shows "\<exists>st1 st2 st3. ETHCoin_AddBalance st a v = Inr st1 \<and> ETHCoin_SubBalance st1 a v = Inr st2 \<and>
    ETHCoin_SetBalance st a w = Inr st3 \<and>
    bal_of st2 = bal_of st \<and> allow_of st2 = allow_of st \<and> supply_of st2 = supply_of st \<and>
    ETHCoin_BalanceOf st3 b = Inr (if b = a then w else bal_of st b) \<and>
    allow_of st3 = allow_of st \<and> supply_of st3 = supply_of st"
  using assms by (simp add: ETHCoin_balance_ops store_simps)

theorem ethcoin_balance_manager_witness:
  "\<exists>st1 st2. ETHCoin_AddBalance demo_eth_store eth_owner 4 = Inr st1 \<and>
     ETHCoin_SubBalance st1 eth_owner 4 = Inr st2 \<and> bal_of st2 eth_owner = 9"
  using ethcoin_balance_manager [of demo_eth_store eth_owner 4 0 eth_owner]
  by auto

end
