(* ===== verification/Kv_Store.thy ===== *)
theory Kv_Store
  imports Diadem_Prelude
begin

text \<open>
  The application store: the \<open>KVStore\<close> interface of \<open>store/store.go\<close> as a record of
  operations, its laws as the locale \<open>kv_store\<close>, the in-memory store of
  \<open>store/memstore.go\<close>, the write-back transaction \<open>cacheTx\<close>, the prefixed stores, and the
  persistent counter of \<open>sequence.go\<close> as a client of the interface.

  A transaction over a store that obeys the laws obeys them again, reads see the writes made
  through it, committing replays those writes in order, and rolling back forgets them.
\<close>

section \<open>The interface\<close>

record 's kv_ops =
  op_get :: "'s \<Rightarrow> bytes \<Rightarrow> slice"
  op_has :: "'s \<Rightarrow> bytes \<Rightarrow> bool"
  op_range :: "'s \<Rightarrow> bytes \<Rightarrow> (bytes \<times> slice) list"
  op_set :: "'s \<Rightarrow> bytes \<Rightarrow> slice \<Rightarrow> 's"
  op_delete :: "'s \<Rightarrow> bytes \<Rightarrow> 's"

locale kv_store =
  fixes K :: "'s kv_ops"
    and invar :: "'s \<Rightarrow> bool"
  assumes get_set: "invar s \<Longrightarrow> op_get K (op_set K s k v) k' = (if k' = k then v else op_get K s k')"
    and has_set: "invar s \<Longrightarrow> op_has K (op_set K s k v) k' \<longleftrightarrow> k' = k \<or> op_has K s k'"
    and get_delete: "invar s \<Longrightarrow> op_get K (op_delete K s k) k' = (if k' = k then None else op_get K s k')"
    and has_delete: "invar s \<Longrightarrow> op_has K (op_delete K s k) k' \<longleftrightarrow> k' \<noteq> k \<and> op_has K s k'"
    and get_missing: "invar s \<Longrightarrow> \<not> op_has K s k \<Longrightarrow> op_get K s k = None"
    and inv_set: "invar s \<Longrightarrow> invar (op_set K s k v)"
    and inv_delete: "invar s \<Longrightarrow> invar (op_delete K s k)"

section \<open>The in-memory store\<close>

type_synonym MemStore = "bytes \<rightharpoonup> slice"

definition MemStore_Get :: "MemStore \<Rightarrow> bytes \<Rightarrow> slice" where
  "MemStore_Get m key = (case m key of None \<Rightarrow> None | Some v \<Rightarrow> v)"

definition MemStore_Has :: "MemStore \<Rightarrow> bytes \<Rightarrow> bool" where
  "MemStore_Has m key \<longleftrightarrow> m key \<noteq> None"

definition MemStore_Set :: "MemStore \<Rightarrow> bytes \<Rightarrow> slice \<Rightarrow> MemStore" where
  "MemStore_Set m key value = m(key := Some value)"

definition MemStore_Delete :: "MemStore \<Rightarrow> bytes \<Rightarrow> MemStore" where
  "MemStore_Delete m key = m(key := None)"

text \<open>
  \<open>MemStore.Range\<close> walks a Go map, whose order is not determined, so its result is an argument.
\<close>

definition MemStore_ops :: "(MemStore \<Rightarrow> bytes \<Rightarrow> (bytes \<times> slice) list) \<Rightarrow> MemStore kv_ops" where
  "MemStore_ops rng =
     \<lparr>op_get = MemStore_Get, op_has = MemStore_Has, op_range = rng,
      op_set = MemStore_Set, op_delete = MemStore_Delete\<rparr>"

interpretation mem: kv_store "MemStore_ops rng" "\<lambda>_. True" for rng
  by unfold_locales
    (auto simp: MemStore_ops_def MemStore_Get_def MemStore_Has_def MemStore_Set_def
      MemStore_Delete_def)

section \<open>Transactions\<close>

record cacheItem =
  ci_value :: slice
  ci_deleted :: bool

datatype txAction = txSet | txDelete

record tempTx =
  tt_action :: txAction
  tt_key :: bytes
  tt_value :: slice

record 's cacheTx =
  ct_store :: 's
  ct_cache :: "bytes \<rightharpoonup> cacheItem"
  ct_tmpTxs :: "tempTx list"

definition cacheTx_Rollback :: "'s cacheTx \<Rightarrow> 's cacheTx" where
  "cacheTx_Rollback c = c\<lparr>ct_tmpTxs := [], ct_cache := Map.empty\<rparr>"

definition newCacheTx :: "'s \<Rightarrow> 's cacheTx" where
  "newCacheTx s = cacheTx_Rollback \<lparr>ct_store = s, ct_cache = Map.empty, ct_tmpTxs = []\<rparr>"

definition cacheTx_addAction :: "'s cacheTx \<Rightarrow> txAction \<Rightarrow> bytes \<Rightarrow> slice \<Rightarrow> 's cacheTx" where
  "cacheTx_addAction c action key value =
     c\<lparr>ct_tmpTxs := ct_tmpTxs c @ [\<lparr>tt_action = action, tt_key = key, tt_value = value\<rparr>]\<rparr>"

definition cacheTx_setCache :: "'s cacheTx \<Rightarrow> bytes \<Rightarrow> slice \<Rightarrow> bool \<Rightarrow> 's cacheTx" where
  "cacheTx_setCache c key val deleted =
     c\<lparr>ct_cache := (ct_cache c)(key \<mapsto> \<lparr>ci_value = val, ci_deleted = deleted\<rparr>)\<rparr>"

definition cacheTx_Delete :: "'s cacheTx \<Rightarrow> bytes \<Rightarrow> 's cacheTx" where
  "cacheTx_Delete c key = cacheTx_setCache (cacheTx_addAction c txDelete key None) key None True"

definition cacheTx_Set :: "'s cacheTx \<Rightarrow> bytes \<Rightarrow> slice \<Rightarrow> 's cacheTx" where
  "cacheTx_Set c key val = cacheTx_setCache (cacheTx_addAction c txSet key val) key val False"

definition cacheTx_Range :: "'s kv_ops \<Rightarrow> 's cacheTx \<Rightarrow> bytes \<Rightarrow> (bytes \<times> slice) list" where
  "cacheTx_Range K c prefix = op_range K (ct_store c) prefix"

definition cacheTx_Has :: "'s kv_ops \<Rightarrow> 's cacheTx \<Rightarrow> bytes \<Rightarrow> bool" where
  "cacheTx_Has K c key =
     (case ct_cache c key of
        Some item \<Rightarrow> \<not> ci_deleted item
      | None \<Rightarrow> op_has K (ct_store c) key)"

definition cacheTx_Get :: "'s kv_ops \<Rightarrow> 's cacheTx \<Rightarrow> bytes \<Rightarrow> slice" where
  "cacheTx_Get K c key =
     (case ct_cache c key of
        Some item \<Rightarrow> ci_value item
      | None \<Rightarrow> op_get K (ct_store c) key)"

definition apply_tempTx :: "'s kv_ops \<Rightarrow> tempTx \<Rightarrow> 's \<Rightarrow> 's" where
  "apply_tempTx K tx s =
     (case tt_action tx of
        txSet \<Rightarrow> op_set K s (tt_key tx) (tt_value tx)
      | txDelete \<Rightarrow> op_delete K s (tt_key tx))"

definition cacheTx_Commit :: "'s kv_ops \<Rightarrow> 's cacheTx \<Rightarrow> 's cacheTx" where
  "cacheTx_Commit K c = c\<lparr>ct_store := fold (apply_tempTx K) (ct_tmpTxs c) (ct_store c)\<rparr>"

definition cacheTx_ops :: "'s kv_ops \<Rightarrow> 's cacheTx kv_ops" where
  "cacheTx_ops K =
     \<lparr>op_get = cacheTx_Get K, op_has = cacheTx_Has K, op_range = cacheTx_Range K,
      op_set = cacheTx_Set, op_delete = cacheTx_Delete\<rparr>"

lemma cacheTx_ops_simps [simp]:
  "op_get (cacheTx_ops K) = cacheTx_Get K"
  "op_has (cacheTx_ops K) = cacheTx_Has K"
  "op_range (cacheTx_ops K) = cacheTx_Range K"
  "op_set (cacheTx_ops K) = cacheTx_Set"
  "op_delete (cacheTx_ops K) = cacheTx_Delete"
  by (simp_all add: cacheTx_ops_def)

lemmas cacheTx_defs =
  cacheTx_Set_def cacheTx_Delete_def cacheTx_setCache_def cacheTx_addAction_def
  cacheTx_Get_def cacheTx_Has_def

lemma cacheTx_store_frame [simp]:
  "ct_store (cacheTx_Set c k v) = ct_store c"
  "ct_store (cacheTx_Delete c k) = ct_store c"
  "ct_store (cacheTx_Rollback c) = ct_store c"
  "ct_store (newCacheTx s) = s"
  "ct_tmpTxs (newCacheTx s) = []"
  "ct_cache (newCacheTx s) = Map.empty"
  "ct_tmpTxs (cacheTx_Rollback c) = []"
  by (simp_all add: cacheTx_defs cacheTx_Rollback_def newCacheTx_def)

lemma cacheTx_new_get [simp]: "cacheTx_Get K (newCacheTx s) k = op_get K s k"
  by (simp add: cacheTx_Get_def)

text \<open>
  A deleted key has no cached value, as \<open>cacheTx.Delete\<close> leaves it; the underlying store keeps
  its own invariant.
\<close>

definition cacheTx_inv :: "('s \<Rightarrow> bool) \<Rightarrow> 's cacheTx \<Rightarrow> bool" where
  "cacheTx_inv invar c \<longleftrightarrow>
     invar (ct_store c) \<and> (\<forall>k item. ct_cache c k = Some item \<and> ci_deleted item \<longrightarrow> ci_value item = None)"

subsection \<open>Writes through a store\<close>

text \<open>The writes a client makes, and making them on any store.\<close>

datatype kv_write = WSet bytes slice | WDelete bytes

primrec do_write :: "'s kv_ops \<Rightarrow> kv_write \<Rightarrow> 's \<Rightarrow> 's" where
  "do_write K (WSet k v) s = op_set K s k v"
| "do_write K (WDelete k) s = op_delete K s k"

definition do_writes :: "'s kv_ops \<Rightarrow> kv_write list \<Rightarrow> 's \<Rightarrow> 's" where
  "do_writes K ws s = fold (do_write K) ws s"

lemma do_writes_simps [simp]:
  "do_writes K [] s = s"
  "do_writes K (w # ws) s = do_writes K ws (do_write K w s)"
  "do_writes K (ws @ vs) s = do_writes K vs (do_writes K ws s)"
  by (simp_all add: do_writes_def)

text \<open>
  The log of a transaction is the list of its writes, so that committing makes the same writes
  on the store: no law is needed for this direction.
\<close>

primrec log_entry :: "kv_write \<Rightarrow> tempTx" where
  "log_entry (WSet k v) = \<lparr>tt_action = txSet, tt_key = k, tt_value = v\<rparr>"
| "log_entry (WDelete k) = \<lparr>tt_action = txDelete, tt_key = k, tt_value = None\<rparr>"

lemma apply_log_entry [simp]: "apply_tempTx K (log_entry w) s = do_write K w s"
  by (cases w) (simp_all add: apply_tempTx_def)

lemma do_write_log:
  "ct_tmpTxs (do_write (cacheTx_ops K) w c) = ct_tmpTxs c @ [log_entry w]"
  "ct_store (do_write (cacheTx_ops K) w c) = ct_store c"
  by (cases w; simp add: cacheTx_defs)+

lemma do_writes_log:
  "ct_tmpTxs (do_writes (cacheTx_ops K) ws c) = ct_tmpTxs c @ map log_entry ws"
  "ct_store (do_writes (cacheTx_ops K) ws c) = ct_store c"
  by (induction ws arbitrary: c) (simp_all add: do_write_log)

lemma fold_log_entries: "fold (apply_tempTx K) (map log_entry ws) s = do_writes K ws s"
  by (induction ws arbitrary: s) simp_all

lemma commit_new_tx:
  "ct_store (cacheTx_Commit K (do_writes (cacheTx_ops K) ws (newCacheTx s))) = do_writes K ws s"
  by (simp add: cacheTx_Commit_def do_writes_log fold_log_entries)

context kv_store
begin

text \<open>A transaction over a lawful store is a lawful store.\<close>

lemma cacheTx_kv_store: "kv_store (cacheTx_ops K) (cacheTx_inv invar)"
proof (unfold_locales, goal_cases)
  case (5 c k)
  then show ?case
    by (auto simp: cacheTx_inv_def cacheTx_defs get_missing split: option.splits)
qed (auto simp: cacheTx_inv_def cacheTx_defs split: option.splits)

lemma inv_do_writes: "invar s \<Longrightarrow> invar (do_writes K ws s)"
proof (induction ws arbitrary: s)
  case Nil
  then show ?case by simp
next
  case (Cons w ws)
  then show ?case by (cases w) (auto intro: inv_set inv_delete)
qed

text \<open>
  Two stores that answer every read alike still do after the same write, whatever they are made
  of: a write is determined by what the laws say.
\<close>

definition agrees :: "'s cacheTx \<Rightarrow> 's \<Rightarrow> bool" where
  "agrees c s \<longleftrightarrow> cacheTx_inv invar c \<and> invar s \<and>
     (\<forall>k. cacheTx_Get K c k = op_get K s k \<and> cacheTx_Has K c k = op_has K s k)"

lemma agrees_new: "invar s \<Longrightarrow> agrees (newCacheTx s) s"
  by (simp add: agrees_def cacheTx_inv_def cacheTx_Get_def cacheTx_Has_def)

lemma agrees_write:
  assumes "agrees c s"
  shows "agrees (do_write (cacheTx_ops K) w c) (do_write K w s)"
proof -
  have a: "cacheTx_inv invar c" "invar s"
    and r: "\<And>k. cacheTx_Get K c k = op_get K s k" "\<And>k. cacheTx_Has K c k = op_has K s k"
    using assms by (auto simp: agrees_def)
  note laws = kv_store.get_set [OF cacheTx_kv_store a(1)] kv_store.has_set [OF cacheTx_kv_store a(1)]
    kv_store.get_delete [OF cacheTx_kv_store a(1)] kv_store.has_delete [OF cacheTx_kv_store a(1)]
    kv_store.inv_set [OF cacheTx_kv_store a(1)] kv_store.inv_delete [OF cacheTx_kv_store a(1)]
  show ?thesis
    using laws get_set [OF a(2)] has_set [OF a(2)] get_delete [OF a(2)] has_delete [OF a(2)]
      inv_set [OF a(2)] inv_delete [OF a(2)] r
    by (cases w) (simp_all add: agrees_def)
qed

lemma agrees_writes: "agrees c s \<Longrightarrow> agrees (do_writes (cacheTx_ops K) ws c) (do_writes K ws s)"
  by (induction ws arbitrary: c s) (auto intro: agrees_write)

text \<open>Inside a transaction, reads see the store as if its writes had been made on it.\<close>

lemma tx_reads:
  assumes "invar s"
  shows "cacheTx_Get K (do_writes (cacheTx_ops K) ws (newCacheTx s)) k = op_get K (do_writes K ws s) k"
    and "cacheTx_Has K (do_writes (cacheTx_ops K) ws (newCacheTx s)) k = op_has K (do_writes K ws s) k"
  using agrees_writes [OF agrees_new [OF assms], of ws] by (simp_all add: agrees_def)

end

interpretation memtx: kv_store "cacheTx_ops (MemStore_ops rng)" "cacheTx_inv (\<lambda>_. True)" for rng
  by (rule mem.cacheTx_kv_store)

section \<open>Prefixed stores\<close>

text \<open>
  \<open>PrefixKVStore\<close> maps every key with \<open>util.PrefixKey\<close>, a function of go-diadem: here the
  argument \<open>pk\<close>.
\<close>

definition prefixReader_Get :: "(bytes \<Rightarrow> bytes \<Rightarrow> bytes) \<Rightarrow> bytes \<Rightarrow> 's kv_ops \<Rightarrow> 's \<Rightarrow> bytes \<Rightarrow> slice" where
  "prefixReader_Get pk prefix K s key = op_get K s (pk prefix key)"

definition prefixReader_Has :: "(bytes \<Rightarrow> bytes \<Rightarrow> bytes) \<Rightarrow> bytes \<Rightarrow> 's kv_ops \<Rightarrow> 's \<Rightarrow> bytes \<Rightarrow> bool" where
  "prefixReader_Has pk prefix K s key = op_has K s (pk prefix key)"

definition prefixReader_Range ::
    "(bytes \<Rightarrow> bytes \<Rightarrow> bytes) \<Rightarrow> bytes \<Rightarrow> 's kv_ops \<Rightarrow> 's \<Rightarrow> bytes \<Rightarrow> (bytes \<times> slice) list" where
  "prefixReader_Range pk prefix K s p = op_range K s (pk prefix p)"

definition prefixWriter_Set :: "(bytes \<Rightarrow> bytes \<Rightarrow> bytes) \<Rightarrow> bytes \<Rightarrow> 's kv_ops \<Rightarrow> 's \<Rightarrow> bytes \<Rightarrow> slice \<Rightarrow> 's" where
  "prefixWriter_Set pk prefix K s key val = op_set K s (pk prefix key) val"

definition prefixWriter_Delete :: "(bytes \<Rightarrow> bytes \<Rightarrow> bytes) \<Rightarrow> bytes \<Rightarrow> 's kv_ops \<Rightarrow> 's \<Rightarrow> bytes \<Rightarrow> 's" where
  "prefixWriter_Delete pk prefix K s key = op_delete K s (pk prefix key)"

definition PrefixKVStore :: "(bytes \<Rightarrow> bytes \<Rightarrow> bytes) \<Rightarrow> bytes \<Rightarrow> 's kv_ops \<Rightarrow> 's kv_ops" where
  "PrefixKVStore pk prefix K =
     \<lparr>op_get = prefixReader_Get pk prefix K, op_has = prefixReader_Has pk prefix K,
      op_range = prefixReader_Range pk prefix K,
      op_set = prefixWriter_Set pk prefix K, op_delete = prefixWriter_Delete pk prefix K\<rparr>"

lemmas prefix_defs =
  PrefixKVStore_def prefixReader_Get_def prefixReader_Has_def prefixWriter_Set_def
  prefixWriter_Delete_def

context kv_store
begin

lemma PrefixKVStore_kv_store:
  assumes "inj (pk prefix)"
  shows "kv_store (PrefixKVStore pk prefix K) invar"
  using injD [OF assms]
  by unfold_locales
    (auto simp: prefix_defs get_set has_set get_delete has_delete get_missing inv_set inv_delete)

end

section \<open>Persistent counters\<close>

text \<open>
  \<open>Sequence\<close> of \<open>sequence.go\<close>: a \<open>uint64\<close> under one key, zero when the key is missing; a
  stored value of fewer than eight bytes makes it panic. \<open>Next\<close> adds one modulo \<open>2 ^ 64\<close>.
\<close>

definition Sequence_Value :: "'s kv_ops \<Rightarrow> bytes \<Rightarrow> 's \<Rightarrow> u64 res" where
  "Sequence_Value K key s =
     (let data = op_get K s key in
      case data of
        None \<Rightarrow> Inr 0
      | Some bs \<Rightarrow>
          if length bs = 0 then Inr 0
          else (case be_decode64 bs of
                  None \<Rightarrow> Inl (Panic ''unexpected EOF'')
                | Some seq \<Rightarrow> Inr seq))"

definition Sequence_Next :: "'s kv_ops \<Rightarrow> bytes \<Rightarrow> 's \<Rightarrow> (u64 \<times> 's) res" where
  "Sequence_Next K key s =
     bind_res (Sequence_Value K key s) (\<lambda>v.
     let seq = v + 1 in Inr (seq, op_set K s key (Some (be_encode64 seq))))"

context kv_store
begin

lemma Sequence_Value_set:
  "invar s \<Longrightarrow> Sequence_Value K key (op_set K s key (Some (be_encode64 w))) = Inr w"
  by (simp add: Sequence_Value_def get_set)

lemma Sequence_Next_Value:
  assumes "invar s" and "Sequence_Next K key s = Inr (seq, s')"
  shows "Sequence_Value K key s = Inr (seq - 1)" and "Sequence_Value K key s' = Inr seq"
    and "invar s'" and "k \<noteq> key \<Longrightarrow> op_get K s' k = op_get K s k"
  using assms
  by (auto simp: Sequence_Next_def Let_def bind_res_eq_Inr_iff Sequence_Value_set get_set inv_set)

text \<open>Calling \<open>Next\<close> \<open>n\<close> times counts up by \<open>n\<close>.\<close>

lemma Sequence_Next_counts:
  assumes "invar s" and "Sequence_Value K key s = Inr v"
  shows "\<exists>s'. (((\<lambda>r. bind_res r (\<lambda>s. bind_res (Sequence_Next K key s) (\<lambda>(_, s). Inr s))) ^^ n) (Inr s))
      = Inr s' \<and> invar s' \<and> Sequence_Value K key s' = Inr (v + of_nat n)"
proof (induction n)
  case 0
  then show ?case using assms by simp
next
  case (Suc n)
  then obtain s' where s': "invar s'" "Sequence_Value K key s' = Inr (v + of_nat n)"
    and run: "((\<lambda>r. bind_res r (\<lambda>s. bind_res (Sequence_Next K key s) (\<lambda>(_, s). Inr s))) ^^ n) (Inr s)
      = Inr s'" by blast
  then show ?case
    by (auto simp: Sequence_Next_def Let_def Sequence_Value_set inv_set add.commute add.left_commute)
qed

end

section \<open>Properties\<close>

text \<open>C36: A transaction on the in-memory store: whatever writes are made through it, Get and Has
  inside it answer as if the writes had been made on the store directly, while Range answers from
  the underlying store and shows none of the pending writes; the underlying store is unchanged until
  Commit, Commit leaves the store with exactly those writes applied in order, and after Rollback
  Get and Has answer from the underlying store again.\<close>

theorem cacheTx_atomic:
  fixes s :: MemStore and rng :: "MemStore \<Rightarrow> bytes \<Rightarrow> (bytes \<times> slice) list"
  shows "let K = MemStore_ops rng; tx = do_writes (cacheTx_ops K) ws (newCacheTx s) in
    ct_store tx = s \<and>
    cacheTx_Get K tx k = MemStore_Get (do_writes K ws s) k \<and>
    cacheTx_Has K tx k = MemStore_Has (do_writes K ws s) k \<and>
    cacheTx_Range K tx p = rng s p \<and>
    ct_store (cacheTx_Commit K tx) = do_writes K ws s \<and>
    cacheTx_Get K (cacheTx_Rollback tx) k = MemStore_Get s k \<and>
    cacheTx_Has K (cacheTx_Rollback tx) k = MemStore_Has s k"
proof -
  have ops: "op_get (MemStore_ops rng) = MemStore_Get" "op_has (MemStore_ops rng) = MemStore_Has"
    "op_range (MemStore_ops rng) = rng"
    by (simp_all add: MemStore_ops_def)
  then show ?thesis
    using mem.tx_reads [where s = s and ws = ws and k = k and rng = rng]
    by (simp add: Let_def do_writes_log commit_new_tx)
      (simp add: cacheTx_Get_def cacheTx_Has_def cacheTx_Range_def cacheTx_Rollback_def do_writes_log ops)
qed

text \<open>Two contracts whose storage is the same store under different prefixes cannot see each
  other's writes, and each sees its own, when the key function keeps prefixed keys apart: the
  storage of a contract behaves as a private store.\<close>

theorem prefix_isolation:
  assumes "inj (pk p)" and "\<And>k k'. pk p k \<noteq> pk q k'"
  shows "op_get (PrefixKVStore pk p (MemStore_ops rng))
      (op_set (PrefixKVStore pk p (MemStore_ops rng)) s k v) k' =
      (if k' = k then v else op_get (PrefixKVStore pk p (MemStore_ops rng)) s k') \<and>
    op_get (PrefixKVStore pk q (MemStore_ops rng))
      (op_set (PrefixKVStore pk p (MemStore_ops rng)) s k v) k' =
      op_get (PrefixKVStore pk q (MemStore_ops rng)) s k'"
proof -
  have "kv_store (PrefixKVStore pk p (MemStore_ops rng)) (\<lambda>_. True)"
    using assms(1) by (rule mem.PrefixKVStore_kv_store)
  from kv_store.get_set [OF this, of s k v k'] assms(2) [symmetric] show ?thesis
    by (simp add: PrefixKVStore_def prefixReader_Get_def prefixWriter_Set_def mem.get_set)
qed

theorem prefix_isolation_witness:
  "op_get (PrefixKVStore (\<lambda>p k. p @ [0] @ k) [2] (MemStore_ops (\<lambda>_ _. [])))
      (op_set (PrefixKVStore (\<lambda>p k. p @ [0] @ k) [1] (MemStore_ops (\<lambda>_ _. []))) Map.empty [5] (Some [9])) [5]
    = None \<and>
   op_get (PrefixKVStore (\<lambda>p k. p @ [0] @ k) [1] (MemStore_ops (\<lambda>_ _. [])))
      (op_set (PrefixKVStore (\<lambda>p k. p @ [0] @ k) [1] (MemStore_ops (\<lambda>_ _. []))) Map.empty [5] (Some [9])) [5]
    = Some [9]"
proof -
  have "inj (\<lambda>k. [1 :: 8 word] @ [0] @ k)" by (simp add: inj_def)
  then show ?thesis
    using prefix_isolation [of "\<lambda>p k. p @ [0] @ k" "[1]" "[2]" "\<lambda>_ _. []" Map.empty "[5]" "Some [9]" "[5]"]
    by (simp add: PrefixKVStore_def prefixReader_Get_def MemStore_ops_def MemStore_Get_def)
qed

end
