(* ===== verification/Tx_Pipeline.thy ===== *)
theory Tx_Pipeline
  imports Kv_Store
begin

text \<open>
  How a transaction is processed: the middleware chain of \<open>middleware.go\<close>, the router of
  \<open>router.go\<close>, signature and nonce checks of \<open>auth/auth.go\<close>, the feature flags and the
  \<open>processTx\<close>, \<open>CheckTx\<close>, \<open>DeliverTx\<close>, \<open>BeginBlock\<close> and \<open>EndBlock\<close> handlers of
  \<open>app.go\<close>.

  A handler takes what it only reads (the request context and the block header), the mutable
  world, the bytes and the \<open>isCheckTx\<close> flag, and returns a result or an error together with the
  world it leaves, since a Go handler that fails has still made its writes. A Go panic is the
  error \<open>Panic\<close>.
\<close>

section \<open>Handlers and middleware\<close>

record req_ctx =
  rc_origin :: "address option"
  rc_chain_id :: string
  rc_height :: int

type_synonym ('w, 'r) tx_handler = "req_ctx \<Rightarrow> 'w \<Rightarrow> bytes \<Rightarrow> bool \<Rightarrow> 'r res \<times> 'w"
type_synonym ('w, 'r) tx_middleware =
  "req_ctx \<Rightarrow> 'w \<Rightarrow> bytes \<Rightarrow> ('w, 'r) tx_handler \<Rightarrow> bool \<Rightarrow> 'r res \<times> 'w"
type_synonym ('w, 'r) post_handler = "req_ctx \<Rightarrow> 'w \<Rightarrow> bytes \<Rightarrow> 'r \<Rightarrow> unit res \<times> 'w"
type_synonym ('w, 'r) post_middleware =
  "req_ctx \<Rightarrow> 'w \<Rightarrow> bytes \<Rightarrow> 'r \<Rightarrow> ('w, 'r) post_handler \<Rightarrow> unit res \<times> 'w"

fun post_chain :: "('w, 'r) post_middleware list \<Rightarrow> ('w, 'r) post_handler" where
  "post_chain [] rc w tx r = (Inr (), w)"
| "post_chain (m # ms) rc w tx r = m rc w tx r (post_chain ms)"

definition innermost ::
    "('w, 'r) tx_handler \<Rightarrow> ('w, 'r) post_middleware list \<Rightarrow> ('w, 'r) tx_handler" where
  "innermost h posts rc w tx chk =
     (case h rc w tx chk of
        (Inl e, w) \<Rightarrow> (Inl e, w)
      | (Inr r, w) \<Rightarrow>
          (case post_chain posts rc w tx r of
             (Inl e, w) \<Rightarrow> (Inl e, w)
           | (Inr _, w) \<Rightarrow> (Inr r, w)))"

fun MiddlewareTxHandler ::
    "('w, 'r) tx_middleware list \<Rightarrow> ('w, 'r) tx_handler \<Rightarrow> ('w, 'r) post_middleware list
       \<Rightarrow> ('w, 'r) tx_handler" where
  "MiddlewareTxHandler [] h posts = innermost h posts"
| "MiddlewareTxHandler (m # ms) h posts =
     (\<lambda>rc w tx chk. m rc w tx (MiddlewareTxHandler ms h posts) chk)"

definition NoopTxHandler :: "'r \<Rightarrow> ('w, 'r) tx_handler" where
  "NoopTxHandler zero rc w tx chk = (Inr zero, w)"

definition rvalError :: "string \<Rightarrow> go_error" where
  "rvalError msg = Err msg"

definition RecoveryTxMiddleware :: "('w, 'r) tx_middleware" where
  "RecoveryTxMiddleware rc w tx next chk =
     (case next rc w tx chk of
        (Inl (Panic msg), w') \<Rightarrow> (Inl (rvalError msg), w')
      | r \<Rightarrow> r)"

definition LogTxMiddleware :: "('w, 'r) tx_middleware" where
  "LogTxMiddleware rc w tx next chk = next rc w tx chk"

definition LogPostCommitMiddleware :: "('w, 'r) post_middleware" where
  "LogPostCommitMiddleware rc w tx r next = next rc w tx r"

section \<open>The router\<close>

type_synonym ('w, 'r) route_handler = "u32 \<Rightarrow> ('w, 'r) tx_handler"

record ('w, 'r) TxRouter =
  deliverTxRoutes :: "u32 \<rightharpoonup> ('w, 'r) route_handler"
  checkTxRoutes :: "u32 \<rightharpoonup> ('w, 'r) route_handler"

definition NewTxRouter :: "('w, 'r) TxRouter" where
  "NewTxRouter = \<lparr>deliverTxRoutes = Map.empty, checkTxRoutes = Map.empty\<rparr>"

definition GeneratePassthroughRouteHandler :: "('w, 'r) tx_handler \<Rightarrow> ('w, 'r) route_handler" where
  "GeneratePassthroughRouteHandler h txID = h"

definition GenerateConditionalRouteHandler ::
    "(u32 \<Rightarrow> req_ctx \<Rightarrow> 'w \<Rightarrow> bytes \<Rightarrow> bool \<Rightarrow> bool) \<Rightarrow> ('w, 'r) tx_handler \<Rightarrow> ('w, 'r) tx_handler
       \<Rightarrow> ('w, 'r) route_handler" where
  "GenerateConditionalRouteHandler cond onTrue onFalse txID rc w tx chk =
     (if cond txID rc w tx chk then onTrue rc w tx chk else onFalse rc w tx chk)"

definition HandleDeliverTx ::
    "('w, 'r) TxRouter \<Rightarrow> u32 \<Rightarrow> ('w, 'r) route_handler \<Rightarrow> ('w, 'r) TxRouter res" where
  "HandleDeliverTx r txID h =
     (if deliverTxRoutes r txID \<noteq> None
      then Inl (Panic ''handler for transaction already registered'')
      else Inr (r\<lparr>deliverTxRoutes := (deliverTxRoutes r)(txID \<mapsto> h)\<rparr>))"

definition HandleCheckTx ::
    "('w, 'r) TxRouter \<Rightarrow> u32 \<Rightarrow> ('w, 'r) route_handler \<Rightarrow> ('w, 'r) TxRouter res" where
  "HandleCheckTx r txID h =
     (if checkTxRoutes r txID \<noteq> None
      then Inl (Panic ''handler for transaction already registered'')
      else Inr (r\<lparr>checkTxRoutes := (checkTxRoutes r)(txID \<mapsto> h)\<rparr>))"

text \<open>
  The decoding of a \<open>Transaction\<close> message (its id and payload) is protobuf's, the argument
  \<open>unmarshal\<close>. An id without a route is a call of a nil function.
\<close>

definition TxRouter_ProcessTx ::
    "(bytes \<Rightarrow> (u32 \<times> bytes) res) \<Rightarrow> ('w, 'r) TxRouter \<Rightarrow> ('w, 'r) tx_handler" where
  "TxRouter_ProcessTx unmarshal r rc w tx chk =
     (case unmarshal tx of
        Inl e \<Rightarrow> (Inl e, w)
      | Inr (txID, data) \<Rightarrow>
          (case (if chk then checkTxRoutes r txID else deliverTxRoutes r txID) of
             None \<Rightarrow> (Inl (Panic ''nil pointer dereference''), w)
           | Some h \<Rightarrow> h txID rc w data chk))"

section \<open>Signatures\<close>

record SignedTx =
  stx_inner :: bytes
  stx_signature :: bytes
  stx_public_key :: bytes

text \<open>
  \<open>ed25519.Verify\<close> and \<open>diadem.LocalAddressFromPublicKey\<close> are the arguments \<open>verify\<close> and
  \<open>local_of_key\<close>.
\<close>

definition GetOrigin ::
    "(bytes \<Rightarrow> bytes \<Rightarrow> bytes \<Rightarrow> bool) \<Rightarrow> (bytes \<Rightarrow> bytes) \<Rightarrow> SignedTx \<Rightarrow> string \<Rightarrow> address res" where
  "GetOrigin verify local_of_key tx chainId =
     (if length (stx_public_key tx) \<noteq> 32 then Inl (Err ''invalid public key length'')
      else if length (stx_signature tx) \<noteq> 64
        then Inl (Err ''invalid signature ed25519 signature size length'')
      else if \<not> verify (stx_public_key tx) (stx_inner tx) (stx_signature tx)
        then Inl (Err ''invalid signature ed25519 verify'')
      else Inr (Address chainId (local_of_key (stx_public_key tx))))"

definition SignatureTxMiddleware ::
    "(bytes \<Rightarrow> SignedTx res) \<Rightarrow> (bytes \<Rightarrow> bytes \<Rightarrow> bytes \<Rightarrow> bool) \<Rightarrow> (bytes \<Rightarrow> bytes)
       \<Rightarrow> ('w, 'r) tx_middleware" where
  "SignatureTxMiddleware unmarshal verify local_of_key rc w txBytes next chk =
     (case unmarshal txBytes of
        Inl e \<Rightarrow> (Inl e, w)
      | Inr tx \<Rightarrow>
          (case GetOrigin verify local_of_key tx (rc_chain_id rc) of
             Inl e \<Rightarrow> (Inl e, w)
           | Inr origin \<Rightarrow> next (rc\<lparr>rc_origin := Some origin\<rparr>) w (stx_inner tx) chk))"

section \<open>Nonces\<close>

record NonceTx =
  ntx_sequence :: u64
  ntx_inner :: bytes

record NonceHandler =
  nonceCache :: "string \<rightharpoonup> u64"
  lastHeight :: int

text \<open>
  Of go-diadem: the storage key \<open>nonceKey\<close>, the string form of an address, \<open>IsEmpty\<close>, and the
  protobuf decoding of the envelope.
\<close>

record nonce_params =
  nonceKey :: "address \<Rightarrow> bytes"
  addr_string :: "address \<Rightarrow> string"
  addr_is_empty :: "address \<Rightarrow> bool"
  nonce_unmarshal :: "bytes \<Rightarrow> NonceTx res"

definition cached_nonce :: "NonceHandler \<Rightarrow> string \<Rightarrow> u64" where
  "cached_nonce n k = (case nonceCache n k of None \<Rightarrow> 0 | Some c \<Rightarrow> c)"

definition Nonce :: "'s kv_ops \<Rightarrow> nonce_params \<Rightarrow> 's \<Rightarrow> address \<Rightarrow> u64 res" where
  "Nonce K np s addr = Sequence_Value K (nonceKey np addr) s"

definition NonceHandler_Nonce ::
    "'s kv_ops \<Rightarrow> nonce_params \<Rightarrow> ('s \<times> NonceHandler, 'r) tx_middleware" where
  "NonceHandler_Nonce K np rc w txBytes next chk =
     (case w of (s, n) \<Rightarrow>
      case rc_origin rc of
        None \<Rightarrow> (Inl (Panic ''interface conversion''), (s, n))
      | Some origin \<Rightarrow>
          if addr_is_empty np origin
          then (Inl (Err ''transaction has no origin [nonce]''), (s, n))
          else
            let n = (if lastHeight n \<noteq> rc_height rc
                     then \<lparr>nonceCache = Map.empty, lastHeight = rc_height rc\<rparr> else n) in
            (case Sequence_Next K (nonceKey np origin) s of
               Inl e \<Rightarrow> (Inl e, (s, n))
             | Inr (seq, s) \<Rightarrow>
                 (case nonce_unmarshal np txBytes of
                    Inl e \<Rightarrow> (Inl e, (s, n))
                  | Inr tx \<Rightarrow>
                      let cacheSeq = cached_nonce n (addr_string np origin);
                          useCache = (cacheSeq \<noteq> 0 \<and> chk);
                          seq = (if useCache then cacheSeq else seq);
                          n = (if useCache then n
                               else n\<lparr>nonceCache := (nonceCache n)(addr_string np origin \<mapsto> seq)\<rparr>) in
                      if ntx_sequence tx \<noteq> seq
                      then (Inl (Err ''sequence number does not match''), (s, n))
                      else next rc (s, n) (ntx_inner tx) chk)))"

definition NonceHandler_IncNonce :: "nonce_params \<Rightarrow> ('s \<times> NonceHandler, 'r) post_middleware" where
  "NonceHandler_IncNonce np rc w txBytes r postcommit =
     (case w of (s, n) \<Rightarrow>
      case rc_origin rc of
        None \<Rightarrow> (Inl (Panic ''interface conversion''), (s, n))
      | Some origin \<Rightarrow>
          if addr_is_empty np origin
          then (Inl (Err ''transaction has no origin [IncNonce]''), (s, n))
          else (Inr (), (s, n\<lparr>nonceCache := (nonceCache n)(addr_string np origin \<mapsto>
                  cached_nonce n (addr_string np origin) + 1)\<rparr>)))"

section \<open>Feature flags\<close>

text \<open>\<open>featureKey\<close> is \<open>util.PrefixKey\<close> of the name, the argument \<open>fkey\<close>.\<close>

definition StoreState_FeatureEnabled :: "'s kv_ops \<Rightarrow> (string \<Rightarrow> bytes) \<Rightarrow> 's \<Rightarrow> string \<Rightarrow> bool \<Rightarrow> bool" where
  "StoreState_FeatureEnabled K fkey s name val =
     (let data = op_get K s (fkey name) in
      if slice_len data = 0 then val
      else if data = Some [1] then True
      else False)"

definition StoreState_SetFeature :: "'s kv_ops \<Rightarrow> (string \<Rightarrow> bytes) \<Rightarrow> 's \<Rightarrow> string \<Rightarrow> bool \<Rightarrow> 's" where
  "StoreState_SetFeature K fkey s name val =
     (let data = (if val then [1] else [0]) in op_set K s (fkey name) (Some data))"

section \<open>The application\<close>

text \<open>
  The parts of the application that are configured from outside: the handler of transactions,
  the check of a transaction's origin, the receipt handler, the managers of validators and of
  the chain configuration. \<open>'x\<close> is what these keep in memory, outside the store.
\<close>

record ('s, 'x, 'r) app_hooks =
  hk_tx_handler :: "('s cacheTx \<times> 'x, 'r) tx_handler"
  hk_validate_origin :: "'x \<Rightarrow> bytes \<Rightarrow> string \<Rightarrow> int \<Rightarrow> unit res \<times> 'x"
  hk_reset_origin :: "'x \<Rightarrow> int \<Rightarrow> 'x"
  hk_receipts_at :: "'x \<Rightarrow> int \<Rightarrow> 's cacheTx \<Rightarrow> unit res"
  hk_discard_receipt :: "'x \<Rightarrow> 'x"
  hk_commit_receipt :: "'x \<Rightarrow> 'x"
  hk_is_evm :: "'r \<Rightarrow> bool"
  hk_commit_block_receipts :: "'x \<Rightarrow> 's cacheTx \<Rightarrow> int \<Rightarrow> ('s cacheTx \<times> 'x) res"
  hk_upkeep :: "('s cacheTx \<Rightarrow> 's cacheTx option res) option"
  hk_validators_begin :: "'s cacheTx \<Rightarrow> int \<Rightarrow> 's cacheTx res"
  hk_validators_end :: "'s cacheTx \<Rightarrow> ('s cacheTx \<times> (bytes \<times> int) list) res"
  hk_enable_features :: "'s cacheTx \<Rightarrow> int \<Rightarrow> 's cacheTx res"
  hk_save_version :: "'s \<Rightarrow> ('s \<times> int) res"
  hk_prune :: "'s \<Rightarrow> 's"

record ('s, 'x) application =
  app_store :: 's
  app_version :: int
  app_mem :: 'x
  app_cur_height :: int
  app_chain_id :: string

definition app_height :: "('s, 'x) application \<Rightarrow> int" where
  "app_height a = app_version a + 1"

definition block_ctx :: "('s, 'x) application \<Rightarrow> req_ctx" where
  "block_ctx a = \<lparr>rc_origin = None, rc_chain_id = app_chain_id a, rc_height = app_cur_height a\<rparr>"

definition processTx ::
    "'s kv_ops \<Rightarrow> ('s, 'x, 'r) app_hooks \<Rightarrow> ('s, 'x) application \<Rightarrow> bytes \<Rightarrow> bool
       \<Rightarrow> 'r res \<times> ('s, 'x) application" where
  "processTx K hk a txBytes isCheckTx =
     (let storeTx = newCacheTx (app_store a);
          (origin_check, x) =
            (if isCheckTx
             then hk_validate_origin hk (app_mem a) txBytes (app_chain_id a) (app_cur_height a)
             else (Inr (), app_mem a))
      in
      case origin_check of
        Inl e \<Rightarrow>
          (Inl e, a\<lparr>app_store := ct_store (cacheTx_Rollback storeTx), app_mem := x\<rparr>)
      | Inr _ \<Rightarrow>
          (case hk_receipts_at hk x (app_height a) storeTx of
             Inl e \<Rightarrow> (Inl (Panic ''receipts''), a\<lparr>app_mem := x\<rparr>)
           | Inr _ \<Rightarrow>
               (case hk_tx_handler hk (block_ctx a) (storeTx, x) txBytes isCheckTx of
                  (Inl (Panic msg), (storeTx, x)) \<Rightarrow>
                    (Inl (Panic msg), a\<lparr>app_store := ct_store storeTx, app_mem := x\<rparr>)
                | (Inl e, (storeTx, x)) \<Rightarrow>
                    (Inl e, a\<lparr>app_store := ct_store (cacheTx_Rollback storeTx),
                              app_mem := hk_discard_receipt hk x\<rparr>)
                | (Inr r, (storeTx, x)) \<Rightarrow>
                    if \<not> isCheckTx then
                      (let x = (if hk_is_evm hk r then hk_commit_receipt hk x else x)
                       in (Inr r, a\<lparr>app_store := ct_store (cacheTx_Commit K storeTx), app_mem := x\<rparr>))
                    else (Inr r, a\<lparr>app_store := ct_store storeTx, app_mem := x\<rparr>))))"

text \<open>
  The response codes of the ABCI: 0 accepts, 1 rejects. A panic that no middleware recovered
  stops the node.
\<close>

definition abci_response :: "'r res \<times> 'a \<Rightarrow> nat res \<times> 'a" where
  "abci_response out =
     (case out of
        (Inl (Panic msg), a) \<Rightarrow> (Inl (Panic msg), a)
      | (Inl e, a) \<Rightarrow> (Inr 1, a)
      | (Inr r, a) \<Rightarrow> (Inr 0, a))"

definition CheckTx ::
    "'s kv_ops \<Rightarrow> ('s, 'x, 'r) app_hooks \<Rightarrow> ('s, 'x) application \<Rightarrow> bytes
       \<Rightarrow> nat res \<times> ('s, 'x) application" where
  "CheckTx K hk a txBytes =
     (if app_cur_height a = 0 then (Inr 0, a)
      else abci_response (processTx K hk a txBytes True))"

definition DeliverTx ::
    "'s kv_ops \<Rightarrow> ('s, 'x, 'r) app_hooks \<Rightarrow> ('s, 'x) application \<Rightarrow> bytes
       \<Rightarrow> nat res \<times> ('s, 'x) application" where
  "DeliverTx K hk a txBytes = abci_response (processTx K hk a txBytes False)"

text \<open>
  \<open>BeginBlock\<close> and \<open>EndBlock\<close>: an error of a manager stops the node with a panic, except that a
  validator manager whose contract is not in the registry (\<open>ErrNotFound\<close>) is skipped, and that
  a failure to commit the receipts of a block only rolls back their transaction.
\<close>

definition app_upkeep ::
    "'s kv_ops \<Rightarrow> ('s, 'x, 'r) app_hooks \<Rightarrow> 's \<Rightarrow> 's res" where
  "app_upkeep K hk s =
     (case hk_upkeep hk of
        None \<Rightarrow> Inr s
      | Some f \<Rightarrow>
          (case f (newCacheTx s) of
             Inl e \<Rightarrow> Inl (Panic ''upkeep'')
           | Inr None \<Rightarrow> Inr s
           | Inr (Some tx) \<Rightarrow> Inr (ct_store (cacheTx_Commit K tx))))"

definition BeginBlock ::
    "'s kv_ops \<Rightarrow> ('s, 'x, 'r) app_hooks \<Rightarrow> ('s, 'x) application \<Rightarrow> int \<Rightarrow> ('s, 'x) application res" where
  "BeginBlock K hk a height =
     (if height \<noteq> app_height a then Inl (Panic ''app height doesn't match BeginBlock height'')
      else
        bind_res (app_upkeep K hk (app_store a)) (\<lambda>s.
        let a = a\<lparr>app_cur_height := height, app_store := s,
                  app_mem := hk_reset_origin hk (app_mem a) height\<rparr>;
            storeTx = newCacheTx s
        in
        bind_res
          (case hk_validators_begin hk storeTx (app_height a) of
             Inl ErrNotFound \<Rightarrow> Inr storeTx
           | Inl e \<Rightarrow> Inl (Panic ''validator manager'')
           | Inr tx \<Rightarrow> Inr tx) (\<lambda>storeTx.
        (case hk_enable_features hk storeTx (app_height a) of
           Inl e \<Rightarrow> Inl (Panic ''enable features'')
         | Inr storeTx \<Rightarrow> Inr (a\<lparr>app_store := ct_store (cacheTx_Commit K storeTx)\<rparr>)))))"

definition EndBlock ::
    "'s kv_ops \<Rightarrow> ('s, 'x, 'r) app_hooks \<Rightarrow> ('s, 'x) application \<Rightarrow> int
       \<Rightarrow> (('s, 'x) application \<times> (bytes \<times> int) list) res" where
  "EndBlock K hk a height =
     (if height \<noteq> app_height a then Inl (Panic ''app height doesn't match EndBlock height'')
      else
        bind_res
          (case hk_receipts_at hk (app_mem a) (app_height a) (newCacheTx (app_store a)) of
             Inl e \<Rightarrow> Inl (Panic ''receipts'') | Inr u \<Rightarrow> Inr u) (\<lambda>_.
        let a = (case hk_commit_block_receipts hk (app_mem a) (newCacheTx (app_store a)) (app_height a) of
                   Inl e \<Rightarrow> a
                 | Inr (tx, x) \<Rightarrow> a\<lparr>app_store := ct_store (cacheTx_Commit K tx), app_mem := x\<rparr>)
        in
        (case hk_validators_end hk (newCacheTx (app_store a)) of
           Inl ErrNotFound \<Rightarrow> Inr (a, [])
         | Inl e \<Rightarrow> Inl (Panic ''validator manager'')
         | Inr (tx, updates) \<Rightarrow> Inr (a\<lparr>app_store := ct_store (cacheTx_Commit K tx)\<rparr>, updates))))"

text \<open>
  \<open>Commit\<close> saves the store as a new version; when that fails the EVM root of the previous block
  is put back and the node stops. Pruning and the emission of events are outside the model's
  state, but for what \<open>Prune\<close> makes of the store.
\<close>

definition app_Commit ::
    "('s, 'x, 'r) app_hooks \<Rightarrow> ('s, 'x) application \<Rightarrow> ('s, 'x) application res" where
  "app_Commit hk a =
     (case hk_save_version hk (app_store a) of
        Inl e \<Rightarrow> Inl (Panic ''save version'')
      | Inr (s, v) \<Rightarrow> Inr (a\<lparr>app_store := hk_prune hk s, app_version := v\<rparr>))"

section \<open>Handlers that only write through their transaction\<close>

text \<open>
  The contract of a transaction handler: whatever it answers, the store transaction it leaves is
  the one it got with some writes made on it. The middleware chain keeps the contract, and then
  \<open>processTx\<close> is atomic.
\<close>

definition tx_local :: "'s kv_ops \<Rightarrow> ('s cacheTx \<times> 'x, 'r) tx_handler \<Rightarrow> bool" where
  "tx_local K h \<longleftrightarrow>
     (\<forall>rc c x tx chk. \<exists>ws. fst (snd (h rc (c, x) tx chk)) = do_writes (cacheTx_ops K) ws c)"

definition post_local :: "'s kv_ops \<Rightarrow> ('s cacheTx \<times> 'x, 'r) post_handler \<Rightarrow> bool" where
  "post_local K p \<longleftrightarrow>
     (\<forall>rc c x tx r. \<exists>ws. fst (snd (p rc (c, x) tx r)) = do_writes (cacheTx_ops K) ws c)"

lemma tx_localE:
  assumes "tx_local K h" and "h rc (c, x) tx chk = (r, (c', x'))"
  obtains ws where "c' = do_writes (cacheTx_ops K) ws c"
  using assms unfolding tx_local_def by (metis fst_conv snd_conv)

lemma post_localE:
  assumes "post_local K p" and "p rc (c, x) tx r = (q, (c', x'))"
  obtains ws where "c' = do_writes (cacheTx_ops K) ws c"
  using assms unfolding post_local_def by (metis fst_conv snd_conv)

lemma tx_localI:
  assumes "\<And>rc c x tx chk r c' x'. h rc (c, x) tx chk = (r, (c', x')) \<Longrightarrow>
    \<exists>ws. c' = do_writes (cacheTx_ops K) ws c"
  shows "tx_local K h"
  unfolding tx_local_def using assms by (metis prod.collapse)

lemma local_nothing: "\<exists>ws. c = do_writes (cacheTx_ops K) ws c"
  by (rule exI [of _ "[]"]) simp

lemma local_trans:
  assumes "c' = do_writes (cacheTx_ops K) ws c" and "c'' = do_writes (cacheTx_ops K) vs c'"
  shows "\<exists>us. c'' = do_writes (cacheTx_ops K) us c"
  using assms by (intro exI [of _ "ws @ vs"]) simp

lemma Noop_local: "tx_local K (NoopTxHandler zero)"
  unfolding tx_local_def by (auto simp: NoopTxHandler_def intro: local_nothing)

lemma innermost_local:
  assumes "tx_local K h" and "post_local K (post_chain posts)"
  shows "tx_local K (innermost h posts)"
proof (rule tx_localI)
  fix rc :: req_ctx and c tx chk r c' and x x' :: 'b
  assume eq: "innermost h posts rc (c, x) tx chk = (r, (c', x'))"
  obtain r1 c1 x1 where h1: "h rc (c, x) tx chk = (r1, (c1, x1))" by (metis prod.collapse)
  obtain ws where ws: "c1 = do_writes (cacheTx_ops K) ws c" by (rule tx_localE [OF assms(1) h1])
  show "\<exists>ws. c' = do_writes (cacheTx_ops K) ws c"
  proof (cases r1)
    case (Inl e)
    with eq h1 ws show ?thesis by (auto simp: innermost_def)
  next
    case (Inr v)
    obtain q c2 x2 where p: "post_chain posts rc (c1, x1) tx v = (q, (c2, x2))" by (metis prod.collapse)
    obtain vs where vs: "c2 = do_writes (cacheTx_ops K) vs c1" by (rule post_localE [OF assms(2) p])
    have "c' = c2" using eq h1 p Inr by (auto simp: innermost_def split: sum.splits)
    with local_trans [OF ws vs] show ?thesis by simp
  qed
qed

definition mw_local :: "'s kv_ops \<Rightarrow> ('s cacheTx \<times> 'x, 'r) tx_middleware \<Rightarrow> bool" where
  "mw_local K m \<longleftrightarrow> (\<forall>h. tx_local K h \<longrightarrow> tx_local K (\<lambda>rc w tx chk. m rc w tx h chk))"

lemma chain_local:
  assumes "\<And>m. m \<in> set ms \<Longrightarrow> mw_local K m" and "tx_local K h" and "post_local K (post_chain posts)"
  shows "tx_local K (MiddlewareTxHandler ms h posts)"
  using assms(1)
  by (induction ms) (simp_all add: innermost_local [OF assms(2,3)] mw_local_def)

lemma Recovery_world: "snd (RecoveryTxMiddleware rc w tx h chk) = snd (h rc w tx chk)"
  by (auto simp: RecoveryTxMiddleware_def split: prod.splits sum.splits go_error.splits)

lemma Recovery_local: "mw_local K RecoveryTxMiddleware"
  by (simp add: mw_local_def tx_local_def Recovery_world)

lemma Log_local: "mw_local K LogTxMiddleware"
  by (simp add: mw_local_def LogTxMiddleware_def)

lemma Signature_local: "mw_local K (SignatureTxMiddleware um verify loc)"
  unfolding mw_local_def tx_local_def
  by (auto simp: SignatureTxMiddleware_def split: sum.splits intro: local_nothing)

lemma Sequence_Next_write:
  assumes "Sequence_Next (cacheTx_ops K) key c = Inr (seq, c')"
  shows "c' = do_writes (cacheTx_ops K) [WSet key (Some (be_encode64 seq))] c"
  using assms by (auto simp: Sequence_Next_def Let_def bind_res_eq_Inr_iff)

lemma Nonce_local: "mw_local K (NonceHandler_Nonce (cacheTx_ops K) np)"
  unfolding mw_local_def
proof (intro allI impI tx_localI)
  fix h rc c tx chk r c' and n n' :: NonceHandler
  assume h: "tx_local K h"
    and eq: "NonceHandler_Nonce (cacheTx_ops K) np rc (c, n) tx h chk = (r, (c', n'))"
  show "\<exists>ws. c' = do_writes (cacheTx_ops K) ws c"
  proof (cases "rc_origin rc")
    case None
    with eq show ?thesis by (auto simp: NonceHandler_Nonce_def intro: local_nothing)
  next
    case (Some origin)
    show ?thesis
    proof (cases "Sequence_Next (cacheTx_ops K) (nonceKey np origin) c")
      case (Inl e)
      with eq Some show ?thesis
        by (auto simp: NonceHandler_Nonce_def Let_def split: if_splits intro: local_nothing)
    next
      case (Inr p)
      obtain seq c1 where p: "p = (seq, c1)" by (cases p)
      note c1 = Sequence_Next_write [OF Inr [unfolded p]]
      from eq Some Inr p have "c' = c \<or> c' = c1 \<or> (\<exists>m tx'. h rc (c1, m) tx' chk = (r, (c', n')))"
        by (auto simp: NonceHandler_Nonce_def Let_def split: if_splits sum.splits)
      then show ?thesis
        using c1 local_nothing [of c K] local_trans [OF c1] tx_localE [OF h] by metis
    qed
  qed
qed

lemma post_chain_local:
  "post_local K (post_chain [LogPostCommitMiddleware, NonceHandler_IncNonce np])"
  unfolding post_local_def
  by (auto simp: LogPostCommitMiddleware_def NonceHandler_IncNonce_def split: option.splits
      intro: local_nothing)

lemma router_local:
  assumes "\<And>txID h. deliverTxRoutes r txID = Some h \<Longrightarrow> tx_local K (h txID)"
    and "\<And>txID h. checkTxRoutes r txID = Some h \<Longrightarrow> tx_local K (h txID)"
  shows "tx_local K (TxRouter_ProcessTx um r)"
  unfolding tx_local_def
proof (intro allI)
  fix rc c x tx chk
  show "\<exists>ws. fst (snd (TxRouter_ProcessTx um r rc (c, x) tx chk)) = do_writes (cacheTx_ops K) ws c"
    using assms unfolding tx_local_def
    by (auto simp: TxRouter_ProcessTx_def split: sum.splits option.splits if_splits intro: local_nothing)
qed

section \<open>The application over such handlers\<close>

lemma processTx_app_frame:
  assumes "processTx K hk a tx chk = (r, a')"
  shows "app_version a' = app_version a" and "app_cur_height a' = app_cur_height a"
    and "app_chain_id a' = app_chain_id a"
  using assms
  by (auto simp: processTx_def Let_def split: prod.splits sum.splits if_splits go_error.splits)

locale local_handler =
  fixes K :: "'s kv_ops" and hk :: "('s, 'x, 'r) app_hooks"
  assumes handler_local: "tx_local K (hk_tx_handler hk)"
begin

lemma handler_store:
  assumes "hk_tx_handler hk rc (newCacheTx s, x) tx chk = (r, (c, x'))"
  obtains ws where "c = do_writes (cacheTx_ops K) ws (newCacheTx s)" and "ct_store c = s"
    and "ct_store (cacheTx_Commit K c) = do_writes K ws s"
  using tx_localE [OF handler_local assms] by (metis commit_new_tx do_writes_log(2) cacheTx_store_frame(4))

lemma processTx_store:
  assumes "processTx K hk a tx chk = (r, a')"
  shows "chk \<or> isl r \<Longrightarrow> app_store a' = app_store a"
    and "\<not> chk \<Longrightarrow> r = Inr v \<Longrightarrow>
      \<exists>ws x c. hk_tx_handler hk (block_ctx a) (newCacheTx (app_store a), app_mem a) tx False = (Inr v, (c, x)) \<and>
        c = do_writes (cacheTx_ops K) ws (newCacheTx (app_store a)) \<and>
        app_store a' = ct_store (cacheTx_Commit K c) \<and> app_store a' = do_writes K ws (app_store a)"
proof -
  obtain oc x where oc: "(if chk then hk_validate_origin hk (app_mem a) tx (app_chain_id a) (app_cur_height a)
      else (Inr (), app_mem a)) = (oc, x)" by (metis prod.collapse)
  obtain r1 c x1 where h: "hk_tx_handler hk (block_ctx a) (newCacheTx (app_store a), x) tx chk = (r1, (c, x1))"
    by (metis prod.collapse)
  obtain ws where ws: "c = do_writes (cacheTx_ops K) ws (newCacheTx (app_store a))"
    "ct_store c = app_store a" "ct_store (cacheTx_Commit K c) = do_writes K ws (app_store a)"
    by (rule handler_store [OF h])
  show "chk \<or> isl r \<Longrightarrow> app_store a' = app_store a"
    using assms oc h ws(2)
    by (auto simp: processTx_def Let_def split: sum.splits if_splits go_error.splits)
  assume "\<not> chk" "r = Inr v"
  then have "x = app_mem a" "r1 = Inr v" "app_store a' = ct_store (cacheTx_Commit K c)"
    using assms oc h
    by (auto simp: processTx_def Let_def split: sum.splits if_splits go_error.splits)
  then show "\<exists>ws x c. hk_tx_handler hk (block_ctx a) (newCacheTx (app_store a), app_mem a) tx False = (Inr v, (c, x)) \<and>
        c = do_writes (cacheTx_ops K) ws (newCacheTx (app_store a)) \<and>
        app_store a' = ct_store (cacheTx_Commit K c) \<and> app_store a' = do_writes K ws (app_store a)"
    using h ws(1,3) \<open>\<not> chk\<close> by auto
qed

end

section \<open>Authenticated, sequenced transactions\<close>

text \<open>
  The part of the node's chain that every transaction passes: logging, recovery, the signature
  check, the nonce check, then the handler, then the nonce cache.
\<close>

definition auth_chain ::
    "(bytes \<Rightarrow> SignedTx res) \<Rightarrow> (bytes \<Rightarrow> bytes \<Rightarrow> bytes \<Rightarrow> bool) \<Rightarrow> (bytes \<Rightarrow> bytes) \<Rightarrow> 's kv_ops
       \<Rightarrow> nonce_params \<Rightarrow> ('s cacheTx \<times> NonceHandler, 'r) tx_handler
       \<Rightarrow> ('s cacheTx \<times> NonceHandler, 'r) tx_handler" where
  "auth_chain um verify loc K np h =
     MiddlewareTxHandler
       [LogTxMiddleware, RecoveryTxMiddleware, SignatureTxMiddleware um verify loc,
        NonceHandler_Nonce (cacheTx_ops K) np]
       h [LogPostCommitMiddleware, NonceHandler_IncNonce np]"

lemma auth_chain_local: "tx_local K h \<Longrightarrow> tx_local K (auth_chain um verify loc K np h)"
  unfolding auth_chain_def
  by (rule chain_local)
    (auto simp: Log_local Recovery_local Signature_local Nonce_local
      simp del: post_chain.simps intro: post_chain_local)

text \<open>A handler behind the nonce check writes through its transaction and leaves the nonces alone.\<close>

primrec written_key :: "kv_write \<Rightarrow> bytes" where
  "written_key (WSet k v) = k"
| "written_key (WDelete k) = k"

definition nonce_free :: "'s kv_ops \<Rightarrow> nonce_params \<Rightarrow> ('s cacheTx \<times> NonceHandler, 'r) tx_handler \<Rightarrow> bool" where
  "nonce_free K np h \<longleftrightarrow>
     (\<forall>rc c n tx chk. \<exists>ws. snd (h rc (c, n) tx chk) = (do_writes (cacheTx_ops K) ws c, n) \<and>
        (\<forall>w\<in>set ws. \<forall>addr. written_key w \<noteq> nonceKey np addr))"

lemma nonce_free_local: "nonce_free K np h \<Longrightarrow> tx_local K h"
  unfolding nonce_free_def tx_local_def by (metis fst_conv)

lemma nonce_freeE:
  assumes "nonce_free K np h" and "h rc (c, n) tx chk = (r, w)"
  obtains ws where "w = (do_writes (cacheTx_ops K) ws c, n)"
    and "\<And>w addr. w \<in> set ws \<Longrightarrow> written_key w \<noteq> nonceKey np addr"
  using assms unfolding nonce_free_def by (metis snd_conv)

lemma Recovery_Inr:
  "RecoveryTxMiddleware rc w tx h chk = (Inr r, w') \<longleftrightarrow> h rc w tx chk = (Inr r, w')"
  by (auto simp: RecoveryTxMiddleware_def rvalError_def split: prod.splits sum.splits go_error.splits)

lemma innermost_inc_nonce:
  assumes "innermost h [LogPostCommitMiddleware, NonceHandler_IncNonce np] rc (c, n) tx chk = (Inr r, (c', n'))"
  obtains n1 where "h rc (c, n) tx chk = (Inr r, (c', n1))"
  using assms
  by (auto simp: innermost_def LogPostCommitMiddleware_def NonceHandler_IncNonce_def
      split: prod.splits sum.splits option.splits if_splits)

lemma Nonce_deliver_accepts:
  assumes "NonceHandler_Nonce K np rc (s, n) tx next False = (Inr r, w)"
  obtains origin ntx v n1 where "rc_origin rc = Some origin" and "nonce_unmarshal np tx = Inr ntx"
    and "Nonce K np s origin = Inr v" and "ntx_sequence ntx = v + 1"
    and "next rc (op_set K s (nonceKey np origin) (Some (be_encode64 (v + 1))), n1) (ntx_inner ntx) False
      = (Inr r, w)"
  using assms
  by (auto simp: NonceHandler_Nonce_def Nonce_def Sequence_Next_def Let_def bind_res_def
      split: option.splits if_splits sum.splits prod.splits)

lemma auth_chain_accepts:
  assumes free: "nonce_free K np h"
    and acc: "auth_chain um verify loc K np h rc (c, n) tx False = (Inr r, (c', n'))"
  obtains stx origin ntx v ws where "um tx = Inr stx"
    and "GetOrigin verify loc stx (rc_chain_id rc) = Inr origin"
    and "nonce_unmarshal np (stx_inner stx) = Inr ntx"
    and "Nonce (cacheTx_ops K) np c origin = Inr v" and "ntx_sequence ntx = v + 1"
    and "c' = do_writes (cacheTx_ops K) (WSet (nonceKey np origin) (Some (be_encode64 (v + 1))) # ws) c"
    and "\<And>w addr. w \<in> set ws \<Longrightarrow> written_key w \<noteq> nonceKey np addr"
proof -
  let ?in = "innermost h [LogPostCommitMiddleware, NonceHandler_IncNonce np]"
  from acc have "SignatureTxMiddleware um verify loc rc (c, n) tx
      (\<lambda>rc w tx chk. NonceHandler_Nonce (cacheTx_ops K) np rc w tx ?in chk) False = (Inr r, (c', n'))"
    by (simp add: auth_chain_def LogTxMiddleware_def Recovery_Inr)
  then obtain stx origin where s: "um tx = Inr stx" "GetOrigin verify loc stx (rc_chain_id rc) = Inr origin"
    and n: "NonceHandler_Nonce (cacheTx_ops K) np (rc\<lparr>rc_origin := Some origin\<rparr>) (c, n) (stx_inner stx) ?in False
      = (Inr r, (c', n'))"
    by (auto simp: SignatureTxMiddleware_def split: sum.splits)
  from n obtain ntx v n1 where v: "nonce_unmarshal np (stx_inner stx) = Inr ntx"
    "Nonce (cacheTx_ops K) np c origin = Inr v" "ntx_sequence ntx = v + 1"
    and nx: "?in (rc\<lparr>rc_origin := Some origin\<rparr>)
      (cacheTx_Set c (nonceKey np origin) (Some (be_encode64 (v + 1))), n1) (ntx_inner ntx) False
      = (Inr r, (c', n'))"
    by (rule Nonce_deliver_accepts) auto
  from nx obtain n2 where "h (rc\<lparr>rc_origin := Some origin\<rparr>)
      (cacheTx_Set c (nonceKey np origin) (Some (be_encode64 (v + 1))), n1) (ntx_inner ntx) False
      = (Inr r, (c', n2))" by (rule innermost_inc_nonce)
  then obtain ws where "c' = do_writes (cacheTx_ops K) ws
      (cacheTx_Set c (nonceKey np origin) (Some (be_encode64 (v + 1))))"
    and "\<And>w addr. w \<in> set ws \<Longrightarrow> written_key w \<noteq> nonceKey np addr"
    by (rule nonce_freeE [OF free]) auto
  with s v show thesis by (intro that [of stx origin ntx v ws]) auto
qed

context kv_store
begin

lemma get_do_writes:
  assumes "invar s" and "\<And>w. w \<in> set ws \<Longrightarrow> written_key w \<noteq> k"
  shows "op_get K (do_writes K ws s) k = op_get K s k"
  using assms
proof (induction ws arbitrary: s)
  case Nil
  then show ?case by simp
next
  case (Cons w ws)
  then have "op_get K (do_writes K ws (do_write K w s)) k = op_get K (do_write K w s) k"
    by (cases w) (auto intro!: Cons.IH inv_set inv_delete)
  also have "\<dots> = op_get K s k"
    using Cons.prems(1) Cons.prems(2) [of w] by (cases w) (auto simp: get_set get_delete)
  finally show ?case by simp
qed

lemma Nonce_new_tx: "Nonce (cacheTx_ops K) np (newCacheTx s) a = Nonce K np s a"
  by (simp add: Nonce_def Sequence_Value_def)

lemma Nonce_after_writes:
  assumes "invar s" and "\<And>w addr. w \<in> set ws \<Longrightarrow> written_key w \<noteq> nonceKey np addr"
  shows "Nonce K np (do_writes K (WSet (nonceKey np a) (Some (be_encode64 m)) # ws) s) b =
    (if nonceKey np b = nonceKey np a then Inr m else Nonce K np s b)"
proof -
  let ?s = "op_set K s (nonceKey np a) (Some (be_encode64 m))"
  have "op_get K (do_writes K ws ?s) (nonceKey np b) = op_get K ?s (nonceKey np b)"
    using assms by (intro get_do_writes inv_set) auto
  then have "Nonce K np (do_writes K ws ?s) b = Nonce K np ?s b"
    by (simp add: Nonce_def Sequence_Value_def)
  also have "\<dots> = (if nonceKey np b = nonceKey np a then Inr m else Nonce K np s b)"
    using assms(1) by (auto simp: Nonce_def Sequence_Value_set) (simp add: Sequence_Value_def get_set)
  finally show ?thesis by simp
qed

end

text \<open>The node: a lawful store, and the chain in front of a handler that leaves nonces alone.\<close>

locale sequenced_app = kv_store K invar
  for K :: "'s kv_ops" and invar :: "'s \<Rightarrow> bool" +
  fixes np :: nonce_params and um :: "bytes \<Rightarrow> SignedTx res"
    and verify :: "bytes \<Rightarrow> bytes \<Rightarrow> bytes \<Rightarrow> bool" and loc :: "bytes \<Rightarrow> bytes"
    and h :: "('s cacheTx \<times> NonceHandler, 'r) tx_handler"
    and hk :: "('s, NonceHandler, 'r) app_hooks"
  assumes inner_free: "nonce_free K np h"
    and handler_is: "hk_tx_handler hk = auth_chain um verify loc K np h"

sublocale sequenced_app \<subseteq> app: local_handler K hk
  by unfold_locales (simp add: handler_is auth_chain_local nonce_free_local [OF inner_free])

definition tx_origin ::
    "(bytes \<Rightarrow> SignedTx res) \<Rightarrow> (bytes \<Rightarrow> bytes \<Rightarrow> bytes \<Rightarrow> bool) \<Rightarrow> (bytes \<Rightarrow> bytes) \<Rightarrow> string \<Rightarrow> bytes \<Rightarrow> address res" where
  "tx_origin um verify loc chain tx = bind_res (um tx) (\<lambda>stx. GetOrigin verify loc stx chain)"

definition tx_sequence :: "(bytes \<Rightarrow> SignedTx res) \<Rightarrow> nonce_params \<Rightarrow> bytes \<Rightarrow> u64 res" where
  "tx_sequence um np tx =
     bind_res (um tx) (\<lambda>stx. bind_res (nonce_unmarshal np (stx_inner stx)) (\<lambda>ntx. Inr (ntx_sequence ntx)))"

definition deliver_all ::
    "'s kv_ops \<Rightarrow> ('s, 'x, 'r) app_hooks \<Rightarrow> bytes list \<Rightarrow> ('s, 'x) application \<Rightarrow> ('s, 'x) application" where
  "deliver_all K hk txs a = fold (\<lambda>tx a. snd (DeliverTx K hk a tx)) txs a"

lemma DeliverTx_cases:
  "DeliverTx K hk a tx = (Inr 0, a') \<longleftrightarrow> (\<exists>r. processTx K hk a tx False = (Inr r, a'))"
  "snd (DeliverTx K hk a tx) = snd (processTx K hk a tx False)"
  by (auto simp: DeliverTx_def abci_response_def split: prod.splits sum.splits go_error.splits)

context sequenced_app
begin

lemma deliver_accepts:
  assumes "invar (app_store a)" and "DeliverTx K hk a tx = (Inr 0, a')"
  obtains origin v where "tx_origin um verify loc (app_chain_id a) tx = Inr origin"
    and "Nonce K np (app_store a) origin = Inr v" and "tx_sequence um np tx = Inr (v + 1)"
    and "invar (app_store a')"
    and "\<And>b. Nonce K np (app_store a') b =
      (if nonceKey np b = nonceKey np origin then Inr (v + 1) else Nonce K np (app_store a) b)"
proof -
  from assms(2) obtain r where p: "processTx K hk a tx False = (Inr r, a')"
    by (auto simp: DeliverTx_cases)
  obtain x c where h: "auth_chain um verify loc K np h (block_ctx a) (newCacheTx (app_store a), app_mem a) tx False
      = (Inr r, (c, x))" and c: "app_store a' = ct_store (cacheTx_Commit K c)"
    using app.processTx_store(2) [OF p] by (auto simp: handler_is)
  from inner_free h show thesis
  proof (rule auth_chain_accepts, goal_cases)
    case (1 stx origin ntx v ws)
    let ?ws = "WSet (nonceKey np origin) (Some (be_encode64 (v + 1))) # ws"
    have st: "app_store a' = do_writes K ?ws (app_store a)"
      unfolding c 1(6) by (rule commit_new_tx)
    show thesis
    proof (rule that [of origin v])
      show "tx_origin um verify loc (app_chain_id a) tx = Inr origin"
        using 1 by (simp add: tx_origin_def block_ctx_def)
      show "Nonce K np (app_store a) origin = Inr v" using 1 by (simp add: Nonce_new_tx)
      show "tx_sequence um np tx = Inr (v + 1)" using 1 by (simp add: tx_sequence_def)
      show "invar (app_store a')" unfolding st by (rule inv_do_writes [OF assms(1)])
      show "\<And>b. Nonce K np (app_store a') b =
          (if nonceKey np b = nonceKey np origin then Inr (v + 1) else Nonce K np (app_store a) b)"
        unfolding st by (rule Nonce_after_writes [OF assms(1)]) (use 1(7) in blast)
    qed
  qed
qed

text \<open>One delivery moves a nonce by at most one.\<close>

lemma deliver_step:
  fixes tx :: bytes
  assumes "invar (app_store a)" and "Nonce K np (app_store a) b = Inr m"
  defines "a' \<equiv> snd (DeliverTx K hk a tx)"
  shows "invar (app_store a') \<and> app_chain_id a' = app_chain_id a \<and>
    (\<exists>k\<le>1. Nonce K np (app_store a') b = Inr (m + of_nat k))"
proof (cases "fst (DeliverTx K hk a tx) = Inr 0")
  case True
  then have d: "DeliverTx K hk a tx = (Inr 0, a')" unfolding a'_def by (metis prod.collapse)
  then obtain r where "processTx K hk a tx False = (Inr r, a')" by (auto simp: DeliverTx_cases)
  note frame = processTx_app_frame [OF this]
  from assms(1) d show ?thesis
  proof (rule deliver_accepts, goal_cases)
    case (1 origin v)
    have "Nonce K np (app_store a') b = Inr (m + of_nat (if nonceKey np b = nonceKey np origin then 1 else 0))"
      using 1(2,5) assms(2) by (auto simp: Nonce_def)
    with 1(4) frame show ?case by (auto intro!: exI [of _ "if nonceKey np b = nonceKey np origin then 1 else 0"])
  qed
next
  case False
  obtain r a1 where p: "processTx K hk a tx False = (r, a1)" by (metis prod.collapse)
  then have "a' = a1" unfolding a'_def DeliverTx_cases(2) by simp
  moreover have "isl r" using False p by (cases r) (auto simp: DeliverTx_def abci_response_def)
  ultimately show ?thesis
    using app.processTx_store(1) [OF p] processTx_app_frame [OF p] assms(1,2) by (auto intro!: exI [of _ 0])
qed

lemma deliver_all_step:
  assumes "invar (app_store a)" and "Nonce K np (app_store a) b = Inr m"
  shows "invar (app_store (deliver_all K hk txs a)) \<and> app_chain_id (deliver_all K hk txs a) = app_chain_id a \<and>
    (\<exists>k\<le>length txs. Nonce K np (app_store (deliver_all K hk txs a)) b = Inr (m + of_nat k))"
  using assms
proof (induction txs arbitrary: a m)
  case Nil
  then show ?case by (auto simp: deliver_all_def intro!: exI [of _ 0])
next
  case (Cons tx txs)
  let ?a = "snd (DeliverTx K hk a tx)"
  from deliver_step [OF Cons.prems, of tx] obtain k where k: "invar (app_store ?a)"
    "app_chain_id ?a = app_chain_id a" "k \<le> 1" "Nonce K np (app_store ?a) b = Inr (m + of_nat k)" by blast
  from Cons.IH [OF k(1,4)] obtain j where "j \<le> length txs"
    "Nonce K np (app_store (deliver_all K hk txs ?a)) b = Inr (m + of_nat k + of_nat j)"
    "invar (app_store (deliver_all K hk txs ?a))"
    "app_chain_id (deliver_all K hk txs ?a) = app_chain_id a" using k(2) by auto
  then show ?case
    using k(3) by (auto simp: deliver_all_def add.assoc intro!: exI [of _ "k + j"])
qed

lemma no_replay:
  fixes txs :: "bytes list"
  assumes inv: "invar (app_store a)" and acc: "DeliverTx K hk a tx = (Inr 0, a1)"
    and few: "length txs < 2 ^ 64 - 1"
  defines "a2 \<equiv> deliver_all K hk txs a1"
  shows "fst (DeliverTx K hk a2 tx) \<noteq> Inr 0 \<and> app_store (snd (DeliverTx K hk a2 tx)) = app_store a2"
proof -
  from inv acc have no: "fst (DeliverTx K hk a2 tx) \<noteq> Inr 0"
  proof (rule deliver_accepts, goal_cases)
    case (1 origin v)
    have n1: "Nonce K np (app_store a1) origin = Inr (v + 1)" using 1(5) by simp
    have id: "app_chain_id a1 = app_chain_id a"
      using acc processTx_app_frame(3) by (auto simp: DeliverTx_cases)
    from deliver_all_step [OF 1(4) n1, of txs] obtain k where k: "k \<le> length txs"
      "Nonce K np (app_store a2) origin = Inr (v + 1 + of_nat k)" "invar (app_store a2)"
      "app_chain_id a2 = app_chain_id a" unfolding a2_def id by blast
    have ne: "v + 1 + of_nat k + 1 \<noteq> v + 1"
    proof
      assume "v + 1 + of_nat k + 1 = v + 1"
      then have "of_nat (Suc k) = (0 :: u64)" by (simp add: algebra_simps)
      then have "2 ^ 64 dvd Suc k" by (simp only: of_nat_eq_0_iff word_of_nat_eq_0_iff) simp
      with few k(1) show False by (auto dest: dvd_imp_le)
    qed
    show ?case
    proof
      assume "fst (DeliverTx K hk a2 tx) = Inr 0"
      then have "DeliverTx K hk a2 tx = (Inr 0, snd (DeliverTx K hk a2 tx))" by (metis prod.collapse)
      with k(3) show False
      proof (rule deliver_accepts, goal_cases)
        case (1 origin' v')
        with \<open>tx_origin um verify loc (app_chain_id a) tx = Inr origin\<close> k ne
          \<open>tx_sequence um np tx = Inr (v + 1)\<close> show ?case by simp
      qed
    qed
  qed
  obtain r a3 where p: "processTx K hk a2 tx False = (r, a3)" by (metis prod.collapse)
  have "isl r" using no p by (cases r) (auto simp: DeliverTx_def abci_response_def)
  with app.processTx_store(1) [OF p] no p show ?thesis by (simp add: DeliverTx_cases(2))
qed

end

subsection \<open>Several transactions of one sender in the mempool\<close>

text \<open>The sequence number the nonce check asks for in \<open>CheckTx\<close>, given the stored nonce \<open>v\<close>.\<close>

definition next_check_nonce :: "nonce_params \<Rightarrow> NonceHandler \<Rightarrow> int \<Rightarrow> address \<Rightarrow> u64 \<Rightarrow> u64" where
  "next_check_nonce np n height origin v =
     (if lastHeight n \<noteq> height \<or> cached_nonce n (addr_string np origin) = 0 then v + 1
      else cached_nonce n (addr_string np origin))"

fun check_all ::
    "'s kv_ops \<Rightarrow> ('s, 'x, 'r) app_hooks \<Rightarrow> bytes list \<Rightarrow> ('s, 'x) application
       \<Rightarrow> nat res list \<times> ('s, 'x) application" where
  "check_all K hk [] a = ([], a)"
| "check_all K hk (tx # txs) a =
     (let (code, a) = CheckTx K hk a tx; (codes, a) = check_all K hk txs a in (code # codes, a))"

text \<open>Hooks that accept every origin and find their receipts, and keep nothing of their own.\<close>

definition quiet_hooks :: "('s, 'x, 'r) app_hooks \<Rightarrow> bool" where
  "quiet_hooks hk \<longleftrightarrow>
     (\<forall>x tx cid ht. hk_validate_origin hk x tx cid ht = (Inr (), x)) \<and>
     (\<forall>x ht c. hk_receipts_at hk x ht c = Inr ())"

lemma Nonce_check_accepts:
  assumes "rc_origin rc = Some origin" and "\<not> addr_is_empty np origin"
    and "nonce_unmarshal np tx = Inr ntx" and "Nonce K np s origin = Inr v"
    and "ntx_sequence ntx = next_check_nonce np n (rc_height rc) origin v"
  obtains n1 where "NonceHandler_Nonce K np rc (s, n) tx nx True =
      nx rc (op_set K s (nonceKey np origin) (Some (be_encode64 (v + 1))), n1) (ntx_inner ntx) True"
    and "lastHeight n1 = rc_height rc" and "cached_nonce n1 (addr_string np origin) = ntx_sequence ntx"
proof (cases "lastHeight n \<noteq> rc_height rc")
  case True
  let ?n1 = "\<lparr>nonceCache = [addr_string np origin \<mapsto> v + 1], lastHeight = rc_height rc\<rparr>"
  show thesis
    by (rule that [of ?n1])
      (use assms True in \<open>simp_all add: NonceHandler_Nonce_def next_check_nonce_def Nonce_def
        Sequence_Next_def Let_def cached_nonce_def\<close>)
next
  case False
  let ?n1 = "if cached_nonce n (addr_string np origin) \<noteq> 0 then n
    else n\<lparr>nonceCache := (nonceCache n)(addr_string np origin \<mapsto> v + 1)\<rparr>"
  show thesis
    by (rule that [of ?n1])
      (use assms False in \<open>auto simp: NonceHandler_Nonce_def next_check_nonce_def Nonce_def
        Sequence_Next_def Let_def cached_nonce_def split: if_splits\<close>)
qed

lemma inc_nonce_world:
  assumes "rc_origin rc = Some origin" and "\<not> addr_is_empty np origin"
    and "h rc (c, n) tx True = (Inr r, (c', n))"
  shows "innermost h [LogPostCommitMiddleware, NonceHandler_IncNonce np] rc (c, n) tx True =
    (Inr r, (c', n\<lparr>nonceCache := (nonceCache n)(addr_string np origin \<mapsto>
       cached_nonce n (addr_string np origin) + 1)\<rparr>))"
  using assms by (simp add: innermost_def LogPostCommitMiddleware_def NonceHandler_IncNonce_def)

context sequenced_app
begin

lemma check_step:
  assumes quiet: "quiet_hooks hk" and started: "app_cur_height a \<noteq> 0"
    and origin: "tx_origin um verify loc (app_chain_id a) tx = Inr origin" "\<not> addr_is_empty np origin"
    and nonce: "Nonce K np (app_store a) origin = Inr v"
    and seq: "tx_sequence um np tx = Inr (next_check_nonce np (app_mem a) (app_cur_height a) origin v)"
    and small: "next_check_nonce np (app_mem a) (app_cur_height a) origin v + 1 \<noteq> 0"
    and ok: "\<And>rc w tx. \<not> isl (fst (h rc w tx True))"
  obtains a' where "CheckTx K hk a tx = (Inr 0, a')" and "app_store a' = app_store a"
    and "app_cur_height a' = app_cur_height a" and "app_chain_id a' = app_chain_id a"
    and "next_check_nonce np (app_mem a') (app_cur_height a) origin v =
      next_check_nonce np (app_mem a) (app_cur_height a) origin v + 1"
proof -
  from origin(1) seq obtain stx ntx where um: "um tx = Inr stx"
    "GetOrigin verify loc stx (app_chain_id a) = Inr origin"
    "nonce_unmarshal np (stx_inner stx) = Inr ntx"
    "ntx_sequence ntx = next_check_nonce np (app_mem a) (app_cur_height a) origin v"
    by (auto simp: tx_origin_def tx_sequence_def bind_res_eq_Inr_iff)
  let ?rc = "(block_ctx a)\<lparr>rc_origin := Some origin\<rparr>"
  let ?c = "newCacheTx (app_store a)"
  let ?in = "innermost h [LogPostCommitMiddleware, NonceHandler_IncNonce np]"
  have nc: "Nonce (cacheTx_ops K) np ?c origin = Inr v" using nonce by (simp add: Nonce_new_tx)
  obtain n1 where n1: "NonceHandler_Nonce (cacheTx_ops K) np ?rc (?c, app_mem a) (stx_inner stx) ?in True =
      ?in ?rc (cacheTx_Set ?c (nonceKey np origin) (Some (be_encode64 (v + 1))), n1) (ntx_inner ntx) True"
    "lastHeight n1 = app_cur_height a" "cached_nonce n1 (addr_string np origin) = ntx_sequence ntx"
    by (rule Nonce_check_accepts [OF _ origin(2) um(3) nc, of ?rc "app_mem a"])
      (use um(4) in \<open>simp_all add: block_ctx_def\<close>)
  obtain r c' n2 where hr: "h ?rc (cacheTx_Set ?c (nonceKey np origin) (Some (be_encode64 (v + 1))), n1)
      (ntx_inner ntx) True = (Inr r, (c', n2))"
    using ok by (metis prod.collapse isl_def sum.collapse(2))
  have "n2 = n1" using inner_free hr by (rule nonce_freeE) auto
  note inner = inc_nonce_world [of ?rc origin np h, OF _ origin(2) hr [unfolded this]]
  let ?n = "n1\<lparr>nonceCache := (nonceCache n1)(addr_string np origin \<mapsto> ntx_sequence ntx + 1)\<rparr>"
  have chain: "hk_tx_handler hk (block_ctx a) (?c, app_mem a) tx True = (Inr r, (c', ?n))"
    unfolding handler_is auth_chain_def
    using um n1 inner by (simp add: LogTxMiddleware_def Recovery_Inr SignatureTxMiddleware_def block_ctx_def)
  have p: "processTx K hk a tx True = (Inr r, a\<lparr>app_store := ct_store c', app_mem := ?n\<rparr>)"
    using quiet chain by (simp add: processTx_def quiet_hooks_def)
  show thesis
  proof (rule that)
    show "CheckTx K hk a tx = (Inr 0, a\<lparr>app_store := ct_store c', app_mem := ?n\<rparr>)"
      using p started by (simp add: CheckTx_def abci_response_def)
    show "app_store (a\<lparr>app_store := ct_store c', app_mem := ?n\<rparr>) = app_store a"
      using app.processTx_store(1) [OF p] by simp
  qed (use n1(2) um(4) small in \<open>simp_all add: next_check_nonce_def cached_nonce_def\<close>)
qed

lemma check_run:
  assumes quiet: "quiet_hooks hk" and ok: "\<And>rc w tx. \<not> isl (fst (h rc w tx True))"
    and e: "\<not> addr_is_empty np origin"
  shows "app_cur_height a \<noteq> 0 \<Longrightarrow> Nonce K np (app_store a) origin = Inr v \<Longrightarrow>
    next_check_nonce np (app_mem a) (app_cur_height a) origin v = m \<Longrightarrow>
    unat m + length txs < 2 ^ 64 \<Longrightarrow>
    (\<And>i. i < length txs \<Longrightarrow> tx_origin um verify loc (app_chain_id a) (txs ! i) = Inr origin \<and>
        tx_sequence um np (txs ! i) = Inr (m + of_nat i)) \<Longrightarrow>
    \<exists>a'. check_all K hk txs a = (replicate (length txs) (Inr 0), a') \<and> app_store a' = app_store a"
proof (induction txs arbitrary: a m)
  case Nil
  then show ?case by simp
next
  case (Cons tx txs)
  have m1: "unat m + 1 < 2 ^ 64" using Cons.prems(4) by simp
  then have u: "unat (m + 1) = unat m + 1"
    by (simp add: unat_word_ariths(1))
  have nz: "m + 1 \<noteq> 0"
  proof
    assume "m + 1 = 0"
    then have "unat (m + 1) = 0" by simp
    with u show False by simp
  qed
  have t: "tx_origin um verify loc (app_chain_id a) tx = Inr origin" "tx_sequence um np tx = Inr m"
    using Cons.prems(5) [of 0] by simp_all
  obtain a1 where a1: "CheckTx K hk a tx = (Inr 0, a1)" "app_store a1 = app_store a"
    "app_cur_height a1 = app_cur_height a" "app_chain_id a1 = app_chain_id a"
    "next_check_nonce np (app_mem a1) (app_cur_height a) origin v = m + 1"
    by (rule check_step [OF quiet Cons.prems(1) t(1) e Cons.prems(2) _ _ ok])
      (use t(2) Cons.prems(3) nz in auto)
  have "\<exists>a'. check_all K hk txs a1 = (replicate (length txs) (Inr 0), a') \<and> app_store a' = app_store a1"
  proof (rule Cons.IH)
    show "unat (m + 1) + length txs < 2 ^ 64" using u Cons.prems(4) by simp
    fix i assume "i < length txs"
    then show "tx_origin um verify loc (app_chain_id a1) (txs ! i) = Inr origin \<and>
        tx_sequence um np (txs ! i) = Inr (m + 1 + of_nat i)"
      using Cons.prems(5) [of "Suc i"] a1(4) by (simp add: add.assoc add.commute)
  qed (use a1 Cons.prems in simp_all)
  with a1 show ?case by auto
qed

end

section \<open>Blocks and features\<close>

lemma deliver_all_frame:
  "app_version (deliver_all K hk txs a) = app_version a \<and>
   app_cur_height (deliver_all K hk txs a) = app_cur_height a"
proof (induction txs arbitrary: a)
  case Nil
  then show ?case by (simp add: deliver_all_def)
next
  case (Cons tx txs)
  obtain r a1 where p: "processTx K hk a tx False = (r, a1)" by (metis prod.collapse)
  with Cons [of a1] processTx_app_frame [OF p] show ?case
    by (simp add: deliver_all_def DeliverTx_cases(2))
qed

lemma BeginBlock_frame:
  assumes "BeginBlock K hk a ht = Inr a'"
  shows "ht = app_version a + 1" and "app_version a' = app_version a" and "app_cur_height a' = ht"
  using assms
  by (auto simp: BeginBlock_def app_height_def Let_def elim!: bind_resE split: if_splits sum.split_asm)

lemma EndBlock_frame:
  assumes "EndBlock K hk a ht = Inr (a', us)"
  shows "ht = app_version a + 1" and "app_version a' = app_version a"
  using assms
  by (auto simp: EndBlock_def app_height_def Let_def elim!: bind_resE
      split: if_splits sum.split_asm go_error.split_asm prod.split_asm)

context kv_store
begin

lemma feature_roundtrip:
  assumes "invar s" and "inj fkey"
  shows "StoreState_FeatureEnabled K fkey (StoreState_SetFeature K fkey s name v) name' d =
    (if name' = name then v else StoreState_FeatureEnabled K fkey s name' d)"
  using assms
  by (auto simp: StoreState_FeatureEnabled_def StoreState_SetFeature_def Let_def get_set inj_eq)

end

section \<open>The chain on the in-memory store\<close>

lemma Noop_nonce_free: "nonce_free K np (NoopTxHandler zero)"
  unfolding nonce_free_def by (auto simp: NoopTxHandler_def intro!: exI [of _ "[]"])

interpretation memapp: sequenced_app "MemStore_ops rng" "\<lambda>_. True" np um verify loc "NoopTxHandler zero"
    "hk\<lparr>hk_tx_handler := auth_chain um verify loc (MemStore_ops rng) np (NoopTxHandler zero)\<rparr>"
  for rng np um verify loc zero hk
  by unfold_locales (simp_all add: Noop_nonce_free)

text \<open>A concrete node for the runs below: one route that does nothing, and a permissive verifier.\<close>

definition demo_params :: nonce_params where
  "demo_params = \<lparr>nonceKey = (\<lambda>a. 7 # Local a), addr_string = (\<lambda>a. ''a''), addr_is_empty = (\<lambda>a. Local a = []),
     nonce_unmarshal = (\<lambda>b. Inr \<lparr>ntx_sequence = of_nat (length b), ntx_inner = b\<rparr>)\<rparr>"

definition demo_signed :: "bytes \<Rightarrow> SignedTx res" where
  "demo_signed b = Inr \<lparr>stx_inner = b, stx_signature = replicate 64 0, stx_public_key = replicate 32 1\<rparr>"

definition demo_hooks :: "(MemStore, NonceHandler, nat) app_hooks" where
  "demo_hooks =
     \<lparr>hk_tx_handler = auth_chain demo_signed (\<lambda>_ _ _. True) id (MemStore_ops (\<lambda>_ _. [])) demo_params (NoopTxHandler 0),
      hk_validate_origin = (\<lambda>x _ _ _. (Inr (), x)), hk_reset_origin = (\<lambda>x _. x),
      hk_receipts_at = (\<lambda>_ _ _. Inr ()), hk_discard_receipt = id, hk_commit_receipt = id,
      hk_is_evm = (\<lambda>_. False), hk_commit_block_receipts = (\<lambda>x tx _. Inr (tx, x)), hk_upkeep = None,
      hk_validators_begin = (\<lambda>tx _. Inr tx), hk_validators_end = (\<lambda>tx. Inr (tx, [])),
      hk_enable_features = (\<lambda>tx _. Inr tx), hk_save_version = (\<lambda>s. Inr (s, 8)), hk_prune = id\<rparr>"

definition demo_app :: "(MemStore, NonceHandler) application" where
  "demo_app = \<lparr>app_store = Map.empty, app_version = 7,
     app_mem = \<lparr>nonceCache = Map.empty, lastHeight = 0\<rparr>, app_cur_height = 8, app_chain_id = ''default''\<rparr>"

lemma demo_origin: "GetOrigin (\<lambda>_ _ _. True) id
    \<lparr>stx_inner = b, stx_signature = replicate 64 0, stx_public_key = replicate 32 1\<rparr> c =
  Inr (Address c (replicate 32 1))"
  by (simp add: GetOrigin_def)

lemma demo_deliver: "\<exists>a. DeliverTx (MemStore_ops (\<lambda>_ _. [])) demo_hooks demo_app [0] = (Inr 0, a)"
proof -
  have "\<exists>w. hk_tx_handler demo_hooks (block_ctx demo_app) (newCacheTx Map.empty, app_mem demo_app) [0] False = (Inr 0, w)"
    by (simp add: demo_hooks_def auth_chain_def LogTxMiddleware_def Recovery_Inr SignatureTxMiddleware_def
        demo_signed_def demo_origin NonceHandler_Nonce_def demo_params_def Sequence_Next_def
        Sequence_Value_def MemStore_ops_def MemStore_Get_def innermost_def NoopTxHandler_def
        LogPostCommitMiddleware_def NonceHandler_IncNonce_def Let_def)
  then show ?thesis
    by (auto simp: DeliverTx_def abci_response_def processTx_def demo_app_def demo_hooks_def Let_def)
qed

section \<open>Properties\<close>

text \<open>C1: A transaction is atomic. When its handler reports an error, and in every CheckTx, the
  application store is what it was; when DeliverTx succeeds the store is the old one with exactly
  the writes the handler made applied to it. This holds for every handler that only writes through
  its store transaction.\<close>

theorem processTx_atomic:
  assumes "tx_local K (hk_tx_handler hk)" and "processTx K hk a tx chk = (out, a')"
  shows "((chk \<or> isl out) \<longrightarrow> app_store a' = app_store a) \<and>
    (\<forall>r. \<not> chk \<and> out = Inr r \<longrightarrow>
      (\<exists>ws x. hk_tx_handler hk (block_ctx a) (newCacheTx (app_store a), app_mem a) tx False =
          (Inr r, (do_writes (cacheTx_ops K) ws (newCacheTx (app_store a)), x)) \<and>
        app_store a' = do_writes K ws (app_store a)))"
proof -
  have "local_handler K hk" using assms(1) by unfold_locales
  note store = local_handler.processTx_store [OF this assms(2)]
  show ?thesis using store(1) store(2) by blast
qed

theorem processTx_atomic_witness:
  "app_store (snd (processTx (MemStore_ops (\<lambda>_ _. [])) demo_hooks demo_app [0] True)) = Map.empty"
proof -
  have "tx_local (MemStore_ops (\<lambda>_ _. [])) (hk_tx_handler demo_hooks)"
    by (simp add: demo_hooks_def auth_chain_local Noop_local)
  then show ?thesis
    using processTx_atomic [of "MemStore_ops (\<lambda>_ _. [])" demo_hooks demo_app "[0]" True] 
    by (metis application.select_convs(1) demo_app_def prod.collapse)
qed

text \<open>C2: A transaction is delivered at most once. After a signed transaction has been accepted by
  DeliverTx, and after any number (below 2^64 - 1) of further deliveries, delivering the same bytes
  again is refused and changes nothing in the store, on every lawful store and for every handler
  that leaves the nonce keys alone.\<close>

theorem deliver_at_most_once:
  assumes "kv_store K invar" and "nonce_free K np h"
    and "hk_tx_handler hk = auth_chain um verify loc K np h" and "invar (app_store a)"
    and "DeliverTx K hk a tx = (Inr 0, a1)" and "length txs < 2 ^ 64 - 1"
  shows "fst (DeliverTx K hk (deliver_all K hk txs a1) tx) \<noteq> Inr 0 \<and>
    app_store (snd (DeliverTx K hk (deliver_all K hk txs a1) tx)) = app_store (deliver_all K hk txs a1)"
proof -
  have "sequenced_app K invar np um verify loc h hk"
    using assms(1-3) by (simp add: sequenced_app_def sequenced_app_axioms_def)
  from sequenced_app.no_replay [OF this assms(4-6)] show ?thesis .
qed

theorem deliver_at_most_once_witness:
  "\<exists>a. DeliverTx (MemStore_ops (\<lambda>_ _. [])) demo_hooks demo_app [0] = (Inr 0, a) \<and>
     fst (DeliverTx (MemStore_ops (\<lambda>_ _. [])) demo_hooks
       (deliver_all (MemStore_ops (\<lambda>_ _. [])) demo_hooks [[0], [0, 0]] a) [0]) \<noteq> Inr 0"
proof -
  obtain a where a: "DeliverTx (MemStore_ops (\<lambda>_ _. [])) demo_hooks demo_app [0] = (Inr 0, a)"
    using demo_deliver by blast
  have "hk_tx_handler demo_hooks =
      auth_chain demo_signed (\<lambda>_ _ _. True) id (MemStore_ops (\<lambda>_ _. [])) demo_params (NoopTxHandler 0)"
    by (simp add: demo_hooks_def)
  from deliver_at_most_once [OF mem.kv_store_axioms Noop_nonce_free this TrueI a, of "[[0], [0, 0]]"] a
  show ?thesis by auto
qed

text \<open>C3: What an accepted delivery proves about the transaction: it carries a 32 byte public key
  and a 64 byte signature that verifies over its inner bytes, the sender is the address of that key
  on this chain, its sequence number is the stored nonce plus one, and afterwards the sender's
  nonce is that sequence number while the nonce under every other key is unchanged.\<close>

theorem deliver_authentic:
  assumes "kv_store K invar" and "nonce_free K np h"
    and "hk_tx_handler hk = auth_chain um verify loc K np h" and "invar (app_store a)"
    and "DeliverTx K hk a tx = (Inr 0, a1)"
  shows "\<exists>stx origin v. um tx = Inr stx \<and> length (stx_public_key stx) = 32 \<and>
    length (stx_signature stx) = 64 \<and> verify (stx_public_key stx) (stx_inner stx) (stx_signature stx) \<and>
    origin = Address (app_chain_id a) (loc (stx_public_key stx)) \<and>
    Nonce K np (app_store a) origin = Inr v \<and> tx_sequence um np tx = Inr (v + 1) \<and>
    (\<forall>b. Nonce K np (app_store a1) b =
      (if nonceKey np b = nonceKey np origin then Inr (v + 1) else Nonce K np (app_store a) b))"
proof -
  have "sequenced_app K invar np um verify loc h hk"
    using assms(1-3) by (simp add: sequenced_app_def sequenced_app_axioms_def)
  from sequenced_app.deliver_accepts [OF this assms(4,5)] obtain origin v where
    o: "tx_origin um verify loc (app_chain_id a) tx = Inr origin"
    and rest: "Nonce K np (app_store a) origin = Inr v" "tx_sequence um np tx = Inr (v + 1)"
      "\<forall>b. Nonce K np (app_store a1) b =
        (if nonceKey np b = nonceKey np origin then Inr (v + 1) else Nonce K np (app_store a) b)"
    by metis
  from o obtain stx where "um tx = Inr stx" "length (stx_public_key stx) = 32"
    "length (stx_signature stx) = 64" "verify (stx_public_key stx) (stx_inner stx) (stx_signature stx)"
    "origin = Address (app_chain_id a) (loc (stx_public_key stx))"
    by (auto simp: tx_origin_def bind_res_eq_Inr_iff GetOrigin_def split: if_splits)
  with rest show ?thesis by blast
qed

theorem deliver_authentic_witness:
  "\<exists>a1. DeliverTx (MemStore_ops (\<lambda>_ _. [])) demo_hooks demo_app [0] = (Inr 0, a1) \<and>
     (\<exists>v. tx_sequence demo_signed demo_params [0] = Inr (v + 1))"
proof -
  obtain a where a: "DeliverTx (MemStore_ops (\<lambda>_ _. [])) demo_hooks demo_app [0] = (Inr 0, a)"
    using demo_deliver by blast
  have "hk_tx_handler demo_hooks =
      auth_chain demo_signed (\<lambda>_ _ _. True) id (MemStore_ops (\<lambda>_ _. [])) demo_params (NoopTxHandler 0)"
    by (simp add: demo_hooks_def)
  from deliver_authentic [OF mem.kv_store_axioms Noop_nonce_free this TrueI a] a show ?thesis by blast
qed

text \<open>C4: Several transactions of one sender can wait in the mempool, as far as the nonce check is
  concerned. Let the origin validator of the application accept every origin (so the node does not limit
  calls: with a call limit the second call of a sender within the window is refused), let the receipts
  of the height be available, and let the handler behind the signature and nonce middleware accept
  every transaction in CheckTx and write no nonce. Then, in a block, CheckTx accepts a run of
  transactions of one sender whose sequence numbers follow one another from the number the nonce check
  expects, however many there are (short of wrapping around), although none of them is committed, and
  leaves the store alone.\<close>

theorem check_sequence_accepted:
  assumes "kv_store K invar" and "nonce_free K np h"
    and "hk_tx_handler hk = auth_chain um verify loc K np h" and "quiet_hooks hk"
    and "\<And>rc w tx. \<not> isl (fst (h rc w tx True))" and "\<not> addr_is_empty np origin"
    and "app_cur_height a \<noteq> 0" and "Nonce K np (app_store a) origin = Inr v"
    and "next_check_nonce np (app_mem a) (app_cur_height a) origin v = m"
    and "unat m + length txs < 2 ^ 64"
    and "\<And>i. i < length txs \<Longrightarrow> tx_origin um verify loc (app_chain_id a) (txs ! i) = Inr origin \<and>
        tx_sequence um np (txs ! i) = Inr (m + of_nat i)"
  shows "\<exists>a'. check_all K hk txs a = (replicate (length txs) (Inr 0), a') \<and> app_store a' = app_store a"
proof -
  have "sequenced_app K invar np um verify loc h hk"
    using assms(1-3) by (simp add: sequenced_app_def sequenced_app_axioms_def)
  from sequenced_app.check_run [OF this assms(4-6) assms(7-11)] show ?thesis .
qed

theorem check_sequence_accepted_witness:
  "fst (check_all (MemStore_ops (\<lambda>_ _. [])) demo_hooks [[0], [0, 0]] demo_app) = [Inr 0, Inr 0]"
proof -
  let ?o = "Address ''default'' (replicate 32 1)"
  have hk: "hk_tx_handler demo_hooks =
      auth_chain demo_signed (\<lambda>_ _ _. True) id (MemStore_ops (\<lambda>_ _. [])) demo_params (NoopTxHandler 0)"
    by (simp add: demo_hooks_def)
  have q: "quiet_hooks demo_hooks" by (simp add: quiet_hooks_def demo_hooks_def)
  have ok: "\<And>rc w tx. \<not> isl (fst (NoopTxHandler 0 rc w tx True))" by (simp add: NoopTxHandler_def)
  have n: "Nonce (MemStore_ops (\<lambda>_ _. [])) demo_params (app_store demo_app) ?o = Inr 0"
    by (simp add: Nonce_def Sequence_Value_def MemStore_ops_def MemStore_Get_def demo_app_def)
  have m: "next_check_nonce demo_params (app_mem demo_app) (app_cur_height demo_app) ?o 0 = 1"
    by (simp add: next_check_nonce_def demo_app_def)
  have "\<exists>a'. check_all (MemStore_ops (\<lambda>_ _. [])) demo_hooks [[0], [0, 0]] demo_app =
      (replicate (length [[0 :: 8 word], [0, 0]]) (Inr 0), a') \<and> app_store a' = app_store demo_app"
    by (rule check_sequence_accepted [OF mem.kv_store_axioms Noop_nonce_free hk q ok _ _ n m])
      (auto simp: demo_params_def demo_app_def tx_origin_def tx_sequence_def demo_signed_def demo_origin
        less_Suc_eq)
  then show ?thesis by (auto simp: numeral_2_eq_2)
qed

text \<open>No panic of a handler or of a middleware behind RecoveryTxMiddleware reaches the
  application: the chain answers with a result or an ordinary error for every transaction.\<close>

theorem recovery_contains_panics:
  "fst (MiddlewareTxHandler (LogTxMiddleware # RecoveryTxMiddleware # ms) h posts rc w tx chk) \<noteq> Inl (Panic msg)"
  by (auto simp: LogTxMiddleware_def RecoveryTxMiddleware_def rvalError_def
      split: prod.splits sum.splits go_error.splits)

text \<open>Blocks follow one another. A block is begun, executed and ended only at the height after
  the last saved version, and once it has been committed (saving adds one to the version) the only
  height the next block can begin at is the following one.\<close>

theorem block_heights:
  assumes "BeginBlock K hk a ht = Inr a1" and "EndBlock K hk (deliver_all K hk txs a1) ht' = Inr (a2, us)"
    and "app_Commit hk a2 = Inr a3"
    and "\<And>s s' v. hk_save_version hk s = Inr (s', v) \<Longrightarrow> v = app_version a2 + 1"
    and "BeginBlock K hk a3 ht'' = Inr a4"
  shows "ht = app_version a + 1 \<and> ht' = ht \<and> ht'' = ht + 1 \<and> app_cur_height a4 = ht + 1"
proof -
  note b1 = BeginBlock_frame [OF assms(1)]
  note e1 = EndBlock_frame [OF assms(2)]
  note b2 = BeginBlock_frame [OF assms(5)]
  have "app_version a3 = app_version a2 + 1"
    using assms(3,4) by (auto simp: app_Commit_def split: sum.splits)
  then show ?thesis
    using b1 e1 b2 deliver_all_frame [of K hk txs a1] by simp
qed

theorem block_heights_witness:
  "\<exists>a1 a2 a3 a4. BeginBlock (MemStore_ops (\<lambda>_ _. [])) demo_hooks demo_app 8 = Inr a1 \<and>
     EndBlock (MemStore_ops (\<lambda>_ _. [])) demo_hooks a1 8 = Inr (a2, []) \<and> app_Commit demo_hooks a2 = Inr a3 \<and>
     BeginBlock (MemStore_ops (\<lambda>_ _. [])) demo_hooks a3 9 = Inr a4 \<and> app_cur_height a4 = 8 + 1"
proof -
  let ?K = "MemStore_ops (\<lambda>_ _. [])"
  note defs = BeginBlock_def EndBlock_def app_Commit_def demo_hooks_def demo_app_def app_height_def
    app_upkeep_def Let_def
  obtain a1 where a1: "BeginBlock ?K demo_hooks demo_app 8 = Inr a1" "app_version a1 = 7"
    by (simp add: defs)
  obtain a2 where a2: "EndBlock ?K demo_hooks (deliver_all ?K demo_hooks [] a1) 8 = Inr (a2, [])" "app_version a2 = 7"
    using a1(2) by (simp add: defs deliver_all_def)
  obtain a3 where a3: "app_Commit demo_hooks a2 = Inr a3" "app_version a3 = 8" by (simp add: defs)
  obtain a4 where a4: "BeginBlock ?K demo_hooks a3 9 = Inr a4" using a3(2) by (simp add: defs)
  have "\<And>s s' v. hk_save_version demo_hooks s = Inr (s', v) \<Longrightarrow> v = app_version a2 + 1"
    using a2(2) by (simp add: demo_hooks_def)
  from block_heights [OF a1(1) a2(1) a3(1) this a4] a1(1) a2(1) a3(1) a4 show ?thesis
    by (auto simp: deliver_all_def)
qed

text \<open>A feature flag set through the state is what FeatureEnabled answers for that feature, for
  either value and whatever default is asked for, and the other features keep their answer.\<close>

theorem feature_flags:
  assumes "kv_store K invar" and "invar s" and "inj fkey"
  shows "StoreState_FeatureEnabled K fkey (StoreState_SetFeature K fkey s name v) name' d =
    (if name' = name then v else StoreState_FeatureEnabled K fkey s name' d)"
  using kv_store.feature_roundtrip [OF assms] .

theorem feature_flags_witness:
  "StoreState_FeatureEnabled (MemStore_ops (\<lambda>_ _. [])) go_bytes
     (StoreState_SetFeature (MemStore_ops (\<lambda>_ _. [])) go_bytes Map.empty ''dpos:v3'' True) ''dpos:v3'' False"
  using feature_flags [OF mem.kv_store_axioms TrueI go_bytes_inj] by simp

end
