(* ===== verification/Address_Mapper.thy ===== *)
theory Address_Mapper
  imports Tx_Pipeline
begin

text \<open>
  Identities across chains: the address mapper contract of
  \<open>builtin/plugins/address_mapper/address_mapper.go\<close>, and its client, the multi-chain signature
  middleware of \<open>auth/multi_chain_sigtx_middleware.go\<close> and \<open>auth/chainconfig_middleware.go\<close>.

  The contract keeps one \<open>AddressMapping\<close> per address. Signature recovery and the Solidity hash
  are third-party functions and therefore arguments.
\<close>

section \<open>The contract\<close>

record AddressMapping =
  am_From :: address
  am_To :: address

type_synonym am_store = "address \<rightharpoonup> AddressMapping"

abbreviation ErrAlreadyRegistered :: go_error where
  "ErrAlreadyRegistered \<equiv> Err ''[Address Mapper] identity mapping already exists''"

abbreviation ErrInvalidMapping :: go_error where
  "ErrInvalidMapping \<equiv> Err ''[Address Mapper] invalid request''"

text \<open>
  \<open>SoliditySHA3\<close> of the two local addresses is \<open>pair_hash\<close>; \<open>RecoverAddressFromTypedSig\<close> is
  \<open>recover\<close>, which gives the bytes of the signer's address or an error.
\<close>

record sig_scheme =
  pair_hash :: "bytes \<Rightarrow> bytes \<Rightarrow> bytes"
  recover :: "bytes \<Rightarrow> bytes \<Rightarrow> bytes res"

definition verifySig :: "sig_scheme \<Rightarrow> address \<Rightarrow> address \<Rightarrow> string \<Rightarrow> bytes \<Rightarrow> unit res" where
  "verifySig S src dst chainID sig =
     (if chainID \<noteq> ChainID src \<and> chainID \<noteq> ChainID dst
      then Inl (Err ''chain ID doesn't match either address'')
      else
        bind_res (recover S (pair_hash S (Local src) (Local dst)) sig) (\<lambda>signer.
        if chainID = ChainID src \<and> signer \<noteq> Local src then Inl (Err ''signer address doesn't match'')
        else if chainID = ChainID dst \<and> signer \<noteq> Local dst then Inl (Err ''signer address doesn't match'')
        else Inr ()))"

definition AddIdentityMapping ::
    "sig_scheme \<Rightarrow> call_ctx \<Rightarrow> address option \<Rightarrow> address option \<Rightarrow> slice \<Rightarrow> am_store \<Rightarrow> am_store res" where
  "AddIdentityMapping S ctx reqFrom reqTo reqSig s =
     (case (reqFrom, reqTo, reqSig) of
        (Some src, Some dst, Some sig) \<Rightarrow>
          if ChainID src = '''' \<or> ChainID dst = '''' then Inl ErrInvalidMapping
          else if src = dst then Inl ErrInvalidMapping
          else
            bind_res
              (if sender ctx = src then verifySig S src dst (ChainID dst) sig
               else if sender ctx = dst then verifySig S src dst (ChainID src) sig
               else Inl ErrInvalidMapping) (\<lambda>_.
            if s src \<noteq> None then Inl ErrAlreadyRegistered
            else if s dst \<noteq> None then Inl ErrAlreadyRegistered
            else
              let s = s(src \<mapsto> \<lparr>am_From = src, am_To = dst\<rparr>)
              in Inr (s(dst \<mapsto> \<lparr>am_From = dst, am_To = src\<rparr>)))
      | _ \<Rightarrow> Inl ErrInvalidMapping)"

definition HasMapping :: "address option \<Rightarrow> am_store \<Rightarrow> bool res" where
  "HasMapping reqFrom s =
     (case reqFrom of
        None \<Rightarrow> Inl ErrInvalidMapping
      | Some a \<Rightarrow>
          (case ctx_get s a of
             Inl ErrNotFound \<Rightarrow> Inr False
           | Inl e \<Rightarrow> Inl e
           | Inr m \<Rightarrow> Inr True))"

definition GetMapping :: "address option \<Rightarrow> am_store \<Rightarrow> AddressMapping res" where
  "GetMapping reqFrom s =
     (case reqFrom of
        None \<Rightarrow> Inl ErrInvalidMapping
      | Some a \<Rightarrow>
          (case ctx_get s a of
             Inl e \<Rightarrow> Inl (Err ''[Address Mapper] failed to map address'')
           | Inr m \<Rightarrow> Inr m))"

subsection \<open>The mapping is an involution\<close>

text \<open>Every mapping is filed under its own source and has its mirror image.\<close>

definition am_ok :: "am_store \<Rightarrow> bool" where
  "am_ok s \<longleftrightarrow> (\<forall>a m. s a = Some m \<longrightarrow>
     am_From m = a \<and> am_To m \<noteq> a \<and> s (am_To m) = Some \<lparr>am_From = am_To m, am_To = a\<rparr>)"

lemma am_ok_empty: "am_ok Map.empty"
  by (simp add: am_ok_def)

lemma AddIdentityMappingE:
  assumes "AddIdentityMapping S ctx f t sg s = Inr s'"
  obtains src dst sig where "f = Some src" and "t = Some dst" and "sg = Some sig" and "src \<noteq> dst"
    and "s src = None" and "s dst = None"
    and "s' = s(src \<mapsto> \<lparr>am_From = src, am_To = dst\<rparr>, dst \<mapsto> \<lparr>am_From = dst, am_To = src\<rparr>)"
    and "sender ctx = src \<and> verifySig S src dst (ChainID dst) sig = Inr () \<or>
      sender ctx = dst \<and> verifySig S src dst (ChainID src) sig = Inr ()"
  using assms
  by (auto simp: AddIdentityMapping_def Let_def bind_res_eq_Inr_iff split: option.splits if_splits)

lemma AddIdentityMapping_ok:
  assumes "am_ok s" and "AddIdentityMapping S ctx f t sg s = Inr s'"
  shows "am_ok s'"
  using assms(2)
proof (rule AddIdentityMappingE, goal_cases)
  case (1 src dst sig)
  with assms(1) show ?case
    unfolding am_ok_def by (auto simp: fun_upd_def split: if_splits) (metis option.discI)+
qed

lemma verifySig_signer:
  assumes "verifySig S src dst chain sig = Inr ()"
  shows "\<exists>signer. recover S (pair_hash S (Local src) (Local dst)) sig = Inr signer \<and>
    (chain = ChainID src \<longrightarrow> signer = Local src) \<and>
    (chain = ChainID dst \<longrightarrow> signer = Local dst)"
  using assms by (auto simp: verifySig_def bind_res_eq_Inr_iff split: if_splits)

text \<open>The states the contract can reach, as sequences of accepted calls.\<close>

inductive am_reachable :: "am_store \<Rightarrow> bool" where
  am_init: "am_reachable Map.empty"
| am_add: "am_reachable s \<Longrightarrow> AddIdentityMapping S ctx f t sg s = Inr s' \<Longrightarrow> am_reachable s'"

lemma am_reachable_ok: "am_reachable s \<Longrightarrow> am_ok s"
  by (induction rule: am_reachable.induct) (auto intro: am_ok_empty AddIdentityMapping_ok)

section \<open>Signatures of other chains\<close>

record ChainConfig =
  cc_TxType :: string
  cc_AccountType :: int

abbreviation NativeAccountType :: int where "NativeAccountType \<equiv> 0"
abbreviation MappedAccountType :: int where "MappedAccountType \<equiv> 1"

text \<open>The per-chain configuration, a Go map, as a list with distinct chain ids.\<close>

type_synonym chain_configs = "(string \<times> ChainConfig) list"

text \<open>
  The cryptography of the three signature schemes: \<open>ed25519.Verify\<close>, the address of a public
  key, the Solidity hash, the typed recovery, and Tron's \<open>Ecrecover\<close> with the two conversions of
  a public key that follow it.
\<close>

record crypto =
  cr_verify :: "bytes \<Rightarrow> bytes \<Rightarrow> bytes \<Rightarrow> bool"
  cr_local :: "bytes \<Rightarrow> bytes"
  cr_sha3 :: "bytes \<Rightarrow> bytes"
  cr_recover_typed :: "bytes \<Rightarrow> bytes \<Rightarrow> bytes res"
  cr_ecrecover :: "bytes \<Rightarrow> bytes \<Rightarrow> bytes res"
  cr_unmarshal_pubkey :: "bytes \<Rightarrow> bytes res"
  cr_pubkey_address :: "bytes \<Rightarrow> bytes"

definition verifyEd25519 :: "crypto \<Rightarrow> SignedTx \<Rightarrow> bytes res" where
  "verifyEd25519 cr tx =
     (if length (stx_public_key tx) \<noteq> 32 then Inl (Err ''invalid public key length'')
      else if length (stx_signature tx) \<noteq> 64
        then Inl (Err ''invalid signature ed25519 signature size length'')
      else if \<not> cr_verify cr (stx_public_key tx) (stx_inner tx) (stx_signature tx)
        then Inl (Err ''invalid signature ed25519 verify'')
      else Inr (cr_local cr (stx_public_key tx)))"

definition verifySolidity66Byte :: "crypto \<Rightarrow> SignedTx \<Rightarrow> bytes res" where
  "verifySolidity66Byte cr tx =
     (case cr_recover_typed cr (cr_sha3 cr (stx_inner tx)) (stx_signature tx) of
        Inl e \<Rightarrow> Inl (Err ''verify solidity key'')
      | Inr a \<Rightarrow> Inr a)"

definition verifyTron :: "crypto \<Rightarrow> SignedTx \<Rightarrow> bytes res" where
  "verifyTron cr tx =
     bind_res (cr_ecrecover cr (cr_sha3 cr (stx_inner tx)) (stx_signature tx)) (\<lambda>pkb.
     bind_res (cr_unmarshal_pubkey cr pkb) (\<lambda>pk. Inr (cr_pubkey_address cr pk)))"

definition originRecoveryFuncs :: "crypto \<Rightarrow> string \<rightharpoonup> (SignedTx \<Rightarrow> bytes res)" where
  "originRecoveryFuncs cr =
     [''diadem'' \<mapsto> verifyEd25519 cr, ''eth'' \<mapsto> verifySolidity66Byte cr, ''tron'' \<mapsto> verifyTron cr]"

text \<open>The protobuf codecs of the envelopes, arguments of the middleware.\<close>

record MessageTx =
  msg_to :: "address option"
  msg_from :: "address option"
  msg_data :: bytes

record tx_codec =
  dec_signed :: "bytes \<Rightarrow> SignedTx res"
  dec_nonce :: "bytes \<Rightarrow> NonceTx res"
  dec_tx :: "bytes \<Rightarrow> (u32 \<times> bytes) res"
  dec_msg :: "bytes \<Rightarrow> MessageTx res"
  enc_nonce :: "NonceTx \<Rightarrow> bytes res"
  enc_tx :: "u32 \<times> bytes \<Rightarrow> bytes res"
  enc_msg :: "MessageTx \<Rightarrow> bytes res"

definition getMappedAccountAddress :: "am_store res \<Rightarrow> string \<Rightarrow> address \<Rightarrow> address res" where
  "getMappedAccountAddress amctx chainID addr =
     (case amctx of
        Inl e \<Rightarrow> Inl (Err ''failed to create Address Mapper context'')
      | Inr s \<Rightarrow>
          (case GetMapping (Some addr) s of
             Inl e \<Rightarrow> Inl (Err ''failed to map account'')
           | Inr m \<Rightarrow>
               if ChainID (am_To m) \<noteq> chainID then Inl (Err ''mapped account has wrong chain ID'')
               else Inr (am_To m)))"

text \<open>
  The middleware decodes the nested envelopes, recovers the signer with the scheme of the
  sender's chain, and passes on the sender or the address it is mapped to; for a mapped account
  the envelopes are encoded again with the new sender. \<open>amctx\<close> gives the storage of the address
  mapper in the current state.
\<close>

definition unwrap_tx :: "tx_codec \<Rightarrow> bytes \<Rightarrow> (SignedTx \<times> NonceTx \<times> (u32 \<times> bytes) \<times> MessageTx) res" where
  "unwrap_tx C txBytes =
     bind_res (dec_signed C txBytes) (\<lambda>signedTx.
     case dec_nonce C (stx_inner signedTx) of
       Inl e \<Rightarrow> Inl (Err ''failed to unmarshal NonceTx'')
     | Inr nonceTx \<Rightarrow>
         (case dec_tx C (ntx_inner nonceTx) of
            Inl e \<Rightarrow> Inl (Err ''failed to unmarshal Transaction'')
          | Inr tx \<Rightarrow>
              (case dec_msg C (snd tx) of
                 Inl e \<Rightarrow> Inl (Err ''failed to unmarshal MessageTx'')
               | Inr msg \<Rightarrow> Inr (signedTx, nonceTx, tx, msg))))"

definition rewrap_tx :: "tx_codec \<Rightarrow> NonceTx \<Rightarrow> u32 \<times> bytes \<Rightarrow> MessageTx \<Rightarrow> address \<Rightarrow> bytes res" where
  "rewrap_tx C nonceTx tx msg origin =
     (case enc_msg C (msg\<lparr>msg_from := Some origin\<rparr>) of
        Inl e \<Rightarrow> Inl (Err ''failed to marshal MessageTx'')
      | Inr msgTxBytes \<Rightarrow>
          (case enc_tx C (fst tx, msgTxBytes) of
             Inl e \<Rightarrow> Inl (Err ''failed to marshal Transaction'')
           | Inr txBytes \<Rightarrow>
               (case enc_nonce C (nonceTx\<lparr>ntx_inner := txBytes\<rparr>) of
                  Inl e \<Rightarrow> Inl (Err ''failed to marshal NonceTx'')
                | Inr b \<Rightarrow> Inr b)))"

definition recover_sender :: "crypto \<Rightarrow> chain_configs \<Rightarrow> SignedTx \<Rightarrow> MessageTx \<Rightarrow> (address \<times> ChainConfig) res" where
  "recover_sender cr cfgs signedTx msg =
     (case msg_from msg of
        None \<Rightarrow> Inl (Err ''malformed MessageTx, sender not specified'')
      | Some msgSender \<Rightarrow>
          (case map_of cfgs (ChainID msgSender) of
             None \<Rightarrow> Inl (Err ''unknown chain ID'')
           | Some chain \<Rightarrow>
               (case originRecoveryFuncs cr (cc_TxType chain) of
                  None \<Rightarrow> Inl (Err ''recovery function for Tx type not found'')
                | Some recoverOrigin \<Rightarrow>
                    (case recoverOrigin signedTx of
                       Inl e \<Rightarrow> Inl (Err ''failed to recover origin'')
                     | Inr recoveredAddr \<Rightarrow>
                         if recoveredAddr \<noteq> Local msgSender
                         then Inl (Err ''message sender doesn't match origin'')
                         else Inr (msgSender, chain)))))"

definition NewMultiChainSignatureTxMiddleware ::
    "tx_codec \<Rightarrow> crypto \<Rightarrow> chain_configs \<Rightarrow> ('w \<Rightarrow> am_store res) \<Rightarrow> ('w, 'r) tx_middleware" where
  "NewMultiChainSignatureTxMiddleware C cr cfgs amctx rc w txBytes next chk =
     (case unwrap_tx C txBytes of
        Inl e \<Rightarrow> (Inl e, w)
      | Inr (signedTx, nonceTx, tx, msg) \<Rightarrow>
          (case recover_sender cr cfgs signedTx msg of
             Inl e \<Rightarrow> (Inl e, w)
           | Inr (msgSender, chain) \<Rightarrow>
               if cc_AccountType chain = NativeAccountType
               then next (rc\<lparr>rc_origin := Some msgSender\<rparr>) w (stx_inner signedTx) chk
               else if cc_AccountType chain = MappedAccountType
               then
                 (case getMappedAccountAddress (amctx w) (rc_chain_id rc) msgSender of
                    Inl e \<Rightarrow> (Inl e, w)
                  | Inr origin \<Rightarrow>
                      (case rewrap_tx C nonceTx tx msg origin of
                         Inl e \<Rightarrow> (Inl e, w)
                       | Inr nonceTxBytes \<Rightarrow> next (rc\<lparr>rc_origin := Some origin\<rparr>) w nonceTxBytes chk))
               else (Inl (Err ''Invalid account type''), w)))"

section \<open>Choosing the scheme\<close>

definition getEnabledChains :: "chain_configs \<Rightarrow> (string \<Rightarrow> bool \<Rightarrow> bool) \<Rightarrow> string \<Rightarrow> chain_configs" where
  "getEnabledChains cfgs feature curChainID =
     (let enabled = filter (\<lambda>(chainID, _). feature (''auth:sigtx:'' @ chainID) False) cfgs in
      if enabled \<noteq> [] \<and> map_of enabled curChainID = None
      then (curChainID, \<lparr>cc_TxType = ''diadem'', cc_AccountType = NativeAccountType\<rparr>) # enabled
      else enabled)"

definition NewChainConfigMiddleware ::
    "tx_codec \<Rightarrow> crypto \<Rightarrow> chain_configs \<Rightarrow> ('w \<Rightarrow> string \<Rightarrow> bool \<Rightarrow> bool) \<Rightarrow> ('w \<Rightarrow> am_store res)
       \<Rightarrow> ('w, 'r) tx_middleware" where
  "NewChainConfigMiddleware C cr cfg feature amctx rc w txBytes next chk =
     (let cfgs = getEnabledChains cfg (feature w) (rc_chain_id rc) in
      if cfgs \<noteq> [] then NewMultiChainSignatureTxMiddleware C cr cfgs amctx rc w txBytes next chk
      else SignatureTxMiddleware (dec_signed C) (cr_verify cr) (cr_local cr) rc w txBytes next chk)"

definition ResolveAccountAddress ::
    "chain_configs \<Rightarrow> (string \<Rightarrow> bool \<Rightarrow> bool) \<Rightarrow> am_store res \<Rightarrow> string \<Rightarrow> address \<Rightarrow> address res" where
  "ResolveAccountAddress cfg feature amctx curChainID account =
     (let cfgs = getEnabledChains cfg feature curChainID in
      if cfgs \<noteq> [] then
        (case map_of cfgs (ChainID account) of
           None \<Rightarrow> Inl (Err ''unknown chain ID'')
         | Some chain \<Rightarrow>
             if cc_AccountType chain = NativeAccountType then Inr account
             else if cc_AccountType chain = MappedAccountType
               then getMappedAccountAddress amctx curChainID account
             else Inl (Err ''invalid account type''))
      else if ChainID account \<noteq> curChainID then Inl (Err ''unknown chain ID'')
      else Inr account)"

lemma recover_sender_Inr:
  assumes "recover_sender cr cfgs stx msg = Inr (who, chain)"
  shows "msg_from msg = Some who" and "map_of cfgs (ChainID who) = Some chain"
    and "\<exists>f. originRecoveryFuncs cr (cc_TxType chain) = Some f \<and> f stx = Inr (Local who)"
  using assms by (auto simp: recover_sender_def split: option.splits sum.splits if_splits)

lemma GetOrigin_verifyEd25519:
  "GetOrigin (cr_verify cr) (cr_local cr) tx c = bind_res (verifyEd25519 cr tx) (\<lambda>l. Inr (Address c l))"
  by (simp add: GetOrigin_def verifyEd25519_def)

text \<open>
  What passing the middleware means: the signer's scheme is the one configured for the chain of
  \<open>who\<close>, its signature recovers to the local part of \<open>who\<close>, and \<open>origin\<close> is what the account
  \<open>who\<close> resolves to.
\<close>

definition authenticated ::
    "crypto \<Rightarrow> chain_configs \<Rightarrow> string \<Rightarrow> SignedTx \<Rightarrow> address \<Rightarrow> bool" where
  "authenticated cr cfgs cur stx who \<longleftrightarrow>
     (if cfgs = [] then ChainID who = cur \<and> verifyEd25519 cr stx = Inr (Local who)
      else \<exists>chain f. map_of cfgs (ChainID who) = Some chain \<and>
        originRecoveryFuncs cr (cc_TxType chain) = Some f \<and> f stx = Inr (Local who))"

lemma multi_chain_passes:
  assumes "NewMultiChainSignatureTxMiddleware C cr cfgs amctx rc w tx nx chk = out"
  shows "(\<exists>e. out = (Inl e, w)) \<or>
    (\<exists>stx who chain origin b. dec_signed C tx = Inr stx \<and> map_of cfgs (ChainID who) = Some chain \<and>
      (\<exists>f. originRecoveryFuncs cr (cc_TxType chain) = Some f \<and> f stx = Inr (Local who)) \<and>
      (cc_AccountType chain = NativeAccountType \<and> origin = who \<or>
       cc_AccountType chain = MappedAccountType \<and>
         getMappedAccountAddress (amctx w) (rc_chain_id rc) who = Inr origin) \<and>
      out = nx (rc\<lparr>rc_origin := Some origin\<rparr>) w b chk)"
proof (cases "unwrap_tx C tx")
  case (Inl e)
  then show ?thesis using assms by (auto simp: NewMultiChainSignatureTxMiddleware_def)
next
  case (Inr p)
  then obtain stx ntx t msg where u: "unwrap_tx C tx = Inr (stx, ntx, t, msg)"
    by (cases p) auto
  then have d: "dec_signed C tx = Inr stx"
    by (auto simp: unwrap_tx_def elim!: bind_resE split: sum.split_asm)
  show ?thesis
  proof (cases "recover_sender cr cfgs stx msg")
    case (Inl e)
    then show ?thesis using assms u by (auto simp: NewMultiChainSignatureTxMiddleware_def)
  next
    case (Inr q)
    then obtain who chain where r: "recover_sender cr cfgs stx msg = Inr (who, chain)"
      by (cases q) auto
    note rs = recover_sender_Inr [OF r]
    show ?thesis
      using assms u r d rs(2,3)
      by (fastforce simp: NewMultiChainSignatureTxMiddleware_def split: if_splits sum.splits)
  qed
qed

section \<open>Properties\<close>

text \<open>The address mapper is an involution. In every state the contract can reach, an address
  that maps to another is mapped back by it, no address maps to itself, and GetMapping answers the
  same pair from both ends.\<close>

theorem mapping_involutive:
  assumes "am_reachable s" and "GetMapping (Some a) s = Inr m"
  shows "am_From m = a \<and> am_To m \<noteq> a \<and>
    GetMapping (Some (am_To m)) s = Inr \<lparr>am_From = am_To m, am_To = a\<rparr>"
  using am_reachable_ok [OF assms(1)] assms(2)
  by (auto simp: am_ok_def GetMapping_def split: sum.splits)

definition am_demo_scheme :: sig_scheme where
  "am_demo_scheme = \<lparr>pair_hash = (\<lambda>a b. a @ b), recover = (\<lambda>h sig. Inr sig)\<rparr>"

definition am_demo :: am_store where
  "am_demo = [Address ''default'' [1] \<mapsto> \<lparr>am_From = Address ''default'' [1], am_To = Address ''eth'' [2]\<rparr>,
     Address ''eth'' [2] \<mapsto> \<lparr>am_From = Address ''eth'' [2], am_To = Address ''default'' [1]\<rparr>]"

lemma am_demo_add:
  "AddIdentityMapping am_demo_scheme (plain_ctx (Address ''default'' [1])) (Some (Address ''default'' [1]))
     (Some (Address ''eth'' [2])) (Some [2]) Map.empty = Inr am_demo"
  by (simp add: AddIdentityMapping_def verifySig_def am_demo_scheme_def am_demo_def)

theorem mapping_involutive_witness:
  "am_reachable am_demo \<and>
   GetMapping (Some (Address ''eth'' [2])) am_demo =
     Inr \<lparr>am_From = Address ''eth'' [2], am_To = Address ''default'' [1]\<rparr>"
proof -
  have r: "am_reachable am_demo" by (rule am_add [OF am_init am_demo_add])
  have g: "GetMapping (Some (Address ''default'' [1])) am_demo =
      Inr \<lparr>am_From = Address ''default'' [1], am_To = Address ''eth'' [2]\<rparr>"
    by (simp add: GetMapping_def am_demo_def ctx_get_def)
  from mapping_involutive [OF r g] r show ?thesis by simp
qed

text \<open>A mapping is only added with proof from both sides: the caller is one of the two addresses,
  the signature recovers to the local address of the other one, the two are on different chains,
  neither was mapped before, and nothing but the two entries changes.\<close>

theorem mapping_authorised:
  assumes "AddIdentityMapping S ctx (Some src) (Some dst) (Some sig) s = Inr s'"
  shows "\<exists>signer. recover S (pair_hash S (Local src) (Local dst)) sig = Inr signer \<and>
    (sender ctx = src \<and> signer = Local dst \<or> sender ctx = dst \<and> signer = Local src) \<and>
    ChainID src \<noteq> ChainID dst \<and> s src = None \<and> s dst = None \<and>
    (\<forall>a. s' a = (if a = dst then Some \<lparr>am_From = dst, am_To = src\<rparr>
       else if a = src then Some \<lparr>am_From = src, am_To = dst\<rparr> else s a))"
  using assms
proof (rule AddIdentityMappingE, goal_cases)
  case (1 src' dst' sig')
  then have eqs: "src' = src" "dst' = dst" "sig' = sig" by simp_all
  have ne: "ChainID src \<noteq> ChainID dst \<or> Local src \<noteq> Local dst"
    using 1(4) eqs by (metis address.expand)
  from 1(8) show ?case
    unfolding eqs using ne 1(4-7) eqs by (auto dest!: verifySig_signer)
qed

theorem mapping_authorised_witness:
  "\<exists>signer. recover am_demo_scheme [1, 2] [2] = Inr signer \<and> signer = [2]"
  using mapping_authorised [OF am_demo_add] by (simp add: am_demo_scheme_def)

text \<open>The sender a transaction runs under is authentic, with one chain or many: when the
  signature middleware lets a transaction through to the next handler, the signature recovers,
  under the scheme configured for the chain of some account, to that account's local address, and
  the origin it sets is exactly what ResolveAccountAddress answers for that account; otherwise it
  returns an error and the world is untouched.\<close>

theorem origin_resolves:
  "(\<exists>e. NewChainConfigMiddleware C cr cfg feature amctx rc w tx nx chk = (Inl e, w)) \<or>
   (\<exists>stx who origin b. dec_signed C tx = Inr stx \<and>
      authenticated cr (getEnabledChains cfg (feature w) (rc_chain_id rc)) (rc_chain_id rc) stx who \<and>
      ResolveAccountAddress cfg (feature w) (amctx w) (rc_chain_id rc) who = Inr origin \<and>
      NewChainConfigMiddleware C cr cfg feature amctx rc w tx nx chk =
        nx (rc\<lparr>rc_origin := Some origin\<rparr>) w b chk)"
proof (cases "getEnabledChains cfg (feature w) (rc_chain_id rc) = []")
  case True
  have "(\<exists>e. NewChainConfigMiddleware C cr cfg feature amctx rc w tx nx chk = (Inl e, w)) \<or>
    (\<exists>stx l. dec_signed C tx = Inr stx \<and> verifyEd25519 cr stx = Inr l \<and>
      NewChainConfigMiddleware C cr cfg feature amctx rc w tx nx chk =
        nx (rc\<lparr>rc_origin := Some (Address (rc_chain_id rc) l)\<rparr>) w (stx_inner stx) chk)"
    using True by (auto simp: NewChainConfigMiddleware_def SignatureTxMiddleware_def
        GetOrigin_verifyEd25519 bind_res_def split: sum.splits)
  moreover have "ResolveAccountAddress cfg (feature w) (amctx w) (rc_chain_id rc) (Address (rc_chain_id rc) l) =
      Inr (Address (rc_chain_id rc) l)" for l
    using True by (simp add: ResolveAccountAddress_def)
  moreover have "verifyEd25519 cr stx = Inr l \<Longrightarrow>
      authenticated cr (getEnabledChains cfg (feature w) (rc_chain_id rc)) (rc_chain_id rc) stx
        (Address (rc_chain_id rc) l)" for stx l
    using True by (simp add: authenticated_def)
  ultimately show ?thesis by blast
next
  case False
  then have eq: "NewChainConfigMiddleware C cr cfg feature amctx rc w tx nx chk =
      NewMultiChainSignatureTxMiddleware C cr (getEnabledChains cfg (feature w) (rc_chain_id rc)) amctx rc w tx nx chk"
    by (simp add: NewChainConfigMiddleware_def)
  from multi_chain_passes [OF eq [symmetric]] show ?thesis
  proof (elim disjE exE conjE, goal_cases)
    case 1
    then show ?case by blast
  next
    case (2 stx who chain origin b f)
    then show ?case
      using False by (intro disjI2 exI [of _ stx] exI [of _ who] exI [of _ origin] exI [of _ b])
        (auto simp: authenticated_def ResolveAccountAddress_def)
  next
    case (3 stx who chain origin b f)
    then show ?case
      using False by (intro disjI2 exI [of _ stx] exI [of _ who] exI [of _ origin] exI [of _ b])
        (auto simp: authenticated_def ResolveAccountAddress_def)
  qed
qed

end
