(* ===== verification/Deployer_Whitelist.thy ===== *)
theory Deployer_Whitelist
  imports Address_Mapper
begin

text \<open>
  Who may deploy contracts: the deployer whitelist contract of
  \<open>builtin/plugins/deployer_whitelist/deployer_whitelist.go\<close> with its permission flags, and the
  middleware of \<open>throttle/deployer-middleware.go\<close> that enforces it.
\<close>

unbundle bit_operations_syntax

section \<open>Flags\<close>

text \<open>The values of the three flags come from go-diadem's protobuf enum.\<close>

record deploy_flags =
  AllowEVMDeployFlag :: u32
  AllowGoDeployFlag :: u32
  AllowMigrationFlag :: u32

definition PackFlags :: "u32 list \<Rightarrow> u32" where
  "PackFlags flags = foldl (\<lambda>packed flag. packed OR flag) 0 flags"

fun UnpackFlags_loop :: "nat \<Rightarrow> nat \<Rightarrow> u32 \<Rightarrow> u32 list \<Rightarrow> u32 list" where
  "UnpackFlags_loop 0 i flags allFlags = allFlags"
| "UnpackFlags_loop (Suc n) i flags allFlags =
     (let f = push_bit i 1 in
      UnpackFlags_loop n (Suc i) flags (if f AND flags \<noteq> 0 then allFlags @ [f] else allFlags))"

definition UnpackFlags :: "u32 \<Rightarrow> u32 list" where
  "UnpackFlags flags = UnpackFlags_loop 32 0 flags []"

definition IsFlagSet :: "u32 \<Rightarrow> u32 \<Rightarrow> bool" where
  "IsFlagSet flags flag \<longleftrightarrow> flags AND flag \<noteq> 0"

lemma bit_PackFlags: "bit (PackFlags fs) i \<longleftrightarrow> (\<exists>f\<in>set fs. bit f i)"
proof -
  have "bit (foldl (\<lambda>p f. p OR f) z fs) i \<longleftrightarrow> bit z i \<or> (\<exists>f\<in>set fs. bit f i)" for z :: u32
    by (induction fs arbitrary: z) (auto simp: bit_or_iff)
  then show ?thesis by (simp add: PackFlags_def)
qed

lemma single_bit_and: "push_bit i (1 :: u32) AND w = 0 \<longleftrightarrow> \<not> (i < 32 \<and> bit w i)"
proof -
  have "push_bit i (1 :: u32) AND w = 0 \<longleftrightarrow> (\<forall>j<32. \<not> bit (push_bit i (1 :: u32) AND w) j)"
    by (auto simp: bit_eq_iff)
  also have "\<dots> \<longleftrightarrow> \<not> (i < 32 \<and> bit w i)"
    by (auto simp: bit_simps)
  finally show ?thesis .
qed

lemma set_UnpackFlags_loop:
  "i + n \<le> 32 \<Longrightarrow> set (UnpackFlags_loop n i w acc) =
     set acc \<union> {push_bit j 1 | j. i \<le> j \<and> j < i + n \<and> bit w j}"
proof (induction n arbitrary: i acc)
  case 0
  then show ?case by auto
next
  case (Suc n)
  have "{push_bit j (1 :: u32) | j. i \<le> j \<and> j < i + Suc n \<and> bit w j} =
      (if bit w i then {push_bit i 1} else {}) \<union> {push_bit j 1 | j. Suc i \<le> j \<and> j < Suc i + n \<and> bit w j}"
    by (auto simp: Suc_le_eq) (metis le_neq_implies_less)+
  then show ?case
    using Suc.prems by (simp add: Let_def Suc.IH single_bit_and [simplified])
qed

lemma set_UnpackFlags: "set (UnpackFlags w) = {push_bit j 1 | j. j < 32 \<and> bit w j}"
  by (simp add: UnpackFlags_def set_UnpackFlags_loop)

section \<open>The contract\<close>

record Deployer =
  dep_Address :: address
  dep_Flags :: u32

record dw_store =
  dw_perms :: permissions
  dw_deployers :: "address \<rightharpoonup> Deployer"

abbreviation ErrDwNotAuthorized :: go_error where
  "ErrDwNotAuthorized \<equiv> Err ''[DeployerWhitelist] not authorized''"

definition DeployerWhitelist_Init ::
    "deploy_flags \<Rightarrow> address option \<Rightarrow> Deployer list \<Rightarrow> dw_store \<Rightarrow> dw_store res" where
  "DeployerWhitelist_Init fl owner deployers s =
     (case owner of
        None \<Rightarrow> Inl (Err ''[DeployerWhitelist] owner not specified'')
      | Some ownerAddr \<Rightarrow>
          let s = s\<lparr>dw_perms := GrantPermissionTo (dw_perms s) ownerAddr ''modp'' ''owner''\<rparr>;
              flags = PackFlags [AllowEVMDeployFlag fl, AllowGoDeployFlag fl, AllowMigrationFlag fl];
              s = s\<lparr>dw_deployers := (dw_deployers s)(ownerAddr \<mapsto> \<lparr>dep_Address = ownerAddr, dep_Flags = flags\<rparr>)\<rparr>
          in Inr (foldl (\<lambda>s d. s\<lparr>dw_deployers := (dw_deployers s)(dep_Address d \<mapsto> d)\<rparr>) s deployers))"

definition AddDeployer :: "call_ctx \<Rightarrow> address option \<Rightarrow> u32 \<Rightarrow> dw_store \<Rightarrow> dw_store res" where
  "AddDeployer ctx deployerAddr flags s =
     (if \<not> HasPermission (dw_perms s) (sender ctx) ''modp'' [''owner''] then Inl ErrDwNotAuthorized
      else
        (case deployerAddr of
           None \<Rightarrow> Inl (Err ''[DeployerWhitelist] invalid request'')
         | Some a \<Rightarrow>
             if flags \<le> 0 then Inl (Err ''[DeployerWhitelist] invalid request'')
             else if dw_deployers s a \<noteq> None then Inl (Err ''[DeployerWhitelist] deployer already exists'')
             else Inr (s\<lparr>dw_deployers := (dw_deployers s)(a \<mapsto> \<lparr>dep_Address = a, dep_Flags = flags\<rparr>)\<rparr>)))"

text \<open>The package function \<open>GetDeployer\<close>: an address that is not listed has no flags.\<close>

definition GetDeployer :: "dw_store \<Rightarrow> address \<Rightarrow> Deployer res" where
  "GetDeployer s a =
     (case ctx_get (dw_deployers s) a of
        Inl ErrNotFound \<Rightarrow> Inr \<lparr>dep_Address = a, dep_Flags = 0\<rparr>
      | Inl e \<Rightarrow> Inl e
      | Inr d \<Rightarrow> Inr d)"

definition DeployerWhitelist_GetDeployer :: "address option \<Rightarrow> dw_store \<Rightarrow> Deployer res" where
  "DeployerWhitelist_GetDeployer deployerAddr s =
     (case deployerAddr of
        None \<Rightarrow> Inl (Err ''[DeployerWhitelist] invalid request'')
      | Some a \<Rightarrow> GetDeployer s a)"

definition RemoveDeployer :: "call_ctx \<Rightarrow> address option \<Rightarrow> dw_store \<Rightarrow> dw_store res" where
  "RemoveDeployer ctx deployerAddr s =
     (case deployerAddr of
        None \<Rightarrow> Inl (Err ''[DeployerWhitelist] invalid request'')
      | Some a \<Rightarrow>
          if \<not> HasPermission (dw_perms s) (sender ctx) ''modp'' [''owner''] then Inl ErrDwNotAuthorized
          else if dw_deployers s a = None then Inl (Err ''[DeployerWhitelist] deployer does not exist'')
          else Inr (s\<lparr>dw_deployers := (dw_deployers s)(a := None)\<rparr>))"

lemma GetDeployer_eq:
  "GetDeployer s a = Inr (case dw_deployers s a of None \<Rightarrow> \<lparr>dep_Address = a, dep_Flags = 0\<rparr> | Some d \<Rightarrow> d)"
  by (simp add: GetDeployer_def ctx_get_def split: option.split)

section \<open>The middleware\<close>

definition isAllowedToDeployGo :: "deploy_flags \<Rightarrow> dw_store \<Rightarrow> address \<Rightarrow> unit res" where
  "isAllowedToDeployGo fl s a =
     bind_res (GetDeployer s a) (\<lambda>d.
     if IsFlagSet (dep_Flags d) (AllowGoDeployFlag fl) then Inr ()
     else Inl (Err ''[DeployerWhitelistMiddleware] not authorized''))"

definition isAllowedToDeployEVM :: "deploy_flags \<Rightarrow> dw_store \<Rightarrow> address \<Rightarrow> unit res" where
  "isAllowedToDeployEVM fl s a =
     bind_res (GetDeployer s a) (\<lambda>d.
     if IsFlagSet (dep_Flags d) (AllowEVMDeployFlag fl) then Inr ()
     else Inl (Err ''[DeployerWhitelistMiddleware] not authorized''))"

definition isAllowedToMigrate :: "deploy_flags \<Rightarrow> dw_store \<Rightarrow> address \<Rightarrow> unit res" where
  "isAllowedToMigrate fl s a =
     bind_res (GetDeployer s a) (\<lambda>d.
     if IsFlagSet (dep_Flags d) (AllowMigrationFlag fl) then Inr ()
     else Inl (Err ''[DeployerWhitelistMiddleware] not authorized''))"

datatype vm_type = VM_PLUGIN | VM_EVM | VM_OTHER

abbreviation deployId :: u32 where "deployId \<equiv> 1"
abbreviation migrationId :: u32 where "migrationId \<equiv> 3"

text \<open>
  \<open>dec_deploy\<close> decodes a \<open>DeployTx\<close> to its VM type; \<open>feature\<close> and \<open>dwctx\<close> read the flag and the
  contract's storage from the current state.
\<close>

definition deploy_check ::
    "tx_codec \<Rightarrow> (bytes \<Rightarrow> vm_type res) \<Rightarrow> deploy_flags \<Rightarrow> dw_store res \<Rightarrow> address option
       \<Rightarrow> u32 \<times> bytes \<Rightarrow> unit res" where
  "deploy_check C dec_deploy fl dwctx org tx =
     bind_res (dec_msg C (snd tx)) (\<lambda>msg.
     let origin = (case org of None \<Rightarrow> Inl (Panic ''interface conversion'') | Some a \<Rightarrow> Inr a) in
     if fst tx = deployId then
       bind_res (dec_deploy (msg_data msg)) (\<lambda>vm.
       case vm of
         VM_PLUGIN \<Rightarrow> bind_res origin (\<lambda>a. bind_res dwctx (\<lambda>s. isAllowedToDeployGo fl s a))
       | VM_EVM \<Rightarrow> bind_res origin (\<lambda>a. bind_res dwctx (\<lambda>s. isAllowedToDeployEVM fl s a))
       | VM_OTHER \<Rightarrow> Inr ())
     else if fst tx = migrationId then
       bind_res origin (\<lambda>a. bind_res dwctx (\<lambda>s. isAllowedToMigrate fl s a))
     else Inr ())"

definition NewDeployerWhitelistMiddleware ::
    "tx_codec \<Rightarrow> (bytes \<Rightarrow> vm_type res) \<Rightarrow> deploy_flags \<Rightarrow> ('w \<Rightarrow> string \<Rightarrow> bool \<Rightarrow> bool)
       \<Rightarrow> ('w \<Rightarrow> dw_store res) \<Rightarrow> ('w, 'r) tx_middleware" where
  "NewDeployerWhitelistMiddleware C dec_deploy fl feature dwctx rc w txBytes next chk =
     (if \<not> feature w ''mw:deploy-wl'' False then next rc w txBytes chk
      else
        (case bind_res (dec_nonce C txBytes) (\<lambda>nonceTx. dec_tx C (ntx_inner nonceTx)) of
           Inl e \<Rightarrow> (Inl e, w)
         | Inr tx \<Rightarrow>
             if fst tx \<noteq> deployId \<and> fst tx \<noteq> migrationId then next rc w txBytes chk
             else
               (case deploy_check C dec_deploy fl (dwctx w) (rc_origin rc) tx of
                  Inl e \<Rightarrow> (Inl e, w)
                | Inr _ \<Rightarrow> next rc w txBytes chk)))"

text \<open>The rights the middleware reads off the contract.\<close>

lemma allowed_iff:
  "isAllowedToDeployGo fl s a = Inr () \<longleftrightarrow> (\<exists>d. GetDeployer s a = Inr d \<and> IsFlagSet (dep_Flags d) (AllowGoDeployFlag fl))"
  "isAllowedToDeployEVM fl s a = Inr () \<longleftrightarrow> (\<exists>d. GetDeployer s a = Inr d \<and> IsFlagSet (dep_Flags d) (AllowEVMDeployFlag fl))"
  "isAllowedToMigrate fl s a = Inr () \<longleftrightarrow> (\<exists>d. GetDeployer s a = Inr d \<and> IsFlagSet (dep_Flags d) (AllowMigrationFlag fl))"
  by (auto simp: isAllowedToDeployGo_def isAllowedToDeployEVM_def isAllowedToMigrate_def bind_res_eq_Inr_iff)

lemma no_flags_not_allowed:
  assumes "dw_deployers s a = None"
  shows "isAllowedToDeployGo fl s a \<noteq> Inr ()" "isAllowedToDeployEVM fl s a \<noteq> Inr ()"
    "isAllowedToMigrate fl s a \<noteq> Inr ()"
  using assms by (simp_all add: allowed_iff GetDeployer_eq IsFlagSet_def)

lemma deploy_check_allows:
  assumes "deploy_check C dec fl (Inr s) (Some a) (txid, data) = Inr ()"
    and "txid = migrationId \<or> txid = deployId \<and> (\<exists>msg. dec_msg C data = Inr msg \<and> dec (msg_data msg) \<noteq> Inr VM_OTHER)"
  shows "isAllowedToDeployGo fl s a = Inr () \<or> isAllowedToDeployEVM fl s a = Inr () \<or>
    txid = migrationId \<and> isAllowedToMigrate fl s a = Inr ()"
  using assms
  by (auto simp: deploy_check_def Let_def elim!: bind_resE split: if_splits vm_type.split_asm)

section \<open>Properties\<close>

text \<open>Unpacking the flags of a deployer and packing them again gives the same word, for all 2^32
  of them; the unpacked flags are exactly the single bits that are set, and IsFlagSet of a packed list holds for a single bit exactly when a packed flag has it.\<close>

theorem flags_roundtrip:
  "PackFlags (UnpackFlags w) = w \<and>
   set (UnpackFlags w) = {push_bit j 1 | j. j < 32 \<and> bit w j} \<and>
   (IsFlagSet (PackFlags fs) (push_bit j 1) \<longleftrightarrow> j < 32 \<and> (\<exists>f\<in>set fs. bit f j))"
proof (intro conjI)
  show "PackFlags (UnpackFlags w) = w"
  proof (rule bit_word_eqI)
    fix i
    assume "i < LENGTH(32)"
    then show "bit (PackFlags (UnpackFlags w)) i = bit w i"
      by (auto simp: bit_PackFlags set_UnpackFlags bit_simps)
  qed
  show "IsFlagSet (PackFlags fs) (push_bit j 1) \<longleftrightarrow> j < 32 \<and> (\<exists>f\<in>set fs. bit f j)"
    unfolding IsFlagSet_def and.commute [of "PackFlags fs"] single_bit_and by (simp add: bit_PackFlags)
qed (rule set_UnpackFlags)

text \<open>Only an account that holds the owner permission changes the whitelist: a successful
  AddDeployer or RemoveDeployer was sent by such an account, AddDeployer never overwrites an entry
  and is read back by GetDeployer, a removed deployer has no flags afterwards, and no other entry
  and no permission changes.\<close>

theorem whitelist_changes:
  "(\<forall>s'. AddDeployer ctx (Some a) flags s = Inr s' \<longrightarrow>
      HasPermission (dw_perms s) (sender ctx) ''modp'' [''owner''] \<and> dw_deployers s a = None \<and> flags \<noteq> 0 \<and>
      GetDeployer s' a = Inr \<lparr>dep_Address = a, dep_Flags = flags\<rparr> \<and> dw_perms s' = dw_perms s \<and>
      (\<forall>b. b \<noteq> a \<longrightarrow> GetDeployer s' b = GetDeployer s b)) \<and>
   (\<forall>s'. RemoveDeployer ctx (Some a) s = Inr s' \<longrightarrow>
      HasPermission (dw_perms s) (sender ctx) ''modp'' [''owner''] \<and> dw_deployers s a \<noteq> None \<and>
      GetDeployer s' a = Inr \<lparr>dep_Address = a, dep_Flags = 0\<rparr> \<and> dw_perms s' = dw_perms s \<and>
      (\<forall>b. b \<noteq> a \<longrightarrow> GetDeployer s' b = GetDeployer s b))"
  by (auto simp: AddDeployer_def RemoveDeployer_def GetDeployer_eq split: if_splits)

definition dw_demo_flags :: deploy_flags where
  "dw_demo_flags = \<lparr>AllowEVMDeployFlag = 1, AllowGoDeployFlag = 2, AllowMigrationFlag = 4\<rparr>"

definition dw_demo :: dw_store where
  "dw_demo = \<lparr>dw_perms = [(Address ''default'' [1], ''modp'', ''owner'')],
     dw_deployers = [Address ''default'' [1] \<mapsto> \<lparr>dep_Address = Address ''default'' [1], dep_Flags = 7\<rparr>]\<rparr>"

theorem whitelist_changes_witness:
  "\<exists>s'. AddDeployer (plain_ctx (Address ''default'' [1])) (Some (Address ''default'' [2])) 3 dw_demo = Inr s' \<and>
     GetDeployer s' (Address ''default'' [2]) = Inr \<lparr>dep_Address = Address ''default'' [2], dep_Flags = 3\<rparr>"
proof -
  have "\<exists>s'. AddDeployer (plain_ctx (Address ''default'' [1])) (Some (Address ''default'' [2])) 3 dw_demo = Inr s'"
    by (simp add: AddDeployer_def dw_demo_def HasPermission_def)
  with whitelist_changes show ?thesis by blast
qed

text \<open>With the whitelist feature on, no deployment or migration by an account that is not on the
  whitelist gets past the middleware: whatever the next handler is, it is not called and the world
  is unchanged.\<close>

theorem whitelist_enforced:
  assumes "feature w ''mw:deploy-wl'' False" and "dwctx w = Inr s" and "rc_origin rc = Some a"
    and "dw_deployers s a = None"
    and "dec_nonce C tx = Inr ntx" and "dec_tx C (ntx_inner ntx) = Inr (txid, data)"
    and "txid = migrationId \<or>
      txid = deployId \<and> (\<exists>msg. dec_msg C data = Inr msg \<and> dec (msg_data msg) \<noteq> Inr VM_OTHER)"
  shows "\<exists>e. NewDeployerWhitelistMiddleware C dec fl feature dwctx rc w tx nx chk = (Inl e, w)"
proof -
  have "deploy_check C dec fl (Inr s) (Some a) (txid, data) \<noteq> Inr ()"
    using deploy_check_allows [OF _ assms(7)] no_flags_not_allowed [OF assms(4)] by blast
  then obtain e where "deploy_check C dec fl (Inr s) (Some a) (txid, data) = Inl e"
    by (cases "deploy_check C dec fl (Inr s) (Some a) (txid, data)") auto
  with assms show ?thesis by (auto simp: NewDeployerWhitelistMiddleware_def)
qed

definition dw_demo_codec :: tx_codec where
  "dw_demo_codec =
     \<lparr>dec_signed = demo_signed, dec_nonce = (\<lambda>b. Inr \<lparr>ntx_sequence = 1, ntx_inner = b\<rparr>),
      dec_tx = (\<lambda>b. Inr (1, b)), dec_msg = (\<lambda>b. Inr \<lparr>msg_to = None, msg_from = None, msg_data = b\<rparr>),
      enc_nonce = (\<lambda>n. Inr (ntx_inner n)), enc_tx = (\<lambda>t. Inr (snd t)), enc_msg = (\<lambda>m. Inr (msg_data m))\<rparr>"

theorem whitelist_enforced_witness:
  "\<exists>e. NewDeployerWhitelistMiddleware dw_demo_codec (\<lambda>_. Inr VM_EVM) dw_demo_flags (\<lambda>_ _ _. True)
     (\<lambda>_. Inr dw_demo) \<lparr>rc_origin = Some (Address ''default'' [9]), rc_chain_id = ''default'', rc_height = 1\<rparr>
     () [0] (NoopTxHandler ()) False = (Inl e, ())"
  by (rule whitelist_enforced [where ntx = "\<lparr>ntx_sequence = 1, ntx_inner = [0]\<rparr>" and txid = 1 and data = "[0]"
        and s = dw_demo and a = "Address ''default'' [9]"])
    (simp_all add: dw_demo_codec_def dw_demo_def)

end
