(* ===== verification/Chain_Config.thy ===== *)
theory Chain_Config
  imports Tx_Pipeline "HOL-Library.AList"
begin

text \<open>
  On-chain feature activation: the chain configuration contract of
  \<open>builtin/plugins/chainconfig/chainconfig.go\<close> and the manager of
  \<open>plugin/chain_config_manager.go\<close> that runs it at the start of every block.

  The contract keeps its permissions, its features by name and its parameters. A feature goes from
  PENDING to WAITING to ENABLED; the manager then sets the feature flag of the application state,
  which is the one \<open>ctx.FeatureEnabled\<close> reads.
\<close>

section \<open>State\<close>

datatype FeatureStatus = FeaturePending | FeatureWaiting | FeatureEnabled | FeatureDisabled

record Feature =
  ft_Name :: string
  ft_Status :: FeatureStatus
  ft_Validators :: "address list"
  ft_BlockHeight :: u64
  ft_BuildNumber :: u64
  ft_Percentage :: u64
  ft_AutoEnable :: bool

record Params =
  VoteThreshold :: u64
  NumBlockConfirmations :: u64

record cfg_store =
  cfg_perms :: permissions
  cfg_features :: "string \<rightharpoonup> Feature"
  cfg_params :: "Params option"

abbreviation CfgNotAuthorized :: go_error where "CfgNotAuthorized \<equiv> Err ''[ChainConfig] not authorized''"
abbreviation CfgInvalidRequest :: go_error where "CfgInvalidRequest \<equiv> Err ''[ChainConfig] invalid request''"
abbreviation CfgInvalidParams :: go_error where "CfgInvalidParams \<equiv> Err ''[ChainConfig] invalid params''"
abbreviation CfgAlreadyExists :: go_error where "CfgAlreadyExists \<equiv> Err ''[ChainConfig] feature already exists''"
abbreviation CfgAlreadyEnabled :: go_error where "CfgAlreadyEnabled \<equiv> Err ''[ChainConfig] feature already enabled''"
abbreviation CfgEmptyValidators :: go_error where "CfgEmptyValidators \<equiv> Err ''[ChainConfig] empty validators list''"
abbreviation CfgNotSupported :: go_error where
  "CfgNotSupported \<equiv> Err ''[ChainConfig] feature is not supported in the current build''"
abbreviation CfgNotFound :: go_error where "CfgNotFound \<equiv> Err ''[ChainConfig] feature not found''"

text \<open>
  Where the current validators come from: the validator set of the block (public keys, possibly
  nil entries), and the answers of the two DPOS contracts.
\<close>

record validator_source =
  vs_block :: "bytes option list"
  vs_local_of_key :: "bytes \<Rightarrow> bytes"
  vs_dposV3 :: "address option list res"
  vs_dposV2 :: "address option list res"

section \<open>Parameters\<close>

definition getParams :: "cfg_store \<Rightarrow> Params res" where
  "getParams s = Inr (case cfg_params s of None \<Rightarrow> \<lparr>VoteThreshold = 0, NumBlockConfirmations = 0\<rparr> | Some p \<Rightarrow> p)"

definition setParams :: "u64 \<Rightarrow> u64 \<Rightarrow> cfg_store \<Rightarrow> cfg_store res" where
  "setParams voteThreshold numBlockConfirmations s =
     (if voteThreshold > 100 then Inl CfgInvalidParams
      else
        bind_res (getParams s) (\<lambda>params.
        let params = (if voteThreshold \<noteq> 0 then params\<lparr>VoteThreshold := voteThreshold\<rparr> else params);
            params = (if numBlockConfirmations \<noteq> 0
                      then params\<lparr>NumBlockConfirmations := numBlockConfirmations\<rparr> else params)
        in Inr (s\<lparr>cfg_params := Some params\<rparr>)))"

definition ChainConfig_SetParams :: "call_ctx \<Rightarrow> (u64 \<times> u64) option \<Rightarrow> cfg_store \<Rightarrow> cfg_store res" where
  "ChainConfig_SetParams ctx params s =
     (case params of
        None \<Rightarrow> Inl CfgInvalidRequest
      | Some (vt, n) \<Rightarrow>
          if \<not> HasPermission (cfg_perms s) (sender ctx) ''setp'' [''owner''] then Inl CfgNotAuthorized
          else setParams vt n s)"

definition init_feature :: "Feature \<Rightarrow> cfg_store \<Rightarrow> cfg_store res" where
  "init_feature feature s =
     (if ft_Status feature \<noteq> FeaturePending \<and> ft_Status feature \<noteq> FeatureWaiting then Inl CfgInvalidRequest
      else if cfg_features s (ft_Name feature) \<noteq> None then Inl CfgAlreadyExists
      else Inr (s\<lparr>cfg_features := (cfg_features s)(ft_Name feature \<mapsto> feature)\<rparr>))"

definition ChainConfig_Init ::
    "address option \<Rightarrow> Feature list \<Rightarrow> (u64 \<times> u64) option \<Rightarrow> cfg_store \<Rightarrow> cfg_store res" where
  "ChainConfig_Init owner features params s =
     (case owner of
        None \<Rightarrow> Inl (Err ''[ChainConfig] owner not specified'')
      | Some ownerAddr \<Rightarrow>
          let ps = GrantPermissionTo (cfg_perms s) ownerAddr ''setp'' ''owner'';
              ps = GrantPermissionTo ps ownerAddr ''addf'' ''owner''
          in
          bind_res (fold_res init_feature features (s\<lparr>cfg_perms := ps\<rparr>)) (\<lambda>s.
          case params of None \<Rightarrow> Inr s | Some (vt, n) \<Rightarrow> setParams vt n s))"

section \<open>Validators and votes\<close>

definition getCurrentValidatorsFromDPOS :: "call_ctx \<Rightarrow> validator_source \<Rightarrow> address list res" where
  "getCurrentValidatorsFromDPOS ctx vs =
     (if feature_enabled ctx ''dpos:v3'' False then
        (case resolve ctx ''dposV3'' of
           Inl e \<Rightarrow> Inl (Err ''failed to resolve address of DPOSv3 contract'')
         | Inr _ \<Rightarrow>
             (case vs_dposV3 vs of
                Inl e \<Rightarrow> Inl (Err ''failed to call ListValidators'')
              | Inr l \<Rightarrow> Inr (List.map_filter id l)))
      else
        (case resolve ctx ''dposV2'' of
           Inl ErrNotFound \<Rightarrow> Inr []
         | Inl e \<Rightarrow> Inl (Err ''failed to resolve address of DPOS contract'')
         | Inr _ \<Rightarrow>
             (case vs_dposV2 vs of
                Inl e \<Rightarrow> Inl (Err ''failed to call ListValidators'')
              | Inr l \<Rightarrow>
                  let validators = List.map_filter id l in
                  if length validators = 0 then Inl CfgEmptyValidators else Inr validators)))"

definition getCurrentValidators :: "call_ctx \<Rightarrow> validator_source \<Rightarrow> address list res" where
  "getCurrentValidators ctx vs =
     (if \<not> feature_enabled ctx ''chaincfg:v1.1'' False then getCurrentValidatorsFromDPOS ctx vs
      else if length (vs_block vs) = 0 then Inl CfgEmptyValidators
      else Inr (List.map_filter
        (map_option (\<lambda>pk. Address (block_chain_id ctx) (vs_local_of_key vs pk))) (vs_block vs)))"

text \<open>
  The share of validators that voted for a pending feature. The Go map from the string form of a
  local address to a flag is an association list by local address.
\<close>

definition vote_map :: "address list \<Rightarrow> address list \<Rightarrow> (bytes \<times> bool) list" where
  "vote_map curValidators voters =
     foldl (\<lambda>m v. AList.update (Local v) True m)
       (foldl (\<lambda>m v. AList.update (Local v) False m) [] curValidators) voters"

definition getFeature :: "string \<Rightarrow> address list \<Rightarrow> cfg_store \<Rightarrow> Feature res" where
  "getFeature name curValidators s =
     bind_res (ctx_get (cfg_features s) name) (\<lambda>feature.
     if ft_Status feature \<noteq> FeaturePending then Inr feature
     else
       let enabledValidatorsCount = length (filter snd (vote_map curValidators (ft_Validators feature)))
       in if length curValidators > 0
          then Inr (feature\<lparr>ft_Percentage := of_nat ((enabledValidatorsCount * 100) div length curValidators)\<rparr>)
          else Inr feature)"

definition ChainConfig_GetFeature :: "call_ctx \<Rightarrow> validator_source \<Rightarrow> string \<Rightarrow> cfg_store \<Rightarrow> Feature res" where
  "ChainConfig_GetFeature ctx vs name s =
     (if name = '''' then Inl CfgInvalidRequest
      else bind_res (getCurrentValidators ctx vs) (\<lambda>cur. getFeature name cur s))"

definition ChainConfig_FeatureEnabled :: "call_ctx \<Rightarrow> string \<Rightarrow> bool \<Rightarrow> bool res" where
  "ChainConfig_FeatureEnabled ctx name d =
     (if name = '''' then Inl CfgInvalidRequest else Inr (feature_enabled ctx name d))"

definition enableFeature :: "call_ctx \<Rightarrow> validator_source \<Rightarrow> string \<Rightarrow> cfg_store \<Rightarrow> cfg_store res" where
  "enableFeature ctx vs name s =
     (if name = '''' then Inl CfgInvalidRequest
      else
        bind_res (getCurrentValidators ctx vs) (\<lambda>cur.
        if \<not> list_ex (\<lambda>v. sender ctx = v) cur then Inl CfgNotAuthorized
        else
          (case cfg_features s name of
             None \<Rightarrow> Inl (Err ''feature not found'')
           | Some feature \<Rightarrow>
               if ft_Status feature = FeatureEnabled then Inl CfgAlreadyEnabled
               else if list_ex (\<lambda>v. sender ctx = v) (ft_Validators feature) then Inl CfgAlreadyEnabled
               else Inr (s\<lparr>cfg_features := (cfg_features s)(name \<mapsto>
                      feature\<lparr>ft_Validators := ft_Validators feature @ [sender ctx]\<rparr>)\<rparr>))))"

definition ChainConfig_EnableFeature ::
    "call_ctx \<Rightarrow> validator_source \<Rightarrow> string list \<Rightarrow> cfg_store \<Rightarrow> cfg_store res" where
  "ChainConfig_EnableFeature ctx vs names s =
     (if length names = 0 then Inl CfgInvalidRequest else fold_res (enableFeature ctx vs) names s)"

section \<open>Adding and removing features\<close>

definition addFeature :: "call_ctx \<Rightarrow> u64 \<Rightarrow> bool \<Rightarrow> string \<Rightarrow> cfg_store \<Rightarrow> cfg_store res" where
  "addFeature ctx buildNumber autoEnable name s =
     (if name = '''' then Inl CfgInvalidRequest
      else if \<not> HasPermission (cfg_perms s) (sender ctx) ''addf'' [''owner''] then Inl CfgNotAuthorized
      else if cfg_features s name \<noteq> None then Inl CfgAlreadyExists
      else Inr (s\<lparr>cfg_features := (cfg_features s)(name \<mapsto>
             \<lparr>ft_Name = name, ft_Status = FeaturePending, ft_Validators = [], ft_BlockHeight = 0,
              ft_BuildNumber = buildNumber, ft_Percentage = 0, ft_AutoEnable = autoEnable\<rparr>)\<rparr>))"

definition ChainConfig_AddFeature ::
    "call_ctx \<Rightarrow> u64 \<Rightarrow> bool \<Rightarrow> string list \<Rightarrow> cfg_store \<Rightarrow> cfg_store res" where
  "ChainConfig_AddFeature ctx buildNumber autoEnable names s =
     (if length names = 0 then Inl CfgInvalidRequest
      else fold_res (addFeature ctx buildNumber autoEnable) names s)"

definition removeFeature :: "call_ctx \<Rightarrow> string \<Rightarrow> cfg_store \<Rightarrow> cfg_store res" where
  "removeFeature ctx name s =
     (if name = '''' then Inl CfgInvalidRequest
      else if \<not> HasPermission (cfg_perms s) (sender ctx) ''addf'' [''owner''] then Inl CfgNotAuthorized
      else if cfg_features s name = None then Inl CfgNotFound
      else if feature_enabled ctx name False then Inl CfgAlreadyEnabled
      else Inr (s\<lparr>cfg_features := (cfg_features s)(name := None)\<rparr>))"

definition ChainConfig_RemoveFeature :: "call_ctx \<Rightarrow> string list \<Rightarrow> cfg_store \<Rightarrow> cfg_store res" where
  "ChainConfig_RemoveFeature ctx names s =
     (if length names = 0 then Inl CfgInvalidRequest else fold_res (removeFeature ctx) names s)"

section \<open>Activation at the start of a block\<close>

text \<open>
  \<open>names\<close> are the features \<open>ctx.Range\<close> finds, in the order of the store.
\<close>

definition enable_step ::
    "Params \<Rightarrow> address list \<Rightarrow> u64 \<Rightarrow> u64 \<Rightarrow> string \<Rightarrow> cfg_store \<times> Feature list \<Rightarrow> (cfg_store \<times> Feature list) res" where
  "enable_step params cur blockHeight buildNumber name st =
     (case st of (s, enabled) \<Rightarrow>
      (case getFeature name cur s of
         Inl e \<Rightarrow> Inl (Err ''unable to get feature info'')
       | Inr feature \<Rightarrow>
           (case ft_Status feature of
              FeaturePending \<Rightarrow>
                if ft_Percentage feature \<ge> VoteThreshold params
                then
                  let feature = feature\<lparr>ft_Status := FeatureWaiting, ft_BlockHeight := blockHeight\<rparr>
                  in Inr (s\<lparr>cfg_features := (cfg_features s)(ft_Name feature \<mapsto> feature)\<rparr>, enabled)
                else Inr (s, enabled)
            | FeatureWaiting \<Rightarrow>
                if blockHeight > ft_BlockHeight feature + NumBlockConfirmations params
                then
                  if buildNumber < ft_BuildNumber feature then Inl CfgNotSupported
                  else
                    let feature = feature\<lparr>ft_Status := FeatureEnabled\<rparr>
                    in Inr (s\<lparr>cfg_features := (cfg_features s)(ft_Name feature \<mapsto> feature)\<rparr>, enabled @ [feature])
                else Inr (s, enabled)
            | _ \<Rightarrow> Inr (s, enabled))))"

definition EnableFeatures ::
    "call_ctx \<Rightarrow> validator_source \<Rightarrow> string list \<Rightarrow> u64 \<Rightarrow> u64 \<Rightarrow> cfg_store \<Rightarrow> (cfg_store \<times> Feature list) res" where
  "EnableFeatures ctx vs names blockHeight buildNumber s =
     bind_res (getParams s) (\<lambda>params.
     bind_res (getCurrentValidators ctx vs) (\<lambda>cur.
     fold_res (enable_step params cur blockHeight buildNumber) names (s, [])))"

definition ChainConfigManager_EnableFeatures ::
    "'s kv_ops \<Rightarrow> (string \<Rightarrow> bytes) \<Rightarrow> call_ctx \<Rightarrow> validator_source \<Rightarrow> string list \<Rightarrow> u64 \<Rightarrow> int
       \<Rightarrow> cfg_store \<times> 's \<Rightarrow> (cfg_store \<times> 's) res" where
  "ChainConfigManager_EnableFeatures K fkey ctx vs names build blockHeight st =
     (case st of (c, s) \<Rightarrow>
      (case EnableFeatures ctx vs names (of_int blockHeight) build c of
         Inl e \<Rightarrow> if e = CfgNotSupported then Inl (Panic ''feature is not supported in the current build'') else Inl e
       | Inr (c, features) \<Rightarrow>
           Inr (c, foldl (\<lambda>s f. StoreState_SetFeature K fkey s (ft_Name f) True) s features)))"

section \<open>Counting votes\<close>

lemma map_of_foldl_update:
  "map_of (foldl (\<lambda>m v. AList.update (f v) b m) m vs) =
     (\<lambda>k. if k \<in> f ` set vs then Some b else map_of m k)"
  by (induction vs arbitrary: m) (auto simp: update_conv')

lemma distinct_foldl_update:
  "distinct (map fst m) \<Longrightarrow> distinct (map fst (foldl (\<lambda>m v. AList.update (f v) b m) m vs))"
  by (induction vs arbitrary: m) (auto simp: distinct_update)

lemma count_true_entries:
  "distinct (map fst m) \<Longrightarrow> length (filter snd m) = card {k. map_of m k = Some True}"
proof (induction m)
  case Nil
  then show ?case by simp
next
  case (Cons p m)
  obtain k b where p: "p = (k, b)" by (cases p)
  have fin: "finite {k. map_of m k = Some True}"
    by (rule finite_subset [OF _ finite_dom_map_of [of m]]) auto
  have new: "map_of m k = None" using Cons.prems p by (simp add: map_of_eq_None_iff)
  have "{x. map_of (p # m) x = Some True} =
      (if b then insert k {x. map_of m x = Some True} else {x. map_of m x = Some True})"
    using new p by auto
  moreover have "(k, True) \<notin> set m" using Cons.prems p by force
  ultimately show ?case using Cons p fin by simp
qed

lemma vote_count:
  "length (filter snd (vote_map cur voters)) = card (Local ` set voters)"
proof -
  have d: "distinct (map fst (vote_map cur voters))"
    unfolding vote_map_def by (intro distinct_foldl_update) simp
  have "{k. map_of (vote_map cur voters) k = Some True} = Local ` set voters"
    by (auto simp: vote_map_def map_of_foldl_update split: if_splits)
  then show ?thesis by (simp add: count_true_entries [OF d])
qed

section \<open>What activation does to a feature\<close>

text \<open>
  What the code does to one feature at one block: \<open>counted\<close> takes every recorded vote, also of accounts
  that are no validators any more.
\<close>

definition counted :: "address list \<Rightarrow> Feature \<Rightarrow> u64" where
  "counted cur f =
     (if cur = [] then ft_Percentage f
      else of_nat ((card (Local ` set (ft_Validators f)) * 100) div length cur))"

definition due :: "Params \<Rightarrow> u64 \<Rightarrow> Feature \<Rightarrow> bool" where
  "due p h f \<longleftrightarrow> ft_Status f = FeatureWaiting \<and> h > ft_BlockHeight f + NumBlockConfirmations p"

definition advance_counted :: "Params \<Rightarrow> address list \<Rightarrow> u64 \<Rightarrow> Feature \<Rightarrow> Feature" where
  "advance_counted p cur h f =
     (if ft_Status f = FeaturePending \<and> counted cur f \<ge> VoteThreshold p
      then f\<lparr>ft_Percentage := counted cur f, ft_Status := FeatureWaiting, ft_BlockHeight := h\<rparr>
      else if due p h f then f\<lparr>ft_Status := FeatureEnabled\<rparr>
      else f)"

lemma getFeature_eq:
  "cfg_features s n = Some f \<Longrightarrow> getFeature n cur s =
     Inr (if ft_Status f = FeaturePending then f\<lparr>ft_Percentage := counted cur f\<rparr> else f)"
  by (auto simp: getFeature_def Let_def vote_count counted_def)

lemma advance_fields [simp]:
  "ft_Name (advance_counted p cur h f) = ft_Name f"
  "ft_Validators (advance_counted p cur h f) = ft_Validators f"
  "ft_BuildNumber (advance_counted p cur h f) = ft_BuildNumber f"
  by (simp_all add: advance_counted_def)

lemma enable_step_eq:
  assumes "cfg_features s n = Some f" and "ft_Name f = n"
  shows "enable_step p cur h b n (s, en) =
    (if due p h f \<and> b < ft_BuildNumber f then Inl CfgNotSupported
     else Inr (s\<lparr>cfg_features := (cfg_features s)(n \<mapsto> advance_counted p cur h f)\<rparr>,
               if due p h f then en @ [advance_counted p cur h f] else en))"
proof -
  have same: "s\<lparr>cfg_features := (cfg_features s)(n \<mapsto> f)\<rparr> = s"
    using assms(1) by (simp add: fun_upd_idem)
  show ?thesis
    using assms same
    by (cases "ft_Status f") (auto simp: enable_step_def getFeature_eq advance_counted_def due_def Let_def counted_def)
qed

lemma enable_steps_eq:
  assumes "distinct names" and "\<And>n. n \<in> set names \<Longrightarrow> \<exists>f. cfg_features s n = Some f \<and> ft_Name f = n"
  shows "fold_res (enable_step p cur h b) names (s, en) =
    (if \<exists>n\<in>set names. due p h (the (cfg_features s n)) \<and> b < ft_BuildNumber (the (cfg_features s n))
     then Inl CfgNotSupported
     else Inr (s\<lparr>cfg_features := (\<lambda>n. if n \<in> set names then map_option (advance_counted p cur h) (cfg_features s n)
                   else cfg_features s n)\<rparr>,
               en @ map (\<lambda>n. advance_counted p cur h (the (cfg_features s n)))
                 (filter (\<lambda>n. due p h (the (cfg_features s n))) names)))"
  using assms
proof (induction names arbitrary: s en)
  case Nil
  then show ?case by simp
next
  case (Cons n names)
  obtain f where f: "cfg_features s n = Some f" "ft_Name f = n" using Cons.prems(2) [of n] by auto
  show ?case
  proof (cases "due p h f \<and> b < ft_BuildNumber f")
    case True
    then show ?thesis using f by (auto simp: enable_step_eq)
  next
    case False
    let ?s = "s\<lparr>cfg_features := (cfg_features s)(n \<mapsto> advance_counted p cur h f)\<rparr>"
    let ?en = "if due p h f then en @ [advance_counted p cur h f] else en"
    have same: "\<And>m. m \<in> set names \<Longrightarrow> cfg_features ?s m = cfg_features s m"
      using Cons.prems(1) by auto
    have ih: "fold_res (enable_step p cur h b) names (?s, ?en) =
      (if \<exists>m\<in>set names. due p h (the (cfg_features ?s m)) \<and> b < ft_BuildNumber (the (cfg_features ?s m))
       then Inl CfgNotSupported
       else Inr (?s\<lparr>cfg_features := (\<lambda>m. if m \<in> set names then map_option (advance_counted p cur h) (cfg_features ?s m)
                     else cfg_features ?s m)\<rparr>,
                 ?en @ map (\<lambda>m. advance_counted p cur h (the (cfg_features ?s m)))
                   (filter (\<lambda>m. due p h (the (cfg_features ?s m))) names)))"
      using Cons.prems same by (intro Cons.IH) auto
    have ex: "(\<exists>m\<in>set names. due p h (the (cfg_features ?s m)) \<and> b < ft_BuildNumber (the (cfg_features ?s m)))
      \<longleftrightarrow> (\<exists>m\<in>set (n # names). due p h (the (cfg_features s m)) \<and> b < ft_BuildNumber (the (cfg_features s m)))"
      using same False f by auto
    have mp: "map (\<lambda>m. advance_counted p cur h (the (cfg_features ?s m))) (filter (\<lambda>m. due p h (the (cfg_features ?s m))) names)
      = map (\<lambda>m. advance_counted p cur h (the (cfg_features s m))) (filter (\<lambda>m. due p h (the (cfg_features s m))) names)"
      using Cons.prems(1) by (intro map_cong filter_cong) auto
    have fs: "(\<lambda>m. if m \<in> set names then map_option (advance_counted p cur h) (cfg_features ?s m) else cfg_features ?s m)
      = (\<lambda>m. if m \<in> set (n # names) then map_option (advance_counted p cur h) (cfg_features s m) else cfg_features s m)"
      using f Cons.prems(1) by (auto simp: fun_eq_iff)
    show ?thesis
      using False f ih [unfolded ex mp fs] by (simp add: enable_step_eq)
  qed
qed

section \<open>Steps of the contract\<close>

text \<open>
  The transactions users send, which read the feature flags of the state they run in, and the
  activation the node runs at the start of a block.
\<close>

inductive cfg_step :: "'s kv_ops \<Rightarrow> (string \<Rightarrow> bytes) \<Rightarrow> cfg_store \<times> 's \<Rightarrow> cfg_store \<times> 's \<Rightarrow> bool"
  for K fkey where
  step_params: "ChainConfig_SetParams ctx ps c = Inr c' \<Longrightarrow> cfg_step K fkey (c, s) (c', s)"
| step_vote: "ChainConfig_EnableFeature ctx vs names c = Inr c' \<Longrightarrow> cfg_step K fkey (c, s) (c', s)"
| step_add: "ChainConfig_AddFeature ctx build auto_enable names c = Inr c' \<Longrightarrow> cfg_step K fkey (c, s) (c', s)"
| step_remove: "feature_enabled ctx = StoreState_FeatureEnabled K fkey s \<Longrightarrow>
    ChainConfig_RemoveFeature ctx names c = Inr c' \<Longrightarrow> cfg_step K fkey (c, s) (c', s)"
| step_block: "ChainConfigManager_EnableFeatures K fkey ctx vs names build h (c, s) = Inr (c', s') \<Longrightarrow>
    cfg_step K fkey (c, s) (c', s')"

definition cfg_ok :: "'s kv_ops \<Rightarrow> (string \<Rightarrow> bytes) \<Rightarrow> cfg_store \<times> 's \<Rightarrow> bool" where
  "cfg_ok K fkey st \<longleftrightarrow>
     (\<forall>n f. cfg_features (fst st) n = Some f \<longrightarrow>
        ft_Name f = n \<and> distinct (ft_Validators f) \<and>
        (ft_Status f = FeatureEnabled \<longrightarrow> StoreState_FeatureEnabled K fkey (snd st) n False)) \<and>
     (\<forall>p. cfg_params (fst st) = Some p \<longrightarrow> VoteThreshold p \<le> 100)"

lemma cfg_okD:
  assumes "cfg_ok K fkey (c, s)" and "cfg_features c n = Some f"
  shows "ft_Name f = n" and "distinct (ft_Validators f)"
    and "ft_Status f = FeatureEnabled \<Longrightarrow> StoreState_FeatureEnabled K fkey s n False"
  using assms unfolding cfg_ok_def by auto

text \<open>An enabled feature is kept as it is.\<close>

definition keeps_enabled :: "cfg_store \<Rightarrow> cfg_store \<Rightarrow> bool" where
  "keeps_enabled c c' \<longleftrightarrow>
     (\<forall>n f. cfg_features c n = Some f \<and> ft_Status f = FeatureEnabled \<longrightarrow> cfg_features c' n = Some f)"

lemma keeps_refl [simp]: "keeps_enabled c c" by (simp add: keeps_enabled_def)

lemma keeps_trans: "keeps_enabled a b \<Longrightarrow> keeps_enabled b c \<Longrightarrow> keeps_enabled a c"
  by (simp add: keeps_enabled_def)

lemma setParams_Inr:
  assumes "setParams vt n c = Inr c'"
  shows "cfg_features c' = cfg_features c" and "cfg_perms c' = cfg_perms c"
    and "(\<forall>p. cfg_params c = Some p \<longrightarrow> VoteThreshold p \<le> 100) \<Longrightarrow>
      \<exists>p. cfg_params c' = Some p \<and> VoteThreshold p \<le> 100"
  using assms by (auto simp: setParams_def getParams_def Let_def split: if_splits option.splits)

lemma enableFeature_ok:
  assumes "enableFeature ctx vs n c = Inr c'" and "cfg_ok K fkey (c, s)"
  shows "cfg_ok K fkey (c', s) \<and> keeps_enabled c c'"
proof -
  from assms(1) obtain f where "cfg_features c n = Some f" "ft_Status f \<noteq> FeatureEnabled"
    "sender ctx \<notin> set (ft_Validators f)"
    "c' = c\<lparr>cfg_features := (cfg_features c)(n \<mapsto> f\<lparr>ft_Validators := ft_Validators f @ [sender ctx]\<rparr>)\<rparr>"
    by (auto simp: enableFeature_def list_ex_iff elim!: bind_resE split: if_splits option.split_asm)
  with assms(2) show ?thesis unfolding cfg_ok_def keeps_enabled_def by auto
qed

lemma addFeature_ok:
  assumes "addFeature ctx b a n c = Inr c'" and "cfg_ok K fkey (c, s)"
  shows "cfg_ok K fkey (c', s) \<and> keeps_enabled c c'"
  using assms unfolding cfg_ok_def keeps_enabled_def by (auto simp: addFeature_def split: if_splits)

lemma removeFeature_ok:
  assumes "removeFeature ctx n c = Inr c'" and "cfg_ok K fkey (c, s)"
    and "feature_enabled ctx = StoreState_FeatureEnabled K fkey s"
  shows "cfg_ok K fkey (c', s) \<and> keeps_enabled c c'"
  using assms unfolding cfg_ok_def keeps_enabled_def by (auto simp: removeFeature_def split: if_splits)

lemma fold_ok:
  assumes "fold_res g xs c = Inr c'" and "cfg_ok K fkey (c, s)"
    and "\<And>x a b. g x a = Inr b \<Longrightarrow> cfg_ok K fkey (a, s) \<Longrightarrow> cfg_ok K fkey (b, s) \<and> keeps_enabled a b"
  shows "cfg_ok K fkey (c', s) \<and> keeps_enabled c c'"
  using assms(1)
proof (rule fold_res_invariant [where P = "\<lambda>a. cfg_ok K fkey (a, s) \<and> keeps_enabled c a"])
  show "cfg_ok K fkey (c, s) \<and> keeps_enabled c c" using assms(2) by simp
  fix x a b
  assume "cfg_ok K fkey (a, s) \<and> keeps_enabled c a" and "g x a = Inr b"
  with assms(3) [of x a b] show "cfg_ok K fkey (b, s) \<and> keeps_enabled c b"
    by (auto intro: keeps_trans)
qed

lemma advance_enabled: "ft_Status f = FeatureEnabled \<Longrightarrow> advance_counted p cur h f = f"
  by (simp add: advance_counted_def due_def)

lemma advance_becomes_enabled:
  "ft_Status (advance_counted p cur h f) = FeatureEnabled \<Longrightarrow> ft_Status f = FeatureEnabled \<or> due p h f"
  by (auto simp: advance_counted_def split: if_splits)

text \<open>While a block's features are gone through, the newly enabled ones wait for their flag.\<close>

definition block_inv ::
    "'s kv_ops \<Rightarrow> (string \<Rightarrow> bytes) \<Rightarrow> cfg_store \<Rightarrow> 's \<Rightarrow> cfg_store \<times> Feature list \<Rightarrow> bool" where
  "block_inv K fkey c s st \<longleftrightarrow>
     (\<forall>n f. cfg_features (fst st) n = Some f \<longrightarrow> ft_Name f = n \<and> distinct (ft_Validators f) \<and>
        (ft_Status f = FeatureEnabled \<longrightarrow>
           StoreState_FeatureEnabled K fkey s n False \<or> n \<in> ft_Name ` set (snd st))) \<and>
     cfg_params (fst st) = cfg_params c \<and> keeps_enabled c (fst st)"

lemma enable_step_inv:
  assumes "block_inv K fkey c s st" and "enable_step p cur h b n st = Inr st'"
  shows "block_inv K fkey c s st'"
proof -
  obtain c1 en where st: "st = (c1, en)" by (cases st)
  obtain f where f: "cfg_features c1 n = Some f"
    using assms(2) st by (auto simp: enable_step_def getFeature_def ctx_get_def split: option.split_asm)
  have nm: "ft_Name f = n" using assms(1) f st by (auto simp: block_inv_def)
  from assms(2) have st': "st' = (c1\<lparr>cfg_features := (cfg_features c1)(n \<mapsto> advance_counted p cur h f)\<rparr>,
      if due p h f then en @ [advance_counted p cur h f] else en)"
    using st by (auto simp: enable_step_eq [OF f nm] split: if_splits)
  have ok: "ft_Status (advance_counted p cur h f) = FeatureEnabled \<Longrightarrow>
      StoreState_FeatureEnabled K fkey s n False \<or> n \<in> ft_Name ` set (snd st')"
    using advance_becomes_enabled [of p cur h f] assms(1) f nm st st'
    unfolding block_inv_def by (auto split: if_splits)
  show ?thesis
    using assms(1) f nm ok st st' unfolding block_inv_def keeps_enabled_def
    by (auto simp: advance_enabled split: if_splits)
qed

locale feature_chain = kv_store K invar
  for K :: "'s kv_ops" and invar :: "'s \<Rightarrow> bool" +
  fixes fkey :: "string \<Rightarrow> bytes"
  assumes fkey_inj: "inj fkey"
begin

lemma set_features:
  assumes "invar s"
  shows "invar (foldl (\<lambda>s f. StoreState_SetFeature K fkey s (ft_Name f) True) s fs) \<and>
    (StoreState_FeatureEnabled K fkey (foldl (\<lambda>s f. StoreState_SetFeature K fkey s (ft_Name f) True) s fs) n d
      \<longleftrightarrow> n \<in> ft_Name ` set fs \<or> StoreState_FeatureEnabled K fkey s n d)"
  using assms
proof (induction fs arbitrary: s)
  case Nil
  then show ?case by simp
next
  case (Cons f fs)
  have "invar (StoreState_SetFeature K fkey s (ft_Name f) True)"
    using Cons.prems by (simp add: StoreState_SetFeature_def inv_set)
  with Cons.IH [OF this] show ?case
    using feature_roundtrip [OF Cons.prems fkey_inj, of "ft_Name f" True n d] by auto
qed

lemma block_ok:
  assumes "cfg_ok K fkey (c, s)" and "invar s"
    and "ChainConfigManager_EnableFeatures K fkey ctx vs names b h (c, s) = Inr (c', s')"
  shows "cfg_ok K fkey (c', s') \<and> invar s' \<and> keeps_enabled c c' \<and>
    (\<forall>n d. StoreState_FeatureEnabled K fkey s n d \<longrightarrow> StoreState_FeatureEnabled K fkey s' n d)"
proof -
  from assms(3) obtain en where e: "EnableFeatures ctx vs names (of_int h) b c = Inr (c', en)"
    and s': "s' = foldl (\<lambda>s f. StoreState_SetFeature K fkey s (ft_Name f) True) s en"
    by (auto simp: ChainConfigManager_EnableFeatures_def split: sum.split_asm if_splits)
  from e obtain p cur where r: "fold_res (enable_step p cur (of_int h) b) names (c, []) = Inr (c', en)"
    by (auto simp: EnableFeatures_def elim!: bind_resE)
  have "block_inv K fkey c s (c', en)"
    using r
  proof (rule fold_res_invariant)
    show "block_inv K fkey c s (c, [])"
      using assms(1) by (auto simp: block_inv_def cfg_ok_def)
  qed (rule enable_step_inv)
  moreover have "invar s'" and "\<And>n d. StoreState_FeatureEnabled K fkey s' n d \<longleftrightarrow>
      n \<in> ft_Name ` set en \<or> StoreState_FeatureEnabled K fkey s n d"
    using set_features [OF assms(2)] unfolding s' by auto
  ultimately show ?thesis
    using assms(1) unfolding block_inv_def cfg_ok_def by auto
qed

lemma cfg_step_ok:
  assumes "cfg_step K fkey st st'" and "cfg_ok K fkey st" and "invar (snd st)"
  shows "cfg_ok K fkey st' \<and> invar (snd st') \<and> keeps_enabled (fst st) (fst st') \<and>
    (\<forall>n d. StoreState_FeatureEnabled K fkey (snd st) n d \<longrightarrow> StoreState_FeatureEnabled K fkey (snd st') n d)"
  using assms
proof (cases rule: cfg_step.cases)
  case (step_params ctx ps c c' s)
  then obtain vt n where sp: "setParams vt n c = Inr c'"
    by (auto simp: ChainConfig_SetParams_def split: option.split_asm if_splits)
  have "(\<forall>p. cfg_params c = Some p \<longrightarrow> VoteThreshold p \<le> 100)"
    using assms(2) step_params by (auto simp: cfg_ok_def)
  from setParams_Inr(3) [OF sp this] show ?thesis
    using step_params assms setParams_Inr(1) [OF sp] by (auto simp: cfg_ok_def keeps_enabled_def)
next
  case (step_vote ctx vs names c c' s)
  then have "fold_res (enableFeature ctx vs) names c = Inr c'"
    by (auto simp: ChainConfig_EnableFeature_def split: if_splits)
  from this assms(2) have "cfg_ok K fkey (c', s) \<and> keeps_enabled c c'"
    unfolding step_vote by (rule fold_ok) (rule enableFeature_ok)
  then show ?thesis using step_vote assms by auto
next
  case (step_add ctx b a names c c' s)
  then have "fold_res (addFeature ctx b a) names c = Inr c'"
    by (auto simp: ChainConfig_AddFeature_def split: if_splits)
  from this assms(2) have "cfg_ok K fkey (c', s) \<and> keeps_enabled c c'"
    unfolding step_add by (rule fold_ok) (rule addFeature_ok)
  then show ?thesis using step_add assms by auto
next
  case (step_remove ctx s names c c')
  then have "fold_res (removeFeature ctx) names c = Inr c'"
    by (auto simp: ChainConfig_RemoveFeature_def split: if_splits)
  from this assms(2) have "cfg_ok K fkey (c', s) \<and> keeps_enabled c c'"
    unfolding step_remove(1) by (rule fold_ok) (rule removeFeature_ok [OF _ _ step_remove(3)])
  then show ?thesis using step_remove assms by auto
next
  case (step_block ctx vs names b h c s c' s')
  then show ?thesis using block_ok [of c s ctx vs names b h c' s'] assms by auto
qed

lemma cfg_steps_ok:
  assumes "(cfg_step K fkey)\<^sup>*\<^sup>* st st'" and "cfg_ok K fkey st" and "invar (snd st)"
  shows "cfg_ok K fkey st' \<and> invar (snd st') \<and> keeps_enabled (fst st) (fst st') \<and>
    (\<forall>n d. StoreState_FeatureEnabled K fkey (snd st) n d \<longrightarrow> StoreState_FeatureEnabled K fkey (snd st') n d)"
  using assms(1)
proof (induction rule: rtranclp_induct)
  case base
  then show ?case using assms by simp
next
  case (step y z)
  with cfg_step_ok [OF step.hyps(2)] show ?case by (auto intro: keeps_trans)
qed

end

lemma init_feature_ok:
  assumes "init_feature f c = Inr c'" and "cfg_ok K fkey (c, s)" and "distinct (ft_Validators f)"
  shows "cfg_ok K fkey (c', s) \<and> keeps_enabled c c'"
  using assms unfolding cfg_ok_def keeps_enabled_def by (auto simp: init_feature_def split: if_splits)

section \<open>Reaching the end of the waiting period\<close>

text \<open>A feature over consecutive blocks, from height \<open>h\<close> on.\<close>

definition advance_run :: "Params \<Rightarrow> (nat \<Rightarrow> address list) \<Rightarrow> u64 \<Rightarrow> nat \<Rightarrow> Feature \<Rightarrow> Feature" where
  "advance_run p cur h k f = foldl (\<lambda>f i. advance_counted p (cur i) (h + of_nat i) f) f [0..<k]"

lemma advance_run_Suc:
  "advance_run p cur h (Suc k) f = advance_counted p (cur k) (h + of_nat k) (advance_run p cur h k f)"
  by (simp add: advance_run_def)

lemma waiting_run:
  assumes "ft_Status f = FeaturePending" and "counted (cur 0) f \<ge> VoteThreshold p"
    and "unat h + unat (NumBlockConfirmations p) < 2 ^ 64" and "k \<le> unat (NumBlockConfirmations p)"
  shows "ft_Status (advance_run p cur h (Suc k) f) = FeatureWaiting \<and>
    ft_BlockHeight (advance_run p cur h (Suc k) f) = h"
  using assms(4)
proof (induction k)
  case 0
  then show ?case using assms(1,2) by (simp add: advance_run_def advance_counted_def)
next
  case (Suc k)
  then have ih: "ft_Status (advance_run p cur h (Suc k) f) = FeatureWaiting"
    "ft_BlockHeight (advance_run p cur h (Suc k) f) = h" by simp_all
  have "h + of_nat (Suc k) \<le> h + NumBlockConfirmations p"
  proof -
    have "unat (h + of_nat (Suc k)) = unat h + Suc k"
      using Suc.prems assms(3) by (simp add: unat_word_ariths(1) unat_of_nat)
    moreover have "unat (h + NumBlockConfirmations p) = unat h + unat (NumBlockConfirmations p)"
      using assms(3) by (simp add: unat_word_ariths(1))
    ultimately show ?thesis using Suc.prems by (simp add: word_le_nat_alt)
  qed
  then show ?case
    unfolding advance_run_Suc [of p cur h "Suc k" f] using ih by (auto simp: advance_counted_def due_def)
qed

subsection \<open>Consecutive blocks\<close>

fun run_blocks ::
    "(nat \<Rightarrow> call_ctx) \<Rightarrow> (nat \<Rightarrow> validator_source) \<Rightarrow> string list \<Rightarrow> u64 \<Rightarrow> u64 \<Rightarrow> nat \<Rightarrow> cfg_store \<Rightarrow> cfg_store res" where
  "run_blocks ctx vs names h build 0 c = Inr c"
| "run_blocks ctx vs names h build (Suc k) c =
     bind_res (run_blocks ctx vs names h build k c) (\<lambda>c.
     bind_res (EnableFeatures (ctx k) (vs k) names (h + of_nat k) build c) (\<lambda>(c, _). Inr c))"

lemma advance_run_0: "advance_run p cur h 0 f = f"
  by (simp add: advance_run_def)

lemma run_fields [simp]:
  "ft_Name (advance_run p cur h k f) = ft_Name f"
  "ft_BuildNumber (advance_run p cur h k f) = ft_BuildNumber f"
  by (induction k) (simp_all add: advance_run_Suc advance_run_0)

lemma run_blocks_eq:
  assumes "distinct names" and "\<And>n. n \<in> set names \<Longrightarrow> \<exists>f. cfg_features c n = Some f \<and> ft_Name f = n \<and> ft_BuildNumber f \<le> build"
    and "getParams c = Inr p" and "\<And>k. getCurrentValidators (ctx k) (vs k) = Inr (cur k)"
  shows "run_blocks ctx vs names h build k c =
    Inr (c\<lparr>cfg_features := (\<lambda>n. if n \<in> set names then map_option (advance_run p cur h k) (cfg_features c n)
           else cfg_features c n)\<rparr>)"
proof (induction k)
  case 0
  have "(\<lambda>n. if n \<in> set names then map_option (advance_run p cur h 0) (cfg_features c n) else cfg_features c n)
      = cfg_features c"
    by (auto simp: fun_eq_iff advance_run_0 map_option_case split: option.split)
  then show ?case by simp
next
  case (Suc k)
  let ?c = "c\<lparr>cfg_features := (\<lambda>n. if n \<in> set names then map_option (advance_run p cur h k) (cfg_features c n)
           else cfg_features c n)\<rparr>"
  have p: "getParams ?c = Inr p" using assms(3) by (simp add: getParams_def)
  have ex: "\<And>n. n \<in> set names \<Longrightarrow> \<exists>f. cfg_features ?c n = Some f \<and> ft_Name f = n"
    using assms(2) by fastforce
  have sup: "\<not> (\<exists>n\<in>set names. due p (h + of_nat k) (the (cfg_features ?c n)) \<and>
      build < ft_BuildNumber (the (cfg_features ?c n)))"
    using assms(2) by fastforce
  have fs: "(\<lambda>n. if n \<in> set names then map_option (advance_counted p (cur k) (h + of_nat k)) (cfg_features ?c n)
      else cfg_features ?c n) =
    (\<lambda>n. if n \<in> set names then map_option (advance_run p cur h (Suc k)) (cfg_features c n) else cfg_features c n)"
    by (auto simp: fun_eq_iff advance_run_Suc map_option_case split: option.split)
  have "EnableFeatures (ctx k) (vs k) names (h + of_nat k) build ?c =
      fold_res (enable_step p (cur k) (h + of_nat k) build) names (?c, [])"
    using p assms(4) by (simp add: EnableFeatures_def)
  also have "\<dots> = Inr (?c\<lparr>cfg_features := (\<lambda>n. if n \<in> set names then map_option (advance_run p cur h (Suc k)) (cfg_features c n)
           else cfg_features c n)\<rparr>,
      map (\<lambda>n. advance_counted p (cur k) (h + of_nat k) (the (cfg_features ?c n)))
        (filter (\<lambda>n. due p (h + of_nat k) (the (cfg_features ?c n))) names))"
    using enable_steps_eq [OF assms(1) ex, of p "cur k" "h + of_nat k" build "[]"] sup unfolding fs by simp
  finally show ?case using Suc by simp
qed

interpretation memft: feature_chain "MemStore_ops rng" "\<lambda>_. True" go_bytes for rng
  by unfold_locales (rule go_bytes_inj)

section \<open>Properties\<close>

text \<open>
  The specification, after the comments of the code: what counts for a pending feature is the percentage of
  the current validators that have voted for it. It is what the code counts as long as all
  recorded voters are still validators.
\<close>

definition support :: "address list \<Rightarrow> Feature \<Rightarrow> u64" where
  "support cur f =
     (if cur = [] then ft_Percentage f
      else of_nat ((card (Local ` set cur \<inter> Local ` set (ft_Validators f)) * 100) div length cur))"

definition advance :: "Params \<Rightarrow> address list \<Rightarrow> u64 \<Rightarrow> Feature \<Rightarrow> Feature" where
  "advance p cur h f =
     (if ft_Status f = FeaturePending \<and> support cur f \<ge> VoteThreshold p
      then f\<lparr>ft_Percentage := support cur f, ft_Status := FeatureWaiting, ft_BlockHeight := h\<rparr>
      else if due p h f then f\<lparr>ft_Status := FeatureEnabled\<rparr>
      else f)"

definition voters_current :: "address list \<Rightarrow> Feature \<Rightarrow> bool" where
  "voters_current cur f \<longleftrightarrow>
     (ft_Status f = FeaturePending \<longrightarrow> Local ` set (ft_Validators f) \<subseteq> Local ` set cur)"

lemma advance_counted_eq: "voters_current cur f \<Longrightarrow> advance_counted p cur h f = advance p cur h f"
proof -
  assume cur: "voters_current cur f"
  have "counted cur f = support cur f" if "ft_Status f = FeaturePending"
    using cur that by (simp add: voters_current_def counted_def support_def Int_absorb1)
  then show ?thesis by (cases "ft_Status f = FeaturePending") (simp_all add: advance_counted_def advance_def)
qed

text \<open>C40: What happens to the features at the start of a block, when the recorded voters of the pending
  ones among them are all current validators. If some feature whose waiting period is over needs a
  newer build, activation fails as unsupported and nothing is returned; otherwise every listed
  feature advances by at most one stage: a pending one for which the percentage of current validators that
  voted for it has reached the threshold starts waiting from this height with that percentage recorded, a
  waiting one past its confirmations is enabled, all others are unchanged, and the features returned are
  exactly those that became enabled, in order. (The code also counts voters that are no longer
  validators, against its comments; then the percentage is the one \<open>votes_counted\<close> gives.)\<close>

theorem feature_activation_spec:
  assumes "distinct names"
    and "\<And>n. n \<in> set names \<Longrightarrow> \<exists>f. cfg_features s n = Some f \<and> ft_Name f = n \<and> voters_current cur f"
    and "getParams s = Inr p" and "getCurrentValidators ctx vs = Inr cur"
  shows "EnableFeatures ctx vs names h build s =
    (if \<exists>n\<in>set names. due p h (the (cfg_features s n)) \<and> build < ft_BuildNumber (the (cfg_features s n))
     then Inl CfgNotSupported
     else Inr (s\<lparr>cfg_features := (\<lambda>n. if n \<in> set names then map_option (advance p cur h) (cfg_features s n)
                   else cfg_features s n)\<rparr>,
               map (\<lambda>n. advance p cur h (the (cfg_features s n)))
                 (filter (\<lambda>n. due p h (the (cfg_features s n))) names)))"
proof -
  have eq: "advance_counted p cur h (the (cfg_features s n)) = advance p cur h (the (cfg_features s n))"
    "map_option (advance_counted p cur h) (cfg_features s n) = map_option (advance p cur h) (cfg_features s n)"
    if "n \<in> set names" for n
    using assms(2) [OF that] advance_counted_eq by force+
  have ex: "\<exists>f. cfg_features s n = Some f \<and> ft_Name f = n" if "n \<in> set names" for n
    using assms(2) [OF that] by blast
  show ?thesis
    using enable_steps_eq [OF assms(1) ex] assms(3,4) eq by (simp add: EnableFeatures_def cong: if_cong map_cong)
qed

definition cfg_demo_feature :: Feature where
  "cfg_demo_feature = \<lparr>ft_Name = ''f'', ft_Status = FeaturePending,
     ft_Validators = [Address ''default'' [1], Address ''default'' [2]], ft_BlockHeight = 0,
     ft_BuildNumber = 3, ft_Percentage = 0, ft_AutoEnable = False\<rparr>"

definition cfg_demo :: cfg_store where
  "cfg_demo = \<lparr>cfg_perms = [], cfg_features = [''f'' \<mapsto> cfg_demo_feature],
     cfg_params = Some \<lparr>VoteThreshold = 66, NumBlockConfirmations = 5\<rparr>\<rparr>"

definition cfg_demo_ctx :: "address \<Rightarrow> call_ctx" where
  "cfg_demo_ctx a = (plain_ctx a)\<lparr>feature_enabled := (\<lambda>n d. n = ''chaincfg:v1.1'')\<rparr>"

definition cfg_demo_vs :: validator_source where
  "cfg_demo_vs = \<lparr>vs_block = [Some [1], Some [2], Some [3]], vs_local_of_key = id,
     vs_dposV3 = Inl ErrNotFound, vs_dposV2 = Inl ErrNotFound\<rparr>"

lemma cfg_demo_validators:
  "getCurrentValidators (cfg_demo_ctx a) cfg_demo_vs =
     Inr [Address ''default'' [1], Address ''default'' [2], Address ''default'' [3]]"
  by (simp add: getCurrentValidators_def cfg_demo_ctx_def cfg_demo_vs_def map_filter_def)

lemma cfg_demo_params: "getParams cfg_demo = Inr \<lparr>VoteThreshold = 66, NumBlockConfirmations = 5\<rparr>"
  by (simp add: getParams_def cfg_demo_def)

theorem feature_activation_spec_witness:
  "\<exists>c. EnableFeatures (cfg_demo_ctx (Address ''default'' [0])) cfg_demo_vs [''f''] 10 7 cfg_demo = Inr (c, []) \<and>
     cfg_features c ''f'' = Some (cfg_demo_feature
       \<lparr>ft_Percentage := 66, ft_Status := FeatureWaiting, ft_BlockHeight := 10\<rparr>)"
proof -
  let ?cur = "[Address ''default'' [1], Address ''default'' [2], Address ''default'' [3]]"
  have ex: "\<And>n. n \<in> set [''f''] \<Longrightarrow> \<exists>f. cfg_features cfg_demo n = Some f \<and> ft_Name f = n \<and> voters_current ?cur f"
    by (simp add: cfg_demo_def cfg_demo_feature_def voters_current_def)
  have "distinct [''f'']" by simp
  from feature_activation_spec [OF this ex cfg_demo_params cfg_demo_validators, where h = 10 and build = 7] show ?thesis
    by (simp add: cfg_demo_def due_def advance_def support_def cfg_demo_feature_def)
qed

text \<open>An enabled feature stays enabled. From a state where the contract's features are filed under
  their names and enabled ones have their flag set, after any sequence of parameter changes, votes,
  additions, removals and block activations every feature that was ENABLED is still there
  unchanged, every ENABLED feature has its flag set in the application state, no flag that was on
  has been cleared, no validator is counted twice for a feature, and the vote threshold is at most
  100.\<close>

theorem enabled_forever:
  assumes "kv_store K invar" and "inj fkey" and "cfg_ok K fkey (c, s)" and "invar s"
    and "(cfg_step K fkey)\<^sup>*\<^sup>* (c, s) (c', s')"
  shows "(\<forall>n f. cfg_features c n = Some f \<and> ft_Status f = FeatureEnabled \<longrightarrow> cfg_features c' n = Some f) \<and>
    (\<forall>n f. cfg_features c' n = Some f \<longrightarrow> distinct (ft_Validators f) \<and>
      (ft_Status f = FeatureEnabled \<longrightarrow> StoreState_FeatureEnabled K fkey s' n False)) \<and>
    (\<forall>n d. StoreState_FeatureEnabled K fkey s n d \<longrightarrow> StoreState_FeatureEnabled K fkey s' n d) \<and>
    (\<forall>p. cfg_params c' = Some p \<longrightarrow> VoteThreshold p \<le> 100)"
proof -
  have "feature_chain K invar fkey"
    using assms(1,2) by (simp add: feature_chain_def feature_chain_axioms_def)
  note run = feature_chain.cfg_steps_ok [OF this assms(5,3), simplified, OF assms(4)]
  from run have "cfg_ok K fkey (c', s')" and "keeps_enabled c c'"
    and "\<forall>n d. StoreState_FeatureEnabled K fkey s n d \<longrightarrow> StoreState_FeatureEnabled K fkey s' n d"
    by simp_all
  then show ?thesis unfolding cfg_ok_def keeps_enabled_def by simp
qed

theorem enabled_forever_witness:
  "\<exists>c'. (cfg_step (MemStore_ops (\<lambda>_ _. [])) go_bytes)\<^sup>*\<^sup>* (cfg_demo, Map.empty) (c', Map.empty) \<and>
     (\<forall>p. cfg_params c' = Some p \<longrightarrow> VoteThreshold p \<le> 100)"
proof -
  let ?K = "MemStore_ops (\<lambda>_ _. [])"
  have ok: "cfg_ok ?K go_bytes (cfg_demo, Map.empty)"
    by (simp add: cfg_ok_def cfg_demo_def cfg_demo_feature_def)
  obtain c' where "ChainConfig_EnableFeature (cfg_demo_ctx (Address ''default'' [3])) cfg_demo_vs [''f''] cfg_demo = Inr c'"
    by (simp add: ChainConfig_EnableFeature_def enableFeature_def cfg_demo_validators cfg_demo_def
        cfg_demo_feature_def) (simp add: cfg_demo_ctx_def)
  then have "(cfg_step ?K go_bytes)\<^sup>*\<^sup>* (cfg_demo, Map.empty) (c', Map.empty)"
    by (intro r_into_rtranclp step_vote)
  with enabled_forever [OF mem.kv_store_axioms go_bytes_inj ok TrueI this] show ?thesis by blast
qed

text \<open>A feature the validators want does become active. If a pending feature has enough votes at
  height h, and the build supports every listed feature, then running the activation at each of the
  heights h, h + 1, ..., h + N + 1, where N is the number of confirmations and the heights do not
  wrap around, always succeeds, the feature is WAITING after each of the first N + 1 of them and
  ENABLED after the last, whoever the validators are in the meantime.\<close>

theorem feature_becomes_enabled:
  assumes "distinct names"
    and "\<And>m. m \<in> set names \<Longrightarrow> \<exists>f. cfg_features c m = Some f \<and> ft_Name f = m \<and> ft_BuildNumber f \<le> build"
    and "getParams c = Inr p" and "\<And>k. getCurrentValidators (ctx k) (vs k) = Inr (cur k)"
    and "n \<in> set names" and "cfg_features c n = Some f" and "ft_Status f = FeaturePending"
    and "counted (cur 0) f \<ge> VoteThreshold p"
    and "unat h + unat (NumBlockConfirmations p) + 1 < 2 ^ 64"
  shows "\<exists>c' f'. run_blocks ctx vs names h build (unat (NumBlockConfirmations p) + 2) c = Inr c' \<and>
      cfg_features c' n = Some f' \<and> ft_Status f' = FeatureEnabled \<and>
      (\<forall>k\<le>unat (NumBlockConfirmations p). \<exists>c'' f''. run_blocks ctx vs names h build (Suc k) c = Inr c'' \<and>
         cfg_features c'' n = Some f'' \<and> ft_Status f'' = FeatureWaiting)"
proof -
  let ?N = "unat (NumBlockConfirmations p)"
  have nw: "unat h + ?N < 2 ^ 64" using assms(9) by simp
  note w = waiting_run [where cur = cur, OF assms(7,8) nw]
  have u: "unat (h + of_nat (Suc ?N)) = unat h + Suc ?N"
    using assms(9) by (simp add: unat_word_ariths(1) unat_of_nat)
  have v: "unat (h + NumBlockConfirmations p) = unat h + ?N"
    using nw by (simp add: unat_word_ariths(1))
  have "h + of_nat (Suc ?N) > h + NumBlockConfirmations p"
    using u v by (simp only: word_less_nat_alt)
  then have "ft_Status (advance_run p cur h (Suc (Suc ?N)) f) = FeatureEnabled"
    unfolding advance_run_Suc [of p cur h "Suc ?N" f] using w [of ?N] by (simp add: advance_counted_def due_def)
  then show ?thesis
    using run_blocks_eq [OF assms(1-4)] w assms(5,6) by (simp del: run_blocks.simps)
qed

theorem feature_becomes_enabled_witness:
  "\<exists>c' f'. run_blocks (\<lambda>_. cfg_demo_ctx (Address ''default'' [0])) (\<lambda>_. cfg_demo_vs) [''f''] 10 7 (unat (5 :: u64) + 2) cfg_demo = Inr c' \<and>
     cfg_features c' ''f'' = Some f' \<and> ft_Status f' = FeatureEnabled"
proof -
  let ?p = "\<lparr>VoteThreshold = 66, NumBlockConfirmations = 5\<rparr> :: Params"
  have "\<exists>c' f'. run_blocks (\<lambda>_. cfg_demo_ctx (Address ''default'' [0])) (\<lambda>_. cfg_demo_vs) [''f''] 10 7 (unat (NumBlockConfirmations ?p) + 2) cfg_demo = Inr c' \<and>
      cfg_features c' ''f'' = Some f' \<and> ft_Status f' = FeatureEnabled \<and>
      (\<forall>k\<le>unat (NumBlockConfirmations ?p). \<exists>c'' f''.
         run_blocks (\<lambda>_. cfg_demo_ctx (Address ''default'' [0])) (\<lambda>_. cfg_demo_vs) [''f''] 10 7 (Suc k) cfg_demo = Inr c'' \<and>
         cfg_features c'' ''f'' = Some f'' \<and> ft_Status f'' = FeatureWaiting)"
    by (rule feature_becomes_enabled [OF _ _ cfg_demo_params cfg_demo_validators, where f = cfg_demo_feature])
      (simp_all add: cfg_demo_def cfg_demo_feature_def counted_def)
  then show ?thesis by auto
qed

text \<open>The percentage of a pending feature counts every recorded vote, also of accounts that are no
  longer validators: whatever the current validators are, it is the number of distinct voters times
  100 divided by the number of current validators. Votes of former validators alone can therefore
  reach any threshold, and the percentage is not bounded by 100.\<close>

theorem votes_counted:
  assumes "cfg_features s n = Some f" and "ft_Status f = FeaturePending" and "cur \<noteq> []"
  shows "getFeature n cur s =
    Inr (f\<lparr>ft_Percentage := of_nat (card (Local ` set (ft_Validators f)) * 100 div length cur)\<rparr>)"
  using getFeature_eq [OF assms(1)] assms(2,3) by (simp add: counted_def)

theorem votes_counted_witness:
  "\<exists>f. getFeature ''f'' [Address ''default'' [9]] cfg_demo = Inr f \<and> ft_Percentage f = 200 \<and>
     Address ''default'' [9] \<notin> set (ft_Validators f)"
  using votes_counted [of cfg_demo "''f''" cfg_demo_feature "[Address ''default'' [9]]"]
  by (simp add: cfg_demo_def cfg_demo_feature_def)

text \<open>A vote is recorded exactly when a current validator that has not voted yet votes for an
  existing feature that is not enabled; it adds that validator at the end of the list of votes and
  changes nothing else.\<close>

theorem vote_recorded:
  assumes "getCurrentValidators ctx vs = Inr cur" and "name \<noteq> ''''"
  shows "enableFeature ctx vs name s = Inr s' \<longleftrightarrow>
    sender ctx \<in> set cur \<and>
    (\<exists>f. cfg_features s name = Some f \<and> ft_Status f \<noteq> FeatureEnabled \<and> sender ctx \<notin> set (ft_Validators f) \<and>
      s' = s\<lparr>cfg_features := (cfg_features s)(name \<mapsto> f\<lparr>ft_Validators := ft_Validators f @ [sender ctx]\<rparr>)\<rparr>)"
  using assms by (auto simp: enableFeature_def list_ex_iff split: option.splits)

theorem vote_recorded_witness:
  "enableFeature (cfg_demo_ctx (Address ''default'' [3])) cfg_demo_vs ''f'' cfg_demo =
     Inr (cfg_demo\<lparr>cfg_features := [''f'' \<mapsto> cfg_demo_feature\<lparr>ft_Validators :=
       ft_Validators cfg_demo_feature @ [Address ''default'' [3]]\<rparr>]\<rparr>)"
proof -
  have "sender (cfg_demo_ctx (Address ''default'' [3])) = Address ''default'' [3]"
    by (simp add: cfg_demo_ctx_def)
  with vote_recorded [OF cfg_demo_validators, of "''f''" "Address ''default'' [3]" cfg_demo] show ?thesis
    by (simp add: cfg_demo_def cfg_demo_feature_def)
qed

end
