(* ===== verification/Dpos_Util.thy ===== *)
theory Dpos_Util
  imports Coin_Contract "HOL-Library.Product_Lexorder" "HOL-Library.AList"
begin

text \<open>
  The arithmetic of the staking contract: \<open>builtin/plugins/dposv3/util.go\<close> (lock time tiers, fractions,
  shares) and the power cap of \<open>dpos.go\<close>, whose two floating point operations are modelled exactly.

  A \<open>BigUInt\<close> is an \<open>int\<close>; \<open>big.Int.Div\<close> is \<open>div\<close>, with which it agrees for the positive divisors
  used here. A \<open>LocktimeTier\<close> is a 32 bit enum that a request can set to any value, so it is a word.
\<close>

section \<open>Data\<close>

type_synonym LocktimeTier = u32

datatype DelegationState = BONDING | BONDED | UNBONDING | REDELEGATING
datatype CandidateState = REGISTERED | UNREGISTERING | ABOUT_TO_CHANGE_FEE | CHANGING_FEE

record Delegation =
  dl_Validator :: address
  dl_Delegator :: address
  dl_Index :: u64
  dl_Amount :: int
  dl_UpdateAmount :: int
  dl_UpdateValidator :: "address option"
  dl_LocktimeTier :: LocktimeTier
  dl_LockTime :: u64
  dl_State :: DelegationState
  dl_Referrer :: string

record Candidate =
  cd_PubKey :: bytes
  cd_Address :: address
  cd_Fee :: u64
  cd_NewFee :: u64
  cd_Name :: string
  cd_Description :: string
  cd_Website :: string
  cd_State :: CandidateState
  cd_MaxReferralPercentage :: u64

text \<open>The whitelist amount comes from a request field that may be nil.\<close>

record ValidatorStatistic =
  st_Address :: address
  st_PubKey :: slice
  st_WhitelistAmount :: "int option"
  st_LocktimeTier :: LocktimeTier
  st_DelegationTotal :: int
  st_SlashPercentage :: int

record Validator =
  va_PubKey :: bytes
  va_Power :: int

section \<open>Tiers\<close>

abbreviation TIER_ZERO :: LocktimeTier where "TIER_ZERO \<equiv> 0"

definition TierMap :: "u64 \<Rightarrow> LocktimeTier" where
  "TierMap n = (if n = 0 then 0 else if n = 1 then 1 else if n = 2 then 2 else if n = 3 then 3 else 0)"

definition TierLocktimeMap :: "LocktimeTier \<Rightarrow> u64" where
  "TierLocktimeMap t =
     (if t = 0 then 1209600 else if t = 1 then 7884000 else if t = 2 then 15768000
      else if t = 3 then 31536000 else 0)"

definition TierBonusMap :: "LocktimeTier \<Rightarrow> int option" where
  "TierBonusMap t =
     (if t = 0 then Some 10000 else if t = 1 then Some 15000 else if t = 2 then Some 20000
      else if t = 3 then Some 40000 else None)"

section \<open>Fractions\<close>

definition billionth :: int where "billionth = 1000000000"
definition billionthsBasisPointRatio :: int where "billionthsBasisPointRatio = 100000"
definition secondsInYear :: int where "secondsInYear = 60 * 60 * 24 * 365"
definition defaultReferrerFee :: int where "defaultReferrerFee = 300"
definition blockRewardPercentage :: int where "blockRewardPercentage = 500"
definition doubleSignSlashPercentage :: int where "doubleSignSlashPercentage = 500"
definition inactivitySlashPercentage :: int where "inactivitySlashPercentage = 100"
definition powerCorrection :: int where "powerCorrection = 1000000000000"

definition basisPointsToBillionths :: "int \<Rightarrow> int" where
  "basisPointsToBillionths bps = billionthsBasisPointRatio * bps"

definition CalculatePreciseFraction :: "int \<Rightarrow> int \<Rightarrow> int" where
  "CalculatePreciseFraction fr tot = (tot * fr) div billionth"

definition CalculateFraction :: "int \<Rightarrow> int \<Rightarrow> int" where
  "CalculateFraction fr tot = CalculatePreciseFraction (basisPointsToBillionths fr) tot"

definition calculateShare :: "int \<Rightarrow> int \<Rightarrow> int \<Rightarrow> int" where
  "calculateShare delegation tot rewards =
     (let fr = (if tot \<noteq> 0 then (delegation * billionth) div tot else 0)
      in CalculatePreciseFraction fr rewards)"

definition scientificNotation :: "int \<Rightarrow> nat \<Rightarrow> int" where
  "scientificNotation m n = 10 ^ n * m"

definition bonusPercentage :: "LocktimeTier \<Rightarrow> int" where
  "bonusPercentage t = (case TierBonusMap t of None \<Rightarrow> 10000 | Some b \<Rightarrow> b)"

definition calculateWeightedDelegationAmount :: "Delegation \<Rightarrow> int" where
  "calculateWeightedDelegationAmount d = CalculateFraction (bonusPercentage (dl_LocktimeTier d)) (dl_Amount d)"

definition calculateWeightedWhitelistAmount :: "ValidatorStatistic \<Rightarrow> int res" where
  "calculateWeightedWhitelistAmount st =
     bind_res (deref (st_WhitelistAmount st)) (\<lambda>amount.
     Inr (CalculateFraction (bonusPercentage (st_LocktimeTier st)) amount))"

definition validateFee :: "u64 \<Rightarrow> unit res" where
  "validateFee fee =
     (if fee > 10000 then Inl (Err ''Fee percentage cannot be greater than 100%.'') else Inr ())"

lemmas dpos_constants =
  billionth_def billionthsBasisPointRatio_def secondsInYear_def defaultReferrerFee_def
  blockRewardPercentage_def powerCorrection_def

subsection \<open>Bounds on fractions\<close>

lemma CalculateFraction_eq: "CalculateFraction fr tot = (tot * fr) div 10000"
proof -
  have "tot * (100000 * fr) div 1000000000 = (100000 * (tot * fr)) div (100000 * 10000)"
    by (simp add: mult.left_commute)
  also have "\<dots> = (tot * fr) div 10000" by (rule div_mult_mult1) simp
  finally show ?thesis
    by (simp add: CalculateFraction_def CalculatePreciseFraction_def basisPointsToBillionths_def
        billionth_def billionthsBasisPointRatio_def)
qed

lemma CalculateFraction_bounds:
  assumes "0 \<le> tot" and "0 \<le> fr" and "fr \<le> 10000"
  shows "0 \<le> CalculateFraction fr tot" and "CalculateFraction fr tot \<le> tot"
proof -
  show "0 \<le> CalculateFraction fr tot"
    using assms by (simp add: CalculateFraction_eq pos_imp_zdiv_nonneg_iff)
  have "tot * fr \<le> tot * 10000" using assms by (intro mult_left_mono) auto
  then have "(tot * fr) div 10000 \<le> (tot * 10000) div 10000" by (rule zdiv_mono1) simp
  then show "CalculateFraction fr tot \<le> tot" by (simp add: CalculateFraction_eq)
qed

lemma bonusPercentage_bounds: "10000 \<le> bonusPercentage t" "bonusPercentage t \<le> 40000"
  by (simp_all add: bonusPercentage_def TierBonusMap_def)

lemma CalculatePreciseFraction_sum:
  assumes "0 \<le> rewards" and "(\<Sum>f\<leftarrow>fracs. f) \<le> billionth" and "\<And>f. f \<in> set fracs \<Longrightarrow> 0 \<le> f"
  shows "(\<Sum>f\<leftarrow>fracs. CalculatePreciseFraction f rewards) \<le> rewards"
proof -
  have "(\<Sum>f\<leftarrow>fracs. CalculatePreciseFraction f rewards) * billionth \<le> rewards * (\<Sum>f\<leftarrow>fracs. f)"
  proof (induction fracs)
    case Nil
    then show ?case by simp
  next
    case (Cons f fracs)
    have "CalculatePreciseFraction f rewards * billionth \<le> rewards * f"
      unfolding CalculatePreciseFraction_def billionth_def by simp
    with Cons show ?case by (simp add: algebra_simps)
  qed
  also have "\<dots> \<le> rewards * billionth" using assms by (intro mult_left_mono) auto
  finally show ?thesis by (simp add: billionth_def)
qed

text \<open>Shares of a reward never add up to more than the reward.\<close>

lemma calculateShare_sum:
  assumes "0 \<le> rewards" and "\<And>w. w \<in> set ws \<Longrightarrow> 0 \<le> w" and "(\<Sum>w\<leftarrow>ws. w) \<le> tot"
  shows "(\<Sum>w\<leftarrow>ws. calculateShare w tot rewards) \<le> rewards"
proof (cases "tot = 0")
  case True
  then show ?thesis
    using assms(1) by (simp add: calculateShare_def CalculatePreciseFraction_def sum_list_0)
next
  case False
  have "0 \<le> (\<Sum>w\<leftarrow>ws. w)" using assms(2) by (intro sum_list_nonneg) auto
  with False assms(3) have pos: "0 < tot" by simp
  have "(\<Sum>w\<leftarrow>ws. (w * billionth) div tot) * tot \<le> (\<Sum>w\<leftarrow>ws. w) * billionth"
  proof (induction ws)
    case Nil
    then show ?case by simp
  next
    case (Cons w ws)
    have "(w * billionth) div tot * tot \<le> w * billionth"
      using pos by (simp add: minus_mod_eq_div_mult [symmetric])
    with Cons show ?case by (simp add: algebra_simps)
  qed
  also have "\<dots> \<le> tot * billionth"
    using assms(3) by (simp add: billionth_def)
  finally have le: "(\<Sum>f\<leftarrow>map (\<lambda>w. (w * billionth) div tot) ws. f) \<le> billionth"
    using pos by (simp add: mult.commute o_def)
  have "(\<Sum>f\<leftarrow>map (\<lambda>w. (w * billionth) div tot) ws. CalculatePreciseFraction f rewards) \<le> rewards"
  proof (rule CalculatePreciseFraction_sum [OF assms(1) le])
    fix f
    assume "f \<in> set (map (\<lambda>w. (w * billionth) div tot) ws)"
    then show "0 \<le> f" using assms(2) pos by (auto simp: pos_imp_zdiv_nonneg_iff billionth_def)
  qed
  then show ?thesis using False by (simp add: calculateShare_def Let_def o_def)
qed

section \<open>The power cap\<close>

subsection \<open>Floating point\<close>

text \<open>
  A non-negative \<open>float64\<close> as a mantissa and a binary exponent. \<open>f64_round a k\<close> is the number
  \<open>a / 2 ^ k\<close> rounded to 53 significant bits, ties to even, as IEEE 754 prescribes for every
  operation; \<open>f64_trunc\<close> is Go's conversion to \<open>int64\<close>.
\<close>

fun bit_length :: "nat \<Rightarrow> nat" where
  "bit_length n = (if n = 0 then 0 else Suc (bit_length (n div 2)))"

declare bit_length.simps [simp del]

definition rne_shift :: "nat \<Rightarrow> nat \<Rightarrow> nat" where
  "rne_shift a s =
     (let q = a div 2 ^ s; r = a mod 2 ^ s in
      if 2 ^ s < 2 * r \<or> (2 * r = 2 ^ s \<and> odd q) then q + 1 else q)"

definition f64_round :: "nat \<Rightarrow> nat \<Rightarrow> nat \<times> int" where
  "f64_round a k = (let s = bit_length a - 53 in (rne_shift a s, int s - int k))"

definition f64_trunc :: "nat \<times> int \<Rightarrow> nat" where
  "f64_trunc x = (case x of (q, e) \<Rightarrow> if 0 \<le> e then q * 2 ^ nat e else q div 2 ^ nat (- e))"

text \<open>\<open>float64(n)\<close> of an integer, as the integer it stands for.\<close>

definition f64_of_nat :: "nat \<Rightarrow> nat" where
  "f64_of_nat n = f64_trunc (f64_round n 0)"

text \<open>The constant \<open>float64(0.28)\<close> is \<open>5044031582654956 / 2 ^ 54\<close>.\<close>

definition limit_mantissa :: nat where "limit_mantissa = 5044031582654956"

definition f64_limit_times :: "nat \<Rightarrow> nat" where
  "f64_limit_times n = f64_trunc (f64_round (limit_mantissa * f64_of_nat n) 54)"

definition f64_quotient :: "nat \<Rightarrow> nat \<Rightarrow> nat" where
  "f64_quotient n m =
     (let a = f64_of_nat n; b = f64_of_nat m; k = 64 + bit_length b;
          t = (a * 2 ^ k) div b; sticky = (if (a * 2 ^ k) mod b = 0 then 0 else 1)
      in f64_trunc (f64_round (2 * t + sticky) (k + 1)))"

definition signed_op :: "(nat \<Rightarrow> nat) \<Rightarrow> int \<Rightarrow> int" where
  "signed_op f x = (if x < 0 then - int (f (nat (- x))) else int (f (nat x)))"

subsection \<open>Capping\<close>

definition power_sum_max :: "Validator list \<Rightarrow> int \<times> int" where
  "power_sum_max vs = foldl (\<lambda>(s, m) v. (i64 (s + va_Power v), if va_Power v > m then va_Power v else m)) (0, 0) vs"

definition maximumIndividualPower :: "int \<Rightarrow> int" where
  "maximumIndividualPower powerSum = signed_op f64_limit_times powerSum"

text \<open>The first loop cuts the large validators down and counts the others.\<close>

fun cut_powers :: "int \<Rightarrow> Validator list \<Rightarrow> Validator list \<times> int \<times> nat" where
  "cut_powers cap [] = ([], 0, 0)"
| "cut_powers cap (v # vs) =
     (let (vs', extraSum, underCount) = cut_powers cap vs in
      if va_Power v > cap then (v\<lparr>va_Power := cap\<rparr> # vs', i64 (extraSum + i64 (va_Power v - cap)), underCount)
      else (v # vs', extraSum, Suc underCount))"

definition boost_power :: "int \<Rightarrow> int \<Rightarrow> Validator \<Rightarrow> Validator" where
  "boost_power cap underBoost v =
     (if va_Power v < cap then
        (if i64 (va_Power v + underBoost) > cap then v\<lparr>va_Power := cap\<rparr>
         else v\<lparr>va_Power := i64 (va_Power v + underBoost)\<rparr>)
      else v)"

text \<open>
  Dividing by a zero count gives an infinity whose conversion to an integer is the smallest one;
  \<open>cut_count_pos\<close> below shows that the count is not zero.
\<close>

definition applyPowerCap :: "Validator list \<Rightarrow> Validator list" where
  "applyPowerCap validators =
     (if length validators < 4 then validators
      else
        let (powerSum, mx) = power_sum_max validators;
            cap = maximumIndividualPower powerSum
        in
        if mx > cap then
          let (validators, extraSum, underCount) = cut_powers cap validators;
              underBoost = (if underCount = 0 then - (2 ^ 63)
                            else signed_op (\<lambda>n. f64_quotient n underCount) extraSum)
          in map (boost_power cap underBoost) validators
        else validators)"

subsection \<open>The floating point operations are exact enough\<close>

lemma bit_length_upper: "n < 2 ^ bit_length n"
proof (induction n rule: bit_length.induct)
  case (1 n)
  show ?case
  proof (cases "n = 0")
    case True
    then show ?thesis by (simp add: bit_length.simps)
  next
    case False
    with 1 have "n div 2 < 2 ^ bit_length (n div 2)" by simp
    then have "n < 2 * 2 ^ bit_length (n div 2)" by linarith
    then show ?thesis using False by (simp add: bit_length.simps [of n])
  qed
qed

lemma bit_length_lower: "0 < n \<Longrightarrow> 2 ^ bit_length n \<le> 2 * n"
proof (induction n rule: bit_length.induct)
  case (1 n)
  show ?case
  proof (cases "n div 2 = 0")
    case True
    with 1(2) have "n = 1" by simp
    then show ?thesis by (simp add: bit_length.simps [of "Suc 0"] bit_length.simps [of 0])
  next
    case False
    with 1 have "2 ^ bit_length (n div 2) \<le> 2 * (n div 2)" by auto
    then have "2 * 2 ^ bit_length (n div 2) \<le> 2 * n" by linarith
    then show ?thesis using 1(2) by (simp add: bit_length.simps [of n])
  qed
qed

lemma bit_length_le: "n < 2 ^ k \<Longrightarrow> bit_length n \<le> k"
proof (cases "n = 0")
  case False
  assume "n < 2 ^ k"
  with False bit_length_lower [of n] have "(2 :: nat) ^ bit_length n < 2 ^ Suc k" by simp
  then show "bit_length n \<le> k" by (simp add: less_Suc_eq_le del: power_Suc)
qed (simp add: bit_length.simps)

lemma rne_shift_lower: "a div 2 ^ s \<le> rne_shift a s"
  by (simp add: rne_shift_def Let_def)

lemma rne_shift_upper: "2 * (rne_shift a s * 2 ^ s) \<le> 2 * a + 2 ^ s"
proof -
  have d: "a = a div 2 ^ s * 2 ^ s + a mod 2 ^ s" by (rule div_mult_mod_eq [symmetric])
  have "rne_shift a s = a div 2 ^ s \<or> rne_shift a s = a div 2 ^ s + 1 \<and> 2 ^ s \<le> 2 * (a mod 2 ^ s)"
    by (auto simp: rne_shift_def Let_def)
  then show ?thesis
  proof (elim disjE conjE)
    assume "rne_shift a s = a div 2 ^ s"
    then have "rne_shift a s * 2 ^ s \<le> a" by simp
    then show ?thesis by simp
  next
    assume r: "rne_shift a s = a div 2 ^ s + 1" and h: "2 ^ s \<le> 2 * (a mod 2 ^ s)"
    have "rne_shift a s * 2 ^ s = a div 2 ^ s * 2 ^ s + 2 ^ s" unfolding r by (simp add: algebra_simps)
    with d h show ?thesis by linarith
  qed
qed

lemma f64_trunc_round:
  assumes "bit_length a - 53 \<le> k"
  shows "f64_trunc (f64_round a k) = (rne_shift a (bit_length a - 53) * 2 ^ (bit_length a - 53)) div 2 ^ k"
proof -
  let ?s = "bit_length a - 53"
  show ?thesis
  proof (cases "?s = k")
    case True
    then show ?thesis by (simp add: f64_trunc_def f64_round_def Let_def)
  next
    case False
    with assms have lt: "?s < k" by simp
    have "(2 :: nat) ^ k = 2 ^ ?s * 2 ^ (k - ?s)" using assms by (simp add: power_add [symmetric])
    moreover have "nat (int k - int ?s) = k - ?s" by simp
    ultimately show ?thesis
      using lt by (simp add: f64_trunc_def f64_round_def Let_def)
  qed
qed

lemma f64_of_nat_exact: "n < 2 ^ 53 \<Longrightarrow> f64_of_nat n = n"
proof -
  assume "n < 2 ^ 53"
  then have "bit_length n - 53 = 0" using bit_length_le [of n 53] by simp
  then show ?thesis
    using f64_trunc_round [of n 0] by (simp add: f64_of_nat_def rne_shift_def)
qed

lemma f64_trunc_lower:
  assumes "bit_length a - 53 \<le> k"
  shows "a div 2 ^ k \<le> f64_trunc (f64_round a k)"
proof -
  let ?s = "bit_length a - 53"
  have k: "(2 :: nat) ^ k = 2 ^ ?s * 2 ^ (k - ?s)" using assms by (simp add: power_add [symmetric])
  have "a div 2 ^ k = a div 2 ^ ?s div 2 ^ (k - ?s)" unfolding k by (rule div_mult2_eq)
  also have "\<dots> \<le> rne_shift a ?s div 2 ^ (k - ?s)" by (rule div_le_mono [OF rne_shift_lower])
  also have "\<dots> = (rne_shift a ?s * 2 ^ ?s) div 2 ^ k" unfolding k by simp
  finally show ?thesis using f64_trunc_round [OF assms] by simp
qed

lemma f64_limit_times_bounds:
  assumes "n < 2 ^ 53"
  shows "7 * n div 25 \<le> f64_limit_times n" and "f64_limit_times n \<le> 7 * n div 25 + 1"
    and "n < 2 ^ 48 \<Longrightarrow> f64_limit_times n = 7 * n div 25"
proof -
  let ?a = "limit_mantissa * n"
  let ?s = "bit_length ?a - 53"
  let ?q = "rne_shift ?a ?s * 2 ^ ?s"
  have m: "25 * limit_mantissa = 7 * 2 ^ 54 + 12" by (simp add: limit_mantissa_def)
  have bl: "bit_length ?a \<le> 53 + j" if "n < 2 ^ j" for j
  proof (rule bit_length_le)
    have "limit_mantissa * n \<le> 2 ^ 53 * n" by (simp add: limit_mantissa_def)
    also have "\<dots> < 2 ^ 53 * 2 ^ j" using that by simp
    finally show "?a < 2 ^ (53 + j)" by (simp add: power_add)
  qed
  have s: "?s \<le> j" if "n < 2 ^ j" for j using bl [OF that] by simp
  have s54: "?s \<le> 54" using s [OF assms] by simp
  have eq: "f64_limit_times n = ?q div 2 ^ 54"
    unfolding f64_limit_times_def f64_of_nat_exact [OF assms] by (rule f64_trunc_round [OF s54])
  have a: "25 * ?a = 18014398509481984 * (7 * n) + 12 * n"
    using m by (simp add: algebra_simps)
  have up: "50 * ?q \<le> 2 * (18014398509481984 * (7 * n) + 12 * n) + 25 * 2 ^ ?s"
  proof -
    have "50 * y \<le> 2 * c + 25 * z" if "2 * y \<le> 2 * x + z" and "25 * x = c" for x y z c :: nat
      using that by linarith
    from this [OF rne_shift_upper a] show ?thesis .
  qed
  have dm: "7 * n = 25 * (7 * n div 25) + 7 * n mod 25" "7 * n mod 25 \<le> 24" by simp_all
  show lower: "7 * n div 25 \<le> f64_limit_times n"
  proof -
    have "25 * (18014398509481984 * c) \<le> 25 * x"
      if "25 * x = 18014398509481984 * y + 12 * n" and "y = 25 * c + r" for x y c r :: nat
      using that by linarith
    from this [OF a dm(1)] have "7 * n div 25 * 2 ^ 54 \<le> ?a" by (simp add: mult.commute)
    then have "7 * n div 25 \<le> ?a div 2 ^ 54"
      by (metis div_le_mono nonzero_mult_div_cancel_right power_not_zero zero_neq_numeral)
    also have "\<dots> \<le> f64_limit_times n"
      unfolding f64_limit_times_def f64_of_nat_exact [OF assms] by (rule f64_trunc_lower [OF s54])
    finally show ?thesis .
  qed
  show "f64_limit_times n \<le> 7 * n div 25 + 1"
  proof -
    have "(2 :: nat) ^ ?s \<le> 2 ^ 53" using s [OF assms] by (rule power_increasing) simp
    with up assms dm have "?q < (7 * n div 25 + 2) * 2 ^ 54" by simp
    then show ?thesis unfolding eq by (simp add: less_mult_imp_div_less less_Suc_eq_le [symmetric])
  qed
  show "f64_limit_times n = 7 * n div 25" if "n < 2 ^ 48"
  proof -
    have "(2 :: nat) ^ ?s \<le> 2 ^ 48" using s [OF that] by (rule power_increasing) simp
    with up that dm have "?q < (7 * n div 25 + 1) * 2 ^ 54" by simp
    then have "f64_limit_times n < 7 * n div 25 + 1" unfolding eq by (rule less_mult_imp_div_less)
    with lower show ?thesis by simp
  qed
qed

lemma f64_quotient_exact:
  assumes "n < 2 ^ 53" and "0 < m" and "m < 2 ^ 53"
  shows "f64_quotient n m = n div m"
proof -
  define k where "k = 64 + bit_length m"
  define t where "t = (n * 2 ^ k) div m"
  define st :: nat where "st = (if (n * 2 ^ k) mod m = 0 then 0 else 1)"
  define T where "T = 2 * t + st"
  define s where "s = bit_length T - 53"
  define q where "q = rne_shift T s * 2 ^ s"
  define P :: nat where "P = 2 ^ (k + 1)"
  have P: "2 * 2 ^ k = P" by (simp add: P_def)
  have tm: "n * 2 ^ k = t * m + (n * 2 ^ k) mod m" by (simp add: t_def)
  have mm: "(n * 2 ^ k) mod m < m" using assms(2) by simp
  have Tm: "T * m \<le> n * P + m"
  proof -
    have "T * m = 2 * (t * m) + st * m" by (simp add: T_def algebra_simps)
    moreover have "2 * (t * m) \<le> n * P" using tm P by (metis le_add1 mult.left_commute mult_le_mono2)
    moreover have "st * m \<le> m" by (simp add: st_def)
    ultimately show ?thesis by linarith
  qed
  have Tl: "n div m * P \<le> T"
  proof -
    have "n div m * 2 ^ k \<le> t"
      unfolding t_def using assms(2) by (metis div_mult1_eq le_add1 mult.commute)
    then have "2 * (n div m * 2 ^ k) \<le> T" unfolding T_def by linarith
    then show ?thesis using P by (metis mult.left_commute)
  qed
  have n1: "n + 1 \<le> 2 ^ 53" using assms(1) by simp
  have bigP: "m * (2 ^ 53 + 1) < P"
  proof -
    have "m * (2 ^ 53 + 1) < 2 ^ bit_length m * (2 ^ 53 + 1)"
      using bit_length_upper [of m] by (intro mult_strict_right_mono) auto
    also have "\<dots> \<le> 2 ^ bit_length m * 2 ^ 65" by simp
    also have "\<dots> = P" by (simp add: P_def k_def power_add)
    finally show ?thesis .
  qed
  have sk: "s \<le> k + 1"
  proof -
    have "T * 1 \<le> T * m" using assms(2) by simp
    also note Tm
    finally have "T * 1 \<le> n * P + m" .
    also have "\<dots> < n * P + P" using bigP by simp
    also have "\<dots> = (n + 1) * P" by simp
    also have "\<dots> \<le> 2 ^ 53 * P" using n1 by simp
    finally have "T < 2 ^ (53 + (k + 1))" by (simp add: P_def power_add)
    then show ?thesis using bit_length_le [of T "53 + (k + 1)"] by (simp add: s_def)
  qed
  have eq: "f64_quotient n m = q div P"
    unfolding f64_quotient_def f64_of_nat_exact [OF assms(1)] f64_of_nat_exact [OF assms(3)] Let_def
      k_def [symmetric] t_def [symmetric] st_def [symmetric] T_def [symmetric]
    unfolding q_def s_def P_def by (rule f64_trunc_round) (use sk in \<open>simp add: s_def\<close>)
  have lower: "n div m * P \<le> q"
  proof -
    have "P = 2 ^ s * 2 ^ (k + 1 - s)" using sk by (simp add: P_def power_add [symmetric])
    then have e: "n div m * P = n div m * 2 ^ (k + 1 - s) * 2 ^ s" by (simp add: algebra_simps)
    with Tl have "n div m * 2 ^ (k + 1 - s) \<le> T div 2 ^ s"
      by (metis div_le_mono nonzero_mult_div_cancel_right power_not_zero zero_neq_numeral)
    then have "n div m * 2 ^ (k + 1 - s) \<le> rne_shift T s" using rne_shift_lower [of T s] by linarith
    then have "n div m * 2 ^ (k + 1 - s) * 2 ^ s \<le> q" unfolding q_def by (rule mult_le_mono1)
    then show ?thesis unfolding e .
  qed
  have small: "2 ^ s * m + 2 * m < 2 * P"
  proof (cases "s = 0")
    case True
    then show ?thesis using bigP by simp
  next
    case False
    have "0 < T"
    proof (rule ccontr)
      assume "\<not> 0 < T"
      then have "s = 0" by (simp add: s_def bit_length.simps [of 0])
      with False show False by simp
    qed
    with bit_length_lower [of T] False have "2 ^ (s + 53) \<le> 2 * T" by (simp add: s_def)
    then have "2 ^ s * 2 ^ 52 \<le> T" by (simp add: power_add)
    then have "2 ^ s * 2 ^ 52 * m \<le> T * m" by (rule mult_le_mono1)
    also note Tm
    finally have X: "2 ^ s * m * 2 ^ 52 \<le> n * P + m" by (simp add: algebra_simps)
    have chain: "x + c < b" if "x \<le> a + m" and "a + p \<le> b" and "c + m < p" for x a b c p :: nat
      using that by linarith
    have Y: "n * P + P \<le> 2 ^ 53 * P" using n1 by (metis add_mult_distrib mult_le_mono1 nat_mult_1)
    have Z: "m * 2 ^ 53 + m < P" using bigP by (simp add: algebra_simps)
    from chain [OF X Y Z] have "2 ^ s * m * 2 ^ 52 + m * 2 ^ 53 < 2 ^ 53 * P" .
    then have "(2 ^ s * m + 2 * m) * 2 ^ 52 < (2 * P) * 2 ^ 52" by (simp add: algebra_simps)
    then show ?thesis by simp
  qed
  have "q < (n div m + 1) * P"
  proof -
    have up: "2 * q \<le> 2 * T + 2 ^ s" unfolding q_def by (rule rne_shift_upper)
    have n2: "n + 1 \<le> (n div m + 1) * m"
      using assms(2) by (metis Suc_eq_plus1 Suc_leI add.commute dividend_less_times_div mult.commute mult_Suc_right)
    have "2 * q * m \<le> 2 * (T * m) + 2 ^ s * m"
      using mult_le_mono1 [OF up, of m] by (simp add: algebra_simps)
    also have "\<dots> \<le> 2 * (n * P) + 2 * m + 2 ^ s * m" using Tm by linarith
    also have "\<dots> < 2 * (n * P) + 2 * P" using small by linarith
    also have "\<dots> = 2 * ((n + 1) * P)" by simp
    also have "\<dots> \<le> 2 * ((n div m + 1) * m * P)" using mult_le_mono1 [OF n2, of P] by simp
    finally have "q * m < (n div m + 1) * P * m" by (simp add: algebra_simps)
    then show ?thesis by simp
  qed
  then have "q div P < n div m + 1" by (rule less_mult_imp_div_less)
  moreover have "n div m \<le> q div P"
    using lower by (metis P_def div_le_mono nonzero_mult_div_cancel_right power_not_zero zero_neq_numeral)
  ultimately show ?thesis unfolding eq by simp
qed

subsection \<open>What the cap does\<close>

abbreviation powers :: "Validator list \<Rightarrow> int list" where
  "powers vs \<equiv> map va_Power vs"

lemma sum_list_member_le:
  fixes xs :: "int list"
  assumes "\<And>x. x \<in> set xs \<Longrightarrow> 0 \<le> x" and "x \<in> set xs"
  shows "x \<le> sum_list xs"
  using assms
proof (induction xs)
  case (Cons y ys)
  have "0 \<le> sum_list ys" using Cons.prems by (intro sum_list_nonneg) auto
  with Cons show ?case by fastforce
qed simp

lemma power_sum_max_eq:
  assumes "\<forall>v\<in>set vs. 0 \<le> va_Power v" and "0 \<le> s" and "s + sum_list (powers vs) < 2 ^ 63"
  shows "foldl (\<lambda>(s, m) v. (i64 (s + va_Power v), if va_Power v > m then va_Power v else m)) (s, m) vs =
    (s + sum_list (powers vs), foldl max m (powers vs))"
  using assms
proof (induction vs arbitrary: s m)
  case (Cons v vs)
  have "0 \<le> sum_list (powers vs)" using Cons.prems by (intro sum_list_nonneg) auto
  moreover have "0 \<le> va_Power v" using Cons.prems by simp
  ultimately have "i64 (s + va_Power v) = s + va_Power v" using Cons.prems by (intro i64_id) auto
  with Cons \<open>0 \<le> va_Power v\<close> show ?case by (simp add: max_def)
qed simp

lemma foldl_max_le_iff: "foldl max (m :: int) xs \<le> c \<longleftrightarrow> m \<le> c \<and> (\<forall>x\<in>set xs. x \<le> c)"
  by (induction xs arbitrary: m) auto

definition cut :: "int \<Rightarrow> Validator \<Rightarrow> Validator" where
  "cut cap v = (if va_Power v > cap then v\<lparr>va_Power := cap\<rparr> else v)"

lemma cut_powers_eq:
  assumes "\<forall>v\<in>set vs. 0 \<le> va_Power v" and "0 \<le> cap" and "sum_list (powers vs) < 2 ^ 63"
  shows "cut_powers cap vs = (map (cut cap) vs, sum_list (map (\<lambda>p. max 0 (p - cap)) (powers vs)),
      length (filter (\<lambda>p. p \<le> cap) (powers vs))) \<and>
    sum_list (map (\<lambda>p. max 0 (p - cap)) (powers vs)) \<le> sum_list (powers vs)"
  using assms
proof (induction vs)
  case (Cons v vs)
  have nn: "0 \<le> sum_list (powers vs)" using Cons.prems by (intro sum_list_nonneg) auto
  have pv: "0 \<le> va_Power v" using Cons.prems by simp
  have ih: "cut_powers cap vs = (map (cut cap) vs, sum_list (map (\<lambda>p. max 0 (p - cap)) (powers vs)),
      length (filter (\<lambda>p. p \<le> cap) (powers vs)))"
    and le: "sum_list (map (\<lambda>p. max 0 (p - cap)) (powers vs)) \<le> sum_list (powers vs)"
    using Cons.IH Cons.prems pv by auto
  have ge: "0 \<le> sum_list (map (\<lambda>p. max 0 (p - cap)) (powers vs))" by (intro sum_list_nonneg) auto
  have "i64 (va_Power v - cap) = va_Power v - cap" if "va_Power v > cap"
    using that Cons.prems nn pv by (intro i64_id) auto
  moreover have "i64 (sum_list (map (\<lambda>p. max 0 (p - cap)) (powers vs)) + (va_Power v - cap)) =
      sum_list (map (\<lambda>p. max 0 (p - cap)) (powers vs)) + (va_Power v - cap)" if "va_Power v > cap"
    using that Cons.prems nn pv le ge by (intro i64_id) auto
  ultimately show ?case using ih le pv Cons.prems(2) by (auto simp: cut_def Let_def)
qed simp

lemma capped_sum:
  fixes ps :: "int list"
  assumes "0 \<le> b" and "b * int (length (filter (\<lambda>p. p \<le> cap) ps)) \<le> sum_list (map (\<lambda>p. max 0 (p - cap)) ps)"
  shows "sum_list (map (\<lambda>p. min cap (p + b)) ps) \<le> sum_list ps"
proof -
  have "sum_list (map (\<lambda>p. min cap (p + b)) ps) \<le>
      sum_list ps - sum_list (map (\<lambda>p. max 0 (p - cap)) ps) + b * int (length (filter (\<lambda>p. p \<le> cap) ps))"
    by (induction ps) (auto simp: algebra_simps min_def max_def)
  with assms(2) show ?thesis by linarith
qed

lemma under_count_pos:
  fixes ps :: "int list"
  assumes "4 \<le> length ps" and "\<And>p. p \<in> set ps \<Longrightarrow> 0 \<le> p" and "7 * sum_list ps div 25 \<le> cap"
  shows "\<exists>p\<in>set ps. p \<le> cap"
proof (rule ccontr)
  assume "\<not> (\<exists>p\<in>set ps. p \<le> cap)"
  then have "\<forall>p\<in>set ps. cap + 1 \<le> p" by force
  then have "int (length ps) * (cap + 1) \<le> sum_list ps"
    by (induction ps) (auto simp: algebra_simps)
  moreover have nn: "0 \<le> sum_list ps" using assms(2) by (intro sum_list_nonneg) auto
  then have c0: "0 \<le> cap" using assms(3) pos_imp_zdiv_nonneg_iff [of 25 "7 * sum_list ps"] by linarith
  then have "4 * (cap + 1) \<le> int (length ps) * (cap + 1)" using assms(1) by (intro mult_right_mono) auto
  ultimately have four: "4 * (cap + 1) \<le> sum_list ps" by linarith
  have "x < 25 * (c + 1)" if "x div 25 \<le> c" for x c :: int using that by presburger
  from this [OF assms(3)] have "7 * sum_list ps < 25 * (cap + 1)" .
  with four c0 show False by simp
qed

text \<open>Capping is cutting every power to the cap after adding the boost.\<close>

lemma applyPowerCap_eq:
  fixes vs :: "Validator list"
  defines "S \<equiv> sum_list (powers vs)"
  defines "cap \<equiv> int (f64_limit_times (nat S))"
  assumes four: "4 \<le> length vs" and nonneg: "\<And>v. v \<in> set vs \<Longrightarrow> 0 \<le> va_Power v" and small: "S < 2 ^ 53"
    and many: "length vs < 2 ^ 53"
  obtains b where "0 \<le> b" and "map va_PubKey (applyPowerCap vs) = map va_PubKey vs"
    and "powers (applyPowerCap vs) = map (\<lambda>p. min cap (p + b)) (powers vs)"
    and "sum_list (powers (applyPowerCap vs)) \<le> S"
proof -
  have nn: "\<And>p. p \<in> set (powers vs) \<Longrightarrow> 0 \<le> p" using nonneg by auto
  have S0: "0 \<le> S" unfolding S_def using nn by (intro sum_list_nonneg) auto
  have psm: "power_sum_max vs = (S, foldl max 0 (powers vs))"
    unfolding power_sum_max_def S_def using small by (subst power_sum_max_eq) (auto simp: nonneg S_def)
  have mip: "maximumIndividualPower S = cap"
    using S0 by (simp add: maximumIndividualPower_def signed_op_def cap_def)
  have cap0: "0 \<le> cap" by (simp add: cap_def)
  show thesis
  proof (cases "foldl max 0 (powers vs) > cap")
    case False
    then have le: "\<forall>p\<in>set (powers vs). p \<le> cap" using foldl_max_le_iff [of 0 "powers vs" cap] by simp
    have eq: "applyPowerCap vs = vs" using four False psm mip by (simp add: applyPowerCap_def)
    have "map (\<lambda>p. min cap (p + 0)) (powers vs) = powers vs" using le by (auto intro!: map_idI)
    with eq show thesis by (intro that [of 0]) (auto simp: S_def)
  next
    case True
    let ?extra = "sum_list (map (\<lambda>p. max 0 (p - cap)) (powers vs))"
    let ?under = "length (filter (\<lambda>p. p \<le> cap) (powers vs))"
    have small63: "sum_list (powers vs) < 2 ^ 63" using small S_def by simp
    have cp: "cut_powers cap vs = (map (cut cap) vs, ?extra, ?under)" and el: "?extra \<le> S"
      using cut_powers_eq [OF _ cap0 small63] nonneg by (simp_all add: S_def)
    have e0: "0 \<le> ?extra" by (intro sum_list_nonneg) auto
    have "7 * S div 25 \<le> cap"
    proof -
      have "nat S < 2 ^ 53" using small S0 by (simp add: nat_less_iff)
      from f64_limit_times_bounds(1) [OF this] have "int (7 * nat S div 25) \<le> cap" by (simp add: cap_def)
      then show ?thesis using S0 by (simp add: zdiv_int)
    qed
    then have "\<exists>p\<in>set (powers vs). p \<le> cap"
      using under_count_pos [of "powers vs" cap] four nn by (simp add: S_def)
    then have u: "0 < ?under" by (auto simp: filter_empty_conv simp flip: length_greater_0_conv)
    have u53: "?under < 2 ^ 53" using many le_less_trans [OF length_filter_le] by fastforce
    define b where "b = signed_op (\<lambda>n. f64_quotient n ?under) ?extra"
    have "nat ?extra < 2 ^ 53" using el small e0 by (simp add: nat_less_iff)
    from f64_quotient_exact [OF this u u53] have b: "b = ?extra div int ?under"
      using e0 by (simp add: b_def signed_op_def zdiv_int)
    have b0: "0 \<le> b" unfolding b using e0 u by (simp add: pos_imp_zdiv_nonneg_iff)
    have bu: "b * int ?under \<le> ?extra" unfolding b using u by (simp add: minus_mod_eq_div_mult [symmetric])
    have bS: "b \<le> S"
    proof -
      have "1 \<le> int ?under" using u by linarith
      from mult_left_mono [OF this b0] have "b * 1 \<le> b * int ?under" .
      with bu el show ?thesis by linarith
    qed
    have eq: "applyPowerCap vs = map (\<lambda>v. boost_power cap b (cut cap v)) vs"
      using four True psm mip cp u by (simp add: applyPowerCap_def b_def o_def)
    have pw: "va_Power (boost_power cap b (cut cap v)) = min cap (va_Power v + b)" if "v \<in> set vs" for v
    proof -
      have "va_Power v \<le> S" unfolding S_def using nn that by (intro sum_list_member_le) auto
      then have "i64 (va_Power v + b) = va_Power v + b"
        using bS b0 small nonneg [OF that] by (intro i64_id) auto
      then show ?thesis using b0 by (auto simp: boost_power_def cut_def min_def)
    qed
    have pws: "powers (applyPowerCap vs) = map (\<lambda>p. min cap (p + b)) (powers vs)"
      unfolding eq using pw by simp
    show thesis
    proof (rule that [OF b0 _ pws])
      show "map va_PubKey (applyPowerCap vs) = map va_PubKey vs"
        unfolding eq by (simp add: boost_power_def cut_def o_def)
      show "sum_list (powers (applyPowerCap vs)) \<le> S"
        unfolding pws S_def by (rule capped_sum [OF b0 bu])
    qed
  qed
qed

section \<open>Properties\<close>

text \<open>C38: The power cap. For at least four validators with non-negative powers whose sum fits a
  float64 exactly, applyPowerCap keeps the validators and their order, leaves no power above 28
  percent of the original sum (exactly for sums below 2^48, otherwise at most one unit more, from
  the floating point product), never increases the total, keeps powers non-negative, and never
  inverts the order of two validators.\<close>

theorem power_cap:
  assumes "4 \<le> length vs" and "length vs < 2 ^ 53" and "\<And>v. v \<in> set vs \<Longrightarrow> 0 \<le> va_Power v"
    and "sum_list (powers vs) < 2 ^ 53"
  shows "map va_PubKey (applyPowerCap vs) = map va_PubKey vs \<and>
    sum_list (powers (applyPowerCap vs)) \<le> sum_list (powers vs) \<and>
    (\<forall>p\<in>set (powers (applyPowerCap vs)). 0 \<le> p \<and> p \<le> 28 * sum_list (powers vs) div 100 + 1 \<and>
      (sum_list (powers vs) < 2 ^ 48 \<longrightarrow> p \<le> 28 * sum_list (powers vs) div 100)) \<and>
    (\<forall>i<length vs. \<forall>j<length vs. va_Power (vs ! i) \<le> va_Power (vs ! j) \<longrightarrow>
      va_Power (applyPowerCap vs ! i) \<le> va_Power (applyPowerCap vs ! j))"
proof -
  let ?S = "sum_list (powers vs)"
  let ?cap = "int (f64_limit_times (nat ?S))"
  obtain b where b: "0 \<le> b" "map va_PubKey (applyPowerCap vs) = map va_PubKey vs"
    "powers (applyPowerCap vs) = map (\<lambda>p. min ?cap (p + b)) (powers vs)"
    "sum_list (powers (applyPowerCap vs)) \<le> ?S"
    using applyPowerCap_eq [OF assms(1,3,4,2)] by blast
  have nn: "\<And>p. p \<in> set (powers vs) \<Longrightarrow> 0 \<le> p" using assms(3) by auto
  have S0: "0 \<le> ?S" using nn by (intro sum_list_nonneg) auto
  have frac: "28 * ?S div 100 = 7 * ?S div 25"
  proof -
    have "28 * ?S = 4 * (7 * ?S)" and "(100 :: int) = 4 * 25" by simp_all
    then show ?thesis by (metis div_mult_mult1 zero_neq_numeral)
  qed
  have lt: "nat ?S < 2 ^ 53" using assms(4) S0 by (simp add: nat_less_iff)
  have cap1: "?cap \<le> 28 * ?S div 100 + 1"
    unfolding frac using f64_limit_times_bounds(2) [OF lt] S0 by (simp add: zdiv_int flip: of_nat_le_iff)
  have cap2: "?cap \<le> 28 * ?S div 100" if "?S < 2 ^ 48"
  proof -
    have "nat ?S < 2 ^ 48" using that S0 by (simp add: nat_less_iff)
    from f64_limit_times_bounds(3) [OF lt this] show ?thesis unfolding frac using S0 by (simp add: zdiv_int)
  qed
  have len: "length (applyPowerCap vs) = length vs" using b(2) by (metis length_map)
  have nth: "va_Power (applyPowerCap vs ! i) = min ?cap (va_Power (vs ! i) + b)" if "i < length vs" for i
  proof -
    have "va_Power (applyPowerCap vs ! i) = powers (applyPowerCap vs) ! i" using that len by simp
    also have "\<dots> = min ?cap (va_Power (vs ! i) + b)" unfolding b(3) using that by simp
    finally show ?thesis .
  qed
  have "\<forall>p\<in>set (powers (applyPowerCap vs)). 0 \<le> p \<and> p \<le> ?cap"
    unfolding b(3) using nn b(1) by auto
  with cap1 cap2 have "\<forall>p\<in>set (powers (applyPowerCap vs)). 0 \<le> p \<and> p \<le> 28 * ?S div 100 + 1 \<and>
      (?S < 2 ^ 48 \<longrightarrow> p \<le> 28 * ?S div 100)" by force
  moreover have "\<forall>i<length vs. \<forall>j<length vs. va_Power (vs ! i) \<le> va_Power (vs ! j) \<longrightarrow>
      va_Power (applyPowerCap vs ! i) \<le> va_Power (applyPowerCap vs ! j)"
    using nth by (auto simp: min_def)
  ultimately show ?thesis using b(2,4) by blast
qed

definition demo_validators :: "int list \<Rightarrow> Validator list" where
  "demo_validators ps = map (\<lambda>p. \<lparr>va_PubKey = [of_int p], va_Power = p\<rparr>) ps"

theorem power_cap_witness:
  "list_all (\<lambda>p. p \<le> 431) (powers (applyPowerCap (demo_validators [1000, 270, 270, 0])))"
proof -
  have s: "powers (demo_validators [1000, 270, 270, 0]) = [1000, 270, 270, 0]" by (simp add: demo_validators_def)
  have "\<And>v. v \<in> set (demo_validators [1000, 270, 270, 0]) \<Longrightarrow> 0 \<le> va_Power v" by (auto simp: demo_validators_def)
  then have "\<forall>p\<in>set (powers (applyPowerCap (demo_validators [1000, 270, 270, 0]))).
      p \<le> 28 * sum_list (powers (demo_validators [1000, 270, 270, 0])) div 100"
    using power_cap [of "demo_validators [1000, 270, 270, 0]"] by (simp add: s) (simp add: demo_validators_def)
  then show ?thesis by (simp add: s list_all_iff)
qed

text \<open>The cap does not bound a validator's share of the resulting total: for the powers 1000,
  270, 270 and 0 the cap gives 431, 431, 431 and 189, so that a validator holds more than 29 percent
  of the new total of 1482, and the total has dropped from 1540.\<close>

theorem power_cap_share:
  "powers (applyPowerCap (demo_validators [1000, 270, 270, 0])) = [431, 431, 431, 189] \<and>
   29 * sum_list (powers (applyPowerCap (demo_validators [1000, 270, 270, 0]))) < 100 * 431"
proof -
  have cap: "f64_limit_times 1540 = 431" using f64_limit_times_bounds(3) [of 1540] by simp
  have q: "f64_quotient 569 3 = 189" using f64_quotient_exact [of 569 3] by simp
  let ?v = "\<lambda>p. \<lparr>va_PubKey = [of_int p], va_Power = p\<rparr>"
  have d: "demo_validators [1000, 270, 270, 0] = [?v 1000, ?v 270, ?v 270, ?v 0]"
    by (simp add: demo_validators_def)
  have s: "power_sum_max [?v 1000, ?v 270, ?v 270, ?v 0] = (1540, 1000)"
    by (simp add: power_sum_max_def i64_id)
  have c: "cut_powers 431 [?v 1000, ?v 270, ?v 270, ?v 0] =
      ([(?v 1000)\<lparr>va_Power := 431\<rparr>, ?v 270, ?v 270, ?v 0], 569, 3)"
    by (simp add: i64_id)
  have m: "maximumIndividualPower 1540 = 431"
    using cap by (simp add: maximumIndividualPower_def signed_op_def)
  have b: "signed_op (\<lambda>n. f64_quotient n 3) 569 = 189" using q by (simp add: signed_op_def)
  have "powers (applyPowerCap (demo_validators [1000, 270, 270, 0])) = [431, 431, 431, 189]"
    unfolding applyPowerCap_def d s m c b prod.case Let_def by (simp add: s m c b boost_power_def i64_id)
  then show ?thesis by simp
qed

end
