(* ===== verification/Dpos_Storage.thy ===== *)
theory Dpos_Storage
  imports Dpos_Util "HOL-Library.Multiset"
begin

text \<open>
  The storage of the staking contract, \<open>builtin/plugins/dposv3/storage.go\<close>: the list of delegation
  indices beside the delegations themselves, candidates, statistics, referrers, the state record
  and the tally of processed requests, and the comparison of two validator sets.

  A delegation is stored under its index and the local addresses of validator and delegator, which
  the code concatenates to a key; an association list keeps the stored delegations finite, as a
  store is. Local addresses have a fixed length, so that the concatenation is unambiguous.
\<close>

section \<open>State\<close>

type_synonym del_key = "u64 \<times> bytes \<times> bytes"

record DelegationIndex =
  di_Validator :: address
  di_Delegator :: address
  di_Index :: u64

record DposParams =
  pa_ValidatorCount :: u64
  pa_ElectionCycleLength :: int
  pa_MaxYearlyReward :: "int option"
  pa_RegistrationRequirement :: "int option"
  pa_CoinContractAddress :: "address option"
  pa_OracleAddress :: "address option"
  pa_CrashSlashingPercentage :: "int option"
  pa_ByzantineSlashingPercentage :: "int option"

record DposState =
  ds_Params :: DposParams
  ds_Validators :: "Validator list"
  ds_LastElectionTime :: int
  ds_TotalValidatorDelegations :: int
  ds_TotalRewardDistribution :: int

record RequestBatchTally =
  LastSeenBlockNumber :: u64
  LastSeenTxIndex :: u64
  LastSeenLogIndex :: u64

text \<open>\<open>dp_coin\<close> is the storage of the coin contract the staking contract calls.\<close>

record dpos_store =
  dp_state :: "DposState option"
  dp_candidates :: "Candidate list"
  dp_delegation_list :: "DelegationIndex list"
  dp_delegations :: "(del_key \<times> Delegation) list"
  dp_statistics :: "bytes \<rightharpoonup> ValidatorStatistic"
  dp_referrers :: "string \<rightharpoonup> address"
  dp_tally :: RequestBatchTally
  dp_coin :: coin_store

definition limboValidatorAddress :: address where
  "limboValidatorAddress = Address ''limbo'' (replicate 20 0)"

abbreviation (input) REWARD_DELEGATION_INDEX :: u64 where "REWARD_DELEGATION_INDEX \<equiv> 0"
abbreviation (input) DELEGATION_START_INDEX :: u64 where "DELEGATION_START_INDEX \<equiv> 1"

section \<open>Delegations\<close>

text \<open>
  The code joins the printed index and the two local addresses to one byte string. Local addresses
  have a fixed length, so that the joined key and the triple say the same (\<open>joined_key_parts\<close>).
\<close>

definition computeDelegationsKey :: "u64 \<Rightarrow> address \<Rightarrow> address \<Rightarrow> del_key" where
  "computeDelegationsKey index validator delegator = (index, Local validator, Local delegator)"

lemma joined_key_parts:
  assumes "inj print" and "length (Local v) = length (Local v')" and "length (Local d) = length (Local d')"
  shows "print i @ Local v @ Local d = print i' @ Local v' @ Local d' \<longleftrightarrow>
    computeDelegationsKey i v d = computeDelegationsKey i' v' d'"
  using assms by (simp add: computeDelegationsKey_def inj_eq)

definition GetDelegation :: "dpos_store \<Rightarrow> u64 \<Rightarrow> address \<Rightarrow> address \<Rightarrow> Delegation option" where
  "GetDelegation s index validator delegator =
     map_of (dp_delegations s) (computeDelegationsKey index validator delegator)"

text \<open>
  The search for a free slot has no bound in the code; it ends because only finitely many
  delegations are stored, so one more step than there are of them is enough.
\<close>

fun next_index_loop :: "nat \<Rightarrow> dpos_store \<Rightarrow> u64 \<Rightarrow> address \<Rightarrow> address \<Rightarrow> u64 res" where
  "next_index_loop 0 s index v d = Inl (Panic ''no free delegation index'')"
| "next_index_loop (Suc n) s index v d =
     (if GetDelegation s index v d = None then Inr index else next_index_loop n s (index + 1) v d)"

definition GetNextDelegationIndex :: "dpos_store \<Rightarrow> address \<Rightarrow> address \<Rightarrow> u64 res" where
  "GetNextDelegationIndex s v d = next_index_loop (Suc (length (dp_delegations s))) s DELEGATION_START_INDEX v d"

definition sortDelegations :: "DelegationIndex list \<Rightarrow> DelegationIndex list" where
  "sortDelegations dl = sort_key (\<lambda>d. (di_Validator d, di_Delegator d, di_Index d)) dl"

definition saveDelegationList :: "DelegationIndex list \<Rightarrow> dpos_store \<Rightarrow> dpos_store" where
  "saveDelegationList dl s = s\<lparr>dp_delegation_list := sortDelegations dl\<rparr>"

definition SetDelegation :: "Delegation \<Rightarrow> dpos_store \<Rightarrow> dpos_store" where
  "SetDelegation delegation s =
     (let delegations = dp_delegation_list s;
          delegationIndex = \<lparr>di_Validator = dl_Validator delegation, di_Delegator = dl_Delegator delegation,
                             di_Index = dl_Index delegation\<rparr>;
          pastvalue = GetDelegation s (dl_Index delegation) (dl_Validator delegation) (dl_Delegator delegation);
          s = (if pastvalue = None then saveDelegationList (delegations @ [delegationIndex]) s else s)
      in s\<lparr>dp_delegations := AList.update
             (computeDelegationsKey (di_Index delegationIndex) (dl_Validator delegation) (dl_Delegator delegation))
             delegation (dp_delegations s)\<rparr>)"

fun remove_first :: "('a \<Rightarrow> bool) \<Rightarrow> 'a list \<Rightarrow> 'a list" where
  "remove_first P [] = []"
| "remove_first P (x # xs) = (if P x then xs else x # remove_first P xs)"

definition DeleteDelegation :: "Delegation \<Rightarrow> dpos_store \<Rightarrow> dpos_store" where
  "DeleteDelegation delegation s =
     (let delegations = remove_first
            (\<lambda>d. Local (dl_Validator delegation) = Local (di_Validator d) \<and>
                 Local (dl_Delegator delegation) = Local (di_Delegator d)) (dp_delegation_list s);
          s = saveDelegationList delegations s
      in s\<lparr>dp_delegations := AList.delete
             (computeDelegationsKey (dl_Index delegation) (dl_Validator delegation) (dl_Delegator delegation))
             (dp_delegations s)\<rparr>)"

definition DelegationsCount :: "dpos_store \<Rightarrow> nat" where
  "DelegationsCount s = length (dp_delegation_list s)"

definition IncreaseRewardDelegation :: "address \<Rightarrow> address \<Rightarrow> int \<Rightarrow> dpos_store \<Rightarrow> dpos_store" where
  "IncreaseRewardDelegation validator delegator increase s =
     (let delegation =
            (case GetDelegation s REWARD_DELEGATION_INDEX validator delegator of
               None \<Rightarrow> \<lparr>dl_Validator = validator, dl_Delegator = delegator, dl_Index = REWARD_DELEGATION_INDEX,
                        dl_Amount = 0, dl_UpdateAmount = 0, dl_UpdateValidator = None, dl_LocktimeTier = 0,
                        dl_LockTime = 0, dl_State = BONDED, dl_Referrer = ''''\<rparr>
             | Some d \<Rightarrow> d)
      in SetDelegation (delegation\<lparr>dl_Amount := dl_Amount delegation + increase\<rparr>) s)"

section \<open>Statistics, candidates and the rest\<close>

definition GetStatistic :: "dpos_store \<Rightarrow> address \<Rightarrow> ValidatorStatistic option" where
  "GetStatistic s a = dp_statistics s (Local a)"

definition GetStatisticByAddressBytes :: "dpos_store \<Rightarrow> bytes \<Rightarrow> ValidatorStatistic option" where
  "GetStatisticByAddressBytes s b = dp_statistics s b"

definition SetStatistic :: "ValidatorStatistic \<Rightarrow> dpos_store \<Rightarrow> dpos_store" where
  "SetStatistic st s = s\<lparr>dp_statistics := (dp_statistics s)(Local (st_Address st) \<mapsto> st)\<rparr>"

definition CandidateList_Get :: "Candidate list \<Rightarrow> address \<Rightarrow> Candidate option" where
  "CandidateList_Get c addr = find (\<lambda>cand. Local (cd_Address cand) = Local addr) c"

definition GetCandidate :: "dpos_store \<Rightarrow> address \<Rightarrow> Candidate option" where
  "GetCandidate s addr = find (\<lambda>cand. Local (cd_Address cand) = Local addr) (dp_candidates s)"

definition GetCandidateByPubKey :: "dpos_store \<Rightarrow> bytes \<Rightarrow> Candidate option" where
  "GetCandidateByPubKey s pubkey = find (\<lambda>cand. cd_PubKey cand = pubkey) (dp_candidates s)"

text \<open>
  The loop of \<open>Set\<close> assigns to its own variable, so a candidate that is already listed is left as
  it is.
\<close>

definition CandidateList_Set :: "Candidate list \<Rightarrow> Candidate \<Rightarrow> Candidate list" where
  "CandidateList_Set c cand =
     (if list_ex (\<lambda>candidate. Local (cd_Address cand) = Local (cd_Address candidate)) c then c
      else c @ [cand])"

definition CandidateList_Delete :: "Candidate list \<Rightarrow> address \<Rightarrow> Candidate list" where
  "CandidateList_Delete c addr = remove_first (\<lambda>cand. Local (cd_Address cand) = Local addr) c"

definition sortCandidates :: "Candidate list \<Rightarrow> Candidate list" where
  "sortCandidates cands = sort_key (\<lambda>c. Local (cd_Address c)) cands"

definition saveCandidateList :: "Candidate list \<Rightarrow> dpos_store \<Rightarrow> dpos_store" where
  "saveCandidateList cl s = s\<lparr>dp_candidates := sortCandidates cl\<rparr>"

definition update_candidate :: "Candidate \<Rightarrow> Candidate" where
  "update_candidate c =
     (case cd_State c of
        ABOUT_TO_CHANGE_FEE \<Rightarrow> c\<lparr>cd_State := CHANGING_FEE\<rparr>
      | CHANGING_FEE \<Rightarrow> c\<lparr>cd_Fee := cd_NewFee c, cd_State := REGISTERED\<rparr>
      | _ \<Rightarrow> c)"

definition updateCandidateList :: "dpos_store \<Rightarrow> dpos_store" where
  "updateCandidateList s =
     (let deleteList = map cd_Address (filter (\<lambda>c. cd_State c = UNREGISTERING) (dp_candidates s));
          candidates = map update_candidate (dp_candidates s);
          candidates = foldl CandidateList_Delete candidates deleteList
      in saveCandidateList candidates s)"

definition GetReferrer :: "dpos_store \<Rightarrow> string \<Rightarrow> address option" where
  "GetReferrer s name = dp_referrers s name"

definition SetReferrer :: "string \<Rightarrow> address \<Rightarrow> dpos_store \<Rightarrow> dpos_store" where
  "SetReferrer name a s = s\<lparr>dp_referrers := (dp_referrers s)(name \<mapsto> a)\<rparr>"

definition sortValidators :: "Validator list \<Rightarrow> Validator list" where
  "sortValidators vs = sort_key va_PubKey vs"

definition saveState :: "DposState \<Rightarrow> dpos_store \<Rightarrow> dpos_store" where
  "saveState st s = s\<lparr>dp_state := Some (st\<lparr>ds_Validators := sortValidators (ds_Validators st)\<rparr>)\<rparr>"

definition loadState :: "dpos_store \<Rightarrow> DposState res" where
  "loadState s = (case dp_state s of None \<Rightarrow> Inl ErrNotFound | Some st \<Rightarrow> Inr st)"

record DelegationResult =
  dr_ValidatorAddress :: address
  dr_DelegationTotal :: int

text \<open>\<open>byDelegationTotal\<close>: largest total first, the larger address first among equals.\<close>

definition sortResults :: "DelegationResult list \<Rightarrow> DelegationResult list" where
  "sortResults rs = rev (sort_key (\<lambda>r. (dr_DelegationTotal r, dr_ValidatorAddress r)) rs)"

fun MissingValidators :: "Validator list \<Rightarrow> Validator list \<Rightarrow> Validator list" where
  "MissingValidators [] current = []"
| "MissingValidators (f # former) [] = f # former"
| "MissingValidators (f # former) (c # current) =
     (if va_PubKey f < va_PubKey c then f # MissingValidators former (c # current)
      else if va_PubKey f = va_PubKey c then MissingValidators former current
      else MissingValidators (f # former) current)"

lemmas dpos_storage_defs =
  GetDelegation_def SetDelegation_def DeleteDelegation_def saveDelegationList_def
  computeDelegationsKey_def

section \<open>Reading and writing delegations\<close>

definition key_of :: "Delegation \<Rightarrow> del_key" where
  "key_of d = computeDelegationsKey (dl_Index d) (dl_Validator d) (dl_Delegator d)"

definition index_key :: "DelegationIndex \<Rightarrow> del_key" where
  "index_key i = computeDelegationsKey (di_Index i) (di_Validator i) (di_Delegator i)"

lemma Set_frame [simp]:
  "dp_state (SetDelegation d s) = dp_state s"
  "dp_candidates (SetDelegation d s) = dp_candidates s"
  "dp_statistics (SetDelegation d s) = dp_statistics s"
  "dp_referrers (SetDelegation d s) = dp_referrers s"
  "dp_tally (SetDelegation d s) = dp_tally s"
  "dp_coin (SetDelegation d s) = dp_coin s"
  by (simp_all add: SetDelegation_def saveDelegationList_def Let_def)

lemma Delete_frame [simp]:
  "dp_state (DeleteDelegation d s) = dp_state s"
  "dp_candidates (DeleteDelegation d s) = dp_candidates s"
  "dp_statistics (DeleteDelegation d s) = dp_statistics s"
  "dp_referrers (DeleteDelegation d s) = dp_referrers s"
  "dp_tally (DeleteDelegation d s) = dp_tally s"
  "dp_coin (DeleteDelegation d s) = dp_coin s"
  by (simp_all add: DeleteDelegation_def saveDelegationList_def Let_def)

lemma dp_delegations_Set:
  "dp_delegations (SetDelegation d s) = AList.update (key_of d) d (dp_delegations s)"
  by (simp add: SetDelegation_def saveDelegationList_def key_of_def Let_def)

lemma dp_delegations_Delete:
  "dp_delegations (DeleteDelegation d s) = AList.delete (key_of d) (dp_delegations s)"
  by (simp add: DeleteDelegation_def saveDelegationList_def key_of_def Let_def)

lemma GetDelegation_Set [store_simps]:
  "GetDelegation (SetDelegation d s) i v w =
     (if computeDelegationsKey i v w = key_of d then Some d else GetDelegation s i v w)"
  by (simp add: GetDelegation_def dp_delegations_Set update_conv')

lemma GetDelegation_Delete [store_simps]:
  "GetDelegation (DeleteDelegation d s) i v w =
     (if computeDelegationsKey i v w = key_of d then None else GetDelegation s i v w)"
  by (auto simp: GetDelegation_def dp_delegations_Delete delete_conv')

text \<open>
  The list of indices and the stored delegations agree: the list is sorted and names every stored
  delegation exactly once, and each delegation is stored under its own key.
\<close>

definition delegations_ok :: "dpos_store \<Rightarrow> bool" where
  "delegations_ok s \<longleftrightarrow>
     distinct (map index_key (dp_delegation_list s)) \<and>
     sorted (map (\<lambda>d. (di_Validator d, di_Delegator d, di_Index d)) (dp_delegation_list s)) \<and>
     distinct (map fst (dp_delegations s)) \<and>
     (\<forall>k d. map_of (dp_delegations s) k = Some d \<longrightarrow> key_of d = k) \<and>
     set (map index_key (dp_delegation_list s)) = dom (map_of (dp_delegations s))"

lemma distinct_map_sort_key: "distinct (map g (sort_key f xs)) \<longleftrightarrow> distinct (map g xs)"
  using mset_sort [of f xs] by (metis mset_map mset_eq_imp_distinct_iff)

lemma list_Set:
  "dp_delegation_list (SetDelegation d s) =
     (if map_of (dp_delegations s) (key_of d) = None
      then sortDelegations (dp_delegation_list s @
        [\<lparr>di_Validator = dl_Validator d, di_Delegator = dl_Delegator d, di_Index = dl_Index d\<rparr>])
      else dp_delegation_list s)"
  by (simp add: SetDelegation_def saveDelegationList_def GetDelegation_def key_of_def Let_def)

lemma SetDelegation_ok:
  assumes "delegations_ok s"
  shows "delegations_ok (SetDelegation d s)"
proof -
  let ?i = "\<lparr>di_Validator = dl_Validator d, di_Delegator = dl_Delegator d, di_Index = dl_Index d\<rparr>"
  have k: "index_key ?i = key_of d" by (simp add: index_key_def key_of_def)
  have ok: "distinct (map index_key (dp_delegation_list s))"
    "sorted (map (\<lambda>d. (di_Validator d, di_Delegator d, di_Index d)) (dp_delegation_list s))"
    "distinct (map fst (dp_delegations s))"
    "\<forall>k d. map_of (dp_delegations s) k = Some d \<longrightarrow> key_of d = k"
    "index_key ` set (dp_delegation_list s) = dom (map_of (dp_delegations s))"
    using assms by (simp_all add: delegations_ok_def)
  have new: "key_of d \<notin> index_key ` set (dp_delegation_list s)" if "map_of (dp_delegations s) (key_of d) = None"
    using ok(5) that by auto
  have "distinct (map index_key (dp_delegation_list (SetDelegation d s)))"
    using ok(1) new k by (auto simp: list_Set sortDelegations_def distinct_map_sort_key)
  moreover have "sorted (map (\<lambda>d. (di_Validator d, di_Delegator d, di_Index d)) (dp_delegation_list (SetDelegation d s)))"
    using ok(2) by (simp add: list_Set sortDelegations_def)
  moreover have "distinct (map fst (dp_delegations (SetDelegation d s)))"
    using ok(3) by (simp add: dp_delegations_Set distinct_update)
  moreover have "\<forall>k d'. map_of (dp_delegations (SetDelegation d s)) k = Some d' \<longrightarrow> key_of d' = k"
    using ok(4) by (auto simp: dp_delegations_Set update_conv')
  moreover have "index_key ` set (dp_delegation_list (SetDelegation d s)) =
      dom (map_of (dp_delegations (SetDelegation d s)))"
    using ok(5) k by (auto simp: list_Set sortDelegations_def dp_delegations_Set update_conv')
  ultimately show ?thesis by (simp add: delegations_ok_def)
qed

lemma set_remove_first_unique:
  assumes "distinct xs" and "x \<in> set xs" and "P x" and "\<forall>y\<in>set xs. P y \<longrightarrow> y = x"
  shows "set (remove_first P xs) = set xs - {x}"
  using assms
proof (induction xs)
  case (Cons a xs)
  show ?case
  proof (cases "P a")
    case True
    then have "a = x" using Cons.prems(4) by simp
    with True Cons.prems(1) show ?thesis by simp
  next
    case False
    then have ne: "a \<noteq> x" using Cons.prems(3) by blast
    have "set (remove_first P xs) = set xs - {x}"
    proof (rule Cons.IH)
      show "\<forall>y\<in>set xs. P y \<longrightarrow> y = x" using Cons.prems(4) by (simp only: set_simps) blast
      show "distinct xs" using Cons.prems(1) by simp
      show "x \<in> set xs" using Cons.prems(2) ne by simp
    qed (rule Cons.prems(3))
    then show ?thesis using False ne by (simp add: insert_Diff_if)
  qed
qed simp

lemma set_remove_first: "set (remove_first P xs) \<subseteq> set xs"
  by (induction xs) auto

lemma distinct_remove_first: "distinct (map f xs) \<Longrightarrow> distinct (map f (remove_first P xs))"
proof (induction xs)
  case (Cons a xs)
  have "f ` set (remove_first P xs) \<subseteq> f ` set xs" by (rule image_mono [OF set_remove_first])
  with Cons show ?case by auto
qed simp

lemma sorted_remove_first: "sorted (map g xs) \<Longrightarrow> sorted (map g (remove_first P xs))"
proof (induction xs)
  case (Cons a xs)
  have "g ` set (remove_first P xs) \<subseteq> g ` set xs" by (rule image_mono [OF set_remove_first])
  with Cons show ?case by (auto simp: image_subset_iff)
qed simp

lemma sortDelegations_id:
  "sorted (map (\<lambda>d. (di_Validator d, di_Delegator d, di_Index d)) xs) \<Longrightarrow> sortDelegations xs = xs"
  unfolding sortDelegations_def by (rule sort_key_id_if_sorted)

text \<open>Deleting keeps the agreement when the delegator has no other delegation to the validator.\<close>

lemma DeleteDelegation_ok:
  assumes "delegations_ok s" and "GetDelegation s (dl_Index d) (dl_Validator d) (dl_Delegator d) \<noteq> None"
    and only: "\<And>i. GetDelegation s i (dl_Validator d) (dl_Delegator d) \<noteq> None \<Longrightarrow> i = dl_Index d"
  shows "delegations_ok (DeleteDelegation d s)"
proof -
  let ?P = "\<lambda>e. Local (dl_Validator d) = Local (di_Validator e) \<and> Local (dl_Delegator d) = Local (di_Delegator e)"
  let ?l = "dp_delegation_list s"
  have ok: "distinct (map index_key ?l)"
    "sorted (map (\<lambda>d. (di_Validator d, di_Delegator d, di_Index d)) ?l)"
    "distinct (map fst (dp_delegations s))"
    "\<forall>k d. map_of (dp_delegations s) k = Some d \<longrightarrow> key_of d = k"
    "index_key ` set ?l = dom (map_of (dp_delegations s))"
    using assms(1) by (simp_all add: delegations_ok_def)
  have lst: "dp_delegation_list (DeleteDelegation d s) = remove_first ?P ?l"
    using sortDelegations_id [OF sorted_remove_first [OF ok(2)]]
    by (simp add: DeleteDelegation_def saveDelegationList_def Let_def)
  have "key_of d \<in> index_key ` set ?l"
    using assms(2) unfolding ok(5) by (auto simp: GetDelegation_def key_of_def)
  then obtain e where e: "e \<in> set ?l" "index_key e = key_of d" by auto
  have eP: "?P e" using e(2) by (simp add: index_key_def key_of_def computeDelegationsKey_def)
  have uniq: "y = e" if "y \<in> set ?l" and "?P y" for y
  proof -
    have "index_key y \<in> dom (map_of (dp_delegations s))" using that(1) ok(5) by auto
    then have "GetDelegation s (di_Index y) (dl_Validator d) (dl_Delegator d) \<noteq> None"
      using that(2) by (auto simp: GetDelegation_def index_key_def computeDelegationsKey_def)
    from only [OF this] that(2) have "index_key y = index_key e"
      unfolding e(2) by (simp add: index_key_def key_of_def computeDelegationsKey_def)
    then show ?thesis using ok(1) that(1) e(1) by (auto simp: distinct_map inj_on_eq_iff)
  qed
  have "set (remove_first ?P ?l) = set ?l - {e}"
  proof (rule set_remove_first_unique)
    show "distinct ?l" using ok(1) by (simp add: distinct_map)
    show "\<forall>y\<in>set ?l. ?P y \<longrightarrow> y = e" using uniq by blast
  qed (use e(1) eP in auto)
  moreover have inj: "inj_on index_key (set ?l)" using ok(1) by (simp add: distinct_map)
  then have "index_key ` (set ?l - {e}) = index_key ` set ?l - index_key ` {e}"
    using e(1) by (intro inj_on_image_set_diff) auto
  ultimately have keys: "index_key ` set (remove_first ?P ?l) = index_key ` set ?l - {key_of d}"
    using e(2) by simp
  have "dom (map_of (AList.delete (key_of d) (dp_delegations s))) = dom (map_of (dp_delegations s)) - {key_of d}"
    by (auto simp: delete_conv' split: if_splits)
  moreover have "\<forall>k e. map_of (AList.delete (key_of d) (dp_delegations s)) k = Some e \<longrightarrow> key_of e = k"
    using ok(4) by (simp add: delete_conv')
  moreover have "distinct (map fst (AList.delete (key_of d) (dp_delegations s)))"
    using ok(3) by (rule distinct_delete)
  ultimately show ?thesis
    unfolding delegations_ok_def lst dp_delegations_Delete set_map keys ok(5)
    using distinct_remove_first [OF ok(1)] sorted_remove_first [OF ok(2)] by blast
qed

section \<open>Free slots\<close>

lemma next_index_loop_cases:
  "(\<exists>k<n. next_index_loop n s i v d = Inr (i + of_nat k) \<and> GetDelegation s (i + of_nat k) v d = None \<and>
      (\<forall>j<k. GetDelegation s (i + of_nat j) v d \<noteq> None)) \<or>
   (\<forall>k<n. GetDelegation s (i + of_nat k) v d \<noteq> None)"
proof (induction n arbitrary: i)
  case 0
  then show ?case by simp
next
  case (Suc n)
  show ?case
  proof (cases "GetDelegation s i v d = None")
    case True
    then show ?thesis by (intro disjI1 exI [of _ 0]) simp
  next
    case False
    have shift: "i + of_nat (Suc k) = i + 1 + of_nat k" for k by simp
    from Suc [of "i + 1"] show ?thesis
    proof
      assume "\<exists>k<n. next_index_loop n s (i + 1) v d = Inr (i + 1 + of_nat k) \<and>
          GetDelegation s (i + 1 + of_nat k) v d = None \<and> (\<forall>j<k. GetDelegation s (i + 1 + of_nat j) v d \<noteq> None)"
      then obtain k where k: "k < n" "next_index_loop n s (i + 1) v d = Inr (i + of_nat (Suc k))"
        "GetDelegation s (i + of_nat (Suc k)) v d = None"
        "\<forall>j<k. GetDelegation s (i + of_nat (Suc j)) v d \<noteq> None" unfolding shift by blast
      have "\<forall>j<Suc k. GetDelegation s (i + of_nat j) v d \<noteq> None"
      proof (intro allI impI)
        fix j
        assume "j < Suc k"
        then show "GetDelegation s (i + of_nat j) v d \<noteq> None"
          using False k(4) by (cases j) (simp_all del: of_nat_Suc)
      qed
      moreover have "next_index_loop (Suc n) s i v d = Inr (i + of_nat (Suc k))" using k(2) False by auto
      ultimately show ?thesis using k(1,3) by (intro disjI1 exI [of _ "Suc k"]) simp
    next
      assume "\<forall>k<n. GetDelegation s (i + 1 + of_nat k) v d \<noteq> None"
      then have later: "\<forall>k<n. GetDelegation s (i + of_nat (Suc k)) v d \<noteq> None" unfolding shift .
      have "GetDelegation s (i + of_nat k) v d \<noteq> None" if "k < Suc n" for k
        using that False later
        by (cases k) (simp_all del: of_nat_Suc)
      then show ?thesis by blast
    qed
  qed
qed

lemma not_all_taken:
  assumes "length (dp_delegations s) < 2 ^ 64"
  shows "\<exists>k\<le>length (dp_delegations s). GetDelegation s (i + of_nat k) v d = None"
proof (rule ccontr)
  let ?n = "Suc (length (dp_delegations s))"
  let ?f = "\<lambda>k. (i + of_nat k :: u64, Local v, Local d)"
  assume "\<not> ?thesis"
  then have "\<forall>k<?n. GetDelegation s (i + of_nat k) v d \<noteq> None" by (simp add: less_Suc_eq_le)
  then have "\<forall>k<?n. ?f k \<in> fst ` set (dp_delegations s)"
    by (simp add: GetDelegation_def computeDelegationsKey_def map_of_eq_None_iff)
  then have sub: "?f ` {..<?n} \<subseteq> fst ` set (dp_delegations s)" by blast
  have "inj_on ?f {..<?n}"
  proof (rule inj_onI)
    fix a b
    assume "a \<in> {..<?n}" "b \<in> {..<?n}" "?f a = ?f b"
    then have "(of_nat a :: u64) = of_nat b" "a < 2 ^ 64" "b < 2 ^ 64" using assms by auto
    then have "unat (of_nat a :: u64) = unat (of_nat b :: u64)" by simp
    with \<open>a < 2 ^ 64\<close> \<open>b < 2 ^ 64\<close> show "a = b" by (simp add: unat_of_nat)
  qed
  then have "card (?f ` {..<?n}) = ?n" by (simp only: card_image card_lessThan)
  with card_mono [OF _ sub] have "?n \<le> card (fst ` set (dp_delegations s))" by simp
  also have "\<dots> \<le> length (dp_delegations s)"
    using card_image_le [of "set (dp_delegations s)" fst] card_length [of "dp_delegations s"] by simp
  finally show False by simp
qed

lemma GetNextDelegationIndex_total:
  assumes "length (dp_delegations s) < 2 ^ 64"
  obtains k where "GetNextDelegationIndex s v d = Inr (1 + of_nat k)" and "k \<le> length (dp_delegations s)"
    and "GetDelegation s (1 + of_nat k) v d = None"
    and "\<And>j. j < k \<Longrightarrow> GetDelegation s (1 + of_nat j) v d \<noteq> None"
proof -
  obtain k0 where "k0 < Suc (length (dp_delegations s))" "GetDelegation s (1 + of_nat k0) v d = None"
    using not_all_taken [OF assms, of 1 v d] by (auto simp: less_Suc_eq_le)
  with next_index_loop_cases [of "Suc (length (dp_delegations s))" s 1 v d]
  obtain k where "k < Suc (length (dp_delegations s))"
    "next_index_loop (Suc (length (dp_delegations s))) s 1 v d = Inr (1 + of_nat k)"
    "GetDelegation s (1 + of_nat k) v d = None" "\<forall>j<k. GetDelegation s (1 + of_nat j) v d \<noteq> None" by blast
  then show thesis by (intro that [of k]) (simp_all add: GetNextDelegationIndex_def del: next_index_loop.simps)
qed

section \<open>Comparing validator sets\<close>

lemma MissingValidators_eq:
  assumes "sorted_wrt (\<lambda>a b. va_PubKey a < va_PubKey b) former" and "sorted_wrt (\<lambda>a b. va_PubKey a < va_PubKey b) current"
  shows "MissingValidators former current = filter (\<lambda>v. va_PubKey v \<notin> va_PubKey ` set current) former"
  using assms
proof (induction former current rule: MissingValidators.induct)
  case (3 f former c current)
  consider (lt) "va_PubKey f < va_PubKey c" | (eq) "va_PubKey f = va_PubKey c" | (gt) "va_PubKey c < va_PubKey f"
    by (metis linorder_less_linear)
  then show ?case
  proof cases
    case lt
    then have "va_PubKey f \<notin> va_PubKey ` set (c # current)"
      using "3.prems"(2) by (auto dest: order.strict_trans)
    with lt 3 show ?thesis by simp
  next
    case eq
    have "filter (\<lambda>v. va_PubKey v \<notin> va_PubKey ` set (c # current)) former =
        filter (\<lambda>v. va_PubKey v \<notin> va_PubKey ` set current) former"
      using "3.prems"(1) eq by (intro filter_cong) auto
    with eq 3 show ?thesis by simp
  next
    case gt
    have "filter (\<lambda>v. va_PubKey v \<notin> va_PubKey ` set (c # current)) (f # former) =
        filter (\<lambda>v. va_PubKey v \<notin> va_PubKey ` set current) (f # former)"
      using "3.prems"(1) gt by (intro filter_cong) auto
    moreover have "\<not> va_PubKey f < va_PubKey c" and "va_PubKey f \<noteq> va_PubKey c" using gt by auto
    moreover from this have "MissingValidators (f # former) current =
        filter (\<lambda>v. va_PubKey v \<notin> va_PubKey ` set current) (f # former)"
      using 3 by (intro "3.IH"(3)) auto
    ultimately show ?thesis by simp
  qed
qed simp_all

lemma kept_by_remove_first:
  assumes "sorted (map g xs)" and "e \<in> set xs" and "y \<in> set xs" and "P y" and "g y < g e"
  shows "e \<in> set (remove_first P xs)"
  using assms
proof (induction xs)
  case (Cons a xs)
  have later: "g a \<le> g z" if "z \<in> set xs" for z using Cons.prems(1) that by simp
  show ?case
  proof (cases "P a")
    case True
    have "e \<noteq> a" using Cons.prems(3,5) later [of y] by (auto simp: leD)
    with True Cons.prems(2) show ?thesis by simp
  next
    case False
    then have "y \<in> set xs" using Cons.prems(3,4) by auto
    with False Cons show ?thesis by auto
  qed
qed simp

section \<open>Properties\<close>

text \<open>The list of delegation indices and the stored delegations agree. From a state in which the
  list names every stored delegation exactly once, in order, SetDelegation keeps that so, is read
  back, and changes no other delegation; DeleteDelegation keeps it so, and removes exactly that
  delegation, when the delegator has no other delegation to the validator.\<close>

theorem delegation_list_agrees:
  assumes "delegations_ok s"
  shows "delegations_ok (SetDelegation d s) \<and>
    (\<forall>i v w. GetDelegation (SetDelegation d s) i v w =
      (if (i, Local v, Local w) = (dl_Index d, Local (dl_Validator d), Local (dl_Delegator d)) then Some d
       else GetDelegation s i v w)) \<and>
    ((\<forall>i. GetDelegation s i (dl_Validator d) (dl_Delegator d) \<noteq> None \<longleftrightarrow> i = dl_Index d) \<longrightarrow>
      delegations_ok (DeleteDelegation d s) \<and>
      GetDelegation (DeleteDelegation d s) (dl_Index d) (dl_Validator d) (dl_Delegator d) = None)"
proof (intro conjI impI)
  assume "\<forall>i. GetDelegation s i (dl_Validator d) (dl_Delegator d) \<noteq> None \<longleftrightarrow> i = dl_Index d"
  then show "delegations_ok (DeleteDelegation d s)" by (intro DeleteDelegation_ok [OF assms]) blast+
qed (simp_all add: SetDelegation_ok [OF assms] GetDelegation_Set GetDelegation_Delete key_of_def
    computeDelegationsKey_def)

definition empty_dpos :: dpos_store where
  "empty_dpos = \<lparr>dp_state = None, dp_candidates = [], dp_delegation_list = [], dp_delegations = [],
     dp_statistics = Map.empty, dp_referrers = Map.empty,
     dp_tally = \<lparr>LastSeenBlockNumber = 0, LastSeenTxIndex = 0, LastSeenLogIndex = 0\<rparr>, dp_coin = empty_coin_store\<rparr>"

definition demo_delegation :: "u64 \<Rightarrow> int \<Rightarrow> Delegation" where
  "demo_delegation i x = \<lparr>dl_Validator = Address ''default'' [1], dl_Delegator = Address ''default'' [2], dl_Index = i,
     dl_Amount = x, dl_UpdateAmount = 0, dl_UpdateValidator = None, dl_LocktimeTier = 0, dl_LockTime = 0,
     dl_State = BONDED, dl_Referrer = ''''\<rparr>"

lemma empty_dpos_ok: "delegations_ok empty_dpos"
  by (simp add: delegations_ok_def empty_dpos_def)

theorem delegation_list_agrees_witness:
  "delegations_ok (SetDelegation (demo_delegation 1 5) empty_dpos) \<and>
   GetDelegation (SetDelegation (demo_delegation 1 5) empty_dpos) 1 (Address ''default'' [1]) (Address ''default'' [2]) =
     Some (demo_delegation 1 5)"
  using delegation_list_agrees [OF empty_dpos_ok, of "demo_delegation 1 5"]
  by (simp add: demo_delegation_def)

text \<open>Deleting one of several delegations removes the wrong entry from the list. If a delegator
  has a delegation with a smaller index to the same validator, then after DeleteDelegation the
  list still names the delegation that is gone, the smaller one is still stored, and list and
  store no longer agree.\<close>

theorem delete_removes_wrong_entry:
  assumes "delegations_ok s"
    and "\<lparr>di_Validator = dl_Validator d, di_Delegator = dl_Delegator d, di_Index = i\<rparr> \<in> set (dp_delegation_list s)"
    and "\<lparr>di_Validator = dl_Validator d, di_Delegator = dl_Delegator d, di_Index = dl_Index d\<rparr>
      \<in> set (dp_delegation_list s)"
    and "i < dl_Index d"
  shows "\<lparr>di_Validator = dl_Validator d, di_Delegator = dl_Delegator d, di_Index = dl_Index d\<rparr>
      \<in> set (dp_delegation_list (DeleteDelegation d s)) \<and>
    GetDelegation (DeleteDelegation d s) (dl_Index d) (dl_Validator d) (dl_Delegator d) = None \<and>
    GetDelegation (DeleteDelegation d s) i (dl_Validator d) (dl_Delegator d) \<noteq> None \<and>
    \<not> delegations_ok (DeleteDelegation d s)"
proof -
  let ?l = "dp_delegation_list s"
  let ?P = "\<lambda>e. Local (dl_Validator d) = Local (di_Validator e) \<and> Local (dl_Delegator d) = Local (di_Delegator e)"
  let ?e = "\<lparr>di_Validator = dl_Validator d, di_Delegator = dl_Delegator d, di_Index = dl_Index d\<rparr>"
  have sorted: "sorted (map (\<lambda>d. (di_Validator d, di_Delegator d, di_Index d)) ?l)"
    and keys: "index_key ` set ?l = dom (map_of (dp_delegations s))"
    using assms(1) by (simp_all add: delegations_ok_def)
  have "?e \<in> set (remove_first ?P ?l)"
    by (rule kept_by_remove_first [OF sorted assms(3,2)]) (simp_all add: assms(4))
  then have e: "?e \<in> set (dp_delegation_list (DeleteDelegation d s))"
    by (simp add: DeleteDelegation_def saveDelegationList_def sortDelegations_def Let_def)
  have gone: "GetDelegation (DeleteDelegation d s) (dl_Index d) (dl_Validator d) (dl_Delegator d) = None"
    by (simp add: GetDelegation_Delete key_of_def)
  have "index_key \<lparr>di_Validator = dl_Validator d, di_Delegator = dl_Delegator d, di_Index = i\<rparr>
      \<in> dom (map_of (dp_delegations s))" using assms(2) keys by blast
  then have "GetDelegation (DeleteDelegation d s) i (dl_Validator d) (dl_Delegator d) \<noteq> None"
    unfolding GetDelegation_Delete using assms(4)
    by (auto simp: key_of_def index_key_def computeDelegationsKey_def GetDelegation_def)
  moreover have "\<not> delegations_ok (DeleteDelegation d s)"
  proof
    assume "delegations_ok (DeleteDelegation d s)"
    then have "index_key ?e \<in> dom (map_of (dp_delegations (DeleteDelegation d s)))"
      using e unfolding delegations_ok_def by (metis image_eqI set_map)
    with gone show False by (auto simp: GetDelegation_def index_key_def)
  qed
  ultimately show ?thesis using e gone by blast
qed

theorem delete_removes_wrong_entry_witness:
  "\<not> delegations_ok (DeleteDelegation (demo_delegation 2 7)
     (SetDelegation (demo_delegation 2 7) (SetDelegation (demo_delegation 1 5) empty_dpos)))"
proof -
  let ?s = "SetDelegation (demo_delegation 2 7) (SetDelegation (demo_delegation 1 5) empty_dpos)"
  have ok: "delegations_ok ?s" by (intro SetDelegation_ok empty_dpos_ok)
  have l: "dp_delegation_list ?s = map (\<lambda>i. \<lparr>di_Validator = Address ''default'' [1],
      di_Delegator = Address ''default'' [2], di_Index = i\<rparr>) [1, 2]"
    by (simp add: SetDelegation_def GetDelegation_def saveDelegationList_def sortDelegations_def
        demo_delegation_def empty_dpos_def computeDelegationsKey_def)
  from delete_removes_wrong_entry [OF ok, of "demo_delegation 2 7" 1] show ?thesis
    by (simp add: l) (simp add: demo_delegation_def)
qed

text \<open>C39: The search for a free delegation index returns, while fewer than 2^64 delegations are stored,
  and gives the smallest index from 1 upwards at which the delegator has no delegation to the
  validator.\<close>

theorem next_index_is_first_free:
  assumes "length (dp_delegations s) < 2 ^ 64"
  shows "\<exists>k. GetNextDelegationIndex s v d = Inr (1 + of_nat k) \<and> k \<le> length (dp_delegations s) \<and>
    GetDelegation s (1 + of_nat k) v d = None \<and> (\<forall>j<k. GetDelegation s (1 + of_nat j) v d \<noteq> None)"
  using GetNextDelegationIndex_total [OF assms, of v d] by metis

theorem next_index_is_first_free_witness:
  "\<exists>k. GetNextDelegationIndex (SetDelegation (demo_delegation 1 5) empty_dpos)
     (Address ''default'' [1]) (Address ''default'' [2]) = Inr (1 + of_nat k) \<and> k \<le> 1"
  using next_index_is_first_free [of "SetDelegation (demo_delegation 1 5) empty_dpos" "Address ''default'' [1]" "Address ''default'' [2]"]
  by (fastforce simp: dp_delegations_Set empty_dpos_def)

end
