(* ===== verification/Dpos_Contract.thy ===== *)
theory Dpos_Contract
  imports Dpos_Storage
begin

text \<open>
  The methods of the staking contract, \<open>builtin/plugins/dposv3/dpos.go\<close>, up to the elections: delegating,
  redelegating, consolidating, unbonding, the whitelist, the life of a candidate, slashing, the
  oracle's settings and the batch of requests it relays, with \<open>erc20.go\<close>, the proxy through which the
  contract calls the coin contract.

  A method gives the new storage or an error. An error discards the storage, as the transaction is
  rolled back then. Requests are the methods' arguments; a pointer field that the code dereferences
  is an option. Events are not part of the state.
\<close>

section \<open>The coin contract\<close>

definition loadCoin :: "dpos_store \<Rightarrow> address res" where
  "loadCoin s = bind_res (loadState s) (\<lambda>state. deref (pa_CoinContractAddress (ds_Params state)))"

text \<open>In the coin contract the sender of the call is the staking contract.\<close>

definition ERC20_Transfer :: "call_ctx \<Rightarrow> address \<Rightarrow> int \<Rightarrow> dpos_store \<Rightarrow> dpos_store res" where
  "ERC20_Transfer ctx to amount s =
     bind_res (Coin_Transfer (ctx\<lparr>sender := contract_address ctx\<rparr>) (dp_coin s)
       \<lparr>tr_to = to, tr_amount = Some amount\<rparr>) (\<lambda>c.
     Inr (s\<lparr>dp_coin := c\<rparr>))"

definition ERC20_TransferFrom :: "call_ctx \<Rightarrow> address \<Rightarrow> address \<Rightarrow> int \<Rightarrow> dpos_store \<Rightarrow> dpos_store res" where
  "ERC20_TransferFrom ctx src dst amount s =
     bind_res (Coin_TransferFrom (ctx\<lparr>sender := contract_address ctx\<rparr>) (dp_coin s)
       \<lparr>tf_from = src, tf_to = dst, tf_amount = Some amount\<rparr>) (\<lambda>c.
     Inr (s\<lparr>dp_coin := c\<rparr>))"

section \<open>Initialisation\<close>

definition default_opt :: "'a \<Rightarrow> 'a option \<Rightarrow> 'a option" where
  "default_opt d x = (case x of None \<Rightarrow> Some d | Some v \<Rightarrow> Some v)"

definition DPOS_Init :: "call_ctx \<Rightarrow> DposParams \<Rightarrow> Validator list \<Rightarrow> dpos_store \<Rightarrow> dpos_store res" where
  "DPOS_Init ctx params validators s =
     bind_res
       (case pa_CoinContractAddress params of
          Some a \<Rightarrow> Inr a
        | None \<Rightarrow> resolve ctx ''coin'') (\<lambda>coinAddr.
     let params = params
           \<lparr>pa_CoinContractAddress := Some coinAddr,
            pa_CrashSlashingPercentage := default_opt inactivitySlashPercentage (pa_CrashSlashingPercentage params),
            pa_ByzantineSlashingPercentage := default_opt doubleSignSlashPercentage (pa_ByzantineSlashingPercentage params),
            pa_RegistrationRequirement := default_opt (scientificNotation 1250000 18) (pa_RegistrationRequirement params),
            pa_MaxYearlyReward := default_opt (scientificNotation 60000000 18) (pa_MaxYearlyReward params)\<rparr>;
         state = \<lparr>ds_Params = params, ds_Validators = validators, ds_LastElectionTime = 0,
                  ds_TotalValidatorDelegations = 0, ds_TotalRewardDistribution = 0\<rparr>
     in Inr (saveState state s))"

section \<open>Delegation\<close>

definition check_referrer :: "dpos_store \<Rightarrow> Candidate \<Rightarrow> string \<Rightarrow> unit res" where
  "check_referrer s cand referrer =
     (let referrerAddress = GetReferrer s referrer in
      if referrer \<noteq> '''' \<and> referrerAddress = None then Inl (Err ''Invalid Referrer.'')
      else if referrerAddress \<noteq> None \<and> cd_MaxReferralPercentage cand < of_int defaultReferrerFee
        then Inl (Err ''Candidate does not accept delegations with referral fees as high.'')
      else Inr ())"

record DelegateRequest =
  dq_ValidatorAddress :: "address option"
  dq_Amount :: "int option"
  dq_LocktimeTier :: u64
  dq_Referrer :: string

definition unix_u64 :: "call_ctx \<Rightarrow> u64" where
  "unix_u64 ctx = of_int (now_unix ctx)"

definition DPOS_Delegate :: "call_ctx \<Rightarrow> DelegateRequest \<Rightarrow> dpos_store \<Rightarrow> dpos_store res" where
  "DPOS_Delegate ctx req s =
     (let delegator = sender ctx in
      bind_res (deref (dq_ValidatorAddress req)) (\<lambda>validator.
      case GetCandidate s validator of
        None \<Rightarrow> Inl (Err ''Candidate record not found.'')
      | Some cand \<Rightarrow>
          (case dq_Amount req of
             None \<Rightarrow> Inl (Err ''Must Delegate a positive number of tokens.'')
           | Some amount \<Rightarrow>
               if \<not> amount > 0 then Inl (Err ''Must Delegate a positive number of tokens.'')
               else
                 bind_res (check_referrer s cand (dq_Referrer req)) (\<lambda>_.
                 bind_res (loadCoin s) (\<lambda>_.
                 bind_res (ERC20_TransferFrom ctx delegator (contract_address ctx) amount s) (\<lambda>s.
                 bind_res (GetNextDelegationIndex s validator delegator) (\<lambda>index.
                 if dq_LocktimeTier req > 3 then Inl (Err ''Invalid delegation tier'')
                 else
                   let locktimeTier = TierMap (dq_LocktimeTier req);
                       tierTime = TierLocktimeMap locktimeTier;
                       now = unix_u64 ctx;
                       lockTime = now + tierTime
                   in
                   if lockTime < now then Inl (Err ''Overflow in set locktime!'')
                   else Inr (SetDelegation
                     \<lparr>dl_Validator = validator, dl_Delegator = delegator, dl_Index = index, dl_Amount = 0,
                      dl_UpdateAmount = amount, dl_UpdateValidator = None, dl_LocktimeTier = locktimeTier,
                      dl_LockTime = lockTime, dl_State = BONDING, dl_Referrer = dq_Referrer req\<rparr> s))))))))"

record RedelegateRequest =
  rq_FormerValidatorAddress :: "address option"
  rq_ValidatorAddress :: "address option"
  rq_Amount :: "int option"
  rq_NewLocktimeTier :: u64
  rq_Index :: u64
  rq_Referrer :: string

text \<open>
  The new tier and lock time of a redelegation. The inner \<open>newLocktime := ...\<close> of the code declares a
  variable of its own, so the lock time the method goes on with is the former one.
\<close>

definition redelegate_tier ::
    "call_ctx \<Rightarrow> dpos_store \<Rightarrow> u64 \<Rightarrow> Delegation \<Rightarrow> (LocktimeTier \<times> u64) res" where
  "redelegate_tier ctx s reqTier prior =
     (if reqTier > scast (dl_LocktimeTier prior) then
        bind_res (loadState s) (\<lambda>state.
        let newTier = ucast reqTier;
            tierTime = TierLocktimeMap newTier;
            now = unix_u64 ctx;
            remainingTime = pa_ElectionCycleLength (ds_Params state) - (now_unix ctx - ds_LastElectionTime state);
            inner_newLocktime = now + tierTime + of_int remainingTime
        in if inner_newLocktime < now then Inl (Err ''Overflow in set locktime!'')
           else Inr (newTier, dl_LockTime prior))
      else Inr (dl_LocktimeTier prior, dl_LockTime prior))"

definition DPOS_Redelegate :: "call_ctx \<Rightarrow> RedelegateRequest \<Rightarrow> dpos_store \<Rightarrow> dpos_store res" where
  "DPOS_Redelegate ctx req s =
     (let delegator = sender ctx in
      bind_res (deref (rq_FormerValidatorAddress req)) (\<lambda>former.
      bind_res (deref (rq_ValidatorAddress req)) (\<lambda>validator.
      if Local former = Local validator then Inl (Err ''Redelegating self-delegations is not permitted.'')
      else if (case rq_Amount req of None \<Rightarrow> False | Some a \<Rightarrow> \<not> a > 0)
        then Inl (Err ''Must Redelegate a positive number of tokens.'')
      else
        bind_res
          (if Local validator \<noteq> Local limboValidatorAddress then
             (case GetCandidate s validator of
                None \<Rightarrow> Inl (Err ''Candidate record not found.'')
              | Some candidate \<Rightarrow> check_referrer s candidate (rq_Referrer req))
           else Inr ()) (\<lambda>_.
        case GetDelegation s (rq_Index req) former delegator of
          None \<Rightarrow> Inl (Err ''No delegation to redelegate.'')
        | Some prior \<Rightarrow>
            bind_res (redelegate_tier ctx s (rq_NewLocktimeTier req) prior) (\<lambda>(newTier, newLocktime).
            case rq_Amount req of
              Some amount \<Rightarrow>
                if dl_Amount prior = amount then
                  Inr (SetDelegation (prior\<lparr>dl_UpdateValidator := Some validator, dl_State := REDELEGATING,
                    dl_LocktimeTier := newTier, dl_LockTime := newLocktime, dl_Referrer := rq_Referrer req\<rparr>) s)
                else if dl_Amount prior < amount then Inl (Err ''Redelegation amount out of range.'')
                else
                  bind_res (GetNextDelegationIndex s validator (dl_Delegator prior)) (\<lambda>index.
                  let s = SetDelegation
                        \<lparr>dl_Validator = validator, dl_Delegator = dl_Delegator prior, dl_Index = index, dl_Amount = 0,
                         dl_UpdateAmount = amount, dl_UpdateValidator = None, dl_LocktimeTier = newTier,
                         dl_LockTime = newLocktime, dl_State = BONDING, dl_Referrer = rq_Referrer req\<rparr> s
                  in Inr (SetDelegation (prior\<lparr>dl_State := UNBONDING, dl_UpdateAmount := amount\<rparr>) s))
            | None \<Rightarrow>
                Inr (SetDelegation (prior\<lparr>dl_UpdateValidator := Some validator, dl_State := REDELEGATING,
                  dl_LocktimeTier := newTier, dl_LockTime := newLocktime, dl_Referrer := rq_Referrer req\<rparr>) s))))))"

definition returnMatchingDelegations :: "dpos_store \<Rightarrow> address option \<Rightarrow> address option \<Rightarrow> Delegation list res" where
  "returnMatchingDelegations s validator delegator =
     (case (validator, delegator) of
        (None, _) \<Rightarrow> Inl (Err ''request made with req.ValidatorAddress == nil'')
      | (_, None) \<Rightarrow> Inl (Err ''request made with req.DelegatorAddress == nil'')
      | (Some v, Some w) \<Rightarrow>
          Inr (List.map_filter (\<lambda>d. GetDelegation s (di_Index d) (di_Validator d) (di_Delegator d))
            (filter (\<lambda>d. Local (di_Delegator d) = Local w \<and> Local (di_Validator d) = Local v)
              (dp_delegation_list s))))"

fun consolidate_loop :: "u64 \<Rightarrow> Delegation list \<Rightarrow> dpos_store \<times> nat \<times> int \<Rightarrow> dpos_store \<times> nat \<times> int" where
  "consolidate_loop now [] st = st"
| "consolidate_loop now (d # ds) (s, unconsolidated, tot) =
     consolidate_loop now ds
       (if dl_LockTime d > now \<or> dl_State d \<noteq> BONDED then (s, Suc unconsolidated, tot)
        else (DeleteDelegation d s, unconsolidated, tot + dl_Amount d))"

definition consolidateDelegations ::
    "call_ctx \<Rightarrow> address option \<Rightarrow> address option \<Rightarrow> dpos_store \<Rightarrow> (nat \<times> dpos_store) res" where
  "consolidateDelegations ctx validator delegator s =
     bind_res (returnMatchingDelegations s validator delegator) (\<lambda>delegations.
     bind_res (deref validator) (\<lambda>v.
     bind_res (deref delegator) (\<lambda>w.
     case consolidate_loop (unix_u64 ctx) delegations (s, 0, 0) of
       (s, unconsolidated, tot) \<Rightarrow>
         bind_res (GetNextDelegationIndex s v w) (\<lambda>index.
         Inr (unconsolidated, SetDelegation
           \<lparr>dl_Validator = v, dl_Delegator = w, dl_Index = index, dl_Amount = tot, dl_UpdateAmount = 0,
            dl_UpdateValidator = None, dl_LocktimeTier = 0, dl_LockTime = 0, dl_State = BONDED,
            dl_Referrer = ''''\<rparr> s)))))"

definition DPOS_ConsolidateDelegations :: "call_ctx \<Rightarrow> address option \<Rightarrow> dpos_store \<Rightarrow> dpos_store res" where
  "DPOS_ConsolidateDelegations ctx validator s =
     bind_res (deref validator) (\<lambda>v.
     if Local v \<noteq> Local limboValidatorAddress \<and> GetCandidate s v = None
     then Inl (Err ''Candidate record not found.'')
     else bind_res (consolidateDelegations ctx validator (Some (sender ctx)) s) (\<lambda>(_, s). Inr s))"

record UnbondRequest =
  uq_ValidatorAddress :: "address option"
  uq_Amount :: "int option"
  uq_Index :: u64

definition DPOS_Unbond :: "call_ctx \<Rightarrow> UnbondRequest \<Rightarrow> dpos_store \<Rightarrow> dpos_store res" where
  "DPOS_Unbond ctx req s =
     (let delegator = sender ctx in
      case uq_ValidatorAddress req of
        None \<Rightarrow> Inl (Err ''Unbond called with req.ValidatorAddress == nil'')
      | Some validator \<Rightarrow>
          (case uq_Amount req of
             None \<Rightarrow> Inl (Err ''Unbond called with req.Amount == nil'')
           | Some amount \<Rightarrow>
               (case GetDelegation s (uq_Index req) validator delegator of
                  None \<Rightarrow> Inl (Err ''delegation not found'')
                | Some delegation \<Rightarrow>
                    bind_res (loadState s) (\<lambda>state.
                    let instantUnlock = (pa_ElectionCycleLength (ds_Params state) = 0 \<and> dl_LocktimeTier delegation = TIER_ZERO)
                    in
                    if dl_Amount delegation < amount then Inl (Err ''Unbond amount exceeds delegation amount.'')
                    else if dl_LockTime delegation > unix_u64 ctx \<and> \<not> instantUnlock
                      then Inl (Err ''Delegation currently locked.'')
                    else if dl_State delegation \<noteq> BONDED
                      then Inl (Err ''Existing delegation not in BONDED state.'')
                    else Inr (SetDelegation (delegation\<lparr>dl_State := UNBONDING,
                           dl_UpdateAmount := (if amount = 0 then dl_Amount delegation else amount)\<rparr>) s)))))"

section \<open>The whitelist\<close>

definition only_oracle :: "call_ctx \<Rightarrow> dpos_store \<Rightarrow> DposState res" where
  "only_oracle ctx s =
     bind_res (loadState s) (\<lambda>state.
     case pa_OracleAddress (ds_Params state) of
       None \<Rightarrow> Inl (Err ''Function can only be called with oracle address.'')
     | Some oracle \<Rightarrow>
         if Local (sender ctx) \<noteq> Local oracle
         then Inl (Err ''Function can only be called with oracle address.'')
         else Inr state)"

record WhitelistCandidateRequest =
  wq_CandidateAddress :: "address option"
  wq_Amount :: "int option"
  wq_LocktimeTier :: LocktimeTier

definition addCandidateToStatisticList :: "WhitelistCandidateRequest \<Rightarrow> dpos_store \<Rightarrow> dpos_store res" where
  "addCandidateToStatisticList req s =
     bind_res (deref (wq_CandidateAddress req)) (\<lambda>candidate.
     let statistic = GetStatistic s candidate in
     if sint (wq_LocktimeTier req) > 3 then Inl (Err ''Invalid whitelist tier'')
     else
       (case statistic of
          None \<Rightarrow> Inr (SetStatistic
            \<lparr>st_Address = candidate, st_PubKey = None, st_WhitelistAmount = wq_Amount req,
             st_LocktimeTier = wq_LocktimeTier req, st_DelegationTotal = 0, st_SlashPercentage = 0\<rparr> s)
        | Some _ \<Rightarrow> Inl (Err ''Cannot whitelist an already whitelisted candidate.'')))"

definition DPOS_WhitelistCandidate :: "call_ctx \<Rightarrow> WhitelistCandidateRequest \<Rightarrow> dpos_store \<Rightarrow> dpos_store res" where
  "DPOS_WhitelistCandidate ctx req s =
     bind_res (only_oracle ctx s) (\<lambda>_. addCandidateToStatisticList req s)"

definition DPOS_RemoveWhitelistedCandidate :: "call_ctx \<Rightarrow> address option \<Rightarrow> dpos_store \<Rightarrow> dpos_store res" where
  "DPOS_RemoveWhitelistedCandidate ctx candidateAddress s =
     bind_res (only_oracle ctx s) (\<lambda>_.
     bind_res (deref candidateAddress) (\<lambda>candidate.
     case GetStatistic s candidate of
       None \<Rightarrow> Inl (Err ''Candidate is not whitelisted.'')
     | Some statistic \<Rightarrow> Inr (SetStatistic (statistic\<lparr>st_WhitelistAmount := Some 0\<rparr>) s)))"

definition DPOS_ChangeWhitelistInfo :: "call_ctx \<Rightarrow> WhitelistCandidateRequest \<Rightarrow> dpos_store \<Rightarrow> dpos_store res" where
  "DPOS_ChangeWhitelistInfo ctx req s =
     bind_res (only_oracle ctx s) (\<lambda>_.
     if sint (wq_LocktimeTier req) > 3 then Inl (Err ''Invalid whitelist tier'')
     else
       bind_res (deref (wq_CandidateAddress req)) (\<lambda>candidate.
       case GetStatistic s candidate of
         None \<Rightarrow> Inl (Err ''Candidate is not whitelisted.'')
       | Some statistic \<Rightarrow>
           Inr (SetStatistic (statistic\<lparr>st_WhitelistAmount := wq_Amount req, st_LocktimeTier := wq_LocktimeTier req\<rparr>) s)))"

section \<open>Slashing\<close>

definition slash_percent :: "dpos_store \<Rightarrow> bytes \<Rightarrow> int \<Rightarrow> dpos_store res" where
  "slash_percent s validatorAddr slashPercentage =
     (case GetStatisticByAddressBytes s validatorAddr of
        None \<Rightarrow> Inl ErrNotFound
      | Some statistic \<Rightarrow>
          if slashPercentage < st_SlashPercentage statistic then Inr s
          else Inr (SetStatistic (statistic\<lparr>st_SlashPercentage := st_SlashPercentage statistic + slashPercentage\<rparr>) s))"

definition SlashInactivity :: "bytes \<Rightarrow> dpos_store \<Rightarrow> dpos_store res" where
  "SlashInactivity validatorAddr s =
     bind_res (loadState s) (\<lambda>state.
     bind_res (deref (pa_CrashSlashingPercentage (ds_Params state))) (slash_percent s validatorAddr))"

definition SlashDoubleSign :: "bytes \<Rightarrow> dpos_store \<Rightarrow> dpos_store res" where
  "SlashDoubleSign validatorAddr s =
     bind_res (loadState s) (\<lambda>state.
     bind_res (deref (pa_ByzantineSlashingPercentage (ds_Params state))) (slash_percent s validatorAddr))"

text \<open>
  The list of delegations is read once, each delegation when its turn comes. The new whitelist
  amount and the reset percentage are assigned to the statistic in memory, which is the second
  component of the result; no caller stores it.
\<close>

fun slash_loop :: "ValidatorStatistic \<Rightarrow> address \<Rightarrow> DelegationIndex list \<Rightarrow> dpos_store \<Rightarrow> dpos_store" where
  "slash_loop statistic validatorAddress [] s = s"
| "slash_loop statistic validatorAddress (d # ds) s =
     slash_loop statistic validatorAddress ds
       (case GetDelegation s (di_Index d) (di_Validator d) (di_Delegator d) of
          None \<Rightarrow> s
        | Some delegation \<Rightarrow>
            if Local (dl_Validator delegation) = Local validatorAddress \<and> st_SlashPercentage statistic \<noteq> 0
            then SetDelegation (delegation\<lparr>dl_Amount := dl_Amount delegation -
                   CalculateFraction (st_SlashPercentage statistic) (dl_Amount delegation)\<rparr>) s
            else s)"

definition slashValidatorDelegations ::
    "ValidatorStatistic \<Rightarrow> address \<Rightarrow> dpos_store \<Rightarrow> (dpos_store \<times> ValidatorStatistic) res" where
  "slashValidatorDelegations statistic validatorAddress s =
     (let s = slash_loop statistic validatorAddress (dp_delegation_list s) s in
      bind_res (deref (st_WhitelistAmount statistic)) (\<lambda>whitelist.
      let statistic = (if whitelist \<noteq> 0 then statistic\<lparr>st_WhitelistAmount :=
                         Some (whitelist - CalculateFraction (st_SlashPercentage statistic) whitelist)\<rparr>
                       else statistic)
      in Inr (s, statistic\<lparr>st_SlashPercentage := 0\<rparr>)))"

section \<open>Candidates\<close>

text \<open>Assigning through the pointer that \<open>candidates.Get\<close> returns changes the first match in the list.\<close>

definition modify_candidate :: "address \<Rightarrow> (Candidate \<Rightarrow> Candidate) \<Rightarrow> Candidate list \<Rightarrow> Candidate list" where
  "modify_candidate addr f c = update_first (\<lambda>cand. Local (cd_Address cand) = Local addr) f c"

record RegisterCandidateRequest =
  rc_PubKey :: bytes
  rc_Fee :: u64
  rc_Name :: string
  rc_Description :: string
  rc_Website :: string
  rc_MaxReferralPercentage :: u64
  rc_LocktimeTier :: u64

text \<open>The self-delegation a candidate that is not whitelisted has to make.\<close>

definition registration_deposit ::
    "call_ctx \<Rightarrow> RegisterCandidateRequest \<Rightarrow> int \<Rightarrow> dpos_store \<Rightarrow> dpos_store res" where
  "registration_deposit ctx req requirement s =
     bind_res (loadCoin s) (\<lambda>_.
     bind_res (ERC20_TransferFrom ctx (sender ctx) (contract_address ctx) requirement s) (\<lambda>s.
     if rc_LocktimeTier req > 3 then Inl (Err ''Invalid locktime tier'')
     else
       let locktimeTier = TierMap (rc_LocktimeTier req)
       in Inr (SetDelegation
            \<lparr>dl_Validator = sender ctx, dl_Delegator = sender ctx, dl_Index = DELEGATION_START_INDEX,
             dl_Amount = 0, dl_UpdateAmount = requirement, dl_UpdateValidator = None,
             dl_LocktimeTier = locktimeTier, dl_LockTime = unix_u64 ctx + TierLocktimeMap locktimeTier,
             dl_State = BONDING, dl_Referrer = ''''\<rparr> s)))"

text \<open>
  \<open>not_whitelisted\<close> is the left operand of the condition: a nil statistic short-circuits it, a nil
  amount panics. The requirement is read only when it holds.
\<close>

definition not_whitelisted :: "ValidatorStatistic option \<Rightarrow> bool res" where
  "not_whitelisted statistic =
     (case statistic of
        None \<Rightarrow> Inr True
      | Some st \<Rightarrow> bind_res (deref (st_WhitelistAmount st)) (\<lambda>amount. Inr (amount = 0)))"

definition DPOS_RegisterCandidate ::
    "(bytes \<Rightarrow> bytes) \<Rightarrow> call_ctx \<Rightarrow> RegisterCandidateRequest \<Rightarrow> dpos_store \<Rightarrow> dpos_store res" where
  "DPOS_RegisterCandidate local_of_key ctx req s =
     (let candidateAddress = sender ctx;
          candidates = dp_candidates s
      in
      if Local candidateAddress \<noteq> local_of_key (rc_PubKey req) then Inl (Err ''Public key does not match address.'')
      else if CandidateList_Get candidates candidateAddress \<noteq> None
        then Inl (Err ''candidate already registered'')
      else
        bind_res (validateFee (rc_Fee req)) (\<lambda>_.
        bind_res (validateFee (rc_MaxReferralPercentage req)) (\<lambda>_.
        let statistic = GetStatistic s candidateAddress in
        bind_res (loadState s) (\<lambda>state.
        bind_res (not_whitelisted statistic) (\<lambda>nw.
        bind_res
          (if nw then
             bind_res (deref (pa_RegistrationRequirement (ds_Params state))) (\<lambda>requirement.
             if requirement > 0 then registration_deposit ctx req requirement s else Inr s)
           else Inr s) (\<lambda>s.
        Inr (saveCandidateList (CandidateList_Set candidates
          \<lparr>cd_PubKey = rc_PubKey req, cd_Address = candidateAddress, cd_Fee = rc_Fee req, cd_NewFee = rc_Fee req,
           cd_Name = rc_Name req, cd_Description = rc_Description req, cd_Website = rc_Website req,
           cd_State = REGISTERED, cd_MaxReferralPercentage = rc_MaxReferralPercentage req\<rparr>) s)))))))"

definition DPOS_ChangeFee :: "call_ctx \<Rightarrow> u64 \<Rightarrow> dpos_store \<Rightarrow> dpos_store res" where
  "DPOS_ChangeFee ctx fee s =
     (case CandidateList_Get (dp_candidates s) (sender ctx) of
        None \<Rightarrow> Inl (Err ''Candidate record not found.'')
      | Some cand \<Rightarrow>
          if cd_State cand \<noteq> REGISTERED then Inl (Err ''Candidate not in REGISTERED state.'')
          else
            bind_res (validateFee fee) (\<lambda>_.
            Inr (saveCandidateList (modify_candidate (sender ctx)
              (\<lambda>c. c\<lparr>cd_NewFee := fee, cd_State := ABOUT_TO_CHANGE_FEE\<rparr>) (dp_candidates s)) s)))"

record UpdateCandidateInfoRequest =
  ui_Name :: string
  ui_Description :: string
  ui_Website :: string
  ui_MaxReferralPercentage :: u64

definition DPOS_UpdateCandidateInfo :: "call_ctx \<Rightarrow> UpdateCandidateInfoRequest \<Rightarrow> dpos_store \<Rightarrow> dpos_store res" where
  "DPOS_UpdateCandidateInfo ctx req s =
     (case CandidateList_Get (dp_candidates s) (sender ctx) of
        None \<Rightarrow> Inl (Err ''Candidate record not found.'')
      | Some _ \<Rightarrow>
          bind_res (validateFee (ui_MaxReferralPercentage req)) (\<lambda>_.
          Inr (saveCandidateList (modify_candidate (sender ctx)
            (\<lambda>c. c\<lparr>cd_Name := ui_Name req, cd_Description := ui_Description req, cd_Website := ui_Website req,
                    cd_MaxReferralPercentage := ui_MaxReferralPercentage req\<rparr>) (dp_candidates s)) s)))"

text \<open>What is left at the first index after consolidating is put up for unbonding.\<close>

definition unbond_self_delegation :: "call_ctx \<Rightarrow> dpos_store \<Rightarrow> dpos_store res" where
  "unbond_self_delegation ctx s =
     (case GetDelegation s DELEGATION_START_INDEX (sender ctx) (sender ctx) of
        None \<Rightarrow> Inr s
      | Some delegation \<Rightarrow>
          if dl_Amount delegation = 0 then Inr s
          else if dl_LockTime delegation > unix_u64 ctx
            then Inl (Err ''Validator's self-delegation currently locked.'')
          else if dl_State delegation \<noteq> BONDED
            then Inl (Err ''Existing delegation not in BONDED state.'')
          else Inr (SetDelegation (delegation\<lparr>dl_State := UNBONDING,
                 dl_UpdateAmount := dl_Amount delegation\<rparr>) s))"

definition DPOS_UnregisterCandidate :: "call_ctx \<Rightarrow> dpos_store \<Rightarrow> dpos_store res" where
  "DPOS_UnregisterCandidate ctx s =
     (let candidateAddress = sender ctx in
      case CandidateList_Get (dp_candidates s) candidateAddress of
        None \<Rightarrow> Inl (Err ''Candidate record not found.'')
      | Some cand \<Rightarrow>
          if cd_State cand \<noteq> REGISTERED then Inl (Err ''Candidate not in REGISTERED state.'')
          else
            let candidates = modify_candidate candidateAddress (\<lambda>c. c\<lparr>cd_State := UNREGISTERING\<rparr>) (dp_candidates s) in
            bind_res (consolidateDelegations ctx (Some candidateAddress) (Some candidateAddress) s)
              (\<lambda>(lockedDelegations, s).
            if lockedDelegations \<noteq> 0 then Inl (Err ''Validator has locked self-delegations.'')
            else
              bind_res (unbond_self_delegation ctx s) (\<lambda>s.
              case GetStatistic s candidateAddress of
                None \<Rightarrow> Inl ErrNotFound
              | Some statistic \<Rightarrow>
                  bind_res (slashValidatorDelegations statistic candidateAddress (saveCandidateList candidates s))
                    (\<lambda>(s, _). Inr s))))"

section \<open>Oracle methods\<close>

definition DPOS_RegisterReferrer :: "call_ctx \<Rightarrow> string \<Rightarrow> address \<Rightarrow> dpos_store \<Rightarrow> dpos_store res" where
  "DPOS_RegisterReferrer ctx name addr s =
     bind_res (only_oracle ctx s) (\<lambda>_. Inr (SetReferrer name addr s))"

record BatchRequestMeta =
  bm_BlockNumber :: u64
  bm_TxIndex :: u64
  bm_LogIndex :: u64

datatype BatchPayload = BatchWhitelistCandidate WhitelistCandidateRequest | BatchUnsupported

record BatchRequest =
  br_Meta :: "BatchRequestMeta option"
  br_Payload :: BatchPayload

definition isRequestAlreadySeen :: "BatchRequestMeta \<Rightarrow> RequestBatchTally \<Rightarrow> bool" where
  "isRequestAlreadySeen meta currentTally =
     (if bm_BlockNumber meta \<noteq> LastSeenBlockNumber currentTally
      then bm_BlockNumber meta \<le> LastSeenBlockNumber currentTally
      else if bm_TxIndex meta \<noteq> LastSeenTxIndex currentTally
      then bm_TxIndex meta \<le> LastSeenTxIndex currentTally
      else if bm_LogIndex meta \<noteq> LastSeenLogIndex currentTally
      then bm_LogIndex meta \<le> LastSeenLogIndex currentTally
      else True)"

definition tally_of :: "BatchRequestMeta \<Rightarrow> RequestBatchTally" where
  "tally_of meta = \<lparr>LastSeenBlockNumber = bm_BlockNumber meta, LastSeenTxIndex = bm_TxIndex meta,
                   LastSeenLogIndex = bm_LogIndex meta\<rparr>"

text \<open>
  The loop carries the last value of \<open>err\<close>: an unsupported request sets it and goes on, a request
  that is processed sets it again, so only what happened last is seen after the loop. A request
  that fails leaves the loop. \<open>Inl\<close> is a panic.
\<close>

fun batch_loop ::
    "BatchRequest list \<Rightarrow> dpos_store \<times> RequestBatchTally \<times> go_error option \<Rightarrow>
     (dpos_store \<times> RequestBatchTally \<times> go_error option) res" where
  "batch_loop [] st = Inr st"
| "batch_loop (request # requests) (s, tally, err) =
     (case br_Payload request of
        BatchWhitelistCandidate req \<Rightarrow>
          bind_res (deref (br_Meta request)) (\<lambda>meta.
          if isRequestAlreadySeen meta tally then batch_loop requests (s, tally, err)
          else
            (case addCandidateToStatisticList req s of
               Inl (Panic p) \<Rightarrow> Inl (Panic p)
             | Inl e \<Rightarrow> Inr (s, tally, Some e)
             | Inr s' \<Rightarrow> batch_loop requests (s', tally_of meta, None)))
      | BatchUnsupported \<Rightarrow>
          batch_loop requests (s, tally, Some (Err ''unsupported type of request in request batch'')))"

definition DPOS_ProcessRequestBatch :: "call_ctx \<Rightarrow> BatchRequest list \<Rightarrow> dpos_store \<Rightarrow> dpos_store res" where
  "DPOS_ProcessRequestBatch ctx batch s =
     bind_res (loadState s) (\<lambda>state.
     if (case pa_OracleAddress (ds_Params state) of
           None \<Rightarrow> True
         | Some oracle \<Rightarrow> Local (sender ctx) \<noteq> Local oracle)
     then Inl (Err ''only oracle is authorized to call ProcessRequestBatch'')
     else if batch = [] then Inl (Err ''invalid Request, no batch request found'')
     else
       bind_res (deref (br_Meta (last batch))) (\<lambda>lastMeta.
       if isRequestAlreadySeen lastMeta (dp_tally s)
       then Inl (Err ''invalid Request, all events has been already seen'')
       else
         bind_res (batch_loop batch (s, dp_tally s, None)) (\<lambda>(s, tally, err).
         if err \<noteq> None then Inl (Err ''unable to consume one or more request'')
         else Inr (s\<lparr>dp_tally := tally\<rparr>))))"

definition set_params :: "(DposParams \<Rightarrow> DposParams) \<Rightarrow> call_ctx \<Rightarrow> dpos_store \<Rightarrow> dpos_store res" where
  "set_params f ctx s =
     bind_res (only_oracle ctx s) (\<lambda>state. Inr (saveState (state\<lparr>ds_Params := f (ds_Params state)\<rparr>) s))"

definition DPOS_SetElectionCycle :: "call_ctx \<Rightarrow> int \<Rightarrow> dpos_store \<Rightarrow> dpos_store res" where
  "DPOS_SetElectionCycle ctx electionCycle s = set_params (\<lambda>p. p\<lparr>pa_ElectionCycleLength := electionCycle\<rparr>) ctx s"

definition DPOS_SetMaxYearlyReward :: "call_ctx \<Rightarrow> int option \<Rightarrow> dpos_store \<Rightarrow> dpos_store res" where
  "DPOS_SetMaxYearlyReward ctx maxYearlyReward s = set_params (\<lambda>p. p\<lparr>pa_MaxYearlyReward := maxYearlyReward\<rparr>) ctx s"

definition DPOS_SetRegistrationRequirement :: "call_ctx \<Rightarrow> int option \<Rightarrow> dpos_store \<Rightarrow> dpos_store res" where
  "DPOS_SetRegistrationRequirement ctx requirement s =
     set_params (\<lambda>p. p\<lparr>pa_RegistrationRequirement := requirement\<rparr>) ctx s"

text \<open>The method saves the state as it was loaded: the request's count is not used.\<close>

definition DPOS_SetValidatorCount :: "call_ctx \<Rightarrow> int \<Rightarrow> dpos_store \<Rightarrow> dpos_store res" where
  "DPOS_SetValidatorCount ctx validatorCount s = set_params (\<lambda>p. p) ctx s"

definition DPOS_SetOracleAddress :: "call_ctx \<Rightarrow> address option \<Rightarrow> dpos_store \<Rightarrow> dpos_store res" where
  "DPOS_SetOracleAddress ctx oracleAddress s = set_params (\<lambda>p. p\<lparr>pa_OracleAddress := oracleAddress\<rparr>) ctx s"

definition DPOS_SetSlashingPercentages :: "call_ctx \<Rightarrow> int option \<Rightarrow> int option \<Rightarrow> dpos_store \<Rightarrow> dpos_store res" where
  "DPOS_SetSlashingPercentages ctx crash byzantine s =
     set_params (\<lambda>p. p\<lparr>pa_CrashSlashingPercentage := crash, pa_ByzantineSlashingPercentage := byzantine\<rparr>) ctx s"

section \<open>Migration from version 2\<close>

record InitializationState =
  is_State :: DposState
  is_Candidates :: "Candidate list"
  is_Delegations :: "Delegation list"
  is_Statistics :: "ValidatorStatistic list"

definition DPOS_Initialize :: "InitializationState \<Rightarrow> dpos_store \<Rightarrow> dpos_store" where
  "DPOS_Initialize initState s =
     fold SetStatistic (is_Statistics initState)
       (fold SetDelegation (is_Delegations initState)
         (saveCandidateList (is_Candidates initState) (saveState (is_State initState) s)))"

section \<open>Views\<close>

definition sum_amounts :: "Delegation list \<Rightarrow> int \<times> int" where
  "sum_amounts ds = foldl (\<lambda>(tot, weighted) d.
     (tot + dl_Amount d, weighted + calculateWeightedDelegationAmount d)) (0, 0) ds"

definition DPOS_CheckDelegation ::
    "dpos_store \<Rightarrow> address option \<Rightarrow> address option \<Rightarrow> (int \<times> int \<times> Delegation list) res" where
  "DPOS_CheckDelegation s validator delegator =
     bind_res (returnMatchingDelegations s validator delegator) (\<lambda>delegations.
     case sum_amounts delegations of (amount, weighted) \<Rightarrow> Inr (amount, weighted, delegations))"

definition DPOS_CheckAllDelegations :: "dpos_store \<Rightarrow> address option \<Rightarrow> (int \<times> int \<times> Delegation list) res" where
  "DPOS_CheckAllDelegations s delegator =
     (case delegator of
        None \<Rightarrow> Inl (Err ''CheckAllDelegations called with req.DelegatorAddress == nil'')
      | Some w \<Rightarrow>
          let delegations = List.map_filter (\<lambda>d. GetDelegation s (di_Index d) (di_Validator d) (di_Delegator d))
                (filter (\<lambda>d. Local (di_Delegator d) = Local w) (dp_delegation_list s))
          in case sum_amounts delegations of (amount, weighted) \<Rightarrow> Inr (amount, weighted, delegations))"

definition DPOS_ListCandidates :: "dpos_store \<Rightarrow> (Candidate \<times> ValidatorStatistic option) list" where
  "DPOS_ListCandidates s = map (\<lambda>candidate. (candidate, GetStatistic s (cd_Address candidate))) (dp_candidates s)"

definition DPOS_TimeUntilElection :: "call_ctx \<Rightarrow> dpos_store \<Rightarrow> int res" where
  "DPOS_TimeUntilElection ctx s =
     bind_res (loadState s) (\<lambda>state.
     Inr (i64 (pa_ElectionCycleLength (ds_Params state) - i64 (now_unix ctx - ds_LastElectionTime state))))"

definition ValidatorList :: "dpos_store \<Rightarrow> Validator list res" where
  "ValidatorList s = bind_res (loadState s) (\<lambda>state. Inr (ds_Validators state))"

text \<open>\<open>Inr\<close> is a stored statistic, \<open>Inl\<close> the key and address of a validator without one.\<close>

definition DPOS_ListValidators ::
    "(bytes \<Rightarrow> bytes) \<Rightarrow> call_ctx \<Rightarrow> dpos_store \<Rightarrow> (bytes \<times> address + ValidatorStatistic) list res" where
  "DPOS_ListValidators local_of_key ctx s =
     bind_res (ValidatorList s) (\<lambda>validators.
     Inr (map (\<lambda>validator.
       let addr = Address (block_chain_id ctx) (local_of_key (va_PubKey validator)) in
       case GetStatistic s addr of
         None \<Rightarrow> Inl (va_PubKey validator, addr)
       | Some stat \<Rightarrow> Inr stat) validators))"

definition DPOS_ListDelegations :: "dpos_store \<Rightarrow> address option \<Rightarrow> (Delegation list \<times> int) res" where
  "DPOS_ListDelegations s candidate =
     (case candidate of
        None \<Rightarrow> Inl (Err ''ListDelegations called with req.Candidate == nil'')
      | Some c \<Rightarrow>
          let delegations = List.map_filter (\<lambda>d. GetDelegation s (di_Index d) (di_Validator d) (di_Delegator d))
                (filter (\<lambda>d. Local (di_Validator d) = Local c) (dp_delegation_list s))
          in Inr (delegations, foldl (\<lambda>tot d. tot + dl_Amount d) 0 delegations))"

definition DPOS_ListAllDelegations :: "dpos_store \<Rightarrow> (Delegation list \<times> int) list res" where
  "DPOS_ListAllDelegations s =
     fold_res (\<lambda>candidate responses.
       bind_res (DPOS_ListDelegations s (Some (cd_Address candidate))) (\<lambda>response. Inr (responses @ [response])))
       (dp_candidates s) []"

definition DPOS_CheckRewards :: "dpos_store \<Rightarrow> int res" where
  "DPOS_CheckRewards s = bind_res (loadState s) (\<lambda>state. Inr (ds_TotalRewardDistribution state))"

definition DPOS_CheckRewardDelegation :: "call_ctx \<Rightarrow> address option \<Rightarrow> dpos_store \<Rightarrow> Delegation res" where
  "DPOS_CheckRewardDelegation ctx validator s =
     (case validator of
        None \<Rightarrow> Inl (Err ''CheckRewardDelegation called with req.ValdiatorAddress == nil'')
      | Some v \<Rightarrow>
          (case GetDelegation s REWARD_DELEGATION_INDEX v (sender ctx) of
             None \<Rightarrow> Inr \<lparr>dl_Validator = v, dl_Delegator = sender ctx, dl_Index = REWARD_DELEGATION_INDEX,
               dl_Amount = 0, dl_UpdateAmount = 0, dl_UpdateValidator = None, dl_LocktimeTier = TierMap 0,
               dl_LockTime = 0, dl_State = BONDED, dl_Referrer = ''''\<rparr>
           | Some delegation \<Rightarrow> Inr delegation))"

definition DPOS_GetState :: "dpos_store \<Rightarrow> DposState res" where
  "DPOS_GetState s = loadState s"

definition DPOS_GetRequestBatchTally :: "dpos_store \<Rightarrow> RequestBatchTally" where
  "DPOS_GetRequestBatchTally s = dp_tally s"

section \<open>What the contract owes\<close>

text \<open>
  The amount a delegation stands for: what is bonded and, while it is bonding, what was paid in for
  it. \<open>claims\<close> is the sum over the stored delegations, the tokens the contract owes.
\<close>

definition owed :: "Delegation \<Rightarrow> int" where
  "owed d = dl_Amount d + (if dl_State d = BONDING then dl_UpdateAmount d else 0)"

definition claims :: "dpos_store \<Rightarrow> int" where
  "claims s = (\<Sum>e\<leftarrow>dp_delegations s. owed (snd e))"

definition owed_at :: "dpos_store \<Rightarrow> del_key \<Rightarrow> int" where
  "owed_at s k = (case map_of (dp_delegations s) k of None \<Rightarrow> 0 | Some d \<Rightarrow> owed d)"

lemma sum_alist_update:
  "distinct (map fst al) \<Longrightarrow> (\<Sum>e\<leftarrow>AList.update k d al. f (snd e)) =
     (\<Sum>e\<leftarrow>al. f (snd e)) - (case map_of al k of None \<Rightarrow> 0 | Some d' \<Rightarrow> f d') + (f d :: int)"
proof (induction al)
  case (Cons a al)
  show ?case
  proof (cases "fst a = k")
    case True
    then show ?thesis by (cases a) simp
  next
    case False
    with Cons show ?thesis by (cases a) simp
  qed
qed simp

lemma sum_alist_delete:
  "distinct (map fst al) \<Longrightarrow> (\<Sum>e\<leftarrow>AList.delete k al. f (snd e)) =
     (\<Sum>e\<leftarrow>al. f (snd e)) - (case map_of al k of None \<Rightarrow> 0 | Some d' \<Rightarrow> (f d' :: int))"
proof (induction al)
  case (Cons a al)
  show ?case
  proof (cases "fst a = k")
    case True
    with Cons.prems have "k \<notin> fst ` set al" by auto
    then have "AList.delete k al = al" by (simp add: delete_idem)
    with True show ?thesis by (cases a) simp
  next
    case False
    with Cons show ?thesis by (cases a) simp
  qed
qed simp

text \<open>
  Every delegation is stored once, under its own key: the part of the agreement between list and
  store that deleting always keeps.
\<close>

definition keys_ok :: "dpos_store \<Rightarrow> bool" where
  "keys_ok s \<longleftrightarrow> distinct (map fst (dp_delegations s)) \<and>
     (\<forall>k d. map_of (dp_delegations s) k = Some d \<longrightarrow> key_of d = k)"

lemma delegations_ok_keys [intro]: "delegations_ok s \<Longrightarrow> keys_ok s"
  unfolding delegations_ok_def keys_ok_def by blast

lemma keys_ok_Set [intro]: "keys_ok s \<Longrightarrow> keys_ok (SetDelegation d s)"
  unfolding keys_ok_def dp_delegations_Set by (simp add: distinct_update update_conv')

lemma keys_ok_Delete [intro]: "keys_ok s \<Longrightarrow> keys_ok (DeleteDelegation d s)"
  unfolding keys_ok_def dp_delegations_Delete by (simp add: distinct_delete delete_conv')

lemma keys_ok_coin [simp]: "keys_ok (s\<lparr>dp_coin := c\<rparr>) = keys_ok s"
  by (simp add: keys_ok_def)

lemma claims_Set [store_simps]:
  "keys_ok s \<Longrightarrow> claims (SetDelegation d s) = claims s - owed_at s (key_of d) + owed d"
  by (simp add: claims_def owed_at_def dp_delegations_Set sum_alist_update keys_ok_def)

lemma claims_Delete [store_simps]:
  "keys_ok s \<Longrightarrow> claims (DeleteDelegation d s) = claims s - owed_at s (key_of d)"
  by (simp add: claims_def owed_at_def dp_delegations_Delete sum_alist_delete keys_ok_def)

lemma owed_at_Get: "owed_at s (computeDelegationsKey i v w) =
   (case GetDelegation s i v w of None \<Rightarrow> 0 | Some d \<Rightarrow> owed d)"
  by (simp add: owed_at_def GetDelegation_def)

lemma claims_coin [simp]: "claims (s\<lparr>dp_coin := c\<rparr>) = claims s"
  by (simp add: claims_def)

lemma delegations_ok_coin [simp]: "delegations_ok (s\<lparr>dp_coin := c\<rparr>) = delegations_ok s"
  by (simp add: delegations_ok_def)

lemma GetDelegation_coin [simp]: "GetDelegation (s\<lparr>dp_coin := c\<rparr>) i v w = GetDelegation s i v w"
  by (simp add: GetDelegation_def)

lemma GetDelegation_key:
  assumes "keys_ok s" and "GetDelegation s i v w = Some d"
  shows "key_of d = computeDelegationsKey i v w"
  using assms unfolding keys_ok_def GetDelegation_def by blast

lemma next_index_loop_free:
  "next_index_loop n s i v w = Inr j \<Longrightarrow> GetDelegation s j v w = None"
  by (induction n s i v w rule: next_index_loop.induct) (auto split: if_splits)

lemma next_index_free: "GetNextDelegationIndex s v w = Inr j \<Longrightarrow> GetDelegation s j v w = None"
  unfolding GetNextDelegationIndex_def by (rule next_index_loop_free)

text \<open>The token calls of the contract, through the ERC20 interface of the coin contract.\<close>

lemma ERC20_TransferD:
  assumes "wf_coin_store (dp_coin s)" and "ERC20_Transfer ctx to amount s = Inr s'"
  obtains c where "s' = s\<lparr>dp_coin := c\<rparr>" and "wf_coin_store c" and "amount \<le> bal_of (dp_coin s) (contract_address ctx)"
    and "bal_of c = moved (bal_of (dp_coin s)) (contract_address ctx) to amount"
    and "allow_of c = allow_of (dp_coin s)" and "supply_of c = supply_of (dp_coin s)"
proof -
  from assms(2) obtain c where c: "Coin_Transfer (ctx\<lparr>sender := contract_address ctx\<rparr>) (dp_coin s)
      \<lparr>tr_to = to, tr_amount = Some amount\<rparr> = Inr c" and s': "s' = s\<lparr>dp_coin := c\<rparr>"
    unfolding ERC20_Transfer_def by (auto elim: bind_resE)
  from that [OF s'] coin.transferD [OF assms(1) c] show thesis by blast
qed

lemma ERC20_TransferFromD:
  assumes "wf_coin_store (dp_coin s)" and "ERC20_TransferFrom ctx src dst amount s = Inr s'"
  obtains c where "s' = s\<lparr>dp_coin := c\<rparr>" and "wf_coin_store c"
    and "amount \<le> bal_of (dp_coin s) src" and "amount \<le> allow_of (dp_coin s) (src, contract_address ctx)"
    and "bal_of c = moved (bal_of (dp_coin s)) src dst amount"
    and "allow_of c = (allow_of (dp_coin s))((src, contract_address ctx) :=
           allow_of (dp_coin s) (src, contract_address ctx) - amount)"
    and "supply_of c = supply_of (dp_coin s)"
proof -
  from assms(2) obtain c where c: "Coin_TransferFrom (ctx\<lparr>sender := contract_address ctx\<rparr>) (dp_coin s)
      \<lparr>tf_from = src, tf_to = dst, tf_amount = Some amount\<rparr> = Inr c" and s': "s' = s\<lparr>dp_coin := c\<rparr>"
    unfolding ERC20_TransferFrom_def by (auto elim: bind_resE)
  from that [OF s'] coin.transferFromD [OF assms(1) c] show thesis by blast
qed

lemma DPOS_DelegateD:
  assumes "DPOS_Delegate ctx req s = Inr s'"
  obtains v amount s1 index where
    "dq_ValidatorAddress req = Some v" and "dq_Amount req = Some amount" and "0 < amount"
    and "GetCandidate s v \<noteq> None" and "dq_LocktimeTier req \<le> 3"
    and "ERC20_TransferFrom ctx (sender ctx) (contract_address ctx) amount s = Inr s1"
    and "GetNextDelegationIndex s1 v (sender ctx) = Inr index"
    and "s' = SetDelegation
      \<lparr>dl_Validator = v, dl_Delegator = sender ctx, dl_Index = index, dl_Amount = 0, dl_UpdateAmount = amount,
       dl_UpdateValidator = None, dl_LocktimeTier = TierMap (dq_LocktimeTier req),
       dl_LockTime = unix_u64 ctx + TierLocktimeMap (TierMap (dq_LocktimeTier req)),
       dl_State = BONDING, dl_Referrer = dq_Referrer req\<rparr> s1"
  using assms unfolding DPOS_Delegate_def Let_def
  by (auto elim!: bind_resE split: option.split_asm if_split_asm simp: not_less intro: that)

section \<open>Requests relayed by the oracle\<close>

text \<open>The position of an event on the other chain; positions are compared lexicographically.\<close>

definition meta_pos :: "BatchRequestMeta \<Rightarrow> u64 \<times> u64 \<times> u64" where
  "meta_pos m = (bm_BlockNumber m, bm_TxIndex m, bm_LogIndex m)"

definition tally_pos :: "RequestBatchTally \<Rightarrow> u64 \<times> u64 \<times> u64" where
  "tally_pos t = (LastSeenBlockNumber t, LastSeenTxIndex t, LastSeenLogIndex t)"

lemma already_seen_iff: "isRequestAlreadySeen m t \<longleftrightarrow> meta_pos m \<le> tally_pos t"
  by (auto simp: isRequestAlreadySeen_def meta_pos_def tally_pos_def)

lemma tally_pos_of [simp]: "tally_pos (tally_of m) = meta_pos m"
  by (simp add: tally_pos_def tally_of_def meta_pos_def)

lemma addCandidate_frame:
  "addCandidateToStatisticList req s = Inr s' \<Longrightarrow> dp_state s' = dp_state s \<and> dp_tally s' = dp_tally s"
  unfolding addCandidateToStatisticList_def Let_def
  by (auto elim!: bind_resE split: option.split_asm if_split_asm simp: SetStatistic_def)

lemma batch_loop_frame:
  "batch_loop rs (s, t, e) = Inr (s', t', e') \<Longrightarrow>
   dp_state s' = dp_state s \<and> dp_tally s' = dp_tally s \<and> tally_pos t \<le> tally_pos t'"
proof (induction rs arbitrary: s t e)
  case (Cons r rs)
  show ?case
  proof (cases "br_Payload r")
    case (BatchWhitelistCandidate req)
    with Cons.prems obtain m where m: "br_Meta r = Some m"
      by (auto elim!: bind_resE)
    show ?thesis
    proof (cases "isRequestAlreadySeen m t")
      case True
      with Cons m BatchWhitelistCandidate show ?thesis by simp
    next
      case False
      then have lt: "tally_pos t \<le> tally_pos (tally_of m)" by (simp add: already_seen_iff)
      show ?thesis
      proof (cases "addCandidateToStatisticList req s")
        case (Inl err)
        with Cons.prems m BatchWhitelistCandidate False show ?thesis by (cases err) auto
      next
        case (Inr s1)
        with Cons.prems m BatchWhitelistCandidate False
        have "batch_loop rs (s1, tally_of m, None) = Inr (s', t', e')" by simp
        from Cons.IH [OF this] addCandidate_frame [OF Inr] lt show ?thesis by (auto intro: order.trans)
      qed
    qed
  next
    case BatchUnsupported
    with Cons show ?thesis by simp
  qed
qed simp

text \<open>When the loop ends without an error, its last request has been seen.\<close>

lemma batch_loop_last_seen:
  "batch_loop rs (s, t, e) = Inr (s', t', None) \<Longrightarrow> rs \<noteq> [] \<Longrightarrow> br_Meta (last rs) = Some m \<Longrightarrow>
   meta_pos m \<le> tally_pos t'"
proof (induction rs arbitrary: s t e)
  case (Cons r rs)
  have later: "meta_pos m \<le> tally_pos t'" if "batch_loop rs (s1, t1, e1) = Inr (s', t', None)" "rs \<noteq> []" for s1 t1 e1
    using Cons.IH [OF that] Cons.prems(3) that(2) by simp
  show ?case
  proof (cases "br_Payload r")
    case (BatchWhitelistCandidate req)
    with Cons.prems obtain m0 where m0: "br_Meta r = Some m0" by (auto elim!: bind_resE)
    show ?thesis
    proof (cases "isRequestAlreadySeen m0 t")
      case True
      with Cons.prems m0 BatchWhitelistCandidate have go: "batch_loop rs (s, t, e) = Inr (s', t', None)" by simp
      show ?thesis
      proof (cases "rs = []")
        case True
        with go m0 Cons.prems(3) \<open>isRequestAlreadySeen m0 t\<close> show ?thesis by (simp add: already_seen_iff)
      next
        case False
        with go later show ?thesis by blast
      qed
    next
      case False
      with Cons.prems m0 BatchWhitelistCandidate obtain s1
        where go: "batch_loop rs (s1, tally_of m0, None) = Inr (s', t', None)"
        by (auto split: sum.split_asm go_error.split_asm)
      show ?thesis
      proof (cases "rs = []")
        case True
        with go m0 Cons.prems(3) show ?thesis by auto
      next
        case False
        with go later show ?thesis by blast
      qed
    qed
  next
    case BatchUnsupported
    with Cons.prems(1) have go: "batch_loop rs (s, t, Some (Err ''unsupported type of request in request batch'')) = Inr (s', t', None)"
      by simp
    then have "rs \<noteq> []" by auto
    with go later show ?thesis by blast
  qed
qed simp

lemma ProcessRequestBatchD:
  assumes "DPOS_ProcessRequestBatch ctx batch s = Inr s'"
  obtains state ora m s1 t where "dp_state s = Some state"
    and "pa_OracleAddress (ds_Params state) = Some ora" and "Local (sender ctx) = Local ora"
    and "batch \<noteq> []" and "br_Meta (last batch) = Some m" and "\<not> isRequestAlreadySeen m (dp_tally s)"
    and "batch_loop batch (s, dp_tally s, None) = Inr (s1, t, None)" and "s' = s1\<lparr>dp_tally := t\<rparr>"
  using assms unfolding DPOS_ProcessRequestBatch_def loadState_def
  by (auto elim!: bind_resE split: option.split_asm if_split_asm prod.split_asm intro: that)

section \<open>Properties\<close>

text \<open>C6: Delegating. A successful Delegate was for a positive amount, to a registered candidate; it
  moved exactly that amount from the delegator to the contract within the delegator's balance and
  allowance, stored one new delegation in state BONDING at an index the delegator did not use for
  the validator, and left every other delegation and the bookkeeping alone. What the contract owes
  grows by exactly what it received.\<close>

theorem delegate_effect:
  assumes "delegations_ok s" and "wf_coin_store (dp_coin s)" and "sender ctx \<noteq> contract_address ctx"
    and "DPOS_Delegate ctx req s = Inr s'"
  shows "\<exists>v amount index d. dq_ValidatorAddress req = Some v \<and> dq_Amount req = Some amount \<and>
    0 < amount \<and> amount \<le> bal_of (dp_coin s) (sender ctx) \<and>
    amount \<le> allow_of (dp_coin s) (sender ctx, contract_address ctx) \<and> GetCandidate s v \<noteq> None \<and>
    GetDelegation s index v (sender ctx) = None \<and>
    dl_State d = BONDING \<and> dl_Amount d = 0 \<and> dl_UpdateAmount d = amount \<and>
    (\<forall>i v' w. GetDelegation s' i v' w =
      (if (i, Local v', Local w) = (index, Local v, Local (sender ctx)) then Some d else GetDelegation s i v' w)) \<and>
    delegations_ok s' \<and> wf_coin_store (dp_coin s') \<and>
    bal_of (dp_coin s') (sender ctx) = bal_of (dp_coin s) (sender ctx) - amount \<and>
    bal_of (dp_coin s') (contract_address ctx) = bal_of (dp_coin s) (contract_address ctx) + amount \<and>
    claims s' = claims s + amount"
proof -
  from assms(4) obtain v amount s1 index where r: "dq_ValidatorAddress req = Some v" "dq_Amount req = Some amount"
    "0 < amount" "GetCandidate s v \<noteq> None"
    and tf: "ERC20_TransferFrom ctx (sender ctx) (contract_address ctx) amount s = Inr s1"
    and ix: "GetNextDelegationIndex s1 v (sender ctx) = Inr index"
    and s': "s' = SetDelegation
      \<lparr>dl_Validator = v, dl_Delegator = sender ctx, dl_Index = index, dl_Amount = 0, dl_UpdateAmount = amount,
       dl_UpdateValidator = None, dl_LocktimeTier = TierMap (dq_LocktimeTier req),
       dl_LockTime = unix_u64 ctx + TierLocktimeMap (TierMap (dq_LocktimeTier req)),
       dl_State = BONDING, dl_Referrer = dq_Referrer req\<rparr> s1" (is "s' = SetDelegation ?d s1")
    by (rule DPOS_DelegateD)
  from ERC20_TransferFromD [OF assms(2) tf] obtain c where s1: "s1 = s\<lparr>dp_coin := c\<rparr>"
    and c: "wf_coin_store c" "amount \<le> bal_of (dp_coin s) (sender ctx)"
      "amount \<le> allow_of (dp_coin s) (sender ctx, contract_address ctx)"
      "bal_of c = moved (bal_of (dp_coin s)) (sender ctx) (contract_address ctx) amount" by metis
  have free: "GetDelegation s index v (sender ctx) = None" using next_index_free [OF ix] by (simp add: s1)
  have key: "key_of ?d = computeDelegationsKey index v (sender ctx)" by (simp add: key_of_def)
  have "claims s' = claims s + amount"
    using delegations_ok_keys [OF assms(1)] free by (simp add: s' s1 claims_Set key owed_at_Get) (simp add: owed_def)
  moreover have "delegations_ok s'" using assms(1) by (simp add: s' s1 SetDelegation_ok)
  moreover have "\<forall>i v' w. GetDelegation s' i v' w =
      (if (i, Local v', Local w) = (index, Local v, Local (sender ctx)) then Some ?d else GetDelegation s i v' w)"
    unfolding s' GetDelegation_Set key by (simp add: s1 computeDelegationsKey_def)
  moreover have "bal_of (dp_coin s') = moved (bal_of (dp_coin s)) (sender ctx) (contract_address ctx) amount"
    "wf_coin_store (dp_coin s')" using c by (simp_all add: s' s1)
  moreover from this assms(3) have "bal_of (dp_coin s') (sender ctx) = bal_of (dp_coin s) (sender ctx) - amount"
    "bal_of (dp_coin s') (contract_address ctx) = bal_of (dp_coin s) (contract_address ctx) + amount"
    by (simp_all add: moved_def)
  ultimately show ?thesis using r c(2,3) free
    by (intro exI [of _ v] exI [of _ amount] exI [of _ index] exI [of _ ?d]) simp
qed

definition demo_delegator :: address where "demo_delegator = Address ''default'' [2]"
definition demo_contract :: address where "demo_contract = Address ''default'' [0]"

definition demo_coin :: coin_store where
  "demo_coin = put_allowance (put_account empty_coin_store \<lparr>acct_owner = demo_delegator, acct_balance = 100\<rparr>)
     \<lparr>alw_owner = demo_delegator, alw_spender = demo_contract, alw_amount = Some 50\<rparr>"

definition demo_params :: DposParams where
  "demo_params = \<lparr>pa_ValidatorCount = 4, pa_ElectionCycleLength = 0, pa_MaxYearlyReward = Some 1000,
     pa_RegistrationRequirement = Some 10, pa_CoinContractAddress = Some (Address ''default'' [9]),
     pa_OracleAddress = Some (Address ''default'' [7]), pa_CrashSlashingPercentage = Some 100,
     pa_ByzantineSlashingPercentage = Some 500\<rparr>"

definition demo_state :: DposState where
  "demo_state = \<lparr>ds_Params = demo_params, ds_Validators = [], ds_LastElectionTime = 0,
     ds_TotalValidatorDelegations = 0, ds_TotalRewardDistribution = 0\<rparr>"

definition demo_candidate :: Candidate where
  "demo_candidate = \<lparr>cd_PubKey = [1, 1], cd_Address = Address ''default'' [1], cd_Fee = 100, cd_NewFee = 100,
     cd_Name = ''a'', cd_Description = '''', cd_Website = '''', cd_State = REGISTERED,
     cd_MaxReferralPercentage = 1000\<rparr>"

definition demo_dpos :: dpos_store where
  "demo_dpos = empty_dpos\<lparr>dp_state := Some demo_state, dp_candidates := [demo_candidate], dp_coin := demo_coin\<rparr>"

definition demo_delegate_req :: DelegateRequest where
  "demo_delegate_req = \<lparr>dq_ValidatorAddress = Some (Address ''default'' [1]), dq_Amount = Some 30,
     dq_LocktimeTier = 1, dq_Referrer = ''''\<rparr>"

lemmas demo_defs =
  demo_dpos_def demo_state_def demo_params_def demo_candidate_def demo_coin_def demo_delegator_def
  demo_contract_def empty_dpos_def

lemma demo_dpos_fields [simp]:
  "dp_state demo_dpos = Some demo_state" "dp_candidates demo_dpos = [demo_candidate]"
  "dp_delegation_list demo_dpos = []" "dp_delegations demo_dpos = []" "dp_statistics demo_dpos = Map.empty"
  "dp_referrers demo_dpos = Map.empty" "dp_coin demo_dpos = demo_coin"
  by (simp_all add: demo_dpos_def empty_dpos_def)

lemma demo_dpos_ok: "delegations_ok demo_dpos" "wf_coin_store (dp_coin demo_dpos)"
  by (simp_all add: demo_dpos_def demo_coin_def delegations_ok_def empty_dpos_def store_simps)

theorem delegate_effect_witness:
  "\<exists>s'. DPOS_Delegate (plain_ctx demo_delegator) demo_delegate_req demo_dpos = Inr s' \<and>
     claims s' = claims demo_dpos + 30 \<and> bal_of (dp_coin s') demo_contract = bal_of (dp_coin demo_dpos) demo_contract + 30"
proof -
  have "\<exists>c. Coin_TransferFrom ((plain_ctx demo_delegator)\<lparr>sender := demo_contract\<rparr>) demo_coin
      \<lparr>tf_from = demo_delegator, tf_to = demo_contract, tf_amount = Some 30\<rparr> = Inr c"
    by (simp add: Coin_TransferFrom_def Coin_loadAccount_def Coin_loadAllowance_def coin_op_simps demo_coin_def
        put_allowance_def put_account_def empty_coin_store_def demo_delegator_def demo_contract_def)
  then obtain c where c: "Coin_TransferFrom ((plain_ctx demo_delegator)\<lparr>sender := demo_contract\<rparr>) demo_coin
      \<lparr>tf_from = demo_delegator, tf_to = demo_contract, tf_amount = Some 30\<rparr> = Inr c" ..
  have "ERC20_TransferFrom (plain_ctx demo_delegator) demo_delegator demo_contract 30 demo_dpos =
      Inr (demo_dpos\<lparr>dp_coin := c\<rparr>)"
    using c by (simp add: ERC20_TransferFrom_def demo_dpos_def demo_contract_def)
  then have "\<exists>s'. DPOS_Delegate (plain_ctx demo_delegator) demo_delegate_req demo_dpos = Inr s'"
    by (simp add: DPOS_Delegate_def demo_delegate_req_def GetCandidate_def check_referrer_def GetReferrer_def
        loadCoin_def loadState_def GetNextDelegationIndex_def GetDelegation_def unix_u64_def TierMap_def
        TierLocktimeMap_def demo_contract_def [symmetric] demo_candidate_def demo_state_def demo_params_def)
  then obtain s' where s': "DPOS_Delegate (plain_ctx demo_delegator) demo_delegate_req demo_dpos = Inr s'" ..
  from delegate_effect [OF demo_dpos_ok _ s']
  have "claims s' = claims demo_dpos + 30 \<and>
      bal_of (dp_coin s') demo_contract = bal_of (dp_coin demo_dpos) demo_contract + 30"
    by (auto simp: demo_delegate_req_def demo_delegator_def demo_contract_def)
  with s' show ?thesis by blast
qed

lemma DPOS_RedelegateE:
  assumes "rq_FormerValidatorAddress req = Some former"
    and "GetDelegation s (rq_Index req) former (sender ctx) = Some prior"
    and "DPOS_Redelegate ctx req s = Inr s'"
  obtains (full) v tier l where "rq_Amount req = None \<or> rq_Amount req = Some (dl_Amount prior)"
      and "s' = SetDelegation (prior\<lparr>dl_UpdateValidator := Some v, dl_State := REDELEGATING, dl_LocktimeTier := tier,
        dl_LockTime := l, dl_Referrer := rq_Referrer req\<rparr>) s"
    | (part) v tier l amount index where "Local former \<noteq> Local v" and "rq_Amount req = Some amount"
      and "0 < amount" and "amount < dl_Amount prior"
      and "GetNextDelegationIndex s v (dl_Delegator prior) = Inr index"
      and "s' = SetDelegation (prior\<lparr>dl_State := UNBONDING, dl_UpdateAmount := amount\<rparr>) (SetDelegation
        \<lparr>dl_Validator = v, dl_Delegator = dl_Delegator prior, dl_Index = index, dl_Amount = 0,
         dl_UpdateAmount = amount, dl_UpdateValidator = None, dl_LocktimeTier = tier, dl_LockTime = l,
         dl_State = BONDING, dl_Referrer = rq_Referrer req\<rparr> s)"
  using assms(3) unfolding DPOS_Redelegate_def Let_def assms(1)
  apply (auto simp: assms(2) not_less elim!: bind_resE split: option.split_asm if_split_asm intro: full part)
  subgoal for x2 x a b i by (rule part [of x x2 i a b]) simp_all
  subgoal for x2 x y a b i by (rule part [of x x2 i a b]) simp_all
  done

text \<open>Redelegating moves no tokens, but changes what the contract owes. A partial redelegation
  both puts the amount up for payout from the former delegation, whatever its lock time or state, and
  stores a new bonding delegation of the same amount, so that the contract owes the amount twice. A
  full redelegation of a delegation that is still bonding forgets the amount paid in for it; of any
  other delegation it keeps what is owed.\<close>

theorem redelegate_claims:
  assumes "delegations_ok s" and "rq_FormerValidatorAddress req = Some former"
    and "GetDelegation s (rq_Index req) former (sender ctx) = Some prior"
    and "DPOS_Redelegate ctx req s = Inr s'"
  shows "dp_coin s' = dp_coin s \<and> delegations_ok s' \<and>
    (case rq_Amount req of
       Some amount \<Rightarrow> if amount < dl_Amount prior
         then claims s' = claims s + amount - (owed prior - dl_Amount prior) \<and>
              GetDelegation s' (rq_Index req) former (sender ctx) =
                Some (prior\<lparr>dl_State := UNBONDING, dl_UpdateAmount := amount\<rparr>)
         else amount = dl_Amount prior \<and> claims s' = claims s - (owed prior - dl_Amount prior)
     | None \<Rightarrow> claims s' = claims s - (owed prior - dl_Amount prior))"
proof -
  let ?k = "computeDelegationsKey (rq_Index req) former (sender ctx)"
  have key: "key_of prior = ?k" by (rule GetDelegation_key [OF delegations_ok_keys [OF assms(1)] assms(3)])
  have k': "computeDelegationsKey (dl_Index prior) (dl_Validator prior) (dl_Delegator prior) = ?k"
    using key by (simp add: key_of_def)
  have at: "owed_at s ?k = owed prior" using assms(3) by (simp add: owed_at_Get)
  have upd: "key_of (prior\<lparr>dl_UpdateValidator := uv, dl_State := st, dl_LocktimeTier := lt, dl_LockTime := l, dl_Referrer := r\<rparr>) = ?k"
    "key_of (prior\<lparr>dl_State := st, dl_UpdateAmount := a\<rparr>) = ?k" for uv st lt l r a
    using k' by (simp_all add: key_of_def)
  have moved_on: "claims s' = claims s - (owed prior - dl_Amount prior) \<and> delegations_ok s' \<and> dp_coin s' = dp_coin s"
    if "s' = SetDelegation (prior\<lparr>dl_UpdateValidator := uv, dl_State := REDELEGATING, dl_LocktimeTier := lt,
        dl_LockTime := l, dl_Referrer := r\<rparr>) s" for uv lt l r
    using assms(1) delegations_ok_keys [OF assms(1)] that
    by (simp add: claims_Set SetDelegation_ok upd at) (simp add: owed_def)
  have split_off: "claims s' = claims s + amount - (owed prior - dl_Amount prior) \<and> delegations_ok s' \<and>
      dp_coin s' = dp_coin s \<and> GetDelegation s' (rq_Index req) former (sender ctx) =
        Some (prior\<lparr>dl_State := UNBONDING, dl_UpdateAmount := amount\<rparr>)"
    if ne: "Local former \<noteq> Local v" and ix: "GetNextDelegationIndex s v (dl_Delegator prior) = Inr index"
      and n: "dl_Validator n = v" "dl_Delegator n = dl_Delegator prior" "dl_Index n = index" "owed n = amount"
      and s': "s' = SetDelegation (prior\<lparr>dl_State := UNBONDING, dl_UpdateAmount := amount\<rparr>) (SetDelegation n s)"
    for v index n amount
  proof -
    have kn: "key_of n = computeDelegationsKey index v (dl_Delegator prior)" by (simp add: key_of_def n)
    have free: "owed_at s (key_of n) = 0" using next_index_free [OF ix] by (simp add: kn owed_at_Get)
    have "owed_at (SetDelegation n s) ?k = owed prior"
      unfolding owed_at_Get GetDelegation_Set kn using ne assms(3) by (simp add: computeDelegationsKey_def)
    with assms(1) delegations_ok_keys [OF assms(1)] free show ?thesis
      by (simp add: s' claims_Set keys_ok_Set SetDelegation_ok upd n GetDelegation_Set) (simp add: owed_def)
  qed
  from assms(2,3,4) show ?thesis
  proof (cases rule: DPOS_RedelegateE)
    case (full v tier l)
    from moved_on [OF full(2)] full(1) show ?thesis by (auto split: option.split)
  next
    case (part v tier l amount index)
    from split_off [OF part(1,5) _ _ _ _ part(6)] part(2,4) show ?thesis by (simp add: owed_def)
  qed
qed

definition demo_redelegate_req :: RedelegateRequest where
  "demo_redelegate_req = \<lparr>rq_FormerValidatorAddress = Some (Address ''default'' [1]),
     rq_ValidatorAddress = Some limboValidatorAddress, rq_Amount = Some 30, rq_NewLocktimeTier = 0, rq_Index = 1,
     rq_Referrer = ''''\<rparr>"

theorem redelegate_claims_witness:
  "\<exists>s'. DPOS_Redelegate (plain_ctx demo_delegator) demo_redelegate_req (SetDelegation (demo_delegation 1 100) demo_dpos) = Inr s' \<and>
     claims s' = claims (SetDelegation (demo_delegation 1 100) demo_dpos) + 30"
proof -
  let ?s = "SetDelegation (demo_delegation 1 100) demo_dpos"
  have ok: "delegations_ok ?s" by (rule SetDelegation_ok [OF demo_dpos_ok(1)])
  have get: "GetDelegation ?s 1 (Address ''default'' [1]) (Address ''default'' [2]) = Some (demo_delegation 1 100)"
    by (simp add: GetDelegation_Set key_of_def demo_delegation_def)
  have ne: "replicate 20 (0 :: 8 word) \<noteq> [1]" by (auto dest: arg_cong [of _ _ length])
  have "GetNextDelegationIndex ?s limboValidatorAddress (Address ''default'' [2]) = Inr 1"
    by (simp add: GetNextDelegationIndex_def GetDelegation_Set key_of_def demo_delegation_def computeDelegationsKey_def
        limboValidatorAddress_def ne) (simp add: GetDelegation_def)
  then have "\<exists>s'. DPOS_Redelegate (plain_ctx demo_delegator) demo_redelegate_req ?s = Inr s'"
    using get by (simp add: DPOS_Redelegate_def demo_redelegate_req_def demo_delegator_def redelegate_tier_def)
      (simp add: demo_delegation_def limboValidatorAddress_def ne [symmetric])
  then obtain s' where s': "DPOS_Redelegate (plain_ctx demo_delegator) demo_redelegate_req ?s = Inr s'" ..
  from redelegate_claims [OF ok _ _ s', of "Address ''default'' [1]" "demo_delegation 1 100"] get
  have "claims s' = claims ?s + 30"
    by (simp add: demo_redelegate_req_def demo_delegator_def) (simp add: demo_delegation_def owed_def)
  with s' show ?thesis by blast
qed

definition is_oracle :: "call_ctx \<Rightarrow> dpos_store \<Rightarrow> bool" where
  "is_oracle ctx s \<longleftrightarrow>
     (case dp_state s of
        None \<Rightarrow> False
      | Some state \<Rightarrow>
          (case pa_OracleAddress (ds_Params state) of None \<Rightarrow> False | Some a \<Rightarrow> Local (sender ctx) = Local a))"

lemma only_oracle_iff: "only_oracle ctx s = Inr state \<longleftrightarrow> is_oracle ctx s \<and> dp_state s = Some state"
  by (auto simp: only_oracle_def is_oracle_def loadState_def split: option.splits)

lemma not_oracle: "\<not> is_oracle ctx s \<Longrightarrow> isl (only_oracle ctx s)"
  by (cases "only_oracle ctx s") (auto simp: only_oracle_iff)

lemmas oracle_method_defs =
  DPOS_WhitelistCandidate_def DPOS_RemoveWhitelistedCandidate_def DPOS_ChangeWhitelistInfo_def
  DPOS_RegisterReferrer_def DPOS_SetElectionCycle_def DPOS_SetMaxYearlyReward_def
  DPOS_SetRegistrationRequirement_def DPOS_SetValidatorCount_def DPOS_SetOracleAddress_def
  DPOS_SetSlashingPercentages_def set_params_def

lemma isl_bind: "isl m \<Longrightarrow> isl (bind_res m k)"
  by (cases m) auto

text \<open>Methods of the oracle. Unless the caller is the stored oracle, the whitelist, the referrers,
  the parameters and the request batch cannot be changed. For the oracle, each setting changes its
  own parameter, except SetValidatorCount, which changes no parameter whatever count it is given.\<close>

theorem oracle_only:
  "(\<not> is_oracle ctx s \<longrightarrow>
      isl (DPOS_WhitelistCandidate ctx wreq s) \<and> isl (DPOS_RemoveWhitelistedCandidate ctx a s) \<and>
      isl (DPOS_ChangeWhitelistInfo ctx wreq s) \<and> isl (DPOS_RegisterReferrer ctx name ra s) \<and>
      isl (DPOS_ProcessRequestBatch ctx batch s) \<and> isl (DPOS_SetElectionCycle ctx n s) \<and>
      isl (DPOS_SetMaxYearlyReward ctx r s) \<and> isl (DPOS_SetRegistrationRequirement ctx r s) \<and>
      isl (DPOS_SetValidatorCount ctx n s) \<and> isl (DPOS_SetOracleAddress ctx a s) \<and>
      isl (DPOS_SetSlashingPercentages ctx r r' s)) \<and>
   (is_oracle ctx s \<and> dp_state s = Some st \<longrightarrow>
      map_sum id (\<lambda>s. map_option ds_Params (dp_state s)) (DPOS_SetElectionCycle ctx n s) =
        Inr (Some ((ds_Params st)\<lparr>pa_ElectionCycleLength := n\<rparr>)) \<and>
      map_sum id (\<lambda>s. map_option ds_Params (dp_state s)) (DPOS_SetMaxYearlyReward ctx r s) =
        Inr (Some ((ds_Params st)\<lparr>pa_MaxYearlyReward := r\<rparr>)) \<and>
      map_sum id (\<lambda>s. map_option ds_Params (dp_state s)) (DPOS_SetRegistrationRequirement ctx r s) =
        Inr (Some ((ds_Params st)\<lparr>pa_RegistrationRequirement := r\<rparr>)) \<and>
      map_sum id (\<lambda>s. map_option ds_Params (dp_state s)) (DPOS_SetOracleAddress ctx a s) =
        Inr (Some ((ds_Params st)\<lparr>pa_OracleAddress := a\<rparr>)) \<and>
      map_sum id (\<lambda>s. map_option ds_Params (dp_state s)) (DPOS_SetValidatorCount ctx n s) =
        Inr (Some (ds_Params st)))"
proof (intro conjI impI)
  assume no: "\<not> is_oracle ctx s"
  note deny = isl_bind [OF not_oracle [OF no]]
  show "isl (DPOS_WhitelistCandidate ctx wreq s)" "isl (DPOS_RemoveWhitelistedCandidate ctx a s)"
    "isl (DPOS_ChangeWhitelistInfo ctx wreq s)" "isl (DPOS_RegisterReferrer ctx name ra s)"
    "isl (DPOS_SetElectionCycle ctx n s)" "isl (DPOS_SetMaxYearlyReward ctx r s)"
    "isl (DPOS_SetRegistrationRequirement ctx r s)" "isl (DPOS_SetValidatorCount ctx n s)"
    "isl (DPOS_SetOracleAddress ctx a s)" "isl (DPOS_SetSlashingPercentages ctx r r' s)"
    by (simp_all add: oracle_method_defs deny)
  show "isl (DPOS_ProcessRequestBatch ctx batch s)"
  proof (cases "DPOS_ProcessRequestBatch ctx batch s")
    case (Inr s')
    then show ?thesis by (rule ProcessRequestBatchD) (use no in \<open>simp add: is_oracle_def\<close>)
  qed simp
next
  assume "is_oracle ctx s \<and> dp_state s = Some st"
  then have "only_oracle ctx s = Inr st" by (simp add: only_oracle_iff)
  then show "map_sum id (\<lambda>s. map_option ds_Params (dp_state s)) (DPOS_SetElectionCycle ctx n s) =
        Inr (Some ((ds_Params st)\<lparr>pa_ElectionCycleLength := n\<rparr>))"
      "map_sum id (\<lambda>s. map_option ds_Params (dp_state s)) (DPOS_SetMaxYearlyReward ctx r s) =
        Inr (Some ((ds_Params st)\<lparr>pa_MaxYearlyReward := r\<rparr>))"
      "map_sum id (\<lambda>s. map_option ds_Params (dp_state s)) (DPOS_SetRegistrationRequirement ctx r s) =
        Inr (Some ((ds_Params st)\<lparr>pa_RegistrationRequirement := r\<rparr>))"
      "map_sum id (\<lambda>s. map_option ds_Params (dp_state s)) (DPOS_SetOracleAddress ctx a s) =
        Inr (Some ((ds_Params st)\<lparr>pa_OracleAddress := a\<rparr>))"
      "map_sum id (\<lambda>s. map_option ds_Params (dp_state s)) (DPOS_SetValidatorCount ctx n s) =
        Inr (Some (ds_Params st))"
    by (simp_all add: oracle_method_defs saveState_def)
qed

theorem oracle_only_witness:
  "isl (DPOS_SetElectionCycle (plain_ctx demo_delegator) 5 demo_dpos) \<and>
   map_sum id (\<lambda>s. map_option ds_Params (dp_state s))
     (DPOS_SetValidatorCount (plain_ctx (Address ''default'' [7])) 21 demo_dpos) = Inr (Some demo_params)"
proof -
  have "\<not> is_oracle (plain_ctx demo_delegator) demo_dpos" "is_oracle (plain_ctx (Address ''default'' [7])) demo_dpos"
    by (simp_all add: is_oracle_def demo_state_def demo_params_def demo_delegator_def)
  with oracle_only [of "plain_ctx demo_delegator" demo_dpos _ _ _ _ _ 5]
    oracle_only [of "plain_ctx (Address ''default'' [7])" demo_dpos _ _ _ _ _ 21 _ _ demo_state]
  show ?thesis by (simp add: demo_state_def)
qed

text \<open>Request batches are processed once. A batch that was processed moves the tally to a later
  position, at or after the batch's last request, touches nothing else of the bookkeeping but the
  statistics, and is refused when it is sent again.\<close>

theorem batch_no_replay:
  assumes "DPOS_ProcessRequestBatch ctx batch s = Inr s'"
  shows "tally_pos (dp_tally s) < tally_pos (dp_tally s') \<and>
    (\<exists>m. br_Meta (last batch) = Some m \<and> meta_pos m \<le> tally_pos (dp_tally s')) \<and>
    dp_state s' = dp_state s \<and>
    DPOS_ProcessRequestBatch ctx batch s' = Inl (Err ''invalid Request, all events has been already seen'')"
  using assms
proof (rule ProcessRequestBatchD)
  fix state ora m s1 t
  assume st: "dp_state s = Some state" and ora: "pa_OracleAddress (ds_Params state) = Some ora"
    "Local (sender ctx) = Local ora" and b: "batch \<noteq> []" and m: "br_Meta (last batch) = Some m"
    and new: "\<not> isRequestAlreadySeen m (dp_tally s)"
    and loop: "batch_loop batch (s, dp_tally s, None) = Inr (s1, t, None)" and s': "s' = s1\<lparr>dp_tally := t\<rparr>"
  have seen: "meta_pos m \<le> tally_pos t" by (rule batch_loop_last_seen [OF loop b m])
  moreover have "tally_pos (dp_tally s) < meta_pos m" using new by (simp add: already_seen_iff not_le)
  moreover have "dp_state s1 = Some state" using batch_loop_frame [OF loop] st by simp
  moreover from this have "DPOS_ProcessRequestBatch ctx batch s' =
      Inl (Err ''invalid Request, all events has been already seen'')"
    using ora b m seen by (simp add: DPOS_ProcessRequestBatch_def s' loadState_def already_seen_iff)
  ultimately show ?thesis using m st by (auto simp: s')
qed

definition demo_batch :: "BatchRequest list" where
  "demo_batch = [\<lparr>br_Meta = Some \<lparr>bm_BlockNumber = 3, bm_TxIndex = 0, bm_LogIndex = 1\<rparr>,
     br_Payload = BatchWhitelistCandidate \<lparr>wq_CandidateAddress = Some (Address ''default'' [1]),
       wq_Amount = Some 10, wq_LocktimeTier = 2\<rparr>\<rparr>]"

theorem batch_no_replay_witness:
  "\<exists>s'. DPOS_ProcessRequestBatch (plain_ctx (Address ''default'' [7])) demo_batch demo_dpos = Inr s' \<and>
     tally_pos (dp_tally demo_dpos) < tally_pos (dp_tally s') \<and>
     isl (DPOS_ProcessRequestBatch (plain_ctx (Address ''default'' [7])) demo_batch s')"
proof -
  have "\<exists>s'. DPOS_ProcessRequestBatch (plain_ctx (Address ''default'' [7])) demo_batch demo_dpos = Inr s'"
    by (simp add: DPOS_ProcessRequestBatch_def demo_batch_def loadState_def demo_state_def demo_params_def
        isRequestAlreadySeen_def addCandidateToStatisticList_def GetStatistic_def)
      (simp add: demo_dpos_def empty_dpos_def)
  then obtain s' where s': "DPOS_ProcessRequestBatch (plain_ctx (Address ''default'' [7])) demo_batch demo_dpos = Inr s'" ..
  with batch_no_replay [OF s'] show ?thesis by auto
qed

end
