(* ===== verification/Dpos_Election.thy ===== *)
theory Dpos_Election
  imports Dpos_Contract
begin

text \<open>
  The elections of the staking contract, the last part of \<open>builtin/plugins/dposv3/dpos.go\<close>: rewarding
  and slashing the validators, distributing the rewards to the delegators while bonding, unbonding
  and redelegating take effect, choosing the next validators, and the validators manager
  (\<open>plugin/validators_manager_v3.go\<close>) that runs an election at the end of a block and tells
  Tendermint about the outcome.

  The Go maps of the code are keyed by the printed form of an address, which is read back with
  \<open>MustParseAddress\<close>; here the address itself is the key. A map that is only looked up is a HOL map,
  the one the code ranges over is an association list. Ranging over a Go map has no fixed order;
  the results are sorted at once, by a key that tells any two of them apart.
\<close>

section \<open>Rewards\<close>

definition calculateRewards :: "int \<Rightarrow> DposParams \<Rightarrow> int \<Rightarrow> int res" where
  "calculateRewards delegationTotal params totalValidatorDelegations =
     (let cycleSeconds = pa_ElectionCycleLength params;
          reward = CalculateFraction blockRewardPercentage delegationTotal;
          yearlyRewardTotal = CalculateFraction blockRewardPercentage totalValidatorDelegations
      in
      bind_res (deref (pa_MaxYearlyReward params)) (\<lambda>maxYearlyReward.
      bind_res
        (if yearlyRewardTotal > maxYearlyReward then
           (if yearlyRewardTotal = 0 then Inl (Panic ''division by zero'')
            else Inr (reward * maxYearlyReward div yearlyRewardTotal))
         else Inr reward) (\<lambda>reward.
      let cycleSeconds = (if cycleSeconds = 0 then 2 else cycleSeconds)
      in Inr (reward * cycleSeconds div secondsInYear))))"

text \<open>
  The loop over the delegations of a validator that pays the referrers. It carries the store and
  what is left of the validator's share.
\<close>

fun referrer_loop ::
    "DposState \<Rightarrow> Candidate \<Rightarrow> DelegationIndex list \<Rightarrow> dpos_store \<times> int \<Rightarrow> (dpos_store \<times> int) res" where
  "referrer_loop state candidate [] st = Inr st"
| "referrer_loop state candidate (d # ds) (s, validatorShare) =
     (if Local (di_Validator d) = Local (cd_Address candidate) then
        (case GetDelegation s (di_Index d) (di_Validator d) (di_Delegator d) of
           None \<Rightarrow> referrer_loop state candidate ds (s, validatorShare)
         | Some delegation \<Rightarrow>
             if dl_Referrer delegation = '''' then referrer_loop state candidate ds (s, validatorShare)
             else
               (case GetReferrer s (dl_Referrer delegation) of
                  None \<Rightarrow> referrer_loop state candidate ds (s, validatorShare)
                | Some referrerAddress \<Rightarrow>
                    bind_res (calculateRewards (dl_Amount delegation) (ds_Params state)
                      (ds_TotalValidatorDelegations state)) (\<lambda>referrerReward.
                    let referrerReward = CalculateFraction (sint (cd_Fee candidate)) referrerReward;
                        referrerReward = CalculateFraction defaultReferrerFee referrerReward;
                        s = IncreaseRewardDelegation limboValidatorAddress referrerAddress referrerReward s
                    in referrer_loop state candidate ds (s, validatorShare - referrerReward))))
      else referrer_loop state candidate ds (s, validatorShare))"

record reward_state =
  rs_store :: dpos_store
  rs_state :: DposState
  rs_former :: "address \<rightharpoonup> int"
  rs_rewards :: "address \<rightharpoonup> int"

text \<open>A validator that was not slashed is rewarded.\<close>

definition reward_validator ::
    "DelegationIndex list \<Rightarrow> Candidate \<Rightarrow> ValidatorStatistic \<Rightarrow> reward_state \<Rightarrow> reward_state res" where
  "reward_validator delegations candidate statistic r =
     (let state = rs_state r; key = cd_Address candidate in
      bind_res (calculateRewards (st_DelegationTotal statistic) (ds_Params state) (ds_TotalValidatorDelegations state))
        (\<lambda>distributionTotal.
      let validatorShare = CalculateFraction (sint (cd_Fee candidate)) distributionTotal in
      bind_res (referrer_loop state candidate delegations (rs_store r, validatorShare)) (\<lambda>(s, validatorShare).
      let s = IncreaseRewardDelegation key key validatorShare s;
          delegatorsShare = distributionTotal - validatorShare
      in
      bind_res (deref (st_WhitelistAmount statistic)) (\<lambda>whitelist.
      bind_res
        (if whitelist \<noteq> 0 then
           bind_res (calculateWeightedWhitelistAmount statistic) (\<lambda>amount.
           Inr (IncreaseRewardDelegation key key
             (calculateShare amount (st_DelegationTotal statistic) delegatorsShare) s))
         else Inr s) (\<lambda>s.
      Inr (r\<lparr>rs_store := s,
             rs_state := state\<lparr>ds_TotalRewardDistribution := ds_TotalRewardDistribution state + distributionTotal\<rparr>,
             rs_rewards := (rs_rewards r)(key \<mapsto> delegatorsShare)\<rparr>))))))"

definition reward_or_slash :: "DelegationIndex list \<Rightarrow> Validator \<Rightarrow> reward_state \<Rightarrow> reward_state res" where
  "reward_or_slash delegations validator r =
     (case GetCandidateByPubKey (rs_store r) (va_PubKey validator) of
        None \<Rightarrow> Inr r
      | Some candidate \<Rightarrow>
          let key = cd_Address candidate in
          (case GetStatistic (rs_store r) key of
             None \<Rightarrow> Inr (r\<lparr>rs_rewards := (rs_rewards r)(key \<mapsto> 0), rs_former := (rs_former r)(key \<mapsto> 0)\<rparr>)
           | Some statistic \<Rightarrow>
               bind_res
                 (if st_SlashPercentage statistic = 0 then reward_validator delegations candidate statistic r
                  else
                    bind_res (slashValidatorDelegations statistic key (rs_store r)) (\<lambda>(s, _).
                    Inr (r\<lparr>rs_store := s\<rparr>))) (\<lambda>r.
               Inr (r\<lparr>rs_former := (rs_former r)(key \<mapsto> st_DelegationTotal statistic)\<rparr>))))"

section \<open>Distribution\<close>

definition resetDelegationIfExpired :: "call_ctx \<Rightarrow> Delegation \<Rightarrow> Delegation" where
  "resetDelegationIfExpired ctx delegation =
     (if dl_LocktimeTier delegation \<noteq> TIER_ZERO \<and> dl_LockTime delegation < unix_u64 ctx
      then delegation\<lparr>dl_LocktimeTier := TIER_ZERO\<rparr> else delegation)"

text \<open>The totals start from the weighted whitelist amounts.\<close>

fun whitelist_totals :: "dpos_store \<Rightarrow> Candidate list \<Rightarrow> (address \<times> int) list \<Rightarrow> (address \<times> int) list" where
  "whitelist_totals s [] totals = totals"
| "whitelist_totals s (candidate # cs) totals =
     whitelist_totals s cs
       (case GetStatistic s (cd_Address candidate) of
          None \<Rightarrow> totals
        | Some statistic \<Rightarrow>
            (case st_WhitelistAmount statistic of
               None \<Rightarrow> totals
             | Some amount \<Rightarrow>
                 if amount \<noteq> 0
                 then AList.update (st_Address statistic)
                        (CalculateFraction (bonusPercentage (st_LocktimeTier statistic)) amount) totals
                 else totals))"

text \<open>
  One delegation: its share of the reward goes to the delegator's reward delegation, its pending
  change takes effect, and it counts for the total of its validator. The delegation the later steps
  work on is the one read before the reward was paid.
\<close>

definition pay_delegator ::
    "(address \<rightharpoonup> int) \<Rightarrow> (address \<rightharpoonup> int) \<Rightarrow> Delegation \<Rightarrow> dpos_store \<Rightarrow> dpos_store" where
  "pay_delegator former rewards delegation s =
     (if Local (dl_Validator delegation) \<noteq> Local limboValidatorAddress then
        (case rewards (dl_Validator delegation) of
           None \<Rightarrow> s
         | Some rewardsTotal \<Rightarrow>
             let delegationTotal = (case former (dl_Validator delegation) of None \<Rightarrow> 0 | Some t \<Rightarrow> t);
                 weightedDelegation = calculateWeightedDelegationAmount delegation
             in IncreaseRewardDelegation (dl_Validator delegation) (dl_Delegator delegation)
                  (calculateShare weightedDelegation delegationTotal rewardsTotal) s)
      else s)"

definition apply_pending :: "call_ctx \<Rightarrow> Delegation \<Rightarrow> dpos_store \<Rightarrow> (Delegation \<times> dpos_store) res" where
  "apply_pending ctx delegation s =
     (case dl_State delegation of
        BONDING \<Rightarrow> Inr (delegation\<lparr>dl_Amount := dl_Amount delegation + dl_UpdateAmount delegation\<rparr>, s)
      | UNBONDING \<Rightarrow>
          bind_res (loadCoin s) (\<lambda>_.
          bind_res (ERC20_Transfer ctx (dl_Delegator delegation) (dl_UpdateAmount delegation) s) (\<lambda>s.
          Inr (delegation\<lparr>dl_Amount := dl_Amount delegation - dl_UpdateAmount delegation\<rparr>, s)))
      | REDELEGATING \<Rightarrow>
          bind_res (deref (dl_UpdateValidator delegation)) (\<lambda>v.
          Inr (delegation\<lparr>dl_Validator := v\<rparr>, DeleteDelegation delegation s))
      | BONDED \<Rightarrow> Inr (delegation, s))"

definition settle_delegation :: "call_ctx \<Rightarrow> Delegation \<Rightarrow> dpos_store \<Rightarrow> Delegation \<times> dpos_store" where
  "settle_delegation ctx delegation s =
     (if dl_Amount delegation = 0 \<and> dl_State delegation = UNBONDING
      then (delegation, DeleteDelegation delegation s)
      else
        let delegation = resetDelegationIfExpired ctx (delegation\<lparr>dl_UpdateAmount := 0, dl_State := BONDED\<rparr>)
        in (delegation, SetDelegation delegation s))"

definition add_total :: "Delegation \<Rightarrow> (address \<times> int) list \<Rightarrow> (address \<times> int) list" where
  "add_total delegation totals =
     (if Local (dl_Validator delegation) \<noteq> Local limboValidatorAddress then
        let weightedDelegation = calculateWeightedDelegationAmount delegation in
        AList.update (dl_Validator delegation)
          (case map_of totals (dl_Validator delegation) of
             None \<Rightarrow> weightedDelegation
           | Some t \<Rightarrow> weightedDelegation + t) totals
      else totals)"

definition distribute_one ::
    "call_ctx \<Rightarrow> (address \<rightharpoonup> int) \<Rightarrow> (address \<rightharpoonup> int) \<Rightarrow> DelegationIndex \<Rightarrow>
     dpos_store \<times> (address \<times> int) list \<Rightarrow> (dpos_store \<times> (address \<times> int) list) res" where
  "distribute_one ctx former rewards d st =
     (case st of (s, totals) \<Rightarrow>
      case GetDelegation s (di_Index d) (di_Validator d) (di_Delegator d) of
        None \<Rightarrow> Inr (s, totals)
      | Some delegation \<Rightarrow>
          bind_res (apply_pending ctx delegation (pay_delegator former rewards delegation s)) (\<lambda>(delegation, s).
          case settle_delegation ctx delegation s of
            (delegation, s) \<Rightarrow> Inr (s, add_total delegation totals)))"

definition distributeDelegatorRewards ::
    "call_ctx \<Rightarrow> (address \<rightharpoonup> int) \<Rightarrow> (address \<rightharpoonup> int) \<Rightarrow> dpos_store \<Rightarrow>
     (dpos_store \<times> (address \<times> int) list) res" where
  "distributeDelegatorRewards ctx former rewards s =
     fold_res (distribute_one ctx former rewards) (dp_delegation_list s)
       (s, whitelist_totals s (dp_candidates s) [])"

definition rewardAndSlash ::
    "call_ctx \<Rightarrow> DposState \<Rightarrow> dpos_store \<Rightarrow> (dpos_store \<times> DposState \<times> DelegationResult list) res" where
  "rewardAndSlash ctx state s =
     bind_res (fold_res (reward_or_slash (dp_delegation_list s)) (ds_Validators state)
       \<lparr>rs_store = s, rs_state = state, rs_former = Map.empty, rs_rewards = Map.empty\<rparr>) (\<lambda>r.
     bind_res (distributeDelegatorRewards ctx (rs_former r) (rs_rewards r) (rs_store r)) (\<lambda>(s, totals).
     Inr (s, rs_state r, sortResults (map (\<lambda>(v, t). \<lparr>dr_ValidatorAddress = v, dr_DelegationTotal = t\<rparr>) totals))))"

section \<open>Elections\<close>

text \<open>One of the best results: it joins the validators when it belongs to a candidate and is positive.\<close>

definition elect_one ::
    "DelegationResult \<Rightarrow> dpos_store \<times> Validator list \<times> int \<Rightarrow> dpos_store \<times> Validator list \<times> int" where
  "elect_one res st =
     (case st of (s, validators, tot) \<Rightarrow>
      case GetCandidate s (dr_ValidatorAddress res) of
        None \<Rightarrow> (s, validators, tot)
      | Some candidate \<Rightarrow>
          if dr_DelegationTotal res > 0 then
            let validatorPower = i64 (dr_DelegationTotal res div powerCorrection);
                statistic =
                  (case GetStatistic s (cd_Address candidate) of
                     None \<Rightarrow> \<lparr>st_Address = dr_ValidatorAddress res, st_PubKey = Some (cd_PubKey candidate),
                              st_WhitelistAmount = Some 0, st_LocktimeTier = 0,
                              st_DelegationTotal = dr_DelegationTotal res, st_SlashPercentage = 0\<rparr>
                   | Some statistic \<Rightarrow> statistic\<lparr>st_DelegationTotal := dr_DelegationTotal res,
                                               st_PubKey := Some (cd_PubKey candidate)\<rparr>)
            in (SetStatistic statistic s,
                validators @ [\<lparr>va_PubKey = cd_PubKey candidate, va_Power = validatorPower\<rparr>],
                tot + dr_DelegationTotal res)
          else (s, validators, tot))"

definition Elect :: "call_ctx \<Rightarrow> dpos_store \<Rightarrow> dpos_store res" where
  "Elect ctx s =
     bind_res (loadState s) (\<lambda>state.
     if pa_ElectionCycleLength (ds_Params state) > i64 (now_unix ctx - ds_LastElectionTime state) then Inr s
     else
       bind_res (rewardAndSlash ctx state s) (\<lambda>(s, state, delegationResults).
       let validatorCount = sint (pa_ValidatorCount (ds_Params state));
           validatorCount = (if int (length delegationResults) < validatorCount
                             then int (length delegationResults) else validatorCount)
       in
       if validatorCount < 0 then Inl (Panic ''slice bounds out of range'')
       else
         (case fold elect_one (take (nat validatorCount) delegationResults) (s, [], 0) of
            (s, validators, totalValidatorDelegations) \<Rightarrow>
              let s = (if totalValidatorDelegations > 0 then
                         saveState (state\<lparr>ds_Validators := applyPowerCap validators,
                           ds_LastElectionTime := now_unix ctx,
                           ds_TotalValidatorDelegations := totalValidatorDelegations\<rparr>) s
                       else s)
              in Inr (updateCandidateList s))))"

section \<open>The validators manager\<close>

text \<open>
  The calls that would slash for downtime and for conflicting votes are commented out in the code,
  so \<open>BeginBlock\<close> reads the votes and the evidence and changes nothing.
\<close>

definition BeginBlockV3 :: "(bytes \<times> bool) list \<Rightarrow> (bytes \<times> int) list \<Rightarrow> int \<Rightarrow> dpos_store \<Rightarrow> dpos_store res" where
  "BeginBlockV3 votes evidence currentHeight s =
     fold_res (\<lambda>(validator, height) s. if height > i64 (currentHeight - 100) then Inr s else Inr s) evidence
       (fold (\<lambda>(validator, signedLastBlock) s. if \<not> signedLastBlock then s else s) votes s)"

definition EndBlockV3 :: "call_ctx \<Rightarrow> dpos_store \<Rightarrow> (dpos_store \<times> (bytes \<times> int) list) res" where
  "EndBlockV3 ctx s =
     bind_res (ValidatorList s) (\<lambda>oldValidatorList.
     bind_res (Elect ctx s) (\<lambda>s.
     bind_res (ValidatorList s) (\<lambda>validatorList.
     let removedValidators = MissingValidators oldValidatorList validatorList
     in Inr (s, map (\<lambda>v. (va_PubKey v, 0)) removedValidators @
                map (\<lambda>v. (va_PubKey v, va_Power v)) validatorList))))"

section \<open>What an election leaves alone\<close>

text \<open>Rewards, slashing and distribution change delegations and token balances only.\<close>

definition same_books :: "dpos_store \<Rightarrow> dpos_store \<Rightarrow> bool" where
  "same_books s s' \<longleftrightarrow> dp_state s' = dp_state s \<and> dp_candidates s' = dp_candidates s \<and>
     dp_statistics s' = dp_statistics s \<and> dp_referrers s' = dp_referrers s \<and> dp_tally s' = dp_tally s"

lemma same_books_refl [simp]: "same_books s s"
  by (simp add: same_books_def)

lemma same_books_trans: "same_books s s' \<Longrightarrow> same_books s' s'' \<Longrightarrow> same_books s s''"
  by (simp add: same_books_def)

lemma same_books_Set [simp]: "same_books s (SetDelegation d s') = same_books s s'"
  by (simp add: same_books_def)

lemma same_books_Delete [simp]: "same_books s (DeleteDelegation d s') = same_books s s'"
  by (simp add: same_books_def)

lemma same_books_Increase [simp]: "same_books s (IncreaseRewardDelegation v w x s') = same_books s s'"
  by (simp add: IncreaseRewardDelegation_def Let_def)

lemma same_books_coin [simp]: "same_books s (s'\<lparr>dp_coin := c\<rparr>) = same_books s s'"
  by (simp add: same_books_def)

lemma slash_loop_books: "same_books s (slash_loop st a ds s)"
proof (induction ds arbitrary: s)
  case (Cons d ds)
  show ?case
    by (auto intro!: same_books_trans [OF _ Cons] split: option.split)
qed simp

lemma slashValidatorDelegations_books: "slashValidatorDelegations st a s = Inr (s', st') \<Longrightarrow> same_books s s'"
  unfolding slashValidatorDelegations_def Let_def by (auto elim!: bind_resE intro: slash_loop_books)

lemma referrer_loop_books: "referrer_loop st c ds (s, x) = Inr (s', x') \<Longrightarrow> same_books s s'"
proof (induction ds arbitrary: s x)
  case (Cons d ds)
  from Cons.prems show ?case
    by (auto simp: Let_def elim!: bind_resE split: option.split_asm if_split_asm dest!: Cons.IH)
      (simp add: same_books_def IncreaseRewardDelegation_def Let_def)
qed simp

lemma reward_validator_books: "reward_validator ds c st r = Inr r' \<Longrightarrow> same_books (rs_store r) (rs_store r')"
  unfolding reward_validator_def Let_def
  by (auto elim!: bind_resE split: prod.split_asm if_split_asm dest!: referrer_loop_books)

lemma reward_or_slash_books: "reward_or_slash ds v r = Inr r' \<Longrightarrow> same_books (rs_store r) (rs_store r')"
  unfolding reward_or_slash_def Let_def
  by (auto elim!: bind_resE split: option.split_asm if_split_asm prod.split_asm
      dest!: reward_validator_books slashValidatorDelegations_books)

lemma pay_delegator_books [simp]: "same_books s (pay_delegator f r d s') = same_books s s'"
  by (simp add: pay_delegator_def Let_def split: option.split)

lemma apply_pending_books: "apply_pending ctx d s = Inr (d', s') \<Longrightarrow> same_books s s'"
  unfolding apply_pending_def ERC20_Transfer_def
  by (auto elim!: bind_resE split: DelegationState.split_asm)

lemma settle_books [simp]: "same_books s (snd (settle_delegation ctx d s')) = same_books s s'"
  by (simp add: settle_delegation_def Let_def)

lemma distribute_one_books: "distribute_one ctx f r d (s, t) = Inr (s', t') \<Longrightarrow> same_books s s'"
proof -
  assume a: "distribute_one ctx f r d (s, t) = Inr (s', t')"
  show ?thesis
  proof (cases "GetDelegation s (di_Index d) (di_Validator d) (di_Delegator d)")
    case None
    with a show ?thesis by (simp add: distribute_one_def)
  next
    case (Some del)
    with a obtain d1 s1 where p: "apply_pending ctx del (pay_delegator f r del s) = Inr (d1, s1)"
      and s': "s' = snd (settle_delegation ctx d1 s1)"
      by (auto simp: distribute_one_def elim!: bind_resE split: prod.split_asm)
    from apply_pending_books [OF p] show ?thesis
      by (simp add: s') (simp add: same_books_def pay_delegator_def IncreaseRewardDelegation_def Let_def
          split: if_split_asm option.split_asm)
  qed
qed

lemma distributeDelegatorRewards_books:
  assumes "distributeDelegatorRewards ctx f r s = Inr (s', t')"
  shows "same_books s s'"
proof -
  have "same_books s (fst (s', t'))"
  proof (rule fold_res_invariant [OF assms [unfolded distributeDelegatorRewards_def], of "\<lambda>x. same_books s (fst x)"])
    fix d x x'
    assume "same_books s (fst x)" and "distribute_one ctx f r d x = Inr x'"
    then show "same_books s (fst x')"
      by (cases x, cases x') (auto dest: distribute_one_books intro: same_books_trans)
  qed simp
  then show ?thesis by simp
qed

lemma rewardAndSlash_books:
  assumes "rewardAndSlash ctx st s = Inr (s', st', rs)"
  shows "same_books s s'"
proof -
  from assms obtain r where r: "fold_res (reward_or_slash (dp_delegation_list s)) (ds_Validators st)
      \<lparr>rs_store = s, rs_state = st, rs_former = Map.empty, rs_rewards = Map.empty\<rparr> = Inr r"
    and d: "\<exists>t. distributeDelegatorRewards ctx (rs_former r) (rs_rewards r) (rs_store r) = Inr (s', t)"
    unfolding rewardAndSlash_def by (auto elim!: bind_resE)
  have "same_books s (rs_store r)"
  proof (rule fold_res_invariant [OF r, of "\<lambda>x. same_books s (rs_store x)"])
    fix v x x'
    assume "same_books s (rs_store x)" and "reward_or_slash (dp_delegation_list s) v x = Inr x'"
    then show "same_books s (rs_store x')" by (metis reward_or_slash_books same_books_trans)
  qed simp
  with d show ?thesis by (auto dest: distributeDelegatorRewards_books intro: same_books_trans)
qed

text \<open>The rewards also leave the parameters of the state alone.\<close>

lemma reward_or_slash_params: "reward_or_slash ds v r = Inr r' \<Longrightarrow> ds_Params (rs_state r') = ds_Params (rs_state r)"
  unfolding reward_or_slash_def reward_validator_def Let_def
  by (auto elim!: bind_resE split: option.split_asm if_split_asm prod.split_asm)

lemma rewardAndSlash_params:
  assumes "rewardAndSlash ctx st s = Inr (s', st', rs)"
  shows "ds_Params st' = ds_Params st"
proof -
  from assms obtain r where r: "fold_res (reward_or_slash (dp_delegation_list s)) (ds_Validators st)
      \<lparr>rs_store = s, rs_state = st, rs_former = Map.empty, rs_rewards = Map.empty\<rparr> = Inr r" and st': "st' = rs_state r"
    unfolding rewardAndSlash_def by (auto elim!: bind_resE)
  have "ds_Params (rs_state r) = ds_Params st"
    by (rule fold_res_invariant [OF r, of "\<lambda>x. ds_Params (rs_state x) = ds_Params st"])
      (auto dest: reward_or_slash_params)
  then show ?thesis by (simp add: st')
qed

section \<open>Who is elected\<close>

lemma sortResults_unique: "mset xs = mset ys \<Longrightarrow> sortResults xs = sortResults ys"
proof -
  assume m: "mset xs = mset ys"
  have inj: "inj_on (\<lambda>r. (dr_DelegationTotal r, dr_ValidatorAddress r)) A" for A :: "DelegationResult set"
    by (rule inj_onI) (auto intro!: DelegationResult.equality)
  have "sort_key (\<lambda>r. (dr_DelegationTotal r, dr_ValidatorAddress r)) xs =
      sort_key (\<lambda>r. (dr_DelegationTotal r, dr_ValidatorAddress r)) ys"
    by (rule sort_key_inj_key_eq) (use m inj in simp_all)
  then show ?thesis by (simp add: sortResults_def)
qed

lemma sortResults_desc: "sorted_wrt (\<lambda>a b. dr_DelegationTotal b \<le> dr_DelegationTotal a) (sortResults rs)"
proof -
  have "sorted_wrt (\<lambda>a b. (dr_DelegationTotal a, dr_ValidatorAddress a) \<le> (dr_DelegationTotal b, dr_ValidatorAddress b))
      (sort_key (\<lambda>r. (dr_DelegationTotal r, dr_ValidatorAddress r)) rs)"
    using sorted_sort_key [of "\<lambda>r. (dr_DelegationTotal r, dr_ValidatorAddress r)" rs] by (simp add: sorted_map)
  then have "sorted_wrt (\<lambda>a b. dr_DelegationTotal a \<le> dr_DelegationTotal b)
      (sort_key (\<lambda>r. (dr_DelegationTotal r, dr_ValidatorAddress r)) rs)"
    by (rule sorted_wrt_mono_rel [rotated]) auto
  then show ?thesis by (simp add: sortResults_def sorted_wrt_rev)
qed

text \<open>The results that are elected, and the validator each stands for.\<close>

definition chosen :: "dpos_store \<Rightarrow> DelegationResult list \<Rightarrow> DelegationResult list" where
  "chosen s rs = filter (\<lambda>r. GetCandidate s (dr_ValidatorAddress r) \<noteq> None \<and> 0 < dr_DelegationTotal r) rs"

definition validator_of :: "dpos_store \<Rightarrow> DelegationResult \<Rightarrow> Validator" where
  "validator_of s r =
     \<lparr>va_PubKey = (case GetCandidate s (dr_ValidatorAddress r) of None \<Rightarrow> [] | Some c \<Rightarrow> cd_PubKey c),
      va_Power = i64 (dr_DelegationTotal r div powerCorrection)\<rparr>"

lemma SetStatistic_frame [simp]:
  "dp_state (SetStatistic st s) = dp_state s" "dp_candidates (SetStatistic st s) = dp_candidates s"
  "GetCandidate (SetStatistic st s) a = GetCandidate s a"
  by (simp_all add: SetStatistic_def GetCandidate_def)

lemma elect_one_chosen:
  assumes "GetCandidate s (dr_ValidatorAddress r) = Some c" and "0 < dr_DelegationTotal r"
  obtains st where "elect_one r (s, vs, tot) =
    (SetStatistic st s, vs @ [validator_of s r], tot + dr_DelegationTotal r)"
  using assms by (simp add: elect_one_def validator_of_def Let_def)

lemma elect_one_skipped:
  "chosen s [r] = [] \<Longrightarrow> elect_one r (s, vs, tot) = (s, vs, tot)"
  by (auto simp: elect_one_def chosen_def split: option.split if_split_asm)

lemma fold_elect:
  assumes "fold elect_one rs (s, vs, tot) = (s', vs', tot')"
  shows "vs' = vs @ map (validator_of s) (chosen s rs) \<and> tot' = tot + (\<Sum>r\<leftarrow>chosen s rs. dr_DelegationTotal r) \<and>
    dp_state s' = dp_state s \<and> dp_candidates s' = dp_candidates s"
  using assms
proof (induction rs arbitrary: s vs tot)
  case Nil
  then show ?case by (simp add: chosen_def)
next
  case (Cons r rs)
  show ?case
  proof (cases "chosen s [r] = []")
    case True
    then have "chosen s (r # rs) = chosen s rs" by (simp add: chosen_def split: if_split_asm)
    with Cons.IH Cons.prems elect_one_skipped [OF True] show ?thesis by simp
  next
    case False
    then obtain c where c: "GetCandidate s (dr_ValidatorAddress r) = Some c" "0 < dr_DelegationTotal r"
      by (auto simp: chosen_def split: if_split_asm)
    from elect_one_chosen [OF c, of vs tot] obtain st
      where one: "elect_one r (s, vs, tot) = (SetStatistic st s, vs @ [validator_of s r], tot + dr_DelegationTotal r)" .
    have same: "validator_of (SetStatistic st s) = validator_of s" "chosen (SetStatistic st s) = chosen s"
      by (simp_all add: validator_of_def chosen_def fun_eq_iff)
    have "fold elect_one rs (SetStatistic st s, vs @ [validator_of s r], tot + dr_DelegationTotal r) = (s', vs', tot')"
      using Cons.prems one by simp
    from Cons.IH [OF this] c show ?thesis unfolding same by (simp add: chosen_def)
  qed
qed

lemma sum_chosen_pos: "0 < (\<Sum>r\<leftarrow>chosen s rs. dr_DelegationTotal r) \<longleftrightarrow> chosen s rs \<noteq> []"
proof (cases "chosen s rs")
  case (Cons r rest)
  have pos: "0 < dr_DelegationTotal x" if "x \<in> set (chosen s rs)" for x using that by (simp add: chosen_def)
  have "0 \<le> (\<Sum>x\<leftarrow>rest. dr_DelegationTotal x)"
  proof (rule sum_list_nonneg)
    fix n
    assume "n \<in> set (map dr_DelegationTotal rest)"
    then show "0 \<le> n" using pos Cons by fastforce
  qed
  then show ?thesis using pos [of r] Cons by simp
qed simp

text \<open>Whether the election cycle is over.\<close>

definition election_due :: "call_ctx \<Rightarrow> DposState \<Rightarrow> bool" where
  "election_due ctx st \<longleftrightarrow>
     pa_ElectionCycleLength (ds_Params st) \<le> i64 (now_unix ctx - ds_LastElectionTime st)"

definition elected_count :: "DposState \<Rightarrow> nat" where
  "elected_count st = nat (sint (pa_ValidatorCount (ds_Params st)))"

lemma Elect_not_due:
  "dp_state s = Some st \<Longrightarrow> \<not> election_due ctx st \<Longrightarrow> Elect ctx s = Inr s"
  by (simp add: Elect_def loadState_def election_due_def)

lemma updateCandidateList_state [simp]: "dp_state (updateCandidateList s) = dp_state s"
  by (simp add: updateCandidateList_def saveCandidateList_def Let_def)

lemma dp_candidates_update:
  "dp_candidates s = dp_candidates s' \<Longrightarrow> dp_candidates (updateCandidateList s) = dp_candidates (updateCandidateList s')"
  by (simp add: updateCandidateList_def saveCandidateList_def Let_def)

lemma Elect_due:
  assumes st: "dp_state s = Some st" "election_due ctx st" and rs: "rewardAndSlash ctx st s = Inr (s1, st1, rs)"
    and n: "0 \<le> sint (pa_ValidatorCount (ds_Params st))"
  obtains s' where "Elect ctx s = Inr s'"
    and "dp_candidates s' = dp_candidates (updateCandidateList s)"
    and "dp_state s' = (let best = chosen s (take (elected_count st) rs) in
       if best = [] then Some st
       else Some (st1\<lparr>ds_Validators := sortValidators (applyPowerCap (map (validator_of s) best)),
                      ds_LastElectionTime := now_unix ctx,
                      ds_TotalValidatorDelegations := (\<Sum>r\<leftarrow>best. dr_DelegationTotal r)\<rparr>))"
proof -
  have books: "same_books s s1" by (rule rewardAndSlash_books [OF rs])
  have same: "chosen s1 = chosen s" "validator_of s1 = validator_of s"
    using books by (simp_all add: same_books_def chosen_def validator_of_def GetCandidate_def fun_eq_iff)
  have params: "ds_Params st1 = ds_Params st" by (rule rewardAndSlash_params [OF rs])
  let ?c = "sint (pa_ValidatorCount (ds_Params st))"
  obtain s2 vs tot where f: "fold elect_one (take (elected_count st) rs) (s1, [], 0) = (s2, vs, tot)"
    by (metis prod_cases3)
  note e = fold_elect [OF f, unfolded same]
  let ?s3 = "if tot > 0 then saveState (st1\<lparr>ds_Validators := applyPowerCap vs, ds_LastElectionTime := now_unix ctx,
      ds_TotalValidatorDelegations := tot\<rparr>) s2 else s2"
  have "Elect ctx s = Inr (updateCandidateList ?s3)"
    using st rs n f
    by (cases "int (length rs) < ?c") (simp_all add: Elect_def loadState_def election_due_def params elected_count_def)
  moreover have "dp_candidates (updateCandidateList ?s3) = dp_candidates (updateCandidateList s)"
    using e books by (intro dp_candidates_update) (simp add: saveState_def same_books_def)
  moreover have "dp_state (updateCandidateList ?s3) = (let best = chosen s (take (elected_count st) rs) in
       if best = [] then Some st
       else Some (st1\<lparr>ds_Validators := sortValidators (applyPowerCap (map (validator_of s) best)),
                      ds_LastElectionTime := now_unix ctx,
                      ds_TotalValidatorDelegations := (\<Sum>r\<leftarrow>best. dr_DelegationTotal r)\<rparr>))"
    using e books st(1) sum_chosen_pos [of s "take (elected_count st) rs"]
    by (simp add: saveState_def same_books_def Let_def)
  ultimately show thesis by (rule that)
qed

section \<open>The candidates over an election\<close>

definition candidates_ok :: "dpos_store \<Rightarrow> bool" where
  "candidates_ok s \<longleftrightarrow> distinct (map (\<lambda>c. Local (cd_Address c)) (dp_candidates s))"

lemma find_distinct:
  "distinct (map f xs) \<Longrightarrow> find (\<lambda>c. f c = k) xs = Some c \<longleftrightarrow> c \<in> set xs \<and> f c = k"
  by (induction xs) auto

lemma GetCandidate_iff:
  "candidates_ok s \<Longrightarrow> GetCandidate s a = Some c \<longleftrightarrow> c \<in> set (dp_candidates s) \<and> Local (cd_Address c) = Local a"
  unfolding candidates_ok_def GetCandidate_def by (rule find_distinct)

lemma Delete_candidates:
  assumes "distinct (map (\<lambda>c. Local (cd_Address c)) cs)"
  shows "set (CandidateList_Delete cs a) = {c \<in> set cs. Local (cd_Address c) \<noteq> Local a}"
    and "distinct (map (\<lambda>c. Local (cd_Address c)) (CandidateList_Delete cs a))"
proof -
  show "set (CandidateList_Delete cs a) = {c \<in> set cs. Local (cd_Address c) \<noteq> Local a}"
    using assms unfolding CandidateList_Delete_def by (induction cs) (force simp: image_iff)+
  show "distinct (map (\<lambda>c. Local (cd_Address c)) (CandidateList_Delete cs a))"
    unfolding CandidateList_Delete_def using assms by (rule distinct_remove_first)
qed

lemma foldl_Delete_candidates:
  "distinct (map (\<lambda>c. Local (cd_Address c)) cs) \<Longrightarrow>
   set (foldl CandidateList_Delete cs as) = {c \<in> set cs. Local (cd_Address c) \<notin> Local ` set as} \<and>
   distinct (map (\<lambda>c. Local (cd_Address c)) (foldl CandidateList_Delete cs as))"
proof (induction as arbitrary: cs)
  case (Cons a as)
  from Cons.IH [OF Delete_candidates(2) [OF Cons.prems, of a]] Delete_candidates(1) [OF Cons.prems, of a]
  show ?case by auto
qed simp

lemma update_candidate_address [simp]: "cd_Address (update_candidate c) = cd_Address c"
  by (simp add: update_candidate_def split: CandidateState.split)

text \<open>An election removes the candidates that are unregistering and steps the others.\<close>

lemma updateCandidateList_effect:
  assumes "candidates_ok s"
  shows "candidates_ok (updateCandidateList s)"
    and "GetCandidate (updateCandidateList s) a =
      (case GetCandidate s a of
         None \<Rightarrow> None
       | Some c \<Rightarrow> if cd_State c = UNREGISTERING then None else Some (update_candidate c))"
proof -
  let ?cs = "map update_candidate (dp_candidates s)"
  let ?del = "map cd_Address (filter (\<lambda>c. cd_State c = UNREGISTERING) (dp_candidates s))"
  have d: "distinct (map (\<lambda>c. Local (cd_Address c)) ?cs)"
    using assms by (simp add: candidates_ok_def o_def)
  note f = foldl_Delete_candidates [OF d, of ?del]
  have ok: "candidates_ok (updateCandidateList s)"
    using f by (simp add: candidates_ok_def updateCandidateList_def saveCandidateList_def sortCandidates_def
        distinct_map_sort_key Let_def)
  have mem: "set (dp_candidates (updateCandidateList s)) =
      {update_candidate c | c. c \<in> set (dp_candidates s) \<and> cd_State c \<noteq> UNREGISTERING}"
  proof -
    have uniq: "c = c'" if "c \<in> set (dp_candidates s)" "c' \<in> set (dp_candidates s)"
      "Local (cd_Address c) = Local (cd_Address c')" for c c'
      using assms that by (auto simp: candidates_ok_def distinct_map inj_on_def)
    have "set (dp_candidates (updateCandidateList s)) =
        {x \<in> set ?cs. Local (cd_Address x) \<notin> Local ` set ?del}"
      using f by (simp add: updateCandidateList_def saveCandidateList_def sortCandidates_def Let_def)
    then show ?thesis by auto (metis uniq)
  qed
  show "candidates_ok (updateCandidateList s)" by (rule ok)
  show "GetCandidate (updateCandidateList s) a =
      (case GetCandidate s a of
         None \<Rightarrow> None
       | Some c \<Rightarrow> if cd_State c = UNREGISTERING then None else Some (update_candidate c))"
  proof (cases "GetCandidate (updateCandidateList s) a")
    case (Some x)
    then obtain c where c: "c \<in> set (dp_candidates s)" "cd_State c \<noteq> UNREGISTERING" "x = update_candidate c"
      "Local (cd_Address c) = Local a" using mem by (auto simp: GetCandidate_iff [OF ok])
    then have "GetCandidate s a = Some c" by (simp add: GetCandidate_iff [OF assms])
    with c Some show ?thesis by simp
  next
    case None
    have "cd_State c = UNREGISTERING" if "GetCandidate s a = Some c" for c
    proof (rule ccontr)
      assume "cd_State c \<noteq> UNREGISTERING"
      with that mem have "GetCandidate (updateCandidateList s) a = Some (update_candidate c)"
        by (auto simp: GetCandidate_iff [OF ok] GetCandidate_iff [OF assms])
      with None show False by simp
    qed
    with None show ?thesis by (simp split: option.split)
  qed
qed

lemma ChangeFeeD:
  assumes "candidates_ok s" and "DPOS_ChangeFee ctx fee s = Inr s'"
  obtains c where "GetCandidate s (sender ctx) = Some c" and "cd_State c = REGISTERED" and "fee \<le> 10000"
    and "candidates_ok s'" and "dp_state s' = dp_state s"
    and "GetCandidate s' (sender ctx) = Some (c\<lparr>cd_NewFee := fee, cd_State := ABOUT_TO_CHANGE_FEE\<rparr>)"
proof -
  let ?f = "\<lambda>c. c\<lparr>cd_NewFee := fee, cd_State := ABOUT_TO_CHANGE_FEE\<rparr>"
  let ?P = "\<lambda>cand. Local (cd_Address cand) = Local (sender ctx)"
  from assms(2) obtain c where c: "GetCandidate s (sender ctx) = Some c" "cd_State c = REGISTERED" "fee \<le> 10000"
    and s': "s' = saveCandidateList (modify_candidate (sender ctx) ?f (dp_candidates s)) s"
    unfolding DPOS_ChangeFee_def CandidateList_Get_def GetCandidate_def validateFee_def
    by (auto elim!: bind_resE split: option.split_asm if_split_asm simp: not_less)
  have here: "Local (cd_Address c) = Local (sender ctx)" using c(1) by (simp add: GetCandidate_iff [OF assms(1)])
  have addr: "map (\<lambda>c. Local (cd_Address c)) (update_first ?P ?f cs) = map (\<lambda>c. Local (cd_Address c)) cs" for cs
    by (induction cs) auto
  have mem: "find ?P cs = Some c \<Longrightarrow> ?f c \<in> set (update_first ?P ?f cs)" for cs
    by (induction cs) (auto split: if_split_asm)
  have ok: "candidates_ok s'"
    using assms(1) unfolding candidates_ok_def s' saveCandidateList_def sortCandidates_def modify_candidate_def
    by (simp add: distinct_map_sort_key addr)
  moreover have "GetCandidate s' (sender ctx) = Some (?f c)"
    using mem [of "dp_candidates s"] c(1) unfolding GetCandidate_iff [OF ok]
    by (simp add: s' saveCandidateList_def sortCandidates_def modify_candidate_def GetCandidate_def here)
  moreover have "dp_state s' = dp_state s" by (simp add: s' saveCandidateList_def)
  ultimately show thesis using c that by blast
qed

lemma GetCandidate_cong: "dp_candidates s = dp_candidates s' \<Longrightarrow> GetCandidate s = GetCandidate s'"
  by (simp add: GetCandidate_def fun_eq_iff)

text \<open>A due election that succeeds has gone through rewards and settlement.\<close>

lemma Elect_dueE:
  assumes "dp_state s = Some st" and "election_due ctx st" and "Elect ctx s = Inr s'"
  obtains s1 st1 rs where "rewardAndSlash ctx st s = Inr (s1, st1, rs)"
    and "0 \<le> sint (pa_ValidatorCount (ds_Params st))"
proof -
  from assms obtain s1 st1 rs where rs: "rewardAndSlash ctx st s = Inr (s1, st1, rs)"
    and n: "0 \<le> (if int (length rs) < sint (pa_ValidatorCount (ds_Params st1)) then int (length rs)
          else sint (pa_ValidatorCount (ds_Params st1)))"
    unfolding Elect_def loadState_def election_due_def Let_def
    by (auto elim!: bind_resE split: if_split_asm simp: not_less)
  from n have "0 \<le> sint (pa_ValidatorCount (ds_Params st))"
    using rewardAndSlash_params [OF rs] by (simp split: if_split_asm)
  with rs show thesis by (rule that)
qed

lemma Elect_candidates:
  assumes "candidates_ok s" and "dp_state s = Some st" and "election_due ctx st" and "Elect ctx s = Inr s'"
  shows "candidates_ok s'" and "GetCandidate s' a =
      (case GetCandidate s a of
         None \<Rightarrow> None
       | Some c \<Rightarrow> if cd_State c = UNREGISTERING then None else Some (update_candidate c))"
proof -
  from assms(2-4) obtain s1 st1 rs where "rewardAndSlash ctx st s = Inr (s1, st1, rs)"
    "0 \<le> sint (pa_ValidatorCount (ds_Params st))" by (rule Elect_dueE)
  from Elect_due [OF assms(2,3) this] assms(4)
  have "dp_candidates s' = dp_candidates (updateCandidateList s)" by auto
  from GetCandidate_cong [OF this] this updateCandidateList_effect [OF assms(1)]
  show "candidates_ok s'" "GetCandidate s' a =
      (case GetCandidate s a of
         None \<Rightarrow> None
       | Some c \<Rightarrow> if cd_State c = UNREGISTERING then None else Some (update_candidate c))"
    by (simp_all add: candidates_ok_def)
qed

text \<open>The stored validators stay sorted by key.\<close>

lemma Elect_sorted:
  assumes "Elect ctx s = Inr s'" and "ValidatorList s = Inr old" and "sorted (map va_PubKey old)"
    and "ValidatorList s' = Inr new"
  shows "sorted (map va_PubKey new)"
proof -
  from assms(2) obtain st where st: "dp_state s = Some st" "old = ds_Validators st"
    by (auto simp: ValidatorList_def loadState_def elim!: bind_resE split: option.split_asm)
  show ?thesis
  proof (cases "election_due ctx st")
    case False
    then have "s' = s" using Elect_not_due [OF st(1) False] assms(1) by simp
    with assms show ?thesis by simp
  next
    case True
    from st(1) True assms(1) obtain s1 st1 rs where "rewardAndSlash ctx st s = Inr (s1, st1, rs)"
      "0 \<le> sint (pa_ValidatorCount (ds_Params st))" by (rule Elect_dueE)
    from Elect_due [OF st(1) True this] assms(1)
    have "dp_state s' = (let best = chosen s (take (elected_count st) rs) in
       if best = [] then Some st
       else Some (st1\<lparr>ds_Validators := sortValidators (applyPowerCap (map (validator_of s) best)),
                      ds_LastElectionTime := now_unix ctx,
                      ds_TotalValidatorDelegations := (\<Sum>r\<leftarrow>best. dr_DelegationTotal r)\<rparr>))" by auto
    then have "new = old \<or> (\<exists>vs. new = sortValidators vs)"
      using assms(4) st(2) by (auto simp: ValidatorList_def loadState_def Let_def split: if_split_asm)
    then show ?thesis using assms(3) by (auto simp: sortValidators_def)
  qed
qed

section \<open>Settling a delegation\<close>

lemma GetDelegation_Increase:
  "GetDelegation (IncreaseRewardDelegation v w x s) i v' w' =
     (if computeDelegationsKey i v' w' = computeDelegationsKey 0 v w \<and> keys_ok s
      then Some (case GetDelegation s 0 v w of
          None \<Rightarrow> \<lparr>dl_Validator = v, dl_Delegator = w, dl_Index = 0, dl_Amount = x, dl_UpdateAmount = 0,
            dl_UpdateValidator = None, dl_LocktimeTier = 0, dl_LockTime = 0, dl_State = BONDED, dl_Referrer = ''''\<rparr>
        | Some d \<Rightarrow> d\<lparr>dl_Amount := dl_Amount d + x\<rparr>)
      else GetDelegation (IncreaseRewardDelegation v w x s) i v' w')"
proof (cases "GetDelegation s 0 v w")
  case None
  then show ?thesis by (simp add: IncreaseRewardDelegation_def GetDelegation_Set key_of_def)
next
  case (Some d)
  then show ?thesis
    using GetDelegation_key [of s 0 v w d]
    by (simp add: IncreaseRewardDelegation_def GetDelegation_Set key_of_def)
qed

lemma Increase_other:
  assumes "keys_ok s" and "computeDelegationsKey i v' w' \<noteq> computeDelegationsKey 0 v w"
  shows "GetDelegation (IncreaseRewardDelegation v w x s) i v' w' = GetDelegation s i v' w'"
  using assms GetDelegation_key [of s 0 v w]
  by (cases "GetDelegation s 0 v w") (simp_all add: IncreaseRewardDelegation_def GetDelegation_Set key_of_def)

lemma Increase_keys_ok [intro]: "keys_ok s \<Longrightarrow> keys_ok (IncreaseRewardDelegation v w x s)"
  by (simp add: IncreaseRewardDelegation_def Let_def keys_ok_Set)

lemma Increase_coin [simp]: "dp_coin (IncreaseRewardDelegation v w x s) = dp_coin s"
  by (simp add: IncreaseRewardDelegation_def Let_def)

lemma claims_Increase:
  assumes "keys_ok s"
  shows "claims (IncreaseRewardDelegation v w x s) = claims s + x"
proof (cases "GetDelegation s 0 v w")
  case None
  then show ?thesis
    using assms by (simp add: IncreaseRewardDelegation_def claims_Set key_of_def owed_at_Get) (simp add: owed_def)
next
  case (Some d)
  then have "key_of (d\<lparr>dl_Amount := y\<rparr>) = computeDelegationsKey 0 v w" for y
    using GetDelegation_key [OF assms Some] by (simp add: key_of_def)
  with Some assms show ?thesis
    by (simp add: IncreaseRewardDelegation_def claims_Set owed_at_Get) (simp add: owed_def)
qed

text \<open>The share of the reward a delegation is credited with.\<close>

definition share_of :: "(address \<rightharpoonup> int) \<Rightarrow> (address \<rightharpoonup> int) \<Rightarrow> Delegation \<Rightarrow> int" where
  "share_of former rewards d =
     (if Local (dl_Validator d) = Local limboValidatorAddress then 0
      else
        (case rewards (dl_Validator d) of
           None \<Rightarrow> 0
         | Some r \<Rightarrow> calculateShare (calculateWeightedDelegationAmount d)
             (case former (dl_Validator d) of None \<Rightarrow> 0 | Some t \<Rightarrow> t) r))"

lemma pay_delegator_effect:
  assumes "keys_ok s" and "GetDelegation s (dl_Index d) (dl_Validator d) (dl_Delegator d) = Some d"
  shows "keys_ok (pay_delegator f r d s)" and "claims (pay_delegator f r d s) = claims s + share_of f r d"
    and "dp_coin (pay_delegator f r d s) = dp_coin s"
    and "owed_at (pay_delegator f r d s) (key_of d) = owed d + (if dl_Index d = 0 then share_of f r d else 0)"
    and "k \<noteq> computeDelegationsKey 0 (dl_Validator d) (dl_Delegator d) \<Longrightarrow>
      map_of (dp_delegations (pay_delegator f r d s)) k = map_of (dp_delegations s) k"
proof -
  have key: "key_of d = computeDelegationsKey (dl_Index d) (dl_Validator d) (dl_Delegator d)"
    by (simp add: key_of_def)
  show "keys_ok (pay_delegator f r d s)" "claims (pay_delegator f r d s) = claims s + share_of f r d"
    "dp_coin (pay_delegator f r d s) = dp_coin s"
    using assms(1)
    by (simp_all add: pay_delegator_def share_of_def claims_Increase Increase_keys_ok split: option.split)
  show "owed_at (pay_delegator f r d s) (key_of d) = owed d + (if dl_Index d = 0 then share_of f r d else 0)"
  proof (cases "dl_Index d = 0")
    case True
    have "GetDelegation (IncreaseRewardDelegation (dl_Validator d) (dl_Delegator d) x s) 0 (dl_Validator d) (dl_Delegator d) =
        Some (d\<lparr>dl_Amount := dl_Amount d + x\<rparr>)" for x
      using assms True by (subst GetDelegation_Increase) simp
    with True assms key show ?thesis
      by (simp add: pay_delegator_def share_of_def owed_at_Get Let_def split: option.split) (simp add: owed_def)
  next
    case False
    then have "GetDelegation (IncreaseRewardDelegation (dl_Validator d) (dl_Delegator d) x s)
        (dl_Index d) (dl_Validator d) (dl_Delegator d) = Some d" for x
      using assms by (subst Increase_other) (simp_all add: computeDelegationsKey_def)
    with False assms key show ?thesis
      by (simp add: pay_delegator_def share_of_def owed_at_Get Let_def split: option.split)
  qed
next
  assume k: "k \<noteq> computeDelegationsKey 0 (dl_Validator d) (dl_Delegator d)"
  have "key_of e = computeDelegationsKey 0 (dl_Validator d) (dl_Delegator d)"
    if "GetDelegation s 0 (dl_Validator d) (dl_Delegator d) = Some e" for e
    using GetDelegation_key [OF assms(1) that] .
  then show "map_of (dp_delegations (pay_delegator f r d s)) k = map_of (dp_delegations s) k"
    using k by (auto simp: pay_delegator_def IncreaseRewardDelegation_def Let_def dp_delegations_Set update_conv'
        key_of_def split: option.split)
qed

lemma reset_fields [simp]:
  "dl_Validator (resetDelegationIfExpired ctx d) = dl_Validator d"
  "dl_Delegator (resetDelegationIfExpired ctx d) = dl_Delegator d"
  "dl_Index (resetDelegationIfExpired ctx d) = dl_Index d"
  "dl_Amount (resetDelegationIfExpired ctx d) = dl_Amount d"
  "dl_State (resetDelegationIfExpired ctx d) = dl_State d"
  by (simp_all add: resetDelegationIfExpired_def)

lemma settle_effect:
  assumes "keys_ok s"
  shows "claims (snd (settle_delegation ctx d s)) = claims s - owed_at s (key_of d) + dl_Amount d"
    and "keys_ok (snd (settle_delegation ctx d s))"
    and "dp_coin (snd (settle_delegation ctx d s)) = dp_coin s"
    and "GetDelegation (snd (settle_delegation ctx d s)) (dl_Index d) (dl_Validator d) (dl_Delegator d) =
      (if dl_Amount d = 0 \<and> dl_State d = UNBONDING then None
       else Some (resetDelegationIfExpired ctx (d\<lparr>dl_UpdateAmount := 0, dl_State := BONDED\<rparr>)))"
proof -
  have key: "key_of (resetDelegationIfExpired ctx (d\<lparr>dl_UpdateAmount := 0, dl_State := BONDED\<rparr>)) = key_of d"
    by (simp add: key_of_def)
  show "claims (snd (settle_delegation ctx d s)) = claims s - owed_at s (key_of d) + dl_Amount d"
    using assms by (simp add: settle_delegation_def claims_Set claims_Delete key Let_def) (simp add: owed_def)
  show "keys_ok (snd (settle_delegation ctx d s))"
    using assms by (simp add: settle_delegation_def keys_ok_Set keys_ok_Delete Let_def)
  show "dp_coin (snd (settle_delegation ctx d s)) = dp_coin s"
    by (simp add: settle_delegation_def Let_def)
  show "GetDelegation (snd (settle_delegation ctx d s)) (dl_Index d) (dl_Validator d) (dl_Delegator d) =
      (if dl_Amount d = 0 \<and> dl_State d = UNBONDING then None
       else Some (resetDelegationIfExpired ctx (d\<lparr>dl_UpdateAmount := 0, dl_State := BONDED\<rparr>)))"
    by (simp add: settle_delegation_def GetDelegation_Set GetDelegation_Delete key Let_def) (simp add: key_of_def)
qed

text \<open>What an unbonding delegation is paid, and where a delegation is kept afterwards.\<close>

definition paid_out :: "Delegation \<Rightarrow> int" where
  "paid_out d = (if dl_State d = UNBONDING then dl_UpdateAmount d else 0)"

definition new_validator :: "Delegation \<Rightarrow> address" where
  "new_validator d =
     (case dl_UpdateValidator d of
        Some v \<Rightarrow> if dl_State d = REDELEGATING then v else dl_Validator d
      | None \<Rightarrow> dl_Validator d)"

lemma moved_0 [simp]: "moved b x y 0 = b"
  by (simp add: moved_def)

text \<open>
  Applying the pending change gives the delegation its final amount, pays out, and frees the slot
  the delegation leaves.
\<close>

lemma apply_pending_effect:
  assumes "apply_pending ctx d s = Inr (d', s')" and "keys_ok s" and "wf_coin_store (dp_coin s)"
    and "dl_State d = REDELEGATING \<longrightarrow> computeDelegationsKey (dl_Index d) (new_validator d) (dl_Delegator d) \<noteq> key_of d"
  shows "keys_ok s' \<and> wf_coin_store (dp_coin s') \<and>
    d' = d\<lparr>dl_Validator := new_validator d, dl_Amount := owed d - paid_out d\<rparr> \<and>
    bal_of (dp_coin s') = moved (bal_of (dp_coin s)) (contract_address ctx) (dl_Delegator d) (paid_out d) \<and>
    claims s' - owed_at s' (key_of d') =
      claims s - owed_at s (key_of d) - (if dl_State d = REDELEGATING then owed_at s (key_of d') else 0)"
proof (cases "dl_State d")
  case BONDING
  with assms have "d' = d\<lparr>dl_Amount := dl_Amount d + dl_UpdateAmount d\<rparr>" "s' = s" by (auto simp: apply_pending_def)
  with BONDING assms show ?thesis
    by (simp add: owed_def paid_out_def new_validator_def key_of_def split: option.split)
next
  case BONDED
  with assms have "d' = d" "s' = s" by (auto simp: apply_pending_def)
  with BONDED assms show ?thesis
    by (simp add: owed_def paid_out_def new_validator_def split: option.split)
next
  case UNBONDING
  with assms(1) have t: "ERC20_Transfer ctx (dl_Delegator d) (dl_UpdateAmount d) s = Inr s'"
    and d': "d' = d\<lparr>dl_Amount := dl_Amount d - dl_UpdateAmount d\<rparr>"
    by (auto simp: apply_pending_def elim!: bind_resE)
  from ERC20_TransferD [OF assms(3) t] obtain c where "s' = s\<lparr>dp_coin := c\<rparr>" "wf_coin_store c"
    "bal_of c = moved (bal_of (dp_coin s)) (contract_address ctx) (dl_Delegator d) (dl_UpdateAmount d)" by metis
  with UNBONDING assms(2) d' show ?thesis
    by (simp add: owed_def paid_out_def new_validator_def key_of_def owed_at_def split: option.split)
next
  case REDELEGATING
  with assms(1) obtain v where v: "dl_UpdateValidator d = Some v" "d' = d\<lparr>dl_Validator := v\<rparr>"
    "s' = DeleteDelegation d s" by (auto simp: apply_pending_def elim!: bind_resE)
  have nv: "new_validator d = v" using v REDELEGATING by (simp add: new_validator_def)
  have k: "key_of d' = computeDelegationsKey (dl_Index d) v (dl_Delegator d)" using v by (simp add: key_of_def)
  have "owed_at s' (key_of d') = owed_at s (key_of d')"
    using assms(4) REDELEGATING by (simp add: v(3) k nv owed_at_Get GetDelegation_Delete)
  then show ?thesis
    using REDELEGATING assms(2,3) v by (simp add: nv owed_def paid_out_def claims_Delete keys_ok_Delete)
qed

section \<open>Properties\<close>

text \<open>C5: What an election does to one delegation. Its pending change takes effect: a bonding amount
  becomes part of the delegation, an unbonding amount is paid from the contract to the delegator and
  the delegation is deleted when nothing is left, a redelegation moves to the new validator (here, to
  a slot that was free). What the contract owes changes by the reward share minus the payout, except
  that the share of a reward delegation (index 0) is lost, because the delegation read before the
  reward was credited is written back over it.\<close>

theorem election_settles:
  assumes "keys_ok s" and "wf_coin_store (dp_coin s)"
    and "GetDelegation s (dl_Index d) (dl_Validator d) (dl_Delegator d) = Some d"
    and "dl_State d = REDELEGATING \<longrightarrow> GetDelegation s (dl_Index d) (new_validator d) (dl_Delegator d) = None"
    and "distribute_one ctx former rewards
      \<lparr>di_Validator = dl_Validator d, di_Delegator = dl_Delegator d, di_Index = dl_Index d\<rparr> (s, t) = Inr (s', t')"
  shows "keys_ok s' \<and> wf_coin_store (dp_coin s') \<and>
    claims s' = claims s + (if dl_Index d = 0 then 0 else share_of former rewards d) - paid_out d \<and>
    bal_of (dp_coin s') = moved (bal_of (dp_coin s)) (contract_address ctx) (dl_Delegator d) (paid_out d) \<and>
    GetDelegation s' (dl_Index d) (new_validator d) (dl_Delegator d) =
      (if dl_State d = UNBONDING \<and> dl_Amount d = dl_UpdateAmount d then None
       else Some (resetDelegationIfExpired ctx (d\<lparr>dl_Validator := new_validator d,
         dl_Amount := owed d - paid_out d, dl_UpdateAmount := 0, dl_State := BONDED\<rparr>)))"
proof -
  let ?s1 = "pay_delegator former rewards d s"
  note pay = pay_delegator_effect [OF assms(1,3), where f = former and r = rewards]
  from assms(3,5) obtain d2 s2 where p: "apply_pending ctx d ?s1 = Inr (d2, s2)"
    and s': "s' = snd (settle_delegation ctx d2 s2)"
    by (auto simp: distribute_one_def elim!: bind_resE split: prod.split_asm)
  have target: "computeDelegationsKey (dl_Index d) (new_validator d) (dl_Delegator d) \<noteq> key_of d"
    if "dl_State d = REDELEGATING"
    using assms(3,4) that by (auto simp: key_of_def GetDelegation_def)
  from apply_pending_effect [OF p pay(1)] assms(2) target pay(3)
  have a: "keys_ok s2" "wf_coin_store (dp_coin s2)"
    "d2 = d\<lparr>dl_Validator := new_validator d, dl_Amount := owed d - paid_out d\<rparr>"
    "bal_of (dp_coin s2) = moved (bal_of (dp_coin s)) (contract_address ctx) (dl_Delegator d) (paid_out d)"
    "claims s2 - owed_at s2 (key_of d2) = claims ?s1 - owed_at ?s1 (key_of d) -
       (if dl_State d = REDELEGATING then owed_at ?s1 (key_of d2) else 0)"
    by auto
  have "owed_at ?s1 (key_of d2) = 0" if R: "dl_State d = REDELEGATING"
  proof -
    have k2: "key_of d2 = computeDelegationsKey (dl_Index d) (new_validator d) (dl_Delegator d)"
      by (simp add: a(3) key_of_def)
    have "key_of d2 \<noteq> computeDelegationsKey 0 (dl_Validator d) (dl_Delegator d)"
      unfolding k2 using target [OF R] by (auto simp: key_of_def computeDelegationsKey_def)
    from pay(5) [OF this] assms(4) R show ?thesis by (simp add: owed_at_def k2 GetDelegation_def)
  qed
  then have "claims s' = claims s + (if dl_Index d = 0 then 0 else share_of former rewards d) - paid_out d"
    using settle_effect(1) [OF a(1), of ctx d2] a(5) pay(2,4) by (simp add: s' a(3) split: if_split_asm)
  moreover have "GetDelegation s' (dl_Index d) (new_validator d) (dl_Delegator d) =
      (if dl_State d = UNBONDING \<and> dl_Amount d = dl_UpdateAmount d then None
       else Some (resetDelegationIfExpired ctx (d\<lparr>dl_Validator := new_validator d,
         dl_Amount := owed d - paid_out d, dl_UpdateAmount := 0, dl_State := BONDED\<rparr>)))"
    using settle_effect(4) [OF a(1), of ctx d2]
    by (simp add: s' a(3)) (auto simp: owed_def paid_out_def)
  ultimately show ?thesis using settle_effect(2,3) [OF a(1), of ctx d2] a(2,4) by (simp add: s')
qed

definition demo_unbonding :: Delegation where
  "demo_unbonding = (demo_delegation 1 50)\<lparr>dl_State := UNBONDING, dl_UpdateAmount := 20\<rparr>"

definition demo_funded :: dpos_store where
  "demo_funded = SetDelegation demo_unbonding
     (demo_dpos\<lparr>dp_coin := put_account empty_coin_store \<lparr>acct_owner = demo_contract, acct_balance = 100\<rparr>\<rparr>)"

lemma demo_funded_ok: "keys_ok demo_funded" "wf_coin_store (dp_coin demo_funded)"
  unfolding demo_funded_def
  by (intro keys_ok_Set delegations_ok_keys) (simp_all add: demo_dpos_ok store_simps)

theorem election_settles_witness:
  "\<exists>s'. distribute_one (plain_ctx demo_contract) Map.empty Map.empty
     \<lparr>di_Validator = Address ''default'' [1], di_Delegator = Address ''default'' [2], di_Index = 1\<rparr> (demo_funded, []) =
       Inr s' \<and>
     claims (fst s') = claims demo_funded - 20 \<and> bal_of (dp_coin (fst s')) (Address ''default'' [2]) = 20"
proof -
  let ?d = demo_unbonding
  let ?i = "\<lparr>di_Validator = Address ''default'' [1], di_Delegator = Address ''default'' [2], di_Index = 1\<rparr> :: DelegationIndex"
  have f: "dl_Validator ?d = Address ''default'' [1]" "dl_Delegator ?d = Address ''default'' [2]" "dl_Index ?d = 1"
    "dl_State ?d = UNBONDING" "dl_UpdateAmount ?d = 20"
    by (simp_all add: demo_unbonding_def demo_delegation_def)
  have get: "GetDelegation demo_funded 1 (Address ''default'' [1]) (Address ''default'' [2]) = Some ?d"
    by (simp add: demo_funded_def GetDelegation_Set key_of_def f)
  have bal: "bal_of (dp_coin demo_funded) = (\<lambda>_. 0)(demo_contract := 100)"
    by (simp add: demo_funded_def store_simps fun_eq_iff)
  have "loadState demo_funded = Inr demo_state" by (simp add: demo_funded_def loadState_def)
  then have coin: "\<exists>a. loadCoin demo_funded = Inr a"
    by (simp add: loadCoin_def demo_state_def demo_params_def)
  have "\<exists>c. Coin_Transfer ((plain_ctx demo_contract)\<lparr>sender := demo_contract\<rparr>) (dp_coin demo_funded)
      \<lparr>tr_to = Address ''default'' [2], tr_amount = Some 20\<rparr> = Inr c"
    using coin.transfer_ok [OF demo_funded_ok(2), of 20 demo_contract] by (auto simp: bal)
  then have "\<exists>s'. ERC20_Transfer (plain_ctx demo_contract) (Address ''default'' [2]) 20 demo_funded = Inr s'"
    by (auto simp: ERC20_Transfer_def demo_contract_def)
  then have "\<exists>r. distribute_one (plain_ctx demo_contract) Map.empty Map.empty ?i (demo_funded, []) = Inr r"
    using coin by (auto simp: distribute_one_def get pay_delegator_def apply_pending_def f split: prod.split)
  then obtain s' t' where r: "distribute_one (plain_ctx demo_contract) Map.empty Map.empty ?i (demo_funded, []) = Inr (s', t')"
    by auto
  from election_settles [OF demo_funded_ok, of ?d "plain_ctx demo_contract" Map.empty Map.empty "[]" s' t'] get r f bal
  have "claims s' = claims demo_funded - 20 \<and> bal_of (dp_coin s') (Address ''default'' [2]) = 20"
    by (simp add: share_of_def paid_out_def moved_def demo_contract_def)
  with r show ?thesis by auto
qed

text \<open>C7: The outcome of an election. When the cycle is over and rewards and settlement succeed, the
  election succeeds, and it looks at the first ValidatorCount results, none of which has a smaller
  total than any result left out; the order in which the totals were listed does not matter. The
  new validators are those among them with a positive total and a candidate, with their totals cut
  to powers and capped, sorted by key; when there are none, validators and election time stay.\<close>

theorem election_result:
  assumes "dp_state s = Some st" and "election_due ctx st"
    and "rewardAndSlash ctx st s = Inr (s1, st1, rs)" and "0 \<le> sint (pa_ValidatorCount (ds_Params st))"
  shows "\<exists>s'. Elect ctx s = Inr s' \<and>
    (\<forall>r\<in>set (take (elected_count st) rs). \<forall>r'\<in>set (drop (elected_count st) rs).
       dr_DelegationTotal r' \<le> dr_DelegationTotal r) \<and>
    (\<forall>ys. mset ys = mset rs \<longrightarrow> sortResults ys = rs) \<and>
    dp_state s' = (let best = chosen s (take (elected_count st) rs) in
       if best = [] then Some st
       else Some (st1\<lparr>ds_Validators := sortValidators (applyPowerCap (map (validator_of s) best)),
                      ds_LastElectionTime := now_unix ctx,
                      ds_TotalValidatorDelegations := (\<Sum>r\<leftarrow>best. dr_DelegationTotal r)\<rparr>))"
proof -
  from assms(3) obtain ts where ts: "rs = sortResults ts"
    unfolding rewardAndSlash_def by (auto elim!: bind_resE split: prod.split_asm)
  have "sortResults ys = rs" if "mset ys = mset rs" for ys
  proof -
    have "mset rs = mset ts" by (simp add: ts sortResults_def)
    then show ?thesis using that ts sortResults_unique [of ys ts] by simp
  qed
  moreover have "dr_DelegationTotal r' \<le> dr_DelegationTotal r"
    if "r \<in> set (take n rs)" "r' \<in> set (drop n rs)" for r r' n
    using sortResults_desc [of ts] that unfolding ts [symmetric]
    by (metis append_take_drop_id sorted_wrt_append)
  ultimately show ?thesis using Elect_due [OF assms] by metis
qed

lemma whitelist_totals_none: "dp_statistics s = Map.empty \<Longrightarrow> whitelist_totals s cs t = t"
  by (induction cs arbitrary: t) (simp_all add: GetStatistic_def)

definition demo_bonding :: Delegation where
  "demo_bonding = (demo_delegation 1 0)\<lparr>dl_State := BONDING, dl_UpdateAmount := 5000000000000\<rparr>"

text \<open>A first election: one delegation is bonding, and its validator is elected.\<close>

definition demo_voted :: dpos_store where
  "demo_voted = SetDelegation demo_bonding demo_dpos"

definition demo_result :: DelegationResult where
  "demo_result = \<lparr>dr_ValidatorAddress = Address ''default'' [1], dr_DelegationTotal = 5000000000000\<rparr>"

lemma demo_voted_fields [simp]:
  "dp_state demo_voted = Some demo_state" "dp_candidates demo_voted = [demo_candidate]"
  "dp_statistics demo_voted = Map.empty"
  by (simp_all add: demo_voted_def)

lemma demo_distribution:
  "\<exists>s1. distributeDelegatorRewards (plain_ctx demo_contract) Map.empty Map.empty demo_voted =
     Inr (s1, [(Address ''default'' [1], 5000000000000)])"
proof -
  let ?i = "\<lparr>di_Validator = Address ''default'' [1], di_Delegator = Address ''default'' [2], di_Index = 1\<rparr> :: DelegationIndex"
  have f: "dl_Validator demo_bonding = Address ''default'' [1]" "dl_Delegator demo_bonding = Address ''default'' [2]"
    "dl_Index demo_bonding = 1" "dl_State demo_bonding = BONDING" "dl_UpdateAmount demo_bonding = 5000000000000"
    "dl_Amount demo_bonding = 0" "dl_LocktimeTier demo_bonding = 0"
    by (simp_all add: demo_bonding_def demo_delegation_def)
  have l: "dp_delegation_list demo_voted = [?i]"
    by (simp add: demo_voted_def list_Set sortDelegations_def f)
  have get: "GetDelegation demo_voted 1 (Address ''default'' [1]) (Address ''default'' [2]) = Some demo_bonding"
    by (simp add: demo_voted_def GetDelegation_Set key_of_def f)
  have limbo: "Local limboValidatorAddress \<noteq> [1]"
    by (auto simp: limboValidatorAddress_def dest: arg_cong [of _ _ length])
  have one: "\<exists>s1. distribute_one (plain_ctx demo_contract) Map.empty Map.empty ?i (demo_voted, []) =
      Inr (s1, [(Address ''default'' [1], 5000000000000)])"
    using limbo by (simp add: distribute_one_def get pay_delegator_def apply_pending_def f settle_delegation_def Let_def
        add_total_def calculateWeightedDelegationAmount_def resetDelegationIfExpired_def CalculateFraction_eq
        bonusPercentage_def TierBonusMap_def)
  have wt: "whitelist_totals demo_voted (dp_candidates demo_voted) [] = []" by (rule whitelist_totals_none) simp
  show ?thesis unfolding distributeDelegatorRewards_def wt l using one by auto
qed

lemma demo_election:
  obtains s1 where "rewardAndSlash (plain_ctx demo_contract) demo_state demo_voted = Inr (s1, demo_state, [demo_result])"
proof -
  have v: "ds_Validators demo_state = []" by (simp add: demo_state_def)
  from demo_distribution that show thesis
    by (auto simp: rewardAndSlash_def v sortResults_def demo_result_def)
qed

lemma demo_due: "election_due (plain_ctx demo_contract) demo_state" "elected_count demo_state = 4"
  "0 \<le> sint (pa_ValidatorCount (ds_Params demo_state))"
  by (simp_all add: election_due_def demo_state_def demo_params_def i64_def elected_count_def)

lemma demo_chosen: "chosen demo_voted [demo_result] = [demo_result]"
  "validator_of demo_voted demo_result = \<lparr>va_PubKey = [1, 1], va_Power = 5\<rparr>"
  by (simp_all add: chosen_def validator_of_def GetCandidate_def demo_candidate_def powerCorrection_def i64_def
      demo_result_def)

theorem election_result_witness:
  "\<exists>s'. Elect (plain_ctx demo_contract) demo_voted = Inr s' \<and>
     map_option ds_Validators (dp_state s') = Some [\<lparr>va_PubKey = [1, 1], va_Power = 5\<rparr>]"
proof (rule demo_election)
  fix s1
  assume "rewardAndSlash (plain_ctx demo_contract) demo_state demo_voted = Inr (s1, demo_state, [demo_result])"
  from election_result [OF demo_voted_fields(1) demo_due(1) this demo_due(3)] show ?thesis
    by (auto simp: demo_due demo_chosen applyPowerCap_def sortValidators_def Let_def)
qed

text \<open>A change of fee takes two elections. After a candidate's successful ChangeFee, the first
  election that is due leaves the old fee in force and the second one puts the new fee in force and
  the candidate back in state REGISTERED, whatever else the elections do.\<close>

theorem fee_change_takes_two_elections:
  assumes "candidates_ok s" and "DPOS_ChangeFee ctx fee s = Inr s1"
    and "dp_state s1 = Some st1" and "election_due ctx1 st1" and "Elect ctx1 s1 = Inr s2"
    and "dp_state s2 = Some st2" and "election_due ctx2 st2" and "Elect ctx2 s2 = Inr s3"
  shows "\<exists>c. GetCandidate s (sender ctx) = Some c \<and> cd_State c = REGISTERED \<and> fee \<le> 10000 \<and>
    GetCandidate s2 (sender ctx) = Some (c\<lparr>cd_NewFee := fee, cd_State := CHANGING_FEE\<rparr>) \<and>
    GetCandidate s3 (sender ctx) = Some (c\<lparr>cd_Fee := fee, cd_NewFee := fee, cd_State := REGISTERED\<rparr>)"
proof -
  from ChangeFeeD [OF assms(1,2)] obtain c where c: "GetCandidate s (sender ctx) = Some c" "cd_State c = REGISTERED"
    "fee \<le> 10000" "candidates_ok s1"
    "GetCandidate s1 (sender ctx) = Some (c\<lparr>cd_NewFee := fee, cd_State := ABOUT_TO_CHANGE_FEE\<rparr>)" by metis
  note e1 = Elect_candidates [OF c(4) assms(3,4,5)]
  note e2 = Elect_candidates [OF e1(1) assms(6,7,8)]
  have g2: "GetCandidate s2 (sender ctx) = Some (c\<lparr>cd_NewFee := fee, cd_State := CHANGING_FEE\<rparr>)"
    using c(5) by (simp add: e1(2) update_candidate_def)
  then have "GetCandidate s3 (sender ctx) = Some (c\<lparr>cd_Fee := fee, cd_NewFee := fee, cd_State := REGISTERED\<rparr>)"
    by (simp add: e2(2) update_candidate_def)
  with c g2 show ?thesis by blast
qed

lemma Elect_idle:
  assumes "dp_state s = Some st" and "election_due ctx st" and "ds_Validators st = []"
    and "dp_delegation_list s = []" and "dp_statistics s = Map.empty"
    and "0 \<le> sint (pa_ValidatorCount (ds_Params st))"
  shows "Elect ctx s = Inr (updateCandidateList s)"
  using assms
  by (simp add: Elect_def loadState_def election_due_def rewardAndSlash_def distributeDelegatorRewards_def
      whitelist_totals_none sortResults_def Let_def)

lemma updateCandidateList_fields [simp]:
  "dp_delegation_list (updateCandidateList s) = dp_delegation_list s"
  "dp_statistics (updateCandidateList s) = dp_statistics s"
  by (simp_all add: updateCandidateList_def saveCandidateList_def Let_def)

theorem fee_change_takes_two_elections_witness:
  "\<exists>s1 s2 s3. DPOS_ChangeFee (plain_ctx (Address ''default'' [1])) 200 demo_dpos = Inr s1 \<and>
     Elect (plain_ctx demo_contract) s1 = Inr s2 \<and> Elect (plain_ctx demo_contract) s2 = Inr s3 \<and>
     map_option cd_Fee (GetCandidate s2 (Address ''default'' [1])) = Some 100 \<and>
     map_option cd_Fee (GetCandidate s3 (Address ''default'' [1])) = Some 200"
proof -
  let ?ctx = "plain_ctx (Address ''default'' [1])" and ?e = "plain_ctx demo_contract"
  define s1 where "s1 = saveCandidateList (modify_candidate (Address ''default'' [1])
    (\<lambda>c. c\<lparr>cd_NewFee := 200, cd_State := ABOUT_TO_CHANGE_FEE\<rparr>) [demo_candidate]) demo_dpos"
  have ok: "candidates_ok demo_dpos" by (simp add: candidates_ok_def)
  have c: "DPOS_ChangeFee ?ctx 200 demo_dpos = Inr s1"
    by (simp add: DPOS_ChangeFee_def CandidateList_Get_def validateFee_def s1_def demo_candidate_def)
  have due: "election_due ?e demo_state" by (simp add: election_due_def demo_state_def demo_params_def i64_def)
  have st: "ds_Validators demo_state = []" "0 \<le> sint (pa_ValidatorCount (ds_Params demo_state))"
    by (simp_all add: demo_state_def demo_params_def)
  have s1: "dp_state s1 = Some demo_state" "dp_delegation_list s1 = []" "dp_statistics s1 = Map.empty"
    by (simp_all add: s1_def saveCandidateList_def)
  have e1: "Elect ?e s1 = Inr (updateCandidateList s1)"
    by (rule Elect_idle [OF s1(1) due st(1) s1(2,3) st(2)])
  have e2: "Elect ?e (updateCandidateList s1) = Inr (updateCandidateList (updateCandidateList s1))"
    by (rule Elect_idle [OF _ due st(1) _ _ st(2)]) (simp_all add: s1)
  have "dp_state (updateCandidateList s1) = Some demo_state" by (simp add: s1)
  from fee_change_takes_two_elections [OF ok c s1(1) due e1 this due e2] c e1 e2 show ?thesis
    by (auto simp: GetCandidate_def demo_candidate_def)
qed

text \<open>
  The validator set Tendermint keeps: powers by public key, a zero power removes the validator.
\<close>

definition tm_update :: "bytes \<times> int \<Rightarrow> (bytes \<rightharpoonup> int) \<Rightarrow> (bytes \<rightharpoonup> int)" where
  "tm_update u m = (case u of (k, p) \<Rightarrow> if p = 0 then m(k := None) else m(k \<mapsto> p))"

definition tm_set :: "Validator list \<Rightarrow> (bytes \<rightharpoonup> int)" where
  "tm_set vs = fold tm_update (map (\<lambda>v. (va_PubKey v, va_Power v)) vs) Map.empty"

lemma tm_update_outside:
  "k \<notin> fst ` set us \<Longrightarrow> fold tm_update us m k = m k"
  by (induction us arbitrary: m) (auto simp: tm_update_def split: prod.split)

lemma tm_update_same:
  "(\<And>k. k \<notin> fst ` set us \<Longrightarrow> m k = m' k) \<Longrightarrow> fold tm_update us m = fold tm_update us m'"
proof (induction us arbitrary: m m')
  case (Cons u us)
  show ?case
    unfolding fold_simps o_apply
    by (rule Cons.IH) (use Cons.prems in \<open>auto simp: tm_update_def split: prod.split\<close>)
qed auto

lemma tm_update_remove:
  "fold tm_update (map (\<lambda>v. (va_PubKey v, 0)) vs) m k = (if k \<in> va_PubKey ` set vs then None else m k)"
  by (induction vs arbitrary: m) (auto simp: tm_update_def)

text \<open>The update list of an end of block turns the set of the former validators into that of the new ones.\<close>

lemma missing_updates:
  assumes "sorted (map va_PubKey old)" and "distinct (map va_PubKey old)"
    and "sorted (map va_PubKey new)" and "distinct (map va_PubKey new)"
  shows "fold tm_update (map (\<lambda>v. (va_PubKey v, 0)) (MissingValidators old new) @ map (\<lambda>v. (va_PubKey v, va_Power v)) new)
    (tm_set old) = tm_set new"
proof -
  let ?new = "map (\<lambda>v. (va_PubKey v, va_Power v)) new"
  from assms have "sorted_wrt (\<lambda>a b. va_PubKey a < va_PubKey b) old"
    "sorted_wrt (\<lambda>a b. va_PubKey a < va_PubKey b) new"
    by (simp_all add: strict_sorted_iff flip: sorted_wrt_map)
  note missing = MissingValidators_eq [OF this]
  let ?m = "fold tm_update (map (\<lambda>v. (va_PubKey v, 0)) (MissingValidators old new)) (tm_set old)"
  have "?m k = None" if "k \<notin> fst ` set ?new" for k
  proof (cases "k \<in> va_PubKey ` set old")
    case True
    with that show ?thesis unfolding tm_update_remove missing by (auto simp: image_iff)
  next
    case False
    then have "tm_set old k = None" unfolding tm_set_def by (subst tm_update_outside) (auto simp: image_iff)
    then show ?thesis unfolding tm_update_remove by simp
  qed
  then have "fold tm_update ?new ?m = fold tm_update ?new Map.empty" by (intro tm_update_same) simp
  then show ?thesis by (simp add: tm_set_def)
qed

text \<open>C8: Tendermint follows the contract. When the validators before and after a block have distinct
  keys, applying the updates EndBlock returns to Tendermint's validator set, in which a power of zero
  removes a validator, turns the set for the former validators into exactly the set for the current
  ones.\<close>

theorem endblock_updates:
  assumes "EndBlockV3 ctx s = Inr (s', updates)" and "ValidatorList s = Inr old" and "ValidatorList s' = Inr new"
    and "sorted (map va_PubKey old)" and "distinct (map va_PubKey old)" and "distinct (map va_PubKey new)"
  shows "fold tm_update updates (tm_set old) = tm_set new"
proof -
  from assms(1-3) have e: "Elect ctx s = Inr s'"
    and u: "updates = map (\<lambda>v. (va_PubKey v, 0)) (MissingValidators old new) @ map (\<lambda>v. (va_PubKey v, va_Power v)) new"
    by (auto simp: EndBlockV3_def Let_def elim!: bind_resE)
  have "sorted (map va_PubKey new)" by (rule Elect_sorted [OF e assms(2,4,3)])
  from missing_updates [OF assms(4,5) this assms(6)] show ?thesis by (simp add: u)
qed

lemma demo_elected:
  obtains s' where "Elect (plain_ctx demo_contract) demo_voted = Inr s'"
    and "ValidatorList s' = Inr [\<lparr>va_PubKey = [1, 1], va_Power = 5\<rparr>]"
proof (rule demo_election)
  fix s1
  assume r: "rewardAndSlash (plain_ctx demo_contract) demo_state demo_voted = Inr (s1, demo_state, [demo_result])"
  show thesis
    by (rule Elect_due [OF demo_voted_fields(1) demo_due(1) r demo_due(3)], rule that, assumption)
      (simp add: ValidatorList_def loadState_def demo_due demo_chosen applyPowerCap_def sortValidators_def)
qed

theorem endblock_updates_witness:
  "\<exists>s' updates. EndBlockV3 (plain_ctx demo_contract) demo_voted = Inr (s', updates) \<and>
     fold tm_update updates (tm_set []) = [[1, 1] \<mapsto> 5]"
proof (rule demo_elected)
  let ?new = "[\<lparr>va_PubKey = [1, 1], va_Power = 5\<rparr>] :: Validator list"
  fix s'
  assume e: "Elect (plain_ctx demo_contract) demo_voted = Inr s'" and new: "ValidatorList s' = Inr ?new"
  have old: "ValidatorList demo_voted = Inr []" by (simp add: ValidatorList_def loadState_def demo_state_def)
  have b: "EndBlockV3 (plain_ctx demo_contract) demo_voted = Inr (s', [([1, 1], 5)])"
    by (simp add: EndBlockV3_def old e new)
  from endblock_updates [OF b old new] b show ?thesis by (auto simp: tm_set_def tm_update_def)
qed

end
