(* ===== verification/Karma.thy ===== *)
theory Karma
  imports Coin_Contract "HOL-Library.AList" "HOL-Library.Sublist" "HOL-Library.Multiset"
begin

text \<open>
  The karma contract, \<open>builtin/plugins/karma/karma.go\<close> and \<open>upkeep.go\<close>: karma of users by source, the
  totals for deploying and calling, coins deposited for karma, the contracts users own and the
  periodic upkeep that charges their owners and deactivates what they cannot afford.

  Karma of a user is stored under the encoded address; an association list keeps the users in the
  order in which a range over them reads them. A source's count is always present in stored states.
  A big integer that a callee changes in place is returned by it.
\<close>

section \<open>State\<close>

datatype KarmaSourceTarget = DEPLOY | CALL | UnknownTarget int

record KarmaSourceReward =
  kr_Name :: string
  kr_Reward :: int
  kr_Target :: KarmaSourceTarget

record KarmaSource =
  ks_Name :: string
  ks_Count :: int

record KarmaState =
  kst_SourceStates :: "KarmaSource list"
  kst_DeployKarmaTotal :: "int option"
  kst_CallKarmaTotal :: "int option"
  kst_NumOwnedContracts :: int

record KarmaContractRecord =
  kc_Owner :: "address option"
  kc_Address :: address
  kc_ContractId :: u64

record KarmaUpkeepParams =
  up_Cost :: int
  up_Period :: int

record karma_store =
  km_sources :: "KarmaSourceReward list option"
  km_oracle :: "address option"
  km_config :: "int option"
  km_users :: "(address \<times> KarmaState) list"
  km_upkeep :: "KarmaUpkeepParams option"
  km_last_upkeep :: "u64 option"
  km_next_id :: "u64 option"
  km_records :: "address \<rightharpoonup> KarmaContractRecord"
  km_active :: "((address \<times> u64) \<times> address) list"
  km_perms :: permissions
  km_coin :: coin_store

definition CoinDeployToken :: string where "CoinDeployToken = ''coin-deploy''"
definition oracleRole :: string where "oracleRole = ''karma_role_oracle''"

text \<open>The permissions an oracle holds.\<close>

definition oracle_permissions :: "string list" where
  "oracle_permissions = [''change_oracle'', ''change_user_sources'', ''reset_sources'', ''set-upkeep'', ''change-config'']"

definition ErrNotAuthorized :: go_error where
  "ErrNotAuthorized = Err ''sender is not authorized to call this method''"

definition require_permission :: "call_ctx \<Rightarrow> karma_store \<Rightarrow> string \<Rightarrow> unit res" where
  "require_permission ctx s perm =
     (if HasPermission (km_perms s) (sender ctx) perm [oracleRole] then Inr () else Inl ErrNotAuthorized)"

section \<open>Karma of users\<close>

definition empty_karma :: KarmaState where
  "empty_karma = \<lparr>kst_SourceStates = [], kst_DeployKarmaTotal = None, kst_CallKarmaTotal = None, kst_NumOwnedContracts = 0\<rparr>"

definition Karma_GetUserState :: "karma_store \<Rightarrow> address \<Rightarrow> KarmaState" where
  "Karma_GetUserState s user = (case map_of (km_users s) user of None \<Rightarrow> empty_karma | Some st \<Rightarrow> st)"

definition set_user_state :: "address \<Rightarrow> KarmaState \<Rightarrow> karma_store \<Rightarrow> karma_store" where
  "set_user_state user st s = s\<lparr>km_users := AList.update user st (km_users s)\<rparr>"

definition add_reward :: "KarmaSourceReward \<Rightarrow> KarmaSource \<Rightarrow> int \<times> int \<Rightarrow> int \<times> int" where
  "add_reward c s acc =
     (case acc of (deployKarma, callKarma) \<Rightarrow>
      (if kr_Name c = ks_Name s \<and> kr_Target c = DEPLOY then deployKarma + kr_Reward c * ks_Count s else deployKarma,
       if kr_Name c = ks_Name s \<and> kr_Target c = CALL then callKarma + kr_Reward c * ks_Count s else callKarma))"

definition CalculateTotalKarma :: "KarmaSourceReward list \<Rightarrow> KarmaSource list \<Rightarrow> int \<times> int" where
  "CalculateTotalKarma karmaSources sourceStates =
     fold (\<lambda>c. fold (add_reward c) sourceStates) karmaSources (0, 0)"

definition with_totals :: "KarmaSourceReward list \<Rightarrow> KarmaState \<Rightarrow> KarmaState" where
  "with_totals karmaSources st =
     (case CalculateTotalKarma karmaSources (kst_SourceStates st) of (deployKarma, callKarma) \<Rightarrow>
      st\<lparr>kst_DeployKarmaTotal := Some deployKarma, kst_CallKarmaTotal := Some callKarma\<rparr>)"

definition load_sources :: "karma_store \<Rightarrow> KarmaSourceReward list res" where
  "load_sources s = (case km_sources s of None \<Rightarrow> Inl ErrNotFound | Some c \<Rightarrow> Inr c)"

fun add_amounts :: "KarmaSource list \<Rightarrow> KarmaSource list \<Rightarrow> KarmaSource list" where
  "add_amounts [] states = states"
| "add_amounts (source # amounts) states =
     add_amounts amounts
       (if list_ex (\<lambda>s. ks_Name s = ks_Name source) states
        then update_first (\<lambda>s. ks_Name s = ks_Name source) (\<lambda>s. s\<lparr>ks_Count := ks_Count s + ks_Count source\<rparr>) states
        else states @ [source])"

definition AddKarma :: "address \<Rightarrow> KarmaSource list \<Rightarrow> karma_store \<Rightarrow> karma_store res" where
  "AddKarma user karmaAmounts s =
     (let state = Karma_GetUserState s user;
          state = state\<lparr>kst_SourceStates := add_amounts karmaAmounts (kst_SourceStates state)\<rparr>
      in
      bind_res (load_sources s) (\<lambda>karmaSources.
      Inr (set_user_state user (with_totals karmaSources state) s)))"

definition Karma_AddKarma :: "call_ctx \<Rightarrow> address option \<Rightarrow> KarmaSource list \<Rightarrow> karma_store \<Rightarrow> karma_store res" where
  "Karma_AddKarma ctx user karmaAmounts s =
     bind_res (require_permission ctx s ''change_user_sources'') (\<lambda>_.
     bind_res (deref user) (\<lambda>u. AddKarma u karmaAmounts s))"

definition GetUserKarma :: "karma_store \<Rightarrow> address \<Rightarrow> KarmaSourceTarget \<Rightarrow> int res" where
  "GetUserKarma s user target =
     (let st = Karma_GetUserState s user in
      case (kst_DeployKarmaTotal st, kst_CallKarmaTotal st) of
        (Some deployKarma, Some callKarma) \<Rightarrow>
          (case target of
             DEPLOY \<Rightarrow> Inr deployKarma
           | CALL \<Rightarrow> Inr callKarma
           | UnknownTarget _ \<Rightarrow> Inl (Err ''unknown karma target''))
      | _ \<Rightarrow> Inr 0)"

definition modify_count :: "string \<Rightarrow> int \<Rightarrow> KarmaSource list \<Rightarrow> KarmaSource list res" where
  "modify_count name amount states =
     (case find (\<lambda>s. ks_Name s = name) states of
        Some source \<Rightarrow>
          let newAmount = ks_Count source + amount in
          if newAmount < 0 then Inl (Err ''not enough karma in source'')
          else Inr (update_first (\<lambda>s. ks_Name s = name) (\<lambda>s. s\<lparr>ks_Count := newAmount\<rparr>) states)
      | None \<Rightarrow>
          if amount < 0 then Inl (Err ''not enough karma in source'')
          else Inr (states @ [\<lparr>ks_Name = name, ks_Count = amount\<rparr>]))"

definition modifyCountForUser :: "address \<Rightarrow> string \<Rightarrow> int \<Rightarrow> karma_store \<Rightarrow> karma_store res" where
  "modifyCountForUser user sourceName amount s =
     (let state = Karma_GetUserState s user in
      bind_res (modify_count sourceName amount (kst_SourceStates state)) (\<lambda>states.
      bind_res (load_sources s) (\<lambda>karmaSources.
      Inr (set_user_state user (with_totals karmaSources (state\<lparr>kst_SourceStates := states\<rparr>)) s))))"

section \<open>Coins for karma\<close>

definition karma_TransferFrom :: "call_ctx \<Rightarrow> address \<Rightarrow> address \<Rightarrow> int option \<Rightarrow> karma_store \<Rightarrow> karma_store res" where
  "karma_TransferFrom ctx src dst amount s =
     bind_res (Coin_TransferFrom (ctx\<lparr>sender := contract_address ctx\<rparr>) (km_coin s)
       \<lparr>tf_from = src, tf_to = dst, tf_amount = amount\<rparr>) (\<lambda>c. Inr (s\<lparr>km_coin := c\<rparr>))"

definition karma_Transfer :: "call_ctx \<Rightarrow> address \<Rightarrow> int option \<Rightarrow> karma_store \<Rightarrow> karma_store res" where
  "karma_Transfer ctx dst amount s =
     bind_res (Coin_Transfer (ctx\<lparr>sender := contract_address ctx\<rparr>) (km_coin s)
       \<lparr>tr_to = dst, tr_amount = amount\<rparr>) (\<lambda>c. Inr (s\<lparr>km_coin := c\<rparr>))"

definition Karma_DepositCoin :: "call_ctx \<Rightarrow> address option \<Rightarrow> int option \<Rightarrow> karma_store \<Rightarrow> karma_store res" where
  "Karma_DepositCoin ctx user amount s =
     bind_res (resolve ctx ''coin'') (\<lambda>_.
     bind_res (deref user) (\<lambda>u.
     bind_res (karma_TransferFrom ctx u (contract_address ctx) amount s) (\<lambda>s.
     bind_res (deref amount) (\<lambda>a. modifyCountForUser u CoinDeployToken a s))))"

definition Karma_WithdrawCoin :: "call_ctx \<Rightarrow> address option \<Rightarrow> int option \<Rightarrow> karma_store \<Rightarrow> karma_store res" where
  "Karma_WithdrawCoin ctx user amount s =
     bind_res (resolve ctx ''coin'') (\<lambda>_.
     bind_res (deref user) (\<lambda>u.
     bind_res (karma_Transfer ctx u amount s) (\<lambda>s.
     bind_res (deref amount) (\<lambda>a. modifyCountForUser u CoinDeployToken (a * - 1) s))))"

section \<open>Settings of the oracle\<close>

definition Karma_SetConfig :: "call_ctx \<Rightarrow> int \<Rightarrow> karma_store \<Rightarrow> karma_store res" where
  "Karma_SetConfig ctx cfg s =
     bind_res (require_permission ctx s ''change-config'') (\<lambda>_. Inr (s\<lparr>km_config := Some cfg\<rparr>))"

definition Karma_GetConfig :: "karma_store \<Rightarrow> int" where
  "Karma_GetConfig s = (case km_config s of None \<Rightarrow> 0 | Some c \<Rightarrow> c)"

definition GetOracleAddress :: "karma_store \<Rightarrow> address option" where
  "GetOracleAddress s = km_oracle s"

definition Karma_GetSources :: "karma_store \<Rightarrow> KarmaSourceReward list" where
  "Karma_GetSources s = (case km_sources s of None \<Rightarrow> [] | Some c \<Rightarrow> c)"

text \<open>
  Deleting from a slice while ranging over it. The loop runs over the length the slice had when it
  started and reads the array that the deletions shift in place: \<open>arr\<close> is that array, \<open>m\<close> the current
  length of the slice. Cutting beyond the current length panics.
\<close>

fun delete_loop :: "string \<Rightarrow> nat list \<Rightarrow> KarmaSource list \<times> nat \<Rightarrow> (KarmaSource list \<times> nat) res" where
  "delete_loop k [] st = Inr st"
| "delete_loop k (index # is) (arr, m) =
     (if ks_Name (arr ! index) = k then
        (if index + 1 > m then Inl (Panic ''slice bounds out of range'')
         else delete_loop k is
           (take index arr @ take (m - (index + 1)) (drop (index + 1) arr) @ drop (m - 1) arr, m - 1))
      else delete_loop k is (arr, m))"

definition delete_source :: "string \<Rightarrow> KarmaSource list \<Rightarrow> KarmaSource list res" where
  "delete_source k states =
     bind_res (delete_loop k [0..<length states] (states, length states)) (\<lambda>(arr, m). Inr (take m arr))"

definition Karma_DeleteSourcesForUser ::
    "call_ctx \<Rightarrow> address option \<Rightarrow> string list \<Rightarrow> karma_store \<Rightarrow> karma_store res" where
  "Karma_DeleteSourcesForUser ctx user stateKeys s =
     bind_res (require_permission ctx s ''change_user_sources'') (\<lambda>_.
     bind_res (deref user) (\<lambda>u.
     let state = Karma_GetUserState s u in
     bind_res (fold_res delete_source stateKeys (kst_SourceStates state)) (\<lambda>states.
     bind_res (load_sources s) (\<lambda>karmaSources.
     Inr (set_user_state u (with_totals karmaSources (state\<lparr>kst_SourceStates := states\<rparr>)) s)))))"

definition updateKarmaCounts :: "KarmaSourceReward list \<Rightarrow> karma_store \<Rightarrow> karma_store" where
  "updateKarmaCounts sources s = fold (\<lambda>(user, st). set_user_state user (with_totals sources st)) (km_users s) s"

definition Karma_ResetSources :: "call_ctx \<Rightarrow> KarmaSourceReward list \<Rightarrow> karma_store \<Rightarrow> karma_store res" where
  "Karma_ResetSources ctx sources s =
     bind_res (require_permission ctx s ''reset_sources'') (\<lambda>_.
     Inr (updateKarmaCounts sources (s\<lparr>km_sources := Some sources\<rparr>)))"

text \<open>\<open>IsEmpty\<close> of an address is an argument.\<close>

definition registerOracle ::
    "(address \<Rightarrow> bool) \<Rightarrow> address option \<Rightarrow> address option \<Rightarrow> karma_store \<Rightarrow> karma_store res" where
  "registerOracle is_empty pbOracle currentOracle s =
     (case pbOracle of
        None \<Rightarrow> Inl (Err ''oracle address cannot be null'')
      | Some newOracle \<Rightarrow>
          if is_empty newOracle then Inl (Err ''oracle address cannot be empty'')
          else
            let ps = (case currentOracle of
                        None \<Rightarrow> km_perms s
                      | Some cur \<Rightarrow> fold (\<lambda>p ps. RevokePermissionFrom ps cur p oracleRole)
                          oracle_permissions (km_perms s));
                ps = fold (\<lambda>p ps. GrantPermissionTo ps newOracle p oracleRole) oracle_permissions ps
            in Inr (s\<lparr>km_perms := ps, km_oracle := Some newOracle\<rparr>))"

definition Karma_UpdateOracle ::
    "(address \<Rightarrow> bool) \<Rightarrow> call_ctx \<Rightarrow> address option \<Rightarrow> karma_store \<Rightarrow> karma_store res" where
  "Karma_UpdateOracle is_empty ctx newOracle s =
     bind_res (require_permission ctx s ''change_oracle'') (\<lambda>_.
     registerOracle is_empty newOracle (Some (sender ctx)) s)"

record KarmaInitRequest =
  ki_Sources :: "KarmaSourceReward list"
  ki_Oracle :: "address option"
  ki_Users :: "(address \<times> KarmaSource list) list"
  ki_Config :: "int option"
  ki_Upkeep :: "KarmaUpkeepParams option"

definition DefaultUpkeepCost :: int where "DefaultUpkeepCost = 1"
definition DefaultUpkeepPeriod :: int where "DefaultUpkeepPeriod = 3600"

definition Karma_Init :: "(address \<Rightarrow> bool) \<Rightarrow> KarmaInitRequest \<Rightarrow> karma_store \<Rightarrow> karma_store res" where
  "Karma_Init is_empty req s =
     (let sources = (if list_ex (\<lambda>c. kr_Name c = CoinDeployToken) (ki_Sources req) then ki_Sources req
                     else ki_Sources req @ [\<lparr>kr_Name = CoinDeployToken, kr_Reward = 1, kr_Target = DEPLOY\<rparr>]);
          s = s\<lparr>km_next_id := Some 1, km_sources := Some sources\<rparr>
      in
      bind_res (case ki_Oracle req of None \<Rightarrow> Inr s | Some a \<Rightarrow> registerOracle is_empty (Some a) None s) (\<lambda>s.
      bind_res (fold_res (\<lambda>(user, amounts). AddKarma user amounts) (ki_Users req) s) (\<lambda>s.
      Inr (s\<lparr>km_config := Some (case ki_Config req of None \<Rightarrow> DefaultUpkeepCost | Some c \<Rightarrow> c),
             km_upkeep := Some (case ki_Upkeep req of
                 None \<Rightarrow> \<lparr>up_Cost = DefaultUpkeepCost, up_Period = DefaultUpkeepPeriod\<rparr>
               | Some p \<Rightarrow> p)\<rparr>))))"

definition Karma_SetUpkeepParams :: "call_ctx \<Rightarrow> KarmaUpkeepParams \<Rightarrow> karma_store \<Rightarrow> karma_store res" where
  "Karma_SetUpkeepParams ctx params s =
     bind_res (require_permission ctx s ''set-upkeep'') (\<lambda>_.
     case km_upkeep s of
       None \<Rightarrow> Inl (Err ''get upkeep params from db'')
     | Some oldParams \<Rightarrow>
         Inr (s\<lparr>km_upkeep := Some
           \<lparr>up_Cost = (if up_Cost params = 0 then up_Cost oldParams else up_Cost params),
            up_Period = (if up_Period params = 0 then up_Period oldParams else up_Period params)\<rparr>\<rparr>))"

definition Karma_GetUpkeepParms :: "karma_store \<Rightarrow> KarmaUpkeepParams res" where
  "Karma_GetUpkeepParms s =
     (case km_upkeep s of None \<Rightarrow> Inl (Err ''get upkeep params from db'') | Some p \<Rightarrow> Inr p)"

section \<open>Contracts of users\<close>

definition incrementOwnedContracts :: "address \<Rightarrow> int \<Rightarrow> karma_store \<Rightarrow> karma_store" where
  "incrementOwnedContracts owner amount s =
     (let st = Karma_GetUserState s owner
      in set_user_state owner (st\<lparr>kst_NumOwnedContracts := i64 (kst_NumOwnedContracts st + amount)\<rparr>) s)"

definition GetContractRecord :: "karma_store \<Rightarrow> address \<Rightarrow> KarmaContractRecord res" where
  "GetContractRecord s addr =
     (case km_records s addr of None \<Rightarrow> Inl (Err ''failed to load record for contract'') | Some r \<Rightarrow> Inr r)"

definition is_active_key :: "karma_store \<Rightarrow> address \<times> u64 \<Rightarrow> bool" where
  "is_active_key s k \<longleftrightarrow> map_of (km_active s) k \<noteq> None"

text \<open>Wrapping the nil error gives nil, so activating an active contract succeeds and changes nothing.\<close>

definition Karma_SetActive :: "address option \<Rightarrow> karma_store \<Rightarrow> karma_store res" where
  "Karma_SetActive addr s =
     bind_res (deref addr) (\<lambda>a.
     bind_res (GetContractRecord s a) (\<lambda>record.
     case kc_Owner record of
       None \<Rightarrow> Inl (Err ''owner not found'')
     | Some owner \<Rightarrow>
         if is_active_key s (owner, kc_ContractId record) then Inr s
         else
           let s = s\<lparr>km_active := AList.update (owner, kc_ContractId record) (kc_Address record) (km_active s)\<rparr>
           in Inr (incrementOwnedContracts owner 1 s)))"

definition DeactivateContract :: "KarmaContractRecord \<Rightarrow> karma_store \<Rightarrow> karma_store res" where
  "DeactivateContract record s =
     (case kc_Owner record of
        None \<Rightarrow> Inl (Err ''owner not found'')
      | Some owner \<Rightarrow>
          if \<not> is_active_key s (owner, kc_ContractId record) then Inr s
          else Inr (incrementOwnedContracts owner (- 1)
            (s\<lparr>km_active := AList.delete (owner, kc_ContractId record) (km_active s)\<rparr>)))"

definition Karma_SetInactive :: "address option \<Rightarrow> karma_store \<Rightarrow> karma_store res" where
  "Karma_SetInactive addr s =
     bind_res (deref addr) (\<lambda>a.
     bind_res (GetContractRecord s a) (\<lambda>record. DeactivateContract record s))"

definition IsContractActive :: "karma_store \<Rightarrow> address \<Rightarrow> bool res" where
  "IsContractActive s addr =
     (case km_records s addr of
        None \<Rightarrow> Inl (Err ''record for contract not found'')
      | Some record \<Rightarrow>
          (case kc_Owner record of
             None \<Rightarrow> Inl (Err ''owner not found for contract'')
           | Some owner \<Rightarrow> Inr (is_active_key s (owner, kc_ContractId record))))"

definition AddOwnedContract :: "address \<Rightarrow> address \<Rightarrow> karma_store \<Rightarrow> karma_store res" where
  "AddOwnedContract owner addr s =
     (case km_next_id s of
        None \<Rightarrow> Inl (Err ''failed to load next contract ID'')
      | Some i \<Rightarrow>
          let record = \<lparr>kc_Owner = Some owner, kc_Address = addr, kc_ContractId = i\<rparr>;
              s = s\<lparr>km_next_id := Some (i + 1)\<rparr>;
              s = incrementOwnedContracts owner 1 s;
              s = s\<lparr>km_records := (km_records s)(addr \<mapsto> record)\<rparr>
          in Inr (s\<lparr>km_active := AList.update (owner, i) addr (km_active s)\<rparr>))"

definition GetActiveContractRecords :: "karma_store \<Rightarrow> address \<Rightarrow> KarmaContractRecord list res" where
  "GetActiveContractRecords s owner =
     fold_res (\<lambda>(_, addr) records. bind_res (GetContractRecord s addr) (\<lambda>r. Inr (records @ [r])))
       (filter (\<lambda>((o', _), _). o' = owner) (km_active s)) []"

definition GetActiveUsers :: "karma_store \<Rightarrow> (address \<times> KarmaState) list" where
  "GetActiveUsers s = filter (\<lambda>(_, st). kst_NumOwnedContracts st > 0) (km_users s)"

section \<open>Upkeep\<close>

text \<open>
  Deactivating a list of contracts stops at the first error, which the caller logs; what was done
  before stays.
\<close>

fun setInactive :: "KarmaContractRecord list \<Rightarrow> karma_store \<Rightarrow> karma_store \<times> go_error option" where
  "setInactive [] s = (s, None)"
| "setInactive (record # records) s =
     (case DeactivateContract record s of
        Inl e \<Rightarrow> (s, Some e)
      | Inr s' \<Rightarrow> setInactive records s')"

definition setInactiveContractIdOrdered :: "address \<Rightarrow> u64 \<Rightarrow> karma_store \<Rightarrow> karma_store \<times> go_error option" where
  "setInactiveContractIdOrdered user numberToInactivate s =
     (case GetActiveContractRecords s user of
        Inl e \<Rightarrow> (s, Some e)
      | Inr records \<Rightarrow>
          let n = (if unat numberToInactivate > length records then length records else unat numberToInactivate)
          in setInactive (take n (sort_key kc_ContractId records)) s)"

text \<open>
  The target of a user's source. The map from names to positions holds the last position of a name
  and gives 0 for a name it does not hold.
\<close>

definition sourceMap :: "KarmaSourceReward list \<Rightarrow> string \<Rightarrow> nat" where
  "sourceMap sources name =
     fold (\<lambda>i p. if kr_Name (sources ! i) = name then i else p) [0..<length sources] 0"

definition source_target :: "KarmaSourceReward list \<Rightarrow> string \<Rightarrow> KarmaSourceTarget res" where
  "source_target sources name =
     (let i = sourceMap sources name in
      if i < length sources then Inr (kr_Target (sources ! i)) else Inl (Panic ''index out of range''))"

text \<open>
  \<open>pay_loop\<close> gives the new sources, the value the caller's cost object is left with, the value of
  the local variable after the loop, and the position of the coin source if the loop came past it.
\<close>

fun pay_loop ::
    "KarmaSourceReward list \<Rightarrow> nat \<Rightarrow> KarmaSource list \<Rightarrow> int \<Rightarrow> nat option \<Rightarrow>
     (KarmaSource list \<times> int \<times> int \<times> nat option) res" where
  "pay_loop karmaSources i [] cost coinIndex = Inr ([], cost, cost, coinIndex)"
| "pay_loop karmaSources i (u # us) cost coinIndex =
     (if ks_Name u = CoinDeployToken then
        bind_res (pay_loop karmaSources (Suc i) us cost (Some i)) (\<lambda>(us, r). Inr (u # us, r))
      else
        bind_res (source_target karmaSources (ks_Name u)) (\<lambda>target.
        if target = DEPLOY then
          (if ks_Count u > cost then Inr (u\<lparr>ks_Count := ks_Count u - cost\<rparr> # us, cost, 0, coinIndex)
           else
             bind_res (pay_loop karmaSources (Suc i) us (cost - ks_Count u) coinIndex) (\<lambda>(us, r).
             Inr (u\<lparr>ks_Count := 0\<rparr> # us, r)))
        else bind_res (pay_loop karmaSources (Suc i) us cost coinIndex) (\<lambda>(us, r). Inr (u # us, r))))"

definition payKarma :: "KarmaSourceReward list \<Rightarrow> int \<Rightarrow> KarmaSource list \<Rightarrow> (KarmaSource list \<times> int) res" where
  "payKarma karmaSources upkeepCost states =
     bind_res (pay_loop karmaSources 0 states upkeepCost None) (\<lambda>(states, costObject, cost, coinIndex).
     if cost \<ge> 0 then
       (case coinIndex of
          None \<Rightarrow> Inl (Panic ''index out of range'')
        | Some j \<Rightarrow> Inr (states[j := (states ! j)\<lparr>ks_Count := ks_Count (states ! j) - cost\<rparr>], costObject))
     else Inr (states, costObject))"

definition deploy_karma :: "KarmaSourceReward list \<Rightarrow> KarmaSource list \<Rightarrow> int res" where
  "deploy_karma karmaSources states =
     fold_res (\<lambda>u userKarma.
       bind_res (source_target karmaSources (ks_Name u)) (\<lambda>target.
       Inr (if target = DEPLOY then userKarma + ks_Count u else userKarma))) states 0"

text \<open>\<open>big.Int.DivMod\<close> is Euclidean: the remainder is never negative.\<close>

definition euclid_div :: "int \<Rightarrow> int \<Rightarrow> int" where
  "euclid_div x y = (if y > 0 then x div y else - (x div - y))"

definition upkeep_user ::
    "KarmaUpkeepParams \<Rightarrow> KarmaSourceReward list \<Rightarrow> address \<times> KarmaState \<Rightarrow> karma_store \<Rightarrow> karma_store res" where
  "upkeep_user params karmaSources entry s =
     (case entry of (user, userState) \<Rightarrow>
      let upkeepCost = i64 (kst_NumOwnedContracts userState * up_Cost params) in
      bind_res (deploy_karma karmaSources (kst_SourceStates userState)) (\<lambda>userKarma.
      if userKarma \<ge> upkeepCost then
        bind_res (payKarma karmaSources upkeepCost (kst_SourceStates userState)) (\<lambda>(states, upkeepCost).
        bind_res (deref (kst_DeployKarmaTotal userState)) (\<lambda>tot.
        Inr (set_user_state user (userState\<lparr>kst_SourceStates := states,
          kst_DeployKarmaTotal := Some (tot - upkeepCost)\<rparr>) s)))
      else
        let canAfford = euclid_div userKarma (up_Cost params);
            leftOver = userKarma mod \<bar>up_Cost params\<bar>;
            numberToInactivate = i64 (kst_NumOwnedContracts userState - i64 canAfford)
        in
        (case setInactiveContractIdOrdered user (of_int numberToInactivate) s of
           (s, Some e) \<Rightarrow> Inr s
         | (s, None) \<Rightarrow>
             bind_res (payKarma karmaSources (canAfford * up_Cost params) (kst_SourceStates userState)) (\<lambda>(states, _).
             bind_res
               (if leftOver = 0 then Inr 0
                else bind_res (deref (kst_DeployKarmaTotal userState)) (\<lambda>_. Inr leftOver)) (\<lambda>tot.
             Inr (set_user_state user (userState\<lparr>kst_SourceStates := states,
               kst_DeployKarmaTotal := Some tot\<rparr>) s))))))"

text \<open>The users are visited in the order of a Go map, the list given here.\<close>

definition deployUpkeep ::
    "KarmaUpkeepParams \<Rightarrow> KarmaSourceReward list \<Rightarrow> (address \<times> KarmaState) list \<Rightarrow> karma_store \<Rightarrow> karma_store res" where
  "deployUpkeep params karmaSources activeUsers s = fold_res (upkeep_user params karmaSources) activeUsers s"

definition GetUpkeepState :: "karma_store \<Rightarrow> u64" where
  "GetUpkeepState s = (case km_last_upkeep s of None \<Rightarrow> 0 | Some h \<Rightarrow> h)"

definition Upkeep ::
    "((address \<times> KarmaState) list \<Rightarrow> (address \<times> KarmaState) list) \<Rightarrow> call_ctx \<Rightarrow> karma_store \<Rightarrow> karma_store res" where
  "Upkeep map_order ctx s =
     (case km_upkeep s of
        None \<Rightarrow> Inl (Err ''failed to load upkeep params'')
      | Some upkeep \<Rightarrow>
          if up_Cost upkeep = 0 \<or> up_Period upkeep = 0 then Inr s
          else
            let lastUpkeepHeight = GetUpkeepState s in
            if lastUpkeepHeight = 0 then Inr (s\<lparr>km_last_upkeep := Some (of_int (block_height ctx))\<rparr>)
            else if block_height ctx < i64 (sint lastUpkeepHeight + up_Period upkeep) then Inr s
            else
              let activeUsers = GetActiveUsers s in
              (case km_sources s of
                 None \<Rightarrow> Inl (Err ''failed to load allowed karma sources'')
               | Some karmaSources \<Rightarrow>
                   bind_res (deployUpkeep upkeep karmaSources (map_order activeUsers) s) (\<lambda>s.
                   Inr (s\<lparr>km_last_upkeep := Some (of_int (block_height ctx))\<rparr>))))"

section \<open>Totals\<close>

text \<open>What a source of a user is worth for a target.\<close>

definition karma_for :: "KarmaSourceTarget \<Rightarrow> KarmaSourceReward list \<Rightarrow> KarmaSource list \<Rightarrow> int" where
  "karma_for target sources states =
     (\<Sum>c\<leftarrow>filter (\<lambda>c. kr_Target c = target) sources. \<Sum>s\<leftarrow>filter (\<lambda>s. ks_Name s = kr_Name c) states. kr_Reward c * ks_Count s)"

lemma fold_add_reward:
  "fold (add_reward c) states (d, k) =
     (d + (if kr_Target c = DEPLOY then \<Sum>s\<leftarrow>filter (\<lambda>s. ks_Name s = kr_Name c) states. kr_Reward c * ks_Count s else 0),
      k + (if kr_Target c = CALL then \<Sum>s\<leftarrow>filter (\<lambda>s. ks_Name s = kr_Name c) states. kr_Reward c * ks_Count s else 0))"
  by (induction states arbitrary: d k) (auto simp: add_reward_def)

lemma CalculateTotalKarma_eq:
  "CalculateTotalKarma sources states = (karma_for DEPLOY sources states, karma_for CALL sources states)"
proof -
  have "fold (\<lambda>c. fold (add_reward c) states) sources (d, k) =
      (d + karma_for DEPLOY sources states, k + karma_for CALL sources states)" for d k
    by (induction sources arbitrary: d k) (auto simp: fold_add_reward karma_for_def)
  then show ?thesis by (simp add: CalculateTotalKarma_def)
qed

lemma with_totals_simps [simp]:
  "kst_SourceStates (with_totals c st) = kst_SourceStates st"
  "kst_NumOwnedContracts (with_totals c st) = kst_NumOwnedContracts st"
  "kst_DeployKarmaTotal (with_totals c st) = Some (karma_for DEPLOY c (kst_SourceStates st))"
  "kst_CallKarmaTotal (with_totals c st) = Some (karma_for CALL c (kst_SourceStates st))"
  by (simp_all add: with_totals_def CalculateTotalKarma_eq)

section \<open>User states\<close>

lemma GetUserState_set [store_simps]:
  "Karma_GetUserState (set_user_state u st s) v = (if v = u then st else Karma_GetUserState s v)"
  by (simp add: Karma_GetUserState_def set_user_state_def update_conv')

lemma set_user_state_frame [simp]:
  "km_sources (set_user_state u st s) = km_sources s" "km_coin (set_user_state u st s) = km_coin s"
  "km_active (set_user_state u st s) = km_active s" "km_records (set_user_state u st s) = km_records s"
  "km_next_id (set_user_state u st s) = km_next_id s" "km_upkeep (set_user_state u st s) = km_upkeep s"
  "km_perms (set_user_state u st s) = km_perms s"
  by (simp_all add: set_user_state_def)

lemma km_users_set: "km_users (set_user_state u st s) = AList.update u st (km_users s)"
  by (simp add: set_user_state_def)

text \<open>
  The tokens a list of sources stands for, those of a user, and those of all users. The sum runs
  over the stored users.
\<close>

definition coin_count :: "KarmaSource list \<Rightarrow> int" where
  "coin_count states = (\<Sum>s\<leftarrow>filter (\<lambda>s. ks_Name s = CoinDeployToken) states. ks_Count s)"

definition coin_karma :: "karma_store \<Rightarrow> int" where
  "coin_karma s = (\<Sum>e\<leftarrow>km_users s. coin_count (kst_SourceStates (snd e)))"

definition sources_ok :: "KarmaSource list \<Rightarrow> bool" where
  "sources_ok states \<longleftrightarrow> distinct (map ks_Name states) \<and> list_all (\<lambda>s. 0 \<le> ks_Count s) states"

lemma sources_ok_Nil [simp]: "sources_ok []"
  by (simp add: sources_ok_def)

lemma sum_users_update:
  "distinct (map fst al) \<Longrightarrow> (\<Sum>e\<leftarrow>AList.update k d al. f (snd e)) =
     (\<Sum>e\<leftarrow>al. f (snd e)) - (case map_of al k of None \<Rightarrow> 0 | Some d' \<Rightarrow> f d') + (f d :: int)"
  by (induction al) (auto split: option.split)

lemma coin_karma_set:
  assumes "distinct (map fst (km_users s))"
  shows "coin_karma (set_user_state u st s) =
    coin_karma s - coin_count (kst_SourceStates (Karma_GetUserState s u)) + coin_count (kst_SourceStates st)"
  using sum_users_update [OF assms, where f = "\<lambda>st. coin_count (kst_SourceStates st)"]
  by (simp add: coin_karma_def km_users_set Karma_GetUserState_def empty_karma_def coin_count_def split: option.split)

text \<open>
  The invariant of the contract at an address: users are stored once, no source twice, no count is
  negative, and the tokens behind the karma are on the contract's account, up to the coin karma \<open>g\<close>
  that was granted without tokens.
\<close>

definition karma_ok :: "int \<Rightarrow> address \<Rightarrow> karma_store \<Rightarrow> bool" where
  "karma_ok g addr s \<longleftrightarrow> distinct (map fst (km_users s)) \<and>
     (\<forall>u. sources_ok (kst_SourceStates (Karma_GetUserState s u))) \<and>
     wf_coin_store (km_coin s) \<and> coin_karma s \<le> bal_of (km_coin s) addr + g"

lemma karma_okI_grant:
  assumes "karma_ok g addr s" and "sources_ok (kst_SourceStates st)"
    and "coin_count (kst_SourceStates st) \<le> coin_count (kst_SourceStates (Karma_GetUserState s u)) + n"
  shows "karma_ok (g + n) addr (set_user_state u st s)"
  using assms unfolding karma_ok_def
  by (auto simp: GetUserState_set coin_karma_set km_users_set distinct_update)

lemmas karma_okI_set = karma_okI_grant [where n = 0, simplified]

lemma karma_ok_frame:
  assumes "karma_ok g addr s" and "km_users s' = km_users s" and "km_coin s' = km_coin s"
  shows "karma_ok g addr s'"
  using assms by (simp add: karma_ok_def coin_karma_def Karma_GetUserState_def)

section \<open>Changing counts\<close>

lemma list_ex_name: "list_ex (\<lambda>s. ks_Name s = k) xs \<longleftrightarrow> k \<in> ks_Name ` set xs"
  by (induction xs) auto

lemma coin_count_Nil [simp]: "coin_count [] = 0"
  by (simp add: coin_count_def)

lemma coin_count_Cons [simp]:
  "coin_count (x # xs) = (if ks_Name x = CoinDeployToken then ks_Count x else 0) + coin_count xs"
  by (simp add: coin_count_def)

lemma update_first_count:
  assumes "distinct (map ks_Name states)" and "find (\<lambda>s. ks_Name s = k) states = Some t"
  shows "coin_count (update_first (\<lambda>s. ks_Name s = k) (\<lambda>s. s\<lparr>ks_Count := g s\<rparr>) states) =
    coin_count states + (if k = CoinDeployToken then g t - ks_Count t else 0)"
  using assms
proof (induction states)
  case (Cons x xs)
  show ?case
  proof (cases "ks_Name x = k")
    case True
    then show ?thesis using Cons.prems by simp
  next
    case False
    then have "coin_count (update_first (\<lambda>s. ks_Name s = k) (\<lambda>s. s\<lparr>ks_Count := g s\<rparr>) xs) =
      coin_count xs + (if k = CoinDeployToken then g t - ks_Count t else 0)"
      using Cons by (intro Cons.IH) simp_all
    then show ?thesis using False by simp
  qed
qed simp

lemma sources_ok_update_first:
  assumes "sources_ok states" and "\<And>s. s \<in> set states \<Longrightarrow> 0 \<le> g s"
  shows "sources_ok (update_first (\<lambda>s. ks_Name s = k) (\<lambda>s. s\<lparr>ks_Count := g s\<rparr>) states)"
proof -
  have "map ks_Name (update_first (\<lambda>s. ks_Name s = k) (\<lambda>s. s\<lparr>ks_Count := g s\<rparr>) states) = map ks_Name states"
    by (rule map_update_first) simp
  moreover have "list_all (\<lambda>s. 0 \<le> ks_Count s) (update_first (\<lambda>s. ks_Name s = k) (\<lambda>s. s\<lparr>ks_Count := g s\<rparr>) states)"
    using assms unfolding sources_ok_def by (induction states) auto
  ultimately show ?thesis using assms(1) by (simp add: sources_ok_def)
qed

lemma sources_ok_append:
  "sources_ok states \<Longrightarrow> ks_Name x \<notin> ks_Name ` set states \<Longrightarrow> 0 \<le> ks_Count x \<Longrightarrow> sources_ok (states @ [x])"
  by (auto simp: sources_ok_def)

lemma coin_count_append: "coin_count (xs @ ys) = coin_count xs + coin_count ys"
  by (simp add: coin_count_def)

lemma find_name_None: "find (\<lambda>s. ks_Name s = k) xs = None \<longleftrightarrow> k \<notin> ks_Name ` set xs"
  by (auto simp: find_None_iff)

lemma modify_count_ok:
  assumes "sources_ok states" and "modify_count k amount states = Inr states'"
  shows "sources_ok states'" and
    "coin_count states' = coin_count states + (if k = CoinDeployToken then amount else 0)"
proof -
  consider (found) t where "find (\<lambda>s. ks_Name s = k) states = Some t" "0 \<le> ks_Count t + amount"
      "states' = update_first (\<lambda>s. ks_Name s = k) (\<lambda>s. s\<lparr>ks_Count := ks_Count t + amount\<rparr>) states"
    | (new) "find (\<lambda>s. ks_Name s = k) states = None" "0 \<le> amount"
      "states' = states @ [\<lparr>ks_Name = k, ks_Count = amount\<rparr>]"
    using assms(2) by (auto simp: modify_count_def Let_def split: option.split_asm if_split_asm)
  then have "sources_ok states' \<and>
    coin_count states' = coin_count states + (if k = CoinDeployToken then amount else 0)"
  proof cases
    case found
    have "sources_ok states'" unfolding found(3) using assms(1) found(2) by (intro sources_ok_update_first) simp_all
    moreover have "distinct (map ks_Name states)" using assms(1) by (simp add: sources_ok_def)
    from update_first_count [OF this found(1), of "\<lambda>_. ks_Count t + amount"]
    have "coin_count states' = coin_count states + (if k = CoinDeployToken then amount else 0)"
      by (simp add: found(3))
    ultimately show ?thesis by simp
  next
    case new
    then show ?thesis
      using assms(1) sources_ok_append [of states "\<lparr>ks_Name = k, ks_Count = amount\<rparr>"]
      by (simp add: find_name_None coin_count_append)
  qed
  then show "sources_ok states'" "coin_count states' = coin_count states + (if k = CoinDeployToken then amount else 0)"
    by simp_all
qed

lemma add_amounts_ok:
  assumes "sources_ok states" and "list_all (\<lambda>a. 0 \<le> ks_Count a) amounts"
  shows "sources_ok (add_amounts amounts states) \<and>
    coin_count (add_amounts amounts states) = coin_count states + coin_count amounts"
  using assms
proof (induction amounts arbitrary: states)
  case Nil
  then show ?case by (simp add: coin_count_def)
next
  case (Cons a amounts)
  let ?st = "if list_ex (\<lambda>s. ks_Name s = ks_Name a) states
        then update_first (\<lambda>s. ks_Name s = ks_Name a) (\<lambda>s. s\<lparr>ks_Count := ks_Count s + ks_Count a\<rparr>) states
        else states @ [a]"
  have a: "0 \<le> ks_Count a" using Cons.prems(2) by simp
  have "sources_ok ?st \<and> coin_count ?st = coin_count states + coin_count [a]"
  proof (cases "list_ex (\<lambda>s. ks_Name s = ks_Name a) states")
    case True
    then obtain t where t: "find (\<lambda>s. ks_Name s = ks_Name a) states = Some t"
      by (metis find_name_None list_ex_name option.exhaust)
    have nn: "0 \<le> ks_Count s + ks_Count a" if "s \<in> set states" for s
      using that a Cons.prems(1) by (auto simp: sources_ok_def list_all_iff)
    have "distinct (map ks_Name states)" using Cons.prems(1) by (simp add: sources_ok_def)
    from update_first_count [OF this t, of "\<lambda>s. ks_Count s + ks_Count a"]
      sources_ok_update_first [OF Cons.prems(1), of "\<lambda>s. ks_Count s + ks_Count a", OF nn] True
    show ?thesis by (simp add: coin_count_def)
  next
    case False
    then show ?thesis
      using sources_ok_append [OF Cons.prems(1), of a] a
      by (simp add: list_ex_name coin_count_append coin_count_def)
  qed
  with Cons.IH [of ?st] Cons.prems(2) coin_count_append [of "[a]" amounts] show ?case by simp
qed

section \<open>Deleting sources\<close>

text \<open>
  The array behind the slice only ever holds entries it held before; an entry that is kept keeps its
  place in the order, so a deletion never duplicates a source within the slice.
\<close>

lemma delete_loop_subseq:
  assumes "delete_loop k is (arr, m) = Inr (arr', m')" and "m \<le> length arr"
  shows "subseq (take m' arr') (take m arr) \<and> m' \<le> length arr'"
  using assms
proof (induction "is" arbitrary: arr m)
  case (Cons i "is")
  show ?case
  proof (cases "ks_Name (arr ! i) = k")
    case True
    let ?arr = "take i arr @ take (m - (i + 1)) (drop (i + 1) arr) @ drop (m - 1) arr"
    have im: "i + 1 \<le> m" and rest: "delete_loop k is (?arr, m - 1) = Inr (arr', m')"
      using Cons.prems(1) True by (auto split: if_split_asm)
    have len: "length ?arr = length arr" using im Cons.prems(2) by simp
    have tk: "take (m - 1) ?arr = take i arr @ take (m - (i + 1)) (drop (i + 1) arr)"
    proof -
      let ?ab = "take i arr @ take (m - (i + 1)) (drop (i + 1) arr)"
      have "length ?ab = m - 1" using im Cons.prems(2) by simp
      then have "take (m - 1) (?ab @ drop (m - 1) arr) = ?ab" by (metis append_eq_conv_conj)
      then show ?thesis by simp
    qed
    have "take m arr = take i arr @ take (m - i) (drop i arr)"
      using im by (metis add.commute le_add_diff_inverse2 less_eq_Suc_le nat_less_le Suc_eq_plus1 take_add)
    moreover have "take (m - i) (drop i arr) = arr ! i # take (m - (i + 1)) (drop (i + 1) arr)"
      using im Cons.prems(2) by (metis Cons_nth_drop_Suc Suc_diff_Suc Suc_eq_plus1 less_eq_Suc_le order_less_le_trans take_Suc_Cons)
    ultimately have "subseq (take (m - 1) ?arr) (take m arr)"
      unfolding tk by (simp add: list_emb_append_mono list_emb_Cons subseq_order.order_refl)
    moreover have "m - 1 \<le> length ?arr" unfolding len using Cons.prems(2) by simp
    from Cons.IH [OF rest this] have "subseq (take m' arr') (take (m - 1) ?arr)" "m' \<le> length arr'" by blast+
    ultimately show ?thesis by (blast intro: subseq_order.order_trans)
  next
    case False
    then show ?thesis using Cons by simp
  qed
qed simp

lemma delete_source_subseq: "delete_source k states = Inr states' \<Longrightarrow> subseq states' states"
  unfolding delete_source_def
  by (auto elim!: bind_resE dest: delete_loop_subseq)

lemma in_set_subseq: "subseq xs ys \<Longrightarrow> x \<in> set xs \<Longrightarrow> x \<in> set ys"
  by (induction rule: list_emb.induct) auto

lemma sources_ok_subseq: "subseq xs ys \<Longrightarrow> sources_ok ys \<Longrightarrow> sources_ok xs"
  unfolding sources_ok_def by (induction rule: list_emb.induct) (auto dest: in_set_subseq)

lemma coin_count_nonneg: "list_all (\<lambda>s. 0 \<le> ks_Count s) ys \<Longrightarrow> 0 \<le> coin_count ys"
  by (induction ys) auto

lemma coin_count_subseq:
  assumes "subseq xs ys" and "list_all (\<lambda>s. 0 \<le> ks_Count s) ys"
  shows "coin_count xs \<le> coin_count ys"
  using assms by (induction rule: list_emb.induct) (auto simp: coin_count_nonneg)

lemma delete_sources_ok:
  assumes "fold_res delete_source keys states = Inr states'" and "sources_ok states"
  shows "sources_ok states'" and "coin_count states' \<le> coin_count states"
proof -
  have "subseq states' states"
    using assms(1) by (rule fold_res_invariant) (auto dest: delete_source_subseq intro: subseq_order.order_trans)
  moreover have "list_all (\<lambda>s. 0 \<le> ks_Count s) states" using assms(2) by (simp add: sources_ok_def)
  ultimately show "sources_ok states'" "coin_count states' \<le> coin_count states"
    using assms(2) by (blast intro: sources_ok_subseq coin_count_subseq)+
qed

section \<open>Paying\<close>

text \<open>The karma of a user that counts for deploying, without the coins.\<close>

definition other_deploy :: "KarmaSourceReward list \<Rightarrow> KarmaSource list \<Rightarrow> int" where
  "other_deploy c states = (\<Sum>s\<leftarrow>filter (\<lambda>s. ks_Name s \<noteq> CoinDeployToken \<and> source_target c (ks_Name s) = Inr DEPLOY) states. ks_Count s)"

lemma other_deploy_simps [simp]:
  "other_deploy c [] = 0"
  "other_deploy c (x # xs) =
     (if ks_Name x \<noteq> CoinDeployToken \<and> source_target c (ks_Name x) = Inr DEPLOY then ks_Count x else 0) + other_deploy c xs"
  by (simp_all add: other_deploy_def)

lemma other_deploy_nonneg: "list_all (\<lambda>s. 0 \<le> ks_Count s) xs \<Longrightarrow> 0 \<le> other_deploy c xs"
  by (induction xs) auto

lemma deploy_karma_le:
  assumes "deploy_karma c states = Inr k" and "list_all (\<lambda>s. 0 \<le> ks_Count s) states"
  shows "k \<le> other_deploy c states + coin_count states"
proof -
  let ?f = "\<lambda>u userKarma. bind_res (source_target c (ks_Name u)) (\<lambda>target.
       Inr (if target = DEPLOY then userKarma + ks_Count u else userKarma))"
  have "fold_res ?f states a = Inr k \<Longrightarrow> k \<le> a + other_deploy c states + coin_count states" for a
    using assms(2)
  proof (induction states arbitrary: a)
    case (Cons u us)
    from Cons.prems(1) obtain t where t: "source_target c (ks_Name u) = Inr t"
      and r: "fold_res ?f us (if t = DEPLOY then a + ks_Count u else a) = Inr k"
      by (auto elim!: bind_resE)
    from Cons.IH [OF r] Cons.prems(2) t show ?case by (auto split: if_split_asm)
  qed simp
  from this [of 0] show ?thesis using assms(1) by (simp add: deploy_karma_def)
qed

text \<open>What the loop keeps: names and coins; no count falls below zero; and what is left to pay.\<close>

definition paid_from :: "KarmaSource list \<Rightarrow> KarmaSource list \<Rightarrow> bool" where
  "paid_from us us' \<longleftrightarrow> list_all2 (\<lambda>u u'. ks_Name u' = ks_Name u \<and> 0 \<le> ks_Count u' \<and>
     (ks_Name u = CoinDeployToken \<longrightarrow> u' = u)) us us'"

lemma paid_from_refl: "list_all (\<lambda>s. 0 \<le> ks_Count s) us \<Longrightarrow> paid_from us us"
  by (auto simp: paid_from_def list_all2_same list_all_iff)

lemma pay_loop_ok:
  assumes "pay_loop c i us cost ci = Inr (us', obj, rest, ci')" and "list_all (\<lambda>s. 0 \<le> ks_Count s) us"
  shows "paid_from us us' \<and> rest \<le> max 0 (cost - other_deploy c us) \<and>
    (\<forall>j. ci' = Some j \<longrightarrow> ci = Some j \<or> (\<exists>n<length us. j = i + n \<and> ks_Name (us ! n) = CoinDeployToken))"
  using assms
proof (induction us arbitrary: i cost ci us')
  case (Cons u us)
  let ?coin = "\<lambda>us i ci. \<forall>j. ci' = Some j \<longrightarrow> ci = Some j \<or> (\<exists>n<length us. j = i + n \<and> ks_Name (us ! n) = CoinDeployToken)"
  have nn: "0 \<le> ks_Count u" "list_all (\<lambda>s. 0 \<le> ks_Count s) us" using Cons.prems(2) by simp_all
  have shift: "?coin (u # us) i ci" if "?coin us (Suc i) d" and "d = ci \<or> (d = Some i \<and> ks_Name u = CoinDeployToken)" for d
  proof (intro allI impI)
    fix j assume j: "ci' = Some j"
    from that(1) j have "d = Some j \<or> (\<exists>n<length us. j = Suc i + n \<and> ks_Name (us ! n) = CoinDeployToken)" by blast
    then show "ci = Some j \<or> (\<exists>n<length (u # us). j = i + n \<and> ks_Name ((u # us) ! n) = CoinDeployToken)"
    proof
      assume "d = Some j"
      with that(2) show ?thesis by (auto intro!: exI [of _ 0])
    next
      assume "\<exists>n<length us. j = Suc i + n \<and> ks_Name (us ! n) = CoinDeployToken"
      then obtain n where "n < length us" "j = Suc i + n" "ks_Name (us ! n) = CoinDeployToken" by blast
      then show ?thesis by (intro disjI2 exI [of _ "Suc n"]) simp
    qed
  qed
  consider (coin) vs where "ks_Name u = CoinDeployToken" "us' = u # vs"
      "pay_loop c (Suc i) us cost (Some i) = Inr (vs, obj, rest, ci')"
    | (other) vs t where "ks_Name u \<noteq> CoinDeployToken" "us' = u # vs" "source_target c (ks_Name u) = Inr t" "t \<noteq> DEPLOY"
      "pay_loop c (Suc i) us cost ci = Inr (vs, obj, rest, ci')"
    | (covered) "ks_Name u \<noteq> CoinDeployToken" "source_target c (ks_Name u) = Inr DEPLOY" "ks_Count u > cost"
      "us' = u\<lparr>ks_Count := ks_Count u - cost\<rparr> # us" "rest = 0" "ci' = ci"
    | (part) vs where "ks_Name u \<noteq> CoinDeployToken" "source_target c (ks_Name u) = Inr DEPLOY"
      "us' = u\<lparr>ks_Count := 0\<rparr> # vs"
      "pay_loop c (Suc i) us (cost - ks_Count u) ci = Inr (vs, obj, rest, ci')"
    using Cons.prems(1) by (auto elim!: bind_resE split: if_split_asm)
  then show ?case
  proof cases
    case coin
    from Cons.IH [OF coin(3) nn(2)] coin(1,2) nn(1) shift [of "Some i"] show ?thesis
      by (simp add: paid_from_def)
  next
    case other
    from Cons.IH [OF other(5) nn(2)] other(1-4) nn(1) shift [of ci] show ?thesis
      by (simp add: paid_from_def)
  next
    case covered
    with nn paid_from_refl [OF nn(2)] show ?thesis by (simp add: paid_from_def)
  next
    case part
    from Cons.IH [OF part(4) nn(2)] part(1-3) nn(1) shift [of ci] show ?thesis
      by (simp add: paid_from_def algebra_simps)
  qed
qed (auto simp: paid_from_def)

lemma paid_from_names: "paid_from us us' \<Longrightarrow> map ks_Name us' = map ks_Name us"
  unfolding paid_from_def by (induction rule: list_all2_induct) auto

lemma paid_from_coin: "paid_from us us' \<Longrightarrow> coin_count us' = coin_count us"
  unfolding paid_from_def by (induction rule: list_all2_induct) auto

lemma paid_from_nth: "paid_from us us' \<Longrightarrow> n < length us \<Longrightarrow> ks_Name (us ! n) = CoinDeployToken \<Longrightarrow> us' ! n = us ! n"
  unfolding paid_from_def by (auto dest: list_all2_nthD)

lemma paid_from_nonneg: "paid_from us us' \<Longrightarrow> list_all (\<lambda>s. 0 \<le> ks_Count s) us'"
  unfolding paid_from_def by (induction rule: list_all2_induct) auto

lemma coin_count_no: "CoinDeployToken \<notin> ks_Name ` set xs \<Longrightarrow> coin_count xs = 0"
  by (induction xs) auto

lemma coin_count_nth:
  assumes "distinct (map ks_Name xs)" and "n < length xs" and "ks_Name (xs ! n) = CoinDeployToken"
  shows "coin_count (xs[n := (xs ! n)\<lparr>ks_Count := v\<rparr>]) = v" and "coin_count xs = ks_Count (xs ! n)"
proof -
  have split: "xs = take n xs @ xs ! n # drop (Suc n) xs" using assms(2) by (rule id_take_nth_drop)
  have "distinct (map ks_Name (take n xs) @ ks_Name (xs ! n) # map ks_Name (drop (Suc n) xs))"
    using assms(1) by (subst (asm) split) simp
  then have "coin_count (take n xs) = 0" "coin_count (drop (Suc n) xs) = 0"
    using assms(3) by (auto intro!: coin_count_no)
  then show "coin_count (xs[n := (xs ! n)\<lparr>ks_Count := v\<rparr>]) = v" "coin_count xs = ks_Count (xs ! n)"
    using assms(2,3) by (simp_all add: upd_conv_take_nth_drop coin_count_append)
      (subst split, simp add: coin_count_append)
qed

lemma payKarmaD:
  assumes "payKarma c cost states = Inr (states', obj)"
  obtains us rest ci where "pay_loop c 0 states cost None = Inr (us, obj, rest, ci)"
    and "if rest \<ge> 0 then (\<exists>j. ci = Some j \<and> states' = us[j := (us ! j)\<lparr>ks_Count := ks_Count (us ! j) - rest\<rparr>]) else states' = us"
  using assms unfolding payKarma_def by (auto elim!: bind_resE split: if_split_asm option.split_asm)

lemma payKarma_ok:
  assumes ok: "sources_ok states" and dk: "deploy_karma c states = Inr k" and "cost \<le> k"
    and pay: "payKarma c cost states = Inr (states', obj)"
  shows "sources_ok states'" and "coin_count states' \<le> coin_count states"
proof -
  have nn: "list_all (\<lambda>s. 0 \<le> ks_Count s) states" and d: "distinct (map ks_Name states)"
    using ok by (simp_all add: sources_ok_def)
  from pay obtain us rest ci where loop: "pay_loop c 0 states cost None = Inr (us, obj, rest, ci)"
    and fin: "if rest \<ge> 0 then (\<exists>j. ci = Some j \<and> states' = us[j := (us ! j)\<lparr>ks_Count := ks_Count (us ! j) - rest\<rparr>]) else states' = us"
    by (rule payKarmaD)
  from pay_loop_ok [OF loop nn] have pf: "paid_from states us" and rest: "rest \<le> max 0 (cost - other_deploy c states)"
    and ci: "\<And>j. ci = Some j \<Longrightarrow> j < length states \<and> ks_Name (states ! j) = CoinDeployToken" by auto
  have us: "distinct (map ks_Name us)" "list_all (\<lambda>s. 0 \<le> ks_Count s) us" "coin_count us = coin_count states" "length us = length states"
    using pf d by (simp_all add: paid_from_names paid_from_nonneg paid_from_coin) (auto simp: paid_from_def dest: list_all2_lengthD)
  have "sources_ok states' \<and> coin_count states' \<le> coin_count states"
  proof (cases "rest \<ge> 0")
    case True
    with fin obtain j where j: "ci = Some j" "states' = us[j := (us ! j)\<lparr>ks_Count := ks_Count (us ! j) - rest\<rparr>]" by auto
    have jl: "j < length us" and jn: "ks_Name (us ! j) = CoinDeployToken"
      using ci [OF j(1)] us(4) paid_from_nth [OF pf] by auto
    have cc: "coin_count states' = ks_Count (us ! j) - rest" "coin_count us = ks_Count (us ! j)"
      unfolding j(2) by (rule coin_count_nth [OF us(1) jl jn])+
    have "rest \<le> coin_count states"
      using rest \<open>cost \<le> k\<close> deploy_karma_le [OF dk nn] coin_count_nonneg [OF nn] by linarith
    then have nonneg: "0 \<le> ks_Count (us ! j) - rest" using cc us(3) by simp
    have "map ks_Name states' = map ks_Name us"
      unfolding j(2) by (simp add: map_update list_update_same_conv jl)
    moreover have "list_all (\<lambda>s. 0 \<le> ks_Count s) states'"
      using us(2) nonneg jl unfolding j(2) list_all_iff by (auto dest!: set_update_subset_insert [THEN subsetD])
    ultimately have "sources_ok states'" using us(1) by (simp add: sources_ok_def)
    with True cc us(3) show ?thesis by simp
  next
    case False
    with fin us show ?thesis by (simp add: sources_ok_def)
  qed
  then show "sources_ok states'" "coin_count states' \<le> coin_count states" by simp_all
qed

end
