(* ===== verification/Karma_Upkeep.thy ===== *)
theory Karma_Upkeep
  imports Karma
begin

text \<open>
  The karma contract on the chain: what each operation does to the coins behind the karma, the
  upkeep that charges the owners of contracts, the reachable states of the contract beside the
  native token, and what a user is charged.
\<close>

section \<open>Every operation keeps the coins behind the karma\<close>

abbreviation user_sources :: "karma_store \<Rightarrow> address \<Rightarrow> KarmaSource list" where
  "user_sources s u \<equiv> kst_SourceStates (Karma_GetUserState s u)"

lemma karma_okD:
  assumes "karma_ok g addr s"
  shows "distinct (map fst (km_users s))" "sources_ok (user_sources s u)" "wf_coin_store (km_coin s)"
    "coin_karma s \<le> bal_of (km_coin s) addr + g"
  using assms by (auto simp: karma_ok_def)

lemma modifyCountForUser_ok:
  assumes "karma_ok g addr (s\<lparr>km_coin := c\<rparr>)" and "wf_coin_store c'"
    and "modifyCountForUser u CoinDeployToken amount (s\<lparr>km_coin := c'\<rparr>) = Inr s'"
    and "bal_of c' addr = bal_of c addr + amount"
  shows "karma_ok g addr s'"
proof -
  let ?t = "s\<lparr>km_coin := c'\<rparr>"
  have get: "Karma_GetUserState ?t v = Karma_GetUserState (s\<lparr>km_coin := c\<rparr>) v" for v
    by (simp add: Karma_GetUserState_def)
  from assms(3) obtain states srcs where m: "modify_count CoinDeployToken amount (user_sources ?t u) = Inr states"
    and s': "s' = set_user_state u (with_totals srcs ((Karma_GetUserState ?t u)\<lparr>kst_SourceStates := states\<rparr>)) ?t"
    unfolding modifyCountForUser_def Let_def by (auto elim!: bind_resE)
  have ok: "sources_ok (user_sources ?t v)" for v using karma_okD(2) [OF assms(1), of v] get by simp
  have d: "distinct (map fst (km_users ?t))" using karma_okD(1) [OF assms(1)] by simp
  have "coin_karma ?t = coin_karma (s\<lparr>km_coin := c\<rparr>)" by (simp add: coin_karma_def)
  then have "coin_karma s' \<le> bal_of c' addr + g"
    using karma_okD(4) [OF assms(1)] modify_count_ok(2) [OF ok m] assms(4)
    by (simp add: s' coin_karma_set [OF d])
  moreover have "sources_ok (user_sources s' v)" for v
    using ok modify_count_ok(1) [OF ok m] by (simp add: s' GetUserState_set)
  ultimately show ?thesis using assms(2) d by (simp add: karma_ok_def s' km_users_set distinct_update)
qed

lemma DepositCoin_ok:
  assumes "karma_ok g (contract_address ctx) s" and "Karma_DepositCoin ctx (Some u) amount s = Inr s'"
    and "u \<noteq> contract_address ctx"
  shows "karma_ok g (contract_address ctx) s'"
proof -
  from assms(2) obtain c a where t: "Coin_TransferFrom (ctx\<lparr>sender := contract_address ctx\<rparr>) (km_coin s)
       \<lparr>tf_from = u, tf_to = contract_address ctx, tf_amount = amount\<rparr> = Inr c"
    and a: "amount = Some a" and m: "modifyCountForUser u CoinDeployToken a (s\<lparr>km_coin := c\<rparr>) = Inr s'"
    unfolding Karma_DepositCoin_def karma_TransferFrom_def by (auto elim!: bind_resE)
  from karma_okD(3) [OF assms(1)] t
  have "wf_coin_store c \<and> bal_of c = moved (bal_of (km_coin s)) u (contract_address ctx) a"
    by (rule Coin_TransferFromD) (simp add: a)
  then have "wf_coin_store c" "bal_of c (contract_address ctx) = bal_of (km_coin s) (contract_address ctx) + a"
    using assms(3) by (simp_all add: moved_def)
  from modifyCountForUser_ok [OF _ this(1) m this(2)] assms(1) show ?thesis by simp
qed

lemma WithdrawCoin_ok:
  assumes "karma_ok g (contract_address ctx) s" and "Karma_WithdrawCoin ctx (Some u) amount s = Inr s'"
    and "u \<noteq> contract_address ctx"
  shows "karma_ok g (contract_address ctx) s'"
proof -
  from assms(2) obtain c a where t: "Coin_Transfer (ctx\<lparr>sender := contract_address ctx\<rparr>) (km_coin s)
       \<lparr>tr_to = u, tr_amount = amount\<rparr> = Inr c"
    and a: "amount = Some a" and m: "modifyCountForUser u CoinDeployToken (a * - 1) (s\<lparr>km_coin := c\<rparr>) = Inr s'"
    unfolding Karma_WithdrawCoin_def karma_Transfer_def by (auto elim!: bind_resE)
  from karma_okD(3) [OF assms(1)] t
  have "wf_coin_store c \<and> bal_of c = moved (bal_of (km_coin s)) (contract_address ctx) u a"
    by (rule Coin_TransferD) (simp add: a)
  then have "wf_coin_store c" "bal_of c (contract_address ctx) = bal_of (km_coin s) (contract_address ctx) + a * - 1"
    using assms(3) by (simp_all add: moved_def)
  from modifyCountForUser_ok [OF _ this(1) m this(2)] assms(1) show ?thesis by simp
qed

lemma AddKarma_ok:
  assumes "karma_ok g addr s" and "AddKarma u amounts s = Inr s'" and "list_all (\<lambda>a. 0 \<le> ks_Count a) amounts"
  shows "karma_ok (g + coin_count amounts) addr s'"
  using assms(2) add_amounts_ok [OF karma_okD(2) [OF assms(1), of u] assms(3)]
  unfolding AddKarma_def Let_def by (auto elim!: bind_resE intro!: karma_okI_grant [OF assms(1)])

lemma DeleteSources_ok:
  assumes "karma_ok g addr s" and "Karma_DeleteSourcesForUser ctx user ks s = Inr s'"
  shows "karma_ok g addr s'"
  using assms(2) delete_sources_ok [OF _ karma_okD(2) [OF assms(1)]]
  unfolding Karma_DeleteSourcesForUser_def Let_def
  by (auto elim!: bind_resE intro!: karma_okI_set [OF assms(1)])

text \<open>Recomputing the totals of the users one by one leaves their sources alone.\<close>

lemma fold_totals_ok:
  assumes "karma_ok g addr s" and "list_all (\<lambda>(u, st). kst_SourceStates st = user_sources s u) us"
  shows "karma_ok g addr (fold (\<lambda>(u, st). set_user_state u (with_totals c st)) us s)"
  using assms
proof (induction us arbitrary: s)
  case (Cons x us)
  obtain u st where x: "x = (u, st)" by (cases x)
  let ?s = "set_user_state u (with_totals c st) s"
  have st: "kst_SourceStates st = user_sources s u" using Cons.prems(2) x by simp
  have "karma_ok g addr ?s"
    using st karma_okD(2) [OF Cons.prems(1), of u] by (intro karma_okI_set [OF Cons.prems(1)]) simp_all
  moreover have "list_all (\<lambda>(u, st). kst_SourceStates st = user_sources ?s u) us"
    using Cons.prems(2) st by (auto simp: GetUserState_set list_all_iff)
  ultimately show ?case using Cons.IH [of ?s] by (simp add: x)
qed simp

lemma user_entry: "distinct (map fst (km_users s)) \<Longrightarrow> (u, st) \<in> set (km_users s) \<Longrightarrow> Karma_GetUserState s u = st"
  by (simp add: Karma_GetUserState_def)

lemma updateKarmaCounts_ok: "karma_ok g addr s \<Longrightarrow> karma_ok g addr (updateKarmaCounts c s)"
  unfolding updateKarmaCounts_def
  by (rule fold_totals_ok) (auto simp: list_all_iff user_entry karma_okD(1))

text \<open>Counting owned contracts touches neither sources nor coins.\<close>

lemma incrementOwnedContracts_ok:
  "karma_ok g addr s \<Longrightarrow> karma_ok g addr (incrementOwnedContracts u n s)"
  unfolding incrementOwnedContracts_def Let_def by (rule karma_okI_set) (auto simp: karma_okD)

lemma incrementOwnedContracts_sources [simp]: "user_sources (incrementOwnedContracts u n s) v = user_sources s v"
  by (simp add: incrementOwnedContracts_def Let_def GetUserState_set)

lemma user_state_frame [simp]:
  "Karma_GetUserState (s\<lparr>km_active := x\<rparr>) u = Karma_GetUserState s u"
  "Karma_GetUserState (s\<lparr>km_records := y\<rparr>) u = Karma_GetUserState s u"
  "Karma_GetUserState (s\<lparr>km_next_id := n\<rparr>) u = Karma_GetUserState s u"
  "Karma_GetUserState (s\<lparr>km_coin := c\<rparr>) u = Karma_GetUserState s u"
  by (simp_all add: Karma_GetUserState_def)

lemma karma_ok_active: "karma_ok g addr s \<Longrightarrow> karma_ok g addr (s\<lparr>km_active := x\<rparr>)"
  by (erule karma_ok_frame) simp_all

lemma DeactivateContract_ok:
  assumes "DeactivateContract r s = Inr s'" and "karma_ok g addr s"
  shows "karma_ok g addr s'" "user_sources s' u = user_sources s u"
  using assms by (auto simp: DeactivateContract_def split: option.split_asm if_split_asm
    intro!: incrementOwnedContracts_ok karma_ok_active)

lemma SetActive_ok:
  assumes "Karma_SetActive a s = Inr s'" and "karma_ok g addr s"
  shows "karma_ok g addr s'"
  using assms by (auto simp: Karma_SetActive_def Let_def elim!: bind_resE split: option.split_asm if_split_asm
    intro!: incrementOwnedContracts_ok karma_ok_active)

lemma AddOwnedContract_ok:
  assumes "AddOwnedContract owner a s = Inr s'" and "karma_ok g addr s"
  shows "karma_ok g addr s'"
proof -
  have "karma_ok g addr (s\<lparr>km_next_id := x\<rparr>)" for x using assms(2) by (rule karma_ok_frame) simp_all
  then have i: "karma_ok g addr (incrementOwnedContracts owner 1 (s\<lparr>km_next_id := x\<rparr>))" for x
    by (rule incrementOwnedContracts_ok)
  have "karma_ok g addr ((incrementOwnedContracts owner 1 (s\<lparr>km_next_id := x\<rparr>))\<lparr>km_records := y, km_active := z\<rparr>)" for x y z
    using i by (rule karma_ok_frame) simp_all
  with assms(1) show ?thesis by (auto simp: AddOwnedContract_def Let_def split: option.split_asm)
qed

lemma setInactive_ok:
  assumes "karma_ok g addr s"
  shows "karma_ok g addr (fst (setInactive rs s)) \<and> user_sources (fst (setInactive rs s)) u = user_sources s u"
  using assms
proof (induction rs arbitrary: s)
  case (Cons r rs)
  then show ?case using DeactivateContract_ok [of r s] by (auto split: sum.split)
qed simp

lemma setInactiveContractIdOrdered_ok:
  assumes "setInactiveContractIdOrdered u n s = (s', e)" and "karma_ok g addr s"
  shows "karma_ok g addr s' \<and> user_sources s' v = user_sources s v"
  using assms setInactive_ok [OF assms(2)]
  by (auto simp: setInactiveContractIdOrdered_def Let_def split: sum.split_asm) (metis fst_conv)+

lemma euclid_div_mult_le: "y \<noteq> 0 \<Longrightarrow> euclid_div x y * y \<le> x"
proof -
  assume "y \<noteq> 0"
  have le: "(x div z) * z \<le> x" if "z > 0" for z :: int
    using that pos_mod_sign [of z x] by (simp add: minus_mod_eq_div_mult [symmetric])
  show ?thesis
  proof (cases "y > 0")
    case True
    then show ?thesis using le by (simp add: euclid_div_def)
  next
    case False
    with \<open>y \<noteq> 0\<close> le [of "- y"] show ?thesis by (simp add: euclid_div_def)
  qed
qed

lemma upkeep_user_ok:
  assumes ok: "karma_ok g addr s" and st: "kst_SourceStates st = user_sources s u" and cost: "up_Cost p \<noteq> 0"
    and run: "upkeep_user p c (u, st) s = Inr s'"
  shows "karma_ok g addr s' \<and> (\<forall>v. v \<noteq> u \<longrightarrow> user_sources s' v = user_sources s v)"
proof -
  have src: "sources_ok (kst_SourceStates st)" using karma_okD(2) [OF ok] by (simp add: st)
  let ?cost = "i64 (kst_NumOwnedContracts st * up_Cost p)"
  from run obtain k where k: "deploy_karma c (kst_SourceStates st) = Inr k"
    unfolding upkeep_user_def Let_def by (auto elim!: bind_resE)
  let ?n = "of_int (i64 (kst_NumOwnedContracts st - i64 (euclid_div k (up_Cost p)))) :: u64"
  consider (full) states obj st' where "payKarma c ?cost (kst_SourceStates st) = Inr (states, obj)" "?cost \<le> k"
      "s' = set_user_state u st' s" "kst_SourceStates st' = states"
    | (failed) e where "setInactiveContractIdOrdered u ?n s = (s', Some e)"
    | (cut) t states obj st' where "setInactiveContractIdOrdered u ?n s = (t, None)"
      "payKarma c (euclid_div k (up_Cost p) * up_Cost p) (kst_SourceStates st) = Inr (states, obj)"
      "s' = set_user_state u st' t" "kst_SourceStates st' = states"
    using run k unfolding upkeep_user_def Let_def
    by (fastforce elim!: bind_resE split: if_split_asm prod.split_asm option.split_asm)
  then show ?thesis
  proof cases
    case full
    from payKarma_ok [OF src k full(2,1)] full(3,4) st show ?thesis
      by (auto simp: GetUserState_set intro!: karma_okI_set [OF ok])
  next
    case failed
    from setInactiveContractIdOrdered_ok [OF failed ok] show ?thesis by simp
  next
    case cut
    from setInactiveContractIdOrdered_ok [OF cut(1) ok] have t: "karma_ok g addr t" "\<And>v. user_sources t v = user_sources s v"
      by simp_all
    from payKarma_ok [OF src k euclid_div_mult_le [OF cost] cut(2)] cut(3,4) st t show ?thesis
      by (auto simp: GetUserState_set intro!: karma_okI_set [OF t(1)])
  qed
qed

lemma deployUpkeep_ok:
  assumes "karma_ok g addr s" and "list_all (\<lambda>(u, st). kst_SourceStates st = user_sources s u) us"
    and "distinct (map fst us)" and "up_Cost p \<noteq> 0" and "deployUpkeep p c us s = Inr s'"
  shows "karma_ok g addr s'"
  using assms
proof (induction us arbitrary: s)
  case (Cons x us)
  obtain u st where x: "x = (u, st)" by (cases x)
  from Cons.prems(5) obtain t where t: "upkeep_user p c (u, st) s = Inr t" and rest: "deployUpkeep p c us t = Inr s'"
    unfolding deployUpkeep_def x by (auto elim!: bind_resE)
  have "kst_SourceStates st = user_sources s u" using Cons.prems(2) x by simp
  from upkeep_user_ok [OF Cons.prems(1) this Cons.prems(4) t]
  have ok: "karma_ok g addr t" and same: "\<And>v. v \<noteq> u \<Longrightarrow> user_sources t v = user_sources s v" by simp_all
  have "list_all (\<lambda>(u, st). kst_SourceStates st = user_sources t u) us"
    using Cons.prems(2,3) x same by (force simp: list_all_iff)
  from Cons.IH [OF ok this _ Cons.prems(4) rest] Cons.prems(3) show ?case by simp
qed (simp add: deployUpkeep_def)

lemma Upkeep_ok:
  assumes ok: "karma_ok g addr s" and run: "Upkeep map_order ctx s = Inr s'"
    and perm: "mset (map_order (GetActiveUsers s)) = mset (GetActiveUsers s)"
  shows "karma_ok g addr s'"
proof -
  consider (idle) "s' = s" | (mark) h where "s' = s\<lparr>km_last_upkeep := h\<rparr>"
    | (charge) p c t h where "up_Cost p \<noteq> 0" "deployUpkeep p c (map_order (GetActiveUsers s)) s = Inr t" "s' = t\<lparr>km_last_upkeep := h\<rparr>"
    using run unfolding Upkeep_def Let_def
    by (auto elim!: bind_resE split: option.split_asm if_split_asm)
  then show ?thesis
  proof cases
    case idle
    then show ?thesis using ok by simp
  next
    case mark
    then show ?thesis using karma_ok_frame [OF ok, of s'] by simp
  next
    case charge
    have d: "distinct (map fst (GetActiveUsers s))"
      using karma_okD(1) [OF ok] by (simp add: GetActiveUsers_def distinct_map_filter)
    have "mset (map fst (map_order (GetActiveUsers s))) = mset (map fst (GetActiveUsers s))"
      using perm by simp
    with d have "distinct (map fst (map_order (GetActiveUsers s)))" by (metis mset_eq_imp_distinct_iff)
    moreover have "set (map_order (GetActiveUsers s)) = set (GetActiveUsers s)" using perm by (rule mset_eq_setD)
    then have "list_all (\<lambda>(u, st). kst_SourceStates st = user_sources s u) (map_order (GetActiveUsers s))"
      by (auto simp: list_all_iff GetActiveUsers_def user_entry karma_okD(1) [OF ok])
    ultimately have "karma_ok g addr t" using deployUpkeep_ok [OF ok _ _ charge(1,2)] by blast
    then show ?thesis using charge(3) karma_ok_frame [of g addr t s'] by simp
  qed
qed

section \<open>The contract on the chain\<close>

text \<open>
  The transactions that reach the contract at its address, and coin transfers of others that pass
  by: amounts on the wire are not negative, users are not the contract itself, and the upkeep visits
  the active users in some order. Each step comes with the coin karma it grants without coins: the
  oracle may add karma of the coin source like any other.
\<close>

inductive karma_step :: "address \<Rightarrow> int \<Rightarrow> karma_store \<Rightarrow> karma_store \<Rightarrow> bool" for addr where
  deposit: "contract_address ctx = addr \<Longrightarrow> u \<noteq> addr \<Longrightarrow> Karma_DepositCoin ctx (Some u) amount s = Inr s' \<Longrightarrow>
    karma_step addr 0 s s'"
| withdraw: "contract_address ctx = addr \<Longrightarrow> u \<noteq> addr \<Longrightarrow> Karma_WithdrawCoin ctx (Some u) amount s = Inr s' \<Longrightarrow>
    karma_step addr 0 s s'"
| add: "list_all (\<lambda>a. 0 \<le> ks_Count a) amounts \<Longrightarrow>
    Karma_AddKarma ctx user amounts s = Inr s' \<Longrightarrow> karma_step addr (coin_count amounts) s s'"
| delete: "Karma_DeleteSourcesForUser ctx user ks s = Inr s' \<Longrightarrow> karma_step addr 0 s s'"
| reset: "Karma_ResetSources ctx sources s = Inr s' \<Longrightarrow> karma_step addr 0 s s'"
| new_oracle: "Karma_UpdateOracle is_empty ctx new s = Inr s' \<Longrightarrow> karma_step addr 0 s s'"
| configure: "Karma_SetConfig ctx cfg s = Inr s' \<Longrightarrow> karma_step addr 0 s s'"
| params: "Karma_SetUpkeepParams ctx p s = Inr s' \<Longrightarrow> karma_step addr 0 s s'"
| activate: "Karma_SetActive a s = Inr s' \<Longrightarrow> karma_step addr 0 s s'"
| deactivate: "Karma_SetInactive a s = Inr s' \<Longrightarrow> karma_step addr 0 s s'"
| deploy: "AddOwnedContract owner a s = Inr s' \<Longrightarrow> karma_step addr 0 s s'"
| upkeep: "mset (map_order (GetActiveUsers s)) = mset (GetActiveUsers s) \<Longrightarrow>
    Upkeep map_order ctx s = Inr s' \<Longrightarrow> karma_step addr 0 s s'"
| transfer: "sender ctx \<noteq> addr \<Longrightarrow> tr_amount req = Some a \<Longrightarrow> 0 \<le> a \<Longrightarrow>
    Coin_Transfer ctx (km_coin s) req = Inr c \<Longrightarrow> karma_step addr 0 s (s\<lparr>km_coin := c\<rparr>)"

inductive karma_reachable :: "address \<Rightarrow> karma_store \<Rightarrow> int \<Rightarrow> karma_store \<Rightarrow> bool" for addr s0 where
  start: "karma_reachable addr s0 0 s0"
| step: "karma_reachable addr s0 g s \<Longrightarrow> karma_step addr n s s' \<Longrightarrow> karma_reachable addr s0 (g + n) s'"

lemma registerOracle_ok: "karma_ok g addr s \<Longrightarrow> registerOracle e n c s = Inr s' \<Longrightarrow> karma_ok g addr s'"
  by (erule karma_ok_frame) (auto simp: registerOracle_def Let_def split: option.split_asm if_split_asm)

lemma other_transfer_ok:
  assumes "karma_ok g addr s" and "sender ctx \<noteq> addr" and "tr_amount req = Some a" and "0 \<le> a"
    and "Coin_Transfer ctx (km_coin s) req = Inr c"
  shows "karma_ok g addr (s\<lparr>km_coin := c\<rparr>)"
proof -
  from karma_okD(3) [OF assms(1)] assms(5)
  have "wf_coin_store c \<and> bal_of c = moved (bal_of (km_coin s)) (sender ctx) (tr_to req) a"
    by (rule Coin_TransferD) (simp add: assms(3))
  then have "wf_coin_store c" "bal_of (km_coin s) addr \<le> bal_of c addr"
    using assms(2,4) by (simp_all add: moved_def)
  with assms(1) show ?thesis by (simp add: karma_ok_def coin_karma_def Karma_GetUserState_def)
qed

lemma karma_step_ok: "karma_step addr n s s' \<Longrightarrow> karma_ok g addr s \<Longrightarrow> karma_ok (g + n) addr s'"
proof (induction rule: karma_step.induct)
  case (deposit ctx u amount s s')
  then show ?case using DepositCoin_ok unfolding add_0_right by blast
next
  case (withdraw ctx u amount s s')
  then show ?case using WithdrawCoin_ok unfolding add_0_right by blast
next
  case (add amounts ctx user s s')
  then show ?case unfolding Karma_AddKarma_def by (auto elim!: bind_resE intro: AddKarma_ok)
next
  case (delete ctx user ks s s')
  then show ?case using DeleteSources_ok unfolding add_0_right by blast
next
  case (reset ctx sources s s')
  then have "karma_ok g addr (s\<lparr>km_sources := Some sources\<rparr>)" by (elim karma_ok_frame) simp_all
  with reset show ?case unfolding Karma_ResetSources_def by (auto elim!: bind_resE intro: updateKarmaCounts_ok)
next
  case (new_oracle is_empty ctx new s s')
  then show ?case unfolding Karma_UpdateOracle_def by (auto elim!: bind_resE intro: registerOracle_ok)
next
  case (configure ctx cfg s s')
  then show ?case unfolding Karma_SetConfig_def by (auto elim!: bind_resE intro: karma_ok_frame)
next
  case (params ctx p s s')
  then show ?case unfolding Karma_SetUpkeepParams_def
    by (auto elim!: bind_resE intro: karma_ok_frame split: option.split_asm)
next
  case (activate a s s')
  then show ?case using SetActive_ok unfolding add_0_right by blast
next
  case (deactivate a s s')
  then show ?case unfolding Karma_SetInactive_def by (auto elim!: bind_resE intro: DeactivateContract_ok)
next
  case (deploy owner a s s')
  then show ?case using AddOwnedContract_ok unfolding add_0_right by blast
next
  case (upkeep map_order s ctx s')
  then show ?case using Upkeep_ok unfolding add_0_right by blast
next
  case (transfer ctx req a s c)
  then show ?case using other_transfer_ok unfolding add_0_right by blast
qed

section \<open>Genesis\<close>

definition granted_at_genesis :: "KarmaInitRequest \<Rightarrow> int" where
  "granted_at_genesis req = (\<Sum>(u, amounts)\<leftarrow>ki_Users req. coin_count amounts)"

lemma fold_AddKarma_ok:
  assumes "fold_res (\<lambda>(user, amounts). AddKarma user amounts) us s = Inr s'" and "karma_ok g addr s"
    and "list_all (\<lambda>(u, amounts). list_all (\<lambda>a. 0 \<le> ks_Count a) amounts) us"
  shows "karma_ok (g + (\<Sum>(u, amounts)\<leftarrow>us. coin_count amounts)) addr s'"
  using assms
proof (induction us arbitrary: s g)
  case (Cons x us)
  obtain u amounts where x: "x = (u, amounts)" by (rule prod.exhaust)
  from Cons.prems(1) obtain t where "AddKarma u amounts s = Inr t"
    "fold_res (\<lambda>(user, amounts). AddKarma user amounts) us t = Inr s'"
    unfolding x by (auto elim!: bind_resE)
  with Cons.IH [of t "g + coin_count amounts"] AddKarma_ok [OF Cons.prems(2)] Cons.prems(3) show ?case
    by (simp add: x add.assoc)
qed simp

lemma Karma_Init_ok:
  assumes "km_users s = []" and "wf_coin_store (km_coin s)" and "0 \<le> bal_of (km_coin s) addr"
    and "list_all (\<lambda>(u, amounts). list_all (\<lambda>a. 0 \<le> ks_Count a) amounts) (ki_Users req)"
    and "Karma_Init is_empty req s = Inr s'"
  shows "karma_ok (granted_at_genesis req) addr s'"
proof -
  have ok: "karma_ok 0 addr (s\<lparr>km_next_id := x, km_sources := y\<rparr>)" for x y
    using assms(1-3) by (simp add: karma_ok_def coin_karma_def Karma_GetUserState_def empty_karma_def)
  from assms(5) obtain s1 s2 x y where s1: "(case ki_Oracle req of None \<Rightarrow> Inr (s\<lparr>km_next_id := x, km_sources := y\<rparr>)
        | Some a \<Rightarrow> registerOracle is_empty (Some a) None (s\<lparr>km_next_id := x, km_sources := y\<rparr>)) = Inr s1"
    and s2: "fold_res (\<lambda>(user, amounts). AddKarma user amounts) (ki_Users req) s1 = Inr s2"
    and s': "km_users s' = km_users s2" "km_coin s' = km_coin s2"
    unfolding Karma_Init_def Let_def by (auto elim!: bind_resE)
  have "karma_ok 0 addr s1"
    using s1 by (auto intro: ok registerOracle_ok [OF ok] split: option.split_asm)
  from fold_AddKarma_ok [OF s2 this assms(4)] have "karma_ok (granted_at_genesis req) addr s2"
    by (simp add: granted_at_genesis_def)
  then show ?thesis using s' by (rule karma_ok_frame)
qed

lemma karma_reachable_ok: "karma_reachable addr s0 g s \<Longrightarrow> karma_ok g0 addr s0 \<Longrightarrow> karma_ok (g0 + g) addr s"
  by (induction rule: karma_reachable.induct) (auto intro: karma_step_ok simp: add.assoc [symmetric])

lemma coin_count_le_karma:
  assumes "karma_ok g addr s"
  shows "coin_count (user_sources s u) \<le> coin_karma s" and "0 \<le> coin_count (user_sources s u)"
proof -
  have nn: "0 \<le> coin_count (user_sources s v)" for v
    using karma_okD(2) [OF assms] by (intro coin_count_nonneg) (simp add: sources_ok_def)
  then show "0 \<le> coin_count (user_sources s u)" .
  have all: "0 \<le> coin_count (kst_SourceStates (snd e))" if "e \<in> set (km_users s)" for e
    using nn [of "fst e"] user_entry [OF karma_okD(1) [OF assms], of "fst e" "snd e"] that by simp
  show "coin_count (user_sources s u) \<le> coin_karma s"
  proof (cases "map_of (km_users s) u")
    case None
    then have "user_sources s u = []" by (simp add: Karma_GetUserState_def empty_karma_def)
    then show ?thesis using all by (auto simp: coin_karma_def intro!: sum_list_nonneg)
  next
    case (Some st)
    have "coin_count (kst_SourceStates st) \<in> set (map (\<lambda>e. coin_count (kst_SourceStates (snd e))) (km_users s))"
      using map_of_SomeD [OF Some] by force
    then have "coin_count (kst_SourceStates st) \<le> coin_karma s"
      unfolding coin_karma_def using all by (intro member_le_sum_list) auto
    then show ?thesis using Some by (simp add: Karma_GetUserState_def)
  qed
qed

section \<open>What a user pays\<close>

lemma pay_loop_exact:
  assumes "pay_loop c i us cost ci = Inr (us', obj, rest, ci')" and "0 \<le> cost"
  shows "0 \<le> rest \<and> other_deploy c us' = other_deploy c us - (cost - rest)"
  using assms
proof (induction us arbitrary: i cost ci us')
  case (Cons u us)
  consider (coin) vs where "ks_Name u = CoinDeployToken" "us' = u # vs"
      "pay_loop c (Suc i) us cost (Some i) = Inr (vs, obj, rest, ci')"
    | (other) vs t where "ks_Name u \<noteq> CoinDeployToken" "us' = u # vs" "source_target c (ks_Name u) = Inr t" "t \<noteq> DEPLOY"
      "pay_loop c (Suc i) us cost ci = Inr (vs, obj, rest, ci')"
    | (covered) "ks_Name u \<noteq> CoinDeployToken" "source_target c (ks_Name u) = Inr DEPLOY"
      "us' = u\<lparr>ks_Count := ks_Count u - cost\<rparr> # us" "rest = 0"
    | (part) vs where "ks_Name u \<noteq> CoinDeployToken" "source_target c (ks_Name u) = Inr DEPLOY"
      "us' = u\<lparr>ks_Count := 0\<rparr> # vs" "ks_Count u \<le> cost"
      "pay_loop c (Suc i) us (cost - ks_Count u) ci = Inr (vs, obj, rest, ci')"
    using Cons.prems(1) by (auto elim!: bind_resE split: if_split_asm)
  then show ?case
  proof cases
    case coin
    from Cons.IH [OF coin(3) Cons.prems(2)] coin(1,2) show ?thesis by simp
  next
    case other
    from Cons.IH [OF other(5) Cons.prems(2)] other(1-4) show ?thesis by simp
  next
    case covered
    then show ?thesis by simp
  next
    case part
    from Cons.IH [OF part(5)] part(1-4) show ?thesis by simp
  qed
qed simp

lemma other_deploy_update_coin:
  assumes "n < length us" and "ks_Name (us ! n) = CoinDeployToken"
  shows "other_deploy c (us[n := (us ! n)\<lparr>ks_Count := v\<rparr>]) = other_deploy c us"
  using assms by (induction us arbitrary: n) (auto simp: nth_Cons' less_Suc_eq_0_disj split: nat.split)

lemma payKarma_exact:
  assumes "sources_ok states" and "0 \<le> cost" and "payKarma c cost states = Inr (states', obj)"
  shows "other_deploy c states' + coin_count states' = other_deploy c states + coin_count states - cost"
proof -
  have nn: "list_all (\<lambda>s. 0 \<le> ks_Count s) states" and d: "distinct (map ks_Name states)"
    using assms(1) by (simp_all add: sources_ok_def)
  from assms(3) obtain us rest ci where loop: "pay_loop c 0 states cost None = Inr (us, obj, rest, ci)"
    and fin: "if rest \<ge> 0 then (\<exists>j. ci = Some j \<and> states' = us[j := (us ! j)\<lparr>ks_Count := ks_Count (us ! j) - rest\<rparr>]) else states' = us"
    by (rule payKarmaD)
  from pay_loop_ok [OF loop nn] have pf: "paid_from states us"
    and ci: "\<And>j. ci = Some j \<Longrightarrow> j < length states \<and> ks_Name (states ! j) = CoinDeployToken" by auto
  from pay_loop_exact [OF loop assms(2)] have rest: "0 \<le> rest" and ex: "other_deploy c us = other_deploy c states - (cost - rest)"
    by simp_all
  from fin rest obtain j where j: "ci = Some j" "states' = us[j := (us ! j)\<lparr>ks_Count := ks_Count (us ! j) - rest\<rparr>]" by auto
  have "length us = length states" using pf by (auto simp: paid_from_def dest: list_all2_lengthD)
  then have jl: "j < length us" and jn: "ks_Name (us ! j) = CoinDeployToken"
    using ci [OF j(1)] paid_from_nth [OF pf] by auto
  have "distinct (map ks_Name us)" using pf d by (simp add: paid_from_names)
  from coin_count_nth [OF this jl jn] have "coin_count states' = coin_count us - rest" by (simp add: j(2))
  then show ?thesis using ex paid_from_coin [OF pf] other_deploy_update_coin [OF jl jn] by (simp add: j(2))
qed

section \<open>Properties\<close>

lemma withdraw_succeeds:
  assumes ok: "karma_ok g (contract_address ctx) s" and c: "km_sources s = Some c" and r: "resolve ctx ''coin'' = Inr ca"
    and a: "0 \<le> a" "a \<le> coin_count (user_sources s u)" "g = 0 \<or> a \<le> bal_of (km_coin s) (contract_address ctx)"
  shows "\<exists>s'. Karma_WithdrawCoin ctx (Some u) (Some a) s = Inr s' \<and>
    coin_count (user_sources s' u) = coin_count (user_sources s u) - a"
proof -
  have "a \<le> bal_of (km_coin s) (contract_address ctx)"
    using a(2,3) coin_count_le_karma(1) [OF ok, of u] karma_okD(4) [OF ok] by linarith
  then obtain co where co: "Coin_Transfer (ctx\<lparr>sender := contract_address ctx\<rparr>) (km_coin s) \<lparr>tr_to = u, tr_amount = Some a\<rparr> = Inr co"
    using karma_okD(3) [OF ok] by (simp add: Coin_Transfer_def coin_op_simps store_simps)
  have src: "sources_ok (user_sources s u)" using karma_okD(2) [OF ok] .
  have "\<exists>states. modify_count CoinDeployToken (- a) (user_sources s u) = Inr states"
  proof (cases "find (\<lambda>x. ks_Name x = CoinDeployToken) (user_sources s u)")
    case None
    then have "coin_count (user_sources s u) = 0" by (simp add: find_name_None coin_count_no)
    then show ?thesis using a None by (simp add: modify_count_def)
  next
    case (Some t)
    then obtain n where "n < length (user_sources s u)" "t = user_sources s u ! n" "ks_Name t = CoinDeployToken"
      by (auto simp: find_Some_iff)
    then have "coin_count (user_sources s u) = ks_Count t"
      using coin_count_nth(2) [of "user_sources s u" n] src by (simp add: sources_ok_def)
    then show ?thesis using a Some by (simp add: modify_count_def Let_def)
  qed
  then obtain states where m: "modify_count CoinDeployToken (- a) (user_sources s u) = Inr states" by blast
  from modify_count_ok(2) [OF src m] m co c r show ?thesis
    by (simp add: Karma_WithdrawCoin_def karma_Transfer_def modifyCountForUser_def Let_def load_sources_def GetUserState_set)
qed


definition demo_karma_init :: KarmaInitRequest where
  "demo_karma_init = \<lparr>ki_Sources = [], ki_Oracle = None, ki_Users = [(demo_bob, [\<lparr>ks_Name = ''award'', ks_Count = 2\<rparr>])],
     ki_Config = None, ki_Upkeep = None\<rparr>"

definition demo_karma_genesis :: karma_store where
  "demo_karma_genesis = \<lparr>km_sources = None, km_oracle = None, km_config = None, km_users = [], km_upkeep = None,
     km_last_upkeep = None, km_next_id = None, km_records = Map.empty, km_active = [], km_perms = [],
     km_coin = put_allowance demo_coin_store \<lparr>alw_owner = demo_alice, alw_spender = Address ''default'' [0], alw_amount = Some 7\<rparr>\<rparr>"

definition demo_karma_ctx :: call_ctx where
  "demo_karma_ctx = (plain_ctx demo_alice)\<lparr>resolve := \<lambda>_. Inr (Address ''default'' [9])\<rparr>"

lemma demo_contract_differs [simp]: "demo_alice \<noteq> Address ''default'' [0]" "Address ''default'' [0] \<noteq> demo_alice"
  by (simp_all add: demo_alice_def)

lemma demo_karma_ctx_simps [simp]:
  "contract_address demo_karma_ctx = Address ''default'' [0]" "resolve demo_karma_ctx n = Inr (Address ''default'' [9])"
  by (simp_all add: demo_karma_ctx_def)


text \<open>
  Coin karma that the oracle grants is paid from the coins of those who deposited: a user without a
  deposit withdraws it at once.
\<close>

lemma granted_karma_withdraws:
  assumes ok: "karma_ok 0 (contract_address ctx) s" and "km_sources s = Some c" and "resolve ctx ''coin'' = Inr ca"
    and a: "0 \<le> a" "a \<le> bal_of (km_coin s) (contract_address ctx)"
    and add: "AddKarma u [\<lparr>ks_Name = CoinDeployToken, ks_Count = a\<rparr>] s = Inr s1"
  shows "\<exists>s2. Karma_WithdrawCoin ctx (Some u) (Some a) s1 = Inr s2"
proof -
  let ?g = "[\<lparr>ks_Name = CoinDeployToken, ks_Count = a\<rparr>]"
  have cnt: "coin_count ?g = a" by (simp add: coin_count_def)
  have "karma_ok a (contract_address ctx) s1" using AddKarma_ok [OF ok add] a(1) by (simp add: cnt)
  moreover have "km_sources s1 = Some c" "km_coin s1 = km_coin s"
    using add assms(2) by (auto simp: AddKarma_def Let_def set_user_state_def elim!: bind_resE)
  moreover have "a \<le> coin_count (user_sources s1 u)"
  proof -
    have "coin_count (user_sources s1 u) = coin_count (user_sources s u) + a"
      using add add_amounts_ok [OF karma_okD(2) [OF ok, of u], of ?g] a(1) cnt
      by (auto simp: AddKarma_def Let_def GetUserState_set simp del: add_amounts.simps elim!: bind_resE)
    then show ?thesis using coin_count_le_karma(2) [OF ok, of u] by simp
  qed
  ultimately show ?thesis using withdraw_succeeds [of a ctx s1 c ca a u] assms(3) a by auto
qed

text \<open>Upkeep charges exactly its cost: when payKarma returns, the karma of a user that counts for
  deploying together with his coin karma is lower by the cost, sources other than the coin source are
  drained first, none goes below zero, and what the user could pay is enough.\<close>

theorem upkeep_charge_exact:
  assumes "sources_ok states" and "deploy_karma c states = Inr k" and "0 \<le> cost" and "cost \<le> k"
    and "payKarma c cost states = Inr (states', obj)"
  shows "other_deploy c states' + coin_count states' = other_deploy c states + coin_count states - cost \<and>
    sources_ok states' \<and> coin_count states' \<le> coin_count states \<and> map ks_Name states' = map ks_Name states"
proof -
  have nn: "list_all (\<lambda>s. 0 \<le> ks_Count s) states" using assms(1) by (simp add: sources_ok_def)
  from assms(5) obtain us rest ci where loop: "pay_loop c 0 states cost None = Inr (us, obj, rest, ci)"
    and fin: "if rest \<ge> 0 then (\<exists>j. ci = Some j \<and> states' = us[j := (us ! j)\<lparr>ks_Count := ks_Count (us ! j) - rest\<rparr>]) else states' = us"
    by (rule payKarmaD)
  have "map ks_Name us = map ks_Name states" using pay_loop_ok [OF loop nn] paid_from_names by blast
  moreover have "map ks_Name (us[j := (us ! j)\<lparr>ks_Count := v\<rparr>]) = map ks_Name us" for j v
    by (cases "j < length us") (simp_all add: map_update list_update_same_conv list_update_beyond)
  ultimately have "map ks_Name states' = map ks_Name states" using fin by (auto split: if_split_asm)
  then show ?thesis
    using payKarma_exact [OF assms(1,3,5)] payKarma_ok [OF assms(1,2,4,5)] by simp
qed

definition demo_rewards :: "KarmaSourceReward list" where
  "demo_rewards = [\<lparr>kr_Name = CoinDeployToken, kr_Reward = 1, kr_Target = DEPLOY\<rparr>,
     \<lparr>kr_Name = ''award'', kr_Reward = 2, kr_Target = DEPLOY\<rparr>]"

lemma demo_targets [simp]:
  "source_target demo_rewards CoinDeployToken = Inr DEPLOY" "source_target demo_rewards ''award'' = Inr DEPLOY"
  by (simp_all add: source_target_def sourceMap_def demo_rewards_def CoinDeployToken_def upt_rec Let_def)

theorem upkeep_charge_exact_witness:
  "payKarma demo_rewards 7 [\<lparr>ks_Name = CoinDeployToken, ks_Count = 5\<rparr>, \<lparr>ks_Name = ''award'', ks_Count = 4\<rparr>] =
     Inr ([\<lparr>ks_Name = CoinDeployToken, ks_Count = 2\<rparr>, \<lparr>ks_Name = ''award'', ks_Count = 0\<rparr>], 3) \<and>
   other_deploy demo_rewards [\<lparr>ks_Name = CoinDeployToken, ks_Count = 2\<rparr>, \<lparr>ks_Name = ''award'', ks_Count = 0\<rparr>] + 2 = 9 - 7"
proof -
  let ?st = "[\<lparr>ks_Name = CoinDeployToken, ks_Count = 5\<rparr>, \<lparr>ks_Name = ''award'', ks_Count = 4\<rparr>]"
  have n: "''award'' \<noteq> CoinDeployToken" "CoinDeployToken \<noteq> ''award''" by (simp_all add: CoinDeployToken_def)
  have p: "payKarma demo_rewards 7 ?st =
    Inr ([\<lparr>ks_Name = CoinDeployToken, ks_Count = 2\<rparr>, \<lparr>ks_Name = ''award'', ks_Count = 0\<rparr>], 3)"
    by (simp add: payKarma_def n)
  have d: "deploy_karma demo_rewards ?st = Inr 9" by (simp add: deploy_karma_def)
  from upkeep_charge_exact [OF _ d _ _ p] show ?thesis using p by (simp add: sources_ok_def n)
qed

text \<open>
  The charge looks for the coin source only while it walks past it: without one among the user's
  sources there is no position to take from, and the call ends in a panic whatever the user owns.
\<close>

lemma payKarma_needs_coin:
  assumes "CoinDeployToken \<notin> ks_Name ` set states" and "list_all (\<lambda>s. 0 \<le> ks_Count s) states" and "0 \<le> cost"
  shows "payKarma c cost states \<noteq> Inr (states', obj)"
proof
  assume "payKarma c cost states = Inr (states', obj)"
  then obtain us rest ci where loop: "pay_loop c 0 states cost None = Inr (us, obj, rest, ci)"
    and fin: "if rest \<ge> 0 then (\<exists>j. ci = Some j \<and> states' = us[j := (us ! j)\<lparr>ks_Count := ks_Count (us ! j) - rest\<rparr>]) else states' = us"
    by (rule payKarmaD)
  with pay_loop_exact [OF loop assms(3)] obtain j where "ci = Some j" by auto
  with pay_loop_ok [OF loop assms(2)] obtain n where "n < length states" "ks_Name (states ! n) = CoinDeployToken" by auto
  with assms(1) show False by (metis image_eqI nth_mem)
qed

end
