(* ===== verification/Karma_Ownership.thy ===== *)
theory Karma_Ownership
  imports Karma_Upkeep
begin

text \<open>
  The contracts users own: the count in a user's karma state against the active contract records,
  through deployments, activations and deactivations, and what upkeep does to it.
\<close>

section \<open>Owned contracts\<close>

definition active_count :: "karma_store \<Rightarrow> address \<Rightarrow> nat" where
  "active_count s u = length (filter (\<lambda>e. fst (fst e) = u) (km_active s))"

text \<open>
  Contract ids are handed out in order; as long as the counter is below the signed range, the
  number a user's state holds is the number of his active entries.
\<close>

definition owned_ok :: "karma_store \<Rightarrow> bool" where
  "owned_ok s \<longleftrightarrow> (\<exists>n. km_next_id s = Some n \<and> unat n < 2 ^ 63 \<and> distinct (map fst (km_active s)) \<and>
     list_all (\<lambda>e. snd (fst e) < n) (km_active s) \<and>
     (\<forall>a r. km_records s a = Some r \<longrightarrow> kc_ContractId r < n) \<and>
     (\<forall>u. kst_NumOwnedContracts (Karma_GetUserState s u) = int (active_count s u)))"

lemma active_count_bound:
  assumes "distinct (map fst (km_active s))" and "list_all (\<lambda>e. snd (fst e) < n) (km_active s)"
  shows "active_count s u \<le> unat n"
proof -
  let ?es = "filter (\<lambda>e. fst (fst e) = u) (km_active s)"
  have "distinct (map fst ?es)" using assms(1) by (simp add: distinct_map_filter)
  then have "inj_on (\<lambda>e. unat (snd (fst e))) (set ?es)"
    by (auto simp: distinct_map inj_on_def prod_eq_iff dest!: word_unat_eq_iff [THEN iffD2])
  then have "inj_on (\<lambda>e. unat (snd (fst e))) (set ?es)" and "distinct ?es"
    using \<open>distinct (map fst ?es)\<close> by (simp_all add: distinct_map)
  then have "length ?es = card ((\<lambda>e. unat (snd (fst e))) ` set ?es)"
    using card_image [of "\<lambda>e. unat (snd (fst e))" "set ?es"] distinct_card [of ?es] by presburger
  also have "\<dots> \<le> card {..<unat n}"
    using assms(2) by (intro card_mono) (auto simp: list_all_iff word_less_nat_alt)
  finally show ?thesis by (simp add: active_count_def)
qed

lemma filter_update_new:
  "k \<notin> fst ` set al \<Longrightarrow> filter (\<lambda>e. P (fst e)) (AList.update k d al) = filter (\<lambda>e. P (fst e)) al @ (if P k then [(k, d)] else [])"
  by (induction al) auto

lemma length_filter_delete:
  assumes "distinct (map fst al)" and "k \<in> fst ` set al"
  shows "length (filter (\<lambda>e. P (fst e)) al) = length (filter (\<lambda>e. P (fst e)) (AList.delete k al)) + (if P k then 1 else 0)"
  using assms
proof (induction al)
  case (Cons x al)
  show ?case
  proof (cases "fst x = k")
    case True
    then have "AList.delete k al = al" using Cons.prems(1) by (auto simp: delete_id image_iff)
    then show ?thesis using True by (cases x) simp
  next
    case False
    then show ?thesis using Cons by (cases x) auto
  qed
qed simp

lemma set_update_subset: "set (AList.update k d al) \<subseteq> insert (k, d) (set al)"
  by (induction al) auto

lemma is_active_key_iff: "is_active_key s k \<longleftrightarrow> k \<in> fst ` set (km_active s)"
  by (simp add: is_active_key_def map_of_eq_None_iff)

lemma owned_increment [simp]:
  "kst_NumOwnedContracts (Karma_GetUserState (incrementOwnedContracts o1 d s) u) =
     (if u = o1 then i64 (kst_NumOwnedContracts (Karma_GetUserState s u) + d) else kst_NumOwnedContracts (Karma_GetUserState s u))"
  "km_active (incrementOwnedContracts o1 d s) = km_active s" "km_records (incrementOwnedContracts o1 d s) = km_records s"
  "km_next_id (incrementOwnedContracts o1 d s) = km_next_id s"
  by (simp_all add: incrementOwnedContracts_def Let_def GetUserState_set)

text \<open>Adding an entry with a fresh key for its owner, or deleting one, moves the count by one.\<close>

lemma owned_ok_add:
  assumes "owned_ok s" and fresh: "(o1, i) \<notin> fst ` set (km_active s)" and n: "km_next_id t = Some n" "i < n" "unat n < 2 ^ 63"
    and ge: "\<And>m. km_next_id s = Some m \<Longrightarrow> m \<le> n"
    and t: "km_active t = AList.update (o1, i) a (km_active s)"
      "\<And>b r. km_records t b = Some r \<Longrightarrow> km_records s b = Some r \<or> kc_ContractId r < n"
      "\<And>u. kst_NumOwnedContracts (Karma_GetUserState t u) = (if u = o1 then i64 (kst_NumOwnedContracts (Karma_GetUserState s u) + 1)
         else kst_NumOwnedContracts (Karma_GetUserState s u))"
  shows "owned_ok t"
proof -
  from assms(1) obtain m where m: "km_next_id s = Some m" "unat m < 2 ^ 63" "distinct (map fst (km_active s))"
    "list_all (\<lambda>e. snd (fst e) < m) (km_active s)" "\<And>a r. km_records s a = Some r \<Longrightarrow> kc_ContractId r < m"
    "\<And>u. kst_NumOwnedContracts (Karma_GetUserState s u) = int (active_count s u)"
    unfolding owned_ok_def by blast
  have mn: "m \<le> n" using ge m(1) .
  have dist: "distinct (map fst (km_active t))" unfolding t(1) using m(3) by (rule distinct_update)
  have ids: "list_all (\<lambda>e. snd (fst e) < n) (km_active t)"
    using m(4) mn n(2) set_update_subset [of "(o1, i)" a "km_active s"] unfolding t(1) list_all_iff
    by (force dest!: subsetD)
  have count: "active_count t u = active_count s u + (if u = o1 then 1 else 0)" for u
    using filter_update_new [OF fresh, of "\<lambda>k. fst k = u"] by (simp add: active_count_def t(1))
  have "int (active_count s o1) + 1 < 2 ^ 63"
    using active_count_bound [OF dist ids, of o1] n(3) by (simp add: count)
  then have "i64 (int (active_count s o1) + 1) = int (active_count s o1) + 1" by (intro i64_id) simp_all
  then have "kst_NumOwnedContracts (Karma_GetUserState t u) = int (active_count t u)" for u
    by (simp add: t(3) m(6) count)
  moreover have "kc_ContractId r < n" if "km_records t b = Some r" for b r
    using t(2) [OF that] m(5) mn by (auto intro: less_le_trans)
  ultimately show ?thesis using n dist ids unfolding owned_ok_def by blast
qed

lemma owned_ok_delete:
  assumes "owned_ok s" and act: "(o1, i) \<in> fst ` set (km_active s)"
    and t: "t = incrementOwnedContracts o1 (- 1) (s\<lparr>km_active := AList.delete (o1, i) (km_active s)\<rparr>)"
  shows "owned_ok t"
proof -
  from assms(1) obtain m where m: "km_next_id s = Some m" "unat m < 2 ^ 63" "distinct (map fst (km_active s))"
    "list_all (\<lambda>e. snd (fst e) < m) (km_active s)" "\<And>a r. km_records s a = Some r \<Longrightarrow> kc_ContractId r < m"
    "\<And>u. kst_NumOwnedContracts (Karma_GetUserState s u) = int (active_count s u)"
    unfolding owned_ok_def by blast
  have count: "active_count s u = active_count t u + (if u = o1 then 1 else 0)" for u
    using length_filter_delete [OF m(3) act, of "\<lambda>k. fst k = u"] by (simp add: active_count_def t)
  have "active_count s o1 < 2 ^ 63" using active_count_bound [OF m(3,4), of o1] m(2) by simp
  then have "int (active_count t o1) < 2 ^ 63" by (simp add: count)
  then have "i64 (int (active_count t o1)) = int (active_count t o1)" by (intro i64_id) simp_all
  then have "kst_NumOwnedContracts (Karma_GetUserState t u) = int (active_count t u)" for u
    using m(6) [of u] count [of u] by (cases "u = o1") (simp_all add: t)
  moreover have "distinct (map fst (km_active t))" "list_all (\<lambda>e. snd (fst e) < m) (km_active t)"
    using m(3,4) by (auto simp: t list_all_iff AList.delete_eq distinct_map_filter)
  ultimately show ?thesis using m(1,2,5) unfolding owned_ok_def by (simp add: t)
qed

text \<open>The ways owned contracts change outside the upkeep, and karma moving beside them.\<close>

inductive owner_step :: "karma_store \<Rightarrow> karma_store \<Rightarrow> bool" where
  deploy: "km_next_id s = Some n \<Longrightarrow> unat n + 1 < 2 ^ 63 \<Longrightarrow> AddOwnedContract owner a s = Inr s' \<Longrightarrow> owner_step s s'"
| activate: "Karma_SetActive a s = Inr s' \<Longrightarrow> owner_step s s'"
| deactivate: "Karma_SetInactive a s = Inr s' \<Longrightarrow> owner_step s s'"
| deposit: "Karma_DepositCoin ctx user amount s = Inr s' \<Longrightarrow> owner_step s s'"
| withdraw: "Karma_WithdrawCoin ctx user amount s = Inr s' \<Longrightarrow> owner_step s s'"
| add: "Karma_AddKarma ctx user amounts s = Inr s' \<Longrightarrow> owner_step s s'"
| delete: "Karma_DeleteSourcesForUser ctx user ks s = Inr s' \<Longrightarrow> owner_step s s'"

inductive owner_reachable :: "karma_store \<Rightarrow> karma_store \<Rightarrow> bool" for s0 where
  start: "owner_reachable s0 s0"
| step: "owner_reachable s0 s \<Longrightarrow> owner_step s s' \<Longrightarrow> owner_reachable s0 s'"

lemma owned_ok_frame:
  assumes "owned_ok s" and "km_active s' = km_active s" "km_records s' = km_records s" "km_next_id s' = km_next_id s"
    and "\<And>u. kst_NumOwnedContracts (Karma_GetUserState s' u) = kst_NumOwnedContracts (Karma_GetUserState s u)"
  shows "owned_ok s'"
  using assms by (simp add: owned_ok_def active_count_def)

lemma owned_ok_set:
  "owned_ok s \<Longrightarrow> kst_NumOwnedContracts st = kst_NumOwnedContracts (Karma_GetUserState s u) \<Longrightarrow> owned_ok (set_user_state u st s)"
  by (erule owned_ok_frame) (simp_all add: GetUserState_set)

lemma owned_ok_coin: "owned_ok s \<Longrightarrow> owned_ok (s\<lparr>km_coin := c\<rparr>)"
  by (erule owned_ok_frame) simp_all

lemma modifyCountForUser_owned: "modifyCountForUser u k a s = Inr s' \<Longrightarrow> owned_ok s \<Longrightarrow> owned_ok s'"
  unfolding modifyCountForUser_def Let_def by (auto elim!: bind_resE intro!: owned_ok_set)

lemma AddOwnedContract_owned:
  assumes "owned_ok s" and n: "km_next_id s = Some n" "unat n + 1 < 2 ^ 63" and "AddOwnedContract owner a s = Inr s'"
  shows "owned_ok s'"
proof -
  have lt: "n < n + 1" and un: "unat (n + 1) < 2 ^ 63"
    using n(2) by (auto simp: word_less_nat_alt unat_word_ariths)
  have fresh: "(owner, n) \<notin> fst ` set (km_active s)"
    using assms(1) n(1) by (force simp: owned_ok_def list_all_iff)
  show ?thesis
    using assms(4) n(1) lt un
    by (intro owned_ok_add [OF assms(1) fresh, where n = "n + 1" and a = a])
      (auto simp: AddOwnedContract_def Let_def split: if_split_asm)
qed

lemma SetActiveD:
  assumes "Karma_SetActive a s = Inr s'"
  obtains (same) "s' = s"
  | (new) b r owner where "km_records s b = Some r" "kc_Owner r = Some owner" "\<not> is_active_key s (owner, kc_ContractId r)"
      "s' = incrementOwnedContracts owner 1
        (s\<lparr>km_active := AList.update (owner, kc_ContractId r) (kc_Address r) (km_active s)\<rparr>)"
proof -
  from assms obtain b r where b: "GetContractRecord s b = Inr r"
    and rest: "(case kc_Owner r of None \<Rightarrow> Inl (Err ''owner not found'')
      | Some owner \<Rightarrow> if is_active_key s (owner, kc_ContractId r) then Inr s
          else Inr (incrementOwnedContracts owner 1
            (s\<lparr>km_active := AList.update (owner, kc_ContractId r) (kc_Address r) (km_active s)\<rparr>))) = Inr s'"
    unfolding Karma_SetActive_def Let_def by (elim bind_resE) blast
  from b have r: "km_records s b = Some r" by (simp add: GetContractRecord_def split: option.split_asm)
  from rest obtain owner where o: "kc_Owner r = Some owner" by (cases "kc_Owner r") simp_all
  show thesis
  proof (cases "is_active_key s (owner, kc_ContractId r)")
    case True
    then show ?thesis using rest o by (intro same) simp
  next
    case False
    then show ?thesis using rest o by (intro new [OF r o False]) simp
  qed
qed

lemma SetActive_owned:
  assumes "owned_ok s" and "Karma_SetActive a s = Inr s'"
  shows "owned_ok s'"
  using assms(2)
proof (cases rule: SetActiveD)
  case same
  then show ?thesis using assms(1) by simp
next
  case (new b r owner)
  from assms(1) new(1) obtain n where n: "km_next_id s = Some n" "unat n < 2 ^ 63" "kc_ContractId r < n"
    unfolding owned_ok_def by blast
  have "(owner, kc_ContractId r) \<notin> fst ` set (km_active s)" using new(3) by (simp add: is_active_key_iff)
  then show ?thesis
  proof (rule owned_ok_add [OF assms(1)])
    show "km_next_id s' = Some n" "kc_ContractId r < n" "unat n < 2 ^ 63" using n new(4) by simp_all
    show "km_active s' = AList.update (owner, kc_ContractId r) (kc_Address r) (km_active s)" using new(4) by simp
  qed (simp_all add: new(4) n(1))
qed

lemma DeactivateContract_owned: "DeactivateContract r s = Inr s' \<Longrightarrow> owned_ok s \<Longrightarrow> owned_ok s'"
  by (auto simp: DeactivateContract_def is_active_key_iff split: option.split_asm if_split_asm intro!: owned_ok_delete [OF _ _ refl])

lemma owner_step_ok: "owner_step s s' \<Longrightarrow> owned_ok s \<Longrightarrow> owned_ok s'"
proof (induction rule: owner_step.induct)
  case (deploy s n owner a s')
  then show ?case by (blast intro: AddOwnedContract_owned)
next
  case (activate a s s')
  then show ?case by (blast intro: SetActive_owned)
next
  case (deactivate a s s')
  then show ?case unfolding Karma_SetInactive_def by (auto elim!: bind_resE intro: DeactivateContract_owned)
next
  case (deposit ctx user amount s s')
  then show ?case unfolding Karma_DepositCoin_def karma_TransferFrom_def
    by (auto elim!: bind_resE modifyCountForUser_owned intro: owned_ok_coin)
next
  case (withdraw ctx user amount s s')
  then show ?case unfolding Karma_WithdrawCoin_def karma_Transfer_def
    by (auto elim!: bind_resE modifyCountForUser_owned intro: owned_ok_coin)
next
  case (add ctx user amounts s s')
  then show ?case unfolding Karma_AddKarma_def AddKarma_def Let_def by (auto elim!: bind_resE intro!: owned_ok_set)
next
  case (delete ctx user ks s s')
  then show ?case unfolding Karma_DeleteSourcesForUser_def Let_def by (auto elim!: bind_resE intro!: owned_ok_set)
qed

lemma owner_reachable_ok: "owner_reachable s0 s \<Longrightarrow> owned_ok s0 \<Longrightarrow> owned_ok s"
  by (induction rule: owner_reachable.induct) (auto intro: owner_step_ok)

lemma AddKarma_owned: "AddKarma u amounts s = Inr s' \<Longrightarrow> owned_ok s \<Longrightarrow> owned_ok s'"
  unfolding AddKarma_def Let_def by (auto elim!: bind_resE intro!: owned_ok_set)

lemma Karma_Init_owned:
  assumes "km_users g = []" and "km_active g = []" and "km_records g = Map.empty" and "Karma_Init is_empty req g = Inr s"
  shows "owned_ok s"
proof -
  have ok: "owned_ok (g\<lparr>km_next_id := Some 1, km_sources := y\<rparr>)" for y
    using assms(1-3) by (simp add: owned_ok_def active_count_def Karma_GetUserState_def empty_karma_def)
  have reg: "owned_ok t'" if "registerOracle e x y t = Inr t'" and "owned_ok t" for e x y t t'
    using that(2) by (rule owned_ok_frame)
      (use that(1) in \<open>auto simp: registerOracle_def Let_def Karma_GetUserState_def split: option.split_asm if_split_asm\<close>)
  from assms(4) obtain s1 s2 y where s1: "(case ki_Oracle req of None \<Rightarrow> Inr (g\<lparr>km_next_id := Some 1, km_sources := y\<rparr>)
        | Some a \<Rightarrow> registerOracle is_empty (Some a) None (g\<lparr>km_next_id := Some 1, km_sources := y\<rparr>)) = Inr s1"
    and s2: "fold_res (\<lambda>(user, amounts). AddKarma user amounts) (ki_Users req) s1 = Inr s2"
    and s: "km_users s = km_users s2" "km_active s = km_active s2" "km_records s = km_records s2" "km_next_id s = km_next_id s2"
    unfolding Karma_Init_def Let_def by (auto elim!: bind_resE)
  have "owned_ok s1" using s1 by (auto intro: ok reg [OF _ ok] split: option.split_asm)
  with s2 have "owned_ok s2" by (rule fold_res_invariant) (auto intro: AddKarma_owned)
  then show ?thesis using s by (elim owned_ok_frame) (simp_all add: Karma_GetUserState_def)
qed

lemma GetActiveContractRecords_length:
  assumes "GetActiveContractRecords s u = Inr rs"
  shows "length rs = active_count s u"
proof -
  let ?f = "\<lambda>(_, addr) records. bind_res (GetContractRecord s addr) (\<lambda>r. Inr (records @ [r]))"
  have len: "length rs = length acc + length es" if "fold_res ?f es acc = Inr rs"
    for es :: "((address \<times> u64) \<times> address) list" and acc
    using that by (induction es arbitrary: acc) (auto elim!: bind_resE)
  have "(\<lambda>((o', _), _). o' = u) = (\<lambda>e :: (address \<times> u64) \<times> address. fst (fst e) = u)" by auto
  with len [of "filter (\<lambda>((o', _), _). o' = u) (km_active s)" "[]"] assms show ?thesis
    by (simp add: GetActiveContractRecords_def active_count_def)
qed

text \<open>From genesis, through deployments (below 2^63 of them), activations and deactivations and any
  karma a user gains or spends in between, the number of owned contracts in a user's karma state, which
  decides what upkeep charges, is the number of active contract records the contract lists for him.\<close>

theorem owned_count_agrees:
  assumes "km_users g = []" and "km_active g = []" and "km_records g = Map.empty"
    and "Karma_Init is_empty req g = Inr s0" and "owner_reachable s0 s"
    and "GetActiveContractRecords s u = Inr records"
  shows "kst_NumOwnedContracts (Karma_GetUserState s u) = int (length records)"
proof -
  have "owned_ok s" using owner_reachable_ok [OF assms(5) Karma_Init_owned [OF assms(1-4)]] .
  then show ?thesis using GetActiveContractRecords_length [OF assms(6)] by (auto simp: owned_ok_def)
qed

theorem owned_count_agrees_witness:
  "\<exists>s0 s records. Karma_Init (\<lambda>_. False) demo_karma_init demo_karma_genesis = Inr s0 \<and>
     AddOwnedContract demo_bob (Address ''default'' [7]) s0 = Inr s \<and>
     GetActiveContractRecords s demo_bob = Inr records \<and> records \<noteq> [] \<and>
     kst_NumOwnedContracts (Karma_GetUserState s demo_bob) = int (length records)"
proof -
  obtain s0 where s0: "Karma_Init (\<lambda>_. False) demo_karma_init demo_karma_genesis = Inr s0"
    and i: "km_next_id s0 = Some 1" "km_active s0 = []" "km_records s0 = Map.empty"
    by (simp add: Karma_Init_def demo_karma_init_def demo_karma_genesis_def Let_def AddKarma_def load_sources_def)
  obtain s records where s: "AddOwnedContract demo_bob (Address ''default'' [7]) s0 = Inr s"
    and r: "GetActiveContractRecords s demo_bob = Inr records" "records \<noteq> []"
    using i by (simp add: AddOwnedContract_def Let_def GetActiveContractRecords_def GetContractRecord_def)
  have "owner_step s0 s" using s i by (intro owner_step.deploy [of s0 1]) simp_all
  then have "owner_reachable s0 s" by (blast intro: owner_reachable.intros)
  from owned_count_agrees [OF _ _ _ s0 this r(1)]
  have "kst_NumOwnedContracts (Karma_GetUserState s demo_bob) = int (length records)"
    by (simp add: demo_karma_genesis_def)
  with s0 s r show ?thesis by blast
qed

text \<open>
  A user who cannot pay for two contracts loses one of them, but his state is written back with the
  number it had before: the next upkeep charges him for both.
\<close>

definition demo_upkeep :: karma_store where
  "demo_upkeep = \<lparr>km_sources = Some demo_rewards, km_oracle = None, km_config = None,
     km_users = [(demo_alice, \<lparr>kst_SourceStates = [\<lparr>ks_Name = CoinDeployToken, ks_Count = 5\<rparr>], kst_DeployKarmaTotal = Some 5,
       kst_CallKarmaTotal = Some 0, kst_NumOwnedContracts = 2\<rparr>)],
     km_upkeep = Some \<lparr>up_Cost = 3, up_Period = 10\<rparr>, km_last_upkeep = Some 1, km_next_id = Some 3,
     km_records = [demo_bob \<mapsto> \<lparr>kc_Owner = Some demo_alice, kc_Address = demo_bob, kc_ContractId = 1\<rparr>,
       Address ''default'' [0] \<mapsto> \<lparr>kc_Owner = Some demo_alice, kc_Address = Address ''default'' [0], kc_ContractId = 2\<rparr>],
     km_active = [((demo_alice, 1), demo_bob), ((demo_alice, 2), Address ''default'' [0])], km_perms = [],
     km_coin = empty_coin_store\<rparr>"

lemma upkeep_restores_count:
  "\<exists>s'. Upkeep id ((plain_ctx demo_alice)\<lparr>block_height := 20\<rparr>) demo_upkeep = Inr s' \<and>
     active_count demo_upkeep demo_alice = 2 \<and> active_count s' demo_alice = 1 \<and>
     kst_NumOwnedContracts (Karma_GetUserState s' demo_alice) = 2"
proof -
  let ?st = "\<lparr>kst_SourceStates = [\<lparr>ks_Name = CoinDeployToken, ks_Count = 5\<rparr>], kst_DeployKarmaTotal = Some 5,
       kst_CallKarmaTotal = Some 0, kst_NumOwnedContracts = 2\<rparr>"
  have last_upkeep: "Karma_GetUserState (s\<lparr>km_last_upkeep := h\<rparr>) u = Karma_GetUserState s u" for s h u
    by (simp add: Karma_GetUserState_def)
  have i: "i64 6 = 6" "i64 1 = 1" "i64 11 = 11" by (simp_all add: i64_id)
  have act: "GetActiveUsers demo_upkeep = [(demo_alice, ?st)]" by (simp add: GetActiveUsers_def demo_upkeep_def)
  have rec: "GetActiveContractRecords demo_upkeep demo_alice =
    Inr [\<lparr>kc_Owner = Some demo_alice, kc_Address = demo_bob, kc_ContractId = 1\<rparr>,
         \<lparr>kc_Owner = Some demo_alice, kc_Address = Address ''default'' [0], kc_ContractId = 2\<rparr>]"
    by (simp add: GetActiveContractRecords_def demo_upkeep_def GetContractRecord_def demo_bob_def)
  let ?s1 = "incrementOwnedContracts demo_alice (- 1) (demo_upkeep\<lparr>km_active := [((demo_alice, 2), Address ''default'' [0])]\<rparr>)"
  have dea: "DeactivateContract \<lparr>kc_Owner = Some demo_alice, kc_Address = demo_bob, kc_ContractId = 1\<rparr> demo_upkeep = Inr ?s1"
    by (simp add: DeactivateContract_def is_active_key_def demo_upkeep_def)
  have cut: "setInactiveContractIdOrdered demo_alice 1 demo_upkeep = (?s1, None)"
    by (simp add: setInactiveContractIdOrdered_def rec dea Let_def)
  have k: "deploy_karma demo_rewards [\<lparr>ks_Name = CoinDeployToken, ks_Count = 5\<rparr>] = Inr 5"
    by (simp add: deploy_karma_def)
  have pay: "payKarma demo_rewards 3 [\<lparr>ks_Name = CoinDeployToken, ks_Count = 5\<rparr>] = Inr ([\<lparr>ks_Name = CoinDeployToken, ks_Count = 2\<rparr>], 3)"
    by (simp add: payKarma_def)
  have user: "upkeep_user \<lparr>up_Cost = 3, up_Period = 10\<rparr> demo_rewards (demo_alice, ?st) demo_upkeep =
    Inr (set_user_state demo_alice (?st\<lparr>kst_SourceStates := [\<lparr>ks_Name = CoinDeployToken, ks_Count = 2\<rparr>], kst_DeployKarmaTotal := Some 2\<rparr>) ?s1)"
    by (simp add: upkeep_user_def k pay i euclid_div_def cut Let_def)
  have "Upkeep id ((plain_ctx demo_alice)\<lparr>block_height := 20\<rparr>) demo_upkeep =
    bind_res (deployUpkeep \<lparr>up_Cost = 3, up_Period = 10\<rparr> demo_rewards [(demo_alice, ?st)] demo_upkeep)
      (\<lambda>s. Inr (s\<lparr>km_last_upkeep := Some 20\<rparr>))"
    unfolding Upkeep_def act by (simp add: demo_upkeep_def GetUpkeepState_def i Let_def)
  then show ?thesis
    by (simp add: deployUpkeep_def user active_count_def last_upkeep GetUserState_set) (simp add: demo_upkeep_def)
qed

end
