(* ===== verification/Throttle.thy ===== *)
theory Throttle
  imports Deployer_Whitelist Karma
begin

text \<open>
  Limits on transactions, the package \<open>throttle\<close>: the origin validator of \<open>handler.go\<close>, a ring of the
  callers of the last blocks that is consulted before a transaction enters the mempool; the two
  middlewares of \<open>middleware.go\<close> that stop deployments and calls; and the karma middleware of
  \<open>karma-middleware.go\<close> with the limiters of \<open>throttle.go\<close>, which lets only origins with karma through.
\<close>

section \<open>The origin validator\<close>

record callTx =
  ct_origin :: address
  ct_nonce :: u64

record OriginValidator =
  ov_period :: u64
  ov_alreadyCalled :: "callTx list list"
  ov_allowedDeployers :: "address list"
  ov_deployValidation :: bool
  ov_callValidation :: bool

definition NewOriginValidator :: "u64 \<Rightarrow> address list \<Rightarrow> bool \<Rightarrow> bool \<Rightarrow> OriginValidator" where
  "NewOriginValidator period allowedDeployers deployValidation callValidation =
     \<lparr>ov_period = period, ov_alreadyCalled = replicate (unat period) [],
      ov_allowedDeployers = allowedDeployers, ov_deployValidation = deployValidation,
      ov_callValidation = callValidation\<rparr>"

text \<open>\<open>int(x) % int(y)\<close> truncates towards zero and panics for a zero divisor.\<close>

definition go_rem :: "int \<Rightarrow> int \<Rightarrow> int res" where
  "go_rem x y =
     (if y = 0 then Inl (Panic ''integer divide by zero'')
      else Inr (if x \<ge> 0 then x mod \<bar>y\<bar> else - (- x mod \<bar>y\<bar>)))"

text \<open>Replacing an element of a slice by a function of it; an index outside panics.\<close>

definition slice_update :: "'a list \<Rightarrow> int \<Rightarrow> ('a \<Rightarrow> 'a) \<Rightarrow> 'a list res" where
  "slice_update xs i f =
     (if 0 \<le> i \<and> i < int (length xs) then Inr (xs[nat i := f (xs ! nat i)])
      else Inl (Panic ''index out of range''))"

definition validateDeployer :: "OriginValidator \<Rightarrow> address \<Rightarrow> unit res" where
  "validateDeployer dv deployer =
     (if \<not> ov_deployValidation dv then Inr ()
      else if list_ex (\<lambda>allowed. deployer = allowed) (ov_allowedDeployers dv) then Inr ()
      else Inl (Err ''origin not on list of users registered for deploys''))"

definition validateCaller :: "OriginValidator \<Rightarrow> address \<Rightarrow> u64 \<Rightarrow> u64 \<Rightarrow> OriginValidator res" where
  "validateCaller dv caller nonce currentBlockHeight =
     (if \<not> ov_callValidation dv then Inr dv
      else if list_ex (list_ex (\<lambda>called. caller = ct_origin called \<and> nonce \<noteq> ct_nonce called)) (ov_alreadyCalled dv)
        then Inl (Err ''already placed call tx'')
      else
        bind_res (go_rem (sint currentBlockHeight) (sint (ov_period dv))) (\<lambda>callerBlockIndex.
        bind_res (slice_update (ov_alreadyCalled dv) callerBlockIndex (\<lambda>b. b @ [\<lparr>ct_origin = caller, ct_nonce = nonce\<rparr>]))
          (\<lambda>a. Inr (dv\<lparr>ov_alreadyCalled := a\<rparr>))))"

text \<open>A reset slot holds one zero value of a call: the empty address with nonce 0.\<close>

definition zero_call :: callTx where
  "zero_call = \<lparr>ct_origin = Address [] [], ct_nonce = 0\<rparr>"

definition OriginValidator_Reset :: "OriginValidator \<Rightarrow> int \<Rightarrow> OriginValidator res" where
  "OriginValidator_Reset dv currentBlockHeight =
     bind_res (go_rem currentBlockHeight (sint (ov_period dv))) (\<lambda>callerBlockIndex.
     bind_res (slice_update (ov_alreadyCalled dv) callerBlockIndex (\<lambda>_. [zero_call]))
       (\<lambda>a. Inr (dv\<lparr>ov_alreadyCalled := a\<rparr>)))"

abbreviation callId :: u32 where "callId \<equiv> 2"

definition ValidateOrigin ::
    "tx_codec \<Rightarrow> (bytes \<Rightarrow> bytes \<Rightarrow> bytes \<Rightarrow> bool) \<Rightarrow> (bytes \<Rightarrow> bytes) \<Rightarrow> OriginValidator \<Rightarrow> bytes \<Rightarrow> string \<Rightarrow> int
       \<Rightarrow> OriginValidator res" where
  "ValidateOrigin C verify local_of_key dv txBytes chainId currentBlockHeight =
     (if \<not> ov_deployValidation dv \<and> \<not> ov_callValidation dv then Inr dv
      else
        bind_res (dec_signed C txBytes) (\<lambda>txSigned.
        bind_res (GetOrigin verify local_of_key txSigned chainId) (\<lambda>origin.
        bind_res (dec_nonce C (stx_inner txSigned)) (\<lambda>txNonce.
        bind_res (dec_tx C (ntx_inner txNonce)) (\<lambda>txTransaction.
        if fst txTransaction = callId then validateCaller dv origin (ntx_sequence txNonce) (of_int currentBlockHeight)
        else if fst txTransaction = deployId then bind_res (validateDeployer dv origin) (\<lambda>_. Inr dv)
        else Inl (Err ''unrecognised transaction id''))))))"

text \<open>What the application calls: an error leaves the validator as it was.\<close>

definition origin_hook ::
    "tx_codec \<Rightarrow> (bytes \<Rightarrow> bytes \<Rightarrow> bytes \<Rightarrow> bool) \<Rightarrow> (bytes \<Rightarrow> bytes) \<Rightarrow> OriginValidator \<Rightarrow> bytes \<Rightarrow> string \<Rightarrow> int
       \<Rightarrow> unit res \<times> OriginValidator" where
  "origin_hook C verify local_of_key dv txBytes chainId h =
     (case ValidateOrigin C verify local_of_key dv txBytes chainId h of
        Inl e \<Rightarrow> (Inl e, dv)
      | Inr dv' \<Rightarrow> (Inr (), dv'))"

section \<open>Stopping deployments and calls\<close>

definition GetThrottleTxMiddleWare ::
    "(bytes \<Rightarrow> (u32 \<times> bytes) res) \<Rightarrow> (address \<Rightarrow> bool) \<Rightarrow> (int \<Rightarrow> bool) \<Rightarrow> (int \<Rightarrow> bool) \<Rightarrow> address \<Rightarrow> ('w, 'r) tx_middleware" where
  "GetThrottleTxMiddleWare unmarshal is_empty deployEnabled callEnabled oracleAddr rc w txBytes next chk =
     (let blockHeight = rc_height rc;
          isDeployEnabled = deployEnabled blockHeight;
          isCallEnabled = callEnabled blockHeight
      in
      if \<not> isDeployEnabled \<or> \<not> isCallEnabled then
        (case rc_origin rc of
           None \<Rightarrow> (Inl (Panic ''interface conversion''), w)
         | Some origin \<Rightarrow>
             if is_empty origin then (Inl (Err ''throttle: transaction has no origin [throttle-middleware]''), w)
             else
               (case unmarshal txBytes of
                  Inl e \<Rightarrow> (Inl (Err ''throttle: unmarshal tx''), w)
                | Inr (txid, _) \<Rightarrow>
                    if txid = deployId \<and> \<not> deployEnabled blockHeight \<and> origin \<noteq> oracleAddr
                    then (Inl (Err ''throttle: deploy transactions not enabled''), w)
                    else if txid = callId \<and> \<not> callEnabled blockHeight \<and> origin \<noteq> oracleAddr
                    then (Inl (Err ''throttle: call transactions not enabled''), w)
                    else next rc w txBytes chk))
      else next rc w txBytes chk)"

definition GetGoDeployTxMiddleWare ::
    "tx_codec \<Rightarrow> (bytes \<Rightarrow> vm_type res) \<Rightarrow> address list \<Rightarrow> ('w, 'r) tx_middleware" where
  "GetGoDeployTxMiddleWare C dec_deploy allowedDeployers rc w txBytes next chk =
     (case dec_tx C txBytes of
        Inl e \<Rightarrow> (Inl e, w)
      | Inr (txid, data) \<Rightarrow>
          if txid \<noteq> deployId then next rc w txBytes chk
          else
            (case bind_res (dec_msg C data) (\<lambda>msg. dec_deploy (msg_data msg)) of
               Inl e \<Rightarrow> (Inl e, w)
             | Inr vm \<Rightarrow>
                 if vm = VM_PLUGIN then
                   (case rc_origin rc of
                      None \<Rightarrow> (Inl (Panic ''interface conversion''), w)
                    | Some origin \<Rightarrow>
                        if list_ex (\<lambda>allowed. origin = allowed) allowedDeployers then next rc w txBytes chk
                        else (Inl (Err ''not authorized to deploy Go contract''), w))
                 else next rc w txBytes chk))"

text \<open>
  Addresses of a configured list: an entry that does not parse is tried again with the chain id in
  front. Parsing is go-diadem's.
\<close>

definition go_deployer_addresses :: "(string \<Rightarrow> address res) \<Rightarrow> string \<Rightarrow> string list \<Rightarrow> address list res" where
  "go_deployer_addresses parse chainId addrs =
     fold_res (\<lambda>addrStr acc.
       case parse addrStr of
         Inr a \<Rightarrow> Inr (acc @ [a])
       | Inl _ \<Rightarrow>
           (case parse (chainId @ '':'' @ addrStr) of
              Inr a \<Rightarrow> Inr (acc @ [a])
            | Inl e \<Rightarrow> Inl (Err ''parsing deploy address''))) addrs []"

definition tx_limiter_addresses :: "(string \<Rightarrow> address res) \<Rightarrow> string list \<Rightarrow> address list res" where
  "tx_limiter_addresses parse addrs =
     fold_res (\<lambda>addrStr acc.
       case parse addrStr of Inr a \<Rightarrow> Inr (acc @ [a]) | Inl e \<Rightarrow> Inl (Err ''parsing deploy address'')) addrs []"

section \<open>Karma\<close>

text \<open>
  The limiter is a library of its own: a new one is made from a limit and a period, and asking it
  counts the request. \<open>'l\<close> is its state.
\<close>

record limiter_context =
  lc_Limit :: int
  lc_Remaining :: int
  lc_Reached :: bool

record 'l limiter_lib =
  lim_new :: "int \<Rightarrow> int \<Rightarrow> 'l"
  lim_limit :: "'l \<Rightarrow> int"
  lim_get :: "'l \<Rightarrow> string \<Rightarrow> limiter_context res \<times> 'l"

record 'l Throttle =
  th_maxCallCount :: int
  th_sessionDuration :: int
  th_callLimiterPool :: "string \<rightharpoonup> 'l"
  th_lastAddress :: string
  th_lastLimiterContext :: limiter_context
  th_lastNonce :: u64
  th_lastId :: u32

definition NewThrottle :: "int \<Rightarrow> int \<Rightarrow> 'l Throttle" where
  "NewThrottle sessionDuration maxCallCount =
     \<lparr>th_maxCallCount = maxCallCount, th_sessionDuration = sessionDuration, th_callLimiterPool = Map.empty,
      th_lastAddress = [], th_lastLimiterContext = \<lparr>lc_Limit = 0, lc_Remaining = 0, lc_Reached = False\<rparr>,
      th_lastNonce = 0, th_lastId = 0\<rparr>"

definition getNewLimiter :: "'l limiter_lib \<Rightarrow> 'l Throttle \<Rightarrow> int \<Rightarrow> 'l" where
  "getNewLimiter L t limit = lim_new L (th_sessionDuration t) limit"

definition getLimiterFromPool :: "'l limiter_lib \<Rightarrow> string \<Rightarrow> int \<Rightarrow> 'l Throttle \<Rightarrow> 'l \<times> 'l Throttle" where
  "getLimiterFromPool L addr limit t =
     (let l = (case th_callLimiterPool t addr of None \<Rightarrow> getNewLimiter L t limit | Some l \<Rightarrow> l);
          l = (if lim_limit L l \<noteq> limit then getNewLimiter L t limit else l)
      in (l, t\<lparr>th_callLimiterPool := (th_callLimiterPool t)(addr \<mapsto> l)\<rparr>))"

definition getLimiterContext ::
    "'l limiter_lib \<Rightarrow> string \<Rightarrow> u64 \<Rightarrow> int \<Rightarrow> u32 \<Rightarrow> string \<Rightarrow> 'l Throttle \<Rightarrow> limiter_context res \<times> 'l Throttle" where
  "getLimiterContext L addr nonce limit txId key t =
     (if addr = th_lastAddress t \<and> nonce = th_lastNonce t \<and> th_lastId t = txId
      then (Inr (th_lastLimiterContext t), t)
      else
        let t = t\<lparr>th_lastAddress := addr, th_lastNonce := nonce, th_lastId := txId\<rparr>;
            (l, t) = getLimiterFromPool L addr limit t;
            (r, l) = lim_get L l key;
            t = t\<lparr>th_callLimiterPool := (th_callLimiterPool t)(addr \<mapsto> l)\<rparr>
        in (case r of
              Inr lc \<Rightarrow> (Inr lc, t\<lparr>th_lastLimiterContext := lc\<rparr>)
            | Inl e \<Rightarrow> (Inl e, t\<lparr>th_lastLimiterContext := \<lparr>lc_Limit = 0, lc_Remaining = 0, lc_Reached = False\<rparr>\<rparr>)))"

definition runThrottle ::
    "'l limiter_lib \<Rightarrow> string \<Rightarrow> u64 \<Rightarrow> int \<Rightarrow> u32 \<Rightarrow> string \<Rightarrow> 'l Throttle \<Rightarrow> unit res \<times> 'l Throttle" where
  "runThrottle L addr nonce limit txId key t =
     (case getLimiterContext L addr nonce limit txId key t of
        (Inl e, t) \<Rightarrow> (Inl e, t)
      | (Inr limitCtx, t) \<Rightarrow>
          if lc_Reached limitCtx then (Inl (Err ''Out of transactions for current session''), t) else (Inr (), t))"

definition getKarmaForTransaction :: "karma_store \<Rightarrow> address \<Rightarrow> u32 \<Rightarrow> int res" where
  "getKarmaForTransaction s origin txId =
     (if txId = deployId then GetUserKarma s origin DEPLOY
      else if txId = callId then GetUserKarma s origin CALL
      else Inl (Err ''unknown transaction id''))"

text \<open>
  What the karma middleware gets from outside: the contract's context over the chain state, the empty
  address and its string form, the decoding of a call and of a deployment's response, and the limiter.
\<close>

record ('w, 'l, 'r) karma_env =
  ke_create :: "'w \<Rightarrow> unit res"
  ke_get :: "'w \<Rightarrow> karma_store"
  ke_put :: "karma_store \<Rightarrow> 'w \<Rightarrow> 'w"
  ke_is_empty :: "address \<Rightarrow> bool"
  ke_string :: "address \<Rightarrow> string"
  ke_dec_call :: "bytes \<Rightarrow> vm_type res"
  ke_info :: "'r \<Rightarrow> string"
  ke_dec_response :: "'r \<Rightarrow> address option res"
  ke_limiter :: "'l limiter_lib"
  ke_zero :: 'r

definition active_check :: "tx_codec \<Rightarrow> ('w, 'l, 'r) karma_env \<Rightarrow> karma_store \<Rightarrow> u32 \<times> bytes \<Rightarrow> unit res" where
  "active_check C E s tx =
     (if fst tx = callId then
        bind_res (dec_msg C (snd tx)) (\<lambda>msg.
        bind_res (ke_dec_call E (msg_data msg)) (\<lambda>vm.
        if vm = VM_EVM then
          bind_res (deref (msg_to msg)) (\<lambda>to.
          bind_res (IsContractActive s to) (\<lambda>isActive.
          if \<not> isActive then Inl (Err ''contract is not active'') else Inr ()))
        else Inr ()))
      else Inr ())"

definition register_deploy ::
    "('w, 'l, 'r) karma_env \<Rightarrow> address \<Rightarrow> bool \<Rightarrow> 'r res \<times> 'w \<times> 'l Throttle \<Rightarrow> 'r res \<times> 'w \<times> 'l Throttle" where
  "register_deploy E origin chk out =
     (case out of
        (Inl e, wt) \<Rightarrow> (Inl e, wt)
      | (Inr r, (w, t)) \<Rightarrow>
          if \<not> chk \<and> ke_info E r = ''deploy.evm'' then
            (case bind_res (ke_dec_response E r) (\<lambda>c. bind_res (deref c) (\<lambda>c. AddOwnedContract origin c (ke_get E w))) of
               Inl e \<Rightarrow> (Inl e, (w, t))
             | Inr s \<Rightarrow> (Inr r, (ke_put E s w, t)))
          else (Inr r, (w, t)))"

definition MaxInt64 :: int where "MaxInt64 = 2 ^ 63 - 1"

text \<open>The calls an origin with a given karma may make in a session; the sum is of 64-bit integers.\<close>

definition call_count :: "int \<Rightarrow> int \<Rightarrow> int" where
  "call_count maxCallCount originKarmaTotal =
     (if originKarmaTotal > i64 (MaxInt64 - maxCallCount) then MaxInt64
      else i64 (maxCallCount + originKarmaTotal))"

text \<open>
  The outcome of the karma check: go on, fail, or answer at once (wrapping the nil error of a karma
  total that is no 64-bit number gives nil, and the zero result is returned).
\<close>

datatype gate = Pass | Fail go_error | Answer

definition karma_gate ::
    "('w, 'l, 'r) karma_env \<Rightarrow> karma_store \<Rightarrow> address \<Rightarrow> u64 \<Rightarrow> u32 \<Rightarrow> 'l Throttle \<Rightarrow> gate \<times> 'l Throttle" where
  "karma_gate E s origin nonce txId t =
     (case getKarmaForTransaction s origin txId of
        Inl e \<Rightarrow> (Fail e, t)
      | Inr originKarma \<Rightarrow>
          if originKarma = 0 then (Fail (Err ''origin has no karma of the appropriate type''), t)
          else if originKarma < - (2 ^ 63) then (Answer, t)
          else
            let originKarmaTotal = (if originKarma > MaxInt64 then MaxInt64 else originKarma) in
            if txId = deployId then
              (if originKarmaTotal < Karma_GetConfig s then (Fail (Err ''not enough karma to depoy''), t) else (Pass, t))
            else if txId = callId then
              (if th_maxCallCount t \<le> 0 then (Fail (Err ''max call count non positive''), t)
               else
                 (case runThrottle (ke_limiter E) (ke_string E origin) nonce (call_count (th_maxCallCount t) originKarmaTotal) txId
                         ''ThrottleTxMiddleWare'' t of
                    (Inl e, t) \<Rightarrow> (Fail e, t)
                  | (Inr _, t) \<Rightarrow> (Pass, t)))
            else (Fail (Err ''unknown transaction id''), t))"

definition GetKarmaMiddleWare ::
    "bool \<Rightarrow> tx_codec \<Rightarrow> ('w, 'l, 'r) karma_env \<Rightarrow> ('w \<times> 'l Throttle, 'r) tx_middleware" where
  "GetKarmaMiddleWare karmaEnabled C E rc wt txBytes next chk =
     (if \<not> karmaEnabled then next rc wt txBytes chk
      else
        (case (rc_origin rc, wt) of
           (None, _) \<Rightarrow> (Inl (Panic ''interface conversion''), wt)
         | (Some origin, (w, t)) \<Rightarrow>
             if ke_is_empty E origin then (Inl (Err ''throttle: transaction has no origin [get-karma]''), wt)
             else
               (case bind_res (dec_nonce C txBytes) (\<lambda>nonceTx.
                     bind_res (dec_tx C (ntx_inner nonceTx)) (\<lambda>tx.
                     bind_res (ke_create E w) (\<lambda>_.
                     bind_res (active_check C E (ke_get E w) tx) (\<lambda>_. Inr (nonceTx, tx))))) of
                  Inl e \<Rightarrow> (Inl e, wt)
                | Inr (nonceTx, tx) \<Rightarrow>
                    if GetOracleAddress (ke_get E w) = Some origin
                    then register_deploy E origin chk (next rc wt txBytes chk)
                    else
                      (case karma_gate E (ke_get E w) origin (ntx_sequence nonceTx) (fst tx) t of
                         (Fail e, t) \<Rightarrow> (Inl e, (w, t))
                       | (Answer, t) \<Rightarrow> (Inr (ke_zero E), (w, t))
                       | (Pass, t) \<Rightarrow>
                           if fst tx = deployId then register_deploy E origin chk (next rc (w, t) txBytes chk)
                           else next rc (w, t) txBytes chk))))"

section \<open>The ring of callers as a sliding window\<close>

text \<open>
  What the validator promises, over the history of accepted calls (height, caller, nonce): a call is
  accepted unless the same caller had one with another nonce accepted in the last \<open>p\<close> blocks, this
  one included.
\<close>

type_synonym call_log = "(nat \<times> address \<times> u64) list"

definition window_accepts :: "nat \<Rightarrow> nat \<Rightarrow> call_log \<Rightarrow> address \<Rightarrow> u64 \<Rightarrow> bool" where
  "window_accepts p h log c n \<longleftrightarrow> list_all (\<lambda>(h0, c', n'). \<not> (c' = c \<and> n' \<noteq> n \<and> h < h0 + p)) log"

datatype origin_op = BeginBlock | CheckCall address u64

fun window_run :: "nat \<Rightarrow> nat \<Rightarrow> call_log \<Rightarrow> origin_op list \<Rightarrow> bool list" where
  "window_run p h log [] = []"
| "window_run p h log (BeginBlock # ops) = window_run p (Suc h) log ops"
| "window_run p h log (CheckCall c n # ops) =
     window_accepts p h log c n #
     window_run p h (if window_accepts p h log c n then (h, c, n) # log else log) ops"

text \<open>
  The validator run on the same operations, blocks counted up from the height it starts at. A panic
  is no answer.
\<close>

fun origin_run :: "OriginValidator \<Rightarrow> nat \<Rightarrow> origin_op list \<Rightarrow> bool list res" where
  "origin_run dv h [] = Inr []"
| "origin_run dv h (BeginBlock # ops) =
     bind_res (OriginValidator_Reset dv (int (Suc h))) (\<lambda>dv. origin_run dv (Suc h) ops)"
| "origin_run dv h (CheckCall c n # ops) =
     (case validateCaller dv c n (of_nat h) of
        Inl (Panic msg) \<Rightarrow> Inl (Panic msg)
      | Inl e \<Rightarrow> bind_res (origin_run dv h ops) (\<lambda>rs. Inr (False # rs))
      | Inr dv \<Rightarrow> bind_res (origin_run dv h ops) (\<lambda>rs. Inr (True # rs)))"

text \<open>The slot of a block holds the calls accepted in it, until its turn comes again.\<close>

definition ring_inv :: "OriginValidator \<Rightarrow> nat \<Rightarrow> call_log \<Rightarrow> bool" where
  "ring_inv dv h log \<longleftrightarrow>
     ov_callValidation dv \<and> 0 < sint (ov_period dv) \<and> length (ov_alreadyCalled dv) = nat (sint (ov_period dv)) \<and>
     (\<forall>e\<in>set log. fst e \<le> h) \<and>
     (\<forall>i<length (ov_alreadyCalled dv). \<forall>c n. c \<noteq> Address [] [] \<longrightarrow>
        \<lparr>ct_origin = c, ct_nonce = n\<rparr> \<in> set (ov_alreadyCalled dv ! i) \<longleftrightarrow>
        (\<exists>h0. (h0, c, n) \<in> set log \<and> h0 mod nat (sint (ov_period dv)) = i \<and> h < h0 + nat (sint (ov_period dv))))"

lemma sint_pos_unat: "0 < sint (w :: u64) \<Longrightarrow> nat (sint w) = unat w"
proof -
  assume "0 < sint w"
  moreover have "sint w < 2 ^ 63" using sint_less [of w] by simp
  ultimately have "take_bit 64 (sint w) = sint w" by (intro take_bit_int_eq_self) simp_all
  then have "uint w = sint w" using uint_sint [of w] by simp
  then show ?thesis by (metis unat_eq_nat_uint)
qed

lemma sint_of_nat_small: "h < 2 ^ 63 \<Longrightarrow> sint (of_nat h :: u64) = int h"
  by (simp add: signed_of_nat signed_take_bit_int_eq_self)

lemma ring_slot:
  assumes "ring_inv dv h log"
  shows "go_rem (int k) (sint (ov_period dv)) = Inr (int (k mod nat (sint (ov_period dv))))"
    and "k mod nat (sint (ov_period dv)) < length (ov_alreadyCalled dv)"
proof -
  have "0 < sint (ov_period dv)" "length (ov_alreadyCalled dv) = nat (sint (ov_period dv))"
    using assms by (simp_all add: ring_inv_def)
  then show "go_rem (int k) (sint (ov_period dv)) = Inr (int (k mod nat (sint (ov_period dv))))"
    "k mod nat (sint (ov_period dv)) < length (ov_alreadyCalled dv)"
    by (simp_all add: go_rem_def zmod_int)
qed

lemma ring_mem:
  assumes "ring_inv dv h log" and "i < length (ov_alreadyCalled dv)" and "c \<noteq> Address [] []"
  shows "\<lparr>ct_origin = c, ct_nonce = n\<rparr> \<in> set (ov_alreadyCalled dv ! i) \<longleftrightarrow>
    (\<exists>h0. (h0, c, n) \<in> set log \<and> h0 mod nat (sint (ov_period dv)) = i \<and> h < h0 + nat (sint (ov_period dv)))"
  using assms unfolding ring_inv_def by blast

text \<open>The scan over all slots decides the window.\<close>

lemma scan_eq:
  assumes inv: "ring_inv dv h log" and "c \<noteq> Address [] []"
  shows "list_ex (list_ex (\<lambda>x. c = ct_origin x \<and> n \<noteq> ct_nonce x)) (ov_alreadyCalled dv) \<longleftrightarrow>
    \<not> window_accepts (nat (sint (ov_period dv))) h log c n"
proof -
  let ?p = "nat (sint (ov_period dv))"
  let ?a = "ov_alreadyCalled dv"
  have "list_ex (list_ex (\<lambda>x. c = ct_origin x \<and> n \<noteq> ct_nonce x)) ?a \<longleftrightarrow>
    (\<exists>i<length ?a. \<exists>m. m \<noteq> n \<and> \<lparr>ct_origin = c, ct_nonce = m\<rparr> \<in> set (?a ! i))" (is "?L \<longleftrightarrow> ?R")
  proof
    assume ?L
    then obtain xs x where "xs \<in> set ?a" and x: "x \<in> set xs" "c = ct_origin x" "n \<noteq> ct_nonce x"
      by (auto simp: list_ex_iff)
    then obtain i where "i < length ?a" "x \<in> set (?a ! i)" "c = ct_origin x" "n \<noteq> ct_nonce x"
      by (metis in_set_conv_nth)
    moreover have "\<lparr>ct_origin = ct_origin x, ct_nonce = ct_nonce x\<rparr> = x" by simp
    ultimately show ?R by metis
  next
    assume ?R
    then show ?L by (force simp: list_ex_iff in_set_conv_nth)
  qed
  also have "\<dots> \<longleftrightarrow> (\<exists>m h0. m \<noteq> n \<and> (h0, c, m) \<in> set log \<and> h < h0 + ?p)"
    using ring_mem [OF inv _ assms(2)] ring_slot(2) [OF inv] by metis
  also have "\<dots> \<longleftrightarrow> \<not> window_accepts ?p h log c n"
    by (force simp: window_accepts_def list_all_iff)
  finally show ?thesis .
qed

lemma validateCaller_window:
  assumes inv: "ring_inv dv h log" and c: "c \<noteq> Address [] []" and h: "h < 2 ^ 63"
  shows "if window_accepts (nat (sint (ov_period dv))) h log c n
    then \<exists>dv'. validateCaller dv c n (of_nat h) = Inr dv' \<and> ring_inv dv' h ((h, c, n) # log) \<and> ov_period dv' = ov_period dv
    else validateCaller dv c n (of_nat h) = Inl (Err ''already placed call tx'')"
proof (cases "window_accepts (nat (sint (ov_period dv))) h log c n")
  case True
  let ?p = "nat (sint (ov_period dv))"
  let ?a = "ov_alreadyCalled dv"
  let ?i = "h mod ?p"
  let ?dv = "dv\<lparr>ov_alreadyCalled := ?a[?i := ?a ! ?i @ [\<lparr>ct_origin = c, ct_nonce = n\<rparr>]]\<rparr>"
  have on: "ov_callValidation dv" and pos: "0 < sint (ov_period dv)" using inv by (simp_all add: ring_inv_def)
  have run: "validateCaller dv c n (of_nat h) = Inr ?dv"
    using True scan_eq [OF inv c, of n] ring_slot [OF inv, of h] on
    by (simp add: validateCaller_def sint_of_nat_small [OF h] slice_update_def)
  have "ring_inv ?dv h ((h, c, n) # log)"
    unfolding ring_inv_def
  proof (intro conjI allI impI)
    fix i c' n' assume i: "i < length (ov_alreadyCalled ?dv)" and c': "c' \<noteq> Address [] []"
    have old: "\<lparr>ct_origin = c', ct_nonce = n'\<rparr> \<in> set (?a ! i) \<longleftrightarrow>
      (\<exists>h0. (h0, c', n') \<in> set log \<and> h0 mod ?p = i \<and> h < h0 + ?p)"
      using ring_mem [OF inv _ c'] i by simp
    show "\<lparr>ct_origin = c', ct_nonce = n'\<rparr> \<in> set (ov_alreadyCalled ?dv ! i) \<longleftrightarrow>
      (\<exists>h0. (h0, c', n') \<in> set ((h, c, n) # log) \<and> h0 mod nat (sint (ov_period ?dv)) = i \<and> h < h0 + nat (sint (ov_period ?dv)))"
      using old i pos by (cases "i = ?i") (auto simp: nth_list_update)
  qed (use inv in \<open>auto simp: ring_inv_def\<close>)
  with True run show ?thesis by simp
next
  case False
  with scan_eq [OF inv c, of n] inv show ?thesis by (simp add: validateCaller_def ring_inv_def)
qed

lemma Reset_window:
  assumes inv: "ring_inv dv h log"
  shows "\<exists>dv'. OriginValidator_Reset dv (int (Suc h)) = Inr dv' \<and> ring_inv dv' (Suc h) log \<and> ov_period dv' = ov_period dv"
proof -
  let ?p = "nat (sint (ov_period dv))"
  let ?a = "ov_alreadyCalled dv"
  let ?i = "Suc h mod ?p"
  let ?dv = "dv\<lparr>ov_alreadyCalled := ?a[?i := [zero_call]]\<rparr>"
  have pos: "0 < ?p" and le: "\<And>e. e \<in> set log \<Longrightarrow> fst e \<le> h" using inv by (auto simp: ring_inv_def)
  have run: "OriginValidator_Reset dv (int (Suc h)) = Inr ?dv"
    using ring_slot [OF inv, of "Suc h"] by (simp add: OriginValidator_Reset_def slice_update_def del: of_nat_Suc)
  have "ring_inv ?dv (Suc h) log"
    unfolding ring_inv_def
  proof (intro conjI allI impI)
    fix i c n assume i: "i < length (ov_alreadyCalled ?dv)" and c: "c \<noteq> Address [] []"
    have old: "\<lparr>ct_origin = c, ct_nonce = n\<rparr> \<in> set (?a ! i) \<longleftrightarrow>
      (\<exists>h0. (h0, c, n) \<in> set log \<and> h0 mod ?p = i \<and> h < h0 + ?p)"
      using ring_mem [OF inv _ c] i by simp
    have turn: "h0 + ?p \<le> Suc h" if "(h0, c, n) \<in> set log" "h0 mod ?p = ?i" for h0
    proof -
      have "h0 \<le> h" using le [OF that(1)] by simp
      then obtain d where d: "Suc h = h0 + d" "0 < d" by (metis add_Suc_right le_add_diff_inverse zero_less_Suc)
      with that(2) have "?p dvd d" by (metis mod_eq_dvd_iff_nat diff_add_inverse le_add1)
      with d show ?thesis by (auto dest: dvd_imp_le)
    qed
    show "\<lparr>ct_origin = c, ct_nonce = n\<rparr> \<in> set (ov_alreadyCalled ?dv ! i) \<longleftrightarrow>
      (\<exists>h0. (h0, c, n) \<in> set log \<and> h0 mod nat (sint (ov_period ?dv)) = i \<and> Suc h < h0 + nat (sint (ov_period ?dv)))"
    proof (cases "i = ?i")
      case True
      then show ?thesis using i c turn by (auto simp: zero_call_def not_less dest: turn)
    next
      case False
      have "h < h0 + ?p \<longleftrightarrow> Suc h < h0 + ?p" if "h0 mod ?p = i" for h0
        using that False by (metis Suc_lessI mod_add_self2 Suc_lessD)
      then show ?thesis using old i False by (simp) blast
    qed
  qed (use inv in \<open>auto simp: ring_inv_def intro: le_SucI\<close>)
  with run show ?thesis by auto
qed

lemma origin_run_window:
  assumes "ring_inv dv h log" and "h + length ops < 2 ^ 63" and "list_all (\<lambda>op. \<forall>n. op \<noteq> CheckCall (Address [] []) n) ops"
  shows "origin_run dv h ops = Inr (window_run (nat (sint (ov_period dv))) h log ops)"
  using assms
proof (induction ops arbitrary: dv h log)
  case (Cons op ops)
  show ?case
  proof (cases op)
    case BeginBlock
    obtain dv' where "OriginValidator_Reset dv (int (Suc h)) = Inr dv'" "ring_inv dv' (Suc h) log" "ov_period dv' = ov_period dv"
      using Reset_window [OF Cons.prems(1)] by blast
    then show ?thesis using Cons.IH [of dv' "Suc h" log] Cons.prems(2,3) BeginBlock by simp
  next
    case (CheckCall c n)
    have c: "c \<noteq> Address [] []" using Cons.prems(3) CheckCall by auto
    have h: "h < 2 ^ 63" using Cons.prems(2) by simp
    show ?thesis
    proof (cases "window_accepts (nat (sint (ov_period dv))) h log c n")
      case True
      then obtain dv' where "validateCaller dv c n (of_nat h) = Inr dv'" "ring_inv dv' h ((h, c, n) # log)" "ov_period dv' = ov_period dv"
        using validateCaller_window [OF Cons.prems(1) c h, of n] by auto
      then show ?thesis using Cons.IH [of dv' h "(h, c, n) # log"] Cons.prems(2,3) CheckCall True by simp
    next
      case False
      then show ?thesis
        using validateCaller_window [OF Cons.prems(1) c h, of n] Cons.IH [of dv h log] Cons.prems CheckCall by simp
    qed
  qed
qed simp

lemma ring_inv_new:
  assumes "0 < sint period"
  shows "ring_inv (NewOriginValidator period allowed d True) h []"
  using assms by (simp add: ring_inv_def NewOriginValidator_def sint_pos_unat)

section \<open>What the karma middleware lets through\<close>

lemma karma_gate_Pass:
  assumes "karma_gate E s origin nonce txId t = (Pass, t')"
  shows "\<exists>k. getKarmaForTransaction s origin txId = Inr k \<and> k \<noteq> 0 \<and>
    (txId = deployId \<longrightarrow> Karma_GetConfig s \<le> min k MaxInt64) \<and> (txId = deployId \<or> txId = callId)"
  using assms
  by (auto simp: karma_gate_def Let_def split: sum.split_asm if_split_asm prod.split_asm)

lemma call_count_bound:
  assumes "0 < m" and "m \<le> MaxInt64" and "0 < k" and "k \<le> MaxInt64"
  shows "call_count m k = min MaxInt64 (m + k)"
proof -
  have "i64 (MaxInt64 - m) = MaxInt64 - m" using assms by (intro i64_id) (simp_all add: MaxInt64_def)
  moreover have "i64 (m + k) = m + k" if "k \<le> MaxInt64 - m"
    using that assms by (intro i64_id) (simp_all add: MaxInt64_def)
  ultimately show ?thesis by (auto simp: call_count_def min_def)
qed

lemma AddOwnedContract_active:
  "AddOwnedContract owner c s = Inr s' \<Longrightarrow> IsContractActive s' c = Inr True"
  by (auto simp: AddOwnedContract_def IsContractActive_def is_active_key_def Let_def update_conv' split: option.split_asm)

section \<open>Properties\<close>

text \<open>C35: The origin validator is a sliding window: for any sequence of new blocks and checked calls, a
  validator with call validation and a positive period p answers exactly as the specification over the
  whole history does, without a panic: a call is rejected if and only if a call of the same caller with
  another nonce was accepted in this block or one of the p - 1 blocks before it.\<close>

theorem origin_validator_window:
  assumes "0 < sint period" and "h + length ops < 2 ^ 63"
    and "list_all (\<lambda>op. \<forall>n. op \<noteq> CheckCall (Address [] []) n) ops"
  shows "origin_run (NewOriginValidator period allowed d True) h ops = Inr (window_run (unat period) h [] ops)"
  using origin_run_window [OF ring_inv_new [OF assms(1)] assms(2,3)] sint_pos_unat [OF assms(1)]
  by (simp add: NewOriginValidator_def)

theorem origin_validator_window_witness:
  "origin_run (NewOriginValidator 2 [] False True) 5
     [CheckCall demo_alice 1, CheckCall demo_alice 2, BeginBlock, CheckCall demo_alice 2, CheckCall demo_bob 7,
      BeginBlock, CheckCall demo_alice 2] = Inr [True, False, False, True, True]"
proof -
  have "sint (2 :: u64) = 2" by (simp add: sint_of_nat_small [of 2, simplified])
  then show ?thesis
    by (subst origin_validator_window) (simp_all add: window_accepts_def demo_alice_def demo_bob_def)
qed

text \<open>With karma enabled, a transaction of an origin other than the karma oracle is handed on only if
  the origin has karma for its kind, for a deployment at least the configured minimum; in particular an
  origin without karma is turned away whatever the next handler is, and so is every call of an EVM
  contract that is not active, the oracle's included; the chain state is left as it was.\<close>

theorem karma_required:
  assumes "rc_origin rc = Some origin" and "dec_nonce C tx = Inr ntx" and "dec_tx C (ntx_inner ntx) = Inr (txid, data)"
    and "(GetOracleAddress (ke_get E w) \<noteq> Some origin \<and>
          (\<forall>k. getKarmaForTransaction (ke_get E w) origin txid = Inr k \<longrightarrow> k = 0 \<or>
             - (2 ^ 63) \<le> k \<and> txid = deployId \<and> min k MaxInt64 < Karma_GetConfig (ke_get E w))) \<or>
      (txid = callId \<and> (\<exists>msg to. dec_msg C data = Inr msg \<and> ke_dec_call E (msg_data msg) = Inr VM_EVM \<and>
          msg_to msg = Some to \<and> IsContractActive (ke_get E w) to \<noteq> Inr True))"
  shows "\<exists>e t'. GetKarmaMiddleWare True C E rc (w, t) tx nx chk = (Inl e, (w, t'))"
proof (cases "ke_is_empty E origin \<or> (\<exists>e. ke_create E w = Inl e) \<or> (\<exists>e. active_check C E (ke_get E w) (txid, data) = Inl e)")
  case True
  then show ?thesis using assms(1-3) by (auto simp: GetKarmaMiddleWare_def bind_res_def split: sum.split)
next
  case False
  then have ok: "\<not> ke_is_empty E origin" "ke_create E w = Inr ()" "active_check C E (ke_get E w) (txid, data) = Inr ()"
    by (auto, (metis old.sum.exhaust old.unit.exhaust)+)
  from ok(3) assms(4) have no: "GetOracleAddress (ke_get E w) \<noteq> Some origin"
    and k: "\<And>k. getKarmaForTransaction (ke_get E w) origin txid = Inr k \<Longrightarrow> k = 0 \<or>
       - (2 ^ 63) \<le> k \<and> txid = deployId \<and> min k MaxInt64 < Karma_GetConfig (ke_get E w)"
    by (auto simp: active_check_def elim!: bind_resE split: if_split_asm)
  obtain g t' where g: "karma_gate E (ke_get E w) origin (ntx_sequence ntx) txid t = (g, t')" by (rule prod.exhaust)
  have "\<exists>e. g = Fail e"
    using g k by (auto simp: karma_gate_def Let_def min_def split: sum.split_asm if_split_asm)
  then show ?thesis using assms(1-3) ok no g by (auto simp: GetKarmaMiddleWare_def)
qed

definition demo_limiter :: "int limiter_lib" where
  "demo_limiter = \<lparr>lim_new = (\<lambda>_ limit. limit), lim_limit = id,
     lim_get = (\<lambda>l _. (Inr \<lparr>lc_Limit = l, lc_Remaining = l, lc_Reached = False\<rparr>, l))\<rparr>"

definition demo_karma_env :: "(karma_store, int, string) karma_env" where
  "demo_karma_env = \<lparr>ke_create = (\<lambda>_. Inr ()), ke_get = id, ke_put = (\<lambda>s _. s), ke_is_empty = (\<lambda>_. False),
     ke_string = ChainID, ke_dec_call = (\<lambda>_. Inr VM_PLUGIN), ke_info = id,
     ke_dec_response = (\<lambda>_. Inr (Some (Address ''default'' [7]))), ke_limiter = demo_limiter, ke_zero = []\<rparr>"

definition demo_throttle_store :: karma_store where
  "demo_throttle_store = \<lparr>km_sources = None, km_oracle = None, km_config = Some 5,
     km_users = [(demo_alice, \<lparr>kst_SourceStates = [], kst_DeployKarmaTotal = Some 9, kst_CallKarmaTotal = Some 0, kst_NumOwnedContracts = 0\<rparr>)],
     km_upkeep = None, km_last_upkeep = None, km_next_id = Some 1, km_records = Map.empty, km_active = [], km_perms = [],
     km_coin = empty_coin_store\<rparr>"

definition demo_rc :: "address \<Rightarrow> req_ctx" where
  "demo_rc a = \<lparr>rc_origin = Some a, rc_chain_id = ''default'', rc_height = 1\<rparr>"

theorem karma_required_witness:
  "\<exists>e t'. GetKarmaMiddleWare True dw_demo_codec demo_karma_env (demo_rc demo_bob) (demo_throttle_store, NewThrottle 60 10) [0]
     (NoopTxHandler ''deploy.evm'') False = (Inl e, (demo_throttle_store, t'))"
  by (rule karma_required [where origin = demo_bob and ntx = "\<lparr>ntx_sequence = 1, ntx_inner = [0]\<rparr>" and txid = 1 and data = "[0]"])
    (simp_all add: demo_rc_def dw_demo_codec_def demo_karma_env_def demo_throttle_store_def GetOracleAddress_def
      getKarmaForTransaction_def GetUserKarma_def Karma_GetUserState_def empty_karma_def)

text \<open>An EVM contract deployed through the karma middleware is on record: when the deployment has
  been delivered and its result returned, the contract at the address of the response is active in
  the karma contract, so calls of it pass the check that turns calls of inactive contracts away. A
  transaction that is only checked registers nothing.\<close>

theorem deployed_contract_active:
  assumes "GetKarmaMiddleWare True C E rc (w, t) tx nx chk = (Inr r, (w', t'))"
    and "\<And>s v. ke_get E (ke_put E s v) = s"
    and "dec_nonce C tx = Inr ntx" and "dec_tx C (ntx_inner ntx) = Inr (deployId, data)"
    and "ke_info E r = ''deploy.evm''" and "ke_dec_response E r = Inr (Some c)" and "r \<noteq> ke_zero E"
  shows "if chk then (\<exists>u. nx rc (w, u) tx chk = (Inr r, (w', t')))
    else IsContractActive (ke_get E w') c = Inr True"
proof -
  from assms(1) obtain origin u where "register_deploy E origin chk (nx rc (w, u) tx chk) = (Inr r, (w', t'))"
    using assms(3,4,7)
    by (auto simp: GetKarmaMiddleWare_def active_check_def split: option.split_asm if_split_asm sum.split_asm
      prod.split_asm gate.split_asm elim!: bind_resE)
  then show ?thesis
    using assms(2,5,6) by (auto simp: register_deploy_def AddOwnedContract_active
      split: prod.split_asm sum.split_asm if_split_asm elim!: bind_resE)
qed

theorem deployed_contract_active_witness:
  "\<exists>w' t'. GetKarmaMiddleWare True dw_demo_codec demo_karma_env (demo_rc demo_alice) (demo_throttle_store, NewThrottle 60 10) [0]
     (NoopTxHandler ''deploy.evm'') False = (Inr ''deploy.evm'', (w', t')) \<and>
     IsContractActive w' (Address ''default'' [7]) = Inr True"
proof -
  let ?wt = "(demo_throttle_store, NewThrottle 60 10)"
  have k: "karma_gate demo_karma_env demo_throttle_store demo_alice 1 1 (NewThrottle 60 10) = (Pass, NewThrottle 60 10)"
    by (simp add: karma_gate_def getKarmaForTransaction_def GetUserKarma_def Karma_GetUserState_def demo_throttle_store_def
      Karma_GetConfig_def MaxInt64_def Let_def)
  obtain w' t' where run: "GetKarmaMiddleWare True dw_demo_codec demo_karma_env (demo_rc demo_alice) ?wt [0]
     (NoopTxHandler ''deploy.evm'') False = (Inr ''deploy.evm'', (w', t'))"
    using k by (simp add: GetKarmaMiddleWare_def demo_rc_def dw_demo_codec_def demo_karma_env_def active_check_def
      GetOracleAddress_def demo_throttle_store_def register_deploy_def NoopTxHandler_def AddOwnedContract_def Let_def)
  from deployed_contract_active [OF run, of "\<lparr>ntx_sequence = 1, ntx_inner = [0]\<rparr>" "[0]" "Address ''default'' [7]"]
  have "IsContractActive w' (Address ''default'' [7]) = Inr True"
    by (simp add: demo_karma_env_def dw_demo_codec_def)
  with run show ?thesis by blast
qed

end
