(* ===== verification/Registry.thy ===== *)
theory Registry
  imports Kv_Store
begin

text \<open>
  The contract registry: the interface of \<open>registry/registry.go\<close>, its two implementations over the
  chain state in \<open>registry/v1/registry.go\<close> and \<open>registry/v2/registry.go\<close>, and the choice between them
  in \<open>registry/factory/registry_factory.go\<close>.

  An operation that fails has still made the writes before the failure, so \<open>Register\<close> returns the
  state beside its result. Keys are made with \<open>util.PrefixKey\<close> and records are protobuf messages: both
  are arguments, in the record \<open>reg_codec\<close>.
\<close>

section \<open>Names and records\<close>

definition ErrAlreadyRegistered :: go_error where
  "ErrAlreadyRegistered = Err ''name is already registered''"
definition ErrInvalidVersion :: go_error where
  "ErrInvalidVersion = Err ''invalid registry version''"
definition ErrNotImplemented :: go_error where
  "ErrNotImplemented = Err ''not implemented in this registry version''"

record Record =
  rec_Name :: string
  rec_Owner :: address
  rec_Address :: address

text \<open>The characters \<open>[a-zA-Z0-9.-]\<close> of a name.\<close>

definition name_char :: "char \<Rightarrow> bool" where
  "name_char c \<longleftrightarrow> (CHR ''a'' \<le> c \<and> c \<le> CHR ''z'') \<or> (CHR ''A'' \<le> c \<and> c \<le> CHR ''Z'') \<or>
     (CHR ''0'' \<le> c \<and> c \<le> CHR ''9'') \<or> c = CHR ''.'' \<or> c = CHR ''-''"

definition validateName :: "string \<Rightarrow> unit res" where
  "validateName name =
     (if length name < 1 then Inl (Err ''name length too short'')
      else if length name > 255 then Inl (Err ''name length too long'')
      else if \<not> (name \<noteq> [] \<and> list_all name_char name) then Inl (Err ''invalid name format'')
      else Inr ())"

record reg_codec =
  rg_prefix :: "bytes \<Rightarrow> bytes \<Rightarrow> bytes"
  rg_addr_bytes :: "address \<Rightarrow> bytes"
  rg_enc_record :: "Record \<Rightarrow> bytes"
  rg_dec_record :: "bytes \<Rightarrow> Record res"
  rg_enc_addr :: "address \<Rightarrow> bytes"
  rg_dec_addr :: "bytes \<Rightarrow> address res"

section \<open>Version 1\<close>

definition recordKey :: "reg_codec \<Rightarrow> string \<Rightarrow> bytes" where
  "recordKey G name = rg_prefix G (go_bytes ''registry'') (go_bytes name)"

definition V1_Resolve :: "reg_codec \<Rightarrow> 's kv_ops \<Rightarrow> 's \<Rightarrow> string \<Rightarrow> address res" where
  "V1_Resolve G K s name =
     (let data = op_get K s (recordKey G name) in
      if slice_len data = 0 then Inl ErrNotFound
      else bind_res (rg_dec_record G (the data)) (\<lambda>record. Inr (rec_Address record)))"

definition V1_Register :: "reg_codec \<Rightarrow> 's kv_ops \<Rightarrow> 's \<Rightarrow> string \<Rightarrow> address \<Rightarrow> address \<Rightarrow> unit res \<times> 's" where
  "V1_Register G K s name addr owner =
     (if name = [] then (Inr (), s)
      else
        (case validateName name of
           Inl e \<Rightarrow> (Inl e, s)
         | Inr _ \<Rightarrow>
             (case V1_Resolve G K s name of
                Inr _ \<Rightarrow> (Inl ErrAlreadyRegistered, s)
              | Inl e \<Rightarrow>
                  if e \<noteq> ErrNotFound then (Inl e, s)
                  else (Inr (), op_set K s (recordKey G name)
                    (Some (rg_enc_record G \<lparr>rec_Name = name, rec_Owner = owner, rec_Address = addr\<rparr>))))))"

definition V1_GetRecord :: "'s \<Rightarrow> address \<Rightarrow> Record res" where
  "V1_GetRecord s contractAddr = Inl ErrNotImplemented"

section \<open>Version 2\<close>

definition contractAddrKey :: "reg_codec \<Rightarrow> string \<Rightarrow> bytes" where
  "contractAddrKey G contractName = rg_prefix G (go_bytes ''reg_caddr'') (go_bytes contractName)"

definition contractRecordKey :: "reg_codec \<Rightarrow> address \<Rightarrow> bytes" where
  "contractRecordKey G contractAddr = rg_prefix G (go_bytes ''reg_crec'') (rg_addr_bytes G contractAddr)"

definition V2_set_name :: "reg_codec \<Rightarrow> 's kv_ops \<Rightarrow> 's \<Rightarrow> string \<Rightarrow> address \<Rightarrow> 's res" where
  "V2_set_name G K s contractName contractAddr =
     (if contractName = [] then Inr s
      else
        bind_res (validateName contractName) (\<lambda>_.
        if slice_len (op_get K s (contractAddrKey G contractName)) \<noteq> 0 then Inl ErrAlreadyRegistered
        else Inr (op_set K s (contractAddrKey G contractName) (Some (rg_enc_addr G contractAddr)))))"

definition V2_Register :: "reg_codec \<Rightarrow> 's kv_ops \<Rightarrow> 's \<Rightarrow> string \<Rightarrow> address \<Rightarrow> address \<Rightarrow> unit res \<times> 's" where
  "V2_Register G K s contractName contractAddr owner =
     (case V2_set_name G K s contractName contractAddr of
        Inl e \<Rightarrow> (Inl e, s)
      | Inr s \<Rightarrow>
          if slice_len (op_get K s (contractRecordKey G contractAddr)) \<noteq> 0 then (Inl ErrAlreadyRegistered, s)
          else (Inr (), op_set K s (contractRecordKey G contractAddr)
            (Some (rg_enc_record G \<lparr>rec_Name = contractName, rec_Owner = owner, rec_Address = contractAddr\<rparr>))))"

definition V2_Resolve :: "reg_codec \<Rightarrow> 's kv_ops \<Rightarrow> 's \<Rightarrow> string \<Rightarrow> address res" where
  "V2_Resolve G K s contractName =
     (let data = op_get K s (contractAddrKey G contractName) in
      if slice_len data = 0 then Inl ErrNotFound else rg_dec_addr G (the data))"

definition V2_GetRecord :: "reg_codec \<Rightarrow> 's kv_ops \<Rightarrow> 's \<Rightarrow> address \<Rightarrow> Record res" where
  "V2_GetRecord G K s contractAddr =
     (let data = op_get K s (contractRecordKey G contractAddr) in
      if slice_len data = 0 then Inl ErrNotFound else rg_dec_record G (the data))"

section \<open>The factory\<close>

datatype RegistryVersion = RegistryV1 | RegistryV2

definition RegistryVersionFromInt :: "int \<Rightarrow> RegistryVersion res" where
  "RegistryVersionFromInt v =
     (if v < 0 \<or> v > 2 then Inl ErrInvalidVersion
      else if v = 0 then Inr RegistryV1
      else Inr (if v = 1 then RegistryV1 else RegistryV2))"

record 's registry_ops =
  reg_Register :: "'s \<Rightarrow> string \<Rightarrow> address \<Rightarrow> address \<Rightarrow> unit res \<times> 's"
  reg_Resolve :: "'s \<Rightarrow> string \<Rightarrow> address res"
  reg_GetRecord :: "'s \<Rightarrow> address \<Rightarrow> Record res"

definition NewRegistryFactory :: "reg_codec \<Rightarrow> 's kv_ops \<Rightarrow> RegistryVersion \<Rightarrow> 's registry_ops" where
  "NewRegistryFactory G K v =
     (case v of
        RegistryV1 \<Rightarrow> \<lparr>reg_Register = V1_Register G K, reg_Resolve = V1_Resolve G K, reg_GetRecord = V1_GetRecord\<rparr>
      | RegistryV2 \<Rightarrow> \<lparr>reg_Register = V2_Register G K, reg_Resolve = V2_Resolve G K, reg_GetRecord = V2_GetRecord G K\<rparr>)"

text \<open>Any sequence of registrations, failed ones included: the state after it, and its results.\<close>

primrec register_all :: "'s registry_ops \<Rightarrow> (string \<times> address \<times> address) list \<Rightarrow> 's \<Rightarrow> 's" where
  "register_all R [] s = s"
| "register_all R (r # rs) s = register_all R rs (snd (reg_Register R s (fst r) (fst (snd r)) (snd (snd r))))"

primrec register_results :: "'s registry_ops \<Rightarrow> (string \<times> address \<times> address) list \<Rightarrow> 's \<Rightarrow> unit res list" where
  "register_results R [] s = []"
| "register_results R (r # rs) s =
     fst (reg_Register R s (fst r) (fst (snd r)) (snd (snd r))) #
     register_results R rs (snd (reg_Register R s (fst r) (fst (snd r)) (snd (snd r))))"

section \<open>The interface\<close>

text \<open>
  What a client of a registry may rely on, whatever its version: a successful registration of a name
  is found again, a name that is found is never given away, whatever is registered after it and
  whether or not that fails, and names do not disturb each other.
\<close>

locale registry =
  fixes R :: "'s registry_ops" and ok :: "'s \<Rightarrow> bool"
  assumes keeps_ok: "ok s \<Longrightarrow> ok (snd (reg_Register R s n a w))"
    and registered: "ok s \<Longrightarrow> n \<noteq> [] \<Longrightarrow> reg_Register R s n a w = (Inr (), s') \<Longrightarrow> reg_Resolve R s' n = Inr a"
    and taken: "ok s \<Longrightarrow> reg_Resolve R s n = Inr b \<Longrightarrow> n \<noteq> [] \<Longrightarrow> fst (reg_Register R s n a w) \<noteq> Inr ()"
    and kept: "ok s \<Longrightarrow> n \<noteq> [] \<Longrightarrow> reg_Resolve R s n = Inr b \<Longrightarrow> reg_Resolve R (snd (reg_Register R s m a w)) n = Inr b"
    and other_names: "ok s \<Longrightarrow> m \<noteq> n \<Longrightarrow> reg_Resolve R (snd (reg_Register R s m a w)) n = reg_Resolve R s n"
begin

lemma register_all_ok: "ok s \<Longrightarrow> ok (register_all R rs s)"
  by (induction rs arbitrary: s) (auto simp: keeps_ok)

lemma name_permanent:
  assumes "ok s" and "n \<noteq> []" and "reg_Resolve R s n = Inr b"
  shows "reg_Resolve R (register_all R rs s) n = Inr b"
  using assms by (induction rs arbitrary: s) (auto simp: keeps_ok kept)

text \<open>The first successful registration of a name decides what it stands for.\<close>

lemma first_wins:
  assumes "ok s" and "n \<noteq> []" and "reg_Register R s n a w = (Inr (), s')"
  shows "reg_Resolve R (register_all R rs s') n = Inr a \<and>
    fst (reg_Register R (register_all R rs s') n b v) \<noteq> Inr ()"
proof -
  have s': "ok s'" using keeps_ok [OF assms(1), of n a w] assms(3) by simp
  have "reg_Resolve R (register_all R rs s') n = Inr a"
    using name_permanent [OF s' assms(2) registered [OF assms]] .
  with taken [OF register_all_ok [OF s'] this assms(2)] show ?thesis by blast
qed

end

section \<open>Both versions keep the contract\<close>

text \<open>
  What is used of the key function and of protobuf: keys under one prefix are injective, keys under
  the two prefixes of a version differ, decoding gives back what was encoded, and the encodings that
  are stored are not empty.
\<close>

locale registry_codec = kv_store K invar
  for K :: "'s kv_ops" and invar :: "'s \<Rightarrow> bool" +
  fixes G :: reg_codec
  assumes prefix_inj: "rg_prefix G p x = rg_prefix G p y \<longleftrightarrow> x = y"
    and prefix_apart: "rg_prefix G (go_bytes ''reg_caddr'') x \<noteq> rg_prefix G (go_bytes ''reg_crec'') y"
    and addr_inj: "rg_addr_bytes G a = rg_addr_bytes G b \<longleftrightarrow> a = b"
    and dec_record: "rg_dec_record G (rg_enc_record G r) = Inr r"
    and dec_addr: "rg_dec_addr G (rg_enc_addr G a) = Inr a"
    and enc_record_nonempty: "rg_enc_record G r \<noteq> []"
    and enc_addr_nonempty: "rg_enc_addr G a \<noteq> []"
begin

lemma keys [simp]:
  "recordKey G n = recordKey G m \<longleftrightarrow> n = m"
  "contractAddrKey G n = contractAddrKey G m \<longleftrightarrow> n = m"
  "contractRecordKey G a = contractRecordKey G b \<longleftrightarrow> a = b"
  "contractAddrKey G n \<noteq> contractRecordKey G a"
  "contractRecordKey G a \<noteq> contractAddrKey G n"
  using go_bytes_inj prefix_apart [of "go_bytes n" "rg_addr_bytes G a"]
  by (auto simp: recordKey_def contractAddrKey_def contractRecordKey_def prefix_inj addr_inj inj_eq)

lemma V1_Resolve_set:
  "invar s \<Longrightarrow> V1_Resolve G K (op_set K s (recordKey G m) (Some (rg_enc_record G r))) n =
     (if n = m then Inr (rec_Address r) else V1_Resolve G K s n)"
  by (simp add: V1_Resolve_def get_set dec_record enc_record_nonempty Let_def)

lemma V2_Resolve_set:
  "invar s \<Longrightarrow> V2_Resolve G K (op_set K s (contractAddrKey G m) (Some (rg_enc_addr G a))) n =
     (if n = m then Inr a else V2_Resolve G K s n)"
  "invar s \<Longrightarrow> V2_Resolve G K (op_set K s (contractRecordKey G c) v) n = V2_Resolve G K s n"
  by (simp_all add: V2_Resolve_def get_set dec_addr enc_addr_nonempty Let_def)

lemma V2_GetRecord_set:
  "invar s \<Longrightarrow> V2_GetRecord G K (op_set K s (contractRecordKey G c) (Some (rg_enc_record G r))) a =
     (if a = c then Inr r else V2_GetRecord G K s a)"
  "invar s \<Longrightarrow> V2_GetRecord G K (op_set K s (contractAddrKey G m) v) a = V2_GetRecord G K s a"
  by (simp_all add: V2_GetRecord_def get_set dec_record enc_record_nonempty Let_def)

lemma V2_set_nameD:
  assumes "V2_set_name G K s n a = Inr t" and "invar s"
  shows "invar t" and "op_get K t (contractRecordKey G c) = op_get K s (contractRecordKey G c)"
    and "V2_Resolve G K t m = (if n = m \<and> n \<noteq> [] then Inr a else V2_Resolve G K s m)"
    and "n \<noteq> [] \<Longrightarrow> V2_Resolve G K s n = Inl ErrNotFound"
  using assms
  by (auto simp: V2_set_name_def get_set inv_set V2_Resolve_set elim!: bind_resE split: if_split_asm)
    (simp_all add: V2_Resolve_def)

lemma V1_registry: "registry (NewRegistryFactory G K RegistryV1) invar"
  by unfold_locales
    (auto simp: NewRegistryFactory_def V1_Register_def inv_set V1_Resolve_set
      split: if_split_asm sum.split_asm sum.split)

lemma V2_registry: "registry (NewRegistryFactory G K RegistryV2) invar"
proof
  fix s n m a w b s'
  assume s: "invar s"
  show "invar (snd (reg_Register (NewRegistryFactory G K RegistryV2) s n a w))"
    using V2_set_nameD(1) [OF _ s] by (auto simp: NewRegistryFactory_def V2_Register_def inv_set s split: sum.split)
  show "reg_Resolve (NewRegistryFactory G K RegistryV2) s' n = Inr a"
    if "n \<noteq> []" "reg_Register (NewRegistryFactory G K RegistryV2) s n a w = (Inr (), s')"
    using that V2_set_nameD [OF _ s]
    by (auto simp: NewRegistryFactory_def V2_Register_def V2_Resolve_set split: sum.split_asm if_split_asm)
  show "fst (reg_Register (NewRegistryFactory G K RegistryV2) s n a w) \<noteq> Inr ()"
    if "reg_Resolve (NewRegistryFactory G K RegistryV2) s n = Inr b" "n \<noteq> []"
    using that V2_set_nameD(4) [OF _ s]
    by (auto simp: NewRegistryFactory_def V2_Register_def split: sum.split)
  show "reg_Resolve (NewRegistryFactory G K RegistryV2) (snd (reg_Register (NewRegistryFactory G K RegistryV2) s m a w)) n = Inr b"
    if "n \<noteq> []" "reg_Resolve (NewRegistryFactory G K RegistryV2) s n = Inr b"
    using that V2_set_nameD [OF _ s]
    by (auto simp: NewRegistryFactory_def V2_Register_def V2_Resolve_set split: sum.split)
  show "reg_Resolve (NewRegistryFactory G K RegistryV2) (snd (reg_Register (NewRegistryFactory G K RegistryV2) s m a w)) n =
      reg_Resolve (NewRegistryFactory G K RegistryV2) s n" if "m \<noteq> n"
    using that V2_set_nameD [OF _ s]
    by (auto simp: NewRegistryFactory_def V2_Register_def V2_Resolve_set split: sum.split)
qed

text \<open>
  The two versions side by side: they agree on every name, a name is stored exactly when it is found,
  and only the given addresses have a record in version 2.
\<close>

definition same_name :: "address res \<Rightarrow> address res \<Rightarrow> nat \<Rightarrow> bool" where
  "same_name r1 r2 len \<longleftrightarrow> r1 = r2 \<and> (r1 = Inl ErrNotFound \<and> len = 0 \<or> (\<exists>a. r1 = Inr a) \<and> len \<noteq> 0)"

definition agree :: "address set \<Rightarrow> 's \<Rightarrow> 's \<Rightarrow> bool" where
  "agree A s1 s2 \<longleftrightarrow> invar s1 \<and> invar s2 \<and>
     (\<forall>n. same_name (V1_Resolve G K s1 n) (V2_Resolve G K s2 n) (slice_len (op_get K s2 (contractAddrKey G n)))) \<and>
     (\<forall>a. a \<notin> A \<longrightarrow> slice_len (op_get K s2 (contractRecordKey G a)) = 0)"

lemma agree_set:
  assumes "agree A s1 s2"
  shows "agree (insert a A) s1 (op_set K s2 (contractRecordKey G a) v)"
    and "agree A (op_set K s1 (recordKey G n) (Some (rg_enc_record G \<lparr>rec_Name = n, rec_Owner = w, rec_Address = a\<rparr>)))
      (op_set K s2 (contractAddrKey G n) (Some (rg_enc_addr G a)))"
  using assms unfolding agree_def
  by (simp_all add: inv_set get_set V1_Resolve_set V2_Resolve_set enc_addr_nonempty same_name_def [of "Inr a"])

lemma register_agree:
  assumes "agree A s1 s2" and "a \<notin> A"
  shows "fst (V1_Register G K s1 n a w) = fst (V2_Register G K s2 n a w) \<and>
    agree (insert a A) (snd (V1_Register G K s1 n a w)) (snd (V2_Register G K s2 n a w))"
proof -
  have rec: "slice_len (op_get K s2 (contractRecordKey G a)) = 0" and s2: "invar s2"
    and mono: "agree (insert a A) s1 s2" using assms by (auto simp: agree_def)
  consider (unnamed) "n = []" | (invalid) e where "n \<noteq> []" "validateName n = Inl e"
    | (free) "n \<noteq> []" "validateName n = Inr ()" "V1_Resolve G K s1 n = Inl ErrNotFound"
        "slice_len (op_get K s2 (contractAddrKey G n)) = 0"
    | (taken) b where "n \<noteq> []" "validateName n = Inr ()" "V1_Resolve G K s1 n = Inr b"
        "slice_len (op_get K s2 (contractAddrKey G n)) \<noteq> 0"
  proof -
    have "same_name (V1_Resolve G K s1 n) (V2_Resolve G K s2 n) (slice_len (op_get K s2 (contractAddrKey G n)))"
      using assms(1) by (simp add: agree_def)
    then show thesis using that by (cases "n = []"; cases "validateName n") (auto simp: same_name_def)
  qed
  then show ?thesis
  proof cases
    case unnamed
    then show ?thesis using rec agree_set(1) [OF assms(1)]
      by (simp add: V1_Register_def V2_Register_def V2_set_name_def)
  next
    case invalid
    then show ?thesis using mono by (simp add: V1_Register_def V2_Register_def V2_set_name_def)
  next
    case free
    then show ?thesis using rec s2 agree_set(1) [OF agree_set(2) [OF assms(1)]]
      by (simp add: V1_Register_def V2_Register_def V2_set_name_def get_set)
  next
    case taken
    then show ?thesis using mono by (simp add: V1_Register_def V2_Register_def V2_set_name_def)
  qed
qed

lemma run_agree:
  assumes "agree A s1 s2" and "distinct (map (fst \<circ> snd) rs)" and "A \<inter> set (map (fst \<circ> snd) rs) = {}"
  shows "register_results (NewRegistryFactory G K RegistryV1) rs s1 = register_results (NewRegistryFactory G K RegistryV2) rs s2 \<and>
    (\<exists>B. agree B (register_all (NewRegistryFactory G K RegistryV1) rs s1) (register_all (NewRegistryFactory G K RegistryV2) rs s2))"
  using assms
proof (induction rs arbitrary: A s1 s2)
  case (Cons r rs)
  obtain n a w where r: "r = (n, a, w)" by (cases r)
  have "a \<notin> A" using Cons.prems(3) r by auto
  from register_agree [OF Cons.prems(1) this, of n w] show ?case
    using Cons.IH [of "insert a A" "snd (V1_Register G K s1 n a w)" "snd (V2_Register G K s2 n a w)"] Cons.prems(2,3) r
    by (auto simp: NewRegistryFactory_def)
qed auto

end

sublocale registry_codec \<subseteq> v1: registry "NewRegistryFactory G K RegistryV1" invar
  by (rule V1_registry)

sublocale registry_codec \<subseteq> v2: registry "NewRegistryFactory G K RegistryV2" invar
  by (rule V2_registry)
section \<open>A concrete codec\<close>

text \<open>
  A self-delimiting encoding of byte strings, to show that what is asked of keys and records can be
  had together.
\<close>

fun delimit :: "bytes \<Rightarrow> bytes" where
  "delimit [] = [0]"
| "delimit (b # bs) = 1 # b # delimit bs"

fun undelimit :: "bytes \<Rightarrow> (bytes \<times> bytes) option" where
  "undelimit (x # xs) =
     (if x = 0 then Some ([], xs)
      else (case xs of
              [] \<Rightarrow> None
            | b # ys \<Rightarrow> (case undelimit ys of None \<Rightarrow> None | Some (bs, rest) \<Rightarrow> Some (b # bs, rest))))"
| "undelimit [] = None"

lemma undelimit_delimit [simp]: "undelimit (delimit bs @ rest) = Some (bs, rest)"
  by (induction bs) auto

lemma delimit_nonempty [simp]: "delimit bs \<noteq> []" "length (delimit bs) \<noteq> 0"
  by (cases bs; simp)+

definition bytes_str :: "bytes \<Rightarrow> string" where
  "bytes_str bs = map (\<lambda>b. char_of (unat b)) bs"

lemma bytes_str_go [simp]: "bytes_str (go_bytes s) = s"
  by (induction s) (simp_all add: bytes_str_def go_bytes_def unat_of_nat)

definition demo_enc_addr :: "address \<Rightarrow> bytes" where
  "demo_enc_addr a = delimit (go_bytes (ChainID a)) @ delimit (Local a)"

definition demo_take_addr :: "bytes \<Rightarrow> (address \<times> bytes) option" where
  "demo_take_addr bs =
     (case undelimit bs of
        None \<Rightarrow> None
      | Some (c, rest) \<Rightarrow> (case undelimit rest of None \<Rightarrow> None | Some (l, rest) \<Rightarrow> Some (Address (bytes_str c) l, rest)))"

lemma demo_take_addr_enc [simp]: "demo_take_addr (demo_enc_addr a @ rest) = Some (a, rest)"
  by (simp add: demo_take_addr_def demo_enc_addr_def)

definition demo_codec :: reg_codec where
  "demo_codec =
     \<lparr>rg_prefix = (\<lambda>p x. p @ [0] @ x), rg_addr_bytes = demo_enc_addr,
      rg_enc_record = (\<lambda>r. delimit (go_bytes (rec_Name r)) @ demo_enc_addr (rec_Owner r) @ demo_enc_addr (rec_Address r)),
      rg_dec_record = (\<lambda>bs.
        case undelimit bs of
          None \<Rightarrow> Inl (Err ''unmarshal'')
        | Some (n, rest) \<Rightarrow>
            (case demo_take_addr rest of
               None \<Rightarrow> Inl (Err ''unmarshal'')
             | Some (w, rest) \<Rightarrow>
                 (case demo_take_addr rest of
                    None \<Rightarrow> Inl (Err ''unmarshal'')
                  | Some (a, _) \<Rightarrow> Inr \<lparr>rec_Name = bytes_str n, rec_Owner = w, rec_Address = a\<rparr>))),
      rg_enc_addr = demo_enc_addr,
      rg_dec_addr = (\<lambda>bs. case demo_take_addr bs of None \<Rightarrow> Inl (Err ''unmarshal'') | Some (a, _) \<Rightarrow> Inr a)\<rparr>"

lemma demo_enc_addr_nonempty [simp]: "demo_enc_addr a \<noteq> []"
  by (simp add: demo_enc_addr_def)

lemma demo_enc_addr_inj: "demo_enc_addr a = demo_enc_addr b \<longleftrightarrow> a = b"
  by (metis demo_take_addr_enc option.inject prod.inject)

interpretation mem_registry: registry_codec "MemStore_ops rng" "\<lambda>_. True" demo_codec for rng
proof unfold_locales
  show "rg_prefix demo_codec (go_bytes ''reg_caddr'') x \<noteq> rg_prefix demo_codec (go_bytes ''reg_crec'') y" for x y
    by (simp add: demo_codec_def go_bytes_def)
  show "rg_dec_record demo_codec (rg_enc_record demo_codec r) = Inr r" for r
    using demo_take_addr_enc [of "rec_Address r" "[]"] by (simp add: demo_codec_def)
  show "rg_dec_addr demo_codec (rg_enc_addr demo_codec a) = Inr a" for a
    using demo_take_addr_enc [of a "[]"] by (simp add: demo_codec_def)
qed (simp_all add: demo_codec_def demo_enc_addr_inj)

section \<open>Properties\<close>

text \<open>In both versions of the registry the first successful registration of a name decides what
  it stands for: after any further registrations, failed ones included, the name still resolves to
  that address, and no one can register it again.\<close>

theorem registered_name_permanent:
  assumes "registry_codec K invar G" and "invar s" and "n \<noteq> []"
    and "reg_Register (NewRegistryFactory G K v) s n a w = (Inr (), s')"
  shows "reg_Resolve (NewRegistryFactory G K v) (register_all (NewRegistryFactory G K v) rs s') n = Inr a \<and>
    fst (reg_Register (NewRegistryFactory G K v) (register_all (NewRegistryFactory G K v) rs s') n b x) \<noteq> Inr ()"
proof -
  have "registry (NewRegistryFactory G K v) invar"
    using registry_codec.V1_registry [OF assms(1)] registry_codec.V2_registry [OF assms(1)] by (cases v) simp_all
  from registry.first_wins [OF this assms(2-4)] show ?thesis .
qed

abbreviation demo_store_ops :: "MemStore kv_ops" where
  "demo_store_ops \<equiv> MemStore_ops (\<lambda>_ _. [])"

lemma demo_name_valid: "validateName ''coin'' = Inr ()"
  by (simp add: validateName_def name_char_def)

theorem registered_name_permanent_witness:
  "\<exists>s'. reg_Register (NewRegistryFactory demo_codec demo_store_ops RegistryV2) Map.empty ''coin'' (Address ''default'' [1]) (Address ''default'' [2]) = (Inr (), s') \<and>
     reg_Resolve (NewRegistryFactory demo_codec demo_store_ops RegistryV2)
       (register_all (NewRegistryFactory demo_codec demo_store_ops RegistryV2) [(''coin'', Address ''default'' [3], Address ''default'' [4])] s') ''coin'' =
     Inr (Address ''default'' [1])"
proof -
  obtain s' where "reg_Register (NewRegistryFactory demo_codec demo_store_ops RegistryV2) Map.empty ''coin'' (Address ''default'' [1]) (Address ''default'' [2]) = (Inr (), s')"
    by (simp add: NewRegistryFactory_def V2_Register_def V2_set_name_def demo_name_valid MemStore_ops_def MemStore_Get_def MemStore_Set_def
      del: fun_upd_apply) (simp add: contractAddrKey_def contractRecordKey_def demo_codec_def go_bytes_def)
  from registered_name_permanent [OF mem_registry.registry_codec_axioms _ _ this] this show ?thesis by blast
qed

text \<open>The two versions of the registry cannot be told apart by name: fed the same registrations,
  with contract addresses that do not repeat, starting without any, they accept and reject the same
  ones with the same errors, and afterwards resolve every name alike.\<close>

theorem registries_agree:
  assumes "registry_codec K invar G" and "invar s" and "\<And>k. op_get K s k = None" and "distinct (map (fst \<circ> snd) rs)"
  shows "register_results (NewRegistryFactory G K RegistryV1) rs s = register_results (NewRegistryFactory G K RegistryV2) rs s \<and>
    reg_Resolve (NewRegistryFactory G K RegistryV1) (register_all (NewRegistryFactory G K RegistryV1) rs s) n =
    reg_Resolve (NewRegistryFactory G K RegistryV2) (register_all (NewRegistryFactory G K RegistryV2) rs s) n"
proof -
  have "registry_codec.agree K invar G {} s s"
    using assms(2,3) unfolding registry_codec.agree_def [OF assms(1)]
    by (simp add: registry_codec.same_name_def [OF assms(1)] V1_Resolve_def V2_Resolve_def)
  from registry_codec.run_agree [OF assms(1) this assms(4)]
  obtain B where "register_results (NewRegistryFactory G K RegistryV1) rs s = register_results (NewRegistryFactory G K RegistryV2) rs s"
    and ag: "registry_codec.agree K invar G B (register_all (NewRegistryFactory G K RegistryV1) rs s) (register_all (NewRegistryFactory G K RegistryV2) rs s)"
    by auto
  then show ?thesis
    unfolding registry_codec.agree_def [OF assms(1)]
    by (auto simp: registry_codec.same_name_def [OF assms(1)] NewRegistryFactory_def)
qed

theorem registries_agree_witness:
  "register_results (NewRegistryFactory demo_codec demo_store_ops RegistryV1)
     [(''coin'', Address ''default'' [1], Address ''default'' [2]), (''coin'', Address ''default'' [3], Address ''default'' [2])] Map.empty =
   register_results (NewRegistryFactory demo_codec demo_store_ops RegistryV2)
     [(''coin'', Address ''default'' [1], Address ''default'' [2]), (''coin'', Address ''default'' [3], Address ''default'' [2])] Map.empty"
  using registries_agree [OF mem_registry.registry_codec_axioms, of "\<lambda>_ _. []" Map.empty
    "[(''coin'', Address ''default'' [1], Address ''default'' [2]), (''coin'', Address ''default'' [3], Address ''default'' [2])]"]
  by (simp add: MemStore_ops_def MemStore_Get_def)

text \<open>Version 2 finds a contract by its address too: after a successful registration the record of
  the contract is what was registered and the name, if it has one, resolves to the contract, every other
  contract's record is unchanged; and a contract that has a record is not registered again.\<close>

theorem registry_record_roundtrip:
  assumes "registry_codec K invar G" and "invar s" and "V2_Register G K s n a w = (Inr (), s')"
  shows "V2_GetRecord G K s' a = Inr \<lparr>rec_Name = n, rec_Owner = w, rec_Address = a\<rparr> \<and>
    (n = [] \<or> V2_Resolve G K s' n = Inr a) \<and>
    (b = a \<or> V2_GetRecord G K s' b = V2_GetRecord G K s b) \<and>
    fst (V2_Register G K s' m a x) \<noteq> Inr ()"
proof -
  from assms(3) obtain t where t: "V2_set_name G K s n a = Inr t"
    and s': "s' = op_set K t (contractRecordKey G a) (Some (rg_enc_record G \<lparr>rec_Name = n, rec_Owner = w, rec_Address = a\<rparr>))"
    unfolding V2_Register_def by (auto split: sum.split_asm if_split_asm)
  note D = registry_codec.V2_set_nameD [OF assms(1) t assms(2)]
  have inv': "invar s'" using D(1) kv_store.inv_set [OF registry_codec.axioms(1) [OF assms(1)]] by (simp add: s')
  have "V2_GetRecord G K t b = V2_GetRecord G K s b" for b using D(2) [of b] by (simp add: V2_GetRecord_def)
  then have get: "V2_GetRecord G K s' b = (if b = a then Inr \<lparr>rec_Name = n, rec_Owner = w, rec_Address = a\<rparr> else V2_GetRecord G K s b)" for b
    unfolding s' registry_codec.V2_GetRecord_set(1) [OF assms(1) D(1)] by simp
  have res: "V2_Resolve G K s' n = (if n \<noteq> [] then Inr a else V2_Resolve G K s n)"
    unfolding s' registry_codec.V2_Resolve_set(2) [OF assms(1) D(1)] using D(3) by simp
  have "fst (V2_Register G K s' m a x) \<noteq> Inr ()"
  proof (cases "V2_set_name G K s' m a")
    case (Inr u)
    have "op_get K u (contractRecordKey G a) = op_get K s' (contractRecordKey G a)"
      using registry_codec.V2_set_nameD(2) [OF assms(1) Inr inv'] .
    moreover have "slice_len (op_get K s' (contractRecordKey G a)) \<noteq> 0"
      using get [of a] by (auto simp: V2_GetRecord_def Let_def split: if_split_asm)
    ultimately show ?thesis using Inr by (simp add: V2_Register_def)
  qed (simp add: V2_Register_def)
  then show ?thesis using get res by auto
qed

theorem registry_record_roundtrip_witness:
  "\<exists>s'. V2_Register demo_codec demo_store_ops Map.empty ''coin'' (Address ''default'' [1]) (Address ''default'' [2]) = (Inr (), s') \<and>
     V2_GetRecord demo_codec demo_store_ops s' (Address ''default'' [1]) =
       Inr \<lparr>rec_Name = ''coin'', rec_Owner = Address ''default'' [2], rec_Address = Address ''default'' [1]\<rparr>"
proof -
  obtain s' where "V2_Register demo_codec demo_store_ops Map.empty ''coin'' (Address ''default'' [1]) (Address ''default'' [2]) = (Inr (), s')"
    by (simp add: V2_Register_def V2_set_name_def demo_name_valid MemStore_ops_def MemStore_Get_def MemStore_Set_def
      del: fun_upd_apply) (simp add: contractAddrKey_def contractRecordKey_def demo_codec_def go_bytes_def)
  from registry_record_roundtrip [OF mem_registry.registry_codec_axioms _ this] this show ?thesis by blast
qed

end
