(* ===== verification/Plugin_Vm.thy ===== *)
theory Plugin_Vm
  imports Tx_Pipeline Registry Deployer_Whitelist
begin

text \<open>
  Running contracts: the plugin virtual machine of \<open>plugin/vm.go\<close> with the contract context it hands
  out, the loaders of \<open>plugin/loader.go\<close>, the VM manager of \<open>vm/vm.go\<close> and the transaction handlers
  for deployments and calls of \<open>vm/handler.go\<close>.

  The code of a Go contract is not part of the chain state: what a contract does with its context is
  a tree of actions, one constructor per method of the context that touches state or another contract,
  each followed by what the contract does with the answer. A loaded contract maps a message and a
  request to such a tree. A chain of nested calls is as deep as the Go stack allows: the depth is an
  argument, and a call beyond it ends in a panic.
\<close>

section \<open>Contracts\<close>

record event =
  ev_topics :: "string list"
  ev_caller :: address
  ev_address :: address
  ev_plugin :: string
  ev_body :: bytes

datatype 'a action =
    Done "'a res"
  | GetKey bytes "slice \<Rightarrow> 'a action"
  | HasKey bytes "bool \<Rightarrow> 'a action"
  | RangeKeys bytes "(bytes \<times> slice) list \<Rightarrow> 'a action"
  | SetKey bytes slice "'a action"
  | DeleteKey bytes "'a action"
  | CallContract address bytes "bytes res \<Rightarrow> 'a action"
  | StaticCallContract address bytes "bytes res \<Rightarrow> 'a action"
  | CallEvm address bytes int "bytes res \<Rightarrow> 'a action"
  | StaticCallEvm address bytes "bytes res \<Rightarrow> 'a action"
  | ResolveName string "address res \<Rightarrow> 'a action"
  | ContractRecordOf address "Record res \<Rightarrow> 'a action"
  | EmitTopics bytes "string list" "'a action"

text \<open>What a contract reads of its context without effect.\<close>

record message =
  me_sender :: address
  me_contract :: address
  me_height :: int
  me_feature :: "string \<Rightarrow> bool \<Rightarrow> bool"

record ('q, 'p) contract =
  cn_Init :: "message \<Rightarrow> 'q \<Rightarrow> unit action"
  cn_Call :: "message \<Rightarrow> 'q \<Rightarrow> 'p action"
  cn_StaticCall :: "message \<Rightarrow> 'q \<Rightarrow> 'p action"

section \<open>Loaders\<close>

definition ErrPluginNotFound :: go_error where "ErrPluginNotFound = Err ''plugin not found''"

record ('q, 'p) StaticLoader =
  sl_Contracts :: "(string \<times> ('q, 'p) contract) list"
  sl_overrides :: "string \<rightharpoonup> (('q, 'p) contract \<times> int) list"

definition findOverride :: "('q, 'p) StaticLoader \<Rightarrow> string \<Rightarrow> int \<Rightarrow> ('q, 'p) contract option" where
  "findOverride m name blockHeight =
     (case sl_overrides m name of
        None \<Rightarrow> None
      | Some overrides \<Rightarrow> map_option fst (find (\<lambda>o'. blockHeight \<ge> snd o') (rev overrides)))"

text \<open>
  A name is parsed to the meta data that contracts are compared by; parsing is the argument
  \<open>parse_meta\<close>, and the contracts of the loader stand with the meta data they report.
\<close>

definition StaticLoader_LoadContract ::
    "(string \<Rightarrow> string res) \<Rightarrow> ('q, 'p) StaticLoader \<Rightarrow> string \<Rightarrow> int \<Rightarrow> ('q, 'p) contract res" where
  "StaticLoader_LoadContract parse_meta m name blockHeight =
     bind_res (parse_meta name) (\<lambda>meta.
     case findOverride m name blockHeight of
       Some c \<Rightarrow> Inr c
     | None \<Rightarrow>
         (case find (\<lambda>c. fst c = meta) (sl_Contracts m) of
            Some c \<Rightarrow> Inr (snd c)
          | None \<Rightarrow> Inl ErrPluginNotFound))"

record ('q, 'p) MultiLoader =
  ml_loaders :: "(string \<Rightarrow> int \<Rightarrow> ('q, 'p) contract res) list"
  ml_known :: "string \<rightharpoonup> nat"

fun try_loaders ::
    "(string \<Rightarrow> int \<Rightarrow> ('q, 'p) contract res) list \<Rightarrow> nat option \<Rightarrow> nat \<Rightarrow> string \<Rightarrow> int
       \<Rightarrow> (nat \<times> ('q, 'p) contract) res" where
  "try_loaders [] known i name h = Inl ErrPluginNotFound"
| "try_loaders (l # ls) known i name h =
     (if known = Some i then try_loaders ls known (Suc i) name h
      else
        (case l name h of
           Inr c \<Rightarrow> Inr (i, c)
         | Inl e \<Rightarrow> if e = ErrPluginNotFound then try_loaders ls known (Suc i) name h else Inl e))"

definition MultiLoader_LoadContract ::
    "('q, 'p) MultiLoader \<Rightarrow> string \<Rightarrow> int \<Rightarrow> ('q, 'p) contract res \<times> ('q, 'p) MultiLoader" where
  "MultiLoader_LoadContract m name h =
     (if ml_loaders m = [] then (Inl (Err ''no loaders specified''), m)
      else
        let known = ml_known m name;
            search = (case try_loaders (ml_loaders m) known 0 name h of
                        Inl e \<Rightarrow> (Inl e, m)
                      | Inr (i, c) \<Rightarrow> (Inr c, m\<lparr>ml_known := (ml_known m)(name \<mapsto> i)\<rparr>))
        in
        (case known of
           None \<Rightarrow> search
         | Some i \<Rightarrow>
             (case (ml_loaders m ! i) name h of
                Inr c \<Rightarrow> (Inr c, m)
              | Inl e \<Rightarrow> if e \<noteq> ErrPluginNotFound then (Inl e, m) else search)))"

section \<open>The virtual machine\<close>

text \<open>
  What the machine is given: the key functions of go-diadem (the storage prefix of a contract, the key
  of its code, the joining of a prefix and a key), hashing, the protobuf forms of code, requests and
  responses, the loader, the registry of the chain state, and the EVM. The EVM keeps balances in the
  storage of the ethcoin contract when there is a balance manager: it is given the address of that
  contract, if any.
\<close>

record ('s, 'q, 'p) vm_env =
  ve_prefix :: "bytes \<Rightarrow> bytes \<Rightarrow> bytes"
  ve_data_prefix :: "address \<Rightarrow> bytes"
  ve_text_key :: "address \<Rightarrow> bytes"
  ve_addr_bytes :: "address \<Rightarrow> bytes"
  ve_sha3 :: "bytes \<Rightarrow> bytes"
  ve_dec_code :: "slice \<Rightarrow> (string \<times> bytes) res"
  ve_enc_code :: "string \<Rightarrow> bytes"
  ve_dec_req :: "bytes \<Rightarrow> 'q res"
  ve_enc_res :: "'p \<Rightarrow> bytes res"
  ve_load :: "string \<Rightarrow> int \<Rightarrow> ('q, 'p) contract res"
  ve_registry :: "'s registry_ops"
  ve_feature :: "'s \<Rightarrow> string \<Rightarrow> bool \<Rightarrow> bool"
  ve_newABMFactory :: bool
  ve_evm_call :: "address option \<Rightarrow> address \<Rightarrow> address \<Rightarrow> bytes \<Rightarrow> int \<Rightarrow> 's \<Rightarrow> bytes res \<times> 's"
  ve_evm_static :: "address option \<Rightarrow> address \<Rightarrow> address \<Rightarrow> bytes \<Rightarrow> 's \<Rightarrow> bytes res"
  ve_height :: int

definition createABM :: "('s, 'q, 'p) vm_env \<Rightarrow> 's \<Rightarrow> address option res" where
  "createABM V s =
     (if ve_newABMFactory V
      then bind_res (reg_Resolve (ve_registry V) s ''ethcoin'') (\<lambda>ethCoinAddr. Inr (Some ethCoinAddr))
      else Inr None)"

definition PluginVM_CallEVM ::
    "('s, 'q, 'p) vm_env \<Rightarrow> address \<Rightarrow> address \<Rightarrow> bytes \<Rightarrow> int \<Rightarrow> 's \<Rightarrow> bytes res \<times> 's" where
  "PluginVM_CallEVM V caller addr input val s =
     (case createABM V s of
        Inl e \<Rightarrow> (Inl e, s)
      | Inr abm \<Rightarrow> ve_evm_call V abm caller addr input val s)"

definition PluginVM_StaticCallEVM ::
    "('s, 'q, 'p) vm_env \<Rightarrow> address \<Rightarrow> address \<Rightarrow> bytes \<Rightarrow> 's \<Rightarrow> bytes res" where
  "PluginVM_StaticCallEVM V caller addr input s =
     bind_res (createABM V s) (\<lambda>abm. ve_evm_static V abm caller addr input s)"

type_synonym 's vm_state = "'s \<times> event list"
type_synonym 's vm_call = "address \<Rightarrow> address \<Rightarrow> bytes \<Rightarrow> 's vm_state \<Rightarrow> bytes res \<times> 's vm_state"

text \<open>
  The context of a contract: its storage is the chain state under its prefix, the calls it makes have
  the contract itself as the caller, and it emits events under its address unless it is read-only.
  \<open>call\<close> and \<open>static\<close> are the entry points of the machine.
\<close>

record contractContext =
  cc_caller :: address
  cc_address :: address
  cc_readOnly :: bool
  cc_pluginName :: string

primrec run_action ::
    "('s, 'q, 'p) vm_env \<Rightarrow> 's kv_ops \<Rightarrow> 's vm_call \<Rightarrow> 's vm_call \<Rightarrow> contractContext \<Rightarrow> 'a action
       \<Rightarrow> 's vm_state \<Rightarrow> 'a res \<times> 's vm_state" where
  "run_action V K call static c (Done r) w = (r, w)"
| "run_action V K call static c (GetKey k f) w =
     run_action V K call static c (f (op_get (PrefixKVStore (ve_prefix V) (ve_data_prefix V (cc_address c)) K) (fst w) k)) w"
| "run_action V K call static c (HasKey k f) w =
     run_action V K call static c (f (op_has (PrefixKVStore (ve_prefix V) (ve_data_prefix V (cc_address c)) K) (fst w) k)) w"
| "run_action V K call static c (RangeKeys k f) w =
     run_action V K call static c (f (op_range (PrefixKVStore (ve_prefix V) (ve_data_prefix V (cc_address c)) K) (fst w) k)) w"
| "run_action V K call static c (SetKey k v p) w =
     run_action V K call static c p
       (op_set (PrefixKVStore (ve_prefix V) (ve_data_prefix V (cc_address c)) K) (fst w) k v, snd w)"
| "run_action V K call static c (DeleteKey k p) w =
     run_action V K call static c p
       (op_delete (PrefixKVStore (ve_prefix V) (ve_data_prefix V (cc_address c)) K) (fst w) k, snd w)"
| "run_action V K call static c (CallContract a i f) w =
     (case call (cc_address c) a i w of
        (Inl (Panic msg), w) \<Rightarrow> (Inl (Panic msg), w)
      | (r, w) \<Rightarrow> run_action V K call static c (f r) w)"
| "run_action V K call static c (StaticCallContract a i f) w =
     (case static (cc_address c) a i w of
        (Inl (Panic msg), w) \<Rightarrow> (Inl (Panic msg), w)
      | (r, w) \<Rightarrow> run_action V K call static c (f r) w)"
| "run_action V K call static c (CallEvm a i v f) w =
     (case PluginVM_CallEVM V (cc_address c) a i v (fst w) of
        (Inl (Panic msg), s) \<Rightarrow> (Inl (Panic msg), (s, snd w))
      | (r, s) \<Rightarrow> run_action V K call static c (f r) (s, snd w))"
| "run_action V K call static c (StaticCallEvm a i f) w =
     (case PluginVM_StaticCallEVM V (cc_address c) a i (fst w) of
        Inl (Panic msg) \<Rightarrow> (Inl (Panic msg), w)
      | r \<Rightarrow> run_action V K call static c (f r) w)"
| "run_action V K call static c (ResolveName n f) w =
     run_action V K call static c (f (reg_Resolve (ve_registry V) (fst w) n)) w"
| "run_action V K call static c (ContractRecordOf a f) w =
     run_action V K call static c (f (reg_GetRecord (ve_registry V) (fst w) a)) w"
| "run_action V K call static c (EmitTopics body topics p) w =
     run_action V K call static c p
       (if cc_readOnly c then w
        else (fst w, snd w @ [\<lparr>ev_topics = topics, ev_caller = cc_caller c, ev_address = cc_address c,
                ev_plugin = cc_pluginName c, ev_body = body\<rparr>]))"

definition CreateContractContext :: "address \<Rightarrow> address \<Rightarrow> bool \<Rightarrow> string \<Rightarrow> contractContext" where
  "CreateContractContext caller addr readOnly name =
     \<lparr>cc_caller = caller, cc_address = addr, cc_readOnly = readOnly, cc_pluginName = name\<rparr>"

definition message_of :: "('s, 'q, 'p) vm_env \<Rightarrow> contractContext \<Rightarrow> 's vm_state \<Rightarrow> message" where
  "message_of V c w =
     \<lparr>me_sender = cc_caller c, me_contract = cc_address c, me_height = ve_height V, me_feature = ve_feature V (fst w)\<rparr>"

text \<open>
  \<open>run\<close> with an empty input initialises the contract with the input of its code and gives the code to
  be stored; otherwise it calls it.
\<close>

definition vm_run ::
    "('s, 'q, 'p) vm_env \<Rightarrow> 's kv_ops \<Rightarrow> 's vm_call \<Rightarrow> 's vm_call \<Rightarrow> address \<Rightarrow> address \<Rightarrow> slice \<Rightarrow> bytes \<Rightarrow> bool
       \<Rightarrow> 's vm_state \<Rightarrow> bytes res \<times> 's vm_state" where
  "vm_run V K call static caller addr code input readOnly w =
     (case bind_res (ve_dec_code V code) (\<lambda>(name, codeInput).
           bind_res (ve_load V name (ve_height V)) (\<lambda>cn.
           bind_res (ve_dec_req V (if input = [] then codeInput else input)) (\<lambda>req. Inr (name, cn, req)))) of
        Inl e \<Rightarrow> (Inl e, w)
      | Inr (name, cn, req) \<Rightarrow>
          let c = CreateContractContext caller addr readOnly name;
              m = message_of V c w
          in
          if input = [] then
            (case run_action V K call static c (cn_Init cn m req) w of
               (Inl e, w) \<Rightarrow> (Inl e, w)
             | (Inr _, w) \<Rightarrow> (Inr (ve_enc_code V name), w))
          else
            (case run_action V K call static c (if readOnly then cn_StaticCall cn m req else cn_Call cn m req) w of
               (Inl e, w) \<Rightarrow> (Inl e, w)
             | (Inr res, w) \<Rightarrow> (ve_enc_res V res, w)))"

primrec vm_enter :: "nat \<Rightarrow> ('s, 'q, 'p) vm_env \<Rightarrow> 's kv_ops \<Rightarrow> bool \<Rightarrow> 's vm_call" where
  "vm_enter 0 V K readOnly caller addr input w = (Inl (Panic ''stack overflow''), w)"
| "vm_enter (Suc n) V K readOnly caller addr input w =
     (if input = [] then (Inl (Err ''input is empty''), w)
      else vm_run V K (vm_enter n V K False) (vm_enter n V K True) caller addr
        (op_get K (fst w) (ve_text_key V addr)) input readOnly w)"

text \<open>The machine's \<open>Call\<close> and \<open>StaticCall\<close>, to a given depth.\<close>

definition PluginVM_Call :: "nat \<Rightarrow> ('s, 'q, 'p) vm_env \<Rightarrow> 's kv_ops \<Rightarrow> 's vm_call" where
  "PluginVM_Call n V K = vm_enter n V K False"

definition PluginVM_StaticCall :: "nat \<Rightarrow> ('s, 'q, 'p) vm_env \<Rightarrow> 's kv_ops \<Rightarrow> 's vm_call" where
  "PluginVM_StaticCall n V K = vm_enter n V K True"

definition CreateAddress :: "('s, 'q, 'p) vm_env \<Rightarrow> address \<Rightarrow> u64 \<Rightarrow> address" where
  "CreateAddress V parent nonce =
     Address (ChainID parent) (drop 12 (ve_sha3 V (ve_prefix V (ve_addr_bytes V parent) (be_encode64 nonce))))"

definition PluginVM_Create ::
    "nat \<Rightarrow> ('s, 'q, 'p) vm_env \<Rightarrow> 's kv_ops \<Rightarrow> nonce_params \<Rightarrow> address \<Rightarrow> bytes \<Rightarrow> 's vm_state
       \<Rightarrow> (bytes \<times> address) res \<times> 's vm_state" where
  "PluginVM_Create n V K np caller code w =
     (case Nonce K np (fst w) caller of
        Inl e \<Rightarrow> (Inl e, w)
      | Inr nonce \<Rightarrow>
          let contractAddr = CreateAddress V caller nonce in
          (case vm_run V K (vm_enter n V K False) (vm_enter n V K True) caller contractAddr (Some code) [] False w of
             (Inl e, w) \<Rightarrow> (Inl e, w)
           | (Inr ret, w) \<Rightarrow> (Inr (ret, contractAddr), (op_set K (fst w) (ve_text_key V contractAddr) (Some ret), snd w))))"

section \<open>Handlers of transactions\<close>

record DeployTx =
  dt_VmType :: vm_type
  dt_Code :: bytes
  dt_Value :: "int option"
  dt_Name :: string

record CallTx =
  cl_VmType :: vm_type
  cl_Input :: bytes
  cl_Value :: "int option"

text \<open>A virtual machine over the chain state, and the manager's machines by type.\<close>

record 'w vm_ops =
  vo_Create :: "address \<Rightarrow> bytes \<Rightarrow> int \<Rightarrow> 'w \<Rightarrow> (bytes \<times> address) res \<times> 'w"
  vo_Call :: "address \<Rightarrow> address \<Rightarrow> bytes \<Rightarrow> int \<Rightarrow> 'w \<Rightarrow> bytes res \<times> 'w"

type_synonym 'w vm_manager = "vm_type \<rightharpoonup> ('w \<Rightarrow> 'w vm_ops res)"

definition InitVM :: "'w vm_manager \<Rightarrow> vm_type \<Rightarrow> 'w \<Rightarrow> 'w vm_ops res" where
  "InitVM vms typ w = (case vms typ of None \<Rightarrow> Inl (Err ''vm type not found'') | Some fac \<Rightarrow> fac w)"

definition tx_value :: "int option \<Rightarrow> int" where
  "tx_value v = (case v of None \<Rightarrow> 0 | Some x \<Rightarrow> x)"

record TxHandlerResult =
  thr_Data :: bytes
  thr_Info :: string

text \<open>The sender of a message has to be the origin of the transaction.\<close>

definition checked_caller :: "req_ctx \<Rightarrow> MessageTx \<Rightarrow> address res" where
  "checked_caller rc msg =
     (case rc_origin rc of
        None \<Rightarrow> Inl (Panic ''interface conversion'')
      | Some origin \<Rightarrow>
          bind_res (deref (msg_from msg)) (\<lambda>caller.
          if caller \<noteq> origin then Inl (Err ''Origin doesn't match caller'') else Inr caller))"

text \<open>
  \<open>enc_response\<close> is the protobuf form of the response to a deployment. The result of registering the
  contract's name is dropped.
\<close>

definition DeployTxHandler_ProcessTx ::
    "tx_codec \<Rightarrow> (bytes \<Rightarrow> DeployTx res) \<Rightarrow> (address \<Rightarrow> bytes \<Rightarrow> bytes res) \<Rightarrow> 'w vm_manager \<Rightarrow> 'w registry_ops
       \<Rightarrow> ('w, TxHandlerResult) tx_handler" where
  "DeployTxHandler_ProcessTx C dec_deploy enc_response vms R rc w txBytes chk =
     (case bind_res (dec_msg C txBytes) (\<lambda>msg.
           bind_res (checked_caller rc msg) (\<lambda>caller.
           bind_res (dec_deploy (msg_data msg)) (\<lambda>tx.
           bind_res (InitVM vms (dt_VmType tx) w) (\<lambda>vm. Inr (caller, tx, vm))))) of
        Inl e \<Rightarrow> (Inl e, w)
      | Inr (caller, tx, vm) \<Rightarrow>
          (case vo_Create vm caller (dt_Code tx) (tx_value (dt_Value tx)) w of
             (Inl e, w) \<Rightarrow> (Inl e, w)
           | (Inr (retCreate, addr), w) \<Rightarrow>
               (case enc_response addr retCreate of
                  Inl e \<Rightarrow> (Inl e, w)
                | Inr response \<Rightarrow>
                    (Inr \<lparr>thr_Data = response, thr_Info = (if dt_VmType tx = VM_EVM then ''deploy.evm'' else ''deploy'')\<rparr>,
                     snd (reg_Register R w (dt_Name tx) addr caller)))))"

definition CallTxHandler_ProcessTx ::
    "tx_codec \<Rightarrow> (bytes \<Rightarrow> CallTx res) \<Rightarrow> 'w vm_manager \<Rightarrow> ('w, TxHandlerResult) tx_handler" where
  "CallTxHandler_ProcessTx C dec_call vms rc w txBytes chk =
     (case bind_res (dec_msg C txBytes) (\<lambda>msg.
           bind_res (case rc_origin rc of None \<Rightarrow> Inl (Panic ''interface conversion'') | Some a \<Rightarrow> Inr a) (\<lambda>_.
           bind_res (deref (msg_from msg)) (\<lambda>_.
           bind_res (deref (msg_to msg)) (\<lambda>addr.
           bind_res (checked_caller rc msg) (\<lambda>caller.
           bind_res (dec_call (msg_data msg)) (\<lambda>tx.
           bind_res (InitVM vms (cl_VmType tx) w) (\<lambda>vm. Inr (caller, addr, tx, vm)))))))) of
        Inl e \<Rightarrow> (Inl e, w)
      | Inr (caller, addr, tx, vm) \<Rightarrow>
          (case vo_Call vm caller addr (cl_Input tx) (tx_value (cl_Value tx)) w of
             (Inl e, w) \<Rightarrow> (Inl e, w)
           | (Inr data, w) \<Rightarrow>
               (Inr \<lparr>thr_Data = data, thr_Info = (if cl_VmType tx = VM_EVM then ''call.evm'' else ''call'')\<rparr>, w)))"

text \<open>The plugin machine as one of them, to a given depth of calls.\<close>

definition plugin_vm_ops :: "nat \<Rightarrow> ('s, 'q, 'p) vm_env \<Rightarrow> 's kv_ops \<Rightarrow> nonce_params \<Rightarrow> 's vm_state vm_ops" where
  "plugin_vm_ops n V K np =
     \<lparr>vo_Create = (\<lambda>caller code _. PluginVM_Create n V K np caller code),
      vo_Call = (\<lambda>caller addr input _. PluginVM_Call n V K caller addr input)\<rparr>"

section \<open>Each contract owns its storage\<close>

definition data_key :: "('s, 'q, 'p) vm_env \<Rightarrow> address \<Rightarrow> bytes \<Rightarrow> bytes" where
  "data_key V a k = ve_prefix V (ve_data_prefix V a) k"

text \<open>The storage of a contract, as it sees it.\<close>

definition storage :: "('s, 'q, 'p) vm_env \<Rightarrow> 's kv_ops \<Rightarrow> address \<Rightarrow> 's vm_state \<Rightarrow> bytes \<Rightarrow> slice" where
  "storage V K a w = (\<lambda>k. op_get K (fst w) (data_key V a k))"

text \<open>
  What a contract has to guarantee for itself: run at its own address, by any caller on any request,
  its actions lead from good states to good states, provided the calls it makes do.
\<close>

definition keeps :: "('s vm_state \<Rightarrow> bool) \<Rightarrow> ('s, 'q, 'p) vm_env \<Rightarrow> 's kv_ops \<Rightarrow> address \<Rightarrow> ('q, 'p) contract \<Rightarrow> bool" where
  "keeps good V K b cn \<longleftrightarrow>
     (\<forall>call static c m req w. cc_address c = b \<longrightarrow>
        (\<forall>x a i w. good w \<longrightarrow> good (snd (call x a i w))) \<longrightarrow> (\<forall>x a i w. good w \<longrightarrow> good (snd (static x a i w))) \<longrightarrow> good w \<longrightarrow>
        good (snd (run_action V K call static c (cn_Call cn m req) w)) \<and>
        good (snd (run_action V K call static c (cn_StaticCall cn m req) w)))"

lemma keepsD:
  assumes "keeps good V K b cn" and "cc_address c = b" and "good w"
    and "\<And>x a i w. good w \<Longrightarrow> good (snd (call x a i w))" and "\<And>x a i w. good w \<Longrightarrow> good (snd (static x a i w))"
  shows "good (snd (run_action V K call static c (if readOnly then cn_StaticCall cn m req else cn_Call cn m req) w))"
  using assms unfolding keeps_def by (cases readOnly) (simp_all del: split_paired_All)

text \<open>
  The key functions keep the storage of contracts, their code and the names of the registry apart.
  Of the storage of contracts the EVM writes only that of the contract its balance manager works on.
\<close>

locale contract_storage = kv_store K invar
  for K :: "'s kv_ops" and invar :: "'s \<Rightarrow> bool" +
  fixes V :: "('s, 'q, 'p) vm_env"
  assumes data_apart: "a \<noteq> b \<Longrightarrow> data_key V a x \<noteq> data_key V b y"
    and text_apart: "ve_text_key V a \<noteq> data_key V b y"
    and text_inj: "ve_text_key V a = ve_text_key V b \<Longrightarrow> a = b"
    and names_apart: "invar s \<Longrightarrow> reg_Resolve (ve_registry V) (op_set K s (data_key V a x) u) n = reg_Resolve (ve_registry V) s n"
      "invar s \<Longrightarrow> reg_Resolve (ve_registry V) (op_delete K s (data_key V a x)) n = reg_Resolve (ve_registry V) s n"
    and evm_invar: "invar s \<Longrightarrow> invar (snd (ve_evm_call V abm f a i v s))"
    and evm_data: "invar s \<Longrightarrow> abm \<noteq> Some b \<Longrightarrow>
      op_get K (snd (ve_evm_call V abm f a i v s)) (data_key V b y) = op_get K s (data_key V b y)"
    and evm_text: "invar s \<Longrightarrow> op_get K (snd (ve_evm_call V abm f a i v s)) (ve_text_key V b) = op_get K s (ve_text_key V b)"
    and evm_names: "invar s \<Longrightarrow> reg_Resolve (ve_registry V) (snd (ve_evm_call V abm f a i v s)) n = reg_Resolve (ve_registry V) s n"
begin

definition good :: "address \<Rightarrow> slice \<Rightarrow> ((bytes \<Rightarrow> slice) \<Rightarrow> bool) \<Rightarrow> 's vm_state \<Rightarrow> bool" where
  "good b code P w \<longleftrightarrow> invar (fst w) \<and> createABM V (fst w) \<noteq> Inr (Some b) \<and>
     op_get K (fst w) (ve_text_key V b) = code \<and> P (storage V K b w)"

lemma createABM_keeps:
  "invar s \<Longrightarrow> createABM V (op_set K s (data_key V a x) u) = createABM V s"
  "invar s \<Longrightarrow> createABM V (op_delete K s (data_key V a x)) = createABM V s"
  "invar s \<Longrightarrow> createABM V (snd (ve_evm_call V abm f a i n s)) = createABM V s"
  by (simp_all add: createABM_def names_apart evm_names)

lemma good_set:
  assumes "good b code P w" and "a \<noteq> b"
  shows "good b code P (op_set K (fst w) (data_key V a k) v, es)" "good b code P (op_delete K (fst w) (data_key V a k), es)"
  using assms data_apart [of b a] text_apart [of b a]
  by (auto simp: good_def storage_def inv_set inv_delete get_set get_delete createABM_keeps)

lemma good_evm:
  assumes "good b code P w"
  shows "good b code P (snd (PluginVM_CallEVM V x a i v (fst w)), es)"
proof (cases "createABM V (fst w)")
  case (Inl e)
  with assms show ?thesis by (simp add: PluginVM_CallEVM_def good_def storage_def)
next
  case (Inr abm)
  with assms have "abm \<noteq> Some b" "invar (fst w)" by (auto simp: good_def)
  with assms Inr show ?thesis
    by (simp add: PluginVM_CallEVM_def good_def storage_def evm_invar evm_data evm_text createABM_keeps)
qed

lemma evm_call_invar: "invar s \<Longrightarrow> invar (snd (PluginVM_CallEVM V f a i v s))"
  by (cases "createABM V s") (simp_all add: PluginVM_CallEVM_def evm_invar)

lemma good_events: "good b code P (s, es) \<longleftrightarrow> good b code P (s, es')"
  by (simp add: good_def storage_def)

lemma other_contract_good:
  assumes call: "\<And>x a i w. good b code P w \<Longrightarrow> good b code P (snd (call x a i w))"
    and static: "\<And>x a i w. good b code P w \<Longrightarrow> good b code P (snd (static x a i w))"
    and "cc_address c \<noteq> b" and "good b code P w"
  shows "good b code P (snd (run_action V K call static c p w))"
  using assms(4)
proof (induction p arbitrary: w)
  case (SetKey k v p)
  then show ?case using good_set(1) [OF SetKey.prems assms(3)] by (simp add: prefix_defs data_key_def)
next
  case (DeleteKey k p)
  then show ?case using good_set(2) [OF DeleteKey.prems assms(3)] by (simp add: prefix_defs data_key_def)
next
  case (CallContract a i f)
  then show ?case using call [OF CallContract.prems, of "cc_address c" a i]
    by (auto split: prod.split sum.split go_error.split)
next
  case (StaticCallContract a i f)
  then show ?case using static [OF StaticCallContract.prems, of "cc_address c" a i]
    by (auto split: prod.split sum.split go_error.split)
next
  case (CallEvm a i v f)
  then show ?case using good_evm [OF CallEvm.prems, of "cc_address c" a i v "snd w"]
    by (auto split: prod.split sum.split go_error.split)
next
  case (EmitTopics body topics p)
  then show ?case using good_events [of b code P "fst w" "snd w"] by simp
qed (auto split: sum.split go_error.split)

lemma run_action_invar:
  assumes call: "\<And>x a i w. invar (fst w) \<Longrightarrow> invar (fst (snd (call x a i w)))"
    and static: "\<And>x a i w. invar (fst w) \<Longrightarrow> invar (fst (snd (static x a i w)))"
    and "invar (fst w)"
  shows "invar (fst (snd (run_action V K call static c p w)))"
  using assms(3)
proof (induction p arbitrary: w)
  case (CallContract a i f)
  then show ?case using call [OF CallContract.prems, of "cc_address c" a i]
    by (auto split: prod.split sum.split go_error.split)
next
  case (StaticCallContract a i f)
  then show ?case using static [OF StaticCallContract.prems, of "cc_address c" a i]
    by (auto split: prod.split sum.split go_error.split)
next
  case (CallEvm a i v f)
  then show ?case using evm_call_invar [OF CallEvm.prems, of "cc_address c" a i v]
    by (auto split: prod.split sum.split go_error.split)
qed (auto simp: prefix_defs inv_set inv_delete split: sum.split go_error.split)

lemma vm_run_invar:
  assumes "\<And>x a i w. invar (fst w) \<Longrightarrow> invar (fst (snd (call x a i w)))"
    and "\<And>x a i w. invar (fst w) \<Longrightarrow> invar (fst (snd (static x a i w)))" and "invar (fst w)"
  shows "invar (fst (snd (vm_run V K call static caller addr code input readOnly w)))"
proof -
  have act: "invar (fst v)" if "run_action V K call static c p w = (r, v)" for c r v and p :: "'a action"
    using run_action_invar [where call = call and static = static and w = w and c = c and p = p, OF assms] that by simp
  have act': "invar (fst v)" if "run_action V K call static c p w = (r, v)" for c r v and p :: "unit action"
    using run_action_invar [where call = call and static = static and w = w and c = c and p = p, OF assms] that by simp
  show ?thesis
    unfolding vm_run_def Let_def using assms(3) by (auto split: sum.split prod.split dest: act act')
qed

lemma vm_enter_invar: "invar (fst w) \<Longrightarrow> invar (fst (snd (vm_enter n V K readOnly caller addr input w)))"
proof (induction n arbitrary: readOnly caller addr input w)
  case (Suc n)
  then show ?case by (auto intro!: vm_run_invar)
qed simp

text \<open>
  A contract that keeps a property of its storage when it runs keeps it whatever any other contract
  does: in every run of the machine, through any nesting of calls.
\<close>

lemma machine_keeps:
  assumes cn: "\<And>name input c. ve_dec_code V code = Inr (name, input) \<Longrightarrow> ve_load V name (ve_height V) = Inr c \<Longrightarrow>
      keeps (good b code P) V K b c"
    and "good b code P w"
  shows "good b code P (snd (vm_enter n V K readOnly caller addr input w))"
  using assms(2)
proof (induction n arbitrary: readOnly caller addr input w)
  case (Suc n)
  let ?call = "vm_enter n V K False" and ?static = "vm_enter n V K True"
  let ?load = "bind_res (ve_dec_code V (op_get K (fst w) (ve_text_key V addr))) (\<lambda>(name, codeInput).
           bind_res (ve_load V name (ve_height V)) (\<lambda>cn.
           bind_res (ve_dec_req V input) (\<lambda>req. Inr (name, cn, req))))"
  show ?case
  proof (cases "input = [] \<or> (\<exists>e. ?load = Inl e)")
    case True
    then show ?thesis using Suc.prems by (auto simp: vm_run_def)
  next
    case False
    then obtain x where x: "?load = Inr x" by (cases ?load) auto
    obtain name cn req where "x = (name, cn, req)" by (rule prod_cases3)
    with x have run: "?load = Inr (name, cn, req)" by simp
    have ne: "input \<noteq> []" using False by simp
    let ?c = "CreateContractContext caller addr readOnly name"
    let ?p = "if readOnly then cn_StaticCall cn (message_of V ?c w) req else cn_Call cn (message_of V ?c w) req"
    have "good b code P (snd (run_action V K ?call ?static ?c ?p w))"
    proof (cases "addr = b")
      case True
      have "op_get K (fst w) (ve_text_key V b) = code" using Suc.prems by (simp add: good_def)
      with run True obtain ci where "ve_dec_code V code = Inr (name, ci)" "ve_load V name (ve_height V) = Inr cn"
        by (auto elim!: bind_resE)
      then have "keeps (good b code P) V K b cn" by (rule cn)
      then show ?thesis
        by (rule keepsD) (simp_all add: Suc True CreateContractContext_def)
    next
      case False
      then show ?thesis using Suc by (intro other_contract_good) (simp_all add: CreateContractContext_def)
    qed
    then show ?thesis using run ne by (auto simp: vm_run_def Let_def split: prod.split sum.split)
  qed
qed simp

end

context contract_storage
begin

text \<open>Creating another contract runs its initialiser at its own address.\<close>

lemma create_keeps:
  assumes cn: "\<And>name input c. ve_dec_code V code = Inr (name, input) \<Longrightarrow> ve_load V name (ve_height V) = Inr c \<Longrightarrow>
      keeps (good b code P) V K b c"
    and w: "good b code P w" and other: "\<And>nonce. Nonce K np (fst w) caller = Inr nonce \<Longrightarrow> CreateAddress V caller nonce \<noteq> b"
  shows "let w' = snd (PluginVM_Create n V K np caller new w) in
    P (storage V K b w') \<and> op_get K (fst w') (ve_text_key V b) = code"
proof (cases "Nonce K np (fst w) caller")
  case (Inl e)
  with w show ?thesis by (simp add: PluginVM_Create_def good_def)
next
  case (Inr nonce)
  let ?a = "CreateAddress V caller nonce" and ?call = "vm_enter n V K False" and ?static = "vm_enter n V K True"
  have ab: "?a \<noteq> b" by (rule other [OF Inr])
  have run: "good b code P (snd (vm_run V K ?call ?static caller ?a (Some new) [] False w))"
  proof -
    have "good b code P (snd (run_action V K ?call ?static c p w))" if "cc_address c = ?a" for c and p :: "unit action"
      by (rule other_contract_good) (use machine_keeps [OF cn] that ab w in auto)
    then have act: "good b code P v" if "run_action V K ?call ?static c p w = (r, v)" "cc_address c = ?a"
      for c r v and p :: "unit action" using that by (metis snd_conv)
    show ?thesis
      unfolding vm_run_def Let_def using w
      by (auto split: sum.split prod.split dest!: act simp: CreateContractContext_def)
  qed
  obtain r v where rv: "vm_run V K ?call ?static caller ?a (Some new) [] False w = (r, v)" by (rule prod.exhaust)
  have v: "good b code P v" using run rv by simp
  have "ve_text_key V b \<noteq> ve_text_key V ?a" using text_inj [of b ?a] ab by blast
  then have "P (storage V K b (op_set K (fst v) (ve_text_key V ?a) x, es)) \<and>
      op_get K (op_set K (fst v) (ve_text_key V ?a) x) (ve_text_key V b) = code" for x es
    using v text_apart [of ?a b, symmetric] by (auto simp: good_def storage_def get_set)
  then show ?thesis
    using Inr rv v by (cases r) (auto simp: PluginVM_Create_def Let_def good_def)
qed

end

section \<open>Overrides of contracts\<close>

text \<open>With overrides listed by ascending height, the one in force is the latest that has started.\<close>

lemma findOverride_latest:
  assumes "sl_overrides m name = Some os" and "sorted (map snd os)" and "findOverride m name h = Some c"
  shows "\<exists>i<length os. fst (os ! i) = c \<and> snd (os ! i) \<le> h \<and> (\<forall>j<length os. snd (os ! j) \<le> h \<longrightarrow> snd (os ! j) \<le> snd (os ! i))"
proof -
  from assms(1,3) obtain x where x: "find (\<lambda>o'. snd o' \<le> h) (rev os) = Some x" "fst x = c"
    by (auto simp: findOverride_def)
  then obtain k where k: "k < length os" "rev os ! k = x" "snd x \<le> h" "\<And>j. j < k \<Longrightarrow> \<not> snd (rev os ! j) \<le> h"
    by (auto simp: find_Some_iff)
  let ?i = "length os - Suc k"
  have i: "?i < length os" "os ! ?i = x" using k(1,2) by (simp_all add: rev_nth)
  have "snd (os ! j) \<le> snd (os ! ?i)" if "j < length os" "snd (os ! j) \<le> h" for j
  proof (cases "j \<le> ?i")
    case True
    then show ?thesis using sorted_nth_mono [OF assms(2), of j ?i] i(1) that(1) by simp
  next
    case False
    then have "length os - Suc j < k" using that(1) by simp
    moreover have "rev os ! (length os - Suc j) = os ! j" using that(1) by (simp add: rev_nth)
    ultimately show ?thesis using k(4) [of "length os - Suc j"] that(2) by simp
  qed
  with i k(3) x(2) show ?thesis by (intro exI [of _ ?i]) simp
qed

section \<open>Handlers act for the origin\<close>

lemma checked_caller_eq: "checked_caller rc msg = Inr caller \<longleftrightarrow> rc_origin rc = Some caller \<and> msg_from msg = Some caller"
  by (auto simp: checked_caller_def bind_res_eq_Inr_iff split: option.split)

lemma CallTxHandler_result:
  assumes "CallTxHandler_ProcessTx C dec_call vms rc w tx chk = (Inr r, w')"
  obtains caller addr and ctx :: CallTx and vm where "rc_origin rc = Some caller" and "InitVM vms (cl_VmType ctx) w = Inr vm"
    and "vo_Call vm caller addr (cl_Input ctx) (tx_value (cl_Value ctx)) w = (Inr (thr_Data r), w')"
  using assms
  by (auto simp: CallTxHandler_ProcessTx_def checked_caller_eq elim!: bind_resE
    split: sum.split_asm prod.split_asm option.split_asm)

lemma DeployTxHandler_result:
  assumes "DeployTxHandler_ProcessTx C dec_deploy enc_response vms R rc w tx chk = (Inr r, w')"
  obtains caller and dtx :: DeployTx and vm ret addr v where "rc_origin rc = Some caller" and "InitVM vms (dt_VmType dtx) w = Inr vm"
    and "vo_Create vm caller (dt_Code dtx) (tx_value (dt_Value dtx)) w = (Inr (ret, addr), v)"
    and "w' = snd (reg_Register R v (dt_Name dtx) addr caller)" and "enc_response addr ret = Inr (thr_Data r)"
  using assms
  by (auto simp: DeployTxHandler_ProcessTx_def checked_caller_eq elim!: bind_resE
    split: sum.split_asm prod.split_asm)

section \<open>Properties\<close>

text \<open>The ways into the machine, apart from the creation of a contract at the address \<open>b\<close>.\<close>

inductive vm_entry ::
    "('s, 'q, 'p) vm_env \<Rightarrow> 's kv_ops \<Rightarrow> nonce_params \<Rightarrow> address \<Rightarrow> 's vm_state \<Rightarrow> 's vm_state \<Rightarrow> bool"
  for V :: "('s, 'q, 'p) vm_env" and K :: "'s kv_ops" and np :: nonce_params and b :: address and w :: "'s vm_state" where
  enters_call: "vm_entry V K np b w (snd (PluginVM_Call n V K caller addr input w))"
| enters_static: "vm_entry V K np b w (snd (PluginVM_StaticCall n V K caller addr input w))"
| enters_create: "(\<And>nonce. Nonce K np (fst w) caller = Inr nonce \<Longrightarrow> CreateAddress V caller nonce \<noteq> b) \<Longrightarrow>
    vm_entry V K np b w (snd (PluginVM_Create n V K np caller code w))"

text \<open>C33: A contract's storage is its own: let P be a property of the storage of the contract at
  address b, which is not the ethcoin contract that the EVM keeps its balances in, and let the contract
  keep P whenever it runs itself, provided the calls it makes keep it. Then every call and static call
  that enters the plugin machine, at any address, by any caller, through any nesting of calls between
  contracts and the EVM, succeeding or not, leaves P true and the contract's code as it was; and so
  does the creation of a contract at another address.\<close>

theorem contract_invariant_global:
  assumes "contract_storage K invar V" and "invar (fst w)" and "createABM V (fst w) \<noteq> Inr (Some b)"
    and "op_get K (fst w) (ve_text_key V b) = code" and "P (storage V K b w)"
    and "\<And>name input c. ve_dec_code V code = Inr (name, input) \<Longrightarrow> ve_load V name (ve_height V) = Inr c \<Longrightarrow>
      keeps (\<lambda>w. invar (fst w) \<and> createABM V (fst w) \<noteq> Inr (Some b) \<and>
        op_get K (fst w) (ve_text_key V b) = code \<and> P (storage V K b w)) V K b c"
    and "vm_entry V K np b w w'"
  shows "P (storage V K b w') \<and> op_get K (fst w') (ve_text_key V b) = code"
proof -
  have good: "(\<lambda>w. invar (fst w) \<and> createABM V (fst w) \<noteq> Inr (Some b) \<and>
        op_get K (fst w) (ve_text_key V b) = code \<and> P (storage V K b w)) =
      contract_storage.good K invar V b code P"
    by (simp add: contract_storage.good_def [OF assms(1)] fun_eq_iff)
  note cn = assms(6) [unfolded good]
  have w: "contract_storage.good K invar V b code P w"
    using assms(2-5) by (simp add: contract_storage.good_def [OF assms(1)])
  have enter: "contract_storage.good K invar V b code P (snd (vm_enter n V K readOnly caller addr input w))"
    for n readOnly caller addr input
    by (rule contract_storage.machine_keeps [OF assms(1) cn w])
  from assms(7) show ?thesis
  proof cases
    case (enters_call n caller addr input)
    then show ?thesis using enter [of n False] by (simp add: PluginVM_Call_def contract_storage.good_def [OF assms(1)])
  next
    case (enters_static n caller addr input)
    then show ?thesis using enter [of n True] by (simp add: PluginVM_StaticCall_def contract_storage.good_def [OF assms(1)])
  next
    case (enters_create caller n new)
    then show ?thesis
      using contract_storage.create_keeps [where np = np and n = n and new = new, OF assms(1) cn w enters_create(2)]
      by (simp add: Let_def)
  qed
qed

text \<open>
  A machine with two contracts: \<open>safe\<close> counts its calls under the key 5 and never touches the key 0,
  \<open>busy\<close> writes the key 0 of its own storage, calls the EVM and then calls \<open>safe\<close>. The EVM writes the
  key 0 of the ethcoin contract. Names are those of the second registry of the model.
\<close>

definition demo_safe_addr :: address where "demo_safe_addr = Address ''default'' [1]"
definition demo_busy_addr :: address where "demo_busy_addr = Address ''default'' [2]"
definition demo_ethcoin_addr :: address where "demo_ethcoin_addr = Address ''default'' [3]"

definition demo_safe :: "(bytes, bytes) contract" where
  "demo_safe =
     \<lparr>cn_Init = (\<lambda>_ _. Done (Inr ())),
      cn_Call = (\<lambda>_ _. GetKey [5] (\<lambda>v. SetKey [5] (Some (0 # (case v of None \<Rightarrow> [] | Some b \<Rightarrow> b))) (Done (Inr [1])))),
      cn_StaticCall = (\<lambda>_ _. Done (Inr []))\<rparr>"

definition demo_busy :: "(bytes, bytes) contract" where
  "demo_busy =
     \<lparr>cn_Init = (\<lambda>_ _. Done (Inr ())),
      cn_Call = (\<lambda>_ _. SetKey [0] (Some [9]) (CallEvm demo_busy_addr [1] 5 (\<lambda>_. CallContract demo_safe_addr [1] (\<lambda>r. Done r)))),
      cn_StaticCall = (\<lambda>_ _. Done (Inr []))\<rparr>"

definition demo_evm :: "address option \<Rightarrow> MemStore \<Rightarrow> MemStore" where
  "demo_evm abm s = (case abm of None \<Rightarrow> s | Some a \<Rightarrow> op_set demo_store_ops s ((1 # demo_enc_addr a) @ [0] @ [0]) (Some [8]))"

definition demo_env :: "(MemStore, bytes, bytes) vm_env" where
  "demo_env =
     \<lparr>ve_prefix = (\<lambda>p k. p @ [0] @ k), ve_data_prefix = (\<lambda>a. 1 # demo_enc_addr a), ve_text_key = (\<lambda>a. 2 # demo_enc_addr a),
      ve_addr_bytes = demo_enc_addr, ve_sha3 = id,
      ve_dec_code = (\<lambda>c. case c of None \<Rightarrow> Inl (Err ''unmarshal'') | Some b \<Rightarrow> Inr (bytes_str b, [])), ve_enc_code = go_bytes,
      ve_dec_req = Inr, ve_enc_res = Inr,
      ve_load = (\<lambda>n _. if n = ''safe'' then Inr demo_safe else if n = ''busy'' then Inr demo_busy else Inl ErrPluginNotFound),
      ve_registry = NewRegistryFactory demo_codec demo_store_ops RegistryV2, ve_feature = (\<lambda>_ _ d. d),
      ve_newABMFactory = True, ve_evm_call = (\<lambda>abm _ _ _ _ s. (Inr [], demo_evm abm s)),
      ve_evm_static = (\<lambda>_ _ _ _ _. Inr []), ve_height = 1\<rparr>"

lemma demo_data_key_eq: "data_key demo_env a x = data_key demo_env b y \<longleftrightarrow> a = b \<and> x = y"
proof -
  have "demo_enc_addr a @ 0 # x = demo_enc_addr b @ 0 # y \<longleftrightarrow> a = b \<and> x = y"
    by (metis demo_take_addr_enc option.inject prod.inject list.inject)
  then show ?thesis by (simp add: data_key_def demo_env_def)
qed

lemma demo_text_key_apart: "ve_text_key demo_env a \<noteq> data_key demo_env b y" "data_key demo_env b y \<noteq> ve_text_key demo_env a"
  by (simp_all add: data_key_def demo_env_def)

lemma demo_names_apart:
  "reg_Resolve (ve_registry demo_env) (op_set (MemStore_ops rng) s (data_key demo_env a x) v) n = reg_Resolve (ve_registry demo_env) s n"
  "reg_Resolve (ve_registry demo_env) (op_delete (MemStore_ops rng) s (data_key demo_env a x)) n = reg_Resolve (ve_registry demo_env) s n"
proof -
  have "contractAddrKey demo_codec n \<noteq> data_key demo_env a x"
    by (simp add: contractAddrKey_def demo_codec_def go_bytes_def data_key_def demo_env_def)
  then show "reg_Resolve (ve_registry demo_env) (op_set (MemStore_ops rng) s (data_key demo_env a x) v) n = reg_Resolve (ve_registry demo_env) s n"
    "reg_Resolve (ve_registry demo_env) (op_delete (MemStore_ops rng) s (data_key demo_env a x)) n = reg_Resolve (ve_registry demo_env) s n"
    by (simp_all add: demo_env_def NewRegistryFactory_def V2_Resolve_def MemStore_ops_def MemStore_Get_def MemStore_Set_def MemStore_Delete_def)
qed

lemma demo_evm_eq:
  "snd (ve_evm_call demo_env abm f a i v s) =
     (case abm of None \<Rightarrow> s | Some e \<Rightarrow> op_set (MemStore_ops rng) s (data_key demo_env e [0]) (Some [8]))"
  by (simp add: demo_env_def demo_evm_def data_key_def MemStore_ops_def split: option.split)

interpretation demo_storage: contract_storage "MemStore_ops rng" "\<lambda>_. True" demo_env for rng
proof unfold_locales
  show "data_key demo_env a x \<noteq> data_key demo_env b y" if "a \<noteq> b" for a b x y
    using that by (simp add: demo_data_key_eq)
  show "ve_text_key demo_env a \<noteq> data_key demo_env b y" for a b y by (rule demo_text_key_apart)
  show "a = b" if "ve_text_key demo_env a = ve_text_key demo_env b" for a b
    using that by (simp add: demo_env_def demo_enc_addr_inj)
  note get = mem.get_set [where rng = rng, OF TrueI]
  show "op_get (MemStore_ops rng) (snd (ve_evm_call demo_env abm f a i v s)) (data_key demo_env b y) =
      op_get (MemStore_ops rng) s (data_key demo_env b y)" if "abm \<noteq> Some b" for abm b f a i v s y
    using that by (auto simp: demo_evm_eq [where rng = rng] get demo_data_key_eq split: option.split)
  show "op_get (MemStore_ops rng) (snd (ve_evm_call demo_env abm f a i v s)) (ve_text_key demo_env b) =
      op_get (MemStore_ops rng) s (ve_text_key demo_env b)" for abm b f a i v s
    by (auto simp: demo_evm_eq [where rng = rng] get demo_text_key_apart split: option.split)
  show "reg_Resolve (ve_registry demo_env) (snd (ve_evm_call demo_env abm f a i v s)) n =
      reg_Resolve (ve_registry demo_env) s n" for abm f a i v s n
    by (auto simp: demo_evm_eq [where rng = rng] demo_names_apart split: option.split)
qed (simp_all add: demo_names_apart)

definition demo_world :: "MemStore vm_state" where
  "demo_world = (Map.empty(ve_text_key demo_env demo_safe_addr \<mapsto> Some (go_bytes ''safe''),
     ve_text_key demo_env demo_busy_addr \<mapsto> Some (go_bytes ''busy''), data_key demo_env demo_safe_addr [0] \<mapsto> Some [7],
     contractAddrKey demo_codec ''ethcoin'' \<mapsto> Some (demo_enc_addr demo_ethcoin_addr)), [])"

lemma demo_keeps:
  "keeps (\<lambda>w. createABM demo_env (fst w) \<noteq> Inr (Some demo_safe_addr) \<and>
     op_get demo_store_ops (fst w) (ve_text_key demo_env demo_safe_addr) = code \<and>
     storage demo_env demo_store_ops demo_safe_addr w [0] = Some [7]) demo_env demo_store_ops demo_safe_addr demo_safe"
proof -
  have set: "op_get demo_store_ops (op_set demo_store_ops s k v) k' = (if k' = k then v else op_get demo_store_ops s k')" for s k v k'
    by (rule mem.get_set) simp
  show ?thesis
    by (simp add: keeps_def demo_safe_def prefix_defs data_key_def [symmetric] storage_def set demo_data_key_eq
        demo_text_key_apart createABM_def demo_names_apart)
qed

definition demo_nonce :: nonce_params where
  "demo_nonce = \<lparr>nonceKey = (\<lambda>a. 3 # demo_enc_addr a), addr_string = ChainID, addr_is_empty = (\<lambda>_. False),
     nonce_unmarshal = (\<lambda>_. Inl (Err ''unmarshal''))\<rparr>"

theorem contract_invariant_global_witness:
  "storage demo_env demo_store_ops demo_safe_addr
     (snd (PluginVM_Call 3 demo_env demo_store_ops demo_busy_addr demo_busy_addr [4] demo_world)) [0] = Some [7]"
proof -
  let ?w' = "snd (PluginVM_Call 3 demo_env demo_store_ops demo_busy_addr demo_busy_addr [4] demo_world)"
  have keys: "contractAddrKey demo_codec n \<noteq> data_key demo_env a x" "contractAddrKey demo_codec n \<noteq> ve_text_key demo_env a" for n a x
    by (simp_all add: contractAddrKey_def demo_codec_def go_bytes_def data_key_def demo_env_def)
  have code: "op_get demo_store_ops (fst demo_world) (ve_text_key demo_env demo_safe_addr) = Some (go_bytes ''safe'')"
    and val: "storage demo_env demo_store_ops demo_safe_addr demo_world [0] = Some [7]"
    using keys [symmetric]
    by (simp_all add: demo_world_def storage_def MemStore_ops_def MemStore_Get_def demo_text_key_apart)
      (simp add: demo_env_def demo_enc_addr_inj demo_safe_addr_def demo_busy_addr_def)
  have abm: "createABM demo_env (fst demo_world) \<noteq> Inr (Some demo_safe_addr)"
  proof -
    have "V2_Resolve demo_codec demo_store_ops (fst demo_world) ''ethcoin'' = Inr demo_ethcoin_addr"
      using demo_take_addr_enc [of demo_ethcoin_addr "[]"]
      by (simp add: V2_Resolve_def demo_world_def MemStore_ops_def MemStore_Get_def slice_len_def demo_enc_addr_def Let_def)
        (simp add: demo_codec_def demo_enc_addr_def)
    then show ?thesis by (simp add: createABM_def demo_env_def NewRegistryFactory_def demo_ethcoin_addr_def demo_safe_addr_def)
  qed
  have "storage demo_env demo_store_ops demo_safe_addr ?w' [0] = Some [7] \<and>
      op_get demo_store_ops (fst ?w') (ve_text_key demo_env demo_safe_addr) = Some (go_bytes ''safe'')"
  proof (rule contract_invariant_global [OF demo_storage.contract_storage_axioms _ abm code, where P = "\<lambda>st. st [0] = Some [7]"])
    show "storage demo_env demo_store_ops demo_safe_addr demo_world [0] = Some [7]" by (rule val)
    show "keeps (\<lambda>w. True \<and> createABM demo_env (fst w) \<noteq> Inr (Some demo_safe_addr) \<and>
        op_get demo_store_ops (fst w) (ve_text_key demo_env demo_safe_addr) = Some (go_bytes ''safe'') \<and>
        storage demo_env demo_store_ops demo_safe_addr w [0] = Some [7]) demo_env demo_store_ops demo_safe_addr c"
      if "ve_dec_code demo_env (Some (go_bytes ''safe'')) = Inr (name, input)" "ve_load demo_env name (ve_height demo_env) = Inr c" for name input c
      using that demo_keeps [of "Some (go_bytes ''safe'')"] by (auto simp: demo_env_def)
    show "vm_entry demo_env demo_store_ops demo_nonce demo_safe_addr demo_world ?w'" by (rule enters_call)
  qed simp
  then show ?thesis by blast
qed

text \<open>The virtual machines act only for whoever signed: behind the signature middleware, a deployment
  or a call that is answered without an error carried a valid signature, and the machine ran it with the
  address of the signing key as the caller; a message that names another sender is turned away.\<close>

theorem vm_acts_for_signer:
  "(MiddlewareTxHandler [SignatureTxMiddleware unmarshal verify local_of_key] (CallTxHandler_ProcessTx C dec_call vms) [] rc w tx chk = (Inr r, w') \<longrightarrow>
     (\<exists>stx addr ctx vm. unmarshal tx = Inr stx \<and> verify (stx_public_key stx) (stx_inner stx) (stx_signature stx) \<and>
        InitVM vms (cl_VmType ctx) w = Inr vm \<and>
        vo_Call vm (Address (rc_chain_id rc) (local_of_key (stx_public_key stx))) addr (cl_Input (ctx :: CallTx)) (tx_value (cl_Value ctx)) w =
          (Inr (thr_Data r), w'))) \<and>
   (MiddlewareTxHandler [SignatureTxMiddleware unmarshal verify local_of_key] (DeployTxHandler_ProcessTx C dec_deploy enc_response vms R) [] rc w tx chk = (Inr r, w') \<longrightarrow>
     (\<exists>stx addr dtx vm ret v. unmarshal tx = Inr stx \<and> verify (stx_public_key stx) (stx_inner stx) (stx_signature stx) \<and>
        InitVM vms (dt_VmType dtx) w = Inr vm \<and>
        vo_Create vm (Address (rc_chain_id rc) (local_of_key (stx_public_key stx))) (dt_Code (dtx :: DeployTx)) (tx_value (dt_Value dtx)) w =
          (Inr (ret, addr), v) \<and>
        w' = snd (reg_Register R v (dt_Name dtx) addr (Address (rc_chain_id rc) (local_of_key (stx_public_key stx))))))"
proof -
  have sig: "\<exists>stx. unmarshal tx = Inr stx \<and> verify (stx_public_key stx) (stx_inner stx) (stx_signature stx) \<and>
      h (rc\<lparr>rc_origin := Some (Address (rc_chain_id rc) (local_of_key (stx_public_key stx)))\<rparr>) w (stx_inner stx) chk = (Inr r, w')"
    if "MiddlewareTxHandler [SignatureTxMiddleware unmarshal verify local_of_key] h [] rc w tx chk = (Inr r, w')" for h
    using that by (auto simp: SignatureTxMiddleware_def GetOrigin_def innermost_def split: sum.split_asm if_split_asm prod.split_asm)
  show ?thesis
    by (intro conjI impI; drule sig; elim exE conjE; erule CallTxHandler_result DeployTxHandler_result; force)
qed

definition demo_vm :: "nat vm_ops" where
  "demo_vm = \<lparr>vo_Create = (\<lambda>_ _ _ w. (Inr ([], Address ''default'' [8]), w)), vo_Call = (\<lambda>_ _ _ _ w. (Inr [3], Suc w))\<rparr>"

theorem vm_acts_for_signer_witness:
  "\<exists>stx addr ctx vm. InitVM (\<lambda>_. Some (\<lambda>_. Inr demo_vm)) (cl_VmType ctx) 0 = Inr vm \<and>
     vo_Call vm (Address ''default'' (take 20 (stx_public_key (stx :: SignedTx)))) addr (cl_Input (ctx :: CallTx)) (tx_value (cl_Value ctx)) 0 = (Inr [3], 1)"
proof -
  let ?stx = "\<lparr>stx_inner = [4], stx_signature = replicate 64 0, stx_public_key = replicate 32 6\<rparr>"
  let ?msg = "\<lparr>msg_to = Some (Address ''default'' [5]), msg_from = Some (Address ''default'' (replicate 20 6)), msg_data = [4]\<rparr>"
  let ?C = "dw_demo_codec\<lparr>dec_msg := \<lambda>_. Inr ?msg\<rparr>"
  let ?h = "CallTxHandler_ProcessTx ?C (\<lambda>b. Inr \<lparr>cl_VmType = VM_PLUGIN, cl_Input = b, cl_Value = None\<rparr>) (\<lambda>_. Some (\<lambda>_. Inr demo_vm))"
  have "MiddlewareTxHandler [SignatureTxMiddleware (\<lambda>_. Inr ?stx) (\<lambda>_ _ _. True) (take 20)] ?h []
      \<lparr>rc_origin = None, rc_chain_id = ''default'', rc_height = 1\<rparr> 0 [1] False = (Inr \<lparr>thr_Data = [3], thr_Info = ''call''\<rparr>, 1)"
    by (simp add: SignatureTxMiddleware_def GetOrigin_def innermost_def CallTxHandler_ProcessTx_def checked_caller_def InitVM_def demo_vm_def)
  from vm_acts_for_signer [THEN conjunct1, THEN mp, OF this] show ?thesis by (simp only: req_ctx.simps TxHandlerResult.simps) blast
qed

text \<open>A contract that was created answers: after a successful Create of code naming a contract that
  the loader knows, the contract has been initialised, its code is stored at the address derived from the
  creator and his nonce, and a call of that address runs that contract at that address for its caller.\<close>

theorem created_contract_runs:
  assumes "contract_storage K invar V" and "invar (fst w)" and "\<And>n. ve_dec_code V (Some (ve_enc_code V n)) = Inr (n, [])"
    and "PluginVM_Create n V K np creator code w = (Inr (ret, addr), w')"
    and "input \<noteq> []" and "ve_dec_req V input = Inr req"
  shows "\<exists>name ci cn nonce. ve_dec_code V (Some code) = Inr (name, ci) \<and> ve_load V name (ve_height V) = Inr cn \<and>
    Nonce K np (fst w) creator = Inr nonce \<and> addr = CreateAddress V creator nonce \<and>
    PluginVM_Call (Suc m) V K caller addr input w' =
      (let c = CreateContractContext caller addr False name in
       case run_action V K (vm_enter m V K False) (vm_enter m V K True) c (cn_Call cn (message_of V c w') req) w' of
         (Inl e, v) \<Rightarrow> (Inl e, v)
       | (Inr res, v) \<Rightarrow> (ve_enc_res V res, v))"
proof -
  let ?run = "vm_run V K (vm_enter n V K False) (vm_enter n V K True)"
  from assms(4) obtain nonce v where nonce: "Nonce K np (fst w) creator = Inr nonce" "addr = CreateAddress V creator nonce"
    and run: "?run creator addr (Some code) [] False w = (Inr ret, v)"
    and w': "w' = (op_set K (fst v) (ve_text_key V addr) (Some ret), snd v)"
    unfolding PluginVM_Create_def Let_def by (auto split: sum.split_asm prod.split_asm)
  from run obtain name ci cn where load: "ve_dec_code V (Some code) = Inr (name, ci)" "ve_load V name (ve_height V) = Inr cn"
    and ret: "ret = ve_enc_code V name"
    unfolding vm_run_def Let_def by (auto elim!: bind_resE split: sum.split_asm prod.split_asm)
  have "invar (fst (snd (?run creator addr (Some code) [] False w)))"
    by (rule contract_storage.vm_run_invar [OF assms(1)])
      (auto intro: contract_storage.vm_enter_invar [OF assms(1)] assms(2))
  then have v: "invar (fst v)" by (simp add: run)
  have "op_get K (fst w') (ve_text_key V addr) = Some (ve_enc_code V name)"
    using kv_store.get_set [OF contract_storage.axioms(1) [OF assms(1)] v] by (simp add: w' ret)
  then have "PluginVM_Call (Suc m) V K caller addr input w' =
      (let c = CreateContractContext caller addr False name in
       case run_action V K (vm_enter m V K False) (vm_enter m V K True) c (cn_Call cn (message_of V c w') req) w' of
         (Inl e, v) \<Rightarrow> (Inl e, v)
       | (Inr res, v) \<Rightarrow> (ve_enc_res V res, v))"
    using load assms(3,5,6) by (simp add: PluginVM_Call_def vm_run_def Let_def)
  then show ?thesis using load nonce by blast
qed

theorem created_contract_runs_witness:
  "\<exists>ret addr w' v. PluginVM_Create 2 demo_env demo_store_ops demo_nonce demo_busy_addr (go_bytes ''safe'') (Map.empty, []) = (Inr (ret, addr), w') \<and>
     PluginVM_Call 3 demo_env demo_store_ops demo_busy_addr addr [4] w' = (Inr [1], v)"
proof -
  let ?w = "(Map.empty, []) :: MemStore vm_state"
  obtain ret addr w' where create: "PluginVM_Create 2 demo_env demo_store_ops demo_nonce demo_busy_addr (go_bytes ''safe'') ?w = (Inr (ret, addr), w')"
    by (simp add: PluginVM_Create_def Nonce_def Sequence_Value_def MemStore_ops_def MemStore_Get_def vm_run_def demo_env_def demo_safe_def Let_def)
  have dec: "ve_dec_code demo_env (Some (ve_enc_code demo_env n)) = Inr (n, [])" for n by (simp add: demo_env_def)
  have two: "(3 :: nat) = Suc 2" by simp
  have "\<exists>v. PluginVM_Call (Suc 2) demo_env demo_store_ops demo_busy_addr addr [4] w' = (Inr [1], v)"
    using created_contract_runs [OF demo_storage.contract_storage_axioms _ dec create, where input = "[4]" and req = "[4]" and m = 2 and caller = demo_busy_addr]
    by (auto simp: demo_env_def demo_safe_def Let_def)
  with create show ?thesis unfolding two by blast
qed

end
