(* ===== verification/Gateway.thy ===== *)
theory Gateway
  imports Coin_Contract Eth_Coin Address_Mapper Registry "HOL-Library.AList"
begin

text \<open>
  The transfer gateway, \<open>builtin/plugins/gateway/gateway.go\<close>, \<open>gateway_contract_mapping.go\<close> and
  \<open>unsafe_gateway.go\<close>: the contract that credits deposits seen on the main chain, takes tokens that
  leave, and keeps one withdrawal receipt per account until the main chain has paid it out.

  The gateway works on its own storage, on the two token contracts of \<open>Coin_Contract\<close> and \<open>Eth_Coin\<close>
  (\<open>coin_context.go\<close>, \<open>eth_context.go\<close>), on the address mapper, and on token contracts in the EVM
  (\<open>erc20_context.go\<close>, \<open>erc721_context.go\<close>, \<open>erc721x_context.go\<close>). The code of those last is not the
  chain's: they are the operations of the record \<open>evm_tokens\<close>. A call that fails has still made the
  writes before the failure; a failed method as a whole fails its transaction, which is rolled back.
\<close>

section \<open>Failing computations that keep their writes\<close>

definition seq_res :: "'a res \<times> 'w \<Rightarrow> ('a \<Rightarrow> 'w \<Rightarrow> 'b res \<times> 'w) \<Rightarrow> 'b res \<times> 'w" where
  "seq_res m k = (case m of (Inl e, w) \<Rightarrow> (Inl e, w) | (Inr x, w) \<Rightarrow> k x w)"

lemma seq_res_simps [simp, res_simps]:
  "seq_res (Inl e, w) k = (Inl e, w)" "seq_res (Inr x, w) k = k x w"
  by (simp_all add: seq_res_def)

lemma seq_resE:
  assumes "seq_res m k = (r, w')"
  obtains (fail) e where "m = (Inl e, w')" "r = Inl e" | (step) x w where "m = (Inr x, w)" "k x w = (r, w')"
  using assms by (cases m) (auto simp: seq_res_def split: sum.split_asm)

section \<open>State\<close>

datatype TokenKind = ERC721X | ERC721 | ERC20 | ETH | DiademCoin | OtherKind nat

record WithdrawalReceipt =
  wr_TokenOwner :: address
  wr_TokenContract :: address
  wr_TokenKind :: TokenKind
  wr_TokenID :: "int option"
  wr_TokenAmount :: "int option"
  wr_WithdrawalNonce :: u64
  wr_OracleSignature :: slice

record LocalAccount =
  la_Owner :: address
  la_WithdrawalReceipt :: "WithdrawalReceipt option"

record ForeignAccount =
  fa_Owner :: address
  fa_WithdrawalNonce :: u64
  fa_CurrentWithdrawer :: "address option"

record GatewayState =
  gs_Owner :: "address option"
  gs_NextContractMappingID :: u64
  gs_LastMainnetBlockNum :: u64
  gs_TokenWithdrawers :: "address list"

record TokenAmount =
  ta_TokenID :: "int option"
  ta_TokenAmount :: "int option"

record UnclaimedToken =
  ut_TokenContract :: "address option"
  ut_TokenKind :: TokenKind
  ut_Amounts :: "TokenAmount list"

record TokenTransfer =
  tt_TokenOwner :: "address option"
  tt_TokenContract :: "address option"
  tt_TokenKind :: TokenKind
  tt_TokenID :: "int option"
  tt_TokenAmount :: "int option"
  tt_TxHash :: bytes

datatype payload = Deposit TokenTransfer | Withdrawal TokenTransfer | NoPayload

record MainnetEvent =
  me_EthBlock :: u64
  me_Payload :: payload

record PendingContractMapping =
  pm_ID :: u64
  pm_ForeignContract :: address
  pm_LocalContract :: address
  pm_ForeignContractCreator :: address
  pm_ForeignContractTxHash :: bytes

text \<open>The events the contract emits, by topic.\<close>

datatype gw_event =
    EvMainnetDeposit TokenTransfer
  | EvMainnetWithdrawal TokenTransfer
  | EvProcessEventError MainnetEvent
  | EvStoreUnclaimedToken UnclaimedToken
  | EvWithdraw WithdrawalReceipt
  | EvTokenWithdrawalSigned WithdrawalReceipt
  | EvContractMappingConfirmed address address
  | EvReclaimError address

record 't gw_world =
  gw_state :: "GatewayState option"
  gw_oracles :: "address list"
  gw_local :: "address \<rightharpoonup> LocalAccount"
  gw_foreign :: "address \<rightharpoonup> ForeignAccount"
  gw_unclaimed :: "((address \<times> address) \<times> UnclaimedToken) list"
  gw_depositors :: "((address \<times> address) \<times> address) list"
  gw_seen :: "bytes \<rightharpoonup> TokenKind"
  gw_mappings :: "address \<rightharpoonup> AddressMapping"
  gw_pending :: "(u64 \<times> PendingContractMapping) list"
  gw_perms :: permissions
  gw_coin :: coin_store
  gw_eth :: coin_store
  gw_mapper :: am_store
  gw_tokens :: 't
  gw_events :: "gw_event list"

text \<open>Token contracts in the EVM, called by the gateway at its address.\<close>

record 't evm_tokens =
  erc721_exists :: "address \<Rightarrow> int \<Rightarrow> 't \<Rightarrow> bool res"
  erc721_mintToGateway :: "address \<Rightarrow> address \<Rightarrow> int \<Rightarrow> 't \<Rightarrow> unit res \<times> 't"
  erc721_safeTransferFrom :: "address \<Rightarrow> address \<Rightarrow> address \<Rightarrow> address \<Rightarrow> int \<Rightarrow> 't \<Rightarrow> unit res \<times> 't"
  erc721x_balanceOf :: "address \<Rightarrow> address \<Rightarrow> int \<Rightarrow> 't \<Rightarrow> int res"
  erc721x_mintToGateway :: "address \<Rightarrow> address \<Rightarrow> int \<Rightarrow> int \<Rightarrow> 't \<Rightarrow> unit res \<times> 't"
  erc721x_safeTransferFrom :: "address \<Rightarrow> address \<Rightarrow> address \<Rightarrow> address \<Rightarrow> int \<Rightarrow> int \<Rightarrow> 't \<Rightarrow> unit res \<times> 't"
  erc20_balanceOf :: "address \<Rightarrow> address \<Rightarrow> 't \<Rightarrow> int res"
  erc20_mintToGateway :: "address \<Rightarrow> address \<Rightarrow> int \<Rightarrow> 't \<Rightarrow> unit res \<times> 't"
  erc20_transfer :: "address \<Rightarrow> address \<Rightarrow> address \<Rightarrow> int \<Rightarrow> 't \<Rightarrow> unit res \<times> 't"
  erc20_transferFrom :: "address \<Rightarrow> address \<Rightarrow> address \<Rightarrow> address \<Rightarrow> int \<Rightarrow> 't \<Rightarrow> unit res \<times> 't"

definition emit :: "gw_event \<Rightarrow> 't gw_world \<Rightarrow> 't gw_world" where
  "emit ev w = w\<lparr>gw_events := gw_events w @ [ev]\<rparr>"

abbreviation ErrTGNotAuthorized :: go_error where "ErrTGNotAuthorized \<equiv> Err ''TG001: not authorized''"
abbreviation ErrTGInvalidRequest :: go_error where "ErrTGInvalidRequest \<equiv> Err ''TG002: invalid request''"
abbreviation ErrPendingWithdrawalExists :: go_error where "ErrPendingWithdrawalExists \<equiv> Err ''TG003: pending withdrawal already exists''"
abbreviation ErrNoPendingWithdrawalExists :: go_error where "ErrNoPendingWithdrawalExists \<equiv> Err ''TG004: no pending withdrawal exists''"
abbreviation ErrMissingWithdrawalReceipt :: go_error where "ErrMissingWithdrawalReceipt \<equiv> Err ''TG005: missing withdrawal receipt''"
abbreviation ErrWithdrawalReceiptSigned :: go_error where "ErrWithdrawalReceiptSigned \<equiv> Err ''TG006: withdrawal receipt already signed''"
abbreviation ErrInvalidEventBatch :: go_error where "ErrInvalidEventBatch \<equiv> Err ''TG007: invalid event batch''"
abbreviation ErrContractMappingExists :: go_error where "ErrContractMappingExists \<equiv> Err ''TG012: contract mapping already exists''"
abbreviation ErrFailedToReclaimToken :: go_error where "ErrFailedToReclaimToken \<equiv> Err ''TG013: failed to reclaim token''"

section \<open>Storage helpers\<close>

definition loadState :: "'t gw_world \<Rightarrow> GatewayState" where
  "loadState w =
     (case gw_state w of
        None \<Rightarrow> \<lparr>gs_Owner = None, gs_NextContractMappingID = 0, gs_LastMainnetBlockNum = 0, gs_TokenWithdrawers = []\<rparr>
      | Some s \<Rightarrow> s)"

definition saveState :: "GatewayState \<Rightarrow> 't gw_world \<Rightarrow> 't gw_world" where
  "saveState s w = w\<lparr>gw_state := Some s\<rparr>"

definition loadLocalAccount :: "'t gw_world \<Rightarrow> address \<Rightarrow> LocalAccount" where
  "loadLocalAccount w owner =
     (case gw_local w owner of None \<Rightarrow> \<lparr>la_Owner = owner, la_WithdrawalReceipt = None\<rparr> | Some a \<Rightarrow> a)"

definition saveLocalAccount :: "LocalAccount \<Rightarrow> 't gw_world \<Rightarrow> 't gw_world" where
  "saveLocalAccount acct w = w\<lparr>gw_local := (gw_local w)(la_Owner acct \<mapsto> acct)\<rparr>"

definition loadForeignAccount :: "'t gw_world \<Rightarrow> address \<Rightarrow> ForeignAccount" where
  "loadForeignAccount w owner =
     (case gw_foreign w owner of
        None \<Rightarrow> \<lparr>fa_Owner = owner, fa_WithdrawalNonce = 0, fa_CurrentWithdrawer = None\<rparr>
      | Some a \<Rightarrow> a)"

definition saveForeignAccount :: "ForeignAccount \<Rightarrow> 't gw_world \<Rightarrow> 't gw_world" where
  "saveForeignAccount acct w = w\<lparr>gw_foreign := (gw_foreign w)(fa_Owner acct \<mapsto> acct)\<rparr>"

definition addTokenWithdrawer :: "GatewayState \<Rightarrow> address \<Rightarrow> GatewayState res" where
  "addTokenWithdrawer s owner =
     (if list_ex (\<lambda>a. owner = a) (gs_TokenWithdrawers s) then Inl ErrPendingWithdrawalExists
      else Inr (s\<lparr>gs_TokenWithdrawers := gs_TokenWithdrawers s @ [owner]\<rparr>))"

text \<open>The first entry of the owner is overwritten with the last one, which is cut off.\<close>

fun remove_swap :: "'a \<Rightarrow> 'a list \<Rightarrow> 'a list option" where
  "remove_swap x xs =
     (case find (\<lambda>i. xs ! i = x) [0..<length xs] of
        None \<Rightarrow> None
      | Some i \<Rightarrow> Some (butlast (xs[i := last xs])))"

definition removeTokenWithdrawer :: "GatewayState \<Rightarrow> address \<Rightarrow> GatewayState res" where
  "removeTokenWithdrawer s owner =
     (case remove_swap owner (gs_TokenWithdrawers s) of
        None \<Rightarrow> Inl ErrNoPendingWithdrawalExists
      | Some l \<Rightarrow> Inr (s\<lparr>gs_TokenWithdrawers := l\<rparr>))"

definition hasSeenTxHash :: "'t gw_world \<Rightarrow> bytes \<Rightarrow> bool" where
  "hasSeenTxHash w txHash \<longleftrightarrow> gw_seen w txHash \<noteq> None"

definition saveSeenTxHash :: "bytes \<Rightarrow> TokenKind \<Rightarrow> 't gw_world \<Rightarrow> 't gw_world" where
  "saveSeenTxHash txHash kind w = w\<lparr>gw_seen := (gw_seen w)(txHash \<mapsto> kind)\<rparr>"

section \<open>Oracles and owner\<close>

definition oracle_perms :: "string list" where
  "oracle_perms = [''submit-events'', ''sign-withdrawals'', ''verify-creators'']"

definition addOracle :: "address \<Rightarrow> 't gw_world \<Rightarrow> 't gw_world" where
  "addOracle a w =
     w\<lparr>gw_perms := fold (\<lambda>p ps. GrantPermissionTo ps a p ''oracle'') oracle_perms (gw_perms w),
       gw_oracles := List.insert a (gw_oracles w)\<rparr>"

definition removeOracle :: "address \<Rightarrow> 't gw_world \<Rightarrow> 't gw_world" where
  "removeOracle a w =
     w\<lparr>gw_perms := fold (\<lambda>p ps. RevokePermissionFrom ps a p ''oracle'') oracle_perms (gw_perms w),
       gw_oracles := filter (\<lambda>b. b \<noteq> a) (gw_oracles w)\<rparr>"

definition Gateway_Init :: "address option \<Rightarrow> address list \<Rightarrow> u64 \<Rightarrow> 't gw_world \<Rightarrow> 't gw_world res" where
  "Gateway_Init owner oracles firstBlock w =
     (case owner of
        None \<Rightarrow> Inl (Err ''TG008: owner not specified'')
      | Some ownerAddr \<Rightarrow>
          let w = w\<lparr>gw_perms := GrantPermissionTo (gw_perms w) ownerAddr ''change-oracles'' ''owner''\<rparr>;
              w = fold addOracle oracles w
          in Inr (saveState \<lparr>gs_Owner = Some ownerAddr, gs_NextContractMappingID = 1, gs_LastMainnetBlockNum = firstBlock,
                gs_TokenWithdrawers = []\<rparr> w))"

definition Gateway_AddOracle :: "call_ctx \<Rightarrow> address option \<Rightarrow> 't gw_world \<Rightarrow> 't gw_world res" where
  "Gateway_AddOracle ctx req w =
     (case req of
        None \<Rightarrow> Inl ErrTGInvalidRequest
      | Some a \<Rightarrow>
          if \<not> HasPermission (gw_perms w) (sender ctx) ''change-oracles'' [''owner''] then Inl ErrTGNotAuthorized
          else if a \<in> set (gw_oracles w) then Inl (Err ''TG009: oracle already registered'')
          else Inr (addOracle a w))"

definition Gateway_RemoveOracle :: "call_ctx \<Rightarrow> address option \<Rightarrow> 't gw_world \<Rightarrow> 't gw_world res" where
  "Gateway_RemoveOracle ctx req w =
     (case req of
        None \<Rightarrow> Inl ErrTGInvalidRequest
      | Some a \<Rightarrow>
          if \<not> HasPermission (gw_perms w) (sender ctx) ''change-oracles'' [''owner''] then Inl ErrTGNotAuthorized
          else if a \<notin> set (gw_oracles w) then Inl (Err ''TG010: oracle not registered'')
          else Inr (removeOracle a w))"

definition replace_owner :: "address \<Rightarrow> address \<Rightarrow> 't gw_world \<Rightarrow> 't gw_world" where
  "replace_owner old new w =
     (let w = w\<lparr>gw_perms := GrantPermissionTo (RevokePermissionFrom (gw_perms w) old ''change-oracles'' ''owner'')
                 new ''change-oracles'' ''owner''\<rparr>
      in saveState ((loadState w)\<lparr>gs_Owner := Some new\<rparr>) w)"

definition Gateway_ReplaceOwner :: "call_ctx \<Rightarrow> address option \<Rightarrow> 't gw_world \<Rightarrow> 't gw_world res" where
  "Gateway_ReplaceOwner ctx req w =
     (case req of
        None \<Rightarrow> Inl ErrTGInvalidRequest
      | Some new \<Rightarrow>
          bind_res (deref (gs_Owner (loadState w))) (\<lambda>old.
          if old \<noteq> sender ctx then Inl ErrTGNotAuthorized else Inr (replace_owner old new w)))"

definition Gateway_GetOracles :: "'t gw_world \<Rightarrow> address list" where
  "Gateway_GetOracles w = gw_oracles w"

section \<open>The other contracts\<close>

text \<open>A call from the gateway has the gateway as its sender.\<close>

definition as_gateway :: "call_ctx \<Rightarrow> call_ctx" where
  "as_gateway ctx = ctx\<lparr>sender := contract_address ctx\<rparr>"

text \<open>Making the helper of a token contract panics when the contract is not registered.\<close>

definition need :: "call_ctx \<Rightarrow> string \<Rightarrow> unit res" where
  "need ctx name = (case resolve ctx name of Inl e \<Rightarrow> Inl (Panic ''resolve'') | Inr _ \<Rightarrow> Inr ())"

definition on_coin :: "(coin_store \<Rightarrow> coin_store res) \<Rightarrow> 't gw_world \<Rightarrow> unit res \<times> 't gw_world" where
  "on_coin f w = (case f (gw_coin w) of Inl e \<Rightarrow> (Inl e, w) | Inr c \<Rightarrow> (Inr (), w\<lparr>gw_coin := c\<rparr>))"

definition on_eth :: "(coin_store \<Rightarrow> coin_store res) \<Rightarrow> 't gw_world \<Rightarrow> unit res \<times> 't gw_world" where
  "on_eth f w = (case f (gw_eth w) of Inl e \<Rightarrow> (Inl e, w) | Inr c \<Rightarrow> (Inr (), w\<lparr>gw_eth := c\<rparr>))"

definition on_tokens :: "('t \<Rightarrow> unit res \<times> 't) \<Rightarrow> 't gw_world \<Rightarrow> unit res \<times> 't gw_world" where
  "on_tokens f w = (case f (gw_tokens w) of (r, t) \<Rightarrow> (r, w\<lparr>gw_tokens := t\<rparr>))"

definition coin_transfer :: "call_ctx \<Rightarrow> address \<Rightarrow> int \<Rightarrow> 't gw_world \<Rightarrow> unit res \<times> 't gw_world" where
  "coin_transfer ctx to amount = on_coin (\<lambda>c. Coin_Transfer (as_gateway ctx) c \<lparr>tr_to = to, tr_amount = Some amount\<rparr>)"

definition coin_burn :: "call_ctx \<Rightarrow> address \<Rightarrow> int \<Rightarrow> 't gw_world \<Rightarrow> unit res \<times> 't gw_world" where
  "coin_burn ctx owner amount = on_coin (\<lambda>c. Coin_Burn (as_gateway ctx) c (Some owner) (Some amount))"

definition coin_mintToGateway :: "call_ctx \<Rightarrow> int \<Rightarrow> 't gw_world \<Rightarrow> unit res \<times> 't gw_world" where
  "coin_mintToGateway ctx amount = on_coin (\<lambda>c. Coin_MintToGateway (as_gateway ctx) c (Some amount))"

definition eth_transferFrom :: "call_ctx \<Rightarrow> address \<Rightarrow> address \<Rightarrow> int \<Rightarrow> 't gw_world \<Rightarrow> unit res \<times> 't gw_world" where
  "eth_transferFrom ctx src dst amount =
     on_eth (\<lambda>c. ETHCoin_TransferFrom (as_gateway ctx) c \<lparr>tf_from = src, tf_to = dst, tf_amount = Some amount\<rparr>)"

definition eth_transfer :: "call_ctx \<Rightarrow> address \<Rightarrow> int \<Rightarrow> 't gw_world \<Rightarrow> unit res \<times> 't gw_world" where
  "eth_transfer ctx to amount = on_eth (\<lambda>c. ETHCoin_Transfer (as_gateway ctx) c \<lparr>tr_to = to, tr_amount = Some amount\<rparr>)"

definition eth_mintToGateway :: "call_ctx \<Rightarrow> int \<Rightarrow> 't gw_world \<Rightarrow> unit res \<times> 't gw_world" where
  "eth_mintToGateway ctx amount = on_eth (\<lambda>c. ETHCoin_MintToGateway (as_gateway ctx) c (Some amount))"

definition resolveToMapped :: "'t gw_world \<Rightarrow> address \<Rightarrow> address res" where
  "resolveToMapped w a = bind_res (GetMapping (Some a) (gw_mapper w)) (\<lambda>m. Inr (am_To m))"

definition resolveToLocalContractAddr :: "'t gw_world \<Rightarrow> address \<Rightarrow> address res" where
  "resolveToLocalContractAddr w foreignAddr = bind_res (ctx_get (gw_mappings w) foreignAddr) (\<lambda>m. Inr (am_To m))"

definition resolveToForeignContractAddr :: "'t gw_world \<Rightarrow> address \<Rightarrow> address res" where
  "resolveToForeignContractAddr w localAddr = bind_res (ctx_get (gw_mappings w) localAddr) (\<lambda>m. Inr (am_To m))"

section \<open>Deposits\<close>

definition nonneg_or :: "int option \<Rightarrow> int" where
  "nonneg_or v = (case v of None \<Rightarrow> 0 | Some x \<Rightarrow> x)"

definition validateTokenDeposit :: "TokenTransfer \<Rightarrow> unit res" where
  "validateTokenDeposit d =
     (if tt_TokenOwner d = None then Inl ErrTGInvalidRequest
      else if tt_TokenKind d \<noteq> ETH \<and> tt_TokenContract d = None then Inl ErrTGInvalidRequest
      else
        (case tt_TokenKind d of
           ERC721 \<Rightarrow> Inr ()
         | OtherKind _ \<Rightarrow> Inl (Err ''deposits not supported'')
         | _ \<Rightarrow> if tt_TokenAmount d = None then Inl ErrTGInvalidRequest else Inr ()))"

text \<open>
  Crediting a deposit: the gateway mints what it lacks and transfers to the owner's account on this
  chain. A failure after the mint leaves the minted tokens with the gateway.
\<close>

definition transferTokenDeposit ::
    "'t evm_tokens \<Rightarrow> call_ctx \<Rightarrow> address \<Rightarrow> address \<Rightarrow> TokenKind \<Rightarrow> int option \<Rightarrow> int option \<Rightarrow> 't gw_world
       \<Rightarrow> unit res \<times> 't gw_world" where
  "transferTokenDeposit T ctx ownerEthAddr tokenEthAddr kind tokenID tokenAmount w =
     (let gwAddr = contract_address ctx; i = nonneg_or tokenID; n = nonneg_or tokenAmount in
      seq_res (resolve ctx ''addressmapper'', w) (\<lambda>_ w.
      seq_res (resolveToMapped w ownerEthAddr, w) (\<lambda>ownerAddr w.
      seq_res (if kind \<noteq> ETH \<and> kind \<noteq> DiademCoin then resolveToLocalContractAddr w tokenEthAddr else Inr (Address [] []), w) (\<lambda>tokenAddr w.
      case kind of
        ERC721 \<Rightarrow>
          seq_res (erc721_exists T tokenAddr i (gw_tokens w), w) (\<lambda>ex w.
          seq_res (if ex then (Inr (), w) else on_tokens (erc721_mintToGateway T gwAddr tokenAddr i) w) (\<lambda>_ w.
          on_tokens (erc721_safeTransferFrom T gwAddr tokenAddr gwAddr ownerAddr i) w))
      | ERC721X \<Rightarrow>
          seq_res (erc721x_balanceOf T tokenAddr gwAddr i (gw_tokens w), w) (\<lambda>availableFunds w.
          seq_res (if availableFunds < n then on_tokens (erc721x_mintToGateway T gwAddr tokenAddr i (n - availableFunds)) w
                   else (Inr (), w)) (\<lambda>_ w.
          on_tokens (erc721x_safeTransferFrom T gwAddr tokenAddr gwAddr ownerAddr i n) w))
      | ERC20 \<Rightarrow>
          seq_res (erc20_balanceOf T tokenAddr gwAddr (gw_tokens w), w) (\<lambda>availableFunds w.
          seq_res (if availableFunds < n then on_tokens (erc20_mintToGateway T gwAddr tokenAddr n) w else (Inr (), w)) (\<lambda>_ w.
          on_tokens (erc20_transfer T gwAddr tokenAddr ownerAddr n) w))
      | ETH \<Rightarrow>
          seq_res (need ctx ''ethcoin'', w) (\<lambda>_ w.
          seq_res (ETHCoin_BalanceOf (gw_eth w) gwAddr, w) (\<lambda>availableFunds w.
          seq_res (if availableFunds < n then eth_mintToGateway ctx n w else (Inr (), w)) (\<lambda>_ w.
          eth_transfer ctx ownerAddr n w)))
      | DiademCoin \<Rightarrow>
          seq_res (need ctx ''coin'', w) (\<lambda>_ w.
          seq_res (Coin_BalanceOf (gw_coin w) gwAddr, w) (\<lambda>availableFunds w.
          seq_res (if availableFunds < n then coin_mintToGateway ctx n w else (Inr (), w)) (\<lambda>_ w.
          coin_transfer ctx ownerAddr n w)))
      | OtherKind _ \<Rightarrow> (Inr (), w)))))"

definition ethTokenAddr :: address where
  "ethTokenAddr = Address ''eth'' (replicate 20 0)"

definition token_of :: "address option \<Rightarrow> address" where
  "token_of contractAddr = (case contractAddr of None \<Rightarrow> ethTokenAddr | Some a \<Rightarrow> a)"

text \<open>Adding a deposit to the amounts a depositor has not claimed.\<close>

definition add_unclaimed :: "TokenTransfer \<Rightarrow> TokenAmount list \<Rightarrow> TokenAmount list res" where
  "add_unclaimed d amounts =
     (case tt_TokenKind d of
        ERC721 \<Rightarrow> Inr (amounts @ [\<lparr>ta_TokenID = tt_TokenID d, ta_TokenAmount = None\<rparr>])
      | ERC721X \<Rightarrow>
          if amounts = [] then Inr [\<lparr>ta_TokenID = tt_TokenID d, ta_TokenAmount = tt_TokenAmount d\<rparr>]
          else
            bind_res (deref (tt_TokenID d)) (\<lambda>i.
            if list_ex (\<lambda>a. ta_TokenID a = None) (takeWhile (\<lambda>a. ta_TokenID a \<noteq> Some i) amounts)
            then Inl (Panic ''nil pointer dereference'')
            else if list_ex (\<lambda>a. ta_TokenID a = Some i) amounts then
              bind_res (deref (tt_TokenAmount d)) (\<lambda>n.
              Inr (update_first (\<lambda>a. ta_TokenID a = Some i) (\<lambda>a. a\<lparr>ta_TokenAmount := map_option (\<lambda>m. m + n) (ta_TokenAmount a)\<rparr>) amounts))
            else Inr (amounts @ [\<lparr>ta_TokenID = tt_TokenID d, ta_TokenAmount = tt_TokenAmount d\<rparr>]))
      | OtherKind _ \<Rightarrow> Inr amounts
      | _ \<Rightarrow>
          bind_res (deref (tt_TokenAmount d)) (\<lambda>n.
          bind_res (case amounts of [a] \<Rightarrow> deref (ta_TokenAmount a) | _ \<Rightarrow> Inr 0) (\<lambda>oldAmount.
          Inr [\<lparr>ta_TokenID = None, ta_TokenAmount = Some (oldAmount + n)\<rparr>])))"

definition storeUnclaimedToken :: "TokenTransfer \<Rightarrow> 't gw_world \<Rightarrow> 't gw_world res" where
  "storeUnclaimedToken d w =
     bind_res (deref (tt_TokenOwner d)) (\<lambda>ownerAddr.
     let tokenAddr = token_of (tt_TokenContract d);
         u = (case map_of (gw_unclaimed w) (ownerAddr, tokenAddr) of
                None \<Rightarrow> \<lparr>ut_TokenContract = tt_TokenContract d, ut_TokenKind = tt_TokenKind d, ut_Amounts = []\<rparr>
              | Some u \<Rightarrow> u)
     in
     bind_res (add_unclaimed d (ut_Amounts u)) (\<lambda>amounts.
     let u = u\<lparr>ut_Amounts := amounts\<rparr>
     in Inr (emit (EvStoreUnclaimedToken u)
       (w\<lparr>gw_depositors := AList.update (tokenAddr, ownerAddr) ownerAddr (gw_depositors w),
          gw_unclaimed := AList.update (ownerAddr, tokenAddr) u (gw_unclaimed w)\<rparr>))))"

section \<open>Completed withdrawals\<close>

text \<open>
  The accounts are saved before the account is taken off the list, which is part of the state that
  the caller keeps and saves later.
\<close>

definition validateTokenWithdrawal :: "TokenTransfer \<Rightarrow> address res" where
  "validateTokenWithdrawal d =
     (case tt_TokenOwner d of
        None \<Rightarrow> Inl ErrTGInvalidRequest
      | Some owner \<Rightarrow>
          if tt_TokenKind d \<noteq> ETH \<and> tt_TokenContract d = None then Inl ErrTGInvalidRequest
          else
            (case tt_TokenKind d of
               ERC721 \<Rightarrow> Inr owner
             | OtherKind _ \<Rightarrow> Inl (Err ''withdrawals not supported'')
             | _ \<Rightarrow> if tt_TokenAmount d = None then Inl ErrTGInvalidRequest else Inr owner))"

definition completeTokenWithdraw ::
    "TokenTransfer \<Rightarrow> GatewayState \<Rightarrow> 't gw_world \<Rightarrow> GatewayState res \<times> 't gw_world" where
  "completeTokenWithdraw d state w =
     seq_res (validateTokenWithdrawal d, w) (\<lambda>ownerEthAddr w.
     let foreignAccount = loadForeignAccount w ownerEthAddr in
     case fa_CurrentWithdrawer foreignAccount of
       None \<Rightarrow> (Inl (Err ''no pending withdrawal found''), w)
     | Some ownerAddr \<Rightarrow>
         let account = loadLocalAccount w ownerAddr in
         if la_WithdrawalReceipt account = None then (Inl (Err ''no pending withdrawal found''), w)
         else
           let w = saveLocalAccount (account\<lparr>la_WithdrawalReceipt := None\<rparr>) w;
               w = saveForeignAccount (foreignAccount\<lparr>fa_WithdrawalNonce := fa_WithdrawalNonce foreignAccount + 1,
                     fa_CurrentWithdrawer := None\<rparr>) w
           in (removeTokenWithdrawer state ownerAddr, w))"

section \<open>Batches of events\<close>

text \<open>What an event does to the loop: fail the batch, be skipped, or count.\<close>

datatype outcome = Abort go_error | Skip | Count

text \<open>An error of a step that the loop only logs; a panic is not an error.\<close>

definition handle_err :: "go_error \<Rightarrow> outcome \<Rightarrow> outcome" where
  "handle_err e out = (case e of Panic msg \<Rightarrow> Abort (Panic msg) | _ \<Rightarrow> out)"

definition process_deposit ::
    "bool \<Rightarrow> 't evm_tokens \<Rightarrow> call_ctx \<Rightarrow> MainnetEvent \<Rightarrow> TokenTransfer \<Rightarrow> 't gw_world \<Rightarrow> outcome \<times> 't gw_world" where
  "process_deposit diademCoinTG T ctx ev d w =
     (let checkTxHash = feature_enabled ctx ''tg:check-txhash'' False in
      if diademCoinTG \<noteq> (tt_TokenKind d = DiademCoin) then (Abort ErrTGInvalidRequest, w)
      else
        (case validateTokenDeposit d of
           Inl e \<Rightarrow> (Skip, emit (EvProcessEventError ev) w)
         | Inr _ \<Rightarrow>
             if checkTxHash \<and> tt_TxHash d = [] then (Abort ErrTGInvalidRequest, w)
             else if checkTxHash \<and> hasSeenTxHash w (tt_TxHash d) then (Skip, emit (EvProcessEventError ev) w)
             else
               let ownerAddr = the (tt_TokenOwner d);
                   saveHash = (\<lambda>w. if checkTxHash then saveSeenTxHash (tt_TxHash d) (tt_TokenKind d) w else w)
               in
               (case transferTokenDeposit T ctx ownerAddr (token_of (tt_TokenContract d)) (tt_TokenKind d)
                       (tt_TokenID d) (tt_TokenAmount d) w of
                  (Inr _, w) \<Rightarrow> (Count, saveHash (emit (EvMainnetDeposit d) w))
                | (Inl (Panic msg), w) \<Rightarrow> (Abort (Panic msg), w)
                | (Inl e, w) \<Rightarrow>
                    (case storeUnclaimedToken d (emit (EvProcessEventError ev) w) of
                       Inl e \<Rightarrow> (Abort e, w)
                     | Inr w \<Rightarrow> (Count, saveHash w)))))"

definition process_withdrawal ::
    "bool \<Rightarrow> call_ctx \<Rightarrow> MainnetEvent \<Rightarrow> TokenTransfer \<Rightarrow> GatewayState \<Rightarrow> 't gw_world
       \<Rightarrow> outcome \<times> GatewayState \<times> 't gw_world" where
  "process_withdrawal diademCoinTG ctx ev d state w =
     (let checkTxHash = feature_enabled ctx ''tg:check-txhash'' False in
      if diademCoinTG \<noteq> (tt_TokenKind d = DiademCoin) then (Abort ErrTGInvalidRequest, state, w)
      else if checkTxHash \<and> tt_TxHash d = [] then (Abort ErrTGInvalidRequest, state, w)
      else if checkTxHash \<and> hasSeenTxHash w (tt_TxHash d) then (Skip, state, emit (EvProcessEventError ev) w)
      else
        (case completeTokenWithdraw d state w of
           (Inl e, w) \<Rightarrow> (handle_err e Skip, state, emit (EvProcessEventError ev) w)
         | (Inr state, w) \<Rightarrow>
             (Count, state,
              (if checkTxHash then saveSeenTxHash (tt_TxHash d) (tt_TokenKind d) else id)
                (emit (EvMainnetWithdrawal d) w))))"

record batch_loop =
  bl_state :: GatewayState
  bl_blockCount :: int
  bl_lastEthBlock :: u64

definition process_event ::
    "bool \<Rightarrow> 't evm_tokens \<Rightarrow> call_ctx \<Rightarrow> MainnetEvent \<Rightarrow> batch_loop \<times> 't gw_world \<Rightarrow> (batch_loop \<times> 't gw_world) res" where
  "process_event diademCoinTG T ctx ev bw =
     (case bw of (b, w) \<Rightarrow>
      if me_EthBlock ev < bl_lastEthBlock b then Inl ErrInvalidEventBatch
      else if me_EthBlock ev \<le> gs_LastMainnetBlockNum (bl_state b) then Inr (b, w)
      else
        (case (case me_Payload ev of
                 Deposit d \<Rightarrow> (case process_deposit diademCoinTG T ctx ev d w of (out, w) \<Rightarrow> (out, bl_state b, w))
               | Withdrawal d \<Rightarrow> process_withdrawal diademCoinTG ctx ev d (bl_state b) w
               | NoPayload \<Rightarrow> (Skip, bl_state b, w)) of
           (Abort e, _, _) \<Rightarrow> Inl e
         | (Skip, state, w) \<Rightarrow> Inr (b\<lparr>bl_state := state\<rparr>, w)
         | (Count, state, w) \<Rightarrow>
             let b = b\<lparr>bl_state := state\<rparr> in
             Inr (if me_EthBlock ev > bl_lastEthBlock b
                  then b\<lparr>bl_blockCount := bl_blockCount b + 1, bl_lastEthBlock := me_EthBlock ev\<rparr> else b, w)))"

definition ProcessEventBatch ::
    "bool \<Rightarrow> 't evm_tokens \<Rightarrow> call_ctx \<Rightarrow> MainnetEvent list \<Rightarrow> 't gw_world \<Rightarrow> 't gw_world res" where
  "ProcessEventBatch diademCoinTG T ctx events w =
     (if \<not> HasPermission (gw_perms w) (sender ctx) ''submit-events'' [''oracle''] then Inl ErrTGNotAuthorized
      else
        bind_res (fold_res (process_event diademCoinTG T ctx) events
          (\<lparr>bl_state = loadState w, bl_blockCount = 0, bl_lastEthBlock = 0\<rparr>, w)) (\<lambda>(b, w).
        if bl_blockCount b = 0 then Inl (Err ''no new events found in the batch'')
        else Inr (saveState ((bl_state b)\<lparr>gs_LastMainnetBlockNum := bl_lastEthBlock b\<rparr>) w)))"

definition Gateway_GetState :: "'t gw_world \<Rightarrow> GatewayState" where
  "Gateway_GetState w = loadState w"

section \<open>Withdrawals\<close>

definition withdraw_recipient :: "call_ctx \<Rightarrow> address option \<Rightarrow> 't gw_world \<Rightarrow> address res" where
  "withdraw_recipient ctx recipient w =
     (case recipient of
        Some a \<Rightarrow> Inr a
      | None \<Rightarrow> bind_res (resolve ctx ''addressmapper'') (\<lambda>_. resolveToMapped w (sender ctx)))"

text \<open>The checks every withdrawal starts with: no withdrawal of the account and none to the recipient is pending.\<close>

definition start_withdrawal :: "call_ctx \<Rightarrow> address option \<Rightarrow> 't gw_world \<Rightarrow> address res" where
  "start_withdrawal ctx recipient w =
     (if la_WithdrawalReceipt (loadLocalAccount w (sender ctx)) \<noteq> None then Inl ErrPendingWithdrawalExists
      else
        bind_res (withdraw_recipient ctx recipient w) (\<lambda>ownerEthAddr.
        if fa_CurrentWithdrawer (loadForeignAccount w ownerEthAddr) \<noteq> None then Inl ErrPendingWithdrawalExists
        else Inr ownerEthAddr))"

text \<open>
  Filing the receipt. The accounts are those loaded before the tokens moved; the contracts called in
  between have no way to change them.
\<close>

definition file_receipt ::
    "call_ctx \<Rightarrow> address \<Rightarrow> address \<Rightarrow> TokenKind \<Rightarrow> int option \<Rightarrow> int option \<Rightarrow> 't gw_world \<Rightarrow> 't gw_world res" where
  "file_receipt ctx ownerEthAddr tokenContract kind tokenID tokenAmount w =
     (let ownerAddr = sender ctx;
          account = loadLocalAccount w ownerAddr;
          foreignAccount = loadForeignAccount w ownerEthAddr;
          receipt = \<lparr>wr_TokenOwner = ownerEthAddr, wr_TokenContract = tokenContract, wr_TokenKind = kind,
            wr_TokenID = tokenID, wr_TokenAmount = tokenAmount,
            wr_WithdrawalNonce = fa_WithdrawalNonce foreignAccount, wr_OracleSignature = None\<rparr>;
          w = emit (EvWithdraw receipt) w;
          w = saveForeignAccount (foreignAccount\<lparr>fa_CurrentWithdrawer := Some ownerAddr\<rparr>) w;
          w = saveLocalAccount (account\<lparr>la_WithdrawalReceipt := Some receipt\<rparr>) w
      in
      bind_res (addTokenWithdrawer (loadState w) ownerAddr) (\<lambda>state. Inr (saveState state w)))"

definition only_ok :: "unit res \<times> 'w \<Rightarrow> 'w res" where
  "only_ok m = (case m of (Inl e, _) \<Rightarrow> Inl e | (Inr _, w) \<Rightarrow> Inr w)"

definition WithdrawToken ::
    "'t evm_tokens \<Rightarrow> call_ctx \<Rightarrow> address option \<Rightarrow> TokenKind \<Rightarrow> int option \<Rightarrow> int option \<Rightarrow> address option
       \<Rightarrow> 't gw_world \<Rightarrow> 't gw_world res" where
  "WithdrawToken T ctx tokenContract kind tokenID tokenAmount recipient w =
     (case tokenContract of
        None \<Rightarrow> Inl ErrTGInvalidRequest
      | Some tokenAddr \<Rightarrow>
          if kind \<noteq> ERC721 \<and> \<not> ((kind = ERC721X \<or> kind = ERC20) \<and> tokenAmount \<noteq> None) then Inl ErrTGInvalidRequest
          else
            bind_res (start_withdrawal ctx recipient w) (\<lambda>ownerEthAddr.
            bind_res (resolveToForeignContractAddr w tokenAddr) (\<lambda>tokenEthAddr.
            let gwAddr = contract_address ctx; i = nonneg_or tokenID; n = nonneg_or tokenAmount in
            bind_res (only_ok (on_tokens
              (case kind of
                 ERC721 \<Rightarrow> erc721_safeTransferFrom T gwAddr tokenAddr (sender ctx) gwAddr i
               | ERC721X \<Rightarrow> erc721x_safeTransferFrom T gwAddr tokenAddr (sender ctx) gwAddr i n
               | _ \<Rightarrow> erc20_transferFrom T gwAddr tokenAddr (sender ctx) gwAddr n) w)) (\<lambda>w.
            file_receipt ctx ownerEthAddr tokenEthAddr kind tokenID tokenAmount w))))"

definition WithdrawETH ::
    "bool \<Rightarrow> call_ctx \<Rightarrow> int option \<Rightarrow> address option \<Rightarrow> address option \<Rightarrow> 't gw_world \<Rightarrow> 't gw_world res" where
  "WithdrawETH diademCoinTG ctx amount mainnetGateway recipient w =
     (case (amount, mainnetGateway) of
        (Some n, Some mg) \<Rightarrow>
          if diademCoinTG then Inl ErrTGInvalidRequest
          else
            bind_res (start_withdrawal ctx recipient w) (\<lambda>ownerEthAddr.
            bind_res (need ctx ''ethcoin'') (\<lambda>_.
            bind_res (only_ok (eth_transferFrom ctx (sender ctx) (contract_address ctx) n w)) (\<lambda>w.
            file_receipt ctx ownerEthAddr mg ETH None (Some n) w)))
      | _ \<Rightarrow> Inl ErrTGInvalidRequest)"

definition WithdrawDiademCoin ::
    "bool \<Rightarrow> call_ctx \<Rightarrow> int option \<Rightarrow> address option \<Rightarrow> address option \<Rightarrow> 't gw_world \<Rightarrow> 't gw_world res" where
  "WithdrawDiademCoin diademCoinTG ctx amount tokenContract recipient w =
     (case (amount, tokenContract) of
        (Some n, Some tc) \<Rightarrow>
          if \<not> diademCoinTG then Inl ErrTGInvalidRequest
          else
            bind_res (start_withdrawal ctx recipient w) (\<lambda>ownerEthAddr.
            bind_res (need ctx ''coin'') (\<lambda>_.
            bind_res (only_ok (coin_burn ctx (sender ctx) n w)) (\<lambda>w.
            file_receipt ctx ownerEthAddr tc DiademCoin None (Some n) w)))
      | _ \<Rightarrow> Inl ErrTGInvalidRequest)"

definition Gateway_WithdrawalReceipt ::
    "(address \<Rightarrow> bool) \<Rightarrow> call_ctx \<Rightarrow> address option \<Rightarrow> 't gw_world \<Rightarrow> WithdrawalReceipt option res" where
  "Gateway_WithdrawalReceipt is_empty ctx reqOwner w =
     (let owner = (case reqOwner of None \<Rightarrow> sender ctx | Some a \<Rightarrow> a) in
      if is_empty owner then Inl (Err ''no owner specified'')
      else Inr (la_WithdrawalReceipt (loadLocalAccount w owner)))"

definition doConfirmWithdrawalReceipt :: "address option \<Rightarrow> slice \<Rightarrow> 't gw_world \<Rightarrow> 't gw_world res" where
  "doConfirmWithdrawalReceipt tokenOwner oracleSignature w =
     (case (tokenOwner, oracleSignature) of
        (Some ownerAddr, Some sig) \<Rightarrow>
          let account = loadLocalAccount w ownerAddr in
          (case la_WithdrawalReceipt account of
             None \<Rightarrow> Inl ErrMissingWithdrawalReceipt
           | Some r \<Rightarrow>
               if wr_OracleSignature r \<noteq> None then Inl ErrWithdrawalReceiptSigned
               else
                 let r = r\<lparr>wr_OracleSignature := Some sig\<rparr>
                 in Inr (emit (EvTokenWithdrawalSigned r) (saveLocalAccount (account\<lparr>la_WithdrawalReceipt := Some r\<rparr>) w)))
      | _ \<Rightarrow> Inl ErrTGInvalidRequest)"

definition ConfirmWithdrawalReceipt :: "call_ctx \<Rightarrow> address option \<Rightarrow> slice \<Rightarrow> 't gw_world \<Rightarrow> 't gw_world res" where
  "ConfirmWithdrawalReceipt ctx tokenOwner sig w =
     (if \<not> HasPermission (gw_perms w) (sender ctx) ''sign-withdrawals'' [''oracle''] then Inl ErrTGNotAuthorized
      else doConfirmWithdrawalReceipt tokenOwner sig w)"

text \<open>The validators of the staking contract, what \<open>ListValidatorsSimple\<close> returns, are an argument.\<close>

definition ConfirmWithdrawalReceiptV2 ::
    "address list res \<Rightarrow> call_ctx \<Rightarrow> address option \<Rightarrow> slice \<Rightarrow> 't gw_world \<Rightarrow> 't gw_world res" where
  "ConfirmWithdrawalReceiptV2 validators ctx tokenOwner sig w =
     bind_res (resolve ctx ''dposV2'') (\<lambda>_.
     bind_res validators (\<lambda>vs.
     if \<not> list_ex (\<lambda>v. sender ctx = v) vs then Inl ErrTGNotAuthorized
     else if \<not> HasPermission (gw_perms w) (sender ctx) ''sign-withdrawals'' [''oracle''] then Inl ErrTGNotAuthorized
     else doConfirmWithdrawalReceipt tokenOwner sig w))"

section \<open>Pending withdrawals\<close>

text \<open>
  The hash an oracle signs is Solidity's, from a library: the record \<open>sol_lib\<close> holds it, with the
  typed arguments it packs, and go-ethereum's conversion of bytes to an address.
\<close>

datatype sol_arg = SolUint256 int | SolAddress bytes | SolBytes bytes

record sol_lib =
  SoliditySHA3 :: "sol_arg list \<Rightarrow> bytes"
  BytesToAddress :: "bytes \<Rightarrow> bytes"

record PendingWithdrawalSummary =
  ps_TokenOwner :: address
  ps_Hash :: bytes

definition token_hash :: "sol_lib \<Rightarrow> WithdrawalReceipt \<Rightarrow> bytes option" where
  "token_hash H r =
     (let i = SolUint256 (nonneg_or (wr_TokenID r)); n = SolUint256 (nonneg_or (wr_TokenAmount r));
          c = SolAddress (BytesToAddress H (Local (wr_TokenContract r)))
      in
      case wr_TokenKind r of
        ERC721 \<Rightarrow> Some (SoliditySHA3 H [i, c])
      | ERC721X \<Rightarrow> Some (SoliditySHA3 H [i, n, c])
      | ERC20 \<Rightarrow> Some (SoliditySHA3 H [n, c])
      | ETH \<Rightarrow> Some (SoliditySHA3 H [n])
      | DiademCoin \<Rightarrow> Some (SoliditySHA3 H [n, c])
      | OtherKind _ \<Rightarrow> None)"

definition withdrawal_hash :: "sol_lib \<Rightarrow> address \<Rightarrow> WithdrawalReceipt \<Rightarrow> bytes option" where
  "withdrawal_hash H mainnetGateway r =
     map_option (\<lambda>hash. SoliditySHA3 H
       [SolAddress (BytesToAddress H (Local (wr_TokenOwner r))), SolUint256 (uint (wr_WithdrawalNonce r)),
        SolAddress (BytesToAddress H (Local mainnetGateway)), SolBytes hash]) (token_hash H r)"

definition summarise ::
    "sol_lib \<Rightarrow> address \<Rightarrow> 't gw_world \<Rightarrow> address \<Rightarrow> PendingWithdrawalSummary list
       \<Rightarrow> PendingWithdrawalSummary list res" where
  "summarise H mainnetGateway w ownerAddr summaries =
     (case la_WithdrawalReceipt (loadLocalAccount w ownerAddr) of
        None \<Rightarrow> Inl ErrMissingWithdrawalReceipt
      | Some receipt \<Rightarrow>
          if wr_OracleSignature receipt \<noteq> None then Inr summaries
          else
            (case withdrawal_hash H mainnetGateway receipt of
               None \<Rightarrow> Inr summaries
             | Some hash \<Rightarrow> Inr (summaries @ [\<lparr>ps_TokenOwner = ownerAddr, ps_Hash = hash\<rparr>])))"

definition PendingWithdrawals ::
    "sol_lib \<Rightarrow> address option \<Rightarrow> 't gw_world \<Rightarrow> PendingWithdrawalSummary list res" where
  "PendingWithdrawals H mainnetGateway w =
     (case mainnetGateway of
        None \<Rightarrow> Inl ErrTGInvalidRequest
      | Some mg \<Rightarrow> fold_res (summarise H mg w) (gs_TokenWithdrawers (loadState w)) [])"

section \<open>Unclaimed tokens\<close>

text \<open>
  The entries of a prefix come back in the order of their keys, as they were when the loop began.
\<close>

definition key_bytes :: "address \<Rightarrow> bytes" where
  "key_bytes a = go_bytes (ChainID a) @ Local a"

definition unclaimedTokensByOwner :: "'t gw_world \<Rightarrow> address \<Rightarrow> UnclaimedToken list" where
  "unclaimedTokensByOwner w ownerAddr =
     map snd (sort_key (\<lambda>e. key_bytes (snd (fst e))) (filter (\<lambda>e. fst (fst e) = ownerAddr) (gw_unclaimed w)))"

definition unclaimedTokenDepositorsByContract :: "'t gw_world \<Rightarrow> address \<Rightarrow> address list" where
  "unclaimedTokenDepositorsByContract w tokenAddr =
     map snd (sort_key (\<lambda>e. key_bytes (snd (fst e))) (filter (\<lambda>e. fst (fst e) = tokenAddr) (gw_depositors w)))"

definition reclaim_amount ::
    "'t evm_tokens \<Rightarrow> call_ctx \<Rightarrow> address \<Rightarrow> address \<Rightarrow> TokenKind \<Rightarrow> TokenAmount
       \<Rightarrow> TokenAmount list \<times> 't gw_world \<Rightarrow> (TokenAmount list \<times> 't gw_world) res" where
  "reclaim_amount T ctx ownerAddr tokenAddr kind a fw =
     (case fw of (failed, w) \<Rightarrow>
      (case transferTokenDeposit T ctx ownerAddr tokenAddr kind (ta_TokenID a) (ta_TokenAmount a) w of
         (Inr _, w) \<Rightarrow> Inr (failed, w)
       | (Inl (Panic msg), w) \<Rightarrow> Inl (Panic msg)
       | (Inl e, w) \<Rightarrow> Inr (failed @ [a], w)))"

definition reclaimDepositorTokensForContract ::
    "'t evm_tokens \<Rightarrow> call_ctx \<Rightarrow> address \<Rightarrow> address \<Rightarrow> UnclaimedToken \<Rightarrow> 't gw_world \<Rightarrow> 't gw_world res" where
  "reclaimDepositorTokensForContract T ctx ownerAddr tokenAddr u w =
     bind_res (fold_res (reclaim_amount T ctx ownerAddr tokenAddr (ut_TokenKind u)) (ut_Amounts u) ([], w)) (\<lambda>(failed, w).
     if failed = [] then
       Inr (w\<lparr>gw_unclaimed := AList.delete (ownerAddr, tokenAddr) (gw_unclaimed w),
              gw_depositors := AList.delete (tokenAddr, ownerAddr) (gw_depositors w)\<rparr>)
     else Inr (w\<lparr>gw_unclaimed := AList.update (ownerAddr, tokenAddr) (u\<lparr>ut_Amounts := failed\<rparr>) (gw_unclaimed w)\<rparr>))"

definition reclaimDepositorTokens ::
    "'t evm_tokens \<Rightarrow> call_ctx \<Rightarrow> address \<Rightarrow> 't gw_world \<Rightarrow> 't gw_world res" where
  "reclaimDepositorTokens T ctx ownerAddr w =
     fold_res (\<lambda>u. reclaimDepositorTokensForContract T ctx ownerAddr (token_of (ut_TokenContract u)) u)
       (unclaimedTokensByOwner w ownerAddr) w"

text \<open>An error of one depositor is logged; only a panic ends the loop.\<close>

definition reclaim_logged :: "address \<Rightarrow> 't gw_world \<Rightarrow> 't gw_world res \<Rightarrow> 't gw_world res" where
  "reclaim_logged ownerAddr w r =
     (case r of Inl (Panic msg) \<Rightarrow> Inl (Panic msg) | Inl e \<Rightarrow> Inr (emit (EvReclaimError ownerAddr) w) | Inr w \<Rightarrow> Inr w)"

definition ReclaimDepositorTokens ::
    "'t evm_tokens \<Rightarrow> call_ctx \<Rightarrow> address list \<Rightarrow> 't gw_world \<Rightarrow> 't gw_world res" where
  "ReclaimDepositorTokens T ctx depositors w =
     (if depositors = [] then
        bind_res (resolve ctx ''addressmapper'') (\<lambda>_.
        bind_res (resolveToMapped w (sender ctx)) (\<lambda>ownerAddr.
        reclaimDepositorTokens T ctx ownerAddr w))
      else
        bind_res (deref (gs_Owner (loadState w))) (\<lambda>owner.
        if owner \<noteq> sender ctx then Inl ErrTGNotAuthorized
        else fold_res (\<lambda>ownerAddr w. reclaim_logged ownerAddr w (reclaimDepositorTokens T ctx ownerAddr w)) depositors w))"

definition GetUnclaimedTokens :: "address option \<Rightarrow> 't gw_world \<Rightarrow> UnclaimedToken list res" where
  "GetUnclaimedTokens owner w = bind_res (deref owner) (\<lambda>a. Inr (unclaimedTokensByOwner w a))"

text \<open>
  The loop keeps the last token it loaded and the last amount it read: a depositor without an entry
  counts with what is left over from the one before.
\<close>

definition count_unclaimed ::
    "'t gw_world \<Rightarrow> address \<Rightarrow> address \<Rightarrow> UnclaimedToken option \<times> int \<times> int
       \<Rightarrow> (UnclaimedToken option \<times> int \<times> int) res" where
  "count_unclaimed w tokenAddr depositor loop =
     (case loop of (last_u, amount, acc) \<Rightarrow>
      let u = (case map_of (gw_unclaimed w) (depositor, tokenAddr) of None \<Rightarrow> last_u | Some u \<Rightarrow> Some u) in
      case u of
        None \<Rightarrow> Inr (u, amount, acc)
      | Some t \<Rightarrow>
          (case ut_TokenKind t of
             ERC721 \<Rightarrow> Inr (u, amount, acc + int (length (ut_Amounts t)))
           | ERC721X \<Rightarrow>
               bind_res (fold_res (\<lambda>a s. bind_res (deref (ta_TokenAmount a)) (\<lambda>n. Inr (s + n))) (ut_Amounts t) acc) (\<lambda>acc.
               Inr (u, amount, acc))
           | OtherKind _ \<Rightarrow> Inr (u, amount, acc)
           | _ \<Rightarrow>
               bind_res (case ut_Amounts t of [a] \<Rightarrow> deref (ta_TokenAmount a) | _ \<Rightarrow> Inr amount) (\<lambda>amount.
               Inr (u, amount, acc + amount))))"

definition GetUnclaimedContractTokens :: "address option \<Rightarrow> 't gw_world \<Rightarrow> int res" where
  "GetUnclaimedContractTokens tokenAddress w =
     (case tokenAddress of
        None \<Rightarrow> Inl ErrTGInvalidRequest
      | Some a \<Rightarrow>
          bind_res (fold_res (count_unclaimed w a) (unclaimedTokenDepositorsByContract w a) (None, 0, 0)) (\<lambda>(_, _, acc).
          Inr acc))"

text \<open>
  \<open>creator_of\<close> is \<open>ctx.ContractRecord\<close>: the creator the registry has for a contract. A depositor
  whose entry is missing is handled with an empty one.
\<close>

definition empty_unclaimed :: UnclaimedToken where
  "empty_unclaimed = \<lparr>ut_TokenContract = None, ut_TokenKind = ERC721, ut_Amounts = []\<rparr>"

definition reclaim_depositor ::
    "'t evm_tokens \<Rightarrow> call_ctx \<Rightarrow> address \<Rightarrow> address \<Rightarrow> 't gw_world \<Rightarrow> 't gw_world res" where
  "reclaim_depositor T ctx tokenAddr ownerAddr w =
     (case map_of (gw_unclaimed w) (ownerAddr, tokenAddr) of
        None \<Rightarrow>
          let w = emit (EvReclaimError ownerAddr) w in
          reclaim_logged ownerAddr w (reclaimDepositorTokensForContract T ctx ownerAddr tokenAddr empty_unclaimed w)
      | Some u \<Rightarrow> reclaim_logged ownerAddr w (reclaimDepositorTokensForContract T ctx ownerAddr tokenAddr u w))"

definition ReclaimContractTokens ::
    "'t evm_tokens \<Rightarrow> (address \<Rightarrow> address res) \<Rightarrow> call_ctx \<Rightarrow> address option \<Rightarrow> 't gw_world \<Rightarrow> 't gw_world res" where
  "ReclaimContractTokens T creator_of ctx tokenContract w =
     (case tokenContract of
        None \<Rightarrow> Inl ErrTGInvalidRequest
      | Some foreignContractAddr \<Rightarrow>
          bind_res (resolveToLocalContractAddr w foreignContractAddr) (\<lambda>localContractAddr.
          bind_res (creator_of localContractAddr) (\<lambda>creator.
          bind_res (if creator = sender ctx then Inr True
                    else bind_res (deref (gs_Owner (loadState w))) (\<lambda>owner. Inr (owner = sender ctx))) (\<lambda>allowed.
          if \<not> allowed then Inl ErrTGNotAuthorized
          else fold_res (reclaim_depositor T ctx foreignContractAddr)
                 (unclaimedTokenDepositorsByContract w foreignContractAddr) w))))"

section \<open>Contract mappings\<close>

definition contractMappingExists :: "'t gw_world \<Rightarrow> address \<Rightarrow> address \<Rightarrow> bool" where
  "contractMappingExists w foreignAddr localAddr \<longleftrightarrow>
     gw_mappings w foreignAddr \<noteq> None \<or> gw_mappings w localAddr \<noteq> None \<or>
     list_ex (\<lambda>(_, m). pm_ForeignContract m = foreignAddr \<or> pm_LocalContract m = localAddr) (gw_pending w)"

definition set_contract_mapping :: "address \<Rightarrow> address \<Rightarrow> 't gw_world \<Rightarrow> 't gw_world" where
  "set_contract_mapping foreignAddr localAddr w =
     emit (EvContractMappingConfirmed foreignAddr localAddr)
       (w\<lparr>gw_mappings := (gw_mappings w)(foreignAddr \<mapsto> \<lparr>am_From = foreignAddr, am_To = localAddr\<rparr>,
            localAddr \<mapsto> \<lparr>am_From = localAddr, am_To = foreignAddr\<rparr>)\<rparr>)"

text \<open>\<open>recoverSig\<close> is \<open>RecoverAddressFromTypedSig\<close>: the address that signed a hash.\<close>

definition AddContractMapping ::
    "sol_lib \<Rightarrow> (bytes \<Rightarrow> bytes \<Rightarrow> bytes res) \<Rightarrow> (address \<Rightarrow> address res) \<Rightarrow> call_ctx
       \<Rightarrow> address option \<Rightarrow> address option \<Rightarrow> slice \<Rightarrow> slice \<Rightarrow> 't gw_world \<Rightarrow> 't gw_world res" where
  "AddContractMapping H recoverSig creator_of ctx foreignContract localContract creatorSig txHash w =
     (case (foreignContract, localContract, creatorSig, txHash) of
        (Some foreignAddr, Some localAddr, Some sig, Some hash) \<Rightarrow>
          if ChainID foreignAddr = [] \<or> ChainID localAddr = [] \<or> foreignAddr = localAddr then Inl ErrTGInvalidRequest
          else
            bind_res (creator_of localAddr) (\<lambda>creator.
            if sender ctx \<noteq> creator then Inl ErrTGNotAuthorized
            else if contractMappingExists w foreignAddr localAddr then Inl ErrContractMappingExists
            else
              let state = loadState w; i = gs_NextContractMappingID state in
              bind_res (recoverSig (SoliditySHA3 H [SolAddress (BytesToAddress H (Local foreignAddr)),
                          SolAddress (BytesToAddress H (Local localAddr))]) sig) (\<lambda>signer.
              Inr (saveState (state\<lparr>gs_NextContractMappingID := i + 1\<rparr>)
                (w\<lparr>gw_pending := AList.update i \<lparr>pm_ID = i, pm_ForeignContract = foreignAddr, pm_LocalContract = localAddr,
                     pm_ForeignContractCreator = Address (ChainID foreignAddr) signer, pm_ForeignContractTxHash = hash\<rparr>
                     (gw_pending w)\<rparr>))))
      | _ \<Rightarrow> Inl ErrTGInvalidRequest)"

definition AddAuthorizedContractMapping ::
    "call_ctx \<Rightarrow> address option \<Rightarrow> address option \<Rightarrow> 't gw_world \<Rightarrow> 't gw_world res" where
  "AddAuthorizedContractMapping ctx foreignContract localContract w =
     (case (foreignContract, localContract) of
        (Some foreignAddr, Some localAddr) \<Rightarrow>
          if ChainID foreignAddr = [] \<or> ChainID localAddr = [] \<or> foreignAddr = localAddr then Inl ErrTGInvalidRequest
          else
            bind_res (deref (gs_Owner (loadState w))) (\<lambda>owner.
            if sender ctx \<noteq> owner then Inl ErrTGNotAuthorized
            else if contractMappingExists w foreignAddr localAddr then Inl ErrContractMappingExists
            else Inr (set_contract_mapping foreignAddr localAddr w))
      | _ \<Rightarrow> Inl ErrTGInvalidRequest)"

definition UnverifiedContractCreators :: "'t gw_world \<Rightarrow> (u64 \<times> bytes) list" where
  "UnverifiedContractCreators w =
     map (\<lambda>(_, m). (pm_ID m, pm_ForeignContractTxHash m)) (sort_key (\<lambda>e. be_encode64 (fst e)) (gw_pending w))"

record VerifiedContractCreator =
  vc_ContractMappingID :: u64
  vc_Creator :: "address option"
  vc_Contract :: "address option"

definition confirmContractMapping ::
    "PendingContractMapping \<Rightarrow> VerifiedContractCreator \<Rightarrow> 't gw_world \<Rightarrow> 't gw_world res" where
  "confirmContractMapping m confirmation w =
     (let w = w\<lparr>gw_pending := AList.delete (vc_ContractMappingID confirmation) (gw_pending w)\<rparr> in
      bind_res (deref (vc_Creator confirmation)) (\<lambda>creator.
      bind_res (deref (vc_Contract confirmation)) (\<lambda>contr.
      if pm_ForeignContractCreator m \<noteq> creator \<or> pm_ForeignContract m \<noteq> contr then Inr w
      else Inr (set_contract_mapping (pm_ForeignContract m) (pm_LocalContract m) w))))"

definition verify_creator :: "VerifiedContractCreator \<Rightarrow> 't gw_world \<Rightarrow> 't gw_world res" where
  "verify_creator c w =
     (case map_of (gw_pending w) (vc_ContractMappingID c) of
        None \<Rightarrow> Inr w
      | Some m \<Rightarrow> confirmContractMapping m c w)"

definition VerifyContractCreators :: "call_ctx \<Rightarrow> VerifiedContractCreator list \<Rightarrow> 't gw_world \<Rightarrow> 't gw_world res" where
  "VerifyContractCreators ctx creators w =
     (if creators = [] then Inl ErrTGInvalidRequest
      else if \<not> HasPermission (gw_perms w) (sender ctx) ''verify-creators'' [''oracle''] then Inl ErrTGNotAuthorized
      else fold_res verify_creator creators w)"

section \<open>The unsafe gateway of test networks\<close>

definition ResetMainnetBlock :: "u64 \<Rightarrow> 't gw_world \<Rightarrow> 't gw_world res" where
  "ResetMainnetBlock n w = Inr (saveState ((loadState w)\<lparr>gs_LastMainnetBlockNum := n\<rparr>) w)"

definition UnsafeAddOracle :: "address option \<Rightarrow> 't gw_world \<Rightarrow> 't gw_world res" where
  "UnsafeAddOracle req w =
     bind_res (deref req) (\<lambda>a.
     if a \<in> set (gw_oracles w) then Inl (Err ''TG009: oracle already registered'') else Inr (addOracle a w))"

definition UnsafeRemoveOracle :: "address option \<Rightarrow> 't gw_world \<Rightarrow> 't gw_world res" where
  "UnsafeRemoveOracle req w =
     bind_res (deref req) (\<lambda>a.
     if a \<notin> set (gw_oracles w) then Inl (Err ''TG010: oracle not registered'') else Inr (removeOracle a w))"

definition ResetOwnerKey :: "address option \<Rightarrow> 't gw_world \<Rightarrow> 't gw_world res" where
  "ResetOwnerKey req w =
     bind_res (deref (gs_Owner (loadState w))) (\<lambda>old.
     bind_res (deref req) (\<lambda>new. Inr (replace_owner old new w)))"

end
