(* ===== verification/Gateway_Withdrawals.thy ===== *)
theory Gateway_Withdrawals
  imports Gateway "HOL-Library.Multiset"
begin

text \<open>
  What the transfer gateway promises about withdrawals. The specification is a small machine: at
  most one withdrawal is pending per account and per recipient on the main chain, and every
  recipient has a counter that a completed withdrawal raises. The gateway's three copies of that
  fact (the list of withdrawers, the receipt in the local account, the withdrawer in the foreign
  account) are shown to agree in every reachable state and to implement the machine; the receipts
  offered for signing and the nonces they carry follow from it.
\<close>

section \<open>Views of the state\<close>

definition receipt_of :: "'t gw_world \<Rightarrow> address \<Rightarrow> WithdrawalReceipt option" where
  "receipt_of w a = la_WithdrawalReceipt (loadLocalAccount w a)"

definition withdrawer_of :: "'t gw_world \<Rightarrow> address \<Rightarrow> address option" where
  "withdrawer_of w f = fa_CurrentWithdrawer (loadForeignAccount w f)"

definition nonce_of :: "'t gw_world \<Rightarrow> address \<Rightarrow> u64" where
  "nonce_of w f = fa_WithdrawalNonce (loadForeignAccount w f)"

definition is_withdraw :: "gw_event \<Rightarrow> WithdrawalReceipt option" where
  "is_withdraw ev = (case ev of EvWithdraw r \<Rightarrow> Some r | _ \<Rightarrow> None)"

definition withdrawals_to :: "address \<Rightarrow> 't gw_world \<Rightarrow> WithdrawalReceipt list" where
  "withdrawals_to f w = filter (\<lambda>r. wr_TokenOwner r = f) (List.map_filter is_withdraw (gw_events w))"

text \<open>Accounts are stored under their owner, as \<open>saveLocalAccount\<close> and \<open>saveForeignAccount\<close> do.\<close>

definition accounts_keyed :: "'t gw_world \<Rightarrow> bool" where
  "accounts_keyed w \<longleftrightarrow> (\<forall>a. la_Owner (loadLocalAccount w a) = a) \<and> (\<forall>f. fa_Owner (loadForeignAccount w f) = f)"

definition withdrawals_ok :: "address list \<Rightarrow> 't gw_world \<Rightarrow> bool" where
  "withdrawals_ok tws w \<longleftrightarrow>
     accounts_keyed w \<and> distinct tws \<and> (\<forall>a. a \<in> set tws \<longleftrightarrow> receipt_of w a \<noteq> None) \<and>
     (\<forall>a r. receipt_of w a = Some r \<longrightarrow>
        withdrawer_of w (wr_TokenOwner r) = Some a \<and> wr_WithdrawalNonce r = nonce_of w (wr_TokenOwner r)) \<and>
     (\<forall>f a. withdrawer_of w f = Some a \<longrightarrow> (\<exists>r. receipt_of w a = Some r \<and> wr_TokenOwner r = f))"

text \<open>The receipts issued to a recipient are numbered one after the other, and the last one is the pending one.\<close>

definition nonces_ok :: "'t gw_world \<Rightarrow> bool" where
  "nonces_ok w \<longleftrightarrow>
     (\<forall>f. \<exists>n. nonce_of w f = of_nat n \<and>
        map wr_WithdrawalNonce (withdrawals_to f w) =
          map of_nat [0..<n + (if withdrawer_of w f = None then 0 else 1)])"

lemma loadLocalAccount_save [simp, store_simps]:
  "loadLocalAccount (saveLocalAccount acct w) a = (if a = la_Owner acct then acct else loadLocalAccount w a)"
  by (simp add: loadLocalAccount_def saveLocalAccount_def)

lemma loadForeignAccount_save [simp, store_simps]:
  "loadForeignAccount (saveForeignAccount acct w) f = (if f = fa_Owner acct then acct else loadForeignAccount w f)"
  by (simp add: loadForeignAccount_def saveForeignAccount_def)

lemma load_other [simp, store_simps]:
  "loadForeignAccount (saveLocalAccount acct w) = loadForeignAccount w"
  "loadLocalAccount (saveForeignAccount facct w) = loadLocalAccount w"
  "loadForeignAccount (saveState s w) = loadForeignAccount w"
  "loadLocalAccount (saveState s w) = loadLocalAccount w"
  "loadForeignAccount (emit ev w) = loadForeignAccount w"
  "loadLocalAccount (emit ev w) = loadLocalAccount w"
  "loadForeignAccount (saveSeenTxHash h k w) = loadForeignAccount w"
  "loadLocalAccount (saveSeenTxHash h k w) = loadLocalAccount w"
  "loadState (saveState s w) = s"
  "loadState (saveLocalAccount acct w) = loadState w"
  "loadState (saveForeignAccount facct w) = loadState w"
  "loadState (emit ev w) = loadState w"
  "loadState (saveSeenTxHash h k w) = loadState w"
  by (auto simp: fun_eq_iff loadForeignAccount_def loadLocalAccount_def loadState_def saveState_def
      saveLocalAccount_def saveForeignAccount_def saveSeenTxHash_def emit_def)

lemma events_of [simp, store_simps]:
  "gw_events (saveState s w) = gw_events w"
  "gw_events (saveLocalAccount acct w) = gw_events w"
  "gw_events (saveForeignAccount facct w) = gw_events w"
  "gw_events (saveSeenTxHash h k w) = gw_events w"
  "gw_events (emit ev w) = gw_events w @ [ev]"
  by (simp_all add: saveState_def saveLocalAccount_def saveForeignAccount_def saveSeenTxHash_def emit_def)

section \<open>Steps that leave withdrawals alone\<close>

text \<open>A step that changes neither account, nor the list of withdrawers, nor the receipts issued.\<close>

definition same_withdrawals :: "'t gw_world \<Rightarrow> 't gw_world \<Rightarrow> bool" where
  "same_withdrawals w w' \<longleftrightarrow>
     gw_local w' = gw_local w \<and> gw_foreign w' = gw_foreign w \<and>
     List.map_filter is_withdraw (gw_events w') = List.map_filter is_withdraw (gw_events w)"

lemma same_withdrawalsD:
  assumes "same_withdrawals w w'"
  shows "receipt_of w' = receipt_of w" "withdrawer_of w' = withdrawer_of w" "nonce_of w' = nonce_of w"
    "withdrawals_to f w' = withdrawals_to f w" "accounts_keyed w' = accounts_keyed w"
    "loadLocalAccount w' = loadLocalAccount w" "loadForeignAccount w' = loadForeignAccount w"
  using assms
  by (auto simp: same_withdrawals_def fun_eq_iff receipt_of_def withdrawer_of_def nonce_of_def withdrawals_to_def
      accounts_keyed_def loadLocalAccount_def loadForeignAccount_def)

lemma same_withdrawals_refl [simp, intro]: "same_withdrawals w w"
  by (simp add: same_withdrawals_def)

lemma same_withdrawals_trans [trans]: "same_withdrawals u v \<Longrightarrow> same_withdrawals v w \<Longrightarrow> same_withdrawals u w"
  by (simp add: same_withdrawals_def)

lemma same_withdrawals_ok:
  "same_withdrawals w w' \<Longrightarrow> withdrawals_ok tws w' = withdrawals_ok tws w"
  "same_withdrawals w w' \<Longrightarrow> nonces_ok w' = nonces_ok w"
  by (simp_all add: withdrawals_ok_def nonces_ok_def same_withdrawalsD)

text \<open>Moving tokens touches the ledgers only.\<close>

definition only_ledgers :: "'t gw_world \<Rightarrow> 't gw_world \<Rightarrow> bool" where
  "only_ledgers w w' \<longleftrightarrow> (\<exists>c e t. w' = w\<lparr>gw_coin := c, gw_eth := e, gw_tokens := t\<rparr>)"

lemma only_ledgers_refl [simp, intro]: "only_ledgers w w"
  unfolding only_ledgers_def by (rule exI [of _ "gw_coin w"], rule exI [of _ "gw_eth w"], rule exI [of _ "gw_tokens w"]) simp

lemma only_ledgers_trans: "only_ledgers u v \<Longrightarrow> only_ledgers v w \<Longrightarrow> only_ledgers u w"
  unfolding only_ledgers_def by (elim exE) (simp, blast)

lemma only_ledgersD:
  assumes "only_ledgers w w'"
  shows "same_withdrawals w w'" "gw_state w' = gw_state w" "loadState w' = loadState w"
    "gw_perms w' = gw_perms w" "gw_mappings w' = gw_mappings w" "gw_pending w' = gw_pending w"
    "gw_events w' = gw_events w" "gw_unclaimed w' = gw_unclaimed w" "gw_depositors w' = gw_depositors w"
    "gw_seen w' = gw_seen w"
  using assms by (auto simp: only_ledgers_def same_withdrawals_def loadState_def)

lemma only_ledgers_on:
  "on_coin f w = (r, w') \<Longrightarrow> only_ledgers w w'"
  "on_eth g w = (r, w') \<Longrightarrow> only_ledgers w w'"
  "on_tokens h w = (r, w') \<Longrightarrow> only_ledgers w w'"
proof -
  have coin: "only_ledgers w (w\<lparr>gw_coin := c\<rparr>)" for c
    unfolding only_ledgers_def by (rule exI [of _ c], rule exI [of _ "gw_eth w"], rule exI [of _ "gw_tokens w"]) simp
  have eth: "only_ledgers w (w\<lparr>gw_eth := e\<rparr>)" for e
    unfolding only_ledgers_def by (rule exI [of _ "gw_coin w"], rule exI [of _ e], rule exI [of _ "gw_tokens w"]) simp
  have tok: "only_ledgers w (w\<lparr>gw_tokens := t\<rparr>)" for t
    unfolding only_ledgers_def by (rule exI [of _ "gw_coin w"], rule exI [of _ "gw_eth w"], rule exI [of _ t]) simp
  show "on_coin f w = (r, w') \<Longrightarrow> only_ledgers w w'"
    by (auto simp: on_coin_def coin split: sum.split_asm)
  show "on_eth g w = (r, w') \<Longrightarrow> only_ledgers w w'"
    by (auto simp: on_eth_def eth split: sum.split_asm)
  show "on_tokens h w = (r, w') \<Longrightarrow> only_ledgers w w'"
    by (auto simp: on_tokens_def tok split: prod.split_asm)
qed

lemmas move_defs = coin_transfer_def coin_burn_def coin_mintToGateway_def eth_transfer_def eth_transferFrom_def eth_mintToGateway_def

lemma transferTokenDeposit_frame:
  assumes "transferTokenDeposit T ctx owner token kind i n w = (r, w')"
  shows "only_ledgers w w'"
  using assms unfolding transferTokenDeposit_def Let_def move_defs
  by (auto elim!: seq_resE dest!: only_ledgers_on split: TokenKind.split_asm if_split_asm)
    (blast intro: only_ledgers_trans)+

text \<open>A step that also leaves the rest of the control state alone: what it moves is tokens, claims and events.\<close>

definition same_control :: "'t gw_world \<Rightarrow> 't gw_world \<Rightarrow> bool" where
  "same_control w w' \<longleftrightarrow>
     same_withdrawals w w' \<and> gw_state w' = gw_state w \<and> gw_perms w' = gw_perms w \<and> gw_oracles w' = gw_oracles w \<and>
     gw_mappings w' = gw_mappings w \<and> gw_pending w' = gw_pending w"

lemma same_controlD:
  assumes "same_control w w'"
  shows "same_withdrawals w w'" "gw_state w' = gw_state w" "loadState w' = loadState w" "gw_perms w' = gw_perms w"
    "gw_mappings w' = gw_mappings w" "gw_pending w' = gw_pending w" "gw_oracles w' = gw_oracles w"
  using assms by (simp_all add: same_control_def loadState_def)

lemma same_control_refl [simp, intro]: "same_control w w"
  by (simp add: same_control_def)

lemma same_control_trans [trans]: "same_control u v \<Longrightarrow> same_control v w \<Longrightarrow> same_control u w"
  by (auto simp: same_control_def elim: same_withdrawals_trans)

lemma only_ledgers_books: "only_ledgers w w' \<Longrightarrow> same_control w w'"
  by (auto simp: only_ledgers_def same_control_def same_withdrawals_def)

lemma map_filter_snoc: "List.map_filter f (xs @ [x]) = List.map_filter f xs @ (case f x of None \<Rightarrow> [] | Some y \<Rightarrow> [y])"
  by (simp add: List.map_filter_def split: option.split)

lemma same_control_emit: "is_withdraw ev = None \<Longrightarrow> same_control w (emit ev w)"
  by (simp add: same_control_def same_withdrawals_def emit_def map_filter_snoc)

lemma same_control_seen [simp]: "same_control w (saveSeenTxHash h k w)"
  by (simp add: same_control_def same_withdrawals_def saveSeenTxHash_def)

lemma is_withdraw_simps [simp]:
  "is_withdraw (EvMainnetDeposit d) = None" "is_withdraw (EvMainnetWithdrawal d) = None"
  "is_withdraw (EvProcessEventError ev) = None" "is_withdraw (EvStoreUnclaimedToken u) = None"
  "is_withdraw (EvWithdraw r) = Some r" "is_withdraw (EvTokenWithdrawalSigned r) = None"
  "is_withdraw (EvContractMappingConfirmed a b) = None" "is_withdraw (EvReclaimError a) = None"
  by (simp_all add: is_withdraw_def)

lemma storeUnclaimedToken_books: "storeUnclaimedToken d w = Inr w' \<Longrightarrow> same_control w w'"
  unfolding storeUnclaimedToken_def
  by (auto elim!: bind_resE simp: Let_def same_control_def same_withdrawals_def emit_def map_filter_snoc)

lemma process_deposit_books:
  assumes "process_deposit tg T ctx ev d w = (out, w')" and "\<nexists>e. out = Abort e"
  shows "same_control w w'"
proof -
  have moved: "same_control w v" if "transferTokenDeposit T ctx a t k i n w = (r, v)" for a t k i n r v
    using that by (intro only_ledgers_books transferTokenDeposit_frame)
  have stored: "same_control w u"
    if "transferTokenDeposit T ctx a t k i n w = (r, v)" and "storeUnclaimedToken d (emit (EvProcessEventError ev) v) = Inr u"
    for a t k i n r v u
  proof -
    note moved [OF that(1)]
    also have "same_control v (emit (EvProcessEventError ev) v)" by (rule same_control_emit) simp
    also note storeUnclaimedToken_books [OF that(2)]
    finally show ?thesis .
  qed
  have emitted: "same_control w (emit (EvMainnetDeposit d) v)" if "transferTokenDeposit T ctx a t k i n w = (r, v)" for a t k i n r v
    using moved [OF that] by (rule same_control_trans) (rule same_control_emit, simp)
  show ?thesis
    using assms unfolding process_deposit_def Let_def
    by (auto split: if_split_asm sum.split_asm prod.split_asm go_error.split_asm
        intro: same_control_emit stored emitted same_control_trans [OF stored same_control_seen]
          same_control_trans [OF emitted same_control_seen])
qed

lemma reclaimDepositorTokensForContract_books:
  assumes "reclaimDepositorTokensForContract T ctx owner token u w = Inr w'"
  shows "same_control w w'"
proof -
  obtain failed v where loop: "fold_res (reclaim_amount T ctx owner token (ut_TokenKind u)) (ut_Amounts u) ([], w) = Inr (failed, v)"
    and w': "w' = (if failed = [] then v\<lparr>gw_unclaimed := AList.delete (owner, token) (gw_unclaimed v),
                      gw_depositors := AList.delete (token, owner) (gw_depositors v)\<rparr>
                   else v\<lparr>gw_unclaimed := AList.update (owner, token) (u\<lparr>ut_Amounts := failed\<rparr>) (gw_unclaimed v)\<rparr>)"
    using assms unfolding reclaimDepositorTokensForContract_def by (auto elim!: bind_resE split: if_split_asm)
  have "same_control w (snd (failed, v))"
  proof (rule fold_res_invariant [OF loop])
    fix a fw fw'
    assume "same_control w (snd fw)" and "reclaim_amount T ctx owner token (ut_TokenKind u) a fw = Inr fw'"
    moreover then have "only_ledgers (snd fw) (snd fw')"
      by (auto simp: reclaim_amount_def split: prod.split_asm sum.split_asm go_error.split_asm intro: transferTokenDeposit_frame)
    ultimately show "same_control w (snd fw')"
      by (blast intro: same_control_trans only_ledgers_books)
  qed simp
  then show ?thesis by (simp add: w' same_control_def same_withdrawals_def)
qed

lemma reclaimDepositorTokens_books:
  assumes "reclaimDepositorTokens T ctx owner w = Inr w'"
  shows "same_control w w'"
  using assms unfolding reclaimDepositorTokens_def
  by (rule fold_res_invariant) (blast intro: same_control_trans reclaimDepositorTokensForContract_books)+

lemma reclaim_logged_books:
  assumes "reclaim_logged owner v r = Inr w'" and "\<And>u. r = Inr u \<Longrightarrow> same_control v u"
  shows "same_control v w'"
  using assms by (auto simp: reclaim_logged_def same_control_emit split: sum.split_asm go_error.split_asm)

lemma ReclaimDepositorTokens_books:
  assumes "ReclaimDepositorTokens T ctx depositors w = Inr w'"
  shows "same_control w w'"
proof (cases "depositors = []")
  case True
  with assms show ?thesis
    unfolding ReclaimDepositorTokens_def by (auto elim!: bind_resE intro: reclaimDepositorTokens_books)
next
  case False
  with assms have "fold_res (\<lambda>a w. reclaim_logged a w (reclaimDepositorTokens T ctx a w)) depositors w = Inr w'"
    unfolding ReclaimDepositorTokens_def by (auto elim!: bind_resE split: if_split_asm)
  then show ?thesis
    by (rule fold_res_invariant) (blast intro: same_control_trans reclaim_logged_books reclaimDepositorTokens_books)+
qed

lemma reclaim_depositor_books:
  assumes "reclaim_depositor T ctx token owner w = Inr w'"
  shows "same_control w w'"
proof (cases "map_of (gw_unclaimed w) (owner, token)")
  case None
  have "same_control w (emit (EvReclaimError owner) w)" by (rule same_control_emit) simp
  also from assms None have "same_control (emit (EvReclaimError owner) w) w'"
    by (auto simp: reclaim_depositor_def Let_def intro: reclaim_logged_books reclaimDepositorTokensForContract_books)
  finally show ?thesis .
next
  case (Some u)
  with assms show ?thesis
    by (auto simp: reclaim_depositor_def intro: reclaim_logged_books reclaimDepositorTokensForContract_books)
qed

lemma ReclaimContractTokens_books:
  assumes "ReclaimContractTokens T creator_of ctx tc w = Inr w'"
  shows "same_control w w'"
proof -
  obtain tok where "fold_res (reclaim_depositor T ctx tok) (unclaimedTokenDepositorsByContract w tok) w = Inr w'"
    using assms unfolding ReclaimContractTokens_def by (auto elim!: bind_resE split: option.split_asm if_split_asm)
  then show ?thesis
    by (rule fold_res_invariant) (blast intro: same_control_trans reclaim_depositor_books)+
qed

section \<open>The specification\<close>

record wd_spec =
  pending_to :: "address \<rightharpoonup> address"
  completed :: "address \<Rightarrow> u64"

inductive wd_step :: "wd_spec \<Rightarrow> wd_spec \<Rightarrow> bool" where
  start: "pending_to s a = None \<Longrightarrow> f \<notin> ran (pending_to s) \<Longrightarrow>
     wd_step s (s\<lparr>pending_to := (pending_to s)(a \<mapsto> f)\<rparr>)"
| complete: "pending_to s a = Some f \<Longrightarrow>
     wd_step s (s\<lparr>pending_to := (pending_to s)(a := None), completed := (completed s)(f := completed s f + 1)\<rparr>)"

lemma wd_step_inj: "wd_step s s' \<Longrightarrow> inj_on (pending_to s) (dom (pending_to s)) \<Longrightarrow> inj_on (pending_to s') (dom (pending_to s'))"
proof (induction rule: wd_step.induct)
  case (start s a f)
  then show ?case by (auto simp: inj_on_def ran_def dom_def)
next
  case (complete s a f)
  then show ?case by (auto simp: inj_on_def dom_def)
qed

lemma wd_steps_inj: "wd_step\<^sup>*\<^sup>* s s' \<Longrightarrow> inj_on (pending_to s) (dom (pending_to s)) \<Longrightarrow> inj_on (pending_to s') (dom (pending_to s'))"
  by (induction rule: rtranclp_induct) (auto intro: wd_step_inj)

text \<open>
  An implementation of the machine: an invariant its steps keep, and a view under which every step
  is a sequence of steps of the machine.
\<close>

locale withdrawal_service =
  fixes ok :: "'s \<Rightarrow> bool"
    and step :: "'s \<Rightarrow> 's \<Rightarrow> bool"
    and view :: "'s \<Rightarrow> wd_spec"
  assumes step_ok: "ok s \<Longrightarrow> step s s' \<Longrightarrow> ok s'"
    and step_sim: "ok s \<Longrightarrow> step s s' \<Longrightarrow> wd_step\<^sup>*\<^sup>* (view s) (view s')"
begin

lemma steps_ok: "step\<^sup>*\<^sup>* s s' \<Longrightarrow> ok s \<Longrightarrow> ok s'"
  by (induction rule: rtranclp_induct) (auto intro: step_ok)

lemma steps_sim:
  assumes "step\<^sup>*\<^sup>* s s'" and "ok s"
  shows "wd_step\<^sup>*\<^sup>* (view s) (view s')"
  using assms(1)
proof (induction rule: rtranclp_induct)
  case base
  then show ?case by simp
next
  case (step t u)
  have "ok t" using step.hyps(1) assms(2) by (rule steps_ok)
  with step show ?case by (blast intro: step_sim rtranclp_trans)
qed

lemma steps_one_each:
  assumes "step\<^sup>*\<^sup>* s s'" and "ok s" and "pending_to (view s) = Map.empty"
    and "pending_to (view s') a = Some f" and "pending_to (view s') b = Some f"
  shows "a = b"
proof -
  have "inj_on (pending_to (view s')) (dom (pending_to (view s')))"
    using steps_sim [OF assms(1,2)] by (rule wd_steps_inj) (simp add: assms(3))
  with assms(4,5) show ?thesis by (auto simp: inj_on_def dom_def)
qed

end

definition wd_view :: "'t gw_world \<Rightarrow> wd_spec" where
  "wd_view w = \<lparr>pending_to = (\<lambda>a. map_option wr_TokenOwner (receipt_of w a)), completed = nonce_of w\<rparr>"

lemma same_withdrawals_view: "same_withdrawals w w' \<Longrightarrow> wd_view w' = wd_view w"
  by (simp add: wd_view_def same_withdrawalsD)

section \<open>Steps of the gateway\<close>

record 't gw_env =
  ge_T :: "'t evm_tokens"
  ge_H :: sol_lib
  ge_recover :: "bytes \<Rightarrow> bytes \<Rightarrow> bytes res"
  ge_creator :: "address \<Rightarrow> address res"
  ge_coinTG :: bool
  ge_unsafe :: bool

text \<open>
  Every method of the contract that changes its state, and what other contracts do in between. The
  methods of \<open>unsafe_gateway.go\<close> exist only where the unsafe contract is deployed.
\<close>

inductive gw_step :: "'t gw_env \<Rightarrow> 't gw_world \<Rightarrow> 't gw_world \<Rightarrow> bool" for E where
  add_oracle: "Gateway_AddOracle ctx a w = Inr w' \<Longrightarrow> gw_step E w w'"
| remove_oracle: "Gateway_RemoveOracle ctx a w = Inr w' \<Longrightarrow> gw_step E w w'"
| new_owner: "Gateway_ReplaceOwner ctx a w = Inr w' \<Longrightarrow> gw_step E w w'"
| batch: "ProcessEventBatch (ge_coinTG E) (ge_T E) ctx events w = Inr w' \<Longrightarrow> gw_step E w w'"
| withdraw_token: "WithdrawToken (ge_T E) ctx tc kind i n rc w = Inr w' \<Longrightarrow> gw_step E w w'"
| withdraw_eth: "WithdrawETH (ge_coinTG E) ctx n mg rc w = Inr w' \<Longrightarrow> gw_step E w w'"
| withdraw_coin: "WithdrawDiademCoin (ge_coinTG E) ctx n tc rc w = Inr w' \<Longrightarrow> gw_step E w w'"
| confirm: "ConfirmWithdrawalReceipt ctx a sig w = Inr w' \<Longrightarrow> gw_step E w w'"
| confirm2: "ConfirmWithdrawalReceiptV2 vs ctx a sig w = Inr w' \<Longrightarrow> gw_step E w w'"
| reclaim_dep: "ReclaimDepositorTokens (ge_T E) ctx ds w = Inr w' \<Longrightarrow> gw_step E w w'"
| reclaim_con: "ReclaimContractTokens (ge_T E) (ge_creator E) ctx tc w = Inr w' \<Longrightarrow> gw_step E w w'"
| add_mapping: "AddContractMapping (ge_H E) (ge_recover E) (ge_creator E) ctx f l sig h w = Inr w' \<Longrightarrow> gw_step E w w'"
| add_auth_mapping: "AddAuthorizedContractMapping ctx f l w = Inr w' \<Longrightarrow> gw_step E w w'"
| verify: "VerifyContractCreators ctx cs w = Inr w' \<Longrightarrow> gw_step E w w'"
| reset_block: "ge_unsafe E \<Longrightarrow> ResetMainnetBlock n w = Inr w' \<Longrightarrow> gw_step E w w'"
| unsafe_add: "ge_unsafe E \<Longrightarrow> UnsafeAddOracle a w = Inr w' \<Longrightarrow> gw_step E w w'"
| unsafe_remove: "ge_unsafe E \<Longrightarrow> UnsafeRemoveOracle a w = Inr w' \<Longrightarrow> gw_step E w w'"
| unsafe_owner: "ge_unsafe E \<Longrightarrow> ResetOwnerKey a w = Inr w' \<Longrightarrow> gw_step E w w'"
| others: "gw_step E w (w\<lparr>gw_coin := c, gw_eth := e, gw_mapper := m, gw_tokens := t\<rparr>)"

definition gw_empty :: "coin_store \<Rightarrow> coin_store \<Rightarrow> am_store \<Rightarrow> 't \<Rightarrow> 't gw_world" where
  "gw_empty c e m t =
     \<lparr>gw_state = None, gw_oracles = [], gw_local = Map.empty, gw_foreign = Map.empty, gw_unclaimed = [],
      gw_depositors = [], gw_seen = Map.empty, gw_mappings = Map.empty, gw_pending = [], gw_perms = [],
      gw_coin = c, gw_eth = e, gw_mapper = m, gw_tokens = t, gw_events = []\<rparr>"

text \<open>A state of the contract: its initialisation, then any number of steps.\<close>

definition gw_reachable :: "'t gw_env \<Rightarrow> 't gw_world \<Rightarrow> bool" where
  "gw_reachable E w \<longleftrightarrow>
     (\<exists>c e m t owner oracles n w0. Gateway_Init owner oracles n (gw_empty c e m t) = Inr w0 \<and> (gw_step E)\<^sup>*\<^sup>* w0 w)"

section \<open>The control operations\<close>

text \<open>The methods that change oracles, owner, mappings or the block number leave withdrawals alone.\<close>

definition same_queue :: "'t gw_world \<Rightarrow> 't gw_world \<Rightarrow> bool" where
  "same_queue w w' \<longleftrightarrow> same_withdrawals w w' \<and> gs_TokenWithdrawers (loadState w') = gs_TokenWithdrawers (loadState w)"

lemma same_queue_refl [simp, intro]: "same_queue w w"
  by (simp add: same_queue_def)

lemma same_queue_trans: "same_queue u v \<Longrightarrow> same_queue v w \<Longrightarrow> same_queue u w"
  by (auto simp: same_queue_def elim: same_withdrawals_trans)

lemma same_control_queue: "same_control w w' \<Longrightarrow> same_queue w w'"
  by (simp add: same_queue_def same_controlD)

lemma oracle_ops_queue: "same_queue w (addOracle a w)" "same_queue w (removeOracle a w)"
  "same_queue w (replace_owner old new w)"
  by (simp_all add: same_queue_def same_withdrawals_def addOracle_def removeOracle_def replace_owner_def Let_def
      loadState_def saveState_def)

lemma set_contract_mapping_queue: "same_queue w (set_contract_mapping f l w)"
  by (simp add: same_queue_def same_withdrawals_def set_contract_mapping_def emit_def map_filter_snoc loadState_def)

definition drop_pending :: "u64 \<Rightarrow> 't gw_world \<Rightarrow> 't gw_world" where
  "drop_pending i w = w\<lparr>gw_pending := AList.delete i (gw_pending w)\<rparr>"

lemma verify_creatorE:
  assumes "verify_creator c w = Inr w'"
  obtains (missing) "map_of (gw_pending w) (vc_ContractMappingID c) = None" "w' = w"
    | (rejected) m where "map_of (gw_pending w) (vc_ContractMappingID c) = Some m" "w' = drop_pending (vc_ContractMappingID c) w"
    | (confirmed) m where "map_of (gw_pending w) (vc_ContractMappingID c) = Some m"
        "vc_Creator c = Some (pm_ForeignContractCreator m)" "vc_Contract c = Some (pm_ForeignContract m)"
        "w' = set_contract_mapping (pm_ForeignContract m) (pm_LocalContract m) (drop_pending (vc_ContractMappingID c) w)"
  using assms unfolding verify_creator_def confirmContractMapping_def Let_def drop_pending_def [symmetric]
  by (auto elim!: bind_resE split: option.split_asm if_split_asm)

lemma drop_pending_queue: "same_queue w (drop_pending i w)"
  by (simp add: drop_pending_def same_queue_def same_withdrawals_def loadState_def)

lemma verify_creator_queue: "verify_creator c w = Inr w' \<Longrightarrow> same_queue w w'"
  by (erule verify_creatorE) (auto intro: same_queue_trans set_contract_mapping_queue drop_pending_queue)

lemma VerifyContractCreators_queue: "VerifyContractCreators ctx cs w = Inr w' \<Longrightarrow> same_queue w w'"
  unfolding VerifyContractCreators_def
  by (auto split: if_split_asm elim!: fold_res_invariant [where P = "same_queue w"]
      intro: same_queue_trans verify_creator_queue)

lemma AddContractMapping_queue: "AddContractMapping H rec cr ctx f l sig h w = Inr w' \<Longrightarrow> same_queue w w'"
  unfolding AddContractMapping_def
  by (auto split: option.split_asm if_split_asm elim!: bind_resE
      simp: Let_def same_queue_def same_withdrawals_def loadState_def saveState_def)

lemma control_ops_queue:
  "Gateway_AddOracle ctx a w = Inr w' \<Longrightarrow> same_queue w w'"
  "Gateway_RemoveOracle ctx a w = Inr w' \<Longrightarrow> same_queue w w'"
  "Gateway_ReplaceOwner ctx a w = Inr w' \<Longrightarrow> same_queue w w'"
  "AddAuthorizedContractMapping ctx f l w = Inr w' \<Longrightarrow> same_queue w w'"
  "ResetMainnetBlock n w = Inr w' \<Longrightarrow> same_queue w w'"
  "UnsafeAddOracle a w = Inr w' \<Longrightarrow> same_queue w w'"
  "UnsafeRemoveOracle a w = Inr w' \<Longrightarrow> same_queue w w'"
  "ResetOwnerKey a w = Inr w' \<Longrightarrow> same_queue w w'"
  "same_queue w (w\<lparr>gw_coin := c, gw_eth := e, gw_mapper := m, gw_tokens := t\<rparr>)"
  unfolding Gateway_AddOracle_def Gateway_RemoveOracle_def Gateway_ReplaceOwner_def AddAuthorizedContractMapping_def
    ResetMainnetBlock_def UnsafeAddOracle_def UnsafeRemoveOracle_def ResetOwnerKey_def
  by (auto split: option.split_asm if_split_asm elim!: bind_resE simp: oracle_ops_queue set_contract_mapping_queue)
    (simp_all add: same_queue_def same_withdrawals_def loadState_def saveState_def)

section \<open>Starting a withdrawal\<close>

lemma only_ok_ledgers:
  "only_ok m = Inr v \<Longrightarrow> (\<And>r u. m = (r, u) \<Longrightarrow> only_ledgers w u) \<Longrightarrow> only_ledgers w v"
  by (cases m) (auto simp: only_ok_def split: sum.split_asm)

text \<open>Every withdrawal passes the first checks, moves tokens, and files a receipt.\<close>

definition withdraws :: "call_ctx \<Rightarrow> TokenKind \<Rightarrow> 't gw_world \<Rightarrow> 't gw_world \<Rightarrow> bool" where
  "withdraws ctx kind w w' \<longleftrightarrow>
     (\<exists>rc f v t i n. start_withdrawal ctx rc w = Inr f \<and> only_ledgers w v \<and> file_receipt ctx f t kind i n v = Inr w')"

lemma WithdrawToken_withdraws:
  assumes "WithdrawToken T ctx tc kind i n rc w = Inr w'"
  shows "withdraws ctx kind w w'" "kind = ERC721 \<or> kind = ERC721X \<or> kind = ERC20"
proof -
  obtain f t v g where "start_withdrawal ctx rc w = Inr f" and "only_ok (on_tokens g w) = Inr v"
    and "file_receipt ctx f t kind i n v = Inr w'" and kind: "kind = ERC721 \<or> kind = ERC721X \<or> kind = ERC20"
    using assms unfolding WithdrawToken_def Let_def by (auto elim!: bind_resE split: option.split_asm if_split_asm)
  moreover from this(2) have "only_ledgers w v" by (rule only_ok_ledgers) (rule only_ledgers_on)
  ultimately show "withdraws ctx kind w w'" unfolding withdraws_def by blast
  show "kind = ERC721 \<or> kind = ERC721X \<or> kind = ERC20" by (rule kind)
qed

lemma WithdrawETH_withdraws:
  assumes "WithdrawETH tg ctx n mg rc w = Inr w'"
  shows "withdraws ctx ETH w w'"
proof -
  obtain f t v g where "start_withdrawal ctx rc w = Inr f" and "only_ok (on_eth g w) = Inr v"
    and "file_receipt ctx f t ETH None n v = Inr w'"
    using assms unfolding WithdrawETH_def move_defs by (auto elim!: bind_resE split: option.split_asm if_split_asm)
  moreover from this(2) have "only_ledgers w v" by (rule only_ok_ledgers) (rule only_ledgers_on)
  ultimately show ?thesis unfolding withdraws_def by blast
qed

lemma WithdrawDiademCoin_withdraws:
  assumes "WithdrawDiademCoin tg ctx n tc rc w = Inr w'"
  shows "withdraws ctx DiademCoin w w'"
proof -
  obtain f t v g where "start_withdrawal ctx rc w = Inr f" and "only_ok (on_coin g w) = Inr v"
    and "file_receipt ctx f t DiademCoin None n v = Inr w'"
    using assms unfolding WithdrawDiademCoin_def move_defs by (auto elim!: bind_resE split: option.split_asm if_split_asm)
  moreover from this(2) have "only_ledgers w v" by (rule only_ok_ledgers) (rule only_ledgers_on)
  ultimately show ?thesis unfolding withdraws_def by blast
qed

lemma start_withdrawalD:
  assumes "start_withdrawal ctx rc w = Inr f"
  shows "receipt_of w (sender ctx) = None" "withdrawer_of w f = None"
  using assms unfolding start_withdrawal_def receipt_of_def withdrawer_of_def
  by (auto elim!: bind_resE split: if_split_asm)

lemma file_receipt_views:
  assumes "file_receipt ctx f t k i n w = Inr w'" and keyed: "accounts_keyed w"
  defines "r \<equiv> \<lparr>wr_TokenOwner = f, wr_TokenContract = t, wr_TokenKind = k, wr_TokenID = i, wr_TokenAmount = n,
            wr_WithdrawalNonce = nonce_of w f, wr_OracleSignature = None\<rparr>"
  shows "receipt_of w' = (receipt_of w)(sender ctx := Some r)"
    "withdrawer_of w' = (withdrawer_of w)(f := Some (sender ctx))"
    "nonce_of w' = nonce_of w" "accounts_keyed w'"
    "gs_TokenWithdrawers (loadState w') = gs_TokenWithdrawers (loadState w) @ [sender ctx]"
    "gs_LastMainnetBlockNum (loadState w') = gs_LastMainnetBlockNum (loadState w)"
    "sender ctx \<notin> set (gs_TokenWithdrawers (loadState w))"
    "withdrawals_to g w' = withdrawals_to g w @ (if g = f then [r] else [])"
proof -
  have owners: "la_Owner (loadLocalAccount w a) = a" "fa_Owner (loadForeignAccount w g) = g" for a g
    using keyed by (simp_all add: accounts_keyed_def)
  define v where "v = saveLocalAccount ((loadLocalAccount w (sender ctx))\<lparr>la_WithdrawalReceipt := Some r\<rparr>)
     (saveForeignAccount ((loadForeignAccount w f)\<lparr>fa_CurrentWithdrawer := Some (sender ctx)\<rparr>) (emit (EvWithdraw r) w))"
  have fresh: "\<not> list_ex (\<lambda>a. sender ctx = a) (gs_TokenWithdrawers (loadState w))"
    and w': "w' = saveState ((loadState w)\<lparr>gs_TokenWithdrawers := gs_TokenWithdrawers (loadState w) @ [sender ctx]\<rparr>) v"
    using assms(1)
    by (auto simp: file_receipt_def Let_def addTokenWithdrawer_def v_def r_def nonce_of_def elim!: bind_resE split: if_split_asm)
  show "receipt_of w' = (receipt_of w)(sender ctx := Some r)"
    by (rule ext) (simp add: w' v_def receipt_of_def owners)
  show "withdrawer_of w' = (withdrawer_of w)(f := Some (sender ctx))"
    by (rule ext) (simp add: w' v_def withdrawer_of_def owners)
  show "nonce_of w' = nonce_of w"
    by (rule ext) (simp add: w' v_def nonce_of_def owners)
  show "accounts_keyed w'"
    using owners by (simp add: w' v_def accounts_keyed_def)
  show "gs_TokenWithdrawers (loadState w') = gs_TokenWithdrawers (loadState w) @ [sender ctx]"
    "gs_LastMainnetBlockNum (loadState w') = gs_LastMainnetBlockNum (loadState w)"
    by (simp_all add: w')
  show "sender ctx \<notin> set (gs_TokenWithdrawers (loadState w))"
    using fresh by (auto simp: list_ex_iff)
  show "withdrawals_to g w' = withdrawals_to g w @ (if g = f then [r] else [])"
    by (simp add: w' v_def withdrawals_to_def map_filter_snoc r_def)
qed

text \<open>The invariant with the list of withdrawers that the stored state has.\<close>

definition gw_ok :: "'t gw_world \<Rightarrow> bool" where
  "gw_ok w \<longleftrightarrow> withdrawals_ok (gs_TokenWithdrawers (loadState w)) w \<and> nonces_ok w"

lemma same_queue_ok:
  assumes "same_queue w w'"
  shows "gw_ok w' = gw_ok w" "wd_view w' = wd_view w"
  using assms same_withdrawals_ok [of w w'] same_withdrawals_view [of w w'] by (simp_all add: same_queue_def gw_ok_def)

lemma file_receipt_ok:
  assumes "file_receipt ctx f t k i n w = Inr w'" and "gw_ok w"
    and free: "receipt_of w (sender ctx) = None" "withdrawer_of w f = None"
  shows "gw_ok w'" "wd_step (wd_view w) (wd_view w')"
proof -
  have keyed: "accounts_keyed w" using assms(2) by (simp add: gw_ok_def withdrawals_ok_def)
  note V = file_receipt_views [OF assms(1) keyed]
  have W: "withdrawals_ok (gs_TokenWithdrawers (loadState w)) w" and N: "nonces_ok w"
    using assms(2) by (simp_all add: gw_ok_def)
  have other: "wr_TokenOwner r \<noteq> f" if "receipt_of w a = Some r" for a r
    using W free that unfolding withdrawals_ok_def by fastforce
  have idle: "withdrawer_of w g \<noteq> Some (sender ctx)" for g
    using W free unfolding withdrawals_ok_def by fastforce
  have "withdrawals_ok (gs_TokenWithdrawers (loadState w')) w'"
    using W free other idle V(4) unfolding withdrawals_ok_def V(1-3,5) by auto
  moreover have "nonces_ok w'"
    unfolding nonces_ok_def
  proof
    fix g
    obtain m where "nonce_of w g = of_nat m"
      and "map wr_WithdrawalNonce (withdrawals_to g w) = map of_nat [0..<m + (if withdrawer_of w g = None then 0 else 1)]"
      using N by (auto simp: nonces_ok_def)
    then show "\<exists>m. nonce_of w' g = of_nat m \<and>
        map wr_WithdrawalNonce (withdrawals_to g w') = map of_nat [0..<m + (if withdrawer_of w' g = None then 0 else 1)]"
      using free by (intro exI [of _ m]) (auto simp: V)
  qed
  ultimately show "gw_ok w'" by (simp add: gw_ok_def)
  have "f \<notin> ran (pending_to (wd_view w))"
    using other by (auto simp: wd_view_def ran_def)
  moreover have "pending_to (wd_view w) (sender ctx) = None"
    using free by (simp add: wd_view_def)
  moreover have "wd_view w' = (wd_view w)\<lparr>pending_to := (pending_to (wd_view w))(sender ctx \<mapsto> f)\<rparr>"
    by (simp add: wd_view_def V fun_eq_iff)
  ultimately show "wd_step (wd_view w) (wd_view w')"
    by (metis wd_step.start)
qed

lemma withdraws_ok:
  assumes "withdraws ctx k w w'" and "gw_ok w"
  shows "gw_ok w'" "wd_step (wd_view w) (wd_view w')"
proof -
  obtain rc f v t i n where start: "start_withdrawal ctx rc w = Inr f" and moved: "only_ledgers w v"
    and filed: "file_receipt ctx f t k i n v = Inr w'"
    using assms(1) by (auto simp: withdraws_def)
  have same: "same_queue w v" using moved by (intro same_control_queue only_ledgers_books)
  have "receipt_of v (sender ctx) = None" "withdrawer_of v f = None"
    using start_withdrawalD [OF start] same_withdrawalsD [of w v] same by (simp_all add: same_queue_def)
  from file_receipt_ok [OF filed _ this] same_queue_ok [OF same] assms(2)
  show "gw_ok w'" "wd_step (wd_view w) (wd_view w')" by simp_all
qed

section \<open>Completing a withdrawal\<close>

lemma remove_swap_mset:
  assumes "x \<in> set xs"
  obtains ys where "remove_swap x xs = Some ys" "mset ys = mset xs - {#x#}"
proof -
  obtain i where f: "find (\<lambda>i. xs ! i = x) [0..<length xs] = Some i"
  proof (cases "find (\<lambda>i. xs ! i = x) [0..<length xs]")
    case None
    with assms show ?thesis by (auto simp: find_None_iff in_set_conv_nth)
  qed simp
  then have i: "i < length xs" "xs ! i = x"
    by (auto simp: find_Some_iff)
  define zs where "zs = xs[i := last xs]"
  have "zs \<noteq> []" using i by (auto simp: zs_def)
  then have "mset zs = add_mset (last zs) (mset (butlast zs))"
    by (metis append_butlast_last_id mset_append mset.simps add.commute add_mset_add_single)
  moreover have "last zs = last xs"
    using i by (cases "xs = []") (auto simp: zs_def last_list_update)
  moreover have "mset zs = add_mset (last xs) (mset xs - {#x#})"
    using i by (simp add: zs_def mset_update)
  ultimately have "mset (butlast zs) = mset xs - {#x#}" by simp
  moreover have "remove_swap x xs = Some (butlast zs)"
    using f by (simp add: zs_def)
  ultimately show ?thesis by (rule that [rotated])
qed

lemma remove_swap_distinct:
  assumes "x \<in> set xs" and "distinct xs"
  obtains ys where "remove_swap x xs = Some ys" "distinct ys" "set ys = set xs - {x}"
proof -
  obtain ys where ys: "remove_swap x xs = Some ys" and "mset ys = mset xs - {#x#}"
    using assms(1) by (rule remove_swap_mset)
  then have "mset ys = mset (remove1 x xs)" by simp
  then have "distinct ys" "set ys = set xs - {x}"
    using assms(2) by (metis mset_eq_imp_distinct_iff distinct_remove1, metis mset_eq_setD set_remove1_eq)
  with ys show ?thesis by (rule that)
qed

lemma withdrawals_okD:
  assumes "withdrawals_ok tws w"
  shows "receipt_of w a = Some r \<Longrightarrow> withdrawer_of w (wr_TokenOwner r) = Some a"
    "withdrawer_of w f = Some a \<Longrightarrow> \<exists>r. receipt_of w a = Some r \<and> wr_TokenOwner r = f"
    "a \<in> set tws \<longleftrightarrow> receipt_of w a \<noteq> None"
    "receipt_of w a = Some r \<Longrightarrow> wr_WithdrawalNonce r = nonce_of w (wr_TokenOwner r)"
    "distinct tws" "accounts_keyed w"
  using assms unfolding withdrawals_ok_def by blast+

text \<open>Completing succeeds for a pending withdrawal and changes nothing otherwise.\<close>

lemma completeTokenWithdraw_cases:
  assumes "completeTokenWithdraw d state w = (r, w')" and ok: "withdrawals_ok (gs_TokenWithdrawers state) w"
  obtains (none) e where "r = Inl e" "w' = w"
    | (paid) state' f a where "r = Inr state'" "tt_TokenOwner d = Some f" "withdrawer_of w f = Some a"
        "receipt_of w a \<noteq> None"
        "w' = saveForeignAccount ((loadForeignAccount w f)\<lparr>fa_WithdrawalNonce := nonce_of w f + 1, fa_CurrentWithdrawer := None\<rparr>)
                (saveLocalAccount ((loadLocalAccount w a)\<lparr>la_WithdrawalReceipt := None\<rparr>) w)"
        "distinct (gs_TokenWithdrawers state')" "set (gs_TokenWithdrawers state') = set (gs_TokenWithdrawers state) - {a}"
        "state' = state\<lparr>gs_TokenWithdrawers := gs_TokenWithdrawers state'\<rparr>"
  using assms(1) unfolding completeTokenWithdraw_def Let_def
proof (cases rule: seq_resE)
  case (fail e)
  then show ?thesis using none by simp
next
  case (step f v)
  then have v: "v = w" and f: "tt_TokenOwner d = Some f"
    by (auto simp: validateTokenWithdrawal_def split: option.split_asm if_split_asm TokenKind.split_asm)
  show ?thesis
  proof (cases "withdrawer_of w f")
    case None
    with step v show ?thesis by (intro none) (auto simp: withdrawer_of_def)
  next
    case (Some a)
    then obtain r0 where r0: "receipt_of w a = Some r0"
      using withdrawals_okD(2) [OF ok] by blast
    then have a: "a \<in> set (gs_TokenWithdrawers state)"
      using withdrawals_okD(3) [OF ok] by simp
    have "distinct (gs_TokenWithdrawers state)" using ok by (simp add: withdrawals_ok_def)
    with a obtain ys where ys: "remove_swap a (gs_TokenWithdrawers state) = Some ys" "distinct ys"
        "set ys = set (gs_TokenWithdrawers state) - {a}"
      by (rule remove_swap_distinct)
    show ?thesis
      using step v Some r0 ys(2,3) f
      by (intro paid [of "state\<lparr>gs_TokenWithdrawers := ys\<rparr>" f a])
        (auto simp: removeTokenWithdrawer_def ys(1) withdrawer_of_def receipt_of_def nonce_of_def simp del: remove_swap.simps)
  qed
qed

lemma completeTokenWithdraw_ok:
  assumes "completeTokenWithdraw d state w = (r, w')" and ok: "withdrawals_ok (gs_TokenWithdrawers state) w" and N: "nonces_ok w"
  shows "r = Inr state' \<Longrightarrow> withdrawals_ok (gs_TokenWithdrawers state') w'" "r = Inl e \<Longrightarrow> w' = w"
    "nonces_ok w'" "wd_step\<^sup>*\<^sup>* (wd_view w) (wd_view w')"
    "r = Inr state' \<Longrightarrow> gs_LastMainnetBlockNum state' = gs_LastMainnetBlockNum state"
proof -
  have "(r = Inr state' \<longrightarrow> withdrawals_ok (gs_TokenWithdrawers state') w' \<and>
           gs_LastMainnetBlockNum state' = gs_LastMainnetBlockNum state) \<and>
        (r = Inl e \<longrightarrow> w' = w) \<and> nonces_ok w' \<and> wd_step\<^sup>*\<^sup>* (wd_view w) (wd_view w')"
    using assms(1,2)
  proof (cases rule: completeTokenWithdraw_cases)
    case none
    then show ?thesis using N by simp
  next
    case (paid s f a)
    have owners: "la_Owner (loadLocalAccount w b) = b" "fa_Owner (loadForeignAccount w g) = g" for b g
      using ok by (simp_all add: withdrawals_ok_def accounts_keyed_def)
    have V: "receipt_of w' = (receipt_of w)(a := None)" "withdrawer_of w' = (withdrawer_of w)(f := None)"
      "nonce_of w' = (nonce_of w)(f := nonce_of w f + 1)"
      by (auto simp: paid(5) fun_eq_iff receipt_of_def withdrawer_of_def nonce_of_def owners)
    have keyed: "accounts_keyed w'"
      using owners by (auto simp: paid(5) accounts_keyed_def)
    have evs: "withdrawals_to g w' = withdrawals_to g w" for g
      by (simp add: paid(5) withdrawals_to_def)
    obtain r0 where r0: "receipt_of w a = Some r0" "wr_TokenOwner r0 = f"
      using withdrawals_okD(2) [OF ok paid(3)] by blast
    have other: "wr_TokenOwner r1 \<noteq> f" if "receipt_of w b = Some r1" "b \<noteq> a" for b r1
      using withdrawals_okD(1) [OF ok that(1)] that(2) paid(3) by auto
    have idle: "withdrawer_of w g \<noteq> Some a" if "g \<noteq> f" for g
      using withdrawals_okD(2) [OF ok, of g a] r0 that by auto
    have "withdrawals_ok (gs_TokenWithdrawers s) w'"
      using ok paid(6,7) keyed other idle unfolding withdrawals_ok_def V by auto
    moreover have "nonces_ok w'"
      unfolding nonces_ok_def
    proof
      fix g
      obtain m where m: "nonce_of w g = of_nat m"
          "map wr_WithdrawalNonce (withdrawals_to g w) = map of_nat [0..<m + (if withdrawer_of w g = None then 0 else 1)]"
        using N by (auto simp: nonces_ok_def)
      then show "\<exists>m. nonce_of w' g = of_nat m \<and>
          map wr_WithdrawalNonce (withdrawals_to g w') = map of_nat [0..<m + (if withdrawer_of w' g = None then 0 else 1)]"
        using paid(3) by (intro exI [of _ "if g = f then m + 1 else m"]) (auto simp: V evs add.commute)
    qed
    moreover have "wd_view w' = (wd_view w)\<lparr>pending_to := (pending_to (wd_view w))(a := None),
        completed := (completed (wd_view w))(f := completed (wd_view w) f + 1)\<rparr>"
      by (simp add: wd_view_def V fun_eq_iff)
    moreover have "pending_to (wd_view w) a = Some f"
      using r0 by (simp add: wd_view_def)
    ultimately have "withdrawals_ok (gs_TokenWithdrawers s) w'" "nonces_ok w'" "wd_step\<^sup>*\<^sup>* (wd_view w) (wd_view w')"
      using wd_step.complete by (auto intro!: r_into_rtranclp)
    moreover have "gs_LastMainnetBlockNum s = gs_LastMainnetBlockNum state"
      by (subst paid(8)) simp
    ultimately show ?thesis using paid(1) by auto
  qed
  then show "r = Inr state' \<Longrightarrow> withdrawals_ok (gs_TokenWithdrawers state') w'" "r = Inl e \<Longrightarrow> w' = w"
    "nonces_ok w'" "wd_step\<^sup>*\<^sup>* (wd_view w) (wd_view w')"
    "r = Inr state' \<Longrightarrow> gs_LastMainnetBlockNum state' = gs_LastMainnetBlockNum state"
    by simp_all
qed

section \<open>Batches\<close>

definition loop_ok :: "batch_loop \<times> 't gw_world \<Rightarrow> bool" where
  "loop_ok bw \<longleftrightarrow> withdrawals_ok (gs_TokenWithdrawers (bl_state (fst bw))) (snd bw) \<and> nonces_ok (snd bw)"

lemma process_withdrawalE:
  assumes "process_withdrawal tg ctx ev d state w = (out, state', w')" and "\<nexists>e. out = Abort e"
  obtains (skip) "state' = state" "w' = emit (EvProcessEventError ev) w"
    | (bad) e v where "completeTokenWithdraw d state w = (Inl e, v)" "state' = state" "w' = emit (EvProcessEventError ev) v"
    | (good) v where "completeTokenWithdraw d state w = (Inr state', v)"
        "w' = (if feature_enabled ctx ''tg:check-txhash'' False then saveSeenTxHash (tt_TxHash d) (tt_TokenKind d) else id)
                (emit (EvMainnetWithdrawal d) v)"
proof (cases "completeTokenWithdraw d state w")
  case (Pair r v)
  show ?thesis
  proof (cases r)
    case (Inl e)
    then show ?thesis
      using assms skip bad [of e v] Pair unfolding process_withdrawal_def Let_def by (auto split: if_split_asm)
  next
    case (Inr s)
    then show ?thesis
      using assms skip good [of v] Pair unfolding process_withdrawal_def Let_def by (auto split: if_split_asm)
  qed
qed

lemma process_withdrawal_ok:
  assumes "process_withdrawal tg ctx ev d state w = (out, state', w')" and "\<nexists>e. out = Abort e"
    and "withdrawals_ok (gs_TokenWithdrawers state) w" and "nonces_ok w"
  shows "withdrawals_ok (gs_TokenWithdrawers state') w' \<and> nonces_ok w' \<and> wd_step\<^sup>*\<^sup>* (wd_view w) (wd_view w')"
  using assms(1,2)
proof (cases rule: process_withdrawalE)
  case skip
  have "same_withdrawals w w'" unfolding skip by (rule same_controlD, rule same_control_emit) simp
  then show ?thesis
    using assms(3,4) same_withdrawals_ok [of w w'] same_withdrawals_view [of w w'] by (simp add: skip)
next
  case (bad e v)
  note C = completeTokenWithdraw_ok [OF bad(1) assms(3,4)]
  have "same_withdrawals w w'" unfolding bad(3) C(2) [OF refl] by (rule same_controlD, rule same_control_emit) simp
  then show ?thesis
    using assms(3,4) same_withdrawals_ok [of w w'] same_withdrawals_view [of w w'] by (simp add: bad(2))
next
  case (good v)
  note C = completeTokenWithdraw_ok [OF good(1) assms(3,4)]
  have "same_control v (emit (EvMainnetWithdrawal d) v)" by (rule same_control_emit) simp
  also have "same_control (emit (EvMainnetWithdrawal d) v) w'" unfolding good(2) by simp
  finally have "same_withdrawals v w'" by (rule same_controlD)
  then show ?thesis
    using C(1) [OF refl] C(3,4) same_withdrawals_ok [of v w'] same_withdrawals_view [of v w'] by simp
qed

text \<open>The end of an iteration.\<close>

definition close_event :: "MainnetEvent \<Rightarrow> batch_loop \<Rightarrow> outcome \<times> GatewayState \<times> 't gw_world \<Rightarrow> (batch_loop \<times> 't gw_world) res" where
  "close_event ev b r =
     (case r of
        (Abort e, _, _) \<Rightarrow> Inl e
      | (Skip, state, w) \<Rightarrow> Inr (b\<lparr>bl_state := state\<rparr>, w)
      | (Count, state, w) \<Rightarrow>
          let b = b\<lparr>bl_state := state\<rparr> in
          Inr (if me_EthBlock ev > bl_lastEthBlock b
               then b\<lparr>bl_blockCount := bl_blockCount b + 1, bl_lastEthBlock := me_EthBlock ev\<rparr> else b, w))"

lemma close_eventE:
  assumes "close_event ev b (out, state, w) = Inr (b', w')"
  shows "\<nexists>e. out = Abort e" "w' = w" "bl_state b' = state"
  using assms by (auto simp: close_event_def Let_def split: outcome.split_asm if_split_asm)

lemma process_eventE:
  assumes "process_event tg T ctx ev (b, w) = Inr (b', w')"
  obtains (old) "b' = b" "w' = w"
    | (dep) d out where "me_Payload ev = Deposit d" "process_deposit tg T ctx ev d w = (out, w')" "\<nexists>e. out = Abort e"
        "bl_state b' = bl_state b"
    | (wd) d out where "me_Payload ev = Withdrawal d"
        "process_withdrawal tg ctx ev d (bl_state b) w = (out, bl_state b', w')" "\<nexists>e. out = Abort e"
proof (cases "me_EthBlock ev \<le> gs_LastMainnetBlockNum (bl_state b)")
  case True
  then show ?thesis
    using assms old unfolding process_event_def by (simp split: if_split_asm)
next
  case False
  show ?thesis
  proof (cases "me_Payload ev")
    case (Deposit d)
    obtain out v where d: "process_deposit tg T ctx ev d w = (out, v)" by fastforce
    with assms False Deposit have "close_event ev b (out, bl_state b, v) = Inr (b', w')"
      unfolding process_event_def close_event_def by (simp split: if_split_asm)
    from close_eventE [OF this] d show ?thesis using dep [of d out] Deposit by simp
  next
    case (Withdrawal d)
    obtain out st v where d: "process_withdrawal tg ctx ev d (bl_state b) w = (out, st, v)"
      by (metis prod_cases3)
    with assms False Withdrawal have "close_event ev b (out, st, v) = Inr (b', w')"
      unfolding process_event_def close_event_def by (simp split: if_split_asm)
    from close_eventE [OF this] d show ?thesis using wd [of d out] Withdrawal by simp
  next
    case NoPayload
    with assms False have "close_event ev b (Skip, bl_state b, w) = Inr (b', w')"
      unfolding process_event_def close_event_def by (simp split: if_split_asm)
    then show ?thesis using old by (simp add: close_event_def)
  qed
qed

lemma process_event_ok:
  assumes "process_event tg T ctx ev (b, w) = Inr (b', w')" and "loop_ok (b, w)"
  shows "loop_ok (b', w') \<and> wd_step\<^sup>*\<^sup>* (wd_view w) (wd_view w')"
  using assms(1)
proof (cases rule: process_eventE)
  case (dep d out)
  have "same_withdrawals w w'" using process_deposit_books [OF dep(2,3)] by (rule same_controlD)
  then show ?thesis
    using assms(2) same_withdrawals_ok [of w w'] same_withdrawals_view [of w w'] by (simp add: loop_ok_def dep(4))
next
  case (wd d out)
  show ?thesis
    using process_withdrawal_ok [OF wd(2,3)] assms(2) by (simp add: loop_ok_def)
qed (use assms(2) in auto)

lemma batch_loop_ok:
  assumes "fold_res (process_event tg T ctx) events (b, w) = Inr (b', w')" and "loop_ok (b, w)"
  shows "loop_ok (b', w') \<and> wd_step\<^sup>*\<^sup>* (wd_view w) (wd_view w')"
proof -
  have "(\<lambda>bw. loop_ok bw \<and> wd_step\<^sup>*\<^sup>* (wd_view w) (wd_view (snd bw))) (b', w')"
  proof (rule fold_res_invariant [OF assms(1)])
    fix ev bw bw'
    assume "loop_ok bw \<and> wd_step\<^sup>*\<^sup>* (wd_view w) (wd_view (snd bw))" and "process_event tg T ctx ev bw = Inr bw'"
    then show "loop_ok bw' \<and> wd_step\<^sup>*\<^sup>* (wd_view w) (wd_view (snd bw'))"
      by (cases bw; cases bw') (auto dest: process_event_ok intro: rtranclp_trans)
  qed (use assms(2) in simp)
  then show ?thesis by simp
qed

lemma ProcessEventBatchE:
  assumes "ProcessEventBatch tg T ctx events w = Inr w'"
  obtains b v where
    "fold_res (process_event tg T ctx) events (\<lparr>bl_state = loadState w, bl_blockCount = 0, bl_lastEthBlock = 0\<rparr>, w) = Inr (b, v)"
    "bl_blockCount b \<noteq> 0" "w' = saveState ((bl_state b)\<lparr>gs_LastMainnetBlockNum := bl_lastEthBlock b\<rparr>) v"
    "HasPermission (gw_perms w) (sender ctx) ''submit-events'' [''oracle'']"
  using assms unfolding ProcessEventBatch_def by (auto elim!: bind_resE split: if_split_asm)

lemma saveState_withdrawals: "same_withdrawals w (saveState s w)"
  by (simp add: same_withdrawals_def saveState_def)

lemma ProcessEventBatch_ok:
  assumes "ProcessEventBatch tg T ctx events w = Inr w'" and "gw_ok w"
  shows "gw_ok w'" "wd_step\<^sup>*\<^sup>* (wd_view w) (wd_view w')"
proof -
  from assms(1) obtain b v where
    loop: "fold_res (process_event tg T ctx) events (\<lparr>bl_state = loadState w, bl_blockCount = 0, bl_lastEthBlock = 0\<rparr>, w) = Inr (b, v)"
    and w': "w' = saveState ((bl_state b)\<lparr>gs_LastMainnetBlockNum := bl_lastEthBlock b\<rparr>) v"
    by (rule ProcessEventBatchE)
  from batch_loop_ok [OF loop] assms(2)
  have "loop_ok (b, v)" and sim: "wd_step\<^sup>*\<^sup>* (wd_view w) (wd_view v)" by (simp_all add: loop_ok_def gw_ok_def)
  have same: "same_withdrawals v w'" unfolding w' by (rule saveState_withdrawals)
  show "gw_ok w'"
    using \<open>loop_ok (b, v)\<close> same_withdrawals_ok [OF same] by (simp add: loop_ok_def gw_ok_def w')
  show "wd_step\<^sup>*\<^sup>* (wd_view w) (wd_view w')"
    using sim same_withdrawals_view [OF same] by simp
qed

section \<open>Signing\<close>

lemma doConfirm_views:
  assumes "doConfirmWithdrawalReceipt tokenOwner sig w = Inr w'" and keyed: "accounts_keyed w"
  obtains a r s where "tokenOwner = Some a" "sig = Some s" "receipt_of w a = Some r" "wr_OracleSignature r = None"
    "receipt_of w' = (receipt_of w)(a := Some (r\<lparr>wr_OracleSignature := Some s\<rparr>))"
    "withdrawer_of w' = withdrawer_of w" "nonce_of w' = nonce_of w" "accounts_keyed w'" "loadState w' = loadState w"
    "\<And>f. withdrawals_to f w' = withdrawals_to f w"
proof -
  from assms(1) obtain a s r where req: "tokenOwner = Some a" "sig = Some s" and r: "receipt_of w a = Some r"
    and unsigned: "wr_OracleSignature r = None"
    and w': "w' = emit (EvTokenWithdrawalSigned (r\<lparr>wr_OracleSignature := Some s\<rparr>))
       (saveLocalAccount ((loadLocalAccount w a)\<lparr>la_WithdrawalReceipt := Some (r\<lparr>wr_OracleSignature := Some s\<rparr>)\<rparr>) w)"
    by (auto simp: doConfirmWithdrawalReceipt_def Let_def receipt_of_def split: option.split_asm if_split_asm)
  have owners: "la_Owner (loadLocalAccount w b) = b" "fa_Owner (loadForeignAccount w g) = g" for b g
    using keyed by (simp_all add: accounts_keyed_def)
  show ?thesis
  proof (rule that [OF req r unsigned])
    show "receipt_of w' = (receipt_of w)(a := Some (r\<lparr>wr_OracleSignature := Some s\<rparr>))"
      by (rule ext) (simp add: w' receipt_of_def owners)
    show "withdrawer_of w' = withdrawer_of w" "nonce_of w' = nonce_of w"
      by (simp_all add: w' withdrawer_of_def nonce_of_def fun_eq_iff)
    show "accounts_keyed w'" using owners by (simp add: w' accounts_keyed_def)
    show "loadState w' = loadState w" by (simp add: w')
    show "withdrawals_to f w' = withdrawals_to f w" for f
      by (simp add: w' withdrawals_to_def map_filter_snoc)
  qed
qed

lemma doConfirm_ok:
  assumes "doConfirmWithdrawalReceipt tokenOwner sig w = Inr w'" and "gw_ok w"
  shows "gw_ok w'" "wd_view w' = wd_view w"
proof -
  have ok: "withdrawals_ok (gs_TokenWithdrawers (loadState w)) w" and N: "nonces_ok w"
    using assms(2) by (simp_all add: gw_ok_def)
  from assms(1) withdrawals_okD(6) [OF ok] obtain a r s where r: "receipt_of w a = Some r"
    and V: "receipt_of w' = (receipt_of w)(a := Some (r\<lparr>wr_OracleSignature := Some s\<rparr>))"
      "withdrawer_of w' = withdrawer_of w" "nonce_of w' = nonce_of w" "loadState w' = loadState w"
      "\<And>f. withdrawals_to f w' = withdrawals_to f w"
    and keyed: "accounts_keyed w'"
    by (rule doConfirm_views) blast
  have "wr_TokenOwner r = f" if "withdrawer_of w f = Some a" for f
    using withdrawals_okD(2) [OF ok that] r by auto
  then have "withdrawals_ok (gs_TokenWithdrawers (loadState w')) w'"
    using ok r keyed unfolding withdrawals_ok_def V by auto
  moreover have "nonces_ok w'" using N unfolding nonces_ok_def V .
  ultimately show "gw_ok w'" by (simp add: gw_ok_def)
  show "wd_view w' = wd_view w"
    using r by (simp add: wd_view_def V fun_eq_iff)
qed

lemma confirm_ops:
  "ConfirmWithdrawalReceipt ctx a sig w = Inr w' \<Longrightarrow>
     HasPermission (gw_perms w) (sender ctx) ''sign-withdrawals'' [''oracle''] \<and> doConfirmWithdrawalReceipt a sig w = Inr w'"
  "ConfirmWithdrawalReceiptV2 vs ctx a sig w = Inr w' \<Longrightarrow>
     HasPermission (gw_perms w) (sender ctx) ''sign-withdrawals'' [''oracle''] \<and> doConfirmWithdrawalReceipt a sig w = Inr w'"
  by (auto simp: ConfirmWithdrawalReceipt_def ConfirmWithdrawalReceiptV2_def elim!: bind_resE split: if_split_asm)

section \<open>The gateway implements the specification\<close>

lemma gw_step_cases:
  assumes "gw_step E w w'"
  obtains (queue) "same_queue w w'"
    | (batch) ctx events where "ProcessEventBatch (ge_coinTG E) (ge_T E) ctx events w = Inr w'"
    | (withdraw) ctx k where "withdraws ctx k w w'" "\<forall>m. k \<noteq> OtherKind m"
    | (sign) ctx :: call_ctx and a sig where "HasPermission (gw_perms w) (sender ctx) ''sign-withdrawals'' [''oracle'']"
        "doConfirmWithdrawalReceipt a sig w = Inr w'"
  using assms
proof cases
  case withdraw_token
  then show ?thesis using WithdrawToken_withdraws withdraw by blast
next
  case withdraw_eth
  then show ?thesis using WithdrawETH_withdraws withdraw by blast
next
  case withdraw_coin
  then show ?thesis using WithdrawDiademCoin_withdraws withdraw by blast
next
  case others
  then show ?thesis using control_ops_queue(9) by (intro queue) simp
next
  case confirm
  then show ?thesis using confirm_ops(1) sign by blast
next
  case confirm2
  then show ?thesis using confirm_ops(2) sign by blast
next
  case reclaim_dep
  then show ?thesis by (intro queue same_control_queue) (rule ReclaimDepositorTokens_books)
next
  case reclaim_con
  then show ?thesis by (intro queue same_control_queue) (rule ReclaimContractTokens_books)
qed (blast intro: queue batch dest: control_ops_queue(1-8) VerifyContractCreators_queue AddContractMapping_queue)+

lemma gw_step_ok:
  assumes "gw_step E w w'" and "gw_ok w"
  shows "gw_ok w' \<and> wd_step\<^sup>*\<^sup>* (wd_view w) (wd_view w')"
  using assms(1)
proof (cases rule: gw_step_cases)
  case queue
  then show ?thesis using same_queue_ok assms(2) by (metis rtranclp.rtrancl_refl)
next
  case batch
  then show ?thesis using ProcessEventBatch_ok assms(2) by blast
next
  case withdraw
  then show ?thesis using withdraws_ok assms(2) by blast
next
  case sign
  then show ?thesis using doConfirm_ok assms(2) by (metis rtranclp.rtrancl_refl)
qed

interpretation gateway: withdrawal_service gw_ok "gw_step E" wd_view for E
  by unfold_locales (use gw_step_ok in blast)+

section \<open>Reachable states\<close>

definition wd_init :: wd_spec where
  "wd_init = \<lparr>pending_to = Map.empty, completed = (\<lambda>_. 0)\<rparr>"

lemma addOracle_frame:
  "gw_local (fold addOracle os w) = gw_local w" "gw_foreign (fold addOracle os w) = gw_foreign w"
  "gw_events (fold addOracle os w) = gw_events w" "gw_mappings (fold addOracle os w) = gw_mappings w"
  "gw_pending (fold addOracle os w) = gw_pending w"
  by (induction os arbitrary: w) (simp_all add: addOracle_def)

lemma Gateway_Init_fresh:
  assumes "Gateway_Init owner oracles n (gw_empty c e m t) = Inr w"
  shows "receipt_of w a = None" "withdrawer_of w f = None" "nonce_of w f = 0" "withdrawals_to f w = []"
    "accounts_keyed w" "gs_TokenWithdrawers (loadState w) = []" "gw_mappings w = Map.empty" "gw_pending w = []"
  using assms
  by (auto simp: Gateway_Init_def gw_empty_def Let_def receipt_of_def withdrawer_of_def nonce_of_def withdrawals_to_def
      accounts_keyed_def loadLocalAccount_def loadForeignAccount_def loadState_def saveState_def addOracle_frame
      List.map_filter_def split: option.split_asm)

lemma Gateway_Init_ok:
  assumes "Gateway_Init owner oracles n (gw_empty c e m t) = Inr w"
  shows "gw_ok w" "wd_view w = wd_init"
proof -
  have "nonces_ok w"
    unfolding nonces_ok_def by (rule allI, rule exI [of _ 0]) (simp add: Gateway_Init_fresh [OF assms])
  then show "gw_ok w"
    by (simp add: gw_ok_def withdrawals_ok_def Gateway_Init_fresh [OF assms])
  show "wd_view w = wd_init"
    by (simp add: wd_view_def wd_init_def Gateway_Init_fresh [OF assms] fun_eq_iff)
qed

lemma gw_reachable_ok: "gw_reachable E w \<Longrightarrow> gw_ok w"
  unfolding gw_reachable_def by (elim exE conjE) (erule gateway.steps_ok, erule Gateway_Init_ok(1))

lemma gw_reachable_step: "gw_reachable E w \<Longrightarrow> gw_step E w w' \<Longrightarrow> gw_reachable E w'"
  unfolding gw_reachable_def by (meson rtranclp.rtrancl_into_rtrancl)

text \<open>A property of every reachable state, by induction over the steps.\<close>

lemma gw_reachable_induct:
  assumes "gw_reachable E w"
    and "\<And>c e m t owner oracles n w. Gateway_Init owner oracles n (gw_empty c e m t) = Inr w \<Longrightarrow> P w"
    and "\<And>w w'. gw_reachable E w \<Longrightarrow> P w \<Longrightarrow> gw_step E w w' \<Longrightarrow> P w'"
  shows "P w"
proof -
  obtain c e m t owner oracles n w0 where w0: "Gateway_Init owner oracles n (gw_empty c e m t) = Inr w0"
    and "(gw_step E)\<^sup>*\<^sup>* w0 w"
    using assms(1) by (auto simp: gw_reachable_def)
  from this(2) have "P w \<and> gw_reachable E w"
  proof (induction rule: rtranclp_induct)
    case base
    then show ?case using w0 assms(2) unfolding gw_reachable_def by blast
  next
    case (step u v)
    then show ?case using assms(3) gw_reachable_step by blast
  qed
  then show ?thesis by simp
qed

section \<open>Receipts\<close>

text \<open>Batches only take receipts away.\<close>

definition receipts_shrink :: "'t gw_world \<Rightarrow> 't gw_world \<Rightarrow> bool" where
  "receipts_shrink w w' \<longleftrightarrow> (\<forall>a. receipt_of w' a = receipt_of w a \<or> receipt_of w' a = None)"

lemma same_withdrawals_shrink: "same_withdrawals w w' \<Longrightarrow> receipts_shrink w w'"
  by (simp add: receipts_shrink_def same_withdrawalsD)

lemma receipts_shrink_trans: "receipts_shrink u v \<Longrightarrow> receipts_shrink v w \<Longrightarrow> receipts_shrink u w"
  unfolding receipts_shrink_def by metis

lemma process_event_shrink:
  assumes "process_event tg T ctx ev (b, w) = Inr (b', w')" and ok: "loop_ok (b, w)"
  shows "receipts_shrink w w'"
  using assms(1)
proof (cases rule: process_eventE)
  case (dep d out)
  then show ?thesis using process_deposit_books same_controlD(1) by (blast intro: same_withdrawals_shrink)
next
  case (wd d out)
  have W: "withdrawals_ok (gs_TokenWithdrawers (bl_state b)) w" using ok by (simp add: loop_ok_def)
  have complete: "receipts_shrink w v" if "completeTokenWithdraw d (bl_state b) w = (r, v)" for r v
    using that W
  proof (cases rule: completeTokenWithdraw_cases)
    case (paid s f a)
    have "la_Owner (loadLocalAccount w a) = a" using withdrawals_okD(6) [OF W] by (simp add: accounts_keyed_def)
    then show ?thesis by (simp add: receipts_shrink_def receipt_of_def paid(5))
  qed (simp add: receipts_shrink_def)
  show ?thesis
    using wd(2,3)
  proof (cases rule: process_withdrawalE)
    case (bad e v)
    show ?thesis using complete [OF bad(1)] by (simp add: receipts_shrink_def receipt_of_def bad(3))
  next
    case (good v)
    show ?thesis using complete [OF good(1)] by (simp add: receipts_shrink_def receipt_of_def good(2))
  qed (simp add: receipts_shrink_def receipt_of_def)
qed (simp add: receipts_shrink_def)

lemma ProcessEventBatch_shrink:
  assumes "ProcessEventBatch tg T ctx events w = Inr w'" and "gw_ok w"
  shows "receipts_shrink w w'"
proof -
  from assms(1) obtain b v where
    loop: "fold_res (process_event tg T ctx) events (\<lparr>bl_state = loadState w, bl_blockCount = 0, bl_lastEthBlock = 0\<rparr>, w) = Inr (b, v)"
    and w': "w' = saveState ((bl_state b)\<lparr>gs_LastMainnetBlockNum := bl_lastEthBlock b\<rparr>) v"
    by (rule ProcessEventBatchE)
  have "(\<lambda>bw. loop_ok bw \<and> receipts_shrink w (snd bw)) (b, v)"
  proof (rule fold_res_invariant [OF loop])
    fix ev bw bw'
    assume "loop_ok bw \<and> receipts_shrink w (snd bw)" and "process_event tg T ctx ev bw = Inr bw'"
    then show "loop_ok bw' \<and> receipts_shrink w (snd bw')"
      by (cases bw; cases bw') (auto dest: process_event_ok process_event_shrink intro: receipts_shrink_trans)
  qed (use assms(2) in \<open>simp add: loop_ok_def gw_ok_def receipts_shrink_def\<close>)
  then show ?thesis by (simp add: w' receipts_shrink_def receipt_of_def)
qed

definition kinds_ok :: "'t gw_world \<Rightarrow> bool" where
  "kinds_ok w \<longleftrightarrow> (\<forall>a r m. receipt_of w a = Some r \<longrightarrow> wr_TokenKind r \<noteq> OtherKind m)"

lemma withdraws_receipt:
  assumes "withdraws ctx k w w'" and "gw_ok w"
  obtains r where "receipt_of w (sender ctx) = None" "receipt_of w' = (receipt_of w)(sender ctx := Some r)" "wr_TokenKind r = k"
proof -
  obtain rc f v t i n where start: "start_withdrawal ctx rc w = Inr f" and moved: "only_ledgers w v"
    and filed: "file_receipt ctx f t k i n v = Inr w'"
    using assms(1) by (auto simp: withdraws_def)
  have v: "receipt_of v = receipt_of w" "accounts_keyed v = accounts_keyed w"
    using same_withdrawalsD [OF only_ledgersD(1) [OF moved]] by simp_all
  have "accounts_keyed v" using assms(2) v(2) by (simp add: gw_ok_def withdrawals_ok_def)
  note filed' = file_receipt_views(1) [OF filed this, unfolded v(1)]
  show ?thesis
    by (rule that [OF start_withdrawalD(1) [OF start] filed']) simp
qed

lemma gw_step_receipts:
  assumes "gw_step E w w'" and ok: "gw_ok w"
  shows "receipts_shrink w w' \<and> (receipt_of w' \<noteq> receipt_of w \<longrightarrow>
            (\<exists>ctx events. ProcessEventBatch (ge_coinTG E) (ge_T E) ctx events w = Inr w')) \<or>
         (\<exists>a r. receipt_of w a = None \<and> receipt_of w' = (receipt_of w)(a := Some r) \<and> (\<forall>m. wr_TokenKind r \<noteq> OtherKind m)) \<or>
         (\<exists>a r s signer. receipt_of w a = Some r \<and> wr_OracleSignature r = None \<and>
            receipt_of w' = (receipt_of w)(a := Some (r\<lparr>wr_OracleSignature := Some s\<rparr>)) \<and>
            HasPermission (gw_perms w) signer ''sign-withdrawals'' [''oracle''])"
  using assms(1)
proof (cases rule: gw_step_cases)
  case queue
  then have "receipt_of w' = receipt_of w" by (simp add: same_queue_def same_withdrawalsD)
  then show ?thesis by (simp add: receipts_shrink_def)
next
  case (batch ctx events)
  then show ?thesis using ProcessEventBatch_shrink ok by blast
next
  case (withdraw ctx k)
  from withdraw(1) ok obtain r where "receipt_of w (sender ctx) = None"
    "receipt_of w' = (receipt_of w)(sender ctx := Some r)" "wr_TokenKind r = k"
    by (rule withdraws_receipt)
  with withdraw(2) show ?thesis by blast
next
  case (sign ctx a sig)
  have keyed: "accounts_keyed w" using ok by (simp add: gw_ok_def withdrawals_ok_def)
  from sign(2) keyed obtain a r s where "receipt_of w a = Some r" "wr_OracleSignature r = None"
    "receipt_of w' = (receipt_of w)(a := Some (r\<lparr>wr_OracleSignature := Some s\<rparr>))"
    by (rule doConfirm_views)
  with sign(1) show ?thesis by blast
qed

lemma gw_reachable_kinds:
  assumes "gw_reachable E w"
  shows "kinds_ok w"
  using assms
proof (rule gw_reachable_induct)
  fix c e m t owner oracles n w
  assume "Gateway_Init owner oracles n (gw_empty c e m t) = Inr (w :: 'a gw_world)"
  then show "kinds_ok w" by (simp add: kinds_ok_def Gateway_Init_fresh)
next
  fix w w'
  assume reach: "gw_reachable E w" and ok: "kinds_ok w" and step: "gw_step E w w'"
  from gw_step_receipts [OF step gw_reachable_ok [OF reach]] show "kinds_ok w'"
  proof (elim disjE exE conjE)
    assume "receipts_shrink w w'"
    with ok show ?thesis unfolding kinds_ok_def receipts_shrink_def by (metis option.distinct(1))
  qed (use ok in \<open>auto simp: kinds_ok_def\<close>)
qed

section \<open>Offering receipts to the oracle\<close>

definition unsigned_receipt :: "'t gw_world \<Rightarrow> address \<Rightarrow> bool" where
  "unsigned_receipt w a \<longleftrightarrow> (\<exists>r. receipt_of w a = Some r \<and> wr_OracleSignature r = None)"

lemma token_hash_total: "(\<And>m. wr_TokenKind r \<noteq> OtherKind m) \<Longrightarrow> \<exists>h. withdrawal_hash H mg r = Some h"
  by (cases "wr_TokenKind r") (auto simp: withdrawal_hash_def token_hash_def Let_def)

lemma summarise_list:
  assumes "kinds_ok w" and "\<And>a. a \<in> set as \<Longrightarrow> receipt_of w a \<noteq> None"
  shows "\<exists>l. fold_res (summarise H mg w) as acc = Inr (acc @ l) \<and>
           map ps_TokenOwner l = filter (unsigned_receipt w) as \<and>
           (\<forall>s\<in>set l. \<exists>r. receipt_of w (ps_TokenOwner s) = Some r \<and> withdrawal_hash H mg r = Some (ps_Hash s))"
  using assms(2)
proof (induction as arbitrary: acc)
  case Nil
  then show ?case by simp
next
  case (Cons a as)
  then obtain r where r: "receipt_of w a = Some r" by fastforce
  with assms(1) obtain h where h: "withdrawal_hash H mg r = Some h"
    using token_hash_total unfolding kinds_ok_def by blast
  show ?case
  proof (cases "wr_OracleSignature r")
    case None
    define s where "s = \<lparr>ps_TokenOwner = a, ps_Hash = h\<rparr>"
    have "summarise H mg w a acc = Inr (acc @ [s])"
      using r h None by (simp add: summarise_def receipt_of_def s_def)
    moreover obtain l where "fold_res (summarise H mg w) as (acc @ [s]) = Inr ((acc @ [s]) @ l)"
      "map ps_TokenOwner l = filter (unsigned_receipt w) as"
      "\<forall>s\<in>set l. \<exists>r. receipt_of w (ps_TokenOwner s) = Some r \<and> withdrawal_hash H mg r = Some (ps_Hash s)"
      using Cons by (metis list.set_intros(2))
    moreover have "unsigned_receipt w a" using r None by (simp add: unsigned_receipt_def)
    ultimately show ?thesis
      using r h by (intro exI [of _ "s # l"]) (simp add: s_def)
  next
    case (Some sig)
    then have "summarise H mg w a acc = Inr acc"
      using r by (simp add: summarise_def receipt_of_def)
    moreover have "\<not> unsigned_receipt w a" using r Some by (simp add: unsigned_receipt_def)
    ultimately show ?thesis using Cons by simp
  qed
qed

section \<open>The properties\<close>

text \<open>C9: Refinement. In every state the gateway can reach, through any of its methods and whatever
the other contracts do, the withdrawals it has pending and the nonces it keeps are a state of the
specification: a machine in which an account starts a withdrawal to a recipient only when neither has
one pending, and completing it frees both and raises the recipient's counter. So no two accounts ever
wait for a withdrawal to the same recipient.\<close>

theorem gateway_refines_withdrawals:
  assumes "gw_reachable E w"
  shows "wd_step\<^sup>*\<^sup>* wd_init (wd_view w) \<and> inj_on (pending_to (wd_view w)) (dom (pending_to (wd_view w)))"
proof -
  obtain c e m t owner oracles n w0 where w0: "Gateway_Init owner oracles n (gw_empty c e m t) = Inr w0"
    and run: "(gw_step E)\<^sup>*\<^sup>* w0 w"
    using assms by (auto simp: gw_reachable_def)
  have "wd_step\<^sup>*\<^sup>* wd_init (wd_view w)"
    using gateway.steps_sim [OF run Gateway_Init_ok(1) [OF w0]] Gateway_Init_ok(2) [OF w0] by simp
  moreover from this have "inj_on (pending_to (wd_view w)) (dom (pending_to (wd_view w)))"
    by (rule wd_steps_inj) (simp add: wd_init_def)
  ultimately show ?thesis ..
qed

text \<open>A gateway for the chain's own coin with one withdrawal, for concrete runs.\<close>

definition demo_gw :: address where "demo_gw = Address ''default'' [90]"
definition demo_eth_user :: address where "demo_eth_user = Address ''eth'' [77]"
definition demo_gw_oracle :: address where "demo_gw_oracle = Address ''default'' [80]"

definition demo_gw_ctx :: "address \<Rightarrow> call_ctx" where
  "demo_gw_ctx a = (plain_ctx a)\<lparr>contract_address := demo_gw, resolve := (\<lambda>_. Inr demo_gw)\<rparr>"

definition demo_tokens :: "unit evm_tokens" where
  "demo_tokens =
     \<lparr>erc721_exists = (\<lambda>_ _ _. Inr True), erc721_mintToGateway = (\<lambda>_ _ _ t. (Inr (), t)),
      erc721_safeTransferFrom = (\<lambda>_ _ _ _ _ t. (Inr (), t)), erc721x_balanceOf = (\<lambda>_ _ _ _. Inr 0),
      erc721x_mintToGateway = (\<lambda>_ _ _ _ t. (Inr (), t)), erc721x_safeTransferFrom = (\<lambda>_ _ _ _ _ _ t. (Inr (), t)),
      erc20_balanceOf = (\<lambda>_ _ _. Inr 0), erc20_mintToGateway = (\<lambda>_ _ _ t. (Inr (), t)),
      erc20_transfer = (\<lambda>_ _ _ _ t. (Inr (), t)), erc20_transferFrom = (\<lambda>_ _ _ _ _ t. (Inr (), t))\<rparr>"

definition demo_sol :: sol_lib where
  "demo_sol = \<lparr>SoliditySHA3 = (\<lambda>as. [of_nat (length as)]), BytesToAddress = id\<rparr>"

definition demo_gw_env :: "unit gw_env" where
  "demo_gw_env = \<lparr>ge_T = demo_tokens, ge_H = demo_sol, ge_recover = (\<lambda>_ _. Inr []), ge_creator = (\<lambda>_. Inr demo_alice),
     ge_coinTG = True, ge_unsafe = False\<rparr>"

definition demo_gw0 :: "unit gw_world" where
  "demo_gw0 = saveState \<lparr>gs_Owner = Some demo_bob, gs_NextContractMappingID = 1, gs_LastMainnetBlockNum = 10, gs_TokenWithdrawers = []\<rparr>
     (addOracle demo_gw_oracle ((gw_empty demo_coin_store demo_coin_store Map.empty ())
        \<lparr>gw_perms := [(demo_bob, ''change-oracles'', ''owner'')]\<rparr>))"

lemma demo_gw0_init: "Gateway_Init (Some demo_bob) [demo_gw_oracle] 10 (gw_empty demo_coin_store demo_coin_store Map.empty ()) = Inr demo_gw0"
  by (simp add: Gateway_Init_def demo_gw0_def gw_empty_def GrantPermissionTo_def)

lemma demo_gw0_reachable: "gw_reachable demo_gw_env demo_gw0"
  unfolding gw_reachable_def using demo_gw0_init by blast

definition demo_receipt :: WithdrawalReceipt where
  "demo_receipt = \<lparr>wr_TokenOwner = demo_eth_user, wr_TokenContract = demo_eth_user, wr_TokenKind = DiademCoin, wr_TokenID = None,
     wr_TokenAmount = Some 5, wr_WithdrawalNonce = 0, wr_OracleSignature = None\<rparr>"

lemma demo_gw0_views:
  "receipt_of demo_gw0 a = None" "withdrawer_of demo_gw0 f = None" "nonce_of demo_gw0 f = 0" "withdrawals_to f demo_gw0 = []"
  by (rule Gateway_Init_fresh [OF demo_gw0_init])+

lemma demo_gw_withdraw:
  obtains w where "WithdrawDiademCoin True (demo_gw_ctx demo_alice) (Some 5) (Some demo_eth_user) (Some demo_eth_user) demo_gw0 = Inr w"
    "gw_reachable demo_gw_env w" "receipt_of w = (\<lambda>_. None)(demo_alice := Some demo_receipt)"
    "withdrawals_to demo_eth_user w = [demo_receipt]" "gw_perms w = gw_perms demo_gw0"
proof -
  define v where "v = demo_gw0\<lparr>gw_coin := put_economy (put_account demo_coin_store \<lparr>acct_owner = demo_alice, acct_balance = 5\<rparr>) 5\<rparr>"
  have base: "gw_coin demo_gw0 = demo_coin_store" "gs_TokenWithdrawers (loadState demo_gw0) = []"
    by (simp_all add: demo_gw0_def gw_empty_def saveState_def addOracle_def loadState_def)
  have moved: "only_ok (coin_burn (demo_gw_ctx demo_alice) demo_alice 5 demo_gw0) = Inr v"
    by (simp add: only_ok_def coin_burn_def on_coin_def Coin_Burn_def as_gateway_def demo_gw_ctx_def Coin_burn_eq base v_def)
  have "only_ledgers demo_gw0 v" using moved by (rule only_ok_ledgers) (simp add: coin_burn_def only_ledgers_on)
  note same = same_withdrawalsD [OF only_ledgersD(1) [OF this]] and state = only_ledgersD(3) [OF this]
  have start: "start_withdrawal (demo_gw_ctx demo_alice) (Some demo_eth_user) demo_gw0 = Inr demo_eth_user"
    using demo_gw0_views by (simp add: start_withdrawal_def withdraw_recipient_def receipt_of_def withdrawer_of_def)
  obtain w where filed: "file_receipt (demo_gw_ctx demo_alice) demo_eth_user demo_eth_user DiademCoin None (Some 5) v = Inr w"
    by (simp add: file_receipt_def addTokenWithdrawer_def Let_def state base)
  have w: "WithdrawDiademCoin True (demo_gw_ctx demo_alice) (Some 5) (Some demo_eth_user) (Some demo_eth_user) demo_gw0 = Inr w"
    using start moved filed by (simp add: WithdrawDiademCoin_def need_def demo_gw_ctx_def)
  have keyed: "accounts_keyed v" using Gateway_Init_fresh(5) [OF demo_gw0_init] by (simp add: same)
  have sender: "sender (demo_gw_ctx demo_alice) = demo_alice" by (simp add: demo_gw_ctx_def)
  have none: "receipt_of demo_gw0 = (\<lambda>_. None)" by (rule ext) (rule demo_gw0_views)
  show ?thesis
  proof (rule that [OF w])
    have "gw_step demo_gw_env demo_gw0 w"
      using gw_step.withdraw_coin [of demo_gw_env] w by (simp add: demo_gw_env_def)
    then show "gw_reachable demo_gw_env w" using demo_gw0_reachable by (blast intro: gw_reachable_step)
    show "receipt_of w = (\<lambda>_. None)(demo_alice := Some demo_receipt)"
      using file_receipt_views(1) [OF filed keyed] by (simp add: same demo_gw0_views demo_receipt_def sender none)
    show "withdrawals_to demo_eth_user w = [demo_receipt]"
      using file_receipt_views(8) [OF filed keyed, of demo_eth_user] by (simp add: same demo_gw0_views demo_receipt_def)
    show "gw_perms w = gw_perms demo_gw0"
      using filed
      by (auto simp: file_receipt_def Let_def v_def saveState_def saveLocalAccount_def saveForeignAccount_def emit_def elim!: bind_resE)
  qed
qed

theorem gateway_refines_withdrawals_witness:
  "\<exists>w. gw_reachable demo_gw_env w \<and> pending_to (wd_view w) demo_alice = Some demo_eth_user \<and>
     wd_step\<^sup>*\<^sup>* wd_init (wd_view w) \<and> inj_on (pending_to (wd_view w)) (dom (pending_to (wd_view w)))"
proof -
  obtain w where "gw_reachable demo_gw_env w" "receipt_of w = (\<lambda>_. None)(demo_alice := Some demo_receipt)"
    by (rule demo_gw_withdraw)
  then show ?thesis
    using gateway_refines_withdrawals [of demo_gw_env w]
    by (intro exI [of _ w]) (simp add: wd_view_def demo_receipt_def)
qed

text \<open>C10: Liveness of signing. In every reachable state the query the oracle polls for pending
withdrawals succeeds, whatever hash library it uses: it lists exactly the accounts that have a
receipt without a signature, each once and in the order in which they are kept, with the hash of their receipt.
The error it has for a withdrawer without a receipt never occurs.\<close>

theorem pending_withdrawals_offered:
  assumes "gw_reachable E w"
  shows "\<exists>l. PendingWithdrawals H (Some mg) w = Inr l \<and> distinct (map ps_TokenOwner l) \<and>
           set (map ps_TokenOwner l) = {a. unsigned_receipt w a} \<and>
           (\<forall>s\<in>set l. \<exists>r. receipt_of w (ps_TokenOwner s) = Some r \<and> withdrawal_hash H mg r = Some (ps_Hash s))"
proof -
  have ok: "withdrawals_ok (gs_TokenWithdrawers (loadState w)) w"
    using gw_reachable_ok [OF assms] by (simp add: gw_ok_def)
  obtain l where "fold_res (summarise H mg w) (gs_TokenWithdrawers (loadState w)) [] = Inr l"
    and owners: "map ps_TokenOwner l = filter (unsigned_receipt w) (gs_TokenWithdrawers (loadState w))"
    and hashes: "\<forall>s\<in>set l. \<exists>r. receipt_of w (ps_TokenOwner s) = Some r \<and> withdrawal_hash H mg r = Some (ps_Hash s)"
    using summarise_list [OF gw_reachable_kinds [OF assms], of "gs_TokenWithdrawers (loadState w)" H mg "[]"]
      withdrawals_okD(3) [OF ok] by auto
  moreover have "set (filter (unsigned_receipt w) (gs_TokenWithdrawers (loadState w))) = {a. unsigned_receipt w a}"
    using withdrawals_okD(3) [OF ok] by (auto simp: unsigned_receipt_def)
  moreover have "distinct (filter (unsigned_receipt w) (gs_TokenWithdrawers (loadState w)))"
    using withdrawals_okD(5) [OF ok] by simp
  ultimately show ?thesis
    by (intro exI [of _ l]) (simp add: PendingWithdrawals_def)
qed

theorem pending_withdrawals_offered_witness:
  "\<exists>(w :: unit gw_world) l. PendingWithdrawals demo_sol (Some demo_gw) w = Inr l \<and> set (map ps_TokenOwner l) = {demo_alice}"
proof -
  obtain w where w: "gw_reachable demo_gw_env w" "receipt_of w = (\<lambda>_. None)(demo_alice := Some demo_receipt)"
    by (rule demo_gw_withdraw)
  then have "{a. unsigned_receipt w a} = {demo_alice}"
    by (auto simp: unsigned_receipt_def demo_receipt_def split: if_split_asm)
  then show ?thesis
    using pending_withdrawals_offered [OF w(1), of demo_sol demo_gw] by auto
qed

text \<open>Withdrawal nonces. The receipts the gateway has issued to a recipient, in the order of the
events it emitted, carry the nonces 0, 1, 2 and so on, without a gap and without a repetition (up to
the wrap of the 64-bit counter): the main chain never sees two receipts of a recipient with the same nonce.\<close>

theorem withdrawal_nonces_sequential:
  assumes "gw_reachable E w"
  shows "map wr_WithdrawalNonce (withdrawals_to f w) = map of_nat [0..<length (withdrawals_to f w)]"
proof -
  have "nonces_ok w" using gw_reachable_ok [OF assms] by (simp add: gw_ok_def)
  then obtain n where n: "map wr_WithdrawalNonce (withdrawals_to f w) = map of_nat [0..<n]"
    unfolding nonces_ok_def by blast
  then have "length (withdrawals_to f w) = n" by (metis length_map diff_zero length_upt)
  with n show ?thesis by simp
qed

theorem withdrawal_nonces_sequential_witness:
  "\<exists>w. gw_reachable demo_gw_env w \<and> length (withdrawals_to demo_eth_user w) = 1 \<and>
     map wr_WithdrawalNonce (withdrawals_to demo_eth_user w) = [0]"
proof -
  obtain w where w: "gw_reachable demo_gw_env w" "withdrawals_to demo_eth_user w = [demo_receipt]"
    by (rule demo_gw_withdraw)
  then show ?thesis
    using withdrawal_nonces_sequential [OF w(1), of demo_eth_user] by auto
qed

text \<open>A pending receipt cannot be altered. Whatever method is called, the receipt of an account
stays what it is, or gets the signature it did not have yet while some account holds the oracle's
permission to sign, or is removed, and that only by a batch of events.\<close>

theorem receipt_immutable:
  assumes "gw_reachable E w" and "gw_step E w w'" and "receipt_of w a = Some r"
  shows "receipt_of w' a = Some r \<or>
         (receipt_of w' a = None \<and> (\<exists>ctx events. ProcessEventBatch (ge_coinTG E) (ge_T E) ctx events w = Inr w')) \<or>
         (wr_OracleSignature r = None \<and> (\<exists>s. receipt_of w' a = Some (r\<lparr>wr_OracleSignature := Some s\<rparr>)) \<and>
          (\<exists>signer. HasPermission (gw_perms w) signer ''sign-withdrawals'' [''oracle'']))"
  using gw_step_receipts [OF assms(2) gw_reachable_ok [OF assms(1)]]
proof (elim disjE exE conjE)
  assume "receipts_shrink w w'"
    and "receipt_of w' \<noteq> receipt_of w \<longrightarrow> (\<exists>ctx events. ProcessEventBatch (ge_coinTG E) (ge_T E) ctx events w = Inr w')"
  with assms(3) show ?thesis unfolding receipts_shrink_def by metis
qed (use assms(3) in auto)

theorem receipt_immutable_witness:
  "\<exists>(w :: unit gw_world) w'. ConfirmWithdrawalReceipt (demo_gw_ctx demo_gw_oracle) (Some demo_alice) (Some [1]) w = Inr w' \<and>
     receipt_of w demo_alice = Some demo_receipt \<and> receipt_of w' demo_alice \<noteq> Some demo_receipt \<and>
     (receipt_of w' demo_alice = None \<or> (\<exists>s. receipt_of w' demo_alice = Some (demo_receipt\<lparr>wr_OracleSignature := Some s\<rparr>)))"
proof -
  obtain w where w: "gw_reachable demo_gw_env w" "receipt_of w = (\<lambda>_. None)(demo_alice := Some demo_receipt)"
      "gw_perms w = gw_perms demo_gw0"
    by (rule demo_gw_withdraw)
  have perm: "HasPermission (gw_perms w) demo_gw_oracle ''sign-withdrawals'' [''oracle'']"
    by (simp add: w(3) demo_gw0_def saveState_def addOracle_def oracle_perms_def HasPermission_Grant)
  have "la_WithdrawalReceipt (loadLocalAccount w demo_alice) = Some demo_receipt"
    using w(2) by (simp add: receipt_of_def fun_eq_iff)
  then obtain w' where w': "ConfirmWithdrawalReceipt (demo_gw_ctx demo_gw_oracle) (Some demo_alice) (Some [1]) w = Inr w'"
    and signed: "receipt_of w' demo_alice \<noteq> Some demo_receipt"
    using perm gw_reachable_ok [OF w(1)]
    by (simp add: ConfirmWithdrawalReceipt_def doConfirmWithdrawalReceipt_def demo_gw_ctx_def Let_def demo_receipt_def
        receipt_of_def gw_ok_def withdrawals_ok_def accounts_keyed_def)
  then have "gw_step demo_gw_env w w'" by (intro gw_step.confirm)
  from receipt_immutable [OF w(1) this, of demo_alice demo_receipt] show ?thesis
    using w(2) w' signed by (intro exI [of _ w] exI [of _ w']) auto
qed

end
