(* ===== verification/Gateway_Events.thy ===== *)
theory Gateway_Events
  imports Gateway_Withdrawals
begin

text \<open>
  What the transfer gateway promises about the events of the main chain: a batch is taken only when
  it brings a newer block, and never again; a deposit ends as tokens of its owner or as a claim of
  the same amount; and the mapping between contracts of the two chains stays one to one.
\<close>

section \<open>Blocks of a batch\<close>

lemma completeTokenWithdraw_block:
  "completeTokenWithdraw d state w = (Inr state', w') \<Longrightarrow> gs_LastMainnetBlockNum state' = gs_LastMainnetBlockNum state"
  unfolding completeTokenWithdraw_def Let_def
  by (erule seq_resE) (auto simp: removeTokenWithdrawer_def split: option.split_asm if_split_asm)

lemma process_withdrawal_block:
  assumes "process_withdrawal tg ctx ev d state w = (out, state', w')" and "\<nexists>e. out = Abort e"
  shows "gs_LastMainnetBlockNum state' = gs_LastMainnetBlockNum state"
  using assms by (cases rule: process_withdrawalE) (auto dest: completeTokenWithdraw_block)

text \<open>An event that is not newer than the stored block is skipped whole.\<close>

lemma process_event_old:
  assumes "process_event tg T ctx ev (b, w) = Inr bw" and "me_EthBlock ev \<le> gs_LastMainnetBlockNum (bl_state b)"
  shows "bw = (b, w)"
  using assms by (simp add: process_event_def split: if_split_asm)

lemma close_event_block:
  assumes "close_event ev b (out, state, w) = Inr (b', w')"
  shows "(bl_blockCount b' = bl_blockCount b \<and> bl_lastEthBlock b' = bl_lastEthBlock b) \<or>
         (bl_blockCount b' = bl_blockCount b + 1 \<and> bl_lastEthBlock b' = me_EthBlock ev)"
  using assms by (cases out) (auto simp: close_event_def Let_def)

lemma process_event_block:
  assumes "process_event tg T ctx ev (b, w) = Inr (b', w')"
  shows "gs_LastMainnetBlockNum (bl_state b') = gs_LastMainnetBlockNum (bl_state b)"
    and "(bl_blockCount b' = bl_blockCount b \<and> bl_lastEthBlock b' = bl_lastEthBlock b) \<or>
         (gs_LastMainnetBlockNum (bl_state b) < me_EthBlock ev \<and> bl_blockCount b' = bl_blockCount b + 1 \<and>
          bl_lastEthBlock b' = me_EthBlock ev)"
proof -
  show "gs_LastMainnetBlockNum (bl_state b') = gs_LastMainnetBlockNum (bl_state b)"
    using assms by (cases rule: process_eventE) (auto dest: process_withdrawal_block)
  show "(bl_blockCount b' = bl_blockCount b \<and> bl_lastEthBlock b' = bl_lastEthBlock b) \<or>
         (gs_LastMainnetBlockNum (bl_state b) < me_EthBlock ev \<and> bl_blockCount b' = bl_blockCount b + 1 \<and>
          bl_lastEthBlock b' = me_EthBlock ev)"
  proof (cases "me_EthBlock ev \<le> gs_LastMainnetBlockNum (bl_state b)")
    case True
    then show ?thesis using process_event_old [OF assms] by simp
  next
    case False
    then obtain r where "close_event ev b r = Inr (b', w')"
      using assms unfolding process_event_def close_event_def by (auto split: if_split_asm)
    then show ?thesis
      using close_event_block False by (cases r) fastforce
  qed
qed

lemma batch_loop_block:
  assumes "fold_res (process_event tg T ctx) events (b, w) = Inr (b', w')" and "bl_blockCount b = 0"
  shows "gs_LastMainnetBlockNum (bl_state b') = gs_LastMainnetBlockNum (bl_state b)"
    and "bl_blockCount b' \<noteq> 0 \<Longrightarrow>
         gs_LastMainnetBlockNum (bl_state b) < bl_lastEthBlock b' \<and> bl_lastEthBlock b' \<in> me_EthBlock ` set events"
proof -
  let ?Q = "\<lambda>c. gs_LastMainnetBlockNum (bl_state c) = gs_LastMainnetBlockNum (bl_state b) \<and> 0 \<le> bl_blockCount c \<and>
    (bl_blockCount c \<noteq> 0 \<longrightarrow>
       gs_LastMainnetBlockNum (bl_state b) < bl_lastEthBlock c \<and> bl_lastEthBlock c \<in> me_EthBlock ` set events)"
  have "?Q (fst (b', w'))"
  proof (rule fold_res_invariant [OF assms(1)])
    fix ev bw bw'
    assume ev: "ev \<in> set events" and Q: "?Q (fst bw)" and step: "process_event tg T ctx ev bw = Inr bw'"
    obtain c v c' v' where bw: "bw = (c, v)" "bw' = (c', v')" by fastforce
    show "?Q (fst bw')"
      using Q process_event_block [OF step [unfolded bw]] ev unfolding bw by auto
  qed (use assms(2) in simp)
  then show "gs_LastMainnetBlockNum (bl_state b') = gs_LastMainnetBlockNum (bl_state b)"
    and "bl_blockCount b' \<noteq> 0 \<Longrightarrow>
         gs_LastMainnetBlockNum (bl_state b) < bl_lastEthBlock b' \<and> bl_lastEthBlock b' \<in> me_EthBlock ` set events"
    by simp_all
qed

definition last_block :: "'t gw_world \<Rightarrow> u64" where
  "last_block w = gs_LastMainnetBlockNum (loadState w)"

lemma ProcessEventBatch_block:
  assumes "ProcessEventBatch tg T ctx events w = Inr w'"
  shows "last_block w < last_block w'" "last_block w' \<in> me_EthBlock ` set events"
proof -
  from assms obtain b v where
    loop: "fold_res (process_event tg T ctx) events (\<lparr>bl_state = loadState w, bl_blockCount = 0, bl_lastEthBlock = 0\<rparr>, w) = Inr (b, v)"
    and "bl_blockCount b \<noteq> 0"
    and w': "w' = saveState ((bl_state b)\<lparr>gs_LastMainnetBlockNum := bl_lastEthBlock b\<rparr>) v"
    by (rule ProcessEventBatchE)
  with batch_loop_block [OF loop] show "last_block w < last_block w'" "last_block w' \<in> me_EthBlock ` set events"
    by (simp_all add: last_block_def)
qed

lemma batch_loop_old:
  assumes "fold_res (process_event tg T ctx) events (b, w) = Inr bw"
    and "\<And>ev. ev \<in> set events \<Longrightarrow> me_EthBlock ev \<le> gs_LastMainnetBlockNum (bl_state b)"
  shows "bw = (b, w)"
  using assms(1) by (rule fold_res_invariant) (auto dest: process_event_old intro: assms(2))

lemma ProcessEventBatch_old:
  assumes "\<And>ev. ev \<in> set events \<Longrightarrow> me_EthBlock ev \<le> last_block w"
  shows "\<exists>e. ProcessEventBatch tg T ctx events w = Inl e"
proof (cases "ProcessEventBatch tg T ctx events w")
  case (Inr w')
  then obtain b v where
    loop: "fold_res (process_event tg T ctx) events (\<lparr>bl_state = loadState w, bl_blockCount = 0, bl_lastEthBlock = 0\<rparr>, w) = Inr (b, v)"
    and "bl_blockCount b \<noteq> 0"
    by (rule ProcessEventBatchE)
  then show ?thesis using batch_loop_old [OF loop] assms by (auto simp: last_block_def)
qed simp

section \<open>The stored block only grows\<close>

lemma same_control_block: "same_control w w' \<Longrightarrow> last_block w' = last_block w"
  by (simp add: last_block_def same_controlD)

lemma verify_creator_block: "verify_creator c w = Inr w' \<Longrightarrow> last_block w' = last_block w"
  by (erule verify_creatorE) (auto simp: last_block_def loadState_def drop_pending_def set_contract_mapping_def emit_def)

lemma control_ops_block:
  "Gateway_AddOracle ctx a w = Inr w' \<Longrightarrow> last_block w' = last_block w"
  "Gateway_RemoveOracle ctx a w = Inr w' \<Longrightarrow> last_block w' = last_block w"
  "Gateway_ReplaceOwner ctx a w = Inr w' \<Longrightarrow> last_block w' = last_block w"
  "AddAuthorizedContractMapping ctx f l w = Inr w' \<Longrightarrow> last_block w' = last_block w"
  unfolding Gateway_AddOracle_def Gateway_RemoveOracle_def Gateway_ReplaceOwner_def AddAuthorizedContractMapping_def
  by (auto split: option.split_asm if_split_asm elim!: bind_resE
      simp: last_block_def loadState_def addOracle_def removeOracle_def replace_owner_def saveState_def Let_def
        set_contract_mapping_def emit_def)

lemma AddContractMapping_block: "AddContractMapping H rec cr ctx f l sig h w = Inr w' \<Longrightarrow> last_block w' = last_block w"
  unfolding AddContractMapping_def
  by (auto split: option.split_asm if_split_asm elim!: bind_resE simp: Let_def last_block_def loadState_def saveState_def)

lemma VerifyContractCreators_block:
  assumes "VerifyContractCreators ctx cs w = Inr w'"
  shows "last_block w' = last_block w"
proof -
  have "fold_res verify_creator cs w = Inr w'"
    using assms unfolding VerifyContractCreators_def by (auto split: if_split_asm)
  then show ?thesis by (rule fold_res_invariant) (auto dest: verify_creator_block)
qed

lemma file_receipt_block: "file_receipt ctx f t k i n w = Inr w' \<Longrightarrow> last_block w' = last_block w"
  unfolding file_receipt_def Let_def
  by (auto elim!: bind_resE simp: addTokenWithdrawer_def last_block_def split: if_split_asm)

lemma withdraws_block:
  assumes "withdraws ctx k w w'"
  shows "last_block w' = last_block w"
  using assms unfolding withdraws_def by (auto dest!: file_receipt_block simp: only_ledgersD(3) last_block_def)

lemma doConfirm_block: "doConfirmWithdrawalReceipt a sig w = Inr w' \<Longrightarrow> last_block w' = last_block w"
  unfolding doConfirmWithdrawalReceipt_def Let_def
  by (auto simp: last_block_def split: option.split_asm if_split_asm)

lemmas step_block =
  control_ops_block AddContractMapping_block VerifyContractCreators_block
  withdraws_block [OF WithdrawToken_withdraws(1)] withdraws_block [OF WithdrawETH_withdraws]
  withdraws_block [OF WithdrawDiademCoin_withdraws]
  doConfirm_block [OF confirm_ops(1) [THEN conjunct2]] doConfirm_block [OF confirm_ops(2) [THEN conjunct2]]
  same_control_block [OF ReclaimDepositorTokens_books] same_control_block [OF ReclaimContractTokens_books]

lemma gw_step_block:
  assumes "gw_step E w w'" and safe: "\<not> ge_unsafe E"
  shows "last_block w \<le> last_block w'"
  using assms(1)
proof cases
  case batch
  then show ?thesis using ProcessEventBatch_block(1) by (blast intro: less_imp_le)
next
  case others
  then show ?thesis by (simp add: last_block_def loadState_def)
qed (use safe in \<open>auto dest: step_block\<close>)

lemma gw_steps_block:
  assumes "(gw_step E)\<^sup>*\<^sup>* w w'" and "\<not> ge_unsafe E"
  shows "last_block w \<le> last_block w'"
  using assms(1) by (induction rule: rtranclp_induct) (use gw_step_block assms(2) in \<open>auto intro: order_trans\<close>)

text \<open>C11: No replay of main chain events. A batch that is accepted moves the stored block of the
main chain up, to the block of one of its events, and from then on, whatever happens to the contract
(its unsafe variant apart), a batch whose events are all from that block or before is refused, from
any sender: events up to a block that has been taken are never taken again.\<close>

theorem gateway_batch_not_replayed:
  assumes "ProcessEventBatch tg T ctx events w = Inr w1"
  shows "gs_LastMainnetBlockNum (loadState w) < gs_LastMainnetBlockNum (loadState w1) \<and>
         gs_LastMainnetBlockNum (loadState w1) \<in> me_EthBlock ` set events \<and>
         (\<forall>E w2 again tg' T' ctx'. \<not> ge_unsafe E \<longrightarrow> (gw_step E)\<^sup>*\<^sup>* w1 w2 \<longrightarrow>
            (\<forall>ev\<in>set again. me_EthBlock ev \<le> gs_LastMainnetBlockNum (loadState w1)) \<longrightarrow>
            (\<exists>e. ProcessEventBatch tg' T' ctx' again w2 = Inl e))"
proof (intro conjI allI impI)
  show "gs_LastMainnetBlockNum (loadState w) < gs_LastMainnetBlockNum (loadState w1)"
    "gs_LastMainnetBlockNum (loadState w1) \<in> me_EthBlock ` set events"
    using ProcessEventBatch_block [OF assms] by (simp_all add: last_block_def)
  fix E w2 tg' T' and again :: "MainnetEvent list" and ctx' :: call_ctx
  assume "\<not> ge_unsafe E" and "(gw_step E)\<^sup>*\<^sup>* w1 w2"
    and old: "\<forall>ev\<in>set again. me_EthBlock ev \<le> gs_LastMainnetBlockNum (loadState w1)"
  then have "last_block w1 \<le> last_block w2" by (intro gw_steps_block)
  with old show "\<exists>e. ProcessEventBatch tg' T' ctx' again w2 = Inl e"
    by (intro ProcessEventBatch_old) (auto simp: last_block_def)
qed

definition demo_deposit :: "u64 \<Rightarrow> MainnetEvent" where
  "demo_deposit n = \<lparr>me_EthBlock = n, me_Payload = Deposit \<lparr>tt_TokenOwner = Some demo_eth_user, tt_TokenContract = Some demo_eth_user,
     tt_TokenKind = DiademCoin, tt_TokenID = None, tt_TokenAmount = Some 7, tt_TxHash = [1]\<rparr>\<rparr>"

lemma demo_gw0_state:
  "loadState demo_gw0 = \<lparr>gs_Owner = Some demo_bob, gs_NextContractMappingID = 1, gs_LastMainnetBlockNum = 10, gs_TokenWithdrawers = []\<rparr>"
  "gw_mapper demo_gw0 = Map.empty" "gw_unclaimed demo_gw0 = []"
  by (simp_all add: demo_gw0_def loadState_def saveState_def addOracle_def gw_empty_def)

lemma demo_gw0_submit: "HasPermission (gw_perms demo_gw0) demo_gw_oracle ''submit-events'' [''oracle'']"
  by (simp add: demo_gw0_def saveState_def addOracle_def oracle_perms_def HasPermission_Grant)

lemma demo_batch: "\<exists>w. ProcessEventBatch True demo_tokens (demo_gw_ctx demo_gw_oracle) [demo_deposit 12] demo_gw0 = Inr w"
  using demo_gw0_submit
  by (simp add: ProcessEventBatch_def process_event_def process_deposit_def demo_gw0_state demo_deposit_def demo_gw_ctx_def
      validateTokenDeposit_def transferTokenDeposit_def resolveToMapped_def GetMapping_def storeUnclaimedToken_def
      add_unclaimed_def Let_def emit_def)

theorem gateway_batch_not_replayed_witness:
  "\<exists>w. ProcessEventBatch True demo_tokens (demo_gw_ctx demo_gw_oracle) [demo_deposit 12] demo_gw0 = Inr w \<and>
     gs_LastMainnetBlockNum (loadState w) = 12 \<and>
     (\<exists>e. ProcessEventBatch True demo_tokens (demo_gw_ctx demo_gw_oracle) [demo_deposit 12] w = Inl e)"
proof -
  obtain w where w: "ProcessEventBatch True demo_tokens (demo_gw_ctx demo_gw_oracle) [demo_deposit 12] demo_gw0 = Inr w"
    using demo_batch by blast
  have block: "gs_LastMainnetBlockNum (loadState w) = 12"
    using gateway_batch_not_replayed [OF w] by (simp add: demo_deposit_def)
  have "\<not> ge_unsafe demo_gw_env" by (simp add: demo_gw_env_def)
  moreover have "\<forall>ev\<in>set [demo_deposit 12]. me_EthBlock ev \<le> gs_LastMainnetBlockNum (loadState w)"
    by (simp add: block demo_deposit_def)
  ultimately have "\<exists>e. ProcessEventBatch True demo_tokens (demo_gw_ctx demo_gw_oracle) [demo_deposit 12] w = Inl e"
    using gateway_batch_not_replayed [OF w] by blast
  with w block show ?thesis by blast
qed

section \<open>Contract mappings\<close>

definition same_maps :: "'t gw_world \<Rightarrow> 't gw_world \<Rightarrow> bool" where
  "same_maps w w' \<longleftrightarrow> gw_mappings w' = gw_mappings w \<and> gw_pending w' = gw_pending w"

lemma same_control_maps: "same_control w w' \<Longrightarrow> same_maps w w'"
  by (simp add: same_maps_def same_controlD)

lemma same_maps_trans: "same_maps u v \<Longrightarrow> same_maps v w \<Longrightarrow> same_maps u w"
  by (simp add: same_maps_def)

lemma same_maps_simps [simp]:
  "same_maps w (saveState s w)" "same_maps w (saveLocalAccount a w)" "same_maps w (saveForeignAccount f w)"
  "same_maps w (emit ev w)" "same_maps w (saveSeenTxHash h k w)" "same_maps w w"
  by (simp_all add: same_maps_def saveState_def saveLocalAccount_def saveForeignAccount_def emit_def saveSeenTxHash_def)

lemma completeTokenWithdraw_maps: "completeTokenWithdraw d state w = (r, w') \<Longrightarrow> same_maps w w'"
  unfolding completeTokenWithdraw_def Let_def
  by (erule seq_resE)
    (auto simp: same_maps_def saveLocalAccount_def saveForeignAccount_def split: option.split_asm if_split_asm)

lemma process_event_maps:
  assumes "process_event tg T ctx ev (b, w) = Inr (b', w')"
  shows "same_maps w w'"
  using assms
proof (cases rule: process_eventE)
  case (dep d out)
  then show ?thesis by (blast intro: same_control_maps process_deposit_books)
next
  case (wd d out)
  from wd(2,3) show ?thesis
  proof (cases rule: process_withdrawalE)
    case (bad e v)
    show ?thesis unfolding bad(3) by (rule same_maps_trans [OF completeTokenWithdraw_maps [OF bad(1)]]) simp
  next
    case (good v)
    have "same_maps v w'" unfolding good(2) by (simp add: same_maps_def saveSeenTxHash_def emit_def)
    then show ?thesis by (rule same_maps_trans [OF completeTokenWithdraw_maps [OF good(1)]])
  qed simp
qed simp

lemma ProcessEventBatch_maps:
  assumes "ProcessEventBatch tg T ctx events w = Inr w'"
  shows "same_maps w w'"
proof -
  from assms obtain b v where
    loop: "fold_res (process_event tg T ctx) events (\<lparr>bl_state = loadState w, bl_blockCount = 0, bl_lastEthBlock = 0\<rparr>, w) = Inr (b, v)"
    and w': "w' = saveState ((bl_state b)\<lparr>gs_LastMainnetBlockNum := bl_lastEthBlock b\<rparr>) v"
    by (rule ProcessEventBatchE)
  have "same_maps w (snd (b, v))"
  proof (rule fold_res_invariant [OF loop])
    fix ev bw bw'
    assume "same_maps w (snd bw)" and "process_event tg T ctx ev bw = Inr bw'"
    then show "same_maps w (snd bw')"
      by (cases bw; cases bw') (auto dest: process_event_maps intro: same_maps_trans)
  qed simp
  then show ?thesis unfolding w' by (auto intro: same_maps_trans)
qed

lemma withdraws_maps:
  assumes "withdraws ctx k w w'"
  shows "same_maps w w'"
proof -
  obtain f t i n v where "only_ledgers w v" and "file_receipt ctx f t k i n v = Inr w'"
    using assms by (auto simp: withdraws_def)
  moreover from this(2) have "same_maps v w'"
    unfolding file_receipt_def Let_def
    by (auto elim!: bind_resE simp: same_maps_def saveState_def saveLocalAccount_def saveForeignAccount_def emit_def)
  ultimately show ?thesis by (blast intro: same_maps_trans same_control_maps only_ledgers_books)
qed

lemma doConfirm_maps: "doConfirmWithdrawalReceipt a sig w = Inr w' \<Longrightarrow> same_maps w w'"
  unfolding doConfirmWithdrawalReceipt_def Let_def
  by (auto simp: same_maps_def saveLocalAccount_def emit_def split: option.split_asm if_split_asm)

lemma control_ops_maps:
  "Gateway_AddOracle ctx a w = Inr w' \<Longrightarrow> same_maps w w'"
  "Gateway_RemoveOracle ctx a w = Inr w' \<Longrightarrow> same_maps w w'"
  "Gateway_ReplaceOwner ctx a w = Inr w' \<Longrightarrow> same_maps w w'"
  "ResetMainnetBlock n w = Inr w' \<Longrightarrow> same_maps w w'"
  "UnsafeAddOracle a w = Inr w' \<Longrightarrow> same_maps w w'"
  "UnsafeRemoveOracle a w = Inr w' \<Longrightarrow> same_maps w w'"
  "ResetOwnerKey a w = Inr w' \<Longrightarrow> same_maps w w'"
  unfolding Gateway_AddOracle_def Gateway_RemoveOracle_def Gateway_ReplaceOwner_def ResetMainnetBlock_def
    UnsafeAddOracle_def UnsafeRemoveOracle_def ResetOwnerKey_def
  by (auto split: option.split_asm if_split_asm elim!: bind_resE
      simp: same_maps_def addOracle_def removeOracle_def replace_owner_def saveState_def Let_def)

lemmas step_maps =
  control_ops_maps ProcessEventBatch_maps
  withdraws_maps [OF WithdrawToken_withdraws(1)] withdraws_maps [OF WithdrawETH_withdraws]
  withdraws_maps [OF WithdrawDiademCoin_withdraws]
  doConfirm_maps [OF confirm_ops(1) [THEN conjunct2]] doConfirm_maps [OF confirm_ops(2) [THEN conjunct2]]
  same_control_maps [OF ReclaimDepositorTokens_books] same_control_maps [OF ReclaimContractTokens_books]

lemma gw_step_maps:
  assumes "gw_step E w w'"
  obtains (same) "same_maps w w'"
    | (add) ctx f l sig h where "AddContractMapping (ge_H E) (ge_recover E) (ge_creator E) ctx f l sig h w = Inr w'"
    | (auth) ctx f l where "AddAuthorizedContractMapping ctx f l w = Inr w'"
    | (verified) ctx cs where "VerifyContractCreators ctx cs w = Inr w'"
  using assms
proof cases
  case others
  then show ?thesis by (intro same) (simp add: same_maps_def)
qed (blast intro: same add auth verified dest: step_maps)+

text \<open>
  The requests of a run relate a contract of another chain to a contract of this chain, \<open>cid\<close>. The
  code checks that the two addresses differ and have a chain, not that the chains are these two.
\<close>

definition cross_chain :: "string \<Rightarrow> address \<Rightarrow> address \<Rightarrow> bool" where
  "cross_chain cid f l \<longleftrightarrow> ChainID f \<noteq> cid \<and> ChainID l = cid"

definition cross_step :: "string \<Rightarrow> 't gw_env \<Rightarrow> 't gw_world \<Rightarrow> 't gw_world \<Rightarrow> bool" where
  "cross_step cid E w w' \<longleftrightarrow> gw_step E w w' \<and>
     (\<forall>ctx f l sig h. AddContractMapping (ge_H E) (ge_recover E) (ge_creator E) ctx (Some f) (Some l) sig h w = Inr w' \<longrightarrow>
        cross_chain cid f l) \<and>
     (\<forall>ctx f l. AddAuthorizedContractMapping ctx (Some f) (Some l) w = Inr w' \<longrightarrow> cross_chain cid f l)"

definition mappings_ok :: "string \<Rightarrow> (address \<rightharpoonup> AddressMapping) \<Rightarrow> (u64 \<rightharpoonup> PendingContractMapping) \<Rightarrow> bool" where
  "mappings_ok cid m p \<longleftrightarrow>
     (\<forall>a x. m a = Some x \<longrightarrow> am_From x = a \<and> m (am_To x) = Some \<lparr>am_From = am_To x, am_To = a\<rparr> \<and>
        (ChainID a = cid) = (ChainID (am_To x) \<noteq> cid)) \<and>
     (\<forall>i x. p i = Some x \<longrightarrow> cross_chain cid (pm_ForeignContract x) (pm_LocalContract x) \<and>
        m (pm_ForeignContract x) = None \<and> m (pm_LocalContract x) = None) \<and>
     (\<forall>i j x y. p i = Some x \<longrightarrow> p j = Some y \<longrightarrow> i \<noteq> j \<longrightarrow>
        pm_ForeignContract x \<noteq> pm_ForeignContract y \<and> pm_LocalContract x \<noteq> pm_LocalContract y)"

abbreviation gw_mappings_ok :: "string \<Rightarrow> 't gw_world \<Rightarrow> bool" where
  "gw_mappings_ok cid w \<equiv> mappings_ok cid (gw_mappings w) (map_of (gw_pending w))"

lemma mappings_okD:
  assumes "mappings_ok cid m p"
  shows "m a = Some x \<Longrightarrow> am_From x = a" "m a = Some x \<Longrightarrow> m (am_To x) = Some \<lparr>am_From = am_To x, am_To = a\<rparr>"
    "m a = Some x \<Longrightarrow> (ChainID a = cid) = (ChainID (am_To x) \<noteq> cid)"
    "p i = Some y \<Longrightarrow> cross_chain cid (pm_ForeignContract y) (pm_LocalContract y)"
    "p i = Some y \<Longrightarrow> m (pm_ForeignContract y) = None" "p i = Some y \<Longrightarrow> m (pm_LocalContract y) = None"
    "p i = Some y \<Longrightarrow> p j = Some z \<Longrightarrow> i \<noteq> j \<Longrightarrow>
       pm_ForeignContract y \<noteq> pm_ForeignContract z \<and> pm_LocalContract y \<noteq> pm_LocalContract z"
  using assms unfolding mappings_ok_def by blast+

lemma mappings_ok_confirm:
  assumes ok: "mappings_ok cid m p" and fl: "cross_chain cid f l" and free: "m f = None" "m l = None"
    and other: "\<And>i x. p i = Some x \<Longrightarrow> pm_ForeignContract x \<noteq> f \<and> pm_LocalContract x \<noteq> l"
  shows "mappings_ok cid (m(f \<mapsto> \<lparr>am_From = f, am_To = l\<rparr>, l \<mapsto> \<lparr>am_From = l, am_To = f\<rparr>)) p"
    (is "mappings_ok cid ?m p")
  unfolding mappings_ok_def
proof (intro conjI allI impI)
  have ne: "f \<noteq> l" using fl by (auto simp: cross_chain_def)
  fix a x
  assume x: "?m a = Some x"
  have "am_From x = a \<and> ?m (am_To x) = Some \<lparr>am_From = am_To x, am_To = a\<rparr> \<and> (ChainID a = cid) = (ChainID (am_To x) \<noteq> cid)"
  proof (cases "a = f \<or> a = l")
    case True
    then show ?thesis using x ne fl by (auto simp: cross_chain_def split: if_split_asm)
  next
    case False
    with x have m: "m a = Some x" by (simp split: if_split_asm)
    then have "am_To x \<noteq> f" "am_To x \<noteq> l" using mappings_okD(2) [OF ok m] free by auto
    then show ?thesis using mappings_okD(1-3) [OF ok m] by simp
  qed
  then show "am_From x = a" "?m (am_To x) = Some \<lparr>am_From = am_To x, am_To = a\<rparr>" "(ChainID a = cid) = (ChainID (am_To x) \<noteq> cid)"
    by blast+
next
  fix i x
  assume x: "p i = Some x"
  show "cross_chain cid (pm_ForeignContract x) (pm_LocalContract x)" by (rule mappings_okD(4) [OF ok x])
  then have "pm_ForeignContract x \<noteq> l" "pm_LocalContract x \<noteq> f" using fl by (auto simp: cross_chain_def)
  then show "?m (pm_ForeignContract x) = None" "?m (pm_LocalContract x) = None"
    using other [OF x] mappings_okD(5,6) [OF ok x] by auto
next
  fix i j x y
  assume "p i = Some x" "p j = Some y" "i \<noteq> j"
  from mappings_okD(7) [OF ok this]
  show "pm_ForeignContract x \<noteq> pm_ForeignContract y" "pm_LocalContract x \<noteq> pm_LocalContract y" by blast+
qed

lemma mappings_ok_mono:
  assumes ok: "mappings_ok cid m p" and sub: "\<And>j x. q j = Some x \<Longrightarrow> p j = Some x"
  shows "mappings_ok cid m q"
  unfolding mappings_ok_def
proof (intro conjI allI impI)
  fix a z
  assume z: "m a = Some z"
  show "am_From z = a" "m (am_To z) = Some \<lparr>am_From = am_To z, am_To = a\<rparr>" "(ChainID a = cid) = (ChainID (am_To z) \<noteq> cid)"
    using mappings_okD(1-3) [OF ok z] by blast+
next
  fix j z
  assume "q j = Some z"
  from mappings_okD(4-6) [OF ok sub [OF this]]
  show "cross_chain cid (pm_ForeignContract z) (pm_LocalContract z)" "m (pm_ForeignContract z) = None" "m (pm_LocalContract z) = None" .
next
  fix j k y z
  assume "q j = Some y" "q k = Some z" "j \<noteq> k"
  from mappings_okD(7) [OF ok sub [OF this(1)] sub [OF this(2)] this(3)]
  show "pm_ForeignContract y \<noteq> pm_ForeignContract z" "pm_LocalContract y \<noteq> pm_LocalContract z" by blast+
qed

lemma mappings_ok_drop: "mappings_ok cid m p \<Longrightarrow> mappings_ok cid m (p(i := None))"
  by (erule mappings_ok_mono) (simp split: if_split_asm)

lemma mappings_ok_add:
  assumes ok: "mappings_ok cid m p" and "cross_chain cid (pm_ForeignContract x) (pm_LocalContract x)"
    and "m (pm_ForeignContract x) = None" and "m (pm_LocalContract x) = None"
    and other: "\<And>i y. p i = Some y \<Longrightarrow> pm_ForeignContract y \<noteq> pm_ForeignContract x \<and> pm_LocalContract y \<noteq> pm_LocalContract x"
  shows "mappings_ok cid m (p(i \<mapsto> x))"
  unfolding mappings_ok_def
proof (intro conjI allI impI)
  fix a z
  assume z: "m a = Some z"
  show "am_From z = a" "m (am_To z) = Some \<lparr>am_From = am_To z, am_To = a\<rparr>" "(ChainID a = cid) = (ChainID (am_To z) \<noteq> cid)"
    using mappings_okD(1-3) [OF ok z] by blast+
next
  fix j z
  assume "(p(i \<mapsto> x)) j = Some z"
  then have "z = x \<or> p j = Some z" by (auto split: if_split_asm)
  then show "cross_chain cid (pm_ForeignContract z) (pm_LocalContract z)" "m (pm_ForeignContract z) = None" "m (pm_LocalContract z) = None"
    using assms(2-4) mappings_okD(4-6) [OF ok] by blast+
next
  fix j k y z
  assume "(p(i \<mapsto> x)) j = Some y" "(p(i \<mapsto> x)) k = Some z" "j \<noteq> k"
  then have "pm_ForeignContract y \<noteq> pm_ForeignContract z \<and> pm_LocalContract y \<noteq> pm_LocalContract z"
    using other [of j y] other [of k z] mappings_okD(7) [OF ok, of j y k z] by (auto split: if_split_asm)
  then show "pm_ForeignContract y \<noteq> pm_ForeignContract z" "pm_LocalContract y \<noteq> pm_LocalContract z" by blast+
qed

lemma not_exists_mapping:
  assumes "\<not> contractMappingExists w f l"
  shows "gw_mappings w f = None" "gw_mappings w l = None"
    "map_of (gw_pending w) i = Some x \<Longrightarrow> pm_ForeignContract x \<noteq> f \<and> pm_LocalContract x \<noteq> l"
  using assms by (auto simp: contractMappingExists_def list_ex_iff dest!: map_of_SomeD)

lemma pending_drop: "map_of (gw_pending (drop_pending i w)) = (map_of (gw_pending w))(i := None)"
  by (simp add: drop_pending_def delete_conv')

lemma verify_creator_mappings:
  assumes "verify_creator c w = Inr w'" and ok: "gw_mappings_ok cid w"
  shows "gw_mappings_ok cid w'"
  using assms(1)
proof (cases rule: verify_creatorE)
  case (rejected m)
  then show ?thesis using mappings_ok_drop [OF ok] by (simp add: pending_drop) (simp add: drop_pending_def)
next
  case (confirmed m)
  let ?i = "vc_ContractMappingID c"
  have m: "cross_chain cid (pm_ForeignContract m) (pm_LocalContract m)" "gw_mappings w (pm_ForeignContract m) = None"
    "gw_mappings w (pm_LocalContract m) = None"
    using mappings_okD(4-6) [OF ok confirmed(1)] by blast+
  have "mappings_ok cid ((gw_mappings w)(pm_ForeignContract m \<mapsto> \<lparr>am_From = pm_ForeignContract m, am_To = pm_LocalContract m\<rparr>,
      pm_LocalContract m \<mapsto> \<lparr>am_From = pm_LocalContract m, am_To = pm_ForeignContract m\<rparr>)) ((map_of (gw_pending w))(?i := None))"
  proof (rule mappings_ok_confirm [OF mappings_ok_drop [OF ok] m])
    fix j x
    assume "((map_of (gw_pending w))(?i := None)) j = Some x"
    then have "map_of (gw_pending w) j = Some x" "j \<noteq> ?i" by (auto split: if_split_asm)
    then show "pm_ForeignContract x \<noteq> pm_ForeignContract m \<and> pm_LocalContract x \<noteq> pm_LocalContract m"
      using mappings_okD(7) [OF ok _ confirmed(1)] by blast
  qed
  moreover have "gw_mappings w' = (gw_mappings w)(pm_ForeignContract m \<mapsto> \<lparr>am_From = pm_ForeignContract m, am_To = pm_LocalContract m\<rparr>,
      pm_LocalContract m \<mapsto> \<lparr>am_From = pm_LocalContract m, am_To = pm_ForeignContract m\<rparr>)"
    by (simp add: confirmed(4) set_contract_mapping_def emit_def drop_pending_def)
  moreover have "map_of (gw_pending w') = (map_of (gw_pending w))(?i := None)"
    using pending_drop [of ?i w] by (simp add: confirmed(4) set_contract_mapping_def emit_def)
  ultimately show ?thesis by simp
qed (use ok in simp)

lemma cross_step_mappings:
  assumes "cross_step cid E w w'" and ok: "gw_mappings_ok cid w"
  shows "gw_mappings_ok cid w'"
proof -
  from assms(1) have "gw_step E w w'" by (simp add: cross_step_def)
  then show ?thesis
  proof (cases rule: gw_step_maps)
    case same
    then show ?thesis using ok by (simp add: same_maps_def)
  next
    case (add ctx fo lo sig h)
    then obtain f l where fl: "fo = Some f" "lo = Some l"
      unfolding AddContractMapping_def by (auto split: option.split_asm)
    then have cross: "cross_chain cid f l" using add assms(1) unfolding cross_step_def by blast
    have "\<not> contractMappingExists w f l \<and> gw_mappings w' = gw_mappings w \<and>
        (\<exists>i creator signer hash. gw_pending w' = AList.update i \<lparr>pm_ID = i, pm_ForeignContract = f, pm_LocalContract = l,
           pm_ForeignContractCreator = Address (ChainID f) signer, pm_ForeignContractTxHash = hash\<rparr> (gw_pending w))"
      using add unfolding fl AddContractMapping_def
      by (auto simp: Let_def saveState_def elim!: bind_resE split: option.split_asm if_split_asm) blast
    then obtain i x where x: "pm_ForeignContract x = f" "pm_LocalContract x = l" and fresh: "\<not> contractMappingExists w f l"
      and w': "gw_mappings w' = gw_mappings w" "gw_pending w' = AList.update i x (gw_pending w)"
      by (metis PendingContractMapping.select_convs(2,3))
    have "mappings_ok cid (gw_mappings w) ((map_of (gw_pending w))(i \<mapsto> x))"
      using ok cross not_exists_mapping [OF fresh] x by (intro mappings_ok_add) auto
    then show ?thesis by (simp add: w' update_conv')
  next
    case (auth ctx fo lo)
    then obtain f l where fl: "fo = Some f" "lo = Some l"
      unfolding AddAuthorizedContractMapping_def by (auto split: option.split_asm)
    then have cross: "cross_chain cid f l" using auth assms(1) unfolding cross_step_def by blast
    have fresh: "\<not> contractMappingExists w f l" and w': "w' = set_contract_mapping f l w"
      using auth unfolding fl AddAuthorizedContractMapping_def by (auto elim!: bind_resE split: if_split_asm)
    show ?thesis
      using mappings_ok_confirm [OF ok cross] not_exists_mapping [OF fresh]
      by (simp add: w' set_contract_mapping_def emit_def)
  next
    case (verified ctx cs)
    then have "fold_res verify_creator cs w = Inr w'"
      unfolding VerifyContractCreators_def by (auto split: if_split_asm)
    then show ?thesis by (rule fold_res_invariant) (use ok verify_creator_mappings in auto)
  qed
qed

text \<open>C13: The mapping between contracts is one to one. In a run whose mapping requests relate a
contract of another chain to one of this chain, every reachable state resolves in both directions
alike: the local contract of a foreign contract has that foreign contract as its own, and the other
way round, so no two foreign contracts share a local one.\<close>

theorem contract_mapping_bijective:
  assumes "Gateway_Init owner oracles n (gw_empty c e m t) = Inr w0" and "(cross_step cid E)\<^sup>*\<^sup>* w0 w"
  shows "resolveToLocalContractAddr w a = Inr b \<longleftrightarrow> resolveToForeignContractAddr w b = Inr a"
proof -
  have "gw_mappings_ok cid w"
    using assms(2)
  proof (induction rule: rtranclp_induct)
    case base
    show ?case by (simp add: mappings_ok_def Gateway_Init_fresh [OF assms(1)])
  qed (rule cross_step_mappings)
  from mappings_okD(2) [OF this, of a] mappings_okD(2) [OF this, of b] show ?thesis
    unfolding resolveToLocalContractAddr_def resolveToForeignContractAddr_def
    by (auto simp: bind_res_eq_Inr_iff)
qed

lemma AddContractMapping_mappings: "AddContractMapping H rec cr ctx f l sig h w = Inr w' \<Longrightarrow> gw_mappings w' = gw_mappings w"
  unfolding AddContractMapping_def
  by (auto simp: Let_def saveState_def elim!: bind_resE split: option.split_asm if_split_asm)

lemma demo_mapping:
  defines "f \<equiv> Address ''eth'' [5]" and "l \<equiv> Address ''default'' [6]"
  shows "cross_step ''default'' demo_gw_env demo_gw0 (set_contract_mapping f l demo_gw0)"
proof -
  have init: "gw_mappings demo_gw0 = Map.empty" "gw_pending demo_gw0 = []"
    by (rule Gateway_Init_fresh [OF demo_gw0_init])+
  let ?w = "set_contract_mapping f l demo_gw0"
  have "gw_step demo_gw_env demo_gw0 ?w"
    by (rule gw_step.add_auth_mapping [where ctx = "demo_gw_ctx demo_bob" and f = "Some f" and l = "Some l"])
      (simp add: AddAuthorizedContractMapping_def demo_gw0_state demo_gw_ctx_def contractMappingExists_def init f_def l_def)
  moreover have "gw_mappings ?w \<noteq> gw_mappings demo_gw0"
    by (simp add: set_contract_mapping_def emit_def init fun_eq_iff) blast
  then have "AddContractMapping H rec cr ctx (Some f') (Some l') sig h demo_gw0 \<noteq> Inr ?w" for H rec cr ctx f' l' sig h
    using AddContractMapping_mappings by blast
  moreover have "f' = f \<and> l' = l" if "AddAuthorizedContractMapping ctx (Some f') (Some l') demo_gw0 = Inr ?w" for ctx f' l'
  proof -
    have "gw_events (set_contract_mapping f' l' demo_gw0) = gw_events ?w"
      using that by (auto simp: AddAuthorizedContractMapping_def elim!: bind_resE split: if_split_asm)
    then show ?thesis by (simp add: set_contract_mapping_def)
  qed
  moreover have "cross_chain ''default'' f l" by (simp add: cross_chain_def f_def l_def)
  ultimately show ?thesis unfolding cross_step_def by blast
qed

theorem contract_mapping_bijective_witness:
  "resolveToLocalContractAddr (set_contract_mapping (Address ''eth'' [5]) (Address ''default'' [6]) demo_gw0) (Address ''eth'' [5])
     = Inr (Address ''default'' [6]) \<and>
   resolveToForeignContractAddr (set_contract_mapping (Address ''eth'' [5]) (Address ''default'' [6]) demo_gw0) (Address ''default'' [6])
     = Inr (Address ''eth'' [5])"
proof -
  have run: "(cross_step ''default'' demo_gw_env)\<^sup>*\<^sup>* demo_gw0 (set_contract_mapping (Address ''eth'' [5]) (Address ''default'' [6]) demo_gw0)"
    using demo_mapping by (rule r_into_rtranclp)
  show ?thesis
    using contract_mapping_bijective [OF demo_gw0_init run, of "Address ''eth'' [5]" "Address ''default'' [6]"]
    by (simp add: resolveToLocalContractAddr_def set_contract_mapping_def emit_def ctx_get_update)
qed

section \<open>Deposits\<close>

lemma bal_of_BalanceOf: "Coin_BalanceOf c a = Inr x \<Longrightarrow> wf_coin_store c \<Longrightarrow> x = bal_of c a"
  by (auto simp: Coin_BalanceOf_def coin_op_simps store_simps)

lemma coin_mint_others:
  assumes "coin_mintToGateway ctx n w = (r, w')" and "wf_coin_store (gw_coin w)"
  shows "wf_coin_store (gw_coin w')" "b \<noteq> contract_address ctx \<Longrightarrow> bal_of (gw_coin w') b = bal_of (gw_coin w) b"
proof -
  have "wf_coin_store (gw_coin w') \<and> (b \<noteq> contract_address ctx \<longrightarrow> bal_of (gw_coin w') b = bal_of (gw_coin w) b)"
  proof (cases "Coin_MintToGateway (as_gateway ctx) (gw_coin w) (Some n)")
    case (Inl e)
    then show ?thesis using assms by (auto simp: coin_mintToGateway_def on_coin_def)
  next
    case (Inr c)
    then have "gw_coin w' = c" using assms(1) by (auto simp: coin_mintToGateway_def on_coin_def)
    moreover from Inr have "Coin_mint (gw_coin w) (contract_address ctx) n = Inr c"
      by (rule Coin_MintToGatewayD) (auto simp: as_gateway_def)
    ultimately show ?thesis using Coin_mintD [OF assms(2)] by simp
  qed
  then show "wf_coin_store (gw_coin w')" "b \<noteq> contract_address ctx \<Longrightarrow> bal_of (gw_coin w') b = bal_of (gw_coin w) b"
    by simp_all
qed

lemma coin_transfer_moves:
  assumes "coin_transfer ctx a n w = (r, w')" and "wf_coin_store (gw_coin w)"
  shows "wf_coin_store (gw_coin w')" "r = Inl e \<Longrightarrow> w' = w"
    "r = Inr u \<Longrightarrow> bal_of (gw_coin w') = moved (bal_of (gw_coin w)) (contract_address ctx) a n"
proof -
  have "wf_coin_store (gw_coin w') \<and> (r = Inl e \<longrightarrow> w' = w) \<and>
     (r = Inr u \<longrightarrow> bal_of (gw_coin w') = moved (bal_of (gw_coin w)) (contract_address ctx) a n)"
  proof (cases "Coin_Transfer (as_gateway ctx) (gw_coin w) \<lparr>tr_to = a, tr_amount = Some n\<rparr>")
    case (Inl x)
    then show ?thesis using assms by (auto simp: coin_transfer_def on_coin_def)
  next
    case (Inr c)
    then have "gw_coin w' = c" "r = Inr ()" using assms(1) by (auto simp: coin_transfer_def on_coin_def)
    moreover from Coin_TransferD [OF assms(2) Inr]
    have "wf_coin_store c \<and> bal_of c = moved (bal_of (gw_coin w)) (contract_address ctx) a n"
      by (auto simp: as_gateway_def)
    ultimately show ?thesis by simp
  qed
  then show "wf_coin_store (gw_coin w')" "r = Inl e \<Longrightarrow> w' = w"
    "r = Inr u \<Longrightarrow> bal_of (gw_coin w') = moved (bal_of (gw_coin w)) (contract_address ctx) a n"
    by simp_all
qed

lemma transferTokenDeposit_coin:
  assumes dep: "transferTokenDeposit T ctx owner tok DiademCoin i (Some n) w = (r, w')" and wf: "wf_coin_store (gw_coin w)"
  shows "wf_coin_store (gw_coin w') \<and>
     (case r of
        Inl e \<Rightarrow> \<forall>b. b \<noteq> contract_address ctx \<longrightarrow> bal_of (gw_coin w') b = bal_of (gw_coin w) b
      | Inr _ \<Rightarrow> \<exists>a. resolveToMapped w owner = Inr a \<and>
          (a \<noteq> contract_address ctx \<longrightarrow>
             (\<forall>b. b \<noteq> contract_address ctx \<longrightarrow> bal_of (gw_coin w') b = bal_of (gw_coin w) b + (if b = a then n else 0))))"
proof -
  have pay: ?thesis if mapped: "resolveToMapped w owner = Inr a"
    and mint: "v = w \<or> coin_mintToGateway ctx n w = (m, v)" and pay: "coin_transfer ctx a n v = (r, w')" for a m v
  proof -
    have v: "wf_coin_store (gw_coin v)" "b \<noteq> contract_address ctx \<Longrightarrow> bal_of (gw_coin v) b = bal_of (gw_coin w) b" for b
      using mint coin_mint_others [OF _ wf] wf by auto
    show ?thesis
      using coin_transfer_moves [OF pay v(1)] v(2) mapped by (cases r) (auto simp: moved_def)
  qed
  consider (unpaid) e where "r = Inl e" "w' = w"
    | (unminted) e where "coin_mintToGateway ctx n w = (Inl e, w')" "r = Inl e"
    | (paid) a where "resolveToMapped w owner = Inr a" "coin_transfer ctx a n w = (r, w')"
    | (minted) a m v where "resolveToMapped w owner = Inr a" "coin_mintToGateway ctx n w = (m, v)" "coin_transfer ctx a n v = (r, w')"
    using dep unfolding transferTokenDeposit_def Let_def nonneg_or_def
    by (auto elim!: seq_resE split: if_split_asm)
  then show ?thesis
  proof cases
    case unpaid
    then show ?thesis using wf by simp
  next
    case unminted
    then show ?thesis using coin_mint_others [OF unminted(1) wf] by simp
  next
    case paid
    then show ?thesis by (intro pay [of _ w]) auto
  next
    case minted
    then show ?thesis by (intro pay) auto
  qed
qed

text \<open>What a depositor may still claim of a token that is counted by one amount.\<close>

definition unclaimed_amount :: "'t gw_world \<Rightarrow> address \<Rightarrow> address \<Rightarrow> int" where
  "unclaimed_amount w owner tok =
     (case map_of (gw_unclaimed w) (owner, tok) of
        None \<Rightarrow> 0
      | Some u \<Rightarrow> (case ut_Amounts u of [x] \<Rightarrow> nonneg_or (ta_TokenAmount x) | _ \<Rightarrow> 0))"

lemma storeUnclaimedToken_coin:
  assumes "storeUnclaimedToken d w = Inr w'" and "tt_TokenKind d = DiademCoin" and "tt_TokenOwner d = Some owner"
    and "tt_TokenAmount d = Some n"
  shows "unclaimed_amount w' owner (token_of (tt_TokenContract d)) = unclaimed_amount w owner (token_of (tt_TokenContract d)) + n"
    "(o', t') \<noteq> (owner, token_of (tt_TokenContract d)) \<Longrightarrow> unclaimed_amount w' o' t' = unclaimed_amount w o' t'"
    "gw_coin w' = gw_coin w"
proof -
  obtain u amounts where "(case map_of (gw_unclaimed w) (owner, token_of (tt_TokenContract d)) of
       None \<Rightarrow> \<lparr>ut_TokenContract = tt_TokenContract d, ut_TokenKind = tt_TokenKind d, ut_Amounts = []\<rparr> | Some u \<Rightarrow> u) = u"
    and add: "add_unclaimed d (ut_Amounts u) = Inr amounts"
    and w': "w' = emit (EvStoreUnclaimedToken (u\<lparr>ut_Amounts := amounts\<rparr>))
       (w\<lparr>gw_depositors := AList.update (token_of (tt_TokenContract d), owner) owner (gw_depositors w),
          gw_unclaimed := AList.update (owner, token_of (tt_TokenContract d)) (u\<lparr>ut_Amounts := amounts\<rparr>) (gw_unclaimed w)\<rparr>)"
    using assms(1,3) unfolding storeUnclaimedToken_def Let_def by (auto elim!: bind_resE)
  moreover from add assms(2,4) have "amounts = [\<lparr>ta_TokenID = None,
      ta_TokenAmount = Some ((case ut_Amounts u of [x] \<Rightarrow> nonneg_or (ta_TokenAmount x) | _ \<Rightarrow> 0) + n)\<rparr>]"
    by (auto simp: add_unclaimed_def nonneg_or_def elim!: bind_resE split: list.split_asm)
  ultimately show
    "unclaimed_amount w' owner (token_of (tt_TokenContract d)) = unclaimed_amount w owner (token_of (tt_TokenContract d)) + n"
    "(o', t') \<noteq> (owner, token_of (tt_TokenContract d)) \<Longrightarrow> unclaimed_amount w' o' t' = unclaimed_amount w o' t'"
    "gw_coin w' = gw_coin w"
    by (auto simp: unclaimed_amount_def emit_def update_conv' nonneg_or_def split: option.split_asm)
qed

text \<open>C12: No deposit is lost or paid twice. When an event that deposits the chain's own coin has been
counted, either the account mapped to the depositor has exactly the amount more and the claims are
what they were, or the depositor's claim has grown by exactly the amount; in both cases the balance
of no other account but the gateway itself has changed.\<close>

theorem deposit_credited_or_claimable:
  assumes "process_deposit True T ctx ev d w = (Count, w')"
    and "tt_TokenKind d = DiademCoin" and "tt_TokenOwner d = Some owner" and "tt_TokenAmount d = Some n"
    and "wf_coin_store (gw_coin w)" and "resolveToMapped w owner \<noteq> Inr (contract_address ctx)"
  shows "(\<exists>a. resolveToMapped w owner = Inr a \<and> gw_unclaimed w' = gw_unclaimed w \<and>
            (\<forall>b. b \<noteq> contract_address ctx \<longrightarrow> bal_of (gw_coin w') b = bal_of (gw_coin w) b + (if b = a then n else 0))) \<or>
         (unclaimed_amount w' owner (token_of (tt_TokenContract d)) =
            unclaimed_amount w owner (token_of (tt_TokenContract d)) + n \<and>
          (\<forall>o' t'. (o', t') \<noteq> (owner, token_of (tt_TokenContract d)) \<longrightarrow> unclaimed_amount w' o' t' = unclaimed_amount w o' t') \<and>
          (\<forall>b. b \<noteq> contract_address ctx \<longrightarrow> bal_of (gw_coin w') b = bal_of (gw_coin w) b))"
proof -
  obtain r v where tr: "transferTokenDeposit T ctx owner (token_of (tt_TokenContract d)) DiademCoin (tt_TokenID d) (Some n) w = (r, v)"
    by fastforce
  note moved = transferTokenDeposit_coin [OF tr assms(5)] and frame = only_ledgersD [OF transferTokenDeposit_frame [OF tr]]
  have emit_same: "gw_coin (emit x u) = gw_coin u" "gw_unclaimed (emit x u) = gw_unclaimed u"
    "gw_coin (saveSeenTxHash h k u) = gw_coin u" "gw_unclaimed (saveSeenTxHash h k u) = gw_unclaimed u"
    "unclaimed_amount (emit x u) = unclaimed_amount u" "unclaimed_amount (saveSeenTxHash h k u) = unclaimed_amount u"
    for x h k and u :: "'a gw_world"
    by (simp_all add: emit_def saveSeenTxHash_def unclaimed_amount_def fun_eq_iff)
  show ?thesis
  proof (cases r)
    case (Inr z)
    then have "gw_coin w' = gw_coin v" "gw_unclaimed w' = gw_unclaimed v"
      using assms(1-4) tr by (auto simp: process_deposit_def Let_def emit_same split: sum.split_asm if_split_asm)
    then show ?thesis using Inr moved frame assms(6) by auto
  next
    case (Inl e)
    have un: "unclaimed_amount v = unclaimed_amount w" using frame by (simp add: unclaimed_amount_def fun_eq_iff)
    obtain u where st: "storeUnclaimedToken d (emit (EvProcessEventError ev) v) = Inr u"
      and w': "gw_coin w' = gw_coin u" "unclaimed_amount w' = unclaimed_amount u"
      using assms(1-4) tr Inl
      by (auto simp: process_deposit_def Let_def emit_same split: sum.split_asm if_split_asm go_error.split_asm)
    note S = storeUnclaimedToken_coin [OF st assms(2-4)]
    show ?thesis
      using S Inl moved by (intro disjI2) (simp add: w' emit_same un)
  qed
qed

theorem deposit_credited_or_claimable_witness:
  "\<exists>d w'. process_deposit True demo_tokens (demo_gw_ctx demo_gw_oracle) (demo_deposit 12) d demo_gw0 = (Count, w') \<and>
     me_Payload (demo_deposit 12) = Deposit d \<and> unclaimed_amount w' demo_eth_user demo_eth_user = 7"
proof -
  define d where "d = \<lparr>tt_TokenOwner = Some demo_eth_user, tt_TokenContract = Some demo_eth_user,
     tt_TokenKind = DiademCoin, tt_TokenID = None, tt_TokenAmount = Some 7, tt_TxHash = [1]\<rparr>"
  obtain w' where w': "process_deposit True demo_tokens (demo_gw_ctx demo_gw_oracle) (demo_deposit 12) d demo_gw0 = (Count, w')"
    by (simp add: process_deposit_def demo_gw_ctx_def d_def demo_gw0_state
      validateTokenDeposit_def transferTokenDeposit_def resolveToMapped_def GetMapping_def storeUnclaimedToken_def
      add_unclaimed_def Let_def emit_def)
  have unmapped: "resolveToMapped demo_gw0 demo_eth_user \<noteq> Inr a" for a
    by (simp add: resolveToMapped_def GetMapping_def demo_gw0_state)
  have wf: "wf_coin_store (gw_coin demo_gw0)"
    by (simp add: demo_gw0_def saveState_def addOracle_def gw_empty_def)
  have "unclaimed_amount w' demo_eth_user (token_of (tt_TokenContract d)) =
      unclaimed_amount demo_gw0 demo_eth_user (token_of (tt_TokenContract d)) + 7"
    using deposit_credited_or_claimable [OF w', of demo_eth_user 7] wf unmapped by (auto simp: d_def)
  then show ?thesis
    using w' by (intro exI [of _ d] exI [of _ w'])
      (simp add: demo_deposit_def d_def token_of_def unclaimed_amount_def [of demo_gw0] demo_gw0_state)
qed

end
