(* ===== verification/Receipts.thy ===== *)
theory Receipts
  imports Tx_Pipeline
begin

text \<open>
  Receipts of EVM transactions: \<open>receipts/leveldb/leveldb.go\<close> (the size-bounded linked list of
  receipts in a LevelDB of the node), \<open>receipts/chain/chain.go\<close> and its two predecessors (receipts
  in the application state), \<open>receipts/handler/handler.go\<close> (the receipts of the block being built),
  \<open>receipts/common/common.go\<close>, \<open>receipts/provider.go\<close> and \<open>eth/bloom/bloom.go\<close>.

  The database is read through typed keys: transaction hashes are 32-byte digests, so they never
  meet the three parameter keys, and what is stored under a hash is an encoded list item. Reads
  and writes of LevelDB itself are taken to succeed. Heights, nonces and transaction indices are
  machine words; a signed field has the same bits. Arguments of the model: the SHA-256 digest of
  an encoded receipt, the generator of the filter library, the protobuf codecs and
  \<open>util.PrefixKey\<close>.

  The database is shown to be a bounded queue of the receipts committed so far, and the handler
  to number the receipts of a block and to hand exactly them over when the block ends.
\<close>

section \<open>Data\<close>

record EventData =
  ed_topics :: "string list"
  ed_caller :: address
  ed_address :: address
  ed_height :: u64
  ed_plugin :: string
  ed_body :: bytes
  ed_request :: bytes
  ed_tx_hash :: bytes
  ed_block_hash :: bytes
  ed_tx_index :: u64

record EvmTxReceipt =
  er_nonce :: u64
  er_index :: u32
  er_block_hash :: bytes
  er_block_number :: u64
  er_gas_cumulative :: u32
  er_gas_used :: u32
  er_contract :: bytes
  er_filter :: bytes
  er_status :: u32
  er_caller :: address
  er_tx_hash :: bytes
  er_logs :: "EventData list"

record EvmTxReceiptListItem =
  li_receipt :: EvmTxReceipt
  li_next :: bytes

record block_header =
  bh_height :: u64
  bh_current_hash :: bytes
  bh_last_hash :: bytes
  bh_num_txs :: u32

definition StatusTxSuccess :: u32 where "StatusTxSuccess = 1"
definition StatusTxFail :: u32 where "StatusTxFail = 0"

record receipt_env =
  re_digest :: "EvmTxReceipt \<Rightarrow> bytes"
  re_generate :: "bytes list \<Rightarrow> bytes"
  re_marshal :: "EvmTxReceipt \<Rightarrow> bytes"
  re_unmarshal :: "bytes \<Rightarrow> EvmTxReceipt res"
  re_marshal_hashes :: "bytes list \<Rightarrow> bytes"
  re_unmarshal_hashes :: "slice \<Rightarrow> bytes list res"
  re_prefix_key :: "bytes \<Rightarrow> bytes \<Rightarrow> bytes"

text \<open>A log of the EVM, as \<open>GetEventsFromLogs\<close> receives it, with the topics in their string form.\<close>

record eth_log =
  lg_topics :: "string list"
  lg_address :: bytes
  lg_data :: bytes

definition GetEventsFromLogs ::
    "eth_log list \<Rightarrow> u64 \<Rightarrow> address \<Rightarrow> string \<Rightarrow> bytes \<Rightarrow> EventData list" where
  "GetEventsFromLogs logs blockHeight caller contract_string input =
     map (\<lambda>l. \<lparr>ed_topics = lg_topics l, ed_caller = caller,
       ed_address = Address (ChainID caller) (lg_address l), ed_height = blockHeight,
       ed_plugin = contract_string, ed_body = lg_data l, ed_request = input,
       ed_tx_hash = [], ed_block_hash = [], ed_tx_index = 0\<rparr>) logs"

section \<open>The filter of a list of events\<close>

definition GenBdiademFilter :: "receipt_env \<Rightarrow> EventData list \<Rightarrow> bytes" where
  "GenBdiademFilter E msgs =
     (if msgs = [] then []
      else re_generate E
        (concat (map (\<lambda>m. map go_bytes (ed_topics m) @ [Local (ed_address m)]) msgs)))"

section \<open>Hash lists and filters in the application state\<close>

definition ReceiptPrefix :: bytes where "ReceiptPrefix = go_bytes ''receipt''"
definition BdiademPrefix :: bytes where "BdiademPrefix = go_bytes ''bdiademFilter''"
definition TxHashPrefix :: bytes where "TxHashPrefix = go_bytes ''txHash''"

definition BlockHeightToBytes :: "u64 \<Rightarrow> bytes" where
  "BlockHeightToBytes height = rev (be_bytes 8 (unat height))"

definition GetTxHashList :: "receipt_env \<Rightarrow> 's kv_ops \<Rightarrow> 's \<Rightarrow> u64 \<Rightarrow> bytes list res" where
  "GetTxHashList E K s height =
     re_unmarshal_hashes E
       (prefixReader_Get (re_prefix_key E) TxHashPrefix K s (BlockHeightToBytes height))"

definition AppendTxHashList ::
    "receipt_env \<Rightarrow> 's kv_ops \<Rightarrow> 's \<Rightarrow> bytes list \<Rightarrow> u64 \<Rightarrow> 's res" where
  "AppendTxHashList E K s txHash height =
     bind_res (GetTxHashList E K s height) (\<lambda>txHashList.
       Inr (prefixWriter_Set (re_prefix_key E) TxHashPrefix K s (BlockHeightToBytes height)
         (Some (re_marshal_hashes E (txHashList @ txHash)))))"

definition GetBdiademFilter :: "receipt_env \<Rightarrow> 's kv_ops \<Rightarrow> 's \<Rightarrow> u64 \<Rightarrow> slice" where
  "GetBdiademFilter E K s height =
     prefixReader_Get (re_prefix_key E) BdiademPrefix K s (BlockHeightToBytes height)"

definition SetBdiademFilter :: "receipt_env \<Rightarrow> 's kv_ops \<Rightarrow> 's \<Rightarrow> bytes \<Rightarrow> u64 \<Rightarrow> 's" where
  "SetBdiademFilter E K s fltr height =
     prefixWriter_Set (re_prefix_key E) BdiademPrefix K s (BlockHeightToBytes height) (Some fltr)"

section \<open>Receipts in LevelDB\<close>

text \<open>
  Posting to the event handler appends to a log of posts; \<open>posts\<close> is what a receipt posts.
\<close>

type_synonym posts = "(u64 \<times> EventData) list"

definition post_all :: "bool \<Rightarrow> u64 \<Rightarrow> bytes \<Rightarrow> EventData list \<Rightarrow> posts" where
  "post_all has_handler height txHash events =
     (if has_handler then map (\<lambda>e. (height, e\<lparr>ed_tx_hash := txHash\<rparr>)) events else [])"

definition WriteReceipt ::
    "receipt_env \<Rightarrow> block_header \<Rightarrow> address \<Rightarrow> address \<Rightarrow> EventData list \<Rightarrow> u32 \<Rightarrow> bool \<Rightarrow> u32 \<Rightarrow> u64
      \<Rightarrow> EvmTxReceipt \<times> posts" where
  "WriteReceipt E block caller addr events status has_handler evmTxIndex nonce =
     (let pre = \<lparr>er_nonce = nonce, er_index = evmTxIndex, er_block_hash = bh_current_hash block,
                 er_block_number = bh_height block, er_gas_cumulative = 0, er_gas_used = 0,
                 er_contract = Local addr, er_filter = GenBdiademFilter E events,
                 er_status = status, er_caller = caller, er_tx_hash = [], er_logs = []\<rparr>;
          txHash = re_digest E pre
      in (pre\<lparr>er_tx_hash := txHash,
            er_logs := map (\<lambda>e. e\<lparr>ed_tx_hash := txHash, ed_block_hash := bh_current_hash block,
                                 ed_tx_index := scast evmTxIndex\<rparr>) events\<rparr>,
          post_all has_handler (bh_height block) txHash events))"

record receipts_db =
  db_items :: "bytes \<rightharpoonup> EvmTxReceiptListItem"
  db_head :: slice
  db_tail :: slice
  db_size :: "u64 option"

record LevelDbReceipts =
  MaxDbSize :: u64
  lr_db :: receipts_db

definition LevelDb_GetReceipt :: "LevelDbReceipts \<Rightarrow> bytes \<Rightarrow> EvmTxReceipt res" where
  "LevelDb_GetReceipt lr txHash =
     (case db_items (lr_db lr) txHash of
        None \<Rightarrow> Inl (Err ''get receipt: leveldb: not found'')
      | Some item \<Rightarrow> Inr (li_receipt item))"

definition empty_db :: receipts_db where
  "empty_db = \<lparr>db_items = Map.empty, db_head = None, db_tail = None, db_size = None\<rparr>"

definition NewLevelDbReceipts :: "u64 \<Rightarrow> receipts_db \<Rightarrow> LevelDbReceipts" where
  "NewLevelDbReceipts maxReceipts db = \<lparr>MaxDbSize = maxReceipts, lr_db = db\<rparr>"

definition LevelDb_ClearData :: "LevelDbReceipts \<Rightarrow> LevelDbReceipts" where
  "LevelDb_ClearData lr = lr\<lparr>lr_db := empty_db\<rparr>"

definition getDBParams :: "receipts_db \<Rightarrow> (u64 \<times> bytes \<times> bytes) res" where
  "getDBParams db =
     (case db_size db of
        None \<Rightarrow> Inr (0, [], [])
      | Some sz \<Rightarrow>
          if sz = 0 then Inr (0, [], [])
          else (case db_head db of
              None \<Rightarrow> Inl (Err ''leveldb: not found'')
            | Some head \<Rightarrow>
                if head = [] then Inl (Err ''no head for non zero size receipt db'')
                else (case db_tail db of
                    None \<Rightarrow> Inl (Err ''leveldb: not found'')
                  | Some tail \<Rightarrow>
                      if tail = [] then Inl (Err ''no tail for non zero size receipt db'')
                      else Inr (sz, head, tail))))"

definition setDBParams :: "receipts_db \<Rightarrow> u64 \<Rightarrow> bytes \<Rightarrow> bytes \<Rightarrow> receipts_db" where
  "setDBParams tr sz head tail =
     tr\<lparr>db_head := Some head, db_tail := Some tail, db_size := Some sz\<rparr>"

text \<open>The loop of \<open>removeOldEntries\<close>; its bound counts down what is left to delete.\<close>

fun remove_loop ::
    "(bytes \<rightharpoonup> EvmTxReceiptListItem) \<Rightarrow> bytes \<Rightarrow> u64 \<Rightarrow> nat
      \<Rightarrow> ((bytes \<rightharpoonup> EvmTxReceiptListItem) \<times> bytes \<times> u64) res" where
  "remove_loop items head itemsDeleted 0 = Inr (items, head, itemsDeleted)"
| "remove_loop items head itemsDeleted (Suc n) =
     (if head = [] then Inr (items, head, itemsDeleted)
      else case items head of
          None \<Rightarrow> Inl (Err ''get head: leveldb: not found'')
        | Some item \<Rightarrow>
            remove_loop (items(head := None)) (li_next item) (itemsDeleted + 1) n)"

definition removeOldEntries ::
    "(bytes \<rightharpoonup> EvmTxReceiptListItem) \<Rightarrow> bytes \<Rightarrow> u64
      \<Rightarrow> ((bytes \<rightharpoonup> EvmTxReceiptListItem) \<times> bytes \<times> u64) res" where
  "removeOldEntries items head number =
     bind_res (remove_loop items head 0 (unat number)) (\<lambda>(items', head', itemsDeleted).
       if itemsDeleted < number then Inl (Err ''Unable to delete receipts'')
       else Inr (items', head', itemsDeleted))"

text \<open>
  The variables of \<open>CommitBlock\<close>: the items of the open transaction, the parameters, the item the
  tail will be stored as, and what the block adds to the application state.
\<close>

record commit_state =
  cs_items :: "bytes \<rightharpoonup> EvmTxReceiptListItem"
  cs_size :: u64
  cs_head :: bytes
  cs_tail :: bytes
  cs_tail_item :: EvmTxReceiptListItem
  cs_hashes :: "bytes list"
  cs_events :: "EventData list"

definition put_tail :: "commit_state \<Rightarrow> commit_state" where
  "put_tail c =
     c\<lparr>cs_items := (cs_items c)(cs_tail c \<mapsto> cs_tail_item c),
       cs_size := (if cs_items c (cs_tail c) = None then cs_size c + 1 else cs_size c)\<rparr>"

definition flush_tail :: "commit_state \<Rightarrow> commit_state" where
  "flush_tail c = (if cs_tail c = [] then c else put_tail c)"

definition link_receipt :: "EvmTxReceipt \<Rightarrow> commit_state \<Rightarrow> commit_state" where
  "link_receipt r c =
     (if cs_head c = [] then c\<lparr>cs_head := er_tx_hash r\<rparr>
      else put_tail (c\<lparr>cs_tail_item := (cs_tail_item c)\<lparr>li_next := er_tx_hash r\<rparr>\<rparr>))"

definition commit_receipt :: "EvmTxReceipt option \<Rightarrow> commit_state \<Rightarrow> commit_state" where
  "commit_receipt txReceipt c =
     (case txReceipt of
        None \<Rightarrow> c
      | Some r \<Rightarrow>
          if er_tx_hash r = [] then c
          else let c1 = link_receipt r c in
            c1\<lparr>cs_tail := er_tx_hash r,
               cs_tail_item := \<lparr>li_receipt = r, li_next = []\<rparr>,
               cs_hashes := (if er_status r = StatusTxSuccess then cs_hashes c1 @ [er_tx_hash r]
                             else cs_hashes c1),
               cs_events := cs_events c1 @ er_logs r\<rparr>)"

definition zero_receipt :: EvmTxReceipt where
  "zero_receipt = \<lparr>er_nonce = 0, er_index = 0, er_block_hash = [], er_block_number = 0,
     er_gas_cumulative = 0, er_gas_used = 0, er_contract = [], er_filter = [], er_status = 0,
     er_caller = Address [] [], er_tx_hash = [], er_logs = []\<rparr>"

definition begin_commit :: "receipts_db \<Rightarrow> commit_state res" where
  "begin_commit db =
     bind_res (getDBParams db) (\<lambda>(sz, headHash, tailHash).
     bind_res (if headHash = [] then Inr \<lparr>li_receipt = zero_receipt, li_next = []\<rparr>
               else (case db_items db tailHash of
                   None \<Rightarrow> Inl (Err ''cannot find tail: leveldb: not found'')
                 | Some item \<Rightarrow> Inr item)) (\<lambda>tailReceiptItem.
       Inr \<lparr>cs_items = db_items db, cs_size = sz, cs_head = headHash, cs_tail = tailHash,
            cs_tail_item = tailReceiptItem, cs_hashes = [], cs_events = []\<rparr>))"

text \<open>
  Dropping the oldest receipts. The branch on \<open>size < numDeleted\<close> wraps a nil error, so it ends
  the call without one and without committing the transaction: it is the value \<open>None\<close>.
\<close>

definition trim :: "u64 \<Rightarrow> commit_state \<Rightarrow> commit_state option res" where
  "trim maxSize c =
     (if maxSize < cs_size c
      then bind_res (removeOldEntries (cs_items c) (cs_head c) (cs_size c - maxSize))
        (\<lambda>(items, head, numDeleted).
          if cs_size c < numDeleted then Inr None
          else Inr (Some (c\<lparr>cs_items := items, cs_head := head, cs_size := cs_size c - numDeleted\<rparr>)))
      else Inr (Some c))"

definition LevelDb_CommitBlock ::
    "receipt_env \<Rightarrow> 's kv_ops \<Rightarrow> LevelDbReceipts \<Rightarrow> 's \<Rightarrow> EvmTxReceipt option list \<Rightarrow> u64
      \<Rightarrow> (LevelDbReceipts \<times> 's) res" where
  "LevelDb_CommitBlock E K lr state receipts height =
     (if receipts = [] then Inr (lr, state)
      else
        bind_res (begin_commit (lr_db lr)) (\<lambda>c0.
        let c1 = fold commit_receipt receipts c0;
            c2 = flush_tail c1
        in bind_res (trim (MaxDbSize lr) c2) (\<lambda>t.
          case t of
            None \<Rightarrow> Inr (lr, state)
          | Some c3 \<Rightarrow>
              bind_res (AppendTxHashList E K state (cs_hashes c3) height) (\<lambda>state'.
                Inr (lr\<lparr>lr_db := setDBParams ((lr_db lr)\<lparr>db_items := cs_items c3\<rparr>)
                                  (cs_size c3) (cs_head c3) (cs_tail c3)\<rparr>,
                     SetBdiademFilter E K state' (GenBdiademFilter E (cs_events c3)) height)))))"

section \<open>Receipts in the application state\<close>

definition status_of :: "bool \<Rightarrow> u32" where
  "status_of ok = (if ok then StatusTxSuccess else StatusTxFail)"

definition DepreciatedWriteReceipt ::
    "receipt_env \<Rightarrow> block_header \<Rightarrow> address \<Rightarrow> address \<Rightarrow> EventData list \<Rightarrow> u32 \<Rightarrow> bool
      \<Rightarrow> EvmTxReceipt \<times> posts" where
  "DepreciatedWriteReceipt E block caller addr events status has_handler =
     (let pre = \<lparr>er_nonce = 0, er_index = bh_num_txs block, er_block_hash = bh_last_hash block,
                 er_block_number = bh_height block, er_gas_cumulative = 0, er_gas_used = 0,
                 er_contract = Local addr, er_filter = GenBdiademFilter E events,
                 er_status = status, er_caller = caller, er_tx_hash = [], er_logs = []\<rparr>;
          txHash = re_digest E pre
      in (pre\<lparr>er_tx_hash := txHash, er_logs := map (\<lambda>e. e\<lparr>ed_tx_hash := txHash\<rparr>) events\<rparr>,
          post_all has_handler (bh_height block) txHash events))"

definition StateDB_GetReceipt :: "receipt_env \<Rightarrow> 's kv_ops \<Rightarrow> 's \<Rightarrow> bytes \<Rightarrow> EvmTxReceipt res" where
  "StateDB_GetReceipt E K s txHash =
     (case prefixReader_Get (re_prefix_key E) ReceiptPrefix K s txHash of
        None \<Rightarrow> Inl (Err ''Tx receipt not found'')
      | Some proto \<Rightarrow> re_unmarshal E proto)"

definition put_receipt :: "receipt_env \<Rightarrow> 's kv_ops \<Rightarrow> EvmTxReceipt \<Rightarrow> 's \<Rightarrow> 's" where
  "put_receipt E K r s =
     prefixWriter_Set (re_prefix_key E) ReceiptPrefix K s (er_tx_hash r) (Some (re_marshal E r))"

definition StateDB_CommitBlock ::
    "receipt_env \<Rightarrow> 's kv_ops \<Rightarrow> 's \<Rightarrow> EvmTxReceipt option list \<Rightarrow> u64 \<Rightarrow> 's res" where
  "StateDB_CommitBlock E K state receipts height =
     (if receipts = [] then Inr state
      else
        (case fold (\<lambda>txReceipt (txHashArray, events, s).
             (case txReceipt of
                None \<Rightarrow> (txHashArray, events, s)
              | Some r \<Rightarrow>
                  if er_tx_hash r = [] then (txHashArray, events, s)
                  else (txHashArray @ [er_tx_hash r], events @ er_logs r, put_receipt E K r s)))
           receipts ([], [], state) of
           (txHashArray, events, s) \<Rightarrow>
             bind_res (AppendTxHashList E K s txHashArray height) (\<lambda>s'.
               Inr (SetBdiademFilter E K s' (GenBdiademFilter E events) height))))"

text \<open>
  The handlers of earlier builds write every receipt at once. They store the hash of the
  transaction itself under the height, where the later ones store an encoded list.
\<close>

definition put_filter_and_hash ::
    "receipt_env \<Rightarrow> 's kv_ops \<Rightarrow> EvmTxReceipt \<Rightarrow> 's \<Rightarrow> 's" where
  "put_filter_and_hash E K r s =
     (let height = BlockHeightToBytes (er_block_number r);
          s1 = prefixWriter_Set (re_prefix_key E) BdiademPrefix K s height (Some (er_filter r))
      in prefixWriter_Set (re_prefix_key E) TxHashPrefix K s1 height (Some (er_tx_hash r)))"

definition LegacyV1_CacheReceipt ::
    "receipt_env \<Rightarrow> 's kv_ops \<Rightarrow> 's \<Rightarrow> block_header \<Rightarrow> address \<Rightarrow> address \<Rightarrow> EventData list
      \<Rightarrow> go_error option \<Rightarrow> (bytes \<times> go_error option) \<times> 's \<times> posts" where
  "LegacyV1_CacheReceipt E K s block caller addr events err =
     (case DepreciatedWriteReceipt E block caller addr events (status_of (err = None)) True of
        (r, posts) \<Rightarrow> ((er_tx_hash r, err), put_filter_and_hash E K r (put_receipt E K r s), posts))"

text \<open>\<open>writeReceipt\<close> of version 2 builds the receipt the way the later chain handler does.\<close>

definition LegacyV2_writeReceipt ::
    "receipt_env \<Rightarrow> block_header \<Rightarrow> address \<Rightarrow> address \<Rightarrow> EventData list \<Rightarrow> go_error option \<Rightarrow> bool
      \<Rightarrow> EvmTxReceipt \<times> posts" where
  "LegacyV2_writeReceipt E block caller addr events err has_handler =
     DepreciatedWriteReceipt E block caller addr events (status_of (err = None)) has_handler"

definition LegacyV2_CacheReceipt ::
    "receipt_env \<Rightarrow> 's kv_ops \<Rightarrow> 's \<Rightarrow> block_header \<Rightarrow> bool \<Rightarrow> address \<Rightarrow> address \<Rightarrow> EventData list
      \<Rightarrow> go_error option \<Rightarrow> (bytes \<times> go_error option) \<times> 's \<times> posts" where
  "LegacyV2_CacheReceipt E K s block has_handler caller addr events err =
     (case LegacyV2_writeReceipt E block caller addr events err has_handler of
        (r, posts) \<Rightarrow> ((er_tx_hash r, err), put_receipt E K r (put_filter_and_hash E K r s), posts))"

section \<open>The receipt handler\<close>

type_synonym ReceiptHandlerVersion = int

definition ReceiptHandlerChain :: ReceiptHandlerVersion where "ReceiptHandlerChain = 1"
definition ReceiptHandlerLevelDb :: ReceiptHandlerVersion where "ReceiptHandlerLevelDb = 2"
definition ReceiptHandlerLegacyV1 :: ReceiptHandlerVersion where "ReceiptHandlerLegacyV1 = 101"
definition ReceiptHandlerLegacyV2 :: ReceiptHandlerVersion where "ReceiptHandlerLegacyV2 = 102"

lemmas version_defs =
  ReceiptHandlerChain_def ReceiptHandlerLevelDb_def ReceiptHandlerLegacyV1_def
  ReceiptHandlerLegacyV2_def

definition ErrInvalidVersion :: go_error where "ErrInvalidVersion = Err ''invalid version''"

definition ReceiptHandlerVersionFromInt :: "int \<Rightarrow> ReceiptHandlerVersion res" where
  "ReceiptHandlerVersionFromInt v =
     (if v < 0 \<or> v > ReceiptHandlerLegacyV2 then Inl ErrInvalidVersion
      else if v = 0 then Inr ReceiptHandlerChain
      else Inr v)"

record ReceiptHandler =
  rh_version :: ReceiptHandlerVersion
  rh_has_events :: bool
  rh_leveldb :: LevelDbReceipts
  rh_cache :: "EvmTxReceipt list"
  rh_hashes :: "bytes list"
  rh_current :: "EvmTxReceipt option"

text \<open>A handler of another version than LevelDB never touches its database field.\<close>

definition NewReceiptHandler :: "ReceiptHandlerVersion \<Rightarrow> bool \<Rightarrow> u64 \<Rightarrow> receipts_db \<Rightarrow> ReceiptHandler" where
  "NewReceiptHandler version has_events maxReceipts db =
     \<lparr>rh_version = version, rh_has_events = has_events,
      rh_leveldb = NewLevelDbReceipts maxReceipts db, rh_cache = [], rh_hashes = [],
      rh_current = None\<rparr>"

definition GetReceipt ::
    "receipt_env \<Rightarrow> 's kv_ops \<Rightarrow> ReceiptHandler \<Rightarrow> 's \<Rightarrow> bytes \<Rightarrow> EvmTxReceipt res" where
  "GetReceipt E K rh s txHash =
     (if rh_version rh = ReceiptHandlerChain then StateDB_GetReceipt E K s txHash
      else if rh_version rh = ReceiptHandlerLevelDb
      then (case LevelDb_GetReceipt (rh_leveldb rh) txHash of
              Inr r \<Rightarrow> Inr r
            | Inl err \<Rightarrow>
                (case StateDB_GetReceipt E K s txHash of
                   Inl _ \<Rightarrow> Inl err
                 | Inr r \<Rightarrow> Inr r))
      else Inl ErrInvalidVersion)"

definition GetPendingReceipt :: "ReceiptHandler \<Rightarrow> bytes \<Rightarrow> EvmTxReceipt res" where
  "GetPendingReceipt rh txHash =
     (case find (\<lambda>r. er_tx_hash r = txHash) (rh_cache rh) of
        Some r \<Rightarrow> Inr r
      | None \<Rightarrow> Inl (Err ''pending receipt not found''))"

definition GetCurrentReceipt :: "ReceiptHandler \<Rightarrow> EvmTxReceipt option" where
  "GetCurrentReceipt rh = rh_current rh"

definition GetPendingTxHashList :: "ReceiptHandler \<Rightarrow> bytes list" where
  "GetPendingTxHashList rh = rh_hashes rh"

definition ClearData :: "ReceiptHandler \<Rightarrow> ReceiptHandler res" where
  "ClearData rh =
     (if rh_version rh = ReceiptHandlerChain then Inr rh
      else if rh_version rh = ReceiptHandlerLevelDb
      then Inr (rh\<lparr>rh_leveldb := LevelDb_ClearData (rh_leveldb rh)\<rparr>)
      else Inl ErrInvalidVersion)"

definition CommitCurrentReceipt :: "ReceiptHandler \<Rightarrow> ReceiptHandler" where
  "CommitCurrentReceipt rh =
     (case rh_current rh of
        None \<Rightarrow> rh
      | Some r \<Rightarrow>
          rh\<lparr>rh_cache := rh_cache rh @ [r], rh_hashes := rh_hashes rh @ [er_tx_hash r],
             rh_current := None\<rparr>)"

definition DiscardCurrentReceipt :: "ReceiptHandler \<Rightarrow> ReceiptHandler" where
  "DiscardCurrentReceipt rh = rh\<lparr>rh_current := None\<rparr>"

definition CommitBlock ::
    "receipt_env \<Rightarrow> 's kv_ops \<Rightarrow> ReceiptHandler \<Rightarrow> 's \<Rightarrow> u64 \<Rightarrow> 's res \<times> ReceiptHandler" where
  "CommitBlock E K rh state height =
     (let cleared = rh\<lparr>rh_hashes := [], rh_cache := []\<rparr>;
          receipts = map Some (rh_cache rh)
      in if rh_version rh = ReceiptHandlerChain
         then (StateDB_CommitBlock E K state receipts height, cleared)
         else if rh_version rh = ReceiptHandlerLevelDb
         then (case LevelDb_CommitBlock E K (rh_leveldb rh) state receipts height of
                 Inl err \<Rightarrow> (Inl err, cleared)
               | Inr (lr, state') \<Rightarrow> (Inr state', cleared\<lparr>rh_leveldb := lr\<rparr>))
         else (Inl ErrInvalidVersion, cleared))"

definition CacheReceipt ::
    "receipt_env \<Rightarrow> 's kv_ops \<Rightarrow> nonce_params \<Rightarrow> ReceiptHandler \<Rightarrow> 's \<Rightarrow> block_header \<Rightarrow> address
      \<Rightarrow> address \<Rightarrow> EventData list \<Rightarrow> bool \<Rightarrow> (bytes \<times> ReceiptHandler \<times> posts) res" where
  "CacheReceipt E K np rh state block caller addr events ok =
     bind_res
       (if rh_version rh = ReceiptHandlerChain
        then Inr (DepreciatedWriteReceipt E block caller addr events (status_of ok) (rh_has_events rh))
        else if rh_version rh = ReceiptHandlerLevelDb
        then bind_res (Nonce K np state caller) (\<lambda>nonce.
          Inr (WriteReceipt E block caller addr events (status_of ok) (rh_has_events rh)
            (of_nat (length (rh_cache rh))) nonce))
        else Inl ErrInvalidVersion)
       (\<lambda>(receipt, posts). Inr (er_tx_hash receipt, rh\<lparr>rh_current := Some receipt\<rparr>, posts))"

definition SetFailStatusCurrentReceipt :: "ReceiptHandler \<Rightarrow> ReceiptHandler" where
  "SetFailStatusCurrentReceipt rh =
     rh\<lparr>rh_current := map_option (\<lambda>r. r\<lparr>er_status := StatusTxFail\<rparr>) (rh_current rh)\<rparr>"

section \<open>The provider\<close>

datatype ReceiptReaderWriter = LegacyV1 | LegacyV2 | Current ReceiptHandler

definition handler_version :: "ReceiptReaderWriter \<Rightarrow> ReceiptHandlerVersion" where
  "handler_version h =
     (case h of LegacyV1 \<Rightarrow> ReceiptHandlerLegacyV1 | LegacyV2 \<Rightarrow> ReceiptHandlerLegacyV2
      | Current rh \<Rightarrow> rh_version rh)"

text \<open>
  \<open>resolveCfg\<close> reads the configuration; opening the database yields what is on disk. The result
  is the handler, which the provider keeps.
\<close>

definition new_handler ::
    "receipts_db res \<Rightarrow> bool \<Rightarrow> ReceiptHandlerVersion \<Rightarrow> u64 \<Rightarrow> ReceiptReaderWriter res" where
  "new_handler disk has_events ver maxReceipts =
     (if ver = ReceiptHandlerLegacyV1 then Inr LegacyV1
      else if ver = ReceiptHandlerLegacyV2 then Inr LegacyV2
      else if ver = ReceiptHandlerLevelDb
      then bind_res disk (\<lambda>db. Inr (Current (NewReceiptHandler ver has_events maxReceipts db)))
      else Inr (Current (NewReceiptHandler ver has_events maxReceipts empty_db)))"

definition resolve ::
    "(int \<Rightarrow> bool \<Rightarrow> (ReceiptHandlerVersion \<times> u64) res) \<Rightarrow> receipts_db res \<Rightarrow> bool
      \<Rightarrow> ReceiptReaderWriter option \<Rightarrow> int \<Rightarrow> bool \<Rightarrow> ReceiptReaderWriter res" where
  "resolve resolveCfg disk has_events handler blockHeight v2Feature =
     bind_res (resolveCfg blockHeight v2Feature) (\<lambda>(ver, maxPersistentReceipts).
       case handler of
         Some h \<Rightarrow> if ver = handler_version h then Inr h
                    else new_handler disk has_events ver maxPersistentReceipts
       | None \<Rightarrow> new_handler disk has_events ver maxPersistentReceipts)"

section \<open>The database as a bounded queue\<close>

text \<open>
  The items a list of receipts is stored as: each under its hash, pointing to the next one.
\<close>

definition first_hash :: "EvmTxReceipt list \<Rightarrow> bytes" where
  "first_hash rs = (case rs of [] \<Rightarrow> [] | r # _ \<Rightarrow> er_tx_hash r)"

fun link :: "EvmTxReceipt list \<Rightarrow> (bytes \<times> EvmTxReceiptListItem) list" where
  "link [] = []"
| "link (r # rs) = (er_tx_hash r, \<lparr>li_receipt = r, li_next = first_hash rs\<rparr>) # link rs"

definition hashed :: "EvmTxReceipt list \<Rightarrow> bool" where
  "hashed rs \<longleftrightarrow> distinct (map er_tx_hash rs) \<and> [] \<notin> er_tx_hash ` set rs"

definition lastn :: "nat \<Rightarrow> 'a list \<Rightarrow> 'a list" where
  "lastn n xs = drop (length xs - n) xs"

lemma first_hash_simps [simp]:
  "first_hash [] = []"
  "first_hash (r # rs) = er_tx_hash r"
  by (simp_all add: first_hash_def)

lemma first_hash_hd: "rs \<noteq> [] \<Longrightarrow> first_hash rs = er_tx_hash (hd rs)"
  by (cases rs) auto

lemma hashed_simps [simp]:
  "hashed []"
  "hashed (r # rs) \<longleftrightarrow> er_tx_hash r \<noteq> [] \<and> er_tx_hash r \<notin> er_tx_hash ` set rs \<and> hashed rs"
  by (auto simp: hashed_def)

lemma hashed_append:
  "hashed (rs @ qs) \<longleftrightarrow> hashed rs \<and> hashed qs \<and> er_tx_hash ` set rs \<inter> er_tx_hash ` set qs = {}"
  by (induction rs) auto

lemma hashed_drop: "hashed rs \<Longrightarrow> hashed (drop n rs)"
  by (induction rs arbitrary: n) (auto simp: drop_Cons split: nat.split)

lemma hashed_lastn: "hashed rs \<Longrightarrow> hashed (lastn n rs)"
  by (simp add: lastn_def hashed_drop)

lemma lastn_Nil [simp]: "lastn n [] = []"
  by (simp add: lastn_def)

lemma length_lastn [simp]: "length (lastn n xs) = min n (length xs)"
  by (simp add: lastn_def)

lemma lastn_all: "length xs \<le> n \<Longrightarrow> lastn n xs = xs"
  by (simp add: lastn_def)

lemma last_lastn: "lastn n xs \<noteq> [] \<Longrightarrow> last (lastn n xs) = last xs"
  by (simp add: lastn_def)

lemma set_lastn: "set (lastn n xs) \<subseteq> set xs"
  by (simp add: lastn_def set_drop_subset)

lemma lastn_append: "lastn n (lastn n xs @ ys) = lastn n (xs @ ys)"
proof -
  let ?k = "length xs - n" and ?zs = "lastn n xs @ ys"
  have split: "xs @ ys = take ?k xs @ ?zs" by (simp add: lastn_def)
  have len: "length (xs @ ys) - n = ?k + (length ?zs - n)" by auto
  have "lastn n (xs @ ys) = drop (?k + (length ?zs - n)) (xs @ ys)"
    unfolding lastn_def [of n "xs @ ys"] len ..
  also have "\<dots> = drop (length ?zs - n) ?zs" by (subst split) simp
  finally show ?thesis by (simp only: lastn_def [of n ?zs])
qed

lemma link_dom: "x \<in> dom (map_of (link rs)) \<longleftrightarrow> x \<in> er_tx_hash ` set rs"
  by (induction rs) (auto split: if_splits)

lemma link_None: "map_of (link rs) x = None \<longleftrightarrow> x \<notin> er_tx_hash ` set rs"
  using link_dom [of x rs] by (auto simp: domIff)

lemma link_find: "map_option li_receipt (map_of (link rs) h) = find (\<lambda>r. er_tx_hash r = h) rs"
  by (induction rs) auto

lemma link_last:
  "rs \<noteq> [] \<Longrightarrow> hashed rs \<Longrightarrow>
     map_of (link rs) (er_tx_hash (last rs)) = Some \<lparr>li_receipt = last rs, li_next = []\<rparr>"
proof (induction rs)
  case Nil
  then show ?case by simp
next
  case (Cons r rs)
  show ?case
  proof (cases "rs = []")
    case True
    then show ?thesis by simp
  next
    case False
    then have "er_tx_hash (last rs) \<in> er_tx_hash ` set rs" by simp
    with Cons.prems have "er_tx_hash (last rs) \<noteq> er_tx_hash r" by auto
    with Cons False show ?thesis by simp
  qed
qed

lemma link_snoc:
  assumes "qs \<noteq> []" and "hashed (qs @ [r])"
  shows "map_of (link (qs @ [r])) =
    (map_of (link qs))(er_tx_hash (last qs) \<mapsto> \<lparr>li_receipt = last qs, li_next = er_tx_hash r\<rparr>,
      er_tx_hash r \<mapsto> \<lparr>li_receipt = r, li_next = []\<rparr>)"
  using assms
proof (induction qs)
  case Nil
  then show ?case by simp
next
  case (Cons q qs)
  show ?case
  proof (cases "qs = []")
    case True
    with Cons.prems show ?thesis by (auto simp: fun_eq_iff)
  next
    case False
    then have "er_tx_hash (last qs) \<in> er_tx_hash ` set qs" by simp
    with Cons.prems have "er_tx_hash (last qs) \<noteq> er_tx_hash q" by auto
    moreover have "er_tx_hash r \<noteq> er_tx_hash q"
      using Cons.prems by auto
    moreover have "first_hash (qs @ [r]) = first_hash qs"
      using False by (cases qs) auto
    moreover have "map_of (link (qs @ [r])) = (map_of (link qs))
        (er_tx_hash (last qs) \<mapsto> \<lparr>li_receipt = last qs, li_next = er_tx_hash r\<rparr>,
         er_tx_hash r \<mapsto> \<lparr>li_receipt = r, li_next = []\<rparr>)"
      using False Cons.prems by (intro Cons.IH) simp_all
    ultimately show ?thesis
      using False by (auto simp: fun_eq_iff)
  qed
qed

lemma link_remove_head:
  "hashed (r # rs) \<Longrightarrow> (map_of (link (r # rs)))(er_tx_hash r := None) = map_of (link rs)"
  using link_None [of rs "er_tx_hash r"] by (intro ext) simp

lemma remove_loop_link:
  "hashed rs \<Longrightarrow> n \<le> length rs \<Longrightarrow>
     remove_loop (map_of (link rs)) (first_hash rs) d n =
       Inr (map_of (link (drop n rs)), first_hash (drop n rs), d + of_nat n)"
proof (induction n arbitrary: rs d)
  case 0
  then show ?case by simp
next
  case (Suc n)
  then obtain r qs where rs: "rs = r # qs" by (cases rs) auto
  with Suc.prems have "remove_loop (map_of (link qs)) (first_hash qs) (d + 1) n =
      Inr (map_of (link (drop n qs)), first_hash (drop n qs), d + 1 + of_nat n)"
    by (intro Suc.IH) auto
  moreover have "(map_of (link rs))(er_tx_hash r := None) = map_of (link qs)"
    using link_remove_head [of r qs] Suc.prems by (simp only: rs)
  moreover have "map_of (link rs) (er_tx_hash r) = Some \<lparr>li_receipt = r, li_next = first_hash qs\<rparr>"
    by (simp add: rs)
  ultimately show ?case
    using Suc.prems by (simp add: rs ac_simps del: map_of.simps link.simps)
qed

lemma removeOldEntries_link:
  assumes "hashed rs" and "unat n \<le> length rs"
  shows "removeOldEntries (map_of (link rs)) (first_hash rs) n =
    Inr (map_of (link (drop (unat n) rs)), first_hash (drop (unat n) rs), n)"
  using remove_loop_link [OF assms, of 0] by (simp add: removeOldEntries_def)

text \<open>The variables of \<open>CommitBlock\<close> while it appends: the tail is still to be written.\<close>

definition cs_rep :: "commit_state \<Rightarrow> EvmTxReceipt list \<Rightarrow> bool" where
  "cs_rep c qs \<longleftrightarrow>
     cs_head c = first_hash qs \<and>
     (if qs = [] then cs_items c = Map.empty \<and> cs_size c = 0 \<and> cs_tail c = []
      else (cs_items c)(cs_tail c \<mapsto> cs_tail_item c) = map_of (link qs) \<and>
        cs_tail c = er_tx_hash (last qs) \<and>
        cs_tail_item c = \<lparr>li_receipt = last qs, li_next = []\<rparr> \<and>
        cs_size c + (if cs_items c (cs_tail c) = None then 1 else 0) = of_nat (length qs))"

definition kept :: "EvmTxReceipt option list \<Rightarrow> EvmTxReceipt list" where
  "kept xs = filter (\<lambda>r. er_tx_hash r \<noteq> []) (List.map_filter id xs)"

lemma kept_simps [simp]:
  "kept [] = []"
  "kept (None # xs) = kept xs"
  "kept (Some r # xs) = (if er_tx_hash r = [] then kept xs else r # kept xs)"
  by (simp_all add: kept_def List.map_filter_simps)

lemma kept_Some: "[] \<notin> er_tx_hash ` set rs \<Longrightarrow> kept (map Some rs) = rs"
  by (induction rs) auto

lemma link_receipt_frame [simp]:
  "cs_hashes (link_receipt r c) = cs_hashes c"
  "cs_events (link_receipt r c) = cs_events c"
  by (simp_all add: link_receipt_def put_tail_def)

lemma commit_receipt_rep:
  assumes rep: "cs_rep c qs" and h: "hashed (qs @ [r])"
  shows "cs_rep (commit_receipt (Some r) c) (qs @ [r])"
proof (cases "qs = []")
  case True
  with rep h show ?thesis
    by (simp add: cs_rep_def commit_receipt_def link_receipt_def Let_def fun_eq_iff)
next
  case False
  let ?u = "c\<lparr>cs_tail_item := (cs_tail_item c)\<lparr>li_next := er_tx_hash r\<rparr>\<rparr>"
  from rep False have tail: "cs_tail c = er_tx_hash (last qs)"
    and item: "cs_tail_item c = \<lparr>li_receipt = last qs, li_next = []\<rparr>"
    and items: "(cs_items c)(cs_tail c \<mapsto> cs_tail_item c) = map_of (link qs)"
    and sz: "cs_size c + (if cs_items c (cs_tail c) = None then 1 else 0) = of_nat (length qs)"
    and head: "cs_head c = er_tx_hash (hd qs)"
    by (auto simp: cs_rep_def first_hash_hd)
  have "er_tx_hash (hd qs) \<in> er_tx_hash ` set qs" using False by simp
  with h have ne: "cs_head c \<noteq> []" "er_tx_hash r \<noteq> []"
    unfolding head hashed_append hashed_def by auto
  have items': "cs_items (put_tail ?u) =
      (map_of (link qs))(er_tx_hash (last qs) \<mapsto> \<lparr>li_receipt = last qs, li_next = er_tx_hash r\<rparr>)"
    by (simp add: put_tail_def items [symmetric] tail item)
  have "er_tx_hash r \<notin> er_tx_hash ` set qs" "er_tx_hash r \<noteq> er_tx_hash (last qs)"
    using h False by (auto simp: hashed_append)
  then have fresh: "cs_items (put_tail ?u) (er_tx_hash r) = None"
    by (simp add: items' link_None)
  have "cs_size (put_tail ?u) = of_nat (length qs)"
    using sz by (auto simp: put_tail_def split: if_splits)
  moreover have "first_hash (qs @ [r]) = first_hash qs"
    using False by (cases qs) auto
  moreover have "cs_head (put_tail ?u) = cs_head c"
    by (simp add: put_tail_def)
  ultimately show ?thesis
    using ne fresh items' link_snoc [OF False h] False head
    by (simp add: cs_rep_def commit_receipt_def link_receipt_def Let_def first_hash_hd)
qed

lemma commit_receipts_rep:
  assumes "cs_rep c qs" and "hashed (qs @ kept xs)"
  shows "cs_rep (fold commit_receipt xs c) (qs @ kept xs)"
  using assms
proof (induction xs arbitrary: c qs)
  case Nil
  then show ?case by simp
next
  case (Cons x xs)
  show ?case
  proof (cases "x = None \<or> er_tx_hash (the x) = []")
    case True
    then have "commit_receipt x c = c" and "kept (x # xs) = kept xs"
      by (cases x; simp add: commit_receipt_def)+
    with Cons show ?thesis by simp
  next
    case False
    then obtain r where x: "x = Some r" and r: "er_tx_hash r \<noteq> []" by auto
    with Cons.prems have "hashed ((qs @ [r]) @ kept xs)" by simp
    moreover from this have "hashed (qs @ [r])" by (simp add: hashed_append)
    ultimately show ?thesis
      using Cons.IH [OF commit_receipt_rep [OF Cons.prems(1)], of r] by (simp add: x r)
  qed
qed

lemma commit_receipts_outputs:
  "cs_hashes (fold commit_receipt xs c) =
     cs_hashes c @ map er_tx_hash (filter (\<lambda>r. er_status r = StatusTxSuccess) (kept xs))"
  "cs_events (fold commit_receipt xs c) = cs_events c @ concat (map er_logs (kept xs))"
  by (induction xs arbitrary: c)
    (auto simp: commit_receipt_def Let_def split: option.split)

text \<open>The database between blocks.\<close>

definition db_rep :: "receipts_db \<Rightarrow> EvmTxReceipt list \<Rightarrow> bool" where
  "db_rep db rs \<longleftrightarrow>
     db_items db = map_of (link rs) \<and> hashed rs \<and> length rs < 2 ^ 64 \<and>
     (if rs = [] then db_size db \<in> {None, Some 0}
      else db_size db = Some (of_nat (length rs)) \<and> db_head db = Some (er_tx_hash (hd rs)) \<and>
        db_tail db = Some (er_tx_hash (last rs)))"

lemma db_rep_empty: "db_rep empty_db []"
  by (simp add: db_rep_def empty_db_def)

lemma of_nat_length_nonzero:
  "xs \<noteq> [] \<Longrightarrow> length xs < 2 ^ 64 \<Longrightarrow> (of_nat (length xs) :: u64) \<noteq> 0"
  by (auto simp: word_unat_eq_iff unat_of_nat)

lemma hashed_hd_last:
  assumes "hashed rs" and "rs \<noteq> []"
  shows "er_tx_hash (hd rs) \<noteq> []" and "er_tx_hash (last rs) \<noteq> []"
proof -
  have "er_tx_hash (hd rs) \<in> er_tx_hash ` set rs" "er_tx_hash (last rs) \<in> er_tx_hash ` set rs"
    using assms(2) by simp_all
  with assms(1) show "er_tx_hash (hd rs) \<noteq> []" "er_tx_hash (last rs) \<noteq> []"
    unfolding hashed_def by metis+
qed

lemma begin_commit_rep:
  assumes "db_rep db rs"
  shows "\<exists>c. begin_commit db = Inr c \<and> cs_rep c rs \<and> cs_hashes c = [] \<and> cs_events c = []"
proof (cases "rs = []")
  case True
  with assms show ?thesis
    by (auto simp: db_rep_def begin_commit_def getDBParams_def cs_rep_def)
next
  case False
  note [simp] = hashed_hd_last [OF _ False] of_nat_length_nonzero [OF False] link_last [OF False]
  from assms False show ?thesis
    by (auto simp: db_rep_def begin_commit_def getDBParams_def cs_rep_def first_hash_hd
        map_upd_triv)
qed

lemma put_tail_rep:
  assumes "cs_rep c qs"
  defines "c' \<equiv> flush_tail c"
  assumes "hashed qs"
  shows "cs_items c' = map_of (link qs) \<and> cs_head c' = first_hash qs \<and>
    cs_size c' = of_nat (length qs) \<and> (qs \<noteq> [] \<longrightarrow> cs_tail c' = er_tx_hash (last qs)) \<and>
    cs_hashes c' = cs_hashes c \<and> cs_events c' = cs_events c"
proof (cases "qs = []")
  case True
  with assms show ?thesis by (simp add: cs_rep_def flush_tail_def)
next
  case False
  with assms hashed_hd_last [of qs] show ?thesis
    by (auto simp: cs_rep_def flush_tail_def put_tail_def split: if_splits)
qed

lemma trim_rep:
  assumes "cs_items c = map_of (link qs)" and "cs_head c = first_hash qs"
    and size: "cs_size c = of_nat (length qs)" and h: "hashed qs" and len: "length qs < 2 ^ 64"
  shows "\<exists>c'. trim m c = Inr (Some c') \<and> cs_items c' = map_of (link (lastn (unat m) qs)) \<and>
    cs_head c' = first_hash (lastn (unat m) qs) \<and>
    cs_size c' = of_nat (length (lastn (unat m) qs)) \<and> cs_tail c' = cs_tail c \<and>
    cs_hashes c' = cs_hashes c \<and> cs_events c' = cs_events c"
proof -
  have u: "unat (cs_size c) = length qs"
    using len by (simp add: size unat_of_nat)
  show ?thesis
  proof (cases "m < cs_size c")
    case False
    then have "length qs \<le> unat m" by (simp add: word_less_nat_alt u)
    with False assms show ?thesis by (simp add: trim_def lastn_all)
  next
    case True
    then have lt: "unat m < length qs" and n: "unat (cs_size c - m) = length qs - unat m"
      by (simp_all add: word_less_nat_alt u unat_sub word_le_nat_alt)
    have "removeOldEntries (cs_items c) (cs_head c) (cs_size c - m) =
        Inr (map_of (link (lastn (unat m) qs)), first_hash (lastn (unat m) qs), cs_size c - m)"
      using removeOldEntries_link [OF h, of "cs_size c - m"]
      unfolding n assms(1,2) by (simp add: lastn_def)
    moreover have "\<not> cs_size c < cs_size c - m"
      using lt by (simp add: word_less_nat_alt n u)
    ultimately show ?thesis
      using True lt by (simp add: trim_def)
  qed
qed

text \<open>What a block adds to the application state.\<close>

definition block_outputs ::
    "receipt_env \<Rightarrow> 's kv_ops \<Rightarrow> 's \<Rightarrow> EvmTxReceipt list \<Rightarrow> EvmTxReceipt list \<Rightarrow> u64 \<Rightarrow> 's res" where
  "block_outputs E K s listed rs height =
     bind_res (AppendTxHashList E K s (map er_tx_hash listed) height) (\<lambda>s'.
       Inr (SetBdiademFilter E K s' (GenBdiademFilter E (concat (map er_logs rs))) height))"

lemma LevelDb_CommitBlock_rep:
  assumes rep: "db_rep (lr_db lr) rs" and h: "hashed (rs @ kept xs)"
    and len: "length (rs @ kept xs) < 2 ^ 64" and fits: "length rs \<le> unat (MaxDbSize lr)"
    and ne: "xs \<noteq> []"
  obtains lr' where "MaxDbSize lr' = MaxDbSize lr"
    and "db_rep (lr_db lr') (lastn (unat (MaxDbSize lr)) (rs @ kept xs))"
    and "LevelDb_CommitBlock E K lr s xs height =
      bind_res (block_outputs E K s (filter (\<lambda>r. er_status r = StatusTxSuccess) (kept xs)) (kept xs)
        height) (\<lambda>s'. Inr (lr', s'))"
proof -
  let ?qs = "rs @ kept xs" and ?m = "MaxDbSize lr"
  obtain c0 where c0: "begin_commit (lr_db lr) = Inr c0" "cs_rep c0 rs"
    "cs_hashes c0 = []" "cs_events c0 = []"
    using begin_commit_rep [OF rep] by blast
  define c1 where "c1 = fold commit_receipt xs c0"
  define c2 where "c2 = flush_tail c1"
  have "cs_rep c1 ?qs"
    unfolding c1_def using commit_receipts_rep [OF c0(2) h] .
  from put_tail_rep [OF this h] have c2: "cs_items c2 = map_of (link ?qs)"
    "cs_head c2 = first_hash ?qs" "cs_size c2 = of_nat (length ?qs)"
    "?qs \<noteq> [] \<longrightarrow> cs_tail c2 = er_tx_hash (last ?qs)"
    "cs_hashes c2 = cs_hashes c1" "cs_events c2 = cs_events c1"
    unfolding c2_def by blast+
  obtain c3 where c3: "trim ?m c2 = Inr (Some c3)"
    "cs_items c3 = map_of (link (lastn (unat ?m) ?qs))"
    "cs_head c3 = first_hash (lastn (unat ?m) ?qs)"
    "cs_size c3 = of_nat (length (lastn (unat ?m) ?qs))" "cs_tail c3 = cs_tail c2"
    "cs_hashes c3 = cs_hashes c2" "cs_events c3 = cs_events c2"
    using trim_rep [OF c2(1-3) h len] by blast
  let ?lr' = "lr\<lparr>lr_db := setDBParams ((lr_db lr)\<lparr>db_items := cs_items c3\<rparr>)
    (cs_size c3) (cs_head c3) (cs_tail c3)\<rparr>"
  note last = last_lastn [of "unat ?m" ?qs]
  have "db_rep (lr_db ?lr') (lastn (unat ?m) ?qs)"
    using c2(4) c3 last hashed_lastn [OF h] len
    by (cases "lastn (unat ?m) ?qs = []") (auto simp: db_rep_def setDBParams_def first_hash_hd)
  moreover have "LevelDb_CommitBlock E K lr s xs height =
      bind_res (block_outputs E K s (filter (\<lambda>r. er_status r = StatusTxSuccess) (kept xs)) (kept xs)
        height) (\<lambda>s'. Inr (?lr', s'))"
    using ne c0 c3 c2(5,6) commit_receipts_outputs [of xs c0]
    by (simp add: LevelDb_CommitBlock_def Let_def block_outputs_def bind_res_assoc
        c1_def [symmetric] c2_def [symmetric])
  ultimately show thesis
    by (intro that) simp_all
qed

lemma LevelDb_GetReceipt_rep:
  "db_rep (lr_db lr) rs \<Longrightarrow>
     LevelDb_GetReceipt lr h =
       (case find (\<lambda>r. er_tx_hash r = h) rs of
          None \<Rightarrow> Inl (Err ''get receipt: leveldb: not found'')
        | Some r \<Rightarrow> Inr r)"
  using link_find [of rs h]
  by (cases "map_of (link rs) h") (auto simp: db_rep_def LevelDb_GetReceipt_def dest: sym)

section \<open>The receipts of a chain\<close>

text \<open>
  A run of the LevelDB handler: the receipts cached while a transaction runs the EVM, the receipt
  an EVM transaction commits (with its status set to failed or not), discarded receipts, and ends
  of blocks with growing heights. \<open>hist\<close> lists the receipts of the blocks whose commit succeeded.
  A block holds fewer than \<open>2 ^ 32\<close> transactions.
\<close>

inductive receipts_reach ::
    "receipt_env \<Rightarrow> 's kv_ops \<Rightarrow> nonce_params \<Rightarrow> u64 \<Rightarrow> ReceiptHandler \<Rightarrow> EvmTxReceipt list \<Rightarrow> u64 \<Rightarrow> bool"
  for E :: receipt_env and K :: "'s kv_ops" and np :: nonce_params and m :: u64 where
  start: "receipts_reach E K np m (NewReceiptHandler ReceiptHandlerLevelDb ev m empty_db) [] h"
| cached:
    "receipts_reach E K np m rh hist h \<Longrightarrow> bh_height block = h \<Longrightarrow>
     CacheReceipt E K np rh s block caller addr events ok = Inr (hash, rh', posts) \<Longrightarrow>
     receipts_reach E K np m rh' hist h"
| evm_tx:
    "receipts_reach E K np m rh hist h \<Longrightarrow> bh_height block = h \<Longrightarrow>
     length (rh_cache rh) < 2 ^ 32 \<Longrightarrow>
     CacheReceipt E K np rh s block caller addr events ok = Inr (hash, rh', posts) \<Longrightarrow>
     receipts_reach E K np m
       (CommitCurrentReceipt (if failed then SetFailStatusCurrentReceipt rh' else rh')) hist h"
| discarded: "receipts_reach E K np m rh hist h \<Longrightarrow> receipts_reach E K np m (DiscardCurrentReceipt rh) hist h"
| end_block:
    "receipts_reach E K np m rh hist h \<Longrightarrow> h < h' \<Longrightarrow> CommitBlock E K rh s h = (r, rh') \<Longrightarrow>
     receipts_reach E K np m rh' (case r of Inl _ \<Rightarrow> hist | Inr _ \<Rightarrow> hist @ rh_cache rh) h'"

text \<open>
  What is asked of the digest: receipts of different transactions have different digests, and no
  digest is empty.
\<close>

definition collision_free :: "receipt_env \<Rightarrow> bool" where
  "collision_free E \<longleftrightarrow>
     (\<forall>a b. re_digest E a = re_digest E b \<longrightarrow>
        er_block_number a = er_block_number b \<and> er_index a = er_index b) \<and>
     (\<forall>a. re_digest E a \<noteq> [])"

definition digest_of :: "receipt_env \<Rightarrow> EvmTxReceipt \<Rightarrow> bool" where
  "digest_of E r \<longleftrightarrow> (\<exists>a. er_tx_hash r = re_digest E a \<and> er_block_number a = er_block_number r \<and>
     er_index a = er_index r)"

definition receipts_inv :: "receipt_env \<Rightarrow> u64 \<Rightarrow> ReceiptHandler \<Rightarrow> EvmTxReceipt list \<Rightarrow> u64 \<Rightarrow> bool" where
  "receipts_inv E m rh hist h \<longleftrightarrow>
     rh_version rh = ReceiptHandlerLevelDb \<and> MaxDbSize (rh_leveldb rh) = m \<and>
     db_rep (lr_db (rh_leveldb rh)) (lastn (unat m) hist) \<and> hashed hist \<and>
     (\<forall>r \<in> set hist. er_block_number r < h \<and> digest_of E r) \<and>
     (\<forall>i < length (rh_cache rh). er_block_number (rh_cache rh ! i) = h \<and>
        er_index (rh_cache rh ! i) = of_nat i \<and> digest_of E (rh_cache rh ! i)) \<and>
     length (rh_cache rh) \<le> 2 ^ 32 \<and> rh_hashes rh = map er_tx_hash (rh_cache rh)"

lemma digest_of_key:
  "collision_free E \<Longrightarrow> digest_of E r \<Longrightarrow> digest_of E q \<Longrightarrow> er_tx_hash r = er_tx_hash q \<Longrightarrow>
     er_block_number r = er_block_number q \<and> er_index r = er_index q"
  unfolding collision_free_def digest_of_def by metis

lemma digest_of_nonempty: "collision_free E \<Longrightarrow> digest_of E r \<Longrightarrow> er_tx_hash r \<noteq> []"
  unfolding collision_free_def digest_of_def by metis

lemma receipts_inv_hashed:
  assumes inv: "receipts_inv E m rh hist h" and cf: "collision_free E"
  shows "hashed (hist @ rh_cache rh)"
proof -
  let ?c = "rh_cache rh"
  have c: "\<And>r. r \<in> set ?c \<Longrightarrow> er_block_number r = h \<and> digest_of E r"
    using inv by (auto simp: receipts_inv_def in_set_conv_nth)
  have "distinct (map er_tx_hash ?c)"
    unfolding distinct_conv_nth
  proof (intro allI impI)
    fix i j
    assume ij: "i < length (map er_tx_hash ?c)" "j < length (map er_tx_hash ?c)" "i \<noteq> j"
    then have idx: "er_index (?c ! i) = of_nat i" "er_index (?c ! j) = of_nat j"
      and dg: "digest_of E (?c ! i)" "digest_of E (?c ! j)"
      and lt: "i < 2 ^ 32" "j < 2 ^ 32"
      using inv by (auto simp: receipts_inv_def)
    from lt ij(3) have "(of_nat i :: u32) \<noteq> of_nat j"
      by (simp add: word_unat_eq_iff unat_of_nat)
    with idx digest_of_key [OF cf dg] ij(1,2) show "map er_tx_hash ?c ! i \<noteq> map er_tx_hash ?c ! j"
      by auto
  qed
  moreover have "[] \<notin> er_tx_hash ` set ?c"
    using digest_of_nonempty [OF cf] c by fastforce
  moreover have "er_tx_hash ` set hist \<inter> er_tx_hash ` set ?c = {}"
  proof -
    have False if "r \<in> set hist" "q \<in> set ?c" "er_tx_hash r = er_tx_hash q" for r q
      using digest_of_key [OF cf _ _ that(3)] that c [OF that(2)] inv
      by (auto simp: receipts_inv_def)
    then show ?thesis by auto
  qed
  moreover have "hashed hist"
    using inv by (simp add: receipts_inv_def)
  ultimately show ?thesis
    unfolding hashed_append by (simp add: hashed_def)
qed

lemma WriteReceipt_props:
  "WriteReceipt E block caller addr events status ev i n = (r, posts) \<Longrightarrow>
     er_block_number r = bh_height block \<and> er_index r = i \<and> digest_of E r"
  by (auto simp: WriteReceipt_def Let_def digest_of_def)

lemma CacheReceipt_LevelDb:
  assumes "CacheReceipt E K np rh s block caller addr events ok = Inr (hash, rh', posts)"
    and "rh_version rh = ReceiptHandlerLevelDb"
  obtains r where "rh' = rh\<lparr>rh_current := Some r\<rparr>" and "er_block_number r = bh_height block"
    and "er_index r = of_nat (length (rh_cache rh))" and "digest_of E r" and "hash = er_tx_hash r"
proof -
  from assms obtain n r where "WriteReceipt E block caller addr events (status_of ok)
      (rh_has_events rh) (of_nat (length (rh_cache rh))) n = (r, posts)"
    "rh' = rh\<lparr>rh_current := Some r\<rparr>" "hash = er_tx_hash r"
    by (auto simp: CacheReceipt_def version_defs elim!: bind_resE split: prod.splits)
  then show thesis
    using WriteReceipt_props that by blast
qed

lemma receipts_inv_current:
  "receipts_inv E m (rh\<lparr>rh_current := r\<rparr>) hist h \<longleftrightarrow> receipts_inv E m rh hist h"
  by (simp add: receipts_inv_def)

lemma receipts_inv_commit:
  assumes inv: "receipts_inv E m rh hist h" and "rh_current rh = Some r"
    and "er_block_number r = h" and "er_index r = of_nat (length (rh_cache rh))"
    and "digest_of E r" and "length (rh_cache rh) < 2 ^ 32"
  shows "receipts_inv E m (CommitCurrentReceipt rh) hist h"
  using assms by (auto simp: receipts_inv_def CommitCurrentReceipt_def nth_append less_Suc_eq)

lemma receipts_inv_end_block:
  assumes inv: "receipts_inv E m rh hist h" and cf: "collision_free E"
    and bound: "unat m + 2 ^ 32 < 2 ^ 64" and "h < h'"
    and commit: "CommitBlock E K rh s h = (r, rh')"
  shows "receipts_inv E m rh' (case r of Inl _ \<Rightarrow> hist | Inr _ \<Rightarrow> hist @ rh_cache rh) h'"
proof -
  let ?c = "rh_cache rh" and ?rs = "lastn (unat m) hist"
  have hashed: "hashed (hist @ ?c)"
    using inv cf by (rule receipts_inv_hashed)
  have all: "\<forall>q \<in> set (hist @ ?c). er_block_number q < h' \<and> digest_of E q"
    using inv \<open>h < h'\<close> by (auto simp: receipts_inv_def in_set_conv_nth intro: less_trans)
  have rep: "db_rep (lr_db (rh_leveldb rh)) ?rs" and m: "MaxDbSize (rh_leveldb rh) = m"
    using inv by (simp_all add: receipts_inv_def)
  have kept: "kept (map Some ?c) = ?c"
    using hashed unfolding hashed_append by (intro kept_Some) (simp add: hashed_def)
  show ?thesis
  proof (cases "?c = []")
    case True
    with inv commit \<open>h < h'\<close> show ?thesis
      by (auto simp: receipts_inv_def CommitBlock_def version_defs LevelDb_CommitBlock_def
          Let_def intro: less_trans)
  next
    case False
    have "hashed (?rs @ ?c)"
      using hashed set_lastn [of "unat m" hist] hashed_lastn [of hist "unat m"]
      by (auto simp: hashed_append)
    moreover have "length (?rs @ ?c) < 2 ^ 64"
      using bound inv by (auto simp: receipts_inv_def)
    ultimately obtain lr' where lr': "MaxDbSize lr' = m"
      "db_rep (lr_db lr') (lastn (unat m) (?rs @ ?c))"
      "LevelDb_CommitBlock E K (rh_leveldb rh) s (map Some ?c) h =
        bind_res (block_outputs E K s (filter (\<lambda>r. er_status r = StatusTxSuccess) ?c) ?c h)
          (\<lambda>s'. Inr (lr', s'))"
      using LevelDb_CommitBlock_rep [OF rep, of "map Some ?c" E K s h] False m kept
      by auto
    with commit inv all hashed show ?thesis
      by (auto simp: receipts_inv_def CommitBlock_def Let_def version_defs lastn_append hashed_append
          bind_res_def split: sum.splits)
  qed
qed

lemma receipts_reach_inv:
  assumes "receipts_reach E K np m rh hist h"
    and cf: "collision_free E" and bound: "unat m + 2 ^ 32 < 2 ^ 64"
  shows "receipts_inv E m rh hist h"
  using assms(1)
proof induction
  case (start ev h)
  show ?case
    by (simp add: receipts_inv_def NewReceiptHandler_def NewLevelDbReceipts_def db_rep_empty)
next
  case (cached rh hist h block s caller addr events ok hash rh' posts)
  then show ?case
    by (auto simp: receipts_inv_current elim!: CacheReceipt_LevelDb)
      (auto simp: receipts_inv_def)
next
  case (evm_tx rh hist h block s caller addr events ok hash rh' posts failed)
  then have "rh_version rh = ReceiptHandlerLevelDb"
    by (simp add: receipts_inv_def)
  with evm_tx.hyps obtain r where r: "rh' = rh\<lparr>rh_current := Some r\<rparr>" "er_block_number r = h"
    "er_index r = of_nat (length (rh_cache rh))" "digest_of E r"
    by (auto elim: CacheReceipt_LevelDb)
  define q where "q = (if failed then r\<lparr>er_status := StatusTxFail\<rparr> else r)"
  have "(if failed then SetFailStatusCurrentReceipt rh' else rh') = rh\<lparr>rh_current := Some q\<rparr>"
    by (simp add: r(1) q_def SetFailStatusCurrentReceipt_def)
  moreover have "receipts_inv E m (CommitCurrentReceipt (rh\<lparr>rh_current := Some q\<rparr>)) hist h"
    using evm_tx.IH evm_tx.hyps r
    by (intro receipts_inv_commit [of _ _ _ _ _ q])
      (auto simp: receipts_inv_current q_def digest_of_def)
  ultimately show ?case by simp
next
  case (discarded rh hist h)
  then show ?case by (simp add: DiscardCurrentReceipt_def receipts_inv_current)
next
  case (end_block rh hist h h' s r rh')
  then show ?case by (intro receipts_inv_end_block [OF _ cf bound])
qed

section \<open>Reading back from the application state\<close>

definition keys_apart :: "receipt_env \<Rightarrow> bool" where
  "keys_apart E \<longleftrightarrow>
     (\<forall>p \<in> {ReceiptPrefix, BdiademPrefix, TxHashPrefix}. \<forall>q \<in> {ReceiptPrefix, BdiademPrefix, TxHashPrefix}.
        \<forall>k k'. re_prefix_key E p k = re_prefix_key E q k' \<longrightarrow> p = q \<and> k = k')"

lemma prefixes_differ:
  "ReceiptPrefix \<noteq> BdiademPrefix" "ReceiptPrefix \<noteq> TxHashPrefix" "BdiademPrefix \<noteq> TxHashPrefix"
  by (auto simp: ReceiptPrefix_def BdiademPrefix_def TxHashPrefix_def dest: injD [OF go_bytes_inj])

lemma keys_apartD:
  assumes "keys_apart E"
  shows "re_prefix_key E ReceiptPrefix k = re_prefix_key E ReceiptPrefix k' \<longleftrightarrow> k = k'"
    and "re_prefix_key E BdiademPrefix k = re_prefix_key E BdiademPrefix k' \<longleftrightarrow> k = k'"
    and "re_prefix_key E TxHashPrefix k = re_prefix_key E TxHashPrefix k' \<longleftrightarrow> k = k'"
    and "re_prefix_key E ReceiptPrefix k \<noteq> re_prefix_key E BdiademPrefix k'"
    and "re_prefix_key E ReceiptPrefix k \<noteq> re_prefix_key E TxHashPrefix k'"
    and "re_prefix_key E BdiademPrefix k \<noteq> re_prefix_key E ReceiptPrefix k'"
    and "re_prefix_key E BdiademPrefix k \<noteq> re_prefix_key E TxHashPrefix k'"
    and "re_prefix_key E TxHashPrefix k \<noteq> re_prefix_key E ReceiptPrefix k'"
    and "re_prefix_key E TxHashPrefix k \<noteq> re_prefix_key E BdiademPrefix k'"
  using assms prefixes_differ unfolding keys_apart_def by (blast dest: sym)+

lemmas app_state_defs =
  prefixReader_Get_def prefixWriter_Set_def MemStore_ops_def MemStore_Get_def MemStore_Set_def

lemma put_receipt_get:
  assumes "keys_apart E"
  shows "StateDB_GetReceipt E (MemStore_ops rng) (put_receipt E (MemStore_ops rng) r s) x =
    (if x = er_tx_hash r then re_unmarshal E (re_marshal E r)
     else StateDB_GetReceipt E (MemStore_ops rng) s x)"
  by (simp add: StateDB_GetReceipt_def put_receipt_def app_state_defs keys_apartD [OF assms])

lemma put_receipts_get:
  assumes "keys_apart E" and "distinct (map er_tx_hash rs)"
  shows "StateDB_GetReceipt E (MemStore_ops rng) (fold (put_receipt E (MemStore_ops rng)) rs s) x =
    (case find (\<lambda>r. er_tx_hash r = x) rs of
       None \<Rightarrow> StateDB_GetReceipt E (MemStore_ops rng) s x
     | Some r \<Rightarrow> re_unmarshal E (re_marshal E r))"
  using assms(2)
proof (induction rs arbitrary: s)
  case Nil
  then show ?case by simp
next
  case (Cons r rs)
  then have "find (\<lambda>q. er_tx_hash q = er_tx_hash r) rs = None"
    by (auto simp: find_None_iff image_iff)
  with Cons show ?case
    by (auto simp: put_receipt_get [OF assms(1)] split: option.split)
qed

lemma put_receipts_lists:
  assumes "keys_apart E"
  shows "GetTxHashList E (MemStore_ops rng) (fold (put_receipt E (MemStore_ops rng)) rs s) h =
    GetTxHashList E (MemStore_ops rng) s h"
  by (induction rs arbitrary: s)
    (simp_all add: GetTxHashList_def put_receipt_def app_state_defs keys_apartD [OF assms])

lemma block_outputs_get:
  assumes "keys_apart E" and "GetTxHashList E (MemStore_ops rng) s h = Inr old"
  obtains s' where "block_outputs E (MemStore_ops rng) s listed rs h = Inr s'"
    and "GetTxHashList E (MemStore_ops rng) s' h =
      re_unmarshal_hashes E (Some (re_marshal_hashes E (old @ map er_tx_hash listed)))"
    and "GetBdiademFilter E (MemStore_ops rng) s' h = Some (GenBdiademFilter E (concat (map er_logs rs)))"
    and "StateDB_GetReceipt E (MemStore_ops rng) s' = StateDB_GetReceipt E (MemStore_ops rng) s"
proof -
  let ?key = "\<lambda>p. re_prefix_key E p (BlockHeightToBytes h)"
  define s' where "s' = s(?key TxHashPrefix \<mapsto> Some (re_marshal_hashes E (old @ map er_tx_hash listed)),
    ?key BdiademPrefix \<mapsto> Some (GenBdiademFilter E (concat (map er_logs rs))))"
  note defs = GetBdiademFilter_def GetTxHashList_def StateDB_GetReceipt_def app_state_defs
  show thesis
  proof (rule that [of s'])
    show "block_outputs E (MemStore_ops rng) s listed rs h = Inr s'"
      using assms(2)
      by (simp add: block_outputs_def AppendTxHashList_def SetBdiademFilter_def app_state_defs s'_def)
  qed (simp_all add: defs s'_def keys_apartD [OF assms(1)] fun_eq_iff)
qed

lemma StateDB_CommitBlock_fold:
  assumes "rs \<noteq> []" and "[] \<notin> er_tx_hash ` set rs"
  shows "StateDB_CommitBlock E K s (map Some rs) h =
    block_outputs E K (fold (put_receipt E K) rs s) rs rs h"
proof -
  have "fold (\<lambda>txReceipt (txHashArray, events, s).
        (case txReceipt of None \<Rightarrow> (txHashArray, events, s)
         | Some r \<Rightarrow> if er_tx_hash r = [] then (txHashArray, events, s)
             else (txHashArray @ [er_tx_hash r], events @ er_logs r, put_receipt E K r s)))
      (map Some rs) (hs, es, t) =
    (hs @ map er_tx_hash rs, es @ concat (map er_logs rs), fold (put_receipt E K) rs t)" for hs es t
    using assms(2) by (induction rs arbitrary: hs es t) auto
  with assms(1) show ?thesis
    by (simp add: StateDB_CommitBlock_def block_outputs_def)
qed

section \<open>Properties\<close>

text \<open>C14: however the blocks of a chain fill the receipt database, it holds exactly the last
  \<open>MaxDbSize\<close> receipts committed: a lookup by hash returns the receipt when it is among them and
  an error otherwise. The receipts of the block being built are found by hash as pending, in the
  order in which they were committed, and the hash of each identifies it among all receipts.\<close>

theorem receipts_bounded_history:
  assumes "collision_free E" and "unat m + 2 ^ 32 < 2 ^ 64"
    and "receipts_reach E K np m rh hist h"
  shows "LevelDb_GetReceipt (rh_leveldb rh) x =
      (case find (\<lambda>r. er_tx_hash r = x) (lastn (unat m) hist) of
         None \<Rightarrow> Inl (Err ''get receipt: leveldb: not found'')
       | Some r \<Rightarrow> Inr r) \<and>
    GetPendingTxHashList rh = map er_tx_hash (rh_cache rh) \<and>
    distinct (map er_tx_hash (hist @ rh_cache rh))"
proof -
  have inv: "receipts_inv E m rh hist h"
    using receipts_reach_inv [OF assms(3,1,2)] .
  then have "db_rep (lr_db (rh_leveldb rh)) (lastn (unat m) hist)"
    and "GetPendingTxHashList rh = map er_tx_hash (rh_cache rh)"
    by (simp_all add: receipts_inv_def GetPendingTxHashList_def)
  moreover have "distinct (map er_tx_hash (hist @ rh_cache rh))"
    using receipts_inv_hashed [OF inv assms(1)] unfolding hashed_def by blast
  ultimately show ?thesis
    using LevelDb_GetReceipt_rep by blast
qed

definition demo_digest :: "EvmTxReceipt \<Rightarrow> bytes" where
  "demo_digest r = be_bytes 8 (unat (er_block_number r)) @ be_bytes 4 (unat (er_index r))"

definition demo_receipts :: receipt_env where
  "demo_receipts =
     \<lparr>re_digest = demo_digest, re_generate = concat, re_marshal = er_tx_hash,
      re_unmarshal = (\<lambda>b. Inr (zero_receipt\<lparr>er_tx_hash := b\<rparr>)),
      re_marshal_hashes = concat,
      re_unmarshal_hashes = (\<lambda>b. case b of None \<Rightarrow> Inr [] | Some x \<Rightarrow> Inr [x]),
      re_prefix_key = (\<lambda>p k. p @ 0 # k)\<rparr>"

definition demo_nonces :: nonce_params where
  "demo_nonces = \<lparr>nonceKey = Local, addr_string = ChainID, addr_is_empty = (\<lambda>a. Local a = []),
     nonce_unmarshal = (\<lambda>_. Inl (Err ''demo''))\<rparr>"

definition demo_block :: "u64 \<Rightarrow> block_header" where
  "demo_block h = \<lparr>bh_height = h, bh_current_hash = [], bh_last_hash = [], bh_num_txs = 0\<rparr>"

lemma demo_collision_free: "collision_free demo_receipts"
proof -
  have "er_block_number a = er_block_number b \<and> er_index a = er_index b"
    if "demo_digest a = demo_digest b" for a b
  proof -
    from that have "be_bytes 8 (unat (er_block_number a)) = be_bytes 8 (unat (er_block_number b))"
      "be_bytes 4 (unat (er_index a)) = be_bytes 4 (unat (er_index b))"
      by (simp_all add: demo_digest_def)
    from this [THEN arg_cong [where f = be_val]] show ?thesis
      using unsigned_less [where 'a = nat, of "er_block_number a"]
        unsigned_less [where 'a = nat, of "er_block_number b"]
        unsigned_less [where 'a = nat, of "er_index a"]
        unsigned_less [where 'a = nat, of "er_index b"]
      by (simp add: be_val_be_bytes word_unat_eq_iff)
  qed
  moreover have "demo_digest a \<noteq> []" for a
    by (simp add: demo_digest_def flip: length_0_conv)
  moreover have "re_digest demo_receipts = demo_digest"
    by (simp add: demo_receipts_def)
  ultimately show ?thesis unfolding collision_free_def by metis
qed

definition demo_tx :: "ReceiptHandler \<Rightarrow> u64 \<Rightarrow> ReceiptHandler" where
  "demo_tx rh h =
     (case CacheReceipt demo_receipts (MemStore_ops (\<lambda>_ _. [])) demo_nonces rh Map.empty (demo_block h)
         (Address ''default'' [1]) (Address ''default'' [2]) [] True of
        Inl _ \<Rightarrow> rh
      | Inr (_, rh', _) \<Rightarrow> CommitCurrentReceipt rh')"

definition demo_end :: "ReceiptHandler \<Rightarrow> u64 \<Rightarrow> ReceiptHandler" where
  "demo_end rh h = snd (CommitBlock demo_receipts (MemStore_ops (\<lambda>_ _. [])) rh Map.empty h)"

definition demo_handler :: ReceiptHandler where
  "demo_handler = NewReceiptHandler ReceiptHandlerLevelDb False 1 empty_db"

abbreviation demo_reach :: "ReceiptHandler \<Rightarrow> EvmTxReceipt list \<Rightarrow> u64 \<Rightarrow> bool" where
  "demo_reach \<equiv> receipts_reach demo_receipts (MemStore_ops (\<lambda>_ _. [])) demo_nonces 1"

lemma demo_tx_reach:
  assumes "demo_reach rh hist h" and "length (rh_cache rh) < 2 ^ 32"
  shows "demo_reach (demo_tx rh h) hist h"
proof -
  show ?thesis
  proof (cases "CacheReceipt demo_receipts (MemStore_ops (\<lambda>_ _. [])) demo_nonces rh Map.empty
      (demo_block h) (Address ''default'' [1]) (Address ''default'' [2]) [] True")
    case (Inl e)
    with assms(1) show ?thesis by (simp add: demo_tx_def)
  next
    case (Inr x)
    then obtain hash rh' posts where "x = (hash, rh', posts)" by (cases x)
    with evm_tx [OF assms(1) _ assms(2), of "demo_block h" Map.empty _ _ _ _ hash rh' posts False] Inr
    show ?thesis by (simp add: demo_tx_def demo_block_def)
  qed
qed

lemma demo_end_cache: "rh_cache (demo_end rh h) = []"
  by (simp add: demo_end_def CommitBlock_def Let_def split: sum.split prod.split)

lemma demo_end_reach:
  assumes "demo_reach rh hist h" and "h < h'"
    and "\<not> isl (fst (CommitBlock demo_receipts (MemStore_ops (\<lambda>_ _. [])) rh Map.empty h))"
  shows "demo_reach (demo_end rh h) (hist @ rh_cache rh) h'"
proof -
  let ?c = "CommitBlock demo_receipts (MemStore_ops (\<lambda>_ _. [])) rh Map.empty h"
  from assms(3) obtain s where "fst ?c = Inr s" by (cases "fst ?c") auto
  then have "?c = (Inr s, demo_end rh h)"
    by (simp add: demo_end_def prod_eq_iff)
  from end_block [OF assms(1,2) this] show ?thesis by simp
qed

definition demo_h5 :: ReceiptHandler where "demo_h5 = demo_tx demo_handler 5"
definition demo_h6 :: ReceiptHandler where "demo_h6 = demo_tx (demo_end demo_h5 5) 6"
definition demo_chain :: ReceiptHandler where "demo_chain = demo_end demo_h6 6"

lemma demo_chain_reach: "demo_reach demo_chain (rh_cache demo_h5 @ rh_cache demo_h6) 7"
proof -
  have "demo_reach demo_handler [] 5"
    unfolding demo_handler_def by (rule start)
  then have "demo_reach demo_h5 [] 5"
    unfolding demo_h5_def
    by (rule demo_tx_reach) (simp add: demo_handler_def NewReceiptHandler_def)
  moreover have "\<not> isl (fst (CommitBlock demo_receipts (MemStore_ops (\<lambda>_ _. [])) demo_h5 Map.empty 5))"
    by code_simp
  ultimately have "demo_reach (demo_end demo_h5 5) (rh_cache demo_h5) 6"
    using demo_end_reach [of demo_h5 "[]" 5 6] by simp
  then have "demo_reach demo_h6 (rh_cache demo_h5) 6"
    unfolding demo_h6_def by (rule demo_tx_reach) (simp add: demo_end_cache)
  then show ?thesis
    unfolding demo_chain_def by (rule demo_end_reach) code_simp+
qed

text \<open>Two blocks of one transaction each, with room for one receipt: the second is found and the
  first is not.\<close>

theorem receipts_bounded_history_witness:
  "LevelDb_GetReceipt (rh_leveldb demo_chain) [0, 0, 0, 0, 0, 0, 0, 6, 0, 0, 0, 0] =
     Inr (hd (rh_cache demo_h6)) \<and>
   LevelDb_GetReceipt (rh_leveldb demo_chain) [0, 0, 0, 0, 0, 0, 0, 5, 0, 0, 0, 0] =
     Inl (Err ''get receipt: leveldb: not found'')"
proof -
  note props = receipts_bounded_history [OF demo_collision_free _ demo_chain_reach, THEN conjunct1]
  have "find (\<lambda>r. er_tx_hash r = [0, 0, 0, 0, 0, 0, 0, 6, 0, 0, 0, 0])
      (lastn (unat (1 :: u64)) (rh_cache demo_h5 @ rh_cache demo_h6)) = Some (hd (rh_cache demo_h6))"
    "find (\<lambda>r. er_tx_hash r = [0, 0, 0, 0, 0, 0, 0, 5, 0, 0, 0, 0])
      (lastn (unat (1 :: u64)) (rh_cache demo_h5 @ rh_cache demo_h6)) = None"
    by code_simp+
  then show ?thesis
    by (simp add: props)
qed

text \<open>receipts kept in the application state: after the commit of a block every receipt of the
  block is read back by its hash, every other receipt reads as before, the hashes are appended to
  the list of the height in order, and the filter of the height covers all logs of the block.\<close>

theorem chain_receipts_readable:
  assumes "keys_apart E" and "rs \<noteq> []" and "hashed rs"
    and "\<And>r. r \<in> set rs \<Longrightarrow> re_unmarshal E (re_marshal E r) = Inr r"
    and "GetTxHashList E (MemStore_ops rng) s h = Inr old"
    and "re_unmarshal_hashes E (Some (re_marshal_hashes E (old @ map er_tx_hash rs))) =
      Inr (old @ map er_tx_hash rs)"
  shows "\<exists>s'. StateDB_CommitBlock E (MemStore_ops rng) s (map Some rs) h = Inr s' \<and>
    (\<forall>x. StateDB_GetReceipt E (MemStore_ops rng) s' x =
       (case find (\<lambda>r. er_tx_hash r = x) rs of
          Some r \<Rightarrow> Inr r
        | None \<Rightarrow> StateDB_GetReceipt E (MemStore_ops rng) s x)) \<and>
    GetTxHashList E (MemStore_ops rng) s' h = Inr (old @ map er_tx_hash rs) \<and>
    GetBdiademFilter E (MemStore_ops rng) s' h = Some (GenBdiademFilter E (concat (map er_logs rs)))"
proof -
  let ?t = "fold (put_receipt E (MemStore_ops rng)) rs s"
  from assms(3) have h: "distinct (map er_tx_hash rs)" "[] \<notin> er_tx_hash ` set rs"
    by (simp_all add: hashed_def)
  have "GetTxHashList E (MemStore_ops rng) ?t h = Inr old"
    using put_receipts_lists [OF assms(1)] assms(5) by simp
  then obtain s' where s': "block_outputs E (MemStore_ops rng) ?t rs rs h = Inr s'"
    "GetTxHashList E (MemStore_ops rng) s' h = Inr (old @ map er_tx_hash rs)"
    "GetBdiademFilter E (MemStore_ops rng) s' h = Some (GenBdiademFilter E (concat (map er_logs rs)))"
    "StateDB_GetReceipt E (MemStore_ops rng) s' = StateDB_GetReceipt E (MemStore_ops rng) ?t"
    using block_outputs_get [OF assms(1), of rng ?t h old rs rs] assms(6) by metis
  moreover have "find (\<lambda>r. er_tx_hash r = x) rs = Some r \<Longrightarrow> r \<in> set rs" for x r
    by (auto simp: find_Some_iff in_set_conv_nth)
  ultimately have "StateDB_GetReceipt E (MemStore_ops rng) s' x =
      (case find (\<lambda>r. er_tx_hash r = x) rs of
         Some r \<Rightarrow> Inr r
       | None \<Rightarrow> StateDB_GetReceipt E (MemStore_ops rng) s x)" for x
    using put_receipts_get [OF assms(1) h(1), of rng s x] assms(4)
    by (auto split: option.split)
  with s' show ?thesis
    using StateDB_CommitBlock_fold [OF assms(2) h(2), of E "MemStore_ops rng" s h] by auto
qed

lemma zero_free_prefix:
  "0 \<notin> set p \<Longrightarrow> 0 \<notin> set q \<Longrightarrow> p @ 0 # k = q @ 0 # k' \<Longrightarrow> p = q \<and> k = k'"
  for p q :: "'a :: zero list"
proof (induction p arbitrary: q)
  case Nil
  then show ?case by (cases q) auto
next
  case (Cons x p)
  then show ?case by (cases q) auto
qed

lemma demo_keys_apart: "keys_apart demo_receipts"
proof -
  have "0 \<notin> set ReceiptPrefix" "0 \<notin> set BdiademPrefix" "0 \<notin> set TxHashPrefix"
    by code_simp+
  then show ?thesis
    unfolding keys_apart_def demo_receipts_def
    by (auto dest: zero_free_prefix simp del: append_eq_append_conv)
qed

text \<open>A receipt of a block with the hash 7.\<close>

theorem chain_receipts_readable_witness:
  "\<exists>s'. StateDB_CommitBlock demo_receipts (MemStore_ops (\<lambda>_ _. [])) Map.empty
      [Some (zero_receipt\<lparr>er_tx_hash := [7]\<rparr>)] 9 = Inr s' \<and>
    StateDB_GetReceipt demo_receipts (MemStore_ops (\<lambda>_ _. [])) s' [7] =
      Inr (zero_receipt\<lparr>er_tx_hash := [7]\<rparr>) \<and>
    GetTxHashList demo_receipts (MemStore_ops (\<lambda>_ _. [])) s' 9 = Inr [[7]]"
proof -
  let ?r = "zero_receipt\<lparr>er_tx_hash := [7]\<rparr>" and ?K = "MemStore_ops (\<lambda>_ _. [])"
  have "GetTxHashList demo_receipts ?K Map.empty 9 = Inr []"
    by (simp add: demo_receipts_def GetTxHashList_def app_state_defs)
  moreover have "re_unmarshal demo_receipts (re_marshal demo_receipts ?r) = Inr ?r"
    "re_unmarshal_hashes demo_receipts (Some (re_marshal_hashes demo_receipts ([] @ map er_tx_hash [?r])))
       = Inr ([] @ map er_tx_hash [?r])"
    by (simp_all add: demo_receipts_def)
  ultimately obtain s' where
    "StateDB_CommitBlock demo_receipts ?K Map.empty (map Some [?r]) 9 = Inr s'"
    "\<forall>x. StateDB_GetReceipt demo_receipts ?K s' x =
       (case find (\<lambda>r. er_tx_hash r = x) [?r] of
          Some r \<Rightarrow> Inr r | None \<Rightarrow> StateDB_GetReceipt demo_receipts ?K Map.empty x)"
    "GetTxHashList demo_receipts ?K s' 9 = Inr ([] @ map er_tx_hash [?r])"
    using chain_receipts_readable [OF demo_keys_apart, of "[?r]" "\<lambda>_ _. []" Map.empty 9 "[]"]
    by auto
  then show ?thesis by (intro exI [of _ s']) simp
qed

text \<open>the two receipt handlers of earlier builds are interchangeable: with an event handler
  present, for every call they return the same hash and error, post the same events and leave the
  same application state, although they write in different orders.\<close>

theorem legacy_handlers_agree:
  assumes "keys_apart E"
  shows "LegacyV1_CacheReceipt E (MemStore_ops rng) s block caller addr events err =
    LegacyV2_CacheReceipt E (MemStore_ops rng) s block True caller addr events err"
  by (simp add: LegacyV1_CacheReceipt_def LegacyV2_CacheReceipt_def
      LegacyV2_writeReceipt_def put_receipt_def put_filter_and_hash_def Let_def app_state_defs fun_eq_iff keys_apartD [OF assms]
      split: prod.split)

theorem legacy_handlers_agree_witness:
  "LegacyV1_CacheReceipt demo_receipts (MemStore_ops (\<lambda>_ _. [])) Map.empty (demo_block 5)
     (Address ''default'' [1]) (Address ''default'' [2]) [] None =
   LegacyV2_CacheReceipt demo_receipts (MemStore_ops (\<lambda>_ _. [])) Map.empty (demo_block 5) True
     (Address ''default'' [1]) (Address ''default'' [2]) [] None"
  using legacy_handlers_agree [OF demo_keys_apart] .

text \<open>an upgrade from receipts in the application state to the LevelDB handler loses no
  receipt: while the new handler commits blocks, every receipt of the application state is still
  returned unless the database has a receipt of the same hash, and the versions in use at a height
  decide which handler the provider hands out.\<close>

theorem receipts_survive_upgrade:
  assumes "keys_apart E" and "rh_version rh = ReceiptHandlerLevelDb"
    and "CommitBlock E (MemStore_ops rng) rh s h = (Inr s', rh')"
    and "StateDB_GetReceipt E (MemStore_ops rng) s x = Inr r"
  shows "GetReceipt E (MemStore_ops rng) rh' s' x =
    (case LevelDb_GetReceipt (rh_leveldb rh') x of Inr q \<Rightarrow> Inr q | Inl _ \<Rightarrow> Inr r)"
proof -
  from assms(2,3) obtain lr where lr:
    "LevelDb_CommitBlock E (MemStore_ops rng) (rh_leveldb rh) s (map Some (rh_cache rh)) h = Inr (lr, s')"
    and v: "rh_version rh' = ReceiptHandlerLevelDb"
    by (auto simp: CommitBlock_def Let_def version_defs split: sum.splits)
  have "StateDB_GetReceipt E (MemStore_ops rng) s' x = StateDB_GetReceipt E (MemStore_ops rng) s x"
    using lr
    by (auto simp: LevelDb_CommitBlock_def Let_def AppendTxHashList_def SetBdiademFilter_def
        StateDB_GetReceipt_def app_state_defs keys_apartD [OF assms(1)]
        elim!: bind_resE split: if_splits option.splits)
  with assms(4) v show ?thesis
    by (simp add: GetReceipt_def version_defs split: sum.split)
qed

theorem receipts_survive_upgrade_witness:
  "\<exists>s s' rh'. StateDB_GetReceipt demo_receipts (MemStore_ops (\<lambda>_ _. [])) s [7] =
      Inr (zero_receipt\<lparr>er_tx_hash := [7]\<rparr>) \<and>
    CommitBlock demo_receipts (MemStore_ops (\<lambda>_ _. [])) demo_handler s 5 = (Inr s', rh') \<and>
    GetReceipt demo_receipts (MemStore_ops (\<lambda>_ _. [])) rh' s' [7] =
      Inr (zero_receipt\<lparr>er_tx_hash := [7]\<rparr>)"
proof -
  let ?r = "zero_receipt\<lparr>er_tx_hash := [7]\<rparr>" and ?K = "MemStore_ops (\<lambda>_ _. [])"
  define s where "s = put_receipt demo_receipts ?K ?r Map.empty"
  have get: "StateDB_GetReceipt demo_receipts ?K s [7] = Inr ?r"
    using put_receipt_get [OF demo_keys_apart] by (simp add: s_def demo_receipts_def)
  have v: "rh_version demo_handler = ReceiptHandlerLevelDb"
    by (simp add: demo_handler_def NewReceiptHandler_def)
  have c: "CommitBlock demo_receipts ?K demo_handler s 5 = (Inr s, demo_handler)"
    by (simp add: CommitBlock_def demo_handler_def NewReceiptHandler_def LevelDb_CommitBlock_def
        Let_def version_defs)
  from receipts_survive_upgrade [OF demo_keys_apart v c get] get c show ?thesis
    by (intro exI [of _ s] exI [of _ demo_handler] conjI)
      (simp_all add: LevelDb_GetReceipt_def demo_handler_def NewReceiptHandler_def
        NewLevelDbReceipts_def empty_db_def)
qed

end
