(* ===== verification/Fn_Votes.thy ===== *)
theory Fn_Votes
  imports Diadem_Prelude
begin

text \<open>
  The votes of the function consensus reactor: \<open>fnConsensus/types.go\<close>. Validators agree on the
  result of a function outside the chain: each signs the hash of the message it computed, vote
  sets travel between peers and are merged, and a hash with enough voting power is submitted with
  the signatures collected for it.

  A Tendermint validator set is the list of its validators in index order, \<open>TotalVotingPower\<close> the
  sum of their powers, \<open>GetByIndex\<close> nil out of range; a bit array is a list of booleans whose reads
  out of range are false and whose writes out of range are dropped. Amino does not tell a nil
  slice of slices, or a bit array without bits, from an empty one, so both are the empty list; the
  elements keep nil (\<open>None\<close>) apart from the empty byte slice. Arguments of the model: the address of
  a public key, signature verification, the hash of a validator set and the amino encodings.
\<close>

section \<open>Indexing\<close>

definition go_get :: "'a list \<Rightarrow> nat \<Rightarrow> 'a res" where
  "go_get xs i = (if i < length xs then Inr (xs ! i) else Inl (Panic ''index out of range''))"

definition go_put :: "'a list \<Rightarrow> nat \<Rightarrow> 'a \<Rightarrow> 'a list res" where
  "go_put xs i x = (if i < length xs then Inr (xs[i := x]) else Inl (Panic ''index out of range''))"

lemma go_get_in [simp]: "i < length xs \<Longrightarrow> go_get xs i = Inr (xs ! i)"
  by (simp add: go_get_def)

lemma go_put_in [simp]: "i < length xs \<Longrightarrow> go_put xs i x = Inr (xs[i := x])"
  by (simp add: go_put_def)

text \<open>\<open>bytes.Equal\<close> takes nil for the empty slice.\<close>

definition slice_bytes :: "slice \<Rightarrow> bytes" where
  "slice_bytes s = (case s of None \<Rightarrow> [] | Some b \<Rightarrow> b)"

definition bytes_Equal :: "slice \<Rightarrow> slice \<Rightarrow> bool" where
  "bytes_Equal a b \<longleftrightarrow> slice_bytes a = slice_bytes b"

lemma slice_bytes_simps [simp]: "slice_bytes None = []" "slice_bytes (Some b) = b"
  by (simp_all add: slice_bytes_def)

text \<open>The verb \<open>%d\<close>.\<close>

fun dec_nat :: "nat \<Rightarrow> string" where
  "dec_nat n = (if n < 10 then [char_of (48 + n)] else dec_nat (n div 10) @ [char_of (48 + n mod 10)])"

declare dec_nat.simps [simp del]

definition dec_int :: "int \<Rightarrow> string" where
  "dec_int i = (if i < 0 then CHR ''-'' # dec_nat (nat (- i)) else dec_nat (nat i))"

section \<open>Bit arrays and validator sets\<close>

type_synonym bit_array = "bool list"

definition NewBitArray :: "nat \<Rightarrow> bit_array" where
  "NewBitArray n = replicate n False"

definition GetIndex :: "bit_array \<Rightarrow> nat \<Rightarrow> bool" where
  "GetIndex b i \<longleftrightarrow> i < length b \<and> b ! i"

definition SetIndex :: "bit_array \<Rightarrow> nat \<Rightarrow> bool \<Rightarrow> bit_array" where
  "SetIndex b i v = b[i := v]"

record fn_validator =
  fv_Address :: bytes
  fv_PubKey :: bytes
  fv_VotingPower :: int

type_synonym validator_set = "fn_validator list"

definition TotalVotingPower :: "validator_set \<Rightarrow> int" where
  "TotalVotingPower vs = sum_list (map fv_VotingPower vs)"

definition GetByIndex :: "validator_set \<Rightarrow> nat \<Rightarrow> fn_validator option" where
  "GetByIndex vs i = (if i < length vs then Some (vs ! i) else None)"

record fn_env =
  fe_address :: "bytes \<Rightarrow> bytes"
  fe_verify :: "bytes \<Rightarrow> bytes \<Rightarrow> slice \<Rightarrow> bool"
  fe_valset_hash :: "validator_set \<Rightarrow> bytes"
  fe_request_bytes :: "string \<Rightarrow> bytes"
  fe_response_bytes :: "slice \<Rightarrow> slice \<Rightarrow> bytes"

definition Maj23SigningThreshold :: string where "Maj23SigningThreshold = ''Maj23''"
definition AllSigningThreshold :: string where "AllSigningThreshold = ''All''"

definition maj23 :: "validator_set \<Rightarrow> int" where
  "maj23 vs = i64 (go_quot (i64 (TotalVotingPower vs * 2)) 3 + 1)"

section \<open>Aggregated responses\<close>

record FnIndividualExecutionResponse =
  ir_Hash :: slice
  ir_OracleSignature :: slice

record FnAggregateExecutionResponse =
  ar_Hash :: slice
  ar_SignatureBitArray :: bit_array
  ar_OracleSignatures :: "slice list"

definition AgreeIndex :: "FnAggregateExecutionResponse \<Rightarrow> nat \<Rightarrow> int" where
  "AgreeIndex f ownValidatorIndex =
     (if \<not> GetIndex (ar_SignatureBitArray f) ownValidatorIndex then -1
      else fold (\<lambda>i agreeVoteIndex. if GetIndex (ar_SignatureBitArray f) i then agreeVoteIndex + 1
                                     else agreeVoteIndex) [0..<Suc ownValidatorIndex] (-1))"

definition NumberOfAgreeVotes :: "FnAggregateExecutionResponse \<Rightarrow> int" where
  "NumberOfAgreeVotes f =
     fold (\<lambda>i n. if GetIndex (ar_SignatureBitArray f) i then n + 1 else n)
       [0..<length (ar_SignatureBitArray f)] 0"

section \<open>Responses\<close>

record FnExecutionResponse =
  re_Hashes :: "slice list"
  re_SignatureBitArray :: bit_array
  re_OracleSignatures :: "slice list"

definition Response_CannonicalCompare :: "FnExecutionResponse \<Rightarrow> FnExecutionResponse \<Rightarrow> bool" where
  "Response_CannonicalCompare f r \<longleftrightarrow>
     length (re_Hashes f) = length (re_Hashes r) \<and>
     length (re_SignatureBitArray f) = length (re_SignatureBitArray r) \<and>
     length (re_OracleSignatures f) = length (re_OracleSignatures r)"

definition response_take ::
    "FnExecutionResponse \<Rightarrow> nat \<Rightarrow> bool \<times> FnExecutionResponse \<Rightarrow> (bool \<times> FnExecutionResponse) res" where
  "response_take a i st =
     (case st of (changed, f) \<Rightarrow>
      if GetIndex (re_SignatureBitArray f) i \<or> \<not> GetIndex (re_SignatureBitArray a) i
      then Inr (changed, f)
      else
        bind_res (go_get (re_OracleSignatures a) i) (\<lambda>sig.
        bind_res (go_put (re_OracleSignatures f) i sig) (\<lambda>sigs.
        bind_res (go_get (re_Hashes a) i) (\<lambda>h.
        bind_res (go_put (re_Hashes f) i h) (\<lambda>hs.
          Inr (True, f\<lparr>re_OracleSignatures := sigs, re_Hashes := hs,
                       re_SignatureBitArray := SetIndex (re_SignatureBitArray f) i True\<rparr>))))))"

definition Response_Merge ::
    "FnExecutionResponse \<Rightarrow> FnExecutionResponse option \<Rightarrow> (bool \<times> FnExecutionResponse) res" where
  "Response_Merge f another =
     (case another of
        None \<Rightarrow> Inl (Err ''cant merge as another execution response is nil'')
      | Some a \<Rightarrow>
          if \<not> Response_CannonicalCompare f a
          then Inl (Err ''cant merge as another execution response is different'')
          else fold_res (response_take a) [0..<length (re_OracleSignatures f)] (False, f))"

definition response_entry :: "FnExecutionResponse \<Rightarrow> nat \<Rightarrow> unit \<Rightarrow> unit res" where
  "response_entry f i u =
     (if (re_OracleSignatures f ! i \<noteq> None) \<noteq> GetIndex (re_SignatureBitArray f) i
      then Inl (Err ''mismatch between oracle signature array and signature flag'')
      else if (re_OracleSignatures f ! i \<noteq> None) \<noteq> (re_Hashes f ! i \<noteq> None)
      then Inl (Err ''mismatch between oracle signature array and hashes array'')
      else Inr ())"

definition Response_IsValid :: "FnExecutionResponse \<Rightarrow> validator_set \<Rightarrow> unit res" where
  "Response_IsValid f vs =
     (if re_Hashes f = [] then Inl (Err ''hashes field cant be nil'')
      else if re_SignatureBitArray f = [] then Inl (Err ''SignatureBitArray cant be nil'')
      else if re_OracleSignatures f = [] then Inl (Err ''OracleSignatures field cant be nil'')
      else if length vs \<noteq> length (re_OracleSignatures f)
      then Inl (Err ''oracle signature length does not match current validator set'')
      else if length vs \<noteq> length (re_Hashes f)
      then Inl (Err ''hashes length does not match current validator set'')
      else if length vs \<noteq> length (re_SignatureBitArray f)
      then Inl (Err ''signature bit array size does not match current validator set'')
      else fold_res (response_entry f) [0..<length vs] ())"

definition Response_Compare :: "FnExecutionResponse \<Rightarrow> FnExecutionResponse \<Rightarrow> bool" where
  "Response_Compare f r \<longleftrightarrow>
     Response_CannonicalCompare f r \<and>
     list_all (\<lambda>i. GetIndex (re_SignatureBitArray f) i = GetIndex (re_SignatureBitArray r) i \<and>
                   bytes_Equal (re_OracleSignatures f ! i) (re_OracleSignatures r ! i))
       [0..<length (re_OracleSignatures f)] \<and>
     list_all (\<lambda>i. bytes_Equal (re_Hashes f ! i) (re_Hashes r ! i)) [0..<length (re_Hashes f)]"

definition Response_SignBytes :: "fn_env \<Rightarrow> FnExecutionResponse \<Rightarrow> nat \<Rightarrow> bytes res" where
  "Response_SignBytes E f validatorIndex =
     bind_res (go_get (re_Hashes f) validatorIndex) (\<lambda>h.
     bind_res (go_get (re_OracleSignatures f) validatorIndex) (\<lambda>sig.
       Inr (fe_response_bytes E h sig)))"

definition AddSignature ::
    "FnExecutionResponse \<Rightarrow> FnIndividualExecutionResponse \<Rightarrow> nat \<Rightarrow> FnExecutionResponse res" where
  "AddSignature f r validatorIndex =
     (if GetIndex (re_SignatureBitArray f) validatorIndex
      then Inl (Err ''Fn Response signature is already present'')
      else
        bind_res (go_put (re_OracleSignatures f) validatorIndex (ir_OracleSignature r)) (\<lambda>sigs.
        bind_res (go_put (re_Hashes f) validatorIndex (ir_Hash r)) (\<lambda>hs.
          Inr (f\<lparr>re_OracleSignatures := sigs, re_Hashes := hs,
                 re_SignatureBitArray := SetIndex (re_SignatureBitArray f) validatorIndex True\<rparr>))))"

definition NewFnExecutionResponse ::
    "FnIndividualExecutionResponse \<Rightarrow> nat \<Rightarrow> validator_set \<Rightarrow> FnExecutionResponse res" where
  "NewFnExecutionResponse r validatorIndex vs =
     bind_res (go_put (replicate (length vs) None) validatorIndex (ir_Hash r)) (\<lambda>hs.
     bind_res (go_put (replicate (length vs) None) validatorIndex (ir_OracleSignature r)) (\<lambda>sigs.
       Inr \<lparr>re_Hashes = hs,
            re_SignatureBitArray = SetIndex (NewBitArray (length vs)) validatorIndex True,
            re_OracleSignatures = sigs\<rparr>))"

text \<open>
  The tally of \<open>ToMajResponse\<close>: the voting power per hash (the keys of the Go map are the hashes in
  hexadecimal), the hash with the highest power so far, and that power.
\<close>

type_synonym tally = "(bytes \<Rightarrow> int) \<times> slice \<times> int"

definition tally_vote :: "FnExecutionResponse \<Rightarrow> validator_set \<Rightarrow> nat \<Rightarrow> tally \<Rightarrow> tally res" where
  "tally_vote f vs i t =
     (case t of (hashMap, highestVotedHash, highestVotingPowerObserved) \<Rightarrow>
      case re_Hashes f ! i of
        None \<Rightarrow> Inr t
      | Some h \<Rightarrow>
          bind_res (deref (GetByIndex vs i)) (\<lambda>val.
            let p = i64 (hashMap h + fv_VotingPower val);
                hashMap' = hashMap(h := p)
            in Inr (if highestVotingPowerObserved < p then (hashMap', Some h, p)
                    else (hashMap', highestVotedHash, highestVotingPowerObserved))))"

definition collect_agreeing ::
    "FnExecutionResponse \<Rightarrow> slice \<Rightarrow> nat \<Rightarrow> bit_array \<times> slice list \<Rightarrow> (bit_array \<times> slice list) res" where
  "collect_agreeing f h i st =
     (case st of (bits, sigs) \<Rightarrow>
      if bytes_Equal h (re_Hashes f ! i)
      then bind_res (go_get (re_OracleSignatures f) i) (\<lambda>sig.
           bind_res (go_put sigs i sig) (\<lambda>sigs'. Inr (SetIndex bits i True, sigs')))
      else Inr (bits, sigs))"

definition ToMajResponse ::
    "string \<Rightarrow> FnExecutionResponse \<Rightarrow> validator_set \<Rightarrow> FnAggregateExecutionResponse option res" where
  "ToMajResponse signingThreshold f vs =
     bind_res (fold_res (tally_vote f vs) [0..<length (re_Hashes f)] ((\<lambda>_. 0), None, -1))
       (\<lambda>(_, highestVotedHash, highestVotingPowerObserved).
     bind_res (fold_res (collect_agreeing f highestVotedHash) [0..<length (re_Hashes f)]
         (NewBitArray (length vs), replicate (length vs) None)) (\<lambda>(bits, sigs).
       let r = \<lparr>ar_Hash = highestVotedHash, ar_SignatureBitArray = bits, ar_OracleSignatures = sigs\<rparr>
       in if signingThreshold = Maj23SigningThreshold
          then Inr (if highestVotingPowerObserved \<ge> maj23 vs then Some r else None)
          else if signingThreshold = AllSigningThreshold
          then Inr (if highestVotingPowerObserved = TotalVotingPower vs then Some r else None)
          else Inl (Panic ''unknown signing threshold type'')))"

section \<open>Payloads\<close>

text \<open>A request is the id of the function it asks for.\<close>

record FnVotePayload =
  pl_Request :: "string option"
  pl_Response :: "FnExecutionResponse option"

definition Payload_IsValid :: "FnVotePayload \<Rightarrow> validator_set \<Rightarrow> unit res" where
  "Payload_IsValid p vs =
     (case pl_Request p of
        None \<Rightarrow> Inl (Err ''request can't be nil'')
      | Some _ \<Rightarrow>
          (case pl_Response p of
             None \<Rightarrow> Inl (Err ''response can't be nil'')
           | Some r \<Rightarrow> Response_IsValid r vs))"

definition Payload_CannonicalCompare :: "FnVotePayload \<Rightarrow> FnVotePayload option \<Rightarrow> bool res" where
  "Payload_CannonicalCompare p remote =
     (case remote of
        None \<Rightarrow> Inr False
      | Some q \<Rightarrow>
          (case (pl_Request q, pl_Response q) of
             (Some fnID, Some r) \<Rightarrow>
               bind_res (deref (pl_Request p)) (\<lambda>own.
                 if own \<noteq> fnID then Inr False
                 else bind_res (deref (pl_Response p)) (\<lambda>f. Inr (Response_CannonicalCompare f r)))
           | _ \<Rightarrow> Inr False))"

definition Payload_Merge :: "FnVotePayload \<Rightarrow> FnVotePayload option \<Rightarrow> (bool \<times> FnVotePayload) res" where
  "Payload_Merge p another =
     (case another of
        None \<Rightarrow> Inl (Err ''can't merge nil payload'')
      | Some q \<Rightarrow>
          bind_res (Payload_CannonicalCompare p another) (\<lambda>same.
            if \<not> same then Inl (Err ''can't merge as payload contents are different'')
            else
              bind_res (deref (pl_Response p)) (\<lambda>f.
              bind_res (Response_Merge f (pl_Response q)) (\<lambda>(changed, f').
                Inr (changed, p\<lparr>pl_Response := Some f'\<rparr>)))))"

definition Payload_Compare :: "FnVotePayload \<Rightarrow> FnVotePayload option \<Rightarrow> bool res" where
  "Payload_Compare p remote =
     (case remote of
        None \<Rightarrow> Inr False
      | Some q \<Rightarrow>
          (case (pl_Request q, pl_Response q) of
             (Some fnID, Some r) \<Rightarrow>
               bind_res (deref (pl_Request p)) (\<lambda>own.
                 if own \<noteq> fnID then Inr False
                 else bind_res (deref (pl_Response p)) (\<lambda>f. Inr (Response_Compare f r)))
           | _ \<Rightarrow> Inr False))"

definition Payload_SignBytes :: "fn_env \<Rightarrow> FnVotePayload \<Rightarrow> nat \<Rightarrow> bytes res" where
  "Payload_SignBytes E p validatorIndex =
     bind_res (deref (pl_Request p)) (\<lambda>fnID.
     bind_res (deref (pl_Response p)) (\<lambda>f.
     bind_res (Response_SignBytes E f validatorIndex) (\<lambda>responseSignBytes.
       Inr (fe_request_bytes E fnID @ [0x50] @ responseSignBytes))))"

section \<open>Vote sets\<close>

record FnVoteSet =
  vs_Nonce :: int
  vs_ValidatorsHash :: bytes
  vs_ChainID :: string
  vs_TotalVotingPower :: int
  vs_VoteBitArray :: bit_array
  vs_Payload :: "FnVotePayload option"
  vs_ValidatorSignatures :: "slice list"
  vs_ValidatorAddresses :: "bytes list"

definition VoteSet_SignBytes :: "fn_env \<Rightarrow> FnVoteSet \<Rightarrow> nat \<Rightarrow> bytes res" where
  "VoteSet_SignBytes E v validatorIndex =
     bind_res (deref (vs_Payload v)) (\<lambda>p.
     bind_res (Payload_SignBytes E p validatorIndex) (\<lambda>payloadBytes.
     bind_res (go_get (vs_ValidatorAddresses v) validatorIndex) (\<lambda>addr.
       let prefix = go_bytes (''NONCE:'' @ dec_int (vs_Nonce v) @ ''|CD:'' @ vs_ChainID v @ ''|VA:'')
                      @ addr @ go_bytes ''|PL:'';
           seperator = [17, 19, 23, 29]
       in Inr (prefix @ seperator @ vs_ValidatorsHash v @ seperator @ payloadBytes))))"

definition NewVoteSet ::
    "fn_env \<Rightarrow> int \<Rightarrow> string \<Rightarrow> nat \<Rightarrow> FnVotePayload \<Rightarrow> (bytes \<Rightarrow> slice res) \<Rightarrow> validator_set \<Rightarrow> FnVoteSet res" where
  "NewVoteSet E nonce chainID validatorIndex initialPayload sign vs =
     bind_res (Payload_IsValid initialPayload vs) (\<lambda>_.
       let totalVotingPower = (if validatorIndex < length vs then fv_VotingPower (vs ! validatorIndex) else 0)
       in if totalVotingPower = 0 then Inl (Err ''unable to create new voteset as validatorIndex is invalid'')
       else
         let v = \<lparr>vs_Nonce = nonce, vs_ValidatorsHash = fe_valset_hash E vs, vs_ChainID = chainID,
                  vs_TotalVotingPower = totalVotingPower,
                  vs_VoteBitArray = SetIndex (NewBitArray (length vs)) validatorIndex True,
                  vs_Payload = Some initialPayload,
                  vs_ValidatorSignatures = replicate (length vs) None,
                  vs_ValidatorAddresses = map fv_Address vs\<rparr>
         in bind_res (VoteSet_SignBytes E v validatorIndex) (\<lambda>signBytes.
            bind_res (sign signBytes) (\<lambda>signature.
            bind_res (go_put (vs_ValidatorSignatures v) validatorIndex signature) (\<lambda>sigs.
              Inr (v\<lparr>vs_ValidatorSignatures := sigs\<rparr>)))))"

definition VoteSet_CannonicalCompare :: "FnVoteSet \<Rightarrow> FnVoteSet \<Rightarrow> bool res" where
  "VoteSet_CannonicalCompare v r =
     (if vs_Nonce v \<noteq> vs_Nonce r then Inr False
      else if vs_ChainID v \<noteq> vs_ChainID r then Inr False
      else if vs_ValidatorsHash v \<noteq> vs_ValidatorsHash r then Inr False
      else case vs_Payload r of
          None \<Rightarrow> Inr False
        | Some q \<Rightarrow>
            bind_res (deref (vs_Payload v)) (\<lambda>p.
            bind_res (Payload_CannonicalCompare p (Some q)) (\<lambda>same.
              Inr (same \<and> length (vs_ValidatorSignatures v) = length (vs_ValidatorSignatures r) \<and>
                   vs_ValidatorAddresses v = vs_ValidatorAddresses r))))"

definition ActiveValidators :: "FnVoteSet \<Rightarrow> bytes list res" where
  "ActiveValidators v =
     fold_res (\<lambda>i active. if \<not> GetIndex (vs_VoteBitArray v) i then Inr active
                          else bind_res (go_get (vs_ValidatorAddresses v) i) (\<lambda>a. Inr (active @ [a])))
       [0..<length (vs_VoteBitArray v)] []"

definition ErrFnVoteNotPresent :: go_error where
  "ErrFnVoteNotPresent = Err ''Fn vote is not present for validator''"
definition ErrFnVoteInvalidValidatorAddress :: go_error where
  "ErrFnVoteInvalidValidatorAddress = Err ''invalid validator address for FnVote''"
definition ErrFnVoteInvalidSignature :: go_error where
  "ErrFnVoteInvalidSignature = Err ''invalid validator signature''"
definition ErrFnVoteAlreadyCast :: go_error where
  "ErrFnVoteAlreadyCast = Err ''Fn vote is already cast''"
definition ErrFnVoteMergeDiffPayload :: go_error where
  "ErrFnVoteMergeDiffPayload = Err ''merging is not allowed, as fn votes have different payload''"

definition verifyInternal :: "fn_env \<Rightarrow> FnVoteSet \<Rightarrow> slice \<Rightarrow> nat \<Rightarrow> bytes \<Rightarrow> bytes \<Rightarrow> unit res" where
  "verifyInternal E v signature validatorIndex validatorAddress pubKey =
     (if fe_address E pubKey \<noteq> validatorAddress then Inl ErrFnVoteInvalidValidatorAddress
      else bind_res (VoteSet_SignBytes E v validatorIndex) (\<lambda>signBytes.
        if fe_verify E pubKey signBytes signature then Inr () else Inl ErrFnVoteInvalidSignature))"

definition VerifyValidatorSign :: "fn_env \<Rightarrow> FnVoteSet \<Rightarrow> nat \<Rightarrow> bytes \<Rightarrow> unit res" where
  "VerifyValidatorSign E v validatorIndex pubKey =
     (if \<not> GetIndex (vs_VoteBitArray v) validatorIndex then Inl ErrFnVoteNotPresent
      else
        bind_res (go_get (vs_ValidatorSignatures v) validatorIndex) (\<lambda>sig.
        bind_res (go_get (vs_ValidatorAddresses v) validatorIndex) (\<lambda>addr.
          verifyInternal E v sig validatorIndex addr pubKey)))"

definition GetFnID :: "FnVoteSet \<Rightarrow> string res" where
  "GetFnID v = bind_res (deref (vs_Payload v)) (\<lambda>p. deref (pl_Request p))"

definition NumberOfVotes :: "FnVoteSet \<Rightarrow> nat" where
  "NumberOfVotes v =
     fold (\<lambda>i n. if GetIndex (vs_VoteBitArray v) i then n + 1 else n) [0..<length (vs_VoteBitArray v)] 0"

definition HasConverged :: "FnVoteSet \<Rightarrow> string \<Rightarrow> validator_set \<Rightarrow> bool res" where
  "HasConverged v signingThreshold vs =
     (if signingThreshold = Maj23SigningThreshold then Inr (vs_TotalVotingPower v \<ge> maj23 vs)
      else if signingThreshold = AllSigningThreshold
      then Inr (vs_TotalVotingPower v = TotalVotingPower vs)
      else Inl (Panic ''unknown signing threshold''))"

definition HaveWeAlreadySigned :: "FnVoteSet \<Rightarrow> nat \<Rightarrow> bool" where
  "HaveWeAlreadySigned v ownValidatorIndex = GetIndex (vs_VoteBitArray v) ownValidatorIndex"

text \<open>The loop body of \<open>IsValid\<close>, called by \<open>Iterate\<close> for every validator in order.\<close>

definition check_vote :: "fn_env \<Rightarrow> FnVoteSet \<Rightarrow> FnExecutionResponse \<Rightarrow> nat \<times> fn_validator \<Rightarrow> int \<Rightarrow> int res" where
  "check_vote E v f iv pow =
     (case iv of (i, val) \<Rightarrow>
      bind_res (go_get (vs_ValidatorAddresses v) i) (\<lambda>addr.
      if addr \<noteq> fv_Address val then Inl (Err ''ValidatorAddresses and current validator set mismatch'')
      else if GetIndex (vs_VoteBitArray v) i \<noteq> GetIndex (re_SignatureBitArray f) i
      then Inl (Err ''VoteBitArray and SignatureBitArray mismatch'')
      else if \<not> GetIndex (vs_VoteBitArray v) i then Inr pow
      else bind_res (go_get (re_OracleSignatures f) i) (\<lambda>sig.
        if sig = None then Inl (Err ''OracleSignature and VoteBitArray mismatch'')
        else case VerifyValidatorSign E v i (fv_PubKey val) of
            Inl (Panic m) \<Rightarrow> Inl (Panic m)
          | Inl _ \<Rightarrow> Inl (Err ''unable to verify validator sign'')
          | Inr _ \<Rightarrow> Inr (i64 (pow + fv_VotingPower val)))))"

definition VoteSet_IsValid ::
    "fn_env \<Rightarrow> FnVoteSet \<Rightarrow> string \<Rightarrow> validator_set \<Rightarrow> (string \<Rightarrow> bool) \<Rightarrow> unit res" where
  "VoteSet_IsValid E v chainID vs registered =
     (if vs_VoteBitArray v = [] then Inl (Err ''VoteBitArray can't be nil'')
      else case vs_Payload v of
        None \<Rightarrow> Inl (Err ''Payload can't be nil'')
      | Some p \<Rightarrow>
          if vs_ValidatorAddresses v = [] then Inl (Err ''ValidatorAddresses can't be nil'')
          else bind_res (Payload_IsValid p vs) (\<lambda>_.
          bind_res (GetFnID v) (\<lambda>fnID.
          if \<not> registered fnID then Inl (Err ''FnID cannot be found in FnRegistry'')
          else if vs_ChainID v \<noteq> chainID then Inl (Err ''ChainID doesn't match'')
          else if vs_ValidatorsHash v \<noteq> fe_valset_hash E vs then Inl (Err ''ValidatorHash doesnt match'')
          else if length (vs_VoteBitArray v) \<noteq> length (vs_ValidatorAddresses v)
          then Inl (Err ''ValidatorAddresses has different length'')
          else if length (vs_VoteBitArray v) \<noteq> length (vs_ValidatorSignatures v)
          then Inl (Err ''ValidatorSignatures has different length'')
          else if length (vs_VoteBitArray v) \<noteq> length vs then Inl (Err ''VoteBitArray size is different'')
          else bind_res (deref (pl_Response p)) (\<lambda>f.
            if length (vs_VoteBitArray v) \<noteq> length (re_SignatureBitArray f)
            then Inl (Err ''SignatureBitArray size is different'')
            else
              bind_res (fold_res (check_vote E v f) (enumerate 0 vs) 0) (\<lambda>calculatedVotingPower.
                if vs_TotalVotingPower v \<noteq> calculatedVotingPower
                then Inl (Err ''TotalVotingPower is not equal to calculated voting power'')
                else Inr ())))))"

definition voteset_take ::
    "validator_set \<Rightarrow> FnVoteSet \<Rightarrow> nat \<Rightarrow> bool \<times> FnVoteSet \<Rightarrow> (bool \<times> FnVoteSet) res" where
  "voteset_take vals a i st =
     (case st of (changed, v) \<Rightarrow>
      if GetIndex (vs_VoteBitArray v) i \<or> \<not> GetIndex (vs_VoteBitArray a) i then Inr (changed, v)
      else
        bind_res (go_get (vs_ValidatorSignatures a) i) (\<lambda>sig.
        bind_res (go_put (vs_ValidatorSignatures v) i sig) (\<lambda>sigs.
        bind_res (go_get (vs_ValidatorAddresses a) i) (\<lambda>addr.
        bind_res (go_put (vs_ValidatorAddresses v) i addr) (\<lambda>addrs.
        bind_res (deref (GetByIndex vals i)) (\<lambda>val.
          Inr (True, v\<lparr>vs_ValidatorSignatures := sigs, vs_ValidatorAddresses := addrs,
                       vs_VoteBitArray := SetIndex (vs_VoteBitArray v) i True,
                       vs_TotalVotingPower := i64 (vs_TotalVotingPower v + fv_VotingPower val)\<rparr>)))))))"

definition VoteSet_Merge :: "validator_set \<Rightarrow> FnVoteSet \<Rightarrow> FnVoteSet \<Rightarrow> (bool \<times> FnVoteSet) res" where
  "VoteSet_Merge vals v another =
     bind_res (VoteSet_CannonicalCompare v another) (\<lambda>same.
       if \<not> same then Inl ErrFnVoteMergeDiffPayload
       else
         bind_res (deref (vs_Payload v)) (\<lambda>p.
         bind_res (Payload_Merge p (vs_Payload another)) (\<lambda>(hasPayloadChanged, p').
           fold_res (voteset_take vals another) [0..<length (vs_VoteBitArray v)]
             (hasPayloadChanged, v\<lparr>vs_Payload := Some p'\<rparr>))))"

definition MajResponse ::
    "FnVoteSet \<Rightarrow> string \<Rightarrow> validator_set \<Rightarrow> FnAggregateExecutionResponse option res" where
  "MajResponse v signingThreshold vs =
     bind_res (deref (vs_Payload v)) (\<lambda>p. bind_res (deref (pl_Response p)) (\<lambda>f.
       ToMajResponse signingThreshold f vs))"

text \<open>\<open>AddVote\<close> changes the vote set it is called on also when it fails later on.\<close>

definition AddVote ::
    "fn_env \<Rightarrow> FnVoteSet \<Rightarrow> int \<Rightarrow> FnIndividualExecutionResponse \<Rightarrow> validator_set \<Rightarrow> nat \<Rightarrow> (bytes \<Rightarrow> slice res)
      \<Rightarrow> unit res \<times> FnVoteSet" where
  "AddVote E v nonce r vals validatorIndex sign =
     (if vs_Nonce v \<noteq> nonce then (Inl (Err ''unable to add vote as nonce is different''), v)
      else if GetIndex (vs_VoteBitArray v) validatorIndex then (Inl ErrFnVoteAlreadyCast, v)
      else case bind_res (deref (vs_Payload v)) (\<lambda>p. bind_res (deref (pl_Response p)) (\<lambda>f.
          bind_res (AddSignature f r validatorIndex) (\<lambda>f'. Inr (p\<lparr>pl_Response := Some f'\<rparr>)))) of
        Inl e \<Rightarrow> (Inl e, v)
      | Inr p' \<Rightarrow>
          let v1 = v\<lparr>vs_Payload := Some p'\<rparr> in
          case bind_res (VoteSet_SignBytes E v1 validatorIndex) sign of
            Inl e \<Rightarrow> (Inl e, v1)
          | Inr signature \<Rightarrow>
              (case go_put (vs_ValidatorSignatures v1) validatorIndex signature of
                 Inl e \<Rightarrow> (Inl e, v1)
               | Inr sigs \<Rightarrow>
                   let v2 = v1\<lparr>vs_VoteBitArray := SetIndex (vs_VoteBitArray v1) validatorIndex True,
                               vs_ValidatorSignatures := sigs\<rparr> in
                   case GetByIndex vals validatorIndex of
                     None \<Rightarrow> (Inl (Err ''unable to add vote as validatorIndex is not valid''), v2)
                   | Some val \<Rightarrow>
                       (case go_get (vs_ValidatorAddresses v2) validatorIndex of
                          Inl e \<Rightarrow> (Inl e, v2)
                        | Inr addr \<Rightarrow>
                            if fv_Address val \<noteq> addr
                            then (Inl (Err ''unable to add vote as validatorAddress does not match''), v2)
                            else (Inr (), v2\<lparr>vs_TotalVotingPower :=
                                    i64 (vs_TotalVotingPower v2 + fv_VotingPower val)\<rparr>))))"

section \<open>Lemmas on lists and loops\<close>

lemma fold_res_unit: "fold_res g xs () = Inr () \<longleftrightarrow> (\<forall>x \<in> set xs. g x () = Inr ())"
proof (induction xs)
  case Nil
  then show ?case by simp
next
  case (Cons x xs)
  then show ?case by (cases "g x ()") auto
qed

definition mix :: "(nat \<Rightarrow> bool) \<Rightarrow> 'a list \<Rightarrow> 'a list \<Rightarrow> 'a list" where
  "mix P xs ys = map (\<lambda>i. if P i then ys ! i else xs ! i) [0..<length xs]"

lemma length_mix [simp]: "length (mix P xs ys) = length xs"
  by (simp add: mix_def)

lemma nth_mix [simp]: "i < length xs \<Longrightarrow> mix P xs ys ! i = (if P i then ys ! i else xs ! i)"
  by (simp add: mix_def)

lemma mix_none: "(\<And>i. i < length xs \<Longrightarrow> \<not> P i) \<Longrightarrow> mix P xs ys = xs"
  by (rule nth_equalityI) auto

lemma mix_step:
  "k < length xs \<Longrightarrow> P k \<Longrightarrow> (mix (\<lambda>i. i < k \<and> P i) xs ys)[k := ys ! k] = mix (\<lambda>i. i < Suc k \<and> P i) xs ys"
  by (rule nth_equalityI) (auto simp: nth_list_update less_Suc_eq)

lemma mix_skip:
  "\<not> P k \<Longrightarrow> mix (\<lambda>i. i < Suc k \<and> P i) xs ys = mix (\<lambda>i. i < k \<and> P i) xs ys"
  by (rule nth_equalityI) (auto simp: less_Suc_eq)

lemma mix_all: "mix (\<lambda>i. i < length xs \<and> P i) xs ys = mix P xs ys"
  by (rule nth_equalityI) auto

lemma GetIndex_nth: "i < length b \<Longrightarrow> GetIndex b i = b ! i"
  by (simp add: GetIndex_def)

section \<open>Valid responses and vote sets\<close>

definition valid_response :: "FnExecutionResponse \<Rightarrow> nat \<Rightarrow> bool" where
  "valid_response f n \<longleftrightarrow>
     0 < n \<and> length (re_Hashes f) = n \<and> length (re_SignatureBitArray f) = n \<and>
     length (re_OracleSignatures f) = n \<and>
     (\<forall>i < n. (re_SignatureBitArray f ! i \<longleftrightarrow> re_OracleSignatures f ! i \<noteq> None) \<and>
              (re_SignatureBitArray f ! i \<longleftrightarrow> re_Hashes f ! i \<noteq> None))"

lemma Response_IsValid_iff: "Response_IsValid f vs = Inr () \<longleftrightarrow> valid_response f (length vs)"
proof -
  have "response_entry f i () = Inr () \<longleftrightarrow>
      (re_SignatureBitArray f ! i \<longleftrightarrow> re_OracleSignatures f ! i \<noteq> None) \<and>
      (re_SignatureBitArray f ! i \<longleftrightarrow> re_Hashes f ! i \<noteq> None)"
    if "i < length (re_SignatureBitArray f)" for i
    using that by (auto simp: response_entry_def GetIndex_nth)
  then show ?thesis
    by (auto simp: Response_IsValid_def valid_response_def fold_res_unit)
qed

text \<open>What a validator signs for its vote.\<close>

definition vote_bytes ::
    "fn_env \<Rightarrow> int \<Rightarrow> string \<Rightarrow> bytes \<Rightarrow> string \<Rightarrow> bytes \<Rightarrow> slice \<Rightarrow> slice \<Rightarrow> bytes" where
  "vote_bytes E nonce chainID vhash fnID addr h sig =
     go_bytes (''NONCE:'' @ dec_int nonce @ ''|CD:'' @ chainID @ ''|VA:'') @ addr @ go_bytes ''|PL:'' @
     [17, 19, 23, 29] @ vhash @ [17, 19, 23, 29] @
     fe_request_bytes E fnID @ [0x50] @ fe_response_bytes E h sig"

definition voted_power :: "bit_array \<Rightarrow> validator_set \<Rightarrow> int" where
  "voted_power bits vs = (\<Sum>i < length vs. if bits ! i then fv_VotingPower (vs ! i) else 0)"

definition signed_vote :: "fn_env \<Rightarrow> FnVoteSet \<Rightarrow> string \<Rightarrow> FnExecutionResponse \<Rightarrow> fn_validator \<Rightarrow> nat \<Rightarrow> bool" where
  "signed_vote E v fnID f val i \<longleftrightarrow>
     fe_address E (fv_PubKey val) = vs_ValidatorAddresses v ! i \<and>
     fe_verify E (fv_PubKey val)
       (vote_bytes E (vs_Nonce v) (vs_ChainID v) (vs_ValidatorsHash v) fnID (vs_ValidatorAddresses v ! i)
          (re_Hashes f ! i) (re_OracleSignatures f ! i))
       (vs_ValidatorSignatures v ! i)"

definition valid_votes ::
    "fn_env \<Rightarrow> FnVoteSet \<Rightarrow> string \<Rightarrow> validator_set \<Rightarrow> (string \<Rightarrow> bool) \<Rightarrow> string \<Rightarrow> FnExecutionResponse \<Rightarrow> bool" where
  "valid_votes E v chainID vs registered fnID f \<longleftrightarrow>
     vs_Payload v = Some \<lparr>pl_Request = Some fnID, pl_Response = Some f\<rparr> \<and> registered fnID \<and>
     vs_ChainID v = chainID \<and> vs_ValidatorsHash v = fe_valset_hash E vs \<and>
     valid_response f (length vs) \<and> vs_VoteBitArray v = re_SignatureBitArray f \<and>
     vs_ValidatorAddresses v = map fv_Address vs \<and> length (vs_ValidatorSignatures v) = length vs \<and>
     (\<forall>i < length vs. vs_VoteBitArray v ! i \<longrightarrow> signed_vote E v fnID f (vs ! i) i) \<and>
     vs_TotalVotingPower v = voted_power (vs_VoteBitArray v) vs"

text \<open>Validators have positive power, and twice their total fits 63 bits.\<close>

definition sane :: "validator_set \<Rightarrow> bool" where
  "sane vs \<longleftrightarrow> (\<forall>v \<in> set vs. 0 < fv_VotingPower v) \<and> TotalVotingPower vs < 2 ^ 62"

lemma TotalVotingPower_sum: "TotalVotingPower vs = (\<Sum>i < length vs. fv_VotingPower (vs ! i))"
  by (simp add: TotalVotingPower_def sum_list_sum_nth atLeast0LessThan)

lemma sane_nth: "sane vs \<Longrightarrow> i < length vs \<Longrightarrow> 0 < fv_VotingPower (vs ! i)"
  by (simp add: sane_def)

lemma sub_power_le:
  assumes "sane vs"
  shows "0 \<le> (\<Sum>i < length vs. if P i then fv_VotingPower (vs ! i) else 0)"
    and "(\<Sum>i < length vs. if P i then fv_VotingPower (vs ! i) else 0) \<le> TotalVotingPower vs"
  using less_imp_le [OF sane_nth [OF assms]]
  by (auto simp: TotalVotingPower_sum intro!: sum_nonneg sum_mono)

lemma partial_power_le:
  assumes "sane vs" and "k \<le> length vs"
  shows "0 \<le> (\<Sum>i < k. if P i then fv_VotingPower (vs ! i) else 0)"
    and "(\<Sum>i < k. if P i then fv_VotingPower (vs ! i) else 0) \<le> TotalVotingPower vs"
proof -
  have "(\<Sum>i < k. if P i then fv_VotingPower (vs ! i) else 0) =
      (\<Sum>i < length vs. if i < k \<and> P i then fv_VotingPower (vs ! i) else 0)"
    using assms(2) by (intro sum.mono_neutral_cong_left) auto
  then show "0 \<le> (\<Sum>i < k. if P i then fv_VotingPower (vs ! i) else 0)"
    "(\<Sum>i < k. if P i then fv_VotingPower (vs ! i) else 0) \<le> TotalVotingPower vs"
    using sub_power_le [OF assms(1)] by simp_all
qed

lemma VoteSet_SignBytes_vote:
  assumes "vs_Payload v = Some \<lparr>pl_Request = Some fnID, pl_Response = Some f\<rparr>"
    and "i < length (re_Hashes f)" "i < length (re_OracleSignatures f)"
    and "i < length (vs_ValidatorAddresses v)"
  shows "VoteSet_SignBytes E v i =
    Inr (vote_bytes E (vs_Nonce v) (vs_ChainID v) (vs_ValidatorsHash v) fnID
      (vs_ValidatorAddresses v ! i) (re_Hashes f ! i) (re_OracleSignatures f ! i))"
  using assms
  by (simp add: VoteSet_SignBytes_def Payload_SignBytes_def Response_SignBytes_def vote_bytes_def)

lemma VerifyValidatorSign_iff:
  assumes "vs_Payload v = Some \<lparr>pl_Request = Some fnID, pl_Response = Some f\<rparr>"
    and "i < length (re_Hashes f)" "i < length (re_OracleSignatures f)"
    and "i < length (vs_ValidatorAddresses v)" "i < length (vs_ValidatorSignatures v)"
    and "GetIndex (vs_VoteBitArray v) i"
  shows "VerifyValidatorSign E v i (fv_PubKey val) = Inr () \<longleftrightarrow> signed_vote E v fnID f val i"
  using assms
  by (auto simp: VerifyValidatorSign_def verifyInternal_def VoteSet_SignBytes_vote signed_vote_def)

lemma check_vote_iff:
  assumes "vs_Payload v = Some \<lparr>pl_Request = Some fnID, pl_Response = Some f\<rparr>"
    and "i < length (re_Hashes f)" "i < length (re_OracleSignatures f)"
    and "i < length (re_SignatureBitArray f)" "i < length (vs_VoteBitArray v)"
    and "i < length (vs_ValidatorAddresses v)" "i < length (vs_ValidatorSignatures v)"
    and "re_SignatureBitArray f ! i \<longleftrightarrow> re_OracleSignatures f ! i \<noteq> None"
  shows "check_vote E v f (i, val) p = Inr q \<longleftrightarrow>
    vs_ValidatorAddresses v ! i = fv_Address val \<and>
    vs_VoteBitArray v ! i = re_SignatureBitArray f ! i \<and>
    (vs_VoteBitArray v ! i \<longrightarrow> signed_vote E v fnID f val i) \<and>
    q = (if vs_VoteBitArray v ! i then i64 (p + fv_VotingPower val) else p)"
proof (cases "vs_VoteBitArray v ! i")
  case False
  with assms show ?thesis by (auto simp: check_vote_def GetIndex_nth)
next
  case True
  then have "GetIndex (vs_VoteBitArray v) i" using assms(5) by (simp add: GetIndex_nth)
  note verify = VerifyValidatorSign_iff [OF assms(1,2,3,6,7) this, of E val]
  show ?thesis
  proof (cases "VerifyValidatorSign E v i (fv_PubKey val)")
    case (Inl e)
    with verify assms True show ?thesis
      by (cases e) (auto simp: check_vote_def GetIndex_nth)
  next
    case (Inr u)
    with verify assms True show ?thesis by (auto simp: check_vote_def GetIndex_nth)
  qed
qed

lemma check_votes_iff:
  assumes "vs_Payload v = Some \<lparr>pl_Request = Some fnID, pl_Response = Some f\<rparr>"
    and "valid_response f (length vs)" and "length (vs_VoteBitArray v) = length vs"
    and "length (vs_ValidatorAddresses v) = length vs"
    and "length (vs_ValidatorSignatures v) = length vs" and "sane vs" and "k \<le> length vs"
  shows "fold_res (check_vote E v f) (map (\<lambda>i. (i, vs ! i)) [0..<k]) 0 = Inr p \<longleftrightarrow>
    (\<forall>i < k. vs_ValidatorAddresses v ! i = fv_Address (vs ! i) \<and>
      vs_VoteBitArray v ! i = re_SignatureBitArray f ! i \<and>
      (vs_VoteBitArray v ! i \<longrightarrow> signed_vote E v fnID f (vs ! i) i)) \<and>
    p = (\<Sum>i < k. if vs_VoteBitArray v ! i then fv_VotingPower (vs ! i) else 0)"
  using assms(7)
proof (induction k arbitrary: p)
  case 0
  then show ?case by auto
next
  case (Suc k)
  then have k: "k < length vs" by simp
  let ?S = "\<lambda>k. \<Sum>i < k. if vs_VoteBitArray v ! i then fv_VotingPower (vs ! i) else 0"
  have "0 \<le> ?S (Suc k)" "?S (Suc k) \<le> TotalVotingPower vs"
    using partial_power_le [OF assms(6)] Suc.prems by blast+
  then have wrap: "vs_VoteBitArray v ! k \<Longrightarrow> i64 (?S k + fv_VotingPower (vs ! k)) = ?S k + fv_VotingPower (vs ! k)"
    using assms(6) by (intro i64_id) (auto simp: sane_def)
  have step: "check_vote E v f (k, vs ! k) q = Inr p \<longleftrightarrow>
      vs_ValidatorAddresses v ! k = fv_Address (vs ! k) \<and>
      vs_VoteBitArray v ! k = re_SignatureBitArray f ! k \<and>
      (vs_VoteBitArray v ! k \<longrightarrow> signed_vote E v fnID f (vs ! k) k) \<and>
      p = (if vs_VoteBitArray v ! k then i64 (q + fv_VotingPower (vs ! k)) else q)" for q p
    using k assms(2-5) by (intro check_vote_iff [OF assms(1)]) (simp_all add: valid_response_def)
  have "fold_res (check_vote E v f) (map (\<lambda>i. (i, vs ! i)) [0..<Suc k]) 0 = Inr p \<longleftrightarrow>
      (\<exists>q. fold_res (check_vote E v f) (map (\<lambda>i. (i, vs ! i)) [0..<k]) 0 = Inr q \<and>
           check_vote E v f (k, vs ! k) q = Inr p)"
    by (auto simp: fold_res_append bind_res_eq_Inr_iff)
  with Suc step wrap show ?case by (auto simp: less_Suc_eq)
qed

lemma enumerate_map: "enumerate 0 xs = map (\<lambda>i. (i, xs ! i)) [0..<length xs]"
  by (rule nth_equalityI) (auto simp: nth_enumerate_eq)

lemma valid_votes_lengths:
  "valid_votes E v chainID vs registered fnID f \<Longrightarrow>
     length (vs_VoteBitArray v) = length vs \<and> length (re_Hashes f) = length vs \<and>
     length (re_OracleSignatures f) = length vs \<and> length (re_SignatureBitArray f) = length vs \<and>
     length (vs_ValidatorSignatures v) = length vs \<and> length (vs_ValidatorAddresses v) = length vs \<and>
     0 < length vs"
  by (simp add: valid_votes_def valid_response_def)

lemma VoteSet_IsValid_iff:
  assumes "sane vs"
  shows "VoteSet_IsValid E v chainID vs registered = Inr () \<longleftrightarrow>
    (\<exists>fnID f. valid_votes E v chainID vs registered fnID f)"
proof
  assume valid: "VoteSet_IsValid E v chainID vs registered = Inr ()"
  then obtain p where p: "vs_Payload v = Some p" "Payload_IsValid p vs = Inr ()"
    by (auto simp: VoteSet_IsValid_def split: if_splits option.splits elim!: bind_resE)
  then obtain fnID f where pl: "p = \<lparr>pl_Request = Some fnID, pl_Response = Some f\<rparr>"
    and resp: "valid_response f (length vs)"
    by (cases p) (auto simp: Payload_IsValid_def Response_IsValid_iff split: option.splits)
  with valid p obtain q where len: "length (vs_VoteBitArray v) = length vs"
      "length (vs_ValidatorAddresses v) = length vs" "length (vs_ValidatorSignatures v) = length vs"
    and reg: "registered fnID" "vs_ChainID v = chainID" "vs_ValidatorsHash v = fe_valset_hash E vs"
    and loop: "fold_res (check_vote E v f) (enumerate 0 vs) 0 = Inr q"
    and q: "vs_TotalVotingPower v = q"
    by (auto simp: VoteSet_IsValid_def GetFnID_def split: if_splits elim!: bind_resE)
  have f: "vs_Payload v = Some \<lparr>pl_Request = Some fnID, pl_Response = Some f\<rparr>"
    using p pl by simp
  from loop have "(\<forall>i < length vs. vs_ValidatorAddresses v ! i = fv_Address (vs ! i) \<and>
      vs_VoteBitArray v ! i = re_SignatureBitArray f ! i \<and>
      (vs_VoteBitArray v ! i \<longrightarrow> signed_vote E v fnID f (vs ! i) i)) \<and>
      q = voted_power (vs_VoteBitArray v) vs"
    unfolding enumerate_map voted_power_def
    using check_votes_iff [OF f resp len(1,2,3) assms order_refl] by blast
  with f resp len reg q have "valid_votes E v chainID vs registered fnID f"
    by (auto simp: valid_votes_def valid_response_def intro!: nth_equalityI)
  then show "\<exists>fnID f. valid_votes E v chainID vs registered fnID f" by blast
next
  assume "\<exists>fnID f. valid_votes E v chainID vs registered fnID f"
  then obtain fnID f where v: "valid_votes E v chainID vs registered fnID f" by blast
  note len = valid_votes_lengths [OF v]
  from v have f: "vs_Payload v = Some \<lparr>pl_Request = Some fnID, pl_Response = Some f\<rparr>"
    and resp: "valid_response f (length vs)"
    by (simp_all add: valid_votes_def)
  have "fold_res (check_vote E v f) (enumerate 0 vs) 0 = Inr (voted_power (vs_VoteBitArray v) vs)"
    unfolding enumerate_map voted_power_def
    using v len check_votes_iff [OF f resp _ _ _ assms order_refl] by (simp add: valid_votes_def)
  moreover have "Response_IsValid f vs = Inr ()"
    using resp by (simp add: Response_IsValid_iff)
  ultimately show "VoteSet_IsValid E v chainID vs registered = Inr ()"
    using v len by (auto simp: VoteSet_IsValid_def valid_votes_def Payload_IsValid_def GetFnID_def)
qed

section \<open>Merging\<close>

definition new_votes :: "bit_array \<Rightarrow> bit_array \<Rightarrow> nat \<Rightarrow> bool" where
  "new_votes own other i \<longleftrightarrow> \<not> own ! i \<and> other ! i"

definition merged_response :: "FnExecutionResponse \<Rightarrow> FnExecutionResponse \<Rightarrow> (nat \<Rightarrow> bool) \<Rightarrow> FnExecutionResponse" where
  "merged_response f a N =
     \<lparr>re_Hashes = mix N (re_Hashes f) (re_Hashes a),
      re_SignatureBitArray = mix N (re_SignatureBitArray f) (re_SignatureBitArray a),
      re_OracleSignatures = mix N (re_OracleSignatures f) (re_OracleSignatures a)\<rparr>"

lemma response_take_loop:
  assumes "valid_response f n" and "valid_response a n" and "k \<le> n"
  defines "N \<equiv> new_votes (re_SignatureBitArray f) (re_SignatureBitArray a)"
  shows "fold_res (response_take a) [0..<k] (False, f) =
    Inr (\<exists>i < k. N i, merged_response f a (\<lambda>i. i < k \<and> N i))"
  using assms(3)
proof (induction k)
  case 0
  then show ?case by (simp add: merged_response_def mix_none)
next
  case (Suc k)
  from assms(1,2) have len: "length (re_Hashes f) = n" "length (re_Hashes a) = n"
    "length (re_SignatureBitArray f) = n" "length (re_SignatureBitArray a) = n"
    "length (re_OracleSignatures f) = n" "length (re_OracleSignatures a) = n"
    by (simp_all add: valid_response_def)
  have "response_take a k (\<exists>i < k. N i, merged_response f a (\<lambda>i. i < k \<and> N i)) =
      Inr (\<exists>i < Suc k. N i, merged_response f a (\<lambda>i. i < Suc k \<and> N i))"
  proof (cases "N k")
    case True
    then have "GetIndex (re_SignatureBitArray a) k" "re_SignatureBitArray a ! k"
      "\<not> GetIndex (mix (\<lambda>i. i < k \<and> N i) (re_SignatureBitArray f) (re_SignatureBitArray a)) k"
      using Suc.prems len by (simp_all add: N_def new_votes_def GetIndex_nth)
    moreover have "\<exists>i < Suc k. N i" using True by blast
    moreover have "SetIndex (mix (\<lambda>i. i < k \<and> N i) (re_SignatureBitArray f) (re_SignatureBitArray a)) k True =
        mix (\<lambda>i. i < Suc k \<and> N i) (re_SignatureBitArray f) (re_SignatureBitArray a)"
      using mix_step [of k "re_SignatureBitArray f" N "re_SignatureBitArray a"] calculation True Suc.prems len
      by (simp add: SetIndex_def)
    ultimately show ?thesis
      using Suc.prems len True
      by (simp add: response_take_def merged_response_def mix_step)
  next
    case False
    then have "GetIndex (re_SignatureBitArray a) k \<Longrightarrow>
        GetIndex (mix (\<lambda>i. i < k \<and> N i) (re_SignatureBitArray f) (re_SignatureBitArray a)) k"
      using Suc.prems len by (simp add: N_def new_votes_def GetIndex_nth)
    moreover have "(\<exists>i < Suc k. N i) \<longleftrightarrow> (\<exists>i < k. N i)"
      using False by (auto simp: less_Suc_eq)
    ultimately show ?thesis
      using False by (auto simp: response_take_def merged_response_def mix_skip)
  qed
  with Suc show ?case by (simp add: fold_res_append)
qed

lemma merged_response_cong:
  assumes "valid_response f n" and "\<And>i. i < n \<Longrightarrow> P i = Q i"
  shows "merged_response f a P = merged_response f a Q"
  using assms by (auto simp: merged_response_def mix_def valid_response_def)

lemma Response_Merge_valid:
  assumes "valid_response f n" and "valid_response a n"
  defines "N \<equiv> new_votes (re_SignatureBitArray f) (re_SignatureBitArray a)"
  shows "Response_Merge f (Some a) = Inr (\<exists>i < n. N i, merged_response f a N)"
proof -
  have "Response_CannonicalCompare f a" "length (re_OracleSignatures f) = n"
    using assms(1,2) by (simp_all add: valid_response_def Response_CannonicalCompare_def)
  with response_take_loop [OF assms(1,2) order_refl]
  have "Response_Merge f (Some a) = Inr (\<exists>i < n. N i, merged_response f a (\<lambda>i. i < n \<and> N i))"
    by (simp add: Response_Merge_def N_def)
  also have "merged_response f a (\<lambda>i. i < n \<and> N i) = merged_response f a N"
    using assms(1) by (rule merged_response_cong) simp
  finally show ?thesis .
qed

lemma merged_response_valid:
  assumes "valid_response f n" and "valid_response a n"
  shows "valid_response (merged_response f a (new_votes (re_SignatureBitArray f) (re_SignatureBitArray a))) n"
  using assms by (auto simp: valid_response_def merged_response_def new_votes_def)

text \<open>Two vote sets a merge may combine: valid for the same validators, and for the same nonce.\<close>

definition merged_votes ::
    "FnVoteSet \<Rightarrow> FnVoteSet \<Rightarrow> FnVotePayload option \<Rightarrow> (nat \<Rightarrow> bool) \<Rightarrow> int \<Rightarrow> FnVoteSet" where
  "merged_votes v a p N pw =
     v\<lparr>vs_Payload := p,
       vs_VoteBitArray := mix N (vs_VoteBitArray v) (vs_VoteBitArray a),
       vs_ValidatorSignatures := mix N (vs_ValidatorSignatures v) (vs_ValidatorSignatures a),
       vs_TotalVotingPower := pw\<rparr>"

definition gained_power :: "(nat \<Rightarrow> bool) \<Rightarrow> validator_set \<Rightarrow> nat \<Rightarrow> int" where
  "gained_power N vs k = (\<Sum>i < k. if N i then fv_VotingPower (vs ! i) else 0)"

lemma gained_power_Suc:
  "gained_power N vs (Suc k) = gained_power N vs k + (if N k then fv_VotingPower (vs ! k) else 0)"
  by (simp add: gained_power_def)

lemma voted_plus_gained:
  assumes "sane vs" and "k \<le> length vs" and "\<And>i. N i \<Longrightarrow> \<not> bits ! i"
  shows "0 \<le> voted_power bits vs + gained_power N vs k"
    and "voted_power bits vs + gained_power N vs k \<le> TotalVotingPower vs"
proof -
  have "gained_power N vs k = (\<Sum>i < length vs. if i < k \<and> N i then fv_VotingPower (vs ! i) else 0)"
    unfolding gained_power_def using assms(2) by (intro sum.mono_neutral_cong_left) auto
  then have "voted_power bits vs + gained_power N vs k =
      (\<Sum>i < length vs. if bits ! i \<or> i < k \<and> N i then fv_VotingPower (vs ! i) else 0)"
    using assms(3) by (auto simp: voted_power_def sum.distrib [symmetric] intro!: sum.cong)
  with sub_power_le [OF assms(1)] show "0 \<le> voted_power bits vs + gained_power N vs k"
    "voted_power bits vs + gained_power N vs k \<le> TotalVotingPower vs"
    by simp_all
qed

lemma voteset_take_loop:
  assumes sane: "sane vals" and k: "k \<le> length vals"
    and v: "length (vs_VoteBitArray v) = length vals" "length (vs_ValidatorSignatures v) = length vals"
      "vs_ValidatorAddresses v = map fv_Address vals"
      "vs_TotalVotingPower v = voted_power (vs_VoteBitArray v) vals"
    and a: "length (vs_VoteBitArray a) = length vals" "length (vs_ValidatorSignatures a) = length vals"
      "vs_ValidatorAddresses a = map fv_Address vals"
  defines "N \<equiv> new_votes (vs_VoteBitArray v) (vs_VoteBitArray a)"
  shows "fold_res (voteset_take vals a) [0..<k] (c, v) =
    Inr (c \<or> (\<exists>i < k. N i), merged_votes v a (vs_Payload v) (\<lambda>i. i < k \<and> N i)
      (vs_TotalVotingPower v + gained_power N vals k))"
  using k
proof (induction k)
  case 0
  then show ?case by (simp add: merged_votes_def mix_none gained_power_def)
next
  case (Suc k)
  let ?bits = "mix (\<lambda>i. i < k \<and> N i) (vs_VoteBitArray v) (vs_VoteBitArray a)"
  let ?pw = "vs_TotalVotingPower v + gained_power N vals k"
  have "voteset_take vals a k (c \<or> (\<exists>i < k. N i), merged_votes v a (vs_Payload v) (\<lambda>i. i < k \<and> N i) ?pw) =
      Inr (c \<or> (\<exists>i < Suc k. N i), merged_votes v a (vs_Payload v) (\<lambda>i. i < Suc k \<and> N i)
        (vs_TotalVotingPower v + gained_power N vals (Suc k)))"
  proof (cases "N k")
    case True
    then have bit: "GetIndex (vs_VoteBitArray a) k" "vs_VoteBitArray a ! k" "\<not> GetIndex ?bits k"
      using Suc.prems v a by (simp_all add: N_def new_votes_def GetIndex_nth)
    have ex: "\<exists>i < Suc k. N i" using True by blast
    have set: "SetIndex ?bits k True = mix (\<lambda>i. i < Suc k \<and> N i) (vs_VoteBitArray v) (vs_VoteBitArray a)"
      using mix_step [of k "vs_VoteBitArray v" N "vs_VoteBitArray a"] bit True Suc.prems v
      by (simp add: SetIndex_def)
    have addr: "(map fv_Address vals)[k := fv_Address (vals ! k)] = map fv_Address vals"
      using Suc.prems by (metis Suc_le_lessD list_update_id map_update)
    have "i64 (?pw + fv_VotingPower (vals ! k)) = ?pw + fv_VotingPower (vals ! k)"
      using voted_plus_gained [OF sane Suc.prems, of N "vs_VoteBitArray v"] True sane v(4)
      by (intro i64_id) (auto simp: N_def new_votes_def sane_def gained_power_Suc)
    then show ?thesis
      using Suc.prems v a True bit ex set addr
      by (simp add: voteset_take_def merged_votes_def GetByIndex_def mix_step gained_power_Suc)
  next
    case False
    then have "GetIndex (vs_VoteBitArray a) k \<Longrightarrow> GetIndex ?bits k"
      using Suc.prems v a by (simp add: N_def new_votes_def GetIndex_nth)
    moreover have "(\<exists>i < Suc k. N i) \<longleftrightarrow> (\<exists>i < k. N i)"
      using False by (auto simp: less_Suc_eq)
    ultimately show ?thesis
      using False by (auto simp: voteset_take_def merged_votes_def mix_skip gained_power_Suc)
  qed
  with Suc show ?case by (simp add: fold_res_append)
qed

lemma voted_power_gained:
  assumes "length bits = length vs" and "length other = length vs"
  shows "voted_power bits vs + gained_power (new_votes bits other) vs (length vs) =
    voted_power (mix (new_votes bits other) bits other) vs"
  using assms
  by (auto simp: voted_power_def gained_power_def new_votes_def sum.distrib [symmetric] intro!: sum.cong)

lemma VoteSet_Merge_valid:
  assumes sane: "sane vs" and v: "valid_votes E v chainID vs registered fnID f"
    and a: "valid_votes E a chainID vs registered fnID g" and nonce: "vs_Nonce v = vs_Nonce a"
  defines "N \<equiv> new_votes (vs_VoteBitArray v) (vs_VoteBitArray a)"
    and "m \<equiv> merged_response f g (new_votes (vs_VoteBitArray v) (vs_VoteBitArray a))"
  defines "v' \<equiv> merged_votes v a (Some \<lparr>pl_Request = Some fnID, pl_Response = Some m\<rparr>) N
      (voted_power (mix N (vs_VoteBitArray v) (vs_VoteBitArray a)) vs)"
  shows "VoteSet_Merge vs v a = Inr (\<exists>i < length vs. N i, v')"
    and "valid_votes E v' chainID vs registered fnID m"
proof -
  note lv = valid_votes_lengths [OF v] and la = valid_votes_lengths [OF a]
  from v have f: "valid_response f (length vs)" "vs_VoteBitArray v = re_SignatureBitArray f"
      "vs_Payload v = Some \<lparr>pl_Request = Some fnID, pl_Response = Some f\<rparr>"
      "vs_ValidatorAddresses v = map fv_Address vs"
    and pv: "vs_TotalVotingPower v = voted_power (vs_VoteBitArray v) vs"
    by (simp_all add: valid_votes_def)
  from a have g: "valid_response g (length vs)" "vs_VoteBitArray a = re_SignatureBitArray g"
      "vs_Payload a = Some \<lparr>pl_Request = Some fnID, pl_Response = Some g\<rparr>"
      "vs_ValidatorAddresses a = map fv_Address vs"
    by (simp_all add: valid_votes_def)
  have canon: "VoteSet_CannonicalCompare v a = Inr True"
    using v a lv la nonce
    by (simp add: VoteSet_CannonicalCompare_def valid_votes_def Payload_CannonicalCompare_def
        Response_CannonicalCompare_def)
  have payload: "Payload_Merge \<lparr>pl_Request = Some fnID, pl_Response = Some f\<rparr> (vs_Payload a) =
      Inr (\<exists>i < length vs. N i, \<lparr>pl_Request = Some fnID, pl_Response = Some m\<rparr>)"
    using Response_Merge_valid [OF f(1) g(1)] lv la
    by (simp add: Payload_Merge_def Payload_CannonicalCompare_def Response_CannonicalCompare_def
        g(3) N_def m_def f(2) g(2))
  let ?w = "v\<lparr>vs_Payload := Some \<lparr>pl_Request = Some fnID, pl_Response = Some m\<rparr>\<rparr>"
  have loop: "fold_res (voteset_take vs a) [0..<length vs] (\<exists>i < length vs. N i, ?w) =
      Inr (\<exists>i < length vs. N i, merged_votes ?w a (vs_Payload ?w) (\<lambda>i. i < length vs \<and> N i)
        (vs_TotalVotingPower v + gained_power N vs (length vs)))"
    using voteset_take_loop [OF sane order_refl, of ?w a "\<exists>i < length vs. N i"] lv la f(4) g(4) pv
    by (simp add: N_def)
  have mixes: "mix (\<lambda>i. i < length vs \<and> N i) (vs_VoteBitArray v) (vs_VoteBitArray a) =
      mix N (vs_VoteBitArray v) (vs_VoteBitArray a)"
    "mix (\<lambda>i. i < length vs \<and> N i) (vs_ValidatorSignatures v) (vs_ValidatorSignatures a) =
      mix N (vs_ValidatorSignatures v) (vs_ValidatorSignatures a)"
    using mix_all [of "vs_VoteBitArray v"] mix_all [of "vs_ValidatorSignatures v"] lv by simp_all
  have pw: "vs_TotalVotingPower v + gained_power N vs (length vs) =
      voted_power (mix N (vs_VoteBitArray v) (vs_VoteBitArray a)) vs"
    unfolding pv N_def using lv la by (intro voted_power_gained) simp_all
  have "merged_votes ?w a (vs_Payload ?w) (\<lambda>i. i < length vs \<and> N i)
      (vs_TotalVotingPower v + gained_power N vs (length vs)) = v'"
    unfolding pw v'_def merged_votes_def by (simp add: mixes)
  with loop canon payload show "VoteSet_Merge vs v a = Inr (\<exists>i < length vs. N i, v')"
    using lv f(3) by (simp add: VoteSet_Merge_def)
  have m: "m = merged_response f g N" by (simp add: m_def N_def)
  have same: "vs_ChainID v = vs_ChainID a" "vs_ValidatorsHash v = vs_ValidatorsHash a"
    "vs_ValidatorAddresses v = vs_ValidatorAddresses a"
    using v a by (simp_all add: valid_votes_def)
  have "signed_vote E v' fnID m (vs ! i) i" if i: "i < length vs" and bit: "vs_VoteBitArray v' ! i" for i
  proof (cases "N i")
    case True
    then have "signed_vote E a fnID g (vs ! i) i"
      using a i by (simp add: valid_votes_def N_def new_votes_def)
    with True i nonce lv la show ?thesis
      by (simp add: signed_vote_def v'_def m merged_votes_def merged_response_def same)
  next
    case False
    with bit i lv have "signed_vote E v fnID f (vs ! i) i"
      using v by (simp add: valid_votes_def v'_def merged_votes_def)
    with False i lv show ?thesis
      by (simp add: signed_vote_def v'_def m merged_votes_def merged_response_def)
  qed
  moreover have "valid_response m (length vs)"
    unfolding m_def f(2) g(2) using merged_response_valid [OF f(1) g(1)] .
  ultimately show "valid_votes E v' chainID vs registered fnID m"
    using v lv f(2) g(2)
    by (simp add: valid_votes_def v'_def merged_votes_def m_def merged_response_def N_def)
qed

lemma VoteSet_Merge_pointwise:
  assumes "sane vs" and "valid_votes E v chainID vs registered fnID f"
    and "valid_votes E a chainID vs registered fnID g" and "vs_Nonce v = vs_Nonce a"
  obtains v' m where
    "VoteSet_Merge vs v a = Inr (\<exists>i < length vs. \<not> vs_VoteBitArray v ! i \<and> vs_VoteBitArray a ! i, v')"
    and "valid_votes E v' chainID vs registered fnID m" and "vs_Nonce v' = vs_Nonce v"
    and "\<And>i. i < length vs \<Longrightarrow> vs_VoteBitArray v' ! i \<longleftrightarrow> vs_VoteBitArray v ! i \<or> vs_VoteBitArray a ! i"
    and "\<And>i. i < length vs \<Longrightarrow>
      re_Hashes m ! i = (if vs_VoteBitArray v ! i then re_Hashes f ! i else re_Hashes g ! i)"
    and "\<And>i. i < length vs \<Longrightarrow> vs_ValidatorSignatures v' ! i =
      (if \<not> vs_VoteBitArray v ! i \<and> vs_VoteBitArray a ! i
       then vs_ValidatorSignatures a ! i else vs_ValidatorSignatures v ! i)"
proof -
  note lv = valid_votes_lengths [OF assms(2)] and la = valid_votes_lengths [OF assms(3)]
  note m = VoteSet_Merge_valid [OF assms]
  from assms(2,3) have none: "\<And>i. i < length vs \<Longrightarrow> \<not> vs_VoteBitArray v ! i \<Longrightarrow> re_Hashes f ! i = None"
    "\<And>i. i < length vs \<Longrightarrow> \<not> vs_VoteBitArray a ! i \<Longrightarrow> re_Hashes g ! i = None"
    by (auto simp: valid_votes_def valid_response_def)
  show thesis
    using lv la none
    by (intro that [OF m(1) [unfolded new_votes_def] m(2) [unfolded new_votes_def]])
      (auto simp: merged_votes_def merged_response_def new_votes_def)
qed

section \<open>Casting votes\<close>

text \<open>A signer for a validator: its signatures verify under the key of the validator.\<close>

definition signs_for :: "fn_env \<Rightarrow> (bytes \<Rightarrow> slice res) \<Rightarrow> fn_validator \<Rightarrow> bool" where
  "signs_for E sign val \<longleftrightarrow>
     fe_address E (fv_PubKey val) = fv_Address val \<and>
     (\<forall>b. \<exists>s. sign b = Inr s \<and> fe_verify E (fv_PubKey val) b s)"

lemma signs_forE:
  assumes "signs_for E sign val"
  obtains s where "sign b = Inr s" and "fe_verify E (fv_PubKey val) b s"
  using assms unfolding signs_for_def by blast

lemma voted_power_set:
  assumes "i < length vs" and "length bits = length vs" and "\<not> bits ! i"
  shows "voted_power (bits[i := True]) vs = voted_power bits vs + fv_VotingPower (vs ! i)"
proof -
  have "voted_power (bits[i := True]) vs =
      (\<Sum>j < length vs. (if bits ! j then fv_VotingPower (vs ! j) else 0) +
        (if j = i then fv_VotingPower (vs ! i) else 0))"
    unfolding voted_power_def using assms by (intro sum.cong) (auto simp: nth_list_update)
  then show ?thesis
    using assms(1) by (simp add: sum.distrib voted_power_def)
qed

lemma voted_power_bounds:
  assumes "sane vs"
  shows "0 \<le> voted_power bits vs" and "voted_power bits vs \<le> TotalVotingPower vs"
  unfolding voted_power_def using sub_power_le [OF assms] by blast+

lemma AddVote_valid:
  assumes sane: "sane vs" and v: "valid_votes E v chainID vs registered fnID f"
    and i: "i < length vs" "\<not> vs_VoteBitArray v ! i" and nonce: "vs_Nonce v = nonce"
    and r: "ir_Hash r \<noteq> None" "ir_OracleSignature r \<noteq> None" and sign: "signs_for E sign (vs ! i)"
  obtains v' f' where "AddVote E v nonce r vs i sign = (Inr (), v')"
    and "valid_votes E v' chainID vs registered fnID f'"
    and "f' = f\<lparr>re_OracleSignatures := (re_OracleSignatures f)[i := ir_OracleSignature r],
               re_Hashes := (re_Hashes f)[i := ir_Hash r],
               re_SignatureBitArray := (re_SignatureBitArray f)[i := True]\<rparr>"
    and "vs_Nonce v' = vs_Nonce v"
proof -
  note lv = valid_votes_lengths [OF v]
  let ?f = "f\<lparr>re_OracleSignatures := (re_OracleSignatures f)[i := ir_OracleSignature r],
               re_Hashes := (re_Hashes f)[i := ir_Hash r],
               re_SignatureBitArray := (re_SignatureBitArray f)[i := True]\<rparr>"
  let ?p = "\<lparr>pl_Request = Some fnID, pl_Response = Some ?f\<rparr>"
  let ?v1 = "v\<lparr>vs_Payload := Some ?p\<rparr>"
  let ?b = "vote_bytes E (vs_Nonce v) (vs_ChainID v) (vs_ValidatorsHash v) fnID
      (vs_ValidatorAddresses v ! i) (ir_Hash r) (ir_OracleSignature r)"
  from v have f: "vs_VoteBitArray v = re_SignatureBitArray f"
      "vs_Payload v = Some \<lparr>pl_Request = Some fnID, pl_Response = Some f\<rparr>"
      "vs_ValidatorAddresses v = map fv_Address vs"
      "vs_TotalVotingPower v = voted_power (vs_VoteBitArray v) vs"
    by (simp_all add: valid_votes_def)
  obtain s where s: "sign ?b = Inr s" "fe_verify E (fv_PubKey (vs ! i)) ?b s"
    using sign by (rule signs_forE)
  have bytes: "VoteSet_SignBytes E ?v1 i = Inr ?b"
    using VoteSet_SignBytes_vote [of ?v1 fnID ?f i E] i lv by simp
  let ?v' = "?v1\<lparr>vs_VoteBitArray := (vs_VoteBitArray v)[i := True],
      vs_ValidatorSignatures := (vs_ValidatorSignatures v)[i := s],
      vs_TotalVotingPower := vs_TotalVotingPower v + fv_VotingPower (vs ! i)\<rparr>"
  have set: "voted_power ((vs_VoteBitArray v)[i := True]) vs =
      vs_TotalVotingPower v + fv_VotingPower (vs ! i)"
    using voted_power_set [of i vs "vs_VoteBitArray v"] i lv f(4) by simp
  then have "i64 (vs_TotalVotingPower v + fv_VotingPower (vs ! i)) =
      vs_TotalVotingPower v + fv_VotingPower (vs ! i)"
    using voted_power_bounds [OF sane, of "(vs_VoteBitArray v)[i := True]"] sane
    by (intro i64_id) (auto simp: sane_def)
  then have add: "AddVote E v nonce r vs i sign = (Inr (), ?v')"
    using i nonce lv f s(1) bytes
    by (simp add: AddVote_def AddSignature_def GetIndex_nth SetIndex_def GetByIndex_def Let_def)
  have "valid_response ?f (length vs)"
    using v r i by (auto simp: valid_votes_def valid_response_def nth_list_update)
  moreover have "signed_vote E ?v' fnID ?f (vs ! j) j" if "j < length vs" "vs_VoteBitArray ?v' ! j" for j
  proof (cases "j = i")
    case True
    with s i lv f(3) sign show ?thesis
      by (simp add: signed_vote_def signs_for_def)
  next
    case False
    with that i lv have "signed_vote E v fnID f (vs ! j) j"
      using v by (simp add: valid_votes_def)
    with False that lv show ?thesis
      by (simp add: signed_vote_def)
  qed
  ultimately have "valid_votes E ?v' chainID vs registered fnID ?f"
    using v set lv f(1) by (simp add: valid_votes_def)
  with add show thesis by (rule that) simp_all
qed

lemma NewVoteSet_valid:
  assumes sane: "sane vs" and i: "i < length vs" and reg: "registered fnID"
    and r: "ir_Hash r \<noteq> None" "ir_OracleSignature r \<noteq> None" and sign: "signs_for E sign (vs ! i)"
  obtains f v where "NewFnExecutionResponse r i vs = Inr f"
    and "NewVoteSet E nonce chainID i \<lparr>pl_Request = Some fnID, pl_Response = Some f\<rparr> sign vs = Inr v"
    and "valid_votes E v chainID vs registered fnID f" and "vs_Nonce v = nonce"
proof -
  let ?n = "length vs"
  define f where "f = \<lparr>re_Hashes = (replicate ?n None)[i := ir_Hash r],
    re_SignatureBitArray = (replicate ?n False)[i := True],
    re_OracleSignatures = (replicate ?n None)[i := ir_OracleSignature r]\<rparr>"
  have f: "NewFnExecutionResponse r i vs = Inr f"
    using i by (simp add: NewFnExecutionResponse_def f_def SetIndex_def NewBitArray_def)
  have resp: "valid_response f ?n"
    using i r by (auto simp: valid_response_def f_def nth_list_update)
  let ?p = "\<lparr>pl_Request = Some fnID, pl_Response = Some f\<rparr>"
  define v0 where "v0 = \<lparr>vs_Nonce = nonce, vs_ValidatorsHash = fe_valset_hash E vs, vs_ChainID = chainID,
    vs_TotalVotingPower = fv_VotingPower (vs ! i), vs_VoteBitArray = (replicate ?n False)[i := True],
    vs_Payload = Some ?p, vs_ValidatorSignatures = replicate ?n None,
    vs_ValidatorAddresses = map fv_Address vs\<rparr>"
  let ?b = "vote_bytes E nonce chainID (fe_valset_hash E vs) fnID (fv_Address (vs ! i)) (ir_Hash r)
    (ir_OracleSignature r)"
  obtain s where s: "sign ?b = Inr s" "fe_verify E (fv_PubKey (vs ! i)) ?b s"
    using sign by (rule signs_forE)
  have "VoteSet_SignBytes E v0 i = Inr ?b"
    using VoteSet_SignBytes_vote [of v0 fnID f i E] i by (simp add: v0_def f_def)
  moreover have "Payload_IsValid ?p vs = Inr ()"
    using resp by (simp add: Payload_IsValid_def Response_IsValid_iff)
  ultimately have new: "NewVoteSet E nonce chainID i ?p sign vs =
      Inr (v0\<lparr>vs_ValidatorSignatures := (replicate ?n None)[i := s]\<rparr>)"
    using i s(1) sane_nth [OF sane i]
    by (simp add: NewVoteSet_def Let_def v0_def SetIndex_def NewBitArray_def)
  have "voted_power ((replicate ?n False)[i := True]) vs = fv_VotingPower (vs ! i)"
    using voted_power_set [of i vs "replicate ?n False"] i by (simp add: voted_power_def)
  moreover have "signed_vote E (v0\<lparr>vs_ValidatorSignatures := (replicate ?n None)[i := s]\<rparr>) fnID f (vs ! i) i"
    using s(2) i sign by (simp add: signed_vote_def v0_def f_def signs_for_def)
  ultimately have "valid_votes E (v0\<lparr>vs_ValidatorSignatures := (replicate ?n None)[i := s]\<rparr>) chainID vs
      registered fnID f"
    using i resp reg by (auto simp: valid_votes_def v0_def f_def nth_list_update)
  with f new show thesis by (rule that) (simp add: v0_def)
qed

section \<open>The tally\<close>

definition power_for :: "FnExecutionResponse \<Rightarrow> validator_set \<Rightarrow> bytes \<Rightarrow> nat \<Rightarrow> int" where
  "power_for f vs h k = gained_power (\<lambda>i. re_Hashes f ! i = Some h) vs k"

lemma power_for_Suc:
  "power_for f vs h (Suc k) =
     power_for f vs h k + (if re_Hashes f ! k = Some h then fv_VotingPower (vs ! k) else 0)"
  by (simp add: power_for_def gained_power_Suc)

lemma power_for_bounds:
  assumes "sane vs" and "k \<le> length vs"
  shows "0 \<le> power_for f vs h k" and "power_for f vs h k \<le> TotalVotingPower vs"
  unfolding power_for_def gained_power_def
  by (rule partial_power_le [OF assms])+

definition tally_inv :: "FnExecutionResponse \<Rightarrow> validator_set \<Rightarrow> nat \<Rightarrow> tally \<Rightarrow> bool" where
  "tally_inv f vs k t \<longleftrightarrow>
     (case t of (hm, hh, hp) \<Rightarrow>
      (\<forall>h. hm h = power_for f vs h k) \<and>
      (case hh of
         None \<Rightarrow> hp = -1 \<and> (\<forall>h. power_for f vs h k = 0)
       | Some h \<Rightarrow> hp = power_for f vs h k \<and> 0 < hp \<and> (\<forall>h'. power_for f vs h' k \<le> hp)))"

lemma tally_step:
  assumes sane: "sane vs" and k: "k < length vs" and inv: "tally_inv f vs k t"
  shows "\<exists>t'. tally_vote f vs k t = Inr t' \<and> tally_inv f vs (Suc k) t'"
proof -
  obtain hm hh hp where t: "t = (hm, hh, hp)" by (cases t)
  have pos: "0 < fv_VotingPower (vs ! k)" using sane k by (rule sane_nth)
  show ?thesis
  proof (cases "re_Hashes f ! k")
    case None
    with inv show ?thesis
      by (auto simp: tally_vote_def t tally_inv_def power_for_Suc split: option.splits)
  next
    case (Some h)
    have hm: "hm h = power_for f vs h k" using inv by (simp add: tally_inv_def t)
    have p: "i64 (hm h + fv_VotingPower (vs ! k)) = power_for f vs h (Suc k)"
      using power_for_bounds [OF sane, of "Suc k" f h] k sane Some
      by (simp add: hm power_for_Suc) (intro i64_id, auto simp: sane_def)
    have step: "tally_vote f vs k t = Inr (if hp < power_for f vs h (Suc k)
        then (hm(h := power_for f vs h (Suc k)), Some h, power_for f vs h (Suc k))
        else (hm(h := power_for f vs h (Suc k)), hh, hp))"
      using k by (simp add: tally_vote_def t Some GetByIndex_def p Let_def)
    have nonneg: "0 \<le> power_for f vs h' k" for h'
      using power_for_bounds [OF sane] k by simp
    have hm': "(hm(h := power_for f vs h (Suc k))) h' = power_for f vs h' (Suc k)" for h'
      using inv Some by (simp add: tally_inv_def t power_for_Suc)
    have "power_for f vs h (Suc k) = power_for f vs h k + fv_VotingPower (vs ! k)"
      by (simp add: power_for_Suc Some)
    moreover have other: "h' \<noteq> h \<Longrightarrow> power_for f vs h' (Suc k) = power_for f vs h' k" for h'
      by (simp add: power_for_Suc Some)
    ultimately show ?thesis
    proof (cases "hp < power_for f vs h (Suc k)")
      case True
      have "power_for f vs h' (Suc k) \<le> power_for f vs h (Suc k)" for h'
        using inv True other [of h'] nonneg [of h] pos
        by (cases "h' = h"; cases hh) (auto simp: tally_inv_def t power_for_Suc Some intro: order_trans)
      with True hm' step pos nonneg [of h] show ?thesis
        by (auto simp: tally_inv_def power_for_Suc Some)
    next
      case False
      with inv pos nonneg [of h] obtain g where g: "hh = Some g" "hp = power_for f vs g k" "0 < hp"
        "\<forall>h'. power_for f vs h' k \<le> hp"
        by (cases hh) (auto simp: tally_inv_def t power_for_Suc Some)
      with False pos have "g \<noteq> h" by (auto simp: power_for_Suc Some)
      with g other have "hp = power_for f vs g (Suc k)" by simp
      moreover have "power_for f vs h' (Suc k) \<le> hp" for h'
        using False g(4) other [of h'] by (cases "h' = h") auto
      ultimately show ?thesis
        using False hm' step g by (auto simp: tally_inv_def)
    qed
  qed
qed

lemma tally_loop:
  assumes "sane vs" and "k \<le> length vs"
  shows "\<exists>t. fold_res (tally_vote f vs) [0..<k] ((\<lambda>_. 0), None, -1) = Inr t \<and> tally_inv f vs k t"
  using assms(2)
proof (induction k)
  case 0
  then show ?case by (simp add: tally_inv_def power_for_def gained_power_def)
next
  case (Suc k)
  then obtain t where t: "fold_res (tally_vote f vs) [0..<k] ((\<lambda>_. 0), None, -1) = Inr t"
    "tally_inv f vs k t" by auto
  then obtain t' where "tally_vote f vs k t = Inr t'" "tally_inv f vs (Suc k) t'"
    using tally_step [OF assms(1), of k f t] Suc.prems by auto
  with t show ?case by (simp add: fold_res_append)
qed

lemma collect_loop:
  fixes hh :: slice
  assumes "length (re_Hashes f) = n" and "length (re_OracleSignatures f) = n" and "k \<le> n"
  defines "A \<equiv> \<lambda>i. bytes_Equal hh (re_Hashes f ! i)"
  shows "fold_res (collect_agreeing f hh) [0..<k] (replicate n False, replicate n None) =
    Inr (mix (\<lambda>i. i < k \<and> A i) (replicate n False) (replicate n True),
         mix (\<lambda>i. i < k \<and> A i) (replicate n None) (re_OracleSignatures f))"
  using assms(3)
proof (induction k)
  case 0
  then show ?case by (simp add: mix_none)
next
  case (Suc k)
  then have k: "k < n" by simp
  have "collect_agreeing f hh k (mix (\<lambda>i. i < k \<and> A i) (replicate n False) (replicate n True),
         mix (\<lambda>i. i < k \<and> A i) (replicate n None) (re_OracleSignatures f)) =
     Inr (mix (\<lambda>i. i < Suc k \<and> A i) (replicate n False) (replicate n True),
         mix (\<lambda>i. i < Suc k \<and> A i) (replicate n None) (re_OracleSignatures f))"
  proof (cases "A k")
    case True
    then have "bytes_Equal hh (re_Hashes f ! k)" by (simp add: A_def)
    moreover have "mix (\<lambda>i. i < Suc k \<and> A i) (replicate n False) (replicate n True) =
        SetIndex (mix (\<lambda>i. i < k \<and> A i) (replicate n False) (replicate n True)) k True"
      using mix_step [of k "replicate n False" A "replicate n True"] k True by (simp add: SetIndex_def)
    ultimately show ?thesis
      using True k assms(2) mix_step [of k "replicate n None" A "re_OracleSignatures f"]
      by (simp add: collect_agreeing_def)
  next
    case False
    then have "\<not> bytes_Equal hh (re_Hashes f ! k)" by (simp add: A_def)
    then show ?thesis
      using False by (simp add: collect_agreeing_def mix_skip)
  qed
  with Suc show ?case by (simp add: fold_res_append)
qed

text \<open>The voting power a threshold asks for, and the response aggregated for a hash.\<close>

definition reaches :: "string \<Rightarrow> validator_set \<Rightarrow> int \<Rightarrow> bool" where
  "reaches threshold vs p \<longleftrightarrow>
     threshold = Maj23SigningThreshold \<and> maj23 vs \<le> p \<or>
     threshold = AllSigningThreshold \<and> p = TotalVotingPower vs"

definition known_threshold :: "string \<Rightarrow> bool" where
  "known_threshold threshold \<longleftrightarrow> threshold = Maj23SigningThreshold \<or> threshold = AllSigningThreshold"

definition aggregate :: "FnExecutionResponse \<Rightarrow> bytes \<Rightarrow> FnAggregateExecutionResponse" where
  "aggregate f h =
     \<lparr>ar_Hash = Some h, ar_SignatureBitArray = map (\<lambda>x. x = Some h) (re_Hashes f),
      ar_OracleSignatures = map (\<lambda>i. if re_Hashes f ! i = Some h then re_OracleSignatures f ! i else None)
        [0..<length (re_Hashes f)]\<rparr>"

lemma TotalVotingPower_pos: "sane vs \<Longrightarrow> vs \<noteq> [] \<Longrightarrow> 0 < TotalVotingPower vs"
  unfolding TotalVotingPower_sum by (intro sum_pos) (auto simp: sane_nth)

lemma maj23_eq:
  assumes "sane vs"
  shows "maj23 vs = TotalVotingPower vs * 2 div 3 + 1"
proof -
  have "0 \<le> TotalVotingPower vs" "TotalVotingPower vs < 2 ^ 62"
    using sub_power_le(1) [OF assms, of "\<lambda>_. True"] assms
    by (simp_all add: TotalVotingPower_sum [symmetric] sane_def)
  moreover from this have "i64 (TotalVotingPower vs * 2) = TotalVotingPower vs * 2"
    by (intro i64_id) auto
  moreover have "i64 (TotalVotingPower vs * 2 div 3 + 1) = TotalVotingPower vs * 2 div 3 + 1"
    using calculation(1,2) by (intro i64_id) auto
  ultimately show ?thesis by (simp add: maj23_def go_quot_def)
qed

lemma reaches_power:
  assumes "sane vs" and "vs \<noteq> []" and "reaches threshold vs p"
  shows "TotalVotingPower vs * 2 < 3 * p"
proof -
  have "0 < TotalVotingPower vs" using assms(1,2) by (rule TotalVotingPower_pos)
  with assms maj23_eq [OF assms(1)] show ?thesis by (auto simp: reaches_def)
qed

lemma power_for_disjoint:
  assumes "sane vs" and "h \<noteq> h'"
  shows "power_for f vs h (length vs) + power_for f vs h' (length vs) \<le> TotalVotingPower vs"
proof -
  have "power_for f vs h (length vs) + power_for f vs h' (length vs) =
      (\<Sum>i < length vs. if re_Hashes f ! i = Some h \<or> re_Hashes f ! i = Some h'
        then fv_VotingPower (vs ! i) else 0)"
    using assms(2)
    by (auto simp: power_for_def gained_power_def sum.distrib [symmetric] intro!: sum.cong)
  also have "\<dots> \<le> TotalVotingPower vs" by (rule sub_power_le(2) [OF assms(1)])
  finally show ?thesis .
qed

lemma reaches_unique:
  assumes "sane vs" and "vs \<noteq> []"
    and "reaches threshold vs (power_for f vs h (length vs))"
    and "reaches threshold vs (power_for f vs h' (length vs))"
  shows "h = h'"
proof (rule ccontr)
  assume "h \<noteq> h'"
  with assms power_for_disjoint [OF assms(1), of h h' f] show False
    using reaches_power [OF assms(1,2,3)] reaches_power [OF assms(1,2,4)]
      TotalVotingPower_pos [OF assms(1,2)] by linarith
qed

lemma ToMajResponse_spec:
  assumes sane: "sane vs" and f: "valid_response f (length vs)"
    and ne: "Some [] \<notin> set (re_Hashes f)" and thr: "known_threshold threshold"
  shows "ToMajResponse threshold f vs =
    Inr (if \<exists>h. reaches threshold vs (power_for f vs h (length vs))
         then Some (aggregate f (THE h. reaches threshold vs (power_for f vs h (length vs)))) else None)"
proof -
  let ?n = "length vs" and ?R = "\<lambda>h. reaches threshold vs (power_for f vs h (length vs))"
  from f have len: "length (re_Hashes f) = ?n" "length (re_OracleSignatures f) = ?n" and n: "vs \<noteq> []"
    by (auto simp: valid_response_def)
  obtain hm hh hp where loop: "fold_res (tally_vote f vs) [0..<?n] ((\<lambda>_. 0), None, -1) = Inr (hm, hh, hp)"
    and inv: "tally_inv f vs ?n (hm, hh, hp)"
    using tally_loop [OF sane order_refl, of f] by auto
  define r where "r = \<lparr>ar_Hash = hh,
    ar_SignatureBitArray = mix (\<lambda>i. i < ?n \<and> bytes_Equal hh (re_Hashes f ! i)) (replicate ?n False) (replicate ?n True),
    ar_OracleSignatures = mix (\<lambda>i. i < ?n \<and> bytes_Equal hh (re_Hashes f ! i)) (replicate ?n None) (re_OracleSignatures f)\<rparr>"
  have run: "ToMajResponse threshold f vs = Inr (if reaches threshold vs hp then Some r else None)"
    using loop collect_loop [OF len order_refl, of hh] thr
    by (auto simp: ToMajResponse_def len NewBitArray_def r_def reaches_def known_threshold_def
        Maj23SigningThreshold_def AllSigningThreshold_def)
  show ?thesis
  proof (cases hh)
    case None
    with inv have "hp = -1" and zero: "\<And>h. power_for f vs h ?n = 0"
      by (simp_all add: tally_inv_def)
    have "\<not> reaches threshold vs hp" "\<not> ?R h" for h
      using reaches_power [OF sane n, of threshold hp] reaches_power [OF sane n, of threshold 0]
        TotalVotingPower_pos [OF sane n] \<open>hp = -1\<close> zero by auto
    with run show ?thesis by simp
  next
    case (Some h)
    with inv have hp: "hp = power_for f vs h ?n" "0 < hp" and max: "\<And>h'. power_for f vs h' ?n \<le> hp"
      by (auto simp: tally_inv_def)
    have agg: "r = aggregate f h" if "h \<noteq> []"
    proof -
      have "bytes_Equal hh (re_Hashes f ! i) \<longleftrightarrow> re_Hashes f ! i = Some h" for i
        using that by (cases "re_Hashes f ! i") (auto simp: bytes_Equal_def Some)
      then show ?thesis
        by (auto simp: r_def aggregate_def Some len intro!: nth_equalityI split: if_splits)
    qed
    have "h \<noteq> []"
    proof
      assume "h = []"
      then have "power_for f vs h ?n = 0"
        using ne len by (auto simp: power_for_def gained_power_def in_set_conv_nth intro!: sum.neutral)
      with hp show False by simp
    qed
    have "?R h" if "?R h'" for h'
    proof -
      have "reaches threshold vs hp"
        using that max [of h'] power_for_bounds(2) [OF sane order_refl, of f h] hp(1)
        by (auto simp: reaches_def)
      then show ?thesis by (simp add: hp(1))
    qed
    then have "(\<exists>h. ?R h) \<longleftrightarrow> reaches threshold vs hp" "?R h' \<Longrightarrow> h' = h" for h'
      using reaches_unique [OF sane n] by (auto simp: hp(1))
    moreover from this have "reaches threshold vs hp \<Longrightarrow> (THE h. ?R h) = h"
      by (metis hp(1) the_equality)
    ultimately show ?thesis
      using run agg [OF \<open>h \<noteq> []\<close>] by auto
  qed
qed

lemma ToMajResponse_SomeD:
  assumes "sane vs" and "valid_response f (length vs)" and "Some [] \<notin> set (re_Hashes f)"
    and "known_threshold threshold" and "ToMajResponse threshold f vs = Inr (Some r)"
  obtains h where "r = aggregate f h" and "reaches threshold vs (power_for f vs h (length vs))"
proof -
  have ne: "vs \<noteq> []" using assms(2) by (auto simp: valid_response_def)
  let ?R = "\<lambda>h. reaches threshold vs (power_for f vs h (length vs))"
  from assms ToMajResponse_spec [OF assms(1-4)] obtain h where h: "?R h" and "r = aggregate f (THE h. ?R h)"
    by (auto split: if_splits)
  moreover have "(THE h. ?R h) = h"
    using h reaches_unique [OF assms(1) ne] by (intro the_equality) auto
  ultimately show thesis using that by simp
qed

section \<open>The designated submitter\<close>

lemma fold_count:
  "fold (\<lambda>i (n :: int). if P i then n + 1 else n) [0..<k] c = c + int (card {i. i < k \<and> P i})"
proof (induction k)
  case 0
  then show ?case by simp
next
  case (Suc k)
  have "{i. i < Suc k \<and> P i} = (if P k then insert k {i. i < k \<and> P i} else {i. i < k \<and> P i})"
    by (auto simp: less_Suc_eq)
  with Suc show ?case by simp
qed

lemma rank_unique:
  fixes n :: nat
  shows "m < card {i. i < n \<and> P i} \<Longrightarrow> \<exists>!i. i < n \<and> P i \<and> card {j. j < i \<and> P j} = m"
proof (induction n)
  case 0
  then show ?case by simp
next
  case (Suc n)
  let ?S = "{i. i < n \<and> P i}"
  show ?case
  proof (cases "m < card ?S")
    case True
    then obtain i where i: "i < n" "P i" "card {j. j < i \<and> P j} = m"
      and u: "\<And>k. k < n \<Longrightarrow> P k \<Longrightarrow> card {j. j < k \<and> P j} = m \<Longrightarrow> k = i"
      using Suc.IH by blast
    show ?thesis
    proof (rule ex1I [of _ i])
      show "i < Suc n \<and> P i \<and> card {j. j < i \<and> P j} = m" using i by simp
      show "k = i" if "k < Suc n \<and> P k \<and> card {j. j < k \<and> P j} = m" for k
        using that u True by (cases "k = n") (auto simp: less_Suc_eq)
    qed
  next
    case False
    have "{i. i < Suc n \<and> P i} = (if P n then insert n ?S else ?S)" by (auto simp: less_Suc_eq)
    with Suc.prems False have n: "P n" "m = card ?S" by (auto split: if_splits)
    show ?thesis
    proof (rule ex1I [of _ n])
      show "n < Suc n \<and> P n \<and> card {j. j < n \<and> P j} = m" using n by simp
      show "k = n" if k: "k < Suc n \<and> P k \<and> card {j. j < k \<and> P j} = m" for k
      proof (rule ccontr)
        assume "k \<noteq> n"
        with k have "k < n" by simp
        then have "{j. j < k \<and> P j} \<subset> ?S" using k by auto
        then have "card {j. j < k \<and> P j} < card ?S" by (intro psubset_card_mono) auto
        with k n(2) show False by simp
      qed
    qed
  qed
qed

lemma AgreeIndex_rank:
  "AgreeIndex r i =
     (if GetIndex (ar_SignatureBitArray r) i then int (card {j. j < i \<and> GetIndex (ar_SignatureBitArray r) j}) else -1)"
proof -
  have "{j. j < Suc i \<and> GetIndex (ar_SignatureBitArray r) j} =
      insert i {j. j < i \<and> GetIndex (ar_SignatureBitArray r) j}" if "GetIndex (ar_SignatureBitArray r) i"
    using that by (auto simp: less_Suc_eq)
  then show ?thesis
    by (simp add: AgreeIndex_def fold_count del: upt_Suc)
qed

lemma NumberOfAgreeVotes_card:
  "NumberOfAgreeVotes r =
     int (card {i. i < length (ar_SignatureBitArray r) \<and> GetIndex (ar_SignatureBitArray r) i})"
  by (simp add: NumberOfAgreeVotes_def fold_count)

section \<open>Properties\<close>

subsection \<open>An example\<close>

text \<open>Three validators of equal power; a key signs by naming itself.\<close>

definition demo_fn_env :: fn_env where
  "demo_fn_env = \<lparr>fe_address = id, fe_verify = (\<lambda>pk b s. s = Some pk), fe_valset_hash = concat o map fv_Address,
     fe_request_bytes = go_bytes, fe_response_bytes = (\<lambda>h s. slice_bytes h @ slice_bytes s)\<rparr>"

definition demo_vals :: validator_set where
  "demo_vals = map (\<lambda>a. \<lparr>fv_Address = [a], fv_PubKey = [a], fv_VotingPower = 10\<rparr>) [1, 2, 3]"

definition demo_answer :: "bool list \<Rightarrow> bytes \<Rightarrow> FnExecutionResponse" where
  "demo_answer bits h =
     \<lparr>re_Hashes = map (\<lambda>b. if b then Some h else None) bits, re_SignatureBitArray = bits,
      re_OracleSignatures = map (\<lambda>b. if b then Some [9] else None) bits\<rparr>"

definition demo_votes :: "bool list \<Rightarrow> bytes \<Rightarrow> FnVoteSet" where
  "demo_votes bits h =
     \<lparr>vs_Nonce = 4, vs_ValidatorsHash = [1, 2, 3], vs_ChainID = ''default'',
      vs_TotalVotingPower = 10 * int (length (filter id bits)), vs_VoteBitArray = bits,
      vs_Payload = Some \<lparr>pl_Request = Some ''fn'', pl_Response = Some (demo_answer bits h)\<rparr>,
      vs_ValidatorSignatures = [Some [1], Some [2], Some [3]], vs_ValidatorAddresses = [[1], [2], [3]]\<rparr>"

lemma demo_sane: "sane demo_vals"
  by (simp add: sane_def demo_vals_def TotalVotingPower_def)

lemma demo_valid:
  assumes "bits \<in> {[True, False, False], [False, True, False], [True, True, True]}"
  shows "valid_votes demo_fn_env (demo_votes bits h) ''default'' demo_vals (\<lambda>_. True) ''fn'' (demo_answer bits h)"
  using assms
  by (auto simp: valid_votes_def valid_response_def demo_votes_def demo_answer_def demo_vals_def demo_fn_env_def
      signed_vote_def voted_power_def less_Suc_eq numeral_3_eq_3 lessThan_Suc)

text \<open>a vote set passes \<open>IsValid\<close> exactly when it is well formed for the validator set: every
  vote it counts is signed by its validator over nonce, chain, validators, function, hash and oracle
  signature, and its voting power is the sum over the validators that voted.\<close>

theorem voteset_valid_iff:
  assumes "sane vs"
  shows "VoteSet_IsValid E v chainID vs registered = Inr () \<longleftrightarrow>
    (\<exists>fnID f. valid_votes E v chainID vs registered fnID f)"
  using assms by (rule VoteSet_IsValid_iff)

theorem voteset_valid_iff_witness:
  "VoteSet_IsValid demo_fn_env (demo_votes [True, False, False] [7]) ''default'' demo_vals (\<lambda>_. True) = Inr ()"
  using voteset_valid_iff [OF demo_sane] demo_valid by blast

text \<open>C17: merging two valid vote sets of the same nonce and function gives a valid vote set whose
  votes are the own ones and those of the other set for validators that had not voted; it reports a
  change exactly when a vote was added. Vote sets of different nonces or functions are refused.\<close>

theorem merge_keeps_valid:
  assumes "sane vs" and "valid_votes E v chainID vs registered fnID f"
    and "valid_votes E a chainID vs registered fnID' g"
  shows "if vs_Nonce v = vs_Nonce a \<and> fnID = fnID'
    then \<exists>v' m. VoteSet_Merge vs v a =
        Inr (\<exists>i < length vs. \<not> vs_VoteBitArray v ! i \<and> vs_VoteBitArray a ! i, v') \<and>
      valid_votes E v' chainID vs registered fnID m \<and> vs_Nonce v' = vs_Nonce v \<and>
      (\<forall>i < length vs. (vs_VoteBitArray v' ! i \<longleftrightarrow> vs_VoteBitArray v ! i \<or> vs_VoteBitArray a ! i) \<and>
        re_Hashes m ! i = (if vs_VoteBitArray v ! i then re_Hashes f ! i else re_Hashes g ! i) \<and>
        vs_ValidatorSignatures v' ! i =
          (if \<not> vs_VoteBitArray v ! i \<and> vs_VoteBitArray a ! i
           then vs_ValidatorSignatures a ! i else vs_ValidatorSignatures v ! i))
    else VoteSet_Merge vs v a = Inl ErrFnVoteMergeDiffPayload"
proof (cases "vs_Nonce v = vs_Nonce a \<and> fnID = fnID'")
  case True
  from True assms(3) have a: "valid_votes E a chainID vs registered fnID g" by simp
  show ?thesis
    unfolding if_P [OF True]
    by (rule VoteSet_Merge_pointwise [OF assms(1,2) a conjunct1 [OF True]]) blast
next
  case False
  with assms(2,3) show ?thesis
    by (auto simp: VoteSet_Merge_def VoteSet_CannonicalCompare_def valid_votes_def
        Payload_CannonicalCompare_def)
qed

theorem merge_keeps_valid_witness:
  "\<exists>v' m. VoteSet_Merge demo_vals (demo_votes [True, False, False] [7]) (demo_votes [False, True, False] [8]) =
      Inr (True, v') \<and>
    valid_votes demo_fn_env v' ''default'' demo_vals (\<lambda>_. True) ''fn'' m \<and>
    re_Hashes m ! 0 = Some [7] \<and> re_Hashes m ! 1 = Some [8]"
proof -
  let ?v = "demo_votes [True, False, False] [7]" and ?a = "demo_votes [False, True, False] [8]"
  have v: "valid_votes demo_fn_env ?v ''default'' demo_vals (\<lambda>_. True) ''fn'' (demo_answer [True, False, False] [7])"
    and a: "valid_votes demo_fn_env ?a ''default'' demo_vals (\<lambda>_. True) ''fn'' (demo_answer [False, True, False] [8])"
    by (rule demo_valid, simp)+
  have "\<exists>i < length demo_vals. \<not> vs_VoteBitArray ?v ! i \<and> vs_VoteBitArray ?a ! i"
    by (rule exI [of _ 1]) (simp add: demo_votes_def demo_vals_def)
  moreover have "vs_Nonce ?v = vs_Nonce ?a \<and> ''fn'' = ''fn''" by (simp add: demo_votes_def)
  ultimately obtain v' m where "VoteSet_Merge demo_vals ?v ?a = Inr (True, v')"
    "valid_votes demo_fn_env v' ''default'' demo_vals (\<lambda>_. True) ''fn'' m"
    "\<forall>i < length demo_vals. re_Hashes m ! i = (if vs_VoteBitArray ?v ! i
       then re_Hashes (demo_answer [True, False, False] [7]) ! i
       else re_Hashes (demo_answer [False, True, False] [8]) ! i)"
    using merge_keeps_valid [OF demo_sane v a] by auto
  moreover have "0 < length demo_vals" "1 < length demo_vals" by (simp_all add: demo_vals_def)
  ultimately have "re_Hashes m ! 0 = Some [7]" "re_Hashes m ! 1 = Some [8]"
    by (auto simp: demo_votes_def demo_answer_def)
  then show ?thesis
    using \<open>VoteSet_Merge demo_vals ?v ?a = Inr (True, v')\<close>
      \<open>valid_votes demo_fn_env v' ''default'' demo_vals (\<lambda>_. True) ''fn'' m\<close> by blast
qed

text \<open>a validator that casts its vote on a valid vote set with the nonce of the set, a message
  hash and an oracle signature, leaves a valid vote set with exactly its vote added; a second vote of
  the same validator is refused and changes nothing.\<close>

theorem add_vote_keeps_valid:
  assumes "sane vs" and "valid_votes E v chainID vs registered fnID f" and "i < length vs"
    and "ir_Hash r \<noteq> None" and "ir_OracleSignature r \<noteq> None" and "signs_for E sign (vs ! i)"
  shows "if vs_VoteBitArray v ! i
    then AddVote E v (vs_Nonce v) r vs i sign = (Inl ErrFnVoteAlreadyCast, v)
    else \<exists>v' f'. AddVote E v (vs_Nonce v) r vs i sign = (Inr (), v') \<and>
      valid_votes E v' chainID vs registered fnID f' \<and>
      re_Hashes f' = (re_Hashes f)[i := ir_Hash r] \<and>
      vs_VoteBitArray v' = (vs_VoteBitArray v)[i := True]"
proof (cases "vs_VoteBitArray v ! i")
  case True
  with assms(3) valid_votes_lengths [OF assms(2)] show ?thesis
    by (simp add: AddVote_def GetIndex_nth)
next
  case False
  obtain v' f' where r: "AddVote E v (vs_Nonce v) r vs i sign = (Inr (), v')"
    "valid_votes E v' chainID vs registered fnID f'"
    "f' = f\<lparr>re_OracleSignatures := (re_OracleSignatures f)[i := ir_OracleSignature r],
       re_Hashes := (re_Hashes f)[i := ir_Hash r],
       re_SignatureBitArray := (re_SignatureBitArray f)[i := True]\<rparr>"
    using AddVote_valid [OF assms(1,2,3) False refl assms(4,5,6)] .
  moreover have "vs_VoteBitArray v' = (vs_VoteBitArray v)[i := True]"
    using r(2,3) assms(2) by (simp add: valid_votes_def)
  moreover have "re_Hashes f' = (re_Hashes f)[i := ir_Hash r]" by (simp add: r(3))
  ultimately show ?thesis using False by auto
qed

theorem add_vote_keeps_valid_witness:
  "\<exists>v' f'. AddVote demo_fn_env (demo_votes [True, False, False] [7]) 4
      \<lparr>ir_Hash = Some [8], ir_OracleSignature = Some [9]\<rparr> demo_vals 1 (\<lambda>_. Inr (Some [2])) = (Inr (), v') \<and>
    valid_votes demo_fn_env v' ''default'' demo_vals (\<lambda>_. True) ''fn'' f' \<and>
    vs_VoteBitArray v' = [True, True, False]"
proof -
  let ?v = "demo_votes [True, False, False] [7]" and ?r = "\<lparr>ir_Hash = Some [8], ir_OracleSignature = Some [9]\<rparr>"
  have v: "valid_votes demo_fn_env ?v ''default'' demo_vals (\<lambda>_. True) ''fn'' (demo_answer [True, False, False] [7])"
    by (rule demo_valid) simp
  have "signs_for demo_fn_env (\<lambda>_. Inr (Some [2])) (demo_vals ! 1)"
    by (simp add: signs_for_def demo_fn_env_def demo_vals_def)
  then show ?thesis
    using add_vote_keeps_valid [OF demo_sane v, of 1 ?r "\<lambda>_. Inr (Some [2])"]
    by (auto simp: demo_votes_def demo_vals_def)
qed

text \<open>the tally: \<open>ToMajResponse\<close> returns a response exactly when some hash reaches the threshold,
  and then for that hash, with the signatures of exactly the validators that voted for it.\<close>

theorem tally_finds_majority:
  assumes "sane vs" and "valid_response f (length vs)" and "Some [] \<notin> set (re_Hashes f)"
    and "known_threshold threshold"
  shows "ToMajResponse threshold f vs = Inr (Some r) \<longleftrightarrow>
    (\<exists>h. reaches threshold vs (power_for f vs h (length vs)) \<and> r = aggregate f h)"
proof -
  have ne: "vs \<noteq> []" using assms(2) by (auto simp: valid_response_def)
  have the: "(THE h. reaches threshold vs (power_for f vs h (length vs))) = h"
    if "reaches threshold vs (power_for f vs h (length vs))" for h
    using that reaches_unique [OF assms(1) ne] by (intro the_equality) auto
  then show ?thesis
    using ToMajResponse_spec [OF assms] by (auto split: if_splits)
qed

theorem tally_finds_majority_witness:
  "ToMajResponse Maj23SigningThreshold (demo_answer [True, True, True] [7]) demo_vals =
     Inr (Some (aggregate (demo_answer [True, True, True] [7]) [7]))"
proof -
  let ?f = "demo_answer [True, True, True] [7]"
  have "valid_response ?f (length demo_vals)" "Some [] \<notin> set (re_Hashes ?f)"
    by (auto simp: valid_response_def demo_answer_def demo_vals_def less_Suc_eq numeral_3_eq_3)
  moreover have "reaches Maj23SigningThreshold demo_vals (power_for ?f demo_vals [7] (length demo_vals))"
    by (simp add: reaches_def power_for_def gained_power_def demo_answer_def demo_vals_def maj23_def
        TotalVotingPower_def go_quot_def i64_def lessThan_Suc numeral_3_eq_3)
  ultimately show ?thesis
    using tally_finds_majority [OF demo_sane, of ?f] by (auto simp: known_threshold_def)
qed

text \<open>C16: accountability: when two valid vote sets of the same validators reach two thirds for two
  different hashes, validators with more than a third of the voting power signed votes for both.\<close>

theorem conflicting_majorities_accountable:
  assumes "sane vs" and "valid_votes E v chainID vs registered fnID f"
    and "valid_votes E w chainID vs registered fnID' g"
    and "Some [] \<notin> set (re_Hashes f)" and "Some [] \<notin> set (re_Hashes g)"
    and "MajResponse v Maj23SigningThreshold vs = Inr (Some r)"
    and "MajResponse w Maj23SigningThreshold vs = Inr (Some q)"
    and "ar_Hash r \<noteq> ar_Hash q"
  shows "\<exists>D. TotalVotingPower vs < 3 * (\<Sum>i \<in> D. fv_VotingPower (vs ! i)) \<and>
    (\<forall>i \<in> D. i < length vs \<and> re_Hashes f ! i = ar_Hash r \<and> re_Hashes g ! i = ar_Hash q \<and>
       signed_vote E v fnID f (vs ! i) i \<and> signed_vote E w fnID' g (vs ! i) i)"
proof -
  let ?n = "length vs"
  have k: "known_threshold Maj23SigningThreshold" by (simp add: known_threshold_def)
  from assms(2,3,6,7) have f: "valid_response f ?n" "ToMajResponse Maj23SigningThreshold f vs = Inr (Some r)"
    and g: "valid_response g ?n" "ToMajResponse Maj23SigningThreshold g vs = Inr (Some q)"
    by (auto simp: MajResponse_def valid_votes_def)
  obtain h where h: "r = aggregate f h" "reaches Maj23SigningThreshold vs (power_for f vs h ?n)"
    using ToMajResponse_SomeD [OF assms(1) f(1) assms(4) k f(2)] .
  obtain l where l: "q = aggregate g l" "reaches Maj23SigningThreshold vs (power_for g vs l ?n)"
    using ToMajResponse_SomeD [OF assms(1) g(1) assms(5) k g(2)] .
  have ne: "vs \<noteq> []" using f(1) by (auto simp: valid_response_def)
  let ?D = "{i. i < ?n \<and> re_Hashes f ! i = Some h \<and> re_Hashes g ! i = Some l}"
  let ?pw = "\<lambda>i. fv_VotingPower (vs ! i)"
  have "power_for f vs h ?n + power_for g vs l ?n =
      (\<Sum>i < ?n. (if re_Hashes f ! i = Some h \<or> re_Hashes g ! i = Some l then ?pw i else 0) +
        (if i \<in> ?D then ?pw i else 0))"
    by (auto simp: power_for_def gained_power_def sum.distrib [symmetric] intro!: sum.cong)
  also have "\<dots> = (\<Sum>i < ?n. if re_Hashes f ! i = Some h \<or> re_Hashes g ! i = Some l then ?pw i else 0) +
      (\<Sum>i < ?n. if i \<in> ?D then ?pw i else 0)"
    by (rule sum.distrib)
  also have "\<dots> \<le> TotalVotingPower vs + (\<Sum>i < ?n. if i \<in> ?D then ?pw i else 0)"
    using sub_power_le(2) [OF assms(1), of "\<lambda>i. re_Hashes f ! i = Some h \<or> re_Hashes g ! i = Some l"] by simp
  also have "(\<Sum>i < ?n. if i \<in> ?D then ?pw i else 0) = (\<Sum>i \<in> ?D. ?pw i)"
    by (intro sum.mono_neutral_cong_right) auto
  finally have "TotalVotingPower vs < 3 * (\<Sum>i \<in> ?D. ?pw i)"
    using reaches_power [OF assms(1) ne h(2)] reaches_power [OF assms(1) ne l(2)] by linarith
  moreover have "\<forall>i \<in> ?D. i < ?n \<and> re_Hashes f ! i = ar_Hash r \<and> re_Hashes g ! i = ar_Hash q \<and>
      signed_vote E v fnID f (vs ! i) i \<and> signed_vote E w fnID' g (vs ! i) i"
    using assms(2,3) by (auto simp: h(1) l(1) aggregate_def valid_votes_def valid_response_def)
  ultimately show ?thesis by blast
qed

theorem conflicting_majorities_accountable_witness:
  "\<exists>D. 30 < 3 * (\<Sum>i \<in> D. fv_VotingPower (demo_vals ! i)) \<and>
    (\<forall>i \<in> D. i < 3 \<and>
       signed_vote demo_fn_env (demo_votes [True, True, True] [7]) ''fn'' (demo_answer [True, True, True] [7]) (demo_vals ! i) i \<and>
       signed_vote demo_fn_env (demo_votes [True, True, True] [8]) ''fn'' (demo_answer [True, True, True] [8]) (demo_vals ! i) i)"
proof -
  let ?f = "\<lambda>h. demo_answer [True, True, True] h" and ?v = "\<lambda>h. demo_votes [True, True, True] h"
  have v: "valid_votes demo_fn_env (?v h) ''default'' demo_vals (\<lambda>_. True) ''fn'' (?f h)" for h
    by (rule demo_valid) simp
  have ne: "Some [] \<notin> set (re_Hashes (?f [7]))" "Some [] \<notin> set (re_Hashes (?f [8]))"
    by (simp_all add: demo_answer_def)
  have maj: "MajResponse (?v [7]) Maj23SigningThreshold demo_vals = Inr (Some (aggregate (?f [7]) [7]))"
    "MajResponse (?v [8]) Maj23SigningThreshold demo_vals = Inr (Some (aggregate (?f [8]) [8]))"
    by code_simp+
  have "ar_Hash (aggregate (?f [7]) [7]) \<noteq> ar_Hash (aggregate (?f [8]) [8])"
    by (simp add: aggregate_def)
  moreover have "length demo_vals = 3" "TotalVotingPower demo_vals = 30"
    by (simp_all add: demo_vals_def TotalVotingPower_def)
  ultimately show ?thesis
    using conflicting_majorities_accountable [OF demo_sane v v ne maj] by metis
qed

text \<open>of the validators that voted for the majority hash exactly one submits it: for every nonce
  there is exactly one validator index whose rank among the agreeing validators is the nonce modulo
  their number.\<close>

theorem one_submitter:
  assumes "0 < NumberOfAgreeVotes r" and "0 \<le> nonce"
  shows "\<exists>!i. i < length (ar_SignatureBitArray r) \<and> AgreeIndex r i \<noteq> -1 \<and>
    nonce mod NumberOfAgreeVotes r = AgreeIndex r i"
proof -
  let ?b = "ar_SignatureBitArray r"
  define m where "m = nat (nonce mod NumberOfAgreeVotes r)"
  have m: "nonce mod NumberOfAgreeVotes r = int m" "int m < NumberOfAgreeVotes r"
    using assms by (simp_all add: m_def)
  then have "m < card {i. i < length ?b \<and> GetIndex ?b i}"
    by (simp add: NumberOfAgreeVotes_card)
  from rank_unique [OF this] show ?thesis
    by (rule ex1E) (auto simp: AgreeIndex_rank m intro!: ex1I split: if_splits)
qed

theorem one_submitter_witness:
  "\<exists>!i. i < 3 \<and> AgreeIndex (aggregate (demo_answer [True, False, True] [7]) [7]) i \<noteq> -1 \<and>
    5 mod 2 = AgreeIndex (aggregate (demo_answer [True, False, True] [7]) [7]) i"
proof -
  let ?r = "aggregate (demo_answer [True, False, True] [7]) [7]"
  have "NumberOfAgreeVotes ?r = 2" "length (ar_SignatureBitArray ?r) = 3"
    by code_simp+
  then show ?thesis using one_submitter [of ?r 5] by simp
qed

end
