(* ===== verification/Fn_Reactor.thy ===== *)
theory Fn_Reactor
  imports Fn_Votes
begin

text \<open>
  The function consensus reactor: \<open>fnConsensus/reactor.go\<close>, its persistent state
  (\<open>ReactorState\<close> of \<open>types.go\<close>, \<open>store.go\<close>), its configuration and the function registry. A node
  votes on its own, adopts and merges the vote sets of its peers, and commits vote sets that have
  converged.

  Every operation that holds \<open>stateMtx\<close> is one step; what it broadcasts and submits is its output.
  The routines collect the functions to work on before they take the lock, so a step may meet any
  state. What a registered function returns, the validators of Tendermint's state, decoded messages
  and the SHA-512 digest are arguments. A panic in a registered function is caught and leaves the
  zero values of the results; a panic anywhere else stops the node and is the error \<open>Panic\<close>.
\<close>

section \<open>State\<close>

record ReactorState =
  rs_CurrentVoteSets :: "string \<rightharpoonup> FnVoteSet"
  rs_CurrentNonces :: "string \<rightharpoonup> int"
  rs_PreviousTimedOutVoteSets :: "string \<rightharpoonup> FnVoteSet"
  rs_PreviousMajVoteSets :: "string \<rightharpoonup> FnVoteSet"
  rs_PreviousValidatorSet :: "validator_set option"

definition NewReactorState :: ReactorState where
  "NewReactorState =
     \<lparr>rs_CurrentVoteSets = Map.empty, rs_CurrentNonces = Map.empty,
      rs_PreviousTimedOutVoteSets = Map.empty, rs_PreviousMajVoteSets = Map.empty,
      rs_PreviousValidatorSet = None\<rparr>"

record reactorStateMarshallable =
  mm_CurrentVoteSets :: "FnVoteSet list"
  mm_CurrentNonces :: "(string \<times> int) list"
  mm_PreviousTimedOutVoteSets :: "FnVoteSet list"
  mm_PreviousMajVoteSets :: "FnVoteSet list"
  mm_PreviousValidatorSet :: "validator_set option"

text \<open>The lists hold the values of the maps in the order in which Go iterates over their keys.\<close>

definition values_in :: "('k \<rightharpoonup> 'v) \<Rightarrow> 'k list \<Rightarrow> 'v list" where
  "values_in m ks = map (\<lambda>k. the (m k)) ks"

definition ReactorState_Marshal ::
    "ReactorState \<Rightarrow> string list \<Rightarrow> string list \<Rightarrow> string list \<Rightarrow> string list \<Rightarrow> reactorStateMarshallable" where
  "ReactorState_Marshal p currentKeys nonceKeys timedOutKeys majKeys =
     \<lparr>mm_CurrentVoteSets = values_in (rs_CurrentVoteSets p) currentKeys,
      mm_CurrentNonces = map (\<lambda>k. (k, the (rs_CurrentNonces p k))) nonceKeys,
      mm_PreviousTimedOutVoteSets = values_in (rs_PreviousTimedOutVoteSets p) timedOutKeys,
      mm_PreviousMajVoteSets = values_in (rs_PreviousMajVoteSets p) majKeys,
      mm_PreviousValidatorSet = rs_PreviousValidatorSet p\<rparr>"

definition index_by_fn :: "FnVoteSet \<Rightarrow> (string \<rightharpoonup> FnVoteSet) \<Rightarrow> (string \<rightharpoonup> FnVoteSet) res" where
  "index_by_fn v m = bind_res (GetFnID v) (\<lambda>fnID. Inr (m(fnID \<mapsto> v)))"

definition ReactorState_Unmarshal :: "reactorStateMarshallable \<Rightarrow> ReactorState res" where
  "ReactorState_Unmarshal m =
     bind_res (fold_res index_by_fn (mm_CurrentVoteSets m) Map.empty) (\<lambda>current.
     bind_res (fold_res index_by_fn (mm_PreviousTimedOutVoteSets m) Map.empty) (\<lambda>timedOut.
     bind_res (fold_res index_by_fn (mm_PreviousMajVoteSets m) Map.empty) (\<lambda>maj.
       Inr \<lparr>rs_CurrentVoteSets = current,
            rs_CurrentNonces = fold (\<lambda>(k, n) f. f(k \<mapsto> n)) (mm_CurrentNonces m) Map.empty,
            rs_PreviousTimedOutVoteSets = timedOut, rs_PreviousMajVoteSets = maj,
            rs_PreviousValidatorSet = mm_PreviousValidatorSet m\<rparr>)))"

section \<open>Configuration and registry\<close>

record OverrideValidator =
  ov_Address :: bytes
  ov_VotingPower :: int

record ReactorConfig =
  rcf_FnVoteSigningThreshold :: string
  rcf_OverrideValidators :: "OverrideValidator list"

text \<open>\<open>hex\<close> is \<open>hex.DecodeString\<close>; a configuration entry is the address text and the power.\<close>

definition parse_override ::
    "(string \<Rightarrow> bytes res) \<Rightarrow> string \<times> int \<Rightarrow> OverrideValidator list \<Rightarrow> OverrideValidator list res" where
  "parse_override hex entry acc =
     (case entry of (text, votingPower) \<Rightarrow>
      bind_res (case hex (if take 2 text = ''0x'' then drop 2 text else text) of
          Inl _ \<Rightarrow> Inl (Err ''unable to parse override validator's address'')
        | Inr a \<Rightarrow> Inr a) (\<lambda>address.
        if votingPower \<le> 0 then Inl (Err ''override validator's voting power need to be greater than zero'')
        else Inr (acc @ [\<lparr>ov_Address = address, ov_VotingPower = votingPower\<rparr>])))"

definition ReactorConfig_Parse ::
    "(string \<Rightarrow> bytes res) \<Rightarrow> (string \<times> (string \<times> int) list) option \<Rightarrow> ReactorConfig res" where
  "ReactorConfig_Parse hex r =
     (case r of
        None \<Rightarrow> Inl (Err ''parsable configuration cant be nil'')
      | Some (threshold, overrides) \<Rightarrow>
          if \<not> known_threshold threshold then Inl (Err ''unknown signing threshold specified'')
          else bind_res (fold_res (parse_override hex) overrides []) (\<lambda>vs.
            Inr \<lparr>rcf_FnVoteSigningThreshold = threshold, rcf_OverrideValidators = vs\<rparr>))"

definition ErrFnIDIsTaken :: go_error where "ErrFnIDIsTaken = Err ''FnID is already used by another Fn Object''"
definition ErrFnObjCantNil :: go_error where "ErrFnObjCantNil = Err ''FnObj cant be nil''"

definition FnRegistry_Get :: "(string \<rightharpoonup> 'f) \<Rightarrow> string \<Rightarrow> 'f option" where
  "FnRegistry_Get fnMap fnID = fnMap fnID"

definition FnRegistry_Set :: "(string \<rightharpoonup> 'f) \<Rightarrow> string \<Rightarrow> 'f option \<Rightarrow> (string \<rightharpoonup> 'f) res" where
  "FnRegistry_Set fnMap fnID fnObj =
     (case fnObj of
        None \<Rightarrow> Inl ErrFnObjCantNil
      | Some f \<Rightarrow> if fnMap fnID \<noteq> None then Inl ErrFnIDIsTaken else Inr (fnMap(fnID \<mapsto> f)))"

definition NewFnExecutionRequest :: "(string \<Rightarrow> bool) \<Rightarrow> string \<Rightarrow> string res" where
  "NewFnExecutionRequest registered fnID =
     (if registered fnID then Inr fnID
      else Inl (Err ''unable to create FnExecutionRequest as id is invalid''))"

section \<open>The reactor\<close>

record fn_config =
  fc_env :: fn_env
  fc_chainID :: string
  fc_threshold :: string
  fc_registered :: "string \<Rightarrow> bool"
  fc_myAddress :: bytes
  fc_sign :: "bytes \<Rightarrow> slice res"
  fc_sha512 :: "bytes \<Rightarrow> bytes"

record fn_reactor =
  fr_state :: ReactorState
  fr_saved :: "ReactorState option"

datatype fn_channel = FnVoteSetChannel | FnMajChannel

datatype fn_output =
    Broadcast fn_channel "string option" FnVoteSet
  | Submit string slice "slice list"

definition SaveReactorState :: "fn_reactor \<Rightarrow> fn_reactor" where
  "SaveReactorState R = R\<lparr>fr_saved := Some (fr_state R)\<rparr>"

definition LoadReactorState :: "fn_reactor \<Rightarrow> fn_reactor" where
  "LoadReactorState R =
     R\<lparr>fr_state := (case fr_saved R of None \<Rightarrow> NewReactorState | Some s \<Rightarrow> s)\<rparr>"

text \<open>The index of an address in a validator set, as \<open>GetByAddress\<close> finds it.\<close>

fun GetByAddress :: "validator_set \<Rightarrow> bytes \<Rightarrow> nat option" where
  "GetByAddress [] a = None"
| "GetByAddress (v # vs) a = (if fv_Address v = a then Some 0 else map_option Suc (GetByAddress vs a))"

definition areWeValidator :: "fn_config \<Rightarrow> validator_set \<Rightarrow> nat option" where
  "areWeValidator C vs = GetByAddress vs (fc_myAddress C)"

definition override_validator ::
    "validator_set \<Rightarrow> OverrideValidator \<Rightarrow> fn_validator list \<Rightarrow> fn_validator list res" where
  "override_validator tm ov acc =
     (case GetByAddress tm (ov_Address ov) of
        None \<Rightarrow> Inl (Err ''validator specified in override config, doesnt exist in TM validator set'')
      | Some i \<Rightarrow> Inr (acc @ [tm ! i]))"

text \<open>\<open>initValidatorSet\<close> keeps the power of the Tendermint validator, not the configured one;
  \<open>types.NewValidatorSet\<close> sorts by address.\<close>

definition initValidatorSet ::
    "(fn_validator list \<Rightarrow> validator_set) \<Rightarrow> OverrideValidator list \<Rightarrow> validator_set \<Rightarrow> validator_set option res" where
  "initValidatorSet newSet overrides tm =
     (if overrides = [] then Inr None
      else bind_res (fold_res (override_validator tm) overrides []) (\<lambda>vs. Inr (Some (newSet vs))))"

definition getValidatorSet :: "validator_set option \<Rightarrow> validator_set \<Rightarrow> validator_set" where
  "getValidatorSet static tm = (case static of None \<Rightarrow> tm | Some vs \<Rightarrow> vs)"

definition safeGetMessageAndSignature :: "(slice \<times> slice) res \<Rightarrow> (slice \<times> slice) res" where
  "safeGetMessageAndSignature r = (case r of Inl (Panic _) \<Rightarrow> Inr (None, None) | _ \<Rightarrow> r)"

definition safeMapMessage :: "unit res \<Rightarrow> unit res" where
  "safeMapMessage r = (case r of Inl (Panic _) \<Rightarrow> Inr () | _ \<Rightarrow> r)"

definition calculateMessageHash :: "fn_config \<Rightarrow> slice \<Rightarrow> slice" where
  "calculateMessageHash C message = Some (fc_sha512 C (slice_bytes message))"

definition current_nonce :: "ReactorState \<Rightarrow> string \<Rightarrow> int" where
  "current_nonce s fnID = (case rs_CurrentNonces s fnID of None \<Rightarrow> 1 | Some n \<Rightarrow> n)"

text \<open>
  A node votes on its own. An error of the function or of the new vote set is logged; the step
  then changes nothing.
\<close>

definition fn_vote ::
    "fn_config \<Rightarrow> string \<Rightarrow> validator_set \<Rightarrow> nat \<Rightarrow> (slice \<times> slice) res \<Rightarrow> unit res \<Rightarrow> fn_reactor
      \<Rightarrow> (fn_reactor \<times> fn_output list) res" where
  "fn_vote C fnID vals validatorIndex fnResult mapResult R =
     (case safeGetMessageAndSignature fnResult of
        Inl _ \<Rightarrow> Inr (R, [])
      | Inr (message, signature) \<Rightarrow>
      case safeMapMessage mapResult of
        Inl _ \<Rightarrow> Inr (R, [])
      | Inr _ \<Rightarrow>
      case NewFnExecutionRequest (fc_registered C) fnID of
        Inl _ \<Rightarrow> Inr (R, [])
      | Inr request \<Rightarrow>
          bind_res (NewFnExecutionResponse
              \<lparr>ir_Hash = calculateMessageHash C message, ir_OracleSignature = signature\<rparr> validatorIndex vals)
            (\<lambda>response.
          case NewVoteSet (fc_env C) (current_nonce (fr_state R) fnID) (fc_chainID C) validatorIndex
              \<lparr>pl_Request = Some request, pl_Response = Some response\<rparr> (fc_sign C) vals of
            Inl (Panic m) \<Rightarrow> Inl (Panic m)
          | Inl _ \<Rightarrow> Inr (R, [])
          | Inr voteSet \<Rightarrow>
              bind_res (MajResponse voteSet (fc_threshold C) vals) (\<lambda>aggregate.
                case aggregate of
                  Some r \<Rightarrow> Inr (R, [Submit fnID (ar_Hash r) (ar_OracleSignatures r)])
                | None \<Rightarrow>
                    let s = fr_state R;
                        s' = s\<lparr>rs_CurrentVoteSets := (rs_CurrentVoteSets s)(fnID \<mapsto> voteSet)\<rparr>
                    in Inr (SaveReactorState (R\<lparr>fr_state := s'\<rparr>), [Broadcast FnVoteSetChannel None voteSet]))))"

text \<open>The result of \<open>IsValid\<close> as the callers use it: only whether there was an error matters.\<close>

definition valid_check :: "unit res \<Rightarrow> bool res" where
  "valid_check r = (case r of Inl (Panic m) \<Rightarrow> Inl (Panic m) | Inl _ \<Rightarrow> Inr False | Inr _ \<Rightarrow> Inr True)"

definition majority_submission ::
    "fn_config \<Rightarrow> string \<Rightarrow> validator_set \<Rightarrow> int \<Rightarrow> FnVoteSet \<Rightarrow> fn_output list res" where
  "majority_submission C fnID vals currentNonce voteSet =
     (case areWeValidator C vals of
        None \<Rightarrow> Inr []
      | Some ownValidatorIndex \<Rightarrow>
          bind_res (MajResponse voteSet (fc_threshold C) vals) (\<lambda>maj.
            case maj of
              None \<Rightarrow> Inr []
            | Some r \<Rightarrow>
                if AgreeIndex r ownValidatorIndex \<noteq> -1 \<and>
                   go_mod currentNonce (NumberOfAgreeVotes r) = AgreeIndex r ownValidatorIndex
                then Inr [Submit fnID (ar_Hash r) (ar_OracleSignatures r)]
                else Inr []))"

definition fn_commit ::
    "fn_config \<Rightarrow> string \<Rightarrow> validator_set \<Rightarrow> fn_reactor \<Rightarrow> (fn_reactor \<times> fn_output list) res" where
  "fn_commit C fnID vals R =
     (if \<not> fc_registered C fnID then Inr (R, [])
      else
        let s = fr_state R;
            currentNonce = (case rs_CurrentNonces s fnID of None \<Rightarrow> 0 | Some n \<Rightarrow> n)
        in
        bind_res (deref (rs_CurrentVoteSets s fnID)) (\<lambda>currentVoteSet.
        bind_res (valid_check
            (VoteSet_IsValid (fc_env C) currentVoteSet (fc_chainID C) vals (fc_registered C))) (\<lambda>ok.
          if \<not> ok
          then Inr (SaveReactorState
              (R\<lparr>fr_state := s\<lparr>rs_CurrentVoteSets := (rs_CurrentVoteSets s)(fnID := None)\<rparr>\<rparr>), [])
          else
            bind_res (HasConverged currentVoteSet (fc_threshold C) vals) (\<lambda>converged.
              if \<not> converged
              then Inr (SaveReactorState R,
                (case rs_PreviousMajVoteSets s fnID of
                   None \<Rightarrow> []
                 | Some previous \<Rightarrow> [Broadcast FnMajChannel None previous,
                                     Broadcast FnVoteSetChannel None currentVoteSet]))
              else
                bind_res (majority_submission C fnID vals currentNonce currentVoteSet) (\<lambda>out.
                  Inr (SaveReactorState
                    (R\<lparr>fr_state := s\<lparr>rs_CurrentNonces := (rs_CurrentNonces s)(fnID \<mapsto> i64 (currentNonce + 1)),
                        rs_PreviousValidatorSet := Some vals,
                        rs_PreviousMajVoteSets := (rs_PreviousMajVoteSets s)(fnID \<mapsto> currentVoteSet),
                        rs_CurrentVoteSets := (rs_CurrentVoteSets s)(fnID := None)\<rparr>\<rparr>), out))))))"

definition compareFnVoteSets ::
    "fn_config \<Rightarrow> FnVoteSet \<Rightarrow> FnVoteSet option \<Rightarrow> int \<Rightarrow> validator_set \<Rightarrow> int res" where
  "compareFnVoteSets C remote current currentNonce vals =
     (case current of
        None \<Rightarrow>
          if currentNonce = vs_Nonce remote then Inr 1
          else bind_res (HasConverged remote (fc_threshold C) vals) (\<lambda>c. Inr (if c then 1 else -1))
      | Some cur \<Rightarrow>
          if vs_Nonce cur = vs_Nonce remote then Inr 0
          else
            bind_res (HasConverged cur (fc_threshold C) vals) (\<lambda>curConv.
            bind_res (HasConverged remote (fc_threshold C) vals) (\<lambda>remConv.
              if curConv \<and> \<not> remConv then Inr (-1)
              else if \<not> curConv \<and> remConv then Inr 1
              else if \<not> curConv \<and> \<not> remConv then Inr (-1)
              else if NumberOfVotes remote < NumberOfVotes cur then Inr (-1)
              else if NumberOfVotes remote > NumberOfVotes cur then Inr 1
              else
                bind_res (MajResponse cur (fc_threshold C) vals) (\<lambda>curMaj.
                bind_res (MajResponse remote (fc_threshold C) vals) (\<lambda>remMaj.
                  case (curMaj, remMaj) of
                    (Some _, None) \<Rightarrow> Inr (-1)
                  | (None, Some _) \<Rightarrow> Inr 1
                  | (None, None) \<Rightarrow> Inr (-1)
                  | (Some c, Some r) \<Rightarrow>
                      if NumberOfAgreeVotes r < NumberOfAgreeVotes c then Inr (-1)
                      else if NumberOfAgreeVotes r > NumberOfAgreeVotes c then Inr 1
                      else Inr (-1))))))"

text \<open>A vote set of a majority: its nonce is settled, so the node moves on to the next one.\<close>

definition signers_of ::
    "fn_config \<Rightarrow> FnVoteSet \<Rightarrow> validator_set \<Rightarrow> validator_set option \<Rightarrow> validator_set option res" where
  "signers_of C remote vals previous =
     bind_res (valid_check (VoteSet_IsValid (fc_env C) remote (fc_chainID C) vals (fc_registered C))) (\<lambda>ok.
       if ok then Inr (Some vals)
       else case previous of
           None \<Rightarrow> Inr None
         | Some pv \<Rightarrow>
             bind_res (valid_check (VoteSet_IsValid (fc_env C) remote (fc_chainID C) pv (fc_registered C)))
               (\<lambda>ok'. Inr (if ok' then Some pv else None)))"

definition settle_majority :: "FnVoteSet \<Rightarrow> string \<Rightarrow> validator_set \<Rightarrow> fn_reactor \<Rightarrow> fn_reactor \<times> fn_output list" where
  "settle_majority remote fnID signers R =
     (let s = fr_state R;
          adopted = s\<lparr>rs_PreviousMajVoteSets := (rs_PreviousMajVoteSets s)(fnID \<mapsto> remote),
                      rs_PreviousValidatorSet := Some signers\<rparr>
      in if vs_Nonce remote < current_nonce s fnID
         then (SaveReactorState (R\<lparr>fr_state :=
                 (if vs_Nonce remote = i64 (current_nonce s fnID - 1) \<and> rs_PreviousMajVoteSets s fnID = None
                  then adopted else s)\<rparr>), [])
         else (SaveReactorState (R\<lparr>fr_state :=
                 adopted\<lparr>rs_CurrentNonces := (rs_CurrentNonces s)(fnID \<mapsto> i64 (vs_Nonce remote + 1)),
                         rs_CurrentVoteSets := (rs_CurrentVoteSets s)(fnID := None)\<rparr>\<rparr>),
               [Broadcast FnMajChannel None remote]))"

definition handleMaj23VoteSetChannel ::
    "fn_config \<Rightarrow> validator_set \<Rightarrow> FnVoteSet res \<Rightarrow> fn_reactor \<Rightarrow> (fn_reactor \<times> fn_output list) res" where
  "handleMaj23VoteSetChannel C vals msg R =
     (case msg of
        Inl _ \<Rightarrow> Inr (R, [])
      | Inr remote \<Rightarrow>
          bind_res (signers_of C remote vals (rs_PreviousValidatorSet (fr_state R))) (\<lambda>signers.
            case signers of
              None \<Rightarrow> Inr (R, [])
            | Some sv \<Rightarrow>
                bind_res (GetFnID remote) (\<lambda>fnID.
                bind_res (HasConverged remote (fc_threshold C) sv) (\<lambda>converged.
                  if \<not> converged then Inr (R, [])
                  else Inr (settle_majority remote fnID sv R)))))"

definition put_voteset :: "string \<Rightarrow> FnVoteSet \<Rightarrow> fn_reactor \<Rightarrow> fn_reactor" where
  "put_voteset fnID v R =
     R\<lparr>fr_state := (fr_state R)\<lparr>rs_CurrentVoteSets := (rs_CurrentVoteSets (fr_state R))(fnID \<mapsto> v)\<rparr>\<rparr>"

text \<open>The end of the handler: the node adds its own vote if it has not voted, and announces a
  changed vote set, not to its sender unless the node added something.\<close>

definition contribute ::
    "fn_config \<Rightarrow> string \<Rightarrow> string \<Rightarrow> validator_set \<Rightarrow> (slice \<times> slice) res \<Rightarrow> unit res \<Rightarrow> FnVoteSet \<Rightarrow> int
      \<Rightarrow> bool \<Rightarrow> bool \<Rightarrow> fn_reactor \<Rightarrow> (fn_reactor \<times> fn_output list) res" where
  "contribute C peer fnID vals fnResult mapResult v nonce didWeContribute changed R =
     (case areWeValidator C vals of
        Some i \<Rightarrow>
          if HaveWeAlreadySigned v i
          then Inr (R, if changed
                 then [Broadcast FnVoteSetChannel (if didWeContribute then None else Some peer) v] else [])
          else
            (case safeGetMessageAndSignature fnResult of
               Inl _ \<Rightarrow> Inr (R, [])
             | Inr (message, signature) \<Rightarrow>
                 case safeMapMessage mapResult of
                   Inl _ \<Rightarrow> Inr (R, [])
                 | Inr _ \<Rightarrow>
                     case AddVote (fc_env C) v nonce
                         \<lparr>ir_Hash = calculateMessageHash C message, ir_OracleSignature = signature\<rparr>
                         vals i (fc_sign C) of
                       (Inl (Panic m), _) \<Rightarrow> Inl (Panic m)
                     | (Inl _, v') \<Rightarrow> Inr (put_voteset fnID v' R, [])
                     | (Inr _, v') \<Rightarrow> Inr (put_voteset fnID v' R, [Broadcast FnVoteSetChannel None v']))
      | None \<Rightarrow>
          Inr (R, if changed
             then [Broadcast FnVoteSetChannel (if didWeContribute then None else Some peer) v] else []))"

definition handleVoteSetChannelMessage ::
    "fn_config \<Rightarrow> string \<Rightarrow> validator_set \<Rightarrow> (slice \<times> slice) res \<Rightarrow> unit res \<Rightarrow> FnVoteSet res \<Rightarrow> fn_reactor
      \<Rightarrow> (fn_reactor \<times> fn_output list) res" where
  "handleVoteSetChannelMessage C peer vals fnResult mapResult msg R =
     (case msg of
        Inl _ \<Rightarrow> Inr (R, [])
      | Inr remote \<Rightarrow>
          bind_res (GetFnID remote) (\<lambda>fnID.
          bind_res (valid_check (VoteSet_IsValid (fc_env C) remote (fc_chainID C) vals (fc_registered C))) (\<lambda>ok.
            if \<not> ok then Inr (R, [])
            else
              let s = fr_state R;
                  currentNonce = current_nonce s fnID;
                  R1 = R\<lparr>fr_state := s\<lparr>rs_CurrentNonces := (rs_CurrentNonces s)(fnID \<mapsto> currentNonce)\<rparr>\<rparr>;
                  currentVoteSet = rs_CurrentVoteSets s fnID
              in if currentNonce > vs_Nonce remote then Inr (R1, [])
              else
                bind_res (compareFnVoteSets C remote currentVoteSet currentNonce vals) (\<lambda>c.
                  if c = 0
                  then bind_res (deref currentVoteSet) (\<lambda>cur.
                    case VoteSet_Merge vals cur remote of
                      Inl (Panic m) \<Rightarrow> Inl (Panic m)
                    | Inl _ \<Rightarrow> Inr (R1, [])
                    | Inr (merged, v) \<Rightarrow>
                        contribute C peer fnID vals fnResult mapResult v currentNonce merged merged
                          (put_voteset fnID v R1))
                  else if c = 1
                  then
                    let s1 = (fr_state R1)\<lparr>rs_CurrentNonces := (rs_CurrentNonces s)(fnID \<mapsto> vs_Nonce remote)\<rparr>
                    in contribute C peer fnID vals fnResult mapResult remote (vs_Nonce remote) False True
                         (put_voteset fnID remote (R1\<lparr>fr_state := s1\<rparr>))
                  else (case currentVoteSet of
                      None \<Rightarrow> Inr (R1, [])
                    | Some cur \<Rightarrow>
                        contribute C peer fnID vals fnResult mapResult cur currentNonce False False R1)))))"

text \<open>
  The routines pick the functions under the lock and work on them one after the other. \<open>fnIDs\<close> is
  what the registry lists, sorted; \<open>fnResults\<close> is what each function returns.
\<close>

definition commitRoutine_round ::
    "fn_config \<Rightarrow> string list \<Rightarrow> validator_set \<Rightarrow> fn_reactor \<Rightarrow> (fn_reactor \<times> fn_output list) res" where
  "commitRoutine_round C fnIDs vals R =
     fold_res (\<lambda>fnID (R, out). bind_res (fn_commit C fnID vals R) (\<lambda>(R', new). Inr (R', out @ new)))
       (filter (\<lambda>fnID. rs_CurrentVoteSets (fr_state R) fnID \<noteq> None) fnIDs) (R, [])"

definition voteRoutine_round ::
    "fn_config \<Rightarrow> string list \<Rightarrow> (string \<Rightarrow> (slice \<times> slice) res \<times> unit res) \<Rightarrow> validator_set \<Rightarrow> fn_reactor
      \<Rightarrow> (fn_reactor \<times> fn_output list) res" where
  "voteRoutine_round C fnIDs fnResults vals R =
     (case areWeValidator C vals of
        None \<Rightarrow> Inr (R, [])
      | Some i \<Rightarrow>
          fold_res (\<lambda>fnID (R, out).
              bind_res (fn_vote C fnID vals i (fst (fnResults fnID)) (snd (fnResults fnID)) R) (\<lambda>(R', new).
                Inr (R', out @ new)))
            (filter (\<lambda>fnID. rs_CurrentVoteSets (fr_state R) fnID = None) fnIDs) (R, []))"

text \<open>The connected peers, and the peers that a broadcast is sent to.\<close>

definition AddPeer :: "string \<Rightarrow> string list \<Rightarrow> string list" where
  "AddPeer peer peers = List.insert peer peers"

definition RemovePeer :: "string \<Rightarrow> string list \<Rightarrow> string list" where
  "RemovePeer peer peers = removeAll peer peers"

definition broadcastMsgSync :: "string list \<Rightarrow> string option \<Rightarrow> string list" where
  "broadcastMsgSync peers exception = filter (\<lambda>p. exception \<noteq> Some p) peers"

section \<open>Steps\<close>

text \<open>
  What is asked of the surroundings: the signer of the node signs for the validator with its
  address, digests are not empty, decoded byte slices are nil rather than empty, and a registered
  function returns a signature or an error.
\<close>

definition node_ok :: "fn_config \<Rightarrow> validator_set \<Rightarrow> bool" where
  "node_ok C vals \<longleftrightarrow>
     sane vals \<and> known_threshold (fc_threshold C) \<and> (\<forall>m. fc_sha512 C m \<noteq> []) \<and>
     (\<forall>i. areWeValidator C vals = Some i \<longrightarrow> signs_for (fc_env C) (fc_sign C) (vals ! i))"

definition decoded :: "FnVoteSet \<Rightarrow> bool" where
  "decoded v \<longleftrightarrow>
     (\<forall>p f. vs_Payload v = Some p \<longrightarrow> pl_Response p = Some f \<longrightarrow> Some [] \<notin> set (re_Hashes f))"

definition answers :: "(slice \<times> slice) res \<Rightarrow> bool" where
  "answers r \<longleftrightarrow> (\<forall>m. r \<noteq> Inl (Panic m)) \<and> (\<forall>m s. r = Inr (m, s) \<longrightarrow> s \<noteq> None)"

inductive fn_step ::
    "fn_config \<Rightarrow> validator_set \<Rightarrow> fn_reactor \<Rightarrow> fn_output list \<Rightarrow> fn_reactor \<Rightarrow> bool"
  for C :: fn_config and vals :: validator_set where
  votes: "areWeValidator C vals = Some i \<Longrightarrow> answers fnResult \<Longrightarrow>
    fn_vote C fnID vals i fnResult mapResult R = Inr (R', out) \<Longrightarrow> fn_step C vals R out R'"
| commits: "fn_commit C fnID vals R = Inr (R', out) \<Longrightarrow> fn_step C vals R out R'"
| receives_votes: "answers fnResult \<Longrightarrow> (\<forall>v. msg = Inr v \<longrightarrow> decoded v) \<Longrightarrow>
    handleVoteSetChannelMessage C peer vals fnResult mapResult msg R = Inr (R', out) \<Longrightarrow>
    fn_step C vals R out R'"
| receives_majority: "(\<forall>v. msg = Inr v \<longrightarrow> decoded v \<and> vs_Nonce v < 2 ^ 63 - 1) \<Longrightarrow>
    handleMaj23VoteSetChannel C vals msg R = Inr (R', out) \<Longrightarrow> fn_step C vals R out R'"

inductive fn_reachable :: "fn_config \<Rightarrow> validator_set \<Rightarrow> fn_reactor \<Rightarrow> bool"
  for C :: fn_config and vals :: validator_set where
  fn_init: "fn_reachable C vals \<lparr>fr_state = NewReactorState, fr_saved = None\<rparr>"
| fn_next: "fn_reachable C vals R \<Longrightarrow> fn_step C vals R out R' \<Longrightarrow> fn_reachable C vals R'"

text \<open>
  Runs in which the validators change: every step is made under the validator set of its moment.
\<close>

inductive fn_history :: "fn_config \<Rightarrow> fn_reactor \<Rightarrow> bool" for C :: fn_config where
  history_init: "fn_history C \<lparr>fr_state = NewReactorState, fr_saved = None\<rparr>"
| history_next: "fn_history C R \<Longrightarrow> node_ok C vals \<Longrightarrow> fn_step C vals R out R' \<Longrightarrow> fn_history C R'"

lemma reachable_history: "fn_reachable C vals R \<Longrightarrow> node_ok C vals \<Longrightarrow> fn_history C R"
  by (induction rule: fn_reachable.induct) (auto intro: fn_history.intros)

section \<open>The invariant of the state\<close>

definition voteset_ok :: "fn_config \<Rightarrow> validator_set \<Rightarrow> string \<Rightarrow> int \<Rightarrow> FnVoteSet \<Rightarrow> bool" where
  "voteset_ok C vals fnID n v \<longleftrightarrow>
     vs_Nonce v = n \<and>
     (\<exists>f. valid_votes (fc_env C) v (fc_chainID C) vals (fc_registered C) fnID f \<and> Some [] \<notin> set (re_Hashes f))"

definition reactor_ok :: "fn_config \<Rightarrow> validator_set \<Rightarrow> ReactorState \<Rightarrow> bool" where
  "reactor_ok C vals s \<longleftrightarrow>
     (\<forall>fnID v. rs_CurrentVoteSets s fnID = Some v \<longrightarrow> voteset_ok C vals fnID (current_nonce s fnID) v)"

lemma reactor_okD:
  "reactor_ok C vals s \<Longrightarrow> rs_CurrentVoteSets s fnID = Some v \<Longrightarrow>
     voteset_ok C vals fnID (current_nonce s fnID) v"
  by (simp add: reactor_ok_def)

lemma reactor_ok_update:
  assumes "reactor_ok C vals s" and "\<And>x. x \<noteq> fnID \<Longrightarrow> rs_CurrentVoteSets s' x = rs_CurrentVoteSets s x"
    and "\<And>x. x \<noteq> fnID \<Longrightarrow> current_nonce s' x = current_nonce s x"
    and "\<And>v. rs_CurrentVoteSets s' fnID = Some v \<Longrightarrow> voteset_ok C vals fnID (current_nonce s' fnID) v"
  shows "reactor_ok C vals s'"
  unfolding reactor_ok_def
proof (intro allI impI)
  fix x v
  assume "rs_CurrentVoteSets s' x = Some v"
  with assms show "voteset_ok C vals x (current_nonce s' x) v"
    by (cases "x = fnID") (auto simp: reactor_ok_def)
qed

lemma reactor_ok_same:
  "reactor_ok C vals s \<Longrightarrow> rs_CurrentVoteSets s' = rs_CurrentVoteSets s \<Longrightarrow>
     current_nonce s' = current_nonce s \<Longrightarrow> reactor_ok C vals s'"
  by (simp add: reactor_ok_def)

lemma fr_saved_state [simp]: "fr_state (SaveReactorState R) = fr_state R"
  by (simp add: SaveReactorState_def)

lemma put_voteset_state [simp]:
  "rs_CurrentVoteSets (fr_state (put_voteset fnID v R)) = (rs_CurrentVoteSets (fr_state R))(fnID \<mapsto> v)"
  "rs_CurrentNonces (fr_state (put_voteset fnID v R)) = rs_CurrentNonces (fr_state R)"
  "current_nonce (fr_state (put_voteset fnID v R)) = current_nonce (fr_state R)"
  by (simp_all add: put_voteset_def current_nonce_def fun_eq_iff)

lemma current_nonce_stored [simp]:
  "current_nonce (s\<lparr>rs_CurrentNonces := (rs_CurrentNonces s)(x \<mapsto> current_nonce s x)\<rparr>) = current_nonce s"
  by (auto simp: current_nonce_def fun_eq_iff)

lemma current_nonce_set:
  "current_nonce (s\<lparr>rs_CurrentNonces := (rs_CurrentNonces s)(x \<mapsto> k)\<rparr>) y =
     (if y = x then k else current_nonce s y)"
  by (simp add: current_nonce_def)

lemma reactor_ok_put:
  "reactor_ok C vals (fr_state R) \<Longrightarrow> voteset_ok C vals fnID (current_nonce (fr_state R) fnID) v \<Longrightarrow>
     reactor_ok C vals (fr_state (put_voteset fnID v R))"
  by (erule reactor_ok_update [where fnID = fnID]) auto

lemma GetByAddress_Some:
  "GetByAddress vs a = Some i \<Longrightarrow> i < length vs \<and> fv_Address (vs ! i) = a"
  by (induction vs arbitrary: i) (auto split: if_splits)

lemma areWeValidator_Some: "areWeValidator C vals = Some i \<Longrightarrow> i < length vals"
  unfolding areWeValidator_def by (drule GetByAddress_Some) simp

lemma node_okD:
  assumes "node_ok C vals"
  shows "sane vals" and "known_threshold (fc_threshold C)" and "fc_sha512 C m \<noteq> []"
    and "areWeValidator C vals = Some i \<Longrightarrow> signs_for (fc_env C) (fc_sign C) (vals ! i)"
  using assms by (simp_all add: node_ok_def)

lemma answers_safe:
  assumes "answers r" and "safeGetMessageAndSignature r = Inr (m, s)"
  shows "s \<noteq> None"
  using assms unfolding answers_def safeGetMessageAndSignature_def
  by (auto split: sum.splits go_error.splits)

lemma valid_check_Inr:
  "valid_check r = Inr b \<Longrightarrow> b \<longleftrightarrow> r = Inr ()"
  by (auto simp: valid_check_def split: sum.splits go_error.splits)

lemma voteset_okE:
  assumes "voteset_ok C vals fnID n v"
  obtains f where "valid_votes (fc_env C) v (fc_chainID C) vals (fc_registered C) fnID f"
    and "Some [] \<notin> set (re_Hashes f)" and "vs_Nonce v = n"
  using assms by (auto simp: voteset_ok_def)

lemma received_ok:
  assumes "node_ok C vals" and "decoded v" and "GetFnID v = Inr fnID"
    and "VoteSet_IsValid (fc_env C) v (fc_chainID C) vals (fc_registered C) = Inr ()"
  shows "voteset_ok C vals fnID (vs_Nonce v) v"
proof -
  from assms(1,4) obtain x f where f: "valid_votes (fc_env C) v (fc_chainID C) vals (fc_registered C) x f"
    using VoteSet_IsValid_iff [OF node_okD(1)] by blast
  with assms(3) have "x = fnID" by (auto simp: valid_votes_def GetFnID_def)
  with f assms(2) show ?thesis by (auto simp: voteset_ok_def valid_votes_def decoded_def)
qed

lemma voteset_ok_FnID: "voteset_ok C vals fnID n v \<Longrightarrow> GetFnID v = Inr fnID"
  by (auto simp: voteset_ok_def valid_votes_def GetFnID_def)

lemma voteset_ok_majority:
  assumes "node_ok C vals" and "voteset_ok C vals fnID n v"
  shows "\<exists>r. MajResponse v (fc_threshold C) vals = Inr r"
    and "\<exists>b. HasConverged v (fc_threshold C) vals = Inr b"
proof -
  obtain f where f: "valid_votes (fc_env C) v (fc_chainID C) vals (fc_registered C) fnID f"
    "Some [] \<notin> set (re_Hashes f)"
    using assms(2) by (rule voteset_okE)
  then have "valid_response f (length vals)" by (simp add: valid_votes_def)
  from ToMajResponse_spec [OF node_okD(1) [OF assms(1)] this f(2) node_okD(2) [OF assms(1)]] f(1)
  show "\<exists>r. MajResponse v (fc_threshold C) vals = Inr r"
    by (simp add: MajResponse_def valid_votes_def)
  show "\<exists>b. HasConverged v (fc_threshold C) vals = Inr b"
    using node_okD(2) [OF assms(1)] by (auto simp: HasConverged_def known_threshold_def)
qed

text \<open>What a submission carries: the signatures of validators with enough power for one hash.\<close>

definition certified :: "fn_config \<Rightarrow> validator_set \<Rightarrow> string \<Rightarrow> slice \<Rightarrow> slice list \<Rightarrow> bool" where
  "certified C vals fnID hash sigs \<longleftrightarrow>
     (\<exists>v f h. valid_votes (fc_env C) v (fc_chainID C) vals (fc_registered C) fnID f \<and> hash = Some h \<and>
        reaches (fc_threshold C) vals (power_for f vals h (length vals)) \<and>
        sigs = map (\<lambda>i. if re_Hashes f ! i = Some h then re_OracleSignatures f ! i else None) [0..<length vals])"

lemma majority_certified:
  assumes "node_ok C vals" and "voteset_ok C vals fnID n v"
    and "MajResponse v (fc_threshold C) vals = Inr (Some r)"
  shows "certified C vals fnID (ar_Hash r) (ar_OracleSignatures r)"
proof -
  obtain f where f: "valid_votes (fc_env C) v (fc_chainID C) vals (fc_registered C) fnID f"
    "Some [] \<notin> set (re_Hashes f)"
    using assms(2) by (rule voteset_okE)
  then have v: "valid_response f (length vals)" "ToMajResponse (fc_threshold C) f vals = Inr (Some r)"
    using assms(3) by (simp_all add: valid_votes_def MajResponse_def)
  obtain h where "r = aggregate f h" "reaches (fc_threshold C) vals (power_for f vals h (length vals))"
    using ToMajResponse_SomeD [OF node_okD(1) [OF assms(1)] v(1) f(2) node_okD(2) [OF assms(1)] v(2)] .
  with f(1) v(1) show ?thesis
    by (auto simp: certified_def aggregate_def valid_response_def)
qed

definition outputs_ok :: "fn_config \<Rightarrow> validator_set \<Rightarrow> fn_output list \<Rightarrow> bool" where
  "outputs_ok C vals out \<longleftrightarrow> (\<forall>fnID h sigs. Submit fnID h sigs \<in> set out \<longrightarrow> certified C vals fnID h sigs)"

lemma outputs_ok_simps [simp]:
  "outputs_ok C vals []"
  "outputs_ok C vals (Broadcast ch x v # out) \<longleftrightarrow> outputs_ok C vals out"
  "outputs_ok C vals (Submit fnID h sigs # out) \<longleftrightarrow> certified C vals fnID h sigs \<and> outputs_ok C vals out"
  by (auto simp: outputs_ok_def)

section \<open>Every step keeps the invariant\<close>

text \<open>What every step does: the state stays valid, submissions are certified, and no nonce goes back.\<close>

definition good_step :: "fn_config \<Rightarrow> validator_set \<Rightarrow> fn_reactor \<Rightarrow> fn_output list \<Rightarrow> fn_reactor \<Rightarrow> bool" where
  "good_step C vals R out R' \<longleftrightarrow>
     reactor_ok C vals (fr_state R') \<and> outputs_ok C vals out \<and>
     (\<forall>fnID. 0 \<le> current_nonce (fr_state R) fnID \<and> current_nonce (fr_state R) fnID < 2 ^ 63 - 1 \<longrightarrow>
        current_nonce (fr_state R) fnID \<le> current_nonce (fr_state R') fnID)"

lemma good_step_refl: "reactor_ok C vals (fr_state R) \<Longrightarrow> good_step C vals R [] R"
  by (simp add: good_step_def)

lemma fn_vote_good:
  assumes ok: "node_ok C vals" and i: "areWeValidator C vals = Some i" and ans: "answers fnResult"
    and R: "reactor_ok C vals (fr_state R)"
    and step: "fn_vote C fnID vals i fnResult mapResult R = Inr (R', out)"
  shows "good_step C vals R out R'"
proof (cases "\<exists>m sig. safeGetMessageAndSignature fnResult = Inr (m, sig) \<and> safeMapMessage mapResult = Inr () \<and>
    fc_registered C fnID")
  case False
  then have "R' = R \<and> out = []"
    using step by (auto simp: fn_vote_def NewFnExecutionRequest_def split: sum.splits prod.splits)
  with R good_step_refl show ?thesis by simp
next
  case True
  then obtain m sig where get: "safeGetMessageAndSignature fnResult = Inr (m, sig)"
    "safeMapMessage mapResult = Inr ()" "fc_registered C fnID" by blast
  let ?r = "\<lparr>ir_Hash = calculateMessageHash C m, ir_OracleSignature = sig\<rparr>"
  have r: "ir_Hash ?r \<noteq> None" "ir_OracleSignature ?r \<noteq> None"
    using answers_safe [OF ans get(1)] by (simp_all add: calculateMessageHash_def)
  obtain f v where fv: "NewFnExecutionResponse ?r i vals = Inr f"
    "NewVoteSet (fc_env C) (current_nonce (fr_state R) fnID) (fc_chainID C) i
       \<lparr>pl_Request = Some fnID, pl_Response = Some f\<rparr> (fc_sign C) vals = Inr v"
    "valid_votes (fc_env C) v (fc_chainID C) vals (fc_registered C) fnID f"
    "vs_Nonce v = current_nonce (fr_state R) fnID"
    using NewVoteSet_valid [OF node_okD(1) [OF ok] areWeValidator_Some [OF i], of "fc_registered C" fnID,
        OF get(3) r node_okD(4) [OF ok i]] .
  have "set (re_Hashes f) \<subseteq> insert (calculateMessageHash C m) {None}"
    using fv(1) areWeValidator_Some [OF i] set_update_subset_insert
    by (fastforce simp: NewFnExecutionResponse_def)
  then have "Some [] \<notin> set (re_Hashes f)"
    using node_okD(3) [OF ok, of "slice_bytes m"] by (auto simp: calculateMessageHash_def)
  with fv have v: "voteset_ok C vals fnID (current_nonce (fr_state R) fnID) v"
    by (auto simp: voteset_ok_def)
  obtain a where a: "MajResponse v (fc_threshold C) vals = Inr a"
    using voteset_ok_majority(1) [OF ok v] by blast
  from step get fv(1,2) a have "(R', out) = (case a of
      Some r \<Rightarrow> (R, [Submit fnID (ar_Hash r) (ar_OracleSignatures r)])
    | None \<Rightarrow> (SaveReactorState (put_voteset fnID v R), [Broadcast FnVoteSetChannel None v]))"
    by (simp add: fn_vote_def NewFnExecutionRequest_def Let_def put_voteset_def split: option.splits)
  then show ?thesis
    using reactor_ok_put [OF R v] R majority_certified [OF ok v] a
    by (cases a) (auto simp: good_step_def)
qed

lemma fn_commit_good:
  assumes ok: "node_ok C vals" and R: "reactor_ok C vals (fr_state R)"
    and step: "fn_commit C fnID vals R = Inr (R', out)"
  shows "good_step C vals R out R'"
proof (cases "fc_registered C fnID")
  case False
  with step R good_step_refl show ?thesis by (auto simp: fn_commit_def)
next
  case True
  let ?s = "fr_state R"
  from step True obtain v where v: "rs_CurrentVoteSets ?s fnID = Some v"
    by (auto simp: fn_commit_def Let_def elim!: bind_resE)
  then have vok: "voteset_ok C vals fnID (current_nonce ?s fnID) v"
    using R by (rule reactor_okD [rotated])
  then obtain f where f: "valid_votes (fc_env C) v (fc_chainID C) vals (fc_registered C) fnID f"
    by (rule voteset_okE)
  then have "valid_check (VoteSet_IsValid (fc_env C) v (fc_chainID C) vals (fc_registered C)) = Inr True"
    using VoteSet_IsValid_iff [OF node_okD(1) [OF ok]] by (force simp: valid_check_def)
  moreover obtain b where b: "HasConverged v (fc_threshold C) vals = Inr b"
    using voteset_ok_majority(2) [OF ok vok] by blast
  ultimately have cases: "(R', out) = (SaveReactorState R, out) \<and> outputs_ok C vals out \<or>
      (\<exists>n. (n = 0 \<and> rs_CurrentNonces ?s fnID = None \<or> rs_CurrentNonces ?s fnID = Some n) \<and>
        majority_submission C fnID vals n v = Inr out \<and>
        R' = SaveReactorState (R\<lparr>fr_state := ?s\<lparr>rs_CurrentNonces := (rs_CurrentNonces ?s)(fnID \<mapsto> i64 (n + 1)),
          rs_PreviousValidatorSet := Some vals,
          rs_PreviousMajVoteSets := (rs_PreviousMajVoteSets ?s)(fnID \<mapsto> v),
          rs_CurrentVoteSets := (rs_CurrentVoteSets ?s)(fnID := None)\<rparr>\<rparr>))"
    using step True v
    by (cases b) (auto simp: fn_commit_def Let_def elim!: bind_resE split: option.splits)
  have "outputs_ok C vals out" if "majority_submission C fnID vals n v = Inr out" for n
    using that majority_certified [OF ok vok]
    by (auto simp: majority_submission_def elim!: bind_resE split: option.splits if_splits)
  moreover have "reactor_ok C vals (?s\<lparr>rs_CurrentNonces := (rs_CurrentNonces ?s)(fnID \<mapsto> k),
      rs_PreviousValidatorSet := p, rs_PreviousMajVoteSets := q,
      rs_CurrentVoteSets := (rs_CurrentVoteSets ?s)(fnID := None)\<rparr>)" for k p q
    by (rule reactor_ok_update [OF R, where fnID = fnID]) (auto simp: current_nonce_def)
  moreover have "0 \<le> n \<Longrightarrow> n < 2 ^ 63 - 1 \<Longrightarrow> i64 (n + 1) = n + 1" for n
    by (intro i64_id) auto
  moreover have "i64 1 = 1" by (simp add: i64_def)
  ultimately show ?thesis
    using cases R by (auto simp: good_step_def current_nonce_def)
qed

lemma settle_majority_good:
  assumes R: "reactor_ok C vals (fr_state R)" and n: "vs_Nonce remote < 2 ^ 63 - 1"
    and step: "settle_majority remote fnID sv R = (R', out)"
  shows "good_step C vals R out R'"
proof -
  let ?s = "fr_state R"
  have same: "reactor_ok C vals (?s\<lparr>rs_PreviousMajVoteSets := q, rs_PreviousValidatorSet := p\<rparr>)" for p q
    by (rule reactor_ok_same [OF R]) (simp_all add: current_nonce_def fun_eq_iff)
  have gone: "reactor_ok C vals (?s\<lparr>rs_PreviousMajVoteSets := q, rs_PreviousValidatorSet := p,
      rs_CurrentNonces := (rs_CurrentNonces ?s)(fnID \<mapsto> k),
      rs_CurrentVoteSets := (rs_CurrentVoteSets ?s)(fnID := None)\<rparr>)" for k p q
    by (rule reactor_ok_update [OF R, where fnID = fnID]) (auto simp: current_nonce_def)
  have "0 \<le> current_nonce ?s fnID \<Longrightarrow> current_nonce ?s fnID \<le> vs_Nonce remote \<Longrightarrow>
      i64 (vs_Nonce remote + 1) = vs_Nonce remote + 1"
    using n by (intro i64_id) auto
  then show ?thesis
    using step R same gone
    by (auto simp: settle_majority_def Let_def good_step_def current_nonce_def split: if_splits)
qed

lemma handleMaj23_good:
  assumes R: "reactor_ok C vals (fr_state R)"
    and msg: "\<forall>v. msg = Inr v \<longrightarrow> decoded v \<and> vs_Nonce v < 2 ^ 63 - 1"
    and step: "handleMaj23VoteSetChannel C vals msg R = Inr (R', out)"
  shows "good_step C vals R out R'"
proof -
  from step have "(R' = R \<and> out = []) \<or>
      (\<exists>remote fnID sv. msg = Inr remote \<and> settle_majority remote fnID sv R = (R', out))"
    by (auto simp: handleMaj23VoteSetChannel_def elim!: bind_resE split: sum.splits option.splits if_splits)
  then show ?thesis
    using R msg good_step_refl settle_majority_good by blast
qed

lemma AddVote_ok:
  assumes ok: "node_ok C vals" and v: "voteset_ok C vals fnID n v" and i: "areWeValidator C vals = Some i"
    and new: "\<not> HaveWeAlreadySigned v i" and sig: "sig \<noteq> None"
  obtains v' where "AddVote (fc_env C) v n \<lparr>ir_Hash = calculateMessageHash C m, ir_OracleSignature = sig\<rparr>
      vals i (fc_sign C) = (Inr (), v')"
    and "voteset_ok C vals fnID n v'"
proof -
  let ?r = "\<lparr>ir_Hash = calculateMessageHash C m, ir_OracleSignature = sig\<rparr>"
  obtain f where f: "valid_votes (fc_env C) v (fc_chainID C) vals (fc_registered C) fnID f"
    "Some [] \<notin> set (re_Hashes f)" "vs_Nonce v = n"
    using v by (rule voteset_okE)
  have il: "i < length vals" using i by (rule areWeValidator_Some)
  have "\<not> vs_VoteBitArray v ! i"
    using new il valid_votes_lengths [OF f(1)] by (simp add: HaveWeAlreadySigned_def GetIndex_nth)
  then obtain v' f' where v': "AddVote (fc_env C) v n ?r vals i (fc_sign C) = (Inr (), v')"
    "valid_votes (fc_env C) v' (fc_chainID C) vals (fc_registered C) fnID f'"
    "f' = f\<lparr>re_OracleSignatures := (re_OracleSignatures f)[i := ir_OracleSignature ?r],
       re_Hashes := (re_Hashes f)[i := ir_Hash ?r],
       re_SignatureBitArray := (re_SignatureBitArray f)[i := True]\<rparr>"
    "vs_Nonce v' = vs_Nonce v"
    using AddVote_valid [OF node_okD(1) [OF ok] f(1) il _ f(3), of ?r "fc_sign C"] sig node_okD(4) [OF ok i]
    by (auto simp: calculateMessageHash_def)
  have "Some [] \<notin> set (re_Hashes f')"
    using f(2) set_update_subset_insert [of "re_Hashes f" i "ir_Hash ?r"] node_okD(3) [OF ok, of "slice_bytes m"]
    by (auto simp: v'(3) calculateMessageHash_def)
  with v' f(3) have "voteset_ok C vals fnID n v'" by (auto simp: voteset_ok_def)
  with v'(1) show thesis by (rule that)
qed

lemma contribute_good:
  assumes ok: "node_ok C vals" and ans: "answers fnResult" and v: "voteset_ok C vals fnID n v"
  shows "\<exists>R' out. contribute C peer fnID vals fnResult mapResult v n d c R = Inr (R', out) \<and> outputs_ok C vals out \<and>
    (R' = R \<or> (\<exists>v'. voteset_ok C vals fnID n v' \<and> R' = put_voteset fnID v' R))"
proof (cases "\<exists>i m sig. areWeValidator C vals = Some i \<and> \<not> HaveWeAlreadySigned v i \<and>
    safeGetMessageAndSignature fnResult = Inr (m, sig) \<and> safeMapMessage mapResult = Inr ()")
  case False
  then show ?thesis
    by (auto simp: contribute_def split: option.splits sum.splits prod.splits)
next
  case True
  then obtain i m sig where i: "areWeValidator C vals = Some i" "\<not> HaveWeAlreadySigned v i"
    "safeGetMessageAndSignature fnResult = Inr (m, sig)" "safeMapMessage mapResult = Inr ()" by blast
  obtain v' where "AddVote (fc_env C) v n \<lparr>ir_Hash = calculateMessageHash C m, ir_OracleSignature = sig\<rparr>
      vals i (fc_sign C) = (Inr (), v')" "voteset_ok C vals fnID n v'"
    using AddVote_ok [OF ok v i(1,2) answers_safe [OF ans i(3)], of m] .
  with i show ?thesis by (auto simp: contribute_def)
qed

lemma contribute_step:
  assumes "node_ok C vals" and "answers fnResult" and "voteset_ok C vals fnID n v"
    and "reactor_ok C vals (fr_state Q)" and "current_nonce (fr_state Q) fnID = n"
  shows "\<exists>R' out. contribute C peer fnID vals fnResult mapResult v n d c Q = Inr (R', out) \<and>
    reactor_ok C vals (fr_state R') \<and> outputs_ok C vals out \<and>
    current_nonce (fr_state R') = current_nonce (fr_state Q)"
  using contribute_good [OF assms(1-3), of peer mapResult d c Q] assms(4,5)
  by (auto intro: reactor_ok_put)

lemma compare_total:
  assumes "node_ok C vals" and "voteset_ok C vals fnID m remote"
    and "\<And>cur. current = Some cur \<Longrightarrow> \<exists>k. voteset_ok C vals fnID k cur"
  obtains c where "compareFnVoteSets C remote current n vals = Inr c"
    and "c = 0 \<longleftrightarrow> (\<exists>cur. current = Some cur \<and> vs_Nonce cur = vs_Nonce remote)"
proof -
  obtain rb rm where r: "HasConverged remote (fc_threshold C) vals = Inr rb"
    "MajResponse remote (fc_threshold C) vals = Inr rm"
    using voteset_ok_majority [OF assms(1,2)] by blast
  have "\<exists>c. compareFnVoteSets C remote current n vals = Inr c \<and>
    (c = 0 \<longleftrightarrow> (\<exists>cur. current = Some cur \<and> vs_Nonce cur = vs_Nonce remote))"
  proof (cases current)
    case None
    then show ?thesis by (simp add: compareFnVoteSets_def r)
  next
    case (Some cur)
    then obtain k where "voteset_ok C vals fnID k cur" using assms(3) by blast
    then obtain cb cm where "HasConverged cur (fc_threshold C) vals = Inr cb"
      "MajResponse cur (fc_threshold C) vals = Inr cm"
      using voteset_ok_majority [OF assms(1)] by blast
    with Some r show ?thesis
      by (auto simp: compareFnVoteSets_def split: option.splits)
  qed
  then show thesis using that by blast
qed

lemma Merge_ok:
  assumes ok: "node_ok C vals" and v: "voteset_ok C vals fnID n v" and a: "voteset_ok C vals fnID n a"
  obtains b v' where "VoteSet_Merge vals v a = Inr (b, v')" and "voteset_ok C vals fnID n v'"
proof -
  obtain f where f: "valid_votes (fc_env C) v (fc_chainID C) vals (fc_registered C) fnID f"
    "Some [] \<notin> set (re_Hashes f)" "vs_Nonce v = n"
    using v by (rule voteset_okE)
  obtain g where g: "valid_votes (fc_env C) a (fc_chainID C) vals (fc_registered C) fnID g"
    "Some [] \<notin> set (re_Hashes g)" "vs_Nonce a = n"
    using a by (rule voteset_okE)
  have nonce: "vs_Nonce v = vs_Nonce a" by (simp add: f(3) g(3))
  show thesis
  proof (rule VoteSet_Merge_pointwise [OF node_okD(1) [OF ok] f(1) g(1) nonce])
    fix v' m
    assume merge: "VoteSet_Merge vals v a =
        Inr (\<exists>i < length vals. \<not> vs_VoteBitArray v ! i \<and> vs_VoteBitArray a ! i, v')"
      and m: "valid_votes (fc_env C) v' (fc_chainID C) vals (fc_registered C) fnID m"
      and n: "vs_Nonce v' = vs_Nonce v"
      and h: "\<And>i. i < length vals \<Longrightarrow>
        re_Hashes m ! i = (if vs_VoteBitArray v ! i then re_Hashes f ! i else re_Hashes g ! i)"
    have "Some [] \<notin> set (re_Hashes m)"
    proof
      assume "Some [] \<in> set (re_Hashes m)"
      then obtain i where "i < length vals" "re_Hashes m ! i = Some []"
        using valid_votes_lengths [OF m] by (auto simp: in_set_conv_nth)
      with h [of i] f(2) g(2) show False
        using valid_votes_lengths [OF f(1)] valid_votes_lengths [OF g(1)]
        by (auto simp: in_set_conv_nth split: if_splits)
    qed
    with m n f(3) have "voteset_ok C vals fnID n v'" by (auto simp: voteset_ok_def)
    with merge show thesis by (rule that)
  qed
qed

text \<open>Receiving a valid vote set: the handler returns, and the step is a good one.\<close>

lemma handleVoteSet_good:
  assumes ok: "node_ok C vals" and ans: "answers fnResult" and R: "reactor_ok C vals (fr_state R)"
    and remote: "voteset_ok C vals fnID (vs_Nonce remote) remote"
  shows "\<exists>R' out. handleVoteSetChannelMessage C peer vals fnResult mapResult (Inr remote) R = Inr (R', out) \<and>
    good_step C vals R out R'"
proof -
  let ?s = "fr_state R" and ?n = "current_nonce (fr_state R) fnID"
  let ?R1 = "R\<lparr>fr_state := ?s\<lparr>rs_CurrentNonces := (rs_CurrentNonces ?s)(fnID \<mapsto> ?n)\<rparr>\<rparr>"
  let ?s2 = "?s\<lparr>rs_CurrentNonces := (rs_CurrentNonces ?s)(fnID \<mapsto> vs_Nonce remote)\<rparr>"
  obtain f where f: "valid_votes (fc_env C) remote (fc_chainID C) vals (fc_registered C) fnID f"
    using remote by (rule voteset_okE)
  then have "VoteSet_IsValid (fc_env C) remote (fc_chainID C) vals (fc_registered C) = Inr ()"
    using VoteSet_IsValid_iff [OF node_okD(1) [OF ok]] by blast
  then have pre: "GetFnID remote = Inr fnID"
    "valid_check (VoteSet_IsValid (fc_env C) remote (fc_chainID C) vals (fc_registered C)) = Inr True"
    using voteset_ok_FnID [OF remote] by (simp_all add: valid_check_def)
  have nonce1: "current_nonce (fr_state ?R1) = current_nonce ?s"
    by simp
  have R1: "reactor_ok C vals (fr_state ?R1)"
    using R by (rule reactor_ok_same) simp_all
  obtain c where c: "compareFnVoteSets C remote (rs_CurrentVoteSets ?s fnID) ?n vals = Inr c"
    "c = 0 \<longleftrightarrow> (\<exists>cur. rs_CurrentVoteSets ?s fnID = Some cur \<and> vs_Nonce cur = vs_Nonce remote)"
    using compare_total [OF ok remote, of "rs_CurrentVoteSets ?s fnID" ?n] reactor_okD [OF R] by blast
  note unfold = handleVoteSetChannelMessage_def pre c(1) Let_def
  consider (old) "vs_Nonce remote < ?n" | (merge) cur where "\<not> vs_Nonce remote < ?n" "c = 0"
      "rs_CurrentVoteSets ?s fnID = Some cur" "vs_Nonce cur = vs_Nonce remote"
    | (adopt) "\<not> vs_Nonce remote < ?n" "c = 1"
    | (keep) "\<not> vs_Nonce remote < ?n" "c \<noteq> 0" "c \<noteq> 1"
    using c(2) by blast
  then show ?thesis
  proof cases
    case old
    then show ?thesis
      using R1 nonce1 by (simp add: unfold good_step_def)
  next
    case merge
    have cur: "voteset_ok C vals fnID ?n cur" using R merge(3) by (rule reactor_okD)
    then have "vs_Nonce remote = ?n" using merge(4) by (simp add: voteset_ok_def)
    with remote have rem: "voteset_ok C vals fnID ?n remote" by simp
    obtain b v where v: "VoteSet_Merge vals cur remote = Inr (b, v)" "voteset_ok C vals fnID ?n v"
      using Merge_ok [OF ok cur rem] .
    have "reactor_ok C vals (fr_state (put_voteset fnID v ?R1))"
      using R1 by (rule reactor_ok_put) (simp add: v(2))
    from contribute_step [OF ok ans v(2) this, of peer mapResult b b] show ?thesis
      using merge v(1) nonce1 by (auto simp: unfold c(1) [unfolded merge(3)] good_step_def)
  next
    case adopt
    have put: "reactor_ok C vals (fr_state (put_voteset fnID remote (R\<lparr>fr_state := ?s2\<rparr>)))"
      by (rule reactor_ok_update [OF R, where fnID = fnID]) (auto simp: current_nonce_def remote)
    have "current_nonce (fr_state (put_voteset fnID remote (R\<lparr>fr_state := ?s2\<rparr>))) fnID = vs_Nonce remote"
      by (simp add: current_nonce_def)
    from contribute_step [OF ok ans remote put this, of peer mapResult False True] show ?thesis
      using adopt by (auto simp: unfold good_step_def current_nonce_set)
  next
    case keep
    show ?thesis
    proof (cases "rs_CurrentVoteSets ?s fnID")
      case None
      with keep R1 nonce1 show ?thesis by (simp add: unfold c(1) [unfolded None] good_step_def)
    next
      case (Some cur)
      have cur: "voteset_ok C vals fnID ?n cur" using R Some by (rule reactor_okD)
      from contribute_step [OF ok ans cur R1, of peer mapResult False False] show ?thesis
        using keep Some nonce1 by (auto simp: unfold c(1) [unfolded Some] good_step_def)
    qed
  qed
qed

lemma handleVoteSet_step:
  assumes "node_ok C vals" and "answers fnResult" and "reactor_ok C vals (fr_state R)"
    and "\<forall>v. msg = Inr v \<longrightarrow> decoded v"
    and "handleVoteSetChannelMessage C peer vals fnResult mapResult msg R = Inr (R', out)"
  shows "good_step C vals R out R'"
proof -
  from assms(5) consider "R' = R" "out = []"
    | remote fnID where "msg = Inr remote" "GetFnID remote = Inr fnID"
        "VoteSet_IsValid (fc_env C) remote (fc_chainID C) vals (fc_registered C) = Inr ()"
    by (auto simp: handleVoteSetChannelMessage_def elim!: bind_resE split: sum.splits if_splits
        dest!: valid_check_Inr)
  then show ?thesis
  proof cases
    case 1
    with assms(3) good_step_refl show ?thesis by simp
  next
    case 2
    then have "voteset_ok C vals fnID (vs_Nonce remote) remote"
      using assms(1,4) by (intro received_ok) auto
    with handleVoteSet_good [OF assms(1-3) this, of peer mapResult] assms(5) 2(1) show ?thesis
      by auto
  qed
qed

lemma fn_step_good:
  assumes "node_ok C vals" and "reactor_ok C vals (fr_state R)" and "fn_step C vals R out R'"
  shows "good_step C vals R out R'"
  using assms(3)
proof cases
  case votes
  with assms show ?thesis by (intro fn_vote_good)
next
  case commits
  with assms show ?thesis by (intro fn_commit_good)
next
  case receives_votes
  with assms show ?thesis by (intro handleVoteSet_step)
next
  case receives_majority
  with assms show ?thesis by (intro handleMaj23_good)
qed

lemma fn_reachable_ok:
  assumes "fn_reachable C vals R" and "node_ok C vals"
  shows "reactor_ok C vals (fr_state R)"
  using assms(1)
proof induction
  case fn_init
  then show ?case by (simp add: reactor_ok_def NewReactorState_def)
next
  case (fn_next R out R')
  with fn_step_good [OF assms(2)] show ?case by (simp add: good_step_def)
qed

section \<open>Vote sets under changing validators\<close>

text \<open>
  A vote set made under other validators can be invalid for the current ones, but the check itself
  never stops the node, and no hash in it is empty.
\<close>

lemma fold_res_no_panic:
  "(\<And>x s. x \<in> set xs \<Longrightarrow> f x s \<noteq> Inl (Panic m)) \<Longrightarrow> fold_res f xs s \<noteq> Inl (Panic m)"
proof (induction xs arbitrary: s)
  case (Cons x xs)
  have x: "f x s \<noteq> Inl (Panic m)" by (rule Cons.prems) simp
  have rest: "fold_res f xs t \<noteq> Inl (Panic m)" for t by (rule Cons.IH) (rule Cons.prems, simp)
  show ?case using x rest by (cases "f x s") simp_all
qed simp

lemma check_vote_no_panic:
  assumes "vs_Payload v = Some \<lparr>pl_Request = Some fnID, pl_Response = Some f\<rparr>"
    and "i < length (re_Hashes f)" "i < length (re_OracleSignatures f)"
    and "i < length (vs_ValidatorAddresses v)" "i < length (vs_ValidatorSignatures v)"
  shows "check_vote E v f (i, val) p \<noteq> Inl (Panic m)"
  using assms VoteSet_SignBytes_vote [OF assms(1-4), of E]
  by (auto simp: check_vote_def VerifyValidatorSign_def verifyInternal_def ErrFnVoteInvalidSignature_def
      ErrFnVoteInvalidValidatorAddress_def ErrFnVoteNotPresent_def split: sum.splits go_error.splits)

lemma Payload_IsValid_no_panic: "Payload_IsValid q vs \<noteq> Inl (Panic m)"
proof -
  have "fold_res (response_entry f) xs () \<noteq> Inl (Panic m)" for f xs
    by (rule fold_res_no_panic) (simp add: response_entry_def)
  then show ?thesis by (auto simp: Payload_IsValid_def Response_IsValid_def split: option.splits)
qed

lemma VoteSet_IsValid_no_panic: "VoteSet_IsValid E v chainID vs registered \<noteq> Inl (Panic m)"
proof
  assume panic: "VoteSet_IsValid E v chainID vs registered = Inl (Panic m)"
  then obtain q where q: "vs_Payload v = Some q"
    by (auto simp: VoteSet_IsValid_def split: if_splits option.splits)
  have valid: "Payload_IsValid q vs = Inr ()"
    using panic q Payload_IsValid_no_panic [of q vs m]
    by (cases "Payload_IsValid q vs") (auto simp: VoteSet_IsValid_def split: if_splits)
  then obtain fnID f where pl: "q = \<lparr>pl_Request = Some fnID, pl_Response = Some f\<rparr>"
    and resp: "valid_response f (length vs)"
    by (cases q) (auto simp: Payload_IsValid_def Response_IsValid_iff split: option.splits)
  have "fold_res (check_vote E v f) (enumerate 0 vs) 0 \<noteq> Inl (Panic m)"
    if "length (vs_ValidatorAddresses v) = length vs" "length (vs_ValidatorSignatures v) = length vs"
    unfolding enumerate_map
  proof (rule fold_res_no_panic)
    fix x t
    assume "x \<in> set (map (\<lambda>i. (i, vs ! i)) [0..<length vs])"
    then obtain i where i: "x = (i, vs ! i)" "i < length vs" by auto
    show "check_vote E v f x t \<noteq> Inl (Panic m)"
      unfolding i(1) using that q pl resp i(2)
      by (intro check_vote_no_panic [where fnID = fnID]) (simp_all add: valid_response_def)
  qed
  then show False
    using panic q pl valid
    by (auto simp: VoteSet_IsValid_def GetFnID_def bind_res_def split: if_splits sum.splits)
qed

lemma valid_check_total: "\<exists>ok. valid_check (VoteSet_IsValid E v chainID vs registered) = Inr ok"
  using VoteSet_IsValid_no_panic [of E v chainID vs registered]
  by (auto simp: valid_check_def split: sum.splits go_error.splits)

definition all_decoded :: "ReactorState \<Rightarrow> bool" where
  "all_decoded s \<longleftrightarrow> (\<forall>fnID v. rs_CurrentVoteSets s fnID = Some v \<longrightarrow> decoded v)"

lemma decoded_payload: "vs_Payload v' = vs_Payload v \<Longrightarrow> decoded v' = decoded v"
  by (simp add: decoded_def)

lemma Response_Merge_hashes:
  assumes "Response_Merge f (Some a) = Inr (ch, f')"
  shows "set (re_Hashes f') \<subseteq> set (re_Hashes f) \<union> set (re_Hashes a)"
proof -
  have loop: "fold_res (response_take a) [0..<length (re_OracleSignatures f)] (False, f) = Inr (ch, f')"
    using assms by (auto simp: Response_Merge_def split: if_splits)
  have "set (re_Hashes (snd (ch, f'))) \<subseteq> set (re_Hashes f) \<union> set (re_Hashes a)"
  proof (rule fold_res_invariant [OF loop])
    fix i st st'
    assume "set (re_Hashes (snd st)) \<subseteq> set (re_Hashes f) \<union> set (re_Hashes a)" and "response_take a i st = Inr st'"
    then show "set (re_Hashes (snd st')) \<subseteq> set (re_Hashes f) \<union> set (re_Hashes a)"
      by (auto simp: response_take_def go_get_def go_put_def split: prod.splits if_splits elim!: bind_resE
          dest!: set_update_subset_insert [THEN subsetD])
  qed auto
  then show ?thesis by simp
qed

lemma Merge_decoded:
  assumes "VoteSet_Merge vals v a = Inr (ch, v')" and "decoded v" and "decoded a"
  shows "decoded v'"
proof -
  obtain p p' c where p: "vs_Payload v = Some p" and m: "Payload_Merge p (vs_Payload a) = Inr (c, p')"
    and loop: "fold_res (voteset_take vals a) [0..<length (vs_VoteBitArray v)] (c, v\<lparr>vs_Payload := Some p'\<rparr>) = Inr (ch, v')"
    using assms(1) by (auto simp: VoteSet_Merge_def split: if_splits elim!: bind_resE)
  have "vs_Payload (snd (ch, v')) = Some p'"
    by (rule fold_res_invariant [OF loop])
      (auto simp: voteset_take_def split: prod.splits if_splits elim!: bind_resE)
  then have v': "vs_Payload v' = Some p'" by simp
  obtain q f g f' where q: "vs_Payload a = Some q" "pl_Response q = Some g" "pl_Response p = Some f"
    "Response_Merge f (Some g) = Inr (c, f')" "p' = p\<lparr>pl_Response := Some f'\<rparr>"
    using m by (auto simp: Payload_Merge_def Response_Merge_def split: option.splits if_splits elim!: bind_resE)
  have "Some [] \<notin> set (re_Hashes f')"
    using Response_Merge_hashes [OF q(4)] assms(2,3) p q(1-3) by (auto simp: decoded_def)
  then show ?thesis by (simp add: decoded_def v' q(5))
qed

lemma AddVote_decoded:
  assumes "AddVote E v n r vals i sign = (res, v')" and "decoded v" and "ir_Hash r \<noteq> Some []"
  shows "decoded v'"
proof -
  have add: "Some [] \<notin> set (re_Hashes f')" if "AddSignature f r i = Inr f'" "Some [] \<notin> set (re_Hashes f)" for f f'
    using that assms(3) set_update_subset_insert [of "re_Hashes f" i "ir_Hash r"]
    by (auto simp: AddSignature_def go_put_def split: if_splits elim!: bind_resE)
  have "vs_Payload v' = vs_Payload v \<or>
      (\<exists>p f f'. vs_Payload v = Some p \<and> pl_Response p = Some f \<and> AddSignature f r i = Inr f' \<and>
         vs_Payload v' = Some (p\<lparr>pl_Response := Some f'\<rparr>))"
    using assms(1) unfolding AddVote_def Let_def
    by (auto split: if_splits sum.split_asm option.split_asm elim!: bind_resE)
  then show ?thesis
    using assms(2) add by (auto simp: decoded_def)
qed

lemma contribute_decoded:
  assumes "contribute C peer fnID vals fnResult mapResult v n c ch R = Inr (R', out)"
    and "all_decoded (fr_state R)" and "decoded v" and "\<And>m. fc_sha512 C m \<noteq> []"
  shows "all_decoded (fr_state R')"
proof -
  have "R' = R \<or> (\<exists>res v' m sg i. AddVote (fc_env C) v n
      \<lparr>ir_Hash = calculateMessageHash C m, ir_OracleSignature = sg\<rparr> vals i (fc_sign C) = (res, v') \<and> R' = put_voteset fnID v' R)"
    using assms(1) unfolding contribute_def
    by (auto split: option.split_asm if_splits sum.split_asm prod.split_asm go_error.split_asm) blast+
  then show ?thesis
  proof (elim disjE exE conjE)
    fix res v' m sg i
    assume a: "AddVote (fc_env C) v n \<lparr>ir_Hash = calculateMessageHash C m, ir_OracleSignature = sg\<rparr> vals i (fc_sign C) = (res, v')"
      and R': "R' = put_voteset fnID v' R"
    have "decoded v'" using a assms(3) by (rule AddVote_decoded) (simp add: calculateMessageHash_def assms(4))
    then show ?thesis using assms(2) by (simp add: R' all_decoded_def)
  qed (use assms(2) in simp)
qed

lemma put_decoded: "all_decoded (fr_state R) \<Longrightarrow> decoded v \<Longrightarrow> all_decoded (fr_state (put_voteset fnID v R))"
  by (simp add: all_decoded_def)

lemma handleVoteSet_decoded:
  assumes step: "handleVoteSetChannelMessage C peer vals fnResult mapResult msg R = Inr (R', out)"
    and R: "all_decoded (fr_state R)" and msg: "\<forall>v. msg = Inr v \<longrightarrow> decoded v" and hash: "\<And>m. fc_sha512 C m \<noteq> []"
  shows "all_decoded (fr_state R')"
proof (cases msg)
  case (Inl e)
  with step R show ?thesis by (simp add: handleVoteSetChannelMessage_def)
next
  case (Inr remote)
  with msg have remote: "decoded remote" by simp
  let ?R = "\<lambda>n. R\<lparr>fr_state := (fr_state R)\<lparr>rs_CurrentNonces := n\<rparr>\<rparr>"
  have base: "all_decoded (fr_state (?R n))" for n using R by (simp add: all_decoded_def)
  have cur: "decoded v" if "rs_CurrentVoteSets (fr_state R) x = Some v" for x v
    using R that by (simp add: all_decoded_def)
  note con = contribute_decoded [OF _ _ _ hash]
  obtain fnID ok where ids: "GetFnID remote = Inr fnID"
      "valid_check (VoteSet_IsValid (fc_env C) remote (fc_chainID C) vals (fc_registered C)) = Inr ok"
    using step unfolding Inr handleVoteSetChannelMessage_def by (auto elim!: bind_resE)
  let ?n = "(rs_CurrentNonces (fr_state R))(fnID \<mapsto> current_nonce (fr_state R) fnID)"
  show ?thesis
  proof (cases "\<not> ok \<or> current_nonce (fr_state R) fnID > vs_Nonce remote")
    case True
    then have "R' = R \<or> R' = ?R ?n"
      using step ids unfolding Inr handleVoteSetChannelMessage_def by (auto simp: Let_def split: if_splits)
    then show ?thesis using R base by blast
  next
    case False
    then obtain c where c: "compareFnVoteSets C remote (rs_CurrentVoteSets (fr_state R) fnID) (current_nonce (fr_state R) fnID) vals = Inr c"
      using step ids unfolding Inr handleVoteSetChannelMessage_def by (auto simp: Let_def elim!: bind_resE)
    note rest = step [unfolded Inr handleVoteSetChannelMessage_def, simplified ids c Let_def, simplified]
    consider "c = 0" | "c = 1" | "c \<noteq> 0" "c \<noteq> 1" by blast
    then show ?thesis
    proof cases
      case 1
      then obtain v where v: "rs_CurrentVoteSets (fr_state R) fnID = Some v"
        using rest False ids c by (auto elim!: bind_resE)
      show ?thesis
      proof (cases "VoteSet_Merge vals v remote")
        case (Inl e)
        then have "R' = ?R ?n" using rest False ids c 1 v by (auto split: go_error.split_asm)
        then show ?thesis using base by simp
      next
        case (Inr mv)
        then obtain m u where mu: "VoteSet_Merge vals v remote = Inr (m, u)" by (cases mv) auto
        have "decoded u" using Merge_decoded [OF mu cur [OF v] remote] .
        moreover have "contribute C peer fnID vals fnResult mapResult u (current_nonce (fr_state R) fnID) m m
            (put_voteset fnID u (?R ?n)) = Inr (R', out)"
          using rest False ids c 1 v mu by simp
        ultimately show ?thesis using con put_decoded [OF base] by blast
      qed
    next
      case 2
      let ?m = "(rs_CurrentNonces (fr_state R))(fnID \<mapsto> vs_Nonce remote)"
      have "contribute C peer fnID vals fnResult mapResult remote (vs_Nonce remote) False True
          (put_voteset fnID remote (?R ?m)) = Inr (R', out)"
        using rest False ids c 2 by simp
      then show ?thesis using con put_decoded [OF base remote] remote by blast
    next
      case 3
      show ?thesis
      proof (cases "rs_CurrentVoteSets (fr_state R) fnID")
        case None
        then have "R' = ?R ?n" using rest False ids c 3 by simp
        then show ?thesis using base by simp
      next
        case (Some v)
        then have "contribute C peer fnID vals fnResult mapResult v (current_nonce (fr_state R) fnID) False False
            (?R ?n) = Inr (R', out)" using rest False ids c 3 by simp
        then show ?thesis using con base cur [OF Some] by blast
      qed
    qed
  qed
qed

lemma fn_vote_decoded:
  assumes "fn_vote C fnID vals i fnResult mapResult R = Inr (R', out)"
    and "all_decoded (fr_state R)" and hash: "\<And>m. fc_sha512 C m \<noteq> []"
  shows "all_decoded (fr_state R')"
proof -
  have new: "decoded v" if "NewFnExecutionResponse \<lparr>ir_Hash = calculateMessageHash C m, ir_OracleSignature = sg\<rparr> i vals = Inr f"
    and "NewVoteSet (fc_env C) n (fc_chainID C) i \<lparr>pl_Request = Some q, pl_Response = Some f\<rparr> (fc_sign C) vals = Inr v" for m sg f n q v
  proof -
    have "set (re_Hashes f) \<subseteq> insert (calculateMessageHash C m) {None}"
      using that(1) set_update_subset_insert
      by (fastforce simp: NewFnExecutionResponse_def go_put_def split: if_splits elim!: bind_resE)
    moreover have "vs_Payload v = Some \<lparr>pl_Request = Some q, pl_Response = Some f\<rparr>"
      using that(2) by (auto simp: NewVoteSet_def Let_def split: if_splits elim!: bind_resE)
    ultimately show ?thesis using hash [of "slice_bytes m"] by (auto simp: decoded_def calculateMessageHash_def)
  qed
  have "R' = R \<or> (\<exists>v. decoded v \<and> R' = SaveReactorState (put_voteset fnID v R))"
    using assms(1) unfolding fn_vote_def Let_def put_voteset_def
    by (auto split: sum.split_asm prod.split_asm go_error.split_asm option.split_asm elim!: bind_resE) (blast dest: new)
  then show ?thesis using assms(2) put_decoded by auto
qed

lemma commit_step_decoded:
  assumes "fn_commit C fnID vals R = Inr (R', out)" and "all_decoded (fr_state R)"
  shows "all_decoded (fr_state R')"
  using assms by (auto simp: fn_commit_def Let_def all_decoded_def split: if_splits elim!: bind_resE)

lemma handleMaj23_decoded:
  assumes "handleMaj23VoteSetChannel C vals msg R = Inr (R', out)" and "all_decoded (fr_state R)"
  shows "all_decoded (fr_state R')"
  using assms
  by (auto simp: handleMaj23VoteSetChannel_def settle_majority_def Let_def all_decoded_def
      elim!: bind_resE split: sum.splits option.splits if_splits)

lemma fn_history_decoded: "fn_history C R \<Longrightarrow> all_decoded (fr_state R)"
proof (induction rule: fn_history.induct)
  case history_init
  then show ?case by (simp add: all_decoded_def NewReactorState_def)
next
  case (history_next R vals out R')
  note hash = node_okD(3) [OF history_next.hyps(2)]
  from history_next.hyps(3) show ?case
    by cases (use history_next.IH hash in \<open>auto intro: fn_vote_decoded commit_step_decoded handleVoteSet_decoded handleMaj23_decoded\<close>)
qed

section \<open>A round of commits\<close>

text \<open>
  What a round of commits does to a function: a vote set that is not valid for the current validators
  is dropped, one with a majority goes on record and the nonce moves on, any other is kept.
\<close>

definition untouched :: "string \<Rightarrow> ReactorState \<Rightarrow> ReactorState \<Rightarrow> bool" where
  "untouched x s s' \<longleftrightarrow> rs_CurrentVoteSets s' x = rs_CurrentVoteSets s x \<and>
     rs_PreviousMajVoteSets s' x = rs_PreviousMajVoteSets s x \<and> rs_CurrentNonces s' x = rs_CurrentNonces s x"

definition commit_effect :: "fn_config \<Rightarrow> validator_set \<Rightarrow> string \<Rightarrow> ReactorState \<Rightarrow> ReactorState \<Rightarrow> bool" where
  "commit_effect C vals x s s' \<longleftrightarrow>
     (case rs_CurrentVoteSets s x of
        None \<Rightarrow> untouched x s s'
      | Some v \<Rightarrow>
          if VoteSet_IsValid (fc_env C) v (fc_chainID C) vals (fc_registered C) \<noteq> Inr ()
          then rs_CurrentVoteSets s' x = None \<and> rs_PreviousMajVoteSets s' x = rs_PreviousMajVoteSets s x \<and>
            rs_CurrentNonces s' x = rs_CurrentNonces s x
          else if HasConverged v (fc_threshold C) vals = Inr True
          then rs_CurrentVoteSets s' x = None \<and> rs_PreviousMajVoteSets s' x = Some v \<and>
            rs_CurrentNonces s' x = Some (i64 ((case rs_CurrentNonces s x of None \<Rightarrow> 0 | Some n \<Rightarrow> n) + 1))
          else untouched x s s')"

lemma untouched_trans: "untouched x s t \<Longrightarrow> untouched x t u \<Longrightarrow> untouched x s u"
  by (simp add: untouched_def)

lemma commit_effect_untouched:
  "untouched x s t \<Longrightarrow> commit_effect C vals x t u \<Longrightarrow> commit_effect C vals x s u"
  "commit_effect C vals x s t \<Longrightarrow> untouched x t u \<Longrightarrow> commit_effect C vals x s u"
  unfolding commit_effect_def untouched_def by (cases "rs_CurrentVoteSets s x"; simp cong: if_cong split del: if_split)+

lemma fn_commit_effect:
  assumes ok: "node_ok C vals" and dec: "all_decoded (fr_state R)" and reg: "fc_registered C x"
    and v: "rs_CurrentVoteSets (fr_state R) x = Some v"
  shows "\<exists>R' out. fn_commit C x vals R = Inr (R', out) \<and> commit_effect C vals x (fr_state R) (fr_state R') \<and>
    (\<forall>y. y \<noteq> x \<longrightarrow> untouched y (fr_state R) (fr_state R'))"
proof (cases "VoteSet_IsValid (fc_env C) v (fc_chainID C) vals (fc_registered C) = Inr ()")
  case False
  obtain b where b: "valid_check (VoteSet_IsValid (fc_env C) v (fc_chainID C) vals (fc_registered C)) = Inr b"
    using valid_check_total [of "fc_env C" v "fc_chainID C" vals "fc_registered C"] by blast
  with False valid_check_Inr [OF b]
  have "valid_check (VoteSet_IsValid (fc_env C) v (fc_chainID C) vals (fc_registered C)) = Inr False" by simp
  with False v reg show ?thesis
    by (simp add: fn_commit_def Let_def commit_effect_def untouched_def)
next
  case True
  then have valid: "valid_check (VoteSet_IsValid (fc_env C) v (fc_chainID C) vals (fc_registered C)) = Inr True"
    by (simp add: valid_check_def)
  obtain z f where "valid_votes (fc_env C) v (fc_chainID C) vals (fc_registered C) z f"
    using True VoteSet_IsValid_iff [OF node_okD(1) [OF ok]] by blast
  with v dec have vok: "voteset_ok C vals z (vs_Nonce v) v"
    by (auto simp: voteset_ok_def all_decoded_def decoded_def valid_votes_def)
  obtain b where b: "HasConverged v (fc_threshold C) vals = Inr b"
    using voteset_ok_majority(2) [OF ok vok] by blast
  have "\<exists>out. majority_submission C x vals n v = Inr out" for n
    using voteset_ok_majority(1) [OF ok vok]
    by (auto simp: majority_submission_def split: option.splits)
  then obtain out where "majority_submission C x vals
      (case rs_CurrentNonces (fr_state R) x of None \<Rightarrow> 0 | Some n \<Rightarrow> n) v = Inr out" by blast
  with True valid b v reg show ?thesis
    by (cases b) (simp_all add: fn_commit_def Let_def commit_effect_def untouched_def)
qed

lemma commit_fold:
  assumes ok: "node_ok C vals" and "fn_history C R" and "distinct xs"
    and "\<And>x. x \<in> set xs \<Longrightarrow> fc_registered C x \<and> rs_CurrentVoteSets (fr_state R) x \<noteq> None"
  shows "\<exists>R' new. fold_res (\<lambda>fnID (R, out). bind_res (fn_commit C fnID vals R) (\<lambda>(R', new). Inr (R', out @ new)))
      xs (R, out) = Inr (R', new) \<and> fn_history C R' \<and>
    (\<forall>x. x \<notin> set xs \<longrightarrow> untouched x (fr_state R) (fr_state R')) \<and>
    (\<forall>x \<in> set xs. commit_effect C vals x (fr_state R) (fr_state R'))"
  using assms(2-)
proof (induction xs arbitrary: R out)
  case Nil
  then show ?case by (simp add: untouched_def)
next
  case (Cons y ys)
  from Cons.prems(3) obtain v where v: "rs_CurrentVoteSets (fr_state R) y = Some v" "fc_registered C y" by fastforce
  obtain R1 new where c: "fn_commit C y vals R = Inr (R1, new)" and eff: "commit_effect C vals y (fr_state R) (fr_state R1)"
    and other: "\<And>x. x \<noteq> y \<Longrightarrow> untouched x (fr_state R) (fr_state R1)"
    using fn_commit_effect [OF ok fn_history_decoded [OF Cons.prems(1)] v(2,1)] by blast
  have "fn_history C R1" using Cons.prems(1) ok commits [OF c] by (rule history_next)
  moreover have "distinct ys" "y \<notin> set ys" using Cons.prems(2) by simp_all
  moreover have "fc_registered C x \<and> rs_CurrentVoteSets (fr_state R1) x \<noteq> None" if "x \<in> set ys" for x
    using that other [of x] Cons.prems(3) [of x] \<open>y \<notin> set ys\<close> by (cases "x = y") (auto simp: untouched_def)
  ultimately obtain R' new' where R': "fold_res (\<lambda>fnID (R, out). bind_res (fn_commit C fnID vals R)
      (\<lambda>(R', new). Inr (R', out @ new))) ys (R1, out @ new) = Inr (R', new')" "fn_history C R'"
    "\<forall>x. x \<notin> set ys \<longrightarrow> untouched x (fr_state R1) (fr_state R')"
    "\<forall>x \<in> set ys. commit_effect C vals x (fr_state R1) (fr_state R')"
    using Cons.IH [of R1 "out @ new"] by blast
  have "commit_effect C vals x (fr_state R) (fr_state R')" if "x \<in> set (y # ys)" for x
    using that R'(3,4) eff other \<open>y \<notin> set ys\<close> commit_effect_untouched
    by (cases "x = y") (auto, metis)
  moreover have "untouched x (fr_state R) (fr_state R')" if "x \<notin> set (y # ys)" for x
    using that other R'(3) by (auto intro: untouched_trans)
  ultimately show ?case using c R'(1,2) by simp
qed

section \<open>Writing and reading the state\<close>

lemma map_add_insert:
  "m x = Some v \<Longrightarrow> g(x \<mapsto> v) ++ (m |` A) = g ++ (m |` insert x A)"
  by (auto simp: fun_eq_iff map_add_def restrict_map_def split: option.splits)

lemma restrict_dom: "m |` dom m = m"
  by (rule ext) (simp add: restrict_map_def domIff)

lemma index_values:
  assumes "set xs \<subseteq> dom m" and "\<And>k v. m k = Some v \<Longrightarrow> GetFnID v = Inr k"
  shows "fold_res index_by_fn (values_in m xs) g = Inr (g ++ (m |` set xs))"
  using assms(1)
proof (induction xs arbitrary: g)
  case Nil
  then show ?case by (simp add: values_in_def)
next
  case (Cons x xs)
  then obtain v where v: "m x = Some v" by auto
  with assms(2) have "index_by_fn v g = Inr (g(x \<mapsto> v))" by (simp add: index_by_fn_def)
  with Cons v map_add_insert [of m x v g "set xs", OF v] show ?case by (simp add: values_in_def)
qed

lemma nonce_values:
  assumes "set xs \<subseteq> dom m"
  shows "fold (\<lambda>(k, n) f. f(k \<mapsto> n)) (map (\<lambda>k. (k, the (m k))) xs) g = g ++ (m |` set xs)"
  using assms
proof (induction xs arbitrary: g)
  case Nil
  then show ?case by simp
next
  case (Cons x xs)
  then obtain v where v: "m x = Some v" by auto
  from Cons v map_add_insert [of m x v g "set xs", OF v] show ?case by (simp add: fun_upd_def)
qed

section \<open>Properties\<close>

subsection \<open>An example\<close>

text \<open>The second of three validators: it adopts a vote set that has converged and commits it.\<close>

definition demo_node :: fn_config where
  "demo_node = \<lparr>fc_env = demo_fn_env, fc_chainID = ''default'', fc_threshold = Maj23SigningThreshold,
     fc_registered = (\<lambda>_. True), fc_myAddress = [2], fc_sign = (\<lambda>_. Inr (Some [2])), fc_sha512 = (\<lambda>m. 1 # m)\<rparr>"

definition demo_start :: fn_reactor where
  "demo_start = \<lparr>fr_state = NewReactorState, fr_saved = None\<rparr>"

definition demo_receive :: "(fn_reactor \<times> fn_output list) res" where
  "demo_receive = handleVoteSetChannelMessage demo_node ''peer'' demo_vals (Inl (Err ''busy'')) (Inr ())
     (Inr (demo_votes [True, True, True] [7])) demo_start"

definition demo_adopted :: fn_reactor where
  "demo_adopted = (case demo_receive of Inr (R, _) \<Rightarrow> R | Inl _ \<Rightarrow> demo_start)"

definition demo_committed :: "fn_reactor \<times> fn_output list" where
  "demo_committed = (case fn_commit demo_node ''fn'' demo_vals demo_adopted of Inr x \<Rightarrow> x | Inl _ \<Rightarrow> (demo_start, []))"

lemma demo_node_ok: "node_ok demo_node demo_vals"
proof -
  have "areWeValidator demo_node demo_vals = Some 1" by code_simp
  moreover have "signs_for demo_fn_env (\<lambda>_. Inr (Some [2])) (demo_vals ! 1)"
    by (simp add: signs_for_def demo_fn_env_def demo_vals_def)
  ultimately show ?thesis
    using demo_sane by (simp add: node_ok_def known_threshold_def demo_node_def)
qed

lemma demo_adopted_reachable: "fn_reachable demo_node demo_vals demo_adopted"
proof -
  have "\<not> isl demo_receive" by code_simp
  then obtain R out where R: "demo_receive = Inr (R, out)"
    by (metis isl_def old.sum.exhaust surj_pair)
  then have r: "demo_receive = Inr (demo_adopted, out)"
    by (metis case_prod_conv demo_adopted_def sum.case(2))
  have "decoded (demo_votes [True, True, True] [7])"
    by (simp add: decoded_def demo_votes_def demo_answer_def)
  with r have "fn_step demo_node demo_vals demo_start out demo_adopted"
    unfolding demo_receive_def by (intro receives_votes) (auto simp: answers_def)
  with fn_init [of demo_node demo_vals] show ?thesis
    unfolding demo_start_def by (rule fn_next)
qed

lemma demo_commit_step:
  "fn_step demo_node demo_vals demo_adopted (snd demo_committed) (fst demo_committed)"
proof -
  have "\<not> isl (fn_commit demo_node ''fn'' demo_vals demo_adopted)" by code_simp
  then have "fn_commit demo_node ''fn'' demo_vals demo_adopted = Inr (fst demo_committed, snd demo_committed)"
    by (metis demo_committed_def isl_def old.sum.exhaust prod.collapse sum.case(2))
  then show ?thesis by (rule commits)
qed

text \<open>whatever votes, messages and commits a node meets, in any order, every vote set in its
  state is valid for the validators, is filed under its own function, and has the current nonce of
  that function.\<close>

theorem reactor_votesets_valid:
  assumes "node_ok C vals" and "fn_reachable C vals R"
    and "rs_CurrentVoteSets (fr_state R) fnID = Some v"
  shows "VoteSet_IsValid (fc_env C) v (fc_chainID C) vals (fc_registered C) = Inr () \<and>
    GetFnID v = Inr fnID \<and> vs_Nonce v = current_nonce (fr_state R) fnID"
proof -
  have v: "voteset_ok C vals fnID (current_nonce (fr_state R) fnID) v"
    using fn_reachable_ok [OF assms(2,1)] assms(3) by (rule reactor_okD)
  then have "VoteSet_IsValid (fc_env C) v (fc_chainID C) vals (fc_registered C) = Inr ()"
    using VoteSet_IsValid_iff [OF node_okD(1) [OF assms(1)]] by (auto simp: voteset_ok_def)
  with v voteset_ok_FnID [OF v] show ?thesis by (simp add: voteset_ok_def)
qed

theorem reactor_votesets_valid_witness:
  "VoteSet_IsValid demo_fn_env (demo_votes [True, True, True] [7]) ''default'' demo_vals (\<lambda>_. True) = Inr () \<and>
   current_nonce (fr_state demo_adopted) ''fn'' = 4"
proof -
  have "rs_CurrentVoteSets (fr_state demo_adopted) ''fn'' = Some (demo_votes [True, True, True] [7])"
    by code_simp
  from reactor_votesets_valid [OF demo_node_ok demo_adopted_reachable this] show ?thesis
    by (simp add: demo_node_def demo_votes_def)
qed



text \<open>C18: on a well configured node (\<open>node_ok\<close>), a round of the commit routine over registered functions
  that no message interrupts returns without a panic, in every state the node can reach by voting,
  committing and receiving messages, also when the validators changed in between.
  For every function the registry lists: a vote set that is not valid for the current validators is
  dropped and nothing is settled, even if it had converged under the former ones; a valid one that has
  converged becomes the majority on record, is removed and the nonce counts on; a valid one without a
  majority stays. Functions without a vote set, and those not listed, are not touched.\<close>

theorem commit_round_settles:
  assumes "node_ok C vals" and "fn_history C R" and "distinct fnIDs"
    and "\<forall>fnID \<in> set fnIDs. fc_registered C fnID"
  shows "\<exists>R' out. commitRoutine_round C fnIDs vals R = Inr (R', out) \<and> fn_history C R' \<and>
    (\<forall>fnID \<in> set fnIDs. commit_effect C vals fnID (fr_state R) (fr_state R')) \<and>
    (\<forall>fnID. fnID \<notin> set fnIDs \<longrightarrow> untouched fnID (fr_state R) (fr_state R'))"
proof -
  let ?xs = "filter (\<lambda>fnID. rs_CurrentVoteSets (fr_state R) fnID \<noteq> None) fnIDs"
  have "distinct ?xs" "\<And>x. x \<in> set ?xs \<Longrightarrow> fc_registered C x \<and> rs_CurrentVoteSets (fr_state R) x \<noteq> None"
    using assms(3,4) by auto
  from commit_fold [OF assms(1,2) this, of "[]"] obtain R' out where
    R': "commitRoutine_round C fnIDs vals R = Inr (R', out)" "fn_history C R'"
    and rest: "\<forall>x. x \<notin> set ?xs \<longrightarrow> untouched x (fr_state R) (fr_state R')"
    and all: "\<forall>x \<in> set ?xs. commit_effect C vals x (fr_state R) (fr_state R')"
    unfolding commitRoutine_round_def by blast
  have "commit_effect C vals x (fr_state R) (fr_state R')" if "x \<in> set fnIDs" for x
    using that all rest by (cases "rs_CurrentVoteSets (fr_state R) x") (auto simp: commit_effect_def)
  then show ?thesis using R' rest by (intro exI [of _ R'] exI [of _ out]) auto
qed

text \<open>
  The same node after the second and third validator were replaced, with the vote set it had adopted
  before: the round drops it, although it had converged.
\<close>

definition demo_new_vals :: validator_set where
  "demo_new_vals = map (\<lambda>v. v\<lparr>fv_Address := 9 # fv_Address v\<rparr>) demo_vals"

theorem commit_round_settles_witness:
  "(\<exists>R' out. commitRoutine_round demo_node [''fn''] demo_vals demo_adopted = Inr (R', out) \<and>
     rs_PreviousMajVoteSets (fr_state R') ''fn'' = Some (demo_votes [True, True, True] [7])) \<and>
   (\<exists>R' out. commitRoutine_round demo_node [''fn''] demo_new_vals demo_adopted = Inr (R', out) \<and>
     rs_CurrentVoteSets (fr_state R') ''fn'' = None \<and> rs_PreviousMajVoteSets (fr_state R') ''fn'' = None)"
proof -
  have v: "rs_CurrentVoteSets (fr_state demo_adopted) ''fn'' = Some (demo_votes [True, True, True] [7])"
    "rs_PreviousMajVoteSets (fr_state demo_adopted) ''fn'' = None"
    and c: "HasConverged (demo_votes [True, True, True] [7]) (fc_threshold demo_node) demo_vals = Inr True"
    and ok: "VoteSet_IsValid (fc_env demo_node) (demo_votes [True, True, True] [7]) (fc_chainID demo_node) demo_vals
      (fc_registered demo_node) = Inr ()"
    and bad: "VoteSet_IsValid (fc_env demo_node) (demo_votes [True, True, True] [7]) (fc_chainID demo_node) demo_new_vals
      (fc_registered demo_node) \<noteq> Inr ()"
    and own: "areWeValidator demo_node demo_new_vals = None"
    and sane: "sane demo_new_vals"
    by code_simp+
  have reg: "\<forall>fnID \<in> set [''fn'']. fc_registered demo_node fnID" by (simp add: demo_node_def)
  have new: "node_ok demo_node demo_new_vals"
    using own sane demo_node_ok by (simp add: node_ok_def)
  note h = reachable_history [OF demo_adopted_reachable demo_node_ok]
  have d: "distinct [''fn'']" by simp
  from commit_round_settles [OF demo_node_ok h d reg] commit_round_settles [OF new h d reg] show ?thesis
    by (auto simp: commit_effect_def v c ok bad)
qed

text \<open>the nonce of a function never goes back while the node runs.\<close>

theorem nonces_monotone:
  assumes "node_ok C vals" and "fn_reachable C vals R" and "fn_step C vals R out R'"
    and "0 \<le> current_nonce (fr_state R) fnID" and "current_nonce (fr_state R) fnID < 2 ^ 63 - 1"
  shows "current_nonce (fr_state R) fnID \<le> current_nonce (fr_state R') fnID"
proof -
  have "good_step C vals R out R'"
    using assms(1) fn_reachable_ok [OF assms(2,1)] assms(3) by (rule fn_step_good)
  with assms(4,5) show ?thesis by (simp add: good_step_def)
qed

theorem nonces_monotone_witness:
  "(4 :: int) \<le> current_nonce (fr_state (fst demo_committed)) ''fn''"
proof -
  have "current_nonce (fr_state demo_adopted) ''fn'' = 4" by code_simp
  with nonces_monotone [OF demo_node_ok demo_adopted_reachable demo_commit_step, of "''fn''"] show ?thesis
    by simp
qed

text \<open>two nodes with vote sets of different nonces do not adopt each other's: when the vote set
  of a peer replaces the own one, the peer keeps its own on receiving the other.\<close>

theorem adoption_antisymmetric:
  assumes "compareFnVoteSets C a (Some b) n vals = Inr 1"
  shows "compareFnVoteSets C b (Some a) m vals = Inr (-1)"
  using assms
  by (auto simp: compareFnVoteSets_def elim!: bind_resE split: if_splits option.splits)

theorem adoption_antisymmetric_witness:
  "compareFnVoteSets demo_node ((demo_votes [True, False, False] [7])\<lparr>vs_Nonce := 3\<rparr>)
     (Some (demo_votes [True, True, True] [7])) 3 demo_vals = Inr (-1)"
proof -
  have "compareFnVoteSets demo_node (demo_votes [True, True, True] [7])
      (Some ((demo_votes [True, False, False] [7])\<lparr>vs_Nonce := 3\<rparr>)) 3 demo_vals = Inr 1"
    by code_simp
  then show ?thesis by (rule adoption_antisymmetric)
qed

text \<open>the persisted state is read back as it was written, in whatever order the maps are
  walked, as long as every vote set is stored under its own function.\<close>

theorem reactor_state_roundtrip:
  assumes "set ks = dom (rs_CurrentVoteSets s)" and "set ns = dom (rs_CurrentNonces s)"
    and "set ts = dom (rs_PreviousTimedOutVoteSets s)" and "set ms = dom (rs_PreviousMajVoteSets s)"
    and "\<And>k v. rs_CurrentVoteSets s k = Some v \<or> rs_PreviousTimedOutVoteSets s k = Some v \<or>
      rs_PreviousMajVoteSets s k = Some v \<Longrightarrow> GetFnID v = Inr k"
  shows "ReactorState_Unmarshal (ReactorState_Marshal s ks ns ts ms) = Inr s"
proof -
  note index = index_values [where g = Map.empty] and nonces = nonce_values [where g = Map.empty]
  show ?thesis
    using assms
    by (simp add: ReactorState_Unmarshal_def ReactorState_Marshal_def index nonces restrict_dom)
qed

theorem reactor_state_roundtrip_witness:
  "ReactorState_Unmarshal (ReactorState_Marshal
     (NewReactorState\<lparr>rs_CurrentVoteSets := [''fn'' \<mapsto> demo_votes [True, False, False] [7]]\<rparr>) [''fn''] [] [] []) =
   Inr (NewReactorState\<lparr>rs_CurrentVoteSets := [''fn'' \<mapsto> demo_votes [True, False, False] [7]]\<rparr>)"
  by (rule reactor_state_roundtrip)
    (auto simp: NewReactorState_def GetFnID_def demo_votes_def split: if_splits)

text \<open>Two ways to stop a node: a message with a vote set that has no payload, which is read
  before the set is validated, and the commit of a function whose vote set was removed by a message
  after the commit routine had chosen it.\<close>

theorem reactor_crashes:
  "vs_Payload remote = None \<Longrightarrow>
     handleVoteSetChannelMessage C peer vals fnResult mapResult (Inr remote) R =
       Inl (Panic ''nil pointer dereference'')"
  "fc_registered C fnID \<Longrightarrow> rs_CurrentVoteSets (fr_state R) fnID = None \<Longrightarrow>
     fn_commit C fnID vals R = Inl (Panic ''nil pointer dereference'')"
  by (simp_all add: handleVoteSetChannelMessage_def GetFnID_def fn_commit_def Let_def)

end
