(* ===== verification/Request_Batch.thy ===== *)
theory Request_Batch
  imports Diadem_Prelude
begin

text \<open>
  Batches of requests that an oracle relays from another chain. A contract goes through a batch in
  order, skips what it has seen, consumes the rest and remembers the position of the last request
  it consumed. The locale says what such a loop is; its lemmas, proved once, are that positions only
  move forward, that a batch leaves nothing to do for the same batch, and that over any sequence of
  batches the consumed requests have increasing positions, so that none is consumed twice.

  A request without a position is skipped (\<open>Inr None\<close>); one whose position cannot be read stops
  the loop with a panic.
\<close>

locale request_batch =
  fixes loop :: "'r list \<Rightarrow> 's \<times> 't \<Rightarrow> ('s \<times> 't) res"
    and consume :: "'r \<Rightarrow> 's \<Rightarrow> 's res"
    and place :: "'r \<Rightarrow> 'p::linorder option res"
    and pos :: "'t \<Rightarrow> 'p"
    and mark :: "'r \<Rightarrow> 't"
  assumes loop_Nil: "loop [] st = Inr st"
    and loop_Cons: "loop (r # rs) (s, t) = bind_res (place r) (\<lambda>p.
        case p of None \<Rightarrow> loop rs (s, t)
        | Some q \<Rightarrow> if q \<le> pos t then loop rs (s, t)
                    else bind_res (consume r s) (\<lambda>s'. loop rs (s', mark r)))"
    and pos_mark: "place r = Inr (Some q) \<Longrightarrow> pos (mark r) = q"
begin

fun fresh :: "'p \<Rightarrow> 'r list \<Rightarrow> 'r list" where
  "fresh t [] = []"
| "fresh t (r # rs) =
     (case place r of
        Inr (Some q) \<Rightarrow> if q \<le> t then fresh t rs else r # fresh q rs
      | _ \<Rightarrow> fresh t rs)"

definition place_of :: "'r \<Rightarrow> 'p" where
  "place_of r = (case place r of Inr (Some q) \<Rightarrow> q | _ \<Rightarrow> undefined)"

lemma loop_cases [consumes 1, case_names skip seen new]:
  assumes "loop (r # rs) (s, t) = Inr st'"
  obtains "place r = Inr None" and "loop rs (s, t) = Inr st'"
  | q where "place r = Inr (Some q)" and "q \<le> pos t" and "loop rs (s, t) = Inr st'"
  | q s1 where "place r = Inr (Some q)" and "\<not> q \<le> pos t" and "consume r s = Inr s1"
      and "loop rs (s1, mark r) = Inr st'" and "pos (mark r) = q"
  using assms unfolding loop_Cons
  by (elim bind_resE) (auto elim!: bind_resE split: option.splits if_splits intro: that pos_mark)

lemma loop_forward: "loop rs (s, t) = Inr (s', t') \<Longrightarrow> pos t \<le> pos t'"
proof (induction rs arbitrary: s t)
  case Nil
  then show ?case by (simp add: loop_Nil)
next
  case (Cons r rs)
  from Cons.prems show ?case
  proof (cases rule: loop_cases)
    case (new q s1)
    with Cons.IH [of s1 "mark r"] show ?thesis by simp
  qed (use Cons.IH in auto)
qed

lemma loop_covers:
  "loop rs (s, t) = Inr (s', t') \<Longrightarrow> r \<in> set rs \<Longrightarrow> \<exists>p. place r = Inr p \<and> (\<forall>q. p = Some q \<longrightarrow> q \<le> pos t')"
proof (induction rs arbitrary: s t)
  case Nil
  then show ?case by simp
next
  case (Cons x rs)
  from Cons.prems(1) show ?case
  proof (cases rule: loop_cases)
    case skip
    with Cons show ?thesis by auto
  next
    case (seen q)
    with Cons loop_forward [of rs s t] show ?thesis by fastforce
  next
    case (new q s1)
    with Cons loop_forward [of rs s1 "mark x"] show ?thesis by fastforce
  qed
qed

lemma loop_idle:
  "(\<And>r. r \<in> set rs \<Longrightarrow> \<exists>p. place r = Inr p \<and> (\<forall>q. p = Some q \<longrightarrow> q \<le> pos t)) \<Longrightarrow>
     loop rs (s, t) = Inr (s, t)"
proof (induction rs)
  case Nil
  then show ?case by (simp add: loop_Nil)
next
  case (Cons r rs)
  from Cons.prems obtain p where "place r = Inr p" "\<forall>q. p = Some q \<longrightarrow> q \<le> pos t" by fastforce
  with Cons show ?case by (auto simp: loop_Cons split: option.splits)
qed

lemma loop_replay:
  assumes "loop rs (s, t) = Inr (s', t')" and "pos t' \<le> pos u"
  shows "loop rs (x, u) = Inr (x, u)"
  using loop_covers [OF assms(1)] assms(2) by (intro loop_idle) fastforce

lemma loop_append: "loop (xs @ ys) st = bind_res (loop xs st) (loop ys)"
proof (induction xs arbitrary: st)
  case Nil
  then show ?case by (simp add: loop_Nil)
next
  case (Cons r xs)
  obtain s t where st: "st = (s, t)" by fastforce
  show ?case
    unfolding st append_Cons loop_Cons Cons by (auto simp: bind_res_def split: sum.splits option.splits)
qed

lemma loop_fresh:
  "loop rs (s, t) = Inr (s', t') \<Longrightarrow>
     fold_res consume (fresh (pos t) rs) s = Inr s' \<and>
     pos t' = (if fresh (pos t) rs = [] then pos t else place_of (last (fresh (pos t) rs)))"
proof (induction rs arbitrary: s t)
  case Nil
  then show ?case by (simp add: loop_Nil)
next
  case (Cons r rs)
  from Cons.prems show ?case
  proof (cases rule: loop_cases)
    case (new q s1)
    with Cons.IH [of s1 "mark r"] show ?thesis by (auto simp: place_of_def)
  qed (use Cons.IH in auto)
qed

lemma fresh_increasing:
  "sorted_wrt (<) (map place_of (fresh t rs)) \<and> (\<forall>r \<in> set (fresh t rs). t < place_of r)"
proof (induction rs arbitrary: t)
  case Nil
  then show ?case by simp
next
  case (Cons r rs)
  show ?case
  proof (cases "place r")
    case (Inr p)
    then show ?thesis
    proof (cases p)
      case (Some q)
      with Inr Cons [of t] Cons [of q] show ?thesis
        by (cases "q \<le> t") (auto simp: place_of_def intro: less_trans)
    qed (use Cons Inr in auto)
  qed (use Cons in auto)
qed

lemma fresh_subset: "set (fresh t rs) \<subseteq> set rs"
  by (induction rs arbitrary: t) (auto split: sum.splits option.splits)

end

end
