(* ===== verification/Plasma_Cash.thy ===== *)
theory Plasma_Cash
  imports Address_Mapper Request_Batch "HOL-Library.Product_Lexorder"
begin

text \<open>
  The plasma cash contract, \<open>builtin/plugins/plasma_cash/plasma_cash.go\<close>: coins deposited on the
  main chain are held by accounts here, change hands by signed plasma transactions, and leave
  through exits that the oracle reports. Transactions are collected in plasma blocks whose Merkle
  root goes to the main chain.

  The storage is a record of maps; \<open>pc_height\<close> is the height of the last plasma block. Arguments of
  the model (\<open>plasma_env\<close>): the sparse Merkle tree, the hashes and RLP, signature recovery. The address
  mapper is called through its model. Events are not modelled.
\<close>

section \<open>State\<close>

datatype CoinState = CoinState_DEPOSITED | CoinState_EXITING | CoinState_CHALLENGED | CoinState_EXITED

record PlasmaCoin =
  co_Slot :: u64
  co_State :: CoinState
  co_Token :: "int option"
  co_Contract :: "address option"

record PlasmaTx =
  px_Slot :: u64
  px_PreviousBlock :: "int option"
  px_Denomination :: "int option"
  px_NewOwner :: "address option"
  px_Sender :: "address option"
  px_Signature :: bytes
  px_MerkleHash :: bytes
  px_Proof :: bytes

record PlasmaBlock =
  pb_Uid :: int
  pb_Transactions :: "PlasmaTx list"
  pb_MerkleHash :: bytes

record PlasmaTally =
  pt_LastSeenBlockNumber :: u64
  pt_LastSeenTxIndex :: u64
  pt_LastSeenLogIndex :: u64

record plasma_state =
  pc_height :: "int option"
  pc_pending :: "PlasmaTx list"
  pc_blocks :: "int \<rightharpoonup> PlasmaBlock"
  pc_accounts :: "address \<Rightarrow> u64 list"
  pc_coins :: "u64 \<rightharpoonup> PlasmaCoin"
  pc_tally :: PlasmaTally
  pc_perms :: permissions

record plasma_env =
  pe_smt_root :: "(u64 \<rightharpoonup> bytes) \<Rightarrow> bytes res"
  pe_smt_proof :: "(u64 \<rightharpoonup> bytes) \<Rightarrow> u64 \<Rightarrow> bytes"
  pe_slot_hash :: "u64 \<Rightarrow> bytes res"
  pe_rlp :: "u64 \<Rightarrow> int \<Rightarrow> u32 \<Rightarrow> bytes \<Rightarrow> bytes res"
  pe_keccak :: "bytes \<Rightarrow> bytes"
  pe_tx_hash :: "u64 \<Rightarrow> int \<Rightarrow> bytes \<Rightarrow> int \<Rightarrow> bytes \<Rightarrow> bytes res"
  pe_recover :: "bytes \<Rightarrow> bytes \<Rightarrow> bytes res"
  pe_is_empty :: "address \<Rightarrow> bool"

definition no_tally :: PlasmaTally where
  "no_tally = \<lparr>pt_LastSeenBlockNumber = 0, pt_LastSeenTxIndex = 0, pt_LastSeenLogIndex = 0\<rparr>"

definition empty_plasma :: plasma_state where
  "empty_plasma = \<lparr>pc_height = None, pc_pending = [], pc_blocks = Map.empty, pc_accounts = (\<lambda>_. []),
     pc_coins = Map.empty, pc_tally = no_tally, pc_perms = []\<rparr>"

abbreviation plasmaOracleRole :: string where "plasmaOracleRole \<equiv> ''pcash_role_oracle''"
abbreviation ChangeOraclePermission :: string where "ChangeOraclePermission \<equiv> ''change_oracle''"
abbreviation SubmitEventsPermission :: string where "SubmitEventsPermission \<equiv> ''submit_events''"

definition PlasmaNotAuthorized :: go_error where
  "PlasmaNotAuthorized = Err ''sender is not authorized to call this method''"

section \<open>Oracle\<close>

definition plasma_registerOracle :: "plasma_env \<Rightarrow> address option \<Rightarrow> address option \<Rightarrow> plasma_state \<Rightarrow> plasma_state res" where
  "plasma_registerOracle E pbOracle currentOracle s =
     (case pbOracle of
        None \<Rightarrow> Inl (Err ''oracle address cannot be null'')
      | Some newOracleAddr \<Rightarrow>
          if pe_is_empty E newOracleAddr then Inl (Err ''oracle address cannot be empty'')
          else
            let ps = pc_perms s;
                ps = (case currentOracle of
                        None \<Rightarrow> ps
                      | Some cur \<Rightarrow>
                          RevokePermissionFrom (RevokePermissionFrom ps cur ChangeOraclePermission plasmaOracleRole)
                            cur SubmitEventsPermission plasmaOracleRole);
                ps = GrantPermissionTo ps newOracleAddr ChangeOraclePermission plasmaOracleRole;
                ps = GrantPermissionTo ps newOracleAddr SubmitEventsPermission plasmaOracleRole
            in Inr (s\<lparr>pc_perms := ps\<rparr>))"

definition Plasma_Init :: "plasma_env \<Rightarrow> address option \<Rightarrow> plasma_state \<Rightarrow> plasma_state res" where
  "Plasma_Init E oracle_addr s =
     bind_res (plasma_registerOracle E oracle_addr None s) (\<lambda>s. Inr (s\<lparr>pc_height := Some 0\<rparr>))"

definition Plasma_UpdateOracle :: "plasma_env \<Rightarrow> call_ctx \<Rightarrow> address option \<Rightarrow> plasma_state \<Rightarrow> plasma_state res" where
  "Plasma_UpdateOracle E ctx newOracle s =
     (if \<not> HasPermission (pc_perms s) (sender ctx) ChangeOraclePermission [plasmaOracleRole] then Inl PlasmaNotAuthorized
      else plasma_registerOracle E newOracle (Some (sender ctx)) s)"

section \<open>Plasma blocks\<close>

definition plasma_round :: "int \<Rightarrow> int \<Rightarrow> int" where
  "plasma_round num near =
     (if num = 0 then near
      else if go_mod num near = 0 then i64 (num + near)
      else i64 (go_quot (i64 (num + (near - 1))) near * near))"

definition plasma_rlpEncode :: "plasma_env \<Rightarrow> PlasmaTx \<Rightarrow> bytes res" where
  "plasma_rlpEncode E pb =
     bind_res (deref (px_PreviousBlock pb)) (\<lambda>previousBlock.
     bind_res (deref (px_Denomination pb)) (\<lambda>denomination.
     bind_res (deref (px_NewOwner pb)) (\<lambda>newOwner.
       pe_rlp E (px_Slot pb) previousBlock (word_of_int (i64 denomination)) (Local newOwner))))"

definition rlpEncodeWithSha3 :: "plasma_env \<Rightarrow> PlasmaTx \<Rightarrow> bytes res" where
  "rlpEncodeWithSha3 E pb = bind_res (plasma_rlpEncode E pb) (\<lambda>b. Inr (pe_keccak E b))"

definition plasma_soliditySha3 :: "plasma_env \<Rightarrow> u64 \<Rightarrow> bytes res" where
  "plasma_soliditySha3 E slot = pe_slot_hash E slot"

text \<open>The leaf of a transaction: a deposit is hashed by its slot alone.\<close>

definition plasma_leaf :: "plasma_env \<Rightarrow> PlasmaTx \<Rightarrow> bytes res" where
  "plasma_leaf E v =
     (if (case px_PreviousBlock v of None \<Rightarrow> True | Some b \<Rightarrow> i64 b = 0)
      then plasma_soliditySha3 E (px_Slot v)
      else rlpEncodeWithSha3 E v)"

definition plasma_hash_tx ::
    "plasma_env \<Rightarrow> PlasmaTx \<Rightarrow> PlasmaTx list \<times> (u64 \<rightharpoonup> bytes) \<Rightarrow> (PlasmaTx list \<times> (u64 \<rightharpoonup> bytes)) res" where
  "plasma_hash_tx E v acc =
     bind_res (plasma_leaf E v) (\<lambda>h.
       Inr (fst acc @ [v\<lparr>px_MerkleHash := h\<rparr>], (snd acc)(px_Slot v \<mapsto> h)))"

definition Plasma_SubmitBlockToMainnet ::
    "plasma_env \<Rightarrow> call_ctx \<Rightarrow> plasma_state \<Rightarrow> (plasma_state \<times> slice) res" where
  "Plasma_SubmitBlockToMainnet E ctx s =
     (if \<not> HasPermission (pc_perms s) (sender ctx) SubmitEventsPermission [plasmaOracleRole] then Inl PlasmaNotAuthorized
      else if pc_pending s = [] then Inr (s, None)
      else
        bind_res (deref (pc_height s)) (\<lambda>currentHeight.
        let height = plasma_round (i64 currentHeight) 1000 in
        bind_res (fold_res (plasma_hash_tx E) (pc_pending s) ([], Map.empty)) (\<lambda>(txs, leaves).
        bind_res (pe_smt_root E leaves) (\<lambda>merkleHash.
          let txs = map (\<lambda>v. v\<lparr>px_Proof := pe_smt_proof E leaves (px_Slot v)\<rparr>) txs;
              pb = \<lparr>pb_Uid = height, pb_Transactions = txs, pb_MerkleHash = merkleHash\<rparr>
          in Inr (s\<lparr>pc_height := Some height, pc_blocks := (pc_blocks s)(height \<mapsto> pb), pc_pending := []\<rparr>,
                  Some merkleHash)))))"

section \<open>Accounts and coins\<close>

definition plasma_loadCoin :: "plasma_state \<Rightarrow> u64 \<Rightarrow> PlasmaCoin res" where
  "plasma_loadCoin s slot = (case pc_coins s slot of None \<Rightarrow> Inl (Err ''failed to load coin'') | Some c \<Rightarrow> Inr c)"

definition saveCoin :: "PlasmaCoin \<Rightarrow> plasma_state \<Rightarrow> plasma_state" where
  "saveCoin coin s = s\<lparr>pc_coins := (pc_coins s)(co_Slot coin \<mapsto> coin)\<rparr>"

definition plasma_saveAccount :: "address \<Rightarrow> u64 list \<Rightarrow> plasma_state \<Rightarrow> plasma_state" where
  "plasma_saveAccount owner slots s = s\<lparr>pc_accounts := (pc_accounts s)(owner := slots)\<rparr>"

text \<open>The index of the first occurrence, and removal by moving the last element into the gap.\<close>

fun slot_index :: "u64 \<Rightarrow> u64 list \<Rightarrow> nat option" where
  "slot_index x [] = None"
| "slot_index x (y # ys) = (if y = x then Some 0 else map_option Suc (slot_index x ys))"

definition swap_remove :: "'a list \<Rightarrow> nat \<Rightarrow> 'a list" where
  "swap_remove xs i = butlast (xs[i := last xs])"

text \<open>The two accounts are loaded before either is saved.\<close>

definition transferCoin :: "PlasmaCoin \<Rightarrow> address \<Rightarrow> address \<Rightarrow> plasma_state \<Rightarrow> plasma_state res" where
  "transferCoin coin src receiver s =
     (if co_State coin \<noteq> CoinState_DEPOSITED then Inl (Err ''can't transfer coin in this state'')
      else
        let fromSlots = pc_accounts s src in
        case slot_index (co_Slot coin) fromSlots of
          None \<Rightarrow> Inl (Err ''can't transfer coin: sender doesn't own it'')
        | Some coinIdx \<Rightarrow>
            let toSlots = pc_accounts s receiver @ [fromSlots ! coinIdx]
            in Inr (plasma_saveAccount receiver toSlots
                     (plasma_saveAccount src (swap_remove fromSlots coinIdx) s)))"

definition verifyPlasmaRequest ::
    "plasma_env \<Rightarrow> call_ctx \<Rightarrow> am_store \<Rightarrow> PlasmaTx option \<Rightarrow> unit res" where
  "verifyPlasmaRequest E ctx mapper req =
     (case req of
        None \<Rightarrow> Inl (Err ''one or more required fields are nil'')
      | Some tx \<Rightarrow>
     (case (px_Sender tx, px_Denomination tx, px_PreviousBlock tx, px_NewOwner tx) of
        (Some claimedSender, Some denomination, Some previousBlock, Some newOwner) \<Rightarrow>
          bind_res (pe_tx_hash E (px_Slot tx) denomination (Local newOwner) previousBlock (px_Proof tx)) (\<lambda>hash.
          bind_res (pe_recover E hash (px_Signature tx)) (\<lambda>signer.
          bind_res (resolve ctx ''addressmapper'') (\<lambda>_.
          bind_res (GetMapping (Some (sender ctx)) mapper) (\<lambda>m.
            if signer \<noteq> Local claimedSender \<or> Local claimedSender \<noteq> Local (am_To m)
            then Inl (Err ''plasmatx signature doesn't match sender'')
            else Inr ()))))
      | _ \<Rightarrow> Inl (Err ''one or more required fields are nil'')))"

definition Plasma_PlasmaTxRequest ::
    "plasma_env \<Rightarrow> call_ctx \<Rightarrow> am_store \<Rightarrow> PlasmaTx option \<Rightarrow> plasma_state \<Rightarrow> plasma_state res" where
  "Plasma_PlasmaTxRequest E ctx mapper req s =
     (case verifyPlasmaRequest E ctx mapper req of
        Inl (Panic p) \<Rightarrow> Inl (Panic p)
      | Inl _ \<Rightarrow> Inl PlasmaNotAuthorized
      | Inr _ \<Rightarrow>
          bind_res (deref req) (\<lambda>tx.
          bind_res (deref (px_Sender tx)) (\<lambda>src.
          if px_Slot tx \<in> px_Slot ` set (pc_pending s)
          then Inl (Err ''Error appending plasma transaction with existing slot'')
          else
            bind_res (deref (px_NewOwner tx)) (\<lambda>receiver.
            bind_res (plasma_loadCoin s (px_Slot tx)) (\<lambda>coin.
            bind_res (transferCoin coin src receiver s) (\<lambda>s.
              Inr (s\<lparr>pc_pending := pc_pending s @ [tx]\<rparr>)))))))"

section \<open>What the oracle reports\<close>

record PlasmaDeposit =
  pd_Slot :: u64
  pd_DepositBlock :: "int option"
  pd_Denomination :: "int option"
  pd_From :: "address option"
  pd_Contract :: "address option"

definition depositRequest :: "PlasmaDeposit \<Rightarrow> plasma_state \<Rightarrow> plasma_state res" where
  "depositRequest req s =
     bind_res (deref (pd_DepositBlock req)) (\<lambda>depositBlock.
     let tx = \<lparr>px_Slot = pd_Slot req, px_PreviousBlock = None, px_Denomination = pd_Denomination req,
               px_NewOwner = pd_From req, px_Sender = None, px_Signature = [], px_MerkleHash = [],
               px_Proof = replicate 8 0\<rparr>;
         pb = \<lparr>pb_Uid = depositBlock, pb_Transactions = [tx], pb_MerkleHash = []\<rparr>;
         s = s\<lparr>pc_blocks := (pc_blocks s)(depositBlock \<mapsto> pb)\<rparr>
     in
     bind_res (deref (pd_From req)) (\<lambda>ownerAddr.
     let coin = \<lparr>co_Slot = pd_Slot req, co_State = CoinState_DEPOSITED, co_Token = pd_Denomination req,
                 co_Contract = pd_Contract req\<rparr>;
         slots = pc_accounts s ownerAddr;
         s = plasma_saveAccount ownerAddr (slots @ [pd_Slot req]) (saveCoin coin s)
     in
     bind_res (deref (pc_height s)) (\<lambda>currentHeight.
       if depositBlock > currentHeight then Inr (s\<lparr>pc_height := Some depositBlock\<rparr>) else Inr s)))"

definition coinReset :: "u64 \<Rightarrow> plasma_state \<Rightarrow> plasma_state res" where
  "coinReset slot s =
     bind_res (plasma_loadCoin s slot) (\<lambda>coin.
       if co_State coin \<noteq> CoinState_EXITING then Inl (Err ''[PlasmaCash] can't reset coin in this state'')
       else Inr (saveCoin (coin\<lparr>co_State := CoinState_DEPOSITED\<rparr>) s))"

definition exitCoin :: "u64 \<Rightarrow> plasma_state \<Rightarrow> plasma_state res" where
  "exitCoin slot s =
     bind_res (plasma_loadCoin s slot) (\<lambda>coin.
       if co_State coin \<noteq> CoinState_DEPOSITED then Inl (Err ''[PlasmaCash] can't exit coin in this state'')
       else Inr (saveCoin (coin\<lparr>co_State := CoinState_EXITING\<rparr>) s))"

definition withdrawCoin :: "address option \<Rightarrow> u64 \<Rightarrow> plasma_state \<Rightarrow> plasma_state res" where
  "withdrawCoin owner slot s =
     bind_res (plasma_loadCoin s slot) (\<lambda>coin.
     bind_res (deref owner) (\<lambda>ownerAddr.
     let slots = pc_accounts s ownerAddr in
     case slot_index (co_Slot coin) slots of
       None \<Rightarrow> Inl (Err ''[PlasmaCash] failed to withdraw coin'')
     | Some i \<Rightarrow>
         let s = plasma_saveAccount ownerAddr (swap_remove slots i) s
         in Inr (s\<lparr>pc_coins := (pc_coins s)(slots ! i := None)\<rparr>)))"

record PlasmaEventMeta =
  pm_BlockNumber :: u64
  pm_TxIndex :: u64
  pm_LogIndex :: u64

datatype PlasmaRequestData =
    PlasmaRequest_Deposit PlasmaDeposit
  | PlasmaRequest_CoinReset u64
  | PlasmaRequest_StartedExit u64
  | PlasmaRequest_Withdraw "address option" u64

record PlasmaRequest =
  pr_Meta :: "PlasmaEventMeta option"
  pr_Data :: "PlasmaRequestData option"

definition plasma_isRequestAlreadySeen :: "PlasmaEventMeta \<Rightarrow> PlasmaTally \<Rightarrow> bool" where
  "plasma_isRequestAlreadySeen meta currentTally =
     (if pm_BlockNumber meta \<noteq> pt_LastSeenBlockNumber currentTally
      then pm_BlockNumber meta \<le> pt_LastSeenBlockNumber currentTally
      else if pm_TxIndex meta \<noteq> pt_LastSeenTxIndex currentTally
      then pm_TxIndex meta \<le> pt_LastSeenTxIndex currentTally
      else if pm_LogIndex meta \<noteq> pt_LastSeenLogIndex currentTally
      then pm_LogIndex meta \<le> pt_LastSeenLogIndex currentTally
      else True)"

definition plasma_tally_of :: "PlasmaEventMeta \<Rightarrow> PlasmaTally" where
  "plasma_tally_of meta = \<lparr>pt_LastSeenBlockNumber = pm_BlockNumber meta,
     pt_LastSeenTxIndex = pm_TxIndex meta, pt_LastSeenLogIndex = pm_LogIndex meta\<rparr>"

definition plasma_consume :: "PlasmaRequestData \<Rightarrow> plasma_state \<Rightarrow> plasma_state res" where
  "plasma_consume data s =
     (case data of
        PlasmaRequest_Deposit req \<Rightarrow> depositRequest req s
      | PlasmaRequest_CoinReset slot \<Rightarrow> coinReset slot s
      | PlasmaRequest_StartedExit slot \<Rightarrow> exitCoin slot s
      | PlasmaRequest_Withdraw owner slot \<Rightarrow> withdrawCoin owner slot s)"

fun plasma_batch_loop :: "PlasmaRequest list \<Rightarrow> plasma_state \<times> PlasmaTally \<Rightarrow> (plasma_state \<times> PlasmaTally) res" where
  "plasma_batch_loop [] st = Inr st"
| "plasma_batch_loop (request # requests) (s, tally) =
     (case pr_Data request of
        None \<Rightarrow> plasma_batch_loop requests (s, tally)
      | Some data \<Rightarrow>
          bind_res (deref (pr_Meta request)) (\<lambda>meta.
            if plasma_isRequestAlreadySeen meta tally then plasma_batch_loop requests (s, tally)
            else bind_res (plasma_consume data s) (\<lambda>s'. plasma_batch_loop requests (s', plasma_tally_of meta))))"

definition wrap_err :: "string \<Rightarrow> 'a res \<Rightarrow> 'a res" where
  "wrap_err m r = (case r of Inl (Panic p) \<Rightarrow> Inl (Panic p) | Inl _ \<Rightarrow> Inl (Err m) | Inr x \<Rightarrow> Inr x)"

definition Plasma_ProcessRequestBatch :: "call_ctx \<Rightarrow> PlasmaRequest list \<Rightarrow> plasma_state \<Rightarrow> plasma_state res" where
  "Plasma_ProcessRequestBatch ctx requests s =
     (if \<not> HasPermission (pc_perms s) (sender ctx) SubmitEventsPermission [plasmaOracleRole] then Inl PlasmaNotAuthorized
      else if requests = [] then Inr s
      else
        bind_res (deref (pr_Meta (last requests))) (\<lambda>lastMeta.
        if plasma_isRequestAlreadySeen lastMeta (pc_tally s) then Inr s
        else
          bind_res (wrap_err ''unable to consume one or more requests''
              (plasma_batch_loop requests (s, pc_tally s))) (\<lambda>(s, tally).
            Inr (s\<lparr>pc_tally := tally\<rparr>))))"

section \<open>Queries\<close>

definition Plasma_GetRequestBatchTally :: "plasma_state \<Rightarrow> PlasmaTally" where
  "Plasma_GetRequestBatchTally s = pc_tally s"

definition Plasma_GetPendingTxs :: "plasma_state \<Rightarrow> PlasmaTx list" where
  "Plasma_GetPendingTxs s = pc_pending s"

text \<open>A coin that cannot be loaded is reported as nil.\<close>

definition Plasma_BalanceOf :: "address option \<Rightarrow> plasma_state \<Rightarrow> PlasmaCoin option list res" where
  "Plasma_BalanceOf owner s =
     bind_res (deref owner) (\<lambda>ownerAddr. Inr (map (pc_coins s) (pc_accounts s ownerAddr)))"

definition Plasma_GetUserSlots :: "address option \<Rightarrow> plasma_state \<Rightarrow> u64 list res" where
  "Plasma_GetUserSlots owner s =
     (case owner of None \<Rightarrow> Inl (Err ''invalid account parameter'') | Some a \<Rightarrow> Inr (pc_accounts s a))"

definition Plasma_GetCurrentBlock :: "plasma_state \<Rightarrow> int option" where
  "Plasma_GetCurrentBlock s = pc_height s"

definition Plasma_GetBlock :: "int option \<Rightarrow> plasma_state \<Rightarrow> PlasmaBlock res" where
  "Plasma_GetBlock blockHeight s = bind_res (deref blockHeight) (\<lambda>h. ctx_get (pc_blocks s) h)"

definition empty_tx :: PlasmaTx where
  "empty_tx = \<lparr>px_Slot = 0, px_PreviousBlock = None, px_Denomination = None, px_NewOwner = None,
     px_Sender = None, px_Signature = [], px_MerkleHash = [], px_Proof = []\<rparr>"

definition Plasma_GetPlasmaTx :: "plasma_env \<Rightarrow> int option \<Rightarrow> u64 \<Rightarrow> plasma_state \<Rightarrow> PlasmaTx res" where
  "Plasma_GetPlasmaTx E blockHeight slot s =
     (case blockHeight of
        None \<Rightarrow> Inl (Err ''invalid BlockHeight'')
      | Some h \<Rightarrow>
          bind_res (ctx_get (pc_blocks s) h) (\<lambda>pb.
          let leaves = fold (\<lambda>v m. m(px_Slot v \<mapsto> px_MerkleHash v)) (pb_Transactions pb) Map.empty;
              tx = fold (\<lambda>v tx. if px_Slot v = slot then v else tx) (pb_Transactions pb) empty_tx
          in bind_res (pe_smt_root E leaves) (\<lambda>_.
               Inr (tx\<lparr>px_Proof := pe_smt_proof E leaves slot\<rparr>))))"

section \<open>Batches\<close>

definition plasma_meta_pos :: "PlasmaEventMeta \<Rightarrow> u64 \<times> u64 \<times> u64" where
  "plasma_meta_pos m = (pm_BlockNumber m, pm_TxIndex m, pm_LogIndex m)"

definition plasma_pos :: "PlasmaTally \<Rightarrow> u64 \<times> u64 \<times> u64" where
  "plasma_pos t = (pt_LastSeenBlockNumber t, pt_LastSeenTxIndex t, pt_LastSeenLogIndex t)"

definition plasma_place :: "PlasmaRequest \<Rightarrow> (u64 \<times> u64 \<times> u64) option res" where
  "plasma_place r = (case pr_Data r of None \<Rightarrow> Inr None
     | Some _ \<Rightarrow> bind_res (deref (pr_Meta r)) (\<lambda>m. Inr (Some (plasma_meta_pos m))))"

definition plasma_mark :: "PlasmaRequest \<Rightarrow> PlasmaTally" where
  "plasma_mark r = (case pr_Meta r of None \<Rightarrow> no_tally | Some m \<Rightarrow> plasma_tally_of m)"

lemma plasma_seen_iff: "plasma_isRequestAlreadySeen m t \<longleftrightarrow> plasma_meta_pos m \<le> plasma_pos t"
  by (auto simp: plasma_isRequestAlreadySeen_def plasma_meta_pos_def plasma_pos_def)

lemma plasma_pos_of [simp]: "plasma_pos (plasma_tally_of m) = plasma_meta_pos m"
  by (simp add: plasma_pos_def plasma_tally_of_def plasma_meta_pos_def)

interpretation pbatch: request_batch plasma_batch_loop "\<lambda>r. plasma_consume (the (pr_Data r))"
  plasma_place plasma_pos plasma_mark
proof
  show "plasma_batch_loop [] st = Inr st" for st by simp
  show "plasma_batch_loop (r # rs) (s, t) = bind_res (plasma_place r) (\<lambda>p.
      case p of None \<Rightarrow> plasma_batch_loop rs (s, t)
      | Some q \<Rightarrow> if q \<le> plasma_pos t then plasma_batch_loop rs (s, t)
                  else bind_res (plasma_consume (the (pr_Data r)) s) (\<lambda>s'. plasma_batch_loop rs (s', plasma_mark r)))"
    for r rs s t
    by (cases "pr_Data r"; cases "pr_Meta r")
      (simp_all add: plasma_place_def plasma_mark_def plasma_seen_iff)
  show "plasma_place r = Inr (Some q) \<Longrightarrow> plasma_pos (plasma_mark r) = q" for r q
    by (cases "pr_Data r"; cases "pr_Meta r") (auto simp: plasma_place_def plasma_mark_def)
qed

text \<open>The requests of a batch that are consumed after a tally.\<close>

definition plasma_new :: "PlasmaTally \<Rightarrow> PlasmaRequest list \<Rightarrow> PlasmaRequestData list" where
  "plasma_new t rs = map (\<lambda>r. the (pr_Data r)) (pbatch.fresh (plasma_pos t) rs)"

lemma fold_res_map: "fold_res f (map g xs) s = fold_res (\<lambda>x. f (g x)) xs s"
  by (induction xs arbitrary: s) (auto intro: bind_res_cong)

lemma wrap_err_Inr [simp]: "wrap_err m r = Inr x \<longleftrightarrow> r = Inr x"
  by (auto simp: wrap_err_def split: sum.splits go_error.splits)

text \<open>A batch whose last request was seen is not looked at.\<close>

definition plasma_consumed :: "PlasmaTally \<Rightarrow> PlasmaRequest list \<Rightarrow> PlasmaRequestData list" where
  "plasma_consumed t rs =
     (if rs = [] then []
      else case pr_Meta (last rs) of
          None \<Rightarrow> []
        | Some m \<Rightarrow> if plasma_isRequestAlreadySeen m t then [] else plasma_new t rs)"

lemma ProcessRequestBatchE:
  assumes "Plasma_ProcessRequestBatch ctx rs s = Inr s'"
  obtains s1 t where "fold_res plasma_consume (plasma_consumed (pc_tally s) rs) s = Inr s1"
    and "s' = s1\<lparr>pc_tally := t\<rparr>"
    and "HasPermission (pc_perms s) (sender ctx) SubmitEventsPermission [plasmaOracleRole]"
proof -
  have perm: "HasPermission (pc_perms s) (sender ctx) SubmitEventsPermission [plasmaOracleRole]"
    using assms by (auto simp: Plasma_ProcessRequestBatch_def split: if_splits)
  show thesis
  proof (cases "rs = [] \<or> (\<exists>m. pr_Meta (last rs) = Some m \<and> plasma_isRequestAlreadySeen m (pc_tally s))")
    case True
    with assms perm have "s' = s" "plasma_consumed (pc_tally s) rs = []"
      by (auto simp: Plasma_ProcessRequestBatch_def plasma_consumed_def split: if_splits)
    then show thesis using that [of s "pc_tally s"] perm by simp
  next
    case False
    with assms perm obtain m s1 t where m: "pr_Meta (last rs) = Some m"
      and loop: "plasma_batch_loop rs (s, pc_tally s) = Inr (s1, t)" and s': "s' = s1\<lparr>pc_tally := t\<rparr>"
      by (auto simp: Plasma_ProcessRequestBatch_def elim!: bind_resE)
    with False have "plasma_consumed (pc_tally s) rs = plasma_new (pc_tally s) rs"
      by (simp add: plasma_consumed_def)
    with pbatch.loop_fresh [OF loop] have "fold_res plasma_consume (plasma_consumed (pc_tally s) rs) s = Inr s1"
      by (simp add: plasma_new_def fold_res_map)
    with s' perm that show thesis by blast
  qed
qed

end
