(* ===== verification/Plasma_Custody.thy ===== *)
theory Plasma_Custody
  imports Plasma_Cash "HOL-Library.Multiset"
begin

text \<open>
  What the plasma cash contract guarantees. A ledger that knows one holder and one state per coin is
  the specification; the contract with its accounts, coins and batches implements it along every run
  (\<open>plasma_run\<close>) in which no coin is sent to its own holder and no slot in use is deposited again
  (\<open>careful_run\<close>). Blocks are numbered upwards and never overwritten, and the proofs handed out fit
  their roots. The last theorem is where the code falls short: a transfer to oneself.
\<close>

section \<open>Custody of coins\<close>

text \<open>
  What the contract is for, without accounts and lists: every coin has one holder and a state.
  \<open>custody\<close> says which operations are possible and what they do.
\<close>

type_synonym ledger = "u64 \<rightharpoonup> address \<times> CoinState"

datatype custody_op =
    Deposited u64 address
  | Moved u64 address address
  | ExitStarted u64
  | ExitCancelled u64
  | Withdrawn u64 address

fun custody :: "custody_op \<Rightarrow> ledger \<Rightarrow> ledger option" where
  "custody (Deposited slot a) L =
     (if L slot = None then Some (L(slot \<mapsto> (a, CoinState_DEPOSITED))) else None)"
| "custody (Moved slot a b) L =
     (if L slot = Some (a, CoinState_DEPOSITED) then Some (L(slot \<mapsto> (b, CoinState_DEPOSITED))) else None)"
| "custody (ExitStarted slot) L =
     (case L slot of Some (a, CoinState_DEPOSITED) \<Rightarrow> Some (L(slot \<mapsto> (a, CoinState_EXITING))) | _ \<Rightarrow> None)"
| "custody (ExitCancelled slot) L =
     (case L slot of Some (a, CoinState_EXITING) \<Rightarrow> Some (L(slot \<mapsto> (a, CoinState_DEPOSITED))) | _ \<Rightarrow> None)"
| "custody (Withdrawn slot a) L =
     (case L slot of Some (b, _) \<Rightarrow> if b = a then Some (L(slot := None)) else None | None \<Rightarrow> None)"

fun custody_run :: "custody_op list \<Rightarrow> ledger \<Rightarrow> ledger option" where
  "custody_run [] L = Some L"
| "custody_run (op # ops) L = Option.bind (custody op L) (custody_run ops)"

lemma custody_run_append: "custody_run (xs @ ys) L = Option.bind (custody_run xs L) (custody_run ys)"
proof (induction xs arbitrary: L)
  case Nil
  then show ?case by simp
next
  case (Cons x xs)
  then show ?case by (cases "custody x L") simp_all
qed

text \<open>
  The contract accepts two operations that the ledger refuses: a coin sent to its own holder, and a
  deposit of a slot that is in use. \<open>careful_run\<close> says of a sequence of operations that neither
  occurs in it; \<open>held\<close> keeps the slots in use.
\<close>

fun held :: "custody_op \<Rightarrow> u64 set \<Rightarrow> u64 set" where
  "held (Deposited slot a) H = insert slot H"
| "held (Withdrawn slot a) H = H - {slot}"
| "held _ H = H"

fun careful :: "custody_op \<Rightarrow> u64 set \<Rightarrow> bool" where
  "careful (Deposited slot a) H = (slot \<notin> H)"
| "careful (Moved slot a b) H = (a \<noteq> b)"
| "careful _ H = True"

fun careful_run :: "u64 set \<Rightarrow> custody_op list \<Rightarrow> bool" where
  "careful_run H [] = True"
| "careful_run H (op # ops) = (careful op H \<and> careful_run (held op H) ops)"

lemma custody_held: "custody opn L = Some L' \<Longrightarrow> held opn (dom L) = dom L'"
  by (cases opn) (auto split: if_splits option.splits CoinState.splits)

lemma careful_run_append:
  "custody_run xs L = Some L' \<Longrightarrow>
     careful_run (dom L) (xs @ ys) \<longleftrightarrow> careful_run (dom L) xs \<and> careful_run (dom L') ys"
proof (induction xs arbitrary: L)
  case Nil
  then show ?case by simp
next
  case (Cons x xs)
  then obtain L1 where "custody x L = Some L1" "custody_run xs L1 = Some L'"
    by (auto simp: bind_eq_Some_conv)
  with Cons.IH [of L1] custody_held [of x L L1] show ?case by auto
qed

lemma careful_run_prefix: "careful_run H (xs @ ys) \<Longrightarrow> careful_run H xs"
  by (induction xs arbitrary: H) simp_all

text \<open>The state represents a ledger: coins and states agree, and an account lists each coin of its
  owner exactly once.\<close>

definition represents :: "ledger \<Rightarrow> plasma_state \<Rightarrow> bool" where
  "represents L s \<longleftrightarrow>
     (\<forall>slot. map_option co_State (pc_coins s slot) = map_option snd (L slot)) \<and>
     (\<forall>slot c. pc_coins s slot = Some c \<longrightarrow> co_Slot c = slot) \<and>
     (\<forall>a. distinct (pc_accounts s a) \<and> set (pc_accounts s a) = {slot. \<exists>st. L slot = Some (a, st)})"

lemma representsD:
  assumes "represents L s"
  shows "pc_coins s slot = None \<longleftrightarrow> L slot = None"
    and "pc_coins s slot = Some c \<Longrightarrow> co_Slot c = slot \<and> (\<exists>a. L slot = Some (a, co_State c))"
    and "distinct (pc_accounts s a)"
    and "slot \<in> set (pc_accounts s a) \<longleftrightarrow> (\<exists>st. L slot = Some (a, st))"
proof -
  have st: "map_option co_State (pc_coins s slot) = map_option snd (L slot)"
    using assms by (simp add: represents_def)
  then show "pc_coins s slot = None \<longleftrightarrow> L slot = None"
    by (metis map_option_is_None)
  show "co_Slot c = slot \<and> (\<exists>a. L slot = Some (a, co_State c))" if "pc_coins s slot = Some c"
    using assms st that by (cases "L slot") (auto simp: represents_def)
  show "distinct (pc_accounts s a)" "slot \<in> set (pc_accounts s a) \<longleftrightarrow> (\<exists>st. L slot = Some (a, st))"
    using assms by (simp_all add: represents_def)
qed

lemma slot_index_Some: "slot_index x xs = Some i \<Longrightarrow> i < length xs \<and> xs ! i = x"
  by (induction xs arbitrary: i) (auto split: if_splits)

lemma slot_index_None: "slot_index x xs = None \<longleftrightarrow> x \<notin> set xs"
  by (induction xs) auto

lemma mset_swap_remove:
  assumes "i < length xs"
  shows "mset (swap_remove xs i) = mset xs - {#xs ! i#}"
proof -
  let ?ys = "xs[i := last xs]"
  have ne: "?ys \<noteq> []" "xs \<noteq> []" using assms by auto
  then have "last ?ys = last xs"
    by (cases "i = length xs - 1") (auto simp: last_conv_nth)
  then have "mset ?ys = add_mset (last xs) (mset (butlast ?ys))"
    using append_butlast_last_id [OF ne(1)] by (metis add_mset_add_single mset.simps mset_append)
  then show ?thesis
    using assms by (simp add: swap_remove_def mset_update)
qed

lemma swap_remove_distinct:
  assumes "i < length xs" and "distinct xs"
  shows "distinct (swap_remove xs i)" and "set (swap_remove xs i) = set xs - {xs ! i}"
proof -
  have m: "mset (swap_remove xs i) = mset (remove1 (xs ! i) xs)"
    using assms(1) by (simp add: mset_swap_remove)
  then have "set_mset (mset (swap_remove xs i)) = set_mset (mset (remove1 (xs ! i) xs))" by (simp only:)
  then show "set (swap_remove xs i) = set xs - {xs ! i}"
    using assms(2) by (simp only: set_mset_mset set_remove1_eq)
  show "distinct (swap_remove xs i)"
    using distinct_remove1 [OF assms(2), of "xs ! i"] mset_eq_imp_distinct_iff [OF m] by simp
qed

subsection \<open>Every operation implements its abstract one\<close>

lemma pc_save_simps [simp]:
  "pc_coins (saveCoin c s) = (pc_coins s)(co_Slot c \<mapsto> c)"
  "pc_accounts (saveCoin c s) = pc_accounts s"
  "pc_perms (saveCoin c s) = pc_perms s"
  "pc_height (saveCoin c s) = pc_height s"
  "pc_blocks (saveCoin c s) = pc_blocks s"
  "pc_pending (saveCoin c s) = pc_pending s"
  "pc_tally (saveCoin c s) = pc_tally s"
  "pc_coins (plasma_saveAccount a xs s) = pc_coins s"
  "pc_accounts (plasma_saveAccount a xs s) = (pc_accounts s)(a := xs)"
  "pc_perms (plasma_saveAccount a xs s) = pc_perms s"
  "pc_height (plasma_saveAccount a xs s) = pc_height s"
  "pc_blocks (plasma_saveAccount a xs s) = pc_blocks s"
  "pc_pending (plasma_saveAccount a xs s) = pc_pending s"
  "pc_tally (plasma_saveAccount a xs s) = pc_tally s"
  by (simp_all add: saveCoin_def plasma_saveAccount_def)

lemma represents_cong:
  "represents L s \<Longrightarrow> pc_coins s' = pc_coins s \<Longrightarrow> pc_accounts s' = pc_accounts s \<Longrightarrow> represents L s'"
  by (simp add: represents_def)

lemma plasma_loadCoin_Inr [simp]: "plasma_loadCoin s slot = Inr c \<longleftrightarrow> pc_coins s slot = Some c"
  by (auto simp: plasma_loadCoin_def split: option.splits)

lemma transferCoin_refines:
  assumes L: "represents L s" and c: "pc_coins s slot = Some coin" and ab: "a \<noteq> b"
    and step: "transferCoin coin a b s = Inr s'"
  obtains L' where "custody (Moved slot a b) L = Some L'" and "represents L' s'"
    and "pc_coins s' = pc_coins s"
proof -
  obtain h where slot: "co_Slot coin = slot" and h: "L slot = Some (h, co_State coin)"
    using representsD(2) [OF L c] by blast
  from step slot obtain i where dep: "co_State coin = CoinState_DEPOSITED"
    and i: "slot_index slot (pc_accounts s a) = Some i"
    and s': "s' = plasma_saveAccount b (pc_accounts s b @ [pc_accounts s a ! i])
      (plasma_saveAccount a (swap_remove (pc_accounts s a) i) s)"
    by (auto simp: transferCoin_def Let_def split: if_splits option.splits)
  from slot_index_Some [OF i] have il: "i < length (pc_accounts s a)" "pc_accounts s a ! i = slot" by auto
  then have "slot \<in> set (pc_accounts s a)" using nth_mem by metis
  with h representsD(4) [OF L] have ha: "h = a" by auto
  note rem = swap_remove_distinct [OF il(1) representsD(3) [OF L], unfolded il(2)]
  have "slot \<notin> set (pc_accounts s b)" using representsD(4) [OF L] h ha ab by auto
  then have "represents (L(slot \<mapsto> (b, CoinState_DEPOSITED))) s'"
    using L rem ab h ha dep c unfolding s' il(2) represents_def by auto
  moreover have "custody (Moved slot a b) L = Some (L(slot \<mapsto> (b, CoinState_DEPOSITED)))"
    using h ha dep by simp
  ultimately show thesis using that s' by simp
qed

fun op_of :: "PlasmaRequestData \<Rightarrow> custody_op option" where
  "op_of (PlasmaRequest_Deposit req) = map_option (Deposited (pd_Slot req)) (pd_From req)"
| "op_of (PlasmaRequest_CoinReset slot) = Some (ExitCancelled slot)"
| "op_of (PlasmaRequest_StartedExit slot) = Some (ExitStarted slot)"
| "op_of (PlasmaRequest_Withdraw owner slot) = map_option (Withdrawn slot) owner"

lemma depositRequest_refines:
  assumes L: "represents L s" and new: "L (pd_Slot req) = None" and step: "depositRequest req s = Inr s'"
  obtains a L' where "pd_From req = Some a" and "custody (Deposited (pd_Slot req) a) L = Some L'"
    and "represents L' s'"
proof -
  from step obtain a where a: "pd_From req = Some a"
    and s': "pc_accounts s' = (pc_accounts s)(a := pc_accounts s a @ [pd_Slot req])"
    "pc_coins s' = (pc_coins s)(pd_Slot req \<mapsto> \<lparr>co_Slot = pd_Slot req, co_State = CoinState_DEPOSITED,
       co_Token = pd_Denomination req, co_Contract = pd_Contract req\<rparr>)"
    by (auto simp: depositRequest_def Let_def elim!: bind_resE split: if_splits)
  have "pd_Slot req \<notin> set (pc_accounts s a)" using representsD(4) [OF L] new by simp
  then have "represents (L(pd_Slot req \<mapsto> (a, CoinState_DEPOSITED))) s'"
    using L new unfolding represents_def s' by auto
  with a new that show thesis by simp
qed

lemma saveCoin_refines:
  assumes "represents L s" and "pc_coins s slot = Some c" and "L slot = Some (a, st)"
  shows "represents (L(slot \<mapsto> (a, st'))) (saveCoin (c\<lparr>co_State := st'\<rparr>) s)"
  using assms representsD(2) [OF assms(1,2)] unfolding represents_def by auto

lemma withdrawCoin_refines:
  assumes L: "represents L s" and step: "withdrawCoin owner slot s = Inr s'"
  obtains a L' where "owner = Some a" and "custody (Withdrawn slot a) L = Some L'" and "represents L' s'"
proof -
  from step obtain coin a i where c: "pc_coins s slot = Some coin" "owner = Some a"
    and i: "slot_index (co_Slot coin) (pc_accounts s a) = Some i"
    and s': "s' = (plasma_saveAccount a (swap_remove (pc_accounts s a) i) s)
      \<lparr>pc_coins := (pc_coins s)(pc_accounts s a ! i := None)\<rparr>"
    by (auto simp: withdrawCoin_def Let_def elim!: bind_resE split: option.splits)
  have slot: "co_Slot coin = slot" using representsD(2) [OF L c(1)] by blast
  from slot_index_Some [OF i] slot have il: "i < length (pc_accounts s a)" "pc_accounts s a ! i = slot" by auto
  then have "slot \<in> set (pc_accounts s a)" using nth_mem by metis
  with representsD(4) [OF L] obtain st where h: "L slot = Some (a, st)" by auto
  note rem = swap_remove_distinct [OF il(1) representsD(3) [OF L], unfolded il(2)]
  have "represents (L(slot := None)) s'"
    using L rem h unfolding s' il(2) represents_def by auto
  with c(2) h that show thesis by simp
qed

lemma plasma_consume_refines:
  assumes "represents L s" and "plasma_consume d s = Inr s'"
    and "\<And>req. d = PlasmaRequest_Deposit req \<Longrightarrow> L (pd_Slot req) = None"
  obtains opn L' where "op_of d = Some opn" and "custody opn L = Some L'" and "represents L' s'"
proof (cases d)
  case (PlasmaRequest_Deposit req)
  with assms(2) have "depositRequest req s = Inr s'" by (simp add: plasma_consume_def)
  then obtain a L' where "pd_From req = Some a" "custody (Deposited (pd_Slot req) a) L = Some L'" "represents L' s'"
    using depositRequest_refines [OF assms(1) assms(3) [OF PlasmaRequest_Deposit]] by blast
  with PlasmaRequest_Deposit that show thesis by simp
next
  case (PlasmaRequest_CoinReset slot)
  with assms(2) obtain c where c: "pc_coins s slot = Some c" "co_State c = CoinState_EXITING"
    "s' = saveCoin (c\<lparr>co_State := CoinState_DEPOSITED\<rparr>) s"
    by (auto simp: plasma_consume_def coinReset_def elim!: bind_resE split: if_splits)
  then obtain a where "L slot = Some (a, CoinState_EXITING)" using representsD(2) [OF assms(1)] by metis
  with saveCoin_refines [OF assms(1) c(1) this] c(3) PlasmaRequest_CoinReset that show thesis by simp
next
  case (PlasmaRequest_StartedExit slot)
  with assms(2) obtain c where c: "pc_coins s slot = Some c" "co_State c = CoinState_DEPOSITED"
    "s' = saveCoin (c\<lparr>co_State := CoinState_EXITING\<rparr>) s"
    by (auto simp: plasma_consume_def exitCoin_def elim!: bind_resE split: if_splits)
  then obtain a where "L slot = Some (a, CoinState_DEPOSITED)" using representsD(2) [OF assms(1)] by metis
  with saveCoin_refines [OF assms(1) c(1) this] c(3) PlasmaRequest_StartedExit that show thesis by simp
next
  case (PlasmaRequest_Withdraw owner slot)
  with assms(2) have "withdrawCoin owner slot s = Inr s'" by (simp add: plasma_consume_def)
  then obtain a L' where "owner = Some a" "custody (Withdrawn slot a) L = Some L'" "represents L' s'"
    using withdrawCoin_refines [OF assms(1)] by blast
  with PlasmaRequest_Withdraw that show thesis by (simp del: custody.simps)
qed

lemma plasma_consume_all:
  assumes "represents L s" and "fold_res plasma_consume ds s = Inr s'"
    and "careful_run (dom L) (map (\<lambda>d. the (op_of d)) ds)"
  shows "\<exists>L'. custody_run (map (\<lambda>d. the (op_of d)) ds) L = Some L' \<and> represents L' s'"
  using assms
proof (induction ds arbitrary: L s)
  case Nil
  then show ?case by simp
next
  case (Cons d ds)
  from Cons.prems(2) obtain s1 where s1: "plasma_consume d s = Inr s1" "fold_res plasma_consume ds s1 = Inr s'"
    by (auto elim: bind_resE)
  have fresh: "L (pd_Slot req) = None" if d: "d = PlasmaRequest_Deposit req" for req
  proof -
    from s1(1) d obtain a where "pd_From req = Some a"
      by (auto simp: plasma_consume_def depositRequest_def Let_def elim!: bind_resE split: if_splits)
    with Cons.prems(3) d show ?thesis by auto
  qed
  obtain opn L1 where o1: "op_of d = Some opn" "custody opn L = Some L1" "represents L1 s1"
    using plasma_consume_refines [OF Cons.prems(1) s1(1) fresh] .
  with Cons.prems(3) custody_held [OF o1(2)] have "careful_run (dom L1) (map (\<lambda>d. the (op_of d)) ds)" by simp
  from Cons.IH [OF o1(3) s1(2) this] o1(1,2) show ?case by simp
qed

section \<open>Runs of the contract\<close>

text \<open>
  The steps of the contract, every state-changing method of it, with the abstract operations they
  stand for. Heights are those of an \<open>int64\<close>: no block is submitted within 1000 of its end.
\<close>

inductive plasma_step :: "plasma_env \<Rightarrow> plasma_state \<Rightarrow> custody_op list \<Rightarrow> plasma_state \<Rightarrow> bool"
  for E :: plasma_env where
  changes_oracle: "Plasma_UpdateOracle E ctx new s = Inr s' \<Longrightarrow> plasma_step E s [] s'"
| submits: "Plasma_SubmitBlockToMainnet E ctx s = Inr (s', r) \<Longrightarrow>
    (\<And>h. pc_height s = Some h \<Longrightarrow> h < 2 ^ 63 - 1000) \<Longrightarrow> plasma_step E s [] s'"
| transfers: "Plasma_PlasmaTxRequest E ctx mapper (Some tx) s = Inr s' \<Longrightarrow>
    px_Sender tx = Some a \<Longrightarrow> px_NewOwner tx = Some b \<Longrightarrow>
    plasma_step E s [Moved (px_Slot tx) a b] s'"
| reports: "Plasma_ProcessRequestBatch ctx rs s = Inr s' \<Longrightarrow> ds = plasma_consumed (pc_tally s) rs \<Longrightarrow>
    plasma_step E s (map (\<lambda>d. the (op_of d)) ds) s'"

inductive plasma_run :: "plasma_env \<Rightarrow> custody_op list \<Rightarrow> plasma_state \<Rightarrow> bool" for E :: plasma_env where
  run_init: "Plasma_Init E o1 empty_plasma = Inr s \<Longrightarrow> plasma_run E [] s"
| run_step: "plasma_run E ops s \<Longrightarrow> plasma_step E s new s' \<Longrightarrow> plasma_run E (ops @ new) s'"

lemma registerOracle_frame:
  assumes "plasma_registerOracle E new cur s = Inr s'"
  shows "pc_coins s' = pc_coins s" and "pc_accounts s' = pc_accounts s" and "pc_pending s' = pc_pending s"
    and "pc_height s' = pc_height s" and "pc_blocks s' = pc_blocks s" and "pc_tally s' = pc_tally s"
  using assms by (auto simp: plasma_registerOracle_def Let_def split: option.splits if_splits)

lemma UpdateOracle_frame:
  "Plasma_UpdateOracle E ctx new s = Inr s' \<Longrightarrow>
     pc_coins s' = pc_coins s \<and> pc_accounts s' = pc_accounts s \<and> pc_pending s' = pc_pending s \<and>
     pc_height s' = pc_height s \<and> pc_blocks s' = pc_blocks s"
  using registerOracle_frame by (auto simp: Plasma_UpdateOracle_def split: if_splits)

lemma SubmitBlockE:
  assumes "Plasma_SubmitBlockToMainnet E ctx s = Inr (s', r)"
  obtains (idle) "pc_pending s = []" and "s' = s" and "r = None"
  | (block) h txs leaves root where "pc_pending s \<noteq> []" and "pc_height s = Some h" and "r = Some root"
    and "fold_res (plasma_hash_tx E) (pc_pending s) ([], Map.empty) = Inr (txs, leaves)"
    and "pe_smt_root E leaves = Inr root"
    and "s' = s\<lparr>pc_height := Some (plasma_round (i64 h) 1000),
        pc_blocks := (pc_blocks s)(plasma_round (i64 h) 1000 \<mapsto>
          \<lparr>pb_Uid = plasma_round (i64 h) 1000,
           pb_Transactions = map (\<lambda>v. v\<lparr>px_Proof := pe_smt_proof E leaves (px_Slot v)\<rparr>) txs,
           pb_MerkleHash = root\<rparr>),
        pc_pending := []\<rparr>"
  using assms
  by (auto simp: Plasma_SubmitBlockToMainnet_def Let_def elim!: bind_resE split: if_splits intro: idle block)

lemma verifyPlasmaRequestD:
  assumes "verifyPlasmaRequest E ctx mapper req = Inr u"
  obtains tx a d p b hash m where "req = Some tx" and "px_Sender tx = Some a" and "px_Denomination tx = Some d"
    and "px_PreviousBlock tx = Some p" and "px_NewOwner tx = Some b"
    and "pe_tx_hash E (px_Slot tx) d (Local b) p (px_Proof tx) = Inr hash"
    and "pe_recover E hash (px_Signature tx) = Inr (Local a)"
    and "mapper (sender ctx) = Some m" and "Local (am_To m) = Local a"
  using assms
  by (auto simp: verifyPlasmaRequest_def GetMapping_def elim!: bind_resE
      split: option.splits if_splits sum.splits intro: that)

lemma PlasmaTxRequestE:
  assumes "Plasma_PlasmaTxRequest E ctx mapper req s = Inr s'"
  obtains tx a b coin s1 where "req = Some tx" and "px_Sender tx = Some a" and "px_NewOwner tx = Some b"
    and "verifyPlasmaRequest E ctx mapper req = Inr ()"
    and "px_Slot tx \<notin> px_Slot ` set (pc_pending s)" and "pc_coins s (px_Slot tx) = Some coin"
    and "transferCoin coin a b s = Inr s1" and "s' = s1\<lparr>pc_pending := pc_pending s1 @ [tx]\<rparr>"
  using assms
  by (auto simp: Plasma_PlasmaTxRequest_def elim!: bind_resE
      split: sum.splits go_error.splits if_splits intro: that)

lemma transferCoin_frame:
  "transferCoin coin a b s = Inr s' \<Longrightarrow> pc_pending s' = pc_pending s \<and> pc_height s' = pc_height s \<and>
     pc_blocks s' = pc_blocks s \<and> pc_perms s' = pc_perms s \<and> pc_tally s' = pc_tally s"
  by (auto simp: transferCoin_def Let_def split: if_splits option.splits)

lemma plasma_step_refines:
  assumes "plasma_step E s ops s'" and L: "represents L s" and careful: "careful_run (dom L) ops"
  shows "\<exists>L'. custody_run ops L = Some L' \<and> represents L' s'"
  using assms(1)
proof cases
  case (changes_oracle ctx new)
  with UpdateOracle_frame [OF changes_oracle(2)] represents_cong [OF L] show ?thesis by simp
next
  case (submits ctx r)
  from submits(2) have "pc_coins s' = pc_coins s" "pc_accounts s' = pc_accounts s"
    by (cases rule: SubmitBlockE; simp)+
  with submits(1) represents_cong [OF L] show ?thesis by simp
next
  case (transfers ctx mapper tx a b)
  from transfers(2) obtain coin s1 where c: "pc_coins s (px_Slot tx) = Some coin"
    "transferCoin coin a b s = Inr s1" "s' = s1\<lparr>pc_pending := pc_pending s1 @ [tx]\<rparr>"
    by (rule PlasmaTxRequestE) (use transfers(3,4) in auto)
  obtain L' where "custody (Moved (px_Slot tx) a b) L = Some L'" "represents L' s1"
    using transferCoin_refines [OF L c(1) _ c(2)] careful transfers(1) by auto
  with transfers(1) c(3) show ?thesis
    by (auto intro!: exI [of _ L'] intro: represents_cong simp del: custody.simps)
next
  case (reports ctx rs ds)
  from reports(2) obtain s1 t where s1: "fold_res plasma_consume ds s = Inr s1" "s' = s1\<lparr>pc_tally := t\<rparr>"
    using reports(3) by (auto elim: ProcessRequestBatchE)
  from plasma_consume_all [OF L s1(1)] careful reports(1) obtain L' where
    "custody_run ops L = Some L'" "represents L' s1" by auto
  with s1(2) represents_cong [of L' s1 s'] show ?thesis by simp
qed

lemma Init_state:
  assumes "Plasma_Init E o1 empty_plasma = Inr s"
  shows "represents Map.empty s" and "pc_height s = Some 0" and "pc_pending s = []" and "pc_blocks s = Map.empty"
  using assms registerOracle_frame
  by (auto simp: Plasma_Init_def represents_def empty_plasma_def elim!: bind_resE)

section \<open>Heights, pending transactions and the oracle\<close>

lemma plasma_round_bounds:
  assumes "0 \<le> n" and "n < 2 ^ 63 - 1000"
  shows "n < plasma_round n 1000" and "plasma_round n 1000 \<le> n + 1000" and "1000 dvd plasma_round n 1000"
proof -
  consider "n = 0" | "n \<noteq> 0" "n mod 1000 = 0" | "n \<noteq> 0" "n mod 1000 \<noteq> 0" by blast
  then have "n < plasma_round n 1000 \<and> plasma_round n 1000 \<le> n + 1000 \<and> 1000 dvd plasma_round n 1000"
  proof cases
    case 1
    then show ?thesis by (simp add: plasma_round_def)
  next
    case 2
    moreover have "i64 (n + 1000) = n + 1000" using assms by (intro i64_id) auto
    ultimately show ?thesis
      using assms by (simp add: plasma_round_def go_mod_nonneg dvd_eq_mod_eq_0)
  next
    case 3
    have a: "i64 (n + 999) = n + 999" using assms by (intro i64_id) auto
    have q: "n < (n + 999) div 1000 * 1000 \<and> (n + 999) div 1000 * 1000 \<le> n + 1000"
    proof -
      have "(n + 999 - 999) mod 1000 = ((n + 999) mod 1000 - 999) mod 1000" by (simp only: mod_diff_left_eq)
      with 3(2) have "(n + 999) mod 1000 \<noteq> 999" by auto
      moreover have "0 \<le> (n + 999) mod 1000" "(n + 999) mod 1000 < 1000" by simp_all
      moreover have "(n + 999) div 1000 * 1000 = n + 999 - (n + 999) mod 1000"
        by (simp add: minus_mod_eq_div_mult)
      ultimately show ?thesis by linarith
    qed
    then have "i64 ((n + 999) div 1000 * 1000) = (n + 999) div 1000 * 1000"
      using assms by (intro i64_id) auto
    with 3 a q assms show ?thesis
      by (simp add: plasma_round_def go_mod_nonneg go_quot_def)
  qed
  then show "n < plasma_round n 1000" "plasma_round n 1000 \<le> n + 1000" "1000 dvd plasma_round n 1000" by auto
qed

text \<open>Blocks do not lie above the current height, the pending transactions have different slots,
  and exactly one address is the oracle.\<close>

definition sole_oracle :: "permissions \<Rightarrow> address \<Rightarrow> bool" where
  "sole_oracle ps orc \<longleftrightarrow>
     (\<forall>a. \<forall>p \<in> {ChangeOraclePermission, SubmitEventsPermission}. HasPermission ps a p [plasmaOracleRole] \<longleftrightarrow> a = orc)"

definition plasma_ok :: "plasma_state \<Rightarrow> bool" where
  "plasma_ok s \<longleftrightarrow>
     (\<exists>h. pc_height s = Some h \<and> 0 \<le> h \<and> (\<forall>k. pc_blocks s k \<noteq> None \<longrightarrow> k \<le> h)) \<and>
     distinct (map px_Slot (pc_pending s)) \<and>
     (\<exists>orc. sole_oracle (pc_perms s) orc)"

lemma registerOracle_perms:
  assumes "plasma_registerOracle E new cur s = Inr s'"
    and "\<And>a p. p \<in> {ChangeOraclePermission, SubmitEventsPermission} \<Longrightarrow>
      HasPermission (pc_perms s) a p [plasmaOracleRole] \<Longrightarrow> cur = Some a"
  obtains orc where "new = Some orc" and "sole_oracle (pc_perms s') orc"
proof -
  define ps where "ps = (case cur of None \<Rightarrow> pc_perms s | Some c \<Rightarrow>
    RevokePermissionFrom (RevokePermissionFrom (pc_perms s) c ChangeOraclePermission plasmaOracleRole)
      c SubmitEventsPermission plasmaOracleRole)"
  from assms(1) obtain orc where orc: "new = Some orc" "pc_perms s' = GrantPermissionTo
      (GrantPermissionTo ps orc ChangeOraclePermission plasmaOracleRole) orc SubmitEventsPermission plasmaOracleRole"
    by (auto simp: plasma_registerOracle_def Let_def ps_def split: option.splits if_splits)
  have "\<not> HasPermission ps a p [plasmaOracleRole]" if "p \<in> {ChangeOraclePermission, SubmitEventsPermission}" for a p
    using assms(2) [OF that, of a] that by (cases cur) (auto simp: ps_def HasPermission_Revoke)
  then have "sole_oracle (pc_perms s') orc"
    unfolding sole_oracle_def orc(2) HasPermission_Grant by auto
  with orc(1) show thesis by (rule that)
qed

definition deposit_block :: "PlasmaDeposit \<Rightarrow> int \<Rightarrow> PlasmaBlock" where
  "deposit_block req k = \<lparr>pb_Uid = k, pb_Transactions = [\<lparr>px_Slot = pd_Slot req, px_PreviousBlock = None,
     px_Denomination = pd_Denomination req, px_NewOwner = pd_From req, px_Sender = None, px_Signature = [],
     px_MerkleHash = [], px_Proof = replicate 8 0\<rparr>], pb_MerkleHash = []\<rparr>"

lemma plasma_consume_frame:
  assumes "plasma_consume d s = Inr s'"
  shows "pc_pending s' = pc_pending s" and "pc_perms s' = pc_perms s" and "pc_tally s' = pc_tally s"
    and "pc_height s' = pc_height s \<and> pc_blocks s' = pc_blocks s \<or>
     (\<exists>req h k. d = PlasmaRequest_Deposit req \<and> pc_height s = Some h \<and> pd_DepositBlock req = Some k \<and>
       pc_height s' = Some (max h k) \<and> pc_blocks s' = (pc_blocks s)(k \<mapsto> deposit_block req k))"
  using assms
  by (auto simp: plasma_consume_def depositRequest_def coinReset_def exitCoin_def withdrawCoin_def Let_def
      deposit_block_def elim!: bind_resE split: PlasmaRequestData.splits if_splits option.splits)

lemma plasma_consume_ok:
  assumes "plasma_ok s" and "plasma_consume d s = Inr s'"
  shows "plasma_ok s'"
proof -
  note frame = plasma_consume_frame [OF assms(2)]
  have "\<exists>h. pc_height s' = Some h \<and> 0 \<le> h \<and> (\<forall>k. pc_blocks s' k \<noteq> None \<longrightarrow> k \<le> h)"
    using frame(4) assms(1) by (fastforce simp: plasma_ok_def max_def split: if_splits)
  with frame(1,2) assms(1) show ?thesis by (simp add: plasma_ok_def)
qed

lemma plasma_step_ok:
  assumes "plasma_step E s ops s'" and ok: "plasma_ok s"
  shows "plasma_ok s'"
  using assms(1)
proof cases
  case (changes_oracle ctx new)
  from changes_oracle(2) have perm: "HasPermission (pc_perms s) (sender ctx) ChangeOraclePermission [plasmaOracleRole]"
    and reg: "plasma_registerOracle E new (Some (sender ctx)) s = Inr s'"
    by (auto simp: Plasma_UpdateOracle_def split: if_splits)
  from ok obtain orc where orc: "sole_oracle (pc_perms s) orc"
    by (auto simp: plasma_ok_def)
  with perm have "sender ctx = orc" by (simp add: sole_oracle_def)
  with orc have cur: "Some (sender ctx) = Some a"
    if "p \<in> {ChangeOraclePermission, SubmitEventsPermission}" "HasPermission (pc_perms s) a p [plasmaOracleRole]" for a p
    using that by (auto simp: sole_oracle_def)
  have "\<exists>o2. sole_oracle (pc_perms s') o2"
    by (rule registerOracle_perms [OF reg]) (erule (1) cur, blast)
  with UpdateOracle_frame [OF changes_oracle(2)] ok show ?thesis by (auto simp: plasma_ok_def)
next
  case (submits ctx r)
  from submits(2) show ?thesis
  proof (cases rule: SubmitBlockE)
    case idle
    with ok show ?thesis by simp
  next
    case (block h txs leaves root)
    from ok block(2) have h: "0 \<le> h" "\<And>k. pc_blocks s k \<noteq> None \<Longrightarrow> k \<le> h" by (auto simp: plasma_ok_def)
    have "i64 h = h" using h(1) submits(3) [OF block(2)] by (intro i64_id) auto
    moreover have "k \<le> plasma_round h 1000" if "pc_blocks s k \<noteq> None" for k
      using h(2) [OF that] plasma_round_bounds(1) [OF h(1) submits(3) [OF block(2)]] by simp
    ultimately show ?thesis
      using plasma_round_bounds(1) [OF h(1) submits(3) [OF block(2)]] h(1) ok block
      by (auto simp: plasma_ok_def)
  qed
next
  case (transfers ctx mapper tx a b)
  from transfers(2) show ?thesis
    by (rule PlasmaTxRequestE) (use ok in \<open>auto simp: plasma_ok_def dest!: transferCoin_frame\<close>)
next
  case (reports ctx rs ds)
  from reports(2) show ?thesis
  proof (rule ProcessRequestBatchE)
    fix s1 t
    assume run: "fold_res plasma_consume (plasma_consumed (pc_tally s) rs) s = Inr s1"
      and s': "s' = s1\<lparr>pc_tally := t\<rparr>"
    from run ok have "plasma_ok s1" by (rule fold_res_invariant) (rule plasma_consume_ok)
    with s' show ?thesis by (simp add: plasma_ok_def)
  qed
qed

lemma plasma_run_ok:
  assumes "plasma_run E ops s"
  shows "plasma_ok s"
  using assms
proof induction
  case (run_init o1 s)
  from run_init have reg: "\<exists>s1. plasma_registerOracle E o1 None empty_plasma = Inr s1 \<and> s = s1\<lparr>pc_height := Some 0\<rparr>"
    by (auto simp: Plasma_Init_def elim!: bind_resE)
  have "\<exists>orc. sole_oracle (pc_perms s) orc"
  proof -
    from reg obtain s1 where s1: "plasma_registerOracle E o1 None empty_plasma = Inr s1" "s = s1\<lparr>pc_height := Some 0\<rparr>"
      by blast
    show ?thesis
      by (rule registerOracle_perms [OF s1(1)]) (simp_all add: empty_plasma_def HasPermission_def s1(2), blast)
  qed
  with Init_state [OF run_init] show "plasma_ok s" by (simp add: plasma_ok_def)
next
  case (run_step ops s new s')
  from run_step.hyps(2) run_step.IH show "plasma_ok s'" by (rule plasma_step_ok)
qed

lemma plasma_run_custody:
  assumes "plasma_run E ops s" and "careful_run {} ops"
  shows "\<exists>L. custody_run ops Map.empty = Some L \<and> represents L s"
  using assms
proof induction
  case (run_init o1 s)
  from Init_state [OF run_init(1)] show ?case by simp
next
  case (run_step ops s new s')
  have "careful_run {} ops" using run_step.prems by (rule careful_run_prefix)
  with run_step.IH obtain L where L: "custody_run ops Map.empty = Some L" "represents L s" by blast
  from careful_run_append [OF L(1), of new] run_step.prems have "careful_run (dom L) new" by simp
  from plasma_step_refines [OF run_step.hyps(2) L(2) this] L(1) show ?case
    by (simp add: custody_run_append)
qed

section \<open>Blocks and their proofs\<close>

definition leaves_of :: "PlasmaTx list \<Rightarrow> (u64 \<rightharpoonup> bytes)" where
  "leaves_of txs = fold (\<lambda>v m. m(px_Slot v \<mapsto> px_MerkleHash v)) txs Map.empty"

lemma leaves_of_append [simp]: "leaves_of (xs @ [v]) = (leaves_of xs)(px_Slot v \<mapsto> px_MerkleHash v)"
  by (simp add: leaves_of_def)

lemma leaves_of_unknown: "slot \<notin> px_Slot ` set txs \<Longrightarrow> leaves_of txs slot = None"
  by (induction txs rule: rev_induct) (auto simp: leaves_of_def)

lemma leaves_of_known:
  "distinct (map px_Slot txs) \<Longrightarrow> v \<in> set txs \<Longrightarrow> leaves_of txs (px_Slot v) = Some (px_MerkleHash v)"
  by (induction txs rule: rev_induct) (auto simp: leaves_of_def, metis image_eqI)

lemma pick_known:
  "distinct (map px_Slot txs) \<Longrightarrow> v \<in> set txs \<Longrightarrow>
     fold (\<lambda>v tx. if px_Slot v = px_Slot u then v else tx) txs d = v" if "px_Slot u = px_Slot v" for u
  using that by (induction txs rule: rev_induct) (auto simp: image_iff)

lemma leaves_of_proofs:
  "leaves_of (map (\<lambda>v. v\<lparr>px_Proof := f v\<rparr>) txs) = leaves_of txs"
  by (induction txs rule: rev_induct) (simp_all add: leaves_of_def)

definition hashed :: "plasma_env \<Rightarrow> PlasmaTx \<Rightarrow> PlasmaTx \<Rightarrow> bool" where
  "hashed E v t \<longleftrightarrow> (\<exists>h. plasma_leaf E v = Inr h \<and> t = v\<lparr>px_MerkleHash := h\<rparr>)"

lemma hash_tx_Inr:
  "plasma_hash_tx E v (acc, m) = Inr x \<longleftrightarrow>
     (\<exists>h. plasma_leaf E v = Inr h \<and> x = (acc @ [v\<lparr>px_MerkleHash := h\<rparr>], m(px_Slot v \<mapsto> h)))"
  by (auto simp: plasma_hash_tx_def bind_res_eq_Inr_iff)

lemma hash_txs:
  assumes "fold_res (plasma_hash_tx E) vs ([], Map.empty) = Inr (txs, leaves)"
  shows "list_all2 (hashed E) vs txs" and "leaves = leaves_of txs"
proof -
  have "\<exists>new. list_all2 (hashed E) vs new \<and> txs = acc @ new \<and> leaves = leaves_of txs"
    if "fold_res (plasma_hash_tx E) vs (acc, leaves_of acc) = Inr (txs, leaves)" for acc
    using that
  proof (induction vs arbitrary: acc)
    case Nil
    then show ?case by auto
  next
    case (Cons v vs)
    then obtain h where h: "plasma_leaf E v = Inr h"
      "fold_res (plasma_hash_tx E) vs (acc @ [v\<lparr>px_MerkleHash := h\<rparr>], leaves_of (acc @ [v\<lparr>px_MerkleHash := h\<rparr>])) =
         Inr (txs, leaves)"
      by (auto simp: hash_tx_Inr elim!: bind_resE)
    from Cons.IH [OF h(2)] obtain new where "list_all2 (hashed E) vs new"
      "txs = acc @ v\<lparr>px_MerkleHash := h\<rparr> # new" "leaves = leaves_of txs" by auto
    moreover have "hashed E v (v\<lparr>px_MerkleHash := h\<rparr>)" using h(1) by (auto simp: hashed_def)
    ultimately show ?case by (intro exI [of _ "v\<lparr>px_MerkleHash := h\<rparr> # new"]) simp
  qed
  from this [of "[]"] assms show "list_all2 (hashed E) vs txs" "leaves = leaves_of txs"
    by (auto simp: leaves_of_def)
qed

lemma hashed_slots:
  assumes "list_all2 (hashed E) vs txs"
  shows "map px_Slot txs = map px_Slot vs"
  using assms by (induction rule: list_all2_induct) (auto simp: hashed_def)

lemma hashed_member:
  assumes "list_all2 (hashed E) vs txs" and "t \<in> set txs"
  obtains v where "v \<in> set vs" and "hashed E v t"
proof -
  from assms(2) obtain i where "i < length txs" "t = txs ! i" by (auto simp: in_set_conv_nth)
  with assms(1) have "vs ! i \<in> set vs" "hashed E (vs ! i) t" by (auto simp: list_all2_conv_all_nth)
  then show thesis by (rule that)
qed

section \<open>Properties\<close>

subsection \<open>An example\<close>

definition demo_alice :: address where "demo_alice = Address ''eth'' [1]"
definition demo_bob :: address where "demo_bob = Address ''eth'' [2]"
definition demo_relay :: address where "demo_relay = Address ''default'' [9]"

definition demo_plasma_env :: plasma_env where
  "demo_plasma_env = \<lparr>pe_smt_root = (\<lambda>_. Inr [0]),
     pe_smt_proof = (\<lambda>m slot. case m slot of None \<Rightarrow> [] | Some b \<Rightarrow> 1 # b),
     pe_slot_hash = (\<lambda>slot. Inr [7]), pe_rlp = (\<lambda>slot p d b. Inr b), pe_keccak = (\<lambda>b. 3 # b),
     pe_tx_hash = (\<lambda>slot d b p proof. Inr b), pe_recover = (\<lambda>hash sig. Inr sig),
     pe_is_empty = (\<lambda>_. False)\<rparr>"

definition demo_mapper :: am_store where
  "demo_mapper = [Address ''default'' [1] \<mapsto> \<lparr>am_From = Address ''default'' [1], am_To = demo_alice\<rparr>]"

definition demo_user_ctx :: call_ctx where
  "demo_user_ctx = (plain_ctx (Address ''default'' [1]))\<lparr>resolve := (\<lambda>_. Inr demo_relay)\<rparr>"

definition demo_transfer :: "address \<Rightarrow> PlasmaTx" where
  "demo_transfer receiver = \<lparr>px_Slot = 5, px_PreviousBlock = Some 1, px_Denomination = Some 10,
     px_NewOwner = Some receiver, px_Sender = Some demo_alice, px_Signature = [1], px_MerkleHash = [], px_Proof = []\<rparr>"

definition demo_batch :: "PlasmaRequest list" where
  "demo_batch = [\<lparr>pr_Meta = Some \<lparr>pm_BlockNumber = 4, pm_TxIndex = 0, pm_LogIndex = 1\<rparr>,
     pr_Data = Some (PlasmaRequest_Deposit \<lparr>pd_Slot = 5, pd_DepositBlock = Some 1, pd_Denomination = Some 10,
       pd_From = Some demo_alice, pd_Contract = None\<rparr>)\<rparr>]"

definition plasma_or :: "plasma_state res \<Rightarrow> plasma_state" where
  "plasma_or r = (case r of Inr s \<Rightarrow> s | Inl _ \<Rightarrow> empty_plasma)"

definition demo_p0 :: plasma_state where
  "demo_p0 = plasma_or (Plasma_Init demo_plasma_env (Some demo_relay) empty_plasma)"
definition demo_p1 :: plasma_state where
  "demo_p1 = plasma_or (Plasma_ProcessRequestBatch (plain_ctx demo_relay) demo_batch demo_p0)"
definition demo_p2 :: plasma_state where
  "demo_p2 = plasma_or (Plasma_PlasmaTxRequest demo_plasma_env demo_user_ctx demo_mapper (Some (demo_transfer demo_bob)) demo_p1)"

lemma plasma_orI: "\<not> isl r \<Longrightarrow> r = Inr (plasma_or r)"
  by (cases r) (simp_all add: plasma_or_def)

lemma demo_p0: "Plasma_Init demo_plasma_env (Some demo_relay) empty_plasma = Inr demo_p0"
  unfolding demo_p0_def by (rule plasma_orI) code_simp

lemma demo_p1: "Plasma_ProcessRequestBatch (plain_ctx demo_relay) demo_batch demo_p0 = Inr demo_p1"
  unfolding demo_p1_def by (rule plasma_orI) code_simp

lemma demo_p2:
  "Plasma_PlasmaTxRequest demo_plasma_env demo_user_ctx demo_mapper (Some (demo_transfer demo_bob)) demo_p1 = Inr demo_p2"
  unfolding demo_p2_def by (rule plasma_orI) code_simp

lemma demo_consumed:
  "plasma_consumed (pc_tally demo_p0) demo_batch =
     [PlasmaRequest_Deposit \<lparr>pd_Slot = 5, pd_DepositBlock = Some 1, pd_Denomination = Some 10,
       pd_From = Some demo_alice, pd_Contract = None\<rparr>]"
proof -
  have "pc_tally demo_p0 = no_tally" by code_simp
  then show ?thesis
    by (simp add: plasma_consumed_def plasma_new_def demo_batch_def plasma_isRequestAlreadySeen_def no_tally_def
        plasma_place_def plasma_pos_def plasma_meta_pos_def)
qed

lemma demo_run: "plasma_run demo_plasma_env [Deposited 5 demo_alice, Moved 5 demo_alice demo_bob] demo_p2"
proof -
  from reports [OF demo_p1 refl, of demo_plasma_env] have s1: "plasma_step demo_plasma_env demo_p0 [Deposited 5 demo_alice] demo_p1"
    by (simp add: demo_consumed)
  have s2: "plasma_step demo_plasma_env demo_p1 [Moved 5 demo_alice demo_bob] demo_p2"
    using transfers [OF demo_p2, of demo_alice demo_bob] by (simp add: demo_transfer_def demo_alice_def demo_bob_def)
  from run_step [OF run_step [OF run_init [OF demo_p0] s1] s2] show ?thesis by simp
qed

text \<open>C19: custody. However deposits, transfers, exits, withdrawals, blocks and changes of the oracle
  follow each other, as long as no accepted transfer is from a holder to itself and no accepted deposit
  is of a slot in use, the operations the contract accepted are a run of the abstract ledger, and the
  stored coins and accounts represent the ledger it ends with: every coin is listed once, in the
  account of its only holder, in the state of the ledger. The contract itself refuses neither of the
  two exceptions, and a transfer to oneself breaks the conclusion.\<close>

theorem plasma_refines_custody:
  assumes "plasma_run E ops s" and "careful_run {} ops"
  shows "\<exists>L. custody_run ops Map.empty = Some L \<and> represents L s"
  using assms by (rule plasma_run_custody)

theorem plasma_refines_custody_witness:
  "represents [5 \<mapsto> (demo_bob, CoinState_DEPOSITED)] demo_p2"
proof -
  have "custody_run [Deposited 5 demo_alice, Moved 5 demo_alice demo_bob] Map.empty = Some [5 \<mapsto> (demo_bob, CoinState_DEPOSITED)]"
    by simp
  moreover have "careful_run {} [Deposited 5 demo_alice, Moved 5 demo_alice demo_bob]"
    by (simp add: demo_alice_def demo_bob_def)
  ultimately show ?thesis using plasma_refines_custody [OF demo_run] by simp
qed

text \<open>C21: a plasma transaction is accepted only from the holder: the message comes from an account
  mapped to the address that signed the transaction, the coin is deposited, listed in the account of
  the signer, and not yet part of the pending block; the transaction is then appended to the block. If
  the new owner is another address, exactly this coin moves from the signer to the new owner; if it is
  the signer, the account lists the coin once more than before, which the code should not do. Every
  other account, the coins and the blocks stay as they are.\<close>

theorem plasma_transfer_authorised:
  assumes "Plasma_PlasmaTxRequest E ctx mapper (Some tx) s = Inr s'"
  shows "\<exists>a b d p hash m coin. px_Sender tx = Some a \<and> px_NewOwner tx = Some b \<and>
    px_Denomination tx = Some d \<and> px_PreviousBlock tx = Some p \<and>
    pe_tx_hash E (px_Slot tx) d (Local b) p (px_Proof tx) = Inr hash \<and>
    pe_recover E hash (px_Signature tx) = Inr (Local a) \<and>
    mapper (sender ctx) = Some m \<and> Local (am_To m) = Local a \<and>
    px_Slot tx \<notin> px_Slot ` set (pc_pending s) \<and>
    pc_coins s (px_Slot tx) = Some coin \<and> co_State coin = CoinState_DEPOSITED \<and>
    co_Slot coin \<in> set (pc_accounts s a) \<and>
    pc_accounts s' b = pc_accounts s b @ [co_Slot coin] \<and>
    (a \<noteq> b \<longrightarrow> mset (pc_accounts s' a) = mset (pc_accounts s a) - {#co_Slot coin#}) \<and>
    (\<forall>x. x \<noteq> a \<longrightarrow> x \<noteq> b \<longrightarrow> pc_accounts s' x = pc_accounts s x) \<and>
    pc_coins s' = pc_coins s \<and> pc_pending s' = pc_pending s @ [tx] \<and> pc_blocks s' = pc_blocks s"
proof -
  from assms obtain a b coin s1 where r: "px_Sender tx = Some a" "px_NewOwner tx = Some b"
    "verifyPlasmaRequest E ctx mapper (Some tx) = Inr ()" "px_Slot tx \<notin> px_Slot ` set (pc_pending s)"
    "pc_coins s (px_Slot tx) = Some coin" "transferCoin coin a b s = Inr s1"
    "s' = s1\<lparr>pc_pending := pc_pending s1 @ [tx]\<rparr>"
    by (rule PlasmaTxRequestE) auto
  obtain d p hash m where v: "px_Denomination tx = Some d" "px_PreviousBlock tx = Some p"
    "pe_tx_hash E (px_Slot tx) d (Local b) p (px_Proof tx) = Inr hash"
    "pe_recover E hash (px_Signature tx) = Inr (Local a)"
    "mapper (sender ctx) = Some m" "Local (am_To m) = Local a"
    using r(3) by (rule verifyPlasmaRequestD) (use r(1,2) in auto)
  from r(6) obtain i where t: "co_State coin = CoinState_DEPOSITED"
    "slot_index (co_Slot coin) (pc_accounts s a) = Some i"
    "s1 = plasma_saveAccount b (pc_accounts s b @ [pc_accounts s a ! i])
      (plasma_saveAccount a (swap_remove (pc_accounts s a) i) s)"
    by (auto simp: transferCoin_def Let_def split: if_splits option.splits)
  from slot_index_Some [OF t(2)] have i: "i < length (pc_accounts s a)" "pc_accounts s a ! i = co_Slot coin" by auto
  then have "co_Slot coin \<in> set (pc_accounts s a)" using nth_mem by metis
  with r v t i mset_swap_remove [OF i(1)] show ?thesis by simp
qed

theorem plasma_transfer_authorised_witness:
  "pc_accounts demo_p2 demo_bob = pc_accounts demo_p1 demo_bob @ [5] \<and> 5 \<in> set (pc_accounts demo_p1 demo_alice)"
proof -
  from plasma_transfer_authorised [OF demo_p2] obtain coin where
    "pc_coins demo_p1 5 = Some coin" "co_Slot coin \<in> set (pc_accounts demo_p1 demo_alice)"
    "pc_accounts demo_p2 demo_bob = pc_accounts demo_p1 demo_bob @ [co_Slot coin]"
    by (auto simp: demo_transfer_def)
  moreover have "map_option co_Slot (pc_coins demo_p1 5) = Some 5" by code_simp
  ultimately show ?thesis by simp
qed

text \<open>submitting a block. With transactions pending, the oracle closes them into one block at the next
  multiple of 1000 above every block so far, so that no block is overwritten; the block holds exactly
  the pending transactions in order, each with the hash of its leaf, and nothing is pending afterwards.\<close>

theorem submit_block_effect:
  assumes "plasma_run E ops s" and "Plasma_SubmitBlockToMainnet E ctx s = Inr (s', r)" and "pc_pending s \<noteq> []"
    and "\<And>h. pc_height s = Some h \<Longrightarrow> h < 2 ^ 63 - 1000"
  shows "\<exists>h h' pb root. pc_height s = Some h \<and> pc_height s' = Some h' \<and> h < h' \<and> h' \<le> h + 1000 \<and> 1000 dvd h' \<and>
    (\<forall>k \<ge> h'. pc_blocks s k = None) \<and> pc_blocks s' = (pc_blocks s)(h' \<mapsto> pb) \<and>
    r = Some root \<and> pb_MerkleHash pb = root \<and>
    list_all2 (\<lambda>v t. \<exists>leaf proof. plasma_leaf E v = Inr leaf \<and> t = v\<lparr>px_MerkleHash := leaf, px_Proof := proof\<rparr>)
      (pc_pending s) (pb_Transactions pb) \<and>
    pc_pending s' = [] \<and> pc_coins s' = pc_coins s \<and> pc_accounts s' = pc_accounts s"
  using assms(2)
proof (cases rule: SubmitBlockE)
  case idle
  with assms(3) show ?thesis by simp
next
  case (block h txs leaves root)
  from plasma_run_ok [OF assms(1)] block(2) have h: "0 \<le> h" "\<And>k. pc_blocks s k \<noteq> None \<Longrightarrow> k \<le> h"
    by (auto simp: plasma_ok_def)
  note bound = assms(4) [OF block(2)]
  have id: "i64 h = h" using h(1) bound by (intro i64_id) auto
  note round = plasma_round_bounds [OF h(1) bound]
  have none: "\<forall>k \<ge> plasma_round h 1000. pc_blocks s k = None"
    using h(2) round(1) by force
  let ?txs = "map (\<lambda>v. v\<lparr>px_Proof := pe_smt_proof E leaves (px_Slot v)\<rparr>) txs"
  have "list_all2 (\<lambda>v t. \<exists>leaf proof. plasma_leaf E v = Inr leaf \<and> t = v\<lparr>px_MerkleHash := leaf, px_Proof := proof\<rparr>)
      (pc_pending s) ?txs"
    using hash_txs(1) [OF block(4)] unfolding list.rel_map
    by (rule list.rel_mono_strong) (auto simp: hashed_def)
  with block id round none show ?thesis
    by (intro exI [of _ h] exI [of _ "plasma_round h 1000"] exI [of _ root]
        exI [of _ "\<lparr>pb_Uid = plasma_round h 1000, pb_Transactions = ?txs, pb_MerkleHash = root\<rparr>"]) simp
qed

theorem submit_block_effect_witness:
  "\<exists>s' h'. Plasma_SubmitBlockToMainnet demo_plasma_env (plain_ctx demo_relay) demo_p2 = Inr (s', Some [0]) \<and>
     pc_height s' = Some h' \<and> 1 < h' \<and> h' \<le> 1001 \<and> 1000 dvd h'"
proof -
  let ?r = "Plasma_SubmitBlockToMainnet demo_plasma_env (plain_ctx demo_relay) demo_p2"
  have "\<not> isl ?r" and h: "pc_height demo_p2 = Some 1" and ne: "length (pc_pending demo_p2) = 1"
    and root: "(case ?r of Inr (_, x) \<Rightarrow> x | _ \<Rightarrow> None) = Some [0]" by code_simp+
  from this(1,4) obtain s' where s': "?r = Inr (s', Some [0])" by (cases ?r) auto
  from ne have "pc_pending demo_p2 \<noteq> []" by auto
  from submit_block_effect [OF demo_run s' this] h show ?thesis using s' by auto
qed

text \<open>C20: what a user needs to exit: for every slot, the contract hands out a proof against the Merkle
  root of a submitted block, as long as that block is stored: of the leaf of the transaction with that
  slot, together with the transaction, or of its absence. The Merkle tree library is taken to give
  proofs that its verifier accepts.\<close>

theorem plasma_block_proofs:
  assumes smt: "\<And>leaves slot r. pe_smt_root E leaves = Inr r \<Longrightarrow> accepts r slot (leaves slot) (pe_smt_proof E leaves slot)"
    and "plasma_run E ops s" and "Plasma_SubmitBlockToMainnet E ctx s = Inr (s', Some root)"
    and "pc_height s' = Some h" and "pc_blocks s'' h = pc_blocks s' h"
  shows "\<exists>tx. Plasma_GetPlasmaTx E (Some h) slot s'' = Inr tx \<and>
    (if slot \<in> px_Slot ` set (pc_pending s)
     then \<exists>v leaf. v \<in> set (pc_pending s) \<and> px_Slot v = slot \<and> plasma_leaf E v = Inr leaf \<and>
        tx = v\<lparr>px_MerkleHash := leaf, px_Proof := px_Proof tx\<rparr> \<and> accepts root slot (Some leaf) (px_Proof tx)
     else accepts root slot None (px_Proof tx))"
  using assms(3)
proof (cases rule: SubmitBlockE)
  case idle
  then show ?thesis by simp
next
  case (block h0 txs leaves root')
  let ?txs = "map (\<lambda>v. v\<lparr>px_Proof := pe_smt_proof E leaves (px_Slot v)\<rparr>) txs"
  let ?pick = "fold (\<lambda>v tx. if px_Slot v = slot then v else tx) ?txs empty_tx"
  note hash = hash_txs [OF block(4)]
  have leaves: "leaves_of ?txs = leaves" by (simp add: leaves_of_proofs hash(2))
  have slots: "map px_Slot ?txs = map px_Slot (pc_pending s)"
    using hashed_slots [OF hash(1)] by (simp add: comp_def)
  have slotset: "px_Slot ` set ?txs = px_Slot ` set (pc_pending s)"
    using arg_cong [OF slots, of set] by (simp only: set_map)
  have dist: "distinct (map px_Slot ?txs)"
    using plasma_run_ok [OF assms(2)] unfolding slots plasma_ok_def by blast
  have "pc_blocks s'' h = Some \<lparr>pb_Uid = h, pb_Transactions = ?txs, pb_MerkleHash = root\<rparr>"
    using assms(4,5) block by simp
  then have get: "Plasma_GetPlasmaTx E (Some h) slot s'' = Inr (?pick\<lparr>px_Proof := pe_smt_proof E leaves slot\<rparr>)"
    using block(5) leaves by (simp add: Plasma_GetPlasmaTx_def leaves_of_def Let_def)
  have proof_ok: "accepts root slot (leaves slot) (pe_smt_proof E leaves slot)"
    using smt [OF block(5)] block(3) by simp
  show ?thesis
  proof (cases "slot \<in> px_Slot ` set (pc_pending s)")
    case True
    then have "slot \<in> px_Slot ` set ?txs" by (simp only: slotset)
    then obtain t where t: "t \<in> set ?txs" "px_Slot t = slot" by auto
    then obtain t0 where t0: "t0 \<in> set txs" "t = t0\<lparr>px_Proof := pe_smt_proof E leaves (px_Slot t0)\<rparr>" by auto
    from hashed_member [OF hash(1) t0(1)] obtain v where v: "v \<in> set (pc_pending s)" "hashed E v t0" .
    then obtain leaf where leaf: "plasma_leaf E v = Inr leaf" "t0 = v\<lparr>px_MerkleHash := leaf\<rparr>"
      by (auto simp: hashed_def)
    have "?pick = t" using pick_known [OF _ dist t(1), of t] t(2) by simp
    moreover have "leaves slot = Some leaf"
      using leaves_of_known [OF dist t(1)] t(2) leaf(2) t0(2) by (simp add: leaves)
    moreover have "t = v\<lparr>px_MerkleHash := leaf, px_Proof := pe_smt_proof E leaves slot\<rparr>" "px_Slot v = slot"
      using leaf(2) t0(2) t(2) by simp_all
    ultimately show ?thesis
      using True get proof_ok v(1) leaf(1)
      by (intro exI [of _ "v\<lparr>px_MerkleHash := leaf, px_Proof := pe_smt_proof E leaves slot\<rparr>"]) auto
  next
    case False
    then have "slot \<notin> px_Slot ` set ?txs" by (simp only: slotset not_False_eq_True)
    from leaves_of_unknown [OF this] leaves have "leaves slot = None" by simp
    with False get proof_ok show ?thesis by auto
  qed
qed

definition demo_accepts :: "bytes \<Rightarrow> u64 \<Rightarrow> slice \<Rightarrow> bytes \<Rightarrow> bool" where
  "demo_accepts root slot leaf proof \<longleftrightarrow> proof = (case leaf of None \<Rightarrow> [] | Some b \<Rightarrow> 1 # b)"

theorem plasma_block_proofs_witness:
  "\<exists>s' h tx5 tx6. Plasma_SubmitBlockToMainnet demo_plasma_env (plain_ctx demo_relay) demo_p2 = Inr (s', Some [0]) \<and>
     Plasma_GetPlasmaTx demo_plasma_env (Some h) 5 s' = Inr tx5 \<and> demo_accepts [0] 5 (Some [3, 2]) (px_Proof tx5) \<and>
     Plasma_GetPlasmaTx demo_plasma_env (Some h) 6 s' = Inr tx6 \<and> demo_accepts [0] 6 None (px_Proof tx6)"
proof -
  let ?r = "Plasma_SubmitBlockToMainnet demo_plasma_env (plain_ctx demo_relay) demo_p2"
  have "\<not> isl ?r" "(case ?r of Inr (_, x) \<Rightarrow> x | _ \<Rightarrow> None) = Some [0]"
    and h: "(case ?r of Inr (s, _) \<Rightarrow> pc_height s | _ \<Rightarrow> None) = Some 1000"
    and pend: "pc_pending demo_p2 = [demo_transfer demo_bob]"
    by code_simp+
  then obtain s' where s': "?r = Inr (s', Some [0])" by (cases ?r) auto
  with h have h': "pc_height s' = Some 1000" by simp
  have leaf: "plasma_leaf demo_plasma_env (demo_transfer demo_bob) = Inr [3, 2]" by code_simp
  have law: "\<And>leaves slot r. pe_smt_root demo_plasma_env leaves = Inr r \<Longrightarrow>
      demo_accepts r slot (leaves slot) (pe_smt_proof demo_plasma_env leaves slot)"
    by (simp add: demo_plasma_env_def demo_accepts_def)
  note proofs = plasma_block_proofs [of demo_plasma_env demo_accepts, OF law demo_run s' h' refl]
  have slot: "px_Slot (demo_transfer demo_bob) = 5" by (simp add: demo_transfer_def)
  from proofs [of 5] obtain tx5 where "Plasma_GetPlasmaTx demo_plasma_env (Some 1000) 5 s' = Inr tx5"
    "demo_accepts [0] 5 (Some [3, 2]) (px_Proof tx5)"
    by (auto simp: pend slot leaf)
  moreover from proofs [of 6] obtain tx6 where "Plasma_GetPlasmaTx demo_plasma_env (Some 1000) 6 s' = Inr tx6"
    "demo_accepts [0] 6 None (px_Proof tx6)"
    by (auto simp: pend slot)
  ultimately show ?thesis using s' by blast
qed

text \<open>reports are taken once: after a batch was processed, processing it again changes nothing, and
  the requests consumed by a batch lie strictly after everything consumed before, in increasing order.\<close>

theorem plasma_batch_once:
  assumes "Plasma_ProcessRequestBatch ctx rs s = Inr s'"
    and "HasPermission (pc_perms s') (sender ctx') SubmitEventsPermission [plasmaOracleRole]"
  shows "Plasma_ProcessRequestBatch ctx' rs s' = Inr s' \<and> plasma_pos (pc_tally s) \<le> plasma_pos (pc_tally s') \<and>
    sorted_wrt (<) (map pbatch.place_of (pbatch.fresh (plasma_pos (pc_tally s)) rs)) \<and>
    (\<forall>r \<in> set (pbatch.fresh (plasma_pos (pc_tally s)) rs). plasma_pos (pc_tally s) < pbatch.place_of r)"
proof -
  have perm: "HasPermission (pc_perms s) (sender ctx) SubmitEventsPermission [plasmaOracleRole]"
    using assms(1) by (auto simp: Plasma_ProcessRequestBatch_def split: if_splits)
  have "Plasma_ProcessRequestBatch ctx' rs s' = Inr s' \<and> plasma_pos (pc_tally s) \<le> plasma_pos (pc_tally s')"
  proof (cases "rs = [] \<or> (\<exists>m. pr_Meta (last rs) = Some m \<and> plasma_isRequestAlreadySeen m (pc_tally s))")
    case True
    with assms perm have "s' = s"
      by (auto simp: Plasma_ProcessRequestBatch_def split: if_splits)
    with True assms(2) show ?thesis by (auto simp: Plasma_ProcessRequestBatch_def)
  next
    case False
    with assms(1) perm obtain m s1 t where m: "pr_Meta (last rs) = Some m"
      and loop: "plasma_batch_loop rs (s, pc_tally s) = Inr (s1, t)" and s': "s' = s1\<lparr>pc_tally := t\<rparr>"
      by (auto simp: Plasma_ProcessRequestBatch_def elim!: bind_resE)
    have "plasma_batch_loop rs (s', t) = Inr (s', t)"
      by (rule pbatch.loop_replay [OF loop order_refl])
    with s' m assms(2) False have "Plasma_ProcessRequestBatch ctx' rs s' = Inr s'"
      by (simp add: Plasma_ProcessRequestBatch_def wrap_err_def)
    with pbatch.loop_forward [OF loop] s' show ?thesis by simp
  qed
  with pbatch.fresh_increasing show ?thesis by blast
qed

theorem plasma_batch_once_witness:
  "Plasma_ProcessRequestBatch (plain_ctx demo_relay) demo_batch demo_p1 = Inr demo_p1"
proof -
  have "HasPermission (pc_perms demo_p1) (sender (plain_ctx demo_relay)) SubmitEventsPermission [plasmaOracleRole]"
    by code_simp
  from plasma_batch_once [OF demo_p1 this] show ?thesis by blast
qed

text \<open>The balance of an account is the list of the coins the ledger gives to it.\<close>

theorem plasma_balance_exact:
  assumes "represents L s" and "Plasma_BalanceOf (Some a) s = Inr cs"
  shows "None \<notin> set cs \<and> distinct cs \<and> (\<lambda>c. co_Slot (the c)) ` set cs = {slot. \<exists>st. L slot = Some (a, st)}"
proof -
  have cs: "cs = map (pc_coins s) (pc_accounts s a)"
    using assms(2) by (simp add: Plasma_BalanceOf_def)
  have some: "\<exists>c. pc_coins s x = Some c \<and> co_Slot c = x" if "x \<in> set (pc_accounts s a)" for x
    using representsD(1,2,4) [OF assms(1), of x] that by (cases "pc_coins s x") auto
  then have "inj_on (pc_coins s) (set (pc_accounts s a))"
    by (metis (mono_tags, lifting) inj_onI option.inject)
  with representsD(3) [OF assms(1)] have "distinct cs" by (simp add: cs distinct_map)
  moreover have "(\<lambda>c. co_Slot (the c)) ` set cs = set (pc_accounts s a)"
    using some by (force simp: cs image_image)
  ultimately show ?thesis
    using some representsD(4) [OF assms(1)] by (fastforce simp: cs)
qed

text \<open>A transfer to oneself lists the coin twice, since the account is loaded twice and saved twice;
  once the block is submitted, a second transfer leaves the coin with both parties.\<close>

theorem plasma_self_transfer_duplicates:
  assumes "transferCoin coin a a s = Inr s1" and "a \<noteq> b"
    and "transferCoin coin a b s1 = Inr s2"
  shows "count_list (pc_accounts s1 a) (co_Slot coin) = count_list (pc_accounts s a) (co_Slot coin) + 1 \<and>
    co_Slot coin \<in> set (pc_accounts s2 a) \<and> co_Slot coin \<in> set (pc_accounts s2 b)"
proof -
  from assms(1) obtain i where i: "slot_index (co_Slot coin) (pc_accounts s a) = Some i"
    "pc_accounts s1 a = pc_accounts s a @ [pc_accounts s a ! i]"
    by (auto simp: transferCoin_def Let_def split: if_splits option.splits)
  from slot_index_Some [OF i(1)] have il: "pc_accounts s a ! i = co_Slot coin" "co_Slot coin \<in> set (pc_accounts s a)"
    using nth_mem by metis+
  from assms(2,3) obtain j where j: "slot_index (co_Slot coin) (pc_accounts s1 a) = Some j"
    "pc_accounts s2 a = swap_remove (pc_accounts s1 a) j"
    "pc_accounts s2 b = pc_accounts s1 b @ [pc_accounts s1 a ! j]"
    by (auto simp: transferCoin_def Let_def split: if_splits option.splits)
  from slot_index_Some [OF j(1)] have jl: "j < length (pc_accounts s1 a)" "pc_accounts s1 a ! j = co_Slot coin"
    by auto
  have "mset (pc_accounts s2 a) = mset (pc_accounts s a)"
    using mset_swap_remove [OF jl(1)] jl(2) by (simp add: j(2) i(2) il(1))
  then have "co_Slot coin \<in> set (pc_accounts s2 a)" using il(2) mset_eq_setD by blast
  with i(2) il(1) j(3) jl(2) show ?thesis by simp
qed

end
