(* ===== verification/Event_Log.thy ===== *)
theory Event_Log
  imports Diadem_Prelude "HOL-Library.AList" "HOL-Library.Product_Lexorder"
begin

text \<open>
  Events from the contract to the index: the handler of \<open>event.go\<close> keeps the events of a block until
  the block is committed and hands them to a dispatcher; the dispatcher of \<open>events/db_indexer.go\<close>
  writes them to the store of \<open>store/eventstore.go\<close>, which answers queries by contract and by range
  of blocks.

  The database is an association list from keys to values; an iterator walks the keys of an
  interval in ascending order, as the interface of Tendermint's databases says. Arguments of the
  model (\<open>event_env\<close>): the function that joins the parts of a key, the codecs, the text of an address.
\<close>

section \<open>Event store\<close>

record EventData =
  ed_PluginName :: string
  ed_Address :: "address option"
  ed_BlockHeight :: u64
  ed_BlockTime :: int
  ed_Topics :: "string list"
  ed_EncodedBody :: bytes

type_synonym u16 = "16 word"
type_synonym event_db = "(bytes \<times> bytes) list"

record event_env =
  ev_join :: "bytes list \<Rightarrow> bytes"
  ev_marshal :: "EventData \<Rightarrow> bytes res"
  ev_unmarshal :: "bytes \<Rightarrow> EventData res"
  ev_json :: "EventData \<Rightarrow> bytes res"
  ev_unjson :: "bytes \<Rightarrow> EventData res"
  ev_addr_string :: "address \<Rightarrow> string"

definition db_Get :: "event_db \<Rightarrow> bytes \<Rightarrow> slice" where
  "db_Get db k = map_of db k"

definition db_Set :: "bytes \<Rightarrow> bytes \<Rightarrow> event_db \<Rightarrow> event_db" where
  "db_Set k v db = AList.update k v db"

definition db_Iterator :: "bytes \<Rightarrow> bytes \<Rightarrow> event_db \<Rightarrow> (bytes \<times> bytes) list" where
  "db_Iterator start stop db = sort_key fst (filter (\<lambda>(k, _). start \<le> k \<and> k < stop) db)"

definition uint64ToBytes :: "u64 \<Rightarrow> bytes" where
  "uint64ToBytes n = be_encode64 n"

definition uint16ToBytes :: "u16 \<Rightarrow> bytes" where
  "uint16ToBytes n = be_bytes 2 (unat n)"

definition bytesToUint64 :: "slice \<Rightarrow> u64 res" where
  "bytesToUint64 b =
     (if slice_len b = 0 then Inr 0
      else case be_decode64 (case b of None \<Rightarrow> [] | Some x \<Rightarrow> x) of
          None \<Rightarrow> Inl (Panic ''index out of range'')
        | Some n \<Rightarrow> Inr n)"

definition prefixBlockHeightEventIndex :: "event_env \<Rightarrow> u64 \<Rightarrow> u16 \<Rightarrow> bytes" where
  "prefixBlockHeightEventIndex E blockHeight eventIndex =
     ev_join E [[1], uint64ToBytes blockHeight, uint16ToBytes eventIndex]"

definition prefixPluginName :: "event_env \<Rightarrow> string \<Rightarrow> bytes" where
  "prefixPluginName E pluginName = ev_join E [[2], go_bytes pluginName]"

definition prefixContractIDBlockHightEventIndex :: "event_env \<Rightarrow> u64 \<Rightarrow> u64 \<Rightarrow> u16 \<Rightarrow> bytes" where
  "prefixContractIDBlockHightEventIndex E contractID blockHeight eventIndex =
     ev_join E [[3], uint64ToBytes contractID, uint64ToBytes blockHeight, uint16ToBytes eventIndex]"

definition prefixContractIDBlockHight :: "event_env \<Rightarrow> u64 \<Rightarrow> u64 \<Rightarrow> bytes" where
  "prefixContractIDBlockHight E contractID blockHeight =
     ev_join E [[3], uint64ToBytes contractID, uint64ToBytes blockHeight]"

definition prefixLastContractID :: "event_env \<Rightarrow> bytes" where
  "prefixLastContractID E = ev_join E [[5], go_bytes ''contract-id'']"

definition nextContractID :: "event_env \<Rightarrow> event_db \<Rightarrow> (u64 \<times> event_db) res" where
  "nextContractID E db =
     bind_res (bytesToUint64 (db_Get db (prefixLastContractID E))) (\<lambda>n.
       let n = n + 1 in Inr (n, db_Set (prefixLastContractID E) (uint64ToBytes n) db))"

definition GetContractID :: "event_env \<Rightarrow> string \<Rightarrow> event_db \<Rightarrow> (u64 \<times> event_db) res" where
  "GetContractID E pluginName db =
     bind_res (bytesToUint64 (db_Get db (prefixPluginName E pluginName))) (\<lambda>n.
     bind_res (if n = 0 then nextContractID E db else Inr (n, db)) (\<lambda>(n, db).
       Inr (n, db_Set (prefixPluginName E pluginName) (uint64ToBytes n) db)))"

definition SaveEvent :: "event_env \<Rightarrow> u64 \<Rightarrow> u64 \<Rightarrow> u16 \<Rightarrow> EventData \<Rightarrow> event_db \<Rightarrow> event_db res" where
  "SaveEvent E contractID blockHeight eventIndex eventData db =
     bind_res (ev_marshal E eventData) (\<lambda>data.
       Inr (db_Set (prefixContractIDBlockHightEventIndex E contractID blockHeight eventIndex) data
             (db_Set (prefixBlockHeightEventIndex E blockHeight eventIndex) data db)))"

definition contract_name :: "event_env \<Rightarrow> EventData \<Rightarrow> string res" where
  "contract_name E event =
     (if ed_PluginName event = '''' then bind_res (deref (ed_Address event)) (\<lambda>a. Inr (ev_addr_string E a))
      else Inr (ed_PluginName event))"

text \<open>
  Contract ids are written at once, the events only when all have been collected in \<open>batch\<close>; with an
  error the ids stay. A panic is the error of the call.
\<close>

fun batch_events ::
    "event_env \<Rightarrow> nat \<Rightarrow> EventData list \<Rightarrow> (bytes \<times> bytes) list \<Rightarrow> event_db
      \<Rightarrow> ((bytes \<times> bytes) list option \<times> event_db) res" where
  "batch_events E i [] batch db = Inr (Some batch, db)"
| "batch_events E i (event # events) batch db =
     bind_res (contract_name E event) (\<lambda>contractName.
     bind_res (GetContractID E contractName db) (\<lambda>(contractID, db).
       case ev_marshal E event of
         Inl (Panic p) \<Rightarrow> Inl (Panic p)
       | Inl _ \<Rightarrow> Inr (None, db)
       | Inr data \<Rightarrow>
           let eventIndex = of_nat i in
           batch_events E (Suc i) events
             (batch @ [(prefixBlockHeightEventIndex E (ed_BlockHeight event) eventIndex, data),
                       (prefixContractIDBlockHightEventIndex E contractID (ed_BlockHeight event) eventIndex, data)])
             db))"

definition BatchSaveEvents :: "event_env \<Rightarrow> EventData list \<Rightarrow> event_db \<Rightarrow> event_db res" where
  "BatchSaveEvents E events db =
     bind_res (batch_events E 0 events [] db) (\<lambda>(batch, db).
       Inr (case batch of None \<Rightarrow> db | Some b \<Rightarrow> fold (\<lambda>(k, v). db_Set k v) b db))"

record EventFilter =
  ef_FromBlock :: u64
  ef_ToBlock :: u64
  ef_Contract :: string

definition read_events :: "event_env \<Rightarrow> (bytes \<times> bytes) list \<Rightarrow> EventData list res" where
  "read_events E kvs =
     fold_res (\<lambda>(_, v) events. bind_res (ev_unmarshal E v) (\<lambda>e. Inr (events @ [e]))) kvs []"

definition FilterEvents :: "event_env \<Rightarrow> EventFilter \<Rightarrow> event_db \<Rightarrow> (EventData list \<times> event_db) res" where
  "FilterEvents E flt db =
     (if ef_Contract flt \<noteq> ''''
      then
        bind_res (GetContractID E (ef_Contract flt) db) (\<lambda>(contractID, db).
        bind_res (read_events E (db_Iterator (prefixContractIDBlockHight E contractID (ef_FromBlock flt))
            (prefixContractIDBlockHight E contractID (ef_ToBlock flt + 1)) db)) (\<lambda>events. Inr (events, db)))
      else
        bind_res (read_events E (db_Iterator (prefixBlockHeightEventIndex E (ef_FromBlock flt) 0)
            (prefixBlockHeightEventIndex E (ef_ToBlock flt + 1) 0) db)) (\<lambda>events. Inr (events, db)))"

section \<open>Event handler\<close>

record 'd dispatcher =
  di_Send :: "u64 \<Rightarrow> nat \<Rightarrow> bytes \<Rightarrow> 'd \<Rightarrow> 'd res"
  di_Flush :: "'d \<Rightarrow> 'd res"

text \<open>
  What the handler tells the three sets of subscribers (by topic, Ethereum, Ethereum as it was), call
  by call.
\<close>

datatype subs_call =
    ResetSubs
  | PublishTopic string bytes
  | EmitEthEvent EventData
  | PublishLegacy bytes bytes

record 'd event_handler =
  eh_stash :: "u64 \<rightharpoonup> EventData list"
  eh_dispatcher :: 'd
  eh_calls :: "subs_call list"

definition stash_add :: "u64 \<Rightarrow> EventData \<Rightarrow> (u64 \<rightharpoonup> EventData list) \<Rightarrow> (u64 \<rightharpoonup> EventData list)" where
  "stash_add height msg m = m(height \<mapsto> (case m height of None \<Rightarrow> [] | Some es \<Rightarrow> es) @ [msg])"

definition stash_fetch :: "u64 \<Rightarrow> (u64 \<rightharpoonup> EventData list) \<Rightarrow> EventData list" where
  "stash_fetch height m = (case m height of None \<Rightarrow> [] | Some es \<Rightarrow> es)"

definition stash_purge :: "u64 \<Rightarrow> (u64 \<rightharpoonup> EventData list) \<Rightarrow> (u64 \<rightharpoonup> EventData list)" where
  "stash_purge height m = m(height := None)"

definition Post :: "u64 \<Rightarrow> EventData \<Rightarrow> 'd event_handler \<Rightarrow> 'd event_handler" where
  "Post height msg H =
     H\<lparr>eh_stash := stash_add height (if ed_BlockHeight msg = 0 then msg\<lparr>ed_BlockHeight := height\<rparr> else msg) (eh_stash H)\<rparr>"

text \<open>
  Errors of the codec and of the dispatcher are logged; what is sent after a codec error is empty. A
  panic is caught and becomes the error of the call; what a panicking dispatcher leaves behind is not
  modelled.
\<close>

definition published :: "event_env \<Rightarrow> EventData \<Rightarrow> subs_call list" where
  "published E msg =
     (let emitMsg = (case ev_json E msg of Inl _ \<Rightarrow> [] | Inr b \<Rightarrow> b);
          ethMsg = (case ev_marshal E msg of Inl _ \<Rightarrow> [] | Inr b \<Rightarrow> b)
      in [PublishTopic (''contract:'' @ ed_PluginName msg) emitMsg, EmitEthEvent msg, PublishLegacy ethMsg emitMsg] @
         map (\<lambda>topic. PublishTopic topic emitMsg) (ed_Topics msg))"

definition send_event ::
    "event_env \<Rightarrow> 'd dispatcher \<Rightarrow> u64 \<Rightarrow> int \<Rightarrow> nat \<times> EventData \<Rightarrow> 'd \<times> subs_call list \<Rightarrow> ('d \<times> subs_call list) res" where
  "send_event E D height blockTime im s =
     (let msg = (snd im)\<lparr>ed_BlockTime := blockTime\<rparr>;
          emitMsg = (case ev_json E msg of Inl _ \<Rightarrow> [] | Inr b \<Rightarrow> b);
          calls = snd s @ published E msg
      in case di_Send D height (fst im) emitMsg (fst s) of
           Inl (Panic p) \<Rightarrow> Inl (Panic p)
         | Inl _ \<Rightarrow> Inr (fst s, calls)
         | Inr d \<Rightarrow> Inr (d, calls))"

definition EmitBlockTx :: "event_env \<Rightarrow> 'd dispatcher \<Rightarrow> u64 \<Rightarrow> int \<Rightarrow> 'd event_handler \<Rightarrow> 'd event_handler res" where
  "EmitBlockTx E D height blockTime H =
     (let msgs = stash_fetch height (eh_stash H);
          s0 = (eh_dispatcher H, eh_calls H @ [ResetSubs, ResetSubs])
      in case bind_res (fold_res (send_event E D height blockTime) (enumerate 0 msgs) s0)
             (\<lambda>(d, calls). bind_res (di_Flush D d) (\<lambda>d. Inr (d, calls))) of
        Inl _ \<Rightarrow> Inl (Err ''caught panic publishing event'')
      | Inr (d, calls) \<Rightarrow> Inr (H\<lparr>eh_dispatcher := d, eh_calls := calls, eh_stash := stash_purge height (eh_stash H)\<rparr>))"

section \<open>Dispatchers\<close>

record indexer =
  ix_events :: "EventData list"
  ix_db :: event_db

definition DBIndexer_Send :: "event_env \<Rightarrow> u64 \<Rightarrow> nat \<Rightarrow> bytes \<Rightarrow> indexer \<Rightarrow> indexer res" where
  "DBIndexer_Send E blockHeight eventIndex msg ix =
     bind_res (ev_unjson E msg) (\<lambda>eventData. Inr (ix\<lparr>ix_events := ix_events ix @ [eventData]\<rparr>))"

definition DBIndexer_Flush :: "event_env \<Rightarrow> indexer \<Rightarrow> indexer res" where
  "DBIndexer_Flush E ix =
     (let flushEvents = ix_events ix; ix = ix\<lparr>ix_events := []\<rparr>
      in bind_res (BatchSaveEvents E flushEvents (ix_db ix)) (\<lambda>db. Inr (ix\<lparr>ix_db := db\<rparr>)))"

definition DBIndexer :: "event_env \<Rightarrow> indexer dispatcher" where
  "DBIndexer E = \<lparr>di_Send = DBIndexer_Send E, di_Flush = DBIndexer_Flush E\<rparr>"

definition LogEventDispatcher :: "unit dispatcher" where
  "LogEventDispatcher = \<lparr>di_Send = (\<lambda>_ _ _ d. Inr d), di_Flush = Inr\<rparr>"

section \<open>Subscribers by topic\<close>

text \<open>
  The set of clients and its lock; \<open>None\<close> is a call that waits for the lock it holds itself. What a
  subscriber is belongs to the publish-subscribe library: its operations are arguments.
\<close>

record 'c hub_ops =
  ho_new :: "string list \<Rightarrow> 'c"
  ho_subscribe :: "string list \<Rightarrow> 'c \<Rightarrow> 'c"
  ho_unsubscribe :: "string \<Rightarrow> 'c \<Rightarrow> 'c"
  ho_topics :: "'c \<Rightarrow> string list"

record 'c SubscriptionSet =
  ss_locked :: bool
  ss_clients :: "string \<rightharpoonup> 'c"

definition ss_Lock :: "'c SubscriptionSet \<Rightarrow> 'c SubscriptionSet option" where
  "ss_Lock s = (if ss_locked s then None else Some (s\<lparr>ss_locked := True\<rparr>))"

definition ss_Unlock :: "'c SubscriptionSet \<Rightarrow> 'c SubscriptionSet" where
  "ss_Unlock s = s\<lparr>ss_locked := False\<rparr>"

definition ss_For :: "'c hub_ops \<Rightarrow> string \<Rightarrow> 'c SubscriptionSet \<Rightarrow> ('c option \<times> bool \<times> 'c SubscriptionSet) option" where
  "ss_For P i s =
     Option.bind (ss_Lock s) (\<lambda>s.
       let exists = (ss_clients s i \<noteq> None);
           s = (if exists then s else s\<lparr>ss_clients := (ss_clients s)(i \<mapsto> ho_new P [''system:''])\<rparr>)
       in Some (ss_clients s i, exists, ss_Unlock s))"

definition ss_AddSubscription ::
    "'c hub_ops \<Rightarrow> string \<Rightarrow> string list \<Rightarrow> 'c SubscriptionSet \<Rightarrow> (bool \<times> 'c SubscriptionSet) option" where
  "ss_AddSubscription P i topics s =
     Option.bind (ss_Lock s) (\<lambda>s.
       case ss_clients s i of
         None \<Rightarrow> Some (False, ss_Unlock s)
       | Some sub \<Rightarrow>
           Some (True, ss_Unlock (s\<lparr>ss_clients := (ss_clients s)(i \<mapsto> ho_subscribe P (ho_topics P sub @ topics) sub)\<rparr>)))"

definition ss_Purge :: "string \<Rightarrow> 'c SubscriptionSet \<Rightarrow> 'c SubscriptionSet option" where
  "ss_Purge i s = Option.bind (ss_Lock s) (\<lambda>s. Some (ss_Unlock (s\<lparr>ss_clients := (ss_clients s)(i := None)\<rparr>)))"

definition ss_Remove :: "'c hub_ops \<Rightarrow> string \<Rightarrow> string \<Rightarrow> 'c SubscriptionSet \<Rightarrow> (bool \<times> 'c SubscriptionSet) option" where
  "ss_Remove P i topic s =
     Option.bind (ss_Lock s) (\<lambda>s.
       case ss_clients s i of
         None \<Rightarrow> Some (False, ss_Unlock s)
       | Some c \<Rightarrow>
           let c = ho_unsubscribe P topic c; s = s\<lparr>ss_clients := (ss_clients s)(i \<mapsto> c)\<rparr> in
           if ho_topics P c = []
           then Option.bind (ss_Purge i s) (\<lambda>s. Some (True, ss_Unlock s))
           else Some (True, ss_Unlock s))"

text \<open>Every call returns, except the removal of a client's last topic, which waits for its own lock.\<close>

lemma subscriptions_return:
  assumes "\<not> ss_locked s"
  shows "ss_For P i s \<noteq> None" and "ss_AddSubscription P i topics s \<noteq> None" and "ss_Purge i s \<noteq> None"
    and "ss_Remove P i topic s = None \<longleftrightarrow> (\<exists>c. ss_clients s i = Some c \<and> ho_topics P (ho_unsubscribe P topic c) = [])"
  using assms
  by (auto simp: ss_For_def ss_AddSubscription_def ss_Purge_def ss_Remove_def ss_Lock_def Let_def split: option.splits)

section \<open>Keys in order\<close>

text \<open>
  What is asked of the function that joins the parts of a key: parts of equal length are compared
  one after the other, and nothing is lost of a second part.
\<close>

definition ordered_keys :: "(bytes list \<Rightarrow> bytes) \<Rightarrow> bool" where
  "ordered_keys J \<longleftrightarrow>
     (\<forall>xs ys zs. list_all2 (\<lambda>a b. length a = length b) xs ys \<longrightarrow> (J xs \<le> J (ys @ zs) \<longleftrightarrow> xs \<le> ys)) \<and>
     (\<forall>p x y. J [p, x] = J [p, y] \<longrightarrow> x = y)"

lemma snoc_less_snoc:
  fixes xs ys :: "'a::linorder list"
  assumes "length xs = length ys"
  shows "xs @ [a] < ys @ [b] \<longleftrightarrow> xs < ys \<or> xs = ys \<and> a < b"
  using assms by (induction xs ys rule: list_induct2) auto

lemma be_bytes_less:
  assumes "m < n" and "n < 256 ^ k"
  shows "be_bytes k m < be_bytes k n"
  using assms
proof (induction k arbitrary: m n)
  case 0
  then show ?case by simp
next
  case (Suc k)
  have lt: "(of_nat m :: 8 word) < of_nat n \<longleftrightarrow> m mod 256 < n mod 256"
    by (simp add: word_less_nat_alt unat_of_nat)
  show ?case
  proof (cases "m div 256 = n div 256")
    case True
    with Suc.prems(1) have "m mod 256 < n mod 256"
      by (metis div_mult_mod_eq add_less_cancel_left)
    with True show ?thesis by (simp add: snoc_less_snoc lt)
  next
    case False
    with Suc.prems(1) have "m div 256 < n div 256" by (metis div_le_mono le_neq_implies_less less_imp_le)
    moreover have "n div 256 < 256 ^ k" using Suc.prems(2) by (simp add: less_mult_imp_div_less mult.commute)
    ultimately show ?thesis using Suc.IH by (simp add: snoc_less_snoc)
  qed
qed

lemma uint64_less: "uint64ToBytes a < uint64ToBytes b \<longleftrightarrow> a < b"
proof -
  have "unat x < 256 ^ 8" for x :: u64 using unsigned_less [where 'a = nat, of x] by simp
  then have lt: "x < y \<Longrightarrow> uint64ToBytes x < uint64ToBytes y" for x y :: u64
    unfolding uint64ToBytes_def be_encode64_def by (intro be_bytes_less) (simp_all add: word_less_nat_alt)
  from lt [of a b] lt [of b a] show ?thesis by (cases a b rule: linorder_cases) auto
qed

lemma uint16_less: "uint16ToBytes a < uint16ToBytes b \<longleftrightarrow> a < b"
proof -
  have "unat x < 256 ^ 2" for x :: u16 using unsigned_less [where 'a = nat, of x] by simp
  then have lt: "x < y \<Longrightarrow> uint16ToBytes x < uint16ToBytes y" for x y :: u16
    unfolding uint16ToBytes_def by (intro be_bytes_less) (simp_all add: word_less_nat_alt)
  from lt [of a b] lt [of b a] show ?thesis by (cases a b rule: linorder_cases) auto
qed

lemma uint64_eq: "uint64ToBytes a = uint64ToBytes b \<longleftrightarrow> a = b"
  using uint64_less by (metis neq_iff)

lemma uint16_eq: "uint16ToBytes a = uint16ToBytes b \<longleftrightarrow> a = b"
  using uint16_less by (metis neq_iff)

lemma key_lengths [simp]: "length (uint64ToBytes a) = 8" "length (uint16ToBytes b) = 2"
  by (simp_all add: uint64ToBytes_def uint16ToBytes_def)

lemmas key_order = uint64_less uint16_less uint64_eq uint16_eq

lemma bytesToUint64_encoded [simp]: "bytesToUint64 (Some (uint64ToBytes n)) = Inr n" "bytesToUint64 None = Inr 0"
  by (simp_all add: bytesToUint64_def uint64ToBytes_def)

lemma ordered_le:
  "ordered_keys J \<Longrightarrow> list_all2 (\<lambda>a b. length a = length b) xs ys \<Longrightarrow> J xs \<le> J (ys @ zs) \<longleftrightarrow> xs \<le> ys"
  by (simp add: ordered_keys_def)

text \<open>Keys with different first bytes are ordered by it.\<close>

lemma ordered_first:
  assumes J: "ordered_keys J" and "a < b"
  shows "J ([a] # xs) < J ([b] # ys)"
proof -
  have "\<not> J [[b]] \<le> J ([[a]] @ xs)" using assms by (subst ordered_le [OF J]) auto
  moreover have "J [[b]] \<le> J ([[b]] @ ys)" by (subst ordered_le [OF J]) auto
  ultimately show ?thesis by simp
qed

lemma block_key_le:
  assumes "ordered_keys (ev_join E)"
  shows "prefixBlockHeightEventIndex E h i \<le> prefixBlockHeightEventIndex E h' i' \<longleftrightarrow> (h, i) \<le> (h', i')"
  using ordered_le [OF assms, of "[[1], uint64ToBytes h, uint16ToBytes i]" "[[1], uint64ToBytes h', uint16ToBytes i']" "[]"]
  by (auto simp: prefixBlockHeightEventIndex_def less_eq_list_code key_order le_less)

lemma contract_key_le:
  assumes "ordered_keys (ev_join E)"
  shows "prefixContractIDBlockHightEventIndex E c h i \<le> prefixContractIDBlockHightEventIndex E c' h' i' \<longleftrightarrow>
    (c, h, i) \<le> (c', h', i')"
  using ordered_le [OF assms, of "[[3], uint64ToBytes c, uint64ToBytes h, uint16ToBytes i]"
      "[[3], uint64ToBytes c', uint64ToBytes h', uint16ToBytes i']" "[]"]
  by (auto simp: prefixContractIDBlockHightEventIndex_def less_eq_list_code key_order le_less)

lemma contract_bound_le:
  assumes "ordered_keys (ev_join E)"
  shows "prefixContractIDBlockHight E c h \<le> prefixContractIDBlockHightEventIndex E c' h' i' \<longleftrightarrow> (c, h) \<le> (c', h')"
  using ordered_le [OF assms, of "[[3], uint64ToBytes c, uint64ToBytes h]"
      "[[3], uint64ToBytes c', uint64ToBytes h']" "[uint16ToBytes i']"]
  by (auto simp: prefixContractIDBlockHightEventIndex_def prefixContractIDBlockHight_def less_eq_list_code key_order le_less)

lemma key_eqs:
  assumes J: "ordered_keys (ev_join E)"
  shows "prefixBlockHeightEventIndex E h i = prefixBlockHeightEventIndex E h' i' \<longleftrightarrow> h = h' \<and> i = i'"
    and "prefixContractIDBlockHightEventIndex E c h i = prefixContractIDBlockHightEventIndex E c' h' i' \<longleftrightarrow>
      c = c' \<and> h = h' \<and> i = i'"
    and "prefixPluginName E n = prefixPluginName E n' \<longleftrightarrow> n = n'"
proof -
  show "prefixBlockHeightEventIndex E h i = prefixBlockHeightEventIndex E h' i' \<longleftrightarrow> h = h' \<and> i = i'"
    using block_key_le [OF J, of h i h' i'] block_key_le [OF J, of h' i' h i] by (auto simp: less_eq_prod_def)
  show "prefixContractIDBlockHightEventIndex E c h i = prefixContractIDBlockHightEventIndex E c' h' i' \<longleftrightarrow>
      c = c' \<and> h = h' \<and> i = i'"
    using contract_key_le [OF J, of c h i c' h' i'] contract_key_le [OF J, of c' h' i' c h i]
    by (auto simp: less_eq_prod_def)
  show "prefixPluginName E n = prefixPluginName E n' \<longleftrightarrow> n = n'"
  proof
    assume "prefixPluginName E n = prefixPluginName E n'"
    with J have "go_bytes n = go_bytes n'" unfolding prefixPluginName_def ordered_keys_def by blast
    then show "n = n'" by (rule injD [OF go_bytes_inj])
  qed simp
qed

text \<open>The four families of keys follow each other.\<close>

lemma key_families:
  assumes J: "ordered_keys (ev_join E)"
  shows "prefixBlockHeightEventIndex E h i < prefixPluginName E n"
    and "prefixBlockHeightEventIndex E h i < prefixContractIDBlockHightEventIndex E c h' i'"
    and "prefixBlockHeightEventIndex E h i < prefixLastContractID E"
    and "prefixBlockHeightEventIndex E h i < prefixContractIDBlockHight E c h'"
    and "prefixPluginName E n < prefixContractIDBlockHightEventIndex E c h i"
    and "prefixPluginName E n < prefixContractIDBlockHight E c h"
    and "prefixPluginName E n < prefixLastContractID E"
    and "prefixContractIDBlockHightEventIndex E c h i < prefixLastContractID E"
    and "prefixContractIDBlockHight E c h < prefixLastContractID E"
  unfolding prefixBlockHeightEventIndex_def prefixPluginName_def prefixContractIDBlockHightEventIndex_def
    prefixLastContractID_def prefixContractIDBlockHight_def
  by (rule ordered_first [OF J], simp)+

section \<open>The stored log\<close>

text \<open>
  The log is the list of saved events with their positions, in order; \<open>names\<close> are the contracts in
  the order in which they got their ids.
\<close>

type_synonym event_log = "((u64 \<times> u16) \<times> EventData) list"

definition encoded :: "event_env \<Rightarrow> EventData \<Rightarrow> bytes" where
  "encoded E e = (case ev_marshal E e of Inr b \<Rightarrow> b | Inl _ \<Rightarrow> [])"

definition contract_of :: "event_env \<Rightarrow> EventData \<Rightarrow> string" where
  "contract_of E e = (case contract_name E e of Inr n \<Rightarrow> n | Inl _ \<Rightarrow> [])"

text \<open>An event the index can take: its contract has a name, and both codecs give it back.\<close>

definition named :: "event_env \<Rightarrow> EventData \<Rightarrow> bool" where
  "named E e \<longleftrightarrow> contract_name E e = Inr (contract_of E e) \<and>
     (case ev_marshal E e of Inl _ \<Rightarrow> False | Inr b \<Rightarrow> ev_unmarshal E b = Inr e) \<and>
     (case ev_json E e of Inl _ \<Rightarrow> False | Inr b \<Rightarrow> ev_unjson E b = Inr e)"

definition id_of :: "string list \<Rightarrow> string \<Rightarrow> u64" where
  "id_of names n = of_nat (Suc (length (takeWhile (\<lambda>x. x \<noteq> n) names)))"

definition by_block :: "event_env \<Rightarrow> (u64 \<times> u16) \<times> EventData \<Rightarrow> bytes \<times> bytes" where
  "by_block E x = (prefixBlockHeightEventIndex E (fst (fst x)) (snd (fst x)), encoded E (snd x))"

definition by_contract :: "event_env \<Rightarrow> string list \<Rightarrow> (u64 \<times> u16) \<times> EventData \<Rightarrow> bytes \<times> bytes" where
  "by_contract E names x =
     (prefixContractIDBlockHightEventIndex E (id_of names (contract_of E (snd x))) (fst (fst x)) (snd (fst x)),
      encoded E (snd x))"

definition id_entry :: "event_env \<Rightarrow> string list \<Rightarrow> string \<Rightarrow> bytes \<times> bytes" where
  "id_entry E names n = (prefixPluginName E n, uint64ToBytes (id_of names n))"

definition last_entry :: "event_env \<Rightarrow> string list \<Rightarrow> (bytes \<times> bytes) set" where
  "last_entry E names =
     (if names = [] then {} else {(prefixLastContractID E, uint64ToBytes (of_nat (length names)))})"

definition db_holds :: "event_env \<Rightarrow> string list \<Rightarrow> event_log \<Rightarrow> event_db \<Rightarrow> bool" where
  "db_holds E names log db \<longleftrightarrow>
     distinct (map fst db) \<and>
     set db = by_block E ` set log \<union> by_contract E names ` set log \<union> id_entry E names ` set names \<union> last_entry E names \<and>
     distinct names \<and> length names < 2 ^ 64 \<and>
     sorted_wrt (<) (map fst log) \<and>
     (\<forall>x \<in> set log. named E (snd x) \<and> contract_of E (snd x) \<in> set names)"

lemma set_update:
  assumes "distinct (map fst al)"
  shows "set (AList.update k v al) = insert (k, v) {p \<in> set al. fst p \<noteq> k}"
  using assms by (induction al) (auto simp: rev_image_eqI)

lemma id_of_append [simp]: "n \<in> set names \<Longrightarrow> id_of (names @ [m]) n = id_of names n"
  by (simp add: id_of_def)

lemma id_of_new: "n \<notin> set names \<Longrightarrow> id_of (names @ [n]) n = of_nat (Suc (length names))"
  by (subst id_of_def, subst takeWhile_append2) auto

lemma takeWhile_shorter: "n \<in> set names \<Longrightarrow> length (takeWhile (\<lambda>x. x \<noteq> n) names) < length names"
  by (induction names) auto

lemma id_of_bounds:
  assumes "n \<in> set names" and "length names < 2 ^ 64"
  shows "unat (id_of names n) = Suc (length (takeWhile (\<lambda>x. x \<noteq> n) names))" and "id_of names n \<noteq> 0"
proof -
  have "length (takeWhile (\<lambda>x. x \<noteq> n) names) < length names"
    using assms(1) by (rule takeWhile_shorter)
  then have lt: "Suc (length (takeWhile (\<lambda>x. x \<noteq> n) names)) < 2 ^ 64" using assms(2) by linarith
  then show u: "unat (id_of names n) = Suc (length (takeWhile (\<lambda>x. x \<noteq> n) names))"
    unfolding id_of_def by (simp only: unat_of_nat) simp
  then show "id_of names n \<noteq> 0" by auto
qed

lemma id_of_inj:
  assumes "n \<in> set names" and "m \<in> set names" and "length names < 2 ^ 64" and "id_of names n = id_of names m"
  shows "n = m"
proof -
  let ?w = "\<lambda>y. takeWhile (\<lambda>x. x \<noteq> y) names"
  have "length (?w n) = length (?w m)"
    using id_of_bounds(1) [OF assms(1,3)] id_of_bounds(1) [OF assms(2,3)] assms(4) by simp
  moreover have "names ! length (?w y) = y" if "y \<in> set names" for y
    using nth_length_takeWhile [of "\<lambda>x. x \<noteq> y" names] takeWhile_shorter [OF that] by auto
  ultimately show ?thesis using assms(1,2) by metis
qed

lemma key_families_neq:
  assumes J: "ordered_keys (ev_join E)"
  shows "fst (by_block E x) \<noteq> prefixPluginName E n" and "fst (by_block E x) \<noteq> prefixLastContractID E"
    and "fst (by_contract E names x) \<noteq> prefixPluginName E n" and "fst (by_contract E names x) \<noteq> prefixLastContractID E"
    and "fst (by_block E x) \<noteq> fst (by_contract E names y)"
    and "prefixPluginName E n \<noteq> prefixLastContractID E"
  using key_families [OF J] unfolding by_block_def by_contract_def fst_conv
  by (metis less_irrefl)+

lemma name_key_known:
  assumes J: "ordered_keys (ev_join E)" and db: "db_holds E names log db"
  shows "map_of db (prefixPluginName E n) = (if n \<in> set names then Some (uint64ToBytes (id_of names n)) else None)"
    and "bytesToUint64 (map_of db (prefixLastContractID E)) = Inr (of_nat (length names))"
proof -
  from db have d: "distinct (map fst db)"
    and set: "set db = by_block E ` set log \<union> by_contract E names ` set log \<union> id_entry E names ` set names \<union> last_entry E names"
    by (simp_all add: db_holds_def)
  have lookup: "(k, v) \<in> set db \<Longrightarrow> map_of db k = Some v" for k v using d by simp
  note neq = key_families_neq [OF J]
  show "map_of db (prefixPluginName E n) = (if n \<in> set names then Some (uint64ToBytes (id_of names n)) else None)"
  proof (cases "n \<in> set names")
    case True
    then have "(prefixPluginName E n, uint64ToBytes (id_of names n)) \<in> set db"
      unfolding set id_entry_def by blast
    with lookup True show ?thesis by simp
  next
    case False
    have "prefixPluginName E n \<notin> fst ` set db"
    proof
      assume "prefixPluginName E n \<in> fst ` set db"
      with neq show False
        unfolding set by (auto simp: last_entry_def id_entry_def key_eqs(3) [OF J] False split: if_splits) (metis neq)+
    qed
    with False show ?thesis by (simp add: map_of_eq_None_iff)
  qed
  show "bytesToUint64 (map_of db (prefixLastContractID E)) = Inr (of_nat (length names))"
  proof (cases "names = []")
    case True
    have "prefixLastContractID E \<notin> fst ` set db"
      unfolding set using neq True by (auto simp: last_entry_def) (metis neq)+
    with True show ?thesis by (simp add: map_of_eq_None_iff [THEN iffD2])
  next
    case False
    then have "(prefixLastContractID E, uint64ToBytes (of_nat (length names))) \<in> set db"
      unfolding set by (simp add: last_entry_def)
    with lookup show ?thesis by simp
  qed
qed

lemma db_holds_new_name:
  assumes J: "ordered_keys (ev_join E)" and db: "db_holds E names log db"
    and n: "n \<notin> set names" and len: "Suc (length names) < 2 ^ 64"
  shows "db_holds E (names @ [n]) log
    (db_Set (prefixPluginName E n) (uint64ToBytes (of_nat (Suc (length names))))
      (db_Set (prefixLastContractID E) (uint64ToBytes (of_nat (Suc (length names)))) db))"
proof -
  let ?i = "uint64ToBytes (of_nat (Suc (length names)))"
  from db have d: "distinct (map fst db)"
    and set: "set db = by_block E ` set log \<union> by_contract E names ` set log \<union> id_entry E names ` set names \<union> last_entry E names"
    and names: "\<And>x. x \<in> set log \<Longrightarrow> contract_of E (snd x) \<in> set names"
    by (auto simp: db_holds_def)
  note neq = key_families_neq [OF J]
  let ?db1 = "AList.update (prefixLastContractID E) ?i db"
  have d1: "distinct (map fst ?db1)" using d by (rule distinct_update)
  have old: "{p \<in> set db. fst p \<noteq> prefixLastContractID E} =
      by_block E ` set log \<union> by_contract E names ` set log \<union> id_entry E names ` set names"
    unfolding set using neq(2,4,6) by (auto simp: last_entry_def id_entry_def)
  have "{p \<in> set ?db1. fst p \<noteq> prefixPluginName E n} =
      insert (prefixLastContractID E, ?i) (by_block E ` set log \<union> by_contract E names ` set log \<union> id_entry E names ` set names)"
    unfolding set_update [OF d] old using neq(1,3) neq(6) [of n, symmetric] n
    by (auto simp: id_entry_def key_eqs(3) [OF J])
  then have new: "set (AList.update (prefixPluginName E n) ?i ?db1) =
      insert (prefixPluginName E n, ?i) (insert (prefixLastContractID E, ?i)
        (by_block E ` set log \<union> by_contract E names ` set log \<union> id_entry E names ` set names))"
    unfolding set_update [OF d1] by simp
  have "by_contract E (names @ [n]) x = by_contract E names x" if "x \<in> set log" for x
    using names [OF that] by (simp add: by_contract_def)
  then have c: "by_contract E (names @ [n]) ` set log = by_contract E names ` set log" by (rule image_cong [OF refl])
  have "id_entry E (names @ [n]) m = id_entry E names m" if "m \<in> set names" for m
    using that by (simp add: id_entry_def)
  then have i: "id_entry E (names @ [n]) ` set names = id_entry E names ` set names" by (rule image_cong [OF refl])
  have "set (AList.update (prefixPluginName E n) ?i ?db1) =
      by_block E ` set log \<union> by_contract E (names @ [n]) ` set log \<union> id_entry E (names @ [n]) ` set (names @ [n]) \<union>
        last_entry E (names @ [n])"
    unfolding new c set_append image_Un i
    by (simp add: last_entry_def id_entry_def id_of_new [OF n] Un_commute insert_commute)
  moreover have "distinct (map fst (AList.update (prefixPluginName E n) ?i ?db1))"
    using d1 by (rule distinct_update)
  ultimately show ?thesis
    using db n len by (auto simp: db_holds_def db_Set_def)
qed

definition with_name :: "string \<Rightarrow> string list \<Rightarrow> string list" where
  "with_name n names = (if n \<in> set names then names else names @ [n])"

lemma GetContractID_spec:
  assumes J: "ordered_keys (ev_join E)" and db: "db_holds E names log db" and len: "Suc (length names) < 2 ^ 64"
  obtains db' where "GetContractID E n db = Inr (id_of (with_name n names) n, db')"
    and "db_holds E (with_name n names) log db'"
proof (cases "n \<in> set names")
  case True
  note known = name_key_known(1) [OF J db, of n]
  have "id_of names n \<noteq> 0" using id_of_bounds(2) [OF True] len by simp
  then have "GetContractID E n db = Inr (id_of names n, db)"
    using known True by (simp add: GetContractID_def db_Get_def db_Set_def update_triv)
  with True db that show thesis by (simp add: with_name_def)
next
  case False
  have "GetContractID E n db = Inr (of_nat (Suc (length names)),
      db_Set (prefixPluginName E n) (uint64ToBytes (of_nat (Suc (length names))))
        (db_Set (prefixLastContractID E) (uint64ToBytes (of_nat (Suc (length names)))) db))"
    using name_key_known [OF J db] False
    by (simp add: GetContractID_def nextContractID_def db_Get_def Let_def add.commute)
  with db_holds_new_name [OF J db False len] id_of_new [OF False] False that show thesis
    by (simp add: with_name_def)
qed

section \<open>Queries\<close>

lemma Iterator_eq:
  assumes "distinct (map fst db)" and "sorted_wrt (<) (map fst L)"
    and "set L = {p \<in> set db. start \<le> fst p \<and> fst p < stop}"
  shows "db_Iterator start stop db = L"
proof -
  let ?F = "filter (\<lambda>(k, _). start \<le> k \<and> k < stop) db"
  have setF: "set ?F = set L" by (simp add: assms(3) case_prod_unfold)
  have dF: "distinct (map fst ?F)" using assms(1) by (rule distinct_map_filter)
  have "inj_on fst (set ?F)" using dF by (simp add: distinct_map)
  moreover have "sorted (map fst L)" "distinct (map fst L)"
    using assms(2) by (auto simp: strict_sorted_iff)
  moreover have "distinct (map fst (sort_key fst ?F))"
    using dF by (simp add: distinct_map)
  ultimately show ?thesis
    unfolding db_Iterator_def using setF
    by (intro map_sorted_distinct_set_unique [of fst]) auto
qed

lemma read_encoded:
  assumes "list_all (named E \<circ> snd) xs"
  shows "read_events E (map (\<lambda>x. (f x, encoded E (snd x))) xs) = Inr (map snd xs)"
proof -
  have dec: "ev_unmarshal E (encoded E e) = Inr e" if "named E e" for e
    using that by (auto simp: named_def encoded_def split: sum.splits)
  have "fold_res (\<lambda>(_, v) events. bind_res (ev_unmarshal E v) (\<lambda>e. Inr (events @ [e])))
      (map (\<lambda>x. (f x, encoded E (snd x))) xs) acc = Inr (acc @ map snd xs)" for acc
    using assms by (induction xs arbitrary: acc) (simp_all add: dec)
  then show ?thesis by (simp add: read_events_def)
qed

definition in_range :: "EventFilter \<Rightarrow> (u64 \<times> u16) \<times> EventData \<Rightarrow> bool" where
  "in_range flt x \<longleftrightarrow> ef_FromBlock flt \<le> fst (fst x) \<and> fst (fst x) \<le> ef_ToBlock flt"

lemma less_Suc_word: "b \<noteq> - 1 \<Longrightarrow> a < b + 1 \<longleftrightarrow> a \<le> (b :: u64)"
  using inc_less_eq_iff [of b a] by (auto simp: not_le [symmetric])

lemma sorted_filter_map:
  assumes "sorted_wrt (<) (map fst log)" and "\<And>x y. x \<in> set log \<Longrightarrow> y \<in> set log \<Longrightarrow> P x \<Longrightarrow> P y \<Longrightarrow> fst x < fst y \<Longrightarrow> f x < f y"
  shows "sorted_wrt (<) (map f (filter P log))"
  using assms by (induction log) auto

lemma image_filter_set:
  assumes "\<And>x. x \<in> A \<Longrightarrow> Q (f x) \<longleftrightarrow> P x" and "\<And>p. p \<in> B \<Longrightarrow> \<not> Q p"
  shows "f ` {x \<in> A. P x} = {p \<in> f ` A \<union> B. Q p}"
  using assms by blast

lemma filter_by_block:
  assumes J: "ordered_keys (ev_join E)" and db: "db_holds E names log db" and T: "ef_ToBlock flt \<noteq> - 1"
  shows "read_events E (db_Iterator (prefixBlockHeightEventIndex E (ef_FromBlock flt) 0)
      (prefixBlockHeightEventIndex E (ef_ToBlock flt + 1) 0) db) = Inr (map snd (filter (in_range flt) log))"
proof -
  let ?a = "prefixBlockHeightEventIndex E (ef_FromBlock flt) 0" and ?b = "prefixBlockHeightEventIndex E (ef_ToBlock flt + 1) 0"
  let ?L = "map (by_block E) (filter (in_range flt) log)"
  from db have d: "distinct (map fst db)" and srt: "sorted_wrt (<) (map fst log)"
    and n: "list_all (named E \<circ> snd) (filter (in_range flt) log)"
    and set: "set db = by_block E ` set log \<union> by_contract E names ` set log \<union> id_entry E names ` set names \<union> last_entry E names"
    by (auto simp: db_holds_def list_all_iff)
  have le: "?a \<le> fst (by_block E x) \<and> fst (by_block E x) < ?b \<longleftrightarrow> in_range flt x" for x
    using less_Suc_word [OF T, of "fst (fst x)"]
    by (auto simp: by_block_def block_key_le [OF J] not_le [symmetric] in_range_def less_eq_prod_def)
  have out: "\<not> (?a \<le> fst p \<and> fst p < ?b)" if "p \<in> by_contract E names ` set log \<union> id_entry E names ` set names \<union> last_entry E names" for p
    using that key_families [OF J] by (auto simp: by_contract_def id_entry_def last_entry_def dest: less_asym split: if_splits)
  have "set db = by_block E ` set log \<union>
      (by_contract E names ` set log \<union> id_entry E names ` set names \<union> last_entry E names)"
    unfolding set by (simp only: Un_assoc)
  with image_filter_set [of "set log" "\<lambda>p. ?a \<le> fst p \<and> fst p < ?b", OF le out]
  have "set ?L = {p \<in> set db. ?a \<le> fst p \<and> fst p < ?b}"
    by (simp only: set_map set_filter)
  moreover have "sorted_wrt (<) (map fst ?L)"
    unfolding map_map comp_def
    by (rule sorted_filter_map [OF srt]) (auto simp: by_block_def less_le_not_le block_key_le [OF J])
  ultimately have "db_Iterator ?a ?b db = ?L" by (intro Iterator_eq [OF d])
  then show ?thesis
    using read_encoded [OF n, of "\<lambda>x. prefixBlockHeightEventIndex E (fst (fst x)) (snd (fst x))"]
    by (simp add: by_block_def [abs_def])
qed

lemma filter_by_contract:
  assumes J: "ordered_keys (ev_join E)" and db: "db_holds E names log db" and T: "ef_ToBlock flt \<noteq> - 1" and c: "c \<in> set names"
  shows "read_events E (db_Iterator (prefixContractIDBlockHight E (id_of names c) (ef_FromBlock flt))
      (prefixContractIDBlockHight E (id_of names c) (ef_ToBlock flt + 1)) db) =
    Inr (map snd (filter (\<lambda>x. in_range flt x \<and> contract_of E (snd x) = c) log))"
proof -
  let ?a = "prefixContractIDBlockHight E (id_of names c) (ef_FromBlock flt)"
    and ?b = "prefixContractIDBlockHight E (id_of names c) (ef_ToBlock flt + 1)"
  let ?P = "\<lambda>x. in_range flt x \<and> contract_of E (snd x) = c"
  let ?L = "map (by_contract E names) (filter ?P log)"
  from db have d: "distinct (map fst db)" and srt: "sorted_wrt (<) (map fst log)" and len: "length names < 2 ^ 64"
    and n: "list_all (named E \<circ> snd) (filter ?P log)"
    and cn: "\<And>x. x \<in> set log \<Longrightarrow> contract_of E (snd x) \<in> set names"
    and set: "set db = by_block E ` set log \<union> by_contract E names ` set log \<union> id_entry E names ` set names \<union> last_entry E names"
    by (auto simp: db_holds_def list_all_iff)
  have le: "?a \<le> fst (by_contract E names x) \<and> fst (by_contract E names x) < ?b \<longleftrightarrow> ?P x" if x: "x \<in> set log" for x
  proof -
    have "id_of names c = id_of names (contract_of E (snd x)) \<longleftrightarrow> contract_of E (snd x) = c"
      using id_of_inj [OF c cn [OF x] len] by auto
    then show ?thesis
      using less_Suc_word [OF T, of "fst (fst x)"]
      by (auto simp: by_contract_def contract_bound_le [OF J] not_le [symmetric] in_range_def less_eq_prod_def)
  qed
  have out: "\<not> (?a \<le> fst p \<and> fst p < ?b)" if "p \<in> by_block E ` set log \<union> id_entry E names ` set names \<union> last_entry E names" for p
  proof -
    from that consider x where "fst p = fst (by_block E x)" | n where "fst p = prefixPluginName E n"
      | "fst p = prefixLastContractID E"
      by (auto simp: id_entry_def last_entry_def split: if_splits)
    then show ?thesis
    proof cases
      case (1 x)
      then have "fst p < ?a" using key_families(4) [OF J] by (simp add: by_block_def)
      then show ?thesis by (meson not_le)
    next
      case (2 n)
      then have "fst p < ?a" using key_families(6) [OF J] by simp
      then show ?thesis by (meson not_le)
    next
      case 3
      then have "?b < fst p" using key_families(9) [OF J] by simp
      then show ?thesis by (meson less_asym)
    qed
  qed
  have "set db = by_contract E names ` set log \<union>
      (by_block E ` set log \<union> id_entry E names ` set names \<union> last_entry E names)"
    unfolding set by blast
  with image_filter_set [of "set log" "\<lambda>p. ?a \<le> fst p \<and> fst p < ?b", OF le out]
  have "set ?L = {p \<in> set db. ?a \<le> fst p \<and> fst p < ?b}"
    by (simp only: set_map set_filter)
  moreover have "sorted_wrt (<) (map fst ?L)"
    unfolding map_map comp_def
    by (rule sorted_filter_map [OF srt]) (auto simp: by_contract_def less_le_not_le contract_key_le [OF J])
  ultimately have "db_Iterator ?a ?b db = ?L" by (intro Iterator_eq [OF d])
  then show ?thesis
    using read_encoded [OF n, of "\<lambda>x. prefixContractIDBlockHightEventIndex E (id_of names (contract_of E (snd x)))
        (fst (fst x)) (snd (fst x))"]
    by (simp add: by_contract_def [abs_def])
qed

section \<open>Saving the events of a block\<close>

text \<open>The entries a block adds to the log.\<close>

definition block_log :: "u64 \<Rightarrow> EventData list \<Rightarrow> event_log" where
  "block_log h es = map (\<lambda>(i, e). ((h, of_nat i), e)) (enumerate 0 es)"

definition with_names :: "string list \<Rightarrow> string list \<Rightarrow> string list" where
  "with_names ns names = fold with_name ns names"

lemma with_name_props [simp]:
  "n \<in> set (with_name n names)" "set names \<subseteq> set (with_name n names)"
  "length (with_name n names) \<le> Suc (length names)"
  by (auto simp: with_name_def)

lemma with_names_set: "set (with_names ns names) = set ns \<union> set names"
  by (induction ns arbitrary: names) (auto simp: with_names_def with_name_def)

lemma id_of_with_name: "m \<in> set names \<Longrightarrow> id_of (with_name n names) m = id_of names m"
  by (simp add: with_name_def)

lemma id_of_with_names: "m \<in> set names \<Longrightarrow> id_of (with_names ns names) m = id_of names m"
proof (induction ns arbitrary: names)
  case Nil
  then show ?case by (simp add: with_names_def)
next
  case (Cons n ns)
  then have "m \<in> set (with_name n names)" by (auto simp: with_name_def)
  from Cons.IH [OF this] Cons.prems show ?case by (simp add: with_names_def id_of_with_name)
qed

text \<open>What the loop collects: the ids are those of the final list of names.\<close>

lemma batch_events_spec:
  assumes J: "ordered_keys (ev_join E)"
  shows "db_holds E names log db \<Longrightarrow> length names + length es < 2 ^ 64 \<Longrightarrow> list_all (named E) es \<Longrightarrow>
    list_all (\<lambda>e. ed_BlockHeight e = h) es \<Longrightarrow>
    \<exists>db'. batch_events E i es batch db = Inr (Some (batch @ concat (map (\<lambda>(j, e).
        [by_block E ((h, of_nat j), e), by_contract E (with_names (map (contract_of E) es) names) ((h, of_nat j), e)])
          (enumerate i es))), db') \<and>
      db_holds E (with_names (map (contract_of E) es) names) log db'"
proof (induction es arbitrary: i names batch db)
  case Nil
  then show ?case by (simp add: with_names_def)
next
  case (Cons e es)
  let ?n = "contract_of E e"
  from Cons.prems have n: "contract_name E e = Inr ?n" and h: "ed_BlockHeight e = h" by (simp_all add: named_def)
  obtain db1 where g: "GetContractID E ?n db = Inr (id_of (with_name ?n names) ?n, db1)"
    "db_holds E (with_name ?n names) log db1"
    using GetContractID_spec [OF J Cons.prems(1), of ?n] Cons.prems(2) by auto
  have len: "length (with_name ?n names) + length es < 2 ^ 64"
    using Cons.prems(2) by (auto simp: with_name_def)
  let ?all = "with_names (map (contract_of E) es) (with_name ?n names)"
  have m: "ev_marshal E e = Inr (encoded E e)"
    using Cons.prems(3) by (auto simp: named_def encoded_def split: sum.splits)
  have same: "id_of ?all ?n = id_of (with_name ?n names) ?n" by (rule id_of_with_names) simp
  have entries: "(prefixBlockHeightEventIndex E (ed_BlockHeight e) (of_nat i), encoded E e) = by_block E ((h, of_nat i), e)"
    "(prefixContractIDBlockHightEventIndex E (id_of (with_name ?n names) ?n) (ed_BlockHeight e) (of_nat i), encoded E e) =
       by_contract E ?all ((h, of_nat i), e)"
    by (simp_all add: by_block_def by_contract_def h same)
  have rest: "list_all (named E) es" "list_all (\<lambda>e. ed_BlockHeight e = h) es" using Cons.prems(3,4) by simp_all
  from Cons.IH [OF g(2) len rest, of "Suc i" "batch @ [by_block E ((h, of_nat i), e), by_contract E ?all ((h, of_nat i), e)]"]
  obtain db' where db': "batch_events E (Suc i) es (batch @ [by_block E ((h, of_nat i), e), by_contract E ?all ((h, of_nat i), e)]) db1 =
      Inr (Some ((batch @ [by_block E ((h, of_nat i), e), by_contract E ?all ((h, of_nat i), e)]) @ concat (map (\<lambda>(j, e).
        [by_block E ((h, of_nat j), e), by_contract E ?all ((h, of_nat j), e)]) (enumerate (Suc i) es))), db')"
    "db_holds E ?all log db'"
    by blast
  have all: "with_names (map (contract_of E) (e # es)) names = ?all" by (simp add: with_names_def)
  show ?case
    unfolding all using db' n g(1) m by (simp add: Let_def entries)
qed

lemma db_Set_entries:
  assumes "distinct (map fst db)"
  shows "distinct (map fst (db_Set k v db))" and "set (db_Set k v db) = insert (k, v) {p \<in> set db. fst p \<noteq> k}"
  unfolding db_Set_def using assms by (rule distinct_update, rule set_update)

lemma fold_db_Set:
  assumes "distinct (map fst db)" and "\<And>p q. p \<in> set B \<Longrightarrow> q \<in> set B \<Longrightarrow> fst p = fst q \<Longrightarrow> p = q"
  shows "distinct (map fst (fold (\<lambda>(k, v). db_Set k v) B db))"
    and "set (fold (\<lambda>(k, v). db_Set k v) B db) = set B \<union> {p \<in> set db. fst p \<notin> fst ` set B}"
  using assms
proof (induction B rule: rev_induct)
  case Nil
  {
    case 1
    then show ?case by simp
  next
    case 2
    then show ?case by simp
  }
next
  case (snoc x B)
  let ?F = "fold (\<lambda>(k, v). db_Set k v) B db"
  obtain k v where x: "x = (k, v)" by fastforce
  {
    case 1
    have "distinct (map fst ?F)" by (rule snoc.IH(1) [OF 1(1)]) (use 1(2) in auto)
    then show ?case by (simp add: x db_Set_entries(1))
  next
    case 2
    have func: "p = (k, v)" if "p \<in> set B" "fst p = k" for p using 2(2) [of p x] that x by simp
    have d: "distinct (map fst ?F)" by (rule snoc.IH(1) [OF 2(1)]) (use 2(2) in auto)
    have IH: "set ?F = set B \<union> {p \<in> set db. fst p \<notin> fst ` set B}"
      by (rule snoc.IH(2) [OF 2(1)]) (use 2(2) in auto)
    have "set (fold (\<lambda>(k, v). db_Set k v) (B @ [x]) db) = insert (k, v) {p \<in> set ?F. fst p \<noteq> k}"
      by (simp add: x db_Set_entries(2) [OF d])
    also have "\<dots> = set (B @ [x]) \<union> {p \<in> set db. fst p \<notin> fst ` set (B @ [x])}"
      unfolding IH using func by (auto simp: x)
    finally show ?case .
  }
qed

lemma block_log_props:
  assumes "length es \<le> 65536"
  shows "sorted_wrt (<) (map fst (block_log h es))"
    and "\<And>x. x \<in> set (block_log h es) \<Longrightarrow> fst (fst x) = h \<and> snd x \<in> set es"
    and "\<And>x y. x \<in> set (block_log h es) \<Longrightarrow> y \<in> set (block_log h es) \<Longrightarrow> snd (fst x) = snd (fst y) \<Longrightarrow> x = y"
proof -
  have le: "(of_nat i :: u16) < of_nat j \<longleftrightarrow> i < j" if "i < length es" "j < length es" for i j
    using that assms by (simp add: word_less_nat_alt unat_of_nat)
  have eq: "(of_nat i :: u16) = of_nat j \<longleftrightarrow> i = j" if "i < length es" "j < length es" for i j
    using le [OF that] le [OF that(2,1)] by (metis less_irrefl nat_neq_iff)
  have nth: "block_log h es ! i = ((h, of_nat i), es ! i)" "length (block_log h es) = length es" if "i < length es" for i
    using that by (simp_all add: block_log_def nth_enumerate_eq)
  have len: "length (block_log h es) = length es" by (simp add: block_log_def)
  show "sorted_wrt (<) (map fst (block_log h es))"
    unfolding sorted_wrt_iff_nth_less by (auto simp: len nth le)
  show "fst (fst x) = h \<and> snd x \<in> set es" if "x \<in> set (block_log h es)" for x
    using that by (auto simp: in_set_conv_nth len nth)
  show "x = y" if "x \<in> set (block_log h es)" "y \<in> set (block_log h es)" "snd (fst x) = snd (fst y)" for x y
    using that by (auto simp: in_set_conv_nth len nth eq)
qed

lemma batch_set:
  "set (concat (map (\<lambda>(j, e). [f ((h, of_nat j), e), g ((h, of_nat j), e)]) (enumerate 0 es))) =
     f ` set (block_log h es) \<union> g ` set (block_log h es)"
  by (auto simp: block_log_def image_iff split: prod.splits)

lemma BatchSaveEvents_spec:
  assumes J: "ordered_keys (ev_join E)" and db: "db_holds E names log db"
    and len: "length names + length es < 2 ^ 64" "length es \<le> 65536"
    and es: "list_all (named E) es" "list_all (\<lambda>e. ed_BlockHeight e = h) es"
    and above: "\<And>x. x \<in> set log \<Longrightarrow> fst (fst x) < h"
  obtains db' where "BatchSaveEvents E es db = Inr db'"
    and "db_holds E (with_names (map (contract_of E) es) names) (log @ block_log h es) db'"
proof -
  let ?names = "with_names (map (contract_of E) es) names"
  define B where "B = concat (map (\<lambda>(j, e). [by_block E ((h, of_nat j), e), by_contract E ?names ((h, of_nat j), e)]) (enumerate 0 es))"
  from batch_events_spec [OF J db len(1) es, of 0 "[]"] obtain db1 where
    b: "batch_events E 0 es [] db = Inr (Some B, db1)" and db1: "db_holds E ?names log db1"
    by (auto simp: B_def)
  note blk = block_log_props [OF len(2), where h = h]
  have setB: "set B = by_block E ` set (block_log h es) \<union> by_contract E ?names ` set (block_log h es)"
    unfolding B_def by (rule batch_set)
  have blockkey: "fst (by_block E x) = fst (by_block E y) \<longleftrightarrow> fst x = fst y" for x y
    by (auto simp: by_block_def key_eqs(1) [OF J] prod_eq_iff)
  have contractkey: "fst (by_contract E ?names x) = fst (by_contract E ?names y) \<Longrightarrow> fst x = fst y" for x y
    by (auto simp: by_contract_def key_eqs(2) [OF J] prod_eq_iff)
  have func: "p = q" if "p \<in> set B" "q \<in> set B" "fst p = fst q" for p q
    using that blk(3) key_families_neq(5) [OF J] blockkey contractkey unfolding setB
    by (elim UnE imageE) metis+
  have fresh: "fst p \<notin> fst ` set B" if "p \<in> set db1" for p
  proof
    assume "fst p \<in> fst ` set B"
    then obtain x where x: "x \<in> set (block_log h es)"
      "fst p = fst (by_block E x) \<or> fst p = fst (by_contract E ?names x)"
      unfolding setB by auto
    have hx: "fst (fst x) = h" using blk(2) [OF x(1)] by blast
    from that db1 consider y where "y \<in> set log" "p = by_block E y \<or> p = by_contract E ?names y"
      | n where "fst p = prefixPluginName E n" | "fst p = prefixLastContractID E"
      by (auto simp: db_holds_def id_entry_def last_entry_def split: if_splits)
    then show False
    proof cases
      case (1 y)
      with x(2) key_families_neq(5) [OF J] blockkey contractkey have "fst x = fst y" by metis
      with above [OF 1(1)] hx show False by simp
    next
      case 2
      with x(2) key_families_neq [OF J] show False by metis
    next
      case 3
      with x(2) key_families_neq [OF J] show False by metis
    qed
  qed
  let ?db' = "fold (\<lambda>(k, v). db_Set k v) B db1"
  have d1: "distinct (map fst db1)" using db1 by (simp add: db_holds_def)
  have "set ?db' = set B \<union> set db1" using fold_db_Set(2) [of db1 B, OF d1 func] fresh by blast
  then have "set ?db' = by_block E ` set (log @ block_log h es) \<union> by_contract E ?names ` set (log @ block_log h es) \<union>
      id_entry E ?names ` set ?names \<union> last_entry E ?names"
    using db1 unfolding setB db_holds_def by auto
  moreover have "sorted_wrt (<) (map fst (log @ block_log h es))"
    using db1 blk(1,2) above by (auto simp: db_holds_def sorted_wrt_append less_prod_def)
  moreover have "\<forall>x \<in> set (log @ block_log h es). named E (snd x) \<and>
      contract_of E (snd x) \<in> set ?names"
    using db1 blk(2) es(1) by (auto simp: db_holds_def list_all_iff with_names_set)
  moreover have "distinct ?names" "length ?names < 2 ^ 64" using db1 by (simp_all add: db_holds_def)
  ultimately have "db_holds E ?names (log @ block_log h es) ?db'"
    unfolding db_holds_def by (intro conjI fold_db_Set(1) [of db1 B, OF d1 func])
  moreover have "BatchSaveEvents E es db = Inr ?db'" by (simp add: BatchSaveEvents_def b)
  ultimately show thesis using that by blast
qed

lemma FilterEvents_spec:
  assumes J: "ordered_keys (ev_join E)" and db: "db_holds E names log db" and len: "Suc (length names) < 2 ^ 64"
    and T: "ef_ToBlock flt \<noteq> - 1"
  obtains db' where "FilterEvents E flt db = Inr (map snd (filter (\<lambda>x. in_range flt x \<and>
        (ef_Contract flt \<noteq> '''' \<longrightarrow> contract_of E (snd x) = ef_Contract flt)) log), db')"
    and "db_holds E (if ef_Contract flt = '''' then names else with_name (ef_Contract flt) names) log db'"
proof (cases "ef_Contract flt = ''''")
  case True
  then show thesis
    using filter_by_block [OF J db T] db that by (simp add: FilterEvents_def)
next
  case False
  let ?c = "ef_Contract flt" and ?names = "with_name (ef_Contract flt) names"
  obtain db' where g: "GetContractID E ?c db = Inr (id_of ?names ?c, db')" "db_holds E ?names log db'"
    using GetContractID_spec [OF J db len] .
  from filter_by_contract [OF J g(2) T, of ?c] False g that show thesis
    by (simp add: FilterEvents_def)
qed

section \<open>From the contracts to the index\<close>

text \<open>
  Runs of the handler with the indexing dispatcher. An event carries the height it is posted at, or
  none, and names its contract or its address; blocks are emitted at growing heights, with at most
  65536 events each. The ghost arguments are the names that have ids, the log (what was emitted, with
  the time of its block) and what is posted but not yet emitted.
\<close>

definition posted :: "u64 \<Rightarrow> int \<Rightarrow> EventData list \<Rightarrow> EventData list" where
  "posted h blockTime es = map (\<lambda>e. e\<lparr>ed_BlockHeight := h, ed_BlockTime := blockTime\<rparr>) es"

inductive event_run ::
    "event_env \<Rightarrow> string list \<Rightarrow> event_log \<Rightarrow> (u64 \<Rightarrow> EventData list) \<Rightarrow> indexer event_handler \<Rightarrow> bool"
  for E :: event_env where
  run_start: "event_run E [] [] (\<lambda>_. []) \<lparr>eh_stash = Map.empty, eh_dispatcher = \<lparr>ix_events = [], ix_db = []\<rparr>, eh_calls = []\<rparr>"
| run_post: "event_run E names log pending H \<Longrightarrow> ed_BlockHeight e = 0 \<or> ed_BlockHeight e = h \<Longrightarrow>
    event_run E names log (pending(h := pending h @ [e])) (Post h e H)"
| run_emit: "event_run E names log pending H \<Longrightarrow> (\<And>x. x \<in> set log \<Longrightarrow> fst (fst x) < h) \<Longrightarrow>
    length (pending h) \<le> 65536 \<Longrightarrow> length names + length (pending h) < 2 ^ 64 \<Longrightarrow>
    EmitBlockTx E (DBIndexer E) h t H = Inr H' \<Longrightarrow> es = posted h t (pending h) \<Longrightarrow> list_all (named E) es \<Longrightarrow>
    event_run E (with_names (map (contract_of E) es) names) (log @ block_log h es) (pending(h := [])) H'"
| run_query: "event_run E names log pending H \<Longrightarrow> Suc (length names) < 2 ^ 64 \<Longrightarrow> ef_ToBlock flt \<noteq> - 1 \<Longrightarrow>
    FilterEvents E flt (ix_db (eh_dispatcher H)) = Inr (es, db') \<Longrightarrow>
    event_run E (if ef_Contract flt = '''' then names else with_name (ef_Contract flt) names) log pending
      (H\<lparr>eh_dispatcher := (eh_dispatcher H)\<lparr>ix_db := db'\<rparr>\<rparr>)"

text \<open>The stash holds what is pending, and the index holds the log.\<close>

definition handler_ok :: "event_env \<Rightarrow> string list \<Rightarrow> event_log \<Rightarrow> (u64 \<Rightarrow> EventData list) \<Rightarrow> indexer event_handler \<Rightarrow> bool" where
  "handler_ok E names log pending H \<longleftrightarrow>
     db_holds E names log (ix_db (eh_dispatcher H)) \<and> ix_events (eh_dispatcher H) = [] \<and>
     (\<forall>h. stash_fetch h (eh_stash H) = map (\<lambda>e. e\<lparr>ed_BlockHeight := h\<rparr>) (pending h))"

lemma send_all:
  assumes "list_all (named E) (map (\<lambda>e. e\<lparr>ed_BlockTime := t\<rparr>) msgs)"
  shows "fold_res (send_event E (DBIndexer E) h t) (enumerate i msgs) (d, calls) =
    Inr (d\<lparr>ix_events := ix_events d @ map (\<lambda>e. e\<lparr>ed_BlockTime := t\<rparr>) msgs\<rparr>,
      calls @ concat (map (published E) (map (\<lambda>e. e\<lparr>ed_BlockTime := t\<rparr>) msgs)))"
  using assms
proof (induction msgs arbitrary: i d calls)
  case Nil
  then show ?case by simp
next
  case (Cons m msgs)
  obtain b where "ev_json E (m\<lparr>ed_BlockTime := t\<rparr>) = Inr b" "ev_unjson E b = Inr (m\<lparr>ed_BlockTime := t\<rparr>)"
    using Cons.prems by (auto simp: named_def split: sum.splits)
  then have "send_event E (DBIndexer E) h t (i, m) (d, calls) =
      Inr (d\<lparr>ix_events := ix_events d @ [m\<lparr>ed_BlockTime := t\<rparr>]\<rparr>, calls @ published E (m\<lparr>ed_BlockTime := t\<rparr>))"
    by (simp add: send_event_def DBIndexer_def DBIndexer_Send_def Let_def)
  with Cons show ?case by simp
qed

lemma emit_spec:
  assumes J: "ordered_keys (ev_join E)" and H: "handler_ok E names log pending H"
    and above: "\<And>x. x \<in> set log \<Longrightarrow> fst (fst x) < h"
    and len: "length (pending h) \<le> 65536" "length names + length (pending h) < 2 ^ 64"
    and named: "list_all (named E) (posted h t (pending h))"
  obtains H' where "EmitBlockTx E (DBIndexer E) h t H = Inr H'"
    and "handler_ok E (with_names (map (contract_of E) (posted h t (pending h))) names)
      (log @ block_log h (posted h t (pending h))) (pending(h := [])) H'"
    and "eh_calls H' = eh_calls H @ [ResetSubs, ResetSubs] @ concat (map (published E) (posted h t (pending h)))"
proof -
  let ?es = "posted h t (pending h)"
  let ?calls = "eh_calls H @ [ResetSubs, ResetSubs] @ concat (map (published E) ?es)"
  have fetch: "stash_fetch h (eh_stash H) = map (\<lambda>e. e\<lparr>ed_BlockHeight := h\<rparr>) (pending h)"
    and db: "db_holds E names log (ix_db (eh_dispatcher H))" and empty: "ix_events (eh_dispatcher H) = []"
    using H by (simp_all add: handler_ok_def)
  have es: "map (\<lambda>e. e\<lparr>ed_BlockTime := t\<rparr>) (stash_fetch h (eh_stash H)) = ?es"
    by (simp add: fetch posted_def)
  have n: "list_all (named E) ?es" "list_all (\<lambda>e. ed_BlockHeight e = h) ?es"
    using named by (simp_all add: posted_def list_all_iff)
  have l: "length names + length ?es < 2 ^ 64" "length ?es \<le> 65536" using len by (simp_all add: posted_def)
  obtain db' where db': "BatchSaveEvents E ?es (ix_db (eh_dispatcher H)) = Inr db'"
    "db_holds E (with_names (map (contract_of E) ?es) names) (log @ block_log h ?es) db'"
    using BatchSaveEvents_spec [OF J db l n above] .
  have "EmitBlockTx E (DBIndexer E) h t H =
      Inr (H\<lparr>eh_dispatcher := (eh_dispatcher H)\<lparr>ix_events := [], ix_db := db'\<rparr>, eh_calls := ?calls, eh_stash := stash_purge h (eh_stash H)\<rparr>)"
    unfolding EmitBlockTx_def Let_def send_all [OF n(1) [folded es]] es
    using db'(1) empty by (simp add: DBIndexer_def DBIndexer_Flush_def)
  moreover have "handler_ok E (with_names (map (contract_of E) ?es) names) (log @ block_log h ?es) (pending(h := []))
      (H\<lparr>eh_dispatcher := (eh_dispatcher H)\<lparr>ix_events := [], ix_db := db'\<rparr>, eh_calls := ?calls, eh_stash := stash_purge h (eh_stash H)\<rparr>)"
    using H db'(2) by (auto simp: handler_ok_def stash_purge_def stash_fetch_def)
  ultimately show thesis by (rule that) simp_all
qed

lemma at_height: "ed_BlockHeight e = 0 \<or> ed_BlockHeight e = h \<Longrightarrow>
    (if ed_BlockHeight e = 0 then e\<lparr>ed_BlockHeight := h\<rparr> else e) = e\<lparr>ed_BlockHeight := h\<rparr>"
  by (cases e) auto

lemma Post_fetch:
  "stash_fetch k (eh_stash (Post h e H)) =
     (if k = h then stash_fetch h (eh_stash H) @ [if ed_BlockHeight e = 0 then e\<lparr>ed_BlockHeight := h\<rparr> else e]
      else stash_fetch k (eh_stash H))"
  by (simp add: Post_def stash_add_def stash_fetch_def)

lemma event_run_ok:
  assumes "event_run E names log pending H" and J: "ordered_keys (ev_join E)"
  shows "handler_ok E names log pending H"
  using assms(1)
proof induction
  case run_start
  then show ?case by (simp add: handler_ok_def db_holds_def last_entry_def stash_fetch_def)
next
  case (run_post names log pending H e h)
  have d: "eh_dispatcher (Post h e H) = eh_dispatcher H" by (simp add: Post_def)
  show ?case
    unfolding handler_ok_def d Post_fetch at_height [OF run_post.hyps(2)]
    using run_post.IH unfolding handler_ok_def by simp
next
  case (run_emit names log pending H h t H' es)
  obtain H1 where H1: "EmitBlockTx E (DBIndexer E) h t H = Inr H1"
    "handler_ok E (with_names (map (contract_of E) (posted h t (pending h))) names)
      (log @ block_log h (posted h t (pending h))) (pending(h := [])) H1"
    using emit_spec [OF J run_emit.IH run_emit.hyps(2,3,4) run_emit.hyps(7) [unfolded run_emit.hyps(6)]] .
  from H1(1) run_emit.hyps(5) have "H1 = H'" by simp
  with H1(2) show ?case unfolding run_emit.hyps(6) by blast
next
  case (run_query names log pending H flt es db')
  from run_query.IH have db: "db_holds E names log (ix_db (eh_dispatcher H))" by (simp add: handler_ok_def)
  obtain db1 where "FilterEvents E flt (ix_db (eh_dispatcher H)) = Inr (map snd (filter (\<lambda>x. in_range flt x \<and>
        (ef_Contract flt \<noteq> '''' \<longrightarrow> contract_of E (snd x) = ef_Contract flt)) log), db1)"
    and db1: "db_holds E (if ef_Contract flt = '''' then names else with_name (ef_Contract flt) names) log db1"
    using FilterEvents_spec [OF J db run_query.hyps(2,3)] .
  with run_query.hyps(4) have "db1 = db'" by simp
  with db1 run_query.IH show ?case unfolding handler_ok_def by simp
qed

section \<open>Properties\<close>

text \<open>C22: The index answers from what was emitted. In every run of posts, emissions and queries, a query
  for a range of blocks, whose upper end is not the largest number, returns the emitted events of
  that range, all of them and in order, with the time of their block; with a contract, those whose
  contract it is.
\<close>

theorem events_index_exact:
  assumes "ordered_keys (ev_join E)" and "event_run E names log pending H"
    and "Suc (length names) < 2 ^ 64" and "ef_ToBlock flt \<noteq> - 1"
  shows "\<exists>db'. FilterEvents E flt (ix_db (eh_dispatcher H)) =
    Inr (map snd (filter (\<lambda>((h, _), e). ef_FromBlock flt \<le> h \<and> h \<le> ef_ToBlock flt \<and>
      (ef_Contract flt = '''' \<or> contract_of E e = ef_Contract flt)) log), db')"
proof -
  have "db_holds E names log (ix_db (eh_dispatcher H))"
    using event_run_ok [OF assms(2,1)] by (simp add: handler_ok_def)
  then obtain db' where "FilterEvents E flt (ix_db (eh_dispatcher H)) = Inr (map snd (filter (\<lambda>x. in_range flt x \<and>
      (ef_Contract flt \<noteq> '''' \<longrightarrow> contract_of E (snd x) = ef_Contract flt)) log), db')"
    using FilterEvents_spec [OF assms(1) _ assms(3,4)] by blast
  moreover have "(\<lambda>x. in_range flt x \<and> (ef_Contract flt \<noteq> '''' \<longrightarrow> contract_of E (snd x) = ef_Contract flt)) =
      (\<lambda>((h, _), e). ef_FromBlock flt \<le> h \<and> h \<le> ef_ToBlock flt \<and>
        (ef_Contract flt = '''' \<or> contract_of E e = ef_Contract flt))"
    by (auto simp: in_range_def fun_eq_iff)
  ultimately show ?thesis by auto
qed

text \<open>A join with zero bytes between the parts keeps the order.\<close>

fun join_zero :: "bytes list \<Rightarrow> bytes" where
  "join_zero [] = []"
| "join_zero [x] = x"
| "join_zero (x # y # parts) = x @ 0 # join_zero (y # parts)"

lemma append_le_append:
  fixes x y :: "'a::linorder list"
  assumes "length x = length y"
  shows "x @ a \<le> y @ b \<longleftrightarrow> x < y \<or> x = y \<and> a \<le> b"
  using assms by (induction x y rule: list_induct2) auto

lemma join_zero_ordered: "ordered_keys join_zero"
proof -
  have "join_zero xs \<le> join_zero (ys @ zs) \<longleftrightarrow> xs \<le> ys" if "list_all2 (\<lambda>a b. length a = length b) xs ys" for xs ys zs
    using that
  proof (induction xs arbitrary: ys rule: join_zero.induct)
    case 1
    then show ?case by simp
  next
    case (2 x)
    then obtain y where y: "ys = [y]" "length x = length y" by (auto simp: list_all2_Cons1)
    have "x \<le> y @ b \<longleftrightarrow> x \<le> y" for b using append_le_append [OF y(2), of "[]" b] by auto
    with y(1) show ?case by (cases zs) auto
  next
    case (3 x x' xs)
    then obtain y y' r where y: "ys = y # y' # r" "length x = length y"
      "list_all2 (\<lambda>a b. length a = length b) (x' # xs) (y' # r)"
      by (auto simp: list_all2_Cons1)
    have "join_zero (ys @ zs) = y @ 0 # join_zero ((y' # r) @ zs)" by (simp add: y(1))
    with 3(1) [OF y(3)] show ?case
      unfolding y(1) by (simp only: join_zero.simps append_le_append [OF y(2)]) auto
  qed
  then show ?thesis by (simp add: ordered_keys_def)
qed

definition e1 :: EventData where
  "e1 = \<lparr>ed_PluginName = ''coin'', ed_Address = None, ed_BlockHeight = 7, ed_BlockTime = 100,
     ed_Topics = [''transfer''], ed_EncodedBody = [1]\<rparr>"

definition env1 :: event_env where
  "env1 = \<lparr>ev_join = join_zero, ev_marshal = (\<lambda>_. Inr [9]), ev_unmarshal = (\<lambda>_. Inr e1),
     ev_json = (\<lambda>_. Inr [8]), ev_unjson = (\<lambda>_. Inr e1), ev_addr_string = (\<lambda>_. ''addr'')\<rparr>"

lemma named_e1: "named env1 e1"
  by (simp add: named_def contract_of_def contract_name_def env1_def e1_def)

lemma posted_e1: "posted 7 100 [e1] = [e1]"
  by (simp add: posted_def e1_def)

definition posted1 :: "indexer event_handler" where
  "posted1 = Post 7 e1 \<lparr>eh_stash = Map.empty, eh_dispatcher = \<lparr>ix_events = [], ix_db = []\<rparr>, eh_calls = []\<rparr>"

definition pending1 :: "u64 \<Rightarrow> EventData list" where
  "pending1 h = (if h = 7 then [e1] else [])"

lemma run1_posted: "event_run env1 [] [] pending1 posted1"
proof -
  have "pending1 = (\<lambda>_. [])(7 := [] @ [e1])" by (simp add: pending1_def fun_eq_iff)
  with run_post [OF run_start, where E = env1 and e = e1 and h = 7] show ?thesis
    by (simp add: posted1_def e1_def)
qed

lemma env1_facts:
  "ordered_keys (ev_join env1)" "posted 7 100 (pending1 7) = [e1]" "list_all (named env1) (posted 7 100 (pending1 7))"
  using named_e1 by (simp_all add: env1_def join_zero_ordered pending1_def posted_e1)

lemma run1: "\<exists>H. event_run env1 [''coin''] [((7, 0), e1)] (\<lambda>_. []) H"
proof -
  note J = env1_facts(1) and es = env1_facts(2) and n = env1_facts(3)
  obtain H' where emit: "EmitBlockTx env1 (DBIndexer env1) 7 100 posted1 = Inr H'"
    using emit_spec [OF J event_run_ok [OF run1_posted J] _ _ _ n] by (auto simp: pending1_def)
  have "event_run env1 (with_names (map (contract_of env1) [e1]) []) ([] @ block_log 7 [e1]) (pending1(7 := [])) H'"
    by (rule run_emit [OF run1_posted _ _ _ emit es [symmetric]]) (simp_all add: pending1_def named_e1)
  moreover have "with_names (map (contract_of env1) [e1]) [] = [''coin'']"
    by (simp add: with_names_def with_name_def contract_of_def contract_name_def env1_def e1_def)
  moreover have "pending1(7 := []) = (\<lambda>_. [])" by (simp add: pending1_def fun_eq_iff)
  moreover have "[] @ block_log 7 [e1] = [((7, 0), e1)]" by (simp add: block_log_def)
  ultimately have "event_run env1 [''coin''] [((7, 0), e1)] (\<lambda>_. []) H'" by metis
  then show ?thesis ..
qed

theorem events_index_exact_witness:
  "\<exists>(H :: indexer event_handler) db'. FilterEvents env1 \<lparr>ef_FromBlock = 5, ef_ToBlock = 9, ef_Contract = ''coin''\<rparr> (ix_db (eh_dispatcher H)) =
     Inr ([e1], db')"
proof -
  obtain H where H: "event_run env1 [''coin''] [((7, 0), e1)] (\<lambda>_. []) H" using run1 ..
  have c: "contract_of env1 e1 = ''coin''" by (simp add: contract_of_def contract_name_def env1_def e1_def)
  have J: "ordered_keys (ev_join env1)" by (simp add: env1_def join_zero_ordered)
  from events_index_exact [OF J H, of "\<lparr>ef_FromBlock = 5, ef_ToBlock = 9, ef_Contract = ''coin''\<rparr>"]
  show ?thesis by (auto simp: c)
qed

text \<open>What a block posted is emitted once. When the block is emitted, at a height above those already
  indexed, the call succeeds, the subscribers are reset and then told of each posted event, in the
  order of the posts, under its contract, to the Ethereum subscribers and under its topics; the events
  of this height are gone afterwards, those of other heights are still there.
\<close>

theorem block_events_emitted:
  assumes "ordered_keys (ev_join E)" and "event_run E names log pending H"
    and "\<And>x. x \<in> set log \<Longrightarrow> fst (fst x) < h" and "length (pending h) \<le> 65536"
    and "length names + length (pending h) < 2 ^ 64" and "list_all (named E) (posted h t (pending h))"
  shows "\<exists>H'. EmitBlockTx E (DBIndexer E) h t H = Inr H' \<and>
    eh_calls H' = eh_calls H @ [ResetSubs, ResetSubs] @ concat (map (published E) (posted h t (pending h))) \<and>
    stash_fetch h (eh_stash H') = [] \<and>
    (\<forall>k. k \<noteq> h \<longrightarrow> stash_fetch k (eh_stash H') = stash_fetch k (eh_stash H))"
proof -
  note ok = event_run_ok [OF assms(2,1)]
  obtain H' where H': "EmitBlockTx E (DBIndexer E) h t H = Inr H'"
    "handler_ok E (with_names (map (contract_of E) (posted h t (pending h))) names)
      (log @ block_log h (posted h t (pending h))) (pending(h := [])) H'"
    "eh_calls H' = eh_calls H @ [ResetSubs, ResetSubs] @ concat (map (published E) (posted h t (pending h)))"
    using emit_spec [OF assms(1) ok assms(3-6)] .
  from ok H'(2) have "stash_fetch h (eh_stash H') = []"
    "\<forall>k. k \<noteq> h \<longrightarrow> stash_fetch k (eh_stash H') = stash_fetch k (eh_stash H)"
    by (simp_all add: handler_ok_def)
  with H' show ?thesis by blast
qed

theorem block_events_emitted_witness:
  "\<exists>H'. EmitBlockTx env1 (DBIndexer env1) 7 100 posted1 = Inr H' \<and>
     eh_calls H' = eh_calls posted1 @ [ResetSubs, ResetSubs] @ published env1 e1"
  using block_events_emitted [OF env1_facts(1) run1_posted _ _ _ env1_facts(3)] env1_facts(2)
  by (auto simp: pending1_def)

text \<open>
  A query up to the largest number asks for nothing: the upper end, one above it, wraps around to zero.
\<close>

lemma query_to_the_end_is_empty:
  assumes J: "ordered_keys (ev_join E)" and "ef_ToBlock flt = - 1" and "ef_Contract flt = ''''"
  shows "FilterEvents E flt db = Inr ([], db)"
proof -
  let ?a = "prefixBlockHeightEventIndex E (ef_FromBlock flt) 0" and ?b = "prefixBlockHeightEventIndex E 0 0"
  have "?b \<le> ?a" by (simp add: block_key_le [OF J] less_eq_prod_def)
  then have "filter (\<lambda>(k, _). ?a \<le> k \<and> k < ?b) db = []"
    by (auto simp: filter_empty_conv)
  then show ?thesis using assms(2,3) by (simp add: FilterEvents_def db_Iterator_def read_events_def)
qed

end
