(* ===== verification/Versioned_Stores.thy ===== *)
theory Versioned_Stores
  imports Kv_Store "HOL-Library.Sublist"
begin

text \<open>
  The versioned stores of the application state: \<open>store/iavlstore.go\<close>, the store that prunes old
  versions in the background (\<open>store/pruning_iavlstore.go\<close>), the store with snapshots for many readers
  (\<open>store/multi_reader_iavl_store.go\<close>) and the logging wrapper (\<open>store/logstore.go\<close>).

  The tree itself is the IAVL library: \<open>iavl_ops\<close> are its operations, an argument, and \<open>iavl_laws\<close>
  what its documentation says of versions. Shown: the end of a key range, which versions pruning
  keeps and that it catches up, and what the snapshots show of the saved versions.
\<close>

section \<open>The tree\<close>

record ('t, 'i) iavl_ops =
  tr_Get :: "'t \<Rightarrow> bytes \<Rightarrow> slice"
  tr_Has :: "'t \<Rightarrow> bytes \<Rightarrow> bool"
  tr_Set :: "bytes \<Rightarrow> slice \<Rightarrow> 't \<Rightarrow> 't"
  tr_Remove :: "bytes \<Rightarrow> 't \<Rightarrow> 't"
  tr_Range :: "'t \<Rightarrow> slice \<Rightarrow> slice \<Rightarrow> (bytes \<times> slice) list res"
  tr_Hash :: "'t \<Rightarrow> bytes"
  tr_Version :: "'t \<Rightarrow> int"
  tr_SaveVersion :: "'t \<Rightarrow> (bytes \<times> int \<times> 't) res"
  tr_VersionExists :: "'t \<Rightarrow> int \<Rightarrow> bool"
  tr_DeleteVersion :: "int \<Rightarrow> 't \<Rightarrow> 't res"
  tr_LoadVersion :: "int \<Rightarrow> 't \<Rightarrow> 't res"
  tr_GetImmutable :: "int \<Rightarrow> 't \<Rightarrow> 'i res"
  im_Empty :: 'i
  im_Get :: "'i \<Rightarrow> bytes \<Rightarrow> slice"

text \<open>
  Documented behaviour: writes are to the working tree; saving numbers the next version and the
  saved tree can be read; a version other than the latest can be deleted. \<open>im_Get\<close> gives the content
  of a saved tree as it was saved.
\<close>

definition write_laws :: "('t, 'i) iavl_ops \<Rightarrow> bool" where
  "write_laws T \<longleftrightarrow>
     (\<forall>t. 0 \<le> tr_Version T t) \<and>
     (\<forall>t k v k'. tr_Get T (tr_Set T k v t) k' = (if k' = k then v else tr_Get T t k') \<and>
        tr_Get T (tr_Remove T k t) k' = (if k' = k then None else tr_Get T t k')) \<and>
     (\<forall>t k v. tr_Version T (tr_Set T k v t) = tr_Version T t \<and> tr_Version T (tr_Remove T k t) = tr_Version T t) \<and>
     (\<forall>t k v i. tr_VersionExists T (tr_Set T k v t) i = tr_VersionExists T t i \<and>
        tr_VersionExists T (tr_Remove T k t) i = tr_VersionExists T t i)"

definition save_law :: "('t, 'i) iavl_ops \<Rightarrow> bool" where
  "save_law T \<longleftrightarrow>
     (\<forall>t h v t'. tr_SaveVersion T t = Inr (h, v, t') \<longrightarrow>
        v = tr_Version T t + 1 \<and> tr_Version T t' = v \<and> (\<forall>i. tr_VersionExists T t' i \<longleftrightarrow> i = v \<or> tr_VersionExists T t i) \<and>
        tr_Get T t' = tr_Get T t \<and> (\<exists>im. tr_GetImmutable T v t' = Inr im \<and> im_Get T im = tr_Get T t))"

definition load_law :: "('t, 'i) iavl_ops \<Rightarrow> bool" where
  "load_law T \<longleftrightarrow>
     (\<forall>t t'. tr_LoadVersion T 0 t = Inr t' \<longrightarrow>
        (\<forall>i. tr_VersionExists T t' i \<longrightarrow> 1 \<le> i \<and> i \<le> tr_Version T t') \<and> tr_Version T t' = tr_Version T t \<and>
        (tr_Version T t' = 0 \<longrightarrow> im_Get T (im_Empty T) = tr_Get T t') \<and>
        (\<forall>im. tr_GetImmutable T (tr_Version T t') t' = Inr im \<longrightarrow> im_Get T im = tr_Get T t'))"

definition delete_law :: "('t, 'i) iavl_ops \<Rightarrow> bool" where
  "delete_law T \<longleftrightarrow>
     (\<forall>t i. tr_VersionExists T t i \<and> i < tr_Version T t \<longrightarrow> (\<exists>t'. tr_DeleteVersion T i t = Inr t')) \<and>
     (\<forall>t i t'. tr_DeleteVersion T i t = Inr t' \<longrightarrow>
        tr_Version T t' = tr_Version T t \<and> tr_Get T t' = tr_Get T t \<and>
        (\<forall>j. tr_VersionExists T t' j \<longleftrightarrow> j \<noteq> i \<and> tr_VersionExists T t j))"

definition iavl_laws :: "('t, 'i) iavl_ops \<Rightarrow> bool" where
  "iavl_laws T \<longleftrightarrow> write_laws T \<and> save_law T \<and> load_law T \<and> delete_law T"

section \<open>IAVL store\<close>

record 't IAVLStore =
  is_tree :: 't
  is_maxVersions :: int

definition at_least_two :: "int \<Rightarrow> int" where
  "at_least_two maxVersions = (if maxVersions \<noteq> 0 \<and> maxVersions < 2 then 2 else maxVersions)"

definition NewIAVLStore :: "('t, 'i) iavl_ops \<Rightarrow> 't \<Rightarrow> int \<Rightarrow> int \<Rightarrow> 't IAVLStore res" where
  "NewIAVLStore T tree maxVersions targetVersion =
     bind_res (tr_LoadVersion T targetVersion tree) (\<lambda>tree.
       Inr \<lparr>is_tree = tree, is_maxVersions = at_least_two maxVersions\<rparr>)"

definition IAVL_Delete :: "('t, 'i) iavl_ops \<Rightarrow> bytes \<Rightarrow> 't IAVLStore \<Rightarrow> 't IAVLStore" where
  "IAVL_Delete T key s = s\<lparr>is_tree := tr_Remove T key (is_tree s)\<rparr>"

definition IAVL_Set :: "('t, 'i) iavl_ops \<Rightarrow> bytes \<Rightarrow> slice \<Rightarrow> 't IAVLStore \<Rightarrow> 't IAVLStore" where
  "IAVL_Set T key val s = s\<lparr>is_tree := tr_Set T key val (is_tree s)\<rparr>"

definition IAVL_Has :: "('t, 'i) iavl_ops \<Rightarrow> 't IAVLStore \<Rightarrow> bytes \<Rightarrow> bool" where
  "IAVL_Has T s key = tr_Has T (is_tree s) key"

definition IAVL_Get :: "('t, 'i) iavl_ops \<Rightarrow> 't IAVLStore \<Rightarrow> bytes \<Rightarrow> slice" where
  "IAVL_Get T s key = tr_Get T (is_tree s) key"

function range_end :: "bytes \<Rightarrow> slice res" where
  "range_end e =
     (if e = [] then Inl (Panic ''index out of range'')
      else if last e \<noteq> 255 then Inr (Some (butlast e @ [last e + 1]))
      else if length e = 1 then Inr None
      else range_end (butlast e))"
  by auto
termination by (relation "measure length") auto

declare range_end.simps [simp del]

definition prefixRangeEnd :: "slice \<Rightarrow> slice res" where
  "prefixRangeEnd p = (case p of None \<Rightarrow> Inr None | Some e \<Rightarrow> range_end e)"

definition IAVL_Range ::
    "('t, 'i) iavl_ops \<Rightarrow> (bytes \<Rightarrow> slice \<Rightarrow> bytes res) \<Rightarrow> 't IAVLStore \<Rightarrow> slice \<Rightarrow> (slice \<times> slice) list res" where
  "IAVL_Range T unprefix s p =
     bind_res (prefixRangeEnd p) (\<lambda>e.
       Inr (case tr_Range T (is_tree s) p e of
          Inl _ \<Rightarrow> []
        | Inr kvs \<Rightarrow> map (\<lambda>(x, v). (case unprefix x p of Inl _ \<Rightarrow> None | Inr k \<Rightarrow> Some k, v)) kvs))"

definition IAVL_SaveVersion :: "('t, 'i) iavl_ops \<Rightarrow> 't IAVLStore \<Rightarrow> (bytes \<times> int \<times> 't IAVLStore) res" where
  "IAVL_SaveVersion T s =
     (case tr_SaveVersion T (is_tree s) of
        Inl _ \<Rightarrow> Inl (Err ''failed to save tree version'')
      | Inr (hash, version, tree) \<Rightarrow> Inr (hash, version, s\<lparr>is_tree := tree\<rparr>))"

definition IAVL_Prune :: "('t, 'i) iavl_ops \<Rightarrow> 't IAVLStore \<Rightarrow> 't IAVLStore res" where
  "IAVL_Prune T s =
     (if is_maxVersions s = 0 then Inr s
      else
        let oldVer = tr_Version T (is_tree s) - is_maxVersions s in
        if oldVer < 1 then Inr s
        else if tr_VersionExists T (is_tree s) oldVer
        then (case tr_DeleteVersion T oldVer (is_tree s) of
            Inl _ \<Rightarrow> Inl (Err ''failed to delete tree version'')
          | Inr tree \<Rightarrow> Inr (s\<lparr>is_tree := tree\<rparr>))
        else Inr s)"

section \<open>Pruning store\<close>

record PruningIAVLStoreConfig =
  pc_MaxVersions :: int
  pc_BatchSize :: int

record 't PruningIAVLStore =
  ps_store :: "'t IAVLStore"
  ps_oldestVer :: int
  ps_maxVersions :: int
  ps_batchSize :: int
  ps_batchCount :: u64

definition NewPruningIAVLStore ::
    "('t, 'i) iavl_ops \<Rightarrow> 't \<Rightarrow> PruningIAVLStoreConfig \<Rightarrow> 't PruningIAVLStore res" where
  "NewPruningIAVLStore T tree cfg =
     (let maxVersions = at_least_two (pc_MaxVersions cfg) in
      bind_res (NewIAVLStore T tree maxVersions 0) (\<lambda>store.
        let oldestVer =
          (if maxVersions \<noteq> 0 \<and> pc_BatchSize cfg > 1
           then (case find (tr_VersionExists T (is_tree store)) [1..tr_Version T (is_tree store)] of
               None \<Rightarrow> 0 | Some i \<Rightarrow> i)
           else 0)
        in Inr \<lparr>ps_store = store, ps_oldestVer = oldestVer, ps_maxVersions = maxVersions,
             ps_batchSize = pc_BatchSize cfg, ps_batchCount = 0\<rparr>))"

definition Pruning_Delete :: "('t, 'i) iavl_ops \<Rightarrow> bytes \<Rightarrow> 't PruningIAVLStore \<Rightarrow> 't PruningIAVLStore" where
  "Pruning_Delete T key s = s\<lparr>ps_store := IAVL_Delete T key (ps_store s)\<rparr>"

definition Pruning_Set :: "('t, 'i) iavl_ops \<Rightarrow> bytes \<Rightarrow> slice \<Rightarrow> 't PruningIAVLStore \<Rightarrow> 't PruningIAVLStore" where
  "Pruning_Set T key val s = s\<lparr>ps_store := IAVL_Set T key val (ps_store s)\<rparr>"

definition Pruning_SaveVersion ::
    "('t, 'i) iavl_ops \<Rightarrow> 't PruningIAVLStore \<Rightarrow> (bytes \<times> int \<times> 't PruningIAVLStore) res" where
  "Pruning_SaveVersion T s =
     bind_res (IAVL_SaveVersion T (ps_store s)) (\<lambda>(hash, ver, store).
       let s = s\<lparr>ps_store := store\<rparr> in
       Inr (hash, ver, if ps_oldestVer s = 0 then s\<lparr>ps_oldestVer := ver\<rparr> else s))"

text \<open>An error leaves the versions that were deleted before it deleted: the state comes with it.\<close>

definition oldest_done :: "'t \<Rightarrow> 't PruningIAVLStore \<Rightarrow> 't PruningIAVLStore" where
  "oldest_done tree s = s\<lparr>ps_store := (ps_store s)\<lparr>is_tree := tree\<rparr>, ps_oldestVer := ps_oldestVer s + 1\<rparr>"

fun prune_loop ::
    "('t, 'i) iavl_ops \<Rightarrow> int list \<Rightarrow> 't PruningIAVLStore \<Rightarrow> go_error option \<times> 't PruningIAVLStore" where
  "prune_loop T [] s = (None, s)"
| "prune_loop T (i # is) s =
     (let tree = is_tree (ps_store s) in
      if tr_VersionExists T tree i
      then (case tr_DeleteVersion T i tree of
          Inl _ \<Rightarrow> (Some (Err ''failed to delete tree version''), s)
        | Inr tree \<Rightarrow> prune_loop T is (oldest_done tree s))
      else prune_loop T is (oldest_done tree s))"

definition prune_end :: "('t, 'i) iavl_ops \<Rightarrow> 't PruningIAVLStore \<Rightarrow> int" where
  "prune_end T s =
     (let latestVer = tr_Version T (is_tree (ps_store s));
          endVer = latestVer - ps_maxVersions s;
          endVer = (if endVer - ps_oldestVer s > ps_batchSize s then ps_oldestVer s + ps_batchSize s else endVer)
      in if endVer > latestVer - 2 then latestVer - 2 else endVer)"

definition prune :: "('t, 'i) iavl_ops \<Rightarrow> 't PruningIAVLStore \<Rightarrow> go_error option \<times> 't PruningIAVLStore" where
  "prune T s =
     (if ps_oldestVer s = 0 \<or> ps_oldestVer s > tr_Version T (is_tree (ps_store s)) - ps_maxVersions s
      then (None, s)
      else
        case prune_loop T [ps_oldestVer s..prune_end T s] s of
          (Some e, s) \<Rightarrow> (Some e, s)
        | (None, s) \<Rightarrow> (None, s\<lparr>ps_batchCount := ps_batchCount s + 1\<rparr>))"

section \<open>The end of a key range\<close>

lemma word_between_succ:
  assumes "x \<noteq> 255"
  shows "x \<le> y \<and> y < x + 1 \<longleftrightarrow> y = (x :: 8 word)"
proof -
  have "(255 :: 8 word) = - 1" by code_simp
  with assms have "x \<noteq> - 1" by metis
  then show ?thesis using inc_less_eq_iff [of x y] by (auto simp: not_le [symmetric])
qed

lemma prefix_between:
  assumes "x \<noteq> 255"
  shows "prefix (q @ [x]) k \<longleftrightarrow> q @ [x] \<le> k \<and> k < q @ [x + 1 :: 8 word]"
proof (induction q arbitrary: k)
  case Nil
  then show ?case
  proof (cases k)
    case (Cons y r)
    have "prefix [x] k \<longleftrightarrow> y = x" by (auto simp: Cons)
    also have "\<dots> \<longleftrightarrow> x \<le> y \<and> y < x + 1" using word_between_succ [OF assms, of y] by blast
    also have "\<dots> \<longleftrightarrow> [x] \<le> k \<and> k < [x + 1]" by (cases r) (auto simp: Cons le_less)
    finally show ?thesis by simp
  qed simp
next
  case (Cons a q)
  note IH = Cons.IH
  show ?case
  proof (cases k)
    case (Cons b r)
    then show ?thesis using IH [of r] by (cases a b rule: linorder_cases) auto
  qed simp
qed

lemma prefix_255: "prefix (q @ [255]) k \<longleftrightarrow> q @ [255 :: 8 word] \<le> k \<and> prefix q k"
proof (induction q arbitrary: k)
  case Nil
  have top: "255 \<le> y \<longleftrightarrow> y = (255 :: 8 word)" for y
  proof -
    have "(255 :: 8 word) = - 1" by code_simp
    then show ?thesis by (metis word_order.extremum_unique)
  qed
  show ?case
  proof (cases k)
    case (Cons y r)
    then show ?thesis using top [of y] by (cases r) (auto simp: le_less)
  qed simp
next
  case (Cons a q)
  note IH = Cons.IH
  show ?case
  proof (cases k)
    case (Cons b r)
    then show ?thesis using IH [of r] by (cases a b rule: linorder_cases) auto
  qed simp
qed

lemma snoc_le_le: "q @ [x] \<le> k \<Longrightarrow> q \<le> (k :: 'a::linorder list)"
  by (induction q arbitrary: k) (auto simp: less_eq_list_code split: list.splits, (case_tac k; auto)+)

lemma range_end_exact:
  assumes "p \<noteq> []"
  shows "\<exists>e. range_end p = Inr e \<and>
    (\<forall>k. prefix p k \<longleftrightarrow> p \<le> k \<and> (case e of None \<Rightarrow> True | Some b \<Rightarrow> k < b))"
  using assms
proof (induction p rule: rev_induct)
  case Nil
  then show ?case by simp
next
  case (snoc x q)
  show ?case
  proof (cases "x = 255")
    case False
    then have "range_end (q @ [x]) = Inr (Some (q @ [x + 1]))" by (simp add: range_end.simps)
    with prefix_between [OF False] show ?thesis by simp
  next
    case x: True
    show ?thesis
    proof (cases "q = []")
      case True
      then have "range_end (q @ [x]) = Inr None" using x by (simp add: range_end.simps)
      moreover have "prefix (q @ [x]) k \<longleftrightarrow> q @ [x] \<le> k" for k using prefix_255 [of q k] True x by simp
      ultimately show ?thesis by simp
    next
      case False
      then have eq: "range_end (q @ [x]) = range_end q" using x by (subst range_end.simps) simp
      from snoc.IH [OF False] obtain e where e: "range_end q = Inr e"
        "\<And>k. prefix q k \<longleftrightarrow> q \<le> k \<and> (case e of None \<Rightarrow> True | Some b \<Rightarrow> k < b)"
        by blast
      have "prefix (q @ [x]) k \<longleftrightarrow> q @ [x] \<le> k \<and> (case e of None \<Rightarrow> True | Some b \<Rightarrow> k < b)" for k
        using prefix_255 [of q k] e(2) [of k] snoc_le_le [of q x k] x by blast
      with e(1) eq show ?thesis by auto
    qed
  qed
qed

section \<open>Versions under pruning\<close>

definition versions :: "('t, 'i) iavl_ops \<Rightarrow> 't PruningIAVLStore \<Rightarrow> int set" where
  "versions T s = {i. tr_VersionExists T (is_tree (ps_store s)) i}"

definition latest :: "('t, 'i) iavl_ops \<Rightarrow> 't PruningIAVLStore \<Rightarrow> int" where
  "latest T s = tr_Version T (is_tree (ps_store s))"

text \<open>
  Runs of the store with its background goroutine, which only runs when there is a limit. \<open>saved\<close> are
  the versions found when the store was opened and those saved since.
\<close>

inductive pruning_run ::
    "('t, 'i) iavl_ops \<Rightarrow> PruningIAVLStoreConfig \<Rightarrow> int set \<Rightarrow> 't PruningIAVLStore \<Rightarrow> bool"
  for T :: "('t, 'i) iavl_ops" and cfg :: PruningIAVLStoreConfig where
  prun_open: "NewPruningIAVLStore T tree cfg = Inr s \<Longrightarrow> pruning_run T cfg (versions T s) s"
| prun_set: "pruning_run T cfg saved s \<Longrightarrow> pruning_run T cfg saved (Pruning_Set T k v s)"
| prun_delete: "pruning_run T cfg saved s \<Longrightarrow> pruning_run T cfg saved (Pruning_Delete T k s)"
| prun_save: "pruning_run T cfg saved s \<Longrightarrow> Pruning_SaveVersion T s = Inr (h, v, s') \<Longrightarrow>
    pruning_run T cfg (insert v saved) s'"
| prun_prune: "pruning_run T cfg saved s \<Longrightarrow> ps_maxVersions s \<noteq> 0 \<Longrightarrow> pruning_run T cfg saved (snd (prune T s))"

lemma latest_nonneg: "iavl_laws T \<Longrightarrow> 0 \<le> latest T s"
  by (simp add: iavl_laws_def write_laws_def latest_def)

lemma iavl_simps:
  assumes "iavl_laws T"
  shows "tr_Version T (tr_Set T k v t) = tr_Version T t" "tr_Version T (tr_Remove T k t) = tr_Version T t"
    "tr_VersionExists T (tr_Set T k v t) i = tr_VersionExists T t i"
    "tr_VersionExists T (tr_Remove T k t) i = tr_VersionExists T t i" "0 \<le> tr_Version T t"
  using assms by (simp_all add: iavl_laws_def write_laws_def)

lemma iavl_save:
  assumes "iavl_laws T" and "tr_SaveVersion T t = Inr (h, v, t')"
  shows "v = tr_Version T t + 1" "tr_Version T t' = v" "tr_VersionExists T t' i \<longleftrightarrow> i = v \<or> tr_VersionExists T t i"
    "tr_Get T t' = tr_Get T t" "\<exists>im. tr_GetImmutable T v t' = Inr im \<and> im_Get T im = tr_Get T t"
  using assms unfolding iavl_laws_def save_law_def by blast+

lemma iavl_delete:
  assumes "iavl_laws T"
  shows "tr_VersionExists T t i \<Longrightarrow> i < tr_Version T t \<Longrightarrow> \<exists>t'. tr_DeleteVersion T i t = Inr t'"
    and "tr_DeleteVersion T i t = Inr t' \<Longrightarrow> tr_Version T t' = tr_Version T t"
    and "tr_DeleteVersion T i t = Inr t' \<Longrightarrow> tr_VersionExists T t' j \<longleftrightarrow> j \<noteq> i \<and> tr_VersionExists T t j"
  using assms unfolding iavl_laws_def delete_law_def by blast+

lemma iavl_load:
  assumes "iavl_laws T" and "tr_LoadVersion T 0 t = Inr t'" and "tr_VersionExists T t' i"
  shows "1 \<le> i" and "i \<le> tr_Version T t'"
  using assms unfolding iavl_laws_def load_law_def by blast+

lemma iavl_load_content:
  assumes "iavl_laws T" and "tr_LoadVersion T 0 t = Inr t'"
  shows "tr_Version T t' = tr_Version T t" and "tr_Version T t' = 0 \<Longrightarrow> im_Get T (im_Empty T) = tr_Get T t'"
    and "tr_GetImmutable T (tr_Version T t') t' = Inr im \<Longrightarrow> im_Get T im = tr_Get T t'"
  using assms unfolding iavl_laws_def load_law_def by blast+

lemma prune_loop_spec:
  assumes T: "iavl_laws T"
  shows "\<forall>i \<in> set is. i < latest T s \<Longrightarrow> \<exists>s'. prune_loop T is s = (None, s') \<and>
    versions T s' = versions T s - set is \<and> latest T s' = latest T s \<and>
    ps_oldestVer s' = ps_oldestVer s + int (length is) \<and>
    ps_maxVersions s' = ps_maxVersions s \<and> ps_batchSize s' = ps_batchSize s"
proof (induction "is" arbitrary: s)
  case Nil
  then show ?case by simp
next
  case (Cons i "is")
  have i: "i < tr_Version T (is_tree (ps_store s))" using Cons.prems by (simp add: latest_def)
  obtain t where t: "prune_loop T (i # is) s = prune_loop T is (oldest_done t s)"
    "versions T (oldest_done t s) = versions T s - {i}" "latest T (oldest_done t s) = latest T s"
  proof (cases "tr_VersionExists T (is_tree (ps_store s)) i")
    case True
    then obtain t where d: "tr_DeleteVersion T i (is_tree (ps_store s)) = Inr t" using iavl_delete(1) [OF T] i by blast
    show ?thesis
      by (rule that [of t])
        (use True d iavl_delete(2,3) [OF T d] in \<open>auto simp: oldest_done_def versions_def latest_def Let_def\<close>)
  next
    case False
    then show ?thesis
      by (intro that [of "is_tree (ps_store s)"]) (auto simp: oldest_done_def versions_def latest_def Let_def)
  qed
  have "\<forall>j \<in> set is. j < latest T (oldest_done t s)" using Cons.prems t(3) by simp
  from Cons.IH [OF this] obtain s' where "prune_loop T is (oldest_done t s) = (None, s')"
    "versions T s' = versions T (oldest_done t s) - set is" "latest T s' = latest T (oldest_done t s)"
    "ps_oldestVer s' = ps_oldestVer (oldest_done t s) + int (length is)"
    "ps_maxVersions s' = ps_maxVersions (oldest_done t s)" "ps_batchSize s' = ps_batchSize (oldest_done t s)"
    by blast
  with t show ?case by (auto simp: oldest_done_def)
qed

text \<open>
  What a call deletes: nothing, or the versions from the oldest to an end which is at most the
  version where the promise to keep starts, and at most a batch above the oldest.
\<close>

lemma prune_spec:
  fixes T :: "('a, 'b) iavl_ops" and s :: "'a PruningIAVLStore"
  assumes T: "iavl_laws T"
  defines "E \<equiv> latest T s - ps_maxVersions s"
  shows "fst (prune T s) = None"
    and "latest T (snd (prune T s)) = latest T s"
    and "ps_maxVersions (snd (prune T s)) = ps_maxVersions s" and "ps_batchSize (snd (prune T s)) = ps_batchSize s"
    and "if ps_oldestVer s = 0 \<or> ps_oldestVer s > E
      then versions T (snd (prune T s)) = versions T s \<and> ps_oldestVer (snd (prune T s)) = ps_oldestVer s
      else versions T (snd (prune T s)) = versions T s - {ps_oldestVer s..prune_end T s} \<and>
        ps_oldestVer (snd (prune T s)) = max (ps_oldestVer s) (prune_end T s + 1)"
    and "prune_end T s \<le> E" and "prune_end T s \<le> latest T s - 2"
proof -
  show e: "prune_end T s \<le> E" "prune_end T s \<le> latest T s - 2"
    by (auto simp: prune_end_def E_def latest_def Let_def)
  have "\<forall>i \<in> set [ps_oldestVer s..prune_end T s]. i < latest T s" using e(2) by auto
  from prune_loop_spec [OF T this] obtain s' where s': "prune_loop T [ps_oldestVer s..prune_end T s] s = (None, s')"
    "versions T s' = versions T s - {ps_oldestVer s..prune_end T s}" "latest T s' = latest T s"
    "ps_oldestVer s' = ps_oldestVer s + int (length [ps_oldestVer s..prune_end T s])"
    "ps_maxVersions s' = ps_maxVersions s" "ps_batchSize s' = ps_batchSize s"
    by auto
  have o: "ps_oldestVer s' = max (ps_oldestVer s) (prune_end T s + 1)" using s'(4) by simp
  have same: "versions T (x\<lparr>ps_batchCount := n\<rparr>) = versions T x" "latest T (x\<lparr>ps_batchCount := n\<rparr>) = latest T x" for x :: "'a PruningIAVLStore" and n
    by (simp_all add: versions_def latest_def)
  have noop: "prune T s = (None, s)" if "ps_oldestVer s = 0 \<or> ps_oldestVer s > E"
    using that by (simp add: prune_def E_def latest_def)
  have run: "prune T s = (None, s'\<lparr>ps_batchCount := ps_batchCount s' + 1\<rparr>)" if "\<not> (ps_oldestVer s = 0 \<or> ps_oldestVer s > E)"
    using that s'(1) by (simp add: prune_def E_def latest_def)
  show "fst (prune T s) = None" "latest T (snd (prune T s)) = latest T s"
    "ps_maxVersions (snd (prune T s)) = ps_maxVersions s" "ps_batchSize (snd (prune T s)) = ps_batchSize s"
    using noop run s' by (cases "ps_oldestVer s = 0 \<or> ps_oldestVer s > E"; simp add: same)+
  show "if ps_oldestVer s = 0 \<or> ps_oldestVer s > E
      then versions T (snd (prune T s)) = versions T s \<and> ps_oldestVer (snd (prune T s)) = ps_oldestVer s
      else versions T (snd (prune T s)) = versions T s - {ps_oldestVer s..prune_end T s} \<and>
        ps_oldestVer (snd (prune T s)) = max (ps_oldestVer s) (prune_end T s + 1)"
    using noop run s' o by (simp add: same)
qed

text \<open>The invariant of a run.\<close>

definition pruning_ok :: "('t, 'i) iavl_ops \<Rightarrow> PruningIAVLStoreConfig \<Rightarrow> int set \<Rightarrow> 't PruningIAVLStore \<Rightarrow> bool" where
  "pruning_ok T cfg saved s \<longleftrightarrow>
     ps_maxVersions s = at_least_two (pc_MaxVersions cfg) \<and> ps_batchSize s = pc_BatchSize cfg \<and>
     versions T s \<subseteq> saved \<and> saved \<subseteq> {1..latest T s} \<and> 0 \<le> ps_oldestVer s \<and> ps_oldestVer s \<le> latest T s \<and>
     (\<forall>i \<in> saved. ps_maxVersions s = 0 \<or> latest T s - ps_maxVersions s < i \<longrightarrow> i \<in> versions T s) \<and>
     (ps_maxVersions s \<noteq> 0 \<and> 1 < pc_BatchSize cfg \<longrightarrow>
        (if ps_oldestVer s = 0 then versions T s = {} else versions T s \<subseteq> {ps_oldestVer s..}))"

lemma writes_keep [simp]:
  assumes "iavl_laws T"
  shows "versions T (Pruning_Set T k v s) = versions T s" "latest T (Pruning_Set T k v s) = latest T s"
    "versions T (Pruning_Delete T k s) = versions T s" "latest T (Pruning_Delete T k s) = latest T s"
  using iavl_simps [OF assms]
  by (simp_all add: versions_def latest_def Pruning_Set_def Pruning_Delete_def IAVL_Set_def IAVL_Delete_def)

lemma find_first:
  assumes "find P [1..n] = (r :: int option)"
  shows "case r of None \<Rightarrow> \<forall>i. 1 \<le> i \<and> i \<le> n \<longrightarrow> \<not> P i | Some m \<Rightarrow> m \<noteq> 0 \<and> (\<forall>i. 1 \<le> i \<and> i \<le> n \<and> P i \<longrightarrow> m \<le> i)"
proof (cases r)
  case None
  then show ?thesis using assms by (auto simp: find_None_iff)
next
  case (Some m)
  then obtain j where j: "j < length [1..n]" "[1..n] ! j = m" "\<forall>l<j. \<not> P ([1..n] ! l)"
    using assms by (auto simp: find_Some_iff)
  have m: "m = 1 + int j" using j(1,2) by simp
  have "m \<le> i" if "1 \<le> i" "i \<le> n" "P i" for i
  proof (rule ccontr)
    assume "\<not> m \<le> i"
    then have "nat (i - 1) < j" using m that(1) by linarith
    with j(1,3) that show False by auto
  qed
  with Some m show ?thesis by simp
qed

lemma pruning_run_ok:
  assumes T: "iavl_laws T" and "pruning_run T cfg saved s"
  shows "pruning_ok T cfg saved s"
  using assms(2)
proof induction
  case (prun_open tree s)
  then obtain t where t: "tr_LoadVersion T 0 tree = Inr t" "is_tree (ps_store s) = t"
    "ps_maxVersions s = at_least_two (pc_MaxVersions cfg)" "ps_batchSize s = pc_BatchSize cfg"
    "ps_oldestVer s = (if ps_maxVersions s \<noteq> 0 \<and> pc_BatchSize cfg > 1
       then (case find (tr_VersionExists T t) [1..tr_Version T t] of None \<Rightarrow> 0 | Some i \<Rightarrow> i) else 0)"
    by (auto simp: NewPruningIAVLStore_def NewIAVLStore_def Let_def elim!: bind_resE)
  have "versions T s \<subseteq> {1..latest T s}"
    using iavl_load [OF T t(1)] t(2) by (auto simp: versions_def latest_def)
  moreover have "if ps_oldestVer s = 0 then versions T s = {} else versions T s \<subseteq> {ps_oldestVer s..}"
    if lim: "ps_maxVersions s \<noteq> 0" "1 < pc_BatchSize cfg"
  proof -
    let ?f = "find (tr_VersionExists T t) [1..tr_Version T t]"
    have o: "ps_oldestVer s = (case ?f of None \<Rightarrow> 0 | Some i \<Rightarrow> i)" using lim t(5) by simp
    have v: "\<And>i. i \<in> versions T s \<Longrightarrow> 1 \<le> i \<and> i \<le> tr_Version T t \<and> tr_VersionExists T t i"
      using iavl_load [OF T t(1)] t(2) by (auto simp: versions_def)
    note f = find_first [OF refl, where P = "tr_VersionExists T t" and n = "tr_Version T t"]
    show ?thesis
    proof (cases ?f)
      case None
      with f v o show ?thesis by auto
    next
      case (Some m)
      with f v o show ?thesis by auto
    qed
  qed
  moreover have "0 \<le> ps_oldestVer s" "ps_oldestVer s \<le> latest T s"
  proof -
    have "find (tr_VersionExists T t) [1..tr_Version T t] = Some m \<Longrightarrow> 0 \<le> m \<and> m \<le> tr_Version T t" for m
      by (auto simp: find_Some_iff)
    with latest_nonneg [OF T, of s] t(2,5) show "0 \<le> ps_oldestVer s" "ps_oldestVer s \<le> latest T s"
      by (auto simp: latest_def split: option.splits)
  qed
  ultimately show ?case using t(3,4) by (simp add: pruning_ok_def)
next
  case (prun_set saved s k v)
  then show ?case using T by (simp add: pruning_ok_def) (simp add: Pruning_Set_def)
next
  case (prun_delete saved s k)
  then show ?case using T by (simp add: pruning_ok_def) (simp add: Pruning_Delete_def)
next
  case (prun_save saved s h v s')
  then obtain t where t: "tr_SaveVersion T (is_tree (ps_store s)) = Inr (h, v, t)"
    and s': "is_tree (ps_store s') = t" "ps_maxVersions s' = ps_maxVersions s" "ps_batchSize s' = ps_batchSize s"
      "ps_oldestVer s' = (if ps_oldestVer s = 0 then v else ps_oldestVer s)"
    by (auto simp: Pruning_SaveVersion_def IAVL_SaveVersion_def Let_def elim!: bind_resE split: sum.splits)
  have "latest T s' = latest T s + 1" "v = latest T s + 1" "versions T s' = insert v (versions T s)"
    using iavl_save(1-3) [OF T t] s'(1) by (auto simp: latest_def versions_def)
  with prun_save.IH s'(2-4) latest_nonneg [OF T, of s] show ?case
    by (auto simp: pruning_ok_def split: if_splits)
next
  case (prun_prune saved s)
  note P = prune_spec [OF T, of s]
  show ?case
  proof (cases "ps_oldestVer s = 0 \<or> ps_oldestVer s > latest T s - ps_maxVersions s")
    case True
    then show ?thesis using P(2-5) prun_prune.IH by (simp add: pruning_ok_def)
  next
    case False
    let ?s = "snd (prune T s)"
    from False P(5) have v: "versions T ?s = versions T s - {ps_oldestVer s..prune_end T s}"
      and o: "ps_oldestVer ?s = max (ps_oldestVer s) (prune_end T s + 1)" by auto
    note ok = prun_prune.IH [unfolded pruning_ok_def]
    have pos: "0 < ps_oldestVer s" using ok False by auto
    show ?thesis
      unfolding pruning_ok_def v P(2,3,4)
    proof (intro conjI impI)
      show "versions T s - {ps_oldestVer s..prune_end T s} \<subseteq> saved" using ok by blast
      show "ps_oldestVer ?s \<le> latest T s" using o ok P(7) by auto
      show "\<forall>i \<in> saved. ps_maxVersions s = 0 \<or> latest T s - ps_maxVersions s < i \<longrightarrow>
          i \<in> versions T s - {ps_oldestVer s..prune_end T s}"
        using ok P(6) prun_prune.hyps(2) by auto
      assume lim: "ps_maxVersions s \<noteq> 0 \<and> 1 < pc_BatchSize cfg"
      have "versions T s \<subseteq> {ps_oldestVer s..}" using ok lim pos by simp
      then show "if ps_oldestVer ?s = 0 then versions T s - {ps_oldestVer s..prune_end T s} = {}
          else versions T s - {ps_oldestVer s..prune_end T s} \<subseteq> {ps_oldestVer ?s..}"
        using o pos by auto
    qed (use ok o pos in auto)
  qed
qed

lemma prune_progress:
  assumes "iavl_laws T" and "2 \<le> ps_maxVersions s" and "0 \<le> ps_batchSize s"
    and "ps_oldestVer s \<noteq> 0" and "ps_oldestVer s \<le> latest T s - ps_maxVersions s"
  shows "ps_oldestVer s < ps_oldestVer (snd (prune T s))"
proof -
  have "ps_oldestVer s \<le> prune_end T s"
    using assms(2,3,5) by (auto simp: prune_end_def latest_def Let_def)
  then show ?thesis using prune_spec(5) [OF assms(1), of s] assms(4,5) by auto
qed

lemma prune_keeps_ok:
  assumes "iavl_laws T" and "pruning_run T cfg saved s" and "ps_maxVersions s \<noteq> 0"
  shows "pruning_run T cfg saved (((\<lambda>s. snd (prune T s)) ^^ n) s)"
    and "latest T (((\<lambda>s. snd (prune T s)) ^^ n) s) = latest T s"
    and "ps_maxVersions (((\<lambda>s. snd (prune T s)) ^^ n) s) = ps_maxVersions s"
  using assms(2,3) by (induction n) (auto intro: prun_prune simp: prune_spec [OF assms(1)])

lemma prune_reaches_end:
  assumes T: "iavl_laws T" and "pruning_run T cfg saved s" and "ps_maxVersions s \<noteq> 0" and "1 < pc_BatchSize cfg"
  shows "\<exists>n. let s' = ((\<lambda>s. snd (prune T s)) ^^ n) s in ps_oldestVer s' = 0 \<or> latest T s - ps_maxVersions s < ps_oldestVer s'"
  using assms(2,3)
proof (induction "nat (latest T s - ps_maxVersions s + 1 - ps_oldestVer s)" arbitrary: s rule: less_induct)
  case less
  note ok = pruning_run_ok [OF T less.prems(1), unfolded pruning_ok_def]
  have two: "2 \<le> ps_maxVersions s" "0 \<le> ps_batchSize s" using ok less.prems(2) assms(4) by (auto simp: at_least_two_def)
  show ?case
  proof (cases "ps_oldestVer s = 0 \<or> latest T s - ps_maxVersions s < ps_oldestVer s")
    case True
    then show ?thesis by (intro exI [of _ 0]) simp
  next
    case False
    let ?s = "snd (prune T s)"
    have "ps_oldestVer s < ps_oldestVer ?s" using prune_progress [OF T two] False by auto
    then have "nat (latest T ?s - ps_maxVersions ?s + 1 - ps_oldestVer ?s) < nat (latest T s - ps_maxVersions s + 1 - ps_oldestVer s)"
      using prune_spec(2,3) [OF T, of s] False by auto
    from less.hyps [OF this prun_prune [OF less.prems]] less.prems(2) prune_spec(2,3) [OF T, of s]
    obtain n where "let s' = ((\<lambda>s. snd (prune T s)) ^^ n) ?s in ps_oldestVer s' = 0 \<or> latest T s - ps_maxVersions s < ps_oldestVer s'"
      by auto
    then show ?thesis by (intro exI [of _ "Suc n"]) (simp only: funpow_Suc_right comp_apply)
  qed
qed

section \<open>Store with snapshots\<close>

text \<open>
  The values of the latest saved tree are kept in a second database, written in one batch when a
  version is saved. \<open>vk\<close> is the key under which it stores the version.
\<close>

datatype batch_op = BatchSet bytes bytes | BatchDelete bytes

primrec apply_op :: "batch_op \<Rightarrow> (bytes \<rightharpoonup> bytes) \<Rightarrow> (bytes \<rightharpoonup> bytes)" where
  "apply_op (BatchSet k v) d = d(k \<mapsto> v)"
| "apply_op (BatchDelete k) d = d(k := None)"

definition non_nil :: "slice \<Rightarrow> bytes" where
  "non_nil v = (case v of None \<Rightarrow> [] | Some b \<Rightarrow> b)"

record ('t, 'i) MultiReaderIAVLStore =
  mr_store :: "'t IAVLStore"
  mr_valueDB :: "bytes \<rightharpoonup> bytes"
  mr_valueBatch :: "batch_op list"
  mr_lastSavedTree :: 'i
  mr_snapshotVersion :: int

definition MR_Delete :: "('t, 'i) iavl_ops \<Rightarrow> bytes \<Rightarrow> ('t, 'i) MultiReaderIAVLStore \<Rightarrow> ('t, 'i) MultiReaderIAVLStore" where
  "MR_Delete T key s =
     s\<lparr>mr_store := IAVL_Delete T key (mr_store s), mr_valueBatch := mr_valueBatch s @ [BatchDelete key]\<rparr>"

definition MR_Set ::
    "('t, 'i) iavl_ops \<Rightarrow> bytes \<Rightarrow> slice \<Rightarrow> ('t, 'i) MultiReaderIAVLStore \<Rightarrow> ('t, 'i) MultiReaderIAVLStore" where
  "MR_Set T key val s =
     s\<lparr>mr_store := IAVL_Set T key val (mr_store s), mr_valueBatch := mr_valueBatch s @ [BatchSet key (non_nil val)]\<rparr>"

definition MR_getValue :: "('t, 'i) MultiReaderIAVLStore \<Rightarrow> bytes \<Rightarrow> slice" where
  "MR_getValue s key = mr_valueDB s key"

text \<open>
  The node database is created with \<open>getValue\<close> as a callback: it holds no values, and a leaf that is
  not in its cache is given the value that the value database has at that moment. Which leaves
  are cached is up to the library, so the lookup in a saved tree is an argument \<open>look\<close> that is given the
  callback; \<open>reads_leaves\<close> is what it returns.
\<close>

definition reads_leaves ::
    "('t, 'i) iavl_ops \<Rightarrow> ('i \<Rightarrow> (bytes \<Rightarrow> slice) \<Rightarrow> bytes \<Rightarrow> slice) \<Rightarrow> bool" where
  "reads_leaves T look \<longleftrightarrow>
     (\<forall>tree getValue key. look tree getValue key \<in>
        {im_Get T tree key, if im_Get T tree key = None then None else getValue key})"

lemma reads_leavesD:
  "reads_leaves T look \<Longrightarrow>
     look tree getValue key \<in> {im_Get T tree key, if im_Get T tree key = None then None else getValue key}"
  by (simp only: reads_leaves_def)

definition setLastSavedTreeToVersion ::
    "('t, 'i) iavl_ops \<Rightarrow> int \<Rightarrow> ('t, 'i) MultiReaderIAVLStore \<Rightarrow> ('t, 'i) MultiReaderIAVLStore res" where
  "setLastSavedTreeToVersion T version s =
     (if version = 0 then Inr (s\<lparr>mr_lastSavedTree := im_Empty T\<rparr>)
      else case tr_GetImmutable T version (is_tree (mr_store s)) of
          Inl _ \<Rightarrow> Inl (Err ''failed to load immutable tree'')
        | Inr tree \<Rightarrow> Inr (s\<lparr>mr_lastSavedTree := tree\<rparr>))"

definition write_values :: "bytes \<Rightarrow> int \<Rightarrow> ('t, 'i) MultiReaderIAVLStore \<Rightarrow> ('t, 'i) MultiReaderIAVLStore" where
  "write_values vk ver s =
     s\<lparr>mr_valueDB := fold apply_op (mr_valueBatch s @ [BatchSet vk (be_encode64 (word_of_int ver))]) (mr_valueDB s),
       mr_valueBatch := []\<rparr>"

definition MR_SaveVersion ::
    "('t, 'i) iavl_ops \<Rightarrow> bytes \<Rightarrow> ('t, 'i) MultiReaderIAVLStore \<Rightarrow> (bytes \<times> int \<times> ('t, 'i) MultiReaderIAVLStore) res" where
  "MR_SaveVersion T vk s =
     bind_res (IAVL_SaveVersion T (mr_store s)) (\<lambda>(hash, ver, store).
       let s = write_values vk ver (s\<lparr>mr_store := store\<rparr>) in
       bind_res (setLastSavedTreeToVersion T ver s) (\<lambda>s. Inr (hash, ver, s)))"

datatype 'i mr_snapshot =
    DBSnapshot "bytes \<rightharpoonup> bytes"
  | HybridSnapshot "bytes \<rightharpoonup> bytes" 'i
  | TreeSnapshot 'i

definition MR_GetSnapshot :: "('t, 'i) MultiReaderIAVLStore \<Rightarrow> 'i mr_snapshot res" where
  "MR_GetSnapshot s =
     (if mr_snapshotVersion s = 1 then Inr (DBSnapshot (mr_valueDB s))
      else if mr_snapshotVersion s = 2 then Inr (HybridSnapshot (mr_valueDB s) (mr_lastSavedTree s))
      else if mr_snapshotVersion s = 3 then Inr (TreeSnapshot (mr_lastSavedTree s))
      else Inl (Panic ''Invalid snapshot version''))"

text \<open>A snapshot is read in the state \<open>s\<close> the store has by then.\<close>

primrec snapshot_Get ::
    "('i \<Rightarrow> (bytes \<Rightarrow> slice) \<Rightarrow> bytes \<Rightarrow> slice) \<Rightarrow> ('t, 'i) MultiReaderIAVLStore \<Rightarrow> 'i mr_snapshot \<Rightarrow> bytes \<Rightarrow> slice" where
  "snapshot_Get look s (DBSnapshot d) key = d key"
| "snapshot_Get look s (HybridSnapshot d tree) key = look tree (MR_getValue s) key"
| "snapshot_Get look s (TreeSnapshot tree) key = look tree (MR_getValue s) key"

text \<open>What \<open>Range\<close> walks; both ways of walking are the libraries'.\<close>

primrec range_view ::
    "('i \<Rightarrow> (bytes \<Rightarrow> slice) \<Rightarrow> bytes \<Rightarrow> slice) \<Rightarrow> ('t, 'i) MultiReaderIAVLStore \<Rightarrow> 'i mr_snapshot \<Rightarrow> bytes \<Rightarrow> slice" where
  "range_view look s (DBSnapshot d) = d"
| "range_view look s (HybridSnapshot d tree) = d"
| "range_view look s (TreeSnapshot tree) = look tree (MR_getValue s)"

definition snapshot_Range ::
    "('i \<Rightarrow> (bytes \<Rightarrow> slice) \<Rightarrow> bytes \<Rightarrow> slice) \<Rightarrow> ((bytes \<Rightarrow> slice) \<Rightarrow> slice \<Rightarrow> slice \<Rightarrow> (bytes \<times> bytes) list res)
      \<Rightarrow> (bytes \<Rightarrow> slice \<Rightarrow> bytes res) \<Rightarrow> ('t, 'i) MultiReaderIAVLStore \<Rightarrow> 'i mr_snapshot \<Rightarrow> slice \<Rightarrow> (bytes \<times> bytes) list res" where
  "snapshot_Range look walk unprefix s snap p =
     bind_res (prefixRangeEnd p) (\<lambda>e.
     bind_res (walk (range_view look s snap) p e) (\<lambda>kvs.
       fold_res (\<lambda>(x, v) ret. bind_res (unprefix x p) (\<lambda>k. Inr (ret @ [(k, v)]))) kvs []))"

record AppStoreConfig =
  ac_NodeDBVersion :: int
  ac_SnapshotVersion :: int
  ac_MaxVersions :: int

definition value_db_version :: "bytes \<Rightarrow> (bytes \<rightharpoonup> bytes) \<Rightarrow> u64 res" where
  "value_db_version vk d =
     (case d vk of
        None \<Rightarrow> Inr 0
      | Some buf \<Rightarrow> (case be_decode64 buf of None \<Rightarrow> Inl (Panic ''index out of range'') | Some v \<Rightarrow> Inr v))"

definition NewMultiReaderIAVLStore ::
    "('t, 'i) iavl_ops \<Rightarrow> bytes \<Rightarrow> 't \<Rightarrow> (bytes \<rightharpoonup> bytes) \<Rightarrow> AppStoreConfig \<Rightarrow> ('t, 'i) MultiReaderIAVLStore res" where
  "NewMultiReaderIAVLStore T vk nodes valueDB cfg =
     (if ac_NodeDBVersion cfg \<noteq> 1 \<and> ac_NodeDBVersion cfg \<noteq> 2 then Inl (Err ''invalid AppStore.NodeDBVersion'')
      else
        bind_res (tr_LoadVersion T 0 nodes) (\<lambda>tree.
        bind_res (value_db_version vk valueDB) (\<lambda>valueDBVer.
          let treeVer = tr_Version T tree in
          if valueDBVer > 0 \<and> word_of_int treeVer \<noteq> valueDBVer
          then Inl (Err ''nodeDB is out of sync with valueDB'')
          else setLastSavedTreeToVersion T treeVer
            \<lparr>mr_store = \<lparr>is_tree = tree, is_maxVersions = at_least_two (ac_MaxVersions cfg)\<rparr>,
             mr_valueDB = valueDB, mr_valueBatch = [], mr_lastSavedTree = im_Empty T,
             mr_snapshotVersion = ac_SnapshotVersion cfg\<rparr>)))"

section \<open>Snapshots and saving\<close>

text \<open>
  Saving runs in three steps that readers see: the tree is saved, the values are written, the pointer
  to the saved tree is replaced. \<open>history\<close> has the contents of the saved versions, the newest first.
\<close>

datatype mr_pc = Ready | TreeSaved int | ValuesWritten int

inductive mr_run ::
    "('t, 'i) iavl_ops \<Rightarrow> bytes \<Rightarrow> (bytes \<Rightarrow> slice) list \<Rightarrow> mr_pc \<Rightarrow> ('t, 'i) MultiReaderIAVLStore \<Rightarrow> bool"
  for T :: "('t, 'i) iavl_ops" and vk :: bytes where
  mr_open: "NewMultiReaderIAVLStore T vk nodes db cfg = Inr s \<Longrightarrow>
    (\<And>k. k \<noteq> vk \<Longrightarrow> db k = tr_Get T (is_tree (mr_store s)) k) \<Longrightarrow>
    mr_run T vk [tr_Get T (is_tree (mr_store s))] Ready s"
| mr_set: "mr_run T vk history Ready s \<Longrightarrow> k \<noteq> vk \<Longrightarrow> mr_run T vk history Ready (MR_Set T k (Some v) s)"
| mr_delete: "mr_run T vk history Ready s \<Longrightarrow> k \<noteq> vk \<Longrightarrow> mr_run T vk history Ready (MR_Delete T k s)"
| mr_save_tree: "mr_run T vk history Ready s \<Longrightarrow> IAVL_SaveVersion T (mr_store s) = Inr (hash, ver, store) \<Longrightarrow>
    mr_run T vk (tr_Get T (is_tree (mr_store s)) # history) (TreeSaved ver) (s\<lparr>mr_store := store\<rparr>)"
| mr_write_values: "mr_run T vk history (TreeSaved ver) s \<Longrightarrow>
    mr_run T vk history (ValuesWritten ver) (write_values vk ver s)"
| mr_publish: "mr_run T vk history (ValuesWritten ver) s \<Longrightarrow> setLastSavedTreeToVersion T ver s = Inr s' \<Longrightarrow>
    mr_run T vk history Ready s'"

text \<open>What each step leaves: the two databases, the pending batch and the published tree.\<close>

definition agrees :: "bytes \<Rightarrow> (bytes \<Rightarrow> slice) \<Rightarrow> (bytes \<Rightarrow> slice) \<Rightarrow> bool" where
  "agrees vk f g \<longleftrightarrow> (\<forall>k. k \<noteq> vk \<longrightarrow> f k = g k)"

definition pending_values :: "('t, 'i) MultiReaderIAVLStore \<Rightarrow> bytes \<rightharpoonup> bytes" where
  "pending_values s = fold apply_op (mr_valueBatch s) (mr_valueDB s)"

definition mr_ok ::
    "('t, 'i) iavl_ops \<Rightarrow> bytes \<Rightarrow> (bytes \<Rightarrow> slice) list \<Rightarrow> mr_pc \<Rightarrow> ('t, 'i) MultiReaderIAVLStore \<Rightarrow> bool" where
  "mr_ok T vk history pc s \<longleftrightarrow>
     (let tree = is_tree (mr_store s); published = im_Get T (mr_lastSavedTree s) in
      history \<noteq> [] \<and> agrees vk (pending_values s) (tr_Get T tree) \<and>
      (case pc of
         Ready \<Rightarrow> published = hd history \<and> agrees vk (mr_valueDB s) (hd history)
       | TreeSaved ver \<Rightarrow> (\<exists>older. tl history \<noteq> [] \<and> hd (tl history) = older \<and> published = older \<and> agrees vk (mr_valueDB s) older) \<and>
           hd history = tr_Get T tree \<and> ver = tr_Version T tree \<and> ver \<noteq> 0 \<and>
           (\<exists>im. tr_GetImmutable T ver tree = Inr im \<and> im_Get T im = tr_Get T tree)
       | ValuesWritten ver \<Rightarrow> tl history \<noteq> [] \<and> published = hd (tl history) \<and> agrees vk (mr_valueDB s) (hd history) \<and>
           hd history = tr_Get T tree \<and> ver \<noteq> 0 \<and>
           (\<exists>im. tr_GetImmutable T ver tree = Inr im \<and> im_Get T im = tr_Get T tree)))"

lemma iavl_content:
  assumes "iavl_laws T"
  shows "tr_Get T (tr_Set T k v t) = (tr_Get T t)(k := v)" and "tr_Get T (tr_Remove T k t) = (tr_Get T t)(k := None)"
  using assms by (auto simp: iavl_laws_def write_laws_def fun_eq_iff)

lemma agrees_upd: "agrees vk f g \<Longrightarrow> agrees vk (f(k := v)) (g(k := v))"
  by (simp add: agrees_def)

lemma mr_run_ok:
  assumes T: "iavl_laws T" and "mr_run T vk history pc s"
  shows "mr_ok T vk history pc s"
  using assms(2)
proof induction
  case (mr_open nodes db cfg s)
  let ?t = "is_tree (mr_store s)"
  from mr_open(1) obtain t where t: "tr_LoadVersion T 0 nodes = Inr t" "is_tree (mr_store s) = t"
    "mr_valueDB s = db" "mr_valueBatch s = []"
    "mr_lastSavedTree s = (if tr_Version T t = 0 then im_Empty T else projr (tr_GetImmutable T (tr_Version T t) t))"
    "tr_Version T t \<noteq> 0 \<Longrightarrow> \<exists>im. tr_GetImmutable T (tr_Version T t) t = Inr im"
    by (auto simp: NewMultiReaderIAVLStore_def setLastSavedTreeToVersion_def Let_def
        elim!: bind_resE split: if_splits sum.splits)
  have "im_Get T (mr_lastSavedTree s) = tr_Get T t"
    using iavl_load_content [OF T t(1)] t(5,6) by auto
  with mr_open(2) t(2-4) show ?case
    by (simp add: mr_ok_def pending_values_def agrees_def)
next
  case (mr_set history s k v)
  then show ?case
    by (simp add: mr_ok_def Let_def MR_Set_def IAVL_Set_def pending_values_def iavl_content [OF T] non_nil_def agrees_upd)
next
  case (mr_delete history s k)
  then show ?case
    by (simp add: mr_ok_def Let_def MR_Delete_def IAVL_Delete_def pending_values_def iavl_content [OF T] agrees_upd)
next
  case (mr_save_tree history s hash ver store)
  then obtain t where t: "tr_SaveVersion T (is_tree (mr_store s)) = Inr (hash, ver, t)" "is_tree store = t"
    by (auto simp: IAVL_SaveVersion_def split: sum.splits)
  have "ver \<noteq> 0" using iavl_save(1) [OF T t(1)] iavl_simps(5) [OF T, of "is_tree (mr_store s)"] by simp
  with mr_save_tree.IH iavl_save [OF T t(1)] t(2) show ?case
    by (auto simp: mr_ok_def Let_def pending_values_def)
next
  case (mr_write_values history ver s)
  have d: "mr_valueDB (write_values vk ver s) = (pending_values s)(vk \<mapsto> be_encode64 (word_of_int ver))"
    "mr_valueBatch (write_values vk ver s) = []" "mr_store (write_values vk ver s) = mr_store s"
    "mr_lastSavedTree (write_values vk ver s) = mr_lastSavedTree s"
    by (simp_all add: write_values_def pending_values_def)
  show ?case using mr_write_values.IH
    unfolding mr_ok_def Let_def pending_values_def [of "write_values vk ver s"] d by (auto simp: agrees_def)
next
  case (mr_publish history ver s s')
  then show ?case
    by (auto simp: mr_ok_def Let_def setLastSavedTreeToVersion_def pending_values_def)
qed

lemma mr_version_ok:
  assumes T: "iavl_laws T" and "mr_run T vk history pc s"
  shows "value_db_version vk (mr_valueDB s) = Inr 0 \<or> value_db_version vk (mr_valueDB s) =
    Inr (word_of_int (case pc of TreeSaved ver \<Rightarrow> tr_Version T (is_tree (mr_store s)) - 1 | _ \<Rightarrow> tr_Version T (is_tree (mr_store s))))"
  using assms(2)
proof induction
  case (mr_open nodes db cfg s)
  then show ?case
    by (auto simp: NewMultiReaderIAVLStore_def setLastSavedTreeToVersion_def Let_def word_gt_0
        elim!: bind_resE split: if_splits sum.splits)
next
  case (mr_save_tree history s hash ver store)
  then obtain t where t: "tr_SaveVersion T (is_tree (mr_store s)) = Inr (hash, ver, t)" "is_tree store = t"
    by (auto simp: IAVL_SaveVersion_def split: sum.splits)
  have "tr_Version T t - 1 = tr_Version T (is_tree (mr_store s))" using iavl_save(1,2) [OF T t(1)] by simp
  with mr_save_tree.IH t(2) show ?case by auto
next
  case (mr_write_values history ver s)
  then have "ver = tr_Version T (is_tree (mr_store s))"
    using mr_run_ok [OF T] by (fastforce simp: mr_ok_def Let_def)
  then show ?case by (simp add: write_values_def value_db_version_def)
next
  case (mr_publish history ver s s')
  then show ?case by (auto simp: setLastSavedTreeToVersion_def split: if_splits sum.splits)
qed (simp_all add: MR_Set_def MR_Delete_def IAVL_Set_def IAVL_Delete_def iavl_simps [OF T])

section \<open>Logging store\<close>

record LogParams =
  lp_LogDelete :: bool
  lp_LogSetKey :: bool
  lp_LogSetValue :: bool
  lp_LogSetSize :: bool

datatype log_line = LogDeleteKey bytes | LogKey bytes | LogValue slice | LogSize nat

record 's LogStore =
  ls_store :: 's
  ls_params :: LogParams
  ls_logger :: "log_line list"

definition NewLogStore :: "'s \<Rightarrow> 's LogStore" where
  "NewLogStore store =
     \<lparr>ls_store = store,
      ls_params = \<lparr>lp_LogDelete = True, lp_LogSetKey = True, lp_LogSetValue = False, lp_LogSetSize = True\<rparr>,
      ls_logger = []\<rparr>"

definition LogStore_Delete :: "'s kv_ops \<Rightarrow> 's LogStore \<Rightarrow> bytes \<Rightarrow> 's LogStore" where
  "LogStore_Delete K s key =
     s\<lparr>ls_logger := ls_logger s @ (if lp_LogDelete (ls_params s) then [LogDeleteKey key] else []),
       ls_store := op_delete K (ls_store s) key\<rparr>"

definition LogStore_Set :: "'s kv_ops \<Rightarrow> 's LogStore \<Rightarrow> bytes \<Rightarrow> slice \<Rightarrow> 's LogStore" where
  "LogStore_Set K s key val =
     s\<lparr>ls_logger := ls_logger s @
         (if lp_LogSetKey (ls_params s) then [LogKey key] else []) @
         (if lp_LogSetValue (ls_params s) then [LogValue val] else []) @
         (if lp_LogSetSize (ls_params s) then [LogSize (slice_len val)] else []),
       ls_store := op_set K (ls_store s) key val\<rparr>"

text \<open>The parameters that would log reads are false in \<open>NewLogStore\<close>, and nothing changes them.\<close>

definition LogStore_ops :: "'s kv_ops \<Rightarrow> 's LogStore kv_ops" where
  "LogStore_ops K =
     \<lparr>op_get = (\<lambda>s. op_get K (ls_store s)), op_has = (\<lambda>s. op_has K (ls_store s)),
      op_range = (\<lambda>s. op_range K (ls_store s)), op_set = LogStore_Set K, op_delete = LogStore_Delete K\<rparr>"

context kv_store
begin

lemma LogStore_kv_store: "kv_store (LogStore_ops K) (\<lambda>s. invar (ls_store s))"
  by unfold_locales
    (auto simp: LogStore_ops_def LogStore_Set_def LogStore_Delete_def get_set has_set get_delete has_delete
      get_missing inv_set inv_delete)

end

interpretation logmem: kv_store "LogStore_ops (MemStore_ops rng)" "\<lambda>_. True" for rng
  using mem.LogStore_kv_store by simp

section \<open>A tree for examples\<close>

record demo_tree =
  dt_work :: "bytes \<Rightarrow> slice"
  dt_version :: nat
  dt_saved :: "int \<rightharpoonup> (bytes \<Rightarrow> slice)"

definition demo_load :: "demo_tree \<Rightarrow> demo_tree" where
  "demo_load t =
     (let sv = (\<lambda>i. if 1 \<le> i \<and> i \<le> int (dt_version t) then dt_saved t i else None) in
      t\<lparr>dt_saved := sv, dt_work := (case sv (int (dt_version t)) of None \<Rightarrow> \<lambda>_. None | Some m \<Rightarrow> m)\<rparr>)"

definition demo_iavl :: "(demo_tree, bytes \<Rightarrow> slice) iavl_ops" where
  "demo_iavl =
     \<lparr>tr_Get = dt_work, tr_Has = (\<lambda>t k. dt_work t k \<noteq> None),
      tr_Set = (\<lambda>k v t. t\<lparr>dt_work := (dt_work t)(k := v)\<rparr>), tr_Remove = (\<lambda>k t. t\<lparr>dt_work := (dt_work t)(k := None)\<rparr>),
      tr_Range = (\<lambda>_ _ _. Inr []), tr_Hash = (\<lambda>_. []), tr_Version = (\<lambda>t. int (dt_version t)),
      tr_SaveVersion = (\<lambda>t. Inr ([], int (dt_version t) + 1,
        t\<lparr>dt_version := Suc (dt_version t), dt_saved := (dt_saved t)(int (dt_version t) + 1 \<mapsto> dt_work t)\<rparr>)),
      tr_VersionExists = (\<lambda>t i. dt_saved t i \<noteq> None),
      tr_DeleteVersion = (\<lambda>i t. if dt_saved t i \<noteq> None \<and> i < int (dt_version t)
        then Inr (t\<lparr>dt_saved := (dt_saved t)(i := None)\<rparr>) else Inl (Err ''cannot delete'')),
      tr_LoadVersion = (\<lambda>_ t. Inr (demo_load t)),
      tr_GetImmutable = (\<lambda>i t. case dt_saved t i of None \<Rightarrow> Inl (Err ''missing'') | Some m \<Rightarrow> Inr m),
      im_Empty = (\<lambda>_. None), im_Get = (\<lambda>m. m)\<rparr>"

lemma demo_iavl_laws: "iavl_laws demo_iavl"
  unfolding iavl_laws_def write_laws_def save_law_def load_law_def delete_law_def
  by (intro conjI; simp add: demo_iavl_def demo_load_def Let_def split: option.splits if_splits)

section \<open>Properties\<close>

text \<open>The end of a key range is exact. For a prefix that is not empty the computed bounds select the
  keys with this prefix and no other, also when the prefix ends in bytes 255.
\<close>

theorem prefix_range_exact:
  assumes "p \<noteq> []"
  shows "\<exists>e. prefixRangeEnd (Some p) = Inr e \<and>
    (\<forall>k. take (length p) k = p \<longleftrightarrow> p \<le> k \<and> (case e of None \<Rightarrow> True | Some b \<Rightarrow> k < b))"
proof -
  have "prefix p k \<longleftrightarrow> take (length p) k = p" for k
    by (metis append_take_drop_id prefix_def take_is_prefix append_eq_conv_conj)
  with range_end_exact [OF assms] show ?thesis by (simp add: prefixRangeEnd_def)
qed

theorem prefix_range_exact_witness:
  "\<exists>e. prefixRangeEnd (Some [7, 255]) = Inr e \<and>
    (\<forall>k. take (length [7 :: 8 word, 255]) k = [7, 255] \<longleftrightarrow> [7, 255] \<le> k \<and> (case e of None \<Rightarrow> True | Some b \<Rightarrow> k < b))"
  by (rule prefix_range_exact) simp

text \<open>The empty prefix that is not nil has no last byte.\<close>

lemma empty_prefix_panics: "prefixRangeEnd (Some []) = Inl (Panic ''index out of range'')"
  by (simp add: prefixRangeEnd_def range_end.simps)

text \<open>Pruning never deletes a version it promised to keep. In every run of the pruning store, whatever
  the batch size, each version that was found or saved and is among the newest \<open>maxVersions\<close> (all of
  them without a limit) can still be loaded; and the limit is never below two.
\<close>

theorem pruning_keeps_recent:
  assumes "iavl_laws T" and "pruning_run T cfg saved s" and "i \<in> saved"
    and "ps_maxVersions s = 0 \<or> tr_Version T (is_tree (ps_store s)) - ps_maxVersions s < i"
  shows "tr_VersionExists T (is_tree (ps_store s)) i \<and> ps_maxVersions s \<notin> {1}"
  using pruning_run_ok [OF assms(1,2)] assms(3,4)
  by (auto simp: pruning_ok_def versions_def latest_def at_least_two_def split: if_splits)

definition demo_nodes :: demo_tree where
  "demo_nodes = \<lparr>dt_work = (\<lambda>_. None), dt_version = 5, dt_saved = (\<lambda>_. Some (\<lambda>_. None))\<rparr>"

definition demo_prune_cfg :: PruningIAVLStoreConfig where
  "demo_prune_cfg = \<lparr>pc_MaxVersions = 2, pc_BatchSize = 10\<rparr>"

definition demo_pruning :: "demo_tree PruningIAVLStore" where
  "demo_pruning = projr (NewPruningIAVLStore demo_iavl demo_nodes demo_prune_cfg)"

lemma demo_pruning_run:
  "pruning_run demo_iavl demo_prune_cfg {1..5} demo_pruning" "ps_maxVersions demo_pruning = 2"
  "latest demo_iavl demo_pruning = 5"
proof -
  have s: "NewPruningIAVLStore demo_iavl demo_nodes demo_prune_cfg = Inr demo_pruning"
    by (simp add: demo_pruning_def NewPruningIAVLStore_def NewIAVLStore_def demo_iavl_def Let_def)
  have t: "is_tree (ps_store demo_pruning) = demo_load demo_nodes" "ps_maxVersions demo_pruning = 2"
    by (simp_all add: demo_pruning_def NewPruningIAVLStore_def NewIAVLStore_def demo_iavl_def demo_prune_cfg_def at_least_two_def Let_def)
  have "versions demo_iavl demo_pruning = {1..5}"
    by (auto simp: versions_def t demo_iavl_def demo_load_def demo_nodes_def Let_def split: if_splits)
  with prun_open [OF s] show "pruning_run demo_iavl demo_prune_cfg {1..5} demo_pruning" by simp
  show "ps_maxVersions demo_pruning = 2" by (rule t(2))
  show "latest demo_iavl demo_pruning = 5" by (simp add: latest_def t demo_iavl_def demo_load_def demo_nodes_def Let_def)
qed

theorem pruning_keeps_recent_witness:
  "tr_VersionExists demo_iavl (is_tree (ps_store (snd (prune demo_iavl demo_pruning)))) 4"
proof -
  have "pruning_run demo_iavl demo_prune_cfg {1..5} (snd (prune demo_iavl demo_pruning))"
    using demo_pruning_run by (intro prun_prune) simp_all
  from pruning_keeps_recent [OF demo_iavl_laws this, of 4] show ?thesis
    using prune_spec(2,3) [OF demo_iavl_laws, of demo_pruning] demo_pruning_run(2,3) by (simp add: latest_def)
qed

text \<open>C23: Pruning catches up. With a limit and a batch size above one, from every state of a run finitely
  many passes of the background goroutine leave exactly the newest \<open>maxVersions\<close> of the saved versions.
\<close>

theorem pruning_catches_up:
  assumes "iavl_laws T" and "pruning_run T cfg saved s" and "ps_maxVersions s \<noteq> 0" and "1 < pc_BatchSize cfg"
  shows "\<exists>n. {i. tr_VersionExists T (is_tree (ps_store (((\<lambda>s. snd (prune T s)) ^^ n) s))) i} =
    {i \<in> saved. tr_Version T (is_tree (ps_store s)) - ps_maxVersions s < i}"
proof -
  let ?p = "\<lambda>n. ((\<lambda>s. snd (prune T s)) ^^ n) s"
  obtain n where n: "ps_oldestVer (?p n) = 0 \<or> latest T s - ps_maxVersions s < ps_oldestVer (?p n)"
    using prune_reaches_end [OF assms] by (auto simp: Let_def)
  note k = prune_keeps_ok [OF assms(1-3), of n]
  have "versions T (?p n) = {i \<in> saved. latest T s - ps_maxVersions s < i}"
    using pruning_run_ok [OF assms(1) k(1)] k(2,3) n assms(3,4) unfolding pruning_ok_def
    by (auto split: if_splits)
  then show ?thesis by (auto simp: versions_def latest_def)
qed

theorem pruning_catches_up_witness:
  "\<exists>n. {i. tr_VersionExists demo_iavl (is_tree (ps_store (((\<lambda>s. snd (prune demo_iavl s)) ^^ n) demo_pruning))) i} = {4..5}"
proof -
  have e: "{i \<in> {1..5}. tr_Version demo_iavl (is_tree (ps_store demo_pruning)) - ps_maxVersions demo_pruning < i} = {4..5 :: int}"
    using demo_pruning_run(2,3) by (auto simp: latest_def)
  show ?thesis
    using pruning_catches_up [OF demo_iavl_laws demo_pruning_run(1)] demo_pruning_run(2) e
    by (simp add: demo_prune_cfg_def)
qed

text \<open>
  A pass deletes up to one version more than the configured batch; and with a batch size of at most
  one the versions found when the store was opened are never deleted.
\<close>

lemma prune_batch_off_by_one:
  assumes "iavl_laws T" and "ps_oldestVer s \<noteq> 0" and "0 \<le> ps_batchSize s" and "2 \<le> ps_maxVersions s"
    and "ps_oldestVer s + ps_batchSize s < latest T s - ps_maxVersions s"
    and "{ps_oldestVer s..ps_oldestVer s + ps_batchSize s} \<subseteq> versions T s"
  shows "card (versions T s - versions T (snd (prune T s))) = nat (ps_batchSize s) + 1"
proof -
  have e: "prune_end T s = ps_oldestVer s + ps_batchSize s"
    using assms(4,5) by (auto simp: prune_end_def latest_def Let_def)
  have "versions T (snd (prune T s)) = versions T s - {ps_oldestVer s..ps_oldestVer s + ps_batchSize s}"
    using prune_spec(5) [OF assms(1), of s] assms(2,3,5) e by auto
  then have "versions T s - versions T (snd (prune T s)) = {ps_oldestVer s..ps_oldestVer s + ps_batchSize s}"
    using assms(6) by blast
  with assms(3) show ?thesis by simp
qed

lemma small_batch_keeps_old:
  assumes T: "iavl_laws T" and "NewPruningIAVLStore T tree cfg = Inr s0" and "pc_BatchSize cfg \<le> 1"
  shows "ps_oldestVer s0 = 0 \<and> snd (prune T s0) = s0 \<and>
    (Pruning_SaveVersion T s0 = Inr (h, v, s) \<longrightarrow> ps_oldestVer s = v)"
  using assms(2,3)
  by (auto simp: NewPruningIAVLStore_def NewIAVLStore_def prune_def Pruning_SaveVersion_def Let_def elim!: bind_resE)

text \<open>
  The version whose values are in the value database, and the one whose tree is published.
\<close>

definition written :: "mr_pc \<Rightarrow> (bytes \<Rightarrow> slice) list \<Rightarrow> bytes \<Rightarrow> slice" where
  "written pc history = (case pc of TreeSaved _ \<Rightarrow> history ! 1 | _ \<Rightarrow> history ! 0)"

definition published_tree :: "mr_pc \<Rightarrow> (bytes \<Rightarrow> slice) list \<Rightarrow> bytes \<Rightarrow> slice" where
  "published_tree pc history = (case pc of Ready \<Rightarrow> history ! 0 | _ \<Rightarrow> history ! 1)"

lemma mr_run_views:
  assumes "iavl_laws T" and "mr_run T vk history pc s"
  shows "im_Get T (mr_lastSavedTree s) = published_tree pc history"
    and "k \<noteq> vk \<Longrightarrow> MR_getValue s k = written pc history k"
proof -
  note ok = mr_run_ok [OF assms, unfolded mr_ok_def Let_def]
  have nth: "hd (tl xs) = xs ! 1" if "tl xs \<noteq> []" for xs :: "(bytes \<Rightarrow> slice) list"
    using that by (cases xs) (auto simp: hd_conv_nth)
  from ok show "im_Get T (mr_lastSavedTree s) = published_tree pc history"
    by (cases pc) (auto simp: published_tree_def nth hd_conv_nth [of history])
  show "MR_getValue s k = written pc history k" if "k \<noteq> vk"
    using ok that by (cases pc) (auto simp: written_def MR_getValue_def agrees_def nth hd_conv_nth [of history])
qed

text \<open>C24: What snapshots show, whenever they are taken, also while a version is being saved, and whenever
  they are read. A snapshot of the first kind shows, in lookups and ranges, exactly the version whose
  values were written when it was taken. One of the third kind has the keys of the version published when
  it was taken; a value is either the one of that version or, since leaf values are read from the
  value database, the one written by the time it is read. So it shows exactly its version as long
  as the values written are those of that version: up to the moment at which the next save writes its
  values. Keys other than the one of the version number.\<close>

theorem snapshots_show_versions:
  assumes "iavl_laws T" and "reads_leaves T look" and "mr_run T vk history pc s" and "MR_GetSnapshot s = Inr snap"
    and "mr_run T vk history' pc' s'" and "k \<noteq> vk"
  shows "(mr_snapshotVersion s = 1 \<longrightarrow>
      snapshot_Get look s' snap k = written pc history k \<and> range_view look s' snap k = written pc history k) \<and>
    (mr_snapshotVersion s = 3 \<longrightarrow>
      range_view look s' snap k = snapshot_Get look s' snap k \<and>
      (published_tree pc history k = None \<longrightarrow> snapshot_Get look s' snap k = None) \<and>
      snapshot_Get look s' snap k \<in> {published_tree pc history k, written pc' history' k})"
proof -
  note tree = mr_run_views(1) [OF assms(1,3)]
  have db: "mr_valueDB s k = written pc history k"
    using mr_run_views(2) [OF assms(1,3,6)] by (simp add: MR_getValue_def)
  have look: "look (mr_lastSavedTree s) (MR_getValue s') k \<in>
      {published_tree pc history k, if published_tree pc history k = None then None else written pc' history' k}"
    using reads_leavesD [OF assms(2), of "mr_lastSavedTree s" "MR_getValue s'" k] mr_run_views(2) [OF assms(1,5,6)]
    by (auto simp: tree split: if_splits)
  show ?thesis
  proof (intro conjI impI)
    assume v: "mr_snapshotVersion s = 1"
    then have "snap = DBSnapshot (mr_valueDB s)" using assms(4) by (simp add: MR_GetSnapshot_def)
    with db show "snapshot_Get look s' snap k = written pc history k" "range_view look s' snap k = written pc history k"
      by simp_all
  next
    assume v: "mr_snapshotVersion s = 3"
    then have "snap = TreeSnapshot (mr_lastSavedTree s)" using assms(4) by (simp add: MR_GetSnapshot_def)
    with look show "range_view look s' snap k = snapshot_Get look s' snap k"
      "published_tree pc history k = None \<Longrightarrow> snapshot_Get look s' snap k = None"
      "snapshot_Get look s' snap k \<in> {published_tree pc history k, written pc' history' k}"
      by (auto split: if_splits)
  qed
qed

definition demo_open :: "int \<Rightarrow> (demo_tree, bytes \<Rightarrow> slice) MultiReaderIAVLStore" where
  "demo_open v = \<lparr>mr_store = \<lparr>is_tree = \<lparr>dt_work = (\<lambda>_. None), dt_version = 0, dt_saved = (\<lambda>_. None)\<rparr>, is_maxVersions = 0\<rparr>,
     mr_valueDB = Map.empty, mr_valueBatch = [], mr_lastSavedTree = (\<lambda>_. None), mr_snapshotVersion = v\<rparr>"

definition demo_saving :: "int \<Rightarrow> (demo_tree, bytes \<Rightarrow> slice) MultiReaderIAVLStore" where
  "demo_saving v =
     (let s = MR_Set demo_iavl [1] (Some [5]) (demo_open v)
      in s\<lparr>mr_store := snd (snd (projr (IAVL_SaveVersion demo_iavl (mr_store s))))\<rparr>)"

lemma demo_saving_run:
  "mr_run demo_iavl [9] [(\<lambda>_. None)([1] := Some [5]), \<lambda>_. None] (TreeSaved 1) (demo_saving v)"
proof -
  have "NewMultiReaderIAVLStore demo_iavl [9] (is_tree (mr_store (demo_open v))) Map.empty
      \<lparr>ac_NodeDBVersion = 1, ac_SnapshotVersion = v, ac_MaxVersions = 0\<rparr> = Inr (demo_open v)"
    by (simp add: NewMultiReaderIAVLStore_def demo_iavl_def demo_open_def demo_load_def value_db_version_def
        setLastSavedTreeToVersion_def at_least_two_def Let_def fun_eq_iff)
  from mr_open [OF this] have "mr_run demo_iavl [9] [\<lambda>_. None] Ready (demo_open v)"
    by (simp add: demo_open_def demo_iavl_def)
  then have "mr_run demo_iavl [9] [\<lambda>_. None] Ready (MR_Set demo_iavl [1] (Some [5]) (demo_open v))"
    by (rule mr_set) simp
  from mr_save_tree [OF this, of "[]" 1 "snd (snd (projr (IAVL_SaveVersion demo_iavl
      (mr_store (MR_Set demo_iavl [1] (Some [5]) (demo_open v))))))"]
  show ?thesis
    by (simp add: demo_saving_def IAVL_SaveVersion_def MR_Set_def IAVL_Set_def demo_iavl_def demo_open_def Let_def)
qed

definition demo_look :: "(bytes \<Rightarrow> slice) \<Rightarrow> (bytes \<Rightarrow> slice) \<Rightarrow> bytes \<Rightarrow> slice" where
  "demo_look tree getValue key = (if tree key = None then None else getValue key)"

lemma demo_look_reads: "reads_leaves demo_iavl demo_look"
  by (simp add: reads_leaves_def demo_look_def demo_iavl_def)

lemma demo_written_simps:
  "mr_snapshotVersion (write_values vk i (demo_saving v)) = v"
  "written (ValuesWritten i) [c, d] = c" "published_tree (ValuesWritten i) [c, d] = d"
  by (simp_all add: write_values_def demo_saving_def MR_Set_def demo_open_def Let_def written_def published_tree_def)

theorem snapshots_show_versions_witness:
  "\<exists>snap snap'. MR_GetSnapshot (write_values [9] 1 (demo_saving 1)) = Inr snap \<and>
     snapshot_Get demo_look (write_values [9] 1 (demo_saving 1)) snap [1] = Some [5] \<and>
     MR_GetSnapshot (write_values [9] 1 (demo_saving 3)) = Inr snap' \<and>
     snapshot_Get demo_look (write_values [9] 1 (demo_saving 3)) snap' [1] = None"
proof -
  note run = mr_write_values [OF demo_saving_run]
  have "\<exists>snap. MR_GetSnapshot (write_values [9] 1 (demo_saving v)) = Inr snap" if "v \<in> {1, 3}" for v
    using that by (auto simp: MR_GetSnapshot_def demo_written_simps)
  then obtain snap snap' where g: "MR_GetSnapshot (write_values [9] 1 (demo_saving 1)) = Inr snap"
    "MR_GetSnapshot (write_values [9] 1 (demo_saving 3)) = Inr snap'" by force
  have k: "[1] \<noteq> ([9] :: bytes)" by simp
  note view = snapshots_show_versions [OF demo_iavl_laws demo_look_reads run _ run k, unfolded demo_written_simps]
  from view [OF g(1)] view [OF g(2)] g show ?thesis by auto
qed

text \<open>
  In the moment after the values are written and before the new tree is published, a snapshot of the
  second kind looks up keys of the older version and ranges over the newer one; and one of the third
  kind shows the newer values under the keys of the older version, where they are not cached.
\<close>

lemma hybrid_snapshot_torn:
  assumes "iavl_laws T" and "reads_leaves T look" and "mr_run T vk history (ValuesWritten ver) s"
    and "mr_snapshotVersion s = 2" and "k \<noteq> vk"
  shows "\<exists>snap. MR_GetSnapshot s = Inr snap \<and> range_view look s snap k = (history ! 0) k \<and>
    ((history ! 1) k = None \<longrightarrow> snapshot_Get look s snap k = None)"
proof -
  have "MR_GetSnapshot s = Inr (HybridSnapshot (mr_valueDB s) (mr_lastSavedTree s))"
    using assms(4) by (simp add: MR_GetSnapshot_def)
  moreover have "mr_valueDB s k = (history ! 0) k"
    using mr_run_views(2) [OF assms(1,3,5)] by (simp add: MR_getValue_def written_def)
  moreover have "look (mr_lastSavedTree s) (MR_getValue s) k = None" if "(history ! 1) k = None"
  proof -
    have "im_Get T (mr_lastSavedTree s) k = None"
      using mr_run_views(1) [OF assms(1,3)] that by (simp add: published_tree_def)
    with reads_leavesD [OF assms(2), of "mr_lastSavedTree s" "MR_getValue s" k] show ?thesis by simp
  qed
  ultimately show ?thesis by simp
qed

lemma tree_snapshot_torn:
  assumes "iavl_laws T" and "mr_run T vk history (ValuesWritten ver) s" and "mr_snapshotVersion s = 3"
    and "k \<noteq> vk" and "k' \<noteq> vk" and "(history ! 1) k \<noteq> None" and "(history ! 0) k \<noteq> (history ! 1) k"
    and "(history ! 1) k' = None" and "(history ! 0) k' \<noteq> None"
  defines "look \<equiv> \<lambda>tree getValue key. if im_Get T tree key = None then None else getValue key"
  shows "reads_leaves T look \<and> (\<exists>snap. MR_GetSnapshot s = Inr snap \<and>
    snapshot_Get look s snap k \<noteq> (history ! 1) k \<and> snapshot_Get look s snap k' \<noteq> (history ! 0) k')"
proof -
  have "MR_GetSnapshot s = Inr (TreeSnapshot (mr_lastSavedTree s))"
    using assms(3) by (simp add: MR_GetSnapshot_def)
  moreover have "snapshot_Get look s (TreeSnapshot (mr_lastSavedTree s)) k = (history ! 0) k"
    "snapshot_Get look s (TreeSnapshot (mr_lastSavedTree s)) k' = None"
    using mr_run_views [OF assms(1,2)] assms(4-8) by (auto simp: look_def published_tree_def written_def)
  moreover have "reads_leaves T look" by (simp add: reads_leaves_def look_def)
  ultimately show ?thesis using assms(7,9) by auto
qed

text \<open>C25: A crash while a version is saved is detected. After a stop at any point of a run, opening the store
  again reports that the databases are out of sync exactly when the tree was saved and the values
  were not, provided the value database has ever recorded a version.
\<close>

theorem crash_detected:
  assumes "iavl_laws T" and "mr_run T vk history pc s" and "tr_LoadVersion T 0 (is_tree (mr_store s)) = Inr t"
    and "ac_NodeDBVersion cfg \<in> {1, 2}"
  shows "NewMultiReaderIAVLStore T vk (is_tree (mr_store s)) (mr_valueDB s) cfg =
      Inl (Err ''nodeDB is out of sync with valueDB'') \<longleftrightarrow>
    (\<exists>ver. pc = TreeSaved ver) \<and> value_db_version vk (mr_valueDB s) \<noteq> Inr 0"
proof -
  let ?v = "tr_Version T (is_tree (mr_store s))" and ?r = "NewMultiReaderIAVLStore T vk (is_tree (mr_store s)) (mr_valueDB s) cfg"
  have tv: "tr_Version T t = ?v" by (rule iavl_load_content(1) [OF assms(1,3)])
  have sync: "setLastSavedTreeToVersion T i x \<noteq> Inl (Err ''nodeDB is out of sync with valueDB'')" for i x
    by (auto simp: setLastSavedTreeToVersion_def split: sum.splits)
  have r: "?r = Inl (Err ''nodeDB is out of sync with valueDB'') \<longleftrightarrow> w > 0 \<and> word_of_int ?v \<noteq> w"
    if "value_db_version vk (mr_valueDB s) = Inr w" for w
    using that assms(3,4) tv sync by (auto simp: NewMultiReaderIAVLStore_def Let_def)
  have pred: "word_of_int (?v - 1) \<noteq> (word_of_int ?v :: u64)" by simp
  from mr_version_ok [OF assms(1,2)] consider "value_db_version vk (mr_valueDB s) = Inr 0"
    | "value_db_version vk (mr_valueDB s) = Inr (word_of_int (case pc of TreeSaved ver \<Rightarrow> ?v - 1 | _ \<Rightarrow> ?v))"
    by blast
  then show ?thesis
  proof cases
    case 1
    with r [OF 1] show ?thesis by simp
  next
    case 2
    with r [OF 2] pred show ?thesis by (cases pc) (auto simp: word_gt_0)
  qed
qed

definition demo_saved :: "(demo_tree, bytes \<Rightarrow> slice) MultiReaderIAVLStore" where
  "demo_saved = projr (setLastSavedTreeToVersion demo_iavl 1 (write_values [9] 1 (demo_saving 1)))"

definition demo_crash :: "(demo_tree, bytes \<Rightarrow> slice) MultiReaderIAVLStore" where
  "demo_crash = demo_saved\<lparr>mr_store := snd (snd (projr (IAVL_SaveVersion demo_iavl (mr_store demo_saved))))\<rparr>"

lemmas demo_mr_defs = demo_saving_def demo_open_def MR_Set_def IAVL_Set_def IAVL_SaveVersion_def write_values_def
  setLastSavedTreeToVersion_def demo_iavl_def

lemma demo_crash_run:
  "\<exists>history. mr_run demo_iavl [9] history (TreeSaved 2) demo_crash"
  "value_db_version [9] (mr_valueDB demo_crash) = Inr 1"
proof -
  have "setLastSavedTreeToVersion demo_iavl 1 (write_values [9] 1 (demo_saving 1)) = Inr demo_saved"
    by (simp add: demo_saved_def demo_mr_defs Let_def)
  from mr_publish [OF mr_write_values [OF demo_saving_run] this] obtain history where
    "mr_run demo_iavl [9] history Ready demo_saved" by blast
  moreover have "IAVL_SaveVersion demo_iavl (mr_store demo_saved) =
      Inr ([], 2, snd (snd (projr (IAVL_SaveVersion demo_iavl (mr_store demo_saved)))))"
    by (simp add: demo_saved_def demo_mr_defs Let_def)
  ultimately show "\<exists>history. mr_run demo_iavl [9] history (TreeSaved 2) demo_crash"
    unfolding demo_crash_def by (blast intro: mr_save_tree)
  show "value_db_version [9] (mr_valueDB demo_crash) = Inr 1"
    by (simp add: demo_crash_def demo_saved_def demo_mr_defs Let_def value_db_version_def)
qed

theorem crash_detected_witness:
  "NewMultiReaderIAVLStore demo_iavl [9] (is_tree (mr_store demo_crash)) (mr_valueDB demo_crash)
     \<lparr>ac_NodeDBVersion = 1, ac_SnapshotVersion = 1, ac_MaxVersions = 0\<rparr> = Inl (Err ''nodeDB is out of sync with valueDB'')"
proof -
  obtain history where run: "mr_run demo_iavl [9] history (TreeSaved 2) demo_crash" using demo_crash_run(1) ..
  have "tr_LoadVersion demo_iavl 0 (is_tree (mr_store demo_crash)) = Inr (demo_load (is_tree (mr_store demo_crash)))"
    by (simp add: demo_iavl_def)
  from crash_detected [OF demo_iavl_laws run this] demo_crash_run(2) show ?thesis by simp
qed

end
