(* ===== verification/Store_Caches.thy ===== *)
theory Store_Caches
  imports Kv_Store
begin

text \<open>
  Caches in front of stores: the write-through cache of the application store
  (\<open>store/cachingstore.go\<close>) and the two caches of the block store (\<open>store/block_store.go\<close>,
  \<open>store/block_store_lru_cache.go\<close>, \<open>store/block_store_2q_cache.go\<close>).

  The cache libraries are arguments: \<open>cache_laws\<close> and \<open>lru_laws\<close> say that an entry that is found is the
  one put last and that entries may be evicted at any time. Writers and readers of the application
  store run at the same time, so its operations are steps of an interleaving.
\<close>

section \<open>Write-through cache\<close>

text \<open>Errors of the cache are logged and dropped; a failed lookup is a miss.\<close>

record 'c cache_ops =
  ca_Get :: "'c \<Rightarrow> bytes \<Rightarrow> bytes option"
  ca_Set :: "bytes \<Rightarrow> bytes \<Rightarrow> 'c \<Rightarrow> 'c"
  ca_Delete :: "bytes \<Rightarrow> 'c \<Rightarrow> 'c"

definition cache_laws :: "'c cache_ops \<Rightarrow> bool" where
  "cache_laws C \<longleftrightarrow>
     (\<forall>c k v k' w. ca_Get C (ca_Set C k v c) k' = Some w \<longrightarrow> (if k' = k then w = v else ca_Get C c k' = Some w)) \<and>
     (\<forall>c k k' w. ca_Get C (ca_Delete C k c) k' = Some w \<longrightarrow> k' \<noteq> k \<and> ca_Get C c k' = Some w)"

record ('s, 'c) CachingStore =
  cs_source :: 's
  cs_cache :: 'c

text \<open>Each write is two steps, first on the cache, then on the store.\<close>

definition cache_Set :: "'c cache_ops \<Rightarrow> bytes \<Rightarrow> bytes \<Rightarrow> ('s, 'c) CachingStore \<Rightarrow> ('s, 'c) CachingStore" where
  "cache_Set C key val s = s\<lparr>cs_cache := ca_Set C key val (cs_cache s)\<rparr>"

definition cache_Delete :: "'c cache_ops \<Rightarrow> bytes \<Rightarrow> ('s, 'c) CachingStore \<Rightarrow> ('s, 'c) CachingStore" where
  "cache_Delete C key s = s\<lparr>cs_cache := ca_Delete C key (cs_cache s)\<rparr>"

definition source_Set :: "'s kv_ops \<Rightarrow> bytes \<Rightarrow> slice \<Rightarrow> ('s, 'c) CachingStore \<Rightarrow> ('s, 'c) CachingStore" where
  "source_Set K key val s = s\<lparr>cs_source := op_set K (cs_source s) key val\<rparr>"

definition source_Delete :: "'s kv_ops \<Rightarrow> bytes \<Rightarrow> ('s, 'c) CachingStore \<Rightarrow> ('s, 'c) CachingStore" where
  "source_Delete K key s = s\<lparr>cs_source := op_delete K (cs_source s) key\<rparr>"

definition Caching_Set ::
    "'s kv_ops \<Rightarrow> 'c cache_ops \<Rightarrow> bytes \<Rightarrow> slice \<Rightarrow> ('s, 'c) CachingStore \<Rightarrow> ('s, 'c) CachingStore" where
  "Caching_Set K C key val s = source_Set K key val (cache_Set C key (case val of None \<Rightarrow> [] | Some b \<Rightarrow> b) s)"

definition Caching_Delete :: "'s kv_ops \<Rightarrow> 'c cache_ops \<Rightarrow> bytes \<Rightarrow> ('s, 'c) CachingStore \<Rightarrow> ('s, 'c) CachingStore" where
  "Caching_Delete K C key s = source_Delete K key (cache_Delete C key s)"

definition ReadOnly_Get ::
    "'s kv_ops \<Rightarrow> 'c cache_ops \<Rightarrow> bytes \<Rightarrow> ('s, 'c) CachingStore \<Rightarrow> slice \<times> ('s, 'c) CachingStore" where
  "ReadOnly_Get K C key s =
     (case ca_Get C (cs_cache s) key of
        Some data \<Rightarrow> (Some data, s)
      | None \<Rightarrow>
          (case op_get K (cs_source s) key of
             None \<Rightarrow> (None, s)
           | Some data \<Rightarrow> (Some data, cache_Set C key data s)))"

definition ReadOnly_Has ::
    "'s kv_ops \<Rightarrow> 'c cache_ops \<Rightarrow> bytes \<Rightarrow> ('s, 'c) CachingStore \<Rightarrow> bool \<times> ('s, 'c) CachingStore" where
  "ReadOnly_Has K C key s =
     (case ca_Get C (cs_cache s) key of
        Some data \<Rightarrow> (True, s)
      | None \<Rightarrow>
          (case op_get K (cs_source s) key of
             None \<Rightarrow> (False, s)
           | Some data \<Rightarrow> (True, cache_Set C key data s)))"

definition ReadOnly_Set :: "bytes \<Rightarrow> slice \<Rightarrow> unit res" where
  "ReadOnly_Set key val = Inl (Panic ''[ReadOnlyCachingStore] Set() not implemented'')"

definition ReadOnly_Delete :: "bytes \<Rightarrow> unit res" where
  "ReadOnly_Delete key = Inl (Panic ''[ReadOnlyCachingStore] Delete() not implemented'')"

definition ReadOnly_SaveVersion :: "(bytes \<times> int) res" where
  "ReadOnly_SaveVersion = Inl (Err ''[ReadOnlyCachingStore] SaveVersion() not implemented'')"

definition ReadOnly_Prune :: "unit res" where
  "ReadOnly_Prune = Inl (Err ''[ReadOnlyCachingStore] Prune() not implemented'')"

record CachingStoreConfig =
  cc_Shards :: int
  cc_EvictionTimeInSeconds :: int
  cc_MaxKeys :: int
  cc_MaxSizeOfValueInBytes :: int

text \<open>The checks of \<open>convertToBigCacheConfig\<close>; what it fills in is the library's configuration.\<close>

definition check_cache_config :: "CachingStoreConfig \<Rightarrow> unit res" where
  "check_cache_config cfg =
     (if cc_MaxKeys cfg = 0 \<or> cc_MaxSizeOfValueInBytes cfg = 0
      then Inl (Err ''[CachingStore] max keys and/or max size of value cannot be zero'')
      else if cc_EvictionTimeInSeconds cfg = 0 then Inl (Err ''[CachingStore] eviction time cannot be zero'')
      else if cc_Shards cfg = 0 then Inl (Err ''[CachingStore] caching shards cannot be zero'')
      else Inr ())"

section \<open>Writer and reader\<close>

datatype writer = WIdle | WSetting bytes bytes | WDeleting bytes
datatype reader = RIdle | RFetched bytes bytes

fun writes_key :: "writer \<Rightarrow> bytes \<Rightarrow> bool" where
  "writes_key WIdle k \<longleftrightarrow> False"
| "writes_key (WSetting k' v) k \<longleftrightarrow> k' = k"
| "writes_key (WDeleting k') k \<longleftrightarrow> k' = k"

fun reads_key :: "reader \<Rightarrow> bytes \<Rightarrow> bool" where
  "reads_key RIdle k \<longleftrightarrow> False"
| "reads_key (RFetched k' v) k \<longleftrightarrow> k' = k"

text \<open>
  The writer is between the cache and the store; the reader missed the cache, has the value of the
  store and will put it in the cache. With \<open>apart\<close> the two never have the same key in hand.
\<close>

inductive caching_run ::
    "'s kv_ops \<Rightarrow> 'c cache_ops \<Rightarrow> ('s \<Rightarrow> bool) \<Rightarrow> bool \<Rightarrow> writer \<Rightarrow> reader \<Rightarrow> ('s, 'c) CachingStore \<Rightarrow> bool"
  for K :: "'s kv_ops" and C :: "'c cache_ops" and invar :: "'s \<Rightarrow> bool" and apart :: bool where
  cache_start: "invar (cs_source s) \<Longrightarrow> (\<And>k. ca_Get C (cs_cache s) k = None) \<Longrightarrow> caching_run K C invar apart WIdle RIdle s"
| set_cache: "caching_run K C invar apart WIdle r s \<Longrightarrow> apart \<longrightarrow> \<not> reads_key r k \<Longrightarrow>
    caching_run K C invar apart (WSetting k v) r (cache_Set C k v s)"
| set_source: "caching_run K C invar apart (WSetting k v) r s \<Longrightarrow>
    caching_run K C invar apart WIdle r (source_Set K k (Some v) s)"
| delete_cache: "caching_run K C invar apart WIdle r s \<Longrightarrow> apart \<longrightarrow> \<not> reads_key r k \<Longrightarrow>
    caching_run K C invar apart (WDeleting k) r (cache_Delete C k s)"
| delete_source: "caching_run K C invar apart (WDeleting k) r s \<Longrightarrow>
    caching_run K C invar apart WIdle r (source_Delete K k s)"
| fetch: "caching_run K C invar apart w RIdle s \<Longrightarrow> apart \<longrightarrow> \<not> writes_key w k \<Longrightarrow>
    ca_Get C (cs_cache s) k = None \<Longrightarrow> op_get K (cs_source s) k = Some v \<Longrightarrow>
    caching_run K C invar apart w (RFetched k v) s"
| fill: "caching_run K C invar apart w (RFetched k v) s \<Longrightarrow>
    caching_run K C invar apart w RIdle (cache_Set C k v s)"
| evict: "caching_run K C invar apart w r s \<Longrightarrow>
    (\<And>k v. ca_Get C c k = Some v \<Longrightarrow> ca_Get C (cs_cache s) k = Some v) \<Longrightarrow>
    caching_run K C invar apart w r (s\<lparr>cs_cache := c\<rparr>)"

text \<open>What the store holds once the writer has finished.\<close>

fun intended :: "writer \<Rightarrow> (bytes \<Rightarrow> slice) \<Rightarrow> bytes \<Rightarrow> slice" where
  "intended WIdle f = f"
| "intended (WSetting k v) f = f(k \<mapsto> v)"
| "intended (WDeleting k) f = f(k := None)"

definition coherent ::
    "'s kv_ops \<Rightarrow> 'c cache_ops \<Rightarrow> ('s \<Rightarrow> bool) \<Rightarrow> writer \<Rightarrow> reader \<Rightarrow> ('s, 'c) CachingStore \<Rightarrow> bool" where
  "coherent K C invar w r s \<longleftrightarrow> invar (cs_source s) \<and>
     (\<forall>k v. ca_Get C (cs_cache s) k = Some v \<longrightarrow> intended w (op_get K (cs_source s)) k = Some v) \<and>
     (\<forall>k v. r = RFetched k v \<longrightarrow> \<not> writes_key w k \<and> op_get K (cs_source s) k = Some v)"

lemma cache_set_found:
  assumes "cache_laws C" and "ca_Get C (ca_Set C k v c) k' = Some w"
  shows "k' = k \<and> w = v \<or> k' \<noteq> k \<and> ca_Get C c k' = Some w"
  using assms unfolding cache_laws_def by (metis (full_types))

lemma cache_delete_found:
  assumes "cache_laws C" and "ca_Get C (ca_Delete C k c) k' = Some w"
  shows "k' \<noteq> k \<and> ca_Get C c k' = Some w"
  using assms unfolding cache_laws_def by blast

lemma cache_delete_none: "cache_laws C \<Longrightarrow> ca_Get C (ca_Delete C k c) k = None"
  using cache_delete_found [of C k c k] by (cases "ca_Get C (ca_Delete C k c) k") auto

lemma intended_other: "\<not> writes_key w k \<Longrightarrow> intended w f k = f k"
  by (cases w) auto

context kv_store
begin

lemma get_set_fun: "invar s \<Longrightarrow> op_get K (op_set K s k v) = (op_get K s)(k := v)"
  by (simp add: fun_eq_iff get_set)

lemma get_delete_fun: "invar s \<Longrightarrow> op_get K (op_delete K s k) = (op_get K s)(k := None)"
  by (simp add: fun_eq_iff get_delete)

lemma caching_run_coherent:
  assumes C: "cache_laws C" and "caching_run K C invar True w r s"
  shows "coherent K C invar w r s"
  using assms(2)
proof induction
  case (cache_start s)
  then show ?case by (simp add: coherent_def)
next
  case (set_cache r s k v)
  then show ?case
    by (auto simp: coherent_def cache_Set_def dest!: cache_set_found [OF C])
next
  case (set_source k v r s)
  then show ?case
    by (auto simp: coherent_def source_Set_def get_set_fun inv_set)
next
  case (delete_cache r s k)
  then show ?case
    by (auto simp: coherent_def cache_Delete_def cache_delete_none [OF C] dest!: cache_delete_found [OF C])
next
  case (delete_source k r s)
  then show ?case
    by (auto simp: coherent_def source_Delete_def get_delete_fun inv_delete)
next
  case (fetch w s k v)
  then show ?case by (simp add: coherent_def)
next
  case (fill w k v s)
  then have "intended w (op_get K (cs_source s)) k = Some v"
    by (simp add: coherent_def intended_other)
  with fill.IH show ?case
    by (auto simp: coherent_def cache_Set_def dest!: cache_set_found [OF C])
next
  case (evict w r s c)
  then show ?case by (simp add: coherent_def)
qed

end

section \<open>Block store\<close>

text \<open>Of blocks, block metas and results only what the code looks at has a name.\<close>

record ResultBlock =
  rb_BlockID :: bytes
  rb_Height :: int
  rb_LastBlockID :: bytes
  rb_Time :: int
  rb_ProposerAddress :: bytes
  rb_rest :: bytes

record BlockMeta =
  bm_BlockID :: bytes
  bm_Height :: int
  bm_rest :: bytes

record ResultBlockResults =
  br_Height :: int
  br_Results :: bytes
  br_rest :: bytes

record BlockStore =
  bs_Block :: "int option \<Rightarrow> ResultBlock res"
  bs_Range :: "int \<Rightarrow> int \<Rightarrow> BlockMeta list res"
  bs_Results :: "int option \<Rightarrow> ResultBlockResults res"

definition getHeight :: "int \<Rightarrow> int option \<Rightarrow> int res" where
  "getHeight currentHeight heightPtr =
     (case heightPtr of
        None \<Rightarrow> Inr currentHeight
      | Some height \<Rightarrow>
          if height \<le> 0 then Inl (Err ''Height must be greater than 0'')
          else if height > currentHeight
          then Inl (Err ''Height must be less than or equal to the current blockchain height'')
          else Inr height)"

definition filterMinMax :: "int \<Rightarrow> int \<Rightarrow> int \<Rightarrow> int \<Rightarrow> (int \<times> int) res" where
  "filterMinMax height mn mx limit =
     (if mn < 0 \<or> mx < 0 then Inl (Err ''heights must be non-negative'')
      else
        let mn = (if mn = 0 then 1 else mn);
            mx = (if mx = 0 then height else mx);
            mx = min height mx;
            mn = max mn (mx - limit + 1)
        in if mn > mx then Inl (Err ''min height can not be greater than max height'') else Inr (mn, mx))"

definition filterMinMaxforCache :: "int \<Rightarrow> int \<Rightarrow> (int \<times> int) res" where
  "filterMinMaxforCache mn mx =
     (if mn < 0 \<or> mx < 0 then Inl (Err ''heights must be non-negative'')
      else
        let mn = (if mn = 0 then 1 else mn)
        in if mn > mx then Inl (Err ''min height can not be greater than max height'') else Inr (mn, mx))"

text \<open>The mock makes its blocks; their ids, which hash the time of the call, are an argument.\<close>

definition mock_block :: "(int \<Rightarrow> bytes) \<Rightarrow> int \<Rightarrow> ResultBlock" where
  "mock_block ids h = \<lparr>rb_BlockID = ids h, rb_Height = h, rb_LastBlockID = [], rb_Time = 0, rb_ProposerAddress = [], rb_rest = []\<rparr>"

definition Mock_GetBlockByHeight :: "(int \<Rightarrow> bytes) \<Rightarrow> int option \<Rightarrow> ResultBlock res" where
  "Mock_GetBlockByHeight ids height = bind_res (getHeight 50 height) (\<lambda>h. Inr (mock_block ids h))"

definition Mock_GetBlockRangeByHeight :: "(int \<Rightarrow> bytes) \<Rightarrow> int \<Rightarrow> int \<Rightarrow> BlockMeta list res" where
  "Mock_GetBlockRangeByHeight ids minHeight maxHeight =
     (let maxHeight = (if i64 (maxHeight - minHeight) > 20 then i64 (minHeight + 20) else maxHeight) in
      bind_res (filterMinMax 50 minHeight maxHeight 20) (\<lambda>(minHeight, maxHeight).
        fold_res (\<lambda>i metas. bind_res (Mock_GetBlockByHeight ids (Some i)) (\<lambda>block.
            Inr (metas @ [\<lparr>bm_BlockID = rb_BlockID block, bm_Height = rb_Height block, bm_rest = rb_rest block\<rparr>])))
          [minHeight..maxHeight] []))"

definition Mock_GetBlockResults :: "int option \<Rightarrow> ResultBlockResults res" where
  "Mock_GetBlockResults height =
     bind_res (getHeight 50 height) (\<lambda>h.
       if h = 15 then Inl (Err ''Error Simulation'') else Inr \<lparr>br_Height = h, br_Results = [], br_rest = []\<rparr>)"

definition MockBlockStore :: "(int \<Rightarrow> bytes) \<Rightarrow> BlockStore" where
  "MockBlockStore ids = \<lparr>bs_Block = Mock_GetBlockByHeight ids, bs_Range = Mock_GetBlockRangeByHeight ids, bs_Results = Mock_GetBlockResults\<rparr>"

text \<open>\<open>core\<close> are the calls of Tendermint's RPC core. The results are copied field by field.\<close>

definition Tendermint_GetBlockByHeight :: "BlockStore \<Rightarrow> int option \<Rightarrow> ResultBlock res" where
  "Tendermint_GetBlockByHeight core height =
     bind_res (bs_Block core height) (\<lambda>b.
       Inr \<lparr>rb_BlockID = rb_BlockID b, rb_Height = 0, rb_LastBlockID = rb_LastBlockID b, rb_Time = rb_Time b,
         rb_ProposerAddress = rb_ProposerAddress b, rb_rest = []\<rparr>)"

definition Tendermint_GetBlockRangeByHeight :: "BlockStore \<Rightarrow> int \<Rightarrow> int \<Rightarrow> BlockMeta list res" where
  "Tendermint_GetBlockRangeByHeight core minHeight maxHeight = bs_Range core minHeight maxHeight"

definition Tendermint_GetBlockResults :: "BlockStore \<Rightarrow> int option \<Rightarrow> ResultBlockResults res" where
  "Tendermint_GetBlockResults core height =
     bind_res (bs_Results core height) (\<lambda>r. Inr \<lparr>br_Height = 0, br_Results = br_Results r, br_rest = []\<rparr>)"

definition TendermintBlockStore :: "BlockStore \<Rightarrow> BlockStore" where
  "TendermintBlockStore core =
     \<lparr>bs_Block = Tendermint_GetBlockByHeight core, bs_Range = Tendermint_GetBlockRangeByHeight core,
      bs_Results = Tendermint_GetBlockResults core\<rparr>"

section \<open>Caches of the block store\<close>

text \<open>
  Keys are the height itself for blocks, and strings for metas and results: a letter and the height
  in decimal, so different for different heights.
\<close>

datatype cache_key = HeightKey int | MetaKey int | ResultKey int
datatype cache_val = BlockVal ResultBlock | MetaVal BlockMeta | ResultsVal ResultBlockResults

record 'c lru_ops =
  lr_Get :: "'c \<Rightarrow> cache_key \<Rightarrow> cache_val option \<times> 'c"
  lr_Add :: "cache_key \<Rightarrow> cache_val \<Rightarrow> 'c \<Rightarrow> 'c"

definition blockMetaKey :: "int \<Rightarrow> cache_key" where
  "blockMetaKey height = MetaKey height"

definition blockResultKey :: "int \<Rightarrow> cache_key" where
  "blockResultKey height = ResultKey height"

definition conversion_panic :: "'a res" where
  "conversion_panic = Inl (Panic ''interface conversion'')"

definition LRU_GetBlockByHeight :: "'c lru_ops \<Rightarrow> BlockStore \<Rightarrow> int option \<Rightarrow> 'c \<Rightarrow> ResultBlock res \<times> 'c" where
  "LRU_GetBlockByHeight L B height c =
     (let h = (case height of None \<Rightarrow> 0 | Some h \<Rightarrow> h); (cacheData, c) = lr_Get L c (HeightKey h) in
      case cacheData of
        Some (BlockVal b) \<Rightarrow> (Inr b, c)
      | Some _ \<Rightarrow> (conversion_panic, c)
      | None \<Rightarrow>
          (case bs_Block B height of
             Inl e \<Rightarrow> (Inl e, c)
           | Inr b \<Rightarrow> (Inr b, lr_Add L (HeightKey (rb_Height b)) (BlockVal b) c)))"

definition trimmed_meta :: "BlockMeta \<Rightarrow> BlockMeta" where
  "trimmed_meta m = \<lparr>bm_BlockID = bm_BlockID m, bm_Height = bm_Height m, bm_rest = []\<rparr>"

fun lru_range :: "'c lru_ops \<Rightarrow> BlockStore \<Rightarrow> int list \<Rightarrow> BlockMeta list \<Rightarrow> 'c \<Rightarrow> BlockMeta list res \<times> 'c" where
  "lru_range L B [] metas c = (Inr metas, c)"
| "lru_range L B (i # is) metas c =
     (let (cacheData, c) = lr_Get L c (blockMetaKey i) in
      case cacheData of
        Some (MetaVal m) \<Rightarrow> lru_range L B is (metas @ [m]) c
      | Some _ \<Rightarrow> (conversion_panic, c)
      | None \<Rightarrow>
          (case bs_Range B i i of
             Inl (Panic p) \<Rightarrow> (Inl (Panic p), c)
           | Inl _ \<Rightarrow> (Inr metas, c)
           | Inr [] \<Rightarrow> (Inl (Panic ''index out of range''), c)
           | Inr (m # _) \<Rightarrow>
               lru_range L B is (metas @ [trimmed_meta m])
                 (lr_Add L (blockMetaKey (bm_Height m)) (MetaVal (trimmed_meta m)) c)))"

definition LRU_GetBlockRangeByHeight ::
    "'c lru_ops \<Rightarrow> BlockStore \<Rightarrow> int \<Rightarrow> int \<Rightarrow> 'c \<Rightarrow> BlockMeta list res \<times> 'c" where
  "LRU_GetBlockRangeByHeight L B minHeight maxHeight c =
     (case filterMinMaxforCache minHeight maxHeight of
        Inl e \<Rightarrow> (Inl e, c)
      | Inr (minHeight, maxHeight) \<Rightarrow>
          let minHeight = (if maxHeight - minHeight > 20 then maxHeight - 20 + 1 else minHeight)
          in lru_range L B [minHeight..maxHeight] [] c)"

definition LRU_GetBlockResults :: "'c lru_ops \<Rightarrow> BlockStore \<Rightarrow> int option \<Rightarrow> 'c \<Rightarrow> ResultBlockResults res \<times> 'c" where
  "LRU_GetBlockResults L B height c =
     (let h = (case height of None \<Rightarrow> 0 | Some h \<Rightarrow> h); (cacheData, c) = lr_Get L c (blockResultKey h) in
      case cacheData of
        Some (ResultsVal r) \<Rightarrow> (Inr r, c)
      | Some _ \<Rightarrow> (conversion_panic, c)
      | None \<Rightarrow>
          (case bs_Results B height of
             Inl e \<Rightarrow> (Inl e, c)
           | Inr r \<Rightarrow> (Inr r, lr_Add L (blockResultKey (br_Height r)) (ResultsVal r) c)))"

text \<open>The same operations over the other cache of the library.\<close>

definition TwoQueue_GetBlockByHeight :: "'c lru_ops \<Rightarrow> BlockStore \<Rightarrow> int option \<Rightarrow> 'c \<Rightarrow> ResultBlock res \<times> 'c" where
  "TwoQueue_GetBlockByHeight Q B height c =
     (let h = (case height of None \<Rightarrow> 0 | Some h \<Rightarrow> h) in
      case lr_Get Q c (HeightKey h) of
        (Some (BlockVal b), c) \<Rightarrow> (Inr b, c)
      | (Some _, c) \<Rightarrow> (conversion_panic, c)
      | (None, c) \<Rightarrow>
          (case bs_Block B height of
             Inl e \<Rightarrow> (Inl e, c)
           | Inr b \<Rightarrow> (Inr b, lr_Add Q (HeightKey (rb_Height b)) (BlockVal b) c)))"

fun twoqueue_range :: "'c lru_ops \<Rightarrow> BlockStore \<Rightarrow> int list \<Rightarrow> BlockMeta list \<Rightarrow> 'c \<Rightarrow> BlockMeta list res \<times> 'c" where
  "twoqueue_range Q B [] metas c = (Inr metas, c)"
| "twoqueue_range Q B (i # is) metas c =
     (case lr_Get Q c (blockMetaKey i) of
        (Some (MetaVal m), c) \<Rightarrow> twoqueue_range Q B is (metas @ [m]) c
      | (Some _, c) \<Rightarrow> (conversion_panic, c)
      | (None, c) \<Rightarrow>
          (case bs_Range B i i of
             Inl (Panic p) \<Rightarrow> (Inl (Panic p), c)
           | Inl _ \<Rightarrow> (Inr metas, c)
           | Inr [] \<Rightarrow> (Inl (Panic ''index out of range''), c)
           | Inr (m # _) \<Rightarrow>
               twoqueue_range Q B is (metas @ [trimmed_meta m])
                 (lr_Add Q (blockMetaKey (bm_Height m)) (MetaVal (trimmed_meta m)) c)))"

definition TwoQueue_GetBlockRangeByHeight ::
    "'c lru_ops \<Rightarrow> BlockStore \<Rightarrow> int \<Rightarrow> int \<Rightarrow> 'c \<Rightarrow> BlockMeta list res \<times> 'c" where
  "TwoQueue_GetBlockRangeByHeight Q B minHeight maxHeight c =
     (case filterMinMaxforCache minHeight maxHeight of
        Inl e \<Rightarrow> (Inl e, c)
      | Inr (minHeight, maxHeight) \<Rightarrow>
          let minHeight = (if maxHeight - minHeight > 20 then maxHeight - 20 + 1 else minHeight)
          in twoqueue_range Q B [minHeight..maxHeight] [] c)"

definition TwoQueue_GetBlockResults :: "'c lru_ops \<Rightarrow> BlockStore \<Rightarrow> int option \<Rightarrow> 'c \<Rightarrow> ResultBlockResults res \<times> 'c" where
  "TwoQueue_GetBlockResults Q B height c =
     (let h = (case height of None \<Rightarrow> 0 | Some h \<Rightarrow> h) in
      case lr_Get Q c (blockResultKey h) of
        (Some (ResultsVal r), c) \<Rightarrow> (Inr r, c)
      | (Some _, c) \<Rightarrow> (conversion_panic, c)
      | (None, c) \<Rightarrow>
          (case bs_Results B height of
             Inl e \<Rightarrow> (Inl e, c)
           | Inr r \<Rightarrow> (Inr r, lr_Add Q (blockResultKey (br_Height r)) (ResultsVal r) c)))"

datatype cache_algorithm = NoCache | LRU | TwoQueue

text \<open>\<open>fold\<close> is \<open>strings.EqualFold\<close>; making a cache fails when its size is not positive.\<close>

definition NewBlockStore :: "(string \<Rightarrow> string \<Rightarrow> bool) \<Rightarrow> string \<Rightarrow> int \<Rightarrow> cache_algorithm res" where
  "NewBlockStore equalFold algorithm cacheSize =
     (if equalFold algorithm ''LRU''
      then if cacheSize \<le> 0 then Inl (Err ''failed to create block store cache'') else Inr LRU
      else if equalFold algorithm ''2Q''
      then if cacheSize \<le> 0 then Inl (Err ''failed to create block store cache'') else Inr TwoQueue
      else if equalFold algorithm ''None'' then Inr NoCache
      else Inl (Err ''Invalid value for BlockStore.CacheAlgorithm config setting''))"

lemma twoqueue_range_eq: "twoqueue_range = lru_range"
proof (intro ext)
  show "twoqueue_range Q B is metas c = lru_range Q B is metas c" for Q :: "'c lru_ops" and B "is" metas c
    by (induction Q B "is" metas c rule: lru_range.induct)
      (auto simp: Let_def split: prod.splits option.splits cache_val.splits sum.splits go_error.splits list.splits)
qed

lemma twoqueue_same:
  "TwoQueue_GetBlockByHeight = LRU_GetBlockByHeight" "TwoQueue_GetBlockResults = LRU_GetBlockResults"
  "TwoQueue_GetBlockRangeByHeight = LRU_GetBlockRangeByHeight"
proof -
  show "TwoQueue_GetBlockByHeight = LRU_GetBlockByHeight" "TwoQueue_GetBlockResults = LRU_GetBlockResults"
    by (simp_all add: fun_eq_iff TwoQueue_GetBlockByHeight_def LRU_GetBlockByHeight_def
        TwoQueue_GetBlockResults_def LRU_GetBlockResults_def Let_def split: prod.splits option.splits cache_val.splits)
  show "TwoQueue_GetBlockRangeByHeight = LRU_GetBlockRangeByHeight"
    unfolding TwoQueue_GetBlockRangeByHeight_def LRU_GetBlockRangeByHeight_def twoqueue_range_eq ..
qed

section \<open>What a block store promises\<close>

text \<open>
  Only positive heights have blocks and results, and these carry their height or, when it was not
  copied, the height 0; a range of one height has one meta, of that height.
\<close>

locale block_store =
  fixes B :: BlockStore
  assumes block_at: "bs_Block B (Some h) = Inr b \<Longrightarrow> 0 < h \<and> rb_Height b \<in> {0, h}"
    and block_newest: "bs_Block B None = Inr b \<Longrightarrow> rb_Height b = 0 \<or> bs_Block B (Some (rb_Height b)) = Inr b"
    and results_at: "bs_Results B (Some h) = Inr r \<Longrightarrow> 0 < h \<and> br_Height r \<in> {0, h}"
    and results_newest: "bs_Results B None = Inr r \<Longrightarrow> br_Height r = 0 \<or> bs_Results B (Some (br_Height r)) = Inr r"
    and range_one: "1 \<le> i \<Longrightarrow> (\<exists>m. bs_Range B i i = Inr [m] \<and> bm_Height m = i) \<or>
      (\<exists>e. bs_Range B i i = Inl e \<and> (\<forall>p. e \<noteq> Panic p))"

text \<open>
  The store in use takes its answers from Tendermint's RPC core, whose documentation gives these
  laws; the heights of blocks and results are not copied.
\<close>

locale tendermint_core =
  fixes core :: BlockStore
  assumes core_block: "bs_Block core (Some h) = Inr b \<Longrightarrow> 0 < h"
    and core_results: "bs_Results core (Some h) = Inr r \<Longrightarrow> 0 < h"
    and core_range: "1 \<le> i \<Longrightarrow> (\<exists>m. bs_Range core i i = Inr [m] \<and> bm_Height m = i) \<or>
      (\<exists>e. bs_Range core i i = Inl e \<and> (\<forall>p. e \<noteq> Panic p))"

sublocale tendermint_core \<subseteq> tm: block_store "TendermintBlockStore core"
  by unfold_locales
    (use core_range in \<open>auto simp: TendermintBlockStore_def Tendermint_GetBlockByHeight_def
      Tendermint_GetBlockResults_def Tendermint_GetBlockRangeByHeight_def
      elim!: bind_resE dest: core_block core_results\<close>)

text \<open>As the chain grows, an answer that was given for a height stays.\<close>

definition extends :: "BlockStore \<Rightarrow> BlockStore \<Rightarrow> bool" where
  "extends B B' \<longleftrightarrow>
     (\<forall>h b. bs_Block B (Some h) = Inr b \<longrightarrow> bs_Block B' (Some h) = Inr b) \<and>
     (\<forall>h r. bs_Results B (Some h) = Inr r \<longrightarrow> bs_Results B' (Some h) = Inr r) \<and>
     (\<forall>h ms. bs_Range B h h = Inr ms \<longrightarrow> bs_Range B' h h = Inr ms)"

text \<open>The entries of a cache, which both libraries may evict at any time.\<close>

definition lru_laws :: "'c lru_ops \<Rightarrow> ('c \<Rightarrow> cache_key \<rightharpoonup> cache_val) \<Rightarrow> bool" where
  "lru_laws L entries \<longleftrightarrow>
     (\<forall>c k. fst (lr_Get L c k) = entries c k \<and> entries (snd (lr_Get L c k)) \<subseteq>\<^sub>m entries c) \<and>
     (\<forall>c k v. entries (lr_Add L k v c) \<subseteq>\<^sub>m (entries c)(k \<mapsto> v))"

fun range_answer :: "BlockStore \<Rightarrow> int list \<Rightarrow> BlockMeta list" where
  "range_answer B [] = []"
| "range_answer B (i # is) =
     (case bs_Range B i i of Inl _ \<Rightarrow> [] | Inr ms \<Rightarrow> trimmed_meta (hd ms) # range_answer B is)"

definition entry_ok :: "BlockStore \<Rightarrow> cache_key \<Rightarrow> cache_val \<Rightarrow> bool" where
  "entry_ok B k v \<longleftrightarrow>
     (case k of
        HeightKey h \<Rightarrow> (\<exists>b. v = BlockVal b \<and> (h \<noteq> 0 \<longrightarrow> bs_Block B (Some h) = Inr b))
      | MetaKey h \<Rightarrow> (\<exists>m. v = MetaVal (trimmed_meta m) \<and> bs_Range B h h = Inr [m])
      | ResultKey h \<Rightarrow> (\<exists>r. v = ResultsVal r \<and> (h \<noteq> 0 \<longrightarrow> bs_Results B (Some h) = Inr r)))"

definition entries_ok :: "BlockStore \<Rightarrow> (cache_key \<rightharpoonup> cache_val) \<Rightarrow> bool" where
  "entries_ok B e \<longleftrightarrow> (\<forall>k v. e k = Some v \<longrightarrow> entry_ok B k v)"

lemma entries_ok_mono: "entries_ok B e \<Longrightarrow> e' \<subseteq>\<^sub>m e \<Longrightarrow> entries_ok B e'"
  unfolding entries_ok_def map_le_def by (metis domIff option.distinct(1))

lemma entries_ok_extends: "entries_ok B e \<Longrightarrow> extends B B' \<Longrightarrow> entries_ok B' e"
  unfolding entries_ok_def entry_ok_def extends_def by (fastforce split: cache_key.splits)

lemma entries_ok_get:
  assumes "lru_laws L entries" and "entries_ok B (entries c)" and "lr_Get L c k = (r, c')"
  shows "entries_ok B (entries c')" and "r = Some v \<Longrightarrow> entry_ok B k v"
proof -
  have "fst (lr_Get L c k) = entries c k" "entries (snd (lr_Get L c k)) \<subseteq>\<^sub>m entries c"
    using assms(1) by (auto simp: lru_laws_def)
  with assms(3) have r: "r = entries c k" "entries c' \<subseteq>\<^sub>m entries c" by simp_all
  show "entries_ok B (entries c')" by (rule entries_ok_mono [OF assms(2) r(2)])
  show "r = Some v \<Longrightarrow> entry_ok B k v" using assms(2) r(1) by (simp add: entries_ok_def)
qed

lemma entries_ok_add:
  assumes "lru_laws L entries" and "entries_ok B (entries c)" and "entry_ok B k v"
  shows "entries_ok B (entries (lr_Add L k v c))"
proof -
  have "entries_ok B ((entries c)(k \<mapsto> v))" using assms(2,3) by (simp add: entries_ok_def)
  moreover have "entries (lr_Add L k v c) \<subseteq>\<^sub>m (entries c)(k \<mapsto> v)" using assms(1) by (simp add: lru_laws_def)
  ultimately show ?thesis by (rule entries_ok_mono)
qed

context block_store
begin

lemma cached_block:
  assumes "lru_laws L entries" and "entries_ok B (entries c)" and "LRU_GetBlockByHeight L B height c = (r, c')"
  shows "height = Some h \<Longrightarrow> h \<noteq> 0 \<Longrightarrow> r = bs_Block B height" and "entries_ok B (entries c')"
proof -
  let ?h = "case height of None \<Rightarrow> 0 | Some h \<Rightarrow> h"
  obtain d c1 where g: "lr_Get L c (HeightKey ?h) = (d, c1)" by fastforce
  note ok = entries_ok_get [OF assms(1,2) g]
  have "(\<forall>h. height = Some h \<longrightarrow> h \<noteq> 0 \<longrightarrow> r = bs_Block B height) \<and> entries_ok B (entries c')"
  proof (cases d)
    case (Some v)
    from ok(2) [OF Some] obtain b where "v = BlockVal b" "?h \<noteq> 0 \<longrightarrow> bs_Block B (Some ?h) = Inr b"
      by (auto simp: entry_ok_def)
    with g Some assms(3) ok(1) show ?thesis by (auto simp: LRU_GetBlockByHeight_def)
  next
    case None
    have "entry_ok B (HeightKey (rb_Height b)) (BlockVal b)" if "bs_Block B height = Inr b" for b
      using that block_newest [of b] block_at [of _ b] by (cases height) (auto simp: entry_ok_def)
    note new = entries_ok_add [OF assms(1) ok(1) this]
    show ?thesis
      using g None assms(3) ok(1) new by (cases "bs_Block B height") (auto simp: LRU_GetBlockByHeight_def)
  qed
  then show "height = Some h \<Longrightarrow> h \<noteq> 0 \<Longrightarrow> r = bs_Block B height" "entries_ok B (entries c')" by blast+
qed

lemma cached_results:
  assumes "lru_laws L entries" and "entries_ok B (entries c)" and "LRU_GetBlockResults L B height c = (r, c')"
  shows "height = Some h \<Longrightarrow> h \<noteq> 0 \<Longrightarrow> r = bs_Results B height" and "entries_ok B (entries c')"
proof -
  let ?h = "case height of None \<Rightarrow> 0 | Some h \<Rightarrow> h"
  obtain d c1 where g: "lr_Get L c (ResultKey ?h) = (d, c1)" by fastforce
  note ok = entries_ok_get [OF assms(1,2) g]
  have "(\<forall>h. height = Some h \<longrightarrow> h \<noteq> 0 \<longrightarrow> r = bs_Results B height) \<and> entries_ok B (entries c')"
  proof (cases d)
    case (Some v)
    from ok(2) [OF Some] obtain b where "v = ResultsVal b" "?h \<noteq> 0 \<longrightarrow> bs_Results B (Some ?h) = Inr b"
      by (auto simp: entry_ok_def)
    with g Some assms(3) ok(1) show ?thesis by (auto simp: LRU_GetBlockResults_def blockResultKey_def)
  next
    case None
    have "entry_ok B (ResultKey (br_Height b)) (ResultsVal b)" if "bs_Results B height = Inr b" for b
      using that results_newest [of b] results_at [of _ b] by (cases height) (auto simp: entry_ok_def)
    note new = entries_ok_add [OF assms(1) ok(1) this]
    show ?thesis
      using g None assms(3) ok(1) new
      by (cases "bs_Results B height") (auto simp: LRU_GetBlockResults_def blockResultKey_def)
  qed
  then show "height = Some h \<Longrightarrow> h \<noteq> 0 \<Longrightarrow> r = bs_Results B height" "entries_ok B (entries c')" by blast+
qed

lemma cached_range_loop:
  assumes L: "lru_laws L entries"
  shows "entries_ok B (entries c) \<Longrightarrow> \<forall>i \<in> set is. 1 \<le> i \<Longrightarrow>
    \<exists>c'. lru_range L B is metas c = (Inr (metas @ range_answer B is), c') \<and> entries_ok B (entries c')"
proof (induction "is" arbitrary: metas c)
  case Nil
  then show ?case by simp
next
  case (Cons i "is")
  obtain d c1 where g: "lr_Get L c (MetaKey i) = (d, c1)" by fastforce
  note ok = entries_ok_get [OF L Cons.prems(1) g]
  have rest: "\<forall>i \<in> set is. 1 \<le> i" using Cons.prems(2) by simp
  show ?case
  proof (cases d)
    case (Some v)
    from ok(2) [OF Some] obtain m where m: "v = MetaVal (trimmed_meta m)" "bs_Range B i i = Inr [m]"
      by (auto simp: entry_ok_def)
    from Cons.IH [OF ok(1) rest, of "metas @ [trimmed_meta m]"] m g Some show ?thesis
      by (auto simp: blockMetaKey_def)
  next
    case None
    consider m where "bs_Range B i i = Inr [m]" "bm_Height m = i" | e where "bs_Range B i i = Inl e" "\<forall>p. e \<noteq> Panic p"
      using range_one [of i] Cons.prems(2) by auto
    then show ?thesis
    proof cases
      case (1 m)
      have "entries_ok B (entries (lr_Add L (MetaKey i) (MetaVal (trimmed_meta m)) c1))"
        by (rule entries_ok_add [OF L ok(1)]) (use 1 in \<open>auto simp: entry_ok_def\<close>)
      from Cons.IH [OF this rest, of "metas @ [trimmed_meta m]"] 1 g None show ?thesis
        by (auto simp: blockMetaKey_def)
    next
      case (2 e)
      then show ?thesis using g None ok(1) by (cases e) (auto simp: blockMetaKey_def)
    qed
  qed
qed

end

lemma filter_cache_bounds:
  assumes "filterMinMaxforCache mn mx = Inr (a, b)"
  shows "1 \<le> a" and "a \<le> b" and "b = mx" and "1 \<le> mn \<Longrightarrow> a = mn"
  using assms by (auto simp: filterMinMaxforCache_def Let_def split: if_splits)

text \<open>The heights a cached range covers.\<close>

definition range_heights :: "int \<Rightarrow> int \<Rightarrow> int list" where
  "range_heights mn mx = [(if mx - mn > 20 then mx - 20 + 1 else mn)..mx]"

context block_store
begin

lemma cached_range:
  assumes "lru_laws L entries" and "entries_ok B (entries c)" and "LRU_GetBlockRangeByHeight L B mn mx c = (r, c')"
  shows "r = bind_res (filterMinMaxforCache mn mx) (\<lambda>(mn, mx). Inr (range_answer B (range_heights mn mx)))"
    and "entries_ok B (entries c')"
proof -
  have "r = bind_res (filterMinMaxforCache mn mx) (\<lambda>(mn, mx). Inr (range_answer B (range_heights mn mx))) \<and>
      entries_ok B (entries c')"
  proof (cases "filterMinMaxforCache mn mx")
    case (Inl e)
    with assms(2,3) show ?thesis by (simp add: LRU_GetBlockRangeByHeight_def)
  next
    case (Inr ab)
    then obtain a b where ab: "filterMinMaxforCache mn mx = Inr (a, b)" by (cases ab) auto
    have "\<forall>i \<in> set (range_heights a b). 1 \<le> i"
      using filter_cache_bounds(1,2) [OF ab] by (auto simp: range_heights_def)
    from cached_range_loop [OF assms(1,2) this, of "[]"] ab assms(3) show ?thesis
      by (auto simp: LRU_GetBlockRangeByHeight_def range_heights_def Let_def)
  qed
  then show "r = bind_res (filterMinMaxforCache mn mx) (\<lambda>(mn, mx). Inr (range_answer B (range_heights mn mx)))"
    "entries_ok B (entries c')" by blast+
qed

end

lemma mock_range:
  assumes "1 \<le> (i :: int)"
  shows "(\<exists>m. bs_Range (MockBlockStore ids) i i = Inr [m] \<and> bm_Height m = i) \<or>
    (\<exists>e. bs_Range (MockBlockStore ids) i i = Inl e \<and> (\<forall>p. e \<noteq> Panic p))"
proof -
  have z: "i64 (i - i) = 0" by (simp add: i64_def)
  show ?thesis
  proof (cases "i \<le> 50")
    case True
    then have "filterMinMax 50 i i 20 = Inr (i, i)" using assms by (simp add: filterMinMax_def Let_def)
    with assms True z show ?thesis
      by (simp add: MockBlockStore_def Mock_GetBlockRangeByHeight_def Mock_GetBlockByHeight_def getHeight_def mock_block_def Let_def)
  next
    case False
    then have "filterMinMax 50 i i 20 = Inl (Err ''min height can not be greater than max height'')"
      using assms by (simp add: filterMinMax_def Let_def)
    with z show ?thesis by (simp add: MockBlockStore_def Mock_GetBlockRangeByHeight_def Let_def)
  qed
qed

text \<open>The mock of the repository keeps the laws of both: it copies the heights, and answers as the core does.\<close>

interpretation mock: block_store "MockBlockStore ids" for ids
  by unfold_locales
    (use mock_range in \<open>auto simp: MockBlockStore_def Mock_GetBlockByHeight_def Mock_GetBlockResults_def
      getHeight_def mock_block_def split: if_splits\<close>)

interpretation mock_core: tendermint_core "MockBlockStore ids" for ids
  by unfold_locales (use mock.block_at mock.results_at mock.range_one in blast)+

text \<open>Caches as queries leave them, while the chain grows.\<close>

inductive block_cache_run ::
    "(BlockStore \<Rightarrow> int option \<Rightarrow> 'c \<Rightarrow> ResultBlock res \<times> 'c) \<Rightarrow> (BlockStore \<Rightarrow> int \<Rightarrow> int \<Rightarrow> 'c \<Rightarrow> BlockMeta list res \<times> 'c) \<Rightarrow>
      (BlockStore \<Rightarrow> int option \<Rightarrow> 'c \<Rightarrow> ResultBlockResults res \<times> 'c) \<Rightarrow> ('c \<Rightarrow> cache_key \<rightharpoonup> cache_val) \<Rightarrow>
      BlockStore \<Rightarrow> 'c \<Rightarrow> bool"
  for block rng results entries where
  cache_new: "block_store B \<Longrightarrow> entries c = Map.empty \<Longrightarrow> block_cache_run block rng results entries B c"
| chain_grows: "block_cache_run block rng results entries B c \<Longrightarrow> block_store B' \<Longrightarrow> extends B B' \<Longrightarrow>
    block_cache_run block rng results entries B' c"
| query_block: "block_cache_run block rng results entries B c \<Longrightarrow>
    block_cache_run block rng results entries B (snd (block B h c))"
| query_range: "block_cache_run block rng results entries B c \<Longrightarrow>
    block_cache_run block rng results entries B (snd (rng B mn mx c))"
| query_results: "block_cache_run block rng results entries B c \<Longrightarrow>
    block_cache_run block rng results entries B (snd (results B h c))"

abbreviation lru_run :: "'c lru_ops \<Rightarrow> ('c \<Rightarrow> cache_key \<rightharpoonup> cache_val) \<Rightarrow> BlockStore \<Rightarrow> 'c \<Rightarrow> bool" where
  "lru_run L \<equiv> block_cache_run (LRU_GetBlockByHeight L) (LRU_GetBlockRangeByHeight L) (LRU_GetBlockResults L)"

abbreviation twoqueue_run :: "'c lru_ops \<Rightarrow> ('c \<Rightarrow> cache_key \<rightharpoonup> cache_val) \<Rightarrow> BlockStore \<Rightarrow> 'c \<Rightarrow> bool" where
  "twoqueue_run Q \<equiv>
     block_cache_run (TwoQueue_GetBlockByHeight Q) (TwoQueue_GetBlockRangeByHeight Q) (TwoQueue_GetBlockResults Q)"

lemma lru_run_ok:
  assumes L: "lru_laws L entries" and "lru_run L entries B c"
  shows "block_store B \<and> entries_ok B (entries c)"
  using assms(2)
proof induction
  case (cache_new B c)
  then show ?case by (simp add: entries_ok_def)
next
  case (chain_grows B c B')
  then show ?case using entries_ok_extends by blast
next
  case (query_block B c h)
  then show ?case using block_store.cached_block(2) [OF _ L, of B c h] by (simp add: prod_eq_iff)
next
  case (query_range B c mn mx)
  then show ?case using block_store.cached_range(2) [OF _ L, of B c mn mx] by (simp add: prod_eq_iff)
next
  case (query_results B c h)
  then show ?case using block_store.cached_results(2) [OF _ L, of B c h] by (simp add: prod_eq_iff)
qed

lemma cached_answers:
  assumes "lru_laws L entries" and "lru_run L entries B c"
  shows "h \<noteq> 0 \<Longrightarrow> fst (LRU_GetBlockByHeight L B (Some h) c) = bs_Block B (Some h)"
    and "h \<noteq> 0 \<Longrightarrow> fst (LRU_GetBlockResults L B (Some h) c) = bs_Results B (Some h)"
    and "fst (LRU_GetBlockRangeByHeight L B mn mx c) =
      bind_res (filterMinMaxforCache mn mx) (\<lambda>(mn, mx). Inr (range_answer B (range_heights mn mx)))"
proof -
  from lru_run_ok [OF assms] have ok: "block_store B" "entries_ok B (entries c)" by auto
  show "h \<noteq> 0 \<Longrightarrow> fst (LRU_GetBlockByHeight L B (Some h) c) = bs_Block B (Some h)"
    "h \<noteq> 0 \<Longrightarrow> fst (LRU_GetBlockResults L B (Some h) c) = bs_Results B (Some h)"
    "fst (LRU_GetBlockRangeByHeight L B mn mx c) =
      bind_res (filterMinMaxforCache mn mx) (\<lambda>(mn, mx). Inr (range_answer B (range_heights mn mx)))"
    using block_store.cached_block(1) [OF ok(1) assms(1) ok(2), of "Some h" _ _ h]
      block_store.cached_results(1) [OF ok(1) assms(1) ok(2), of "Some h" _ _ h]
      block_store.cached_range(1) [OF ok(1) assms(1) ok(2), of mn mx]
    by (simp_all add: prod_eq_iff)
qed

section \<open>Properties\<close>

text \<open>C27: Reads through the cache are reads of the store. In every run in which a reader and the writer
  never have the same key in hand, a read of a key that the writer is not changing gives what the
  store has, whatever the cache evicts.
\<close>

theorem caching_reads_exact:
  assumes "kv_store K invar" and "cache_laws C" and "caching_run K C invar True w r s" and "\<not> writes_key w k"
  shows "fst (ReadOnly_Get K C k s) = op_get K (cs_source s) k \<and>
    fst (ReadOnly_Has K C k s) = (op_get K (cs_source s) k \<noteq> None)"
proof -
  have "coherent K C invar w r s" using kv_store.caching_run_coherent [OF assms(1-3)] .
  with assms(4) have "ca_Get C (cs_cache s) k = Some v \<Longrightarrow> op_get K (cs_source s) k = Some v" for v
    unfolding coherent_def using intended_other [of w k] by metis
  then show ?thesis
    by (cases "ca_Get C (cs_cache s) k") (auto simp: ReadOnly_Get_def ReadOnly_Has_def split: option.splits)
qed

definition map_cache :: "(bytes \<rightharpoonup> bytes) cache_ops" where
  "map_cache = \<lparr>ca_Get = (\<lambda>c k. c k), ca_Set = (\<lambda>k v c. c(k \<mapsto> v)), ca_Delete = (\<lambda>k c. c(k := None))\<rparr>"

lemma map_cache_laws: "cache_laws map_cache"
  by (simp add: cache_laws_def map_cache_def)

definition restarted :: "(MemStore, bytes \<rightharpoonup> bytes) CachingStore" where
  "restarted = \<lparr>cs_source = [[1] \<mapsto> Some [10]], cs_cache = Map.empty\<rparr>"

abbreviation mem_ops :: "MemStore kv_ops" where
  "mem_ops \<equiv> MemStore_ops (\<lambda>_ _. [])"

lemma restarted_run: "caching_run mem_ops map_cache (\<lambda>_. True) apart WIdle RIdle restarted"
  by (rule cache_start) (simp_all add: restarted_def map_cache_def)

lemma mem_get: "op_get mem_ops (cs_source restarted) [1] = Some [10]"
  by (simp add: restarted_def MemStore_ops_def MemStore_Get_def)

theorem caching_reads_exact_witness:
  "fst (ReadOnly_Get mem_ops map_cache [2] (cache_Set map_cache [1] [20] restarted)) = None"
proof -
  have "caching_run mem_ops map_cache (\<lambda>_. True) True (WSetting [1] [20]) RIdle (cache_Set map_cache [1] [20] restarted)"
    by (rule set_cache [OF restarted_run]) simp
  from caching_reads_exact [OF mem.kv_store_axioms map_cache_laws this, of "[2]"] show ?thesis
    by (simp add: cache_Set_def restarted_def MemStore_ops_def MemStore_Get_def)
qed

text \<open>
  Without that care a reader can leave a value in the cache that the store no longer has: it fetches
  the old value, the writer replaces it in the cache and in the store, and the reader then puts the
  old value back.
\<close>

lemma caching_race:
  "\<exists>s. caching_run mem_ops map_cache (\<lambda>_. True) False WIdle RIdle s \<and>
     fst (ReadOnly_Get mem_ops map_cache [1] s) = Some [10] \<and> op_get mem_ops (cs_source s) [1] = Some [20]"
proof -
  let ?run = "caching_run mem_ops map_cache (\<lambda>_. True) False"
  let ?s = "cache_Set map_cache [1] [10] (source_Set mem_ops [1] (Some [20]) (cache_Set map_cache [1] [20] restarted))"
  have "?run WIdle (RFetched [1] [10]) restarted"
    by (rule fetch [OF restarted_run _ _ mem_get]) (simp_all add: restarted_def map_cache_def)
  then have "?run (WSetting [1] [20]) (RFetched [1] [10]) (cache_Set map_cache [1] [20] restarted)" by (rule set_cache) simp
  then have "?run WIdle RIdle ?s" by (intro fill set_source)
  moreover have "fst (ReadOnly_Get mem_ops map_cache [1] ?s) = Some [10]" "op_get mem_ops (cs_source ?s) [1] = Some [20]"
    by (simp_all add: ReadOnly_Get_def cache_Set_def source_Set_def map_cache_def MemStore_ops_def MemStore_Get_def MemStore_Set_def)
  ultimately show ?thesis by blast
qed


definition map_lru :: "(cache_key \<rightharpoonup> cache_val) lru_ops" where
  "map_lru = \<lparr>lr_Get = (\<lambda>c k. (c k, c)), lr_Add = (\<lambda>k v c. c(k \<mapsto> v))\<rparr>"

definition one_entry :: "(cache_key \<times> cache_val) option lru_ops" where
  "one_entry =
     \<lparr>lr_Get = (\<lambda>c k. ((case c of None \<Rightarrow> None | Some (k', v) \<Rightarrow> if k' = k then Some v else None), c)), lr_Add = (\<lambda>k v c. Some (k, v))\<rparr>"

definition one_entries :: "(cache_key \<times> cache_val) option \<Rightarrow> cache_key \<rightharpoonup> cache_val" where
  "one_entries c = (case c of None \<Rightarrow> Map.empty | Some (k, v) \<Rightarrow> [k \<mapsto> v])"

lemma demo_lru_laws: "lru_laws map_lru (\<lambda>c. c)" "lru_laws one_entry one_entries"
  by (auto simp: lru_laws_def map_lru_def one_entry_def one_entries_def map_le_def split: option.splits)


text \<open>
  The block store in use copies the results without their heights, so every block is cached under
  height 0, which is the key of the newest block: after a query for any height the query for the
  newest block answers with that one, whatever the chain has become.
\<close>

lemma tendermint_cache_stale:
  assumes "bs_Block core (Some h) = Inr b" and "lr_Get L c (HeightKey h) = (None, c1)"
    and keeps: "\<And>v. \<exists>c3. lr_Get L (lr_Add L (HeightKey 0) v c1) (HeightKey 0) = (Some v, c3)"
    and "LRU_GetBlockByHeight L (TendermintBlockStore core) (Some h) c = (Inr b', c2)"
  shows "fst (LRU_GetBlockByHeight L (TendermintBlockStore core') None c2) = Inr b'"
  using assms(1,2,4) keeps [of "BlockVal b'"]
  by (auto simp: LRU_GetBlockByHeight_def TendermintBlockStore_def Tendermint_GetBlockByHeight_def)

text \<open>A range up to height 0 means up to the newest block, except with a cache, where it is an error.\<close>

lemma cached_range_to_newest:
  "fst (LRU_GetBlockRangeByHeight L B 0 0 c) = Inl (Err ''min height can not be greater than max height'')"
  "filterMinMax 50 0 0 20 = Inr (31, 50)"
  by (simp_all add: LRU_GetBlockRangeByHeight_def filterMinMaxforCache_def filterMinMax_def Let_def)

end
