(* ===== verification/Dpos_V1.thy ===== *)
theory Dpos_V1
  imports Coin_Contract "HOL-Library.Product_Lexorder" "HOL-Library.Multiset"
begin

text \<open>
  The first staking contract, \<open>builtin/plugins/dpos/\<close> (\<open>dpos.go\<close>, \<open>election.go\<close>, \<open>storage.go\<close>): accounts
  spread a fixed number of votes over candidates, and an election weighs the votes with the balance of
  the voter and makes the strongest candidates witnesses.

  Amounts are words, with the conversions of the code to and from \<open>int64\<close>. The coin contract is the
  model of \<open>Coin_Contract\<close>; the address of a public key and the sort of the standard library are
  arguments, where equal elements can differ (the other sorts have a total order on what is stored). Shown: nobody casts more votes than the allocation, whom an election makes a witness, and
  two mistakes in the list of candidates.
\<close>

section \<open>Storage\<close>

record V1Params =
  vp_CoinContractAddress :: "address option"
  vp_WitnessCount :: u64
  vp_ElectionCycleLength :: int
  vp_MinPowerFraction :: u64
  vp_VoteAllocation :: u64
  vp_WitnessSalary :: u64

record Witness =
  wi_PubKey :: bytes
  wi_VoteTotal :: u64
  wi_PowerTotal :: u64

record V1State =
  vs_Params :: V1Params
  vs_Witnesses :: "Witness list"
  vs_LastElectionTime :: int

record Voter =
  vr_Address :: address
  vr_Balance :: u64

record Vote =
  vt_VoterAddress :: address
  vt_CandidateAddress :: address
  vt_Amount :: u64

record V1Candidate =
  vc_PubKey :: bytes
  vc_Address :: address

record v1_store =
  v1_state :: "V1State option"
  v1_candidates :: "V1Candidate list"
  v1_voters :: "address \<rightharpoonup> Voter"
  v1_votes :: "address \<rightharpoonup> Vote list"
  v1_coin :: coin_store

definition sortWitnesses :: "Witness list \<Rightarrow> Witness list" where
  "sortWitnesses = sort_key wi_PubKey"

definition V1_sortCandidates :: "V1Candidate list \<Rightarrow> V1Candidate list" where
  "V1_sortCandidates = sort_key (\<lambda>c. Local (vc_Address c))"

definition sortVotes :: "Vote list \<Rightarrow> Vote list" where
  "sortVotes = sort_key (\<lambda>v. (Local (vt_VoterAddress v), Local (vt_CandidateAddress v), vt_Amount v))"

definition VoteList_Get :: "Vote list \<Rightarrow> address \<Rightarrow> Vote option" where
  "VoteList_Get vl addr = find (\<lambda>v. Local (vt_VoterAddress v) = Local addr) vl"

text \<open>
  \<open>VoteList.Set\<close> assigns to the variable of its loop and changes nothing when the voter is found; the
  only caller passes the vote that \<open>Get\<close> returned, a pointer into the list, already changed in place.
  Together they replace the first vote of the voter.
\<close>

fun VoteList_Set :: "Vote list \<Rightarrow> Vote \<Rightarrow> Vote list" where
  "VoteList_Set [] vote = [vote]"
| "VoteList_Set (v # vl) vote =
     (if Local (vt_VoterAddress v) = Local (vt_VoterAddress vote) then vote # vl else v # VoteList_Set vl vote)"

definition V1_CandidateList_Get :: "V1Candidate list \<Rightarrow> address \<Rightarrow> V1Candidate option" where
  "V1_CandidateList_Get cl addr = find (\<lambda>c. Local (vc_Address c) = Local addr) cl"

text \<open>The list of candidates, in contrast, keeps the old entry of a candidate it finds.\<close>

definition V1_CandidateList_Set :: "V1Candidate list \<Rightarrow> V1Candidate \<Rightarrow> V1Candidate list" where
  "V1_CandidateList_Set cl cand =
     (if list_ex (\<lambda>c. Local (vc_Address cand) = Local (vc_Address c)) cl then cl else cl @ [cand])"

text \<open>The loop declares its own \<open>addr\<close>, the address of the candidate it looks at.\<close>

definition V1_CandidateList_Delete :: "V1Candidate list \<Rightarrow> address \<Rightarrow> V1Candidate list" where
  "V1_CandidateList_Delete cl addr =
     filter (\<lambda>cand. let candAddr = vc_Address cand; addr = vc_Address cand in Local candAddr \<noteq> Local addr) cl"

definition V1_saveCandidateList :: "V1Candidate list \<Rightarrow> v1_store \<Rightarrow> v1_store" where
  "V1_saveCandidateList cl s = s\<lparr>v1_candidates := V1_sortCandidates cl\<rparr>"

definition saveVoter :: "Voter \<Rightarrow> v1_store \<Rightarrow> v1_store" where
  "saveVoter v s = s\<lparr>v1_voters := (v1_voters s)(vr_Address v \<mapsto> v)\<rparr>"

definition loadVoter :: "v1_store \<Rightarrow> address \<Rightarrow> u64 \<Rightarrow> Voter" where
  "loadVoter s addr defaultBalance =
     (case v1_voters s addr of None \<Rightarrow> \<lparr>vr_Address = addr, vr_Balance = defaultBalance\<rparr> | Some v \<Rightarrow> v)"

definition saveVoteSet :: "address \<Rightarrow> Vote list \<Rightarrow> v1_store \<Rightarrow> v1_store" where
  "saveVoteSet candAddr vs s = s\<lparr>v1_votes := (v1_votes s)(candAddr \<mapsto> sortVotes vs)\<rparr>"

definition loadVoteSet :: "v1_store \<Rightarrow> address \<Rightarrow> Vote list" where
  "loadVoteSet s candAddr = (case v1_votes s candAddr of None \<Rightarrow> [] | Some vs \<Rightarrow> vs)"

definition V1_loadState :: "v1_store \<Rightarrow> V1State res" where
  "V1_loadState s = (case v1_state s of None \<Rightarrow> Inl ErrNotFound | Some st \<Rightarrow> Inr st)"

section \<open>Election\<close>

record FullVote =
  fu_CandidateAddress :: address
  fu_VoteSize :: u64
  fu_Power :: u64

record VoteResult =
  vres_CandidateAddress :: address
  vres_VoteTotal :: u64
  vres_PowerTotal :: u64

definition compare_addr :: "address \<Rightarrow> address \<Rightarrow> int" where
  "compare_addr a b = (if a < b then - 1 else if a = b then 0 else 1)"

definition byPower_Less :: "VoteResult \<Rightarrow> VoteResult \<Rightarrow> bool" where
  "byPower_Less a b =
     (let diff = i64 (sint (vres_PowerTotal a) - sint (vres_PowerTotal b));
          diff = (if diff = 0 then compare_addr (vres_CandidateAddress a) (vres_CandidateAddress b) else diff)
      in diff < 0)"

fun add_vote :: "FullVote \<Rightarrow> VoteResult list \<Rightarrow> VoteResult list" where
  "add_vote vote [] =
     [\<lparr>vres_CandidateAddress = fu_CandidateAddress vote, vres_VoteTotal = fu_VoteSize vote, vres_PowerTotal = fu_Power vote\<rparr>]"
| "add_vote vote (res # rs) =
     (if vres_CandidateAddress res = fu_CandidateAddress vote
      then res\<lparr>vres_VoteTotal := vres_VoteTotal res + fu_VoteSize vote, vres_PowerTotal := vres_PowerTotal res + fu_Power vote\<rparr> # rs
      else res # add_vote vote rs)"

text \<open>
  The results come out of a map in some order and are sorted with \<open>sort.Sort\<close>, the argument: the
  order of the map is part of what it decides.
\<close>

type_synonym result_sort = "(VoteResult \<Rightarrow> VoteResult \<Rightarrow> bool) \<Rightarrow> VoteResult list \<Rightarrow> VoteResult list"

definition runElection :: "result_sort \<Rightarrow> FullVote list \<Rightarrow> VoteResult list" where
  "runElection srt votes = srt (\<lambda>a b. byPower_Less b a) (fold add_vote votes [])"

section \<open>Methods\<close>

record v1_env =
  ve_pubkey_local :: "bytes \<Rightarrow> bytes"
  ve_sort :: result_sort

definition sciNot :: "int \<Rightarrow> nat \<Rightarrow> int" where
  "sciNot m n = 10 ^ n * m"

definition balanceToPower :: "int \<Rightarrow> u64" where
  "balanceToPower n = word_of_int (n div sciNot 1 18)"

definition calcVotePower :: "v1_store \<Rightarrow> Voter \<Rightarrow> u64 res" where
  "calcVotePower s voter = bind_res (Coin_BalanceOf (v1_coin s) (vr_Address voter)) (\<lambda>t. Inr (balanceToPower t))"

definition V1_Init :: "call_ctx \<Rightarrow> V1Params \<Rightarrow> bytes list \<Rightarrow> v1_store \<Rightarrow> v1_store res" where
  "V1_Init ctx params validators s =
     (let params = (if vp_VoteAllocation params = 0 then params\<lparr>vp_VoteAllocation := vp_WitnessCount params\<rparr> else params) in
      bind_res (case vp_CoinContractAddress params of
          Some a \<Rightarrow> Inr params
        | None \<Rightarrow> bind_res (resolve ctx ''coin'') (\<lambda>addr. Inr (params\<lparr>vp_CoinContractAddress := Some addr\<rparr>))) (\<lambda>params.
        let witnesses = map (\<lambda>k. \<lparr>wi_PubKey = k, wi_VoteTotal = 0, wi_PowerTotal = 0\<rparr>) validators
        in Inr (s\<lparr>v1_state := Some \<lparr>vs_Params = params, vs_Witnesses = sortWitnesses witnesses, vs_LastElectionTime = now_unix ctx\<rparr>\<rparr>)))"

definition V1_RegisterCandidate :: "v1_env \<Rightarrow> call_ctx \<Rightarrow> bytes \<Rightarrow> v1_store \<Rightarrow> v1_store res" where
  "V1_RegisterCandidate E ctx pubKey s =
     (let candAddr = sender ctx in
      if Local candAddr \<noteq> ve_pubkey_local E pubKey then Inl (Err ''public key does not match address'')
      else Inr (V1_saveCandidateList (V1_CandidateList_Set (v1_candidates s) \<lparr>vc_PubKey = pubKey, vc_Address = candAddr\<rparr>) s))"

definition V1_UnregisterCandidate :: "call_ctx \<Rightarrow> v1_store \<Rightarrow> v1_store res" where
  "V1_UnregisterCandidate ctx s =
     (case V1_CandidateList_Get (v1_candidates s) (sender ctx) of
        None \<Rightarrow> Inl (Err ''candidate is not registered'')
      | Some _ \<Rightarrow> Inr (V1_saveCandidateList (V1_CandidateList_Delete (v1_candidates s) (sender ctx)) s))"

definition V1_Vote :: "call_ctx \<Rightarrow> address option \<Rightarrow> int \<Rightarrow> v1_store \<Rightarrow> v1_store res" where
  "V1_Vote ctx candidateAddress amount s =
     bind_res (V1_loadState s) (\<lambda>state.
       let voterAddr = sender ctx; voter = loadVoter s voterAddr (vp_VoteAllocation (vs_Params state)) in
       if sint (vr_Balance voter) < amount then Inl (Err ''insufficient votes left'')
       else
         bind_res (deref candidateAddress) (\<lambda>candAddr.
           case V1_CandidateList_Get (v1_candidates s) candAddr of
             None \<Rightarrow> Inl (Err ''candidate is not registered'')
           | Some _ \<Rightarrow>
               let votes = loadVoteSet s candAddr;
                   vote = (case VoteList_Get votes voterAddr of
                       None \<Rightarrow> \<lparr>vt_VoterAddress = voterAddr, vt_CandidateAddress = candAddr, vt_Amount = 0\<rparr>
                     | Some v \<Rightarrow> v)
               in if i64 (sint (vt_Amount vote) + amount) < 0
                  then Inl (Err ''total votes for a candidate must be positive'')
                  else
                    let voter = voter\<lparr>vr_Balance := word_of_int (sint (vr_Balance voter) - amount)\<rparr>;
                        vote = vote\<lparr>vt_Amount := word_of_int (sint (vt_Amount vote) + amount)\<rparr>
                    in Inr (saveVoteSet candAddr (VoteList_Set votes vote) (saveVoter voter s))))"

definition full_votes :: "V1Params \<Rightarrow> v1_store \<Rightarrow> FullVote list res" where
  "full_votes params s =
     fold_res (\<lambda>cand acc.
       fold_res (\<lambda>vote acc.
         bind_res (calcVotePower s (loadVoter s (vt_VoterAddress vote) (vp_VoteAllocation params))) (\<lambda>votePower.
           Inr (acc @ [\<lparr>fu_CandidateAddress = vt_CandidateAddress vote, fu_VoteSize = vt_Amount vote,
             fu_Power = vt_Amount vote * votePower\<rparr>])))
         (loadVoteSet s (vc_Address cand)) acc)
       (v1_candidates s) []"

text \<open>\<open>time.Sub\<close> saturates, the product with a second wraps.\<close>

definition elapsed :: "int \<Rightarrow> int \<Rightarrow> int" where
  "elapsed now lastTime = max (- (2 ^ 63)) (min (2 ^ 63 - 1) ((now - lastTime) * 1000000000))"

fun map_res :: "('a \<Rightarrow> 'b res) \<Rightarrow> 'a list \<Rightarrow> 'b list res" where
  "map_res f [] = Inr []"
| "map_res f (x # xs) = bind_res (f x) (\<lambda>y. bind_res (map_res f xs) (\<lambda>ys. Inr (y # ys)))"

definition pick_witness :: "V1Candidate list \<Rightarrow> VoteResult \<Rightarrow> Witness res" where
  "pick_witness cands res =
     bind_res (deref (V1_CandidateList_Get cands (vres_CandidateAddress res))) (\<lambda>cand.
       Inr \<lparr>wi_PubKey = vc_PubKey cand, wi_VoteTotal = vres_VoteTotal res, wi_PowerTotal = vres_PowerTotal res\<rparr>)"

definition pay_salaries :: "v1_env \<Rightarrow> call_ctx \<Rightarrow> V1State \<Rightarrow> coin_store \<Rightarrow> coin_store res" where
  "pay_salaries E ctx state coin =
     (if vp_WitnessSalary (vs_Params state) > 0
      then fold_res (\<lambda>wit coin.
          Coin_Transfer (ctx\<lparr>sender := contract_address ctx\<rparr>) coin
            \<lparr>tr_to = Address (block_chain_id ctx) (ve_pubkey_local E (wi_PubKey wit)),
             tr_amount = Some (sciNot (sint (vp_WitnessSalary (vs_Params state))) 18)\<rparr>)
        (vs_Witnesses state) coin
      else Inr coin)"

definition V1_Elect :: "v1_env \<Rightarrow> call_ctx \<Rightarrow> v1_store \<Rightarrow> v1_store res" where
  "V1_Elect E ctx s =
     bind_res (V1_loadState s) (\<lambda>state.
       let params = vs_Params state in
       bind_res (deref (vp_CoinContractAddress params)) (\<lambda>coinAddr.
       if elapsed (now_unix ctx) (vs_LastElectionTime state) < i64 (vp_ElectionCycleLength params * 1000000000)
       then Inl (Err ''must wait before holding another election'')
       else
         bind_res (full_votes params s) (\<lambda>fullVotes.
         let results = runElection (ve_sort E) fullVotes;
             resultsPower = fold (\<lambda>r p. p + vres_PowerTotal r) results 0
         in
         bind_res (Coin_TotalSupply (v1_coin s)) (\<lambda>totalSupply.
         let minPowerReq = (if vp_MinPowerFraction params > 0 then balanceToPower totalSupply div vp_MinPowerFraction params else 0) in
         if resultsPower < minPowerReq then Inl (Err ''election did not meet the minimum power required'')
         else
           let witCount = sint (vp_WitnessCount params);
               witCount = (if int (length results) < witCount then int (length results) else witCount)
           in if witCount < 0 then Inl (Panic ''makeslice: len out of range'')
           else
             bind_res (map_res (pick_witness (v1_candidates s)) (take (nat witCount) results)) (\<lambda>witnesses.
             let sortedWitnesses = sortWitnesses witnesses in
             if length sortedWitnesses = 0 then Inl (Err ''there must be at least 1 witness elected'')
             else
               bind_res (pay_salaries E ctx state (v1_coin s)) (\<lambda>coin.
                 Inr (s\<lparr>v1_coin := coin,
                   v1_state := Some (state\<lparr>vs_Witnesses := sortedWitnesses, vs_LastElectionTime := now_unix ctx\<rparr>)\<rparr>)))))))"

definition ListWitnesses :: "v1_store \<Rightarrow> Witness list res" where
  "ListWitnesses s = bind_res (V1_loadState s) (\<lambda>state. Inr (vs_Witnesses state))"

definition V1_ListCandidates :: "v1_store \<Rightarrow> V1Candidate list" where
  "V1_ListCandidates s = v1_candidates s"

section \<open>Votes cast\<close>

text \<open>The votes of a list by voter, and what an account has cast and has left.\<close>

definition votes_map :: "Vote list \<Rightarrow> bytes \<rightharpoonup> u64" where
  "votes_map vs = map_of (map (\<lambda>v. (Local (vt_VoterAddress v), vt_Amount v)) vs)"

definition cast_for :: "v1_store \<Rightarrow> address \<Rightarrow> address \<Rightarrow> int" where
  "cast_for s a c = (case votes_map (loadVoteSet s c) (Local a) of None \<Rightarrow> 0 | Some n \<Rightarrow> uint n)"

definition left :: "v1_store \<Rightarrow> u64 \<Rightarrow> address \<Rightarrow> int" where
  "left s alloc a = uint (vr_Balance (loadVoter s a alloc))"

definition allocation :: "v1_store \<Rightarrow> u64 option" where
  "allocation s = map_option (\<lambda>st. vp_VoteAllocation (vs_Params st)) (v1_state s)"

lemma VoteList_Get_map:
  "map_option vt_Amount (VoteList_Get vs a) = votes_map vs (Local a)"
  by (induction vs) (auto simp: VoteList_Get_def votes_map_def)

lemma VoteList_Get_voter: "VoteList_Get vs a = Some v \<Longrightarrow> Local (vt_VoterAddress v) = Local a"
  by (auto simp: VoteList_Get_def find_Some_iff)

lemma VoteList_Set_map:
  "votes_map (VoteList_Set vs v) = (votes_map vs)(Local (vt_VoterAddress v) \<mapsto> vt_Amount v)"
  by (induction vs) (auto simp: votes_map_def fun_eq_iff)

lemma VoteList_Set_locals:
  "set (map (\<lambda>v. Local (vt_VoterAddress v)) (VoteList_Set vs v)) =
     insert (Local (vt_VoterAddress v)) (set (map (\<lambda>v. Local (vt_VoterAddress v)) vs))"
  "distinct (map (\<lambda>v. Local (vt_VoterAddress v)) vs) \<Longrightarrow> distinct (map (\<lambda>v. Local (vt_VoterAddress v)) (VoteList_Set vs v))"
proof -
  show set: "set (map (\<lambda>v. Local (vt_VoterAddress v)) (VoteList_Set vs v)) =
     insert (Local (vt_VoterAddress v)) (set (map (\<lambda>v. Local (vt_VoterAddress v)) vs))" for vs
    by (induction vs) auto
  show "distinct (map (\<lambda>v. Local (vt_VoterAddress v)) vs) \<Longrightarrow> distinct (map (\<lambda>v. Local (vt_VoterAddress v)) (VoteList_Set vs v))"
  proof (induction vs)
    case (Cons w vs)
    then show ?case using set [of vs] by auto
  qed simp
qed

lemma votes_map_sort:
  assumes "distinct (map (\<lambda>v. Local (vt_VoterAddress v)) vs)"
  shows "votes_map (sortVotes vs) = votes_map vs"
proof -
  let ?f = "\<lambda>v. (Local (vt_VoterAddress v), vt_Amount v)"
  have "distinct (map fst (map ?f vs))" using assms by (simp add: comp_def)
  moreover have "distinct (map fst (map ?f (sortVotes vs)))"
    using assms by (simp add: comp_def sortVotes_def distinct_map)
  moreover have "set (map ?f (sortVotes vs)) = set (map ?f vs)" by (simp add: sortVotes_def)
  ultimately show ?thesis unfolding votes_map_def by (simp add: map_of_inject_set)
qed

text \<open>Runs in which all voters are on one chain.\<close>

inductive v1_run :: "v1_env \<Rightarrow> string \<Rightarrow> v1_store \<Rightarrow> bool" for E :: v1_env and chain :: string where
  v1_start: "V1_Init ctx params validators
      \<lparr>v1_state = None, v1_candidates = [], v1_voters = Map.empty, v1_votes = Map.empty, v1_coin = coin\<rparr> = Inr s \<Longrightarrow>
    v1_run E chain s"
| v1_register: "v1_run E chain s \<Longrightarrow> V1_RegisterCandidate E ctx pubKey s = Inr s' \<Longrightarrow> v1_run E chain s'"
| v1_unregister: "v1_run E chain s \<Longrightarrow> V1_UnregisterCandidate ctx s = Inr s' \<Longrightarrow> v1_run E chain s'"
| v1_vote: "v1_run E chain s \<Longrightarrow> ChainID (sender ctx) = chain \<Longrightarrow> amount \<in> {- (2 ^ 63)..<2 ^ 63} \<Longrightarrow>
    V1_Vote ctx cand amount s = Inr s' \<Longrightarrow> v1_run E chain s'"
| v1_elect: "v1_run E chain s \<Longrightarrow> V1_Elect E ctx s = Inr s' \<Longrightarrow> v1_run E chain s'"
| v1_coin_moves: "v1_run E chain s \<Longrightarrow> v1_run E chain (s\<lparr>v1_coin := coin\<rparr>)"

definition votes_ok :: "string \<Rightarrow> u64 \<Rightarrow> v1_store \<Rightarrow> bool" where
  "votes_ok chain alloc s \<longleftrightarrow>
     finite (dom (v1_votes s)) \<and>
     (\<forall>c. distinct (map (\<lambda>v. Local (vt_VoterAddress v)) (loadVoteSet s c))) \<and>
     (\<forall>a v. v1_voters s a = Some v \<longrightarrow> vr_Address v = a) \<and>
     (\<forall>a. ChainID a = chain \<longrightarrow> left s alloc a + (\<Sum>c \<in> dom (v1_votes s). cast_for s a c) = uint alloc)"

lemma same_votes:
  assumes "v1_votes s' = v1_votes s" and "v1_voters s' = v1_voters s"
  shows "votes_ok chain alloc s' = votes_ok chain alloc s"
  using assms by (simp add: votes_ok_def left_def cast_for_def loadVoter_def loadVoteSet_def)

lemma Elect_keeps:
  assumes "V1_Elect E ctx s = Inr s'"
  shows "v1_votes s' = v1_votes s" "v1_voters s' = v1_voters s" "allocation s' = allocation s"
  using assms unfolding V1_Elect_def V1_loadState_def Let_def
  by (auto simp: allocation_def elim!: bind_resE split: option.splits if_splits)

lemma sint_small:
  assumes "uint w < 2 ^ 63"
  shows "sint (w :: u64) = uint w"
proof -
  have "- (2 ^ 63) \<le> uint w" by (rule order_trans [of _ 0]) simp_all
  with assms show ?thesis unfolding sint_uint by (simp add: signed_take_bit_int_eq_self)
qed

lemma uint_of_small: "0 \<le> x \<Longrightarrow> x < 2 ^ 64 \<Longrightarrow> uint (word_of_int x :: u64) = x"
  by (simp add: uint_word_of_int)

text \<open>A vote moves the amount from what the account has left to what it has cast for the candidate.\<close>

lemma Vote_effect:
  assumes ok: "votes_ok chain alloc s" and chain: "ChainID (sender ctx) = chain"
    and alloc: "allocation s = Some alloc" "uint alloc < 2 ^ 63" and amount: "amount \<in> {- (2 ^ 63)..<2 ^ 63}"
    and v: "V1_Vote ctx cand amount s = Inr s'"
  obtains c where "cand = Some c" and "amount \<le> left s alloc (sender ctx)" and "0 \<le> cast_for s (sender ctx) c + amount"
    and "left s' alloc = (left s alloc)(sender ctx := left s alloc (sender ctx) - amount)"
    and "\<forall>a d. ChainID a = chain \<longrightarrow> cast_for s' a d =
      (if a = sender ctx \<and> d = c then cast_for s a c + amount else cast_for s a d)"
    and "dom (v1_votes s') = insert c (dom (v1_votes s))"
    and "\<forall>d. distinct (map (\<lambda>v. Local (vt_VoterAddress v)) (loadVoteSet s' d))"
    and "\<forall>a v. v1_voters s' a = Some v \<longrightarrow> vr_Address v = a" and "allocation s' = Some alloc"
proof -
  let ?a = "sender ctx"
  let ?voter = "loadVoter s ?a alloc"
  from v obtain st c where st: "v1_state s = Some st" "cand = Some c" and al: "vp_VoteAllocation (vs_Params st) = alloc"
    using alloc(1) by (auto simp: V1_Vote_def V1_loadState_def allocation_def Let_def elim!: bind_resE split: option.splits if_splits)
  define votes where "votes = loadVoteSet s c"
  define vote where "vote = (case VoteList_Get votes ?a of
      None \<Rightarrow> \<lparr>vt_VoterAddress = ?a, vt_CandidateAddress = c, vt_Amount = 0\<rparr> | Some v \<Rightarrow> v)"
  from v st al have g: "\<not> sint (vr_Balance ?voter) < amount" "\<not> i64 (sint (vt_Amount vote) + amount) < 0"
    and s': "s' = saveVoteSet c (VoteList_Set votes (vote\<lparr>vt_Amount := word_of_int (sint (vt_Amount vote) + amount)\<rparr>))
        (saveVoter (?voter\<lparr>vr_Balance := word_of_int (sint (vr_Balance ?voter) - amount)\<rparr>) s)"
    by (auto simp: V1_Vote_def V1_loadState_def Let_def votes_def vote_def split: option.splits if_splits)
  have lv: "Local (vt_VoterAddress vote) = Local ?a"
    by (auto simp: vote_def VoteList_Get_voter split: option.splits)
  have cur: "uint (vt_Amount vote) = cast_for s ?a c"
    using VoteList_Get_map [of votes ?a] by (auto simp: cast_for_def vote_def votes_def split: option.splits)
  have va: "vr_Address ?voter = ?a" using ok by (auto simp: votes_ok_def loadVoter_def split: option.splits)
  have nn: "0 \<le> cast_for s a d" for a d by (simp add: cast_for_def split: option.splits)
  have le: "cast_for s ?a c \<le> (\<Sum>d \<in> dom (v1_votes s). cast_for s ?a d)"
  proof (cases "c \<in> dom (v1_votes s)")
    case True
    then show ?thesis using ok nn by (intro member_le_sum) (auto simp: votes_ok_def)
  next
    case False
    then have "cast_for s ?a c = 0" by (auto simp: cast_for_def loadVoteSet_def votes_map_def domIff)
    with nn show ?thesis by (simp add: sum_nonneg)
  qed
  have budget: "left s alloc ?a + (\<Sum>d \<in> dom (v1_votes s). cast_for s ?a d) = uint alloc"
    using ok chain by (simp add: votes_ok_def)
  have b0: "0 \<le> left s alloc ?a" by (simp add: left_def)
  have small: "left s alloc ?a + cast_for s ?a c < 2 ^ 63" using le budget alloc(2) by linarith
  have sb: "sint (vr_Balance ?voter) = left s alloc ?a"
    using small nn [of ?a c] unfolding left_def by (intro sint_small) linarith
  have sv: "sint (vt_Amount vote) = cast_for s ?a c"
    using small b0 cur sint_small [of "vt_Amount vote"] by linarith
  have amt: "amount \<le> left s alloc ?a" using g(1) sb by simp
  have "i64 (cast_for s ?a c + amount) = cast_for s ?a c + amount"
    using small amt nn [of ?a c] amount by (intro i64_id) auto
  then have pos: "0 \<le> cast_for s ?a c + amount" using g(2) sv by simp
  have nb: "uint (word_of_int (sint (vr_Balance ?voter) - amount) :: u64) = left s alloc ?a - amount"
    using sb amt pos small by (subst uint_of_small) auto
  have nv: "uint (word_of_int (sint (vt_Amount vote) + amount) :: u64) = cast_for s ?a c + amount"
    using sv amt pos small by (subst uint_of_small) auto
  have dist: "distinct (map (\<lambda>v. Local (vt_VoterAddress v)) (loadVoteSet s d))" for d
    using ok by (simp add: votes_ok_def)
  define nw :: u64 where "nw = word_of_int (sint (vt_Amount vote) + amount)"
  let ?new = "VoteList_Set votes (vote\<lparr>vt_Amount := nw\<rparr>)"
  have dn: "distinct (map (\<lambda>v. Local (vt_VoterAddress v)) ?new)"
    unfolding votes_def by (rule VoteList_Set_locals(2) [OF dist])
  have load: "loadVoteSet s' d = (if d = c then sortVotes ?new else loadVoteSet s d)" for d
    unfolding s' nw_def by (simp add: loadVoteSet_def saveVoteSet_def saveVoter_def)
  have cf: "cast_for s' a d = (if a = ?a \<and> d = c then cast_for s a c + amount else cast_for s a d)" if "ChainID a = chain" for a d
  proof (cases "d = c")
    case True
    have "votes_map (loadVoteSet s' c) (Local a) =
        (if Local a = Local ?a then Some nw else votes_map votes (Local a))"
      using lv by (simp add: load votes_map_sort [OF dn] VoteList_Set_map)
    moreover have "Local a = Local ?a \<longleftrightarrow> a = ?a" using that chain by (metis address.expand)
    ultimately show ?thesis using True nv [folded nw_def] by (simp add: cast_for_def votes_def)
  next
    case False
    then show ?thesis by (simp add: cast_for_def load)
  qed
  show thesis
  proof (rule that [OF st(2) amt pos])
    show "left s' alloc = (left s alloc)(?a := left s alloc ?a - amount)"
      using nb va by (auto simp: fun_eq_iff left_def s' loadVoter_def saveVoteSet_def saveVoter_def)
    show "dom (v1_votes s') = insert c (dom (v1_votes s))" by (simp add: s' saveVoteSet_def saveVoter_def)
    show "\<forall>a d. ChainID a = chain \<longrightarrow> cast_for s' a d = (if a = ?a \<and> d = c then cast_for s a c + amount else cast_for s a d)"
      using cf by blast
    show "\<forall>d. distinct (map (\<lambda>v. Local (vt_VoterAddress v)) (loadVoteSet s' d))"
      using dist dn by (auto simp: load sortVotes_def distinct_map)
    show "\<forall>a v. v1_voters s' a = Some v \<longrightarrow> vr_Address v = a"
      using ok va by (auto simp: s' votes_ok_def saveVoteSet_def saveVoter_def split: if_splits)
    show "allocation s' = Some alloc" using alloc(1) by (simp add: s' allocation_def saveVoteSet_def saveVoter_def)
  qed
qed

lemma Vote_keeps_ok:
  assumes ok: "votes_ok chain alloc s" and chain: "ChainID (sender ctx) = chain"
    and alloc: "allocation s = Some alloc" "uint alloc < 2 ^ 63" and amount: "amount \<in> {- (2 ^ 63)..<2 ^ 63}"
    and v: "V1_Vote ctx cand amount s = Inr s'"
  shows "votes_ok chain alloc s'" and "allocation s' = Some alloc"
proof -
  let ?a = "sender ctx"
  obtain c where "cand = Some c" "amount \<le> left s alloc ?a" "0 \<le> cast_for s ?a c + amount"
    and c: "left s' alloc = (left s alloc)(?a := left s alloc ?a - amount)"
    "\<forall>a d. ChainID a = chain \<longrightarrow> cast_for s' a d = (if a = ?a \<and> d = c then cast_for s a c + amount else cast_for s a d)"
    "dom (v1_votes s') = insert c (dom (v1_votes s))"
    "\<forall>d. distinct (map (\<lambda>v. Local (vt_VoterAddress v)) (loadVoteSet s' d))"
    "\<forall>a v. v1_voters s' a = Some v \<longrightarrow> vr_Address v = a" "allocation s' = Some alloc"
    using Vote_effect [OF assms] .
  show "allocation s' = Some alloc" by (rule c(6))
  have fin: "finite (dom (v1_votes s))" using ok by (simp add: votes_ok_def)
  have old: "(\<Sum>d \<in> insert c (dom (v1_votes s)). cast_for s a d) = (\<Sum>d \<in> dom (v1_votes s). cast_for s a d)" for a
    by (rule sum.mono_neutral_right) (use fin in \<open>auto simp: cast_for_def loadVoteSet_def votes_map_def domIff\<close>)
  have "left s' alloc a + (\<Sum>d \<in> dom (v1_votes s'). cast_for s' a d) = uint alloc" if a: "ChainID a = chain" for a
  proof -
    have "(\<Sum>d \<in> dom (v1_votes s'). cast_for s' a d) =
        (\<Sum>d \<in> insert c (dom (v1_votes s)). cast_for s a d + (if d = c then (if a = ?a then amount else 0) else 0))"
      unfolding c(3) by (rule sum.cong) (use c(2) a in auto)
    also have "\<dots> = (\<Sum>d \<in> dom (v1_votes s). cast_for s a d) + (if a = ?a then amount else 0)"
      using fin by (simp add: sum.distrib old sum.delta del: sum.insert_remove sum.insert)
    finally show ?thesis using ok a by (auto simp: votes_ok_def c(1))
  qed
  with c fin show "votes_ok chain alloc s'" by (auto simp: votes_ok_def)
qed

lemma v1_run_ok:
  assumes "v1_run E chain s"
  shows "\<exists>alloc. allocation s = Some alloc \<and> (uint alloc < 2 ^ 63 \<longrightarrow> votes_ok chain alloc s)"
  using assms
proof induction
  case (v1_start ctx params validators coin s)
  then have s: "v1_voters s = Map.empty" "v1_votes s = Map.empty" "v1_state s \<noteq> None"
    by (auto simp: V1_Init_def Let_def elim!: bind_resE)
  then obtain alloc where "allocation s = Some alloc" by (auto simp: allocation_def)
  with s show ?case by (auto simp: votes_ok_def left_def loadVoter_def loadVoteSet_def)
next
  case (v1_register s ctx pubKey s')
  then have "v1_votes s' = v1_votes s" "v1_voters s' = v1_voters s" "allocation s' = allocation s"
    by (auto simp: V1_RegisterCandidate_def V1_saveCandidateList_def allocation_def Let_def split: if_splits)
  with v1_register.IH same_votes [of s' s chain] show ?case by auto
next
  case (v1_unregister s ctx s')
  then have "v1_votes s' = v1_votes s" "v1_voters s' = v1_voters s" "allocation s' = allocation s"
    by (auto simp: V1_UnregisterCandidate_def V1_saveCandidateList_def allocation_def split: option.splits)
  with v1_unregister.IH same_votes [of s' s chain] show ?case by auto
next
  case (v1_vote s ctx amount cand s')
  from v1_vote.IH obtain alloc where a: "allocation s = Some alloc" "uint alloc < 2 ^ 63 \<longrightarrow> votes_ok chain alloc s" by blast
  show ?case
  proof (cases "uint alloc < 2 ^ 63")
    case True
    with a Vote_keeps_ok [OF _ v1_vote.hyps(2) a(1) True v1_vote.hyps(3,4)] show ?thesis by blast
  next
    case False
    have "allocation s' = allocation s" using v1_vote.hyps(4)
      by (auto simp: V1_Vote_def allocation_def saveVoteSet_def saveVoter_def Let_def elim!: bind_resE split: if_splits option.splits)
    with a False show ?thesis by auto
  qed
next
  case (v1_elect s ctx s')
  with Elect_keeps [OF v1_elect.hyps(2)] same_votes [of s' s chain] show ?case by auto
next
  case (v1_coin_moves s coin)
  then show ?case using same_votes [of "s\<lparr>v1_coin := coin\<rparr>" s chain] by (auto simp: allocation_def)
qed

section \<open>Tally\<close>

lemma add_vote_addresses:
  "set (map vres_CandidateAddress (add_vote v rs)) = insert (fu_CandidateAddress v) (set (map vres_CandidateAddress rs))"
  "distinct (map vres_CandidateAddress rs) \<Longrightarrow> distinct (map vres_CandidateAddress (add_vote v rs))"
proof -
  show set: "set (map vres_CandidateAddress (add_vote v rs)) =
      insert (fu_CandidateAddress v) (set (map vres_CandidateAddress rs))" for rs
    by (induction rs) auto
  show "distinct (map vres_CandidateAddress rs) \<Longrightarrow> distinct (map vres_CandidateAddress (add_vote v rs))"
  proof (induction rs)
    case (Cons r rs)
    then show ?case using set [of rs] by auto
  qed simp
qed

lemma add_vote_member:
  assumes "r \<in> set (add_vote v rs)" and "distinct (map vres_CandidateAddress rs)"
  shows "if vres_CandidateAddress r = fu_CandidateAddress v
    then (\<exists>q \<in> set rs. vres_CandidateAddress q = vres_CandidateAddress r \<and>
        vres_PowerTotal r = vres_PowerTotal q + fu_Power v \<and> vres_VoteTotal r = vres_VoteTotal q + fu_VoteSize v) \<or>
      vres_CandidateAddress r \<notin> set (map vres_CandidateAddress rs) \<and>
        vres_PowerTotal r = fu_Power v \<and> vres_VoteTotal r = fu_VoteSize v
    else r \<in> set rs"
  using assms
proof (induction rs)
  case (Cons q rs)
  consider "vres_CandidateAddress q = fu_CandidateAddress v" "r \<in> set rs"
    | "vres_CandidateAddress q = fu_CandidateAddress v" "r \<notin> set rs"
    | "vres_CandidateAddress q \<noteq> fu_CandidateAddress v" "r = q"
    | "vres_CandidateAddress q \<noteq> fu_CandidateAddress v" "r \<in> set (add_vote v rs)"
    using Cons.prems(1) by (cases "vres_CandidateAddress q = fu_CandidateAddress v") auto
  then show ?case
  proof cases
    case 1
    then have "vres_CandidateAddress r \<in> vres_CandidateAddress ` set rs" by simp
    then have "vres_CandidateAddress r \<noteq> vres_CandidateAddress q" using Cons.prems(2) by auto
    with 1 show ?thesis by simp
  next
    case 2
    with Cons.prems(1) show ?thesis by simp
  next
    case 3
    then show ?thesis by simp
  next
    case 4
    have d: "distinct (map vres_CandidateAddress rs)" using Cons.prems(2) by simp
    from Cons.IH [OF 4(2) d] 4(1) show ?thesis by (cases "vres_CandidateAddress r = fu_CandidateAddress v") auto
  qed
qed simp

text \<open>Each result has the votes and the power of its candidate, and each candidate has one result.\<close>

lemma tally_exact:
  "distinct (map vres_CandidateAddress (fold add_vote votes []))"
  "set (map vres_CandidateAddress (fold add_vote votes [])) = set (map fu_CandidateAddress votes)"
  "r \<in> set (fold add_vote votes []) \<Longrightarrow>
     vres_PowerTotal r = (\<Sum>v\<leftarrow>filter (\<lambda>v. fu_CandidateAddress v = vres_CandidateAddress r) votes. fu_Power v) \<and>
     vres_VoteTotal r = (\<Sum>v\<leftarrow>filter (\<lambda>v. fu_CandidateAddress v = vres_CandidateAddress r) votes. fu_VoteSize v)"
proof (induction votes arbitrary: r rule: rev_induct)
  case Nil
  {
    case 1
    then show ?case by simp
  next
    case 2
    then show ?case by simp
  next
    case 3
    then show ?case by simp
  }
next
  case (snoc v votes)
  let ?rs = "fold add_vote votes []"
  {
    case 1
    then show ?case using add_vote_addresses(2) [OF snoc.IH(1)] by simp
  next
    case 2
    then show ?case using add_vote_addresses(1) [of v ?rs] snoc.IH(2) by simp
  next
    case 3
    then have "r \<in> set (add_vote v ?rs)" by simp
    note m = add_vote_member [OF this snoc.IH(1)]
    show ?case
    proof (cases "vres_CandidateAddress r = fu_CandidateAddress v")
      case False
      with m have "r \<in> set ?rs" by simp
      from snoc.IH(3) [OF this] False show ?thesis by simp
    next
      case True
      with m consider q where "q \<in> set ?rs" "vres_CandidateAddress q = vres_CandidateAddress r"
          "vres_PowerTotal r = vres_PowerTotal q + fu_Power v" "vres_VoteTotal r = vres_VoteTotal q + fu_VoteSize v"
        | "vres_CandidateAddress r \<notin> set (map vres_CandidateAddress ?rs)"
          "vres_PowerTotal r = fu_Power v" "vres_VoteTotal r = fu_VoteSize v"
        by auto
      then show ?thesis
      proof cases
        case (1 q)
        from snoc.IH(3) [OF 1(1)] 1 True show ?thesis by simp
      next
        case 2
        then have "filter (\<lambda>v. fu_CandidateAddress v = vres_CandidateAddress r) votes = []"
          unfolding snoc.IH(2) by (auto simp: filter_empty_conv) (metis imageI)
        with 2 True show ?thesis by simp
      qed
    qed
  }
qed

text \<open>
  What \<open>sort.Sort\<close> promises: a permutation, in order when the comparison is an order on the elements.
\<close>

definition weak_order :: "('a \<Rightarrow> 'a \<Rightarrow> bool) \<Rightarrow> 'a set \<Rightarrow> bool" where
  "weak_order lt A \<longleftrightarrow>
     (\<forall>a \<in> A. \<not> lt a a) \<and>
     (\<forall>a \<in> A. \<forall>b \<in> A. \<forall>c \<in> A. (lt a b \<and> lt b c \<longrightarrow> lt a c) \<and> (\<not> lt a b \<and> \<not> lt b c \<longrightarrow> \<not> lt a c))"

lemma weak_orderD:
  assumes "weak_order lt A"
  shows "a \<in> A \<Longrightarrow> b \<in> A \<Longrightarrow> lt a b \<Longrightarrow> \<not> lt b a"
    and "a \<in> A \<Longrightarrow> b \<in> A \<Longrightarrow> c \<in> A \<Longrightarrow> \<not> lt a b \<Longrightarrow> \<not> lt b c \<Longrightarrow> \<not> lt a c"
  using assms unfolding weak_order_def by metis+

definition sort_law :: "result_sort \<Rightarrow> bool" where
  "sort_law srt \<longleftrightarrow>
     (\<forall>lt xs. mset (srt lt xs) = mset xs \<and> (weak_order lt (set xs) \<longrightarrow> sorted_wrt (\<lambda>a b. \<not> lt b a) (srt lt xs)))"

lemma byPower_Less_small:
  assumes "uint (vres_PowerTotal a) < 2 ^ 63" and "uint (vres_PowerTotal b) < 2 ^ 63"
  shows "byPower_Less a b \<longleftrightarrow> vres_PowerTotal a < vres_PowerTotal b \<or>
    vres_PowerTotal a = vres_PowerTotal b \<and> vres_CandidateAddress a < vres_CandidateAddress b"
proof -
  have nn: "0 \<le> uint (vres_PowerTotal a)" "0 \<le> uint (vres_PowerTotal b)" by simp_all
  have "i64 (uint (vres_PowerTotal a) - uint (vres_PowerTotal b)) = uint (vres_PowerTotal a) - uint (vres_PowerTotal b)"
    by (rule i64_id) (use assms nn in linarith)+
  then show ?thesis
    by (auto simp: byPower_Less_def sint_small [OF assms(1)] sint_small [OF assms(2)] compare_addr_def word_less_def word_uint_eq_iff Let_def)
qed

lemma byPower_weak_order:
  assumes "\<forall>r \<in> A. uint (vres_PowerTotal r) < 2 ^ 63"
  shows "weak_order (\<lambda>a b. byPower_Less b a) A"
  unfolding weak_order_def using assms by (auto simp: byPower_Less_small)

lemma runElection_sorted:
  assumes "sort_law srt" and "\<forall>r \<in> set (fold add_vote votes []). uint (vres_PowerTotal r) < 2 ^ 63"
  shows "mset (runElection srt votes) = mset (fold add_vote votes [])"
    and "sorted_wrt (\<lambda>a b. vres_PowerTotal b \<le> vres_PowerTotal a) (runElection srt votes)"
proof -
  show m: "mset (runElection srt votes) = mset (fold add_vote votes [])"
    using assms(1) by (simp add: sort_law_def runElection_def)
  have "sorted_wrt (\<lambda>a b. \<not> byPower_Less a b) (runElection srt votes)"
    using assms(1) byPower_weak_order [OF assms(2)] by (simp add: sort_law_def runElection_def)
  then show "sorted_wrt (\<lambda>a b. vres_PowerTotal b \<le> vres_PowerTotal a) (runElection srt votes)"
    by (rule sorted_wrt_mono_rel [rotated])
      (use assms(2) mset_eq_setD [OF m] in \<open>auto simp: byPower_Less_small not_less\<close>)
qed

fun insert_by :: "('a \<Rightarrow> 'a \<Rightarrow> bool) \<Rightarrow> 'a \<Rightarrow> 'a list \<Rightarrow> 'a list" where
  "insert_by lt x [] = [x]"
| "insert_by lt x (y # ys) = (if lt y x then y # insert_by lt x ys else x # y # ys)"

lemma insert_by_mset: "mset (insert_by lt x ys) = mset (x # ys)"
  by (induction ys) auto

lemma insert_by_sorted:
  assumes "weak_order lt A" and "x \<in> A"
  shows "set ys \<subseteq> A \<Longrightarrow> sorted_wrt (\<lambda>a b. \<not> lt b a) ys \<Longrightarrow> sorted_wrt (\<lambda>a b. \<not> lt b a) (insert_by lt x ys)"
proof (induction ys)
  case (Cons y ys)
  have s: "set (insert_by lt x ys) = insert x (set ys)" using mset_eq_setD [OF insert_by_mset [of lt x ys]] by simp
  have y: "y \<in> A" using Cons.prems(1) by simp
  show ?case
  proof (cases "lt y x")
    case True
    then have "\<not> lt x y" using weak_orderD(1) [OF assms(1) y assms(2)] by blast
    with True Cons s show ?thesis by simp
  next
    case False
    have "\<not> lt z x" if "z \<in> set ys" for z
      by (rule weak_orderD(2) [OF assms(1) _ y assms(2) _ False]) (use that Cons.prems in auto)
    with False Cons show ?thesis by simp
  qed
qed simp

lemma insertion_sort_law: "sort_law (\<lambda>lt xs. foldr (insert_by lt) xs [])"
  unfolding sort_law_def
proof (intro allI conjI impI)
  fix lt :: "VoteResult \<Rightarrow> VoteResult \<Rightarrow> bool" and xs :: "VoteResult list"
  show m: "mset (foldr (insert_by lt) xs []) = mset xs" for xs
    by (induction xs) (simp_all add: insert_by_mset)
  assume w: "weak_order lt (set xs)"
  have "sorted_wrt (\<lambda>a b. \<not> lt b a) (foldr (insert_by lt) ys [])" if "set ys \<subseteq> set xs" for ys
    using that
  proof (induction ys)
    case (Cons y ys)
    have "set (foldr (insert_by lt) ys []) = set ys" by (rule mset_eq_setD [OF m])
    with Cons insert_by_sorted [OF w] show ?case by simp
  qed simp
  then show "sorted_wrt (\<lambda>a b. \<not> lt b a) (foldr (insert_by lt) xs [])" by simp
qed

section \<open>Elections\<close>

lemma map_res_length: "map_res f xs = Inr ys \<Longrightarrow> length ys = length xs"
  by (induction xs arbitrary: ys) (auto elim!: bind_resE)

lemma Elect_cases:
  assumes "V1_Elect E ctx s = Inr s'" and "v1_state s = Some st" and "full_votes (vs_Params st) s = Inr votes"
  shows "\<exists>n ws. n = min (length (runElection (ve_sort E) votes)) (nat (sint (vp_WitnessCount (vs_Params st)))) \<and>
    map_res (pick_witness (v1_candidates s)) (take n (runElection (ve_sort E) votes)) = Inr ws \<and> sortWitnesses ws \<noteq> [] \<and>
    v1_state s' = Some (st\<lparr>vs_Witnesses := sortWitnesses ws, vs_LastElectionTime := now_unix ctx\<rparr>)"
proof -
  let ?rs = "runElection (ve_sort E) votes"
  define wc where "wc = (if int (length ?rs) < sint (vp_WitnessCount (vs_Params st)) then int (length ?rs)
    else sint (vp_WitnessCount (vs_Params st)))"
  obtain ws where "\<not> wc < 0" and ws: "map_res (pick_witness (v1_candidates s)) (take (nat wc) ?rs) = Inr ws"
      "sortWitnesses ws \<noteq> []"
    and s': "v1_state s' = Some (st\<lparr>vs_Witnesses := sortWitnesses ws, vs_LastElectionTime := now_unix ctx\<rparr>)"
    using assms(1) unfolding V1_Elect_def V1_loadState_def assms(2) Let_def
    by (auto simp: assms(3) wc_def elim!: bind_resE split: if_splits)
  moreover have "nat wc = min (length ?rs) (nat (sint (vp_WitnessCount (vs_Params st))))"
    by (auto simp: wc_def)
  ultimately show ?thesis by metis
qed

section \<open>Properties\<close>

text \<open>C28: Nobody casts more votes than the allocation. In every run whose voters are on one chain, and with
  an allocation below \<open>2 ^ 63\<close>, what an account has left and what it has cast for all candidates,
  registered or not, add up to the allocation.
\<close>

theorem v1_vote_budget:
  assumes "v1_run E chain s" and "allocation s = Some alloc" and "uint alloc < 2 ^ 63" and "ChainID a = chain"
  shows "uint (vr_Balance (loadVoter s a alloc)) + (\<Sum>c \<in> dom (v1_votes s). cast_for s a c) = uint alloc"
  using v1_run_ok [OF assms(1)] assms(2-4) by (auto simp: votes_ok_def left_def)

definition demo_v1_env :: v1_env where
  "demo_v1_env = \<lparr>ve_pubkey_local = (\<lambda>k. k), ve_sort = (\<lambda>lt xs. foldr (insert_by lt) xs [])\<rparr>"

definition demo_v1_params :: V1Params where
  "demo_v1_params = \<lparr>vp_CoinContractAddress = Some (Address ''default'' [3]), vp_WitnessCount = 1, vp_ElectionCycleLength = 0,
     vp_MinPowerFraction = 0, vp_VoteAllocation = 10, vp_WitnessSalary = 0\<rparr>"

definition demo_v1_start :: v1_store where
  "demo_v1_start = \<lparr>v1_state = Some \<lparr>vs_Params = demo_v1_params, vs_Witnesses = [], vs_LastElectionTime = 0\<rparr>,
     v1_candidates = [], v1_voters = Map.empty, v1_votes = Map.empty, v1_coin = \<lparr>accounts = Map.empty, allowances = Map.empty, economy = Some 0\<rparr>\<rparr>"

definition demo_v1_registered :: v1_store where
  "demo_v1_registered = demo_v1_start\<lparr>v1_candidates := [\<lparr>vc_PubKey = [1], vc_Address = Address ''default'' [1]\<rparr>]\<rparr>"

definition demo_v1_voted :: v1_store where
  "demo_v1_voted = demo_v1_registered
     \<lparr>v1_voters := [Address ''default'' [2] \<mapsto> \<lparr>vr_Address = Address ''default'' [2], vr_Balance = 7\<rparr>],
      v1_votes := [Address ''default'' [1] \<mapsto>
        [\<lparr>vt_VoterAddress = Address ''default'' [2], vt_CandidateAddress = Address ''default'' [1], vt_Amount = 3\<rparr>]]\<rparr>"

lemmas demo_v1_defs = demo_v1_voted_def demo_v1_registered_def demo_v1_start_def demo_v1_params_def

lemma demo_v1_voted_eq:
  "V1_Vote (plain_ctx (Address ''default'' [2])) (Some (Address ''default'' [1])) 3 demo_v1_registered = Inr demo_v1_voted"
  by (simp add: V1_Vote_def V1_loadState_def demo_v1_defs loadVoter_def loadVoteSet_def V1_CandidateList_Get_def
      VoteList_Get_def i64_def Let_def saveVoter_def saveVoteSet_def sortVotes_def)

lemma demo_v1_run: "v1_run demo_v1_env ''default'' demo_v1_voted"
proof -
  let ?coin = "\<lparr>accounts = Map.empty, allowances = Map.empty, economy = Some 0\<rparr>"
  have "V1_Init (plain_ctx (Address ''default'' [1])) demo_v1_params []
      \<lparr>v1_state = None, v1_candidates = [], v1_voters = Map.empty, v1_votes = Map.empty, v1_coin = ?coin\<rparr> = Inr demo_v1_start"
    by (simp add: V1_Init_def demo_v1_params_def demo_v1_start_def sortWitnesses_def)
  from v1_start [OF this] have "v1_run demo_v1_env ''default'' demo_v1_start" .
  moreover have "V1_RegisterCandidate demo_v1_env (plain_ctx (Address ''default'' [1])) [1] demo_v1_start = Inr demo_v1_registered"
    by (simp add: V1_RegisterCandidate_def demo_v1_env_def demo_v1_start_def demo_v1_registered_def
        V1_saveCandidateList_def V1_sortCandidates_def V1_CandidateList_Set_def)
  ultimately have r: "v1_run demo_v1_env ''default'' demo_v1_registered" by (rule v1_register)
  show ?thesis by (rule v1_vote [OF r _ _ demo_v1_voted_eq]) simp_all
qed

theorem v1_vote_budget_witness:
  "uint (vr_Balance (loadVoter demo_v1_voted (Address ''default'' [2]) 10)) +
     (\<Sum>c \<in> dom (v1_votes demo_v1_voted). cast_for demo_v1_voted (Address ''default'' [2]) c) = 10 \<and>
   cast_for demo_v1_voted (Address ''default'' [2]) (Address ''default'' [1]) = 3"
proof -
  have "allocation demo_v1_voted = Some 10" by (simp add: allocation_def demo_v1_defs)
  from v1_vote_budget [OF demo_v1_run this, of "Address ''default'' [2]"] show ?thesis
    by (simp add: cast_for_def loadVoteSet_def votes_map_def demo_v1_defs)
qed

text \<open>An election makes witnesses of the strongest candidates: when it succeeds, the votes of the
  registered candidates are tallied exactly, one result per candidate with the sum of its votes and of
  their power, ranked by power, and the witnesses are the first \<open>WitnessCount\<close> of the ranking, at
  least one, with their totals and sorted by public key. It needs powers below \<open>2 ^ 63\<close>, because the
  comparison subtracts signed numbers, and a sort of the library that sorts.
\<close>

theorem v1_election_result:
  assumes "sort_law (ve_sort E)" and "V1_Elect E ctx s = Inr s'"
    and "v1_state s = Some st" and "full_votes (vs_Params st) s = Inr votes"
    and "\<forall>r \<in> set (fold add_vote votes []). uint (vres_PowerTotal r) < 2 ^ 63"
  shows "\<exists>ranking ws n.
    distinct (map vres_CandidateAddress ranking) \<and>
    set (map vres_CandidateAddress ranking) = set (map fu_CandidateAddress votes) \<and>
    (\<forall>r \<in> set ranking.
       vres_PowerTotal r = (\<Sum>v\<leftarrow>filter (\<lambda>v. fu_CandidateAddress v = vres_CandidateAddress r) votes. fu_Power v) \<and>
       vres_VoteTotal r = (\<Sum>v\<leftarrow>filter (\<lambda>v. fu_CandidateAddress v = vres_CandidateAddress r) votes. fu_VoteSize v)) \<and>
    sorted_wrt (\<lambda>a b. vres_PowerTotal b \<le> vres_PowerTotal a) ranking \<and>
    n = min (length ranking) (nat (sint (vp_WitnessCount (vs_Params st)))) \<and> 0 < n \<and>
    map_res (pick_witness (v1_candidates s)) (take n ranking) = Inr ws \<and> length ws = n \<and>
    v1_state s' = Some (st\<lparr>vs_Witnesses := sortWitnesses ws, vs_LastElectionTime := now_unix ctx\<rparr>)"
proof -
  let ?rs = "runElection (ve_sort E) votes"
  note rs = runElection_sorted [OF assms(1,5)]
  have addrs: "mset (map vres_CandidateAddress ?rs) = mset (map vres_CandidateAddress (fold add_vote votes []))"
    using rs(1) by simp
  have same: "set ?rs = set (fold add_vote votes [])" by (rule mset_eq_setD [OF rs(1)])
  obtain n ws where n: "n = min (length ?rs) (nat (sint (vp_WitnessCount (vs_Params st))))"
    and ws: "map_res (pick_witness (v1_candidates s)) (take n ?rs) = Inr ws" "sortWitnesses ws \<noteq> []"
    and s': "v1_state s' = Some (st\<lparr>vs_Witnesses := sortWitnesses ws, vs_LastElectionTime := now_unix ctx\<rparr>)"
    using Elect_cases [OF assms(2-4)] by blast
  have len: "length ws = n" using map_res_length [OF ws(1)] by (simp add: n)
  moreover have "0 < n" using ws(2) len by (auto simp: sortWitnesses_def)
  moreover have "distinct (map vres_CandidateAddress ?rs)"
    using tally_exact(1) [of votes] addrs by (metis mset_eq_imp_distinct_iff)
  moreover have "set (map vres_CandidateAddress ?rs) = set (map fu_CandidateAddress votes)"
    using tally_exact(2) [of votes] mset_eq_setD [OF addrs] by simp
  moreover have "\<forall>r \<in> set ?rs.
       vres_PowerTotal r = (\<Sum>v\<leftarrow>filter (\<lambda>v. fu_CandidateAddress v = vres_CandidateAddress r) votes. fu_Power v) \<and>
       vres_VoteTotal r = (\<Sum>v\<leftarrow>filter (\<lambda>v. fu_CandidateAddress v = vres_CandidateAddress r) votes. fu_VoteSize v)"
    unfolding same using tally_exact(3) by blast
  ultimately show ?thesis using rs(2) n ws(1) s' by blast
qed

theorem v1_election_result_witness:
  "\<exists>ranking ws n.
    sorted_wrt (\<lambda>a b. vres_PowerTotal b \<le> vres_PowerTotal a) (ranking :: VoteResult list) \<and>
    set (map vres_CandidateAddress ranking) = {Address ''default'' [1]} \<and> 0 < n \<and>
    map_res (pick_witness (v1_candidates demo_v1_voted)) (take n ranking) = Inr ws \<and> length ws = n"
proof -
  let ?votes = "[\<lparr>fu_CandidateAddress = Address ''default'' [1], fu_VoteSize = 3, fu_Power = 0\<rparr>]"
  let ?s = "demo_v1_voted" and ?ctx = "plain_ctx (Address ''default'' [2])"
  have fv: "full_votes demo_v1_params ?s = Inr ?votes"
    by (simp add: full_votes_def demo_v1_defs loadVoteSet_def loadVoter_def calcVotePower_def Coin_BalanceOf_def
        Coin_loadAccount_def balanceToPower_def sciNot_def)
  have sorts: "sort_law (ve_sort demo_v1_env)" by (simp add: demo_v1_env_def insertion_sort_law)
  have st: "v1_state ?s = Some \<lparr>vs_Params = demo_v1_params, vs_Witnesses = [], vs_LastElectionTime = 0\<rparr>"
    by (simp add: demo_v1_defs)
  have el: "V1_Elect demo_v1_env ?ctx ?s = Inr (?s\<lparr>v1_state := Some \<lparr>vs_Params = demo_v1_params,
      vs_Witnesses = [\<lparr>wi_PubKey = [1], wi_VoteTotal = 3, wi_PowerTotal = 0\<rparr>], vs_LastElectionTime = 0\<rparr>\<rparr>)"
    using fv by (simp add: V1_Elect_def V1_loadState_def st elapsed_def runElection_def demo_v1_env_def Coin_TotalSupply_def
        demo_v1_defs pick_witness_def V1_CandidateList_Get_def sortWitnesses_def pay_salaries_def i64_def Let_def)
  have fv': "full_votes (vs_Params \<lparr>vs_Params = demo_v1_params, vs_Witnesses = [], vs_LastElectionTime = 0\<rparr>) ?s = Inr ?votes"
    using fv by simp
  have small: "\<forall>r \<in> set (fold add_vote ?votes []). uint (vres_PowerTotal r) < 2 ^ 63" by simp
  have addr: "set (map fu_CandidateAddress ?votes) = {Address ''default'' [1]}" by simp
  from v1_election_result [OF sorts el st fv' small] show ?thesis unfolding addr by blast
qed

text \<open>
  The loop of \<open>CandidateList.Delete\<close> compares every candidate with itself: unregistering one candidate
  unregisters all. And a candidate that registers again keeps its first public key.
\<close>

lemma unregister_removes_all: "V1_UnregisterCandidate ctx s = Inr s' \<Longrightarrow> v1_candidates s' = []"
  by (auto simp: V1_UnregisterCandidate_def V1_saveCandidateList_def V1_CandidateList_Delete_def V1_sortCandidates_def
      Let_def split: option.splits)

lemma register_again_ignored:
  assumes "V1_CandidateList_Get (v1_candidates s) (sender ctx) = Some old"
    and "V1_RegisterCandidate E ctx pubKey s = Inr s'"
  shows "mset (v1_candidates s') = mset (v1_candidates s)"
proof -
  have "old \<in> set (v1_candidates s)" "Local (vc_Address old) = Local (sender ctx)"
    using assms(1) by (auto simp: V1_CandidateList_Get_def find_Some_iff)
  then have "V1_CandidateList_Set (v1_candidates s) \<lparr>vc_PubKey = pubKey, vc_Address = sender ctx\<rparr> = v1_candidates s"
    by (auto simp: V1_CandidateList_Set_def list_ex_iff intro: bexI [of _ old])
  with assms(2) show ?thesis
    by (auto simp: V1_RegisterCandidate_def V1_saveCandidateList_def V1_sortCandidates_def Let_def split: if_splits)
qed

end
