(* ===== verification/Dpos_V2.thy ===== *)
theory Dpos_V2
  imports Dpos_Election
begin

text \<open>
  The second staking contract, \<open>builtin/plugins/dposv2/\<close> (\<open>dpos.go\<close>, \<open>storage.go\<close>, \<open>util.go\<close>,
  \<open>erc20.go\<close>), and the validators manager for it (\<open>plugin/validators_manager.go\<close>): delegating, redelegating,
  unbonding, the whitelist, the life of a candidate, elections with rewards and slashing, the oracle's
  settings and the dump of the contract from which version 3 starts.

  All delegations, candidates, statistics and distributions are stored as one list each. A lookup
  gives a pointer into the list that was read, so that an assignment through it changes the first
  match (\<open>update_first\<close>). The state record has the fields of version 3 and is the record of
  \<open>Dpos_Storage\<close>. Two delegations of the same pair of addresses can exist, and \<open>sort.Sort\<close> does not say
  in which order it leaves them; so the sort of the delegations is an argument, like the addresses of
  public keys.
\<close>

section \<open>State\<close>

record V2Delegation =
  d2_Validator :: address
  d2_Delegator :: address
  d2_Amount :: int
  d2_UpdateAmount :: int
  d2_UpdateValidator :: "address option"
  d2_Height :: u64
  d2_LocktimeTier :: LocktimeTier
  d2_LockTime :: u64
  d2_State :: DelegationState

record V2Candidate =
  c2_PubKey :: bytes
  c2_Address :: address
  c2_Fee :: u64
  c2_NewFee :: u64
  c2_FeeDelayCounter :: u64
  c2_Name :: string
  c2_Description :: string
  c2_Website :: string

record V2Statistic =
  s2_Address :: address
  s2_PubKey :: slice
  s2_WhitelistAmount :: "int option"
  s2_WhitelistLocktime :: u64
  s2_DistributionTotal :: int
  s2_DelegationTotal :: int
  s2_SlashPercentage :: int

record V2Distribution =
  t2_Address :: address
  t2_Amount :: int

record dpos2_store =
  p2_state :: "DposState option"
  p2_candidates :: "V2Candidate list"
  p2_delegations :: "V2Delegation list"
  p2_statistics :: "V2Statistic list"
  p2_distributions :: "V2Distribution list"
  p2_tally :: RequestBatchTally
  p2_coin :: coin_store

record v2_env =
  e2_local :: "bytes \<Rightarrow> bytes"
  e2_localV2 :: "bytes \<Rightarrow> bytes"
  e2_sort :: "V2Delegation list \<Rightarrow> V2Delegation list"

section \<open>Arithmetic\<close>

definition V2_basisPoints :: int where "V2_basisPoints = 10000"
definition V2_billionth :: int where "V2_billionth = 1000000000"
definition V2_powerCorrection :: int where "V2_powerCorrection = 1000000000"

definition V2_TierMap :: "u64 \<Rightarrow> LocktimeTier option" where
  "V2_TierMap n = (if n = 0 then Some 0 else if n = 1 then Some 1 else if n = 2 then Some 2 else if n = 3 then Some 3 else None)"

text \<open>Looking up a key that a Go map lacks gives the zero value, here the first tier.\<close>

definition V2_tier :: "u64 \<Rightarrow> LocktimeTier" where
  "V2_tier n = (case V2_TierMap n of None \<Rightarrow> 0 | Some t \<Rightarrow> t)"

definition V2_TierLocktimeMap :: "LocktimeTier \<Rightarrow> u64" where
  "V2_TierLocktimeMap t =
     (if t = 0 then 1209600 else if t = 1 then 7884000 else if t = 2 then 15768000 else if t = 3 then 31536000 else 0)"

text \<open>The zero value of the bonus map has a nil integer inside, on which the arithmetic panics.\<close>

definition V2_TierBonusMap :: "LocktimeTier \<Rightarrow> int option" where
  "V2_TierBonusMap t =
     (if t = 0 then Some 10000 else if t = 1 then Some 15000 else if t = 2 then Some 20000 else if t = 3 then Some 40000 else None)"

definition V2_basisPointsToBillionths :: "int \<Rightarrow> int" where
  "V2_basisPointsToBillionths bps = 100000 * bps"

definition V2_CalculatePreciseFraction :: "int \<Rightarrow> int \<Rightarrow> bool \<Rightarrow> int" where
  "V2_CalculatePreciseFraction fr tot granular =
     (let denom = (if granular then V2_billionth else V2_basisPoints) in (tot * fr) div denom)"

definition V2_CalculateFraction :: "int \<Rightarrow> int \<Rightarrow> bool \<Rightarrow> int" where
  "V2_CalculateFraction fr tot granular =
     (let fr = (if granular then V2_basisPointsToBillionths fr else fr) in V2_CalculatePreciseFraction fr tot granular)"

definition V2_calculateShare :: "int \<Rightarrow> int \<Rightarrow> int \<Rightarrow> bool \<Rightarrow> int" where
  "V2_calculateShare delegation tot rewards granular =
     (let denom = (if granular then V2_billionth else V2_basisPoints);
          fr = (if tot \<noteq> 0 then (delegation * denom) div tot else 0)
      in V2_CalculatePreciseFraction fr rewards granular)"

definition V2_scientificNotation :: "int \<Rightarrow> nat \<Rightarrow> int" where
  "V2_scientificNotation m n = 10 ^ n * m"

definition V2_calculateTierLocktime :: "LocktimeTier \<Rightarrow> u64 \<Rightarrow> u64" where
  "V2_calculateTierLocktime tier electionCycleLength =
     (if tier = TIER_ZERO \<and> electionCycleLength < V2_TierLocktimeMap tier then electionCycleLength
      else V2_TierLocktimeMap tier)"

definition V2_calculateWeightedDelegationAmount :: "V2Delegation \<Rightarrow> bool \<Rightarrow> int res" where
  "V2_calculateWeightedDelegationAmount delegation granular =
     bind_res (deref (V2_TierBonusMap (d2_LocktimeTier delegation))) (\<lambda>bonusPercentage.
     Inr (V2_CalculateFraction bonusPercentage (d2_Amount delegation) granular))"

definition V2_calculateWeightedWhitelistAmount :: "V2Statistic \<Rightarrow> int res" where
  "V2_calculateWeightedWhitelistAmount statistic =
     (let tier = (case V2_TierMap (s2_WhitelistLocktime statistic) of None \<Rightarrow> TIER_ZERO | Some t \<Rightarrow> t) in
      bind_res (deref (V2_TierBonusMap tier)) (\<lambda>bonus.
      bind_res (deref (s2_WhitelistAmount statistic)) (\<lambda>amount. Inr (V2_CalculateFraction bonus amount True))))"

section \<open>Storage\<close>

definition V2_pair :: "address \<Rightarrow> address \<Rightarrow> V2Delegation \<Rightarrow> bool" where
  "V2_pair validator delegator d \<longleftrightarrow> Local (d2_Validator d) = Local validator \<and> Local (d2_Delegator d) = Local delegator"

definition V2_DelegationList_Get :: "V2Delegation list \<Rightarrow> address \<Rightarrow> address \<Rightarrow> V2Delegation option" where
  "V2_DelegationList_Get dl validator delegator = find (V2_pair validator delegator) dl"

definition V2_DelegationList_Set :: "V2Delegation list \<Rightarrow> V2Delegation \<Rightarrow> V2Delegation list" where
  "V2_DelegationList_Set dl delegation =
     (case V2_DelegationList_Get dl (d2_Validator delegation) (d2_Delegator delegation) of
        None \<Rightarrow> dl @ [delegation]
      | Some _ \<Rightarrow> update_first (V2_pair (d2_Validator delegation) (d2_Delegator delegation))
          (\<lambda>pastvalue. pastvalue\<lparr>d2_Amount := d2_Amount delegation, d2_UpdateAmount := d2_UpdateAmount delegation,
             d2_Height := d2_Height delegation, d2_LockTime := d2_LockTime delegation, d2_State := d2_State delegation\<rparr>) dl)"

definition V2_DelegationList_Set2 :: "V2Delegation list \<Rightarrow> V2Delegation \<Rightarrow> V2Delegation list" where
  "V2_DelegationList_Set2 dl delegation =
     (case V2_DelegationList_Get dl (d2_Validator delegation) (d2_Delegator delegation) of
        None \<Rightarrow> dl @ [delegation]
      | Some _ \<Rightarrow> update_first (V2_pair (d2_Validator delegation) (d2_Delegator delegation))
          (\<lambda>pastvalue. pastvalue\<lparr>d2_Amount := d2_Amount delegation, d2_UpdateAmount := d2_UpdateAmount delegation,
             d2_Height := d2_Height delegation, d2_LockTime := d2_LockTime delegation,
             d2_LocktimeTier := d2_LocktimeTier delegation, d2_State := d2_State delegation\<rparr>) dl)"

definition V2_saveDelegationList :: "v2_env \<Rightarrow> V2Delegation list \<Rightarrow> dpos2_store \<Rightarrow> dpos2_store" where
  "V2_saveDelegationList E dl s = s\<lparr>p2_delegations := e2_sort E dl\<rparr>"

definition V2_Statistic_is :: "address \<Rightarrow> V2Statistic \<Rightarrow> bool" where
  "V2_Statistic_is a st \<longleftrightarrow> Local (s2_Address st) = Local a"

definition V2_StatisticList_Get :: "V2Statistic list \<Rightarrow> address \<Rightarrow> V2Statistic option" where
  "V2_StatisticList_Get sl a = find (V2_Statistic_is a) sl"

text \<open>A nil public key is hashed like an empty one.\<close>

definition V2_StatisticList_GetV2 :: "v2_env \<Rightarrow> V2Statistic list \<Rightarrow> bytes \<Rightarrow> V2Statistic option" where
  "V2_StatisticList_GetV2 E sl a =
     find (\<lambda>st. e2_localV2 E (case s2_PubKey st of None \<Rightarrow> [] | Some k \<Rightarrow> k) = a) sl"

definition V2_sortStatistics :: "V2Statistic list \<Rightarrow> V2Statistic list" where
  "V2_sortStatistics = sort_key (\<lambda>st. Local (s2_Address st))"

definition V2_saveValidatorStatisticList :: "V2Statistic list \<Rightarrow> dpos2_store \<Rightarrow> dpos2_store" where
  "V2_saveValidatorStatisticList sl s = s\<lparr>p2_statistics := V2_sortStatistics sl\<rparr>"

definition V2_Distribution_is :: "address \<Rightarrow> V2Distribution \<Rightarrow> bool" where
  "V2_Distribution_is a t \<longleftrightarrow> Local (t2_Address t) = Local a"

definition V2_DistributionList_Get :: "V2Distribution list \<Rightarrow> address \<Rightarrow> V2Distribution option" where
  "V2_DistributionList_Get dl delegator = find (V2_Distribution_is delegator) dl"

definition V2_IncreaseDistribution :: "address \<Rightarrow> int \<Rightarrow> V2Distribution list \<Rightarrow> V2Distribution list" where
  "V2_IncreaseDistribution delegator increase dl =
     (case V2_DistributionList_Get dl delegator of
        None \<Rightarrow> dl @ [\<lparr>t2_Address = delegator, t2_Amount = increase\<rparr>]
      | Some _ \<Rightarrow> update_first (V2_Distribution_is delegator) (\<lambda>t. t\<lparr>t2_Amount := t2_Amount t + increase\<rparr>) dl)"

definition V2_ResetTotal :: "address \<Rightarrow> V2Distribution list \<Rightarrow> V2Distribution list res" where
  "V2_ResetTotal delegator dl =
     (case V2_DistributionList_Get dl delegator of
        None \<Rightarrow> Inl (Err ''Distribution record not found.'')
      | Some _ \<Rightarrow> Inr (update_first (V2_Distribution_is delegator) (\<lambda>t. t\<lparr>t2_Amount := 0\<rparr>) dl))"

definition V2_sortDistributions :: "V2Distribution list \<Rightarrow> V2Distribution list" where
  "V2_sortDistributions dl = rev (sort_key (\<lambda>t. (Local (t2_Address t), t2_Amount t)) dl)"

definition V2_saveDistributionList :: "V2Distribution list \<Rightarrow> dpos2_store \<Rightarrow> dpos2_store" where
  "V2_saveDistributionList dl s = s\<lparr>p2_distributions := V2_sortDistributions dl\<rparr>"

definition V2_Candidate_is :: "address \<Rightarrow> V2Candidate \<Rightarrow> bool" where
  "V2_Candidate_is a c \<longleftrightarrow> Local (c2_Address c) = Local a"

definition V2_CandidateList_Get :: "V2Candidate list \<Rightarrow> address \<Rightarrow> V2Candidate option" where
  "V2_CandidateList_Get cl a = find (V2_Candidate_is a) cl"

definition V2_CandidateList_GetByPubKey :: "V2Candidate list \<Rightarrow> bytes \<Rightarrow> V2Candidate option" where
  "V2_CandidateList_GetByPubKey cl pubkey = find (\<lambda>c. c2_PubKey c = pubkey) cl"

definition V2_CandidateList_Set :: "V2Candidate list \<Rightarrow> V2Candidate \<Rightarrow> V2Candidate list" where
  "V2_CandidateList_Set cl cand =
     (if list_ex (\<lambda>candidate. Local (c2_Address cand) = Local (c2_Address candidate)) cl then cl else cl @ [cand])"

definition V2_CandidateList_Delete :: "V2Candidate list \<Rightarrow> address \<Rightarrow> V2Candidate list" where
  "V2_CandidateList_Delete cl a = remove_first (V2_Candidate_is a) cl"

definition V2_sortCandidates :: "V2Candidate list \<Rightarrow> V2Candidate list" where
  "V2_sortCandidates = sort_key (\<lambda>c. Local (c2_Address c))"

definition V2_saveCandidateList :: "V2Candidate list \<Rightarrow> dpos2_store \<Rightarrow> dpos2_store" where
  "V2_saveCandidateList cl s = s\<lparr>p2_candidates := V2_sortCandidates cl\<rparr>"

definition V2_sortValidators :: "Validator list \<Rightarrow> Validator list" where
  "V2_sortValidators = sort_key va_PubKey"

definition V2_saveState :: "DposState \<Rightarrow> dpos2_store \<Rightarrow> dpos2_store" where
  "V2_saveState st s = s\<lparr>p2_state := Some (st\<lparr>ds_Validators := V2_sortValidators (ds_Validators st)\<rparr>)\<rparr>"

definition V2_loadState :: "dpos2_store \<Rightarrow> DposState res" where
  "V2_loadState s = (case p2_state s of None \<Rightarrow> Inl ErrNotFound | Some st \<Rightarrow> Inr st)"

text \<open>\<open>byDelegationTotal\<close>: largest total first, the larger address first among equals.\<close>

definition V2_sortResults :: "DelegationResult list \<Rightarrow> DelegationResult list" where
  "V2_sortResults rs = rev (sort_key (\<lambda>r. (dr_DelegationTotal r, dr_ValidatorAddress r)) rs)"

section \<open>The coin contract\<close>

definition V2_loadCoin :: "DposParams \<Rightarrow> address res" where
  "V2_loadCoin params = deref (pa_CoinContractAddress params)"

definition V2_Transfer :: "call_ctx \<Rightarrow> address \<Rightarrow> int \<Rightarrow> coin_store \<Rightarrow> coin_store res" where
  "V2_Transfer ctx to amount coin =
     Coin_Transfer (ctx\<lparr>sender := contract_address ctx\<rparr>) coin \<lparr>tr_to = to, tr_amount = Some amount\<rparr>"

definition V2_TransferFrom :: "call_ctx \<Rightarrow> address \<Rightarrow> address \<Rightarrow> int \<Rightarrow> dpos2_store \<Rightarrow> dpos2_store res" where
  "V2_TransferFrom ctx src dst amount s =
     bind_res (Coin_TransferFrom (ctx\<lparr>sender := contract_address ctx\<rparr>) (p2_coin s)
       \<lparr>tf_from = src, tf_to = dst, tf_amount = Some amount\<rparr>) (\<lambda>c. Inr (s\<lparr>p2_coin := c\<rparr>))"

definition V2_BalanceOf :: "address \<Rightarrow> coin_store \<Rightarrow> int res" where
  "V2_BalanceOf a coin = Coin_BalanceOf coin a"

section \<open>Initialisation and delegation\<close>

text \<open>Every method that writes refuses to work once version 3 is switched on.\<close>

definition V2_active :: "call_ctx \<Rightarrow> 'a res \<Rightarrow> 'a res" where
  "V2_active ctx m =
     (if feature_enabled ctx ''dpos:v3'' False then Inl (Err ''Contract disabled after migration to DPOSv3.'') else m)"

definition V2_Init :: "call_ctx \<Rightarrow> DposParams \<Rightarrow> Validator list \<Rightarrow> dpos2_store \<Rightarrow> dpos2_store res" where
  "V2_Init ctx params validators s = V2_active ctx (
     bind_res (case pa_CoinContractAddress params of Some a \<Rightarrow> Inr a | None \<Rightarrow> resolve ctx ''coin'') (\<lambda>coinAddr.
     let params = params
           \<lparr>pa_CoinContractAddress := Some coinAddr,
            pa_CrashSlashingPercentage := default_opt 100 (pa_CrashSlashingPercentage params),
            pa_ByzantineSlashingPercentage := default_opt 500 (pa_ByzantineSlashingPercentage params),
            pa_RegistrationRequirement := default_opt (V2_scientificNotation 1250000 18) (pa_RegistrationRequirement params),
            pa_MaxYearlyReward := default_opt (V2_scientificNotation 60000000 18) (pa_MaxYearlyReward params)\<rparr>
     in Inr (V2_saveState \<lparr>ds_Params = params, ds_Validators = validators, ds_LastElectionTime = 0,
          ds_TotalValidatorDelegations = 0, ds_TotalRewardDistribution = 0\<rparr> s)))"

record V2DelegateRequest =
  q2_ValidatorAddress :: "address option"
  q2_Amount :: "int option"
  q2_LocktimeTier :: u64

definition V2_v2_1 :: "call_ctx \<Rightarrow> bool" where
  "V2_v2_1 ctx = feature_enabled ctx ''dpos:v2.1'' False"

definition V2_tierTime :: "call_ctx \<Rightarrow> DposState \<Rightarrow> LocktimeTier \<Rightarrow> u64" where
  "V2_tierTime ctx state tier =
     (if \<not> V2_v2_1 ctx then V2_calculateTierLocktime tier (of_int (pa_ElectionCycleLength (ds_Params state)))
      else V2_TierLocktimeMap tier)"

text \<open>What \<open>Delegate\<close> and \<open>Delegate2\<close> have in common: the amount that is already bonded.\<close>

definition V2_prior_amount :: "V2Delegation option \<Rightarrow> int res" where
  "V2_prior_amount prior =
     (case prior of
        None \<Rightarrow> Inr 0
      | Some d \<Rightarrow> if d2_State d \<noteq> BONDED then Inl (Err ''Existing delegation not in BONDED state.'') else Inr (d2_Amount d))"

definition V2_Delegate :: "v2_env \<Rightarrow> call_ctx \<Rightarrow> V2DelegateRequest \<Rightarrow> dpos2_store \<Rightarrow> dpos2_store res" where
  "V2_Delegate E ctx req s = V2_active ctx (
     let delegator = sender ctx in
     bind_res (deref (q2_ValidatorAddress req)) (\<lambda>validator.
     if V2_CandidateList_Get (p2_candidates s) validator = None then Inl (Err ''Candidate record not found.'')
     else
       (case q2_Amount req of
          None \<Rightarrow> Inl (Err ''Must Delegate a positive number of tokens.'')
        | Some reqAmount \<Rightarrow>
            if \<not> reqAmount > 0 then Inl (Err ''Must Delegate a positive number of tokens.'')
            else
              bind_res (V2_loadState s) (\<lambda>state.
              bind_res (V2_loadCoin (ds_Params state)) (\<lambda>_.
              bind_res (V2_TransferFrom ctx delegator (contract_address ctx) reqAmount s) (\<lambda>s.
              let priorDelegation = V2_DelegationList_Get (p2_delegations s) validator delegator in
              bind_res (V2_prior_amount priorDelegation) (\<lambda>amount.
              if q2_LocktimeTier req > 3 then Inl (Err ''Invalid delegation tier'')
              else
                let locktimeTier = V2_tier (q2_LocktimeTier req);
                    now = unix_u64 ctx;
                    tierTime = (case priorDelegation of
                        None \<Rightarrow> V2_tierTime ctx state locktimeTier
                      | Some prior \<Rightarrow>
                          if locktimeTier \<ge> d2_LocktimeTier prior then V2_tierTime ctx state locktimeTier
                          else V2_tierTime ctx state (d2_LocktimeTier prior));
                    lockTime = now + tierTime
                in
                if lockTime < now then Inl (Err ''Overflow in set locktime!'')
                else Inr (V2_saveDelegationList E (V2_DelegationList_Set (p2_delegations s)
                  \<lparr>d2_Validator = validator, d2_Delegator = delegator, d2_Amount = amount, d2_UpdateAmount = reqAmount,
                   d2_UpdateValidator = None, d2_Height = of_int (block_height ctx), d2_LocktimeTier = locktimeTier,
                   d2_LockTime = lockTime, d2_State = BONDING\<rparr>) s))))))))"

definition V2_Delegate2 :: "v2_env \<Rightarrow> call_ctx \<Rightarrow> V2DelegateRequest \<Rightarrow> dpos2_store \<Rightarrow> dpos2_store res" where
  "V2_Delegate2 E ctx req s = V2_active ctx (
     let delegator = sender ctx in
     if V2_v2_1 ctx \<and> q2_ValidatorAddress req = None then Inl (Err ''Delegate2 called with req.ValidatorAddress == nil'')
     else
     bind_res (deref (q2_ValidatorAddress req)) (\<lambda>validator.
     if V2_v2_1 ctx \<and> ChainID validator \<noteq> block_chain_id ctx
     then Inl (Err ''Delegate2 called with invalid chainId for req.ValidatorAddress'')
     else if V2_CandidateList_Get (p2_candidates s) validator = None then Inl (Err ''Candidate record not found.'')
     else
       (case q2_Amount req of
          None \<Rightarrow> Inl (Err ''Must Delegate a positive number of tokens.'')
        | Some reqAmount \<Rightarrow>
            if \<not> reqAmount > 0 then Inl (Err ''Must Delegate a positive number of tokens.'')
            else
              bind_res (V2_loadState s) (\<lambda>state.
              bind_res (V2_loadCoin (ds_Params state)) (\<lambda>_.
              bind_res (V2_TransferFrom ctx delegator (contract_address ctx) reqAmount s) (\<lambda>s.
              let priorDelegation = V2_DelegationList_Get (p2_delegations s) validator delegator in
              bind_res (V2_prior_amount priorDelegation) (\<lambda>amount.
              if q2_LocktimeTier req > 3 then Inl (Err ''Invalid delegation tier'')
              else
                let locktimeTier = V2_tier (q2_LocktimeTier req);
                    locktimeTier = (case priorDelegation of
                        None \<Rightarrow> locktimeTier
                      | Some prior \<Rightarrow> if locktimeTier < d2_LocktimeTier prior then d2_LocktimeTier prior else locktimeTier);
                    now = unix_u64 ctx;
                    lockTime = now + V2_tierTime ctx state locktimeTier
                in
                if lockTime < now then Inl (Err ''Overflow in set locktime!'')
                else Inr (V2_saveDelegationList E (V2_DelegationList_Set2 (p2_delegations s)
                  \<lparr>d2_Validator = validator, d2_Delegator = delegator, d2_Amount = amount, d2_UpdateAmount = reqAmount,
                   d2_UpdateValidator = None, d2_Height = of_int (block_height ctx), d2_LocktimeTier = locktimeTier,
                   d2_LockTime = lockTime, d2_State = BONDING\<rparr>) s))))))))"

record V2RedelegateRequest =
  r2_FormerValidatorAddress :: "address option"
  r2_ValidatorAddress :: "address option"
  r2_Amount :: "int option"

definition V2_Redelegate :: "v2_env \<Rightarrow> call_ctx \<Rightarrow> V2RedelegateRequest \<Rightarrow> dpos2_store \<Rightarrow> dpos2_store res" where
  "V2_Redelegate E ctx req s = V2_active ctx (
     let delegator = sender ctx in
     bind_res (deref (r2_FormerValidatorAddress req)) (\<lambda>former.
     bind_res (deref (r2_ValidatorAddress req)) (\<lambda>validator.
     if Local former = Local validator then Inl (Err ''Redelegating self-delegations is not permitted.'')
     else if (case r2_Amount req of None \<Rightarrow> False | Some a \<Rightarrow> \<not> a > 0)
       then Inl (Err ''Must Redelegate a positive number of tokens.'')
     else if Local validator \<noteq> Local limboValidatorAddress \<and> V2_CandidateList_Get (p2_candidates s) validator = None
       then Inl (Err ''Candidate record not found.'')
     else
       (case V2_DelegationList_Get (p2_delegations s) former delegator of
          None \<Rightarrow> Inl (Err ''No delegation to redelegate.'')
        | Some prior \<Rightarrow>
            let whole = update_first (V2_pair former delegator)
                  (\<lambda>d. d\<lparr>d2_UpdateValidator := Some validator, d2_State := REDELEGATING\<rparr>) (p2_delegations s) in
            (case r2_Amount req of
               None \<Rightarrow> Inr (V2_saveDelegationList E whole s)
             | Some amount \<Rightarrow>
                 if d2_Amount prior = amount then Inr (V2_saveDelegationList E whole s)
                 else if d2_Amount prior < amount then Inl (Err ''Redelegation amount out of range.'')
                 else
                   let delegations = update_first (V2_pair former delegator)
                         (\<lambda>d. d\<lparr>d2_State := UNBONDING, d2_UpdateAmount := amount\<rparr>) (p2_delegations s)
                   in Inr (V2_saveDelegationList E (V2_DelegationList_Set delegations
                     \<lparr>d2_Validator = validator, d2_Delegator = d2_Delegator prior, d2_Amount = 0, d2_UpdateAmount = amount,
                      d2_UpdateValidator = None, d2_Height = of_int (block_height ctx),
                      d2_LocktimeTier = d2_LocktimeTier prior, d2_LockTime = d2_LockTime prior, d2_State = BONDING\<rparr>) s))))))"

record V2UnbondRequest =
  u2_ValidatorAddress :: "address option"
  u2_Amount :: "int option"

definition V2_Unbond :: "v2_env \<Rightarrow> call_ctx \<Rightarrow> V2UnbondRequest \<Rightarrow> dpos2_store \<Rightarrow> dpos2_store res" where
  "V2_Unbond E ctx req s = V2_active ctx (
     let delegator = sender ctx in
     bind_res (deref (u2_ValidatorAddress req)) (\<lambda>validator.
     case V2_DelegationList_Get (p2_delegations s) validator delegator of
       None \<Rightarrow> Inl (Err ''delegation not found'')
     | Some delegation \<Rightarrow>
         bind_res (deref (u2_Amount req)) (\<lambda>amount.
         if d2_Amount delegation < amount then Inl (Err ''Unbond amount exceeds delegation amount.'')
         else if d2_LockTime delegation > unix_u64 ctx then Inl (Err ''Delegation currently locked.'')
         else if d2_State delegation \<noteq> BONDED then Inl (Err ''Existing delegation not in BONDED state.'')
         else Inr (V2_saveDelegationList E (update_first (V2_pair validator delegator)
           (\<lambda>d. d\<lparr>d2_State := UNBONDING, d2_UpdateAmount := amount\<rparr>) (p2_delegations s)) s))))"

section \<open>The whitelist\<close>

definition V2_only_oracle :: "call_ctx \<Rightarrow> dpos2_store \<Rightarrow> DposState res" where
  "V2_only_oracle ctx s =
     bind_res (V2_loadState s) (\<lambda>state.
     case pa_OracleAddress (ds_Params state) of
       None \<Rightarrow> Inl (Err ''Function can only be called with oracle address.'')
     | Some oracle \<Rightarrow>
         if Local (sender ctx) \<noteq> Local oracle then Inl (Err ''Function can only be called with oracle address.'')
         else Inr state)"

record V2WhitelistRequest =
  w2_CandidateAddress :: "address option"
  w2_Amount :: "int option"
  w2_LockTime :: u64

definition V2_addCandidateToStatisticList :: "V2WhitelistRequest \<Rightarrow> dpos2_store \<Rightarrow> dpos2_store res" where
  "V2_addCandidateToStatisticList req s =
     bind_res (deref (w2_CandidateAddress req)) (\<lambda>candidate.
     case V2_StatisticList_Get (p2_statistics s) candidate of
       None \<Rightarrow> Inr (V2_saveValidatorStatisticList (p2_statistics s @
         [\<lparr>s2_Address = candidate, s2_PubKey = None, s2_WhitelistAmount = w2_Amount req, s2_WhitelistLocktime = w2_LockTime req,
           s2_DistributionTotal = 0, s2_DelegationTotal = 0, s2_SlashPercentage = 0\<rparr>]) s)
     | Some _ \<Rightarrow> Inl (Err ''Cannot whitelist an already whitelisted candidate.''))"

definition V2_WhitelistCandidate :: "call_ctx \<Rightarrow> V2WhitelistRequest \<Rightarrow> dpos2_store \<Rightarrow> dpos2_store res" where
  "V2_WhitelistCandidate ctx req s =
     V2_active ctx (bind_res (V2_only_oracle ctx s) (\<lambda>_. V2_addCandidateToStatisticList req s))"

text \<open>The three methods that change a whitelist entry through the pointer to it.\<close>

definition V2_change_whitelist ::
    "call_ctx \<Rightarrow> address option \<Rightarrow> (V2Statistic \<Rightarrow> V2Statistic) \<Rightarrow> dpos2_store \<Rightarrow> dpos2_store res" where
  "V2_change_whitelist ctx candidateAddress f s = V2_active ctx (
     bind_res (V2_only_oracle ctx s) (\<lambda>_.
     bind_res (deref candidateAddress) (\<lambda>candidate.
     case V2_StatisticList_Get (p2_statistics s) candidate of
       None \<Rightarrow> Inl (Err ''Candidate is not whitelisted.'')
     | Some _ \<Rightarrow> Inr (V2_saveValidatorStatisticList (update_first (V2_Statistic_is candidate) f (p2_statistics s)) s))))"

definition V2_RemoveWhitelistedCandidate :: "call_ctx \<Rightarrow> address option \<Rightarrow> dpos2_store \<Rightarrow> dpos2_store res" where
  "V2_RemoveWhitelistedCandidate ctx candidate s =
     V2_change_whitelist ctx candidate (\<lambda>st. st\<lparr>s2_WhitelistLocktime := 0, s2_WhitelistAmount := Some 0\<rparr>) s"

definition V2_ChangeWhitelistAmount :: "call_ctx \<Rightarrow> address option \<Rightarrow> int option \<Rightarrow> dpos2_store \<Rightarrow> dpos2_store res" where
  "V2_ChangeWhitelistAmount ctx candidate amount s =
     V2_change_whitelist ctx candidate (\<lambda>st. st\<lparr>s2_WhitelistAmount := amount\<rparr>) s"

definition V2_ChangeWhitelistLockTimeTier :: "call_ctx \<Rightarrow> address option \<Rightarrow> u64 \<Rightarrow> dpos2_store \<Rightarrow> dpos2_store res" where
  "V2_ChangeWhitelistLockTimeTier ctx candidate tier s =
     V2_change_whitelist ctx candidate (\<lambda>st. st\<lparr>s2_WhitelistLocktime := tier\<rparr>) s"

section \<open>Slashing\<close>

definition V2_slash :: "v2_env \<Rightarrow> dpos2_store \<Rightarrow> bytes \<Rightarrow> int \<Rightarrow> dpos2_store res" where
  "V2_slash E s validatorAddr slashPercentage =
     (case V2_StatisticList_GetV2 E (p2_statistics s) validatorAddr of
        None \<Rightarrow> Inl (Err ''Cannot slash default validator.'')
      | Some stat \<Rightarrow>
          if slashPercentage < s2_SlashPercentage stat then Inr s
          else Inr (V2_saveValidatorStatisticList
            (update_first (\<lambda>st. e2_localV2 E (case s2_PubKey st of None \<Rightarrow> [] | Some k \<Rightarrow> k) = validatorAddr)
              (\<lambda>st. st\<lparr>s2_SlashPercentage := s2_SlashPercentage st + slashPercentage\<rparr>) (p2_statistics s)) s))"

definition V2_SlashInactivity :: "v2_env \<Rightarrow> bytes \<Rightarrow> dpos2_store \<Rightarrow> dpos2_store res" where
  "V2_SlashInactivity E validatorAddr s =
     bind_res (V2_loadState s) (\<lambda>state.
     bind_res (deref (pa_CrashSlashingPercentage (ds_Params state))) (V2_slash E s validatorAddr))"

definition V2_SlashDoubleSign :: "v2_env \<Rightarrow> bytes \<Rightarrow> dpos2_store \<Rightarrow> dpos2_store res" where
  "V2_SlashDoubleSign E validatorAddr s =
     bind_res (V2_loadState s) (\<lambda>state.
     bind_res (deref (pa_ByzantineSlashingPercentage (ds_Params state))) (V2_slash E s validatorAddr))"

text \<open>Both the delegations and the statistic are changed in place; the statistic may be a nil pointer.\<close>

definition V2_slashValidatorDelegations ::
    "V2Delegation list \<Rightarrow> V2Statistic option \<Rightarrow> address \<Rightarrow> bool \<Rightarrow> (V2Delegation list \<times> V2Statistic) res" where
  "V2_slashValidatorDelegations delegations statistic validatorAddress v2_1 =
     bind_res (deref statistic) (\<lambda>st.
     let delegations = map (\<lambda>d.
           if Local (d2_Validator d) = Local validatorAddress
           then d\<lparr>d2_Amount := d2_Amount d - V2_CalculateFraction (s2_SlashPercentage st) (d2_Amount d) v2_1\<rparr> else d) delegations
     in
     bind_res (deref (s2_WhitelistAmount st)) (\<lambda>whitelist.
     let st = (if whitelist \<noteq> 0
               then st\<lparr>s2_WhitelistAmount := Some (whitelist - V2_CalculateFraction (s2_SlashPercentage st) whitelist v2_1)\<rparr>
               else st)
     in Inr (delegations, st\<lparr>s2_SlashPercentage := 0\<rparr>)))"

section \<open>Candidates\<close>

record V2RegisterRequest =
  g2_PubKey :: bytes
  g2_Fee :: u64
  g2_Name :: string
  g2_Description :: string
  g2_Website :: string
  g2_LocktimeTier :: u64

text \<open>The self-delegation of a candidate that is not whitelisted.\<close>

definition V2_registration_deposit ::
    "v2_env \<Rightarrow> call_ctx \<Rightarrow> V2RegisterRequest \<Rightarrow> DposState \<Rightarrow> int \<Rightarrow> dpos2_store \<Rightarrow> dpos2_store res" where
  "V2_registration_deposit E ctx req state requirement s =
     bind_res (V2_loadCoin (ds_Params state)) (\<lambda>_.
     bind_res (V2_TransferFrom ctx (sender ctx) (contract_address ctx) requirement s) (\<lambda>s.
     if g2_LocktimeTier req > 3 then Inl (Err ''Invalid locktime tier'')
     else
       let locktimeTier = V2_tier (g2_LocktimeTier req);
           lockTime = unix_u64 ctx + V2_tierTime ctx state locktimeTier
       in Inr (V2_saveDelegationList E (V2_DelegationList_Set (p2_delegations s)
            \<lparr>d2_Validator = sender ctx, d2_Delegator = sender ctx, d2_Amount = 0, d2_UpdateAmount = requirement,
             d2_UpdateValidator = None, d2_Height = of_int (block_height ctx), d2_LocktimeTier = locktimeTier,
             d2_LockTime = lockTime, d2_State = BONDING\<rparr>) s)))"

text \<open>
  The left operand of the condition on the deposit: a nil statistic short-circuits it, a nil amount
  panics.
\<close>

definition V2_not_whitelisted :: "V2Statistic option \<Rightarrow> bool res" where
  "V2_not_whitelisted statistic =
     (case statistic of
        None \<Rightarrow> Inr True
      | Some st \<Rightarrow> bind_res (deref (s2_WhitelistAmount st)) (\<lambda>amount. Inr (amount = 0)))"

text \<open>The two registration methods differ in the new fee of the candidate only.\<close>

definition V2_register ::
    "v2_env \<Rightarrow> call_ctx \<Rightarrow> V2RegisterRequest \<Rightarrow> u64 \<Rightarrow> dpos2_store \<Rightarrow> dpos2_store res" where
  "V2_register E ctx req newFee s = V2_active ctx (
     let candidateAddress = sender ctx; candidates = p2_candidates s in
     if Local candidateAddress \<noteq> e2_local E (g2_PubKey req) then Inl (Err ''Public key does not match address.'')
     else if V2_CandidateList_Get candidates candidateAddress \<noteq> None then Inl (Err ''Candidate record not found.'')
     else
       bind_res (V2_loadState s) (\<lambda>state.
       bind_res (V2_not_whitelisted (V2_StatisticList_Get (p2_statistics s) candidateAddress)) (\<lambda>nw.
       bind_res
         (if nw then
            bind_res (deref (pa_RegistrationRequirement (ds_Params state))) (\<lambda>requirement.
            if requirement > 0 then V2_registration_deposit E ctx req state requirement s else Inr s)
          else Inr s) (\<lambda>s.
       Inr (V2_saveCandidateList (V2_CandidateList_Set candidates
         \<lparr>c2_PubKey = g2_PubKey req, c2_Address = candidateAddress, c2_Fee = g2_Fee req, c2_NewFee = newFee,
          c2_FeeDelayCounter = 0, c2_Name = g2_Name req, c2_Description = g2_Description req, c2_Website = g2_Website req\<rparr>) s)))))"

definition V2_RegisterCandidate2 :: "v2_env \<Rightarrow> call_ctx \<Rightarrow> V2RegisterRequest \<Rightarrow> dpos2_store \<Rightarrow> dpos2_store res" where
  "V2_RegisterCandidate2 E ctx req s = V2_register E ctx req (g2_Fee req) s"

definition V2_RegisterCandidate :: "v2_env \<Rightarrow> call_ctx \<Rightarrow> V2RegisterRequest \<Rightarrow> dpos2_store \<Rightarrow> dpos2_store res" where
  "V2_RegisterCandidate E ctx req s = V2_register E ctx req 0 s"

definition V2_ChangeFee :: "call_ctx \<Rightarrow> u64 \<Rightarrow> dpos2_store \<Rightarrow> dpos2_store res" where
  "V2_ChangeFee ctx fee s = V2_active ctx (
     if V2_CandidateList_Get (p2_candidates s) (sender ctx) = None then Inl (Err ''Candidate record not found.'')
     else Inr (V2_saveCandidateList (update_first (V2_Candidate_is (sender ctx))
       (\<lambda>c. c\<lparr>c2_NewFee := fee, c2_FeeDelayCounter := 0\<rparr>) (p2_candidates s)) s))"

definition V2_UpdateCandidateInfo :: "call_ctx \<Rightarrow> string \<Rightarrow> string \<Rightarrow> string \<Rightarrow> dpos2_store \<Rightarrow> dpos2_store res" where
  "V2_UpdateCandidateInfo ctx name description website s = V2_active ctx (
     if V2_CandidateList_Get (p2_candidates s) (sender ctx) = None then Inl (Err ''Candidate record not found.'')
     else Inr (V2_saveCandidateList (update_first (V2_Candidate_is (sender ctx))
       (\<lambda>c. c\<lparr>c2_Name := name, c2_Description := description, c2_Website := website\<rparr>) (p2_candidates s)) s))"

text \<open>
  The slashed delegations are stored only together with the self-delegation that is put up for
  unbonding; the slashed statistic is not stored.
\<close>

definition V2_UnregisterCandidate :: "v2_env \<Rightarrow> call_ctx \<Rightarrow> dpos2_store \<Rightarrow> dpos2_store res" where
  "V2_UnregisterCandidate E ctx s = V2_active ctx (
     let candidateAddress = sender ctx in
     if V2_CandidateList_Get (p2_candidates s) candidateAddress = None then Inl (Err ''Candidate record not found.'')
     else
       bind_res (V2_slashValidatorDelegations (p2_delegations s)
         (V2_StatisticList_Get (p2_statistics s) candidateAddress) candidateAddress (V2_v2_1 ctx)) (\<lambda>(delegations, _).
       bind_res
         (case V2_DelegationList_Get delegations candidateAddress candidateAddress of
            None \<Rightarrow> Inr s
          | Some delegation \<Rightarrow>
              if d2_LockTime delegation > unix_u64 ctx then Inl (Err ''Validator's self-delegation currently locked.'')
              else if d2_State delegation \<noteq> BONDED then Inl (Err ''Existing delegation not in BONDED state.'')
              else Inr (V2_saveDelegationList E (update_first (V2_pair candidateAddress candidateAddress)
                (\<lambda>d. d\<lparr>d2_State := UNBONDING, d2_UpdateAmount := d2_Amount d\<rparr>) delegations) s)) (\<lambda>s.
       Inr (V2_saveCandidateList (V2_CandidateList_Delete (p2_candidates s) candidateAddress) s))))"

section \<open>Rewards\<close>

definition V2_rewardValidator :: "V2Statistic \<Rightarrow> DposParams \<Rightarrow> int \<Rightarrow> bool \<Rightarrow> V2Statistic res" where
  "V2_rewardValidator statistic params totalValidatorDelegations v2_1 =
     (let cycleSeconds = pa_ElectionCycleLength params;
          reward = V2_CalculateFraction 500 (s2_DelegationTotal statistic) v2_1;
          yearlyRewardTotal = V2_CalculateFraction 500 totalValidatorDelegations v2_1
      in
      bind_res (deref (pa_MaxYearlyReward params)) (\<lambda>maxYearlyReward.
      bind_res
        (if yearlyRewardTotal > maxYearlyReward then
           (if yearlyRewardTotal = 0 then Inl (Panic ''division by zero'')
            else Inr (reward * maxYearlyReward div yearlyRewardTotal))
         else Inr reward) (\<lambda>reward.
      let cycleSeconds = (if cycleSeconds = 0 then 2 else cycleSeconds);
          reward = reward * cycleSeconds div (60 * 60 * 24 * 365)
      in Inr (statistic\<lparr>s2_DistributionTotal := s2_DistributionTotal statistic + reward\<rparr>))))"

record v2_rewards =
  w2_state :: DposState
  w2_statistics :: "V2Statistic list"
  w2_delegations :: "V2Delegation list"
  w2_distributions :: "V2Distribution list"
  w2_former :: "address \<rightharpoonup> int"
  w2_rewards :: "address \<rightharpoonup> int"

text \<open>A validator that was not slashed: its own share, the share of its delegators and of its whitelist amount.\<close>

definition V2_reward_one :: "bool \<Rightarrow> V2Candidate \<Rightarrow> V2Statistic \<Rightarrow> v2_rewards \<Rightarrow> (V2Statistic \<times> v2_rewards) res" where
  "V2_reward_one v2_1 candidate statistic r =
     (let state = w2_state r; validatorKey = c2_Address candidate in
      bind_res (V2_rewardValidator statistic (ds_Params state) (ds_TotalValidatorDelegations state) v2_1) (\<lambda>statistic.
      let validatorShare = V2_CalculateFraction (sint (c2_Fee candidate)) (s2_DistributionTotal statistic) v2_1;
          distributions = V2_IncreaseDistribution validatorKey validatorShare (w2_distributions r);
          delegatorsShare = s2_DistributionTotal statistic - validatorShare
      in
      bind_res (deref (s2_WhitelistAmount statistic)) (\<lambda>whitelist.
      bind_res
        (if whitelist \<noteq> 0 then
           bind_res (if v2_1 then V2_calculateWeightedWhitelistAmount statistic else Inr whitelist) (\<lambda>amount.
           Inr (V2_IncreaseDistribution validatorKey
             (V2_calculateShare amount (s2_DelegationTotal statistic) delegatorsShare v2_1) distributions))
         else Inr distributions) (\<lambda>distributions.
      Inr (statistic, r\<lparr>w2_distributions := distributions, w2_rewards := (w2_rewards r)(validatorKey \<mapsto> delegatorsShare)\<rparr>)))))"

definition V2_reward_or_slash :: "bool \<Rightarrow> V2Candidate list \<Rightarrow> Validator \<Rightarrow> v2_rewards \<Rightarrow> v2_rewards res" where
  "V2_reward_or_slash v2_1 candidates validator r =
     (case V2_CandidateList_GetByPubKey candidates (va_PubKey validator) of
        None \<Rightarrow> Inr r
      | Some candidate \<Rightarrow>
          let validatorKey = c2_Address candidate in
          (case V2_StatisticList_Get (w2_statistics r) validatorKey of
             None \<Rightarrow> Inr (r\<lparr>w2_rewards := (w2_rewards r)(validatorKey \<mapsto> 0), w2_former := (w2_former r)(validatorKey \<mapsto> 0)\<rparr>)
           | Some statistic \<Rightarrow>
               bind_res
                 (if s2_SlashPercentage statistic = 0 then V2_reward_one v2_1 candidate statistic r
                  else
                    bind_res (V2_slashValidatorDelegations (w2_delegations r) (Some statistic) validatorKey v2_1)
                      (\<lambda>(delegations, statistic). Inr (statistic, r\<lparr>w2_delegations := delegations\<rparr>))) (\<lambda>(statistic, r).
               let state = w2_state r in
               Inr (r\<lparr>w2_state := state\<lparr>ds_TotalRewardDistribution := ds_TotalRewardDistribution state + s2_DistributionTotal statistic\<rparr>,
                      w2_statistics := update_first (V2_Statistic_is validatorKey)
                        (\<lambda>_. statistic\<lparr>s2_DistributionTotal := 0\<rparr>) (w2_statistics r),
                      w2_former := (w2_former r)(validatorKey \<mapsto> s2_DelegationTotal statistic)\<rparr>))))"

definition V2_rewardAndSlash ::
    "bool \<Rightarrow> DposState \<Rightarrow> V2Candidate list \<Rightarrow> dpos2_store \<Rightarrow> v2_rewards res" where
  "V2_rewardAndSlash v2_1 state candidates s =
     fold_res (V2_reward_or_slash v2_1 candidates) (ds_Validators state)
       \<lparr>w2_state = state, w2_statistics = p2_statistics s, w2_delegations = p2_delegations s,
        w2_distributions = p2_distributions s, w2_former = Map.empty, w2_rewards = Map.empty\<rparr>"

section \<open>Distribution\<close>

record v2_books =
  b2_done :: "V2Delegation list"
  b2_distributions :: "V2Distribution list"
  b2_totals :: "(address \<times> int) list"
  b2_coin :: coin_store

definition V2_whitelist_total :: "bool \<Rightarrow> V2Statistic \<Rightarrow> (address \<times> int) list \<Rightarrow> (address \<times> int) list res" where
  "V2_whitelist_total v2_1 statistic totals =
     (case s2_WhitelistAmount statistic of
        None \<Rightarrow> Inr totals
      | Some whitelist \<Rightarrow>
          if whitelist \<noteq> 0 then
            bind_res (if v2_1 then V2_calculateWeightedWhitelistAmount statistic else Inr whitelist) (\<lambda>amount.
            Inr (AList.update (s2_Address statistic) amount totals))
          else Inr totals)"

definition V2_pay_delegator ::
    "bool \<Rightarrow> (address \<rightharpoonup> int) \<Rightarrow> (address \<rightharpoonup> int) \<Rightarrow> V2Delegation \<Rightarrow> V2Distribution list \<Rightarrow> V2Distribution list res" where
  "V2_pay_delegator v2_1 former rewards delegation distributions =
     (if Local (d2_Validator delegation) \<noteq> Local limboValidatorAddress then
        (case rewards (d2_Validator delegation) of
           None \<Rightarrow> Inr distributions
         | Some rewardsTotal \<Rightarrow>
             let delegationTotal = (case former (d2_Validator delegation) of None \<Rightarrow> 0 | Some t \<Rightarrow> t) in
             bind_res (V2_calculateWeightedDelegationAmount delegation v2_1) (\<lambda>weightedDelegation.
             Inr (V2_IncreaseDistribution (d2_Delegator delegation)
               (V2_calculateShare weightedDelegation delegationTotal rewardsTotal v2_1) distributions)))
      else Inr distributions)"

definition V2_apply_pending :: "call_ctx \<Rightarrow> DposParams \<Rightarrow> V2Delegation \<Rightarrow> coin_store \<Rightarrow> (V2Delegation \<times> coin_store) res" where
  "V2_apply_pending ctx params delegation coin =
     (case d2_State delegation of
        BONDING \<Rightarrow> Inr (delegation\<lparr>d2_Amount := d2_Amount delegation + d2_UpdateAmount delegation\<rparr>, coin)
      | UNBONDING \<Rightarrow>
          bind_res (V2_loadCoin params) (\<lambda>_.
          bind_res (V2_Transfer ctx (d2_Delegator delegation) (d2_UpdateAmount delegation) coin) (\<lambda>coin.
          Inr (delegation\<lparr>d2_Amount := d2_Amount delegation - d2_UpdateAmount delegation\<rparr>, coin)))
      | REDELEGATING \<Rightarrow>
          bind_res (deref (d2_UpdateValidator delegation)) (\<lambda>validator. Inr (delegation\<lparr>d2_Validator := validator\<rparr>, coin))
      | BONDED \<Rightarrow> Inr (delegation, coin))"

definition V2_add_total :: "bool \<Rightarrow> V2Delegation \<Rightarrow> (address \<times> int) list \<Rightarrow> (address \<times> int) list res" where
  "V2_add_total v2_1 delegation totals =
     (if Local (d2_Validator delegation) \<noteq> Local limboValidatorAddress then
        bind_res (V2_calculateWeightedDelegationAmount delegation v2_1) (\<lambda>weightedDelegation.
        Inr (AList.update (d2_Validator delegation)
          (case map_of totals (d2_Validator delegation) of None \<Rightarrow> weightedDelegation | Some t \<Rightarrow> weightedDelegation + t) totals))
      else Inr totals)"

definition V2_distribute_one ::
    "call_ctx \<Rightarrow> DposParams \<Rightarrow> (address \<rightharpoonup> int) \<Rightarrow> (address \<rightharpoonup> int) \<Rightarrow> V2Delegation \<Rightarrow> v2_books \<Rightarrow> v2_books res" where
  "V2_distribute_one ctx params former rewards delegation b =
     (let v2_1 = V2_v2_1 ctx in
      bind_res (V2_pay_delegator v2_1 former rewards delegation (b2_distributions b)) (\<lambda>distributions.
      bind_res (V2_apply_pending ctx params delegation (b2_coin b)) (\<lambda>(delegation, coin).
      let delegation = delegation\<lparr>d2_UpdateAmount := 0, d2_State := BONDED\<rparr> in
      bind_res (V2_add_total v2_1 delegation (b2_totals b)) (\<lambda>totals.
      Inr \<lparr>b2_done = b2_done b @ [delegation], b2_distributions = distributions, b2_totals = totals, b2_coin = coin\<rparr>))))"

definition V2_distributeDelegatorRewards ::
    "call_ctx \<Rightarrow> v2_rewards \<Rightarrow> coin_store \<Rightarrow> v2_books res" where
  "V2_distributeDelegatorRewards ctx r coin =
     bind_res (fold_res (V2_whitelist_total (V2_v2_1 ctx)) (w2_statistics r) []) (\<lambda>totals.
     fold_res (V2_distribute_one ctx (ds_Params (w2_state r)) (w2_former r) (w2_rewards r)) (w2_delegations r)
       \<lparr>b2_done = [], b2_distributions = w2_distributions r, b2_totals = totals, b2_coin = coin\<rparr>)"

section \<open>Elections\<close>

definition V2_update_fee :: "V2Candidate \<Rightarrow> V2Candidate" where
  "V2_update_fee c =
     (if c2_Fee c \<noteq> c2_NewFee c then
        let c = c\<lparr>c2_FeeDelayCounter := c2_FeeDelayCounter c + 1\<rparr> in
        if c2_FeeDelayCounter c = 2 then c\<lparr>c2_Fee := c2_NewFee c\<rparr> else c
      else c)"

definition V2_elect_one ::
    "V2Candidate list \<Rightarrow> DelegationResult \<Rightarrow> Validator list \<times> int \<times> V2Statistic list \<Rightarrow> Validator list \<times> int \<times> V2Statistic list" where
  "V2_elect_one candidates res st =
     (case st of (validators, tot, statistics) \<Rightarrow>
      case V2_CandidateList_Get candidates (dr_ValidatorAddress res) of
        None \<Rightarrow> (validators, tot, statistics)
      | Some candidate \<Rightarrow>
          let validatorPower = i64 (dr_DelegationTotal res div V2_powerCorrection);
              statistics =
                (case V2_StatisticList_Get statistics (c2_Address candidate) of
                   None \<Rightarrow> statistics @
                     [\<lparr>s2_Address = dr_ValidatorAddress res, s2_PubKey = Some (c2_PubKey candidate), s2_WhitelistAmount = Some 0,
                       s2_WhitelistLocktime = 0, s2_DistributionTotal = 0, s2_DelegationTotal = dr_DelegationTotal res,
                       s2_SlashPercentage = 0\<rparr>]
                 | Some _ \<Rightarrow> update_first (V2_Statistic_is (c2_Address candidate))
                     (\<lambda>stat. stat\<lparr>s2_DelegationTotal := dr_DelegationTotal res, s2_PubKey := Some (c2_PubKey candidate)\<rparr>) statistics)
          in (validators @ [\<lparr>va_PubKey = c2_PubKey candidate, va_Power = validatorPower\<rparr>],
              tot + dr_DelegationTotal res, statistics))"

text \<open>The last part: the new validators from the totals.\<close>

definition V2_conclude ::
    "v2_env \<Rightarrow> call_ctx \<Rightarrow> V2Candidate list \<Rightarrow> v2_rewards \<Rightarrow> v2_books \<Rightarrow> dpos2_store \<Rightarrow> dpos2_store res" where
  "V2_conclude E ctx candidates r b s =
     (let s = V2_saveDistributionList (b2_distributions b) (V2_saveDelegationList E (b2_done b) (s\<lparr>p2_coin := b2_coin b\<rparr>));
          delegationResults = V2_sortResults
            (map (\<lambda>(v, t). \<lparr>dr_ValidatorAddress = v, dr_DelegationTotal = t\<rparr>) (b2_totals b));
          state = w2_state r;
          validatorCount = sint (pa_ValidatorCount (ds_Params state));
          validatorCount = (if int (length delegationResults) < validatorCount
                            then int (length delegationResults) else validatorCount)
      in
      if validatorCount < 0 then Inl (Panic ''slice bounds out of range'')
      else
        (case fold (V2_elect_one candidates) (take (nat validatorCount) delegationResults) ([], 0, w2_statistics r) of
           (validators, totalValidatorDelegations, statistics) \<Rightarrow>
             Inr (V2_saveState (state\<lparr>ds_Validators := validators, ds_LastElectionTime := now_unix ctx,
                 ds_TotalValidatorDelegations := totalValidatorDelegations\<rparr>)
               (V2_saveValidatorStatisticList statistics s))))"

definition V2_Elect :: "v2_env \<Rightarrow> call_ctx \<Rightarrow> dpos2_store \<Rightarrow> dpos2_store res" where
  "V2_Elect E ctx s =
     bind_res (V2_loadState s) (\<lambda>state.
     if pa_ElectionCycleLength (ds_Params state) > i64 (now_unix ctx - ds_LastElectionTime state) then Inr s
     else if p2_candidates s = [] then Inr s
     else
       let s = V2_saveCandidateList (map V2_update_fee (p2_candidates s)) s;
           candidates = p2_candidates s
       in
       if p2_delegations s = [] \<and> p2_statistics s = [] then Inr s
       else
         bind_res (V2_rewardAndSlash (V2_v2_1 ctx) state candidates s) (\<lambda>r.
         bind_res (V2_distributeDelegatorRewards ctx r (p2_coin s)) (\<lambda>b.
         V2_conclude E ctx candidates r b s)))"

definition V2_ValidatorList :: "dpos2_store \<Rightarrow> Validator list res" where
  "V2_ValidatorList s = bind_res (V2_loadState s) (\<lambda>state. Inr (ds_Validators state))"

definition V2_ClaimDistribution :: "call_ctx \<Rightarrow> address option \<Rightarrow> dpos2_store \<Rightarrow> (dpos2_store \<times> int) res" where
  "V2_ClaimDistribution ctx withdrawalAddress s = V2_active ctx (
     let delegator = sender ctx in
     case V2_DistributionList_Get (p2_distributions s) delegator of
       None \<Rightarrow> Inl (Err ''distribution not found'')
     | Some distribution \<Rightarrow>
         bind_res (V2_loadState s) (\<lambda>state.
         bind_res (V2_loadCoin (ds_Params state)) (\<lambda>_.
         bind_res (deref withdrawalAddress) (\<lambda>withdrawal.
         bind_res (V2_Transfer ctx withdrawal (t2_Amount distribution) (p2_coin s)) (\<lambda>coin.
         bind_res (V2_ResetTotal delegator (p2_distributions s)) (\<lambda>distributions.
         Inr (V2_saveDistributionList distributions (s\<lparr>p2_coin := coin\<rparr>), t2_Amount distribution)))))))"

section \<open>Oracle methods\<close>

definition V2_isRequestAlreadySeen :: "BatchRequestMeta \<Rightarrow> RequestBatchTally \<Rightarrow> bool" where
  "V2_isRequestAlreadySeen meta currentTally =
     (if bm_BlockNumber meta \<noteq> LastSeenBlockNumber currentTally
      then bm_BlockNumber meta \<le> LastSeenBlockNumber currentTally
      else if bm_TxIndex meta \<noteq> LastSeenTxIndex currentTally
      then bm_TxIndex meta \<le> LastSeenTxIndex currentTally
      else if bm_LogIndex meta \<noteq> LastSeenLogIndex currentTally
      then bm_LogIndex meta \<le> LastSeenLogIndex currentTally
      else True)"

datatype V2Payload = V2BatchWhitelist V2WhitelistRequest | V2BatchUnsupported

record V2BatchRequest =
  y2_Meta :: "BatchRequestMeta option"
  y2_Payload :: V2Payload

text \<open>
  As in version 3 the loop carries the last value of \<open>err\<close>: an unsupported request sets it and goes
  on, a request that is processed resets it, a request that fails leaves the loop.
\<close>

fun V2_batch_loop ::
    "V2BatchRequest list \<Rightarrow> dpos2_store \<times> RequestBatchTally \<times> go_error option \<Rightarrow>
     (dpos2_store \<times> RequestBatchTally \<times> go_error option) res" where
  "V2_batch_loop [] st = Inr st"
| "V2_batch_loop (request # requests) (s, tally, err) =
     (case y2_Payload request of
        V2BatchWhitelist req \<Rightarrow>
          bind_res (deref (y2_Meta request)) (\<lambda>meta.
          if V2_isRequestAlreadySeen meta tally then V2_batch_loop requests (s, tally, err)
          else
            (case V2_addCandidateToStatisticList req s of
               Inl (Panic p) \<Rightarrow> Inl (Panic p)
             | Inl e \<Rightarrow> Inr (s, tally, Some e)
             | Inr s' \<Rightarrow> V2_batch_loop requests (s', tally_of meta, None)))
      | V2BatchUnsupported \<Rightarrow>
          V2_batch_loop requests (s, tally, Some (Err ''unsupported type of request in request batch'')))"

definition V2_ProcessRequestBatch :: "call_ctx \<Rightarrow> V2BatchRequest list \<Rightarrow> dpos2_store \<Rightarrow> dpos2_store res" where
  "V2_ProcessRequestBatch ctx batch s = V2_active ctx (
     bind_res (V2_loadState s) (\<lambda>state.
     if (case pa_OracleAddress (ds_Params state) of None \<Rightarrow> True | Some oracle \<Rightarrow> Local (sender ctx) \<noteq> Local oracle)
     then Inl (Err ''only oracle is authorized to call ProcessRequestBatch'')
     else if batch = [] then Inl (Err ''invalid Request, no batch request found'')
     else
       bind_res (deref (y2_Meta (last batch))) (\<lambda>lastMeta.
       if V2_isRequestAlreadySeen lastMeta (p2_tally s)
       then Inl (Err ''invalid Request, all events has been already seen'')
       else
         bind_res (V2_batch_loop batch (s, p2_tally s, None)) (\<lambda>(s, tally, err).
         if err \<noteq> None then Inl (Err ''unable to consume one or more request'')
         else Inr (s\<lparr>p2_tally := tally\<rparr>)))))"

definition V2_set_params :: "(DposParams \<Rightarrow> DposParams) \<Rightarrow> call_ctx \<Rightarrow> dpos2_store \<Rightarrow> dpos2_store res" where
  "V2_set_params f ctx s = V2_active ctx (
     bind_res (V2_only_oracle ctx s) (\<lambda>state. Inr (V2_saveState (state\<lparr>ds_Params := f (ds_Params state)\<rparr>) s)))"

definition V2_SetElectionCycle :: "call_ctx \<Rightarrow> int \<Rightarrow> dpos2_store \<Rightarrow> dpos2_store res" where
  "V2_SetElectionCycle ctx electionCycle s = V2_set_params (\<lambda>p. p\<lparr>pa_ElectionCycleLength := electionCycle\<rparr>) ctx s"

definition V2_SetMaxYearlyReward :: "call_ctx \<Rightarrow> int option \<Rightarrow> dpos2_store \<Rightarrow> dpos2_store res" where
  "V2_SetMaxYearlyReward ctx maxYearlyReward s = V2_set_params (\<lambda>p. p\<lparr>pa_MaxYearlyReward := maxYearlyReward\<rparr>) ctx s"

definition V2_SetRegistrationRequirement :: "call_ctx \<Rightarrow> int option \<Rightarrow> dpos2_store \<Rightarrow> dpos2_store res" where
  "V2_SetRegistrationRequirement ctx requirement s = V2_set_params (\<lambda>p. p\<lparr>pa_RegistrationRequirement := requirement\<rparr>) ctx s"

text \<open>The count of the request is not used.\<close>

definition V2_SetValidatorCount :: "call_ctx \<Rightarrow> int \<Rightarrow> dpos2_store \<Rightarrow> dpos2_store res" where
  "V2_SetValidatorCount ctx validatorCount s = V2_set_params (\<lambda>p. p) ctx s"

definition V2_SetOracleAddress :: "call_ctx \<Rightarrow> address option \<Rightarrow> dpos2_store \<Rightarrow> dpos2_store res" where
  "V2_SetOracleAddress ctx oracleAddress s = V2_set_params (\<lambda>p. p\<lparr>pa_OracleAddress := oracleAddress\<rparr>) ctx s"

definition V2_SetSlashingPercentages :: "call_ctx \<Rightarrow> int option \<Rightarrow> int option \<Rightarrow> dpos2_store \<Rightarrow> dpos2_store res" where
  "V2_SetSlashingPercentages ctx crash byzantine s =
     V2_set_params (\<lambda>p. p\<lparr>pa_CrashSlashingPercentage := crash, pa_ByzantineSlashingPercentage := byzantine\<rparr>) ctx s"

section \<open>Views\<close>

definition V2_CheckDelegation ::
    "dpos2_store \<Rightarrow> address option \<Rightarrow> address option \<Rightarrow> (address \<times> address \<times> int + V2Delegation) res" where
  "V2_CheckDelegation s validator delegator =
     (case (validator, delegator) of
        (None, _) \<Rightarrow> Inl (Err ''CheckDelegation called with req.ValidatorAddress == nil'')
      | (_, None) \<Rightarrow> Inl (Err ''CheckDelegation called with req.DelegatorAddress == nil'')
      | (Some v, Some w) \<Rightarrow>
          (case V2_DelegationList_Get (p2_delegations s) v w of
             None \<Rightarrow> Inr (Inl (v, w, 0))
           | Some delegation \<Rightarrow> Inr (Inr delegation)))"

definition V2_delegations_of :: "call_ctx \<Rightarrow> dpos2_store \<Rightarrow> address \<Rightarrow> (int \<times> int \<times> V2Delegation list) res" where
  "V2_delegations_of ctx s delegator =
     fold_res (\<lambda>delegation (tot, weighted, ds).
       if Local (d2_Delegator delegation) = Local delegator then
         bind_res (V2_calculateWeightedDelegationAmount delegation (V2_v2_1 ctx)) (\<lambda>w.
         Inr (tot + d2_Amount delegation, weighted + w, ds @ [delegation]))
       else Inr (tot, weighted, ds)) (p2_delegations s) (0, 0, [])"

definition V2_TotalDelegation :: "call_ctx \<Rightarrow> dpos2_store \<Rightarrow> address option \<Rightarrow> (int \<times> int) res" where
  "V2_TotalDelegation ctx s delegator =
     (case delegator of
        None \<Rightarrow> Inl (Err ''TotalDelegation called with req.DelegatorAddress == nil'')
      | Some w \<Rightarrow> bind_res (V2_delegations_of ctx s w) (\<lambda>(tot, weighted, _). Inr (tot, weighted)))"

definition V2_CheckAllDelegations :: "call_ctx \<Rightarrow> dpos2_store \<Rightarrow> address option \<Rightarrow> (int \<times> int \<times> V2Delegation list) res" where
  "V2_CheckAllDelegations ctx s delegator =
     (case delegator of
        None \<Rightarrow> Inl (Err ''CheckAllDelegations called with req.DelegatorAddress == nil'')
      | Some w \<Rightarrow> V2_delegations_of ctx s w)"

definition V2_ListCandidates :: "dpos2_store \<Rightarrow> V2Candidate list" where
  "V2_ListCandidates s = p2_candidates s"

definition V2_TimeUntilElection :: "call_ctx \<Rightarrow> dpos2_store \<Rightarrow> int res" where
  "V2_TimeUntilElection ctx s =
     bind_res (V2_loadState s) (\<lambda>state.
     Inr (i64 (pa_ElectionCycleLength (ds_Params state) - i64 (now_unix ctx - ds_LastElectionTime state))))"

text \<open>\<open>Inr\<close> is a stored statistic, \<open>Inl\<close> the key and address of a validator without one.\<close>

definition V2_ListValidators ::
    "v2_env \<Rightarrow> call_ctx \<Rightarrow> dpos2_store \<Rightarrow> (bytes \<times> address + V2Statistic) list res" where
  "V2_ListValidators E ctx s =
     bind_res (V2_ValidatorList s) (\<lambda>validators.
     Inr (map (\<lambda>validator.
       let addr = Address (block_chain_id ctx) (e2_local E (va_PubKey validator)) in
       case V2_StatisticList_Get (p2_statistics s) addr of
         None \<Rightarrow> Inl (va_PubKey validator, addr)
       | Some stat \<Rightarrow> Inr stat) validators))"

definition V2_ListValidatorsSimple :: "v2_env \<Rightarrow> call_ctx \<Rightarrow> dpos2_store \<Rightarrow> (bytes \<times> address) list res" where
  "V2_ListValidatorsSimple E ctx s =
     bind_res (V2_ValidatorList s) (\<lambda>validators.
     Inr (map (\<lambda>validator. (va_PubKey validator, Address (block_chain_id ctx) (e2_local E (va_PubKey validator)))) validators))"

definition V2_ListDelegations :: "dpos2_store \<Rightarrow> address option \<Rightarrow> (V2Delegation list \<times> int) res" where
  "V2_ListDelegations s candidate =
     (case candidate of
        None \<Rightarrow> Inl (Err ''ListDelegations called with req.Candidate == nil'')
      | Some c \<Rightarrow>
          let delegations = filter (\<lambda>d. Local (d2_Validator d) = Local c) (p2_delegations s)
          in Inr (delegations, foldl (\<lambda>tot d. tot + d2_Amount d) 0 delegations))"

definition V2_ListAllDelegations :: "dpos2_store \<Rightarrow> (V2Delegation list \<times> int) list res" where
  "V2_ListAllDelegations s =
     fold_res (\<lambda>candidate responses.
       bind_res (V2_ListDelegations s (Some (c2_Address candidate))) (\<lambda>response. Inr (responses @ [response])))
       (p2_candidates s) []"

definition V2_CheckRewards :: "dpos2_store \<Rightarrow> int res" where
  "V2_CheckRewards s = bind_res (V2_loadState s) (\<lambda>state. Inr (ds_TotalRewardDistribution state))"

definition V2_CheckDistribution :: "dpos2_store \<Rightarrow> address option \<Rightarrow> int res" where
  "V2_CheckDistribution s addr =
     (case addr of
        None \<Rightarrow> Inl (Err ''Must provide a valid address'')
      | Some a \<Rightarrow>
          (case V2_DistributionList_Get (p2_distributions s) a of
             None \<Rightarrow> Inl (Err ''Distribution record not found.'')
           | Some distribution \<Rightarrow> Inr (t2_Amount distribution)))"

definition V2_GetState :: "dpos2_store \<Rightarrow> DposState res" where
  "V2_GetState s = V2_loadState s"

definition V2_GetDistributions :: "dpos2_store \<Rightarrow> V2Distribution list" where
  "V2_GetDistributions s = p2_distributions s"

definition V2_GetRequestBatchTally :: "dpos2_store \<Rightarrow> RequestBatchTally" where
  "V2_GetRequestBatchTally s = p2_tally s"

section \<open>The validators manager\<close>

text \<open>The calls that would slash are commented out in the code.\<close>

definition BeginBlockV2 :: "(bytes \<times> bool) list \<Rightarrow> (bytes \<times> int) list \<Rightarrow> int \<Rightarrow> dpos2_store \<Rightarrow> dpos2_store res" where
  "BeginBlockV2 votes evidence currentHeight s =
     fold_res (\<lambda>(validator, height) s. if height > i64 (currentHeight - 100) then Inr s else Inr s) evidence
       (fold (\<lambda>(validator, signedLastBlock) s. if \<not> signedLastBlock then s else s) votes s)"

definition EndBlockV2 :: "v2_env \<Rightarrow> call_ctx \<Rightarrow> dpos2_store \<Rightarrow> (dpos2_store \<times> (bytes \<times> int) list) res" where
  "EndBlockV2 E ctx s =
     bind_res (V2_ValidatorList s) (\<lambda>oldValidatorList.
     bind_res (V2_Elect E ctx s) (\<lambda>s.
     bind_res (V2_ValidatorList s) (\<lambda>validatorList.
     let removedValidators = MissingValidators oldValidatorList validatorList
     in Inr (s, map (\<lambda>v. (va_PubKey v, 0)) removedValidators @
                map (\<lambda>v. (va_PubKey v, va_Power v)) validatorList))))"

section \<open>Migration to version 3\<close>

definition plasmaValidators :: "bytes list" where
  "plasmaValidators =
     [[0x0e, 0x99, 0xfc, 0x16, 0xe3, 0x2e, 0x56, 0x89, 0x71, 0x90, 0x8f, 0x2c, 0xe5, 0x4b, 0x96, 0x7a, 0x42, 0x66, 0x3a, 0x26],
      [0xac, 0x32, 0x11, 0xca, 0xec, 0xc4, 0x59, 0x40, 0xa6, 0xd2, 0xba, 0x00, 0x6c, 0xa4, 0x65, 0xa6, 0x47, 0xd8, 0x46, 0x4f],
      [0x69, 0xc4, 0x87, 0x68, 0xdb, 0xac, 0x49, 0x29, 0x08, 0x16, 0x1b, 0xe7, 0x87, 0xb7, 0xa5, 0x65, 0x81, 0x92, 0xdf, 0x35],
      [0x2a, 0x3a, 0x7c, 0x85, 0x05, 0x86, 0xd4, 0xf8, 0x0a, 0x12, 0xac, 0x19, 0x52, 0xf8, 0x8b, 0x1b, 0x69, 0xef, 0x48, 0xe1],
      [0x4a, 0x1b, 0x8b, 0x15, 0xe5, 0x0c, 0xe6, 0x3c, 0xc6, 0xf6, 0x56, 0x03, 0xea, 0x79, 0xbe, 0x09, 0x20, 0x6c, 0xae, 0x70],
      [0x0c, 0xe7, 0xb6, 0x1c, 0x97, 0xa6, 0xd5, 0x08, 0x33, 0x56, 0xf1, 0x15, 0x28, 0x8f, 0x92, 0x66, 0x55, 0x3e, 0x19, 0x1e]]"

definition doubledDelegator :: bytes where
  "doubledDelegator =
     [0xdc, 0x93, 0xe4, 0x6f, 0x6d, 0x22, 0xd4, 0x7d, 0xe9, 0xd7, 0xe6, 0xd2, 0x6c, 0xe8, 0xc3, 0xb7, 0xa1, 0x3d, 0x89, 0xcb]"

definition doubledValidator :: bytes where
  "doubledValidator =
     [0xa3, 0x8c, 0x27, 0xe8, 0xcf, 0x4a, 0x44, 0x3e, 0x80, 0x50, 0x65, 0x06, 0x5a, 0xef, 0xb2, 0x50, 0xb1, 0xe1, 0xce, 0xf2]"

definition adjustValidatorIfInPlasmaValidators :: "V2Delegation \<Rightarrow> address" where
  "adjustValidatorIfInPlasmaValidators delegation =
     (if Local (d2_Validator delegation) \<in> set plasmaValidators then Address ''default'' (hd plasmaValidators)
      else d2_Validator delegation)"

definition adjustDoubledDelegationAmount :: "V2Delegation \<Rightarrow> int" where
  "adjustDoubledDelegationAmount delegation =
     (if doubledValidator = Local (d2_Validator delegation) \<and> doubledDelegator = Local (d2_Delegator delegation)
      then d2_Amount delegation div 2 else d2_Amount delegation)"

definition dump_candidate :: "V2Candidate \<Rightarrow> Candidate" where
  "dump_candidate candidate =
     \<lparr>cd_PubKey = c2_PubKey candidate, cd_Address = c2_Address candidate, cd_Fee = c2_Fee candidate,
      cd_NewFee = c2_NewFee candidate, cd_Name = c2_Name candidate, cd_Description = c2_Description candidate,
      cd_Website = c2_Website candidate, cd_State = REGISTERED, cd_MaxReferralPercentage = 0\<rparr>"

definition dump_statistic :: "V2Statistic \<Rightarrow> ValidatorStatistic" where
  "dump_statistic statistic =
     \<lparr>st_Address = s2_Address statistic, st_PubKey = s2_PubKey statistic, st_WhitelistAmount = s2_WhitelistAmount statistic,
      st_LocktimeTier = 0, st_DelegationTotal = s2_DelegationTotal statistic, st_SlashPercentage = s2_SlashPercentage statistic\<rparr>"

definition dump_distribution :: "V2Distribution \<Rightarrow> Delegation" where
  "dump_distribution distribution =
     \<lparr>dl_Validator = limboValidatorAddress, dl_Delegator = t2_Address distribution, dl_Index = REWARD_DELEGATION_INDEX,
      dl_Amount = t2_Amount distribution, dl_UpdateAmount = 0, dl_UpdateValidator = None, dl_LocktimeTier = 0,
      dl_LockTime = 0, dl_State = BONDED, dl_Referrer = ''''\<rparr>"

definition dump_delegation :: "u64 \<Rightarrow> V2Delegation \<Rightarrow> Delegation" where
  "dump_delegation n delegation =
     \<lparr>dl_Validator = adjustValidatorIfInPlasmaValidators delegation, dl_Delegator = d2_Delegator delegation,
      dl_Index = DELEGATION_START_INDEX + n, dl_Amount = adjustDoubledDelegationAmount delegation,
      dl_UpdateAmount = d2_UpdateAmount delegation, dl_UpdateValidator = None,
      dl_LocktimeTier = TierMap (scast (d2_LocktimeTier delegation)), dl_LockTime = d2_LockTime delegation,
      dl_State = BONDED, dl_Referrer = ''''\<rparr>"

text \<open>
  The key of the count is the printed local addresses one after the other; they have a fixed length,
  so that the pair says the same.
\<close>

fun dump_delegations :: "V2Delegation list \<Rightarrow> (bytes \<times> bytes \<Rightarrow> u64) \<Rightarrow> Delegation list" where
  "dump_delegations [] indices = []"
| "dump_delegations (delegation # delegations) indices =
     (let delegationKey = (Local (d2_Validator delegation), Local (d2_Delegator delegation)) in
      dump_delegation (indices delegationKey) delegation #
      dump_delegations delegations (indices(delegationKey := indices delegationKey + 1)))"

definition Dump :: "call_ctx \<Rightarrow> address \<Rightarrow> dpos2_store \<Rightarrow> (InitializationState \<times> dpos2_store) res" where
  "Dump ctx dposv3Address s = V2_active ctx (
     bind_res (V2_only_oracle ctx s) (\<lambda>state.
     let initializationState =
           \<lparr>is_State = state, is_Candidates = map dump_candidate (p2_candidates s),
            is_Delegations = map dump_distribution (p2_distributions s) @ dump_delegations (p2_delegations s) (\<lambda>_. 0),
            is_Statistics = map dump_statistic (p2_statistics s)\<rparr>
     in
     bind_res (V2_loadCoin (ds_Params state)) (\<lambda>_.
     bind_res (V2_BalanceOf (contract_address ctx) (p2_coin s)) (\<lambda>balance.
     bind_res (V2_Transfer ctx dposv3Address balance (p2_coin s)) (\<lambda>coin.
     Inr (initializationState, s\<lparr>p2_coin := coin\<rparr>))))))"

text \<open>
  The migration deploys version 3 at an address and in a store that are the result of the
  deployment, dumps version 2, fills version 3 and switches over. Both contracts call the same coin
  contract.
\<close>

definition DPOSv3Migration ::
    "call_ctx \<Rightarrow> address \<Rightarrow> dpos_store \<Rightarrow> dpos2_store \<Rightarrow> (string \<Rightarrow> bool) \<Rightarrow> (dpos_store \<times> dpos2_store \<times> (string \<Rightarrow> bool)) res" where
  "DPOSv3Migration ctx dposv3Addr deployed s features =
     bind_res (Dump ctx dposv3Addr s) (\<lambda>(initializationState, s).
     Inr (DPOS_Initialize initializationState (deployed\<lparr>dp_coin := p2_coin s\<rparr>), s, features(''dpos:v3'' := True)))"

end
