(* ===== verification/Dpos_V2_Books.thy ===== *)
theory Dpos_V2_Books
  imports Dpos_V2
begin

text \<open>
  The books of the second staking contract: what it owes its delegators and what it has. Runs of the
  contract (\<open>v2_run\<close>) carry two totals the contract does not keep, the rewards it has paid out and the
  amounts of partial redelegations; with them its balance covers every stake. The migration to version 3
  stores one delegation for each of version 2, unless two of them fall on the same key, and counts what
  was bonded; what was waiting to be bonded it does not count.
\<close>

section \<open>Stakes\<close>

definition owed2 :: "V2Delegation \<Rightarrow> int" where
  "owed2 d = d2_Amount d + (if d2_State d = BONDING then d2_UpdateAmount d else 0)"

definition stakes :: "V2Delegation list \<Rightarrow> int" where
  "stakes dl = (\<Sum>d\<leftarrow>dl. owed2 d)"

definition del_ok :: "V2Delegation \<Rightarrow> bool" where
  "del_ok d \<longleftrightarrow> 0 \<le> d2_Amount d \<and> 0 \<le> d2_UpdateAmount d \<and> (d2_State d = UNBONDING \<longrightarrow> d2_UpdateAmount d \<le> d2_Amount d)"

text \<open>What the contract relies on of \<open>sort.Sort\<close>.\<close>

definition sort_perm :: "v2_env \<Rightarrow> bool" where
  "sort_perm E \<longleftrightarrow> (\<forall>dl. mset (e2_sort E dl) = mset dl)"

lemma stakes_simps [simp]: "stakes [] = 0" "stakes (d # dl) = owed2 d + stakes dl" "stakes (xs @ ys) = stakes xs + stakes ys"
  by (simp_all add: stakes_def)

lemma owed2_nonneg: "del_ok d \<Longrightarrow> 0 \<le> owed2 d"
  by (simp add: del_ok_def owed2_def)

lemma sort_perm_facts:
  assumes "sort_perm E"
  shows "stakes (e2_sort E dl) = stakes dl" and "set (e2_sort E dl) = set dl"
proof -
  have m: "mset (e2_sort E dl) = mset dl" using assms by (simp add: sort_perm_def)
  have "sum_mset (mset (map owed2 (e2_sort E dl))) = sum_mset (mset (map owed2 dl))" unfolding mset_map m ..
  then show "stakes (e2_sort E dl) = stakes dl" unfolding stakes_def sum_mset_sum_list .
  show "set (e2_sort E dl) = set dl" by (rule mset_eq_setD [OF m])
qed

lemma stakes_update_first:
  "find P dl = Some x \<Longrightarrow> stakes (update_first P f dl) = stakes dl - owed2 x + owed2 (f x)"
  by (induction dl) (auto split: if_splits)

lemma set_update_first: "set (update_first P f xs) \<subseteq> set xs \<union> f ` {x \<in> set xs. P x}"
  by (induction xs) auto

lemma update_first_all:
  assumes "\<forall>x \<in> set xs. Q x" and "\<And>x. x \<in> set xs \<Longrightarrow> P x \<Longrightarrow> Q x \<Longrightarrow> Q (f x)"
  shows "\<forall>x \<in> set (update_first P f xs). Q x"
  using set_update_first [of P f xs] assms by blast

text \<open>The first match is the one the function is applied to.\<close>

lemma update_first_found:
  assumes "find P xs = Some y" and "\<forall>x \<in> set xs. Q x" and "Q (f y)"
  shows "\<forall>x \<in> set (update_first P f xs). Q x"
  using assms by (induction xs) (auto split: if_splits)

lemma Set_stakes:
  "stakes (V2_DelegationList_Set dl d) = stakes dl -
     (case V2_DelegationList_Get dl (d2_Validator d) (d2_Delegator d) of None \<Rightarrow> 0 | Some x \<Rightarrow> owed2 x) + owed2 d"
  by (auto simp: V2_DelegationList_Set_def V2_DelegationList_Get_def stakes_update_first owed2_def split: option.split)

lemma Set2_stakes:
  "stakes (V2_DelegationList_Set2 dl d) = stakes dl -
     (case V2_DelegationList_Get dl (d2_Validator d) (d2_Delegator d) of None \<Rightarrow> 0 | Some x \<Rightarrow> owed2 x) + owed2 d"
  by (auto simp: V2_DelegationList_Set2_def V2_DelegationList_Get_def stakes_update_first owed2_def split: option.split)

lemma Set_ok:
  assumes "\<forall>x \<in> set dl. del_ok x" and "del_ok d"
  shows "\<forall>x \<in> set (V2_DelegationList_Set dl d). del_ok x" and "\<forall>x \<in> set (V2_DelegationList_Set2 dl d). del_ok x"
proof -
  let ?g = "V2_DelegationList_Get dl (d2_Validator d) (d2_Delegator d)"
  show "\<forall>x \<in> set (V2_DelegationList_Set dl d). del_ok x"
  proof (cases ?g)
    case None
    with assms show ?thesis by (simp add: V2_DelegationList_Set_def)
  next
    case (Some y)
    show ?thesis unfolding V2_DelegationList_Set_def Some option.case
      by (rule update_first_all) (use assms in \<open>simp_all add: del_ok_def\<close>)
  qed
  show "\<forall>x \<in> set (V2_DelegationList_Set2 dl d). del_ok x"
  proof (cases ?g)
    case None
    with assms show ?thesis by (simp add: V2_DelegationList_Set2_def)
  next
    case (Some y)
    show ?thesis unfolding V2_DelegationList_Set2_def Some option.case
      by (rule update_first_all) (use assms in \<open>simp_all add: del_ok_def\<close>)
  qed
qed

lemma Get_in: "V2_DelegationList_Get dl v w = Some d \<Longrightarrow> d \<in> set dl"
  by (auto simp: V2_DelegationList_Get_def find_Some_iff)

section \<open>The books\<close>

lemma V2_active_Inr [simp]: "V2_active ctx m = Inr x \<longleftrightarrow> \<not> feature_enabled ctx ''dpos:v3'' False \<and> m = Inr x"
  by (simp add: V2_active_def)

lemma V2_TransferFromD:
  assumes "wf_coin_store (p2_coin s)" and "V2_TransferFrom ctx src dst amount s = Inr s'"
  obtains c where "s' = s\<lparr>p2_coin := c\<rparr>" and "wf_coin_store c" and "bal_of c = moved (bal_of (p2_coin s)) src dst amount"
proof -
  from assms(2) obtain c where c: "Coin_TransferFrom (ctx\<lparr>sender := contract_address ctx\<rparr>) (p2_coin s)
      \<lparr>tf_from = src, tf_to = dst, tf_amount = Some amount\<rparr> = Inr c" and s': "s' = s\<lparr>p2_coin := c\<rparr>"
    unfolding V2_TransferFrom_def by (auto elim: bind_resE)
  from that [OF s'] coin.transferFromD [OF assms(1) c] show thesis by blast
qed

lemma V2_TransferD:
  assumes "wf_coin_store coin" and "V2_Transfer ctx to amount coin = Inr c"
  shows "wf_coin_store c" and "bal_of c = moved (bal_of coin) (contract_address ctx) to amount"
  using coin.transferD [OF assms(1) assms(2) [unfolded V2_Transfer_def]] by blast+

text \<open>
  \<open>paid\<close> are the rewards paid out and \<open>twice\<close> the amounts of partial redelegations; nobody is
  slashed, because nothing calls the slashing functions.
\<close>

definition v2_ok :: "address \<Rightarrow> int \<Rightarrow> int \<Rightarrow> int \<Rightarrow> dpos2_store \<Rightarrow> bool" where
  "v2_ok self base paid twice s \<longleftrightarrow>
     wf_coin_store (p2_coin s) \<and> (\<forall>d \<in> set (p2_delegations s). del_ok d) \<and>
     (\<forall>st \<in> set (p2_statistics s). s2_SlashPercentage st = 0) \<and>
     base + stakes (p2_delegations s) \<le> bal_of (p2_coin s) self + paid + twice"

text \<open>A deposit: the amount comes in and one delegation grows by it or is replaced by it.\<close>

lemma deposit_ok:
  assumes ok: "v2_ok self base paid twice s" and perm: "sort_perm E"
    and ctx: "contract_address ctx = self" "sender ctx \<noteq> self"
    and t: "V2_TransferFrom ctx (sender ctx) (contract_address ctx) a s = Inr s1"
    and dl: "\<forall>d \<in> set dl. del_ok d" "stakes dl \<le> stakes (p2_delegations s) + a"
  shows "v2_ok self base paid twice (V2_saveDelegationList E dl s1)"
proof -
  have wf: "wf_coin_store (p2_coin s)" using ok by (simp add: v2_ok_def)
  from V2_TransferFromD [OF wf t] obtain c where "s1 = s\<lparr>p2_coin := c\<rparr>" "wf_coin_store c"
    "bal_of c = moved (bal_of (p2_coin s)) (sender ctx) self a" unfolding ctx(1) by blast
  moreover from this have "bal_of c self = bal_of (p2_coin s) self + a" using ctx(2) by (simp add: moved_def)
  ultimately show ?thesis
    using ok dl sort_perm_facts [OF perm, of dl] by (auto simp: v2_ok_def V2_saveDelegationList_def)
qed

text \<open>The new delegation of \<open>Delegate\<close> and \<open>Delegate2\<close> has what was bonded before and the deposit.\<close>

lemma prior_stakes:
  assumes "V2_prior_amount (V2_DelegationList_Get dl v w) = Inr amount" and ok: "\<forall>d \<in> set dl. del_ok d"
  shows "0 \<le> amount" and "(case V2_DelegationList_Get dl v w of None \<Rightarrow> 0 | Some x \<Rightarrow> owed2 x) = amount"
  using assms Get_in [of dl v w]
  by (auto simp: V2_prior_amount_def owed2_def del_ok_def split: option.splits if_splits)

lemma TransferFrom_delegations: "V2_TransferFrom ctx a b n s = Inr s' \<Longrightarrow> p2_delegations s' = p2_delegations s"
  by (auto simp: V2_TransferFrom_def elim!: bind_resE)

lemma Delegate_ok:
  assumes ok: "v2_ok self base paid twice s" and perm: "sort_perm E"
    and ctx: "contract_address ctx = self" "sender ctx \<noteq> self" and d: "V2_Delegate E ctx req s = Inr s'"
  shows "v2_ok self base paid twice s'"
proof -
  from d obtain v where v: "q2_ValidatorAddress req = Some v" by (auto simp: V2_Delegate_def Let_def elim!: bind_resE split: if_splits)
  with d obtain a where a': "q2_Amount req = Some a" "0 < a"
    by (auto simp: V2_Delegate_def Let_def split: option.split_asm if_split_asm)
  from d v a' obtain s1 amount nd where t: "V2_TransferFrom ctx (sender ctx) (contract_address ctx) a s = Inr s1"
    and p: "V2_prior_amount (V2_DelegationList_Get (p2_delegations s1) v (sender ctx)) = Inr amount"
    and s': "s' = V2_saveDelegationList E (V2_DelegationList_Set (p2_delegations s1) nd) s1"
    and nd: "d2_Validator nd = v" "d2_Delegator nd = sender ctx" "d2_Amount nd = amount" "d2_UpdateAmount nd = a" "d2_State nd = BONDING"
    unfolding V2_Delegate_def Let_def by (auto elim!: bind_resE split: if_split_asm)
  have s1: "p2_delegations s1 = p2_delegations s" by (rule TransferFrom_delegations [OF t])
  have dels: "\<forall>d \<in> set (p2_delegations s). del_ok d" using ok by (simp add: v2_ok_def)
  note pr = prior_stakes [OF p [unfolded s1] dels]
  have "del_ok nd" using nd a' pr by (simp add: del_ok_def)
  from Set_ok(1) [OF dels this] have 1: "\<forall>d \<in> set (V2_DelegationList_Set (p2_delegations s) nd). del_ok d" .
  have 2: "stakes (V2_DelegationList_Set (p2_delegations s) nd) \<le> stakes (p2_delegations s) + a"
    unfolding Set_stakes nd pr(2) using nd by (simp add: owed2_def)
  show ?thesis unfolding s' s1 by (rule deposit_ok [OF ok perm ctx t 1 2])
qed

lemma Delegate2_ok:
  assumes ok: "v2_ok self base paid twice s" and perm: "sort_perm E"
    and ctx: "contract_address ctx = self" "sender ctx \<noteq> self" and d: "V2_Delegate2 E ctx req s = Inr s'"
  shows "v2_ok self base paid twice s'"
proof -
  from d obtain v where v: "q2_ValidatorAddress req = Some v" by (auto simp: V2_Delegate2_def Let_def elim!: bind_resE split: if_splits)
  with d obtain a where a': "q2_Amount req = Some a" "0 < a"
    by (auto simp: V2_Delegate2_def Let_def split: option.split_asm if_split_asm)
  from d v a' obtain s1 amount nd where t: "V2_TransferFrom ctx (sender ctx) (contract_address ctx) a s = Inr s1"
    and p: "V2_prior_amount (V2_DelegationList_Get (p2_delegations s1) v (sender ctx)) = Inr amount"
    and s': "s' = V2_saveDelegationList E (V2_DelegationList_Set2 (p2_delegations s1) nd) s1"
    and nd: "d2_Validator nd = v" "d2_Delegator nd = sender ctx" "d2_Amount nd = amount" "d2_UpdateAmount nd = a" "d2_State nd = BONDING"
    unfolding V2_Delegate2_def Let_def by (auto elim!: bind_resE split: if_split_asm)
  have s1: "p2_delegations s1 = p2_delegations s" by (rule TransferFrom_delegations [OF t])
  have dels: "\<forall>d \<in> set (p2_delegations s). del_ok d" using ok by (simp add: v2_ok_def)
  note pr = prior_stakes [OF p [unfolded s1] dels]
  have "del_ok nd" using nd a' pr by (simp add: del_ok_def)
  from Set_ok(2) [OF dels this] have 1: "\<forall>d \<in> set (V2_DelegationList_Set2 (p2_delegations s) nd). del_ok d" .
  have 2: "stakes (V2_DelegationList_Set2 (p2_delegations s) nd) \<le> stakes (p2_delegations s) + a"
    unfolding Set2_stakes nd pr(2) using nd by (simp add: owed2_def)
  show ?thesis unfolding s' s1 by (rule deposit_ok [OF ok perm ctx t 1 2])
qed

text \<open>Methods that leave the coins alone.\<close>

lemma rebook_ok:
  assumes ok: "v2_ok self base paid twice s" and perm: "sort_perm E"
    and dl: "\<forall>d \<in> set dl. del_ok d" "stakes dl \<le> stakes (p2_delegations s) + extra"
  shows "v2_ok self base paid (twice + extra) (V2_saveDelegationList E dl s)"
  using ok dl sort_perm_facts [OF perm, of dl] by (auto simp: v2_ok_def V2_saveDelegationList_def)

lemma Unbond_ok:
  assumes ok: "v2_ok self base paid twice s" and perm: "sort_perm E"
    and amount: "u2_Amount req = Some a" "0 \<le> a" and u: "V2_Unbond E ctx req s = Inr s'"
  shows "v2_ok self base paid twice s'"
proof -
  let ?f = "\<lambda>d. d\<lparr>d2_State := UNBONDING, d2_UpdateAmount := a\<rparr>"
  from u amount obtain v d where g: "V2_DelegationList_Get (p2_delegations s) v (sender ctx) = Some d"
    and d: "\<not> d2_Amount d < a" "d2_State d = BONDED"
    and s': "s' = V2_saveDelegationList E (update_first (V2_pair v (sender ctx)) ?f (p2_delegations s)) s"
    unfolding V2_Unbond_def Let_def by (auto elim!: bind_resE split: option.split_asm if_split_asm)
  have f: "find (V2_pair v (sender ctx)) (p2_delegations s) = Some d" using g by (simp add: V2_DelegationList_Get_def)
  have dels: "\<forall>d \<in> set (p2_delegations s). del_ok d" using ok by (simp add: v2_ok_def)
  have "del_ok (?f d)" using dels Get_in [OF g] d amount by (simp add: del_ok_def)
  note 1 = update_first_found [where f = ?f, OF f dels this]
  have 2: "stakes (update_first (V2_pair v (sender ctx)) ?f (p2_delegations s)) \<le> stakes (p2_delegations s) + 0"
    unfolding stakes_update_first [OF f] using d by (simp add: owed2_def)
  from rebook_ok [OF ok perm 1 2] show ?thesis unfolding s' by simp
qed

text \<open>The amount of a redelegation that is not of the whole delegation.\<close>

definition partial_amount :: "call_ctx \<Rightarrow> V2RedelegateRequest \<Rightarrow> dpos2_store \<Rightarrow> int" where
  "partial_amount ctx req s =
     (case (r2_FormerValidatorAddress req, r2_Amount req) of
        (Some former, Some a) \<Rightarrow>
          (case V2_DelegationList_Get (p2_delegations s) former (sender ctx) of
             Some prior \<Rightarrow> if d2_Amount prior = a then 0 else a
           | None \<Rightarrow> 0)
      | _ \<Rightarrow> 0)"

text \<open>The two ways a redelegation can go.\<close>

lemma V2_RedelegateD:
  assumes "V2_Redelegate E ctx req s = Inr s'"
  obtains (whole) former v prior where "V2_DelegationList_Get (p2_delegations s) former (sender ctx) = Some prior"
      and "partial_amount ctx req s = 0"
      and "s' = V2_saveDelegationList E (update_first (V2_pair former (sender ctx))
        (\<lambda>d. d\<lparr>d2_UpdateValidator := Some v, d2_State := REDELEGATING\<rparr>) (p2_delegations s)) s"
  | (part) former v prior a where "V2_DelegationList_Get (p2_delegations s) former (sender ctx) = Some prior"
      and "partial_amount ctx req s = a" and "0 < a" and "a < d2_Amount prior" and "Local former \<noteq> Local v"
      and "s' = V2_saveDelegationList E (V2_DelegationList_Set
        (update_first (V2_pair former (sender ctx)) (\<lambda>d. d\<lparr>d2_State := UNBONDING, d2_UpdateAmount := a\<rparr>) (p2_delegations s))
        \<lparr>d2_Validator = v, d2_Delegator = d2_Delegator prior, d2_Amount = 0, d2_UpdateAmount = a,
         d2_UpdateValidator = None, d2_Height = of_int (block_height ctx),
         d2_LocktimeTier = d2_LocktimeTier prior, d2_LockTime = d2_LockTime prior, d2_State = BONDING\<rparr>) s"
proof -
  from assms obtain former v prior where former: "r2_FormerValidatorAddress req = Some former"
    and v: "r2_ValidatorAddress req = Some v" "Local former \<noteq> Local v"
    and g: "V2_DelegationList_Get (p2_delegations s) former (sender ctx) = Some prior"
    unfolding V2_Redelegate_def Let_def by (auto elim!: bind_resE split: if_split_asm option.split_asm)
  show thesis
  proof (cases "r2_Amount req")
    case None
    with assms former v g show thesis
      by (intro whole [OF g, of v]) (auto simp: V2_Redelegate_def Let_def partial_amount_def split: if_split_asm)
  next
    case (Some a)
    show thesis
    proof (cases "d2_Amount prior = a")
      case True
      with Some assms former v g show thesis
        by (intro whole [OF g, of v]) (auto simp: V2_Redelegate_def Let_def partial_amount_def split: if_split_asm)
    next
      case False
      with Some assms former v g show thesis
        by (intro part [OF g, of a v]) (auto simp: V2_Redelegate_def Let_def partial_amount_def split: if_split_asm)
    qed
  qed
qed

lemma Redelegate_ok:
  assumes ok: "v2_ok self base paid twice s" and perm: "sort_perm E" and r: "V2_Redelegate E ctx req s = Inr s'"
  shows "v2_ok self base paid (twice + partial_amount ctx req s) s'"
proof -
  have dels: "\<forall>d \<in> set (p2_delegations s). del_ok d" using ok by (simp add: v2_ok_def)
  from r show ?thesis
  proof (cases rule: V2_RedelegateD)
    case (whole former v prior)
    let ?f = "\<lambda>d. d\<lparr>d2_UpdateValidator := Some v, d2_State := REDELEGATING\<rparr>"
    have f: "find (V2_pair former (sender ctx)) (p2_delegations s) = Some prior"
      using whole(1) by (simp add: V2_DelegationList_Get_def)
    have prior: "del_ok prior" using dels Get_in [OF whole(1)] by blast
    then have "del_ok (?f prior)" by (simp add: del_ok_def)
    note 1 = update_first_found [where f = ?f, OF f dels this]
    have 2: "stakes (update_first (V2_pair former (sender ctx)) ?f (p2_delegations s)) \<le> stakes (p2_delegations s) + 0"
      unfolding stakes_update_first [OF f] using prior by (simp add: owed2_def del_ok_def)
    from rebook_ok [OF ok perm 1 2] show ?thesis unfolding whole(2,3) .
  next
    case (part former v prior a)
    let ?f = "\<lambda>d. d\<lparr>d2_State := UNBONDING, d2_UpdateAmount := a\<rparr>"
    let ?dl = "update_first (V2_pair former (sender ctx)) ?f (p2_delegations s)"
    let ?nd = "\<lparr>d2_Validator = v, d2_Delegator = d2_Delegator prior, d2_Amount = 0, d2_UpdateAmount = a,
         d2_UpdateValidator = None, d2_Height = of_int (block_height ctx),
         d2_LocktimeTier = d2_LocktimeTier prior, d2_LockTime = d2_LockTime prior, d2_State = BONDING\<rparr>"
    have f: "find (V2_pair former (sender ctx)) (p2_delegations s) = Some prior"
      using part(1) by (simp add: V2_DelegationList_Get_def)
    have prior: "del_ok prior" using dels Get_in [OF part(1)] by blast
    then have "del_ok (?f prior)" using part by (simp add: del_ok_def)
    note dl = update_first_found [where f = ?f, OF f dels this]
    have "del_ok ?nd" using part by (simp add: del_ok_def)
    note 1 = Set_ok(1) [OF dl this]
    have "stakes ?dl \<le> stakes (p2_delegations s)"
      unfolding stakes_update_first [OF f] using prior by (simp add: owed2_def del_ok_def)
    moreover have "stakes (V2_DelegationList_Set ?dl ?nd) \<le> stakes ?dl + a"
      using dl Get_in [of ?dl] by (auto simp: Set_stakes owed2_def [of ?nd] dest!: owed2_nonneg split: option.split)
    ultimately have 2: "stakes (V2_DelegationList_Set ?dl ?nd) \<le> stakes (p2_delegations s) + a" by simp
    from rebook_ok [OF ok perm 1 2] show ?thesis unfolding part(2,6) .
  qed
qed

text \<open>Registering a candidate, with or without a deposit.\<close>

lemma save_candidates_ok [simp]:
  "v2_ok self base paid twice (V2_saveCandidateList cl s) = v2_ok self base paid twice s"
  by (simp add: v2_ok_def V2_saveCandidateList_def)

lemma registration_deposit_ok:
  assumes ok: "v2_ok self base paid twice s" and perm: "sort_perm E"
    and ctx: "contract_address ctx = self" "sender ctx \<noteq> self"
    and d: "V2_registration_deposit E ctx req state a s = Inr s'" and a: "0 < a"
  shows "v2_ok self base paid twice s'"
proof -
  from d obtain s1 nd where t: "V2_TransferFrom ctx (sender ctx) (contract_address ctx) a s = Inr s1"
    and s': "s' = V2_saveDelegationList E (V2_DelegationList_Set (p2_delegations s1) nd) s1"
    and nd: "d2_Amount nd = 0" "d2_UpdateAmount nd = a" "d2_State nd = BONDING"
    unfolding V2_registration_deposit_def Let_def by (auto elim!: bind_resE split: if_split_asm)
  have s1: "p2_delegations s1 = p2_delegations s" by (rule TransferFrom_delegations [OF t])
  have dels: "\<forall>d \<in> set (p2_delegations s). del_ok d" using ok by (simp add: v2_ok_def)
  have "del_ok nd" using nd a by (simp add: del_ok_def)
  note 1 = Set_ok(1) [OF dels this]
  have 2: "stakes (V2_DelegationList_Set (p2_delegations s) nd) \<le> stakes (p2_delegations s) + a"
    using dels Get_in [of "p2_delegations s"] nd
    by (auto simp: Set_stakes owed2_def [of nd] dest!: owed2_nonneg split: option.split)
  show ?thesis unfolding s' s1 by (rule deposit_ok [OF ok perm ctx t 1 2])
qed

lemma register_ok:
  assumes ok: "v2_ok self base paid twice s" and perm: "sort_perm E"
    and ctx: "contract_address ctx = self" "sender ctx \<noteq> self" and r: "V2_register E ctx req newFee s = Inr s'"
  shows "v2_ok self base paid twice s'"
  using r ok unfolding V2_register_def Let_def
  by (auto elim!: bind_resE split: if_split_asm) (rule registration_deposit_ok [OF ok perm ctx], assumption+)

text \<open>With a percentage of zero nothing is slashed.\<close>

lemma fraction_zero [simp]: "V2_CalculateFraction 0 x g = 0"
  by (simp add: V2_CalculateFraction_def V2_CalculatePreciseFraction_def V2_basisPointsToBillionths_def Let_def)

lemma slash_nothing:
  assumes "V2_slashValidatorDelegations dl (Some st) a g = Inr (dl', st')" and "s2_SlashPercentage st = 0"
  shows "dl' = dl"
proof -
  have "map (\<lambda>d. if Local (d2_Validator d) = Local a then d\<lparr>d2_Amount := d2_Amount d\<rparr> else d) dl = dl"
    by (rule map_idI) auto
  moreover have "dl' = map (\<lambda>d. if Local (d2_Validator d) = Local a
      then d\<lparr>d2_Amount := d2_Amount d - V2_CalculateFraction (s2_SlashPercentage st) (d2_Amount d) g\<rparr> else d) dl"
    using assms(1) unfolding V2_slashValidatorDelegations_def Let_def by (auto elim!: bind_resE)
  ultimately show ?thesis unfolding assms(2) fraction_zero diff_0_right by simp
qed

lemma Statistic_in: "V2_StatisticList_Get sl a = Some st \<Longrightarrow> st \<in> set sl"
  by (auto simp: V2_StatisticList_Get_def find_Some_iff)

lemma Unregister_ok:
  assumes ok: "v2_ok self base paid twice s" and perm: "sort_perm E" and u: "V2_UnregisterCandidate E ctx s = Inr s'"
  shows "v2_ok self base paid twice s'"
proof -
  let ?a = "sender ctx" and ?f = "\<lambda>d. d\<lparr>d2_State := UNBONDING, d2_UpdateAmount := d2_Amount d\<rparr>"
  from u obtain dl st' where sl: "V2_slashValidatorDelegations (p2_delegations s)
      (V2_StatisticList_Get (p2_statistics s) ?a) ?a (V2_v2_1 ctx) = Inr (dl, st')"
    unfolding V2_UnregisterCandidate_def Let_def by (auto elim!: bind_resE split: if_split_asm)
  then obtain st where st: "V2_StatisticList_Get (p2_statistics s) ?a = Some st"
    unfolding V2_slashValidatorDelegations_def by (auto elim!: bind_resE)
  have "s2_SlashPercentage st = 0" using ok Statistic_in [OF st] by (simp add: v2_ok_def)
  with sl st have dl: "dl = p2_delegations s" by (metis slash_nothing)
  show ?thesis
  proof (cases "V2_DelegationList_Get (p2_delegations s) ?a ?a")
    case None
    with u sl ok show ?thesis unfolding V2_UnregisterCandidate_def Let_def dl
      by (auto elim!: bind_resE split: if_split_asm)
  next
    case (Some d)
    with u sl obtain cl where d: "d2_State d = BONDED" and s': "s' = V2_saveCandidateList cl (V2_saveDelegationList E
        (update_first (V2_pair ?a ?a) ?f (p2_delegations s)) s)"
      unfolding V2_UnregisterCandidate_def Let_def dl by (auto elim!: bind_resE split: if_split_asm)
    have f: "find (V2_pair ?a ?a) (p2_delegations s) = Some d" using Some by (simp add: V2_DelegationList_Get_def)
    have dels: "\<forall>d \<in> set (p2_delegations s). del_ok d" using ok by (simp add: v2_ok_def)
    have "del_ok (?f d)" using dels Get_in [OF Some] by (simp add: del_ok_def)
    note 1 = update_first_found [where f = ?f, OF f dels this]
    have 2: "stakes (update_first (V2_pair ?a ?a) ?f (p2_delegations s)) \<le> stakes (p2_delegations s) + 0"
      unfolding stakes_update_first [OF f] using d by (simp add: owed2_def)
    from rebook_ok [OF ok perm 1 2] show ?thesis unfolding s' by simp
  qed
qed

text \<open>The methods of the oracle and of a candidate that concern neither delegations nor coins.\<close>

inductive v2_admin :: "call_ctx \<Rightarrow> dpos2_store \<Rightarrow> dpos2_store \<Rightarrow> bool" for ctx s s' where
  "V2_WhitelistCandidate ctx req s = Inr s' \<Longrightarrow> v2_admin ctx s s'"
| "V2_RemoveWhitelistedCandidate ctx cand s = Inr s' \<Longrightarrow> v2_admin ctx s s'"
| "V2_ChangeWhitelistAmount ctx cand amount s = Inr s' \<Longrightarrow> v2_admin ctx s s'"
| "V2_ChangeWhitelistLockTimeTier ctx cand tier s = Inr s' \<Longrightarrow> v2_admin ctx s s'"
| "V2_ChangeFee ctx fee s = Inr s' \<Longrightarrow> v2_admin ctx s s'"
| "V2_UpdateCandidateInfo ctx name description website s = Inr s' \<Longrightarrow> v2_admin ctx s s'"
| "V2_ProcessRequestBatch ctx batch s = Inr s' \<Longrightarrow> v2_admin ctx s s'"
| "V2_SetElectionCycle ctx electionCycle s = Inr s' \<Longrightarrow> v2_admin ctx s s'"
| "V2_SetMaxYearlyReward ctx maxYearlyReward s = Inr s' \<Longrightarrow> v2_admin ctx s s'"
| "V2_SetRegistrationRequirement ctx requirement s = Inr s' \<Longrightarrow> v2_admin ctx s s'"
| "V2_SetValidatorCount ctx n s = Inr s' \<Longrightarrow> v2_admin ctx s s'"
| "V2_SetOracleAddress ctx oracleAddress s = Inr s' \<Longrightarrow> v2_admin ctx s s'"
| "V2_SetSlashingPercentages ctx crash byzantine s = Inr s' \<Longrightarrow> v2_admin ctx s s'"

definition same_stakes :: "dpos2_store \<Rightarrow> dpos2_store \<Rightarrow> bool" where
  "same_stakes s s' \<longleftrightarrow> p2_delegations s' = p2_delegations s \<and> p2_coin s' = p2_coin s \<and>
     ((\<forall>st \<in> set (p2_statistics s). s2_SlashPercentage st = 0) \<longrightarrow> (\<forall>st \<in> set (p2_statistics s'). s2_SlashPercentage st = 0))"

lemma same_stakes_ok: "same_stakes s s' \<Longrightarrow> v2_ok self base paid twice s \<Longrightarrow> v2_ok self base paid twice s'"
  by (auto simp: same_stakes_def v2_ok_def)

lemma same_stakes_trans: "same_stakes s s1 \<Longrightarrow> same_stakes s1 s' \<Longrightarrow> same_stakes s s'"
  by (auto simp: same_stakes_def)

lemma set_params_stakes: "V2_set_params f ctx s = Inr s' \<Longrightarrow> same_stakes s s'"
  by (auto simp: V2_set_params_def V2_saveState_def same_stakes_def elim!: bind_resE)

lemma whitelist_stakes: "V2_addCandidateToStatisticList req s = Inr s' \<Longrightarrow> same_stakes s s'"
  by (auto simp: V2_addCandidateToStatisticList_def V2_saveValidatorStatisticList_def V2_sortStatistics_def same_stakes_def
      elim!: bind_resE split: option.split_asm)

lemma change_whitelist_stakes:
  assumes "V2_change_whitelist ctx cand f s = Inr s'" and "\<And>st. s2_SlashPercentage (f st) = s2_SlashPercentage st"
  shows "same_stakes s s'"
proof -
  from assms(1) obtain a where s': "s' = V2_saveValidatorStatisticList (update_first (V2_Statistic_is a) f (p2_statistics s)) s"
    unfolding V2_change_whitelist_def by (auto elim!: bind_resE split: option.split_asm)
  show ?thesis
    using set_update_first [of "V2_Statistic_is a" f "p2_statistics s"] assms(2)
    by (auto simp: same_stakes_def s' V2_saveValidatorStatisticList_def V2_sortStatistics_def)
qed

lemma batch_loop_stakes: "V2_batch_loop rs (s, t, e) = Inr (s', t', e') \<Longrightarrow> same_stakes s s'"
proof (induction rs arbitrary: s t e)
  case Nil
  then show ?case by (simp add: same_stakes_def)
next
  case (Cons r rs)
  show ?case
  proof (cases "y2_Payload r")
    case V2BatchUnsupported
    with Cons.prems show ?thesis by (auto intro: Cons.IH)
  next
    case (V2BatchWhitelist req)
    with Cons.prems obtain m where m: "y2_Meta r = Some m" by (auto elim!: bind_resE)
    show ?thesis
    proof (cases "V2_isRequestAlreadySeen m t")
      case True
      with Cons.prems V2BatchWhitelist m show ?thesis by (auto intro: Cons.IH)
    next
      case False
      show ?thesis
      proof (cases "V2_addCandidateToStatisticList req s")
        case (Inl x)
        with Cons.prems V2BatchWhitelist m False show ?thesis by (cases x) (auto simp: same_stakes_def)
      next
        case (Inr s1)
        with Cons.prems V2BatchWhitelist m False have "same_stakes s1 s'" by (auto intro: Cons.IH)
        with whitelist_stakes [OF Inr] show ?thesis by (rule same_stakes_trans)
      qed
    qed
  qed
qed

lemma admin_stakes: "v2_admin ctx s s' \<Longrightarrow> same_stakes s s'"
proof (induction rule: v2_admin.induct)
  case (7 batch)
  then show ?case
    by (auto simp: V2_ProcessRequestBatch_def same_stakes_def elim!: bind_resE split: if_split_asm dest!: batch_loop_stakes)
next
  case (5 fee)
  then show ?case by (auto simp: V2_ChangeFee_def V2_saveCandidateList_def same_stakes_def split: if_split_asm)
next
  case (6 name description website)
  then show ?case by (auto simp: V2_UpdateCandidateInfo_def V2_saveCandidateList_def same_stakes_def split: if_split_asm)
qed (auto simp: V2_WhitelistCandidate_def V2_RemoveWhitelistedCandidate_def V2_ChangeWhitelistAmount_def
    V2_ChangeWhitelistLockTimeTier_def V2_SetElectionCycle_def V2_SetMaxYearlyReward_def V2_SetRegistrationRequirement_def
    V2_SetValidatorCount_def V2_SetOracleAddress_def V2_SetSlashingPercentages_def elim!: bind_resE
    intro: set_params_stakes whitelist_stakes dest: change_whitelist_stakes)

section \<open>An election keeps the books\<close>

definition no_slash :: "V2Statistic list \<Rightarrow> bool" where
  "no_slash sl \<longleftrightarrow> (\<forall>st \<in> set sl. s2_SlashPercentage st = 0)"

lemma no_slash_update_first:
  "no_slash sl \<Longrightarrow> (\<And>st. st \<in> set sl \<Longrightarrow> s2_SlashPercentage (f st) = 0) \<Longrightarrow> no_slash (update_first P f sl)"
  unfolding no_slash_def by (rule update_first_all) auto

lemma rewardValidator_slash:
  "V2_rewardValidator st params tot g = Inr st' \<Longrightarrow> s2_SlashPercentage st' = s2_SlashPercentage st"
  unfolding V2_rewardValidator_def Let_def by (auto elim!: bind_resE split: if_split_asm)

lemma reward_one_frame:
  assumes "V2_reward_one g c st r = Inr (st', r')"
  shows "w2_delegations r' = w2_delegations r" and "w2_statistics r' = w2_statistics r"
    and "w2_state r' = w2_state r" and "s2_SlashPercentage st' = s2_SlashPercentage st"
  using assms unfolding V2_reward_one_def Let_def
  by (auto elim!: bind_resE split: if_split_asm dest: rewardValidator_slash)

lemma reward_or_slash_frame:
  assumes ns: "no_slash (w2_statistics r)" and r: "V2_reward_or_slash g cl v r = Inr r'"
  shows "w2_delegations r' = w2_delegations r \<and> no_slash (w2_statistics r') \<and> ds_Params (w2_state r') = ds_Params (w2_state r)"
proof (cases "V2_CandidateList_GetByPubKey cl (va_PubKey v)")
  case None
  with assms show ?thesis by (simp add: V2_reward_or_slash_def)
next
  case (Some c)
  show ?thesis
  proof (cases "V2_StatisticList_Get (w2_statistics r) (c2_Address c)")
    case None
    with r ns Some show ?thesis by (auto simp: V2_reward_or_slash_def Let_def)
  next
    case (Some st)
    have z: "s2_SlashPercentage st = 0" using ns Statistic_in [OF Some] by (simp add: no_slash_def)
    with r Some \<open>V2_CandidateList_GetByPubKey cl (va_PubKey v) = Some c\<close>
    obtain st1 r1 where o: "V2_reward_one g c st r = Inr (st1, r1)"
      and r': "w2_delegations r' = w2_delegations r1" "ds_Params (w2_state r') = ds_Params (w2_state r1)"
        "w2_statistics r' = update_first (V2_Statistic_is (c2_Address c)) (\<lambda>_. st1\<lparr>s2_DistributionTotal := 0\<rparr>) (w2_statistics r1)"
      by (auto simp: V2_reward_or_slash_def Let_def elim!: bind_resE)
    note f = reward_one_frame [OF o]
    have "no_slash (w2_statistics r')"
      unfolding r' f by (rule no_slash_update_first [OF ns]) (simp add: f z)
    with r' f show ?thesis by simp
  qed
qed

lemma rewardAndSlash_frame:
  assumes "no_slash (p2_statistics s)" and "V2_rewardAndSlash g state cl s = Inr r"
  shows "w2_delegations r = p2_delegations s" and "no_slash (w2_statistics r)" and "ds_Params (w2_state r) = ds_Params state"
proof -
  have "w2_delegations r = p2_delegations s \<and> no_slash (w2_statistics r) \<and> ds_Params (w2_state r) = ds_Params state"
    by (rule fold_res_invariant [OF assms(2) [unfolded V2_rewardAndSlash_def],
        of "\<lambda>r. w2_delegations r = p2_delegations s \<and> no_slash (w2_statistics r) \<and> ds_Params (w2_state r) = ds_Params state"])
      (use assms(1) reward_or_slash_frame in auto)
  then show "w2_delegations r = p2_delegations s" and "no_slash (w2_statistics r)" and "ds_Params (w2_state r) = ds_Params state"
    by auto
qed

text \<open>One delegation takes out of the contract what it stood for less what it stands for now.\<close>

lemma apply_pending_books2:
  assumes "wf_coin_store coin" and "del_ok d" and "V2_apply_pending ctx params d coin = Inr (d', c)"
  shows "wf_coin_store c" and "0 \<le> d2_Amount d'"
    and "bal_of coin (contract_address ctx) - owed2 d \<le> bal_of c (contract_address ctx) - d2_Amount d'"
proof -
  have "wf_coin_store c \<and> 0 \<le> d2_Amount d' \<and>
      bal_of coin (contract_address ctx) - owed2 d \<le> bal_of c (contract_address ctx) - d2_Amount d'"
  proof (cases "d2_State d")
    case UNBONDING
    with assms(3) have t: "V2_Transfer ctx (d2_Delegator d) (d2_UpdateAmount d) coin = Inr c"
      and d': "d' = d\<lparr>d2_Amount := d2_Amount d - d2_UpdateAmount d\<rparr>"
      by (auto simp: V2_apply_pending_def elim!: bind_resE)
    show ?thesis
      using V2_TransferD [OF assms(1) t] UNBONDING assms(2) d' by (auto simp: moved_def owed2_def del_ok_def)
  qed (use assms in \<open>auto simp: V2_apply_pending_def owed2_def del_ok_def elim!: bind_resE\<close>)
  then show "wf_coin_store c" and "0 \<le> d2_Amount d'"
    and "bal_of coin (contract_address ctx) - owed2 d \<le> bal_of c (contract_address ctx) - d2_Amount d'"
    by auto
qed

lemma distribute_books2:
  assumes "fold_res (V2_distribute_one ctx params former rewards) ds b = Inr b'"
    and "wf_coin_store (b2_coin b)" and "\<forall>d \<in> set ds. del_ok d" and "\<forall>d \<in> set (b2_done b). del_ok d"
  shows "wf_coin_store (b2_coin b') \<and> (\<forall>d \<in> set (b2_done b'). del_ok d) \<and>
    bal_of (b2_coin b) (contract_address ctx) - stakes (b2_done b) - stakes ds \<le>
      bal_of (b2_coin b') (contract_address ctx) - stakes (b2_done b')"
  using assms
proof (induction ds arbitrary: b)
  case (Cons d ds)
  from Cons.prems(1) obtain b1 where o: "V2_distribute_one ctx params former rewards d b = Inr b1"
    and rest: "fold_res (V2_distribute_one ctx params former rewards) ds b1 = Inr b'"
    by (auto elim: bind_resE)
  from o obtain d' c where p: "V2_apply_pending ctx params d (b2_coin b) = Inr (d', c)"
    and b1: "b2_done b1 = b2_done b @ [d'\<lparr>d2_UpdateAmount := 0, d2_State := BONDED\<rparr>]" "b2_coin b1 = c"
    unfolding V2_distribute_one_def Let_def by (auto elim!: bind_resE)
  have "del_ok d" using Cons.prems(3) by simp
  note a = apply_pending_books2 [OF Cons.prems(2) this p]
  have "del_ok (d'\<lparr>d2_UpdateAmount := 0, d2_State := BONDED\<rparr>)" using a(2) by (simp add: del_ok_def)
  with Cons.prems a(1) b1 have "wf_coin_store (b2_coin b1)" "\<forall>d \<in> set ds. del_ok d" "\<forall>d \<in> set (b2_done b1). del_ok d"
    by auto
  from Cons.IH [OF rest this] a(3) show ?case by (simp add: b1 owed2_def [of "d'\<lparr>d2_UpdateAmount := 0, d2_State := BONDED\<rparr>"])
qed simp

lemma elect_one_slash:
  assumes "no_slash sl" and "V2_elect_one cl res (vs, tot, sl) = (vs', tot', sl')"
  shows "no_slash sl'"
proof (cases "V2_CandidateList_Get cl (dr_ValidatorAddress res)")
  case None
  with assms show ?thesis by (simp add: V2_elect_one_def)
next
  case (Some c)
  show ?thesis
  proof (cases "V2_StatisticList_Get sl (c2_Address c)")
    case None
    with assms Some show ?thesis by (auto simp: V2_elect_one_def Let_def no_slash_def)
  next
    case (Some st)
    with assms \<open>V2_CandidateList_Get cl (dr_ValidatorAddress res) = Some c\<close> show ?thesis
      by (auto simp: V2_elect_one_def Let_def intro!: no_slash_update_first [OF assms(1)]) (simp add: no_slash_def)
  qed
qed

lemma elect_slash:
  "no_slash sl \<Longrightarrow> fold (V2_elect_one cl) rs (vs, tot, sl) = (vs', tot', sl') \<Longrightarrow> no_slash sl'"
proof (induction rs arbitrary: vs tot sl)
  case (Cons r rs)
  obtain vs1 tot1 sl1 where o: "V2_elect_one cl r (vs, tot, sl) = (vs1, tot1, sl1)" by (cases "V2_elect_one cl r (vs, tot, sl)")
  from Cons.IH [OF elect_one_slash [OF Cons.prems(1) o]] Cons.prems(2) o show ?case by simp
qed simp

lemma conclude_frame:
  assumes "V2_conclude E ctx cl r b s = Inr s'" and "no_slash (w2_statistics r)"
  shows "p2_coin s' = b2_coin b" and "p2_delegations s' = e2_sort E (b2_done b)" and "no_slash (p2_statistics s')"
proof -
  obtain vs tot sl k where e: "fold (V2_elect_one cl) k ([], 0, w2_statistics r) = (vs, tot, sl)"
    and s': "p2_coin s' = b2_coin b" "p2_delegations s' = e2_sort E (b2_done b)" "p2_statistics s' = V2_sortStatistics sl"
    using assms(1) unfolding V2_conclude_def Let_def
    by (auto simp: V2_saveState_def V2_saveValidatorStatisticList_def V2_saveDistributionList_def V2_saveDelegationList_def
        split: if_split_asm prod.split_asm)
  show "p2_coin s' = b2_coin b" and "p2_delegations s' = e2_sort E (b2_done b)" by (fact s')+
  show "no_slash (p2_statistics s')"
    using elect_slash [OF assms(2) e] by (simp add: s' no_slash_def V2_sortStatistics_def)
qed

lemma Elect_ok:
  assumes ok: "v2_ok self base paid twice s" and perm: "sort_perm E" and self: "contract_address ctx = self"
    and e: "V2_Elect E ctx s = Inr s'"
  shows "v2_ok self base paid twice s'"
proof -
  let ?s = "V2_saveCandidateList (map V2_update_fee (p2_candidates s)) s"
  have ok': "v2_ok self base paid twice ?s" using ok by simp
  from e consider "s' = s" | "s' = ?s"
    | state r b where "V2_rewardAndSlash (V2_v2_1 ctx) state (p2_candidates ?s) ?s = Inr r"
        "V2_distributeDelegatorRewards ctx r (p2_coin ?s) = Inr b" "V2_conclude E ctx (p2_candidates ?s) r b ?s = Inr s'"
    unfolding V2_Elect_def Let_def by (auto elim!: bind_resE split: if_split_asm)
  then show ?thesis
  proof cases
    case (3 state r b)
    have ns: "no_slash (p2_statistics ?s)" and dels: "\<forall>d \<in> set (p2_delegations ?s). del_ok d" and wf: "wf_coin_store (p2_coin ?s)"
      using ok' by (auto simp: v2_ok_def no_slash_def)
    note r = rewardAndSlash_frame [OF ns 3(1)]
    from 3(2) obtain totals where "fold_res (V2_distribute_one ctx (ds_Params (w2_state r)) (w2_former r) (w2_rewards r)) (w2_delegations r)
        \<lparr>b2_done = [], b2_distributions = w2_distributions r, b2_totals = totals, b2_coin = p2_coin ?s\<rparr> = Inr b"
      unfolding V2_distributeDelegatorRewards_def by (auto elim: bind_resE)
    from distribute_books2 [OF this] wf dels
    have b: "wf_coin_store (b2_coin b)" "\<forall>d \<in> set (b2_done b). del_ok d"
      "bal_of (p2_coin ?s) self - stakes (p2_delegations ?s) \<le> bal_of (b2_coin b) self - stakes (b2_done b)"
      unfolding r(1) self by auto
    note c = conclude_frame [OF 3(3) r(2)]
    show ?thesis
      using ok' b c(3) sort_perm_facts [OF perm, of "b2_done b"] unfolding v2_ok_def c(1,2) no_slash_def by auto
  qed (use ok ok' in auto)
qed

lemma Claim_ok:
  assumes ok: "v2_ok self base paid twice s" and self: "contract_address ctx = self" "withdrawal \<noteq> Some self"
    and c: "V2_ClaimDistribution ctx withdrawal s = Inr (s', a)"
  shows "v2_ok self base (paid + a) twice s'"
proof -
  from c obtain w coin dl where w: "withdrawal = Some w" and t: "V2_Transfer ctx w a (p2_coin s) = Inr coin"
    and s': "s' = V2_saveDistributionList dl (s\<lparr>p2_coin := coin\<rparr>)"
    unfolding V2_ClaimDistribution_def Let_def by (auto elim!: bind_resE split: option.split_asm)
  have wf: "wf_coin_store (p2_coin s)" using ok by (simp add: v2_ok_def)
  from V2_TransferD [OF wf t] w self have "wf_coin_store coin" "bal_of coin self = bal_of (p2_coin s) self - a"
    by (auto simp: moved_def)
  with ok show ?thesis by (auto simp: v2_ok_def s' V2_saveDistributionList_def)
qed

section \<open>Runs\<close>

text \<open>
  A run of the contract at address \<open>self\<close>, with the rewards paid out and the amounts of partial
  redelegations so far. The contract does not call itself, rewards are not withdrawn to it, the
  amounts of requests are not negative, and what others do with their coins does not lower its balance.
\<close>

inductive v2_run :: "v2_env \<Rightarrow> address \<Rightarrow> int \<Rightarrow> dpos2_store \<Rightarrow> int \<Rightarrow> int \<Rightarrow> bool" for E self where
  run_init: "V2_Init ctx params validators \<lparr>p2_state = None, p2_candidates = [], p2_delegations = [], p2_statistics = [],
      p2_distributions = [], p2_tally = t, p2_coin = coin\<rparr> = Inr s \<Longrightarrow> wf_coin_store coin \<Longrightarrow>
    v2_run E self (bal_of coin self) s 0 0"
| run_delegate: "v2_run E self base s paid twice \<Longrightarrow> contract_address ctx = self \<Longrightarrow> sender ctx \<noteq> self \<Longrightarrow>
    V2_Delegate E ctx req s = Inr s' \<Longrightarrow> v2_run E self base s' paid twice"
| run_delegate2: "v2_run E self base s paid twice \<Longrightarrow> contract_address ctx = self \<Longrightarrow> sender ctx \<noteq> self \<Longrightarrow>
    V2_Delegate2 E ctx req s = Inr s' \<Longrightarrow> v2_run E self base s' paid twice"
| run_redelegate: "v2_run E self base s paid twice \<Longrightarrow> V2_Redelegate E ctx rreq s = Inr s' \<Longrightarrow>
    v2_run E self base s' paid (twice + partial_amount ctx rreq s)"
| run_unbond: "v2_run E self base s paid twice \<Longrightarrow> u2_Amount ureq = Some a \<Longrightarrow> 0 \<le> a \<Longrightarrow>
    V2_Unbond E ctx ureq s = Inr s' \<Longrightarrow> v2_run E self base s' paid twice"
| run_register: "v2_run E self base s paid twice \<Longrightarrow> contract_address ctx = self \<Longrightarrow> sender ctx \<noteq> self \<Longrightarrow>
    V2_RegisterCandidate E ctx greq s = Inr s' \<Longrightarrow> v2_run E self base s' paid twice"
| run_register2: "v2_run E self base s paid twice \<Longrightarrow> contract_address ctx = self \<Longrightarrow> sender ctx \<noteq> self \<Longrightarrow>
    V2_RegisterCandidate2 E ctx greq s = Inr s' \<Longrightarrow> v2_run E self base s' paid twice"
| run_unregister: "v2_run E self base s paid twice \<Longrightarrow> V2_UnregisterCandidate E ctx s = Inr s' \<Longrightarrow>
    v2_run E self base s' paid twice"
| run_admin: "v2_run E self base s paid twice \<Longrightarrow> v2_admin ctx s s' \<Longrightarrow> v2_run E self base s' paid twice"
| run_endblock: "v2_run E self base s paid twice \<Longrightarrow> contract_address ctx = self \<Longrightarrow>
    EndBlockV2 E ctx s = Inr (s', updates) \<Longrightarrow> v2_run E self base s' paid twice"
| run_claim: "v2_run E self base s paid twice \<Longrightarrow> contract_address ctx = self \<Longrightarrow> withdrawal \<noteq> Some self \<Longrightarrow>
    V2_ClaimDistribution ctx withdrawal s = Inr (s', a) \<Longrightarrow> v2_run E self base s' (paid + a) twice"
| run_coins: "v2_run E self base s paid twice \<Longrightarrow> wf_coin_store coin \<Longrightarrow> bal_of (p2_coin s) self \<le> bal_of coin self \<Longrightarrow>
    v2_run E self base (s\<lparr>p2_coin := coin\<rparr>) paid twice"

lemma v2_run_ok:
  assumes perm: "sort_perm E" and run: "v2_run E self base s paid twice"
  shows "v2_ok self base paid twice s"
  using run
proof induction
  case (run_init ctx params validators t coin s)
  then show ?case by (auto simp: V2_Init_def V2_saveState_def v2_ok_def Let_def elim!: bind_resE)
next
  case (run_delegate base s paid twice ctx req s')
  then show ?case by (blast intro: Delegate_ok perm)
next
  case (run_delegate2 base s paid twice ctx req s')
  then show ?case by (blast intro: Delegate2_ok perm)
next
  case (run_redelegate base s paid twice ctx rreq s')
  then show ?case by (blast intro: Redelegate_ok perm)
next
  case (run_unbond base s paid twice ureq a ctx s')
  then show ?case by (blast intro: Unbond_ok perm)
next
  case (run_register base s paid twice ctx greq s')
  then show ?case unfolding V2_RegisterCandidate_def by (blast intro: register_ok perm)
next
  case (run_register2 base s paid twice ctx greq s')
  then show ?case unfolding V2_RegisterCandidate2_def by (blast intro: register_ok perm)
next
  case (run_unregister base s paid twice ctx s')
  then show ?case by (blast intro: Unregister_ok perm)
next
  case (run_admin base s paid twice ctx s')
  then show ?case by (blast intro: same_stakes_ok admin_stakes)
next
  case (run_endblock base s paid twice ctx s' updates)
  then have "V2_Elect E ctx s = Inr s'" by (auto simp: EndBlockV2_def Let_def elim!: bind_resE)
  with run_endblock show ?case by (blast intro: Elect_ok perm)
next
  case (run_claim base s paid twice ctx withdrawal s' a)
  then show ?case by (blast intro: Claim_ok)
next
  case (run_coins base s paid twice coin)
  then show ?case by (auto simp: v2_ok_def)
qed

section \<open>One distribution per account\<close>

definition dists_ok :: "V2Distribution list \<Rightarrow> bool" where
  "dists_ok dl \<longleftrightarrow> distinct (map (\<lambda>t. Local (t2_Address t)) dl)"

lemma dists_ok_Increase [simp]: "dists_ok dl \<Longrightarrow> dists_ok (V2_IncreaseDistribution a n dl)"
  by (auto simp: V2_IncreaseDistribution_def V2_DistributionList_Get_def dists_ok_def V2_Distribution_is_def find_None_iff
      map_update_first split: option.split)

lemma dists_ok_sort [simp]: "dists_ok (V2_sortDistributions dl) = dists_ok dl"
  by (simp add: dists_ok_def V2_sortDistributions_def distinct_map flip: rev_map)

lemma dists_ok_Reset: "V2_ResetTotal a dl = Inr dl' \<Longrightarrow> dists_ok dl \<Longrightarrow> dists_ok dl'"
  by (auto simp: V2_ResetTotal_def dists_ok_def map_update_first split: option.split_asm)

lemma reward_or_slash_dists:
  "V2_reward_or_slash g cl v r = Inr r' \<Longrightarrow> dists_ok (w2_distributions r) \<Longrightarrow> dists_ok (w2_distributions r')"
  unfolding V2_reward_or_slash_def V2_reward_one_def Let_def
  by (auto elim!: bind_resE split: option.split_asm if_split_asm)

lemma distribute_one_dists:
  "V2_distribute_one ctx params f w d b = Inr b' \<Longrightarrow> dists_ok (b2_distributions b) \<Longrightarrow> dists_ok (b2_distributions b')"
  unfolding V2_distribute_one_def V2_pay_delegator_def Let_def
  by (auto elim!: bind_resE split: option.split_asm if_split_asm)

lemma Elect_dists:
  assumes "dists_ok (p2_distributions s)" and "V2_Elect E ctx s = Inr s'"
  shows "dists_ok (p2_distributions s')"
proof -
  let ?s = "V2_saveCandidateList (map V2_update_fee (p2_candidates s)) s"
  have d: "dists_ok (p2_distributions ?s)" using assms(1) by (simp add: V2_saveCandidateList_def)
  from assms(2) consider "s' = s" | "s' = ?s"
    | state r b where "V2_rewardAndSlash (V2_v2_1 ctx) state (p2_candidates ?s) ?s = Inr r"
        "V2_distributeDelegatorRewards ctx r (p2_coin ?s) = Inr b" "V2_conclude E ctx (p2_candidates ?s) r b ?s = Inr s'"
    unfolding V2_Elect_def Let_def by (auto elim!: bind_resE split: if_split_asm)
  then show ?thesis
  proof cases
    case (3 state r b)
    have r: "dists_ok (w2_distributions r)"
      by (rule fold_res_invariant [OF 3(1) [unfolded V2_rewardAndSlash_def], of "\<lambda>r. dists_ok (w2_distributions r)"])
        (use d reward_or_slash_dists in auto)
    from 3(2) obtain totals where f: "fold_res (V2_distribute_one ctx (ds_Params (w2_state r)) (w2_former r) (w2_rewards r)) (w2_delegations r)
        \<lparr>b2_done = [], b2_distributions = w2_distributions r, b2_totals = totals, b2_coin = p2_coin ?s\<rparr> = Inr b"
      unfolding V2_distributeDelegatorRewards_def by (auto elim: bind_resE)
    have "dists_ok (b2_distributions b)"
      by (rule fold_res_invariant [OF f, of "\<lambda>b. dists_ok (b2_distributions b)"]) (use r distribute_one_dists in auto)
    moreover have "p2_distributions s' = V2_sortDistributions (b2_distributions b)"
      using 3(3) unfolding V2_conclude_def Let_def
      by (auto simp: V2_saveState_def V2_saveValidatorStatisticList_def V2_saveDistributionList_def V2_saveDelegationList_def
          split: if_split_asm prod.split_asm)
    ultimately show ?thesis by simp
  qed (use assms(1) d in auto)
qed

lemma save_dists [simp]:
  "p2_distributions (V2_saveDelegationList E dl s) = p2_distributions s"
  "p2_distributions (V2_saveCandidateList cl s) = p2_distributions s"
  "p2_distributions (V2_saveValidatorStatisticList sl s) = p2_distributions s"
  "p2_distributions (V2_saveState st s) = p2_distributions s"
  by (simp_all add: V2_saveDelegationList_def V2_saveCandidateList_def V2_saveValidatorStatisticList_def V2_saveState_def)

lemma TransferFrom_dists: "V2_TransferFrom ctx a b n s = Inr s' \<Longrightarrow> p2_distributions s' = p2_distributions s"
  by (auto simp: V2_TransferFrom_def elim!: bind_resE)

lemma whitelist_dists: "V2_addCandidateToStatisticList req s = Inr s' \<Longrightarrow> p2_distributions s' = p2_distributions s"
  by (auto simp: V2_addCandidateToStatisticList_def elim!: bind_resE split: option.split_asm)

lemma batch_loop_dists: "V2_batch_loop rs (s, t, e) = Inr (s', t', e') \<Longrightarrow> p2_distributions s' = p2_distributions s"
proof (induction rs arbitrary: s t e)
  case (Cons r rs)
  from Cons.prems show ?case
    by (auto elim!: bind_resE split: V2Payload.split_asm if_split_asm sum.split_asm go_error.split_asm
        dest!: Cons.IH whitelist_dists)
qed simp

lemma admin_dists: "v2_admin ctx s s' \<Longrightarrow> p2_distributions s' = p2_distributions s"
proof (induction rule: v2_admin.induct)
  case (7 batch)
  then show ?case
    by (auto simp: V2_ProcessRequestBatch_def elim!: bind_resE split: if_split_asm dest!: batch_loop_dists)
qed (auto simp: V2_WhitelistCandidate_def V2_RemoveWhitelistedCandidate_def V2_ChangeWhitelistAmount_def
    V2_ChangeWhitelistLockTimeTier_def V2_change_whitelist_def V2_ChangeFee_def V2_UpdateCandidateInfo_def
    V2_SetElectionCycle_def V2_SetMaxYearlyReward_def V2_SetRegistrationRequirement_def
    V2_SetValidatorCount_def V2_SetOracleAddress_def V2_SetSlashingPercentages_def V2_set_params_def elim!: bind_resE
    split: if_split_asm option.split_asm dest: whitelist_dists)

lemma register_dists: "V2_register E ctx req n s = Inr s' \<Longrightarrow> p2_distributions s' = p2_distributions s"
  unfolding V2_register_def V2_registration_deposit_def Let_def
  by (auto elim!: bind_resE split: if_split_asm dest!: TransferFrom_dists)

lemma v2_run_dists: "v2_run E self base s paid twice \<Longrightarrow> dists_ok (p2_distributions s)"
proof (induction rule: v2_run.induct)
  case (run_init ctx params validators t coin s)
  then show ?case by (auto simp: V2_Init_def dists_ok_def Let_def elim!: bind_resE)
next
  case (run_delegate base s paid twice ctx req s')
  then show ?case unfolding V2_Delegate_def Let_def
    by (auto elim!: bind_resE split: if_split_asm option.split_asm dest!: TransferFrom_dists)
next
  case (run_delegate2 base s paid twice ctx req s')
  then show ?case unfolding V2_Delegate2_def Let_def
    by (auto elim!: bind_resE split: if_split_asm option.split_asm dest!: TransferFrom_dists)
next
  case (run_redelegate base s paid twice ctx rreq s')
  then show ?case unfolding V2_Redelegate_def Let_def
    by (auto elim!: bind_resE split: if_split_asm option.split_asm)
next
  case (run_unbond base s paid twice ureq a ctx s')
  then show ?case unfolding V2_Unbond_def Let_def
    by (auto elim!: bind_resE split: if_split_asm option.split_asm)
next
  case (run_register base s paid twice ctx greq s')
  then show ?case unfolding V2_RegisterCandidate_def by (auto dest: register_dists)
next
  case (run_register2 base s paid twice ctx greq s')
  then show ?case unfolding V2_RegisterCandidate2_def by (auto dest: register_dists)
next
  case (run_unregister base s paid twice ctx s')
  then show ?case unfolding V2_UnregisterCandidate_def Let_def
    by (auto elim!: bind_resE split: if_split_asm option.split_asm)
next
  case (run_admin base s paid twice ctx s')
  then show ?case by (auto dest: admin_dists)
next
  case (run_endblock base s paid twice ctx s' updates)
  then show ?case by (auto simp: EndBlockV2_def Let_def elim!: bind_resE intro: Elect_dists)
next
  case (run_claim base s paid twice ctx withdrawal s' a)
  then show ?case unfolding V2_ClaimDistribution_def V2_saveDistributionList_def Let_def
    by (auto elim!: bind_resE split: option.split_asm intro: dists_ok_Reset)
qed simp

section \<open>Filling version 3\<close>

lemma alist_update_fresh: "k \<notin> fst ` set al \<Longrightarrow> AList.update k v al = al @ [(k, v)]"
  by (induction al) auto

lemma fold_SetDelegation:
  assumes "distinct (map key_of ds)" and "key_of ` set ds \<inter> fst ` set (dp_delegations s) = {}"
  shows "dp_delegations (fold SetDelegation ds s) = dp_delegations s @ map (\<lambda>d. (key_of d, d)) ds"
  using assms
proof (induction ds arbitrary: s)
  case (Cons d ds)
  have d: "dp_delegations (SetDelegation d s) = dp_delegations s @ [(key_of d, d)]"
    unfolding dp_delegations_Set by (rule alist_update_fresh) (use Cons.prems(2) in auto)
  have "dp_delegations (fold SetDelegation ds (SetDelegation d s)) =
      dp_delegations (SetDelegation d s) @ map (\<lambda>d. (key_of d, d)) ds"
    by (rule Cons.IH) (use Cons.prems in \<open>auto simp: d\<close>)
  then show ?case by (simp add: d)
qed simp

lemma fold_frames:
  "dp_delegations (fold SetStatistic sts s) = dp_delegations s"
  "dp_coin (fold SetStatistic sts s) = dp_coin s"
  "dp_coin (fold SetDelegation ds s) = dp_coin s"
proof -
  show "dp_delegations (fold SetStatistic sts s) = dp_delegations s"
    by (induction sts arbitrary: s) (simp_all add: SetStatistic_def)
  show "dp_coin (fold SetStatistic sts s) = dp_coin s"
    by (induction sts arbitrary: s) (simp_all add: SetStatistic_def)
  show "dp_coin (fold SetDelegation ds s) = dp_coin s" by (induction ds arbitrary: s) simp_all
qed

definition locals2 :: "V2Delegation \<Rightarrow> bytes \<times> bytes" where
  "locals2 d = (Local (d2_Validator d), Local (d2_Delegator d))"

text \<open>The index of a dumped delegation counts the earlier ones with the same pair of addresses.\<close>

lemma dump_length [simp]: "length (dump_delegations ds idx) = length ds"
  by (induction ds arbitrary: idx) (simp_all add: Let_def)

lemma dump_Cons:
  "dump_delegations (d # ds) idx =
     dump_delegation (idx (locals2 d)) d # dump_delegations ds (idx(locals2 d := idx (locals2 d) + 1))"
  by (simp add: locals2_def Let_def)

lemma dump_nth:
  "i < length ds \<Longrightarrow> dump_delegations ds idx ! i =
     dump_delegation (idx (locals2 (ds ! i)) + of_nat (length (filter (\<lambda>d. locals2 d = locals2 (ds ! i)) (take i ds)))) (ds ! i)"
proof (induction ds arbitrary: idx i)
  case (Cons d ds)
  show ?case
  proof (cases i)
    case 0
    then show ?thesis by (simp add: locals2_def Let_def)
  next
    case (Suc j)
    with Cons.prems have "j < length ds" by simp
    note IH = Cons.IH [OF this, of "idx(locals2 d := idx (locals2 d) + 1)"]
    show ?thesis unfolding Suc dump_Cons nth_Cons_Suc take_Suc_Cons IH
      by (cases "locals2 d = locals2 (ds ! j)") (simp_all add: add.assoc)
  qed
qed simp

lemma key_of_dump: "key_of (dump_delegation n d) = (1 + n, Local (adjustValidatorIfInPlasmaValidators d), Local (d2_Delegator d))"
  by (simp add: key_of_def computeDelegationsKey_def dump_delegation_def)

lemma key_of_distribution: "key_of (dump_distribution t) = (0, Local limboValidatorAddress, Local (t2_Address t))"
  by (simp add: key_of_def computeDelegationsKey_def dump_distribution_def)

text \<open>The delegations of one account to different validators stay with different validators.\<close>

definition stays_apart :: "V2Delegation list \<Rightarrow> bool" where
  "stays_apart ds \<longleftrightarrow> (\<forall>d \<in> set ds. \<forall>e \<in> set ds.
     Local (d2_Delegator d) = Local (d2_Delegator e) \<and>
     Local (adjustValidatorIfInPlasmaValidators d) = Local (adjustValidatorIfInPlasmaValidators e) \<longrightarrow>
     Local (d2_Validator d) = Local (d2_Validator e))"

lemma of_nat_u64_inj:
  assumes "(of_nat a :: u64) = of_nat b" and "a < 2 ^ 64" and "b < 2 ^ 64"
  shows "a = b"
proof -
  have u: "unat (of_nat n :: u64) = n" if "n < 2 ^ 64" for n using that by (simp add: unat_of_nat)
  from u [OF assms(2)] u [OF assms(3)] assms(1) show ?thesis by metis
qed

lemma dump_keys:
  assumes apart: "stays_apart ds" and small: "length ds < 2 ^ 64 - 1"
  shows "distinct (map key_of (dump_delegations ds (\<lambda>_. 0)))"
    and "\<forall>d \<in> set (dump_delegations ds (\<lambda>_. 0)). fst (key_of d) \<noteq> 0"
proof -
  define c where "c i = length (filter (\<lambda>d. locals2 d = locals2 (ds ! i)) (take i ds))" for i
  have nth: "dump_delegations ds (\<lambda>_. 0) ! i = dump_delegation (of_nat (c i)) (ds ! i)" if "i < length ds" for i
    using dump_nth [OF that, of "\<lambda>_. 0"] by (simp add: c_def)
  have c: "c i \<le> i" for i unfolding c_def by (rule order_trans [OF length_filter_le]) simp
  have less: "c i < c j" if "i < j" "j < length ds" "locals2 (ds ! i) = locals2 (ds ! j)" for i j
  proof -
    have "take (Suc i) ds = take i ds @ [ds ! i]" using that by (simp add: take_Suc_conv_app_nth)
    then have "Suc (c i) = length (filter (\<lambda>d. locals2 d = locals2 (ds ! j)) (take (Suc i) ds))" using that by (simp add: c_def)
    also have "\<dots> \<le> c j"
    proof -
      have "take (Suc i) (take j ds) = take (Suc i) ds" using that(1) by (simp add: min_def)
      then have "take j ds = take (Suc i) ds @ drop (Suc i) (take j ds)" by (metis append_take_drop_id)
      then have "filter P (take j ds) = filter P (take (Suc i) ds) @ filter P (drop (Suc i) (take j ds))" for P
        by (metis filter_append)
      then show ?thesis unfolding c_def by simp
    qed
    finally show ?thesis by simp
  qed
  have neq: "key_of (dump_delegations ds (\<lambda>_. 0) ! i) \<noteq> key_of (dump_delegations ds (\<lambda>_. 0) ! j)"
    if "i < j" "j < length ds" for i j
  proof
    assume "key_of (dump_delegations ds (\<lambda>_. 0) ! i) = key_of (dump_delegations ds (\<lambda>_. 0) ! j)"
    then have k: "(of_nat (c i) :: u64) = of_nat (c j)" "Local (d2_Delegator (ds ! i)) = Local (d2_Delegator (ds ! j))"
      "Local (adjustValidatorIfInPlasmaValidators (ds ! i)) = Local (adjustValidatorIfInPlasmaValidators (ds ! j))"
      using that by (simp_all add: nth key_of_dump)
    have "ds ! i \<in> set ds" "ds ! j \<in> set ds" using that by simp_all
    with apart k(2,3) have "locals2 (ds ! i) = locals2 (ds ! j)" unfolding stays_apart_def locals2_def by blast
    from less [OF that this] have "c i < c j" .
    moreover have "c i = c j" by (rule of_nat_u64_inj [OF k(1)]) (use c [of i] c [of j] that small in linarith)+
    ultimately show False by simp
  qed
  show "distinct (map key_of (dump_delegations ds (\<lambda>_. 0)))"
    unfolding distinct_conv_nth using neq by (auto simp: nat_neq_iff) metis
  show "\<forall>d \<in> set (dump_delegations ds (\<lambda>_. 0)). fst (key_of d) \<noteq> 0"
  proof
    fix d assume "d \<in> set (dump_delegations ds (\<lambda>_. 0))"
    then obtain i where i: "i < length ds" "d = dump_delegation (of_nat (c i)) (ds ! i)"
      by (auto simp: in_set_conv_nth nth)
    show "fst (key_of d) \<noteq> 0"
    proof
      assume "fst (key_of d) = 0"
      then have "(of_nat (Suc (c i)) :: u64) = of_nat 0" by (simp add: i key_of_dump)
      from of_nat_u64_inj [OF this] show False using c [of i] i small by simp
    qed
  qed
qed

lemma dump_bonded: "d \<in> set (dump_delegations ds idx) \<Longrightarrow> dl_State d = BONDED"
  by (induction ds arbitrary: idx) (auto simp: Let_def dump_delegation_def)

lemma dump_amounts: "map dl_Amount (dump_delegations ds idx) = map adjustDoubledDelegationAmount ds"
  by (induction ds arbitrary: idx) (simp_all add: Let_def dump_delegation_def)

text \<open>What an account has paid in and the next election will bond.\<close>

definition waiting2 :: "V2Delegation \<Rightarrow> int" where
  "waiting2 d = (if d2_State d = BONDING then d2_UpdateAmount d else 0)"

lemma stakes_split: "stakes dl = (\<Sum>d\<leftarrow>dl. d2_Amount d) + (\<Sum>d\<leftarrow>dl. waiting2 d)"
  by (simp add: stakes_def owed2_def waiting2_def sum_list_addf)

section \<open>Properties\<close>

text \<open>C29: The balance of the second staking contract covers its stakes. In every run, what is bonded or
  waiting to be bonded is at most what the contract holds beyond its starting balance, plus the rewards
  it has paid out, plus the amounts of partial redelegations, which the contract counts twice.
\<close>

theorem v2_stakes_covered:
  assumes "sort_perm E" and "v2_run E self base s paid twice"
  shows "base + stakes (p2_delegations s) \<le> bal_of (p2_coin s) self + paid + twice"
  using v2_run_ok [OF assms] by (simp add: v2_ok_def)

definition demo_v2_env :: v2_env where
  "demo_v2_env = \<lparr>e2_local = (\<lambda>k. k), e2_localV2 = (\<lambda>k. k), e2_sort = (\<lambda>dl. dl)\<rparr>"

definition demo_v2_params :: DposParams where
  "demo_v2_params = demo_params\<lparr>pa_RegistrationRequirement := Some 0\<rparr>"

definition demo_v2_state :: DposState where
  "demo_v2_state = \<lparr>ds_Params = demo_v2_params, ds_Validators = [], ds_LastElectionTime = 0,
     ds_TotalValidatorDelegations = 0, ds_TotalRewardDistribution = 0\<rparr>"

definition demo_v2_start :: dpos2_store where
  "demo_v2_start = \<lparr>p2_state = Some demo_v2_state, p2_candidates = [], p2_delegations = [], p2_statistics = [],
     p2_distributions = [], p2_tally = \<lparr>LastSeenBlockNumber = 0, LastSeenTxIndex = 0, LastSeenLogIndex = 0\<rparr>, p2_coin = demo_coin\<rparr>"

definition demo_v2_registered :: dpos2_store where
  "demo_v2_registered = demo_v2_start\<lparr>p2_candidates := [\<lparr>c2_PubKey = [1], c2_Address = Address ''default'' [1], c2_Fee = 5,
     c2_NewFee = 5, c2_FeeDelayCounter = 0, c2_Name = ''a'', c2_Description = '''', c2_Website = ''''\<rparr>]\<rparr>"

definition demo_v2_delegation :: V2Delegation where
  "demo_v2_delegation = \<lparr>d2_Validator = Address ''default'' [1], d2_Delegator = demo_delegator, d2_Amount = 0,
     d2_UpdateAmount = 30, d2_UpdateValidator = None, d2_Height = 1, d2_LocktimeTier = 1, d2_LockTime = 7884000, d2_State = BONDING\<rparr>"

lemmas demo_v2_defs = demo_v2_registered_def demo_v2_start_def demo_v2_state_def demo_v2_params_def demo_params_def

lemma demo_v2_sorts: "sort_perm demo_v2_env"
  by (simp add: sort_perm_def demo_v2_env_def)

lemma demo_v2_run:
  obtains c where "v2_run demo_v2_env demo_contract 0
    (demo_v2_registered\<lparr>p2_coin := c, p2_delegations := [demo_v2_delegation]\<rparr>) 0 0" and "wf_coin_store c"
proof -
  have "bal_of demo_coin demo_contract = 0" and wf: "wf_coin_store demo_coin"
    by (simp_all add: demo_coin_def demo_contract_def demo_delegator_def store_simps)
  moreover have "V2_Init (plain_ctx demo_contract) demo_v2_params [] \<lparr>p2_state = None, p2_candidates = [], p2_delegations = [], p2_statistics = [],
      p2_distributions = [], p2_tally = \<lparr>LastSeenBlockNumber = 0, LastSeenTxIndex = 0, LastSeenLogIndex = 0\<rparr>, p2_coin = demo_coin\<rparr> = Inr demo_v2_start"
    by (simp add: V2_Init_def V2_active_def demo_v2_defs default_opt_def V2_saveState_def V2_sortValidators_def Let_def)
  ultimately have r0: "v2_run demo_v2_env demo_contract 0 demo_v2_start 0 0" using run_init [of _ _ _ _ demo_coin] by metis
  have reg: "V2_RegisterCandidate2 demo_v2_env (plain_ctx (Address ''default'' [1]))
      \<lparr>g2_PubKey = [1], g2_Fee = 5, g2_Name = ''a'', g2_Description = '''', g2_Website = '''', g2_LocktimeTier = 0\<rparr> demo_v2_start =
      Inr demo_v2_registered"
    by (simp add: V2_RegisterCandidate2_def V2_register_def V2_active_def demo_v2_env_def demo_v2_defs V2_CandidateList_Get_def V2_loadState_def
        V2_not_whitelisted_def V2_StatisticList_Get_def V2_saveCandidateList_def V2_sortCandidates_def V2_CandidateList_Set_def Let_def)
  have r: "v2_run demo_v2_env demo_contract 0 demo_v2_registered 0 0"
    by (rule run_register2 [OF r0 _ _ reg]) (simp_all add: demo_contract_def)
  have "\<exists>c. Coin_TransferFrom ((plain_ctx demo_delegator)\<lparr>sender := demo_contract\<rparr>) demo_coin
      \<lparr>tf_from = demo_delegator, tf_to = demo_contract, tf_amount = Some 30\<rparr> = Inr c"
    by (simp add: Coin_TransferFrom_def Coin_loadAccount_def Coin_loadAllowance_def coin_op_simps demo_coin_def
        put_allowance_def put_account_def empty_coin_store_def demo_delegator_def demo_contract_def)
  then obtain c where c: "Coin_TransferFrom ((plain_ctx demo_delegator)\<lparr>sender := demo_contract\<rparr>) demo_coin
      \<lparr>tf_from = demo_delegator, tf_to = demo_contract, tf_amount = Some 30\<rparr> = Inr c" ..
  have t: "V2_TransferFrom (plain_ctx demo_delegator) demo_delegator demo_contract 30 demo_v2_registered =
      Inr (demo_v2_registered\<lparr>p2_coin := c\<rparr>)"
    using c by (simp add: V2_TransferFrom_def demo_v2_registered_def demo_v2_start_def demo_contract_def)
  have del: "V2_Delegate2 demo_v2_env (plain_ctx demo_delegator)
      \<lparr>q2_ValidatorAddress = Some (Address ''default'' [1]), q2_Amount = Some 30, q2_LocktimeTier = 1\<rparr> demo_v2_registered =
      Inr (demo_v2_registered\<lparr>p2_coin := c, p2_delegations := [demo_v2_delegation]\<rparr>)"
    using t by (simp add: V2_Delegate2_def V2_active_def V2_v2_1_def demo_v2_env_def demo_v2_defs V2_CandidateList_Get_def V2_Candidate_is_def
        V2_loadState_def V2_loadCoin_def demo_contract_def [symmetric] V2_DelegationList_Get_def V2_prior_amount_def V2_tier_def V2_TierMap_def
        V2_tierTime_def V2_calculateTierLocktime_def V2_TierLocktimeMap_def unix_u64_def V2_saveDelegationList_def V2_DelegationList_Set2_def
        demo_v2_delegation_def Let_def)
  have "v2_run demo_v2_env demo_contract 0 (demo_v2_registered\<lparr>p2_coin := c, p2_delegations := [demo_v2_delegation]\<rparr>) 0 0"
    by (rule run_delegate2 [OF r _ _ del]) (simp_all add: demo_contract_def demo_delegator_def)
  moreover have "wf_coin_store c" using coin.transferFromD [OF wf c] by blast
  ultimately show thesis by (rule that)
qed

theorem v2_stakes_covered_witness:
  "\<exists>s. v2_run demo_v2_env demo_contract 0 s 0 0 \<and> stakes (p2_delegations s) = 30 \<and> 30 \<le> bal_of (p2_coin s) demo_contract"
proof (rule demo_v2_run)
  fix c
  assume r: "v2_run demo_v2_env demo_contract 0 (demo_v2_registered\<lparr>p2_coin := c, p2_delegations := [demo_v2_delegation]\<rparr>) 0 0"
  from v2_stakes_covered [OF demo_v2_sorts r] r show ?thesis
    by (auto simp: demo_v2_delegation_def owed2_def intro!: exI)
qed

text \<open>C30: What the migration to version 3 carries over. Take a run of version 2 after which the delegations
  of an account to different validators stay with different validators (\<open>stays_apart\<close>; otherwise one is lost).
  Version 3 stores exactly one delegation for each reward and each delegation of version 2, in order, and
  can look each of them up. All are bonded, with the tier and lock time they had, and with the amount
  that was bonded in version 2, halved for the one delegation that \<open>adjustDoubledDelegationAmount\<close> names.
  What version 3 owes is the sum of these amounts: against the stakes of version 2 it is short of what
  was waiting to be bonded, which stays in the update amount and is not counted, and of the halved part.
  All coins of version 2 belong to version 3, and version 3 is switched on.
\<close>

theorem v2_migration_exact:
  assumes "v2_run E self base s paid twice" and "sort_perm E" and "contract_address ctx = self" and "addr \<noteq> self"
    and "dp_delegations deployed = []" and "stays_apart (p2_delegations s)" and "length (p2_delegations s) < 2 ^ 64 - 1"
    and "DPOSv3Migration ctx addr deployed s features = Inr (s3, s2, features')"
  shows "map snd (dp_delegations s3) =
      map dump_distribution (p2_distributions s) @ dump_delegations (p2_delegations s) (\<lambda>_. 0) \<and>
    (\<forall>d \<in> set (map dump_distribution (p2_distributions s) @ dump_delegations (p2_delegations s) (\<lambda>_. 0)).
       GetDelegation s3 (dl_Index d) (dl_Validator d) (dl_Delegator d) = Some d) \<and>
    claims s3 = (\<Sum>t\<leftarrow>p2_distributions s. t2_Amount t) + (\<Sum>d\<leftarrow>p2_delegations s. adjustDoubledDelegationAmount d) \<and>
    claims s3 + (\<Sum>d\<leftarrow>p2_delegations s. waiting2 d) + (\<Sum>d\<leftarrow>p2_delegations s. d2_Amount d - adjustDoubledDelegationAmount d) =
      (\<Sum>t\<leftarrow>p2_distributions s. t2_Amount t) + stakes (p2_delegations s) \<and>
    dp_coin s3 = p2_coin s2 \<and> bal_of (p2_coin s2) self = 0 \<and>
    bal_of (p2_coin s2) addr = bal_of (p2_coin s) addr + bal_of (p2_coin s) self \<and> features' ''dpos:v3''"
proof -
  let ?ds = "map dump_distribution (p2_distributions s) @ dump_delegations (p2_delegations s) (\<lambda>_. 0)"
  from assms(8) obtain i where d: "Dump ctx addr s = Inr (i, s2)"
    and s3: "s3 = DPOS_Initialize i (deployed\<lparr>dp_coin := p2_coin s2\<rparr>)" and f: "features' = features(''dpos:v3'' := True)"
    unfolding DPOSv3Migration_def by (auto elim!: bind_resE)
  from d obtain coin bal where i: "is_Delegations i = ?ds" and b: "V2_BalanceOf self (p2_coin s) = Inr bal"
    and t: "V2_Transfer ctx addr bal (p2_coin s) = Inr coin" and s2: "s2 = s\<lparr>p2_coin := coin\<rparr>"
    unfolding Dump_def Let_def assms(3) by (auto elim!: bind_resE)
  have wf: "wf_coin_store (p2_coin s)" using v2_run_ok [OF assms(2,1)] by (simp add: v2_ok_def)
  have bal: "bal = bal_of (p2_coin s) self"
    using b Coin_loadAccount_balance [of "p2_coin s" self] by (auto simp: V2_BalanceOf_def Coin_BalanceOf_def)
  note coins = V2_TransferD(2) [OF wf t, unfolded assms(3)]
  note keys = dump_keys [OF assms(6,7)]
  have "distinct (map (\<lambda>t. key_of (dump_distribution t)) (p2_distributions s))"
    using v2_run_dists [OF assms(1)] by (auto simp: key_of_distribution dists_ok_def distinct_map inj_on_def)
  with keys(1) have dist: "distinct (map key_of ?ds)"
    using keys(2) by (auto simp: comp_def key_of_distribution) (metis fst_conv)
  have dels: "dp_delegations s3 = map (\<lambda>d. (key_of d, d)) ?ds"
    using fold_SetDelegation [OF dist] assms(5)
    by (simp add: s3 DPOS_Initialize_def fold_frames saveCandidateList_def saveState_def i)
  have snds: "map snd (dp_delegations s3) = ?ds" unfolding dels by (simp add: comp_def)
  have get: "GetDelegation s3 (dl_Index d) (dl_Validator d) (dl_Delegator d) = Some d" if "d \<in> set ?ds" for d
    unfolding GetDelegation_def dels key_of_def [symmetric]
    by (rule map_of_is_SomeI) (use dist that in \<open>auto simp: comp_def\<close>)
  have owed: "owed d = dl_Amount d" if "d \<in> set ?ds" for d
    using that by (auto simp: owed_def dump_distribution_def dest: dump_bonded)
  have "claims s3 = (\<Sum>d\<leftarrow>?ds. owed d)" by (simp add: claims_def dels comp_def)
  also have "map owed ?ds = map dl_Amount ?ds" by (rule map_cong [OF refl]) (rule owed)
  also have "sum_list (map dl_Amount ?ds) = (\<Sum>t\<leftarrow>p2_distributions s. t2_Amount t) + (\<Sum>d\<leftarrow>p2_delegations s. adjustDoubledDelegationAmount d)"
    by (simp add: comp_def dump_distribution_def dump_amounts)
  finally have claims: "claims s3 = (\<Sum>t\<leftarrow>p2_distributions s. t2_Amount t) + (\<Sum>d\<leftarrow>p2_delegations s. adjustDoubledDelegationAmount d)" .
  have c: "dp_coin s3 = p2_coin s2"
    by (simp add: s3 DPOS_Initialize_def fold_frames saveCandidateList_def saveState_def)
  have z: "bal_of (p2_coin s2) self = 0" "bal_of (p2_coin s2) addr = bal_of (p2_coin s) addr + bal_of (p2_coin s) self"
    using coins assms(4) by (simp_all add: s2 bal moved_def)
  from snds get claims c z f show ?thesis by (simp add: stakes_split sum_list_subtractf)
qed

text \<open>The delegation of the example, migrated.\<close>

theorem v2_migration_exact_witness:
  "\<exists>c s3 s2 features'. DPOSv3Migration (plain_ctx (Address ''default'' [7])) (Address ''default'' [8]) empty_dpos
      (demo_v2_registered\<lparr>p2_coin := c, p2_delegations := [demo_v2_delegation]\<rparr>) (\<lambda>_. False) = Inr (s3, s2, features') \<and>
    map snd (dp_delegations s3) = [dump_delegation 0 demo_v2_delegation] \<and> features' ''dpos:v3''"
proof (rule demo_v2_run)
  fix c
  let ?s = "demo_v2_registered\<lparr>p2_coin := c, p2_delegations := [demo_v2_delegation]\<rparr>"
  let ?ctx = "plain_ctx (Address ''default'' [7])" and ?a = "Address ''default'' [8]"
  assume r: "v2_run demo_v2_env demo_contract 0 ?s 0 0" and wf: "wf_coin_store c"
  have ctx: "contract_address ?ctx = demo_contract" "?a \<noteq> demo_contract" by (simp_all add: demo_contract_def)
  have fields: "dp_delegations empty_dpos = []" "stays_apart (p2_delegations ?s)" "length (p2_delegations ?s) < 2 ^ 64 - 1"
    by (simp_all add: empty_dpos_def stays_apart_def)
  have "\<exists>bal coin. V2_BalanceOf demo_contract c = Inr bal \<and> V2_Transfer ?ctx ?a bal c = Inr coin"
    using wf by (simp add: V2_BalanceOf_def Coin_BalanceOf_def V2_Transfer_def Coin_Transfer_def Coin_loadAccount_eq ledger_account_def
        Coin_saveAccount_def demo_contract_def Let_def)
  then obtain bal coin where "V2_BalanceOf demo_contract c = Inr bal" "V2_Transfer ?ctx ?a bal c = Inr coin" by blast
  then have "\<exists>s3 s2 features'. DPOSv3Migration ?ctx ?a empty_dpos ?s (\<lambda>_. False) = Inr (s3, s2, features')"
    by (simp add: DPOSv3Migration_def Dump_def V2_active_def V2_only_oracle_def V2_loadState_def demo_v2_defs V2_loadCoin_def
        demo_contract_def Let_def)
  then obtain s3 s2 features' where m: "DPOSv3Migration ?ctx ?a empty_dpos ?s (\<lambda>_. False) = Inr (s3, s2, features')" by blast
  from v2_migration_exact [OF r demo_v2_sorts ctx fields m] m show ?thesis
    by (intro exI [of _ c] exI [of _ s3] exI [of _ s2] exI [of _ features']) (simp add: demo_v2_registered_def demo_v2_start_def)
qed

section \<open>The validators manager\<close>

lemma V2_Elect_sorted:
  assumes "V2_Elect E ctx s = Inr s'" and "V2_ValidatorList s = Inr old" and "sorted (map va_PubKey old)"
    and "V2_ValidatorList s' = Inr new"
  shows "sorted (map va_PubKey new)"
proof -
  from assms(1) consider "p2_state s' = p2_state s" | st where "p2_state s' = Some st" "sorted (map va_PubKey (ds_Validators st))"
    unfolding V2_Elect_def V2_conclude_def Let_def
    by (auto simp: V2_saveState_def V2_saveCandidateList_def V2_sortValidators_def elim!: bind_resE
        split: if_split_asm prod.split_asm)
  then show ?thesis
  proof cases
    case 1
    with assms show ?thesis by (simp add: V2_ValidatorList_def V2_loadState_def)
  next
    case (2 st)
    with assms(4) show ?thesis by (simp add: V2_ValidatorList_def V2_loadState_def)
  qed
qed

text \<open>As in version 3, the updates of an end of block bring Tendermint to the validators of the contract.\<close>

lemma endblockV2_updates:
  assumes "EndBlockV2 E ctx s = Inr (s', updates)" and "V2_ValidatorList s = Inr old" and "V2_ValidatorList s' = Inr new"
    and "sorted (map va_PubKey old)" and "distinct (map va_PubKey old)" and "distinct (map va_PubKey new)"
  shows "fold tm_update updates (tm_set old) = tm_set new"
proof -
  from assms(1-3) have e: "V2_Elect E ctx s = Inr s'"
    and u: "updates = map (\<lambda>v. (va_PubKey v, 0)) (MissingValidators old new) @ map (\<lambda>v. (va_PubKey v, va_Power v)) new"
    by (auto simp: EndBlockV2_def Let_def elim!: bind_resE)
  have "sorted (map va_PubKey new)" by (rule V2_Elect_sorted [OF e assms(2,4,3)])
  from missing_updates [OF assms(4,5) this assms(6)] show ?thesis by (simp add: u)
qed

section \<open>What goes wrong\<close>

text \<open>
  A partial redelegation adds the amount to the stakes without any coins coming in, and what was
  delegated to the new validator before is overwritten.
\<close>

lemma partial_redelegation_unbacked:
  assumes "sort_perm E" and "V2_Redelegate E ctx req s = Inr s'" and "partial_amount ctx req s \<noteq> 0"
    and "r2_FormerValidatorAddress req = Some former" and "V2_DelegationList_Get (p2_delegations s) former (sender ctx) = Some prior"
    and "d2_State prior = BONDED" and "\<And>v. Local v \<noteq> Local former \<Longrightarrow> V2_DelegationList_Get (p2_delegations s) v (sender ctx) = None"
  shows "stakes (p2_delegations s') = stakes (p2_delegations s) + partial_amount ctx req s" and "p2_coin s' = p2_coin s"
proof -
  have *: "stakes (p2_delegations s') = stakes (p2_delegations s) + partial_amount ctx req s \<and> p2_coin s' = p2_coin s"
    using assms(2)
  proof (cases rule: V2_RedelegateD)
    case (part former' v prior' a)
    let ?f = "\<lambda>d. d\<lparr>d2_State := UNBONDING, d2_UpdateAmount := a\<rparr>"
    let ?dl = "update_first (V2_pair former' (sender ctx)) ?f (p2_delegations s)"
    let ?nd = "\<lparr>d2_Validator = v, d2_Delegator = d2_Delegator prior', d2_Amount = 0, d2_UpdateAmount = a,
         d2_UpdateValidator = None, d2_Height = of_int (block_height ctx),
         d2_LocktimeTier = d2_LocktimeTier prior', d2_LockTime = d2_LockTime prior', d2_State = BONDING\<rparr>"
    have l: "Local former' = Local former"
      using part(1) assms(7) [of former'] by force
    then have same: "V2_pair former' = V2_pair former" by (simp add: V2_pair_def fun_eq_iff)
    have p': "prior' = prior" using part(1) assms(5) by (simp add: V2_DelegationList_Get_def same)
    have f: "find (V2_pair former' (sender ctx)) (p2_delegations s) = Some prior"
      using part(1) p' by (simp add: V2_DelegationList_Get_def)
    have d: "Local (d2_Delegator prior) = Local (sender ctx)" using f by (auto simp: find_Some_iff V2_pair_def)
    have "V2_DelegationList_Get (p2_delegations s) v (sender ctx) = None" using part(5) l assms(7) by metis
    then have "\<forall>x \<in> set (p2_delegations s). \<not> V2_pair v (d2_Delegator prior) x"
      using d by (auto simp: V2_DelegationList_Get_def find_None_iff V2_pair_def)
    then have "\<forall>x \<in> set ?dl. \<not> V2_pair v (d2_Delegator prior) x"
      by (rule update_first_all) (simp add: V2_pair_def)
    then have n: "V2_DelegationList_Get ?dl v (d2_Delegator prior) = None"
      by (simp add: V2_DelegationList_Get_def find_None_iff)
    have "stakes (V2_DelegationList_Set ?dl ?nd) = stakes ?dl + a"
      using n by (simp add: Set_stakes p' owed2_def)
    also have "stakes ?dl = stakes (p2_delegations s)"
      using stakes_update_first [OF f, of ?f] assms(6) by (simp add: owed2_def)
    finally show ?thesis
      unfolding part(2,6) V2_saveDelegationList_def using sort_perm_facts(1) [OF assms(1)] by simp
  qed (use assms(3) in simp)
  then show "stakes (p2_delegations s') = stakes (p2_delegations s) + partial_amount ctx req s" and "p2_coin s' = p2_coin s" by auto
qed

text \<open>A candidate without a statistic, never elected and never whitelisted, cannot unregister.\<close>

lemma unregister_panics:
  assumes "\<not> feature_enabled ctx ''dpos:v3'' False" and "V2_CandidateList_Get (p2_candidates s) (sender ctx) \<noteq> None"
    and "V2_StatisticList_Get (p2_statistics s) (sender ctx) = None"
  shows "V2_UnregisterCandidate E ctx s = Inl (Panic ''nil pointer dereference'')"
  using assms by (auto simp: V2_UnregisterCandidate_def V2_active_def V2_slashValidatorDelegations_def Let_def)

text \<open>\<open>RegisterCandidate\<close> leaves the new fee at zero: after two elections the candidate has no fee.\<close>

lemma registration_fee_lost:
  "c2_Fee c \<noteq> 0 \<Longrightarrow> c2_NewFee c = 0 \<Longrightarrow> c2_FeeDelayCounter c = 0 \<Longrightarrow> c2_Fee (V2_update_fee (V2_update_fee c)) = 0"
  by (simp add: V2_update_fee_def Let_def)

text \<open>Delegations of one account to two of the plasma validators fall on one key, and one of them is lost.\<close>

lemma migration_loses_delegation:
  assumes "p2_distributions s = []" and "p2_delegations s = [d, e]" and "dp_delegations deployed = []"
    and "Local (d2_Delegator d) = Local (d2_Delegator e)"
    and "Local (d2_Validator d) = plasmaValidators ! 1" and "Local (d2_Validator e) = plasmaValidators ! 2"
    and "DPOSv3Migration ctx addr deployed s features = Inr (s3, s2, features')"
  shows "map snd (dp_delegations s3) = [dump_delegation 0 e]"
proof -
  from assms(7) obtain i where "Dump ctx addr s = Inr (i, s2)" and s3: "s3 = DPOS_Initialize i (deployed\<lparr>dp_coin := p2_coin s2\<rparr>)"
    unfolding DPOSv3Migration_def by (auto elim!: bind_resE)
  then have "is_Delegations i = dump_delegations [d, e] (\<lambda>_. 0)"
    using assms(1,2) unfolding Dump_def Let_def by (auto elim!: bind_resE)
  moreover have "plasmaValidators ! 1 \<noteq> plasmaValidators ! 2" by (simp add: plasmaValidators_def)
  ultimately have i: "is_Delegations i = [dump_delegation 0 d, dump_delegation 0 e]" using assms(5,6) by (simp add: Let_def)
  have "plasmaValidators ! 1 \<in> set plasmaValidators" "plasmaValidators ! 2 \<in> set plasmaValidators"
    by (simp_all add: plasmaValidators_def)
  then have "key_of (dump_delegation 0 d) = key_of (dump_delegation 0 e)"
    using assms(4-6) by (simp add: key_of_dump adjustValidatorIfInPlasmaValidators_def)
  then show ?thesis
    using assms(3) by (simp add: s3 DPOS_Initialize_def fold_frames i dp_delegations_Set saveCandidateList_def saveState_def)
qed

end
