(* ===== verification/Gateway_V1.thy ===== *)
theory Gateway_V1
  imports Gateway_Withdrawals
begin

text \<open>
  The first version of the transfer gateway, \<open>builtin/plugins/gateway/v1/gateway.go\<close> and
  \<open>gateway_contract_mapping.go\<close>. It knows ERC721, ERC20 and ETH, keeps one account per address of this
  chain with its receipt and its own nonce, and finds the account of a completed withdrawal by asking
  the address mapper. Token contracts in the EVM are the operations of \<open>evm_tokens\<close>, extended by
  \<open>ownerOf\<close>; ETH is the contract of \<open>Eth_Coin\<close>.

  Shared with \<open>Gateway\<close>: the state record and the list of withdrawers in it, pending contract mappings,
  the Solidity hash, and the way calls keep the writes made before a failure.
\<close>

section \<open>State\<close>

datatype TokenKind1 = TokenKind_ERC721 | TokenKind_ERC20 | TokenKind_ETH | TokenKind_Other nat

record Receipt1 =
  r1_TokenOwner :: address
  r1_TokenContract :: address
  r1_TokenKind :: TokenKind1
  r1_Value :: int
  r1_WithdrawalNonce :: u64
  r1_OracleSignature :: slice

record Account1 =
  ac_Owner :: address
  ac_WithdrawalReceipt :: "Receipt1 option"
  ac_WithdrawalNonce :: u64

record UnclaimedToken1 =
  ut1_TokenContract :: "address option"
  ut1_TokenKind :: TokenKind1
  ut1_Values :: "int list"

record TokenEvent1 =
  te_TokenOwner :: "address option"
  te_TokenContract :: "address option"
  te_TokenKind :: TokenKind1
  te_Value :: "int option"

datatype payload1 = Deposit1 TokenEvent1 | Withdrawal1 TokenEvent1 | NoPayload1

record MainnetEvent1 =
  me1_EthBlock :: u64
  me1_Payload :: payload1

datatype g1_event =
    Ev1MainnetDeposit TokenEvent1
  | Ev1MainnetWithdrawal TokenEvent1
  | Ev1ProcessEventError MainnetEvent1
  | Ev1Withdraw Receipt1
  | Ev1TokenWithdrawalSigned Receipt1
  | Ev1ContractMappingConfirmed address address
  | Ev1ReclaimError address

record 't g1_world =
  g1_state :: "GatewayState option"
  g1_oracles :: "address list"
  g1_accounts :: "address \<rightharpoonup> Account1"
  g1_unclaimed :: "((address \<times> address) \<times> UnclaimedToken1) list"
  g1_depositors :: "((address \<times> address) \<times> address) list"
  g1_mappings :: "address \<rightharpoonup> AddressMapping"
  g1_pending :: "(u64 \<times> PendingContractMapping) list"
  g1_perms :: permissions
  g1_eth :: coin_store
  g1_mapper :: am_store
  g1_tokens :: 't
  g1_events :: "g1_event list"

record 't evm_tokens1 = "'t evm_tokens" +
  erc721_ownerOf :: "address \<Rightarrow> int \<Rightarrow> 't \<Rightarrow> address res"

definition emit1 :: "g1_event \<Rightarrow> 't g1_world \<Rightarrow> 't g1_world" where
  "emit1 ev w = w\<lparr>g1_events := g1_events w @ [ev]\<rparr>"

section \<open>Storage helpers\<close>

definition G1_loadState :: "'t g1_world \<Rightarrow> GatewayState" where
  "G1_loadState w =
     (case g1_state w of
        None \<Rightarrow> \<lparr>gs_Owner = None, gs_NextContractMappingID = 0, gs_LastMainnetBlockNum = 0, gs_TokenWithdrawers = []\<rparr>
      | Some s \<Rightarrow> s)"

definition G1_saveState :: "GatewayState \<Rightarrow> 't g1_world \<Rightarrow> 't g1_world" where
  "G1_saveState s w = w\<lparr>g1_state := Some s\<rparr>"

definition loadAccount1 :: "'t g1_world \<Rightarrow> address \<Rightarrow> Account1" where
  "loadAccount1 w owner =
     (case g1_accounts w owner of
        None \<Rightarrow> \<lparr>ac_Owner = owner, ac_WithdrawalReceipt = None, ac_WithdrawalNonce = 0\<rparr>
      | Some a \<Rightarrow> a)"

definition saveAccount1 :: "Account1 \<Rightarrow> 't g1_world \<Rightarrow> 't g1_world" where
  "saveAccount1 acct w = w\<lparr>g1_accounts := (g1_accounts w)(ac_Owner acct \<mapsto> acct)\<rparr>"

definition G1_resolveToMapped :: "'t g1_world \<Rightarrow> address \<Rightarrow> address res" where
  "G1_resolveToMapped w a = bind_res (GetMapping (Some a) (g1_mapper w)) (\<lambda>m. Inr (am_To m))"

definition G1_resolveToLocalContractAddr :: "'t g1_world \<Rightarrow> address \<Rightarrow> address res" where
  "G1_resolveToLocalContractAddr w foreignAddr = bind_res (ctx_get (g1_mappings w) foreignAddr) (\<lambda>m. Inr (am_To m))"

definition G1_resolveToForeignContractAddr :: "'t g1_world \<Rightarrow> address \<Rightarrow> address res" where
  "G1_resolveToForeignContractAddr w localAddr = bind_res (ctx_get (g1_mappings w) localAddr) (\<lambda>m. Inr (am_To m))"

section \<open>Owner and oracles\<close>

definition G1_addOracle :: "address \<Rightarrow> 't g1_world \<Rightarrow> 't g1_world" where
  "G1_addOracle a w =
     w\<lparr>g1_perms := fold (\<lambda>p ps. GrantPermissionTo ps a p ''oracle'') oracle_perms (g1_perms w),
       g1_oracles := List.insert a (g1_oracles w)\<rparr>"

definition G1_Init :: "address option \<Rightarrow> address list \<Rightarrow> u64 \<Rightarrow> 't g1_world \<Rightarrow> 't g1_world res" where
  "G1_Init owner oracles firstBlock w =
     (case owner of
        None \<Rightarrow> Inl (Err ''TG008: owner not specified'')
      | Some ownerAddr \<Rightarrow>
          let w = w\<lparr>g1_perms := GrantPermissionTo (g1_perms w) ownerAddr ''change-oracles'' ''owner''\<rparr>;
              w = fold G1_addOracle oracles w
          in Inr (G1_saveState \<lparr>gs_Owner = Some ownerAddr, gs_NextContractMappingID = 1, gs_LastMainnetBlockNum = firstBlock,
                gs_TokenWithdrawers = []\<rparr> w))"

definition G1_AddOracle :: "call_ctx \<Rightarrow> address option \<Rightarrow> 't g1_world \<Rightarrow> 't g1_world res" where
  "G1_AddOracle ctx req w =
     (case req of
        None \<Rightarrow> Inl ErrTGInvalidRequest
      | Some a \<Rightarrow>
          if \<not> HasPermission (g1_perms w) (sender ctx) ''change-oracles'' [''owner''] then Inl ErrTGNotAuthorized
          else if a \<in> set (g1_oracles w) then Inl (Err ''TG009: oracle already registered'')
          else Inr (G1_addOracle a w))"

definition G1_RemoveOracle :: "call_ctx \<Rightarrow> address option \<Rightarrow> 't g1_world \<Rightarrow> 't g1_world res" where
  "G1_RemoveOracle ctx req w =
     (case req of
        None \<Rightarrow> Inl ErrTGInvalidRequest
      | Some a \<Rightarrow>
          if \<not> HasPermission (g1_perms w) (sender ctx) ''change-oracles'' [''owner''] then Inl ErrTGNotAuthorized
          else if a \<notin> set (g1_oracles w) then Inl (Err ''TG010: oracle not registered'')
          else Inr (w\<lparr>g1_perms := fold (\<lambda>p ps. RevokePermissionFrom ps a p ''oracle'') oracle_perms (g1_perms w),
                 g1_oracles := filter (\<lambda>b. b \<noteq> a) (g1_oracles w)\<rparr>))"

text \<open>The oracles come back in the order of their keys.\<close>

definition G1_GetOracles :: "'t g1_world \<Rightarrow> address list" where
  "G1_GetOracles w = sort_key key_bytes (g1_oracles w)"

definition G1_GetState :: "'t g1_world \<Rightarrow> GatewayState" where
  "G1_GetState w = G1_loadState w"

section \<open>The other contracts\<close>

definition G1_on_tokens :: "('t \<Rightarrow> unit res \<times> 't) \<Rightarrow> 't g1_world \<Rightarrow> unit res \<times> 't g1_world" where
  "G1_on_tokens f w = (case f (g1_tokens w) of (r, t) \<Rightarrow> (r, w\<lparr>g1_tokens := t\<rparr>))"

definition G1_on_eth :: "(coin_store \<Rightarrow> coin_store res) \<Rightarrow> 't g1_world \<Rightarrow> unit res \<times> 't g1_world" where
  "G1_on_eth f w = (case f (g1_eth w) of Inl e \<Rightarrow> (Inl e, w) | Inr c \<Rightarrow> (Inr (), w\<lparr>g1_eth := c\<rparr>))"

definition newETHContext1 :: "call_ctx \<Rightarrow> unit res" where
  "newETHContext1 ctx = (case resolve ctx ''ethcoin'' of Inl e \<Rightarrow> Inl (Panic ''resolve'') | Inr _ \<Rightarrow> Inr ())"

definition eth1_balanceOf :: "'t g1_world \<Rightarrow> address \<Rightarrow> int res" where
  "eth1_balanceOf w owner = ETHCoin_BalanceOf (g1_eth w) owner"

definition eth1_transferFrom :: "call_ctx \<Rightarrow> address \<Rightarrow> address \<Rightarrow> int \<Rightarrow> 't g1_world \<Rightarrow> unit res \<times> 't g1_world" where
  "eth1_transferFrom ctx src dst amount =
     G1_on_eth (\<lambda>c. ETHCoin_TransferFrom (as_gateway ctx) c \<lparr>tf_from = src, tf_to = dst, tf_amount = Some amount\<rparr>)"

definition eth1_transfer :: "call_ctx \<Rightarrow> address \<Rightarrow> int \<Rightarrow> 't g1_world \<Rightarrow> unit res \<times> 't g1_world" where
  "eth1_transfer ctx to amount = G1_on_eth (\<lambda>c. ETHCoin_Transfer (as_gateway ctx) c \<lparr>tr_to = to, tr_amount = Some amount\<rparr>)"

definition eth1_mintToGateway :: "call_ctx \<Rightarrow> int \<Rightarrow> 't g1_world \<Rightarrow> unit res \<times> 't g1_world" where
  "eth1_mintToGateway ctx amount = G1_on_eth (\<lambda>c. ETHCoin_MintToGateway (as_gateway ctx) c (Some amount))"

section \<open>Deposits\<close>

definition validate1 :: "string \<Rightarrow> TokenEvent1 \<Rightarrow> unit res" where
  "validate1 what d =
     (case te_TokenKind d of
        TokenKind_Other _ \<Rightarrow> Inl (Err what)
      | k \<Rightarrow>
          if k \<noteq> TokenKind_ETH \<and> te_TokenContract d = None then Inl ErrTGInvalidRequest
          else if te_TokenOwner d = None \<or> te_Value d = None then Inl ErrTGInvalidRequest
          else Inr ())"

definition G1_validateTokenDeposit :: "TokenEvent1 \<Rightarrow> unit res" where
  "G1_validateTokenDeposit = validate1 ''deposits not supported''"

definition G1_transferTokenDeposit ::
    "'t evm_tokens1 \<Rightarrow> call_ctx \<Rightarrow> address \<Rightarrow> address \<Rightarrow> TokenKind1 \<Rightarrow> int \<Rightarrow> 't g1_world \<Rightarrow> unit res \<times> 't g1_world" where
  "G1_transferTokenDeposit T ctx ownerEthAddr tokenEthAddr kind v w =
     (let gwAddr = contract_address ctx in
      seq_res (resolve ctx ''addressmapper'', w) (\<lambda>_ w.
      seq_res (G1_resolveToMapped w ownerEthAddr, w) (\<lambda>ownerAddr w.
      case kind of
        TokenKind_ERC721 \<Rightarrow>
          seq_res (G1_resolveToLocalContractAddr w tokenEthAddr, w) (\<lambda>tokenAddr w.
          seq_res (erc721_exists T tokenAddr v (g1_tokens w), w) (\<lambda>ex w.
          seq_res (if ex then (Inr (), w) else G1_on_tokens (erc721_mintToGateway T gwAddr tokenAddr v) w) (\<lambda>_ w.
          G1_on_tokens (erc721_safeTransferFrom T gwAddr tokenAddr gwAddr ownerAddr v) w)))
      | TokenKind_ERC20 \<Rightarrow>
          seq_res (G1_resolveToLocalContractAddr w tokenEthAddr, w) (\<lambda>tokenAddr w.
          seq_res (erc20_balanceOf T tokenAddr gwAddr (g1_tokens w), w) (\<lambda>availableFunds w.
          seq_res (if availableFunds < v then G1_on_tokens (erc20_mintToGateway T gwAddr tokenAddr v) w else (Inr (), w)) (\<lambda>_ w.
          G1_on_tokens (erc20_transfer T gwAddr tokenAddr ownerAddr v) w)))
      | TokenKind_ETH \<Rightarrow>
          seq_res (newETHContext1 ctx, w) (\<lambda>_ w.
          seq_res (eth1_balanceOf w gwAddr, w) (\<lambda>availableFunds w.
          seq_res (if availableFunds < v then eth1_mintToGateway ctx v w else (Inr (), w)) (\<lambda>_ w.
          eth1_transfer ctx ownerAddr v w)))
      | TokenKind_Other _ \<Rightarrow> (Inr (), w))))"

text \<open>
  An unclaimed token keeps one value per ERC721 token and the total amount otherwise. Only deposits
  that passed \<open>G1_validateTokenDeposit\<close> get here, so owner and value are present.
\<close>

definition G1_storeUnclaimedToken :: "TokenEvent1 \<Rightarrow> 't g1_world \<Rightarrow> 't g1_world res" where
  "G1_storeUnclaimedToken d w =
     bind_res (deref (te_TokenOwner d)) (\<lambda>ownerAddr.
     bind_res (deref (te_Value d)) (\<lambda>v.
     let tokenAddr = token_of (te_TokenContract d);
         u = (case map_of (g1_unclaimed w) (ownerAddr, tokenAddr) of
                None \<Rightarrow> \<lparr>ut1_TokenContract = te_TokenContract d, ut1_TokenKind = te_TokenKind d, ut1_Values = []\<rparr>
              | Some u \<Rightarrow> u);
         vals = (case te_TokenKind d of
                TokenKind_ERC721 \<Rightarrow> ut1_Values u @ [v]
              | TokenKind_Other _ \<Rightarrow> ut1_Values u
              | _ \<Rightarrow> [(case ut1_Values u of [oldAmount] \<Rightarrow> oldAmount | _ \<Rightarrow> 0) + v])
     in Inr (w\<lparr>g1_depositors := AList.update (tokenAddr, ownerAddr) ownerAddr (g1_depositors w),
               g1_unclaimed := AList.update (ownerAddr, tokenAddr) (u\<lparr>ut1_Values := vals\<rparr>) (g1_unclaimed w)\<rparr>)))"

section \<open>Completed withdrawals\<close>

text \<open>The account is the one the owner is mapped to now; contract and value are not compared with the receipt.\<close>

definition G1_completeTokenWithdraw ::
    "call_ctx \<Rightarrow> TokenEvent1 \<Rightarrow> GatewayState \<Rightarrow> 't g1_world \<Rightarrow> GatewayState res \<times> 't g1_world" where
  "G1_completeTokenWithdraw ctx d state w =
     seq_res (validate1 ''withdrawals not supported'' d, w) (\<lambda>_ w.
     seq_res (resolve ctx ''addressmapper'', w) (\<lambda>_ w.
     seq_res (deref (te_TokenOwner d), w) (\<lambda>ownerEthAddr w.
     seq_res (G1_resolveToMapped w ownerEthAddr, w) (\<lambda>ownerAddr w.
     let account = loadAccount1 w ownerAddr in
     if ac_WithdrawalReceipt account = None then (Inl (Err ''no pending withdrawal found''), w)
     else (removeTokenWithdrawer state ownerAddr, saveAccount1 (account\<lparr>ac_WithdrawalReceipt := None\<rparr>) w)))))"

section \<open>Batches of events\<close>

definition G1_process_deposit ::
    "'t evm_tokens1 \<Rightarrow> call_ctx \<Rightarrow> MainnetEvent1 \<Rightarrow> TokenEvent1 \<Rightarrow> 't g1_world \<Rightarrow> outcome \<times> 't g1_world" where
  "G1_process_deposit T ctx ev d w =
     (case G1_validateTokenDeposit d of
        Inl e \<Rightarrow> (Skip, emit1 (Ev1ProcessEventError ev) w)
      | Inr _ \<Rightarrow>
          (case G1_transferTokenDeposit T ctx (the (te_TokenOwner d)) (token_of (te_TokenContract d)) (te_TokenKind d)
                  (the (te_Value d)) w of
             (Inr _, w) \<Rightarrow> (Count, emit1 (Ev1MainnetDeposit d) w)
           | (Inl (Panic msg), w) \<Rightarrow> (Abort (Panic msg), w)
           | (Inl e, w) \<Rightarrow>
               (case G1_storeUnclaimedToken d (emit1 (Ev1ProcessEventError ev) w) of
                  Inl e \<Rightarrow> (Abort e, w)
                | Inr w \<Rightarrow> (Count, emit1 (Ev1MainnetDeposit d) w))))"

definition G1_process_withdrawal ::
    "call_ctx \<Rightarrow> MainnetEvent1 \<Rightarrow> TokenEvent1 \<Rightarrow> GatewayState \<Rightarrow> 't g1_world \<Rightarrow> outcome \<times> GatewayState \<times> 't g1_world" where
  "G1_process_withdrawal ctx ev d state w =
     (case G1_completeTokenWithdraw ctx d state w of
        (Inl e, w) \<Rightarrow> (handle_err e Skip, state, emit1 (Ev1ProcessEventError ev) w)
      | (Inr state, w) \<Rightarrow> (Count, state, emit1 (Ev1MainnetWithdrawal d) w))"

definition G1_process_payload ::
    "'t evm_tokens1 \<Rightarrow> call_ctx \<Rightarrow> MainnetEvent1 \<Rightarrow> GatewayState \<Rightarrow> 't g1_world \<Rightarrow> outcome \<times> GatewayState \<times> 't g1_world" where
  "G1_process_payload T ctx ev state w =
     (case me1_Payload ev of
        Deposit1 d \<Rightarrow> (case G1_process_deposit T ctx ev d w of (out, w) \<Rightarrow> (out, state, w))
      | Withdrawal1 d \<Rightarrow> G1_process_withdrawal ctx ev d state w
      | NoPayload1 \<Rightarrow> (Skip, state, w))"

definition G1_process_event ::
    "'t evm_tokens1 \<Rightarrow> call_ctx \<Rightarrow> MainnetEvent1 \<Rightarrow> batch_loop \<times> 't g1_world \<Rightarrow> (batch_loop \<times> 't g1_world) res" where
  "G1_process_event T ctx ev bw =
     (case bw of (b, w) \<Rightarrow>
      if me1_EthBlock ev < bl_lastEthBlock b then Inl ErrInvalidEventBatch
      else if me1_EthBlock ev \<le> gs_LastMainnetBlockNum (bl_state b) then Inr (b, w)
      else
        (case G1_process_payload T ctx ev (bl_state b) w of
           (Abort e, _, _) \<Rightarrow> Inl e
         | (Skip, state, w) \<Rightarrow> Inr (b\<lparr>bl_state := state\<rparr>, w)
         | (Count, state, w) \<Rightarrow>
             let b = b\<lparr>bl_state := state\<rparr> in
             Inr (if me1_EthBlock ev > bl_lastEthBlock b
                  then b\<lparr>bl_blockCount := bl_blockCount b + 1, bl_lastEthBlock := me1_EthBlock ev\<rparr> else b, w)))"

definition G1_ProcessEventBatch ::
    "'t evm_tokens1 \<Rightarrow> call_ctx \<Rightarrow> MainnetEvent1 list \<Rightarrow> 't g1_world \<Rightarrow> 't g1_world res" where
  "G1_ProcessEventBatch T ctx events w =
     (if \<not> HasPermission (g1_perms w) (sender ctx) ''submit-events'' [''oracle''] then Inl ErrTGNotAuthorized
      else
        bind_res (fold_res (G1_process_event T ctx) events
          (\<lparr>bl_state = G1_loadState w, bl_blockCount = 0, bl_lastEthBlock = 0\<rparr>, w)) (\<lambda>(b, w).
        if bl_blockCount b = 0 then Inl (Err ''no new events found in the batch'')
        else Inr (G1_saveState ((bl_state b)\<lparr>gs_LastMainnetBlockNum := bl_lastEthBlock b\<rparr>) w)))"

section \<open>Withdrawals\<close>

definition G1_start_withdrawal :: "call_ctx \<Rightarrow> 't g1_world \<Rightarrow> address res" where
  "G1_start_withdrawal ctx w =
     (if ac_WithdrawalReceipt (loadAccount1 w (sender ctx)) \<noteq> None then Inl ErrPendingWithdrawalExists
      else bind_res (resolve ctx ''addressmapper'') (\<lambda>_. G1_resolveToMapped w (sender ctx)))"

text \<open>
  The receipt takes the account's nonce, which counts on. The account is the one loaded before the
  tokens moved; the contracts called in between have no way to change it.
\<close>

definition G1_file_receipt ::
    "call_ctx \<Rightarrow> address \<Rightarrow> address \<Rightarrow> TokenKind1 \<Rightarrow> int \<Rightarrow> 't g1_world \<Rightarrow> 't g1_world res" where
  "G1_file_receipt ctx ownerEthAddr tokenContract kind v w =
     (let account = loadAccount1 w (sender ctx);
          receipt = \<lparr>r1_TokenOwner = ownerEthAddr, r1_TokenContract = tokenContract, r1_TokenKind = kind, r1_Value = v,
            r1_WithdrawalNonce = ac_WithdrawalNonce account, r1_OracleSignature = None\<rparr>;
          w = emit1 (Ev1Withdraw receipt) w;
          w = saveAccount1 (account\<lparr>ac_WithdrawalReceipt := Some receipt, ac_WithdrawalNonce := ac_WithdrawalNonce account + 1\<rparr>) w
      in bind_res (addTokenWithdrawer (G1_loadState w) (sender ctx)) (\<lambda>state. Inr (G1_saveState state w)))"

definition G1_WithdrawERC721 ::
    "'t evm_tokens1 \<Rightarrow> call_ctx \<Rightarrow> int option \<Rightarrow> address option \<Rightarrow> 't g1_world \<Rightarrow> 't g1_world res" where
  "G1_WithdrawERC721 T ctx tokenId tokenContract w =
     (case (tokenId, tokenContract) of
        (Some i, Some tokenAddr) \<Rightarrow>
          let gwAddr = contract_address ctx in
          bind_res (G1_start_withdrawal ctx w) (\<lambda>ownerEthAddr.
          bind_res (G1_resolveToForeignContractAddr w tokenAddr) (\<lambda>tokenEthAddr.
          bind_res (only_ok (G1_on_tokens (erc721_safeTransferFrom T gwAddr tokenAddr (sender ctx) gwAddr i) w)) (\<lambda>w.
          bind_res (erc721_ownerOf T tokenAddr i (g1_tokens w)) (\<lambda>curOwner.
          if curOwner \<noteq> gwAddr then Inl (Err ''token has not been deposited to gateway'')
          else G1_file_receipt ctx ownerEthAddr tokenEthAddr TokenKind_ERC721 i w))))
      | _ \<Rightarrow> Inl ErrTGInvalidRequest)"

definition G1_WithdrawERC20 ::
    "'t evm_tokens1 \<Rightarrow> call_ctx \<Rightarrow> int option \<Rightarrow> address option \<Rightarrow> 't g1_world \<Rightarrow> 't g1_world res" where
  "G1_WithdrawERC20 T ctx amount tokenContract w =
     (case (amount, tokenContract) of
        (Some n, Some tokenAddr) \<Rightarrow>
          let gwAddr = contract_address ctx in
          bind_res (G1_start_withdrawal ctx w) (\<lambda>ownerEthAddr.
          bind_res (G1_resolveToForeignContractAddr w tokenAddr) (\<lambda>tokenEthAddr.
          bind_res (only_ok (G1_on_tokens (erc20_transferFrom T gwAddr tokenAddr (sender ctx) gwAddr n) w)) (\<lambda>w.
          G1_file_receipt ctx ownerEthAddr tokenEthAddr TokenKind_ERC20 n w)))
      | _ \<Rightarrow> Inl ErrTGInvalidRequest)"

definition G1_WithdrawETH ::
    "call_ctx \<Rightarrow> int option \<Rightarrow> address option \<Rightarrow> 't g1_world \<Rightarrow> 't g1_world res" where
  "G1_WithdrawETH ctx amount mainnetGateway w =
     (case (amount, mainnetGateway) of
        (Some n, Some mg) \<Rightarrow>
          bind_res (G1_start_withdrawal ctx w) (\<lambda>ownerEthAddr.
          bind_res (newETHContext1 ctx) (\<lambda>_.
          bind_res (only_ok (eth1_transferFrom ctx (sender ctx) (contract_address ctx) n w)) (\<lambda>w.
          G1_file_receipt ctx ownerEthAddr mg TokenKind_ETH n w)))
      | _ \<Rightarrow> Inl ErrTGInvalidRequest)"

text \<open>\<open>is_empty\<close> is \<open>Address.IsEmpty\<close> of the client library.\<close>

definition G1_WithdrawalReceipt ::
    "(address \<Rightarrow> bool) \<Rightarrow> call_ctx \<Rightarrow> address option \<Rightarrow> 't g1_world \<Rightarrow> Receipt1 option res" where
  "G1_WithdrawalReceipt is_empty ctx reqOwner w =
     (let owner = (case reqOwner of None \<Rightarrow> sender ctx | Some a \<Rightarrow> a) in
      if is_empty owner then Inl (Err ''no owner specified'')
      else Inr (ac_WithdrawalReceipt (loadAccount1 w owner)))"

text \<open>Protobuf does not keep an empty byte string apart from a missing one.\<close>

definition proto_bytes :: "bytes \<Rightarrow> slice" where
  "proto_bytes b = (if b = [] then None else Some b)"

definition G1_ConfirmWithdrawalReceipt ::
    "call_ctx \<Rightarrow> address option \<Rightarrow> slice \<Rightarrow> 't g1_world \<Rightarrow> 't g1_world res" where
  "G1_ConfirmWithdrawalReceipt ctx tokenOwner oracleSignature w =
     (if \<not> HasPermission (g1_perms w) (sender ctx) ''sign-withdrawals'' [''oracle''] then Inl ErrTGNotAuthorized
      else
        case (tokenOwner, oracleSignature) of
          (Some ownerAddr, Some sig) \<Rightarrow>
            let account = loadAccount1 w ownerAddr in
            (case ac_WithdrawalReceipt account of
               None \<Rightarrow> Inl ErrMissingWithdrawalReceipt
             | Some r \<Rightarrow>
                 if r1_OracleSignature r \<noteq> None then Inl ErrWithdrawalReceiptSigned
                 else
                   Inr (emit1 (Ev1TokenWithdrawalSigned (r\<lparr>r1_OracleSignature := Some sig\<rparr>))
                     (saveAccount1 (account\<lparr>ac_WithdrawalReceipt := Some (r\<lparr>r1_OracleSignature := proto_bytes sig\<rparr>)\<rparr>) w)))
        | _ \<Rightarrow> Inl ErrTGInvalidRequest)"

section \<open>Pending withdrawals\<close>

definition G1_token_hash :: "sol_lib \<Rightarrow> Receipt1 \<Rightarrow> bytes option" where
  "G1_token_hash H r =
     (case r1_TokenKind r of
        TokenKind_ETH \<Rightarrow> Some (SoliditySHA3 H [SolUint256 (r1_Value r)])
      | TokenKind_Other _ \<Rightarrow> None
      | _ \<Rightarrow> Some (SoliditySHA3 H [SolUint256 (r1_Value r), SolAddress (BytesToAddress H (Local (r1_TokenContract r)))]))"

definition G1_withdrawal_hash :: "sol_lib \<Rightarrow> address \<Rightarrow> Receipt1 \<Rightarrow> bytes option" where
  "G1_withdrawal_hash H mainnetGateway r =
     map_option (\<lambda>hash. SoliditySHA3 H
       [SolAddress (BytesToAddress H (Local (r1_TokenOwner r))), SolUint256 (uint (r1_WithdrawalNonce r)),
        SolAddress (BytesToAddress H (Local mainnetGateway)), SolBytes hash]) (G1_token_hash H r)"

definition G1_summarise ::
    "sol_lib \<Rightarrow> address \<Rightarrow> 't g1_world \<Rightarrow> address \<Rightarrow> PendingWithdrawalSummary list \<Rightarrow> PendingWithdrawalSummary list res" where
  "G1_summarise H mainnetGateway w ownerAddr summaries =
     (case ac_WithdrawalReceipt (loadAccount1 w ownerAddr) of
        None \<Rightarrow> Inl ErrMissingWithdrawalReceipt
      | Some receipt \<Rightarrow>
          if r1_OracleSignature receipt \<noteq> None then Inr summaries
          else
            (case G1_withdrawal_hash H mainnetGateway receipt of
               None \<Rightarrow> Inr summaries
             | Some hash \<Rightarrow> Inr (summaries @ [\<lparr>ps_TokenOwner = ownerAddr, ps_Hash = hash\<rparr>])))"

definition G1_PendingWithdrawals ::
    "sol_lib \<Rightarrow> address option \<Rightarrow> 't g1_world \<Rightarrow> PendingWithdrawalSummary list res" where
  "G1_PendingWithdrawals H mainnetGateway w =
     (case mainnetGateway of
        None \<Rightarrow> Inl ErrTGInvalidRequest
      | Some mg \<Rightarrow> fold_res (G1_summarise H mg w) (gs_TokenWithdrawers (G1_loadState w)) [])"

section \<open>Unclaimed tokens\<close>

definition G1_unclaimedTokens :: "'t g1_world \<Rightarrow> address \<Rightarrow> UnclaimedToken1 list" where
  "G1_unclaimedTokens w ownerAddr =
     map snd (sort_key (\<lambda>e. key_bytes (snd (fst e))) (filter (\<lambda>e. fst (fst e) = ownerAddr) (g1_unclaimed w)))"

definition G1_unclaimedDepositors :: "'t g1_world \<Rightarrow> address \<Rightarrow> address list" where
  "G1_unclaimedDepositors w tokenAddr =
     map snd (sort_key (\<lambda>e. key_bytes (snd (fst e))) (filter (\<lambda>e. fst (fst e) = tokenAddr) (g1_depositors w)))"

definition G1_reclaim_value ::
    "'t evm_tokens1 \<Rightarrow> call_ctx \<Rightarrow> address \<Rightarrow> address \<Rightarrow> TokenKind1 \<Rightarrow> int
       \<Rightarrow> int list \<times> 't g1_world \<Rightarrow> (int list \<times> 't g1_world) res" where
  "G1_reclaim_value T ctx ownerAddr tokenAddr kind v fw =
     (case fw of (failed, w) \<Rightarrow>
      (case G1_transferTokenDeposit T ctx ownerAddr tokenAddr kind v w of
         (Inr _, w) \<Rightarrow> Inr (failed, w)
       | (Inl (Panic msg), w) \<Rightarrow> Inl (Panic msg)
       | (Inl e, w) \<Rightarrow> Inr (failed @ [v], w)))"

definition G1_reclaimDepositorTokensForContract ::
    "'t evm_tokens1 \<Rightarrow> call_ctx \<Rightarrow> address \<Rightarrow> address \<Rightarrow> UnclaimedToken1 \<Rightarrow> 't g1_world \<Rightarrow> 't g1_world res" where
  "G1_reclaimDepositorTokensForContract T ctx ownerAddr tokenAddr u w =
     bind_res (fold_res (G1_reclaim_value T ctx ownerAddr tokenAddr (ut1_TokenKind u)) (ut1_Values u) ([], w)) (\<lambda>(failed, w).
     if failed = [] then
       Inr (w\<lparr>g1_unclaimed := AList.delete (ownerAddr, tokenAddr) (g1_unclaimed w),
              g1_depositors := AList.delete (tokenAddr, ownerAddr) (g1_depositors w)\<rparr>)
     else Inr (w\<lparr>g1_unclaimed := AList.update (ownerAddr, tokenAddr) (u\<lparr>ut1_Values := failed\<rparr>) (g1_unclaimed w)\<rparr>))"

definition G1_reclaimDepositorTokens ::
    "'t evm_tokens1 \<Rightarrow> call_ctx \<Rightarrow> address \<Rightarrow> 't g1_world \<Rightarrow> 't g1_world res" where
  "G1_reclaimDepositorTokens T ctx ownerAddr w =
     fold_res (\<lambda>u. G1_reclaimDepositorTokensForContract T ctx ownerAddr (token_of (ut1_TokenContract u)) u)
       (G1_unclaimedTokens w ownerAddr) w"

text \<open>An error of one depositor is logged; only a panic ends the loop.\<close>

definition G1_reclaim_logged :: "address \<Rightarrow> 't g1_world \<Rightarrow> 't g1_world res \<Rightarrow> 't g1_world res" where
  "G1_reclaim_logged ownerAddr w r =
     (case r of Inl (Panic msg) \<Rightarrow> Inl (Panic msg) | Inl e \<Rightarrow> Inr (emit1 (Ev1ReclaimError ownerAddr) w) | Inr w \<Rightarrow> Inr w)"

definition G1_ReclaimDepositorTokens ::
    "'t evm_tokens1 \<Rightarrow> call_ctx \<Rightarrow> address list \<Rightarrow> 't g1_world \<Rightarrow> 't g1_world res" where
  "G1_ReclaimDepositorTokens T ctx depositors w =
     bind_res (resolve ctx ''addressmapper'') (\<lambda>_.
     if depositors = [] then
       bind_res (G1_resolveToMapped w (sender ctx)) (\<lambda>ownerAddr. G1_reclaimDepositorTokens T ctx ownerAddr w)
     else
       bind_res (deref (gs_Owner (G1_loadState w))) (\<lambda>owner.
       if owner \<noteq> sender ctx then Inl ErrTGNotAuthorized
       else fold_res (\<lambda>ownerAddr w. G1_reclaim_logged ownerAddr w (G1_reclaimDepositorTokens T ctx ownerAddr w)) depositors w))"

definition G1_reclaim_depositor ::
    "'t evm_tokens1 \<Rightarrow> call_ctx \<Rightarrow> address \<Rightarrow> address \<Rightarrow> 't g1_world \<Rightarrow> 't g1_world res" where
  "G1_reclaim_depositor T ctx tokenAddr ownerAddr w =
     (let empty = \<lparr>ut1_TokenContract = None, ut1_TokenKind = TokenKind_ERC721, ut1_Values = []\<rparr>;
          (u, w) = (case map_of (g1_unclaimed w) (ownerAddr, tokenAddr) of
                      None \<Rightarrow> (empty, emit1 (Ev1ReclaimError ownerAddr) w)
                    | Some u \<Rightarrow> (u, w))
      in G1_reclaim_logged ownerAddr w (G1_reclaimDepositorTokensForContract T ctx ownerAddr tokenAddr u w))"

definition G1_ReclaimContractTokens ::
    "'t evm_tokens1 \<Rightarrow> (address \<Rightarrow> address res) \<Rightarrow> call_ctx \<Rightarrow> address option \<Rightarrow> 't g1_world \<Rightarrow> 't g1_world res" where
  "G1_ReclaimContractTokens T creator_of ctx tokenContract w =
     (case tokenContract of
        None \<Rightarrow> Inl ErrTGInvalidRequest
      | Some foreignContractAddr \<Rightarrow>
          bind_res (G1_resolveToLocalContractAddr w foreignContractAddr) (\<lambda>localContractAddr.
          bind_res (creator_of localContractAddr) (\<lambda>creator.
          bind_res (if creator = sender ctx then Inr True
                    else bind_res (deref (gs_Owner (G1_loadState w))) (\<lambda>owner. Inr (owner = sender ctx))) (\<lambda>allowed.
          if \<not> allowed then Inl ErrTGNotAuthorized
          else fold_res (G1_reclaim_depositor T ctx foreignContractAddr)
                 (G1_unclaimedDepositors w foreignContractAddr) w))))"

section \<open>Contract mappings\<close>

definition G1_contractMappingExists :: "'t g1_world \<Rightarrow> address \<Rightarrow> address \<Rightarrow> bool" where
  "G1_contractMappingExists w foreignAddr localAddr \<longleftrightarrow>
     g1_mappings w foreignAddr \<noteq> None \<or> g1_mappings w localAddr \<noteq> None \<or>
     list_ex (\<lambda>(_, m). pm_ForeignContract m = foreignAddr \<or> pm_LocalContract m = localAddr) (g1_pending w)"

definition G1_AddContractMapping ::
    "sol_lib \<Rightarrow> (bytes \<Rightarrow> bytes \<Rightarrow> bytes res) \<Rightarrow> (address \<Rightarrow> address res) \<Rightarrow> call_ctx
       \<Rightarrow> address option \<Rightarrow> address option \<Rightarrow> slice \<Rightarrow> slice \<Rightarrow> 't g1_world \<Rightarrow> 't g1_world res" where
  "G1_AddContractMapping H recoverSig creator_of ctx foreignContract localContract creatorSig txHash w =
     (case (foreignContract, localContract, creatorSig, txHash) of
        (Some foreignAddr, Some localAddr, Some sig, Some hash) \<Rightarrow>
          if ChainID foreignAddr = [] \<or> ChainID localAddr = [] \<or> foreignAddr = localAddr then Inl ErrTGInvalidRequest
          else
            bind_res (creator_of localAddr) (\<lambda>creator.
            if sender ctx \<noteq> creator then Inl ErrTGNotAuthorized
            else if G1_contractMappingExists w foreignAddr localAddr then Inl ErrContractMappingExists
            else
              let state = G1_loadState w; i = gs_NextContractMappingID state in
              bind_res (recoverSig (SoliditySHA3 H [SolAddress (BytesToAddress H (Local foreignAddr)),
                          SolAddress (BytesToAddress H (Local localAddr))]) sig) (\<lambda>signer.
              Inr (G1_saveState (state\<lparr>gs_NextContractMappingID := i + 1\<rparr>)
                (w\<lparr>g1_pending := AList.update i \<lparr>pm_ID = i, pm_ForeignContract = foreignAddr, pm_LocalContract = localAddr,
                     pm_ForeignContractCreator = Address (ChainID foreignAddr) signer, pm_ForeignContractTxHash = hash\<rparr>
                     (g1_pending w)\<rparr>))))
      | _ \<Rightarrow> Inl ErrTGInvalidRequest)"

definition G1_UnverifiedContractCreators :: "'t g1_world \<Rightarrow> (u64 \<times> bytes) list" where
  "G1_UnverifiedContractCreators w =
     map (\<lambda>(_, m). (pm_ID m, pm_ForeignContractTxHash m)) (sort_key (\<lambda>e. be_encode64 (fst e)) (g1_pending w))"

definition G1_confirmContractMapping ::
    "PendingContractMapping \<Rightarrow> VerifiedContractCreator \<Rightarrow> 't g1_world \<Rightarrow> 't g1_world res" where
  "G1_confirmContractMapping m confirmation w =
     (let w = w\<lparr>g1_pending := AList.delete (vc_ContractMappingID confirmation) (g1_pending w)\<rparr>;
          f = pm_ForeignContract m; l = pm_LocalContract m in
      bind_res (deref (vc_Creator confirmation)) (\<lambda>creator.
      bind_res (deref (vc_Contract confirmation)) (\<lambda>contr.
      if pm_ForeignContractCreator m \<noteq> creator \<or> f \<noteq> contr then Inr w
      else Inr (emit1 (Ev1ContractMappingConfirmed f l)
             (w\<lparr>g1_mappings := (g1_mappings w)(f \<mapsto> \<lparr>am_From = f, am_To = l\<rparr>, l \<mapsto> \<lparr>am_From = l, am_To = f\<rparr>)\<rparr>)))))"

definition G1_verify_creator :: "VerifiedContractCreator \<Rightarrow> 't g1_world \<Rightarrow> 't g1_world res" where
  "G1_verify_creator c w =
     (case map_of (g1_pending w) (vc_ContractMappingID c) of
        None \<Rightarrow> Inr w
      | Some m \<Rightarrow> G1_confirmContractMapping m c w)"

definition G1_VerifyContractCreators :: "call_ctx \<Rightarrow> VerifiedContractCreator list \<Rightarrow> 't g1_world \<Rightarrow> 't g1_world res" where
  "G1_VerifyContractCreators ctx creators w =
     (if creators = [] then Inl ErrTGInvalidRequest
      else if \<not> HasPermission (g1_perms w) (sender ctx) ''verify-creators'' [''oracle''] then Inl ErrTGNotAuthorized
      else fold_res G1_verify_creator creators w)"

end
