(* ===== verification/Gateway_V1_Accounts.thy ===== *)
theory Gateway_V1_Accounts
  imports Gateway_V1
begin

text \<open>
  The accounts of the first gateway: what any of its methods can do to the receipt and the nonce of an
  account, the list of accounts with a pending withdrawal, and what the oracles are given to sign.
\<close>

section \<open>The life of an account\<close>

text \<open>
  An account is its next nonce and its pending receipt. It is signed or completed quietly; filing takes
  the nonce and counts on. \<open>life_run k\<close> is a run with \<open>k\<close> filings.
\<close>

type_synonym acct = "u64 \<times> Receipt1 option"

inductive quiet_step :: "acct \<Rightarrow> acct \<Rightarrow> bool" where
  stay: "quiet_step s s"
| sign: "r1_OracleSignature r = None \<Longrightarrow> quiet_step (n, Some r) (n, Some (r\<lparr>r1_OracleSignature := sig\<rparr>))"
| complete: "quiet_step (n, Some r) (n, None)"

inductive life_run :: "nat \<Rightarrow> acct \<Rightarrow> acct \<Rightarrow> bool" where
  start: "life_run 0 s s"
| quiet: "life_run k s t \<Longrightarrow> quiet_step t u \<Longrightarrow> life_run k s u"
| filing: "life_run k s (n, None) \<Longrightarrow> r1_WithdrawalNonce r = n \<Longrightarrow> r1_OracleSignature r = None \<Longrightarrow>
     life_run (Suc k) s (n + 1, Some r)"

lemma life_run_quiet: "quiet_step s t \<Longrightarrow> life_run 0 s t"
  using life_run.start by (rule life_run.quiet)

lemma life_run_trans: "life_run j t u \<Longrightarrow> life_run k s t \<Longrightarrow> life_run (j + k) s u"
  by (induction rule: life_run.induct) (auto intro: life_run.quiet life_run.filing)

lemma quiet_step_nonce: "quiet_step s t \<Longrightarrow> fst t = fst s"
  by (induction rule: quiet_step.induct) simp_all

lemma life_run_nonce: "life_run k s t \<Longrightarrow> fst t = fst s + of_nat k"
  by (induction rule: life_run.induct) (auto dest: quiet_step_nonce)

text \<open>A pending receipt has the nonce before the account's.\<close>

definition numbered :: "acct \<Rightarrow> bool" where
  "numbered s \<longleftrightarrow> (\<forall>r. snd s = Some r \<longrightarrow> r1_WithdrawalNonce r + 1 = fst s)"

lemma quiet_step_numbered: "quiet_step s t \<Longrightarrow> numbered s \<Longrightarrow> numbered t"
  by (induction rule: quiet_step.induct) (auto simp: numbered_def)

lemma life_run_numbered: "life_run k s t \<Longrightarrow> numbered s \<Longrightarrow> numbered t"
  by (induction rule: life_run.induct) (auto intro: quiet_step_numbered, simp add: numbered_def)

text \<open>Without a filing a receipt stays what it is, up to one signature.\<close>

definition same_withdrawal :: "Receipt1 \<Rightarrow> Receipt1 \<Rightarrow> bool" where
  "same_withdrawal r r' \<longleftrightarrow> r' = r \<or> r1_OracleSignature r = None \<and> (\<exists>sig. r' = r\<lparr>r1_OracleSignature := sig\<rparr>)"

lemma quiet_step_receipt:
  "quiet_step s t \<Longrightarrow> snd t = Some r' \<Longrightarrow> \<exists>r. snd s = Some r \<and> same_withdrawal r r'"
  by (induction rule: quiet_step.induct) (auto simp: same_withdrawal_def)

lemma same_withdrawal_trans: "same_withdrawal r s \<Longrightarrow> same_withdrawal s t \<Longrightarrow> same_withdrawal r t"
  by (auto simp: same_withdrawal_def)

lemma life_run_receipt:
  "life_run k s t \<Longrightarrow> k = 0 \<Longrightarrow> snd t = Some r' \<Longrightarrow> \<exists>r. snd s = Some r \<and> same_withdrawal r r'"
proof (induction arbitrary: r' rule: life_run.induct)
  case (start s)
  then show ?case by (simp add: same_withdrawal_def)
next
  case (quiet k s t u)
  obtain r1 where "snd t = Some r1" "same_withdrawal r1 r'"
    using quiet_step_receipt [OF quiet.hyps(2) quiet.prems(2)] by blast
  then show ?case using quiet.IH [OF quiet.prems(1)] by (blast intro: same_withdrawal_trans)
qed simp

lemma life_run_nonce_identifies:
  assumes "life_run k s t" and "numbered s" and "snd s = Some r" and "snd t = Some r'"
  shows "r1_WithdrawalNonce r' = r1_WithdrawalNonce r + of_nat k"
    "k < 2 ^ 64 \<Longrightarrow> r1_WithdrawalNonce r' = r1_WithdrawalNonce r \<Longrightarrow> same_withdrawal r r'"
proof -
  have "r1_WithdrawalNonce r' + 1 = fst t" "r1_WithdrawalNonce r + 1 = fst s"
    using life_run_numbered [OF assms(1,2)] assms(2-4) by (simp_all add: numbered_def)
  with life_run_nonce [OF assms(1)]
  have "r1_WithdrawalNonce r' + 1 = (r1_WithdrawalNonce r + of_nat k) + 1" by (simp add: algebra_simps)
  then show nonce: "r1_WithdrawalNonce r' = r1_WithdrawalNonce r + of_nat k" by (simp only: add_right_cancel)
  show "same_withdrawal r r'" if "k < 2 ^ 64" and "r1_WithdrawalNonce r' = r1_WithdrawalNonce r"
  proof -
    from nonce that(2) have "(of_nat k :: u64) = 0" by simp
    then have "2 ^ 64 dvd k" by (simp add: word_of_nat_eq_0_iff)
    with that(1) have "k = 0" by (auto dest: dvd_imp_le)
    with life_run_receipt [OF assms(1) _ assms(4)] assms(3) show ?thesis by simp
  qed
qed

text \<open>
  Runs of a contract whose steps are labelled with the account they file a withdrawal for, if any:
  \<open>filing_run step fs\<close> is a run in which the accounts \<open>fs\<close> filed, in this order.
\<close>

inductive filing_run :: "(address option \<Rightarrow> 's \<Rightarrow> 's \<Rightarrow> bool) \<Rightarrow> address list \<Rightarrow> 's \<Rightarrow> 's \<Rightarrow> bool" for step where
  stop: "filing_run step [] s s"
| silent: "filing_run step fs s t \<Longrightarrow> step None t u \<Longrightarrow> filing_run step fs s u"
| files: "filing_run step fs s t \<Longrightarrow> step (Some f) t u \<Longrightarrow> filing_run step (fs @ [f]) s u"

lemma filing_run_silent: "step None s t \<Longrightarrow> filing_run step [] s t"
  using filing_run.stop by (rule filing_run.silent)

text \<open>
  A contract that keeps such accounts: an invariant its steps keep, and for every step and every
  account a run of the account, with one filing when the step is labelled with the account and none otherwise.
\<close>

locale account_service =
  fixes ok :: "'s \<Rightarrow> bool"
    and step :: "address option \<Rightarrow> 's \<Rightarrow> 's \<Rightarrow> bool"
    and account :: "'s \<Rightarrow> address \<Rightarrow> acct"
  assumes step_ok: "ok s \<Longrightarrow> step l s s' \<Longrightarrow> ok s'"
    and step_life: "ok s \<Longrightarrow> step l s s' \<Longrightarrow> life_run (if l = Some a then 1 else 0) (account s a) (account s' a)"
begin

lemma run_ok: "filing_run step fs s s' \<Longrightarrow> ok s \<Longrightarrow> ok s'"
  by (induction rule: filing_run.induct) (auto intro: step_ok)

lemma run_life: "filing_run step fs s s' \<Longrightarrow> ok s \<Longrightarrow> life_run (count_list fs a) (account s a) (account s' a)"
proof (induction rule: filing_run.induct)
  case (stop s)
  then show ?case by (simp add: life_run.start)
next
  case (silent fs s t u)
  then show ?case using step_life [of t None u a] run_ok [of fs s t] life_run_trans [of 0] by fastforce
next
  case (files fs s t f u)
  have "life_run (if f = a then 1 else 0) (account t a) (account u a)"
    using step_life [OF run_ok [OF files.hyps(1) files.prems] files.hyps(2), of a] by simp
  from life_run_trans [OF this files.IH [OF files.prems]] show ?case by (simp add: add.commute split: if_splits)
qed

end

section \<open>Steps of the gateway\<close>

definition g1_acct :: "'t g1_world \<Rightarrow> address \<Rightarrow> acct" where
  "g1_acct w a = (ac_WithdrawalNonce (loadAccount1 w a), ac_WithdrawalReceipt (loadAccount1 w a))"

abbreviation g1_receipt :: "'t g1_world \<Rightarrow> address \<Rightarrow> Receipt1 option" where
  "g1_receipt w a \<equiv> snd (g1_acct w a)"

record 't g1_env =
  g1_T :: "'t evm_tokens1"
  g1_H :: sol_lib
  g1_recover :: "bytes \<Rightarrow> bytes \<Rightarrow> bytes res"
  g1_creator :: "address \<Rightarrow> address res"

text \<open>Every method that changes the state, labelled with the caller when it files a withdrawal, and what other contracts do in between.\<close>

inductive g1_step :: "'t g1_env \<Rightarrow> address option \<Rightarrow> 't g1_world \<Rightarrow> 't g1_world \<Rightarrow> bool" for E where
  add_oracle: "G1_AddOracle ctx a w = Inr w' \<Longrightarrow> g1_step E None w w'"
| remove_oracle: "G1_RemoveOracle ctx a w = Inr w' \<Longrightarrow> g1_step E None w w'"
| batch: "G1_ProcessEventBatch (g1_T E) ctx events w = Inr w' \<Longrightarrow> g1_step E None w w'"
| withdraw_erc721: "G1_WithdrawERC721 (g1_T E) ctx i tc w = Inr w' \<Longrightarrow> g1_step E (Some (sender ctx)) w w'"
| withdraw_erc20: "G1_WithdrawERC20 (g1_T E) ctx n tc w = Inr w' \<Longrightarrow> g1_step E (Some (sender ctx)) w w'"
| withdraw_eth: "G1_WithdrawETH ctx n mg w = Inr w' \<Longrightarrow> g1_step E (Some (sender ctx)) w w'"
| confirm: "G1_ConfirmWithdrawalReceipt ctx a sig w = Inr w' \<Longrightarrow> g1_step E None w w'"
| reclaim_dep: "G1_ReclaimDepositorTokens (g1_T E) ctx ds w = Inr w' \<Longrightarrow> g1_step E None w w'"
| reclaim_con: "G1_ReclaimContractTokens (g1_T E) (g1_creator E) ctx tc w = Inr w' \<Longrightarrow> g1_step E None w w'"
| add_mapping: "G1_AddContractMapping (g1_H E) (g1_recover E) (g1_creator E) ctx f l sig h w = Inr w' \<Longrightarrow> g1_step E None w w'"
| verify: "G1_VerifyContractCreators ctx cs w = Inr w' \<Longrightarrow> g1_step E None w w'"
| others: "g1_step E None w (w\<lparr>g1_eth := e, g1_mapper := m, g1_tokens := t\<rparr>)"

definition g1_empty :: "coin_store \<Rightarrow> am_store \<Rightarrow> 't \<Rightarrow> 't g1_world" where
  "g1_empty e m t =
     \<lparr>g1_state = None, g1_oracles = [], g1_accounts = Map.empty, g1_unclaimed = [], g1_depositors = [],
      g1_mappings = Map.empty, g1_pending = [], g1_perms = [], g1_eth = e, g1_mapper = m, g1_tokens = t, g1_events = []\<rparr>"

definition g1_reachable :: "'t g1_env \<Rightarrow> 't g1_world \<Rightarrow> bool" where
  "g1_reachable E w \<longleftrightarrow>
     (\<exists>e m t owner oracles n w0. G1_Init owner oracles n (g1_empty e m t) = Inr w0 \<and> (\<exists>fs. filing_run (g1_step E) fs w0 w))"

section \<open>Methods that leave the accounts alone\<close>

definition same_accts :: "'t g1_world \<Rightarrow> 't g1_world \<Rightarrow> bool" where
  "same_accts w w' \<longleftrightarrow> g1_accounts w' = g1_accounts w \<and>
     gs_TokenWithdrawers (G1_loadState w') = gs_TokenWithdrawers (G1_loadState w)"

lemma same_acctsD: "same_accts w w' \<Longrightarrow> g1_acct w' a = g1_acct w a"
  by (simp add: same_accts_def g1_acct_def loadAccount1_def)

lemma same_accts_refl [simp, intro]: "same_accts w w"
  by (simp add: same_accts_def)

lemma same_accts_trans [trans]: "same_accts u v \<Longrightarrow> same_accts v w \<Longrightarrow> same_accts u w"
  by (simp add: same_accts_def)

lemma same_accts_upd [simp]:
  "same_accts w (emit1 ev v) = same_accts w v"
  "same_accts w (v\<lparr>g1_unclaimed := u\<rparr>) = same_accts w v" "same_accts w (v\<lparr>g1_depositors := d\<rparr>) = same_accts w v"
  "same_accts w (v\<lparr>g1_mappings := m\<rparr>) = same_accts w v" "same_accts w (v\<lparr>g1_pending := p\<rparr>) = same_accts w v"
  "same_accts w (v\<lparr>g1_perms := q\<rparr>) = same_accts w v" "same_accts w (v\<lparr>g1_oracles := os\<rparr>) = same_accts w v"
  "same_accts w (v\<lparr>g1_eth := e\<rparr>) = same_accts w v" "same_accts w (v\<lparr>g1_mapper := am\<rparr>) = same_accts w v"
  "same_accts w (v\<lparr>g1_tokens := t\<rparr>) = same_accts w v"
  by (simp_all add: same_accts_def emit1_def G1_loadState_def)

lemma same_accts_on:
  "G1_on_tokens f w = (r, w') \<Longrightarrow> same_accts w w'"
  "G1_on_eth g w = (r, w') \<Longrightarrow> same_accts w w'"
  by (auto simp: G1_on_tokens_def G1_on_eth_def split: prod.split_asm sum.split_asm)

lemmas eth1_defs = eth1_transfer_def eth1_transferFrom_def eth1_mintToGateway_def

lemma G1_transfer_books:
  assumes "G1_transferTokenDeposit T ctx owner token kind v w = (r, w')"
  shows "same_accts w w'"
  using assms unfolding G1_transferTokenDeposit_def Let_def eth1_defs
  by (auto elim!: seq_resE dest!: same_accts_on split: TokenKind1.split_asm if_split_asm)
    (blast intro: same_accts_trans)+

lemma G1_storeUnclaimed_books: "G1_storeUnclaimedToken d w = Inr w' \<Longrightarrow> same_accts w w'"
  unfolding G1_storeUnclaimedToken_def by (auto elim!: bind_resE simp: Let_def)

lemma G1_process_deposit_books:
  assumes "G1_process_deposit T ctx ev d w = (out, w')" and "\<nexists>e. out = Abort e"
  shows "same_accts w w'"
proof -
  have "same_accts w u"
    if "G1_transferTokenDeposit T ctx a t k n w = (r, v)" and "G1_storeUnclaimedToken d (emit1 (Ev1ProcessEventError ev) v) = Inr u"
    for a t k n r v u
    using G1_transfer_books [OF that(1)] G1_storeUnclaimed_books [OF that(2)] by (simp add: same_accts_def emit1_def G1_loadState_def)
  with assms show ?thesis unfolding G1_process_deposit_def
    by (auto split: sum.split_asm prod.split_asm go_error.split_asm dest: G1_transfer_books)
qed

lemma G1_reclaimForContract_books:
  assumes "G1_reclaimDepositorTokensForContract T ctx owner token u w = Inr w'"
  shows "same_accts w w'"
proof -
  obtain failed v where loop: "fold_res (G1_reclaim_value T ctx owner token (ut1_TokenKind u)) (ut1_Values u) ([], w) = Inr (failed, v)"
    and w': "same_accts w w' = same_accts w v"
    using assms unfolding G1_reclaimDepositorTokensForContract_def by (auto elim!: bind_resE split: if_split_asm)
  have "same_accts w (snd (failed, v))"
  proof (rule fold_res_invariant [OF loop])
    fix a fw fw'
    assume "same_accts w (snd fw)" and "G1_reclaim_value T ctx owner token (ut1_TokenKind u) a fw = Inr fw'"
    moreover then have "same_accts (snd fw) (snd fw')"
      by (auto simp: G1_reclaim_value_def split: prod.split_asm sum.split_asm go_error.split_asm intro: G1_transfer_books)
    ultimately show "same_accts w (snd fw')" by (blast intro: same_accts_trans)
  qed simp
  then show ?thesis by (simp add: w')
qed

lemma G1_reclaimDepositorTokens_books:
  assumes "G1_reclaimDepositorTokens T ctx owner w = Inr w'"
  shows "same_accts w w'"
  using assms unfolding G1_reclaimDepositorTokens_def
  by (rule fold_res_invariant) (blast intro: same_accts_trans G1_reclaimForContract_books)+

lemma G1_reclaim_logged_books:
  assumes "G1_reclaim_logged owner v r = Inr w'" and "\<And>u. r = Inr u \<Longrightarrow> same_accts v u"
  shows "same_accts v w'"
  using assms by (auto simp: G1_reclaim_logged_def split: sum.split_asm go_error.split_asm)

lemma G1_ReclaimDepositorTokens_books:
  assumes "G1_ReclaimDepositorTokens T ctx depositors w = Inr w'"
  shows "same_accts w w'"
proof (cases "depositors = []")
  case True
  with assms show ?thesis
    unfolding G1_ReclaimDepositorTokens_def by (auto elim!: bind_resE intro: G1_reclaimDepositorTokens_books)
next
  case False
  with assms have "fold_res (\<lambda>a w. G1_reclaim_logged a w (G1_reclaimDepositorTokens T ctx a w)) depositors w = Inr w'"
    unfolding G1_ReclaimDepositorTokens_def by (auto elim!: bind_resE split: if_split_asm)
  then show ?thesis
    by (rule fold_res_invariant) (blast intro: same_accts_trans G1_reclaim_logged_books G1_reclaimDepositorTokens_books)+
qed

lemma G1_reclaim_depositor_books:
  assumes "G1_reclaim_depositor T ctx token owner w = Inr w'"
  shows "same_accts w w'"
proof -
  obtain u v where "same_accts w v" and "G1_reclaim_logged owner v (G1_reclaimDepositorTokensForContract T ctx owner token u v) = Inr w'"
    using assms that [of "emit1 (Ev1ReclaimError owner) w"] that [of w]
    by (cases "map_of (g1_unclaimed w) (owner, token)") (auto simp: G1_reclaim_depositor_def Let_def)
  then show ?thesis by (blast intro: same_accts_trans G1_reclaim_logged_books G1_reclaimForContract_books)
qed

lemma G1_ReclaimContractTokens_books:
  assumes "G1_ReclaimContractTokens T creator_of ctx tc w = Inr w'"
  shows "same_accts w w'"
proof -
  obtain tok where "fold_res (G1_reclaim_depositor T ctx tok) (G1_unclaimedDepositors w tok) w = Inr w'"
    using assms unfolding G1_ReclaimContractTokens_def by (auto elim!: bind_resE split: option.split_asm if_split_asm)
  then show ?thesis
    by (rule fold_res_invariant) (blast intro: same_accts_trans G1_reclaim_depositor_books)+
qed

lemma G1_verify_creator_books: "G1_verify_creator c w = Inr w' \<Longrightarrow> same_accts w w'"
  by (auto simp: G1_verify_creator_def G1_confirmContractMapping_def Let_def elim!: bind_resE split: option.split_asm if_split_asm)

lemma G1_control_books:
  "G1_AddOracle ctx a w = Inr w' \<Longrightarrow> same_accts w w'"
  "G1_RemoveOracle ctx a w = Inr w' \<Longrightarrow> same_accts w w'"
  "G1_AddContractMapping H rec cr ctx f l sig h w = Inr w' \<Longrightarrow> same_accts w w'"
  "G1_VerifyContractCreators ctx cs w = Inr w' \<Longrightarrow> same_accts w w'"
proof -
  show "G1_AddOracle ctx a w = Inr w' \<Longrightarrow> same_accts w w'" "G1_RemoveOracle ctx a w = Inr w' \<Longrightarrow> same_accts w w'"
    by (auto simp: G1_AddOracle_def G1_RemoveOracle_def G1_addOracle_def split: option.split_asm if_split_asm)
  show "G1_AddContractMapping H rec cr ctx f l sig h w = Inr w' \<Longrightarrow> same_accts w w'"
    unfolding G1_AddContractMapping_def
    by (auto simp: Let_def same_accts_def G1_saveState_def G1_loadState_def elim!: bind_resE split: option.split_asm if_split_asm)
  show "G1_VerifyContractCreators ctx cs w = Inr w' \<Longrightarrow> same_accts w w'"
    unfolding G1_VerifyContractCreators_def
    by (auto split: if_split_asm elim!: fold_res_invariant intro: same_accts_trans G1_verify_creator_books)
qed

section \<open>The invariant\<close>

definition g1_keyed :: "'t g1_world \<Rightarrow> bool" where
  "g1_keyed w \<longleftrightarrow> (\<forall>a acct. g1_accounts w a = Some acct \<longrightarrow> ac_Owner acct = a)"

definition known_kind :: "Receipt1 \<Rightarrow> bool" where
  "known_kind r \<longleftrightarrow> (\<forall>m. r1_TokenKind r \<noteq> TokenKind_Other m)"

text \<open>Against a list of accounts: it holds exactly those with a receipt, each once.\<close>

definition g1_books :: "address list \<Rightarrow> 't g1_world \<Rightarrow> bool" where
  "g1_books tws w \<longleftrightarrow>
     g1_keyed w \<and> distinct tws \<and> (\<forall>a. a \<in> set tws \<longleftrightarrow> g1_receipt w a \<noteq> None) \<and>
     (\<forall>a. numbered (g1_acct w a)) \<and> (\<forall>a r. g1_receipt w a = Some r \<longrightarrow> known_kind r)"

definition g1_ok :: "'t g1_world \<Rightarrow> bool" where
  "g1_ok w \<longleftrightarrow> g1_books (gs_TokenWithdrawers (G1_loadState w)) w"

lemma same_accts_ok:
  assumes "same_accts w w'"
  shows "g1_books tws w' = g1_books tws w" "g1_ok w' = g1_ok w"
proof -
  show "g1_books tws w' = g1_books tws w" for tws
    using assms same_acctsD [OF assms] by (simp add: g1_books_def g1_keyed_def same_accts_def)
  then show "g1_ok w' = g1_ok w" using assms by (simp add: g1_ok_def same_accts_def)
qed

lemma loadAccount1_owner: "g1_keyed w \<Longrightarrow> ac_Owner (loadAccount1 w a) = a"
  by (auto simp: g1_keyed_def loadAccount1_def split: option.split)

lemma g1_acct_save [simp, store_simps]:
  "g1_acct (saveAccount1 acct w) = (g1_acct w)(ac_Owner acct := (ac_WithdrawalNonce acct, ac_WithdrawalReceipt acct))"
  by (auto simp: g1_acct_def saveAccount1_def loadAccount1_def)

lemma g1_keyed_save [simp, store_simps]: "g1_keyed w \<Longrightarrow> g1_keyed (saveAccount1 acct w)"
  by (simp add: g1_keyed_def saveAccount1_def)

lemma g1_acct_other [simp, store_simps]:
  "g1_acct (emit1 ev w) = g1_acct w" "g1_acct (G1_saveState s w) = g1_acct w"
  "g1_keyed (emit1 ev w) = g1_keyed w" "g1_keyed (G1_saveState s w) = g1_keyed w"
  "G1_loadState (emit1 ev w) = G1_loadState w" "G1_loadState (saveAccount1 acct w) = G1_loadState w"
  "G1_loadState (G1_saveState s w) = s"
  by (simp_all add: fun_eq_iff g1_acct_def loadAccount1_def emit1_def G1_saveState_def g1_keyed_def G1_loadState_def saveAccount1_def)

lemma g1_books_other [simp]: "g1_books tws (emit1 ev w) = g1_books tws w" "g1_books tws (G1_saveState s w) = g1_books tws w"
  by (simp_all add: g1_books_def)

text \<open>Replacing one account, with the list adjusted to it.\<close>

lemma g1_books_change:
  assumes "g1_books tws w" and "g1_keyed w'" and acct: "g1_acct w' = (g1_acct w)(a := s)" and "numbered s"
    and "\<And>r. snd s = Some r \<Longrightarrow> known_kind r" and "distinct tws'"
    and "set tws' = (if snd s = None then set tws - {a} else insert a (set tws))"
  shows "g1_books tws' w'"
  using assms unfolding g1_books_def acct by (auto split: if_split_asm)

section \<open>Filing\<close>

definition files1 :: "call_ctx \<Rightarrow> 't g1_world \<Rightarrow> 't g1_world \<Rightarrow> bool" where
  "files1 ctx w w' \<longleftrightarrow>
     (\<exists>f v t k n. G1_start_withdrawal ctx w = Inr f \<and> same_accts w v \<and> (\<forall>m. k \<noteq> TokenKind_Other m) \<and>
        G1_file_receipt ctx f t k n v = Inr w')"

lemma only_ok_books:
  "only_ok (G1_on_tokens g w) = Inr v \<Longrightarrow> same_accts w v" "only_ok (G1_on_eth h w) = Inr v \<Longrightarrow> same_accts w v"
  by (cases "G1_on_tokens g w"; cases "G1_on_eth h w"; auto simp: only_ok_def dest: same_accts_on split: sum.split_asm)+

lemma withdraw_files:
  "G1_WithdrawERC721 T ctx i tc w = Inr w' \<Longrightarrow> files1 ctx w w'"
  "G1_WithdrawERC20 T ctx n tc w = Inr w' \<Longrightarrow> files1 ctx w w'"
  "G1_WithdrawETH ctx n mg w = Inr w' \<Longrightarrow> files1 ctx w w'"
  unfolding G1_WithdrawERC721_def G1_WithdrawERC20_def G1_WithdrawETH_def Let_def eth1_defs files1_def
  by (auto elim!: bind_resE split: option.split_asm if_split_asm dest!: only_ok_books) blast+

lemma files1_ok:
  assumes "files1 ctx w w'" and "g1_ok w"
  shows "g1_ok w'" "life_run (if sender ctx = a then 1 else 0) (g1_acct w a) (g1_acct w' a)"
proof -
  obtain f v t kind n where start: "G1_start_withdrawal ctx w = Inr f" and same: "same_accts w v"
    and kind: "\<forall>m. kind \<noteq> TokenKind_Other m" and filed: "G1_file_receipt ctx f t kind n v = Inr w'"
    using assms(1) unfolding files1_def by blast
  let ?o = "sender ctx"
  define r where "r = \<lparr>r1_TokenOwner = f, r1_TokenContract = t, r1_TokenKind = kind, r1_Value = n,
    r1_WithdrawalNonce = fst (g1_acct v ?o), r1_OracleSignature = None\<rparr>"
  define v' where "v' = saveAccount1 ((loadAccount1 v ?o)\<lparr>ac_WithdrawalReceipt := Some r,
    ac_WithdrawalNonce := ac_WithdrawalNonce (loadAccount1 v ?o) + 1\<rparr>) (emit1 (Ev1Withdraw r) v)"
  have books: "g1_books (gs_TokenWithdrawers (G1_loadState v)) v" using assms(2) same_accts_ok(2) [OF same] by (simp add: g1_ok_def)
  then have keyed: "g1_keyed v" by (simp add: g1_books_def)
  have none: "g1_receipt v ?o = None"
    using start same_acctsD [OF same] by (simp add: G1_start_withdrawal_def g1_acct_def split: if_split_asm)
  have acct: "g1_acct v' = (g1_acct v)(?o := (fst (g1_acct v ?o) + 1, Some r))"
    by (simp add: v'_def loadAccount1_owner [OF keyed]) (simp add: g1_acct_def)
  obtain st where st: "addTokenWithdrawer (G1_loadState v) ?o = Inr st" and w': "w' = G1_saveState st v'"
    using filed unfolding G1_file_receipt_def Let_def v'_def r_def by (auto simp: g1_acct_def elim!: bind_resE)
  have "?o \<notin> set (gs_TokenWithdrawers (G1_loadState v))" and tws: "gs_TokenWithdrawers st = gs_TokenWithdrawers (G1_loadState v) @ [?o]"
    using st by (auto simp: addTokenWithdrawer_def list_ex_iff split: if_split_asm)
  with books show "g1_ok w'"
    unfolding g1_ok_def w'
    by (simp, intro g1_books_change [OF books _ acct])
      (auto simp: g1_books_def v'_def keyed numbered_def r_def known_kind_def kind)
  have "g1_acct v ?o = (fst (g1_acct v ?o), None)" using none by (simp add: prod_eq_iff)
  then have "life_run 0 (g1_acct v ?o) (fst (g1_acct v ?o), None)" using life_run.start [of "g1_acct v ?o"] by (simp only:)
  then have "life_run 1 (g1_acct v ?o) (fst (g1_acct v ?o) + 1, Some r)"
    using life_run.filing [of 0 "g1_acct v ?o" "fst (g1_acct v ?o)" r] by (simp add: r_def)
  then show "life_run (if ?o = a then 1 else 0) (g1_acct w a) (g1_acct w' a)"
    by (cases "a = ?o") (auto simp: w' acct same_acctsD [OF same, symmetric] intro: life_run.start)
qed

section \<open>Signing and completing\<close>

lemma G1_confirm_ok:
  assumes "G1_ConfirmWithdrawalReceipt ctx o' sig w = Inr w'" and "g1_ok w"
  shows "g1_ok w'" "life_run 0 (g1_acct w a) (g1_acct w' a)"
proof -
  have books: "g1_books (gs_TokenWithdrawers (G1_loadState w)) w" using assms(2) by (simp add: g1_ok_def)
  then have keyed: "g1_keyed w" by (simp add: g1_books_def)
  obtain b s r where r: "ac_WithdrawalReceipt (loadAccount1 w b) = Some r" "r1_OracleSignature r = None"
    and w': "w' = emit1 (Ev1TokenWithdrawalSigned (r\<lparr>r1_OracleSignature := Some s\<rparr>))
      (saveAccount1 ((loadAccount1 w b)\<lparr>ac_WithdrawalReceipt := Some (r\<lparr>r1_OracleSignature := proto_bytes s\<rparr>)\<rparr>) w)"
    using assms(1) unfolding G1_ConfirmWithdrawalReceipt_def Let_def by (auto split: option.split_asm if_split_asm)
  let ?r = "r\<lparr>r1_OracleSignature := proto_bytes s\<rparr>"
  have acct: "g1_acct w' = (g1_acct w)(b := (fst (g1_acct w b), Some ?r))"
    by (simp add: w' loadAccount1_owner [OF keyed]) (simp add: g1_acct_def)
  have old: "g1_acct w b = (fst (g1_acct w b), Some r)" using r by (simp add: g1_acct_def)
  have some: "g1_receipt w b = Some r" using r by (simp add: g1_acct_def)
  have facts: "known_kind r" "r1_WithdrawalNonce r + 1 = fst (g1_acct w b)" "b \<in> set (gs_TokenWithdrawers (G1_loadState w))"
    "distinct (gs_TokenWithdrawers (G1_loadState w))"
    using books some unfolding g1_books_def numbered_def by auto
  have "g1_books (gs_TokenWithdrawers (G1_loadState w)) w'"
    by (rule g1_books_change [OF books _ acct])
      (use facts in \<open>auto simp: numbered_def known_kind_def w' keyed\<close>)
  then show "g1_ok w'" by (simp add: g1_ok_def w')
  have "life_run 0 (g1_acct w b) (g1_acct w' b)"
    using life_run_quiet [OF quiet_step.sign [OF r(2)]] old by (metis acct fun_upd_same)
  then show "life_run 0 (g1_acct w a) (g1_acct w' a)"
    by (cases "a = b") (auto simp: acct intro: life_run.start)
qed

lemma G1_complete_cases:
  assumes "G1_completeTokenWithdraw ctx d st w = (res, w')" and books: "g1_books (gs_TokenWithdrawers st) w"
  obtains (fail) e where "res = Inl e" "w' = w"
    | (gone) b st' where "res = Inr st'" "g1_books (gs_TokenWithdrawers st') w'" "g1_receipt w b \<noteq> None"
        "g1_acct w' = (g1_acct w)(b := (fst (g1_acct w b), None))"
proof -
  have keyed: "g1_keyed w" using books by (simp add: g1_books_def)
  have "(\<exists>e. res = Inl e \<and> w' = w) \<or>
    (\<exists>b. ac_WithdrawalReceipt (loadAccount1 w b) \<noteq> None \<and> res = removeTokenWithdrawer st b \<and>
         w' = saveAccount1 ((loadAccount1 w b)\<lparr>ac_WithdrawalReceipt := None\<rparr>) w)"
    using assms(1) unfolding G1_completeTokenWithdraw_def Let_def
    by (elim seq_resE) (auto split: if_split_asm)
  then consider "\<exists>e. res = Inl e \<and> w' = w"
    | b where "ac_WithdrawalReceipt (loadAccount1 w b) \<noteq> None" "res = removeTokenWithdrawer st b"
        "w' = saveAccount1 ((loadAccount1 w b)\<lparr>ac_WithdrawalReceipt := None\<rparr>) w" by blast
  then show ?thesis
  proof cases
    case 1
    then show ?thesis using fail by blast
  next
    case (2 b)
    have acct: "g1_acct w' = (g1_acct w)(b := (fst (g1_acct w b), None))"
      by (simp add: 2(3) loadAccount1_owner [OF keyed]) (simp add: g1_acct_def)
    have rec: "g1_receipt w b \<noteq> None" using 2(1) by (simp add: g1_acct_def)
    with books have "b \<in> set (gs_TokenWithdrawers st)" "distinct (gs_TokenWithdrawers st)" by (auto simp: g1_books_def)
    then obtain tws where tws: "remove_swap b (gs_TokenWithdrawers st) = Some tws" "distinct tws"
      "set tws = set (gs_TokenWithdrawers st) - {b}" by (rule remove_swap_distinct)
    define st' where "st' = st\<lparr>gs_TokenWithdrawers := tws\<rparr>"
    have "res = Inr st'" using 2(2) tws(1) by (simp add: removeTokenWithdrawer_def st'_def)
    moreover have "g1_books (gs_TokenWithdrawers st') w'"
      by (rule g1_books_change [OF books _ acct]) (simp_all add: 2(3) keyed numbered_def tws st'_def)
    ultimately show ?thesis using gone rec acct by blast
  qed
qed

section \<open>Batches\<close>

text \<open>In a batch every account only loses its receipt.\<close>

definition quiet_books :: "'t g1_world \<Rightarrow> 't g1_world \<Rightarrow> bool" where
  "quiet_books w w' \<longleftrightarrow> (\<forall>a. life_run 0 (g1_acct w a) (g1_acct w' a))"

lemma quiet_books_trans: "quiet_books u v \<Longrightarrow> quiet_books v w \<Longrightarrow> quiet_books u w"
  unfolding quiet_books_def using life_run_trans [where j = 0 and k = 0] by fastforce

lemma same_accts_quiet: "same_accts w w' \<Longrightarrow> quiet_books w w'"
  by (simp add: quiet_books_def same_acctsD life_run.start)

lemma G1_process_payload_ok:
  assumes "G1_process_payload T ctx ev st w = (out, st', w')" and "\<nexists>e. out = Abort e" and books: "g1_books (gs_TokenWithdrawers st) w"
  shows "g1_books (gs_TokenWithdrawers st') w' \<and> quiet_books w w'"
proof (cases "me1_Payload ev")
  case (Deposit1 d)
  with assms(1) have "G1_process_deposit T ctx ev d w = (out, w')" and st': "st' = st"
    by (auto simp: G1_process_payload_def split: prod.split_asm)
  with assms(2) have "same_accts w w'" by (blast intro: G1_process_deposit_books)
  then show ?thesis using books by (simp add: st' same_accts_ok same_accts_quiet)
next
  case (Withdrawal1 d)
  obtain res v where c: "G1_completeTokenWithdraw ctx d st w = (res, v)" by fastforce
  then show ?thesis using books
  proof (cases rule: G1_complete_cases)
    case (fail e)
    with assms(1) c Withdrawal1 have "st' = st" "w' = emit1 (Ev1ProcessEventError ev) w"
      by (auto simp: G1_process_payload_def G1_process_withdrawal_def)
    then show ?thesis using books by (simp add: quiet_books_def life_run.start)
  next
    case (gone b s)
    with assms(1) c Withdrawal1 have w': "st' = s" "w' = emit1 (Ev1MainnetWithdrawal d) v"
      by (auto simp: G1_process_payload_def G1_process_withdrawal_def)
    have "life_run 0 (g1_acct w b) (fst (g1_acct w b), None)"
      using gone(3) by (cases "g1_acct w b") (auto intro: life_run_quiet quiet_step.complete)
    then have "quiet_books w v" using gone(4) by (simp add: quiet_books_def life_run.start)
    then show ?thesis using gone(2) by (simp add: w' quiet_books_def)
  qed
next
  case NoPayload1
  with assms(1) books show ?thesis by (auto simp: G1_process_payload_def quiet_books_def life_run.start)
qed

lemma G1_process_event_ok:
  assumes "G1_process_event T ctx ev (b, w) = Inr (b', w')" and "g1_books (gs_TokenWithdrawers (bl_state b)) w"
  shows "g1_books (gs_TokenWithdrawers (bl_state b')) w' \<and> quiet_books w w'"
proof -
  obtain out st v where p: "G1_process_payload T ctx ev (bl_state b) w = (out, st, v)" by (metis prod_cases3)
  consider "b' = b" "w' = w" | "\<nexists>e. out = Abort e" "w' = v" "bl_state b' = st"
    using assms(1) p by (auto simp: G1_process_event_def Let_def split: if_split_asm outcome.split_asm)
  then show ?thesis
  proof cases
    case 1
    then show ?thesis using assms(2) by (simp add: same_accts_quiet)
  next
    case 2
    then show ?thesis using G1_process_payload_ok [OF p 2(1) assms(2)] by simp
  qed
qed

lemma G1_batch_loop_ok:
  assumes "fold_res (G1_process_event T ctx) events (b, w) = Inr (b', w')" and "g1_books (gs_TokenWithdrawers (bl_state b)) w"
  shows "g1_books (gs_TokenWithdrawers (bl_state b')) w' \<and> quiet_books w w'"
proof -
  have "(\<lambda>bw. g1_books (gs_TokenWithdrawers (bl_state (fst bw))) (snd bw) \<and> quiet_books w (snd bw)) (b', w')"
  proof (rule fold_res_invariant [OF assms(1)])
    fix ev bw bw'
    assume "g1_books (gs_TokenWithdrawers (bl_state (fst bw))) (snd bw) \<and> quiet_books w (snd bw)"
      and "G1_process_event T ctx ev bw = Inr bw'"
    then show "g1_books (gs_TokenWithdrawers (bl_state (fst bw'))) (snd bw') \<and> quiet_books w (snd bw')"
      by (cases bw; cases bw') (auto dest: G1_process_event_ok intro: quiet_books_trans)
  qed (use assms(2) in \<open>simp add: same_accts_quiet\<close>)
  then show ?thesis by simp
qed

lemma G1_ProcessEventBatch_ok:
  assumes "G1_ProcessEventBatch T ctx events w = Inr w'" and "g1_ok w"
  shows "g1_ok w'" "quiet_books w w'"
proof -
  obtain b v where loop: "fold_res (G1_process_event T ctx) events
      (\<lparr>bl_state = G1_loadState w, bl_blockCount = 0, bl_lastEthBlock = 0\<rparr>, w) = Inr (b, v)"
    and w': "w' = G1_saveState ((bl_state b)\<lparr>gs_LastMainnetBlockNum := bl_lastEthBlock b\<rparr>) v"
    using assms(1) unfolding G1_ProcessEventBatch_def by (auto elim!: bind_resE split: if_split_asm)
  from G1_batch_loop_ok [OF loop] assms(2) show "g1_ok w'" "quiet_books w w'"
    by (simp_all add: g1_ok_def w' quiet_books_def)
qed

section \<open>Every step\<close>

lemma g1_step_cases:
  assumes "g1_step E l w w'"
  obtains (same) "same_accts w w'" "l = None" | (filed) ctx where "files1 ctx w w'" "l = Some (sender ctx)"
    | (signed) ctx b sig where "G1_ConfirmWithdrawalReceipt ctx b sig w = Inr w'" "l = None"
    | (batch) ctx events where "G1_ProcessEventBatch (g1_T E) ctx events w = Inr w'" "l = None"
  using assms
proof cases
  case others
  then show ?thesis using same by simp
qed (metis same filed signed batch G1_control_books G1_ReclaimDepositorTokens_books G1_ReclaimContractTokens_books withdraw_files)+

lemma g1_step_ok:
  assumes "g1_ok w" and "g1_step E l w w'"
  shows "g1_ok w'" "life_run (if l = Some a then 1 else 0) (g1_acct w a) (g1_acct w' a)"
  using assms(2)
proof (atomize (full), cases rule: g1_step_cases)
  case same
  then show "g1_ok w' \<and> life_run (if l = Some a then 1 else 0) (g1_acct w a) (g1_acct w' a)"
    using assms(1) same_acctsD [OF same(1)] by (auto simp: same_accts_ok intro: life_run.start)
next
  case (batch ctx events)
  from G1_ProcessEventBatch_ok [OF batch(1) assms(1)]
  show "g1_ok w' \<and> life_run (if l = Some a then 1 else 0) (g1_acct w a) (g1_acct w' a)"
    using batch(2) by (auto simp: quiet_books_def)
next
  case (filed ctx)
  from files1_ok [OF filed(1) assms(1)] filed(2)
  show "g1_ok w' \<and> life_run (if l = Some a then 1 else 0) (g1_acct w a) (g1_acct w' a)" by simp
next
  case (signed ctx b sig)
  from G1_confirm_ok [OF signed(1) assms(1)] signed(2)
  show "g1_ok w' \<and> life_run (if l = Some a then 1 else 0) (g1_acct w a) (g1_acct w' a)" by simp
qed

interpretation gateway1: account_service g1_ok "g1_step E" g1_acct for E
  by unfold_locales (rule g1_step_ok; assumption)+

lemma g1_addOracle_books [simp]: "same_accts w (G1_addOracle a v) = same_accts w v"
  by (simp add: G1_addOracle_def)

lemma g1_init_ok:
  assumes "G1_Init owner oracles n (g1_empty e m t) = Inr w"
  shows "g1_ok w"
proof -
  have "same_accts (g1_empty e m t) (fold G1_addOracle oracles v)" if "same_accts (g1_empty e m t) v" for v
    using that by (induction oracles arbitrary: v) simp_all
  then have "same_accts (g1_empty e m t) (fold G1_addOracle oracles ((g1_empty e m t)\<lparr>g1_perms := p\<rparr>))" for p by simp
  note same = same_accts_ok(1) [OF this, of "[]"]
  have "g1_books [] (g1_empty e m t)"
    by (simp add: g1_books_def g1_keyed_def g1_empty_def g1_acct_def loadAccount1_def numbered_def)
  then show ?thesis
    using assms by (auto simp: G1_Init_def Let_def g1_ok_def same split: option.split_asm)
qed

lemma g1_reachable_ok: "g1_reachable E w \<Longrightarrow> g1_ok w"
  unfolding g1_reachable_def by (blast intro: g1_init_ok gateway1.run_ok)

section \<open>What the oracles sign\<close>

definition unsigned1 :: "'t g1_world \<Rightarrow> address \<Rightarrow> bool" where
  "unsigned1 w a \<longleftrightarrow> (\<exists>r. g1_receipt w a = Some r \<and> r1_OracleSignature r = None)"

lemma G1_withdrawal_hash_total: "known_kind r \<Longrightarrow> \<exists>h. G1_withdrawal_hash H mg r = Some h"
  by (cases "r1_TokenKind r") (auto simp: G1_withdrawal_hash_def G1_token_hash_def known_kind_def)

lemma G1_summarise_simp:
  assumes "g1_receipt w a = Some r" and "G1_withdrawal_hash H mg r = Some h"
  shows "G1_summarise H mg w a acc = Inr (acc @ (if unsigned1 w a then [\<lparr>ps_TokenOwner = a, ps_Hash = h\<rparr>] else []))"
  using assms by (simp add: G1_summarise_def unsigned1_def g1_acct_def)

lemma G1_summarise_list:
  assumes "\<And>a. a \<in> set as \<Longrightarrow> \<exists>r. g1_receipt w a = Some r \<and> known_kind r"
  shows "fold_res (G1_summarise H mg w) as acc =
    Inr (acc @ map (\<lambda>a. \<lparr>ps_TokenOwner = a, ps_Hash = the (G1_withdrawal_hash H mg (the (g1_receipt w a)))\<rparr>)
                 (filter (unsigned1 w) as))"
  using assms
proof (induction as arbitrary: acc)
  case (Cons a as)
  then obtain r where r: "g1_receipt w a = Some r" "known_kind r" by (meson list.set_intros(1))
  then obtain h where h: "G1_withdrawal_hash H mg r = Some h" using G1_withdrawal_hash_total by blast
  have "fold_res (G1_summarise H mg w) as acc' = Inr (acc' @ map (\<lambda>a. \<lparr>ps_TokenOwner = a,
      ps_Hash = the (G1_withdrawal_hash H mg (the (g1_receipt w a)))\<rparr>) (filter (unsigned1 w) as))" for acc'
    using Cons by simp
  then show ?case using G1_summarise_simp [OF r(1) h, of acc] r h by simp
qed simp

section \<open>The properties\<close>

text \<open>C31: The nonces of the first gateway. Take an account with a pending receipt, and any later
state, through any methods and whatever the other contracts do, in which it has a receipt again. The
nonce has grown by the number of calls in between that filed a withdrawal for the account (modulo
\<open>2 ^ 64\<close>). If there was none, the receipt is the same withdrawal: same recipient, contract, kind and
value, with at most the missing signature added. So, as long as fewer than \<open>2 ^ 64\<close> withdrawals are
filed in between, two receipts of the account with the same nonce are the same withdrawal.\<close>

theorem g1_nonce_identifies_withdrawal:
  assumes "g1_reachable E w" and "filing_run (g1_step E) fs w w'"
    and "g1_receipt w a = Some r" and "g1_receipt w' a = Some r'"
  shows "r1_WithdrawalNonce r' = r1_WithdrawalNonce r + of_nat (count_list fs a) \<and>
     (count_list fs a = 0 \<longrightarrow> same_withdrawal r r') \<and>
     (length fs < 2 ^ 64 \<and> r1_WithdrawalNonce r' = r1_WithdrawalNonce r \<longrightarrow> same_withdrawal r r')"
proof -
  note ok = g1_reachable_ok [OF assms(1)]
  then have num: "numbered (g1_acct w a)" by (simp add: g1_ok_def g1_books_def)
  note life = gateway1.run_life [OF assms(2) ok, of a]
  note ids = life_run_nonce_identifies [OF life num assms(3,4)]
  have "count_list fs a \<le> length fs" by (rule count_le_length)
  then show ?thesis using ids life_run_receipt [OF life _ assms(4)] assms(3) by auto
qed

text \<open>C32: What the first gateway offers for signing. In every reachable state the query for pending
withdrawals succeeds and returns, in the order of the list in the contract's state, exactly the
accounts with an unsigned receipt, each once, with the hash of that receipt.\<close>

theorem g1_pending_withdrawals_exact:
  assumes "g1_reachable E w"
  shows "\<exists>l. G1_PendingWithdrawals H (Some mg) w = Inr l \<and> distinct (map ps_TokenOwner l) \<and>
     set (map ps_TokenOwner l) = {a. unsigned1 w a} \<and>
     (\<forall>s\<in>set l. \<exists>r. g1_receipt w (ps_TokenOwner s) = Some r \<and> G1_withdrawal_hash H mg r = Some (ps_Hash s))"
proof -
  let ?tws = "gs_TokenWithdrawers (G1_loadState w)"
  have books: "g1_books ?tws w" using g1_reachable_ok [OF assms] by (simp add: g1_ok_def)
  then have each: "\<exists>r. g1_receipt w a = Some r \<and> known_kind r" if "a \<in> set ?tws" for a
    using that unfolding g1_books_def by blast
  define l where "l = map (\<lambda>a. \<lparr>ps_TokenOwner = a, ps_Hash = the (G1_withdrawal_hash H mg (the (g1_receipt w a)))\<rparr>)
    (filter (unsigned1 w) ?tws)"
  have "G1_PendingWithdrawals H (Some mg) w = Inr l"
    using G1_summarise_list [OF each, of ?tws H mg "[]"] by (simp add: G1_PendingWithdrawals_def l_def)
  moreover have owners: "map ps_TokenOwner l = filter (unsigned1 w) ?tws" by (simp add: l_def o_def)
  have "set (map ps_TokenOwner l) = {a. unsigned1 w a}" "distinct (map ps_TokenOwner l)"
    unfolding owners using books by (auto simp: g1_books_def unsigned1_def)
  moreover have "\<exists>r. g1_receipt w (ps_TokenOwner s) = Some r \<and> G1_withdrawal_hash H mg r = Some (ps_Hash s)" if "s \<in> set l" for s
    using that each G1_withdrawal_hash_total by (fastforce simp: l_def)
  ultimately show ?thesis by blast
qed

section \<open>A run\<close>

definition demo_g1_ctx :: "address \<Rightarrow> call_ctx" where
  "demo_g1_ctx a = (plain_ctx a)\<lparr>contract_address := eth_spender, resolve := (\<lambda>_. Inr eth_spender)\<rparr>"

definition demo_g1_env :: "unit g1_env" where
  "demo_g1_env = \<lparr>g1_T = evm_tokens.extend demo_tokens \<lparr>erc721_ownerOf = (\<lambda>_ _ _. Inr eth_spender)\<rparr>, g1_H = demo_sol,
     g1_recover = (\<lambda>_ _. Inr []), g1_creator = (\<lambda>_. Inr demo_alice)\<rparr>"

definition demo_g1_0 :: "unit g1_world" where
  "demo_g1_0 = G1_saveState \<lparr>gs_Owner = Some demo_bob, gs_NextContractMappingID = 1, gs_LastMainnetBlockNum = 10, gs_TokenWithdrawers = []\<rparr>
     (G1_addOracle demo_gw_oracle ((g1_empty demo_eth_store [eth_owner \<mapsto> \<lparr>am_From = eth_owner, am_To = demo_eth_user\<rparr>] ())
        \<lparr>g1_perms := [(demo_bob, ''change-oracles'', ''owner'')]\<rparr>))"

lemma demo_g1_0_reachable: "g1_reachable demo_g1_env demo_g1_0"
proof -
  have "G1_Init (Some demo_bob) [demo_gw_oracle] 10
      (g1_empty demo_eth_store [eth_owner \<mapsto> \<lparr>am_From = eth_owner, am_To = demo_eth_user\<rparr>] ()) = Inr demo_g1_0"
    by (simp add: G1_Init_def demo_g1_0_def g1_empty_def GrantPermissionTo_def)
  with filing_run.stop [of "g1_step demo_g1_env" demo_g1_0] show ?thesis unfolding g1_reachable_def by blast
qed

definition demo_r1 :: Receipt1 where
  "demo_r1 = \<lparr>r1_TokenOwner = demo_eth_user, r1_TokenContract = demo_gw, r1_TokenKind = TokenKind_ETH, r1_Value = 3,
     r1_WithdrawalNonce = 0, r1_OracleSignature = None\<rparr>"

lemma demo_g1_withdraw:
  obtains w where "g1_reachable demo_g1_env w" "g1_acct w = (\<lambda>_. (0, None))(eth_owner := (1, Some demo_r1))"
    "g1_perms w = g1_perms demo_g1_0"
proof -
  note defs = demo_g1_0_def G1_saveState_def G1_addOracle_def g1_empty_def
  have fresh: "g1_accounts demo_g1_0 = Map.empty" "gs_TokenWithdrawers (G1_loadState demo_g1_0) = []"
    by (simp_all add: defs G1_loadState_def)
  have start: "G1_start_withdrawal (demo_g1_ctx eth_owner) demo_g1_0 = Inr demo_eth_user"
    by (simp add: G1_start_withdrawal_def demo_g1_ctx_def loadAccount1_def fresh G1_resolveToMapped_def GetMapping_def)
      (simp add: defs)
  obtain c where "ETHCoin_TransferFrom (plain_ctx eth_spender) demo_eth_store
      \<lparr>tf_from = eth_owner, tf_to = eth_spender, tf_amount = Some 3\<rparr> = Inr c"
    by (simp add: ETHCoin_TransferFrom_def ethcoin_op_simps store_simps)
  then have "ETHCoin_TransferFrom (as_gateway (demo_g1_ctx eth_owner)) (g1_eth demo_g1_0)
      \<lparr>tf_from = eth_owner, tf_to = eth_spender, tf_amount = Some 3\<rparr> = Inr c"
    by (simp add: defs ETHCoin_TransferFrom_def as_gateway_def demo_g1_ctx_def)
  then have moved: "only_ok (eth1_transferFrom (demo_g1_ctx eth_owner) eth_owner eth_spender 3 demo_g1_0) = Inr (demo_g1_0\<lparr>g1_eth := c\<rparr>)"
    by (simp add: eth1_transferFrom_def G1_on_eth_def only_ok_def)
  obtain w where w: "G1_WithdrawETH (demo_g1_ctx eth_owner) (Some 3) (Some demo_gw) demo_g1_0 = Inr w"
    and acct: "g1_acct w = (\<lambda>_. (0, None))(eth_owner := (1, Some demo_r1))" and perms: "g1_perms w = g1_perms demo_g1_0"
    using start moved fresh
    by (simp add: G1_WithdrawETH_def newETHContext1_def demo_g1_ctx_def G1_file_receipt_def Let_def
        addTokenWithdrawer_def G1_loadState_def saveAccount1_def emit1_def G1_saveState_def fun_eq_iff g1_acct_def
        loadAccount1_def demo_r1_def)
  have "g1_step demo_g1_env (Some (sender (demo_g1_ctx eth_owner))) demo_g1_0 w" using w by (rule g1_step.withdraw_eth)
  then have "g1_reachable demo_g1_env w"
    using demo_g1_0_reachable unfolding g1_reachable_def by (meson filing_run.files)
  then show ?thesis using acct perms by (rule that)
qed

theorem g1_nonce_identifies_withdrawal_witness:
  "\<exists>(w :: unit g1_world) (w' :: unit g1_world) r'. g1_receipt w eth_owner = Some demo_r1 \<and> g1_receipt w' eth_owner = Some r' \<and>
     r1_OracleSignature r' = Some [1] \<and> r1_WithdrawalNonce r' = r1_WithdrawalNonce demo_r1 \<and> same_withdrawal demo_r1 r'"
proof -
  obtain w where w: "g1_reachable demo_g1_env w" "g1_acct w = (\<lambda>_. (0, None))(eth_owner := (1, Some demo_r1))"
    "g1_perms w = g1_perms demo_g1_0" by (rule demo_g1_withdraw)
  then have r: "g1_receipt w eth_owner = Some demo_r1" by simp
  have "g1_keyed w" using g1_reachable_ok [OF w(1)] by (simp add: g1_ok_def g1_books_def)
  moreover have "HasPermission (g1_perms w) demo_gw_oracle ''sign-withdrawals'' [''oracle'']"
    by (simp add: w(3) demo_g1_0_def G1_saveState_def G1_addOracle_def oracle_perms_def HasPermission_Grant)
  moreover have "ac_WithdrawalReceipt (loadAccount1 w eth_owner) = Some demo_r1" using r by (simp add: g1_acct_def)
  ultimately obtain w' where w': "G1_ConfirmWithdrawalReceipt (demo_g1_ctx demo_gw_oracle) (Some eth_owner) (Some [1]) w = Inr w'"
    and r': "g1_receipt w' eth_owner = Some (demo_r1\<lparr>r1_OracleSignature := Some [1]\<rparr>)"
    by (simp add: G1_ConfirmWithdrawalReceipt_def demo_g1_ctx_def Let_def demo_r1_def loadAccount1_owner proto_bytes_def)
  have "filing_run (g1_step demo_g1_env) [] w w'" using g1_step.confirm [OF w', of demo_g1_env] by (rule filing_run_silent)
  from g1_nonce_identifies_withdrawal [OF w(1) this r r'] show ?thesis
    using r r' by (intro exI [of _ w] exI [of _ w']) auto
qed

theorem g1_pending_withdrawals_exact_witness:
  "\<exists>(w :: unit g1_world) l. G1_PendingWithdrawals demo_sol (Some demo_gw) w = Inr l \<and> set (map ps_TokenOwner l) = {eth_owner}"
proof -
  obtain w where w: "g1_reachable demo_g1_env w" "g1_acct w = (\<lambda>_. (0, None))(eth_owner := (1, Some demo_r1))"
    by (rule demo_g1_withdraw)
  then have "{a. unsigned1 w a} = {eth_owner}"
    by (auto simp: unsigned1_def demo_r1_def split: if_split_asm)
  then show ?thesis
    using g1_pending_withdrawals_exact [OF w(1), of demo_sol demo_gw] by auto
qed

section \<open>Control operations as in the current gateway\<close>

text \<open>
  The part of the state that oracles and contract mappings concern, as a state of the current gateway;
  of the events it keeps the confirmed mappings.
\<close>

definition g1_control :: "'t g1_world \<Rightarrow> 't gw_world" where
  "g1_control w =
     \<lparr>gw_state = g1_state w, gw_oracles = g1_oracles w, gw_local = Map.empty, gw_foreign = Map.empty, gw_unclaimed = [],
      gw_depositors = g1_depositors w, gw_seen = Map.empty, gw_mappings = g1_mappings w, gw_pending = g1_pending w,
      gw_perms = g1_perms w, gw_coin = empty_coin_store, gw_eth = g1_eth w, gw_mapper = g1_mapper w, gw_tokens = g1_tokens w,
      gw_events = List.map_filter (\<lambda>ev. case ev of Ev1ContractMappingConfirmed f l \<Rightarrow> Some (EvContractMappingConfirmed f l) | _ \<Rightarrow> None)
        (g1_events w)\<rparr>"

lemma g1_control_state: "loadState (g1_control w) = G1_loadState w"
  by (simp add: g1_control_def loadState_def G1_loadState_def)

lemma g1_control_exists: "contractMappingExists (g1_control w) f l = G1_contractMappingExists w f l"
  by (simp add: contractMappingExists_def G1_contractMappingExists_def g1_control_def)

lemma g1_control_verify: "map_sum id g1_control (G1_verify_creator c w) = verify_creator c (g1_control w)"
  by (auto simp: G1_verify_creator_def verify_creator_def G1_confirmContractMapping_def confirmContractMapping_def
      g1_control_def Let_def bind_res_def set_contract_mapping_def emit_def emit1_def map_filter_snoc split: option.split sum.split)

lemma g1_control_verify_all:
  "map_sum id g1_control (fold_res G1_verify_creator cs w) = fold_res verify_creator cs (g1_control w)"
proof (induction cs arbitrary: w)
  case (Cons c cs)
  show ?case
    using Cons.IH by (cases "G1_verify_creator c w") (simp_all flip: g1_control_verify)
qed simp

theorem g1_control_as_current:
  "map_sum id g1_control (G1_AddOracle ctx a w) = Gateway_AddOracle ctx a (g1_control w) \<and>
   map_sum id g1_control (G1_RemoveOracle ctx a w) = Gateway_RemoveOracle ctx a (g1_control w) \<and>
   map_sum id g1_control (G1_AddContractMapping H rec cr ctx f l sig h w) = AddContractMapping H rec cr ctx f l sig h (g1_control w) \<and>
   map_sum id g1_control (G1_VerifyContractCreators ctx cs w) = VerifyContractCreators ctx cs (g1_control w) \<and>
   G1_UnverifiedContractCreators w = UnverifiedContractCreators (g1_control w)"
proof (intro conjI)
  show "map_sum id g1_control (G1_AddOracle ctx a w) = Gateway_AddOracle ctx a (g1_control w)"
    by (auto simp: G1_AddOracle_def Gateway_AddOracle_def G1_addOracle_def addOracle_def g1_control_def split: option.split)
  show "map_sum id g1_control (G1_RemoveOracle ctx a w) = Gateway_RemoveOracle ctx a (g1_control w)"
    by (auto simp: G1_RemoveOracle_def Gateway_RemoveOracle_def removeOracle_def g1_control_def split: option.split)
  show "map_sum id g1_control (G1_AddContractMapping H rec cr ctx f l sig h w) = AddContractMapping H rec cr ctx f l sig h (g1_control w)"
    unfolding G1_AddContractMapping_def AddContractMapping_def g1_control_state g1_control_exists
    by (auto simp: bind_res_def Let_def G1_saveState_def saveState_def g1_control_def split: option.split sum.split)
  show "map_sum id g1_control (G1_VerifyContractCreators ctx cs w) = VerifyContractCreators ctx cs (g1_control w)"
    using g1_control_verify_all [of cs w]
    by (simp add: G1_VerifyContractCreators_def VerifyContractCreators_def) (simp add: g1_control_def)
  show "G1_UnverifiedContractCreators w = UnverifiedContractCreators (g1_control w)"
    by (simp add: G1_UnverifiedContractCreators_def UnverifiedContractCreators_def g1_control_def)
qed

end
