(* ===== verification/Spec2Isabelle.thy ===== *)
theory Spec2Isabelle
  imports Coin_Contract Eth_Coin Tx_Pipeline Address_Mapper Deployer_Whitelist Chain_Config Dpos_Election
    Karma_Ownership Throttle Registry Plugin_Vm Gateway_Events Receipts Fn_Reactor Plasma_Custody
    Event_Log Versioned_Stores Store_Caches Dpos_V1 Dpos_V2_Books Gateway_V1_Accounts
begin

text \<open>
  \<^bold>\<open>Diadem chain: a verification library\<close>

  Diadem is an application chain: Tendermint orders transactions, the ABCI application (\<open>app.go\<close>)
  runs each one through a chain of middleware (\<open>middleware.go\<close>, \<open>auth/\<close>, \<open>throttle/\<close>) and a router to
  a virtual machine, and built-in contracts (\<open>builtin/plugins/\<close>) keep tokens, identities, deployment
  rights, the chain's feature flags and the validators. This library models that core and proves what
  makes each part correct. The paths below are relative to \<open>src/\<close>.

  \<^bold>\<open>Theories\<close>

  \<^item> \<open>Diadem_Prelude\<close>: errors as values (\<open>res\<close>, with \<open>Panic\<close> for a Go panic), loops with an early
    return (\<open>fold_res\<close>), byte slices, addresses with their order, the context of a contract call.
  \<^item> \<open>Kv_Store\<close>: the store interface of \<open>store/store.go\<close> as the locale \<open>kv_store\<close>, interpreted for the
    memory store (\<open>store/memstore.go\<close>) and for store transactions over it; prefixed stores; the
    persistent counter of \<open>sequence.go\<close>. A transaction refines the store it wraps in lookups, though not
    in ranges (\<open>cacheTx_atomic\<close>), and stores under different prefixes are private (\<open>prefix_isolation\<close>).
  \<^item> \<open>Tx_Pipeline\<close>: \<open>middleware.go\<close>, \<open>router.go\<close>, \<open>auth/auth.go\<close> and the block and transaction
    methods of \<open>app.go\<close>. The locale \<open>local_handler\<close> says what a handler may touch, \<open>sequenced_app\<close>
    that signatures and nonces guard it; the interpretation \<open>memapp\<close> puts both on the model. Shown:
    transactions are atomic, authentic and delivered at most once; CheckTx accepts runs of sequence
    numbers; panics do not reach the application; heights are consecutive; feature flags are read back.
  \<^item> \<open>Coin_Ledger\<close>, \<open>Coin_Contract\<close>, \<open>Eth_Coin\<close>: the storage of the two token contracts, the locale
    \<open>erc20\<close> of the ledger laws, and \<open>coin.go\<close> and \<open>eth_coin.go\<close> as its two interpretations. Shown:
    functional behaviour of every method, balanced books over the reachable states, allowances as
    budgets, who may mint and burn.
  \<^item> \<open>Address_Mapper\<close>: the address mapper contract and the multi-chain signature middleware of \<open>auth/\<close>
    that resolves foreign accounts with it; mappings are mutual, authorised, and never overwritten.
  \<^item> \<open>Deployer_Whitelist\<close>: the contract, its flag words, and \<open>throttle/deployer-middleware.go\<close>, which
    enforces it.
  \<^item> \<open>Chain_Config\<close>: \<open>builtin/plugins/chainconfig/chainconfig.go\<close> and \<open>plugin/chain_config_manager.go\<close>.
    The locale \<open>feature_chain\<close> links the contract to the feature flags of the application; the step
    relation \<open>cfg_step\<close> runs contract calls and block activations in any order. \<open>advance\<close> is the
    specification of one block, by the share of current validators; \<open>advance_counted\<close> is what the code counts.
  \<^item> \<open>Dpos_Util\<close>, \<open>Dpos_Storage\<close>, \<open>Dpos_Contract\<close>, \<open>Dpos_Election\<close>: the staking contract
    \<open>builtin/plugins/dposv3/\<close> (\<open>util.go\<close>, \<open>storage.go\<close>, \<open>erc20.go\<close>, \<open>dpos.go\<close>) and
    \<open>plugin/validators_manager_v3.go\<close>. The contract calls the coin contract through the laws of
    \<open>erc20\<close>; \<open>claims\<close> is what it owes its delegators. Shown: what each delegation operation and each
    election does to \<open>claims\<close> and to the balances, who is elected and with which power, that the
    consensus engine receives exactly the difference of two validator sets, that settings belong to
    the oracle and request batches are not replayed; and, where the code falls short, the exact
    effect (deleting from the delegation list, partial redelegation, the share of reward delegations).

  \<^item> \<open>Karma\<close>, \<open>Karma_Upkeep\<close>, \<open>Karma_Ownership\<close>: the karma contract (\<open>builtin/plugins/karma/\<close>): karma
    by source, totals, coin deposits through the coin contract, contract records and upkeep. Shown: the
    coins behind coin karma are there, up to what was granted without coins, upkeep charges its exact cost, the count of owned
    contracts agrees with the active records (and where upkeep breaks it).
  \<^item> \<open>Throttle\<close>: the middleware of \<open>throttle/\<close>. The ring buffer of the origin validator implements a
    sliding window over the whole history; without karma no transaction passes.
  \<^item> \<open>Registry\<close>: both versions of \<open>registry/\<close> over the store, as instances of the locale \<open>registry\<close>: names are
    permanent, the versions agree, records are read back.
  \<^item> \<open>Plugin_Vm\<close>: \<open>plugin/vm.go\<close>, \<open>plugin/loader.go\<close>, \<open>vm/vm.go\<close>, \<open>vm/handler.go\<close>. A contract is a program of
    \<open>action\<close>s on its context; the locale \<open>contract_storage\<close> says that the prefixes of two contracts do not
    meet and that the EVM writes no contract's storage but that of the ethcoin contract, in which its
    balance manager (\<open>plugin/account_balance_manager.go\<close>) keeps balances. Shown: an invariant that any other
    contract keeps by itself survives whatever enters the machine, and the machines act only for the
    account that signed.
  \<^item> \<open>Gateway\<close>, \<open>Gateway_Withdrawals\<close>, \<open>Gateway_Events\<close>: the transfer gateway (\<open>builtin/plugins/gateway/\<close>) on
    the models of the coin contracts and the address mapper. The step relation \<open>gw_step\<close> has a rule for
    every method; the locale \<open>withdrawal_service\<close> is its interface as a machine of pending withdrawals.
    Shown: the refinement, the receipts offered to the oracle, their nonces, that receipts are not
    altered and batches not replayed, that a deposit becomes a balance or a claim, and that the
    contract mapping is one to one.
  \<^item> \<open>Gateway_V1\<close> and \<open>Gateway_V1_Accounts\<close>: the first version of the gateway
    (\<open>builtin/plugins/gateway/v1/\<close>). The locale \<open>account_service\<close> is its interface as accounts that file,
    sign and complete one receipt at a time (\<open>life_run\<close>), along runs that record for whom a withdrawal was
    filed (\<open>filing_run\<close>): nonces count the withdrawals filed and belong to one of them each, the oracles
    are offered exactly the unsigned receipts, and oracles and contract mappings are handled as in the
    current version (\<open>g1_control_as_current\<close>).
  \<^item> \<open>Receipts\<close>: the receipts of EVM transactions (\<open>receipts/\<close>). The linked list in LevelDB is a
    bounded queue of the receipts committed so far (\<open>db_rep\<close>, a refinement along the step relation
    \<open>receipts_reach\<close>); receipts in the application state are read back, also after an upgrade; the two
    oldest handlers are equivalent.
  \<^item> \<open>Fn_Votes\<close>, \<open>Fn_Reactor\<close>: the function consensus of the gateway validators (\<open>fnConsensus/\<close>). A
    vote set passes \<open>IsValid\<close> exactly when it is \<open>valid_votes\<close>; merging and voting keep that, and the tally
    finds the hash that reaches the threshold. The step relation \<open>fn_step\<close> interleaves votes, commits and
    messages of peers: vote sets stay valid, nonces do not go back, submissions are certified. Across changes
    of the validators (\<open>fn_history\<close>) a round of commits settles what is valid and has converged and drops
    what the new validators no longer validate; conflicting majorities expose a third of the power.
  \<^item> \<open>Request_Batch\<close>, \<open>Plasma_Cash\<close>, \<open>Plasma_Custody\<close>: batches of requests relayed by an oracle, as the locale
    \<open>request_batch\<close> with what follows for every such loop (positions only grow, nothing is consumed
    twice), and the plasma cash contract (\<open>builtin/plugins/plasma_cash/plasma_cash.go\<close>) with its
    batches as an instance. The abstract ledger \<open>custody\<close> has one holder per coin; every run of the
    contract without transfers to oneself and deposits of slots in use (\<open>careful_run\<close>) is a run of the ledger, transfers need the holder's signature, blocks are never
    overwritten and come with proofs of inclusion and of absence.
  \<^item> \<open>Event_Log\<close>: events from \<open>event.go\<close> through \<open>events/db_indexer.go\<close> to \<open>store/eventstore.go\<close>. The run
    relation \<open>event_run\<close> interleaves posts, emissions and queries; the database represents the log of
    what was emitted (\<open>db_holds\<close>), so that queries by range and by contract are exact and every posted
    event is emitted once. The subscription set keeps its lock, which shows where a call waits for itself.
  \<^item> \<open>Dpos_V1\<close>: the first staking contract (\<open>builtin/plugins/dpos/\<close>): candidates, votes and the election
    over the coin contract. Nobody casts more votes than the allocation, and an election makes the
    strongest candidates witnesses.
  \<^item> \<open>Dpos_V2\<close> and \<open>Dpos_V2_Books\<close>: the second staking contract (\<open>builtin/plugins/dposv2/\<close>), its validators
    manager and the migration to version 3. In every run (\<open>v2_run\<close>) the balance of the contract covers
    the stakes up to the rewards it paid and what partial redelegations count twice; the migration
    stores one delegation for each with what was bonded, and the lemmas show what it loses.
  \<^item> \<open>Versioned_Stores\<close>: the versioned stores under \<open>store/\<close> over the operations of the IAVL library. Key
    ranges are exact, pruning keeps the newest versions and catches up (\<open>pruning_run\<close>). In runs that stop at
    every point of a save (\<open>mr_run\<close>) database snapshots show one version, tree snapshots the keys of one
    version with values that may be newer, and a crash is found on opening.
  \<^item> \<open>Store_Caches\<close>: the write-through cache of the application store as an interleaving of a writer and a
    reader (\<open>caching_run\<close>), with what keeps it coherent and the race that does not; the block store
    interface as the locale \<open>block_store\<close>, of which the store in use is an instance by the laws of Tendermint's
    RPC core (\<open>tendermint_core\<close>): for given heights both block caches answer as the store does.

  \<^bold>\<open>How the code is read\<close>

  A contract's storage is a record of maps; a value that was set is the value a later get returns.
  A method gives the new storage or an error, and an error discards the storage, as the store
  transaction of \<open>processTx\<close> is rolled back. A nil pointer that is dereferenced is a \<open>Panic\<close>.
  \<open>BigUInt\<close> is \<open>int\<close>; \<open>uint64\<close>, \<open>uint32\<close> and enums that a request can set freely are words; \<open>int64\<close>
  is \<open>int\<close> with \<open>i64\<close> where it can wrap. The two floating point operations of the power cap
  are modelled exactly, as roundings to 53 bits. Protobuf codecs, signature schemes and hash functions are
  third-party code and appear as arguments; the properties that need something of them assume it
  by name. Go's map iteration order is an argument, or shown not to matter.

  \<^bold>\<open>Bounds\<close>

  Loops are structural recursion. The one search without a bound, for a free delegation index, runs
  with one step more than there are stored delegations, which \<open>next_index_is_first_free\<close> shows to be
  enough while fewer than \<open>2 ^ 64\<close> are stored. Calls between contracts carry a depth: at depth 0 the
  Go stack is taken to be exhausted, a panic, and the theorems hold at every depth.

  \<^bold>\<open>Not modelled\<close>

  Logging and metrics, which carry no state; events where nothing depends on them; the EVM, the RPC
  server, the oracles, database backends, key management and the command line, which are I/O or glue
  around third-party code. Listings that only read a key range.
  Calls of the EVM from contracts and token contracts in the EVM appear as arguments.
\<close>

end
